(* ===== verification/Prelude.thy ===== *)
theory Prelude
  imports Main "HOL-Library.Word"
begin

unbundle bit_operations_syntax

text \<open>
  Shared ground of the development: the C integer types that the daemon uses, the way a run of
  the daemon can stop (\<open>Alarm(EXIT, ...)\<close> and \<open>assert\<close>), and the generic lemmas on
  failing computations, lists and 16-bit conversions that the component theories use.
\<close>

section \<open>C integer types\<close>

text \<open>
  Unsigned C integers are words of their width. Signed C integers are \<open>int\<close>: their overflow
  is undefined in C, so where it could matter the development states the bound that excludes it.
  An assignment to an \<open>int16\<close> variable truncates; \<open>int16_of\<close> is that conversion.
\<close>

type_synonym int16u = "16 word"
type_synonym int32u = "32 word"

definition int16_of :: "int \<Rightarrow> int" where
  "int16_of x = (x + 2 ^ 15) mod 2 ^ 16 - 2 ^ 15"

lemma int16_of_range: "- (2 ^ 15) \<le> int16_of x \<and> int16_of x < 2 ^ 15"
  by (simp add: int16_of_def)

lemma int16_of_id: "- (2 ^ 15) \<le> x \<Longrightarrow> x < 2 ^ 15 \<Longrightarrow> int16_of x = x"
  by (simp add: int16_of_def)

lemma int16_of_add: "int16_of (int16_of x + int16_of y) = int16_of (x + y)"
proof -
  have "(int16_of x + int16_of y + 2 ^ 15) mod 2 ^ 16
      = ((x + 2 ^ 15) mod 2 ^ 16 + ((y + 2 ^ 15) mod 2 ^ 16 - 2 ^ 15)) mod (2 ^ 16 :: int)"
    by (simp add: int16_of_def algebra_simps)
  also have "\<dots> = ((y + 2 ^ 15) mod 2 ^ 16 + (x + 2 ^ 15 - 2 ^ 15)) mod (2 ^ 16 :: int)"
    by (subst mod_add_left_eq) (simp add: algebra_simps)
  also have "\<dots> = (x + y + 2 ^ 15) mod (2 ^ 16 :: int)"
    by (subst mod_add_left_eq) (simp add: algebra_simps)
  finally show ?thesis by (simp add: int16_of_def)
qed

text \<open>C division rounds towards zero.\<close>

definition c_div :: "int \<Rightarrow> int \<Rightarrow> int" where
  "c_div a b = sgn a * sgn b * (\<bar>a\<bar> div \<bar>b\<bar>)"

definition c_rem :: "int \<Rightarrow> int \<Rightarrow> int" where
  "c_rem a b = a - b * c_div a b"

lemma c_div_nonneg: "0 \<le> a \<Longrightarrow> 0 < b \<Longrightarrow> c_div a b = a div b"
  by (cases "a = 0") (auto simp: c_div_def)

lemma c_rem_nonneg: "0 \<le> a \<Longrightarrow> 0 < b \<Longrightarrow> c_rem a b = a mod b"
  by (simp add: c_rem_def c_div_nonneg minus_mult_div_eq_mod)

text \<open>Arithmetic on a circle of \<open>m\<close> sequence numbers.\<close>

lemma circle_add:
  fixes a b m :: int
  assumes "0 \<le> a" "a < m" "0 \<le> b" "b < m"
  shows "(a + b) mod m = (if a + b < m then a + b else a + b - m)"
proof -
  have "(a + b) mod m = (a + b - m) mod m" by simp
  moreover have "(a + b - m) mod m = a + b - m" if "\<not> a + b < m" using assms that by (intro mod_pos_pos_trivial) auto
  ultimately show ?thesis using assms by simp
qed

lemma circle_diff:
  fixes a b m :: int
  assumes "0 \<le> a" "a < m" "0 \<le> b" "b < m"
  shows "(a - b) mod m = (if b \<le> a then a - b else a - b + m)"
proof -
  have "(a - b) mod m = (a - b + m) mod m" by simp
  moreover have "(a - b + m) mod m = a - b + m" if "\<not> b \<le> a" using assms that by (intro mod_pos_pos_trivial) auto
  ultimately show ?thesis using assms by simp
qed

section \<open>Computations that may stop the daemon\<close>

text \<open>
  \<open>Alarm(EXIT, msg)\<close> ends the process, a failed \<open>assert\<close> aborts it, and a read through a
  dangling or null pointer or of bytes that are not there is undefined, a loop may not end. Each is a
  value of \<open>failure\<close>, and an operation that can fail returns a sum with the failure on the left.
\<close>

datatype failure = EXIT string | ASSERT string | UNDEF string | LOOPS string

type_synonym 'a res = "failure + 'a"

definition bind_res :: "'a res \<Rightarrow> ('a \<Rightarrow> 'b res) \<Rightarrow> 'b res" where
  "bind_res m f = (case m of Inl e \<Rightarrow> Inl e | Inr x \<Rightarrow> f x)"

lemma bind_res_simps [simp]:
  "bind_res (Inl e) f = Inl e"
  "bind_res (Inr x) f = f x"
  by (simp_all add: bind_res_def)

lemma bind_res_Inr_iff: "bind_res m f = Inr y \<longleftrightarrow> (\<exists>x. m = Inr x \<and> f x = Inr y)"
  by (cases m) auto

lemma bind_res_InrE [elim]:
  assumes "bind_res m f = Inr y"
  obtains x where "m = Inr x" and "f x = Inr y"
  using assms by (auto simp: bind_res_Inr_iff)

lemma bind_res_assoc: "bind_res (bind_res m f) g = bind_res m (\<lambda>x. bind_res (f x) g)"
  by (cases m) auto

text \<open>A loop whose body may fail: the fold stops at the first failure.\<close>

fun fold_res :: "('x \<Rightarrow> 's \<Rightarrow> 's res) \<Rightarrow> 'x list \<Rightarrow> 's \<Rightarrow> 's res" where
  "fold_res f [] s = Inr s"
| "fold_res f (x # xs) s = bind_res (f x s) (fold_res f xs)"

lemma fold_res_append: "fold_res f (xs @ ys) s = bind_res (fold_res f xs s) (fold_res f ys)"
proof (induction xs arbitrary: s)
  case (Cons x xs)
  then have "fold_res f (xs @ ys) = (\<lambda>s. bind_res (fold_res f xs s) (fold_res f ys))" by blast
  then show ?case by (simp add: bind_res_assoc)
qed simp

lemma fold_res_invariant:
  assumes "fold_res f xs s = Inr t" and "P s"
    and "\<And>x s t. x \<in> set xs \<Longrightarrow> P s \<Longrightarrow> f x s = Inr t \<Longrightarrow> P t"
  shows "P t"
  using assms
proof (induction xs arbitrary: s)
  case Nil
  then show ?case by simp
next
  case (Cons x xs)
  then obtain u where u: "f x s = Inr u" "fold_res f xs u = Inr t" by auto
  have "P u" using Cons.prems(3) [OF _ Cons.prems(2) u(1)] by simp
  then show ?case
    by (rule Cons.IH [OF u(2)]) (use Cons.prems(3) in \<open>auto intro: list.set_intros\<close>)
qed

section \<open>Lists\<close>

lemma list_eqI: "length xs = length ys \<Longrightarrow> (\<And>i. i < length xs \<Longrightarrow> xs ! i = ys ! i) \<Longrightarrow> xs = ys"
  by (simp add: nth_equalityI)

lemma matrix_index_less: "(i::nat) < n \<Longrightarrow> j < n \<Longrightarrow> i * n + j < n * n"
proof -
  assume "i < n" "j < n"
  then have "i * n + j < i * n + n" by simp
  also have "\<dots> = Suc i * n" by simp
  also have "\<dots> \<le> n * n" using \<open>i < n\<close> by (intro mult_le_mono1) simp
  finally show ?thesis .
qed

lemma matrix_index_inj:
  assumes "(j::nat) < n" "j' < n"
  shows "i * n + j = i' * n + j' \<longleftrightarrow> i = i' \<and> j = j'"
proof
  assume eq: "i * n + j = i' * n + j'"
  have "(i * n + j) div n = i" "(i' * n + j') div n = i'" using assms by simp_all
  with eq have "i = i'" by simp
  with eq show "i = i' \<and> j = j'" by simp
qed simp

end
