(* ===== verification/Net_Types.thy ===== *)
theory Net_Types
  imports Prelude
begin

unbundle bit_operations_syntax

text \<open>
  The identifiers, address classes, byte-order macros and packet layouts of
  \<open>daemon/net_types.h\<close> and \<open>daemon/arch.h\<close>. The endianness of the host
  (\<open>ARCH_ENDIAN\<close>) is a parameter, because the point of the macros is that hosts of both
  kinds talk to each other.
\<close>

section \<open>Identifiers\<close>

type_synonym Spines_ID = int32u
type_synonym Node_ID = Spines_ID
type_synonym Group_ID = Spines_ID
type_synonym Interface_ID = Spines_ID
type_synonym Link_State_LTS = int16u

definition Is_mcast_addr :: "Spines_ID \<Rightarrow> bool" where
  "Is_mcast_addr x \<longleftrightarrow> x AND 0xF0000000 = 0xE0000000 \<or> x AND 0xFFFFFF00 = 0xFEFF0000"

definition Is_acast_addr :: "Spines_ID \<Rightarrow> bool" where
  "Is_acast_addr x \<longleftrightarrow> x AND 0xF0000000 = 0xF0000000 \<and> x AND 0xFFFFFF00 \<noteq> 0xFEFF0000"

definition Is_node_addr :: "Spines_ID \<Rightarrow> bool" where
  "Is_node_addr x \<longleftrightarrow> \<not> Is_mcast_addr x \<and> \<not> Is_acast_addr x"

section \<open>Byte order\<close>

definition Flip_int16 :: "int16u \<Rightarrow> int16u" where
  "Flip_int16 t = (drop_bit 8 t AND 0x00ff) OR (push_bit 8 t AND 0xff00)"

definition Flip_int32 :: "int32u \<Rightarrow> int32u" where
  "Flip_int32 t = (drop_bit 24 t AND 0x000000ff) OR (drop_bit 8 t AND 0x0000ff00)
     OR (push_bit 8 t AND 0x00ff0000) OR (push_bit 24 t AND 0xff000000)"

definition ENDIAN_TYPE :: int32u where
  "ENDIAN_TYPE = 0x80000080"

definition Get_endian :: "int32u \<Rightarrow> int32u" where
  "Get_endian t = t AND ENDIAN_TYPE"

definition Set_endian :: "int32u \<Rightarrow> int32u \<Rightarrow> int32u" where
  "Set_endian ARCH_ENDIAN t = (t AND NOT ENDIAN_TYPE) OR ARCH_ENDIAN"

definition Same_endian :: "int32u \<Rightarrow> int32u \<Rightarrow> bool" where
  "Same_endian ARCH_ENDIAN t \<longleftrightarrow> t AND ENDIAN_TYPE = ARCH_ENDIAN"

definition Clear_endian :: "int32u \<Rightarrow> int32u" where
  "Clear_endian t = t AND NOT ENDIAN_TYPE"

section \<open>Message types\<close>

definition RELIABLE_TYPE :: int32u where "RELIABLE_TYPE = 0x40000000"
definition LINK_STATE_TYPE :: int32u where "LINK_STATE_TYPE = 0x01000000"
definition GROUP_STATE_TYPE :: int32u where "GROUP_STATE_TYPE = 0x02000000"
definition ROUTE_MASK :: int32u where "ROUTE_MASK = 0x0f000000"
definition LINK_ACK_TYPE :: int32u where "LINK_ACK_TYPE = 0x00000001"
definition UDP_DATA_TYPE :: int32u where "UDP_DATA_TYPE = 0x00000002"
definition REL_UDP_DATA_TYPE :: int32u where "REL_UDP_DATA_TYPE = 0x00000003"
definition DATA_MASK :: int32u where "DATA_MASK = 0x0000007f"

definition Is_reliable :: "int32u \<Rightarrow> bool" where
  "Is_reliable t \<longleftrightarrow> t AND RELIABLE_TYPE \<noteq> 0"

definition Is_link_state :: "int32u \<Rightarrow> bool" where
  "Is_link_state t \<longleftrightarrow> t AND ROUTE_MASK = LINK_STATE_TYPE"

definition Is_group_state :: "int32u \<Rightarrow> bool" where
  "Is_group_state t \<longleftrightarrow> t AND ROUTE_MASK = GROUP_STATE_TYPE"

definition Is_link_ack :: "int32u \<Rightarrow> bool" where
  "Is_link_ack t \<longleftrightarrow> t AND DATA_MASK = LINK_ACK_TYPE"

definition Is_rel_udp_data :: "int32u \<Rightarrow> bool" where
  "Is_rel_udp_data t \<longleftrightarrow> t AND DATA_MASK = REL_UDP_DATA_TYPE"

lemmas message_type_defs =
  RELIABLE_TYPE_def LINK_STATE_TYPE_def GROUP_STATE_TYPE_def ROUTE_MASK_def LINK_ACK_TYPE_def
  UDP_DATA_TYPE_def REL_UDP_DATA_TYPE_def DATA_MASK_def
  Is_reliable_def Is_link_state_def Is_group_state_def Is_link_ack_def Is_rel_udp_data_def

section \<open>Data packets\<close>

datatype Link_Type =
    CONTROL_LINK | UDP_LINK | RELIABLE_UDP_LINK | REALTIME_UDP_LINK | RESERVED0_LINK | RESERVED1_LINK
  | INTRUSION_TOL_LINK | MAX_LINKS_4_EDGE

text \<open>The header of a data packet; \<open>reserved32\<close> and the members used by the sessions only are kept
  as they are by the code modelled here.\<close>

record udp_header =
  udp_source :: Node_ID
  udp_dest :: Spines_ID
  reserved32 :: int32u
  source_port :: int16u
  dest_port :: int16u
  udp_len :: int16u
  udp_seq_no :: int16u
  udp_sess_id :: int16u
  frag_num :: "8 word"
  frag_idx :: "8 word"
  ttl :: "8 word"
  routing :: "8 word"

record sb_header =
  source_incarnation :: int32u
  source_seq :: int32u

section \<open>Lemmas on byte order\<close>

lemma flip_masks:
  "(0x00ff :: int16u) = mask 8" "(0xff00 :: int16u) = push_bit 8 (mask 8)"
  "(0x000000ff :: int32u) = mask 8" "(0x0000ff00 :: int32u) = push_bit 8 (mask 8)"
  "(0x00ff0000 :: int32u) = push_bit 16 (mask 8)" "(0xff000000 :: int32u) = push_bit 24 (mask 8)"
  by (simp_all add: mask_eq_exp_minus_1)

lemma bit_Flip_int16:
  "bit (Flip_int16 t) n \<longleftrightarrow> (if n < 8 then bit t (n + 8) else n < 16 \<and> bit t (n - 8))"
  unfolding Flip_int16_def flip_masks
  by (auto simp: bit_simps add.commute)

lemma bit_Flip_int32:
  "bit (Flip_int32 t) n \<longleftrightarrow>
     (if n < 8 then bit t (n + 24) else if n < 16 then bit t (n + 8)
      else if n < 24 then bit t (n - 8) else n < 32 \<and> bit t (n - 24))"
  unfolding Flip_int32_def flip_masks
  by (auto simp: bit_simps add.commute)

lemma Flip_int16_Flip_int16 [simp]: "Flip_int16 (Flip_int16 t) = t"
  by (rule bit_word_eqI) (auto simp: bit_Flip_int16)

lemma Flip_int32_Flip_int32 [simp]: "Flip_int32 (Flip_int32 t) = t"
  by (rule bit_word_eqI) (auto simp: bit_Flip_int32)

lemma bit_ENDIAN_TYPE: "bit ENDIAN_TYPE n \<longleftrightarrow> n = 7 \<or> n = 31"
proof -
  have e: "ENDIAN_TYPE = push_bit 7 1 OR push_bit 31 1" by (simp add: ENDIAN_TYPE_def)
  show ?thesis unfolding e by (simp only: bit_simps) auto
qed

lemma Flip_int32_endian_bits: "Flip_int32 t AND ENDIAN_TYPE = Flip_int32 (t AND ENDIAN_TYPE)"
  by (rule bit_word_eqI) (auto simp: bit_simps bit_Flip_int32 bit_ENDIAN_TYPE)

end
