(* ===== verification/Link_Loss.thy ===== *)
theory Link_Loss
  imports Complex_Main Net_Types
begin

text \<open>
  The loss estimate of a network leg (\<open>daemon/link.c\<close>): every packet carries a sequence number per
  link type, the receiver takes the gaps for losses and keeps an exponentially decaying rate. The
  rate is a \<open>double\<close>; the model computes with rational numbers and applies the argument \<open>dbl\<close>, the
  rounding of the C arithmetic, to every result.
\<close>

section \<open>The operations\<close>

definition PACK_MAX_SEQ :: int where "PACK_MAX_SEQ = 30000"
definition LOSS_RATE_SCALE :: rat where "LOSS_RATE_SCALE = 1000000"
definition LOSS_DECAY_FACTOR :: rat where "LOSS_DECAY_FACTOR = 99 / 100"

definition Relative_Position :: "int \<Rightarrow> int \<Rightarrow> int" where
  "Relative_Position base sq =
     (if base \<le> sq
      then if sq - base < PACK_MAX_SEQ div 2 then sq - base else sq - base - PACK_MAX_SEQ
      else if PACK_MAX_SEQ div 2 < base - sq then sq + PACK_MAX_SEQ - base else sq - base)"

record Loss_Data =
  recvd_seqs :: "Link_Type \<Rightarrow> int"
  my_seqs :: "Link_Type \<Rightarrow> int"
  loss_rate :: rat

definition lost_one :: "(rat \<Rightarrow> rat) \<Rightarrow> rat \<Rightarrow> rat" where
  "lost_one dbl r = dbl (dbl (r * LOSS_DECAY_FACTOR) + dbl (1 - LOSS_DECAY_FACTOR))"

definition next_seq :: "int16u \<Rightarrow> int16u" where
  "next_seq i = word_of_int (c_rem (uint i + 1) PACK_MAX_SEQ)"

text \<open>The loop over the gap; \<open>None\<close> when it does not end.\<close>

partial_function (option) gap_loop :: "(rat \<Rightarrow> rat) \<Rightarrow> int16u \<Rightarrow> int16u \<Rightarrow> rat \<Rightarrow> rat option" where
  "gap_loop dbl seq_no i r =
     (if i = seq_no then Some r else gap_loop dbl seq_no (next_seq i) (lost_one dbl r))"

text \<open>\<open>l_data = None\<close>: the leg has no control link.\<close>

definition Check_Link_Loss ::
  "(rat \<Rightarrow> rat) \<Rightarrow> Loss_Data option \<Rightarrow> int16u \<Rightarrow> Link_Type \<Rightarrow> Loss_Data option option" where
  "Check_Link_Loss dbl l_data seq_no link_type =
     (case l_data of
        None \<Rightarrow> Some None
      | Some l \<Rightarrow>
          let sq = uint seq_no; seq_ptr = recvd_seqs l link_type;
              store = (\<lambda>l. l\<lparr>recvd_seqs := (recvd_seqs l)(link_type := int16_of sq)\<rparr>)
          in if seq_no = 0xffff \<or> link_type = INTRUSION_TOL_LINK then Some (Some l)
             else if seq_ptr = PACK_MAX_SEQ + 1 then Some (Some (store l))
             else if sq \<le> seq_ptr \<and> seq_ptr - sq < PACK_MAX_SEQ - seq_ptr + sq
                  \<or> seq_ptr < sq \<and> PACK_MAX_SEQ - sq + seq_ptr < sq - seq_ptr
             then Some (Some l)
             else map_option (\<lambda>r. Some (store (l\<lparr>loss_rate := dbl (r * LOSS_DECAY_FACTOR)\<rparr>)))
                    (gap_loop dbl seq_no (word_of_int (c_rem (seq_ptr + 1) PACK_MAX_SEQ)) (loss_rate l)))"

definition Compute_Loss_Rate :: "(rat \<Rightarrow> rat) \<Rightarrow> Loss_Data option \<Rightarrow> int res" where
  "Compute_Loss_Rate dbl l_data =
     (case l_data of
        None \<Rightarrow> Inl (ASSERT ''Compute_Loss_Rate'')
      | Some l \<Rightarrow> Inr \<lfloor>dbl (LOSS_RATE_SCALE * loss_rate l)\<rfloor>)"

definition Set_Loss_SeqNo :: "Link_Type \<Rightarrow> Loss_Data option \<Rightarrow> (int16u \<times> Loss_Data) res" where
  "Set_Loss_SeqNo link_type l_data =
     (case l_data of
        None \<Rightarrow> Inl (ASSERT ''Set_Loss_SeqNo'')
      | Some l \<Rightarrow>
          let s1 = int16_of (my_seqs l link_type + 1); s2 = (if PACK_MAX_SEQ \<le> s1 then 0 else s1)
          in Inr (word_of_int s2, l\<lparr>my_seqs := (my_seqs l)(link_type := s2)\<rparr>))"

section \<open>Sequence numbers\<close>

text \<open>The relative position is the difference modulo \<open>PACK_MAX_SEQ\<close> of least absolute value.\<close>

lemma Relative_Position_spec:
  assumes "0 \<le> base" "base < PACK_MAX_SEQ" "0 \<le> sq" "sq < PACK_MAX_SEQ"
  shows "(base + Relative_Position base sq) mod PACK_MAX_SEQ = sq \<and> \<bar>Relative_Position base sq\<bar> \<le> PACK_MAX_SEQ div 2"
  using assms by (auto simp: Relative_Position_def PACK_MAX_SEQ_def)

lemma next_seq_small: "uint i < PACK_MAX_SEQ \<Longrightarrow> uint (next_seq i) = (uint i + 1) mod PACK_MAX_SEQ"
  by (simp add: next_seq_def PACK_MAX_SEQ_def c_rem_nonneg uint_word_of_int take_bit_eq_mod)

lemma next_seq_range: "uint i < PACK_MAX_SEQ \<Longrightarrow> uint (next_seq i) < PACK_MAX_SEQ"
  by (simp add: next_seq_small PACK_MAX_SEQ_def)

lemma gap_loop_steps:
  assumes "uint i < PACK_MAX_SEQ" "uint seq_no = (uint i + int n) mod PACK_MAX_SEQ" "int n < PACK_MAX_SEQ"
  shows "gap_loop dbl seq_no i r = Some ((lost_one dbl ^^ n) r)"
  using assms
proof (induction n arbitrary: i r)
  case 0
  then have "i = seq_no" by (simp add: PACK_MAX_SEQ_def word_uint_eq_iff)
  then show ?case by (subst gap_loop.simps) simp
next
  case (Suc n)
  have "(uint i + int (Suc n)) mod PACK_MAX_SEQ \<noteq> uint i"
    using circle_add [of "uint i" PACK_MAX_SEQ "int (Suc n)"] Suc.prems(1,3) by (auto split: if_splits)
  then have "i \<noteq> seq_no" using Suc.prems(2) by auto
  moreover have "uint seq_no = (uint (next_seq i) + int n) mod PACK_MAX_SEQ"
    using Suc.prems(1,2) by (simp add: next_seq_small mod_simps) (simp add: add.commute add.left_commute)
  ultimately show ?case
    using Suc.IH [of "next_seq i" "lost_one dbl r"] Suc.prems next_seq_range [of i]
    by (subst gap_loop.simps) (simp add: funpow_swap1)
qed

lemma gap_loop_stays:
  assumes "gap_loop dbl seq_no i r = Some r'" "uint i < PACK_MAX_SEQ"
  shows "uint seq_no < PACK_MAX_SEQ"
proof -
  have "uint i < PACK_MAX_SEQ \<longrightarrow> uint seq_no < PACK_MAX_SEQ"
    by (rule gap_loop.raw_induct [OF _ assms(1)]) (auto dest: next_seq_range split: if_splits)
  with assms(2) show ?thesis by blast
qed

section \<open>The receiver's estimate\<close>

text \<open>What the sender numbers are on the wire.\<close>

definition seqs_ok :: "Loss_Data \<Rightarrow> bool" where
  "seqs_ok l \<longleftrightarrow> (\<forall>t. 0 \<le> recvd_seqs l t \<and> recvd_seqs l t < PACK_MAX_SEQ)"

definition seq_dist :: "int \<Rightarrow> int16u \<Rightarrow> nat" where
  "seq_dist s seq_no = nat ((uint seq_no - s) mod PACK_MAX_SEQ)"

text \<open>C22: for sequence numbers of the circle the receiver does what its estimate needs: a packet ahead of
  the last one by \<open>n\<close>, at most half the circle, counts \<open>n - 1\<close> losses and one arrival and becomes the
  last one; a packet that is not ahead changes nothing.\<close>

theorem Check_Link_Loss_counts:
  assumes "seqs_ok l" "uint seq_no < PACK_MAX_SEQ" "link_type \<noteq> INTRUSION_TOL_LINK"
  shows "Check_Link_Loss dbl (Some l) seq_no link_type = Some (Some
     (let n = seq_dist (recvd_seqs l link_type) seq_no in
      if n = 0 \<or> PACK_MAX_SEQ div 2 < int n then l
      else l\<lparr>recvd_seqs := (recvd_seqs l)(link_type := uint seq_no),
             loss_rate := dbl ((lost_one dbl ^^ (n - 1)) (loss_rate l) * LOSS_DECAY_FACTOR)\<rparr>))"
proof -
  let ?s = "recvd_seqs l link_type" and ?n = "seq_dist (recvd_seqs l link_type) seq_no"
  obtain x where x: "uint seq_no = x" "0 \<le> x" by simp
  have s: "0 \<le> ?s" "?s < 30000" "x < 30000" "seq_no \<noteq> 0xffff"
    using assms(1,2) x(1) by (auto simp: seqs_ok_def PACK_MAX_SEQ_def)
  have n: "int ?n = (if ?s \<le> x then x - ?s else x - ?s + 30000)"
    unfolding seq_dist_def PACK_MAX_SEQ_def x(1) circle_diff [OF x(2) s(3,1,2)] using s x(2) by auto
  have old: "(x \<le> ?s \<and> ?s - x < PACK_MAX_SEQ - ?s + x \<or> ?s < x \<and> PACK_MAX_SEQ - x + ?s < x - ?s)
      \<longleftrightarrow> ?n = 0 \<or> PACK_MAX_SEQ div 2 < int ?n"
    using s x(2) n unfolding PACK_MAX_SEQ_def by (auto split: if_splits)
  define i :: int16u where "i = word_of_int (c_rem (?s + 1) PACK_MAX_SEQ)"
  have i: "uint i = (if ?s = 29999 then 0 else ?s + 1)"
    using circle_add [of ?s 30000 1] s
    by (auto simp: i_def PACK_MAX_SEQ_def c_rem_nonneg uint_word_of_int take_bit_eq_mod)
  have "gap_loop dbl seq_no i (loss_rate l) = Some ((lost_one dbl ^^ (?n - 1)) (loss_rate l))" if "?n \<noteq> 0"
  proof (rule gap_loop_steps)
    show i_lt: "uint i < PACK_MAX_SEQ" using s by (auto simp: i PACK_MAX_SEQ_def)
    show n_lt: "int (?n - 1) < PACK_MAX_SEQ" using n s by (auto simp: PACK_MAX_SEQ_def split: if_splits)
    have "int (?n - 1) = int ?n - 1" using that by simp
    then show "uint seq_no = (uint i + int (?n - 1)) mod PACK_MAX_SEQ"
      using circle_add [of "uint i" PACK_MAX_SEQ "int (?n - 1)"] i_lt n_lt s x i n
      unfolding PACK_MAX_SEQ_def by (auto split: if_splits)
  qed
  moreover have "int16_of x = x" using s x(2) by (simp add: int16_of_id)
  moreover have "?s \<noteq> PACK_MAX_SEQ + 1" using s by (simp add: PACK_MAX_SEQ_def)
  ultimately show ?thesis
    using assms(3) s(4) unfolding Check_Link_Loss_def Let_def x(1) option.case old i_def [symmetric] by auto
qed

definition loss_start :: Loss_Data where
  "loss_start = \<lparr>recvd_seqs = (\<lambda>_. 29998), my_seqs = (\<lambda>_. 0), loss_rate = 0\<rparr>"

theorem Check_Link_Loss_counts_witness:
  "map_option (map_option (\<lambda>l. (recvd_seqs l UDP_LINK, loss_rate l))) (Check_Link_Loss id (Some loss_start) 1 UDP_LINK)
    = Some (Some (1, 19701 / 1000000))"
proof -
  have "seq_dist 29998 1 = 3" by (simp add: seq_dist_def PACK_MAX_SEQ_def)
  then show ?thesis
    using Check_Link_Loss_counts [of loss_start 1 UDP_LINK id]
    by (simp add: seqs_ok_def loss_start_def PACK_MAX_SEQ_def eval_nat_numeral lost_one_def LOSS_DECAY_FACTOR_def)
qed

text \<open>C23: a number outside the circle, other than the mark of a hello ping, that is not taken for an old
  packet keeps the loop over the gap going for ever.\<close>

theorem Check_Link_Loss_hangs:
  assumes "0 \<le> recvd_seqs l link_type" "recvd_seqs l link_type < PACK_MAX_SEQ" "link_type \<noteq> INTRUSION_TOL_LINK"
    and "PACK_MAX_SEQ \<le> uint seq_no" "seq_no \<noteq> 0xffff"
    and "uint seq_no - recvd_seqs l link_type \<le> PACK_MAX_SEQ - (uint seq_no - recvd_seqs l link_type)"
  shows "Check_Link_Loss dbl (Some l) seq_no link_type = None"
proof -
  let ?s = "recvd_seqs l link_type"
  define i :: int16u where "i = word_of_int (c_rem (?s + 1) PACK_MAX_SEQ)"
  have "uint i < PACK_MAX_SEQ"
    using assms(1) by (simp add: i_def PACK_MAX_SEQ_def c_rem_nonneg uint_word_of_int take_bit_eq_mod)
  then have "gap_loop dbl seq_no i (loss_rate l) = None"
    using gap_loop_stays [of dbl seq_no i "loss_rate l"] assms(4) by fastforce
  then show ?thesis using assms by (auto simp: Check_Link_Loss_def Let_def i_def [symmetric])
qed

theorem Check_Link_Loss_hangs_witness: "Check_Link_Loss id (Some loss_start) 30001 UDP_LINK = None"
  by (rule Check_Link_Loss_hangs) (simp_all add: loss_start_def PACK_MAX_SEQ_def)

section \<open>The sender's numbers\<close>

lemma Set_Loss_SeqNo_cycles:
  assumes "0 \<le> my_seqs l t" "my_seqs l t < PACK_MAX_SEQ"
  shows "Set_Loss_SeqNo t (Some l) =
    Inr (word_of_int ((my_seqs l t + 1) mod PACK_MAX_SEQ), l\<lparr>my_seqs := (my_seqs l)(t := (my_seqs l t + 1) mod PACK_MAX_SEQ)\<rparr>)"
proof -
  have "(my_seqs l t + 1) mod PACK_MAX_SEQ = (if PACK_MAX_SEQ \<le> my_seqs l t + 1 then 0 else my_seqs l t + 1)"
    using circle_add [of "my_seqs l t" PACK_MAX_SEQ 1] assms by (simp add: PACK_MAX_SEQ_def)
  moreover have "int16_of (my_seqs l t + 1) = my_seqs l t + 1"
    using assms by (intro int16_of_id) (simp_all add: PACK_MAX_SEQ_def)
  ultimately show ?thesis by (simp add: Set_Loss_SeqNo_def Let_def)
qed

end
