(* ===== verification/Comparator.thy ===== *)
theory Comparator
  imports Prelude
begin

text \<open>
  The contract of the three-way comparison functions that the daemon hands to its ordered
  containers (\<open>stdcmp_fcn\<close>: negative, zero or positive), and what insertion into a
  sequence ordered by such a function gives. The event queue and the node list ordered by
  identifier are such sequences.
\<close>

text \<open>Insertion behind every element that is not greater.\<close>

fun cmp_insert :: "('a \<Rightarrow> 'a \<Rightarrow> int) \<Rightarrow> 'a \<Rightarrow> 'a list \<Rightarrow> 'a list" where
  "cmp_insert cmp x [] = [x]"
| "cmp_insert cmp x (y # ys) =
     (if cmp x y < 0 then x # y # ys else y # cmp_insert cmp x ys)"

lemma set_cmp_insert [simp]: "set (cmp_insert cmp x ys) = insert x (set ys)"
  by (induction ys) auto

lemma length_cmp_insert [simp]: "length (cmp_insert cmp x ys) = Suc (length ys)"
  by (induction ys) auto

lemma distinct_cmp_insert [simp]:
  "distinct (cmp_insert cmp x ys) \<longleftrightarrow> x \<notin> set ys \<and> distinct ys"
  by (induction ys) auto

lemma filter_cmp_insert_absent:
  "\<not> P x \<Longrightarrow> filter P (cmp_insert cmp x ys) = filter P ys"
  by (induction ys) auto

locale comparator =
  fixes cmp :: "'a \<Rightarrow> 'a \<Rightarrow> int"
  assumes cmp_zero_iff: "cmp x y = 0 \<longleftrightarrow> x = y"
    and cmp_swap: "cmp x y < 0 \<longleftrightarrow> 0 < cmp y x"
    and cmp_trans: "cmp x y < 0 \<Longrightarrow> cmp y z < 0 \<Longrightarrow> cmp x z < 0"
begin

lemma cmp_le_trans: "cmp x y \<le> 0 \<Longrightarrow> cmp y z \<le> 0 \<Longrightarrow> cmp x z \<le> 0"
  by (metis cmp_trans cmp_zero_iff order_le_less)

lemma cmp_total: "cmp x y \<le> 0 \<or> cmp y x \<le> 0"
  using cmp_swap [of y x] by linarith

lemma cmp_le_antisym: "cmp x y \<le> 0 \<Longrightarrow> cmp y x \<le> 0 \<Longrightarrow> x = y"
  by (metis cmp_swap cmp_zero_iff linorder_not_less order_le_less)

lemma not_less_le: "\<not> cmp x y < 0 \<Longrightarrow> cmp y x \<le> 0"
  by (simp add: cmp_swap linorder_not_less)

lemma sorted_cmp_insert:
  "sorted_wrt (\<lambda>a b. cmp (f a) (f b) \<le> 0) xs \<Longrightarrow>
   sorted_wrt (\<lambda>a b. cmp (f a) (f b) \<le> 0) (cmp_insert (\<lambda>a b. cmp (f a) (f b)) x xs)"
proof (induction xs)
  case Nil
  then show ?case by simp
next
  case (Cons y ys)
  show ?case
  proof (cases "cmp (f x) (f y) < 0")
    case True
    then have "cmp (f x) (f z) \<le> 0" if "z \<in> set ys" for z
      using Cons.prems that cmp_le_trans [of "f x" "f y" "f z"] by auto
    with True Cons.prems show ?thesis by auto
  next
    case False
    then show ?thesis using Cons not_less_le by auto
  qed
qed

text \<open>A sequence ordered by a comparator is determined by its elements.\<close>

lemma sorted_unique:
  assumes "sorted_wrt (\<lambda>a b. cmp a b \<le> 0) xs" "distinct xs"
    and "sorted_wrt (\<lambda>a b. cmp a b \<le> 0) ys" "distinct ys" and "set xs = set ys"
  shows "xs = ys"
  using assms
proof (induction xs arbitrary: ys)
  case Nil
  then show ?case by simp
next
  case (Cons x xs)
  then obtain y ys' where ys: "ys = y # ys'" by (cases ys) auto
  have "x = y"
  proof (rule ccontr)
    assume "x \<noteq> y"
    with Cons.prems ys have "x \<in> set ys'" "y \<in> set xs" by auto
    with Cons.prems ys have "cmp y x \<le> 0" "cmp x y \<le> 0" by auto
    with \<open>x \<noteq> y\<close> show False using cmp_le_antisym by blast
  qed
  with Cons.prems ys have "set xs = set ys'" by auto
  with Cons.IH [of ys'] Cons.prems ys \<open>x = y\<close> show ?case by auto
qed

end

end
