(* ===== verification/Events.thy ===== *)
theory Events
  imports Comparator
begin

text \<open>
  The time arithmetic and the timer queue of \<open>libspread-util/src/events.c\<close>. The queue is
  the singly linked list \<open>Time_queue\<close>, modelled as a list; a handler with its arguments is
  identified by the triple (function, code, data), as in the C comparisons. Function and data
  pointers are type parameters. The reading of the monotonic clock is an argument.
\<close>

section \<open>Time values\<close>

record sp_time =
  sec :: int
  usec :: int

definition E_neg_time :: "sp_time \<Rightarrow> sp_time" where
  "E_neg_time t = \<lparr>sec = - sec t, usec = - usec t\<rparr>"

definition E_add_time :: "sp_time \<Rightarrow> sp_time \<Rightarrow> sp_time" where
  "E_add_time t delta_t =
     (let s0 = sec t + sec delta_t; u0 = usec t + usec delta_t;
          (s1, u1) = (if 1000000 \<le> u0 then (s0 + 1, u0 - 1000000)
                      else if u0 \<le> - 1000000 then (s0 - 1, u0 + 1000000)
                      else (s0, u0));
          (s2, u2) = (if 0 < s1 then (if u1 < 0 then (s1 - 1, u1 + 1000000) else (s1, u1))
                      else if s1 < 0 then (if 0 < u1 then (s1 + 1, u1 - 1000000) else (s1, u1))
                      else (s1, u1))
      in \<lparr>sec = s2, usec = u2\<rparr>)"

definition E_sub_time :: "sp_time \<Rightarrow> sp_time \<Rightarrow> sp_time" where
  "E_sub_time t delta_t = E_add_time t (E_neg_time delta_t)"

definition E_compare_time :: "sp_time \<Rightarrow> sp_time \<Rightarrow> int" where
  "E_compare_time t1 t2 =
     (if sec t2 < sec t1 then 1
      else if sec t1 < sec t2 then - 1
      else if usec t2 < usec t1 then 1
      else if usec t1 < usec t2 then - 1
      else 0)"

text \<open>The duration a time value stands for, in microseconds, and the values the code keeps:
  seconds and microseconds of the same sign, less than a second of microseconds.\<close>

definition in_usec :: "sp_time \<Rightarrow> int" where
  "in_usec t = 1000000 * sec t + usec t"

definition normal_time :: "sp_time \<Rightarrow> bool" where
  "normal_time t \<longleftrightarrow> \<bar>usec t\<bar> < 1000000 \<and> (0 < sec t \<longrightarrow> 0 \<le> usec t) \<and> (sec t < 0 \<longrightarrow> usec t \<le> 0)"

lemma in_usec_neg [simp]: "in_usec (E_neg_time t) = - in_usec t"
  by (simp add: in_usec_def E_neg_time_def)

lemma normal_time_neg [simp]: "normal_time (E_neg_time t) = normal_time t"
  by (auto simp: normal_time_def E_neg_time_def)

lemma in_usec_add [simp]: "in_usec (E_add_time t d) = in_usec t + in_usec d"
  by (auto simp: E_add_time_def in_usec_def Let_def split: prod.splits if_splits)

lemma in_usec_sub [simp]: "in_usec (E_sub_time t d) = in_usec t - in_usec d"
  by (simp add: E_sub_time_def)

lemma normal_time_add:
  "\<bar>usec t\<bar> < 1000000 \<Longrightarrow> \<bar>usec d\<bar> < 1000000 \<Longrightarrow> normal_time (E_add_time t d)"
  by (auto simp: E_add_time_def normal_time_def Let_def split: prod.splits if_splits)

lemma normal_time_sub:
  "\<bar>usec t\<bar> < 1000000 \<Longrightarrow> \<bar>usec d\<bar> < 1000000 \<Longrightarrow> normal_time (E_sub_time t d)"
  by (simp add: E_sub_time_def normal_time_add E_neg_time_def)

interpretation etime: comparator E_compare_time
  by unfold_locales (auto simp: E_compare_time_def split: if_splits)

lemma E_compare_time_in_usec:
  assumes "normal_time s" and "normal_time t"
  shows "E_compare_time s t < 0 \<longleftrightarrow> in_usec s < in_usec t"
proof -
  have "in_usec s < in_usec t" if "sec s < sec t"
    using assms that by (auto simp: normal_time_def in_usec_def)
  moreover have "in_usec t < in_usec s" if "sec t < sec s"
    using assms that by (auto simp: normal_time_def in_usec_def)
  ultimately show ?thesis
    by (auto simp: E_compare_time_def in_usec_def)
qed

section \<open>The timer queue\<close>

record ('f, 'd) time_event =
  te_t :: sp_time
  te_func :: 'f
  te_code :: int
  te_data :: 'd

definition te_key :: "('f, 'd) time_event \<Rightarrow> 'f \<times> int \<times> 'd" where
  "te_key e = (te_func e, te_code e, te_data e)"

lemma te_key_simps [simp]:
  "te_key \<lparr>te_t = t, te_func = f, te_code = c, te_data = d\<rparr> = (f, c, d)"
  by (simp add: te_key_def)

text \<open>The loop of \<open>E_queue\<close> behind the queue's first element: \<open>inserted\<close> and
  \<open>deleted\<close> are the C flags, the list is what \<open>t_post\<close> points to.\<close>

fun E_queue_loop ::
  "('f, 'd) time_event \<Rightarrow> bool \<Rightarrow> bool \<Rightarrow> ('f, 'd) time_event list \<Rightarrow> ('f, 'd) time_event list"
where
  "E_queue_loop t_e inserted deleted [] = (if inserted then [] else [t_e])"
| "E_queue_loop t_e inserted deleted (t_post # rest) =
     (if inserted \<and> deleted then t_post # rest
      else if te_key t_post = te_key t_e then E_queue_loop t_e inserted True rest
      else if \<not> inserted \<and> E_compare_time (te_t t_e) (te_t t_post) < 0
      then t_e # t_post # E_queue_loop t_e True deleted rest
      else t_post # E_queue_loop t_e inserted deleted rest)"

definition E_queue ::
  "sp_time \<Rightarrow> 'f \<Rightarrow> int \<Rightarrow> 'd \<Rightarrow> sp_time \<Rightarrow> ('f, 'd) time_event list \<Rightarrow> ('f, 'd) time_event list"
where
  "E_queue Now func code data delta_time Time_queue =
     (let t_e = \<lparr>te_t = E_add_time Now delta_time, te_func = func, te_code = code, te_data = data\<rparr>;
          (queue, deleted) =
            (case Time_queue of
               [] \<Rightarrow> ([], False)
             | first # rest \<Rightarrow> if te_key first = te_key t_e then (rest, True) else (first # rest, False))
      in case queue of
           [] \<Rightarrow> [t_e]
         | first # rest \<Rightarrow>
             if E_compare_time (te_t t_e) (te_t first) < 0
             then t_e # E_queue_loop t_e True deleted (first # rest)
             else first # E_queue_loop t_e False deleted rest)"

fun E_dequeue :: "'f \<Rightarrow> int \<Rightarrow> 'd \<Rightarrow> ('f, 'd) time_event list \<Rightarrow> int \<times> ('f, 'd) time_event list" where
  "E_dequeue func code data [] = (- 1, [])"
| "E_dequeue func code data (t_ptr # rest) =
     (if te_key t_ptr = (func, code, data) then (0, rest)
      else let (ret, rest') = E_dequeue func code data rest in (ret, t_ptr # rest'))"

fun E_in_queue :: "'f \<Rightarrow> int \<Rightarrow> 'd \<Rightarrow> ('f, 'd) time_event list \<Rightarrow> bool" where
  "E_in_queue func code data [] = False"
| "E_in_queue func code data (t_ptr # rest) =
     (te_key t_ptr = (func, code, data) \<or> E_in_queue func code data rest)"

definition E_dequeue_all_time_events :: "('f, 'd) time_event list \<Rightarrow> ('f, 'd) time_event list" where
  "E_dequeue_all_time_events q = []"

text \<open>One turn of the timer loop of \<open>E_handle_events\<close>: either the first event is due and is
  taken off the queue to be run, or the time to wait for it is computed.\<close>

datatype ('f, 'd) timer_turn =
    Run_event "('f, 'd) time_event" "('f, 'd) time_event list"
  | Wait_for sp_time

definition E_timer_turn :: "bool \<Rightarrow> sp_time \<Rightarrow> ('f, 'd) time_event list \<Rightarrow> ('f, 'd) timer_turn" where
  "E_timer_turn first_round Now Time_queue =
     (case Time_queue of
        [] \<Rightarrow> Wait_for \<lparr>sec = 10000, usec = 0\<rparr>
      | temp_ptr # rest \<Rightarrow>
          if \<not> first_round \<and> 0 \<le> E_compare_time Now (te_t temp_ptr) then Run_event temp_ptr rest
          else let timeout = E_sub_time (te_t temp_ptr) Now
               in if sec timeout < 0 then Wait_for \<lparr>sec = 0, usec = 0\<rparr> else Wait_for timeout)"

section \<open>The queue invariant and the operations' effect\<close>

definition queue_sorted :: "('f, 'd) time_event list \<Rightarrow> bool" where
  "queue_sorted q \<longleftrightarrow> sorted_wrt (\<lambda>a b. E_compare_time (te_t a) (te_t b) \<le> 0) q"

definition queue_ok :: "('f, 'd) time_event list \<Rightarrow> bool" where
  "queue_ok q \<longleftrightarrow> queue_sorted q \<and> distinct (map te_key q)"

text \<open>What queueing is meant to do: forget the pending event with the same handler, code and
  data, then put the new one behind every event that is not later.\<close>

definition enqueue_spec ::
  "('f, 'd) time_event \<Rightarrow> ('f, 'd) time_event list \<Rightarrow> ('f, 'd) time_event list" where
  "enqueue_spec e q =
     cmp_insert (\<lambda>a b. E_compare_time (te_t a) (te_t b)) e (filter (\<lambda>x. te_key x \<noteq> te_key e) q)"

abbreviation new_event :: "sp_time \<Rightarrow> 'f \<Rightarrow> int \<Rightarrow> 'd \<Rightarrow> sp_time \<Rightarrow> ('f, 'd) time_event" where
  "new_event Now func code data delta \<equiv>
     \<lparr>te_t = E_add_time Now delta, te_func = func, te_code = code, te_data = data\<rparr>"

lemma E_queue_loop_inserted:
  assumes "distinct (map te_key q)" and "deleted \<Longrightarrow> te_key e \<notin> te_key ` set q"
  shows "E_queue_loop e True deleted q = filter (\<lambda>x. te_key x \<noteq> te_key e) q"
  using assms
proof (induction q arbitrary: deleted)
  case Nil
  then show ?case by simp
next
  case (Cons x xs)
  have absent: "filter (\<lambda>x. te_key x \<noteq> te_key e) ys = ys"
    if "te_key e \<notin> te_key ` set ys" for ys :: "('a, 'b) time_event list"
    using that by (intro filter_True) (metis imageI)
  show ?case
  proof (cases deleted)
    case True
    with Cons.prems absent [of "x # xs"] show ?thesis by simp
  next
    case not_deleted: False
    show ?thesis
    proof (cases "te_key x = te_key e")
      case True
      with Cons.prems have "te_key e \<notin> te_key ` set xs" by auto
      with True Cons.prems Cons.IH [of True] not_deleted show ?thesis by auto
    next
      case False
      with Cons.prems Cons.IH [of False] not_deleted show ?thesis by auto
    qed
  qed
qed

lemma E_queue_loop_spec:
  assumes "distinct (map te_key q)" and "deleted \<Longrightarrow> te_key e \<notin> te_key ` set q"
  shows "E_queue_loop e False deleted q = enqueue_spec e q"
  using assms
proof (induction q arbitrary: deleted)
  case Nil
  then show ?case by (simp add: enqueue_spec_def)
next
  case (Cons x xs)
  show ?case
  proof (cases "te_key x = te_key e")
    case True
    with Cons.prems have "te_key e \<notin> te_key ` set xs" "\<not> deleted" by auto
    with True Cons.prems Cons.IH [of True] show ?thesis by (auto simp: enqueue_spec_def)
  next
    case False
    have "E_queue_loop e True deleted xs = filter (\<lambda>x. te_key x \<noteq> te_key e) xs"
      using Cons.prems by (intro E_queue_loop_inserted) auto
    moreover have "E_queue_loop e False deleted xs = enqueue_spec e xs"
      using Cons.prems by (intro Cons.IH) auto
    ultimately show ?thesis using False by (auto simp: enqueue_spec_def)
  qed
qed

lemma E_queue_refines_enqueue_spec:
  assumes "distinct (map te_key q)"
  shows "E_queue Now func code data delta q = enqueue_spec (new_event Now func code data delta) q"
proof (cases q)
  case Nil
  then show ?thesis by (simp add: E_queue_def enqueue_spec_def)
next
  case (Cons x xs)
  let ?e = "new_event Now func code data delta"
  show ?thesis
  proof (cases "te_key x = te_key ?e")
    case True
    have absent: "te_key ?e \<notin> te_key ` set xs" using assms Cons True by auto
    show ?thesis
    proof (cases xs)
      case Nil
      with True \<open>q = x # xs\<close> show ?thesis by (simp add: E_queue_def enqueue_spec_def)
    next
      case (Cons y ys)
      have "te_key y \<noteq> te_key ?e" using absent Cons by auto
      moreover have "filter (\<lambda>x. te_key x \<noteq> te_key ?e) ys = ys"
        using absent Cons by (intro filter_True) (metis image_eqI list.set_intros(2))
      moreover have "E_queue_loop ?e False True ys = enqueue_spec ?e ys"
        using assms absent \<open>q = x # xs\<close> Cons by (intro E_queue_loop_spec) auto
      ultimately show ?thesis using True \<open>q = x # xs\<close> Cons
        by (simp add: E_queue_def enqueue_spec_def)
    qed
  next
    case False
    have "E_queue_loop ?e True False (x # xs) = filter (\<lambda>x. te_key x \<noteq> te_key ?e) (x # xs)"
      using assms Cons by (intro E_queue_loop_inserted) auto
    moreover have "E_queue_loop ?e False False xs = enqueue_spec ?e xs"
      using assms Cons by (intro E_queue_loop_spec) auto
    ultimately show ?thesis using False Cons
      by (auto simp: E_queue_def enqueue_spec_def Let_def)
  qed
qed

lemma distinct_keys_cmp_insert:
  "distinct (map f (cmp_insert cmp x ys)) \<longleftrightarrow> f x \<notin> f ` set ys \<and> distinct (map f ys)"
  by (induction ys) auto

lemma queue_sorted_filter: "queue_sorted q \<Longrightarrow> queue_sorted (filter P q)"
  by (simp add: queue_sorted_def sorted_wrt_filter)

lemma distinct_map_filter_keys: "distinct (map f q) \<Longrightarrow> distinct (map f (filter P q))"
  by (induction q) auto

lemma queue_ok_enqueue_spec: "queue_ok q \<Longrightarrow> queue_ok (enqueue_spec e q)"
  unfolding queue_ok_def enqueue_spec_def distinct_keys_cmp_insert
  using etime.sorted_cmp_insert [of te_t] queue_sorted_filter [of q]
  by (auto simp: queue_sorted_def distinct_map_filter_keys)

lemma E_queue_ok: "queue_ok q \<Longrightarrow> queue_ok (E_queue Now func code data delta q)"
  by (simp add: E_queue_refines_enqueue_spec queue_ok_enqueue_spec queue_ok_def [of q])

lemma set_E_queue:
  "queue_ok q \<Longrightarrow> set (E_queue Now func code data delta q) =
     insert (new_event Now func code data delta) {x \<in> set q. te_key x \<noteq> (func, code, data)}"
  by (auto simp: E_queue_refines_enqueue_spec enqueue_spec_def queue_ok_def)

lemma E_in_queue_iff: "E_in_queue func code data q \<longleftrightarrow> (func, code, data) \<in> te_key ` set q"
  by (induction q) auto

lemma E_dequeue_spec:
  assumes "distinct (map te_key q)"
  shows "E_dequeue func code data q =
     (if E_in_queue func code data q then 0 else - 1,
      filter (\<lambda>x. te_key x \<noteq> (func, code, data)) q)"
  using assms
proof (induction q)
  case Nil
  then show ?case by simp
next
  case (Cons x xs)
  then have "filter (\<lambda>y. te_key y \<noteq> te_key x) xs = xs"
    by (intro filter_True) (metis distinct.simps(2) image_eqI list.set_map list.simps(9))
  with Cons show ?case by (auto simp: Let_def)
qed

lemma E_dequeue_ok: "queue_ok q \<Longrightarrow> queue_ok (snd (E_dequeue func code data q))"
  by (simp add: E_dequeue_spec queue_ok_def queue_sorted_filter distinct_map_filter_keys)

text \<open>A turn of the timer loop takes the earliest event, takes it only when it is due, and
  otherwise waits no longer than until that event is due.\<close>

lemma E_timer_turn_run:
  assumes "queue_ok q" and "E_timer_turn first Now q = Run_event e q'"
  shows "q = e # q' \<and> queue_ok q' \<and> E_compare_time (te_t e) Now \<le> 0
    \<and> (\<forall>x \<in> set q'. E_compare_time (te_t e) (te_t x) \<le> 0)"
  using assms etime.cmp_swap [of Now "te_t e"]
  by (auto simp: E_timer_turn_def queue_ok_def queue_sorted_def Let_def not_less
      split: list.splits if_splits)

lemma E_timer_turn_wait:
  assumes "queue_ok q" and "E_timer_turn first Now q = Wait_for w" and "e \<in> set q"
    and normal: "\<forall>x \<in> set q. normal_time (te_t x)" "normal_time Now"
  shows "in_usec w \<le> max 0 (in_usec (te_t e) - in_usec Now)"
proof -
  obtain x xs where q: "q = x # xs" using assms(3) by (cases q) auto
  have "E_compare_time (te_t x) (te_t e) \<le> 0"
    using assms(1,3) q etime.cmp_zero_iff [of "te_t x" "te_t x"]
    by (auto simp: queue_ok_def queue_sorted_def)
  then have "\<not> E_compare_time (te_t e) (te_t x) < 0"
    using etime.cmp_swap [of "te_t e" "te_t x"] by linarith
  then have le: "in_usec (te_t x) \<le> in_usec (te_t e)"
    using E_compare_time_in_usec [of "te_t e" "te_t x"] normal assms(3) q by auto
  have "in_usec w \<le> max 0 (in_usec (te_t x) - in_usec Now)"
    using assms(2) q by (auto simp: E_timer_turn_def Let_def in_usec_def split: if_splits)
       (simp_all flip: in_usec_def)
  with le show ?thesis by auto
qed

end
