(* ===== verification/Reliable_Link.thy ===== *)
theory Reliable_Link
  imports Link_Loss Events
begin

text \<open>
  The reliable link protocol of the control links and the reliable data links
  (\<open>daemon/reliable_datagram.c\<close>, \<open>Reliable_Data\<close> in \<open>link.h\<close>): a sending window with a buffer in
  front of it, cumulative acknowledgements with lists of missing packets, retransmission and a
  congestion window. Every operation works on the reliable data of one link, which is \<open>None\<close> when
  the link or its reliable data does not exist.

  A buffer is a value of type \<open>'b\<close> and the reliable tail behind it a part of the packet. The lists
  of missing packets keep whole entries, as the senders make them. \<open>float\<close> values are rational
  numbers; \<open>fl\<close> in the configuration rounds to \<open>float\<close>, \<open>rtt_mix\<close> is the conversion of
  \<open>0.2 * rtt_estimate + 0.8 * rtt\<close> to \<open>int\<close>, and \<open>stream_key\<close> the first twelve bytes of a buffer.
\<close>

section \<open>Data\<close>

definition MAX_WINDOW :: int32u where "MAX_WINDOW = 20000"
definition MAX_BUFF_LINK :: int where "MAX_BUFF_LINK = 10000"
definition DEAD_LINK_CNT :: int where "DEAD_LINK_CNT = 10"
definition ECN_DATA_T1 :: int32u where "ECN_DATA_T1 = 0x00000100"
definition ECN_DATA_T2 :: int32u where "ECN_DATA_T2 = 0x00000200"
definition ECN_DATA_T3 :: int32u where "ECN_DATA_T3 = 0x00000300"
definition ECN_DATA_MASK :: int32u where "ECN_DATA_MASK = 0x00000300"

record 'b Buffer_Cell =
  bc_seq_no :: int32u
  bc_buff :: "'b option"
  bc_pack_type :: int32u
  bc_data_len :: int16u
  bc_timestamp :: sp_time
  bc_resent :: bool

datatype cell_flag = EMPTY_CELL | RECVD_CELL | NACK_CELL

record Recv_Cell =
  rc_flag :: cell_flag
  nack_sent :: sp_time

record 'b Reliable_Data =
  CONNECTED_LINK :: bool
  seq_no :: int32u
  msg_buff :: "'b Buffer_Cell list"
  window_size :: rat
  max_window :: int32u
  ssthresh :: int32u
  window :: "int32u \<Rightarrow> 'b Buffer_Cell"
  head :: int32u
  tail :: int32u
  recv_window :: "int32u \<Rightarrow> Recv_Cell"
  recv_head :: int32u
  recv_tail :: int32u
  nack_buff :: "int32u list"
  scheduled_ack :: bool
  scheduled_timeout :: bool
  timeout_multiply :: int
  rtt :: int
  cong_flag :: bool

text \<open>A packet on the link: header, buffer and reliable tail. \<open>rp_data\<close> is \<open>None\<close> for a packet that
  only acknowledges.\<close>

record 'b rel_packet =
  rp_type :: int32u
  rp_loss_seq :: int16u
  rp_data :: "'b option"
  rp_data_len :: int16u
  rp_seq_no :: int32u
  rp_cummulative_ack :: int32u
  rp_nacks :: "int32u list"

record 'b rel_conf =
  rel_ARCH_ENDIAN :: int32u
  rel_Wireless :: bool
  Stream_Fairness :: bool
  TCP_Fairness :: bool
  Fast_Retransmit :: bool
  network_flag :: bool
  Minimum_Window :: nat
  fl :: "rat \<Rightarrow> rat"
  rtt_mix :: "int32u \<Rightarrow> int \<Rightarrow> int"
  stream_key :: "'b \<Rightarrow> int32u \<times> int32u \<times> int16u \<times> int16u"

datatype rel_func = Send_Ack_fn | Reliable_timeout_fn | Send_Nack_Retransm_fn | Try_to_Send_fn

datatype session_call = Block_All_Sessions | Resume_All_Sessions

text \<open>What the operations share with the rest of the daemon. \<open>rel_link_type\<close> and \<open>rel_loss\<close> belong to
  the link's leg, \<open>rel_rand\<close> is the value of \<open>rand()\<close>, \<open>rel_sent\<close> what went to \<open>Link_Send\<close>.\<close>

record 'b rel_env =
  rel_time :: sp_time
  rel_monotonic :: sp_time
  rel_rand :: int
  rel_queue :: "(rel_func, unit) time_event list"
  rel_link_type :: Link_Type
  rel_loss :: "Loss_Data option"
  Link_Sessions_Blocked_On :: int
  rel_calls :: "session_call list"
  rel_sent :: "'b rel_packet list"

definition rel_E_queue :: "rel_func \<Rightarrow> int \<Rightarrow> sp_time \<Rightarrow> 'b rel_env \<Rightarrow> 'b rel_env" where
  "rel_E_queue func linkid delta e = e\<lparr>rel_queue := E_queue (rel_monotonic e) func linkid () delta (rel_queue e)\<rparr>"

definition rel_E_dequeue :: "rel_func \<Rightarrow> int \<Rightarrow> 'b rel_env \<Rightarrow> 'b rel_env" where
  "rel_E_dequeue func linkid e = e\<lparr>rel_queue := snd (E_dequeue func linkid () (rel_queue e))\<rparr>"

section \<open>Timeouts\<close>

definition scale_timeout :: "int \<Rightarrow> int \<Rightarrow> int \<Rightarrow> sp_time" where
  "scale_timeout m s u =
     (let s1 = s * m; u1 = u * m; s2 = s1 + c_div u1 1000000; u2 = c_rem u1 1000000
      in \<lparr>sec = (if DEAD_LINK_CNT - 1 < s2 then DEAD_LINK_CNT - 1 else s2), usec = u2\<rparr>)"

text \<open>As \<open>Reliable_Send_Msg\<close>, \<open>Send_Much\<close> and \<open>Reliable_timeout\<close> compute it.\<close>

definition retransm_timeout :: "'b rel_conf \<Rightarrow> int \<Rightarrow> int \<Rightarrow> int \<Rightarrow> sp_time" where
  "retransm_timeout cf rnd rtt_us m =
     (let s0 = c_div (rtt_us * 2) 1000000; u0 = c_rem (rtt_us * 2) 1000000;
          s1 = (if s0 = 0 \<and> u0 = 0 then 1 else s0);
          u1 = (if s1 = 0 \<and> u0 < 2000 then 2000 else u0);
          u2 = (if rel_Wireless cf \<and> s1 = 0 \<and> u1 < 30000 then 20000 + 5000 * c_rem rnd 10 else u1)
      in scale_timeout m s1 u2)"

text \<open>As \<open>Process_Ack\<close> computes it: the test for a round trip time of zero comes second.\<close>

definition ack_timeout :: "'b rel_conf \<Rightarrow> int \<Rightarrow> int \<Rightarrow> int \<Rightarrow> sp_time" where
  "ack_timeout cf rnd rtt_us m =
     (let s0 = c_div (rtt_us * 2) 1000000; u0 = c_rem (rtt_us * 2) 1000000;
          (s1, u1) = (if s0 = 0 \<and> u0 < 2000 then (s0, 2000) else if s0 = 0 \<and> u0 = 0 then (1, u0) else (s0, u0));
          u2 = (if rel_Wireless cf \<and> s1 = 0 \<and> u1 < 30000 then 20000 + 5000 * c_rem rnd 10 else u1)
      in scale_timeout m s1 u2)"

section \<open>Missing packets\<close>

definition nack_wait :: "int \<Rightarrow> sp_time" where
  "nack_wait rtt_us =
     (if rtt_us = 0 then \<lparr>sec = 1, usec = 0\<rparr>
      else \<lparr>sec = c_div (rtt_us * 2) 1000000, usec = c_rem (rtt_us * 2) 1000000\<rparr>)"

definition put_recv :: "int32u \<Rightarrow> Recv_Cell \<Rightarrow> 'b Reliable_Data \<Rightarrow> 'b Reliable_Data" where
  "put_recv i c r = r\<lparr>recv_window := (recv_window r)(i mod MAX_WINDOW := c)\<rparr>"

definition fresh_nack :: "'b rel_conf \<Rightarrow> int32u \<Rightarrow> 'b Reliable_Data \<Rightarrow> bool" where
  "fresh_nack cf i r \<longleftrightarrow> rc_flag (recv_window r (i mod MAX_WINDOW)) = EMPTY_CELL \<and>
     (3 < recv_head r - i \<or> 1 < recv_head r - i \<and> Fast_Retransmit cf)"

definition old_nack :: "sp_time \<Rightarrow> int32u \<Rightarrow> 'b Reliable_Data \<Rightarrow> bool" where
  "old_nack now i r \<longleftrightarrow> rc_flag (recv_window r (i mod MAX_WINDOW)) = NACK_CELL \<and>
     (let sum_time = E_add_time (nack_sent (recv_window r (i mod MAX_WINDOW))) (nack_wait (rtt r))
      in sec sum_time < sec now \<or> sec sum_time = sec now \<and> usec sum_time < usec now)"

text \<open>The loop that puts the missing packets into the tail, \<open>n\<close> turns from \<open>i\<close> on. In some of the
  functions the second test is an \<open>else\<close> branch of the first (\<open>either\<close>), in some it is not.\<close>

fun nack_loop :: "'b rel_conf \<Rightarrow> bool \<Rightarrow> sp_time \<Rightarrow> nat \<Rightarrow> nat \<Rightarrow> int32u \<Rightarrow> 'b Reliable_Data \<Rightarrow> int32u list
    \<Rightarrow> 'b Reliable_Data \<times> int32u list" where
  "nack_loop cf either now data_len 0 i r ns = (r, ns)"
| "nack_loop cf either now data_len (Suc n) i r ns =
     (if 1452 - 4 < 8 + 4 * length ns + data_len then (r, ns)
      else let empty = (rc_flag (recv_window r (i mod MAX_WINDOW)) = EMPTY_CELL);
               (r1, ns1) = (if fresh_nack cf i r then (put_recv i \<lparr>rc_flag = NACK_CELL, nack_sent = now\<rparr> r, ns @ [i]) else (r, ns));
               (r2, ns2) = (if \<not> (either \<and> empty) \<and> old_nack now i r1
                            then (put_recv i ((recv_window r1 (i mod MAX_WINDOW))\<lparr>nack_sent := now\<rparr>) r1, ns1 @ [i]) else (r1, ns1))
           in nack_loop cf either now data_len n (i + 1) r2 ns2)"

definition add_nacks :: "'b rel_conf \<Rightarrow> bool \<Rightarrow> sp_time \<Rightarrow> nat \<Rightarrow> 'b Reliable_Data \<Rightarrow> 'b Reliable_Data \<times> int32u list" where
  "add_nacks cf either now data_len r =
     nack_loop cf either now data_len
       (if recv_tail r < recv_head r then unat (recv_head r - recv_tail r) else 0) (recv_tail r) r []"

section \<open>Sending\<close>

definition link_out :: "'b rel_conf \<Rightarrow> bool \<Rightarrow> 'b rel_packet \<Rightarrow> 'b rel_env \<Rightarrow> 'b rel_env res" where
  "link_out cf check p e =
     bind_res (Set_Loss_SeqNo (rel_link_type e) (rel_loss e)) (\<lambda>(s, l).
       Inr (e\<lparr>rel_loss := Some l,
              rel_sent := (if check \<and> \<not> network_flag cf then rel_sent e else rel_sent e @ [p\<lparr>rp_loss_seq := s\<rparr>])\<rparr>))"

text \<open>The tail with the acknowledgement and the missing packets, the header, and off it goes.\<close>

definition transmit :: "'b rel_conf \<Rightarrow> bool \<Rightarrow> bool \<Rightarrow> int32u \<Rightarrow> 'b option \<Rightarrow> int16u \<Rightarrow> int32u \<Rightarrow> 'b Reliable_Data \<Rightarrow> 'b rel_env
    \<Rightarrow> ('b Reliable_Data \<times> 'b rel_env) res" where
  "transmit cf either check type data data_len sq r e =
     (let (r1, ns) = add_nacks cf either (rel_time e) (unat data_len) r in
      bind_res (link_out cf check
        \<lparr>rp_type = Set_endian (rel_ARCH_ENDIAN cf) type, rp_loss_seq = 0, rp_data = data, rp_data_len = data_len,
         rp_seq_no = sq, rp_cummulative_ack = recv_tail r, rp_nacks = ns\<rparr> e) (\<lambda>e1. Inr (r1, e1)))"

definition cancel_ack :: "int \<Rightarrow> 'b Reliable_Data \<times> 'b rel_env \<Rightarrow> 'b Reliable_Data \<times> 'b rel_env" where
  "cancel_ack linkid re = (let (r, e) = re in
     if scheduled_ack r then (r\<lparr>scheduled_ack := False\<rparr>, rel_E_dequeue Send_Ack_fn linkid e) else (r, e))"

definition arm_timeout :: "'b rel_conf \<Rightarrow> int \<Rightarrow> 'b Reliable_Data \<times> 'b rel_env \<Rightarrow> 'b Reliable_Data \<times> 'b rel_env" where
  "arm_timeout cf linkid re = (let (r, e) = re;
       e1 = (if scheduled_timeout r then rel_E_dequeue Reliable_timeout_fn linkid e else e)
     in (r\<lparr>scheduled_timeout := True\<rparr>,
         rel_E_queue Reliable_timeout_fn linkid (retransm_timeout cf (rel_rand e) (rtt r) (timeout_multiply r)) e1))"

definition in_flight :: "'b rel_conf \<Rightarrow> 'b Reliable_Data \<Rightarrow> rat" where
  "in_flight cf r = fl cf (of_nat (unat (head r - tail r)))"

definition into_window :: "'b Buffer_Cell \<Rightarrow> 'b Reliable_Data \<Rightarrow> 'b Reliable_Data" where
  "into_window c r = r\<lparr>window := (window r)(bc_seq_no c mod MAX_WINDOW := c), head := bc_seq_no c + 1\<rparr>"

definition ecn_type :: "int \<Rightarrow> int32u \<Rightarrow> int32u" where
  "ecn_type buff_size pack_type =
     (if MAX_BUFF_LINK div 4 < buff_size \<and> buff_size \<le> MAX_BUFF_LINK div 2
      then if pack_type AND ECN_DATA_MASK = 0 then pack_type OR ECN_DATA_T1 else pack_type
      else if MAX_BUFF_LINK div 2 < buff_size \<and> buff_size \<le> MAX_BUFF_LINK
      then if pack_type AND ECN_DATA_MASK < ECN_DATA_T2
           then (if pack_type AND ECN_DATA_MASK = ECN_DATA_T1 then pack_type XOR ECN_DATA_T1 else pack_type) OR ECN_DATA_T2
           else pack_type
      else if MAX_BUFF_LINK < buff_size then pack_type OR ECN_DATA_T3
      else pack_type)"

text \<open>The loop of \<open>Send_Much\<close>; its list is the buffer, \<open>buff_size\<close> the size it had before.\<close>

fun send_much_loop :: "'b rel_conf \<Rightarrow> int \<Rightarrow> 'b Buffer_Cell list \<Rightarrow> 'b Reliable_Data \<Rightarrow> 'b rel_env
    \<Rightarrow> ('b Reliable_Data \<times> 'b rel_env) res" where
  "send_much_loop cf buff_size [] r e = Inr (r, e)"
| "send_much_loop cf buff_size (buf_cell # cells) r e =
     (if \<not> in_flight cf r < window_size r then Inr (r, e)
      else let pack_type = ecn_type buff_size (bc_pack_type buf_cell); sq = bc_seq_no buf_cell in
        if sq < head r then Inl (EXIT ''Send_Much: smaller seq_no'')
        else let r1 = into_window (buf_cell\<lparr>bc_pack_type := pack_type, bc_timestamp := rel_time e, bc_resent := False\<rparr>)
                        (r\<lparr>msg_buff := cells\<rparr>)
             in bind_res (transmit cf False False (RELIABLE_TYPE OR pack_type) (bc_buff buf_cell) (bc_data_len buf_cell) sq r1 e)
                  (\<lambda>(r2, e2). send_much_loop cf buff_size cells r2 e2))"

definition Send_Much :: "'b rel_conf \<Rightarrow> int \<Rightarrow> 'b Reliable_Data option \<Rightarrow> 'b rel_env \<Rightarrow> ('b Reliable_Data \<times> 'b rel_env) res" where
  "Send_Much cf linkid lk e =
     (case lk of
        None \<Rightarrow> Inl (EXIT ''Send_Much: link not valid'')
      | Some r \<Rightarrow>
          if \<not> CONNECTED_LINK r \<or> window_size r \<le> in_flight cf r \<or> msg_buff r = [] then Inr (r, e)
          else let (r1, e1) = cancel_ack linkid (r, e) in
            bind_res (send_much_loop cf (int (length (msg_buff r))) (msg_buff r) r1 e1) (\<lambda>(r2, e2).
              let e3 = (if Link_Sessions_Blocked_On e2 = linkid \<and> int (length (msg_buff r2)) < MAX_BUFF_LINK div 4
                        then e2\<lparr>rel_calls := rel_calls e2 @ [Resume_All_Sessions], Link_Sessions_Blocked_On := - 1\<rparr> else e2)
              in Inr (arm_timeout cf linkid (r2, e3))))"

definition Reliable_Send_Msg :: "'b rel_conf \<Rightarrow> int \<Rightarrow> 'b \<Rightarrow> int16u \<Rightarrow> int32u \<Rightarrow> 'b Reliable_Data option \<Rightarrow> 'b rel_env
    \<Rightarrow> ('b Reliable_Data \<times> 'b rel_env) res" where
  "Reliable_Send_Msg cf linkid buff buff_len pack_type lk e =
     (case lk of
        None \<Rightarrow> Inl (EXIT ''Reliable_Send_Msg: non existing link'')
      | Some r0 \<Rightarrow>
          let sq = seq_no r0; r1 = r0\<lparr>seq_no := sq + 1\<rparr>;
              cell = \<lparr>bc_seq_no = sq, bc_buff = Some buff, bc_pack_type = pack_type, bc_data_len = buff_len,
                      bc_timestamp = rel_time e, bc_resent = False\<rparr>
          in bind_res (if CONNECTED_LINK r1 then Send_Much cf linkid (Some r1) e else Inr (r1, e)) (\<lambda>(r, e1).
            if window_size r \<le> in_flight cf r \<or> msg_buff r \<noteq> [] \<or> \<not> CONNECTED_LINK r
            then let r2 = r\<lparr>msg_buff := msg_buff r @ [cell]\<rparr>
                 in Inr (r2, if MAX_BUFF_LINK < int (length (msg_buff r2)) \<and> Link_Sessions_Blocked_On e1 = - 1
                             then e1\<lparr>Link_Sessions_Blocked_On := linkid, rel_calls := rel_calls e1 @ [Block_All_Sessions]\<rparr>
                             else e1)
            else if sq < head r then Inl (EXIT ''Reliable_Send_Msg: smaller seq_no'')
            else let (r2, e2) = cancel_ack linkid (into_window cell r, e1) in
              bind_res (transmit cf True True (RELIABLE_TYPE OR pack_type) (Some buff) buff_len sq r2 e2) (\<lambda>(r3, e3).
                Inr (arm_timeout cf linkid (r3, e3)))))"

definition Try_to_Send :: "'b rel_conf \<Rightarrow> int \<Rightarrow> 'b Reliable_Data option \<Rightarrow> 'b rel_env \<Rightarrow> ('b Reliable_Data \<times> 'b rel_env) res" where
  "Try_to_Send cf linkid lk e = Send_Much cf linkid lk e"

definition Send_Ack :: "'b rel_conf \<Rightarrow> int \<Rightarrow> 'b Reliable_Data option \<Rightarrow> 'b rel_env \<Rightarrow> ('b Reliable_Data \<times> 'b rel_env) res" where
  "Send_Ack cf linkid lk e =
     (case lk of
        None \<Rightarrow> Inl (EXIT ''Send_Ack: link not valid'')
      | Some r \<Rightarrow>
          if \<not> CONNECTED_LINK r then Inl (EXIT ''Send_Ack: Link not valid yet'')
          else transmit cf True True LINK_ACK_TYPE None 0 0 (r\<lparr>scheduled_ack := False\<rparr>) e)"

section \<open>Retransmission\<close>

text \<open>The packets of the window that belong to the stream of the packet \<open>sq\<close>, at least one; the whole
  window if streams are not told apart.\<close>

fun stream_loop :: "'b rel_conf \<Rightarrow> 'b \<Rightarrow> nat \<Rightarrow> int32u \<Rightarrow> 'b Reliable_Data \<Rightarrow> rat \<Rightarrow> rat res" where
  "stream_loop cf b 0 cur r acc = Inr acc"
| "stream_loop cf b (Suc n) cur r acc =
     (if \<not> fl cf (of_nat (unat cur)) < fl cf (fl cf (of_nat (unat (tail r))) + window_size r) then Inr acc
      else case bc_buff (window r (cur mod MAX_WINDOW)) of
        None \<Rightarrow> Inl (UNDEF ''stream_window'')
      | Some b' \<Rightarrow> stream_loop cf b n (cur + 1) r (if stream_key cf b' = stream_key cf b then fl cf (acc + 1) else acc))"

definition stream_window :: "'b rel_conf \<Rightarrow> int32u \<Rightarrow> 'b Reliable_Data \<Rightarrow> rat res" where
  "stream_window cf sq r =
     (let c = window r (sq mod MAX_WINDOW) in
      if Stream_Fairness cf \<and> (bc_pack_type c AND UDP_DATA_TYPE \<noteq> 0 \<or> bc_pack_type c AND REL_UDP_DATA_TYPE \<noteq> 0)
      then case bc_buff c of
          None \<Rightarrow> Inl (UNDEF ''stream_window'')
        | Some b \<Rightarrow> bind_res (stream_loop cf b (if tail r < head r then unat (head r - tail r) else 0) (tail r) r 0) (\<lambda>w.
            Inr (if w = 0 then 1 else w))
      else Inr (window_size r))"

definition at_least_minimum :: "'b rel_conf \<Rightarrow> rat \<Rightarrow> rat" where
  "at_least_minimum cf w = (if w < of_nat (Minimum_Window cf) then fl cf (of_nat (Minimum_Window cf)) else w)"

definition set_ssthresh :: "'b rel_conf \<Rightarrow> rat \<Rightarrow> 'b Reliable_Data \<Rightarrow> 'b Reliable_Data" where
  "set_ssthresh cf sw r =
     (let t = word_of_int \<lfloor>fl cf (window_size r - fl cf (sw / 2))\<rfloor>
      in r\<lparr>ssthresh := (if t < word_of_nat (Minimum_Window cf) then word_of_nat (Minimum_Window cf) else t)\<rparr>)"

definition resend :: "'b rel_conf \<Rightarrow> bool \<Rightarrow> int32u \<Rightarrow> 'b Reliable_Data \<Rightarrow> 'b rel_env \<Rightarrow> ('b Reliable_Data \<times> 'b rel_env) res" where
  "resend cf either sq r e =
     (let c = window r (sq mod MAX_WINDOW);
          r1 = r\<lparr>window := (window r)(sq mod MAX_WINDOW := c\<lparr>bc_resent := True\<rparr>)\<rparr>
      in transmit cf either True (RELIABLE_TYPE OR bc_pack_type c) (bc_buff c) (bc_data_len c) (bc_seq_no c) r1 e)"

fun resend_window :: "'b rel_conf \<Rightarrow> nat \<Rightarrow> int32u \<Rightarrow> 'b Reliable_Data \<Rightarrow> 'b rel_env \<Rightarrow> ('b Reliable_Data \<times> 'b rel_env) res" where
  "resend_window cf 0 cur r e = Inr (r, e)"
| "resend_window cf (Suc n) cur r e =
     (if bc_buff (window r (cur mod MAX_WINDOW)) = None then Inl (UNDEF ''Reliable_timeout'')
      else bind_res (resend cf True cur r e) (\<lambda>(r1, e1). resend_window cf n (cur + 1) r1 e1))"

definition Reliable_timeout :: "'b rel_conf \<Rightarrow> int \<Rightarrow> 'b Reliable_Data option \<Rightarrow> 'b rel_env \<Rightarrow> ('b Reliable_Data \<times> 'b rel_env) res" where
  "Reliable_timeout cf linkid lk e =
     (case lk of
        None \<Rightarrow> Inl (EXIT ''Reliable_timeout: link not valid'')
      | Some r \<Rightarrow>
          if \<not> CONNECTED_LINK r then Inl (EXIT ''Reliable_timeout: Link not valid yet'')
          else if head r = tail r then Inr (r\<lparr>scheduled_timeout := False\<rparr>, e)
          else bind_res (stream_window cf (tail r) r) (\<lambda>sw.
            let r1 = (if TCP_Fairness cf
                      then (set_ssthresh cf sw r)\<lparr>window_size := at_least_minimum cf (fl cf (fl cf (window_size r - sw) + 1))\<rparr>
                      else r);
                (r2, e2) = cancel_ack linkid (r1, e)
            in bind_res (resend_window cf (if tail r < head r then unat (head r - tail r) else 0) (tail r) r2 e2) (\<lambda>(r3, e3).
                 let m = (if 100 < timeout_multiply r3 * 2 then 100 else timeout_multiply r3 * 2)
                 in Inr (r3\<lparr>timeout_multiply := m\<rparr>,
                         rel_E_queue Reliable_timeout_fn linkid (retransm_timeout cf (rel_rand e3) (rtt r3) m) e3))))"

fun resend_nacks :: "'b rel_conf \<Rightarrow> int32u list \<Rightarrow> 'b Reliable_Data \<Rightarrow> 'b rel_env \<Rightarrow> ('b Reliable_Data \<times> 'b rel_env) res" where
  "resend_nacks cf [] r e = Inr (r, e)"
| "resend_nacks cf (nack_seq # nacks) r e =
     (if bc_buff (window r (nack_seq mod MAX_WINDOW)) = None then resend_nacks cf nacks r e
      else bind_res (resend cf False nack_seq r e) (\<lambda>(r1, e1). resend_nacks cf nacks r1 e1))"

definition Send_Nack_Retransm :: "'b rel_conf \<Rightarrow> int \<Rightarrow> 'b Reliable_Data option \<Rightarrow> 'b rel_env \<Rightarrow> ('b Reliable_Data \<times> 'b rel_env) res" where
  "Send_Nack_Retransm cf linkid lk e =
     (case lk of
        None \<Rightarrow> Inl (EXIT ''Send_Nack_Retransm: link not valid'')
      | Some r \<Rightarrow>
          if \<not> CONNECTED_LINK r then Inl (EXIT ''Send_Nack_Retransm: Link not valid yet'')
          else if nack_buff r = [] then Inr (r, e)
          else if head r = tail r then Inr (r\<lparr>scheduled_timeout := False\<rparr>, e)
          else bind_res (stream_window cf (hd (nack_buff r)) r) (\<lambda>sw.
            let r1 = (if \<not> TCP_Fairness cf then r
                      else if cong_flag r
                      then (set_ssthresh cf sw r)\<lparr>window_size := at_least_minimum cf (fl cf (window_size r - fl cf (sw / 2)))\<rparr>
                      else r\<lparr>cong_flag := True\<rparr>);
                (r2, e2) = cancel_ack linkid (r1, e)
            in bind_res (resend_nacks cf (nack_buff r) r2 e2) (\<lambda>(r3, e3). Inr (r3\<lparr>nack_buff := []\<rparr>, e3))))"

section \<open>Acknowledgements\<close>

definition zero_wait :: sp_time where "zero_wait = \<lparr>sec = 0, usec = 0\<rparr>"

text \<open>The buffer of missing packets to answer holds \<open>sizeof(packet_body) / 4\<close> entries.\<close>

definition take_nacks :: "int \<Rightarrow> int32u list \<Rightarrow> 'b Reliable_Data \<times> 'b rel_env \<Rightarrow> 'b Reliable_Data \<times> 'b rel_env" where
  "take_nacks linkid ns re = (let (r, e) = re in
     if ns = [] then (r, e)
     else (r\<lparr>nack_buff := nack_buff r @ take (363 - length (nack_buff r)) ns\<rparr>,
           rel_E_queue Send_Nack_Retransm_fn linkid zero_wait e))"

definition update_rtt :: "'b rel_conf \<Rightarrow> sp_time \<Rightarrow> int32u \<Rightarrow> 'b Reliable_Data \<Rightarrow> 'b Reliable_Data" where
  "update_rtt cf now ack r =
     (let c = window r ((ack - 1) mod MAX_WINDOW) in
      if ack mod 10 = 0 \<and> bc_buff c \<noteq> None \<and> \<not> bc_resent c
      then let diff = E_sub_time now (bc_timestamp c); rtt_estimate = word_of_int (sec diff * 1000000 + usec diff)
           in r\<lparr>rtt := (if rtt r = 0 then sint rtt_estimate else rtt_mix cf rtt_estimate (rtt r))\<rparr>
      else r)"

definition clamp_window :: "'b rel_conf \<Rightarrow> 'b Reliable_Data \<Rightarrow> rat \<Rightarrow> rat" where
  "clamp_window cf r w = (if of_nat (unat (max_window r)) < w then fl cf (of_nat (unat (max_window r))) else w)"

definition grow_window :: "'b rel_conf \<Rightarrow> rat \<Rightarrow> 'b Reliable_Data \<Rightarrow> 'b Reliable_Data" where
  "grow_window cf sw r =
     (if TCP_Fairness cf \<and> msg_buff r \<noteq> []
      then r\<lparr>window_size := clamp_window cf r
              (if window_size r < fl cf (of_nat (unat (ssthresh r))) then fl cf (window_size r + 1)
               else fl cf (window_size r + fl cf (1 / sw)))\<rparr>
      else r)"

text \<open>Packets are taken out of the window, \<open>n\<close> of them from \<open>i\<close> on.\<close>

fun ack_loop :: "'b rel_conf \<Rightarrow> nat \<Rightarrow> int32u \<Rightarrow> 'b Reliable_Data \<Rightarrow> 'b Reliable_Data res" where
  "ack_loop cf 0 i r = Inr r"
| "ack_loop cf (Suc n) i r =
     (let c = window r (i mod MAX_WINDOW) in
      if bc_buff c = None then Inl (EXIT ''Process_Ack: Reliability failure'')
      else let r1 = r\<lparr>window := (window r)(i mod MAX_WINDOW := c\<lparr>bc_buff := None, bc_data_len := 0, bc_pack_type := 0\<rparr>)\<rparr>
           in bind_res (stream_window cf (tail r1) r1) (\<lambda>sw.
                ack_loop cf n (i + 1) (grow_window cf sw (r1\<lparr>tail := tail r1 + 1\<rparr>))))"

definition process_cumulative :: "'b rel_conf \<Rightarrow> int \<Rightarrow> int32u \<Rightarrow> 'b Reliable_Data \<Rightarrow> 'b rel_env \<Rightarrow> ('b Reliable_Data \<times> 'b rel_env) res" where
  "process_cumulative cf linkid ack r e =
     (if tail r < ack
      then bind_res (ack_loop cf (unat (ack - tail r)) (tail r) (update_rtt cf (rel_time e) ack r)) (\<lambda>r1.
             Inr (r1, if msg_buff r1 \<noteq> [] then rel_E_queue Try_to_Send_fn linkid zero_wait e else e))
      else Inr (r, e))"

definition relax_timeout :: "'b rel_conf \<Rightarrow> int \<Rightarrow> 'b Reliable_Data \<times> 'b rel_env \<Rightarrow> 'b Reliable_Data \<times> 'b rel_env" where
  "relax_timeout cf linkid re = (let (r, e) = re;
       m = c_div (7 * timeout_multiply r) 8;
       r1 = r\<lparr>timeout_multiply := (if m < 1 then 1 else m)\<rparr>;
       (r2, e2) = (if scheduled_timeout r1
                   then (r1\<lparr>scheduled_timeout := False\<rparr>, rel_E_dequeue Reliable_timeout_fn linkid e) else (r1, e))
     in if tail r2 < head r2
        then (r2\<lparr>scheduled_timeout := True\<rparr>,
              rel_E_queue Reliable_timeout_fn linkid (ack_timeout cf (rel_rand e) (rtt r2) (timeout_multiply r2)) e2)
        else (r2, e2))"

text \<open>The receiving window moves over what has arrived in order, \<open>n\<close> turns at most.\<close>

fun recv_loop :: "nat \<Rightarrow> 'b Reliable_Data \<Rightarrow> 'b Reliable_Data" where
  "recv_loop 0 r = r"
| "recv_loop (Suc n) r =
     (let c = recv_window r (recv_tail r mod MAX_WINDOW) in
      if rc_flag c \<noteq> RECVD_CELL then r
      else recv_loop n ((put_recv (recv_tail r) (c\<lparr>rc_flag := EMPTY_CELL\<rparr>) r)\<lparr>recv_tail := recv_tail r + 1\<rparr>))"

definition receive_data :: "int32u \<Rightarrow> 'b Reliable_Data \<Rightarrow> int \<times> 'b Reliable_Data" where
  "receive_data sq r =
     (if rc_flag (recv_window r (sq mod MAX_WINDOW)) = RECVD_CELL \<or> sq < recv_tail r then (0, r)
      else let r1 = (if recv_head r \<le> sq then r\<lparr>recv_head := sq + 1\<rparr> else r);
               r2 = put_recv sq ((recv_window r1 (sq mod MAX_WINDOW))\<lparr>rc_flag := RECVD_CELL\<rparr>) r1
           in (1, recv_loop (if recv_tail r2 < recv_head r2 then unat (recv_head r2 - recv_tail r2) else 0) r2))"

text \<open>\<open>1\<close>: the packet has new data, \<open>0\<close>: it is to be ignored, \<open>-1\<close>: it only acknowledges.\<close>

definition Process_Ack :: "'b rel_conf \<Rightarrow> int \<Rightarrow> 'b rel_packet \<Rightarrow> 'b Reliable_Data option \<Rightarrow> 'b rel_env
    \<Rightarrow> (int \<times> 'b Reliable_Data \<times> 'b rel_env) res" where
  "Process_Ack cf linkid p lk e =
     (case lk of
        None \<Rightarrow> Inl (EXIT ''Process_Ack: Reliable Data is not defined'')
      | Some r \<Rightarrow>
          let type = (if Same_endian (rel_ARCH_ENDIAN cf) (rp_type p) then rp_type p else Flip_int32 (rp_type p));
              (r1, e1) = take_nacks linkid (rp_nacks p) (r, e)
          in if head r1 < rp_cummulative_ack p then Inr (0, r1, e1)
             else bind_res (process_cumulative cf linkid (rp_cummulative_ack p) r1 e1) (\<lambda>re2.
               let (r3, e3) = relax_timeout cf linkid re2 in
               if Is_link_ack type then Inr (- 1, r3, e3)
               else let (ret, r4) = receive_data (rp_seq_no p) r3 in Inr (ret, r4, e3)))"

text \<open>\<open>num_elements\<close> is the number of parts the packet was received in.\<close>

definition Process_ack_packet :: "'b rel_conf \<Rightarrow> int \<Rightarrow> nat \<Rightarrow> 'b rel_packet \<Rightarrow> 'b Reliable_Data option \<Rightarrow> 'b rel_env
    \<Rightarrow> ('b Reliable_Data option \<times> 'b rel_env) res" where
  "Process_ack_packet cf linkid num_elements p lk e =
     (if num_elements \<noteq> 2 then Inr (lk, e)
      else case lk of
        None \<Rightarrow> Inl (EXIT ''Process_ack_packet: ack packet for non-reliable link'')
      | Some r \<Rightarrow>
          if CONNECTED_LINK r then bind_res (Process_Ack cf linkid p lk e) (\<lambda>(ret, r1, e1). Inr (Some r1, e1))
          else Inr (lk, e))"

section \<open>Packets with data\<close>

definition sizeof_udp_header :: nat where "sizeof_udp_header = 28"
definition udp_ack_wait :: sp_time where "udp_ack_wait = \<lparr>sec = 0, usec = 10000\<rparr>"
definition state_ack_wait :: sp_time where "state_ack_wait = \<lparr>sec = 0, usec = 5000\<rparr>"

text \<open>A data packet on a reliable data link, up to the buffer that goes to \<open>Deliver_and_Forward_Data\<close>
  (\<open>None\<close>: no buffer goes there). \<open>len1\<close> is the length of its second part.\<close>

definition Process_rel_udp_data_packet :: "'b rel_conf \<Rightarrow> int \<Rightarrow> nat \<Rightarrow> nat \<Rightarrow> 'b rel_packet \<Rightarrow> 'b Reliable_Data option \<Rightarrow> 'b rel_env
    \<Rightarrow> ('b option \<times> 'b Reliable_Data option \<times> 'b rel_env) res" where
  "Process_rel_udp_data_packet cf linkid num_elements len1 p lk e =
     (if num_elements \<noteq> 2 \<or> len1 < sizeof_udp_header then Inr (None, lk, e)
      else case lk of
        None \<Rightarrow> Inl (UNDEF ''Process_rel_udp_data_packet'')
      | Some r \<Rightarrow>
          if \<not> CONNECTED_LINK r then Inr (None, lk, e)
          else bind_res (Process_Ack cf linkid p lk e) (\<lambda>(flag, r1, e1).
            if flag = - 1 then Inr (None, Some r1, e1)
            else let (r2, e2) = (if scheduled_ack r1 then (r1, rel_E_queue Send_Ack_fn linkid zero_wait e1)
                                 else (r1\<lparr>scheduled_ack := True\<rparr>, rel_E_queue Send_Ack_fn linkid udp_ack_wait e1))
                 in Inr (if flag = 0 then None else rp_data p, Some r2, e2)))"

text \<open>The link's part of \<open>Process_state_packet\<close>, for a packet on a control link: the buffer whose
  states are to be processed. The request for a hello message that a link sends which is not
  connected yet is not part of the link's own timers.\<close>

definition state_packet_link :: "'b rel_conf \<Rightarrow> int \<Rightarrow> 'b rel_packet \<Rightarrow> 'b Reliable_Data option \<Rightarrow> 'b rel_env
    \<Rightarrow> ('b option \<times> 'b Reliable_Data option \<times> 'b rel_env) res" where
  "state_packet_link cf linkid p lk e =
     (case lk of
        None \<Rightarrow> Inl (UNDEF ''Process_state_packet'')
      | Some r \<Rightarrow>
          if \<not> CONNECTED_LINK r then Inr (None, lk, e)
          else bind_res (Process_Ack cf linkid p lk e) (\<lambda>(flag, r1, e1).
            if flag = - 1 then Inr (None, Some r1, e1)
            else let (r2, e2) = (if E_in_queue Send_Ack_fn linkid () (rel_queue e1) then (r1, e1)
                                 else (r1\<lparr>scheduled_ack := True\<rparr>, rel_E_queue Send_Ack_fn linkid state_ack_wait e1))
                 in Inr (if flag = 0 then None else rp_data p, Some r2, e2)))"

text \<open>What \<open>Prot_process_scat\<close> does with a packet on a control link and on a reliable data link.\<close>

definition process_link_packet :: "bool \<Rightarrow> 'b rel_conf \<Rightarrow> int \<Rightarrow> nat \<Rightarrow> nat \<Rightarrow> 'b rel_packet \<Rightarrow> 'b Reliable_Data option \<Rightarrow> 'b rel_env
    \<Rightarrow> ('b option \<times> 'b Reliable_Data option \<times> 'b rel_env) res" where
  "process_link_packet control cf linkid num_elements len1 p lk e =
     (let type = (if Same_endian (rel_ARCH_ENDIAN cf) (rp_type p) then rp_type p else Flip_int32 (rp_type p));
          ack = bind_res (Process_ack_packet cf linkid num_elements p lk e) (\<lambda>(lk1, e1). Inr (None, lk1, e1))
      in if control
         then if Is_link_state type \<or> Is_group_state type then state_packet_link cf linkid p lk e
              else if Is_link_ack type then ack
              else Inr (None, lk, e)
         else if Is_rel_udp_data type then Process_rel_udp_data_packet cf linkid num_elements len1 p lk e
              else if Is_link_ack type then ack
              else Inr (None, lk, e))"

section \<open>A new link\<close>

text \<open>What \<open>Create_Link\<close> does for a reliable link, and \<open>Process_hello_packet\<close> when the leg connects.\<close>

definition MAX_CG_WINDOW :: int32u where "MAX_CG_WINDOW = 20000"

definition new_Reliable_Data :: "'b rel_conf \<Rightarrow> 'b Reliable_Data" where
  "new_Reliable_Data cf =
     \<lparr>CONNECTED_LINK = False, seq_no = 0, msg_buff = [],
      window_size = (if TCP_Fairness cf then fl cf (of_nat (Minimum_Window cf)) else of_nat (unat MAX_CG_WINDOW)),
      max_window = MAX_CG_WINDOW, ssthresh = MAX_CG_WINDOW,
      window = (\<lambda>_. \<lparr>bc_seq_no = 0, bc_buff = None, bc_pack_type = 0, bc_data_len = 0,
                      bc_timestamp = zero_wait, bc_resent = False\<rparr>),
      head = 0, tail = 0, recv_window = (\<lambda>_. \<lparr>rc_flag = EMPTY_CELL, nack_sent = zero_wait\<rparr>),
      recv_head = 0, recv_tail = 0, nack_buff = [], scheduled_ack = False, scheduled_timeout = False,
      timeout_multiply = 1, rtt = 0, cong_flag = True\<rparr>"

end
