(* ===== verification/Data_Link.thy ===== *)
theory Data_Link
  imports Reliable_Link
begin

unbundle bit_operations_syntax

text \<open>
  What the links that carry data have in common (\<open>net_types.h\<close>, \<open>protocol.c\<close>) and the plain UDP
  link (\<open>udp.c\<close>). A packet body is a list of bytes, because the length members of a received header
  decide at which offsets the receiver reads: a read outside the object is \<open>UNDEF\<close>. The rest of the
  header of a packet is a record; \<open>Read_UDP\<close> has put its members into the byte order of the host.
\<close>

section \<open>Packets\<close>

type_synonym byte = "8 word"
type_synonym int64u = "64 word"

record packet_header =
  ph_type :: int32u
  ph_sender_id :: Node_ID
  ph_ctrl_link_id :: int32u
  ph_data_len :: int16u
  ph_ack_len :: int16u
  ph_seq_no :: int16u

definition sizeof_packet_header :: nat where "sizeof_packet_header = 20"
definition sizeof_packet_body :: nat where "sizeof_packet_body = 1472 - sizeof_packet_header"

text \<open>A \<open>sys_scatter\<close> whose first element is the packet header. \<open>s_buf\<close> is the whole object behind
  the second element, of which \<open>s_len\<close> bytes count; \<open>s_rest\<close> has the elements behind it, so that
  \<open>num_elements\<close> is \<open>2 + length (s_rest s)\<close>.\<close>

record scatter =
  s_hdr :: packet_header
  s_buf :: "byte list"
  s_len :: nat
  s_rest :: "byte list list"

definition num_elements :: "scatter \<Rightarrow> nat" where "num_elements s = 2 + length (s_rest s)"

text \<open>Bytes of an object, and bytes written into it.\<close>

definition get_bytes :: "nat \<Rightarrow> nat \<Rightarrow> byte list \<Rightarrow> byte list res" where
  "get_bytes off n b = (if off + n \<le> length b then Inr (take n (drop off b)) else Inl (UNDEF ''read outside the object''))"

definition put_bytes :: "nat \<Rightarrow> byte list \<Rightarrow> byte list \<Rightarrow> byte list res" where
  "put_bytes off x b =
     (if off + length x \<le> length b then Inr (take off b @ x @ drop (off + length x) b)
      else Inl (UNDEF ''write outside the object''))"

text \<open>The members of \<open>udp_header\<close> lie at the offsets 0, 4, (8), 12, 14, 16, 18 and 20; swapping a
  member reverses its bytes. The member \<open>routing\<close> is the byte at offset 25.\<close>

definition flip_bytes :: "nat \<Rightarrow> nat \<Rightarrow> byte list \<Rightarrow> byte list" where
  "flip_bytes off n b = take off b @ rev (take n (drop off b)) @ drop (off + n) b"

definition Flip_udp_hdr :: "byte list \<Rightarrow> byte list" where
  "Flip_udp_hdr b = flip_bytes 20 2 (flip_bytes 18 2 (flip_bytes 16 2 (flip_bytes 14 2 (flip_bytes 12 2
     (flip_bytes 4 4 (flip_bytes 0 4 b))))))"

definition routing_byte :: "byte list \<Rightarrow> byte" where "routing_byte b = b ! 25"

section \<open>Sizes of headers\<close>

definition Flip_int64 :: "int64u \<Rightarrow> int64u" where
  "Flip_int64 t =
     push_bit 56 (t AND push_bit 0 0xff) OR push_bit 40 (t AND push_bit 8 0xff) OR
     push_bit 24 (t AND push_bit 16 0xff) OR push_bit 8 (t AND push_bit 24 0xff) OR
     drop_bit 8 (t AND push_bit 32 0xff) OR drop_bit 24 (t AND push_bit 40 0xff) OR
     drop_bit 40 (t AND push_bit 48 0xff) OR drop_bit 56 (t AND push_bit 56 0xff)"

record data_link_conf =
  lc_ARCH_ENDIAN :: int32u
  lc_My_Address :: Node_ID
  lc_network_flag :: bool
  MultiPath_Bitmask_Size :: int16u
  Prio_Signature_Len :: int16u
  Rel_Signature_Len :: int16u
  Cipher_Blk_Len :: int16u
  HMAC_Key_Len :: int16u

definition sizeof_prio_flood_header :: int16u where "sizeof_prio_flood_header = 40"
definition sizeof_rel_flood_header :: int16u where "sizeof_rel_flood_header = 24"
definition sizeof_fragment_header :: int16u where "sizeof_fragment_header = 4"
definition sizeof_rel_flood_tail :: int16u where "sizeof_rel_flood_tail = 4"
definition sizeof_rel_flood_hbh_ack :: int16u where "sizeof_rel_flood_hbh_ack = 24"
definition sizeof_sb_header :: int16u where "sizeof_sb_header = 8"
definition sizeof_rt_seq_type :: int16u where "sizeof_rt_seq_type = 8"
definition sizeof_rel_udp_pkt_add :: int16u where "sizeof_rel_udp_pkt_add = 8"
definition sizeof_reliable_tail :: int16u where "sizeof_reliable_tail = 8"
definition sizeof_intru_tol_pkt_tail :: int16u where "sizeof_intru_tol_pkt_tail = 48"

definition Dissemination_Header_Size :: "data_link_conf \<Rightarrow> byte \<Rightarrow> int16u res" where
  "Dissemination_Header_Size cf r =
     (if r = 0 then Inr 0
      else if r = 1
      then Inr (sizeof_prio_flood_header + MultiPath_Bitmask_Size cf + Prio_Signature_Len cf + sizeof_fragment_header)
      else if r = 2
      then Inr (sizeof_rel_flood_header + MultiPath_Bitmask_Size cf + Rel_Signature_Len cf + sizeof_fragment_header
             + sizeof_rel_flood_tail + sizeof_rel_flood_hbh_ack + sizeof_fragment_header)
      else if r = 3 then Inr (sizeof_sb_header + MultiPath_Bitmask_Size cf)
      else Inl (EXIT ''Dissemination_Header_Size: invalid dissemination protocol''))"

definition Link_Header_Size :: "data_link_conf \<Rightarrow> Link_Type \<Rightarrow> int16u res" where
  "Link_Header_Size cf mode =
     (case mode of
        UDP_LINK \<Rightarrow> Inr (of_nat sizeof_packet_header)
      | RELIABLE_UDP_LINK \<Rightarrow> Inr (of_nat sizeof_packet_header + sizeof_rel_udp_pkt_add + sizeof_reliable_tail)
      | REALTIME_UDP_LINK \<Rightarrow> Inr (of_nat sizeof_packet_header + sizeof_rt_seq_type)
      | INTRUSION_TOL_LINK \<Rightarrow> Inr (of_nat sizeof_packet_header + sizeof_intru_tol_pkt_tail + 8
          + Cipher_Blk_Len cf + Cipher_Blk_Len cf + HMAC_Key_Len cf)
      | CONTROL_LINK \<Rightarrow> Inr (of_nat sizeof_packet_header)
      | _ \<Rightarrow> Inl (EXIT ''Link_Header_Size: Unrecognized link type''))"

definition REALTIME_DATA_TYPE :: int32u where "REALTIME_DATA_TYPE = 0x00000004"
definition REALTIME_NACK_TYPE :: int32u where "REALTIME_NACK_TYPE = 0x00000005"
definition INTRU_TOL_DATA_TYPE :: int32u where "INTRU_TOL_DATA_TYPE = 0x0000000A"

definition Get_Link_Data_Type :: "Link_Type \<Rightarrow> int32u res" where
  "Get_Link_Data_Type mode =
     (case mode of
        UDP_LINK \<Rightarrow> Inr UDP_DATA_TYPE
      | RELIABLE_UDP_LINK \<Rightarrow> Inr REL_UDP_DATA_TYPE
      | REALTIME_UDP_LINK \<Rightarrow> Inr REALTIME_DATA_TYPE
      | INTRUSION_TOL_LINK \<Rightarrow> Inr INTRU_TOL_DATA_TYPE
      | CONTROL_LINK \<Rightarrow> Inl (EXIT ''Get_Link_Data_Type: CONTROL_LINK traffic cannot support DATA messages from client'')
      | _ \<Rightarrow> Inl (EXIT ''Get_Link_Data_Type: Unrecognized link type''))"

section \<open>How many packets a message takes\<close>

text \<open>\<open>lens\<close> has the lengths of the elements behind the first. The room in a packet is compared as a
  \<open>size_t\<close>.\<close>

fun count_packets :: "int \<Rightarrow> nat list \<Rightarrow> int16u \<Rightarrow> int16u \<Rightarrow> int16u \<times> int16u" where
  "count_packets space [] packets curr_pkt_len = (packets, curr_pkt_len)"
| "count_packets space (n # lens) packets curr_pkt_len =
     (if space < uint curr_pkt_len + int n + uint sizeof_fragment_header
      then count_packets space lens (packets + 1) (of_nat n + sizeof_fragment_header)
      else count_packets space lens packets (curr_pkt_len + (of_nat n + sizeof_fragment_header)))"

definition Calculate_Packets_In_Message :: "data_link_conf \<Rightarrow> nat list \<Rightarrow> Link_Type \<Rightarrow> (int16u \<times> int16u) res" where
  "Calculate_Packets_In_Message cf lens mode =
     bind_res (Link_Header_Size cf mode) (\<lambda>link_addition.
       let (packets, curr_pkt_len) = count_packets ((1472 - uint link_addition) mod 2 ^ 64) lens 1 0
       in Inr (packets, 1472 - link_addition - curr_pkt_len))"

section \<open>What a link shares with the daemon\<close>

text \<open>\<open>link_ret\<close> is what \<open>Link_Send\<close> returns, given what went out before; \<open>dl_loss\<close> and
  \<open>dl_ctrl_link_id\<close> belong to the leg of the link. \<open>dl_up\<close> lists the calls of
  \<open>Deliver_and_Forward_Data\<close>: the mode, the body and the dissemination header.\<close>

type_synonym wire_packet = "packet_header \<times> byte list \<times> byte list list"

datatype rt_func = Send_RT_Nack_fn | Send_RT_Retransm_fn

record dl_env =
  dl_time :: sp_time
  dl_monotonic :: sp_time
  dl_queue :: "(rt_func, unit) time_event list"
  dl_ctrl_link_id :: int32u
  dl_loss :: "Loss_Data option"
  dl_sent :: "wire_packet list"
  dl_up :: "(Link_Type \<times> byte list \<times> byte list) list"

type_synonym link_ret = "wire_packet list \<Rightarrow> wire_packet \<Rightarrow> int"

definition wire_of :: "scatter \<Rightarrow> wire_packet" where
  "wire_of s = (s_hdr s, take (s_len s) (s_buf s), s_rest s)"

text \<open>The call of \<open>Link_Send\<close>; the result is negative when sending failed, \<open>0\<close> when the network is
  switched off.\<close>

definition send_on :: "data_link_conf \<Rightarrow> link_ret \<Rightarrow> wire_packet \<Rightarrow> dl_env \<Rightarrow> int \<times> dl_env" where
  "send_on cf ret w e =
     (if lc_network_flag cf then (ret (dl_sent e) w, e\<lparr>dl_sent := dl_sent e @ [w]\<rparr>) else (0, e))"

section \<open>The UDP link\<close>

definition BUFF_EMPTY :: int where "BUFF_EMPTY = 2"
definition BUFF_DROP :: int where "BUFF_DROP = 5"

text \<open>The part the handlers of data packets share: cut the body to \<open>data_len\<close>, copy the dissemination
  header that lies behind body and link header into an element of its own, and hand both up.\<close>

definition hand_up :: "Link_Type \<Rightarrow> nat \<Rightarrow> nat \<Rightarrow> nat \<Rightarrow> byte list \<Rightarrow> scatter \<Rightarrow> dl_env \<Rightarrow> (scatter \<times> dl_env) res" where
  "hand_up mode data_len ack_len dh b s e =
     bind_res (get_bytes (data_len + ack_len) dh b) (\<lambda>dissem.
       Inr (s\<lparr>s_buf := b, s_len := sizeof_packet_body\<rparr>, e\<lparr>dl_up := dl_up e @ [(mode, take data_len b, dissem)]\<rparr>))"

definition Process_udp_data_packet :: "data_link_conf \<Rightarrow> scatter \<Rightarrow> int32u \<Rightarrow> Link_Type \<Rightarrow> dl_env \<Rightarrow> (scatter \<times> dl_env) res" where
  "Process_udp_data_packet cf s type mode e =
     (if num_elements s \<noteq> 2 \<or> s_len s < sizeof_udp_header then Inr (s, e)
      else let b = (if Same_endian (lc_ARCH_ENDIAN cf) type then s_buf s else Flip_udp_hdr (s_buf s)) in
        bind_res (Dissemination_Header_Size cf (routing_byte b)) (\<lambda>dh.
          let ack_len = (ucast (ph_ack_len (s_hdr s)) :: int32u) - ucast dh
          in hand_up mode (unat (ph_data_len (s_hdr s))) (unat ack_len) (unat dh) b s e))"

text \<open>\<open>lk = None\<close>: \<open>Get_Best_Link\<close> finds no link. A packet for the node itself goes back to
  the receiving side.\<close>

definition Forward_UDP_Data :: "data_link_conf \<Rightarrow> link_ret \<Rightarrow> bool \<Rightarrow> bool \<Rightarrow> scatter \<Rightarrow> dl_env \<Rightarrow> (int \<times> scatter \<times> dl_env) res" where
  "Forward_UDP_Data cf ret to_self link_exists s e =
     (if to_self
      then bind_res (Process_udp_data_packet cf s UDP_DATA_TYPE UDP_LINK e) (\<lambda>(s1, e1). Inr (BUFF_EMPTY, s1, e1))
      else if \<not> link_exists then Inr (BUFF_DROP, s, e)
      else bind_res (Dissemination_Header_Size cf (routing_byte (s_buf s))) (\<lambda>dh.
           bind_res (Set_Loss_SeqNo UDP_LINK (dl_loss e)) (\<lambda>(sq, l).
             let s1 = s\<lparr>s_hdr := \<lparr>ph_type = Set_endian (lc_ARCH_ENDIAN cf) UDP_DATA_TYPE,
                   ph_sender_id = lc_My_Address cf, ph_ctrl_link_id = dl_ctrl_link_id e,
                   ph_data_len = of_nat (s_len s), ph_ack_len = dh, ph_seq_no = sq\<rparr>\<rparr>;
                 (r, e1) = send_on cf ret (wire_of s1) (e\<lparr>dl_loss := Some l\<rparr>)
             in Inr (if r < 0 then BUFF_DROP else BUFF_EMPTY, s1, e1))))"

end
