(* ===== verification/Realtime.thy ===== *)
theory Realtime
  imports Data_Link
begin

unbundle bit_operations_syntax

text \<open>
  The realtime link (\<open>daemon/realtime_udp.c\<close>, \<open>Realtime_Data\<close> in \<open>link.h\<close>): the sender keeps the
  packets of the last tenth of a second, the receiver asks once for every packet that is missing, and a
  token bucket limits what may be sent again. Sequence numbers are 64-bit words. The arrays are
  functions of the index; as in the code, an index is a sequence number modulo \<open>MAX_HISTORY\<close>.
\<close>

section \<open>Data\<close>

type_synonym rt_seq_type = int64u

definition MAX_HISTORY :: rt_seq_type where "MAX_HISTORY = 1000"
definition HISTORY_TIME :: int where "HISTORY_TIME = 100000"
definition MAX_BUCKET :: int where "MAX_BUCKET = 500"
definition RT_RETRANSM_TOK :: int where "RT_RETRANSM_TOK = 2"

record History_Cell =
  hc_buff :: "byte list option"
  hc_len :: int16u
  hc_timestamp :: sp_time

record History_Recv_Cell =
  hr_flags :: cell_flag
  hr_timestamp :: sp_time

text \<open>\<open>rt_nack_buff\<close> has the first \<open>num_nacks\<close> entries of \<open>nack_buff\<close>, \<open>rt_retransm_buff\<close> the first
  \<open>num_retransm\<close> of \<open>retransm_buff\<close>.\<close>

record Realtime_Data =
  rt_head :: rt_seq_type
  rt_tail :: rt_seq_type
  rt_window :: "rt_seq_type \<Rightarrow> History_Cell"
  rt_recv_head :: rt_seq_type
  rt_recv_tail :: rt_seq_type
  rt_recv_window :: "rt_seq_type \<Rightarrow> History_Recv_Cell"
  rt_nack_buff :: "rt_seq_type list"
  rt_retransm_buff :: "rt_seq_type list option"
  rt_bucket :: int

text \<open>The part of \<open>Create_Link\<close> for a realtime link.\<close>

definition new_Realtime_Data :: Realtime_Data where
  "new_Realtime_Data =
     \<lparr>rt_head = 0, rt_tail = 0, rt_window = (\<lambda>_. \<lparr>hc_buff = None, hc_len = 0, hc_timestamp = zero_wait\<rparr>),
      rt_recv_head = 0, rt_recv_tail = 0,
      rt_recv_window = (\<lambda>_. \<lparr>hr_flags = EMPTY_CELL, hr_timestamp = zero_wait\<rparr>),
      rt_nack_buff = [], rt_retransm_buff = None, rt_bucket = 0\<rparr>"

text \<open>The bytes of a sequence number as the host stores it.\<close>

fun seq_bytes_le :: "nat \<Rightarrow> rt_seq_type \<Rightarrow> byte list" where
  "seq_bytes_le 0 w = []"
| "seq_bytes_le (Suc n) w = ucast w # seq_bytes_le n (drop_bit 8 w)"

fun seq_of_le :: "byte list \<Rightarrow> rt_seq_type" where
  "seq_of_le [] = 0"
| "seq_of_le (b # bs) = ucast b OR push_bit 8 (seq_of_le bs)"

definition store_seq :: "int32u \<Rightarrow> rt_seq_type \<Rightarrow> byte list" where
  "store_seq endian w = (if endian = 0 then rev (seq_bytes_le 8 w) else seq_bytes_le 8 w)"

definition load_seq :: "int32u \<Rightarrow> byte list \<Rightarrow> rt_seq_type" where
  "load_seq endian bs = (if endian = 0 then seq_of_le (rev bs) else seq_of_le bs)"

definition E_queue_rt :: "rt_func \<Rightarrow> int \<Rightarrow> dl_env \<Rightarrow> dl_env" where
  "E_queue_rt func linkid e = e\<lparr>dl_queue := E_queue (dl_monotonic e) func linkid () zero_wait (dl_queue e)\<rparr>"

section \<open>Receiving\<close>

definition int32_of :: "int \<Rightarrow> int" where "int32_of x = (x + 2 ^ 31) mod 2 ^ 32 - 2 ^ 31"

text \<open>The age of a received packet; the product of two \<open>int\<close> must fit.\<close>

definition recv_age :: "sp_time \<Rightarrow> sp_time \<Rightarrow> int res" where
  "recv_age now ts =
     (let s = int32_of (sec now - sec ts) * 1000000
      in if s < - (2 ^ 31) \<or> 2 ^ 31 \<le> s then Inl (UNDEF ''signed overflow'')
         else Inr (int32_of (s + (usec now - usec ts))))"

definition flag_at :: "Realtime_Data \<Rightarrow> rt_seq_type \<Rightarrow> cell_flag" where
  "flag_at r i = hr_flags (rt_recv_window r (i mod MAX_HISTORY))"

definition set_flag :: "rt_seq_type \<Rightarrow> cell_flag \<Rightarrow> Realtime_Data \<Rightarrow> Realtime_Data" where
  "set_flag i f r = r\<lparr>rt_recv_window := (rt_recv_window r)(i mod MAX_HISTORY := (rt_recv_window r (i mod MAX_HISTORY))\<lparr>hr_flags := f\<rparr>)\<rparr>"

lemma word_step_down: "a \<noteq> b \<Longrightarrow> unat (b - (a + 1)) < unat (b - a)" for a b :: "'a :: len word"
proof -
  assume "a \<noteq> b"
  then have "b - a \<noteq> 0" by auto
  then have "unat (b - a - 1) < unat (b - a)" by (rule measure_unat)
  then show ?thesis by (simp only: diff_diff_eq)
qed

function oldest_recvd :: "Realtime_Data \<Rightarrow> rt_seq_type \<Rightarrow> rt_seq_type" where
  "oldest_recvd r i = (if flag_at r i = EMPTY_CELL \<and> i < rt_recv_head r then oldest_recvd r (i + 1) else i)"
  by pat_completeness auto

termination oldest_recvd
  by (relation "measure (\<lambda>(r, i). unat (rt_recv_head r - i))") (auto intro: word_step_down)


declare oldest_recvd.simps [simp del]

lemma unat_Suc_less: "a < b \<Longrightarrow> unat (a + 1) = unat a + 1" for a b :: "'a :: len word"
proof -
  assume "a < b"
  then have "unat a < unat b" by (simp add: word_less_nat_alt)
  moreover have "unat b < 2 ^ LENGTH('a)" by (rule unsigned_less)
  ultimately have "unat a + 1 < 2 ^ LENGTH('a)" by linarith
  then show ?thesis by (simp add: unat_word_ariths)
qed

lemma oldest_recvd_bounds:
  "i \<le> rt_recv_head r \<Longrightarrow> i \<le> oldest_recvd r i \<and> oldest_recvd r i \<le> rt_recv_head r"
proof (induction r i rule: oldest_recvd.induct)
  case (1 r i)
  show ?case
  proof (cases "flag_at r i = EMPTY_CELL \<and> i < rt_recv_head r")
    case True
    then have "i + 1 \<le> rt_recv_head r" "i \<le> i + 1" by (auto simp: word_less_nat_alt word_le_nat_alt unat_Suc_less)
    with 1 True show ?thesis by (subst (1 2) oldest_recvd.simps) auto
  next
    case False
    with 1 show ?thesis by (subst (1 2) oldest_recvd.simps) auto
  qed
qed

function advance_recv_tail :: "sp_time \<Rightarrow> Realtime_Data \<Rightarrow> Realtime_Data res" where
  "advance_recv_tail now r =
     (if rt_recv_tail r < rt_recv_head r
      then let i = oldest_recvd r (rt_recv_tail r) in
           if i = rt_recv_head r then Inr r
           else case recv_age now (hr_timestamp (rt_recv_window r (i mod MAX_HISTORY))) of
             Inl f \<Rightarrow> Inl f
           | Inr diff \<Rightarrow>
               if diff \<le> HISTORY_TIME then Inr r
               else advance_recv_tail now ((set_flag i EMPTY_CELL r)\<lparr>rt_recv_tail := i + 1\<rparr>)
      else Inr r)"
  by pat_completeness auto

lemma unat_sub_mono: "a \<le> b \<Longrightarrow> b \<le> c \<Longrightarrow> unat (c - b) \<le> unat (c - a)" for a b c :: "'a :: len word"
  using unat_sub [of b c] unat_sub [of a c] by (simp add: word_le_nat_alt)

termination advance_recv_tail
proof (relation "measure (\<lambda>(now, r). unat (rt_recv_head r - rt_recv_tail r))")
  fix now r i diff
  assume lt: "rt_recv_tail r < rt_recv_head r" and i: "i = oldest_recvd r (rt_recv_tail r)" and ne: "i \<noteq> rt_recv_head r"
  have b: "rt_recv_tail r \<le> i" "i \<le> rt_recv_head r"
    using oldest_recvd_bounds [of "rt_recv_tail r" r] lt i by auto
  have "unat (rt_recv_head r - (i + 1)) < unat (rt_recv_head r - i)" using ne by (rule word_step_down)
  also have "\<dots> \<le> unat (rt_recv_head r - rt_recv_tail r)" using b by (rule unat_sub_mono)
  finally show "((now, (set_flag i EMPTY_CELL r)\<lparr>rt_recv_tail := i + 1\<rparr>), now, r)
      \<in> measure (\<lambda>(now, r). unat (rt_recv_head r - rt_recv_tail r))"
    by (simp add: set_flag_def)
qed simp

declare advance_recv_tail.simps [simp del]

text \<open>The loop that makes room for a packet with number \<open>s\<close>, and the loop over the missing packets.\<close>

function rt_make_room :: "rt_seq_type \<Rightarrow> Realtime_Data \<Rightarrow> Realtime_Data" where
  "rt_make_room s r =
     (if MAX_HISTORY \<le> s - rt_recv_tail r
      then rt_make_room s ((set_flag (rt_recv_tail r) EMPTY_CELL r)\<lparr>rt_recv_tail := rt_recv_tail r + 1\<rparr>)
      else r)"
  by pat_completeness auto

termination rt_make_room
proof (relation "measure (\<lambda>(s, r). unat (s - rt_recv_tail r))")
  fix s and r :: Realtime_Data
  assume "MAX_HISTORY \<le> s - rt_recv_tail r"
  then have "rt_recv_tail r \<noteq> s" by (auto simp: MAX_HISTORY_def)
  then show "((s, (set_flag (rt_recv_tail r) EMPTY_CELL r)\<lparr>rt_recv_tail := rt_recv_tail r + 1\<rparr>), s, r)
      \<in> measure (\<lambda>(s, r). unat (s - rt_recv_tail r))"
    by (simp add: set_flag_def word_step_down)
qed simp

declare rt_make_room.simps [simp del]

definition add_nack :: "rt_seq_type \<Rightarrow> Realtime_Data \<Rightarrow> Realtime_Data" where
  "add_nack i r =
     (if length (rt_nack_buff r) * 8 + 2 * 8 < sizeof_packet_body - sizeof_udp_header
      then r\<lparr>rt_nack_buff := rt_nack_buff r @ [i]\<rparr> else r)"

function mark_missing :: "rt_seq_type \<Rightarrow> rt_seq_type \<Rightarrow> Realtime_Data \<Rightarrow> Realtime_Data" where
  "mark_missing s i r = (if i < s then mark_missing s (i + 1) (add_nack i (set_flag i EMPTY_CELL r)) else r)"
  by pat_completeness auto

termination mark_missing
  by (relation "measure (\<lambda>(s, i, r). unat (s - i))") (auto intro: word_step_down)

declare mark_missing.simps [simp del]

definition new_highest :: "int \<Rightarrow> rt_seq_type \<Rightarrow> Realtime_Data \<times> dl_env \<Rightarrow> Realtime_Data \<times> dl_env" where
  "new_highest linkid s re = (let (r, e) = re in
     if rt_recv_head r \<le> s
     then let r1 = rt_make_room s r; r2 = mark_missing s (rt_recv_head r1) r1
          in (r2\<lparr>rt_recv_head := s + 1\<rparr>, if rt_nack_buff r2 \<noteq> [] then E_queue_rt Send_RT_Nack_fn linkid e else e)
     else (r, e))"

definition put_recvd :: "rt_seq_type \<Rightarrow> sp_time \<Rightarrow> Realtime_Data \<Rightarrow> Realtime_Data" where
  "put_recvd s now r = r\<lparr>rt_recv_window := (rt_recv_window r)(s mod MAX_HISTORY := \<lparr>hr_flags = RECVD_CELL, hr_timestamp = now\<rparr>)\<rparr>"

definition Process_RT_UDP_data_packet ::
  "data_link_conf \<Rightarrow> int \<Rightarrow> scatter \<Rightarrow> int32u \<Rightarrow> Link_Type \<Rightarrow> Realtime_Data \<Rightarrow> dl_env \<Rightarrow> (scatter \<times> Realtime_Data \<times> dl_env) res" where
  "Process_RT_UDP_data_packet cf linkid s type mode r e =
     (if num_elements s \<noteq> 2 \<or> s_len s < sizeof_udp_header then Inr (s, r, e)
      else bind_res (Dissemination_Header_Size cf (routing_byte (s_buf s))) (\<lambda>dh.
        let data_len = unat (ph_data_len (s_hdr s)); ack_len = ph_ack_len (s_hdr s) - dh;
            same = Same_endian (lc_ARCH_ENDIAN cf) type;
            b = (if same then s_buf s else Flip_udp_hdr (s_buf s))
        in bind_res (get_bytes data_len 8 b) (\<lambda>sb.
          let s0 = load_seq (lc_ARCH_ENDIAN cf) sb; sq = (if same then s0 else Flip_int64 s0) in
          if sq < rt_recv_tail r \<or> sq < rt_recv_head r \<and> flag_at r sq \<noteq> EMPTY_CELL then Inr (s\<lparr>s_buf := b\<rparr>, r, e)
          else bind_res (advance_recv_tail (dl_time e) r) (\<lambda>r1.
            let (r2, e2) = new_highest linkid sq (r1, e); r3 = put_recvd sq (dl_time e) r2
            in bind_res (hand_up mode data_len (unat ack_len) (unat dh) b s e2) (\<lambda>(s1, e3). Inr (s1, r3, e3))))))"

section \<open>Sending\<close>

text \<open>The age of a packet in the history of the sender, as the loops that clean it compute it.\<close>

definition sent_age :: "sp_time \<Rightarrow> sp_time \<Rightarrow> int" where
  "sent_age now ts = int32_of (usec now - usec ts + 1000000 * (sec now - sec ts))"

definition drop_oldest :: "Realtime_Data \<Rightarrow> Realtime_Data" where
  "drop_oldest r =
     r\<lparr>rt_window := (rt_window r)(rt_tail r mod MAX_HISTORY := (rt_window r (rt_tail r mod MAX_HISTORY))\<lparr>hc_buff := None\<rparr>),
       rt_tail := rt_tail r + 1\<rparr>"

function clean_history :: "sp_time \<Rightarrow> Realtime_Data \<Rightarrow> Realtime_Data" where
  "clean_history now r =
     (if rt_tail r < rt_head r \<and> HISTORY_TIME < sent_age now (hc_timestamp (rt_window r (rt_tail r mod MAX_HISTORY)))
      then clean_history now (drop_oldest r) else r)"
  by pat_completeness auto

termination clean_history
  by (relation "measure (\<lambda>(now, r). unat (rt_head r - rt_tail r))") (auto simp: drop_oldest_def intro: word_step_down)

declare clean_history.simps [simp del]

definition Clean_RT_history :: "sp_time \<Rightarrow> Realtime_Data option \<Rightarrow> Realtime_Data option" where
  "Clean_RT_history now lk = map_option (clean_history now) lk"


text \<open>\<open>Forward_RT_UDP_Data\<close> behind the lookup of the link. The buffer of the scatter gets the sequence
  number behind the body, and the dissemination header behind that when it has an element of its own;
  the buffer itself goes into the history. On return the scatter has its old length again.\<close>

definition make_place :: "Realtime_Data \<Rightarrow> Realtime_Data res" where
  "make_place r =
     (if MAX_HISTORY \<le> rt_head r - rt_tail r
      then if rt_head r - rt_tail r = MAX_HISTORY then Inr (drop_oldest r)
           else Inl (ASSERT ''rt_data->head - rt_data->tail == MAX_HISTORY'')
      else Inr r)"

text \<open>The second component is the length of the buffer that is kept.\<close>

definition seal_buffer :: "data_link_conf \<Rightarrow> int16u \<Rightarrow> rt_seq_type \<Rightarrow> scatter \<Rightarrow> (byte list \<times> int16u) res" where
  "seal_buffer cf dh sq s =
     bind_res (put_bytes (s_len s) (store_seq (lc_ARCH_ENDIAN cf) sq) (s_buf s)) (\<lambda>b1.
       case s_rest s of
         [] \<Rightarrow> Inr (b1, of_nat (s_len s) + sizeof_rt_seq_type)
       | x # _ \<Rightarrow>
           if sizeof_packet_body \<le> unat (of_nat (s_len s) :: int16u) + 8 + unat dh
           then Inl (ASSERT ''hdr->data_len + lh_size + dh_size < sizeof(packet_body)'')
           else bind_res (get_bytes 0 (unat dh) x) (\<lambda>d.
                bind_res (put_bytes (unat (of_nat (s_len s) :: int16u) + 8) d b1) (\<lambda>b2.
                  Inr (b2, of_nat (s_len s) + sizeof_rt_seq_type + dh))))"

definition rt_header :: "data_link_conf \<Rightarrow> int16u \<Rightarrow> int16u \<Rightarrow> int16u \<Rightarrow> dl_env \<Rightarrow> packet_header" where
  "rt_header cf data_len ack_len sq e =
     \<lparr>ph_type = Set_endian (lc_ARCH_ENDIAN cf) REALTIME_DATA_TYPE, ph_sender_id = lc_My_Address cf,
      ph_ctrl_link_id = dl_ctrl_link_id e, ph_data_len = data_len, ph_ack_len = ack_len, ph_seq_no = sq\<rparr>"

definition keep_packet :: "sp_time \<Rightarrow> byte list \<Rightarrow> int16u \<Rightarrow> Realtime_Data \<Rightarrow> Realtime_Data" where
  "keep_packet now b n r =
     r\<lparr>rt_window := (rt_window r)(rt_head r mod MAX_HISTORY := \<lparr>hc_buff = Some b, hc_len = n, hc_timestamp = now\<rparr>),
       rt_head := rt_head r + 1,
       rt_bucket := (if rt_bucket r < MAX_BUCKET then rt_bucket r + 1 else rt_bucket r)\<rparr>"

definition Forward_on_RT_link ::
  "data_link_conf \<Rightarrow> link_ret \<Rightarrow> scatter \<Rightarrow> Realtime_Data \<Rightarrow> dl_env \<Rightarrow> (int \<times> scatter \<times> Realtime_Data \<times> dl_env) res" where
  "Forward_on_RT_link cf ret s r e =
     bind_res (make_place (clean_history (dl_time e) r)) (\<lambda>r1.
     bind_res (Dissemination_Header_Size cf (routing_byte (s_buf s))) (\<lambda>dh.
     bind_res (Set_Loss_SeqNo REALTIME_UDP_LINK (dl_loss e)) (\<lambda>(sq, l).
     bind_res (seal_buffer cf dh (rt_head r1) s) (\<lambda>(b, n).
       let h = rt_header cf (of_nat (s_len s)) (sizeof_rt_seq_type + dh) sq e;
           s1 = s\<lparr>s_hdr := h, s_buf := b\<rparr>;
           (x, e1) = send_on cf ret (h, take (s_len s + 8) b, s_rest s) (e\<lparr>dl_loss := Some l\<rparr>)
       in Inr (if x < 0 then BUFF_DROP else BUFF_EMPTY, s1, keep_packet (dl_time e) b n r1, e1)))))"

definition Forward_RT_UDP_Data ::
  "data_link_conf \<Rightarrow> link_ret \<Rightarrow> bool \<Rightarrow> scatter \<Rightarrow> Realtime_Data option \<Rightarrow> dl_env
   \<Rightarrow> (int \<times> scatter \<times> Realtime_Data option \<times> dl_env) res" where
  "Forward_RT_UDP_Data cf ret to_self s lk e =
     (if to_self
      then bind_res (Process_udp_data_packet cf s UDP_DATA_TYPE UDP_LINK e) (\<lambda>(s1, e1). Inr (BUFF_EMPTY, s1, lk, e1))
      else case lk of
        None \<Rightarrow> Inr (BUFF_DROP, s, lk, e)
      | Some r \<Rightarrow> bind_res (Forward_on_RT_link cf ret s r e) (\<lambda>(x, s1, r1, e1). Inr (x, s1, Some r1, e1)))"

section \<open>Asking for and sending missing packets\<close>

text \<open>The entries of a NACK packet in the byte order of the host, as a receiver finds them.\<close>

definition store_seqs :: "int32u \<Rightarrow> rt_seq_type list \<Rightarrow> byte list" where
  "store_seqs endian ss = concat (map (store_seq endian) ss)"

fun load_seqs :: "int32u \<Rightarrow> nat \<Rightarrow> byte list \<Rightarrow> rt_seq_type list" where
  "load_seqs endian 0 b = []"
| "load_seqs endian (Suc n) b = load_seq endian (take 8 b) # load_seqs endian n (drop 8 b)"

definition Send_RT_Nack ::
  "data_link_conf \<Rightarrow> link_ret \<Rightarrow> Realtime_Data option \<Rightarrow> dl_env \<Rightarrow> (Realtime_Data \<times> dl_env) res" where
  "Send_RT_Nack cf ret lk e =
     (case lk of
        None \<Rightarrow> Inl (EXIT ''Send_RT_nack(): link not valid'')
      | Some r \<Rightarrow>
          bind_res (Set_Loss_SeqNo REALTIME_UDP_LINK (dl_loss e)) (\<lambda>(sq, l).
            let h = \<lparr>ph_type = Set_endian (lc_ARCH_ENDIAN cf) REALTIME_NACK_TYPE, ph_sender_id = lc_My_Address cf,
                     ph_ctrl_link_id = dl_ctrl_link_id e, ph_data_len = 0,
                     ph_ack_len = of_nat (length (rt_nack_buff r) * 8), ph_seq_no = sq\<rparr>;
                (_, e1) = send_on cf ret (h, store_seqs (lc_ARCH_ENDIAN cf) (rt_nack_buff r), []) (e\<lparr>dl_loss := Some l\<rparr>)
            in Inr (r\<lparr>rt_nack_buff := []\<rparr>, e1)))"

definition Process_RT_nack_packet ::
  "data_link_conf \<Rightarrow> int \<Rightarrow> scatter \<Rightarrow> int32u \<Rightarrow> Realtime_Data \<Rightarrow> dl_env \<Rightarrow> (Realtime_Data \<times> dl_env) res" where
  "Process_RT_nack_packet cf linkid s type r e =
     (if num_elements s \<noteq> 2 then Inr (r, e)
      else let n = unat (ph_ack_len (s_hdr s)) div 8 in
        bind_res (get_bytes 0 (8 * n) (s_buf s)) (\<lambda>b.
          let ss = load_seqs (lc_ARCH_ENDIAN cf) n b
          in Inr (r\<lparr>rt_retransm_buff := Some (if Same_endian (lc_ARCH_ENDIAN cf) type then ss else map Flip_int64 ss)\<rparr>,
                  E_queue_rt Send_RT_Retransm_fn linkid e)))"

text \<open>One packet again; the Boolean tells that the loop goes on. The buffer may be shared with other
  links, which have written their own sequence numbers into it, so it gets this one again.\<close>

definition resend_packet ::
  "data_link_conf \<Rightarrow> link_ret \<Rightarrow> rt_seq_type \<Rightarrow> Realtime_Data \<times> dl_env \<Rightarrow> (bool \<times> Realtime_Data \<times> dl_env) res" where
  "resend_packet cf ret sq re = (let (r, e) = re; c = rt_window r (sq mod MAX_HISTORY) in
     case hc_buff c of
       None \<Rightarrow> Inl (UNDEF ''Send_RT_Retransm'')
     | Some b \<Rightarrow>
         bind_res (Dissemination_Header_Size cf (routing_byte b)) (\<lambda>dh.
         bind_res (Set_Loss_SeqNo REALTIME_UDP_LINK (dl_loss e)) (\<lambda>(ls, l).
           let ack_len = sizeof_rt_seq_type + dh; data_len = hc_len c - ack_len in
           bind_res (put_bytes (unat data_len) (store_seq (lc_ARCH_ENDIAN cf) sq) b) (\<lambda>b1.
             let (x, e1) = send_on cf ret (rt_header cf data_len ack_len ls e, take (unat (hc_len c)) b1, []) (e\<lparr>dl_loss := Some l\<rparr>)
             in Inr (0 \<le> x, r\<lparr>rt_window := (rt_window r)(sq mod MAX_HISTORY := c\<lparr>hc_buff := Some b1\<rparr>)\<rparr>, e1)))))"

fun resend_list ::
  "data_link_conf \<Rightarrow> link_ret \<Rightarrow> rt_seq_type list \<Rightarrow> Realtime_Data \<times> dl_env \<Rightarrow> (Realtime_Data \<times> dl_env) res" where
  "resend_list cf ret [] re = Inr re"
| "resend_list cf ret (sq # ss) re =
     (if rt_head (fst re) \<le> sq then resend_list cf ret ss re
      else if rt_tail (fst re) \<le> sq
      then if rt_bucket (fst re) < RT_RETRANSM_TOK then Inr re
           else bind_res (resend_packet cf ret sq ((fst re)\<lparr>rt_bucket := rt_bucket (fst re) - RT_RETRANSM_TOK\<rparr>, snd re))
                  (\<lambda>(go, re1). if go then resend_list cf ret ss re1 else Inr re1)
      else resend_list cf ret ss re)"

definition Send_RT_Retransm ::
  "data_link_conf \<Rightarrow> link_ret \<Rightarrow> Realtime_Data option \<Rightarrow> dl_env \<Rightarrow> (Realtime_Data \<times> dl_env) res" where
  "Send_RT_Retransm cf ret lk e =
     (case lk of
        None \<Rightarrow> Inl (EXIT ''Send_RT_nack(): link not valid'')
      | Some r \<Rightarrow>
          (case rt_retransm_buff r of
             None \<Rightarrow> Inr (r, e)
           | Some ss \<Rightarrow>
               bind_res (resend_list cf ret ss (clean_history (dl_time e) r, e)) (\<lambda>(r1, e1).
                 Inr (r1\<lparr>rt_retransm_buff := None\<rparr>, e1))))"

end
