(* ===== verification/Realtime_Bytes.thy ===== *)
theory Realtime_Bytes
  imports Realtime
begin

unbundle bit_operations_syntax

text \<open>
  Sequence numbers as bytes: whatever the byte order of the two hosts, the receiver reads the number
  that the sender stored. Reads and writes of bytes inside an object.
\<close>

section \<open>Bits and bytes\<close>

lemma length_seq_bytes_le [simp]: "length (seq_bytes_le n w) = n"
  by (induction n arbitrary: w) auto

lemma length_store_seq [simp]: "length (store_seq endian w) = 8"
  by (simp add: store_seq_def)

lemma bit_seq_bytes_le: "i < n \<Longrightarrow> bit (seq_bytes_le n w ! i) j \<longleftrightarrow> j < 8 \<and> bit w (8 * i + j)"
proof (induction n arbitrary: w i)
  case (Suc n)
  then show ?case by (cases i) (auto simp: bit_simps add.assoc)
qed simp

lemma bit_seq_of_le:
  "length bs \<le> 8 \<Longrightarrow> bit (seq_of_le bs) k \<longleftrightarrow> k div 8 < length bs \<and> bit (bs ! (k div 8)) (k mod 8)"
proof (induction bs arbitrary: k)
  case (Cons b bs)
  show ?case
  proof (cases "k < 8")
    case True
    then show ?thesis by (auto simp: bit_simps)
  next
    case False
    then obtain m where m: "k = m + 8" using le_Suc_ex [of 8 k] by (metis add.commute not_less)
    have "\<not> bit b k" using False bit_imp_le_length [of b k] by auto
    moreover have "k < 64" if "k div 8 < length (b # bs)" using that Cons.prems by simp
    ultimately show ?thesis using Cons.IH [of m] Cons.prems m by (auto simp: bit_simps)
  qed
qed simp

lemma seq_of_bytes [simp]: "seq_of_le (seq_bytes_le 8 w) = w"
proof (rule bit_word_eqI)
  fix k assume "k < LENGTH(64)"
  then have "k div 8 < 8" by simp
  then show "bit (seq_of_le (seq_bytes_le 8 w)) k \<longleftrightarrow> bit w k"
    by (simp add: bit_seq_of_le bit_seq_bytes_le)
qed

lemma byte_mask: "(0xff :: int64u) = mask 8"
  by (simp add: mask_eq_exp_minus_1)

lemma byte_up: "bit (push_bit a (t AND push_bit b (mask 8))) n \<longleftrightarrow> a + b \<le> n \<and> n < a + b + 8 \<and> n < 64 \<and> bit t (n - a)"
  for t :: int64u
  by (auto simp: bit_simps)

lemma byte_down: "bit (drop_bit a (t AND push_bit b (mask 8))) n \<longleftrightarrow> b \<le> n + a \<and> n + a < b + 8 \<and> bit t (n + a)"
  for t :: int64u
  by (auto simp: bit_simps ac_simps dest: bit_imp_le_length)

lemma bit_Flip_int64:
  "bit (Flip_int64 t) n \<longleftrightarrow>
     (if n < 8 then bit t (n + 56) else if n < 16 then bit t (n + 40) else if n < 24 then bit t (n + 24)
      else if n < 32 then bit t (n + 8) else if n < 40 then bit t (n - 8) else if n < 48 then bit t (n - 24)
      else if n < 56 then bit t (n - 40) else n < 64 \<and> bit t (n - 56))"
  unfolding Flip_int64_def byte_mask bit_or_iff byte_up byte_down by simp

lemma Flip_seq_of_le:
  assumes "length bs = 8"
  shows "Flip_int64 (seq_of_le bs) = seq_of_le (rev bs)"
proof (rule bit_word_eqI)
  fix k :: nat assume "k < LENGTH(64)"
  then have k: "k < 64" by simp
  define i where "i = k div 8"
  define j where "j = k mod 8"
  have kij: "k = 8 * i + j" and ij: "i < 8" "j < 8" using k by (simp_all add: i_def j_def)
  have r: "bit (seq_of_le (rev bs)) k \<longleftrightarrow> bit (bs ! (7 - i)) j"
    using assms ij kij by (simp add: bit_seq_of_le rev_nth)
  have "i = 0 \<or> i = 1 \<or> i = 2 \<or> i = 3 \<or> i = 4 \<or> i = 5 \<or> i = 6 \<or> i = 7" using ij by linarith
  then show "bit (Flip_int64 (seq_of_le bs)) k \<longleftrightarrow> bit (seq_of_le (rev bs)) k"
    unfolding r bit_Flip_int64 using assms ij(2) kij
    by (elim disjE) (simp_all add: bit_seq_of_le div_add1_eq flip: mod_add_eq)
qed

text \<open>Both byte orders, and the word a receiver reads.\<close>

definition endian_ok :: "int32u \<Rightarrow> bool" where "endian_ok x \<longleftrightarrow> x = 0 \<or> x = ENDIAN_TYPE"

lemma ENDIAN_TYPE_nonzero [simp]: "ENDIAN_TYPE \<noteq> 0"
  by (simp add: ENDIAN_TYPE_def)

lemma load_store_seq:
  assumes "endian_ok e1" "endian_ok e2"
  shows "(let w = load_seq e2 (store_seq e1 sq) in if e1 = e2 then w else Flip_int64 w) = sq"
  using assms by (auto simp: endian_ok_def load_seq_def store_seq_def Flip_seq_of_le)

lemma load_store_seqs:
  assumes "endian_ok e1" "endian_ok e2" "length ss = n"
  shows "(let ws = load_seqs e2 n (store_seqs e1 ss) in if e1 = e2 then ws else map Flip_int64 ws) = ss"
  using assms(3)
proof (induction n arbitrary: ss)
  case (Suc n)
  then obtain w ws where "ss = w # ws" "length ws = n" by (cases ss) auto
  with Suc.IH [of ws] load_store_seq [OF assms(1,2), of w] show ?case
    by (auto simp: store_seqs_def Let_def split: if_splits)
qed (simp add: store_seqs_def)

lemma Same_endian_type:
  assumes "endian_ok e1" "endian_ok e2" "t AND ENDIAN_TYPE = 0"
  shows "Same_endian e2 (Set_endian e1 t) \<longleftrightarrow> e1 = e2"
proof -
  have "Set_endian e1 t AND ENDIAN_TYPE = e1"
    using assms(1) by (auto simp: Set_endian_def endian_ok_def bit_eq_iff bit_simps)
  then show ?thesis by (simp add: Same_endian_def)
qed

section \<open>Reads and writes inside an object\<close>

lemma get_bytes_Inr: "get_bytes off n b = Inr x \<longleftrightarrow> off + n \<le> length b \<and> x = take n (drop off b)"
  by (auto simp: get_bytes_def)

lemma put_bytes_Inr:
  "put_bytes off x b = Inr b' \<longleftrightarrow> off + length x \<le> length b \<and> b' = take off b @ x @ drop (off + length x) b"
  by (auto simp: put_bytes_def)

lemma length_put_bytes: "put_bytes off x b = Inr b' \<Longrightarrow> length b' = length b"
  by (auto simp: put_bytes_Inr)

lemma take_put_bytes: "put_bytes off x b = Inr b' \<Longrightarrow> n \<le> off \<Longrightarrow> take n b' = take n b"
  by (auto simp: put_bytes_Inr)

lemma nth_put_bytes: "put_bytes off x b = Inr b' \<Longrightarrow> n < off \<Longrightarrow> b' ! n = b ! n"
  by (auto simp: put_bytes_Inr nth_append)

lemma drop_put_bytes: "put_bytes off x b = Inr b' \<Longrightarrow> off + length x \<le> n \<Longrightarrow> drop n b' = drop n b"
  by (auto simp: put_bytes_Inr)

lemma read_put_bytes: "put_bytes off x b = Inr b' \<Longrightarrow> take (length x) (drop off b') = x"
  by (auto simp: put_bytes_Inr)

lemma length_flip_bytes [simp]: "off + n \<le> length b \<Longrightarrow> length (flip_bytes off n b) = length b"
  by (simp add: flip_bytes_def)

lemma drop_flip_bytes: "off + n \<le> length b \<Longrightarrow> off + n \<le> m \<Longrightarrow> drop m (flip_bytes off n b) = drop m b"
  by (simp add: flip_bytes_def)

lemma take_flip_bytes:
  "off + n \<le> m \<Longrightarrow> m \<le> length b \<Longrightarrow> take m (flip_bytes off n b) = flip_bytes off n (take m b)"
  by (cases "m = off") (simp_all add: flip_bytes_def drop_take min_def)

lemma Flip_udp_hdr_length [simp]: "22 \<le> length b \<Longrightarrow> length (Flip_udp_hdr b) = length b"
  by (simp add: Flip_udp_hdr_def)

lemma Flip_udp_hdr_drop: "22 \<le> length b \<Longrightarrow> 22 \<le> m \<Longrightarrow> drop m (Flip_udp_hdr b) = drop m b"
  by (simp add: Flip_udp_hdr_def drop_flip_bytes)

lemma Flip_udp_hdr_take: "22 \<le> m \<Longrightarrow> m \<le> length b \<Longrightarrow> take m (Flip_udp_hdr b) = Flip_udp_hdr (take m b)"
  by (simp add: Flip_udp_hdr_def take_flip_bytes)

lemma routing_byte_drop: "22 \<le> length b \<Longrightarrow> 26 \<le> length b \<Longrightarrow> routing_byte b = drop 22 b ! 3"
  by (simp add: routing_byte_def)

lemma routing_byte_Flip: "28 \<le> length b \<Longrightarrow> routing_byte (Flip_udp_hdr b) = routing_byte b"
  by (simp add: routing_byte_drop Flip_udp_hdr_drop)

lemma flip_flip_bytes [simp]: "off + n \<le> length b \<Longrightarrow> flip_bytes off n (flip_bytes off n b) = b"
  by (simp add: flip_bytes_def) (metis append_take_drop_id drop_drop add.commute)

end
