(* ===== verification/Realtime_Recv.thy ===== *)
theory Realtime_Recv
  imports Realtime_Bytes
begin

text \<open>
  The receiving side of a realtime link. The cells between tail and head of the receive window tell
  exactly which of these packets have been handed up, so that a packet is handed up at most once, and
  a packet that is not older than the tail and was not handed up before is.
\<close>

section \<open>The window\<close>

text \<open>\<open>D\<close> is the set of sequence numbers that have been handed up.\<close>

definition recv_inv :: "rt_seq_type set \<Rightarrow> Realtime_Data \<Rightarrow> bool" where
  "recv_inv D r \<longleftrightarrow> rt_recv_tail r \<le> rt_recv_head r \<and> unat (rt_recv_head r) \<le> unat (rt_recv_tail r) + 1000 \<and>
     D \<subseteq> {..<rt_recv_head r} \<and>
     (\<forall>x. rt_recv_tail r \<le> x \<longrightarrow> x < rt_recv_head r \<longrightarrow> (flag_at r x \<noteq> EMPTY_CELL \<longleftrightarrow> x \<in> D))"

lemma recv_inv_new: "recv_inv {} new_Realtime_Data"
  by (simp add: recv_inv_def new_Realtime_Data_def)

lemma unat_slot64: "unat (x mod MAX_HISTORY) = unat x mod 1000"
  by (simp add: MAX_HISTORY_def unat_mod)

lemma near_mod_eq:
  assumes "a mod 1000 = b mod (1000 :: nat)" "a < b + 1000" "b < a + 1000"
  shows "a = b"
proof -
  have "a = 1000 * (a div 1000) + a mod 1000" "b = 1000 * (b div 1000) + b mod 1000" by simp_all
  moreover from this have "a div 1000 = b div 1000" using assms by linarith
  ultimately show ?thesis using assms(1) by metis
qed

text \<open>Two sequence numbers less than \<open>MAX_HISTORY\<close> apart share a cell only when they are equal.\<close>

lemma hist_slot_inj:
  assumes "x mod MAX_HISTORY = y mod MAX_HISTORY" "unat x < unat y + 1000" "unat y < unat x + 1000"
  shows "x = y"
proof -
  have "unat x mod 1000 = unat y mod 1000" using assms(1) unat_slot64 by metis
  then show ?thesis using near_mod_eq assms(2,3) by (metis word_unat_eq_iff)
qed

lemma flag_at_set_flag:
  "flag_at (set_flag i f r) x = (if x mod MAX_HISTORY = i mod MAX_HISTORY then f else flag_at r x)"
  by (simp add: flag_at_def set_flag_def)

lemma flag_at_update [simp]:
  "flag_at (r\<lparr>rt_recv_tail := t\<rparr>) x = flag_at r x" "flag_at (r\<lparr>rt_recv_head := t\<rparr>) x = flag_at r x"
  "flag_at (r\<lparr>rt_nack_buff := n\<rparr>) x = flag_at r x"
  by (simp_all add: flag_at_def)

lemma set_flag_simps [simp]:
  "rt_recv_tail (set_flag i f r) = rt_recv_tail r" "rt_recv_head (set_flag i f r) = rt_recv_head r"
  "rt_nack_buff (set_flag i f r) = rt_nack_buff r" "rt_head (set_flag i f r) = rt_head r"
  by (simp_all add: set_flag_def)

lemma oldest_recvd_empty:
  "i \<le> rt_recv_head r \<Longrightarrow> i \<le> x \<Longrightarrow> x < oldest_recvd r i \<Longrightarrow> flag_at r x = EMPTY_CELL"
proof (induction r i rule: oldest_recvd.induct)
  case (1 r i)
  have o: "oldest_recvd r i = (if flag_at r i = EMPTY_CELL \<and> i < rt_recv_head r then oldest_recvd r (i + 1) else i)"
    by (rule oldest_recvd.simps)
  show ?case
  proof (cases "flag_at r i = EMPTY_CELL \<and> i < rt_recv_head r")
    case True
    then have "i + 1 \<le> rt_recv_head r" by (auto simp: word_less_nat_alt word_le_nat_alt unat_Suc_less)
    moreover have "x = i \<or> i + 1 \<le> x"
      using True 1(3) by (auto simp: word_le_nat_alt unat_Suc_less word_unat_eq_iff)
    ultimately show ?thesis using 1 True o by auto
  next
    case False
    with 1 o show ?thesis by auto
  qed
qed

lemma advance_recv_tail_inv:
  "advance_recv_tail now r = Inr r' \<Longrightarrow> recv_inv D r \<Longrightarrow>
   recv_inv D r' \<and> rt_recv_head r' = rt_recv_head r \<and> rt_recv_tail r \<le> rt_recv_tail r' \<and> rt_nack_buff r' = rt_nack_buff r"
proof (induction now r arbitrary: r' rule: advance_recv_tail.induct)
  case (1 now r)
  define i where "i = oldest_recvd r (rt_recv_tail r)"
  define r1 where "r1 = (set_flag i EMPTY_CELL r)\<lparr>rt_recv_tail := i + 1\<rparr>"
  have r': "advance_recv_tail now r = Inr r'" by fact
  have inv: "recv_inv D r" by fact
  show ?case
  proof (cases "rt_recv_tail r < rt_recv_head r \<and> i \<noteq> rt_recv_head r \<and> r' \<noteq> r")
    case True
    then obtain diff where d: "recv_age now (hr_timestamp (rt_recv_window r (i mod MAX_HISTORY))) = Inr diff"
      and big: "\<not> diff \<le> HISTORY_TIME" and step: "advance_recv_tail now r1 = Inr r'"
      using r' by (subst (asm) advance_recv_tail.simps) (auto simp: i_def r1_def Let_def split: sum.splits if_splits)
    have b: "rt_recv_tail r \<le> i" "i < rt_recv_head r"
      using oldest_recvd_bounds [of "rt_recv_tail r" r] True by (auto simp: i_def order.strict_iff_order)
    have i1: "unat (i + 1) = unat i + 1" using b(2) by (rule unat_Suc_less)
    have "recv_inv D r1"
      unfolding recv_inv_def
    proof (intro conjI allI impI)
      show "rt_recv_tail r1 \<le> rt_recv_head r1" using b(2) i1 by (simp add: r1_def word_le_nat_alt word_less_nat_alt)
      show "unat (rt_recv_head r1) \<le> unat (rt_recv_tail r1) + 1000"
        using inv b(1) i1 by (simp add: r1_def recv_inv_def word_le_nat_alt)
      show "D \<subseteq> {..<rt_recv_head r1}" using inv by (simp add: r1_def recv_inv_def)
    next
      fix x assume x: "rt_recv_tail r1 \<le> x" "x < rt_recv_head r1"
      then have "i < x" "x < rt_recv_head r" using i1 by (simp_all add: r1_def word_le_nat_alt word_less_nat_alt)
      moreover from this have "x mod MAX_HISTORY \<noteq> i mod MAX_HISTORY"
        using hist_slot_inj [of x i] inv b by (auto simp: recv_inv_def word_le_nat_alt word_less_nat_alt)
      ultimately show "flag_at r1 x \<noteq> EMPTY_CELL \<longleftrightarrow> x \<in> D"
        using inv b by (simp add: r1_def recv_inv_def flag_at_set_flag)
    qed
    moreover have "\<not> diff \<le> HISTORY_TIME \<Longrightarrow> advance_recv_tail now r1 = Inr r' \<Longrightarrow> recv_inv D r1 \<Longrightarrow> ?thesis"
      using "1.IH" [OF _ i_def _ d, of r'] True b i1
      by (auto simp: r1_def word_le_nat_alt word_less_nat_alt)
    ultimately show ?thesis using big step by blast
  next
    case False
    then have "r' = r" using r'
      by (subst (asm) advance_recv_tail.simps) (auto simp: i_def Let_def split: sum.splits if_splits)
    with inv show ?thesis by simp
  qed
qed


section \<open>A packet with the highest number so far\<close>

lemma rt_make_room_spec:
  assumes "rt_recv_tail r \<le> s"
  shows "rt_recv_tail (rt_make_room s r) \<le> s \<and> unat s < unat (rt_recv_tail (rt_make_room s r)) + 1000 \<and>
     rt_recv_tail r \<le> rt_recv_tail (rt_make_room s r) \<and>
     rt_recv_head (rt_make_room s r) = rt_recv_head r \<and> rt_nack_buff (rt_make_room s r) = rt_nack_buff r \<and>
     (\<forall>x. rt_recv_tail (rt_make_room s r) \<le> x \<longrightarrow> unat x < unat (rt_recv_tail r) + 1000 \<longrightarrow>
        flag_at (rt_make_room s r) x = flag_at r x)"
  using assms
proof (induction s r rule: rt_make_room.induct)
  case (1 s r)
  define r1 where "r1 = (set_flag (rt_recv_tail r) EMPTY_CELL r)\<lparr>rt_recv_tail := rt_recv_tail r + 1\<rparr>"
  have us: "unat (s - rt_recv_tail r) = unat s - unat (rt_recv_tail r)" using 1(2) by (rule unat_sub)
  show ?case
  proof (cases "MAX_HISTORY \<le> s - rt_recv_tail r")
    case True
    have far: "1000 \<le> unat s - unat (rt_recv_tail r)" using True us by (simp add: MAX_HISTORY_def word_le_nat_alt)
    then have "rt_recv_tail r < s" by (simp add: word_less_nat_alt)
    then have t1: "unat (rt_recv_tail r + 1) = unat (rt_recv_tail r) + 1" by (rule unat_Suc_less)
    have m: "rt_make_room s r = rt_make_room s r1" using True by (subst rt_make_room.simps) (simp add: r1_def)
    have "rt_recv_tail r1 \<le> s" using t1 far by (simp add: r1_def word_le_nat_alt)
    note ih = 1(1) [OF True, folded r1_def, OF this]
    have keep: "flag_at r1 x = flag_at r x" if "rt_recv_tail r1 \<le> x" "unat x < unat (rt_recv_tail r) + 1000" for x
    proof -
      have "x mod MAX_HISTORY \<noteq> rt_recv_tail r mod MAX_HISTORY"
        using hist_slot_inj [of x "rt_recv_tail r"] that t1 by (auto simp: r1_def word_le_nat_alt)
      then show ?thesis by (simp add: r1_def flag_at_set_flag)
    qed
    have "flag_at (rt_make_room s r1) x = flag_at r x"
      if "rt_recv_tail (rt_make_room s r1) \<le> x" "unat x < unat (rt_recv_tail r) + 1000" for x
      using ih that keep [of x] t1 by (simp add: r1_def word_le_nat_alt)
    moreover have "rt_recv_tail r \<le> rt_recv_tail (rt_make_room s r1)" using ih t1 by (simp add: r1_def word_le_nat_alt)
    ultimately show ?thesis unfolding m using ih by (simp add: r1_def)
  next
    case False
    then have "unat s < unat (rt_recv_tail r) + 1000" using us by (auto simp: MAX_HISTORY_def word_le_nat_alt)
    with False 1(2) show ?thesis by (subst (1 2 3 4 5 6 7) rt_make_room.simps) (simp add: MAX_HISTORY_def)
  qed
qed

lemma add_nack_simps [simp]:
  "rt_recv_tail (add_nack i r) = rt_recv_tail r" "rt_recv_head (add_nack i r) = rt_recv_head r"
  "flag_at (add_nack i r) x = flag_at r x"
  by (simp_all add: add_nack_def)

lemma mark_missing_empty: "flag_at r x = EMPTY_CELL \<Longrightarrow> flag_at (mark_missing s i r) x = EMPTY_CELL"
proof (induction s i r rule: mark_missing.induct)
  case (1 s i r)
  then show ?case by (subst mark_missing.simps) (simp add: flag_at_set_flag)
qed

lemma mark_missing_spec:
  "rt_recv_tail (mark_missing s i r) = rt_recv_tail r \<and> rt_recv_head (mark_missing s i r) = rt_recv_head r \<and>
   (\<forall>x. i \<le> x \<longrightarrow> x < s \<longrightarrow> flag_at (mark_missing s i r) x = EMPTY_CELL) \<and>
   (\<forall>x. x < i \<longrightarrow> unat s \<le> unat x + 1000 \<longrightarrow> flag_at (mark_missing s i r) x = flag_at r x)"
proof (induction s i r rule: mark_missing.induct)
  case (1 s i r)
  define r1 where "r1 = add_nack i (set_flag i EMPTY_CELL r)"
  show ?case
  proof (cases "i < s")
    case True
    then have i1: "unat (i + 1) = unat i + 1" by (rule unat_Suc_less)
    have m: "mark_missing s i r = mark_missing s (i + 1) r1" using True by (subst mark_missing.simps) (simp add: r1_def)
    note ih = 1 [OF True, folded r1_def]
    have "flag_at (mark_missing s (i + 1) r1) x = EMPTY_CELL" if "i \<le> x" "x < s" for x
    proof (cases "x = i")
      case True
      then show ?thesis by (intro mark_missing_empty) (simp add: r1_def flag_at_set_flag)
    next
      case False
      with that i1 have "i + 1 \<le> x" by (simp add: word_le_nat_alt word_unat_eq_iff)
      with ih that show ?thesis by simp
    qed
    moreover have "flag_at (mark_missing s (i + 1) r1) x = flag_at r x" if "x < i" "unat s \<le> unat x + 1000" for x
    proof -
      have "x mod MAX_HISTORY \<noteq> i mod MAX_HISTORY"
        using hist_slot_inj [of x i] that True by (auto simp: word_less_nat_alt)
      then show ?thesis using ih that i1 by (simp add: r1_def flag_at_set_flag word_less_nat_alt)
    qed
    ultimately show ?thesis unfolding m using ih by (simp add: r1_def)
  next
    case False
    then have "mark_missing s i r = r" by (subst mark_missing.simps) simp
    with False show ?thesis by auto
  qed
qed

section \<open>A packet is handed up at most once\<close>

lemma flag_at_put_recvd:
  "flag_at (put_recvd s now r) x = (if x mod MAX_HISTORY = s mod MAX_HISTORY then RECVD_CELL else flag_at r x)"
  by (simp add: flag_at_def put_recvd_def)

lemma put_recvd_simps [simp]:
  "rt_recv_tail (put_recvd s now r) = rt_recv_tail r" "rt_recv_head (put_recvd s now r) = rt_recv_head r"
  by (simp_all add: put_recvd_def)

lemma new_highest_inv:
  assumes inv: "recv_inv D r" and s: "rt_recv_head r \<le> s" "s \<noteq> - 1"
    and h: "new_highest linkid s (r, e) = (r', e')"
  shows "recv_inv (insert s D) (put_recvd s now r')"
proof -
  define r1 where "r1 = rt_make_room s r"
  define r2 where "r2 = mark_missing s (rt_recv_head r1) r1"
  have r': "r' = r2\<lparr>rt_recv_head := s + 1\<rparr>" using h s by (auto simp: new_highest_def r1_def r2_def Let_def)
  have tl: "rt_recv_tail r \<le> s" using inv s by (auto simp: recv_inv_def)
  note a = rt_make_room_spec [OF tl, folded r1_def] and b = mark_missing_spec [of s "rt_recv_head r1" r1, folded r2_def]
  have s1: "unat (s + 1) = unat s + 1"
    using s(2) unatSuc [of s] by (metis add.commute add_eq_0_iff Suc_eq_plus1)
  have flags: "flag_at (put_recvd s now r') x \<noteq> EMPTY_CELL \<longleftrightarrow> x \<in> insert s D"
    if x: "rt_recv_tail r2 \<le> x" "x < s + 1" for x
  proof (cases "x = s")
    case True
    then show ?thesis by (simp add: flag_at_put_recvd)
  next
    case False
    then have xs: "x < s" using x(2) s1 by (simp add: word_less_nat_alt word_unat_eq_iff)
    have "x mod MAX_HISTORY \<noteq> s mod MAX_HISTORY"
      using hist_slot_inj [of x s] False a b x xs by (auto simp: word_le_nat_alt word_less_nat_alt)
    then have f: "flag_at (put_recvd s now r') x = flag_at r2 x" by (simp add: r' flag_at_put_recvd)
    show ?thesis
    proof (cases "x < rt_recv_head r")
      case True
      have "flag_at r2 x = flag_at r1 x" using a b x True by (simp add: word_le_nat_alt)
      moreover have "flag_at r1 x = flag_at r x"
        using a b x True inv by (simp add: recv_inv_def word_less_nat_alt)
      moreover have "rt_recv_tail r \<le> x" using a b x by (simp add: word_le_nat_alt)
      ultimately show ?thesis using f inv True False by (simp add: recv_inv_def)
    next
      case x2: False
      then have "flag_at r2 x = EMPTY_CELL" using a b xs by simp
      moreover have "x \<notin> D" using inv x2 by (auto simp: recv_inv_def)
      ultimately show ?thesis using f False by simp
    qed
  qed
  have "rt_recv_tail r2 \<le> s + 1" "unat (s + 1) \<le> unat (rt_recv_tail r2) + 1000"
    using a b s1 by (simp_all add: word_le_nat_alt)
  moreover have "insert s D \<subseteq> {..<s + 1}"
    using inv s(1) s1 by (auto simp: recv_inv_def word_le_nat_alt word_less_nat_alt subset_iff)
  ultimately show ?thesis using flags by (simp add: recv_inv_def r')
qed

lemma late_packet_inv:
  assumes inv: "recv_inv D r" "recv_inv D r1" and t: "rt_recv_head r1 = rt_recv_head r" "rt_recv_tail r \<le> rt_recv_tail r1"
    and s: "rt_recv_tail r \<le> s" "s < rt_recv_head r"
  shows "recv_inv (insert s D) (put_recvd s now r1)"
proof -
  have "flag_at (put_recvd s now r1) x \<noteq> EMPTY_CELL \<longleftrightarrow> x \<in> insert s D"
    if x: "rt_recv_tail r1 \<le> x" "x < rt_recv_head r1" for x
  proof (cases "x = s")
    case False
    have "unat x < unat s + 1000" "unat s < unat x + 1000"
      using x s t inv(1) by (auto simp: recv_inv_def word_le_nat_alt word_less_nat_alt)
    then have "x mod MAX_HISTORY \<noteq> s mod MAX_HISTORY" using False hist_slot_inj by blast
    then show ?thesis using inv(2) x False by (simp add: recv_inv_def flag_at_put_recvd)
  qed (simp add: flag_at_put_recvd)
  then show ?thesis using inv(2) s t by (simp add: recv_inv_def)
qed


text \<open>What the receiver makes of a packet: its body in the byte order of the host, its sequence number
  and the dissemination header.\<close>

definition host_buf :: "data_link_conf \<Rightarrow> int32u \<Rightarrow> scatter \<Rightarrow> byte list" where
  "host_buf cf type s = (if Same_endian (lc_ARCH_ENDIAN cf) type then s_buf s else Flip_udp_hdr (s_buf s))"

definition packet_seq :: "data_link_conf \<Rightarrow> int32u \<Rightarrow> scatter \<Rightarrow> rt_seq_type" where
  "packet_seq cf type s =
     (let w = load_seq (lc_ARCH_ENDIAN cf) (take 8 (drop (unat (ph_data_len (s_hdr s))) (host_buf cf type s)))
      in if Same_endian (lc_ARCH_ENDIAN cf) type then w else Flip_int64 w)"

definition upcall :: "data_link_conf \<Rightarrow> int32u \<Rightarrow> Link_Type \<Rightarrow> int16u \<Rightarrow> scatter \<Rightarrow> Link_Type \<times> byte list \<times> byte list" where
  "upcall cf type mode dh s =
     (mode, take (unat (ph_data_len (s_hdr s))) (host_buf cf type s),
      take (unat dh) (drop (unat (ph_data_len (s_hdr s)) + unat (ph_ack_len (s_hdr s) - dh)) (host_buf cf type s)))"

definition proper_size :: "scatter \<Rightarrow> bool" where
  "proper_size s \<longleftrightarrow> num_elements s = 2 \<and> sizeof_udp_header \<le> s_len s"

lemma new_highest_env: "dl_up (snd (new_highest linkid s (r, e))) = dl_up e"
  by (simp add: new_highest_def E_queue_rt_def Let_def)

lemma Process_RT_unfold:
  assumes "proper_size s" and dh: "Dissemination_Header_Size cf (routing_byte (s_buf s)) = Inr dh"
    and n: "unat (ph_data_len (s_hdr s)) + 8 \<le> length (host_buf cf type s)"
  shows "Process_RT_UDP_data_packet cf linkid s type mode r e =
    (let sq = packet_seq cf type s in
     if sq < rt_recv_tail r \<or> sq < rt_recv_head r \<and> flag_at r sq \<noteq> EMPTY_CELL then Inr (s\<lparr>s_buf := host_buf cf type s\<rparr>, r, e)
     else bind_res (advance_recv_tail (dl_time e) r) (\<lambda>r1.
       case new_highest linkid sq (r1, e) of (r2, e2) \<Rightarrow>
         bind_res (hand_up mode (unat (ph_data_len (s_hdr s))) (unat (ph_ack_len (s_hdr s) - dh)) (unat dh) (host_buf cf type s) s e2)
           (\<lambda>(s1, e3). Inr (s1, put_recvd sq (dl_time e) r2, e3))))"
proof -
  have b: "get_bytes (unat (ph_data_len (s_hdr s))) 8 (host_buf cf type s)
      = Inr (take 8 (drop (unat (ph_data_len (s_hdr s))) (host_buf cf type s)))"
    using n by (simp add: get_bytes_def)
  show ?thesis
    using assms(1) unfolding Process_RT_UDP_data_packet_def host_buf_def [symmetric] dh Let_def
    by (simp add: b proper_size_def packet_seq_def Let_def)
qed

lemma Process_RT_Inr:
  assumes "Process_RT_UDP_data_packet cf linkid s type mode r e = Inr x" "proper_size s"
  obtains dh where "Dissemination_Header_Size cf (routing_byte (s_buf s)) = Inr dh"
    "unat (ph_data_len (s_hdr s)) + 8 \<le> length (host_buf cf type s)"
  using assms by (auto simp: Process_RT_UDP_data_packet_def proper_size_def host_buf_def Let_def bind_res_Inr_iff get_bytes_Inr)

lemma Process_RT_cases:
  assumes p: "Process_RT_UDP_data_packet cf linkid s type mode r e = Inr (s', r', e')" and inv: "recv_inv D r"
    and max: "packet_seq cf type s \<noteq> - 1"
  shows "if proper_size s \<and> rt_recv_tail r \<le> packet_seq cf type s \<and> packet_seq cf type s \<notin> D
    then recv_inv (insert (packet_seq cf type s) D) r' \<and>
      (\<exists>dh. Dissemination_Header_Size cf (routing_byte (s_buf s)) = Inr dh \<and> dl_up e' = dl_up e @ [upcall cf type mode dh s])
    else r' = r \<and> e' = e"
proof (cases "proper_size s")
  case True
  define sq where "sq = packet_seq cf type s"
  have old: "sq < rt_recv_tail r \<or> sq < rt_recv_head r \<and> flag_at r sq \<noteq> EMPTY_CELL \<longleftrightarrow> sq < rt_recv_tail r \<or> sq \<in> D"
    using inv by (cases "rt_recv_tail r \<le> sq") (auto simp: recv_inv_def not_le subset_iff)
  obtain dh where dh: "Dissemination_Header_Size cf (routing_byte (s_buf s)) = Inr dh"
    and n: "unat (ph_data_len (s_hdr s)) + 8 \<le> length (host_buf cf type s)"
    using Process_RT_Inr [OF p True] .
  note u = p [unfolded Process_RT_unfold [OF True dh n] Let_def, folded sq_def, unfolded old]
  show ?thesis
  proof (cases "sq < rt_recv_tail r \<or> sq \<in> D")
    case skip: True
    then show ?thesis using u by (auto simp: sq_def not_le)
  next
    case new: False
    then obtain r1 where r1: "advance_recv_tail (dl_time e) r = Inr r1" using u by (auto simp: bind_res_Inr_iff)
    obtain r2 e2 where h: "new_highest linkid sq (r1, e) = (r2, e2)" by (cases "new_highest linkid sq (r1, e)")
    from u new r1 h have r': "r' = put_recvd sq (dl_time e) r2"
      and up: "hand_up mode (unat (ph_data_len (s_hdr s))) (unat (ph_ack_len (s_hdr s) - dh)) (unat dh) (host_buf cf type s) s e2 = Inr (s', e')"
      by (auto simp: bind_res_Inr_iff)
    note adv = advance_recv_tail_inv [OF r1 inv]
    have e2: "dl_up e2 = dl_up e" using new_highest_env [of linkid sq r1 e] h by simp
    have "recv_inv (insert sq D) r'"
    proof (cases "rt_recv_head r1 \<le> sq")
      case True
      show ?thesis unfolding r' using new_highest_inv [OF conjunct1 [OF adv] True _ h] max by (simp add: sq_def)
    next
      case False
      then have "r2 = r1" using h by (simp add: new_highest_def)
      then show ?thesis unfolding r' using late_packet_inv [OF inv conjunct1 [OF adv], of sq] adv False new by (auto simp: not_less not_le)
    qed
    moreover have "dl_up e' = dl_up e @ [upcall cf type mode dh s]"
      using up e2 by (auto simp: hand_up_def get_bytes_Inr upcall_def bind_res_Inr_iff)
    ultimately show ?thesis using True new dh by (simp add: sq_def [symmetric] not_less)
  qed
next
  case False
  then show ?thesis using p by (auto simp: Process_RT_UDP_data_packet_def proper_size_def)
qed

end
