(* ===== verification/Realtime_Send.thy ===== *)
theory Realtime_Send
  imports Realtime_Recv
begin

text \<open>
  The sending side of a realtime link: the history holds exactly the packets between its tail and its
  head, at most \<open>MAX_HISTORY\<close> of them, so the assertion in \<open>Forward_RT_UDP_Data\<close> and the read of the
  kept buffer in \<open>Send_RT_Retransm\<close> cannot fail; whatever is sent, first or again, is an accepted
  packet under its own sequence number; and at most half as many packets are sent again as were accepted.
\<close>

section \<open>Packets and the history\<close>

text \<open>An accepted packet: body and dissemination header.\<close>

type_synonym rt_packet = "byte list \<times> byte list"

definition rt_pkt_ok :: "data_link_conf \<Rightarrow> rt_packet \<Rightarrow> bool" where
  "rt_pkt_ok cf p \<longleftrightarrow> sizeof_udp_header \<le> length (fst p) \<and> length (fst p) + 8 + length (snd p) < sizeof_packet_body \<and>
     Dissemination_Header_Size cf (routing_byte (fst p)) = Inr (of_nat (length (snd p)))"

text \<open>The cell of a packet. The sequence number behind the body may belong to another link.\<close>

definition holds :: "rt_packet \<Rightarrow> History_Cell \<Rightarrow> bool" where
  "holds p c \<longleftrightarrow> hc_len c = of_nat (length (fst p) + 8 + length (snd p)) \<and>
     (\<exists>b. hc_buff c = Some b \<and> length b = sizeof_packet_body \<and> take (length (fst p)) b = fst p \<and>
       take (length (snd p)) (drop (length (fst p) + 8) b) = snd p)"

definition send_inv :: "data_link_conf \<Rightarrow> rt_packet list \<Rightarrow> Realtime_Data \<Rightarrow> bool" where
  "send_inv cf acc r \<longleftrightarrow> length acc < 2 ^ 64 \<and> unat (rt_head r) = length acc \<and> rt_tail r \<le> rt_head r \<and>
     unat (rt_head r) \<le> unat (rt_tail r) + 1000 \<and> (\<forall>p \<in> set acc. rt_pkt_ok cf p) \<and>
     (\<forall>x. rt_tail r \<le> x \<longrightarrow> x < rt_head r \<longrightarrow> holds (acc ! unat x) (rt_window r (x mod MAX_HISTORY))) \<and>
     0 \<le> rt_bucket r \<and> rt_bucket r \<le> MAX_BUCKET"

text \<open>A packet on the wire that carries accepted packet \<open>i\<close>.\<close>

definition carries :: "data_link_conf \<Rightarrow> rt_packet list \<Rightarrow> nat \<Rightarrow> wire_packet \<Rightarrow> bool" where
  "carries cf acc i w \<longleftrightarrow> i < length acc \<and>
     (case w of (h, b, rest) \<Rightarrow>
        ph_type h = Set_endian (lc_ARCH_ENDIAN cf) REALTIME_DATA_TYPE \<and>
        ph_data_len h = of_nat (length (fst (acc ! i))) \<and> ph_ack_len h = of_nat (8 + length (snd (acc ! i))) \<and>
        b @ concat rest = fst (acc ! i) @ store_seq (lc_ARCH_ENDIAN cf) (of_nat i) @ snd (acc ! i))"

definition all_carry :: "data_link_conf \<Rightarrow> rt_packet list \<Rightarrow> wire_packet list \<Rightarrow> bool" where
  "all_carry cf acc ws \<longleftrightarrow> (\<forall>w \<in> set ws. \<exists>i. carries cf acc i w)"

lemma all_carry_snoc: "all_carry cf acc (ws @ [w]) \<longleftrightarrow> all_carry cf acc ws \<and> (\<exists>i. carries cf acc i w)"
  by (auto simp: all_carry_def)

lemma send_inv_new: "send_inv cf [] new_Realtime_Data"
  by (simp add: send_inv_def new_Realtime_Data_def MAX_BUCKET_def)

lemma carries_mono: "carries cf acc i w \<Longrightarrow> carries cf (acc @ [p]) i w"
  by (auto simp: carries_def nth_append)

lemma all_carry_mono: "all_carry cf acc ws \<Longrightarrow> all_carry cf (acc @ [p]) ws"
  by (metis all_carry_def carries_mono)

lemma drop_oldest_simps [simp]:
  "rt_head (drop_oldest r) = rt_head r" "rt_tail (drop_oldest r) = rt_tail r + 1" "rt_bucket (drop_oldest r) = rt_bucket r"
  "rt_retransm_buff (drop_oldest r) = rt_retransm_buff r"
  by (simp_all add: drop_oldest_def)

lemma drop_oldest_inv:
  assumes inv: "send_inv cf acc r" and lt: "rt_tail r < rt_head r"
  shows "send_inv cf acc (drop_oldest r)"
proof -
  have t1: "unat (rt_tail r + 1) = unat (rt_tail r) + 1" using lt by (rule unat_Suc_less)
  have "rt_window (drop_oldest r) (x mod MAX_HISTORY) = rt_window r (x mod MAX_HISTORY)"
    if "rt_tail r + 1 \<le> x" "x < rt_head r" for x
  proof -
    have "x mod MAX_HISTORY \<noteq> rt_tail r mod MAX_HISTORY"
      using hist_slot_inj [of x "rt_tail r"] that t1 inv by (auto simp: send_inv_def word_le_nat_alt word_less_nat_alt)
    then show ?thesis by (simp add: drop_oldest_def)
  qed
  then show ?thesis using inv lt t1 by (auto simp: send_inv_def word_le_nat_alt word_less_nat_alt)
qed

lemma clean_history_inv:
  "send_inv cf acc r \<Longrightarrow> send_inv cf acc (clean_history now r) \<and> rt_bucket (clean_history now r) = rt_bucket r"
proof (induction now r rule: clean_history.induct)
  case (1 now r)
  then show ?case by (subst (1 2) clean_history.simps) (auto intro: drop_oldest_inv)
qed

lemma make_place_inv:
  assumes "send_inv cf acc r"
  obtains r' where "make_place r = Inr r'" "send_inv cf acc r'" "unat (rt_head r') < unat (rt_tail r') + 1000"
    "rt_bucket r' = rt_bucket r"
proof -
  have d: "unat (rt_head r - rt_tail r) = unat (rt_head r) - unat (rt_tail r)"
    using assms by (intro unat_sub) (simp add: send_inv_def)
  show thesis
  proof (cases "MAX_HISTORY \<le> rt_head r - rt_tail r")
    case True
    then have full: "unat (rt_head r) = unat (rt_tail r) + 1000"
      using d assms by (auto simp: send_inv_def MAX_HISTORY_def word_le_nat_alt)
    then have lt: "rt_tail r < rt_head r" by (simp add: word_less_nat_alt)
    have "rt_head r - rt_tail r = MAX_HISTORY" using d full by (simp add: word_unat_eq_iff MAX_HISTORY_def)
    then show thesis using that [of "drop_oldest r"] drop_oldest_inv [OF assms lt] full unat_Suc_less [OF lt]
      by (simp add: make_place_def)
  next
    case False
    then show thesis using that [of r] assms d by (auto simp: make_place_def MAX_HISTORY_def word_le_nat_alt)
  qed
qed


section \<open>Sending a packet for the first time\<close>

text \<open>A scatter as the callers hand it in: the dissemination header has an element of its own unless
  there is none, and the packet fits into a packet body.\<close>

definition pkt_of :: "scatter \<Rightarrow> rt_packet" where "pkt_of s = (take (s_len s) (s_buf s), concat (s_rest s))"

definition well_framed :: "data_link_conf \<Rightarrow> scatter \<Rightarrow> bool" where
  "well_framed cf s \<longleftrightarrow> length (s_buf s) = sizeof_packet_body \<and> s_len s \<le> length (s_buf s) \<and> length (s_rest s) \<le> 1 \<and> rt_pkt_ok cf (pkt_of s)"

lemma unat16: "n < 65536 \<Longrightarrow> unat (of_nat n :: int16u) = n"
  by (simp add: unat_of_nat take_bit_nat_eq_self)

lemma routing_byte_take: "28 \<le> n \<Longrightarrow> routing_byte (take n b) = routing_byte b"
  by (simp add: routing_byte_def)

lemma well_framedD:
  assumes "well_framed cf s"
  shows "28 \<le> s_len s" "s_len s + 8 + length (concat (s_rest s)) < 1452" "length (s_buf s) = 1452"
    "Dissemination_Header_Size cf (routing_byte (s_buf s)) = Inr (of_nat (length (concat (s_rest s))))"
  using assms by (auto simp: well_framed_def rt_pkt_ok_def pkt_of_def sizeof_udp_header_def sizeof_packet_body_def
      sizeof_packet_header_def routing_byte_take)

lemma seal_buffer_ok:
  assumes wf: "well_framed cf s" and dh: "dh = of_nat (length (concat (s_rest s)))"
  obtains b where "seal_buffer cf dh sq s = Inr (b, of_nat (s_len s + 8 + length (concat (s_rest s))))"
    "length b = 1452" "take (s_len s + 8) b = take (s_len s) (s_buf s) @ store_seq (lc_ARCH_ENDIAN cf) sq"
    "take (length (concat (s_rest s))) (drop (s_len s + 8) b) = concat (s_rest s)"
proof -
  note w = well_framedD [OF wf]
  obtain b1 where b1: "put_bytes (s_len s) (store_seq (lc_ARCH_ENDIAN cf) sq) (s_buf s) = Inr b1"
    using w by (simp add: put_bytes_def)
  have t1: "take (s_len s + 8) b1 = take (s_len s) (s_buf s) @ store_seq (lc_ARCH_ENDIAN cf) sq"
    using w b1 by (auto simp: put_bytes_Inr)
  have l1: "length b1 = 1452" using w length_put_bytes [OF b1] by simp
  show thesis
  proof (cases "s_rest s")
    case Nil
    then show thesis using that [of b1] b1 t1 l1 by (simp add: seal_buffer_def sizeof_rt_seq_type_def)
  next
    case (Cons d ds)
    then have d: "s_rest s = [d]" using wf by (auto simp: well_framed_def)
    have len: "s_len s + 8 + length d < 1452" using w d by simp
    obtain b2 where b2: "put_bytes (s_len s + 8) d b1 = Inr b2" using len l1 by (simp add: put_bytes_def)
    have "seal_buffer cf dh sq s = Inr (b2, of_nat (s_len s + 8 + length d))"
      using b1 b2 d dh len
      by (simp add: seal_buffer_def sizeof_rt_seq_type_def unat16 get_bytes_def sizeof_packet_body_def sizeof_packet_header_def)
    moreover have "take (s_len s + 8) b2 = take (s_len s) (s_buf s) @ store_seq (lc_ARCH_ENDIAN cf) sq"
      using take_put_bytes [OF b2] t1 by simp
    ultimately show thesis
      using that [of b2] b2 d length_put_bytes [OF b2] l1 read_put_bytes [OF b2] by simp
  qed
qed

lemma Set_Loss_SeqNo_Some:
  obtains sq l' where "Set_Loss_SeqNo ty (Some l) = Inr (sq, l')"
  by (simp add: Set_Loss_SeqNo_def Let_def)

lemma unat_of_nat64: "n < 2 ^ 64 \<Longrightarrow> unat (of_nat n :: rt_seq_type) = n"
  by (simp add: unat_of_nat take_bit_nat_eq_self)

lemma keep_packet_inv:
  assumes inv: "send_inv cf acc r" and room: "unat (rt_head r) < unat (rt_tail r) + 1000"
    and p: "rt_pkt_ok cf p" "holds p \<lparr>hc_buff = Some b, hc_len = n, hc_timestamp = now\<rparr>" and len: "length acc + 1 < 2 ^ 64"
  shows "send_inv cf (acc @ [p]) (keep_packet now b n r)"
proof -
  have h1: "unat (rt_head r + 1) = unat (rt_head r) + 1"
    using inv len by (simp add: send_inv_def unat_word_ariths)
  have "holds ((acc @ [p]) ! unat x) (rt_window (keep_packet now b n r) (x mod MAX_HISTORY))"
    if x: "rt_tail r \<le> x" "x < rt_head r + 1" for x
  proof (cases "x = rt_head r")
    case True
    then show ?thesis using p inv by (simp add: keep_packet_def send_inv_def)
  next
    case False
    then have lt: "x < rt_head r" using x(2) h1 by (simp add: word_less_nat_alt word_unat_eq_iff)
    then have "x mod MAX_HISTORY \<noteq> rt_head r mod MAX_HISTORY"
      using hist_slot_inj [of x "rt_head r"] False x room by (auto simp: word_le_nat_alt word_less_nat_alt)
    then show ?thesis using inv lt x by (simp add: keep_packet_def send_inv_def nth_append word_less_nat_alt)
  qed
  then show ?thesis using inv p h1 room len
    by (auto simp: send_inv_def keep_packet_def word_le_nat_alt MAX_BUCKET_def)
qed

lemma Forward_on_RT_link_ok:
  assumes inv: "send_inv cf acc r" and wf: "well_framed cf s" and loss: "dl_loss e = Some l" and len: "length acc + 1 < 2 ^ 64"
  obtains x s' r' e' where "Forward_on_RT_link cf ret s r e = Inr (x, s', r', e')" "send_inv cf (acc @ [pkt_of s]) r'"
    "dl_sent e' = dl_sent e \<or> (\<exists>w. dl_sent e' = dl_sent e @ [w] \<and> carries cf (acc @ [pkt_of s]) (length acc) w)"
    "rt_bucket r' \<le> rt_bucket r + 1" "dl_loss e' \<noteq> None" "dl_up e' = dl_up e" "dl_time e' = dl_time e"
proof -
  note w = well_framedD [OF wf]
  obtain r1 where r1: "make_place (clean_history (dl_time e) r) = Inr r1" "send_inv cf acc r1"
    "unat (rt_head r1) < unat (rt_tail r1) + 1000" "rt_bucket r1 = rt_bucket r"
    using clean_history_inv [OF inv] make_place_inv by metis
  obtain sq l1 where sq: "Set_Loss_SeqNo REALTIME_UDP_LINK (Some l) = Inr (sq, l1)" by (rule Set_Loss_SeqNo_Some)
  obtain b where b: "seal_buffer cf (of_nat (length (concat (s_rest s)))) (rt_head r1) s
      = Inr (b, of_nat (s_len s + 8 + length (concat (s_rest s))))"
    "length b = 1452" "take (s_len s + 8) b = take (s_len s) (s_buf s) @ store_seq (lc_ARCH_ENDIAN cf) (rt_head r1)"
    "take (length (concat (s_rest s))) (drop (s_len s + 8) b) = concat (s_rest s)"
    using seal_buffer_ok [OF wf refl] by metis
  define h where "h = rt_header cf (of_nat (s_len s)) (sizeof_rt_seq_type + of_nat (length (concat (s_rest s)))) sq e"
  define wp where "wp = (h, take (s_len s + 8) b, s_rest s)"
  obtain x e1 where e1: "send_on cf ret wp (e\<lparr>dl_loss := Some l1\<rparr>) = (x, e1)" by (cases "send_on cf ret wp (e\<lparr>dl_loss := Some l1\<rparr>)")
  define r' where "r' = keep_packet (dl_time e) b (of_nat (s_len s + 8 + length (concat (s_rest s)))) r1"
  have "Forward_on_RT_link cf ret s r e = Inr (if x < 0 then BUFF_DROP else BUFF_EMPTY, s\<lparr>s_hdr := h, s_buf := b\<rparr>, r', e1)"
    using r1 w sq b e1 loss
    by (simp add: Forward_on_RT_link_def Let_def h_def wp_def r'_def)
  moreover have "take (s_len s) b = take (s_len s) (s_buf s)"
    using arg_cong [OF b(3), of "take (s_len s)"] w by (simp add: min_def)
  then have "holds (pkt_of s) \<lparr>hc_buff = Some b, hc_len = of_nat (s_len s + 8 + length (concat (s_rest s))), hc_timestamp = dl_time e\<rparr>"
    using b w by (simp add: holds_def pkt_of_def sizeof_packet_body_def sizeof_packet_header_def)
  then have "send_inv cf (acc @ [pkt_of s]) r'"
    unfolding r'_def using r1 wf len by (intro keep_packet_inv) (auto simp: well_framed_def)
  moreover have "carries cf (acc @ [pkt_of s]) (length acc) wp"
  proof -
    have "rt_head r1 = of_nat (length acc)" using r1(2) unsigned_of_nat by (simp add: send_inv_def word_unat_eq_iff take_bit_nat_eq_self unat_of_nat)
    then show ?thesis using b w
      by (simp add: carries_def wp_def h_def rt_header_def pkt_of_def sizeof_rt_seq_type_def)
  qed
  moreover have "rt_bucket r' \<le> rt_bucket r + 1" using r1 by (simp add: r'_def keep_packet_def)
  moreover have env: "dl_sent e1 = dl_sent e \<or> dl_sent e1 = dl_sent e @ [wp]" "dl_loss e1 \<noteq> None" "dl_up e1 = dl_up e" "dl_time e1 = dl_time e"
    using e1 by (auto simp: send_on_def split: if_splits)
  ultimately show thesis using that by blast
qed


section \<open>Sending a packet again\<close>

lemma resend_packet_ok:
  assumes inv: "send_inv cf acc r" and sq: "rt_tail r \<le> sq" "sq < rt_head r" and loss: "dl_loss e \<noteq> None"
  obtains go r' e' where "resend_packet cf ret sq (r, e) = Inr (go, r', e')" "send_inv cf acc r'"
    "dl_sent e' = dl_sent e \<or> (\<exists>w. dl_sent e' = dl_sent e @ [w] \<and> carries cf acc (unat sq) w)"
    "rt_bucket r' = rt_bucket r" "dl_loss e' \<noteq> None" "dl_up e' = dl_up e" "dl_time e' = dl_time e"
proof -
  define p where "p = acc ! unat sq"
  define c where "c = rt_window r (sq mod MAX_HISTORY)"
  have i: "unat sq < length acc" using inv sq by (simp add: send_inv_def word_less_nat_alt)
  then have ok: "rt_pkt_ok cf p" using inv by (simp add: p_def send_inv_def)
  have "holds p c" using inv sq by (simp add: p_def c_def send_inv_def)
  then obtain b where b: "hc_buff c = Some b" "length b = 1452" "take (length (fst p)) b = fst p"
    "take (length (snd p)) (drop (length (fst p) + 8) b) = snd p" and len: "hc_len c = of_nat (length (fst p) + 8 + length (snd p))"
    by (auto simp: holds_def sizeof_packet_body_def sizeof_packet_header_def)
  have n: "28 \<le> length (fst p)" "length (fst p) + 8 + length (snd p) < 1452"
    using ok by (auto simp: rt_pkt_ok_def sizeof_udp_header_def sizeof_packet_body_def sizeof_packet_header_def)
  have dh: "Dissemination_Header_Size cf (routing_byte b) = Inr (of_nat (length (snd p)))"
    using ok b(3) routing_byte_take [OF n(1), of b] by (simp add: rt_pkt_ok_def)
  obtain ls l1 where ls: "Set_Loss_SeqNo REALTIME_UDP_LINK (dl_loss e) = Inr (ls, l1)"
    using loss Set_Loss_SeqNo_Some by (metis option.exhaust)
  have dl: "hc_len c - (sizeof_rt_seq_type + of_nat (length (snd p))) = of_nat (length (fst p))"
    using len by (simp add: sizeof_rt_seq_type_def)
  obtain b1 where b1: "put_bytes (length (fst p)) (store_seq (lc_ARCH_ENDIAN cf) sq) b = Inr b1"
    using n b by (simp add: put_bytes_def)
  have u: "unat (of_nat (length (fst p)) :: int16u) = length (fst p)" "unat (hc_len c) = length (fst p) + 8 + length (snd p)"
    unfolding len using n by (intro unat16, linarith)+
  have b1t: "take (length (fst p) + 8 + length (snd p)) b1 = fst p @ store_seq (lc_ARCH_ENDIAN cf) sq @ snd p"
    using b1 b n by (simp add: put_bytes_Inr)
  have hold: "holds p (c\<lparr>hc_buff := Some b1\<rparr>)"
    using len n b length_put_bytes [OF b1] take_put_bytes [OF b1, of "length (fst p)"] drop_put_bytes [OF b1, of "length (fst p) + 8"]
    by (simp add: holds_def sizeof_packet_body_def sizeof_packet_header_def)
  define wp where "wp = (rt_header cf (of_nat (length (fst p))) (sizeof_rt_seq_type + of_nat (length (snd p))) ls e,
    take (length (fst p) + 8 + length (snd p)) b1, [] :: byte list list)"
  obtain x e1 where e1: "send_on cf ret wp (e\<lparr>dl_loss := Some l1\<rparr>) = (x, e1)" by (cases "send_on cf ret wp (e\<lparr>dl_loss := Some l1\<rparr>)")
  define r' where "r' = r\<lparr>rt_window := (rt_window r)(sq mod MAX_HISTORY := c\<lparr>hc_buff := Some b1\<rparr>)\<rparr>"
  have "resend_packet cf ret sq (r, e) = Inr (0 \<le> x, r', e1)"
    using b(1) dh ls dl b1 u e1 by (simp add: resend_packet_def Let_def r'_def wp_def c_def [symmetric])
  moreover have "send_inv cf acc r'"
  proof -
    have "holds (acc ! unat y) (rt_window r' (y mod MAX_HISTORY))" if "rt_tail r \<le> y" "y < rt_head r" for y
    proof (cases "y = sq")
      case True
      then show ?thesis using hold by (simp add: r'_def p_def)
    next
      case False
      then have "y mod MAX_HISTORY \<noteq> sq mod MAX_HISTORY"
        using hist_slot_inj [of y sq] that sq inv by (auto simp: send_inv_def word_le_nat_alt word_less_nat_alt)
      then show ?thesis using that inv by (simp add: r'_def send_inv_def)
    qed
    then show ?thesis using inv by (simp add: send_inv_def r'_def)
  qed
  moreover have "carries cf acc (unat sq) wp"
    using i b1t by (simp add: carries_def wp_def rt_header_def p_def sizeof_rt_seq_type_def)
  moreover have "dl_sent e1 = dl_sent e \<or> dl_sent e1 = dl_sent e @ [wp]" "dl_loss e1 \<noteq> None" "dl_up e1 = dl_up e" "dl_time e1 = dl_time e"
    using e1 by (auto simp: send_on_def split: if_splits)
  moreover have "rt_bucket r' = rt_bucket r" by (simp add: r'_def)
  ultimately show thesis using that by blast
qed

text \<open>The whole list. \<open>balance\<close>: two tokens are taken for every packet, so what is sent and what is left
  in the bucket are in balance.\<close>

definition balance :: "Realtime_Data \<Rightarrow> dl_env \<Rightarrow> int" where
  "balance r e = 2 * int (length (dl_sent e)) + rt_bucket r"

lemma resend_list_ok:
  assumes "send_inv cf acc r" "dl_loss e \<noteq> None" "all_carry cf acc (dl_sent e)"
  obtains r' e' where "resend_list cf ret ss (r, e) = Inr (r', e')" "send_inv cf acc r'" "all_carry cf acc (dl_sent e')"
    "balance r' e' \<le> balance r e" "dl_loss e' \<noteq> None" "dl_up e' = dl_up e" "dl_time e' = dl_time e"
  using assms
proof (induction ss arbitrary: r e thesis)
  case Nil
  then show ?case by auto
next
  case (Cons sq ss)
  show ?case
  proof (cases "rt_tail r \<le> sq \<and> sq < rt_head r")
    case in_window: True
    show ?thesis
    proof (cases "rt_bucket r < RT_RETRANSM_TOK")
      case True
      with in_window show ?thesis using Cons.prems by (intro Cons.prems(1) [of r e]) (auto simp: not_le)
    next
      case False
      define r0 where "r0 = r\<lparr>rt_bucket := rt_bucket r - RT_RETRANSM_TOK\<rparr>"
      have inv0: "send_inv cf acc r0"
        using Cons.prems(2) False by (auto simp: r0_def send_inv_def RT_RETRANSM_TOK_def)
      have w0: "rt_tail r0 \<le> sq" "sq < rt_head r0" using in_window by (simp_all add: r0_def)
      obtain go r1 e1 where g: "resend_packet cf ret sq (r0, e) = Inr (go, r1, e1)" "send_inv cf acc r1"
        "dl_sent e1 = dl_sent e \<or> (\<exists>w. dl_sent e1 = dl_sent e @ [w] \<and> carries cf acc (unat sq) w)"
        "rt_bucket r1 = rt_bucket r0" "dl_loss e1 \<noteq> None" "dl_up e1 = dl_up e" "dl_time e1 = dl_time e"
        by (rule resend_packet_ok [OF inv0 w0 Cons.prems(3)])
      have "all_carry cf acc (dl_sent e1)" using g(3) Cons.prems(4) by (auto simp: all_carry_def)
      moreover have "balance r1 e1 \<le> balance r e" using g(3,4) by (auto simp: balance_def r0_def RT_RETRANSM_TOK_def)
      moreover have l: "resend_list cf ret (sq # ss) (r, e) = (if go then resend_list cf ret ss (r1, e1) else Inr (r1, e1))"
        using in_window False g(1) by (auto simp: r0_def dest: leD)
      ultimately show ?thesis
      proof (cases go)
        case True
        show ?thesis
          by (rule Cons.IH [of r1 e1]) (use True l g \<open>all_carry cf acc (dl_sent e1)\<close> \<open>balance r1 e1 \<le> balance r e\<close> Cons.prems(1) in auto)
      qed (use g Cons.prems(1) in auto)
    qed
  next
    case False
    then have "resend_list cf ret (sq # ss) (r, e) = resend_list cf ret ss (r, e)" by auto
    with Cons show ?thesis by metis
  qed
qed


lemma Send_RT_Retransm_ok:
  assumes "send_inv cf acc r" "dl_loss e \<noteq> None" "all_carry cf acc (dl_sent e)"
  obtains r' e' where "Send_RT_Retransm cf ret (Some r) e = Inr (r', e')" "send_inv cf acc r'" "all_carry cf acc (dl_sent e')"
    "balance r' e' \<le> balance r e" "dl_loss e' \<noteq> None" "dl_up e' = dl_up e" "dl_time e' = dl_time e"
proof (cases "rt_retransm_buff r")
  case None
  then show ?thesis using that [of r e] assms by (simp add: Send_RT_Retransm_def)
next
  case (Some ss)
  note c = clean_history_inv [OF assms(1), of "dl_time e"]
  obtain r1 e1 where h: "resend_list cf ret ss (clean_history (dl_time e) r, e) = Inr (r1, e1)"
    "send_inv cf acc r1" "all_carry cf acc (dl_sent e1)"
    "balance r1 e1 \<le> balance (clean_history (dl_time e) r) e" "dl_loss e1 \<noteq> None" "dl_up e1 = dl_up e" "dl_time e1 = dl_time e"
    by (rule resend_list_ok [OF conjunct1 [OF c] assms(2,3)])
  then show ?thesis
    using that [of "r1\<lparr>rt_retransm_buff := None\<rparr>" e1] Some c
    by (simp add: Send_RT_Retransm_def send_inv_def balance_def)
qed

end
