(* ===== verification/Realtime_System.thy ===== *)
theory Realtime_System
  imports Realtime_Send
begin

unbundle bit_operations_syntax

text \<open>
  The two ends of a realtime link. The network loses, duplicates and reorders; requests for missing
  packets that reach the sender are arbitrary; other links that share a buffer write their own sequence
  numbers into it; clocks are arbitrary; the hosts may differ in byte order. Every packet is handed up
  at most once and is one that was accepted.
\<close>

section \<open>Steps\<close>

record rt_sys =
  accepted :: "rt_packet list"
  snd_rt :: Realtime_Data
  snd_env :: dl_env
  rcv_rt :: Realtime_Data
  rcv_env :: dl_env

text \<open>What \<open>Read_UDP\<close> hands on when the packet arrives in one piece.\<close>

definition arrives :: "wire_packet \<Rightarrow> scatter \<Rightarrow> bool" where
  "arrives w s \<longleftrightarrow> (case w of (h, b, rest) \<Rightarrow>
     s_hdr s = h \<and> s_rest s = [] \<and> length (s_buf s) = sizeof_packet_body \<and> s_len s = length (b @ concat rest) \<and>
     take (s_len s) (s_buf s) = b @ concat rest)"

inductive rt_step :: "data_link_conf \<Rightarrow> link_ret \<Rightarrow> data_link_conf \<Rightarrow> link_ret \<Rightarrow> rt_sys \<Rightarrow> rt_sys \<Rightarrow> bool"
  for cs rs cr rr where
  accept: "well_framed cs s \<Longrightarrow> length (accepted g) + 1 < 2 ^ 64 \<Longrightarrow>
     Forward_RT_UDP_Data cs rs False s (Some (snd_rt g)) (snd_env g) = Inr (x, s', Some r, e) \<Longrightarrow>
     rt_step cs rs cr rr g (g\<lparr>accepted := accepted g @ [pkt_of s], snd_rt := r, snd_env := e\<rparr>)"
| clean: "Clean_RT_history now (Some (snd_rt g)) = Some r \<Longrightarrow> rt_step cs rs cr rr g (g\<lparr>snd_rt := r\<rparr>)"
| shared: "rt_tail (snd_rt g) \<le> x \<Longrightarrow> x < rt_head (snd_rt g) \<Longrightarrow>
     c = rt_window (snd_rt g) (x mod MAX_HISTORY) \<Longrightarrow> hc_buff c = Some b \<Longrightarrow>
     put_bytes (length (fst (accepted g ! unat x))) (store_seq (lc_ARCH_ENDIAN cs) y) b = Inr b1 \<Longrightarrow>
     rt_step cs rs cr rr g (g\<lparr>snd_rt := (snd_rt g)\<lparr>rt_window := (rt_window (snd_rt g))(x mod MAX_HISTORY := c\<lparr>hc_buff := Some b1\<rparr>)\<rparr>\<rparr>)"
| nack: "Process_RT_nack_packet cs linkid s type (snd_rt g) (snd_env g) = Inr (r, e) \<Longrightarrow>
     rt_step cs rs cr rr g (g\<lparr>snd_rt := r, snd_env := e\<rparr>)"
| retransm: "Send_RT_Retransm cs rs (Some (snd_rt g)) (snd_env g) = Inr (r, e) \<Longrightarrow>
     rt_step cs rs cr rr g (g\<lparr>snd_rt := r, snd_env := e\<rparr>)"
| arrive: "w \<in> set (dl_sent (snd_env g)) \<Longrightarrow> arrives w s \<Longrightarrow>
     Process_RT_UDP_data_packet cr linkid s (ph_type (fst w)) REALTIME_UDP_LINK (rcv_rt g) (rcv_env g) = Inr (s', r, e) \<Longrightarrow>
     rt_step cs rs cr rr g (g\<lparr>rcv_rt := r, rcv_env := e\<rparr>)"
| ask: "Send_RT_Nack cr rr (Some (rcv_rt g)) (rcv_env g) = Inr (r, e) \<Longrightarrow>
     rt_step cs rs cr rr g (g\<lparr>rcv_rt := r, rcv_env := e\<rparr>)"
| time: "rt_step cs rs cr rr g
     (g\<lparr>snd_env := (snd_env g)\<lparr>dl_time := t1, dl_monotonic := m1\<rparr>, rcv_env := (rcv_env g)\<lparr>dl_time := t2, dl_monotonic := m2\<rparr>\<rparr>)"

text \<open>A link that has just been created.\<close>

definition rt_start :: "rt_sys \<Rightarrow> bool" where
  "rt_start g \<longleftrightarrow> accepted g = [] \<and> snd_rt g = new_Realtime_Data \<and> rcv_rt g = new_Realtime_Data \<and>
     dl_loss (snd_env g) \<noteq> None \<and> dl_sent (snd_env g) = [] \<and> dl_up (rcv_env g) = []"

section \<open>What the receiver reads\<close>

text \<open>The packet as the receiver sees it, with the header in the byte order of the host.\<close>

definition seen :: "data_link_conf \<Rightarrow> data_link_conf \<Rightarrow> rt_packet \<Rightarrow> Link_Type \<times> byte list \<times> byte list" where
  "seen cs cr p = (REALTIME_UDP_LINK, if lc_ARCH_ENDIAN cs = lc_ARCH_ENDIAN cr then fst p else Flip_udp_hdr (fst p), snd p)"

text \<open>Both ends belong to the same overlay: they are configured with the same sizes.\<close>

definition peers :: "data_link_conf \<Rightarrow> data_link_conf \<Rightarrow> bool" where
  "peers cs cr \<longleftrightarrow> endian_ok (lc_ARCH_ENDIAN cs) \<and> endian_ok (lc_ARCH_ENDIAN cr) \<and>
     MultiPath_Bitmask_Size cs = MultiPath_Bitmask_Size cr \<and> Prio_Signature_Len cs = Prio_Signature_Len cr \<and>
     Rel_Signature_Len cs = Rel_Signature_Len cr"

lemma peers_sizes: "peers cs cr \<Longrightarrow> Dissemination_Header_Size cr x = Dissemination_Header_Size cs x"
  by (simp add: peers_def Dissemination_Header_Size_def)

lemma Same_endian_data:
  assumes "peers cs cr"
  shows "Same_endian (lc_ARCH_ENDIAN cr) (Set_endian (lc_ARCH_ENDIAN cs) REALTIME_DATA_TYPE) \<longleftrightarrow> lc_ARCH_ENDIAN cs = lc_ARCH_ENDIAN cr"
  using assms by (intro Same_endian_type) (simp_all add: peers_def REALTIME_DATA_TYPE_def ENDIAN_TYPE_def)

lemma arrival:
  assumes p: "peers cs cr" and c: "carries cs acc i w" and a: "arrives w s" and ok: "rt_pkt_ok cs (acc ! i)"
  shows "proper_size s" "packet_seq cr (ph_type (fst w)) s = of_nat i"
    "Dissemination_Header_Size cr (routing_byte (s_buf s)) = Inr (of_nat (length (snd (acc ! i))))"
    "upcall cr (ph_type (fst w)) REALTIME_UDP_LINK (of_nat (length (snd (acc ! i)))) s = seen cs cr (acc ! i)"
proof -
  obtain h b rest where w: "w = (h, b, rest)" by (cases w)
  obtain body dis where bd: "acc ! i = (body, dis)" by (cases "acc ! i")
  let ?m = "length body" and ?k = "length dis" and ?b = "s_buf s"
  have n: "28 \<le> ?m" "?m + 8 + ?k < 1452"
    and size: "Dissemination_Header_Size cs (routing_byte body) = Inr (of_nat ?k)"
    using ok bd by (auto simp: rt_pkt_ok_def sizeof_udp_header_def sizeof_packet_body_def sizeof_packet_header_def)
  have h: "ph_type h = Set_endian (lc_ARCH_ENDIAN cs) REALTIME_DATA_TYPE" "unat (ph_data_len h) = ?m" "ph_ack_len h = of_nat (8 + ?k)"
    using c w bd n by (simp_all add: carries_def unat16)
  have x: "b @ concat rest = body @ store_seq (lc_ARCH_ENDIAN cs) (of_nat i) @ dis"
    using c w bd by (simp add: carries_def)
  have buf: "s_hdr s = h" "s_rest s = []" "length ?b = 1452" "s_len s = ?m + 8 + ?k"
    "take (?m + 8 + ?k) ?b = body @ store_seq (lc_ARCH_ENDIAN cs) (of_nat i) @ dis"
    using a unfolding w arrives_def prod.case x by (auto simp: sizeof_packet_body_def sizeof_packet_header_def add.assoc)
  have t: "take ?m ?b = body"
    using arg_cong [OF buf(5), of "take ?m"] by simp
  have sqb: "take 8 (drop ?m ?b) = store_seq (lc_ARCH_ENDIAN cs) (of_nat i)"
    using arg_cong [OF buf(5), of "\<lambda>x. take 8 (drop ?m x)"] by (simp add: drop_take)
  have d: "take ?k (drop (?m + 8) ?b) = dis"
    using arg_cong [OF buf(5), of "\<lambda>x. drop (?m + 8) x"] by (simp add: drop_take)
  have same: "Same_endian (lc_ARCH_ENDIAN cr) (ph_type h) \<longleftrightarrow> lc_ARCH_ENDIAN cs = lc_ARCH_ENDIAN cr"
    unfolding h(1) by (rule Same_endian_data [OF p])
  have hb: "drop j (host_buf cr (ph_type h) s) = drop j ?b" if "22 \<le> j" for j
    using that buf(3) by (simp add: host_buf_def Flip_udp_hdr_drop)
  show "proper_size s" using buf n by (simp add: proper_size_def num_elements_def sizeof_udp_header_def)
  show "packet_seq cr (ph_type (fst w)) s = of_nat i"
    using load_store_seq [of "lc_ARCH_ENDIAN cs" "lc_ARCH_ENDIAN cr" "of_nat i"] p sqb hb [of ?m] n
    by (simp add: packet_seq_def w buf(1) h(2) same peers_def)
  have "routing_byte ?b = routing_byte body" using routing_byte_take [OF n(1), of ?b] t by simp
  then show "Dissemination_Header_Size cr (routing_byte (s_buf s)) = Inr (of_nat (length (snd (acc ! i))))"
    using size peers_sizes [OF p] bd by simp
  have "unat (of_nat ?k :: int16u) = ?k" using n by (simp add: unat16)
  moreover have "unat (ph_ack_len h - of_nat ?k) = 8" by (simp add: h(3))
  moreover have "take ?m (host_buf cr (ph_type h) s) = (if lc_ARCH_ENDIAN cs = lc_ARCH_ENDIAN cr then body else Flip_udp_hdr body)"
    using t n buf(3) by (simp add: host_buf_def same Flip_udp_hdr_take)
  ultimately show "upcall cr (ph_type (fst w)) REALTIME_UDP_LINK (of_nat (length (snd (acc ! i)))) s = seen cs cr (acc ! i)"
    using hb [of "?m + 8"] n d by (simp add: upcall_def seen_def w buf(1) h(2) bd)
qed

section \<open>The invariant\<close>

definition sys_inv :: "data_link_conf \<Rightarrow> data_link_conf \<Rightarrow> nat list \<Rightarrow> rt_sys \<Rightarrow> bool" where
  "sys_inv cs cr ns g \<longleftrightarrow> send_inv cs (accepted g) (snd_rt g) \<and> dl_loss (snd_env g) \<noteq> None \<and>
     all_carry cs (accepted g) (dl_sent (snd_env g)) \<and>
     balance (snd_rt g) (snd_env g) \<le> 3 * int (length (accepted g)) \<and>
     distinct ns \<and> (\<forall>i \<in> set ns. i < length (accepted g)) \<and>
     recv_inv (of_nat ` set ns) (rcv_rt g) \<and> dl_up (rcv_env g) = map (\<lambda>i. seen cs cr (accepted g ! i)) ns"

lemma sys_inv_start: "rt_start g \<Longrightarrow> sys_inv cs cr [] g"
  by (simp add: rt_start_def sys_inv_def send_inv_new recv_inv_new all_carry_def balance_def)
     (simp add: new_Realtime_Data_def)


lemma seq_not_max:
  fixes x :: rt_seq_type
  assumes "unat x = i" "i < n" "n < 2 ^ 64"
  shows "x \<noteq> - 1"
proof
  assume "x = - 1"
  then have "i = 2 ^ 64 - 1" using assms(1) by (simp add: unsigned_minus_1_eq_mask mask_eq_exp_minus_1)
  then show False using assms(2,3) by linarith
qed

lemma up_mono:
  assumes "\<forall>i \<in> set ns. i < length acc"
  shows "map (\<lambda>i. f ((acc @ [p]) ! i)) ns = map (\<lambda>i. f (acc ! i)) ns"
  using assms by (simp add: nth_append)

lemma Send_RT_Nack_frame:
  assumes "Send_RT_Nack cf ret (Some r) e = Inr (r', e')" "recv_inv D r"
  shows "recv_inv D r'" "dl_up e' = dl_up e"
  using assms by (auto simp: Send_RT_Nack_def recv_inv_def send_on_def Let_def bind_res_Inr_iff split: if_splits)

lemma Process_RT_nack_frame:
  assumes "Process_RT_nack_packet cf linkid s type r e = Inr (r', e')"
  shows "r' = r\<lparr>rt_retransm_buff := rt_retransm_buff r'\<rparr>" "dl_sent e' = dl_sent e" "dl_loss e' = dl_loss e"
  using assms by (auto simp: Process_RT_nack_packet_def E_queue_rt_def Let_def bind_res_Inr_iff split: if_splits)

lemma send_inv_retransm_buff [simp]: "send_inv cf acc (r\<lparr>rt_retransm_buff := x\<rparr>) = send_inv cf acc r"
  by (simp add: send_inv_def)

lemma shared_inv:
  assumes inv: "send_inv cf acc r" and x: "rt_tail r \<le> x" "x < rt_head r"
    and c: "c = rt_window r (x mod MAX_HISTORY)" "hc_buff c = Some b"
    and b1: "put_bytes (length (fst (acc ! unat x))) (store_seq endian y) b = Inr b1"
  shows "send_inv cf acc (r\<lparr>rt_window := (rt_window r)(x mod MAX_HISTORY := c\<lparr>hc_buff := Some b1\<rparr>)\<rparr>)"
proof -
  let ?p = "acc ! unat x"
  have "holds ?p c" using inv x c by (simp add: send_inv_def)
  then have new: "holds ?p (c\<lparr>hc_buff := Some b1\<rparr>)"
    using c(2) length_put_bytes [OF b1] take_put_bytes [OF b1, of "length (fst ?p)"] drop_put_bytes [OF b1, of "length (fst ?p) + 8"]
    by (simp add: holds_def)
  have "holds (acc ! unat z) (((rt_window r)(x mod MAX_HISTORY := c\<lparr>hc_buff := Some b1\<rparr>)) (z mod MAX_HISTORY))"
    if z: "rt_tail r \<le> z" "z < rt_head r" for z
  proof (cases "z = x")
    case False
    then have "z mod MAX_HISTORY \<noteq> x mod MAX_HISTORY"
      using hist_slot_inj [of z x] z x inv by (auto simp: send_inv_def word_le_nat_alt word_less_nat_alt)
    then show ?thesis using z inv by (simp add: send_inv_def)
  qed (simp add: new)
  then show ?thesis using inv by (simp add: send_inv_def)
qed

lemma accept_inv:
  assumes inv: "sys_inv cs cr ns g" and wf: "well_framed cs s" and len: "length (accepted g) + 1 < 2 ^ 64"
  obtains x s' r e where "Forward_RT_UDP_Data cs rs False s (Some (snd_rt g)) (snd_env g) = Inr (x, s', Some r, e)"
    "sys_inv cs cr ns (g\<lparr>accepted := accepted g @ [pkt_of s], snd_rt := r, snd_env := e\<rparr>)"
proof -
  obtain l where l: "dl_loss (snd_env g) = Some l" using inv by (auto simp: sys_inv_def)
  have snd: "send_inv cs (accepted g) (snd_rt g)" using inv by (simp add: sys_inv_def)
  obtain x s1 r e where f: "Forward_on_RT_link cs rs s (snd_rt g) (snd_env g) = Inr (x, s1, r, e)"
    "send_inv cs (accepted g @ [pkt_of s]) r"
    "dl_sent e = dl_sent (snd_env g) \<or> (\<exists>w. dl_sent e = dl_sent (snd_env g) @ [w] \<and> carries cs (accepted g @ [pkt_of s]) (length (accepted g)) w)"
    "rt_bucket r \<le> rt_bucket (snd_rt g) + 1" "dl_loss e \<noteq> None" "dl_up e = dl_up (snd_env g)" "dl_time e = dl_time (snd_env g)"
    by (rule Forward_on_RT_link_ok [OF snd wf l len])
  have "all_carry cs (accepted g @ [pkt_of s]) (dl_sent e)"
    using f(3) inv all_carry_mono [of cs "accepted g" "dl_sent (snd_env g)" "pkt_of s"] all_carry_snoc by (metis sys_inv_def)
  moreover have "balance r e \<le> 3 * int (length (accepted g) + 1)"
    using f(3,4) inv by (auto simp: sys_inv_def balance_def)
  ultimately have "sys_inv cs cr ns (g\<lparr>accepted := accepted g @ [pkt_of s], snd_rt := r, snd_env := e\<rparr>)"
    using inv f(2,5) up_mono [of ns "accepted g" "seen cs cr"] by (auto simp: sys_inv_def)
  then show thesis using that f(1) by (simp add: Forward_RT_UDP_Data_def)
qed

lemma retransm_inv:
  assumes inv: "sys_inv cs cr ns g"
  obtains r e where "Send_RT_Retransm cs rs (Some (snd_rt g)) (snd_env g) = Inr (r, e)"
    "sys_inv cs cr ns (g\<lparr>snd_rt := r, snd_env := e\<rparr>)"
proof -
  have i: "send_inv cs (accepted g) (snd_rt g)" "dl_loss (snd_env g) \<noteq> None" "all_carry cs (accepted g) (dl_sent (snd_env g))"
    using inv by (simp_all add: sys_inv_def)
  obtain r e where f: "Send_RT_Retransm cs rs (Some (snd_rt g)) (snd_env g) = Inr (r, e)" "send_inv cs (accepted g) r"
    "all_carry cs (accepted g) (dl_sent e)" "balance r e \<le> balance (snd_rt g) (snd_env g)" "dl_loss e \<noteq> None"
    "dl_up e = dl_up (snd_env g)" "dl_time e = dl_time (snd_env g)"
    by (rule Send_RT_Retransm_ok [OF i])
  then show thesis using that inv by (auto simp: sys_inv_def)
qed

text \<open>A packet that arrives is handed up when it was not before and the window has not passed it.\<close>

lemma arrive_inv:
  assumes inv: "sys_inv cs cr ns g" and peers: "peers cs cr" and w: "carries cs (accepted g) i w" "arrives w s"
    and p: "Process_RT_UDP_data_packet cr linkid s (ph_type (fst w)) REALTIME_UDP_LINK (rcv_rt g) (rcv_env g) = Inr (s', r, e)"
  shows "sys_inv cs cr (if rt_recv_tail (rcv_rt g) \<le> of_nat i \<and> i \<notin> set ns then ns @ [i] else ns) (g\<lparr>rcv_rt := r, rcv_env := e\<rparr>)"
proof -
  have i: "i < length (accepted g)" "length (accepted g) < 2 ^ 64" "rt_pkt_ok cs (accepted g ! i)"
    and rinv: "recv_inv (of_nat ` set ns) (rcv_rt g)"
    using w inv by (auto simp: carries_def sys_inv_def send_inv_def)
  note a = arrival [OF peers w i(3)]
  have inj: "of_nat i = (of_nat j :: rt_seq_type) \<longleftrightarrow> i = j" if "j \<in> set ns" for j
  proof -
    have "j < 2 ^ 64" "i < 2 ^ 64" using that inv i(1,2) by (auto simp: sys_inv_def)
    then show ?thesis using unat_of_nat64 by metis
  qed
  have "unat (of_nat i :: rt_seq_type) = i" using i(1,2) by (intro unat_of_nat64) simp
  then have "of_nat i \<noteq> (- 1 :: rt_seq_type)" using seq_not_max i(1,2) by blast
  note p' = Process_RT_cases [OF p rinv, unfolded a(2), OF this]
  show ?thesis
  proof (cases "rt_recv_tail (rcv_rt g) \<le> of_nat i \<and> i \<notin> set ns")
    case True
    then have "of_nat i \<notin> (of_nat ` set ns :: rt_seq_type set)" using inj by auto
    with True p' a have "recv_inv (of_nat ` set (ns @ [i])) r" "dl_up e = dl_up (rcv_env g) @ [seen cs cr (accepted g ! i)]"
      by auto
    then show ?thesis using inv True i(1) by (auto simp: sys_inv_def)
  next
    case False
    then have "r = rcv_rt g \<and> e = rcv_env g" using p' by auto
    then show ?thesis using inv False by (auto simp: sys_inv_def)
  qed
qed

lemma rt_step_inv:
  assumes "rt_step cs rs cr rr g g'" "peers cs cr" "sys_inv cs cr ns g"
  shows "\<exists>ns'. sys_inv cs cr ns' g'"
  using assms
proof cases
  case (accept s x s' r e)
  show ?thesis
    by (rule accept_inv [OF assms(3) accept(2,3), of rs]) (use accept in auto)
next
  case (clean now r)
  then have "sys_inv cs cr ns g'"
    using assms(3) clean_history_inv [of cs "accepted g" "snd_rt g" now] by (auto simp: sys_inv_def Clean_RT_history_def balance_def)
  then show ?thesis ..
next
  case (shared x c b y b1)
  then have "sys_inv cs cr ns g'"
    using assms(3) shared_inv [of cs "accepted g" "snd_rt g" x c b] by (auto simp: sys_inv_def balance_def)
  then show ?thesis ..
next
  case (nack linkid s type r e)
  obtain y where "r = (snd_rt g)\<lparr>rt_retransm_buff := y\<rparr>" using Process_RT_nack_frame(1) [OF nack(2)] ..
  then have "sys_inv cs cr ns g'"
    using assms(3) Process_RT_nack_frame(2,3) [OF nack(2)] nack(1) by (simp add: sys_inv_def balance_def)
  then show ?thesis ..
next
  case (retransm r e)
  show ?thesis by (rule retransm_inv [OF assms(3), of rs]) (use retransm in auto)
next
  case (arrive w s linkid s' r e)
  obtain i where "carries cs (accepted g) i w" using assms(3) arrive(2) by (auto simp: sys_inv_def all_carry_def)
  from arrive_inv [OF assms(3,2) this arrive(3,4)] show ?thesis unfolding arrive(1) ..
next
  case (ask r e)
  then have "sys_inv cs cr ns g'" using assms(3) Send_RT_Nack_frame [OF ask(2)] by (auto simp: sys_inv_def)
  then show ?thesis ..
next
  case (time t1 m1 t2 m2)
  then have "sys_inv cs cr ns g'" using assms(3) by (simp add: sys_inv_def balance_def)
  then show ?thesis ..
qed

lemma rt_reachable_inv:
  assumes "rt_start g0" "(rt_step cs rs cr rr)\<^sup>*\<^sup>* g0 g" "peers cs cr"
  shows "\<exists>ns. sys_inv cs cr ns g"
  using assms(2)
proof (induction rule: rtranclp_induct)
  case base
  then show ?case using sys_inv_start [OF assms(1)] by blast
next
  case (step y z)
  then show ?case using rt_step_inv assms(3) by blast
qed

section \<open>A small run\<close>

text \<open>A big-endian host sends a packet of 40 bytes to a little-endian one.\<close>

definition demo_conf :: "int32u \<Rightarrow> data_link_conf" where
  "demo_conf endian = \<lparr>lc_ARCH_ENDIAN = endian, lc_My_Address = 1, lc_network_flag = True, MultiPath_Bitmask_Size = 32,
     Prio_Signature_Len = 0, Rel_Signature_Len = 0, Cipher_Blk_Len = 16, HMAC_Key_Len = 32\<rparr>"

definition rt_demo_env :: dl_env where
  "rt_demo_env = \<lparr>dl_time = zero_wait, dl_monotonic = zero_wait, dl_queue = [], dl_ctrl_link_id = 5, dl_loss = Some loss_start,
     dl_sent = [], dl_up = []\<rparr>"

definition demo_scatter :: scatter where
  "demo_scatter = \<lparr>s_hdr = \<lparr>ph_type = 0, ph_sender_id = 0, ph_ctrl_link_id = 0, ph_data_len = 0, ph_ack_len = 0, ph_seq_no = 0\<rparr>,
     s_buf = 10 # 0 # 0 # 1 # replicate 1448 0, s_len = 40, s_rest = []\<rparr>"

definition rt_demo_link :: rt_sys where
  "rt_demo_link = \<lparr>accepted = [], snd_rt = new_Realtime_Data, snd_env = rt_demo_env, rcv_rt = new_Realtime_Data, rcv_env = rt_demo_env\<rparr>"

definition demo_accepted :: rt_sys where
  "demo_accepted = (case Forward_RT_UDP_Data (demo_conf 0) (\<lambda>_ _. 60) False demo_scatter (Some new_Realtime_Data) rt_demo_env of
     Inr (_, _, Some r, e) \<Rightarrow> rt_demo_link\<lparr>accepted := [pkt_of demo_scatter], snd_rt := r, snd_env := e\<rparr> | _ \<Rightarrow> rt_demo_link)"

definition demo_arrival :: scatter where
  "demo_arrival = (case dl_sent (snd_env demo_accepted) of
     (h, b, rest) # _ \<Rightarrow> \<lparr>s_hdr = h, s_buf = b @ replicate (sizeof_packet_body - length b) 0, s_len = length b, s_rest = []\<rparr> | [] \<Rightarrow> demo_scatter)"

definition demo_received :: rt_sys where
  "demo_received = (case Process_RT_UDP_data_packet (demo_conf ENDIAN_TYPE) 3 demo_arrival (ph_type (s_hdr demo_arrival)) REALTIME_UDP_LINK
       new_Realtime_Data rt_demo_env of
     Inr (_, r, e) \<Rightarrow> demo_accepted\<lparr>rcv_rt := r, rcv_env := e\<rparr> | Inl _ \<Rightarrow> demo_accepted)"

abbreviation demo_step :: "rt_sys \<Rightarrow> rt_sys \<Rightarrow> bool" where
  "demo_step \<equiv> rt_step (demo_conf 0) (\<lambda>_ _. 60) (demo_conf ENDIAN_TYPE) (\<lambda>_ _. 60)"

lemma demo_peers: "peers (demo_conf 0) (demo_conf ENDIAN_TYPE)"
  by (simp add: peers_def demo_conf_def endian_ok_def)

lemma demo_framed: "well_framed (demo_conf 0) demo_scatter"
  by code_simp

lemma rt_demo_start: "rt_start rt_demo_link"
  by (simp add: rt_start_def rt_demo_link_def rt_demo_env_def)

lemma demo_accept: "demo_step rt_demo_link demo_accepted" "accepted demo_accepted = [pkt_of demo_scatter]"
proof -
  obtain x s r e where "Forward_RT_UDP_Data (demo_conf 0) (\<lambda>_ _. 60) False demo_scatter (Some (snd_rt rt_demo_link)) (snd_env rt_demo_link) = Inr (x, s, Some r, e)"
    by (rule accept_inv [OF sys_inv_start [OF rt_demo_start, of _ "demo_conf ENDIAN_TYPE"] demo_framed, of "\<lambda>_ _. 60"])
       (simp_all add: rt_demo_link_def)
  then show "demo_step rt_demo_link demo_accepted" "accepted demo_accepted = [pkt_of demo_scatter]"
    using rt_step.accept [OF demo_framed, of rt_demo_link "\<lambda>_ _. 60" x s r e "demo_conf ENDIAN_TYPE" "\<lambda>_ _. 60"]
    by (simp_all add: demo_accepted_def rt_demo_link_def)
qed

lemma demo_arrives: "\<exists>w. dl_sent (snd_env demo_accepted) = [w] \<and> arrives w demo_arrival \<and> ph_type (fst w) = ph_type (s_hdr demo_arrival)"
proof -
  have "length (dl_sent (snd_env demo_accepted)) = 1 \<and> length (fst (snd (hd (dl_sent (snd_env demo_accepted))))) = 48 \<and>
    snd (snd (hd (dl_sent (snd_env demo_accepted)))) = []" by code_simp
  then obtain h b where "dl_sent (snd_env demo_accepted) = [(h, b, [])]" "length b = 48"
    by (cases "dl_sent (snd_env demo_accepted)") auto
  then show ?thesis by (simp add: demo_arrival_def arrives_def sizeof_packet_body_def sizeof_packet_header_def)
qed

lemma rt_demo_run: "demo_step\<^sup>*\<^sup>* rt_demo_link demo_received"
proof -
  have "\<not> isl (Process_RT_UDP_data_packet (demo_conf ENDIAN_TYPE) 3 demo_arrival (ph_type (s_hdr demo_arrival)) REALTIME_UDP_LINK
    new_Realtime_Data rt_demo_env)" by code_simp
  then obtain s r e where p: "Process_RT_UDP_data_packet (demo_conf ENDIAN_TYPE) 3 demo_arrival (ph_type (s_hdr demo_arrival))
    REALTIME_UDP_LINK new_Realtime_Data rt_demo_env = Inr (s, r, e)"
    by (auto simp: isl_def split: sum.splits) (metis sum.exhaust surj_pair)
  obtain w where w: "dl_sent (snd_env demo_accepted) = [w]" "arrives w demo_arrival" "ph_type (fst w) = ph_type (s_hdr demo_arrival)"
    using demo_arrives by blast
  have "rcv_rt demo_accepted = new_Realtime_Data" "rcv_env demo_accepted = rt_demo_env"
    by (auto simp: demo_accepted_def rt_demo_link_def split: sum.split option.split)
  then have "demo_step demo_accepted demo_received"
    using rt_step.arrive [of w demo_accepted demo_arrival "demo_conf ENDIAN_TYPE" 3 s r e] w p by (simp add: demo_received_def)
  with demo_accept(1) show ?thesis by (meson converse_rtranclp_into_rtranclp r_into_rtranclp)
qed

section \<open>Properties\<close>

text \<open>C35: Whatever the network, the clocks, the requests for missing packets and the links that share the
  buffers do, the packets that a realtime link hands up at the receiving end are accepted packets, each
  at most once, with body and dissemination header as they were accepted.\<close>

theorem realtime_at_most_once:
  assumes "rt_start g0" "(rt_step cs rs cr rr)\<^sup>*\<^sup>* g0 g" "peers cs cr"
  shows "\<exists>ns. distinct ns \<and> (\<forall>i \<in> set ns. i < length (accepted g)) \<and>
    dl_up (rcv_env g) = map (\<lambda>i. seen cs cr (accepted g ! i)) ns"
  using rt_reachable_inv [OF assms] by (auto simp: sys_inv_def)

theorem realtime_at_most_once_witness:
  "rt_start rt_demo_link \<and> demo_step\<^sup>*\<^sup>* rt_demo_link demo_received \<and> length (dl_up (rcv_env demo_received)) = 1 \<and>
   (\<exists>ns. distinct ns \<and> (\<forall>i \<in> set ns. i < length (accepted demo_received)) \<and>
    dl_up (rcv_env demo_received) = map (\<lambda>i. seen (demo_conf 0) (demo_conf ENDIAN_TYPE) (accepted demo_received ! i)) ns)"
proof (intro conjI)
  show "length (dl_up (rcv_env demo_received)) = 1" by code_simp
qed (use rt_demo_start rt_demo_run realtime_at_most_once [OF rt_demo_start rt_demo_run demo_peers] in auto)

text \<open>C36: In every state of a realtime link a well-formed packet can be accepted and a request for
  missing packets be answered without a failed assertion, a null pointer or an access outside a buffer,
  and for every two packets accepted at most three are sent.\<close>

theorem realtime_sender:
  assumes "rt_start g0" "(rt_step cs rs cr rr)\<^sup>*\<^sup>* g0 g" "peers cs cr" "length (accepted g) + 1 < 2 ^ 64"
  shows "(\<forall>s. well_framed cs s \<longrightarrow> (\<exists>y. Forward_RT_UDP_Data cs rs False s (Some (snd_rt g)) (snd_env g) = Inr y)) \<and>
    (\<exists>y. Send_RT_Retransm cs rs (Some (snd_rt g)) (snd_env g) = Inr y) \<and>
    2 * length (dl_sent (snd_env g)) \<le> 3 * length (accepted g)"
proof -
  obtain ns where inv: "sys_inv cs cr ns g" using rt_reachable_inv [OF assms(1-3)] by blast
  then have "0 \<le> rt_bucket (snd_rt g)" "balance (snd_rt g) (snd_env g) \<le> 3 * int (length (accepted g))"
    by (simp_all add: sys_inv_def send_inv_def)
  then have "2 * length (dl_sent (snd_env g)) \<le> 3 * length (accepted g)" by (simp add: balance_def)
  moreover have "\<exists>y. Forward_RT_UDP_Data cs rs False s (Some (snd_rt g)) (snd_env g) = Inr y" if "well_framed cs s" for s
    by (rule accept_inv [OF inv that assms(4), of rs]) blast
  moreover have "\<exists>y. Send_RT_Retransm cs rs (Some (snd_rt g)) (snd_env g) = Inr y"
    by (rule retransm_inv [OF inv, of rs]) blast
  ultimately show ?thesis by blast
qed

theorem realtime_sender_witness:
  "demo_step\<^sup>*\<^sup>* rt_demo_link demo_accepted \<and> well_framed (demo_conf 0) demo_scatter \<and>
   (\<exists>y. Forward_RT_UDP_Data (demo_conf 0) (\<lambda>_ _. 60) False demo_scatter (Some (snd_rt demo_accepted)) (snd_env demo_accepted) = Inr y) \<and>
   2 * length (dl_sent (snd_env demo_accepted)) \<le> 3"
proof -
  have r: "demo_step\<^sup>*\<^sup>* rt_demo_link demo_accepted" using demo_accept(1) by (rule r_into_rtranclp)
  show ?thesis using realtime_sender [OF rt_demo_start r demo_peers] r demo_accept(2) demo_framed by simp
qed

text \<open>The receiver of a realtime packet does not check the routing byte of its header: one packet
  with a value that no dissemination protocol has ends the daemon.\<close>

theorem bad_routing_byte_exits:
  assumes "proper_size s" "3 < routing_byte (s_buf s)"
  shows "\<exists>m. Process_RT_UDP_data_packet cf linkid s type mode r e = Inl (EXIT m)"
proof -
  have "routing_byte (s_buf s) \<notin> {0, 1, 2, 3}" using assms(2) by auto
  then show ?thesis using assms(1) by (auto simp: Process_RT_UDP_data_packet_def proper_size_def Dissemination_Header_Size_def)
qed


theorem bad_routing_byte_exits_witness:
  "proper_size (demo_scatter\<lparr>s_buf := (s_buf demo_scatter)[25 := 4]\<rparr>) \<and>
   (\<exists>m. Process_RT_UDP_data_packet (demo_conf 0) 3 (demo_scatter\<lparr>s_buf := (s_buf demo_scatter)[25 := 4]\<rparr>) REALTIME_DATA_TYPE REALTIME_UDP_LINK
      new_Realtime_Data rt_demo_env = Inl (EXIT m))"
proof -
  have "proper_size (demo_scatter\<lparr>s_buf := (s_buf demo_scatter)[25 := 4]\<rparr>)"
    "3 < routing_byte (s_buf (demo_scatter\<lparr>s_buf := (s_buf demo_scatter)[25 := 4]\<rparr>))"
    by (simp_all add: demo_scatter_def proper_size_def num_elements_def sizeof_udp_header_def routing_byte_def)
  then show ?thesis using bad_routing_byte_exits by blast
qed

end
