(* ===== verification/Udp_Link.thy ===== *)
theory Udp_Link
  imports Realtime_System
begin

unbundle bit_operations_syntax

text \<open>
  The UDP link from end to end: what \<open>Forward_UDP_Data\<close> puts on the wire, \<open>Process_udp_data_packet\<close>
  hands up at the other end with the same body and the same dissemination header, whatever the byte
  order of the two hosts.
\<close>

definition udp_framed :: "data_link_conf \<Rightarrow> scatter \<Rightarrow> bool" where
  "udp_framed cf s \<longleftrightarrow> length (s_buf s) = sizeof_packet_body \<and> sizeof_udp_header \<le> s_len s \<and>
     s_len s + length (concat (s_rest s)) \<le> sizeof_packet_body \<and>
     Dissemination_Header_Size cf (routing_byte (s_buf s)) = Inr (of_nat (length (concat (s_rest s))))"

definition seen_udp :: "data_link_conf \<Rightarrow> data_link_conf \<Rightarrow> rt_packet \<Rightarrow> Link_Type \<times> byte list \<times> byte list" where
  "seen_udp cs cr p = (UDP_LINK, if lc_ARCH_ENDIAN cs = lc_ARCH_ENDIAN cr then fst p else Flip_udp_hdr (fst p), snd p)"

lemma Forward_UDP_ok:
  assumes f: "udp_framed cs s" and e: "dl_loss e = Some l" "lc_network_flag cs"
  shows "\<exists>x s' e' h. Forward_UDP_Data cs ret False True s e = Inr (x, s', e') \<and>
    dl_sent e' = dl_sent e @ [(h, take (s_len s) (s_buf s), s_rest s)] \<and>
    ph_type h = Set_endian (lc_ARCH_ENDIAN cs) UDP_DATA_TYPE \<and> ph_data_len h = of_nat (s_len s) \<and>
    ph_ack_len h = of_nat (length (concat (s_rest s)))"
proof -
  obtain sq l1 where "Set_Loss_SeqNo UDP_LINK (Some l) = Inr (sq, l1)" by (rule Set_Loss_SeqNo_Some)
  then show ?thesis using f e by (simp add: Forward_UDP_Data_def udp_framed_def send_on_def wire_of_def Let_def)
qed

lemma Process_udp_ok:
  assumes p: "peers cs cr" and f: "udp_framed cs s"
    and h: "ph_type h = Set_endian (lc_ARCH_ENDIAN cs) UDP_DATA_TYPE" "ph_data_len h = of_nat (s_len s)"
      "ph_ack_len h = of_nat (length (concat (s_rest s)))"
    and a: "arrives (h, take (s_len s) (s_buf s), s_rest s) t"
  shows "\<exists>t'. Process_udp_data_packet cr t (ph_type h) UDP_LINK e =
    Inr (t', e\<lparr>dl_up := dl_up e @ [seen_udp cs cr (pkt_of s)]\<rparr>)"
proof -
  let ?n = "s_len s" and ?k = "length (concat (s_rest s))"
  have n: "28 \<le> ?n" "?n + ?k \<le> 1452" "length (s_buf s) = 1452"
    and size: "Dissemination_Header_Size cs (routing_byte (s_buf s)) = Inr (of_nat ?k)"
    using f by (auto simp: udp_framed_def sizeof_udp_header_def sizeof_packet_body_def sizeof_packet_header_def)
  have t: "s_hdr t = h" "s_rest t = []" "length (s_buf t) = 1452" "s_len t = ?n + ?k"
    "take (?n + ?k) (s_buf t) = take ?n (s_buf s) @ concat (s_rest s)"
    using a n min_absorb2 [of ?n 1452] by (auto simp: arrives_def sizeof_packet_body_def sizeof_packet_header_def)
  have body: "take ?n (s_buf t) = take ?n (s_buf s)" using arg_cong [OF t(5), of "take ?n"] n by (simp add: min_def)
  have dis: "take ?k (drop ?n (s_buf t)) = concat (s_rest s)" using arg_cong [OF t(5), of "drop ?n"] n by (simp add: drop_take)
  have same: "Same_endian (lc_ARCH_ENDIAN cr) (ph_type h) \<longleftrightarrow> lc_ARCH_ENDIAN cs = lc_ARCH_ENDIAN cr"
    unfolding h(1) using p by (intro Same_endian_type) (simp_all add: peers_def UDP_DATA_TYPE_def ENDIAN_TYPE_def)
  define b where "b = (if Same_endian (lc_ARCH_ENDIAN cr) (ph_type h) then s_buf t else Flip_udp_hdr (s_buf t))"
  have "routing_byte b = routing_byte (s_buf s)"
    using routing_byte_take [OF n(1), of "s_buf t"] routing_byte_take [OF n(1), of "s_buf s"] body routing_byte_Flip [of "s_buf t"] t(3)
    by (simp add: b_def)
  then have dh: "Dissemination_Header_Size cr (routing_byte b) = Inr (of_nat ?k)" using size peers_sizes [OF p] by simp
  have u: "unat (ph_data_len h) = ?n" "unat (of_nat ?k :: int16u) = ?k" using n h(2) by (simp_all add: unat16)
  have "get_bytes ?n ?k b = Inr (concat (s_rest s))"
    using n t(3) dis by (simp add: get_bytes_def b_def Flip_udp_hdr_drop)
  moreover have "take ?n b = (if lc_ARCH_ENDIAN cs = lc_ARCH_ENDIAN cr then take ?n (s_buf s) else Flip_udp_hdr (take ?n (s_buf s)))"
    using body n t(3) by (simp add: b_def same Flip_udp_hdr_take)
  ultimately show ?thesis
    using t n h(3) dh u
    by (simp add: Process_udp_data_packet_def num_elements_def sizeof_udp_header_def b_def [symmetric] hand_up_def Let_def
        seen_udp_def pkt_of_def)
qed

text \<open>C37: What \<open>Forward_UDP_Data\<close> sends on a UDP link, \<open>Process_udp_data_packet\<close> hands up at the other end:
  the same body, with the members of its header in the byte order of the receiver, and the same dissemination header.\<close>

theorem udp_round_trip:
  assumes "peers cs cr" "udp_framed cs s" "dl_loss e = Some l" "lc_network_flag cs"
  shows "\<exists>x s' e' w. Forward_UDP_Data cs ret False True s e = Inr (x, s', e') \<and> dl_sent e' = dl_sent e @ [w] \<and>
    (\<forall>t er. arrives w t \<longrightarrow> (\<exists>t'. Process_udp_data_packet cr t (ph_type (fst w)) UDP_LINK er =
       Inr (t', er\<lparr>dl_up := dl_up er @ [seen_udp cs cr (pkt_of s)]\<rparr>)))"
proof -
  obtain x s' e' h where f: "Forward_UDP_Data cs ret False True s e = Inr (x, s', e')"
    "dl_sent e' = dl_sent e @ [(h, take (s_len s) (s_buf s), s_rest s)]"
    "ph_type h = Set_endian (lc_ARCH_ENDIAN cs) UDP_DATA_TYPE" "ph_data_len h = of_nat (s_len s)"
    "ph_ack_len h = of_nat (length (concat (s_rest s)))"
    using Forward_UDP_ok [OF assms(2-4), of ret] by blast
  then show ?thesis using Process_udp_ok [OF assms(1,2) f(3-5)] by (metis fst_conv)
qed

theorem udp_round_trip_witness:
  "udp_framed (demo_conf 0) demo_scatter \<and>
   (\<exists>x s' e' w. Forward_UDP_Data (demo_conf 0) (\<lambda>_ _. 60) False True demo_scatter rt_demo_env = Inr (x, s', e') \<and> dl_sent e' = [w] \<and>
    (\<forall>t. arrives w t \<longrightarrow> (\<exists>t'. Process_udp_data_packet (demo_conf ENDIAN_TYPE) t (ph_type (fst w)) UDP_LINK rt_demo_env =
       Inr (t', rt_demo_env\<lparr>dl_up := [seen_udp (demo_conf 0) (demo_conf ENDIAN_TYPE) (pkt_of demo_scatter)]\<rparr>))))"
proof -
  have f: "udp_framed (demo_conf 0) demo_scatter" by code_simp
  have e: "dl_loss rt_demo_env = Some loss_start" "lc_network_flag (demo_conf 0)" "dl_sent rt_demo_env = []" "dl_up rt_demo_env = []"
    by (simp_all add: rt_demo_env_def demo_conf_def)
  obtain x s' e' w where r: "Forward_UDP_Data (demo_conf 0) (\<lambda>_ _. 60) False True demo_scatter rt_demo_env = Inr (x, s', e')"
    "dl_sent e' = dl_sent rt_demo_env @ [w]"
    "\<And>t er. arrives w t \<Longrightarrow> \<exists>t'. Process_udp_data_packet (demo_conf ENDIAN_TYPE) t (ph_type (fst w)) UDP_LINK er =
       Inr (t', er\<lparr>dl_up := dl_up er @ [seen_udp (demo_conf 0) (demo_conf ENDIAN_TYPE) (pkt_of demo_scatter)]\<rparr>)"
    using udp_round_trip [OF demo_peers f e(1,2), of "\<lambda>_ _. 60"] by blast
  have "dl_sent e' = [w]" using r(2) e(3) by simp
  with f r(1) r(3) [of _ rt_demo_env, unfolded e(4) append_Nil] show ?thesis by blast
qed

text \<open>A packet that a node sends to itself over a link is taken for one of the other byte order on a
  little-endian host, because its type has no byte order bits: the header that goes up has its bytes swapped.\<close>

lemma self_delivery_flips:
  assumes "lc_ARCH_ENDIAN cf = ENDIAN_TYPE" "num_elements s = 2" "sizeof_udp_header \<le> s_len s"
    "Forward_UDP_Data cf ret True lk s e = Inr (x, s', e')"
  shows "s_buf s' = Flip_udp_hdr (s_buf s)"
proof -
  have "\<not> Same_endian ENDIAN_TYPE UDP_DATA_TYPE" by (simp add: Same_endian_def UDP_DATA_TYPE_def ENDIAN_TYPE_def)
  then show ?thesis using assms
    by (auto simp: Forward_UDP_Data_def Process_udp_data_packet_def hand_up_def Let_def bind_res_Inr_iff)
qed

end
