(* ===== verification/Std_Util.thy ===== *)
theory Std_Util
  imports Prelude
begin

text \<open>
  Powers of two and logarithms (\<open>stdutil/src/stdutil.c\<close>), which the containers use for their sizes.
  Numbers are natural numbers; results of 64 bit operations are taken modulo \<open>2 ^ 64\<close>.
\<close>

text \<open>The results of the operations of the containers (\<open>stderror.h\<close>).\<close>

datatype stdcode = STDESUCCESS | STDENOMEM | STDEACCES | STDEINVAL

section \<open>The functions\<close>

fun lg_loop :: "nat \<Rightarrow> nat \<Rightarrow> nat" where
  "lg_loop x ret = (if x \<le> 1 then ret else lg_loop (x div 2) (ret + 1))"

declare lg_loop.simps [simp del]

definition stdlg_down :: "nat \<Rightarrow> nat" where
  "stdlg_down x = (if x = 0 then 2 ^ 32 - 1 else lg_loop x 0)"

definition stdlg_up :: "nat \<Rightarrow> nat" where
  "stdlg_up x = (if x = 0 then 2 ^ 32 - 1 else if x = 1 then 0 else stdlg_down (x - 1) + 1)"

definition stdpow2_down :: "nat \<Rightarrow> nat" where
  "stdpow2_down x = (if x \<noteq> 0 then 2 ^ stdlg_down x mod 2 ^ 64 else 0)"

definition stdpow2_up :: "nat \<Rightarrow> nat" where
  "stdpow2_up x = (if x \<noteq> 0 then 2 ^ stdlg_up x mod 2 ^ 64 else 0)"

definition stdpow2_cap :: "nat \<Rightarrow> nat" where
  "stdpow2_cap x =
     (let up_pow2 = stdpow2_up x
      in if up_pow2 < (x + x div 2) mod 2 ^ 64 then 2 * up_pow2 mod 2 ^ 64 else up_pow2)"

section \<open>What they compute\<close>

lemma lg_loop_bounds: "0 < x \<Longrightarrow> 2 ^ lg_loop x r \<le> x * 2 ^ r \<and> x * 2 ^ r < 2 ^ (lg_loop x r + 1)"
proof (induction x r rule: lg_loop.induct)
  case (1 x r)
  show ?case
  proof (cases "x \<le> 1")
    case True
    with 1 have "x = 1" by simp
    then show ?thesis by (simp add: lg_loop.simps)
  next
    case False
    then have IH: "2 ^ lg_loop (x div 2) (r + 1) \<le> (x div 2) * 2 ^ (r + 1)" "(x div 2) * 2 ^ (r + 1) < 2 ^ (lg_loop (x div 2) (r + 1) + 1)"
      using 1 by auto
    have "r + 1 \<le> lg_loop (x div 2) (r + 1)"
    proof -
      have "(2 :: nat) ^ (r + 1) \<le> (x div 2) * 2 ^ (r + 1)" using False by simp
      with IH(2) have "(2 :: nat) ^ (r + 1) < 2 ^ (lg_loop (x div 2) (r + 1) + 1)" by linarith
      then have "r + 1 < lg_loop (x div 2) (r + 1) + 1" by (subst (asm) power_strict_increasing_iff) simp_all
      then show ?thesis by simp
    qed
    then obtain k where k: "lg_loop (x div 2) (r + 1) = r + 1 + k" using le_Suc_ex by blast
    have "(2 :: nat) ^ k \<le> x div 2" "x div 2 < 2 ^ (k + 1)"
      using IH unfolding k by (simp_all add: power_add mult.commute)
    then have "(2 :: nat) ^ (k + 1) \<le> x" "x < 2 ^ (k + 2)" by (simp_all add: less_mult_imp_div_less)
    moreover have "lg_loop x r = r + (k + 1)" using False k by (simp add: lg_loop.simps [of x])
    ultimately show ?thesis by (simp add: power_add mult.commute)
  qed
qed

lemma stdlg_down_bounds: "0 < x \<Longrightarrow> 2 ^ stdlg_down x \<le> x" "0 < x \<Longrightarrow> x < 2 ^ (stdlg_down x + 1)"
  using lg_loop_bounds [of x 0] by (simp_all add: stdlg_down_def)

lemma stdlg_up_bounds: "0 < x \<Longrightarrow> x \<le> 2 ^ stdlg_up x" "0 < x \<Longrightarrow> 2 ^ stdlg_up x < 2 * x"
proof -
  show "0 < x \<Longrightarrow> x \<le> 2 ^ stdlg_up x" using stdlg_down_bounds(2) [of "x - 1"] by (auto simp: stdlg_up_def)
  show "0 < x \<Longrightarrow> 2 ^ stdlg_up x < 2 * x" using stdlg_down_bounds(1) [of "x - 1"] by (auto simp: stdlg_up_def)
qed

lemma stdlg_up_power [simp]: "stdlg_up (2 ^ n) = n"
proof -
  have "(2 :: nat) ^ n \<le> 2 ^ stdlg_up (2 ^ n)" "(2 :: nat) ^ stdlg_up (2 ^ n) < 2 ^ (n + 1)"
    using stdlg_up_bounds [of "2 ^ n"] by simp_all
  then have "n \<le> stdlg_up (2 ^ n)" "stdlg_up (2 ^ n) < n + 1"
    by (simp_all only: power_increasing_iff power_strict_increasing_iff)
  then show ?thesis by simp
qed

text \<open>The capacity for \<open>x\<close> entries: a power of two between one and a half times and three times \<open>x\<close>.\<close>

lemma stdpow2_cap_bounds:
  assumes "0 < x" "x \<le> 2 ^ 61"
  shows "\<exists>n. stdpow2_cap x = 2 ^ n \<and> x + x div 2 \<le> 2 ^ n \<and> 2 ^ n < 3 * x"
proof -
  have "(2 :: nat) ^ stdlg_up x < 2 ^ 62" using stdlg_up_bounds(2) [OF assms(1)] assms(2) by simp
  then have up: "stdpow2_up x = 2 ^ stdlg_up x" using assms(1) by (simp add: stdpow2_up_def)
  note b = stdlg_up_bounds [OF assms(1)]
  have small: "(x + x div 2) mod 2 ^ 64 = x + x div 2" using assms(2) by simp
  show ?thesis
  proof (cases "2 ^ stdlg_up x < x + x div 2")
    case True
    then have "stdpow2_cap x = 2 * 2 ^ stdlg_up x" unfolding stdpow2_cap_def Let_def up small using b assms(2) by simp
    then have "stdpow2_cap x = 2 ^ (stdlg_up x + 1)" by simp
    moreover have "x + x div 2 \<le> 2 ^ (stdlg_up x + 1)" "2 ^ (stdlg_up x + 1) < 3 * x" using b True by simp_all
    ultimately show ?thesis by blast
  next
    case False
    then have "stdpow2_cap x = 2 ^ stdlg_up x" unfolding stdpow2_cap_def Let_def up small by simp
    moreover have "x + x div 2 \<le> 2 ^ stdlg_up x" "2 ^ stdlg_up x < 3 * x" using b False by simp_all
    ultimately show ?thesis by blast
  qed
qed

end
