(* ===== verification/Std_Carr.thy ===== *)
theory Std_Carr
  imports Std_Util "HOL-Library.Monad_Syntax"
begin

text \<open>
  The circular array of \<open>stdutil/src/stdcarr.c\<close>, in which the daemon keeps the packets of its leaky
  buckets. The memory of an array is one block; an address is the number of values between the
  beginning of the block (\<open>base\<close>) and it, so that \<open>base\<close> is zero, the size \<open>vsize\<close> of a value drops out,
  and an array without memory has \<open>endbase = 0\<close>. A value that was never written is \<open>None\<close>. An iterator is
  the address it refers to.

  \<open>memcpy\<close> and \<open>memmove\<close> outside the block, and \<open>memcpy\<close> between regions that overlap, have no defined
  result: their value is \<open>None\<close>. Whether memory for so many values is available is a parameter. The
  code does not check whether the number of bytes fits a \<open>size_t\<close>; here the numbers are integers.
\<close>

section \<open>Data\<close>

definition STDCARR_MIN_AUTO_ALLOC :: int where "STDCARR_MIN_AUTO_ALLOC = 16"

type_synonym 'a block = "int \<Rightarrow> 'a option"

record 'a stdcarr =
  base :: "'a block"
  endbase :: int
  ca_begin :: int
  ca_end :: int
  ca_cap :: int
  ca_size :: int
  ca_no_grow :: bool
  ca_no_shrink :: bool

definition memmove :: "int \<Rightarrow> 'a block \<Rightarrow> int \<Rightarrow> int \<Rightarrow> int \<Rightarrow> 'a block option" where
  "memmove lim m d s n =
     (if 0 \<le> n \<and> 0 \<le> d \<and> d + n \<le> lim \<and> 0 \<le> s \<and> s + n \<le> lim
      then Some (\<lambda>i. if d \<le> i \<and> i < d + n then m (s + (i - d)) else m i) else None)"

definition memcpy :: "int \<Rightarrow> 'a block \<Rightarrow> int \<Rightarrow> int \<Rightarrow> int \<Rightarrow> 'a block option" where
  "memcpy lim m d s n = (if d + n \<le> s \<or> s + n \<le> d then memmove lim m d s n else None)"

text \<open>Between two blocks.\<close>

definition memcpy_to :: "int \<Rightarrow> 'a block \<Rightarrow> int \<Rightarrow> int \<Rightarrow> 'a block \<Rightarrow> int \<Rightarrow> int \<Rightarrow> 'a block option" where
  "memcpy_to dlim dst d slim src s n =
     (if 0 \<le> n \<and> 0 \<le> d \<and> d + n \<le> dlim \<and> 0 \<le> s \<and> s + n \<le> slim
      then Some (\<lambda>i. if d \<le> i \<and> i < d + n then src (s + (i - d)) else dst i) else None)"

definition fresh :: "'a block" where "fresh = (\<lambda>i. None)"

definition STDCARR_INS_SHIFT_RIGHT :: "'a stdcarr \<Rightarrow> int \<Rightarrow> bool" where
  "STDCARR_INS_SHIFT_RIGHT carr ptr \<longleftrightarrow>
     (if ca_begin carr \<le> ptr then ca_size carr div 2 < ptr - ca_begin carr else ca_end carr - ptr \<le> ca_size carr div 2)"

definition STDCARR_ERS_SHIFT_RIGHT :: "'a stdcarr \<Rightarrow> int \<Rightarrow> int \<Rightarrow> bool" where
  "STDCARR_ERS_SHIFT_RIGHT carr ptr n \<longleftrightarrow>
     (if ca_begin carr \<le> ptr then ptr - ca_begin carr < (ca_size carr - n) div 2 else (ca_size carr + n) div 2 \<le> ca_end carr - ptr)"

section \<open>Shifting\<close>

definition stdcarr_low_copy_to_buf :: "int \<Rightarrow> 'a block \<Rightarrow> int \<Rightarrow> 'a stdcarr \<Rightarrow> int \<Rightarrow> int \<Rightarrow> (int \<times> 'a block) option" where
  "stdcarr_low_copy_to_buf dlim dst d carr c_begin c_end =
     (if c_begin \<le> c_end
      then do {
        dst1 \<leftarrow> memcpy_to dlim dst d (endbase carr) (base carr) c_begin (c_end - c_begin);
        Some (d + (c_end - c_begin), dst1)
      }
      else do {
        let diff = endbase carr - c_begin;
        dst1 \<leftarrow> memcpy_to dlim dst d (endbase carr) (base carr) c_begin diff;
        dst2 \<leftarrow> memcpy_to dlim dst1 (d + diff) (endbase carr) (base carr) 0 c_end;
        Some (d + diff + c_end, dst2)
      })"

definition stdcarr_low_forward :: "int \<Rightarrow> int \<Rightarrow> int \<Rightarrow> int" where
  "stdcarr_low_forward p n lim = (if p + n < lim then p + n else p + n - lim)"

definition stdcarr_low_backward :: "int \<Rightarrow> int \<Rightarrow> int \<Rightarrow> int" where
  "stdcarr_low_backward p n lim = (if 0 \<le> p - n then p - n else lim - (0 - (p - n)))"

definition insert_right_moves :: "'a stdcarr \<Rightarrow> int \<Rightarrow> int \<Rightarrow> 'a block option" where
  "insert_right_moves carr it delta =
     (let lim = endbase carr; m = base carr in
      if ca_begin carr \<le> ca_end carr then
        let diff = ca_end carr + delta - lim; diff2 = ca_end carr - it in
        if diff \<le> 0 then memmove lim m (it + delta) it diff2
        else if diff2 \<le> diff then memcpy lim m (diff - diff2) it diff2
        else do {
          m1 \<leftarrow> memcpy lim m 0 (ca_end carr - diff) diff;
          memmove lim m1 (it + delta) it (diff2 - diff)
        }
      else if 0 \<le> ca_end carr - it then memmove lim m (it + delta) it (ca_end carr - it)
      else do {
        m1 \<leftarrow> memmove lim m delta 0 (ca_end carr);
        let diff = lim - it;
        if diff \<le> delta then memcpy lim m1 (delta - diff) it diff
        else do {
          m2 \<leftarrow> memcpy lim m1 0 (lim - delta) delta;
          memmove lim m2 (it + delta) it (diff - delta)
        }
      })"

definition stdcarr_low_insert_shift_right :: "'a stdcarr \<Rightarrow> int \<Rightarrow> int \<Rightarrow> int \<Rightarrow> 'a stdcarr option" where
  "stdcarr_low_insert_shift_right carr it delta new_size =
     do {
       m \<leftarrow> insert_right_moves carr it delta;
       Some (carr\<lparr>base := m, ca_size := new_size, ca_end := stdcarr_low_forward (ca_end carr) delta (endbase carr)\<rparr>)
     }"

definition insert_left_moves :: "'a stdcarr \<Rightarrow> int \<Rightarrow> int \<Rightarrow> 'a block option" where
  "insert_left_moves carr it delta =
     (let lim = endbase carr; m = base carr; b = ca_begin carr in
      if b \<le> ca_end carr then
        let diff = 0 - (b - delta); diff2 = it - b in
        if diff \<le> 0 then memmove lim m (b - delta) b diff2
        else if diff2 \<le> diff then memcpy lim m (lim - diff) b diff2
        else do {
          m1 \<leftarrow> memcpy lim m (lim - diff) b diff;
          memmove lim m1 0 (b + diff) (diff2 - diff)
        }
      else if b \<le> it then memmove lim m (b - delta) b (it - b)
      else do {
        m1 \<leftarrow> memmove lim m (b - delta) b (lim - b);
        let diff = it;
        if diff \<le> delta then memcpy lim m1 (lim - delta) 0 diff
        else do {
          m2 \<leftarrow> memcpy lim m1 (lim - delta) 0 delta;
          memmove lim m2 0 delta (diff - delta)
        }
      })"

definition stdcarr_low_insert_shift_left :: "'a stdcarr \<Rightarrow> int \<Rightarrow> int \<Rightarrow> int \<Rightarrow> 'a stdcarr option" where
  "stdcarr_low_insert_shift_left carr it delta new_size =
     do {
       m \<leftarrow> insert_left_moves carr it delta;
       Some (carr\<lparr>base := m, ca_size := new_size, ca_begin := stdcarr_low_backward (ca_begin carr) delta (endbase carr)\<rparr>)
     }"

definition erase_left_moves :: "'a stdcarr \<Rightarrow> int \<Rightarrow> int \<Rightarrow> 'a block option" where
  "erase_left_moves carr erase_end delta =
     (let lim = endbase carr; m = base carr; erase_begin = erase_end - delta; diff = ca_end carr - erase_end in
      if 0 \<le> diff then
        let diff2 = 0 - erase_begin in
        if diff2 \<le> 0 then memmove lim m erase_begin erase_end diff
        else let erase_begin = lim - diff2 in
          if diff \<le> diff2 then memcpy lim m erase_begin erase_end diff
          else do {
            m1 \<leftarrow> memcpy lim m erase_begin erase_end diff2;
            memmove lim m1 0 (erase_end + diff2) (diff - diff2)
          }
      else do {
        let diff = lim - erase_end;
        m1 \<leftarrow> memmove lim m erase_begin erase_end diff;
        let erase_begin = erase_begin + diff;
        let diff = ca_end carr;
        if diff \<le> delta then memcpy lim m1 erase_begin 0 diff
        else do {
          m2 \<leftarrow> memcpy lim m1 erase_begin 0 delta;
          memmove lim m2 0 delta (diff - delta)
        }
      })"

definition stdcarr_low_erase_shift_left :: "'a stdcarr \<Rightarrow> int \<Rightarrow> int \<Rightarrow> int \<Rightarrow> 'a stdcarr option" where
  "stdcarr_low_erase_shift_left carr erase_end delta new_size =
     do {
       m \<leftarrow> erase_left_moves carr erase_end delta;
       Some (carr\<lparr>base := m, ca_size := new_size, ca_end := stdcarr_low_backward (ca_end carr) delta (endbase carr)\<rparr>)
     }"

definition erase_right_moves :: "'a stdcarr \<Rightarrow> int \<Rightarrow> int \<Rightarrow> 'a block option" where
  "erase_right_moves carr erase_begin delta =
     (let lim = endbase carr; m = base carr; b = ca_begin carr; erase_end = erase_begin + delta; diff = erase_begin - b in
      if 0 \<le> diff then
        let diff2 = erase_end - lim; diff3 = diff2 - diff in
        if diff2 \<le> 0 then memmove lim m (b + delta) b diff
        else if 0 \<le> diff3 then memcpy lim m diff3 b diff
        else do {
          m1 \<leftarrow> memcpy lim m 0 (erase_begin - diff2) diff2;
          memmove lim m1 (b + delta) b (- diff3)
        }
      else do {
        let diff = erase_begin;
        let erase_end = erase_end - diff;
        m1 \<leftarrow> memmove lim m erase_end 0 diff;
        let diff = lim - b;
        if diff \<le> delta then memcpy lim m1 (erase_end - diff) b diff
        else do {
          m2 \<leftarrow> memcpy lim m1 0 (lim - delta) delta;
          memmove lim m2 (b + delta) b (diff - delta)
        }
      })"

definition stdcarr_low_erase_shift_right :: "'a stdcarr \<Rightarrow> int \<Rightarrow> int \<Rightarrow> int \<Rightarrow> 'a stdcarr option" where
  "stdcarr_low_erase_shift_right carr erase_begin delta new_size =
     do {
       m \<leftarrow> erase_right_moves carr erase_begin delta;
       Some (carr\<lparr>base := m, ca_size := new_size, ca_begin := stdcarr_low_forward (ca_begin carr) delta (endbase carr)\<rparr>)
     }"

section \<open>Making room and closing gaps\<close>

definition stdcarr_high_capacity :: "'a stdcarr \<Rightarrow> int" where
  "stdcarr_high_capacity carr = (if ca_cap carr \<noteq> 0 then ca_cap carr - 1 else 0)"

definition stdcarr_low_capacity :: "'a stdcarr \<Rightarrow> int" where
  "stdcarr_low_capacity carr = ca_cap carr div 4"

text \<open>The array in a new block that it fills from the beginning.\<close>

definition in_block :: "'a block \<Rightarrow> int \<Rightarrow> int \<Rightarrow> 'a stdcarr \<Rightarrow> 'a stdcarr" where
  "in_block mem new_cap new_size carr =
     carr\<lparr>base := mem, endbase := new_cap, ca_begin := 0, ca_end := new_size, ca_cap := new_cap, ca_size := new_size\<rparr>"

definition stdcarr_low_insert_shift :: "(int \<Rightarrow> bool) \<Rightarrow> 'a stdcarr \<Rightarrow> int \<Rightarrow> int \<Rightarrow> int \<Rightarrow> bool \<Rightarrow> (stdcode \<times> int \<times> 'a stdcarr) option" where
  "stdcarr_low_insert_shift malloc carr it delta new_size shift_right =
     (let new_cap = max (2 * new_size) STDCARR_MIN_AUTO_ALLOC in
      if delta = 0 then Some (STDESUCCESS, it, carr)
      else if new_size \<le> stdcarr_high_capacity carr then
        if shift_right then do {
          c \<leftarrow> stdcarr_low_insert_shift_right carr it delta new_size;
          Some (STDESUCCESS, it, c)
        }
        else do {
          c \<leftarrow> stdcarr_low_insert_shift_left carr it delta new_size;
          Some (STDESUCCESS, stdcarr_low_backward it delta (endbase carr), c)
        }
      else if ca_no_grow carr then Some (STDEACCES, it, carr)
      else if \<not> malloc new_cap then Some (STDENOMEM, it, carr)
      else if endbase carr \<noteq> 0 then do {
        (it1, mem1) \<leftarrow> stdcarr_low_copy_to_buf new_cap fresh 0 carr (ca_begin carr) it;
        (_, mem2) \<leftarrow> stdcarr_low_copy_to_buf new_cap mem1 (it1 + delta) carr it (ca_end carr);
        Some (STDESUCCESS, it1, in_block mem2 new_cap new_size carr)
      }
      else Some (STDESUCCESS, 0, in_block fresh new_cap new_size carr))"

definition erase_in_place :: "'a stdcarr \<Rightarrow> int \<Rightarrow> int \<Rightarrow> int \<Rightarrow> bool \<Rightarrow> (int \<times> 'a stdcarr) option" where
  "erase_in_place carr it delta new_size shift_right =
     (if shift_right then do {
        c \<leftarrow> stdcarr_low_erase_shift_right carr it delta new_size;
        Some (stdcarr_low_forward it delta (endbase carr), c)
      }
      else do {
        c \<leftarrow> stdcarr_low_erase_shift_left carr it delta new_size;
        Some (it, c)
      })"

text \<open>The iterator is the beginning of what is erased when values are shifted to the right, and the end of
  it when they are shifted to the left. When memory for a smaller block is refused, the values stay in
  the old one.\<close>

definition stdcarr_low_erase_shift :: "(int \<Rightarrow> bool) \<Rightarrow> 'a stdcarr \<Rightarrow> int \<Rightarrow> int \<Rightarrow> int \<Rightarrow> bool \<Rightarrow> (int \<times> 'a stdcarr) option" where
  "stdcarr_low_erase_shift malloc carr it delta new_size shift_right =
     (let new_cap = max (2 * new_size) STDCARR_MIN_AUTO_ALLOC in
      if delta = 0 then Some (it, carr)
      else if ca_no_shrink carr \<or> stdcarr_low_capacity carr < new_size \<or> ca_cap carr = STDCARR_MIN_AUTO_ALLOC \<or> \<not> malloc new_cap
      then erase_in_place carr it delta new_size shift_right
      else do {
        let erase_begin = (if shift_right then it else stdcarr_low_backward it delta (endbase carr));
        let erase_end = (if shift_right then stdcarr_low_forward it delta (endbase carr) else it);
        (it1, mem1) \<leftarrow> stdcarr_low_copy_to_buf new_cap fresh 0 carr (ca_begin carr) erase_begin;
        (_, mem2) \<leftarrow> stdcarr_low_copy_to_buf new_cap mem1 it1 carr erase_end (ca_end carr);
        Some (it1, in_block mem2 new_cap new_size carr)
      })"

section \<open>Operations\<close>

definition stdcarr_construct :: "bool \<Rightarrow> bool \<Rightarrow> 'a stdcarr" where
  "stdcarr_construct no_grow no_shrink =
     \<lparr>base = fresh, endbase = 0, ca_begin = 0, ca_end = 0, ca_cap = 0, ca_size = 0, ca_no_grow = no_grow, ca_no_shrink = no_shrink\<rparr>"

definition stdcarr_copy_construct :: "(int \<Rightarrow> bool) \<Rightarrow> 'a stdcarr \<Rightarrow> (stdcode \<times> 'a stdcarr) option" where
  "stdcarr_copy_construct malloc src =
     (if endbase src = 0 then Some (STDESUCCESS, src)
      else if \<not> malloc (ca_cap src) then Some (STDENOMEM, src\<lparr>endbase := 0\<rparr>)
      else do {
        (e, mem) \<leftarrow> stdcarr_low_copy_to_buf (ca_cap src) fresh 0 src (ca_begin src) (ca_end src);
        Some (STDESUCCESS, src\<lparr>base := mem, endbase := ca_cap src, ca_begin := 0, ca_end := e\<rparr>)
      })"

definition stdcarr_begin :: "'a stdcarr \<Rightarrow> int" where "stdcarr_begin carr = ca_begin carr"
definition stdcarr_end :: "'a stdcarr \<Rightarrow> int" where "stdcarr_end carr = ca_end carr"

definition stdcarr_it_next :: "'a stdcarr \<Rightarrow> int \<Rightarrow> int" where
  "stdcarr_it_next carr it = stdcarr_low_forward it 1 (endbase carr)"

definition stdcarr_it_advance :: "'a stdcarr \<Rightarrow> int \<Rightarrow> int \<Rightarrow> int" where
  "stdcarr_it_advance carr it num_advance = stdcarr_low_forward it num_advance (endbase carr)"

definition stdcarr_it_prev :: "'a stdcarr \<Rightarrow> int \<Rightarrow> int" where
  "stdcarr_it_prev carr it = stdcarr_low_backward it 1 (endbase carr)"

definition stdcarr_it_retreat :: "'a stdcarr \<Rightarrow> int \<Rightarrow> int \<Rightarrow> int" where
  "stdcarr_it_retreat carr it num_retreat = stdcarr_low_backward it num_retreat (endbase carr)"

definition stdcarr_it_offset :: "'a stdcarr \<Rightarrow> int \<Rightarrow> int \<Rightarrow> int" where
  "stdcarr_it_offset carr it offset = (if 0 \<le> offset then stdcarr_it_advance carr it offset else stdcarr_it_retreat carr it (- offset))"

definition stdcarr_it_cmp :: "'a stdcarr \<Rightarrow> int \<Rightarrow> int \<Rightarrow> int" where
  "stdcarr_it_cmp carr it1 it2 =
     (if ca_begin carr \<le> it1
      then if ca_begin carr \<le> it2 then it1 - it2 else (it1 - endbase carr) + (0 - it2)
      else if it2 < ca_begin carr then it1 - it2 else (endbase carr - it2) + (it1 - 0))"

definition stdcarr_it_val :: "'a stdcarr \<Rightarrow> int \<Rightarrow> 'a option" where "stdcarr_it_val carr it = base carr it"

definition stdcarr_last :: "'a stdcarr \<Rightarrow> int" where "stdcarr_last carr = stdcarr_it_prev carr (stdcarr_end carr)"

definition stdcarr_get :: "'a stdcarr \<Rightarrow> int \<Rightarrow> int" where
  "stdcarr_get carr elem_num = stdcarr_it_advance carr (stdcarr_begin carr) elem_num"

definition stdcarr_is_begin :: "'a stdcarr \<Rightarrow> int \<Rightarrow> bool" where "stdcarr_is_begin carr it \<longleftrightarrow> it = ca_begin carr"
definition stdcarr_is_end :: "'a stdcarr \<Rightarrow> int \<Rightarrow> bool" where "stdcarr_is_end carr it \<longleftrightarrow> it = ca_end carr"

definition stdcarr_rank :: "'a stdcarr \<Rightarrow> int \<Rightarrow> int" where
  "stdcarr_rank carr it = (if ca_begin carr \<le> it then it - ca_begin carr else (endbase carr - ca_begin carr) + (it - 0))"

definition stdcarr_size :: "'a stdcarr \<Rightarrow> int" where "stdcarr_size carr = ca_size carr"
definition stdcarr_empty :: "'a stdcarr \<Rightarrow> bool" where "stdcarr_empty carr \<longleftrightarrow> ca_size carr = 0"

definition stdcarr_resize :: "(int \<Rightarrow> bool) \<Rightarrow> 'a stdcarr \<Rightarrow> int \<Rightarrow> (stdcode \<times> 'a stdcarr) option" where
  "stdcarr_resize malloc carr num_elems =
     (if ca_size carr < num_elems
      then do {
        (ret, _, c) \<leftarrow> stdcarr_low_insert_shift malloc carr (ca_end carr) (num_elems - ca_size carr) num_elems True;
        Some (ret, c)
      }
      else if num_elems < ca_size carr
      then do {
        (_, c) \<leftarrow> stdcarr_low_erase_shift malloc carr (ca_end carr) (ca_size carr - num_elems) num_elems False;
        Some (STDESUCCESS, c)
      }
      else Some (STDESUCCESS, carr))"

definition stdcarr_clear :: "(int \<Rightarrow> bool) \<Rightarrow> 'a stdcarr \<Rightarrow> 'a stdcarr option" where
  "stdcarr_clear malloc carr = map_option snd (stdcarr_resize malloc carr 0)"

definition stdcarr_set_eq :: "(int \<Rightarrow> bool) \<Rightarrow> 'a stdcarr \<Rightarrow> 'a stdcarr \<Rightarrow> (stdcode \<times> 'a stdcarr) option" where
  "stdcarr_set_eq malloc dst src =
     do {
       (ret, dst1) \<leftarrow> stdcarr_resize malloc dst (ca_size src);
       if ret \<noteq> STDESUCCESS then Some (ret, dst1)
       else do {
         (e, mem) \<leftarrow> stdcarr_low_copy_to_buf (endbase dst1) (base dst1) 0 src (ca_begin src) (ca_end src);
         Some (STDESUCCESS, dst1\<lparr>base := mem, ca_begin := 0, ca_end := e\<rparr>)
       }
     }"

definition truncate_to :: "int \<Rightarrow> 'a stdcarr \<Rightarrow> 'a stdcarr" where
  "truncate_to num_elems carr =
     (if num_elems < ca_size carr
      then carr\<lparr>ca_end := stdcarr_low_forward (ca_begin carr) num_elems (endbase carr), ca_size := num_elems\<rparr> else carr)"

definition stdcarr_set_capacity :: "(int \<Rightarrow> bool) \<Rightarrow> 'a stdcarr \<Rightarrow> int \<Rightarrow> (stdcode \<times> 'a stdcarr) option" where
  "stdcarr_set_capacity malloc carr num_elems =
     (if num_elems = stdcarr_high_capacity carr then Some (STDESUCCESS, carr)
      else if num_elems = 0 then Some (STDESUCCESS, in_block fresh 0 0 carr)
      else if \<not> malloc (num_elems + 1) then Some (STDENOMEM, carr)
      else do {
        let c = truncate_to num_elems carr;
        (_, mem) \<leftarrow> stdcarr_low_copy_to_buf (num_elems + 1) fresh 0 c (ca_begin c) (ca_end c);
        Some (STDESUCCESS, in_block mem (num_elems + 1) (ca_size c) c)
      })"

definition stdcarr_reserve :: "(int \<Rightarrow> bool) \<Rightarrow> 'a stdcarr \<Rightarrow> int \<Rightarrow> (stdcode \<times> 'a stdcarr) option" where
  "stdcarr_reserve malloc carr num_elems =
     (if stdcarr_high_capacity carr < num_elems then stdcarr_set_capacity malloc carr num_elems else Some (STDESUCCESS, carr))"

definition stdcarr_shrink_fit :: "(int \<Rightarrow> bool) \<Rightarrow> 'a stdcarr \<Rightarrow> (stdcode \<times> 'a stdcarr) option" where
  "stdcarr_shrink_fit malloc carr = stdcarr_set_capacity malloc carr (ca_size carr)"

text \<open>\<open>memcpy\<close> from the values of the caller.\<close>

definition memcpy_from :: "int \<Rightarrow> 'a block \<Rightarrow> int \<Rightarrow> 'a list \<Rightarrow> 'a block option" where
  "memcpy_from lim m d vals =
     (if 0 \<le> d \<and> d + int (length vals) \<le> lim
      then Some (\<lambda>i. if d \<le> i \<and> i < d + int (length vals) then Some (vals ! nat (i - d)) else m i) else None)"

text \<open>The values go behind each other, with a second copy when the end of the block is reached.\<close>

definition copy_vals :: "int \<Rightarrow> 'a block \<Rightarrow> int \<Rightarrow> 'a list \<Rightarrow> 'a block option" where
  "copy_vals lim m it vals =
     (let diff = lim - it in
      if int (length vals) \<le> diff then memcpy_from lim m it vals
      else do {
        m1 \<leftarrow> memcpy_from lim m it (take (nat diff) vals);
        memcpy_from lim m1 0 (drop (nat diff) vals)
      })"

definition stdcarr_insert_n :: "(int \<Rightarrow> bool) \<Rightarrow> 'a stdcarr \<Rightarrow> int \<Rightarrow> 'a list \<Rightarrow> (stdcode \<times> int \<times> 'a stdcarr) option" where
  "stdcarr_insert_n malloc carr it vals =
     do {
       let delta = int (length vals);
       (ret, it1, c) \<leftarrow> stdcarr_low_insert_shift malloc carr it delta (ca_size carr + delta) (STDCARR_INS_SHIFT_RIGHT carr it);
       if ret \<noteq> STDESUCCESS then Some (ret, it1, c)
       else do {
         m \<leftarrow> copy_vals (endbase c) (base c) it1 vals;
         Some (STDESUCCESS, it1, c\<lparr>base := m\<rparr>)
       }
     }"

definition stdcarr_insert :: "(int \<Rightarrow> bool) \<Rightarrow> 'a stdcarr \<Rightarrow> int \<Rightarrow> 'a \<Rightarrow> (stdcode \<times> int \<times> 'a stdcarr) option" where
  "stdcarr_insert malloc carr it val = stdcarr_insert_n malloc carr it [val]"

primrec copy_loop :: "int \<Rightarrow> 'a list \<Rightarrow> int \<Rightarrow> 'a block \<Rightarrow> 'a block option" where
  "copy_loop lim [] dst_it m = Some m"
| "copy_loop lim (v # vs) dst_it m =
     do {
       m1 \<leftarrow> memcpy_from lim m dst_it [v];
       copy_loop lim vs (stdcarr_low_forward dst_it 1 lim) m1
     }"

text \<open>The source of the values is a sequence; \<open>stdcarr_insert_rep\<close> has one value instead.\<close>

definition stdcarr_insert_seq_n :: "(int \<Rightarrow> bool) \<Rightarrow> 'a stdcarr \<Rightarrow> int \<Rightarrow> 'a list \<Rightarrow> (stdcode \<times> int \<times> 'a stdcarr) option" where
  "stdcarr_insert_seq_n malloc carr it vals =
     do {
       let delta = int (length vals);
       (ret, it1, c) \<leftarrow> stdcarr_low_insert_shift malloc carr it delta (ca_size carr + delta) (STDCARR_INS_SHIFT_RIGHT carr it);
       if ret \<noteq> STDESUCCESS then Some (ret, it1, c)
       else do {
         m \<leftarrow> copy_loop (endbase c) vals it1 (base c);
         Some (STDESUCCESS, it1, c\<lparr>base := m\<rparr>)
       }
     }"

definition stdcarr_insert_rep :: "(int \<Rightarrow> bool) \<Rightarrow> 'a stdcarr \<Rightarrow> int \<Rightarrow> 'a \<Rightarrow> nat \<Rightarrow> (stdcode \<times> int \<times> 'a stdcarr) option" where
  "stdcarr_insert_rep malloc carr it val num_times = stdcarr_insert_seq_n malloc carr it (replicate num_times val)"

text \<open>The distance of the two iterators of the source is negative if they are in the wrong order.\<close>

definition stdcarr_insert_seq :: "(int \<Rightarrow> bool) \<Rightarrow> 'a stdcarr \<Rightarrow> int \<Rightarrow> int \<Rightarrow> 'a list \<Rightarrow> (stdcode \<times> int \<times> 'a stdcarr) option" where
  "stdcarr_insert_seq malloc carr it distance vals =
     (if distance < 0 then Some (STDEINVAL, it, carr) else stdcarr_insert_seq_n malloc carr it (take (nat distance) vals))"

definition stdcarr_push_front :: "(int \<Rightarrow> bool) \<Rightarrow> 'a stdcarr \<Rightarrow> 'a \<Rightarrow> (stdcode \<times> 'a stdcarr) option" where
  "stdcarr_push_front malloc carr val = map_option (\<lambda>(ret, _, c). (ret, c)) (stdcarr_insert malloc carr (stdcarr_begin carr) val)"

definition stdcarr_push_front_n :: "(int \<Rightarrow> bool) \<Rightarrow> 'a stdcarr \<Rightarrow> 'a list \<Rightarrow> (stdcode \<times> 'a stdcarr) option" where
  "stdcarr_push_front_n malloc carr vals = map_option (\<lambda>(ret, _, c). (ret, c)) (stdcarr_insert_n malloc carr (stdcarr_begin carr) vals)"

definition stdcarr_push_back :: "(int \<Rightarrow> bool) \<Rightarrow> 'a stdcarr \<Rightarrow> 'a \<Rightarrow> (stdcode \<times> 'a stdcarr) option" where
  "stdcarr_push_back malloc carr val = map_option (\<lambda>(ret, _, c). (ret, c)) (stdcarr_insert malloc carr (stdcarr_end carr) val)"

definition stdcarr_push_back_n :: "(int \<Rightarrow> bool) \<Rightarrow> 'a stdcarr \<Rightarrow> 'a list \<Rightarrow> (stdcode \<times> 'a stdcarr) option" where
  "stdcarr_push_back_n malloc carr vals = map_option (\<lambda>(ret, _, c). (ret, c)) (stdcarr_insert_n malloc carr (stdcarr_end carr) vals)"

definition stdcarr_pop_front_n :: "(int \<Rightarrow> bool) \<Rightarrow> 'a stdcarr \<Rightarrow> int \<Rightarrow> 'a stdcarr option" where
  "stdcarr_pop_front_n malloc carr num_pop =
     map_option snd (stdcarr_low_erase_shift malloc carr (ca_begin carr) num_pop (ca_size carr - num_pop) True)"

definition stdcarr_pop_front :: "(int \<Rightarrow> bool) \<Rightarrow> 'a stdcarr \<Rightarrow> 'a stdcarr option" where
  "stdcarr_pop_front malloc carr = stdcarr_pop_front_n malloc carr 1"

definition stdcarr_pop_back_n :: "(int \<Rightarrow> bool) \<Rightarrow> 'a stdcarr \<Rightarrow> int \<Rightarrow> 'a stdcarr option" where
  "stdcarr_pop_back_n malloc carr num_pop =
     map_option snd (stdcarr_low_erase_shift malloc carr (ca_end carr) num_pop (ca_size carr - num_pop) False)"

definition stdcarr_pop_back :: "(int \<Rightarrow> bool) \<Rightarrow> 'a stdcarr \<Rightarrow> 'a stdcarr option" where
  "stdcarr_pop_back malloc carr = stdcarr_pop_back_n malloc carr 1"

definition stdcarr_erase_n :: "(int \<Rightarrow> bool) \<Rightarrow> 'a stdcarr \<Rightarrow> int \<Rightarrow> int \<Rightarrow> (int \<times> 'a stdcarr) option" where
  "stdcarr_erase_n malloc carr it num_erase =
     (let shift_right = STDCARR_ERS_SHIFT_RIGHT carr it num_erase;
          it1 = (if shift_right then it else stdcarr_low_forward it num_erase (endbase carr))
      in stdcarr_low_erase_shift malloc carr it1 num_erase (ca_size carr - num_erase) shift_right)"

definition stdcarr_erase :: "(int \<Rightarrow> bool) \<Rightarrow> 'a stdcarr \<Rightarrow> int \<Rightarrow> (int \<times> 'a stdcarr) option" where
  "stdcarr_erase malloc carr it = stdcarr_erase_n malloc carr it 1"

definition stdcarr_erase_seq :: "(int \<Rightarrow> bool) \<Rightarrow> 'a stdcarr \<Rightarrow> int \<Rightarrow> int \<Rightarrow> (int \<times> 'a stdcarr) option" where
  "stdcarr_erase_seq malloc carr b e = stdcarr_erase_n malloc carr b (stdcarr_it_cmp carr e b)"

end
