(* ===== verification/Carr_Shift.thy ===== *)
theory Carr_Shift
  imports Std_Carr
begin

text \<open>
  What the moves of the circular array do: the invariant of an array (\<open>STDCARR_IS_LEGAL\<close>), and that the
  four ways of shifting stay inside the block, never copy between regions that overlap, and open or
  close a gap without changing anything else of the sequence of values.
\<close>

section \<open>The invariant\<close>

definition legal :: "'a stdcarr \<Rightarrow> bool" where
  "legal c \<longleftrightarrow> ca_cap c = endbase c \<and> 0 \<le> ca_size c \<and>
     (if endbase c = 0 then ca_begin c = 0 \<and> ca_end c = 0 \<and> ca_size c = 0
      else 0 \<le> ca_begin c \<and> ca_begin c < endbase c \<and> ca_size c < endbase c \<and>
           ca_end c = stdcarr_low_forward (ca_begin c) (ca_size c) (endbase c))"

text \<open>The address of the value with rank \<open>r\<close>, and the value.\<close>

abbreviation addr :: "'a stdcarr \<Rightarrow> int \<Rightarrow> int" where
  "addr c r \<equiv> stdcarr_low_forward (ca_begin c) r (endbase c)"

definition elem :: "'a stdcarr \<Rightarrow> int \<Rightarrow> 'a option" where
  "elem c i = base c (addr c i)"

lemma memmove_Some:
  "0 \<le> n \<Longrightarrow> 0 \<le> d \<Longrightarrow> d + n \<le> lim \<Longrightarrow> 0 \<le> s \<Longrightarrow> s + n \<le> lim \<Longrightarrow>
   memmove lim m d s n = Some (\<lambda>i. m (if d \<le> i \<and> i < d + n then s + (i - d) else i))"
  by (auto simp: memmove_def)

lemma memcpy_Some:
  "0 \<le> n \<Longrightarrow> 0 \<le> d \<Longrightarrow> d + n \<le> lim \<Longrightarrow> 0 \<le> s \<Longrightarrow> s + n \<le> lim \<Longrightarrow> d + n \<le> s \<or> s + n \<le> d \<Longrightarrow>
   memcpy lim m d s n = Some (\<lambda>i. m (if d \<le> i \<and> i < d + n then s + (i - d) else i))"
  by (auto simp: memcpy_def memmove_def)

lemmas moves_simps = memmove_Some memcpy_Some stdcarr_low_forward_def stdcarr_low_backward_def

section \<open>Opening and closing a gap\<close>

text \<open>A move is given by the address \<open>g a\<close> from which the value at \<open>a\<close> comes. The \<open>s\<close> values begin at \<open>b\<close>
  before and at \<open>b'\<close> after the move, which opens a gap of \<open>delta\<close> before rank \<open>r\<close>, or closes the one at \<open>r\<close>.\<close>

definition gap_opened :: "int \<Rightarrow> int \<Rightarrow> int \<Rightarrow> int \<Rightarrow> int \<Rightarrow> int \<Rightarrow> (int \<Rightarrow> int) \<Rightarrow> bool" where
  "gap_opened lim b b' s r delta g \<longleftrightarrow>
     (\<forall>i. 0 \<le> i \<longrightarrow> i < r \<longrightarrow> g (stdcarr_low_forward b' i lim) = stdcarr_low_forward b i lim) \<and>
     (\<forall>i. r \<le> i \<longrightarrow> i < s \<longrightarrow> g (stdcarr_low_forward b' (i + delta) lim) = stdcarr_low_forward b i lim)"

definition gap_closed :: "int \<Rightarrow> int \<Rightarrow> int \<Rightarrow> int \<Rightarrow> int \<Rightarrow> int \<Rightarrow> (int \<Rightarrow> int) \<Rightarrow> bool" where
  "gap_closed lim b b' s r delta g \<longleftrightarrow>
     (\<forall>i. 0 \<le> i \<longrightarrow> i < r \<longrightarrow> g (stdcarr_low_forward b' i lim) = stdcarr_low_forward b i lim) \<and>
     (\<forall>i. r \<le> i \<longrightarrow> i < s - delta \<longrightarrow> g (stdcarr_low_forward b' i lim) = stdcarr_low_forward b (i + delta) lim)"

lemma insert_right_moves_ok:
  assumes "legal c" "0 \<le> r" "0 < delta" "r \<le> ca_size c" "ca_size c + delta < endbase c"
  shows "\<exists>g. insert_right_moves c (addr c r) delta = Some (\<lambda>i. base c (g i)) \<and>
    gap_opened (endbase c) (ca_begin c) (ca_begin c) (ca_size c) r delta g"
proof -
  define b lim s where "b = ca_begin c" and "lim = endbase c" and "s = ca_size c"
  note fold = b_def [symmetric] lim_def [symmetric] s_def [symmetric]
  have *: "ca_end c = stdcarr_low_forward b s lim" "0 \<le> b" "b < lim" "0 \<le> s" "s < lim" "0 \<le> r" "0 < delta" "r \<le> s" "s + delta < lim"
    using assms by (auto simp: legal_def fold split: if_splits)
  consider (A1) "b + s + delta \<le> lim"
    | (A2) "b + s < lim" "lim < b + s + delta" "s - r \<le> b + s + delta - lim"
    | (A3) "b + s < lim" "lim < b + s + delta" "b + s + delta - lim < s - r"
    | (B1) "lim \<le> b + s" "lim \<le> b + r"
    | (B2) "lim \<le> b + s" "b + r < lim" "lim - (b + r) \<le> delta"
    | (B3) "lim \<le> b + s" "b + r < lim" "delta < lim - (b + r)"
    using * by linarith
  then show ?thesis
    unfolding fold insert_right_moves_def Let_def
    by cases ((insert *)[1], simp add: moves_simps, rule exI, rule conjI, rule refl, simp add: gap_opened_def gap_closed_def moves_simps)+
qed

lemma insert_left_moves_ok:
  assumes "legal c" "0 \<le> r" "0 < delta" "r \<le> ca_size c" "ca_size c + delta < endbase c"
  shows "\<exists>g. insert_left_moves c (addr c r) delta = Some (\<lambda>i. base c (g i)) \<and>
    gap_opened (endbase c) (ca_begin c) (stdcarr_low_backward (ca_begin c) delta (endbase c)) (ca_size c) r delta g"
proof -
  define b lim s where "b = ca_begin c" and "lim = endbase c" and "s = ca_size c"
  note fold = b_def [symmetric] lim_def [symmetric] s_def [symmetric]
  have *: "ca_end c = stdcarr_low_forward b s lim" "0 \<le> b" "b < lim" "0 \<le> s" "s < lim" "0 \<le> r" "0 < delta" "r \<le> s" "s + delta < lim"
    using assms by (auto simp: legal_def fold split: if_splits)
  consider (A1) "b + s < lim" "delta \<le> b"
    | (A2) "b + s < lim" "b < delta" "r \<le> delta - b"
    | (A3) "b + s < lim" "b < delta" "delta - b < r"
    | (B1) "lim \<le> b + s" "b + r < lim"
    | (B2) "lim \<le> b + s" "lim \<le> b + r" "b + r - lim \<le> delta"
    | (B3) "lim \<le> b + s" "lim \<le> b + r" "delta < b + r - lim"
    using * by linarith
  then show ?thesis
    unfolding fold insert_left_moves_def Let_def
    by cases ((insert *)[1], simp add: moves_simps, rule exI, rule conjI, rule refl, simp add: gap_opened_def gap_closed_def moves_simps)+
qed

lemma erase_left_moves_ok:
  assumes "legal c" "0 \<le> r" "0 < delta" "r + delta \<le> ca_size c"
  shows "\<exists>g. erase_left_moves c (addr c (r + delta)) delta = Some (\<lambda>i. base c (g i)) \<and>
    gap_closed (endbase c) (ca_begin c) (ca_begin c) (ca_size c) r delta g"
proof -
  define b lim s where "b = ca_begin c" and "lim = endbase c" and "s = ca_size c"
  note fold = b_def [symmetric] lim_def [symmetric] s_def [symmetric]
  have *: "ca_end c = stdcarr_low_forward b s lim" "0 \<le> b" "b < lim" "0 \<le> s" "s < lim" "0 \<le> r" "0 < delta" "r + delta \<le> s"
    using assms by (auto simp: legal_def fold split: if_splits)
  consider (A1) "b + s < lim"
    | (A2) "lim \<le> b + s" "lim \<le> b + r"
    | (A3) "lim \<le> b + s" "b + r < lim" "lim \<le> b + r + delta" "s - r - delta \<le> lim - (b + r)"
    | (A4) "lim \<le> b + s" "b + r < lim" "lim \<le> b + r + delta" "lim - (b + r) < s - r - delta"
    | (B2) "lim \<le> b + s" "b + r + delta < lim" "b + s - lim \<le> delta"
    | (B3) "lim \<le> b + s" "b + r + delta < lim" "delta < b + s - lim"
    using * by linarith
  then show ?thesis
    unfolding fold erase_left_moves_def Let_def
    by cases ((insert *)[1], simp add: moves_simps, rule exI, rule conjI, rule refl, simp add: gap_opened_def gap_closed_def moves_simps)+
qed

lemma erase_right_moves_ok:
  assumes "legal c" "0 \<le> r" "0 < delta" "r + delta \<le> ca_size c"
  shows "\<exists>g. erase_right_moves c (addr c r) delta = Some (\<lambda>i. base c (g i)) \<and>
    gap_closed (endbase c) (ca_begin c) (stdcarr_low_forward (ca_begin c) delta (endbase c)) (ca_size c) r delta g"
proof -
  define b lim s where "b = ca_begin c" and "lim = endbase c" and "s = ca_size c"
  note fold = b_def [symmetric] lim_def [symmetric] s_def [symmetric]
  have *: "ca_end c = stdcarr_low_forward b s lim" "0 \<le> b" "b < lim" "0 \<le> s" "s < lim" "0 \<le> r" "0 < delta" "r + delta \<le> s"
    using assms by (auto simp: legal_def fold split: if_splits)
  consider (A0) "b + r + delta \<le> lim" "b + delta < lim"
    | (A1) "b + delta = lim" "r = 0"
    | (A2) "b + r < lim" "lim < b + r + delta" "r \<le> b + r + delta - lim"
    | (A3) "b + r < lim" "lim < b + r + delta" "b + r + delta - lim < r"
    | (B2) "lim \<le> b + r" "lim - b \<le> delta"
    | (B3) "lim \<le> b + r" "delta < lim - b"
    using * by linarith
  then show ?thesis
    unfolding fold erase_right_moves_def Let_def
    by cases ((insert *)[1], simp add: moves_simps, rule exI, rule conjI, rule refl, simp add: gap_opened_def gap_closed_def moves_simps)+
qed

end
