(* ===== verification/Carr_Refine.thy ===== *)
theory Carr_Refine
  imports Carr_Shift
begin

text \<open>
  The circular array is a sequence: every operation of \<open>Std_Carr\<close> keeps the invariant, has a defined
  result, and does to the sequence of values what it does to a list.
\<close>

section \<open>Gaps in an array\<close>

definition made_room :: "'a stdcarr \<Rightarrow> int \<Rightarrow> int \<Rightarrow> int \<Rightarrow> 'a stdcarr \<Rightarrow> bool" where
  "made_room c r n it c' \<longleftrightarrow> legal c' \<and> ca_size c' = ca_size c + n \<and> it = addr c' r \<and>
     (\<forall>i. 0 \<le> i \<longrightarrow> i < r \<longrightarrow> elem c' i = elem c i) \<and> (\<forall>i. r \<le> i \<longrightarrow> i < ca_size c \<longrightarrow> elem c' (i + n) = elem c i)"

definition erased :: "'a stdcarr \<Rightarrow> int \<Rightarrow> int \<Rightarrow> 'a stdcarr \<Rightarrow> bool" where
  "erased c r n c' \<longleftrightarrow> legal c' \<and> ca_size c' = ca_size c - n \<and>
     (\<forall>i. 0 \<le> i \<longrightarrow> i < r \<longrightarrow> elem c' i = elem c i) \<and> (\<forall>i. r \<le> i \<longrightarrow> i < ca_size c - n \<longrightarrow> elem c' i = elem c (i + n))"

lemma legalD:
  assumes "legal c"
  shows "0 \<le> ca_size c" "ca_cap c = endbase c" "ca_end c = addr c (ca_size c)" "ca_begin c = addr c 0"
    "0 \<le> endbase c" "0 \<le> ca_begin c" "endbase c \<noteq> 0 \<Longrightarrow> ca_begin c < endbase c \<and> ca_size c < endbase c" "endbase c = 0 \<Longrightarrow> ca_size c = 0 \<and> ca_begin c = 0"
  using assms by (auto simp: legal_def stdcarr_low_forward_def split: if_splits)

lemma insert_shift_in_place:
  assumes "legal c" "0 \<le> r" "r \<le> ca_size c" "0 < n" "ca_size c + n < endbase c"
  shows "\<exists>c'. stdcarr_low_insert_shift_right c (addr c r) n (ca_size c + n) = Some c' \<and> made_room c r n (addr c r) c'"
    and "\<exists>c'. stdcarr_low_insert_shift_left c (addr c r) n (ca_size c + n) = Some c' \<and>
           made_room c r n (stdcarr_low_backward (addr c r) n (endbase c)) c'"
proof -
  note L = legalD [OF assms(1)]
  obtain g where g: "insert_right_moves c (addr c r) n = Some (\<lambda>i. base c (g i))"
    "gap_opened (endbase c) (ca_begin c) (ca_begin c) (ca_size c) r n g"
    using insert_right_moves_ok [OF assms(1,2,4,3,5)] by blast
  have "legal (c\<lparr>base := \<lambda>i. base c (g i), ca_size := ca_size c + n, ca_end := stdcarr_low_forward (ca_end c) n (endbase c)\<rparr>)"
    using assms L by (auto simp: legal_def stdcarr_low_forward_def)
  then show "\<exists>c'. stdcarr_low_insert_shift_right c (addr c r) n (ca_size c + n) = Some c' \<and> made_room c r n (addr c r) c'"
    using g by (simp add: stdcarr_low_insert_shift_right_def made_room_def gap_opened_def elem_def)
  obtain g where g: "insert_left_moves c (addr c r) n = Some (\<lambda>i. base c (g i))"
    "gap_opened (endbase c) (ca_begin c) (stdcarr_low_backward (ca_begin c) n (endbase c)) (ca_size c) r n g"
    using insert_left_moves_ok [OF assms(1,2,4,3,5)] by blast
  have "legal (c\<lparr>base := \<lambda>i. base c (g i), ca_size := ca_size c + n, ca_begin := stdcarr_low_backward (ca_begin c) n (endbase c)\<rparr>)"
    using assms L by (auto simp: legal_def stdcarr_low_forward_def stdcarr_low_backward_def)
  moreover have "stdcarr_low_backward (addr c r) n (endbase c) = stdcarr_low_forward (stdcarr_low_backward (ca_begin c) n (endbase c)) r (endbase c)"
    using assms L by (auto simp: stdcarr_low_forward_def stdcarr_low_backward_def)
  ultimately show "\<exists>c'. stdcarr_low_insert_shift_left c (addr c r) n (ca_size c + n) = Some c' \<and>
           made_room c r n (stdcarr_low_backward (addr c r) n (endbase c)) c'"
    using g by (simp add: stdcarr_low_insert_shift_left_def made_room_def gap_opened_def elem_def)
qed

lemma erase_shift_in_place:
  assumes "legal c" "0 \<le> r" "0 < n" "r + n \<le> ca_size c"
  shows "\<exists>c'. stdcarr_low_erase_shift_right c (addr c r) n (ca_size c - n) = Some c' \<and> erased c r n c' \<and>
           stdcarr_low_forward (addr c r) n (endbase c) = addr c' r"
    and "\<exists>c'. stdcarr_low_erase_shift_left c (addr c (r + n)) n (ca_size c - n) = Some c' \<and> erased c r n c' \<and> addr c (r + n) = addr c' (r + n)"
proof -
  note L = legalD(1-6) [OF assms(1)]
  have nonempty: "endbase c \<noteq> 0" "ca_begin c < endbase c" "ca_size c < endbase c" using assms legalD(7,8) [OF assms(1)] by force+
  obtain g where g: "erase_right_moves c (addr c r) n = Some (\<lambda>i. base c (g i))"
    "gap_closed (endbase c) (ca_begin c) (addr c n) (ca_size c) r n g"
    using erase_right_moves_ok [OF assms] by blast
  have "legal (c\<lparr>base := \<lambda>i. base c (g i), ca_size := ca_size c - n, ca_begin := addr c n\<rparr>)"
    using assms L nonempty by (auto simp: legal_def stdcarr_low_forward_def)
  moreover have "stdcarr_low_forward (addr c r) n (endbase c) = stdcarr_low_forward (addr c n) r (endbase c)"
    using assms L nonempty by (auto simp: stdcarr_low_forward_def)
  ultimately show "\<exists>c'. stdcarr_low_erase_shift_right c (addr c r) n (ca_size c - n) = Some c' \<and> erased c r n c' \<and>
           stdcarr_low_forward (addr c r) n (endbase c) = addr c' r"
    using g by (simp add: stdcarr_low_erase_shift_right_def erased_def gap_closed_def elem_def)
  obtain g where g: "erase_left_moves c (addr c (r + n)) n = Some (\<lambda>i. base c (g i))"
    "gap_closed (endbase c) (ca_begin c) (ca_begin c) (ca_size c) r n g"
    using erase_left_moves_ok [OF assms] by blast
  have "legal (c\<lparr>base := \<lambda>i. base c (g i), ca_size := ca_size c - n, ca_end := stdcarr_low_backward (ca_end c) n (endbase c)\<rparr>)"
    using assms L nonempty by (auto simp: legal_def stdcarr_low_forward_def stdcarr_low_backward_def)
  then show "\<exists>c'. stdcarr_low_erase_shift_left c (addr c (r + n)) n (ca_size c - n) = Some c' \<and> erased c r n c' \<and> addr c (r + n) = addr c' (r + n)"
    using g by (simp add: stdcarr_low_erase_shift_left_def erased_def gap_closed_def elem_def)
qed

section \<open>Copies into another block\<close>

lemma copy_to_buf_ok:
  assumes "legal c" "0 \<le> p" "p \<le> q" "q \<le> ca_size c" "0 \<le> d" "d + (q - p) \<le> dlim"
  shows "stdcarr_low_copy_to_buf dlim dst d c (addr c p) (addr c q) =
    Some (d + (q - p), \<lambda>i. if d \<le> i \<and> i < d + (q - p) then elem c (p + (i - d)) else dst i)"
proof -
  define b lim where "b = ca_begin c" and "lim = endbase c"
  note fold = b_def [symmetric] lim_def [symmetric]
  have *: "0 \<le> b" "b \<le> lim" "ca_size c \<le> lim" "b = lim \<Longrightarrow> lim = 0" "ca_size c = lim \<Longrightarrow> lim = 0"
    using legalD [OF assms(1)] unfolding fold by force+
  consider (low) "b + q < lim" | (wrap) "b + p < lim" "lim \<le> b + q" | (high) "lim \<le> b + p" using assms(3) by linarith
  then show ?thesis
    unfolding stdcarr_low_copy_to_buf_def elem_def fold Let_def
    by cases ((insert * assms)[1], force simp: memcpy_to_def stdcarr_low_forward_def fun_eq_iff algebra_simps)+
qed

lemma in_block_legal: "0 \<le> n \<Longrightarrow> n < lim \<Longrightarrow> legal (in_block mem lim n c)"
  by (simp add: legal_def in_block_def stdcarr_low_forward_def)

lemma elem_in_block: "i < lim \<Longrightarrow> elem (in_block mem lim n c) i = mem i"
  by (simp add: elem_def in_block_def stdcarr_low_forward_def)

text \<open>Two parts of an array, one behind the other with a gap between them, in a new block.\<close>

lemma copy_two_parts:
  assumes "legal c" "0 \<le> p" "p \<le> q" "q \<le> ca_size c" "0 \<le> d" "p + d + (ca_size c - q) \<le> lim"
  shows "\<exists>mem. (do {
        (it1, mem1) \<leftarrow> stdcarr_low_copy_to_buf lim fresh 0 c (ca_begin c) (addr c p);
        (_, mem2) \<leftarrow> stdcarr_low_copy_to_buf lim mem1 (it1 + d) c (addr c q) (ca_end c);
        f it1 mem2
      }) = f p mem \<and>
    (\<forall>i. 0 \<le> i \<longrightarrow> i < p \<longrightarrow> mem i = elem c i) \<and> (\<forall>i. q \<le> i \<longrightarrow> i < ca_size c \<longrightarrow> mem (p + d + (i - q)) = elem c i)"
proof -
  have "stdcarr_low_copy_to_buf lim fresh 0 c (ca_begin c) (addr c p) = Some (p, \<lambda>i. if 0 \<le> i \<and> i < p then elem c i else fresh i)"
    using copy_to_buf_ok [of c 0 p 0 lim fresh] legalD(4) [OF assms(1)] assms by (simp cong: if_cong)
  moreover have "stdcarr_low_copy_to_buf lim m (p + d) c (addr c q) (ca_end c) =
      Some (p + d + (ca_size c - q), \<lambda>i. if p + d \<le> i \<and> i < p + d + (ca_size c - q) then elem c (q + (i - (p + d))) else m i)" for m
    using copy_to_buf_ok [of c q "ca_size c" "p + d" lim m] legalD(3) [OF assms(1)] assms by simp
  ultimately show ?thesis using assms by simp (rule exI, rule conjI, rule refl, simp)
qed

section \<open>Making room and erasing\<close>

theorem insert_shift_ok:
  assumes "legal c" "0 \<le> r" "r \<le> ca_size c" "0 \<le> n"
  shows "\<exists>ret it c'. stdcarr_low_insert_shift malloc c (addr c r) n (ca_size c + n) right = Some (ret, it, c') \<and>
    (if ret = STDESUCCESS then made_room c r n it c'
     else it = addr c r \<and> c' = c \<and> 0 < n \<and> stdcarr_high_capacity c < ca_size c + n \<and>
       (if ca_no_grow c then ret = STDEACCES else ret = STDENOMEM \<and> \<not> malloc (max (2 * (ca_size c + n)) STDCARR_MIN_AUTO_ALLOC)))"
proof -
  note L = legalD [OF assms(1)]
  let ?s = "ca_size c + n" let ?cap = "max (2 * ?s) STDCARR_MIN_AUTO_ALLOC"
  have sum: "0 \<le> ?s" "?s < ?cap" "0 < ?cap" using L(1) assms(4) by (auto simp: STDCARR_MIN_AUTO_ALLOC_def)
  consider (none) "n = 0" | (fits) "0 < n" "?s \<le> stdcarr_high_capacity c" | (full) "0 < n" "stdcarr_high_capacity c < ?s" "ca_no_grow c \<or> \<not> malloc ?cap"
    | (new) "0 < n" "stdcarr_high_capacity c < ?s" "\<not> ca_no_grow c" "malloc ?cap" "endbase c = 0"
    | (copy) "0 < n" "stdcarr_high_capacity c < ?s" "\<not> ca_no_grow c" "malloc ?cap" "endbase c \<noteq> 0"
    using assms(4) by linarith
  then show ?thesis
  proof cases
    case none
    then show ?thesis using assms by (simp add: stdcarr_low_insert_shift_def made_room_def)
  next
    case fits
    then have "?s < endbase c" using L(1,2) by (auto simp: stdcarr_high_capacity_def split: if_splits)
    then show ?thesis using fits insert_shift_in_place [OF assms(1-3) fits(1)]
      by (cases right) (auto simp: stdcarr_low_insert_shift_def)
  next
    case full
    then show ?thesis by (cases "ca_no_grow c") (simp_all add: stdcarr_low_insert_shift_def)
  next
    case new
    then have "r = 0" "ca_size c = 0" using L(8) assms by auto
    then show ?thesis using new in_block_legal [of n ?cap fresh c] sum assms
      by (simp add: stdcarr_low_insert_shift_def made_room_def) (simp add: in_block_def stdcarr_low_forward_def)
  next
    case copy
    let ?f = "\<lambda>it1 mem2. Some (STDESUCCESS, it1, in_block mem2 ?cap ?s c)"
    obtain mem where mem: "stdcarr_low_insert_shift malloc c (addr c r) n ?s right = Some (STDESUCCESS, r, in_block mem ?cap ?s c)"
      "\<forall>i. 0 \<le> i \<longrightarrow> i < r \<longrightarrow> mem i = elem c i" "\<forall>i. r \<le> i \<longrightarrow> i < ca_size c \<longrightarrow> mem (r + n + (i - r)) = elem c i"
      using copy_two_parts [of c r r n ?cap ?f] copy assms sum unfolding stdcarr_low_insert_shift_def Let_def by auto
    then have "made_room c r n r (in_block mem ?cap ?s c)"
      using in_block_legal [OF sum(1,2)] sum assms
      by (simp add: made_room_def elem_in_block) (simp add: in_block_def stdcarr_low_forward_def add.commute)
    then show ?thesis using mem(1) by auto
  qed
qed

theorem erase_shift_ok:
  assumes "legal c" "0 \<le> r" "0 \<le> n" "r + n \<le> ca_size c"
  shows "\<exists>it c'. stdcarr_low_erase_shift malloc c (if right then addr c r else addr c (r + n)) n (ca_size c - n) right = Some (it, c') \<and> erased c r n c' \<and>
    (it = addr c' r \<or> \<not> right \<and> it = addr c' (r + n))"
proof -
  note L = legalD [OF assms(1)]
  let ?s = "ca_size c - n" let ?cap = "max (2 * ?s) STDCARR_MIN_AUTO_ALLOC"
  have sum: "0 \<le> ?s" "?s < ?cap" "0 < ?cap" using assms by (auto simp: STDCARR_MIN_AUTO_ALLOC_def)
  consider (none) "n = 0" | (stay) "0 < n" "ca_no_shrink c \<or> stdcarr_low_capacity c < ?s \<or> ca_cap c = STDCARR_MIN_AUTO_ALLOC \<or> \<not> malloc ?cap"
    | (copy) "0 < n" "\<not> (ca_no_shrink c \<or> stdcarr_low_capacity c < ?s \<or> ca_cap c = STDCARR_MIN_AUTO_ALLOC \<or> \<not> malloc ?cap)"
    using assms(3) by linarith
  then show ?thesis
  proof cases
    case none
    then show ?thesis using assms by (simp add: stdcarr_low_erase_shift_def erased_def)
  next
    case stay
    then show ?thesis using erase_shift_in_place [OF assms(1,2) stay(1) assms(4)]
      by (cases right) (auto simp: stdcarr_low_erase_shift_def erase_in_place_def)
  next
    case copy
    let ?f = "\<lambda>it1 mem2. Some (it1, in_block mem2 ?cap ?s c)"
    have "endbase c \<noteq> 0" using L(8) copy assms by auto
    then have fwd: "stdcarr_low_forward (addr c r) n (endbase c) = addr c (r + n)" "stdcarr_low_backward (addr c (r + n)) n (endbase c) = addr c r"
      using L(1-7) assms copy(1) by (auto simp: stdcarr_low_forward_def stdcarr_low_backward_def)
    obtain mem where mem: "stdcarr_low_erase_shift malloc c (if right then addr c r else addr c (r + n)) n ?s right = Some (r, in_block mem ?cap ?s c)"
      "\<forall>i. 0 \<le> i \<longrightarrow> i < r \<longrightarrow> mem i = elem c i" "\<forall>i. r + n \<le> i \<longrightarrow> i < ca_size c \<longrightarrow> mem (r + (i - (r + n))) = elem c i"
      using copy_two_parts [of c r "r + n" 0 ?cap ?f] copy assms sum fwd unfolding stdcarr_low_erase_shift_def Let_def by auto
    have "mem i = elem c (i + n)" if "r \<le> i" "i < ?s" for i using mem(3) [rule_format, of "i + n"] that by simp
    then have "erased c r n (in_block mem ?cap ?s c)"
      using in_block_legal [OF sum(1,2)] sum assms mem(2)
      by (simp add: erased_def elem_in_block) (simp add: in_block_def)
    moreover have "r = addr (in_block mem ?cap ?s c) r" using sum assms by (simp add: in_block_def stdcarr_low_forward_def)
    ultimately show ?thesis using mem(1) by blast
  qed
qed

section \<open>The sequence of values\<close>

definition contents :: "'a stdcarr \<Rightarrow> 'a option list" where
  "contents c = map (\<lambda>i. elem c (int i)) [0..<nat (ca_size c)]"

lemma length_contents [simp]: "length (contents c) = nat (ca_size c)"
  by (simp add: contents_def)

lemma nth_contents: "i < nat (ca_size c) \<Longrightarrow> contents c ! i = elem c (int i)"
  by (simp add: contents_def)

lemma rank_addr:
  assumes "legal c" "0 \<le> r" "r \<le> ca_size c"
  shows "stdcarr_rank c (addr c r) = r"
  using legalD [OF assms(1)] assms(2,3) by (cases "endbase c = 0") (auto simp: stdcarr_rank_def stdcarr_low_forward_def)

lemma erased_contents:
  assumes "erased c r n c'" "0 \<le> r" "0 \<le> n" "r + n \<le> ca_size c"
  shows "contents c' = take (nat r) (contents c) @ drop (nat (r + n)) (contents c)"
proof (rule nth_equalityI)
  have size: "ca_size c' = ca_size c - n" using assms by (simp add: erased_def)
  show "length (contents c') = length (take (nat r) (contents c) @ drop (nat (r + n)) (contents c))" using assms size by simp
  fix i assume "i < length (contents c')"
  then have i: "int i < ca_size c - n" using size by simp
  have keep: "elem c' (int i) = elem c (int i)" if "int i < r" using assms that by (simp add: erased_def)
  have move: "elem c' (int i) = elem c (int i + n)" if "r \<le> int i" using assms i that by (simp add: erased_def)
  show "contents c' ! i = (take (nat r) (contents c) @ drop (nat (r + n)) (contents c)) ! i"
  proof (cases "int i < r")
    case True
    then have "i < nat r" by simp
    then show ?thesis using True i assms size keep by (simp add: nth_append nth_contents)
  next
    case False
    then have "nat (r + n) + (i - nat r) = nat (int i + n)" "\<not> i < nat r" using assms by linarith+
    then show ?thesis using False i assms size move by (simp add: nth_append nth_contents)
  qed
qed

text \<open>The gap is filled: the values are written at the ranks from \<open>r\<close> on.\<close>

lemma filled_contents:
  assumes "made_room c r (int (length vals)) it c'" "0 \<le> r" "r \<le> ca_size c" "legal c"
    and m: "\<And>i. 0 \<le> i \<Longrightarrow> i < ca_size c' \<Longrightarrow>
      m (addr c' i) = (if r \<le> i \<and> i < r + int (length vals) then Some (vals ! nat (i - r)) else elem c' i)"
  shows "contents (c'\<lparr>base := m\<rparr>) = take (nat r) (contents c) @ map Some vals @ drop (nat r) (contents c)"
proof (rule nth_equalityI)
  let ?n = "int (length vals)"
  have size: "ca_size c' = ca_size c + ?n" using assms by (simp add: made_room_def)
  have pos: "0 \<le> ca_size c" by (rule legalD(1) [OF assms(4)])
  show "length (contents (c'\<lparr>base := m\<rparr>)) = length (take (nat r) (contents c) @ map Some vals @ drop (nat r) (contents c))"
    using assms(2,3) size pos by simp
  fix i assume "i < length (contents (c'\<lparr>base := m\<rparr>))"
  then have i: "int i < ca_size c + ?n" using size by simp
  have e: "contents (c'\<lparr>base := m\<rparr>) ! i = m (addr c' (int i))" using i size by (simp add: nth_contents elem_def)
  consider (before) "int i < r" | (new) "r \<le> int i" "int i < r + ?n" | (behind) "r + ?n \<le> int i" by linarith
  then show "contents (c'\<lparr>base := m\<rparr>) ! i = (take (nat r) (contents c) @ map Some vals @ drop (nat r) (contents c)) ! i"
  proof cases
    case before
    then have "elem c' (int i) = elem c (int i)" using assms(1) by (simp add: made_room_def)
    moreover have "i < nat r" using before by simp
    ultimately show ?thesis using before i e m [of "int i"] size assms(2,3) by (simp add: nth_append nth_contents)
  next
    case new
    then have "nat r \<le> i" "i - nat r < length vals" "nat (int i - r) = i - nat r" using assms(2) by linarith+
    then show ?thesis using new i e m [of "int i"] size assms(2,3) by (simp add: nth_append)
  next
    case behind
    have "\<forall>j. r \<le> j \<longrightarrow> j < ca_size c \<longrightarrow> elem c' (j + ?n) = elem c j" using assms(1) by (simp add: made_room_def)
    from this [rule_format, of "int i - ?n"] behind i have "elem c' (int i) = elem c (int i - ?n)" by simp
    moreover have "nat r \<le> i" "\<not> i - nat r < length vals" "nat r + (i - nat r - length vals) = nat (int i - ?n)" "int i - ?n < ca_size c"
      using behind assms(2) i by linarith+
    ultimately show ?thesis using behind i e m [of "int i"] size assms(2,3) by (simp add: nth_append nth_contents)
  qed
qed

lemma legal_base [simp]: "legal (c\<lparr>base := m\<rparr>) = legal c"
  by (simp add: legal_def)

text \<open>Writing the values: all at once in two pieces, or one after the other.\<close>

definition written :: "'a stdcarr \<Rightarrow> int \<Rightarrow> 'a list \<Rightarrow> 'a block \<Rightarrow> bool" where
  "written c r vals m \<longleftrightarrow>
     (\<forall>i. 0 \<le> i \<longrightarrow> i < ca_size c \<longrightarrow> m (addr c i) = (if r \<le> i \<and> i < r + int (length vals) then Some (vals ! nat (i - r)) else elem c i))"

lemma addr_inj: "legal c \<Longrightarrow> 0 \<le> i \<Longrightarrow> i < ca_size c \<Longrightarrow> 0 \<le> j \<Longrightarrow> j < ca_size c \<Longrightarrow> addr c i = addr c j \<longleftrightarrow> i = j"
  using legalD [of c] by (cases "endbase c = 0") (auto simp: stdcarr_low_forward_def split: if_splits)

lemma copy_vals_written:
  assumes "legal c" "0 \<le> r" "r + int (length vals) \<le> ca_size c"
  shows "\<exists>m. copy_vals (endbase c) (base c) (addr c r) vals = Some m \<and> written c r vals m"
proof -
  note L = legalD [OF assms(1)]
  consider (none) "endbase c = 0" | (one) "endbase c \<noteq> 0" "int (length vals) \<le> endbase c - addr c r"
    | (two) "endbase c \<noteq> 0" "endbase c - addr c r < int (length vals)" by linarith
  then show ?thesis
  proof cases
    case none
    then show ?thesis using L assms by (auto simp: copy_vals_def memcpy_from_def written_def stdcarr_low_forward_def)
  next
    case one
    have "0 \<le> addr c r" using L one assms by (auto simp: stdcarr_low_forward_def)
    moreover have "written c r vals (\<lambda>i. if addr c r \<le> i \<and> i < addr c r + int (length vals) then Some (vals ! nat (i - addr c r)) else base c i)"
      using L one assms unfolding written_def elem_def by (auto simp: stdcarr_low_forward_def split: if_splits)
    ultimately show ?thesis using one by (simp add: copy_vals_def memcpy_from_def)
  next
    case two
    define k where "k = nat (endbase c - addr c r)"
    have wrap: "addr c r = ca_begin c + r" "ca_begin c + r < endbase c" using L two assms by (auto simp: stdcarr_low_forward_def split: if_splits)
    then have k: "int k = endbase c - (ca_begin c + r)" "k < length vals" using two k_def by auto
    let ?m1 = "\<lambda>i. if ca_begin c + r \<le> i \<and> i < ca_begin c + r + int k then Some (take k vals ! nat (i - (ca_begin c + r))) else base c i"
    let ?m2 = "\<lambda>i. if 0 \<le> i \<and> i < int (length vals - k) then Some (drop k vals ! nat i) else ?m1 i"
    have "memcpy_from (endbase c) (base c) (addr c r) (take k vals) = Some ?m1"
      using L wrap k assms by (simp add: memcpy_from_def min_def)
    moreover have "memcpy_from (endbase c) ?m1 0 (drop k vals) = Some ?m2"
      using L(7) two k assms by (auto simp: memcpy_from_def)
    moreover have "written c r vals ?m2"
      unfolding written_def
    proof (intro allI impI)
      fix i assume i: "0 \<le> i" "i < ca_size c"
      consider (a) "i < r" | (b) "r \<le> i" "i < r + int k" | (c) "r + int k \<le> i" "i < r + int (length vals)" | (d) "r + int (length vals) \<le> i" by linarith
      then show "?m2 (addr c i) = (if r \<le> i \<and> i < r + int (length vals) then Some (vals ! nat (i - r)) else elem c i)"
      proof cases
        case c
        then have "k + nat (i - r - int k) = nat (i - r)" "addr c i = i - r - int k" using k wrap by (auto simp: stdcarr_low_forward_def)
        then show ?thesis using c i k wrap L assms by simp
      next
        case b
        then have "addr c i = ca_begin c + i" using k wrap i by (simp add: stdcarr_low_forward_def)
        then show ?thesis using b i k wrap L assms by simp
      qed (use L(5,6) L(7) [OF two(1)] k wrap i assms in \<open>auto simp: stdcarr_low_forward_def elem_def\<close>)
    qed
    ultimately show ?thesis using two(2) by (simp add: copy_vals_def k_def)
  qed
qed

end
