(* ===== verification/Carr_Ops.thy ===== *)
theory Carr_Ops
  imports Carr_Refine
begin

text \<open>
  What every operation of a circular array does to the sequence of its values.
\<close>

section \<open>Insertion\<close>

text \<open>When an insertion fails, the array is as it was: it may not grow, or there is no memory.\<close>

definition no_room :: "(int \<Rightarrow> bool) \<Rightarrow> 'a stdcarr \<Rightarrow> int \<Rightarrow> stdcode \<Rightarrow> bool" where
  "no_room malloc c n ret \<longleftrightarrow> 0 < n \<and> stdcarr_high_capacity c < ca_size c + n \<and>
     (if ca_no_grow c then ret = STDEACCES else ret = STDENOMEM \<and> \<not> malloc (max (2 * (ca_size c + n)) STDCARR_MIN_AUTO_ALLOC))"

definition inserted :: "(int \<Rightarrow> bool) \<Rightarrow> 'a stdcarr \<Rightarrow> int \<Rightarrow> 'a list \<Rightarrow> (stdcode \<times> int \<times> 'a stdcarr) option \<Rightarrow> bool" where
  "inserted malloc c r vals res \<longleftrightarrow> (\<exists>ret it c'. res = Some (ret, it, c') \<and>
     (if ret = STDESUCCESS
      then legal c' \<and> it = addr c' r \<and> contents c' = take (nat r) (contents c) @ map Some vals @ drop (nat r) (contents c)
      else c' = c \<and> no_room malloc c (int (length vals)) ret))"

lemma copy_loop_written:
  assumes "legal c" "0 \<le> r" "r + int (length vals) \<le> ca_size c"
    and "\<forall>i. 0 \<le> i \<longrightarrow> i < ca_size c \<longrightarrow> m (addr c i) = e i"
  shows "\<exists>m'. copy_loop (endbase c) vals (addr c r) m = Some m' \<and>
    (\<forall>i. 0 \<le> i \<longrightarrow> i < ca_size c \<longrightarrow> m' (addr c i) = (if r \<le> i \<and> i < r + int (length vals) then Some (vals ! nat (i - r)) else e i))"
  using assms
proof (induction vals arbitrary: r m e)
  case Nil
  then show ?case by auto
next
  case (Cons v vals)
  note L = legalD [OF Cons.prems(1)]
  have r: "r < ca_size c" "endbase c \<noteq> 0" using Cons.prems(2,3) L(8) by auto
  let ?m = "\<lambda>i. if addr c r \<le> i \<and> i < addr c r + 1 then Some ([v] ! nat (i - addr c r)) else m i"
  have "memcpy_from (endbase c) m (addr c r) [v] = Some ?m"
    using L(1-6) L(7) [OF r(2)] Cons.prems(2) r(1) by (auto simp: memcpy_from_def stdcarr_low_forward_def)
  moreover have "stdcarr_low_forward (addr c r) 1 (endbase c) = addr c (r + 1)"
    using L(1-6) L(7) [OF r(2)] Cons.prems(2) r(1) by (auto simp: stdcarr_low_forward_def)
  moreover have "\<forall>i. 0 \<le> i \<longrightarrow> i < ca_size c \<longrightarrow> ?m (addr c i) = (e(r := Some v)) i"
  proof (intro allI impI)
    fix i assume "0 \<le> i" "i < ca_size c"
    then show "?m (addr c i) = (e(r := Some v)) i"
      using Cons.prems(4) addr_inj [OF Cons.prems(1) _ _ Cons.prems(2) r(1), of i] by (cases "i = r") auto
  qed
  then obtain m' where "copy_loop (endbase c) vals (addr c (r + 1)) ?m = Some m'"
    "\<forall>i. 0 \<le> i \<longrightarrow> i < ca_size c \<longrightarrow> m' (addr c i) = (if r + 1 \<le> i \<and> i < r + 1 + int (length vals) then Some (vals ! nat (i - (r + 1))) else (e(r := Some v)) i)"
    using Cons.IH [OF Cons.prems(1), of "r + 1" ?m "e(r := Some v)"] Cons.prems(2,3) by auto
  moreover have "(v # vals) ! nat (i - r) = vals ! nat (i - (r + 1))" if "r + 1 \<le> i" for i
  proof -
    have "nat (i - r) = Suc (nat (i - (r + 1)))" using that by linarith
    then show ?thesis by simp
  qed
  ultimately show ?case by auto
qed

lemma inserted_intro:
  assumes "legal c" "0 \<le> r" "r \<le> ca_size c"
    and fill: "\<And>it c'. made_room c r (int (length vals)) it c' \<Longrightarrow> \<exists>m. w it c' = Some (STDESUCCESS, it, c'\<lparr>base := m\<rparr>) \<and> written c' r vals m"
  shows "inserted malloc c r vals (do {
       (ret, it1, c') \<leftarrow> stdcarr_low_insert_shift malloc c (addr c r) (int (length vals)) (ca_size c + int (length vals)) right;
       if ret \<noteq> STDESUCCESS then Some (ret, it1, c') else w it1 c'
     })"
proof -
  let ?n = "int (length vals)"
  obtain ret it c' where S: "stdcarr_low_insert_shift malloc c (addr c r) ?n (ca_size c + ?n) right = Some (ret, it, c')"
    and R: "if ret = STDESUCCESS then made_room c r ?n it c' else c' = c \<and> no_room malloc c ?n ret"
    using insert_shift_ok [OF assms(1-3), of ?n malloc right] unfolding no_room_def by (auto split: if_splits)
  show ?thesis
  proof (cases "ret = STDESUCCESS")
    case True
    then have room: "made_room c r ?n it c'" using R by simp
    obtain m where m: "w it c' = Some (STDESUCCESS, it, c'\<lparr>base := m\<rparr>)" "written c' r vals m" using fill [OF room] by blast
    have "contents (c'\<lparr>base := m\<rparr>) = take (nat r) (contents c) @ map Some vals @ drop (nat r) (contents c)"
      using filled_contents [OF room assms(2,3,1)] m(2) unfolding written_def by simp
    then show ?thesis using S m room True by (simp add: inserted_def made_room_def)
  qed (use S R in \<open>simp add: inserted_def\<close>)
qed

theorem insert_n_ok:
  assumes "legal c" "0 \<le> r" "r \<le> ca_size c"
  shows "inserted malloc c r vals (stdcarr_insert_n malloc c (addr c r) vals)"
  unfolding stdcarr_insert_n_def Let_def
proof (rule inserted_intro [OF assms])
  fix it c' assume room: "made_room c r (int (length vals)) it c'"
  then have c': "legal c'" "r + int (length vals) \<le> ca_size c'" "it = addr c' r" using assms(3) by (auto simp: made_room_def)
  obtain m where "copy_vals (endbase c') (base c') (addr c' r) vals = Some m" "written c' r vals m"
    using copy_vals_written [OF c'(1) assms(2) c'(2)] by blast
  then show "\<exists>m. (do { m \<leftarrow> copy_vals (endbase c') (base c') it vals; Some (STDESUCCESS, it, c'\<lparr>base := m\<rparr>) }) = Some (STDESUCCESS, it, c'\<lparr>base := m\<rparr>) \<and>
    written c' r vals m"
    unfolding c'(3) by auto
qed

theorem insert_seq_n_ok:
  assumes "legal c" "0 \<le> r" "r \<le> ca_size c"
  shows "inserted malloc c r vals (stdcarr_insert_seq_n malloc c (addr c r) vals)"
  unfolding stdcarr_insert_seq_n_def Let_def
proof (rule inserted_intro [OF assms])
  fix it c' assume room: "made_room c r (int (length vals)) it c'"
  then have c': "legal c'" "r + int (length vals) \<le> ca_size c'" "it = addr c' r" using assms(3) by (auto simp: made_room_def)
  obtain m where "copy_loop (endbase c') vals (addr c' r) (base c') = Some m" "written c' r vals m"
    using copy_loop_written [OF c'(1) assms(2) c'(2), of "base c'" "elem c'"] unfolding written_def by (auto simp: elem_def)
  then show "\<exists>m. (do { m \<leftarrow> copy_loop (endbase c') vals it (base c'); Some (STDESUCCESS, it, c'\<lparr>base := m\<rparr>) }) = Some (STDESUCCESS, it, c'\<lparr>base := m\<rparr>) \<and>
    written c' r vals m"
    unfolding c'(3) by auto
qed

lemma inserted_push:
  assumes "inserted malloc c r vals res"
  shows "\<exists>ret c'. map_option (\<lambda>(ret, _, c'). (ret, c')) res = Some (ret, c') \<and>
    (if ret = STDESUCCESS then legal c' \<and> contents c' = take (nat r) (contents c) @ map Some vals @ drop (nat r) (contents c)
     else c' = c \<and> no_room malloc c (int (length vals)) ret)"
  using assms unfolding inserted_def by (auto split: if_splits)

lemma push_front_n_ok:
  assumes "legal c"
  shows "\<exists>ret c'. stdcarr_push_front_n malloc c vals = Some (ret, c') \<and>
    (if ret = STDESUCCESS then legal c' \<and> contents c' = map Some vals @ contents c else c' = c \<and> no_room malloc c (int (length vals)) ret)"
proof -
  obtain ret c' where "stdcarr_push_front_n malloc c vals = Some (ret, c')"
    "if ret = STDESUCCESS then legal c' \<and> contents c' = map Some vals @ contents c else c' = c \<and> no_room malloc c (int (length vals)) ret"
    using inserted_push [OF insert_n_ok [OF assms, of 0 malloc vals]] legalD(1,4) [OF assms]
    by (auto simp: stdcarr_push_front_n_def stdcarr_begin_def)
  then show ?thesis by blast
qed

lemma push_back_n_ok:
  assumes "legal c"
  shows "\<exists>ret c'. stdcarr_push_back_n malloc c vals = Some (ret, c') \<and>
    (if ret = STDESUCCESS then legal c' \<and> contents c' = contents c @ map Some vals else c' = c \<and> no_room malloc c (int (length vals)) ret)"
proof -
  obtain ret c' where "stdcarr_push_back_n malloc c vals = Some (ret, c')"
    "if ret = STDESUCCESS then legal c' \<and> contents c' = contents c @ map Some vals else c' = c \<and> no_room malloc c (int (length vals)) ret"
    using inserted_push [OF insert_n_ok [OF assms, of "ca_size c" malloc vals]] legalD(1,3) [OF assms]
    by (auto simp: stdcarr_push_back_n_def stdcarr_end_def)
  then show ?thesis by blast
qed

lemma push_one:
  "stdcarr_push_front malloc c v = stdcarr_push_front_n malloc c [v]" "stdcarr_push_back malloc c v = stdcarr_push_back_n malloc c [v]"
  by (simp_all add: stdcarr_push_front_def stdcarr_push_front_n_def stdcarr_push_back_def stdcarr_push_back_n_def stdcarr_insert_def)

section \<open>Erasure\<close>

text \<open>The iterator that comes back refers to the value behind what was erased, or, when values were
  shifted to the left in place, to the value as many positions further on.\<close>

theorem erase_n_ok:
  assumes "legal c" "0 \<le> r" "0 \<le> n" "r + n \<le> ca_size c"
  shows "\<exists>it c'. stdcarr_erase_n malloc c (addr c r) n = Some (it, c') \<and> legal c' \<and>
    contents c' = take (nat r) (contents c) @ drop (nat (r + n)) (contents c) \<and> (it = addr c' r \<or> it = addr c' (r + n))"
proof -
  let ?right = "STDCARR_ERS_SHIFT_RIGHT c (addr c r) n"
  have "stdcarr_low_forward (addr c r) n (endbase c) = addr c (r + n)"
    using legalD [OF assms(1)] assms(2-4) by (cases "endbase c = 0") (auto simp: stdcarr_low_forward_def)
  then have "stdcarr_erase_n malloc c (addr c r) n =
      stdcarr_low_erase_shift malloc c (if ?right then addr c r else addr c (r + n)) n (ca_size c - n) ?right"
    by (simp add: stdcarr_erase_n_def)
  then show ?thesis using erase_shift_ok [OF assms, of malloc ?right] erased_contents [OF _ assms(2-4)] by (auto simp: erased_def)
qed

lemma erase_seq_ok:
  assumes "legal c" "0 \<le> r" "r \<le> s" "s \<le> ca_size c"
  shows "stdcarr_erase_seq malloc c (addr c r) (addr c s) = stdcarr_erase_n malloc c (addr c r) (s - r)"
proof -
  have "stdcarr_it_cmp c (addr c s) (addr c r) = s - r"
    using legalD [OF assms(1)] assms(2-4) by (cases "endbase c = 0") (auto simp: stdcarr_it_cmp_def stdcarr_low_forward_def)
  then show ?thesis by (simp add: stdcarr_erase_seq_def)
qed

lemma pop_front_n_ok:
  assumes "legal c" "0 \<le> n" "n \<le> ca_size c"
  shows "\<exists>c'. stdcarr_pop_front_n malloc c n = Some c' \<and> legal c' \<and> contents c' = drop (nat n) (contents c)"
  using erase_shift_ok [of c 0 n malloc True] erased_contents [of c 0 n] assms legalD(4) [OF assms(1)]
  by (auto simp: stdcarr_pop_front_n_def erased_def)

lemma pop_back_n_ok:
  assumes "legal c" "0 \<le> n" "n \<le> ca_size c"
  shows "\<exists>c'. stdcarr_pop_back_n malloc c n = Some c' \<and> legal c' \<and> contents c' = take (nat (ca_size c - n)) (contents c)"
  using erase_shift_ok [of c "ca_size c - n" n malloc False] erased_contents [of c "ca_size c - n" n] assms legalD(3) [OF assms(1)]
  by (auto simp: stdcarr_pop_back_n_def erased_def)

section \<open>Size and capacity\<close>

lemma made_room_prefix:
  assumes "made_room c (ca_size c) n it c'" "legal c" "0 \<le> n"
  shows "take (nat (ca_size c)) (contents c') = contents c"
  using assms legalD(1) [OF assms(2)] by (intro nth_equalityI) (auto simp: made_room_def nth_contents)

lemma resize_ok:
  assumes "legal c" "0 \<le> n"
  shows "\<exists>ret c'. stdcarr_resize malloc c n = Some (ret, c') \<and>
    (if ret = STDESUCCESS then legal c' \<and> ca_size c' = n \<and> take (min (nat n) (nat (ca_size c))) (contents c') = take (nat n) (contents c)
     else c' = c \<and> no_room malloc c (n - ca_size c) ret)"
proof -
  consider (grow) "ca_size c < n" | (shrink) "n < ca_size c" | (same) "n = ca_size c" by linarith
  then show ?thesis
  proof cases
    case grow
    obtain ret it c' where S: "stdcarr_low_insert_shift malloc c (ca_end c) (n - ca_size c) n True = Some (ret, it, c')"
      "if ret = STDESUCCESS then made_room c (ca_size c) (n - ca_size c) it c' else c' = c \<and> no_room malloc c (n - ca_size c) ret"
      using insert_shift_ok [OF assms(1), of "ca_size c" "n - ca_size c" malloc True] legalD(1,3) [OF assms(1)] grow
      unfolding no_room_def by (auto split: if_splits)
    then show ?thesis using grow made_room_prefix [OF _ assms(1), of "n - ca_size c" it c'] legalD(1) [OF assms(1)]
      by (cases "ret = STDESUCCESS") (simp_all add: stdcarr_resize_def made_room_def min_absorb2)
  next
    case shrink
    then obtain c' where "stdcarr_resize malloc c n = Some (STDESUCCESS, c')" "erased c n (ca_size c - n) c'"
      using erase_shift_ok [of c n "ca_size c - n" malloc False] assms legalD(3) [OF assms(1)] by (auto simp: stdcarr_resize_def)
    moreover from this(2) have "contents c' = take (nat n) (contents c)"
      using erased_contents [of c n "ca_size c - n" c'] assms shrink by simp
    ultimately show ?thesis using shrink by (simp add: erased_def min_absorb1)
  qed (use assms in \<open>simp add: stdcarr_resize_def\<close>)
qed

lemma contents_Nil: "ca_size c = 0 \<Longrightarrow> contents c = []"
  by (simp add: contents_def)

lemma carr_clear_ok: "legal c \<Longrightarrow> \<exists>c'. stdcarr_clear malloc c = Some c' \<and> legal c' \<and> contents c' = []"
  using resize_ok [of c 0 malloc] legalD(1) [of c] by (auto simp: stdcarr_clear_def no_room_def contents_Nil split: if_splits)

lemma copy_all:
  assumes "legal c" "ca_size c \<le> lim"
  shows "\<exists>mem. stdcarr_low_copy_to_buf lim dst 0 c (ca_begin c) (ca_end c) = Some (ca_size c, mem) \<and>
    (\<forall>i. 0 \<le> i \<longrightarrow> i < ca_size c \<longrightarrow> mem i = elem c i)"
  using copy_to_buf_ok [OF assms(1), of 0 "ca_size c" 0 lim dst] legalD(1,3,4) [OF assms(1)] assms(2) by simp

lemma in_block_contents:
  "(\<forall>i. 0 \<le> i \<longrightarrow> i < n \<longrightarrow> mem i = elem c i) \<Longrightarrow> n < lim \<Longrightarrow> n = ca_size c \<Longrightarrow> contents (in_block mem lim n d) = contents c"
  by (rule nth_equalityI) (auto simp: in_block_def nth_contents elem_def stdcarr_low_forward_def)

lemma truncate_ok:
  assumes "legal c" "0 \<le> n"
  shows "legal (truncate_to n c) \<and> contents (truncate_to n c) = take (nat n) (contents c) \<and> ca_size (truncate_to n c) \<le> n"
  using assms legalD [OF assms(1)]
  by (auto simp: truncate_to_def legal_def contents_def elem_def take_map min_def intro!: map_cong)

lemma set_capacity_ok:
  assumes "legal c" "0 \<le> n"
  shows "\<exists>ret c'. stdcarr_set_capacity malloc c n = Some (ret, c') \<and>
    (if ret = STDESUCCESS then legal c' \<and> stdcarr_high_capacity c' = n \<and> contents c' = take (nat n) (contents c)
     else c' = c \<and> ret = STDENOMEM \<and> \<not> malloc (n + 1))"
proof -
  note L = legalD [OF assms(1)]
  consider (same) "n = stdcarr_high_capacity c" | (none) "n \<noteq> stdcarr_high_capacity c" "n = 0" | (fail) "n \<noteq> stdcarr_high_capacity c" "n \<noteq> 0" "\<not> malloc (n + 1)"
    | (new) "n \<noteq> stdcarr_high_capacity c" "n \<noteq> 0" "malloc (n + 1)" by blast
  then show ?thesis
  proof cases
    case same
    then have "ca_size c \<le> n" using L(2,7,8) by (auto simp: stdcarr_high_capacity_def)
    then show ?thesis using same assms by (simp add: stdcarr_set_capacity_def)
  next
    case none
    then show ?thesis by (simp add: stdcarr_set_capacity_def in_block_def legal_def contents_def stdcarr_high_capacity_def)
  next
    case new
    let ?c = "truncate_to n c"
    note T = truncate_ok [OF assms]
    obtain mem where mem: "stdcarr_low_copy_to_buf (n + 1) fresh 0 ?c (ca_begin ?c) (ca_end ?c) = Some (ca_size ?c, mem)"
      "\<forall>i. 0 \<le> i \<longrightarrow> i < ca_size ?c \<longrightarrow> mem i = elem ?c i"
      using copy_all [of ?c "n + 1" fresh] T by auto
    have "legal (in_block mem (n + 1) (ca_size ?c) ?c)" using T legalD(1) [of ?c] by (intro in_block_legal) auto
    moreover have "stdcarr_high_capacity (in_block mem (n + 1) (ca_size ?c) ?c) = n" using assms by (simp add: stdcarr_high_capacity_def in_block_def)
    moreover have "contents (in_block mem (n + 1) (ca_size ?c) ?c) = contents ?c" using T mem(2) by (intro in_block_contents) auto
    ultimately show ?thesis using new mem(1) T by (simp add: stdcarr_set_capacity_def Let_def)
  qed (simp add: stdcarr_set_capacity_def)
qed

lemma reserve_ok:
  assumes "legal c" "0 \<le> n"
  shows "\<exists>ret c'. stdcarr_reserve malloc c n = Some (ret, c') \<and> legal c' \<and> contents c' = contents c \<and>
    (if ret = STDESUCCESS then n \<le> stdcarr_high_capacity c' else c' = c \<and> ret = STDENOMEM \<and> \<not> malloc (n + 1))"
proof (cases "stdcarr_high_capacity c < n")
  case True
  then have "ca_size c \<le> n" using legalD(1,2,7,8) [OF assms(1)] by (auto simp: stdcarr_high_capacity_def split: if_splits)
  then show ?thesis using set_capacity_ok [OF assms, of malloc] assms True by (auto simp: stdcarr_reserve_def split: if_splits)
qed (use assms in \<open>simp add: stdcarr_reserve_def\<close>)

lemma shrink_fit_ok:
  assumes "legal c"
  shows "\<exists>ret c'. stdcarr_shrink_fit malloc c = Some (ret, c') \<and> legal c' \<and> contents c' = contents c \<and>
    (if ret = STDESUCCESS then stdcarr_high_capacity c' = ca_size c else c' = c \<and> ret = STDENOMEM \<and> \<not> malloc (ca_size c + 1))"
  using set_capacity_ok [OF assms legalD(1) [OF assms], of malloc] assms by (auto simp: stdcarr_shrink_fit_def split: if_splits)

section \<open>Copies\<close>

lemma copied_contents:
  assumes "\<forall>i. 0 \<le> i \<longrightarrow> i < ca_size c \<longrightarrow> mem i = elem c i" "legal d" "ca_size d = ca_size c" "ca_size c < endbase d"
  shows "legal (d\<lparr>base := mem, ca_begin := 0, ca_end := ca_size c\<rparr>) \<and> contents (d\<lparr>base := mem, ca_begin := 0, ca_end := ca_size c\<rparr>) = contents c"
proof
  show "legal (d\<lparr>base := mem, ca_begin := 0, ca_end := ca_size c\<rparr>)"
    using assms legalD [OF assms(2)] by (auto simp: legal_def stdcarr_low_forward_def)
  show "contents (d\<lparr>base := mem, ca_begin := 0, ca_end := ca_size c\<rparr>) = contents c"
    using assms by (intro nth_equalityI) (auto simp: nth_contents elem_def stdcarr_low_forward_def)
qed

theorem copy_construct_ok:
  assumes "legal c"
  shows "\<exists>ret c'. stdcarr_copy_construct malloc c = Some (ret, c') \<and>
    (if ret = STDESUCCESS then legal c' \<and> contents c' = contents c else ret = STDENOMEM \<and> \<not> malloc (ca_cap c))"
proof (cases "endbase c = 0 \<or> \<not> malloc (ca_cap c)")
  case True
  then show ?thesis using assms by (auto simp: stdcarr_copy_construct_def)
next
  case False
  note L = legalD [OF assms]
  obtain mem where mem: "stdcarr_low_copy_to_buf (ca_cap c) fresh 0 c (ca_begin c) (ca_end c) = Some (ca_size c, mem)"
    "\<forall>i. 0 \<le> i \<longrightarrow> i < ca_size c \<longrightarrow> mem i = elem c i"
    using copy_all [OF assms, of "ca_cap c" fresh] L(2,7) False by auto
  have "c\<lparr>base := mem, endbase := ca_cap c, ca_begin := 0, ca_end := ca_size c\<rparr> = c\<lparr>base := mem, ca_begin := 0, ca_end := ca_size c\<rparr>"
    using L(2) by simp
  then show ?thesis using copied_contents [OF mem(2) assms refl] L(7) False mem(1) by (simp add: stdcarr_copy_construct_def)
qed

theorem set_eq_ok:
  assumes "legal dst" "legal src"
  shows "\<exists>ret c'. stdcarr_set_eq malloc dst src = Some (ret, c') \<and>
    (if ret = STDESUCCESS then legal c' \<and> contents c' = contents src else c' = dst \<and> no_room malloc dst (ca_size src - ca_size dst) ret)"
proof -
  obtain ret d where d: "stdcarr_resize malloc dst (ca_size src) = Some (ret, d)"
    "if ret = STDESUCCESS then legal d \<and> ca_size d = ca_size src else d = dst \<and> no_room malloc dst (ca_size src - ca_size dst) ret"
    using resize_ok [OF assms(1) legalD(1) [OF assms(2)], of malloc] by (auto split: if_splits)
  show ?thesis
  proof (cases "ret = STDESUCCESS")
    case True
    then have D: "legal d" "ca_size d = ca_size src" using d by auto
    obtain mem where mem: "stdcarr_low_copy_to_buf (endbase d) (base d) 0 src (ca_begin src) (ca_end src) = Some (ca_size src, mem)"
      "\<forall>i. 0 \<le> i \<longrightarrow> i < ca_size src \<longrightarrow> mem i = elem src i"
      using copy_all [OF assms(2), of "endbase d" "base d"] D legalD(7,8) [OF D(1)] by force
    let ?c = "d\<lparr>base := mem, ca_begin := 0, ca_end := ca_size src\<rparr>"
    have "legal ?c \<and> contents ?c = contents src"
    proof (cases "endbase d = 0")
      case True
      then have "ca_size src = 0" "ca_size d = 0" using legalD(8) [OF D(1)] D(2) by auto
      then show ?thesis using True legalD(2) [OF D(1)] by (simp add: legal_def contents_def)
    next
      case False
      then show ?thesis using copied_contents [OF mem(2) D(1,2)] legalD(7) [OF D(1)] D(2) by simp
    qed
    then show ?thesis using True d(1) mem(1) by (simp add: stdcarr_set_eq_def)
  qed (use d in \<open>simp add: stdcarr_set_eq_def\<close>)
qed

section \<open>Iterators\<close>

lemma it_moves:
  assumes "legal c" "0 \<le> r" "r \<le> ca_size c"
  shows "- r \<le> k \<Longrightarrow> r + k \<le> ca_size c \<Longrightarrow> stdcarr_it_offset c (addr c r) k = addr c (r + k)"
    "r < ca_size c \<Longrightarrow> stdcarr_it_next c (addr c r) = addr c (r + 1)" "0 < r \<Longrightarrow> stdcarr_it_prev c (addr c r) = addr c (r - 1)"
    "stdcarr_is_begin c (addr c r) \<longleftrightarrow> r = 0" "stdcarr_is_end c (addr c r) \<longleftrightarrow> r = ca_size c"
  using legalD [OF assms(1)] assms(2,3)
  by (cases "endbase c = 0"; auto simp: stdcarr_it_offset_def stdcarr_it_advance_def stdcarr_it_retreat_def stdcarr_it_next_def stdcarr_it_prev_def
      stdcarr_is_begin_def stdcarr_is_end_def stdcarr_low_forward_def stdcarr_low_backward_def split: if_splits)+

lemma get_val: "legal c \<Longrightarrow> i < length (contents c) \<Longrightarrow> stdcarr_it_val c (stdcarr_get c (int i)) = contents c ! i"
  by (simp add: stdcarr_it_val_def stdcarr_get_def stdcarr_it_advance_def stdcarr_begin_def nth_contents elem_def)

lemma last_val: "legal c \<Longrightarrow> contents c \<noteq> [] \<Longrightarrow> stdcarr_it_val c (stdcarr_last c) = last (contents c)"
  using it_moves(3) [of c "ca_size c"] legalD(1,3) [of c] length_contents [of c]
  by (cases "ca_size c = 0") (auto simp: stdcarr_it_val_def stdcarr_last_def stdcarr_end_def last_conv_nth nth_contents elem_def nat_diff_distrib' simp flip: length_0_conv)

end
