(* ===== verification/Carr_Spec.thy ===== *)
theory Carr_Spec
  imports Carr_Ops
begin

text \<open>
  The circular array as an implementation of sequences: the operations on lists, and that an array
  behaves like the list through any sequence of operations. A queue is an interface of its own, which
  the leaky buckets of the daemon use.
\<close>

section \<open>Operations on sequences\<close>

datatype 'a seq_op =
    Insert_n nat "'a list" | Insert_seq_n nat "'a list" | Insert_rep nat 'a nat | Push_front 'a | Push_back 'a
  | Pop_front | Pop_back | Erase_n nat nat | Clear | Reserve nat | Shrink_fit

fun seq_apply :: "'a seq_op \<Rightarrow> 'a list \<Rightarrow> 'a list" where
  "seq_apply (Insert_n r vals) xs = take r xs @ vals @ drop r xs"
| "seq_apply (Insert_seq_n r vals) xs = take r xs @ vals @ drop r xs"
| "seq_apply (Insert_rep r v n) xs = take r xs @ replicate n v @ drop r xs"
| "seq_apply (Push_front v) xs = v # xs"
| "seq_apply (Push_back v) xs = xs @ [v]"
| "seq_apply Pop_front xs = tl xs"
| "seq_apply Pop_back xs = butlast xs"
| "seq_apply (Erase_n r n) xs = take r xs @ drop (r + n) xs"
| "seq_apply Clear xs = []"
| "seq_apply (Reserve n) xs = xs"
| "seq_apply Shrink_fit xs = xs"

text \<open>What the caller has to see to: positions are positions of the sequence.\<close>

fun allowed :: "'a seq_op \<Rightarrow> 'a list \<Rightarrow> bool" where
  "allowed (Insert_n r vals) xs \<longleftrightarrow> r \<le> length xs"
| "allowed (Insert_seq_n r vals) xs \<longleftrightarrow> r \<le> length xs"
| "allowed (Insert_rep r v n) xs \<longleftrightarrow> r \<le> length xs"
| "allowed Pop_front xs \<longleftrightarrow> xs \<noteq> []"
| "allowed Pop_back xs \<longleftrightarrow> xs \<noteq> []"
| "allowed (Erase_n r n) xs \<longleftrightarrow> r + n \<le> length xs"
| "allowed _ xs \<longleftrightarrow> True"

fun carr_exec :: "(int \<Rightarrow> bool) \<Rightarrow> 'a seq_op \<Rightarrow> 'a stdcarr \<Rightarrow> (stdcode \<times> 'a stdcarr) option" where
  "carr_exec malloc (Insert_n r vals) c = map_option (\<lambda>(ret, _, c'). (ret, c')) (stdcarr_insert_n malloc c (stdcarr_get c (int r)) vals)"
| "carr_exec malloc (Insert_seq_n r vals) c = map_option (\<lambda>(ret, _, c'). (ret, c')) (stdcarr_insert_seq_n malloc c (stdcarr_get c (int r)) vals)"
| "carr_exec malloc (Insert_rep r v n) c = map_option (\<lambda>(ret, _, c'). (ret, c')) (stdcarr_insert_rep malloc c (stdcarr_get c (int r)) v n)"
| "carr_exec malloc (Push_front v) c = stdcarr_push_front malloc c v"
| "carr_exec malloc (Push_back v) c = stdcarr_push_back malloc c v"
| "carr_exec malloc Pop_front c = map_option (Pair STDESUCCESS) (stdcarr_pop_front malloc c)"
| "carr_exec malloc Pop_back c = map_option (Pair STDESUCCESS) (stdcarr_pop_back malloc c)"
| "carr_exec malloc (Erase_n r n) c = map_option (\<lambda>(_, c'). (STDESUCCESS, c')) (stdcarr_erase_n malloc c (stdcarr_get c (int r)) (int n))"
| "carr_exec malloc Clear c = map_option (Pair STDESUCCESS) (stdcarr_clear malloc c)"
| "carr_exec malloc (Reserve n) c = stdcarr_reserve malloc c (int n)"
| "carr_exec malloc Shrink_fit c = stdcarr_shrink_fit malloc c"

definition holds_seq :: "'a stdcarr \<Rightarrow> 'a list \<Rightarrow> bool" where
  "holds_seq c xs \<longleftrightarrow> legal c \<and> contents c = map Some xs"

lemma holds_seqD:
  assumes "holds_seq c xs"
  shows "legal c" "contents c = map Some xs" "nat (ca_size c) = length xs" "ca_size c = int (length xs)" "stdcarr_get c r = addr c r"
  using assms legalD(1) [of c] length_contents [of c]
  by (auto simp: holds_seq_def stdcarr_get_def stdcarr_it_advance_def stdcarr_begin_def simp del: length_contents)

lemma inserted_holds:
  assumes "holds_seq c xs" "inserted malloc c (int r) vals res" "r \<le> length xs"
  shows "\<exists>ret c'. map_option (\<lambda>(ret, _, c'). (ret, c')) res = Some (ret, c') \<and>
    holds_seq c' (if ret = STDESUCCESS then take r xs @ vals @ drop r xs else xs) \<and> (ret = STDESUCCESS \<or> no_room malloc c (int (length vals)) ret)"
  using inserted_push [OF assms(2)] holds_seqD [OF assms(1)] assms(1)
  by (auto simp: holds_seq_def take_map drop_map split: if_splits)

theorem carr_exec_ok:
  assumes "holds_seq c xs" "allowed op xs"
  shows "\<exists>ret c'. carr_exec malloc op c = Some (ret, c') \<and> holds_seq c' (if ret = STDESUCCESS then seq_apply op xs else xs)"
proof -
  note H = holds_seqD [OF assms(1)]
  have ins: "\<exists>ret it c'. res = Some (ret, it, c') \<and> (ret = STDESUCCESS \<longrightarrow> holds_seq c' (take r xs @ vals @ drop r xs)) \<and> (ret \<noteq> STDESUCCESS \<longrightarrow> holds_seq c' xs)"
    if "inserted malloc c (int r) vals res" "r \<le> length xs" for r vals res
    using inserted_holds [OF assms(1) that] by (auto split: if_splits)
  show ?thesis
  proof (cases op)
    case (Insert_n r vals)
    then show ?thesis using ins [OF insert_n_ok [OF H(1)], of r vals] assms(2) H(4) by (auto simp: H(5))
  next
    case (Insert_seq_n r vals)
    then show ?thesis using ins [OF insert_seq_n_ok [OF H(1)], of r vals] assms(2) H(4) by (auto simp: H(5))
  next
    case (Insert_rep r v n)
    then show ?thesis using ins [OF insert_seq_n_ok [OF H(1)], of r "replicate n v"] assms(2) H(4) by (auto simp: H(5) stdcarr_insert_rep_def)
  next
    case (Push_front v)
    then show ?thesis using push_front_n_ok [OF H(1), of malloc "[v]"] assms(1) by (auto simp: push_one holds_seq_def split: if_splits)
  next
    case (Push_back v)
    then show ?thesis using push_back_n_ok [OF H(1), of malloc "[v]"] assms(1) by (auto simp: push_one holds_seq_def split: if_splits)
  next
    case Pop_front
    then have "1 \<le> ca_size c" using assms(2) H(4) by (cases xs) auto
    then show ?thesis using Pop_front pop_front_n_ok [OF H(1), of 1 malloc] H(2) by (auto simp: stdcarr_pop_front_def holds_seq_def drop_Suc map_tl)
  next
    case Pop_back
    then have "1 \<le> ca_size c" "nat (ca_size c - 1) = length xs - 1" using assms(2) H(4) by (cases xs; simp)+
    then show ?thesis using Pop_back pop_back_n_ok [OF H(1), of 1 malloc] H(2)
      by (auto simp: stdcarr_pop_back_def holds_seq_def take_map butlast_conv_take)
  next
    case (Erase_n r n)
    then show ?thesis using erase_n_ok [OF H(1), of "int r" "int n" malloc] H(2,4,5) assms(2)
      by (auto simp: holds_seq_def take_map drop_map nat_add_distrib)
  next
    case Clear
    then show ?thesis using carr_clear_ok [OF H(1), of malloc] by (auto simp: holds_seq_def)
  next
    case (Reserve n)
    then show ?thesis using reserve_ok [OF H(1), of "int n" malloc] H(2) by (auto simp: holds_seq_def)
  next
    case Shrink_fit
    then show ?thesis using shrink_fit_ok [OF H(1), of malloc] H(2) by (auto simp: holds_seq_def)
  qed
qed

text \<open>The arrays that a program has, each with the sequence it stands for.\<close>

inductive carr_run :: "(int \<Rightarrow> bool) \<Rightarrow> 'a stdcarr \<Rightarrow> 'a list \<Rightarrow> bool" for malloc where
  construct: "carr_run malloc (stdcarr_construct no_grow no_shrink) []"
| exec: "carr_run malloc c xs \<Longrightarrow> allowed op xs \<Longrightarrow> carr_exec malloc op c = Some (ret, c') \<Longrightarrow>
    carr_run malloc c' (if ret = STDESUCCESS then seq_apply op xs else xs)"
| copy: "carr_run malloc c xs \<Longrightarrow> stdcarr_copy_construct malloc c = Some (STDESUCCESS, c') \<Longrightarrow> carr_run malloc c' xs"
| set_eq: "carr_run malloc c xs \<Longrightarrow> carr_run malloc d ys \<Longrightarrow> stdcarr_set_eq malloc d c = Some (ret, d') \<Longrightarrow>
    carr_run malloc d' (if ret = STDESUCCESS then xs else ys)"

lemma carr_run_holds: "carr_run malloc c xs \<Longrightarrow> holds_seq c xs"
proof (induction rule: carr_run.induct)
  case (construct no_grow no_shrink)
  show ?case by (simp add: holds_seq_def legal_def contents_def stdcarr_construct_def)
next
  case (exec c xs op ret c')
  then show ?case using carr_exec_ok [OF exec.IH exec.hyps(2), of malloc] by auto
next
  case (copy c xs c')
  then show ?case using copy_construct_ok [of c malloc] by (auto simp: holds_seq_def)
next
  case (set_eq c xs d ys ret d')
  then show ?case using set_eq_ok [of d c malloc] by (auto simp: holds_seq_def split: if_splits)
qed

section \<open>What the array promises\<close>


text \<open>A script of operations that all succeed.\<close>

primrec carr_script :: "(int \<Rightarrow> bool) \<Rightarrow> 'a seq_op list \<Rightarrow> 'a stdcarr \<Rightarrow> 'a stdcarr option" where
  "carr_script malloc [] c = Some c"
| "carr_script malloc (op # ops) c =
     (case carr_exec malloc op c of Some (STDESUCCESS, c') \<Rightarrow> carr_script malloc ops c' | _ \<Rightarrow> None)"

primrec seq_script :: "'a seq_op list \<Rightarrow> 'a list \<Rightarrow> 'a list option" where
  "seq_script [] xs = Some xs"
| "seq_script (op # ops) xs = (if allowed op xs then seq_script ops (seq_apply op xs) else None)"

lemma carr_script_run:
  "carr_run malloc c xs \<Longrightarrow> carr_script malloc ops c = Some c' \<Longrightarrow> seq_script ops xs = Some ys \<Longrightarrow> carr_run malloc c' ys"
proof (induction ops arbitrary: c xs)
  case (Cons op ops)
  then obtain c1 where "carr_exec malloc op c = Some (STDESUCCESS, c1)" "carr_script malloc ops c1 = Some c'" "allowed op xs" "seq_script ops (seq_apply op xs) = Some ys"
    by (auto split: option.splits prod.splits stdcode.splits if_splits)
  then show ?case using Cons.IH carr_run.exec [OF Cons.prems(1)] by fastforce
qed auto

definition demo_script :: "nat seq_op list" where
  "demo_script = [Push_back 7, Push_front 5, Insert_n 1 [8, 9], Insert_rep 2 4 3, Erase_n 1 2, Pop_back]"

definition demo_run :: "nat stdcarr" where
  "demo_run = the (carr_script (\<lambda>_. True) demo_script (stdcarr_construct False False))"

lemma demo_run_defined: "Option.is_none (carr_script (\<lambda>_. True) demo_script (stdcarr_construct False False)) = False"
  by code_simp

lemma demo_run_reached: "carr_run (\<lambda>_. True) demo_run [5, 4, 4, 9]"
proof (rule carr_script_run)
  show "carr_script (\<lambda>_. True) demo_script (stdcarr_construct False False) = Some demo_run"
    using demo_run_defined by (auto simp: demo_run_def Option.is_none_def)
  show "seq_script demo_script [] = Some [5, 4, 4, 9]" by code_simp
qed (rule carr_run.construct)


definition demo_carr :: "nat stdcarr" where
  "demo_carr = \<lparr>base = (\<lambda>i. if 3 \<le> i then Some (nat i) else if i < 2 then Some (nat i + 10) else None), endbase = 6, ca_begin = 3, ca_end = 2,
     ca_cap = 6, ca_size = 5, ca_no_grow = False, ca_no_shrink = True\<rparr>"

lemma demo_carr_holds: "holds_seq demo_carr [3, 4, 5, 10, 11]"
  by (simp add: holds_seq_def legal_def contents_def demo_carr_def elem_def stdcarr_low_forward_def upt_rec)



end
