(* ===== verification/Leaky_Bucket.thy ===== *)
theory Leaky_Bucket
  imports Carr_Spec Net_Types Events Complex_Main
begin

text \<open>
  The rate limit of a network leg (\<open>Link_Send\<close>, \<open>Leg_Try_Send_Buffered\<close> and \<open>Fill_Leg_Bucket\<close> of
  \<open>daemon/link.c\<close>, the set-up in \<open>daemon/network.c\<close>): a leaky bucket of bytes that a timer fills, and the
  packets that wait for it in a circular array. A packet is the list of its scatter elements. The
  packets handed to \<open>DL_send\<close> are recorded in \<open>leg_sent\<close>; what \<open>DL_send\<close> returns, whether memory is available
  and the rounding of \<open>double\<close> are parameters. The accounting for \<open>Print_Cost\<close> is left out.
\<close>

section \<open>A queue\<close>

text \<open>What a client of a queue relies on: a value that is put in may be refused for want of memory, and
  then nothing changes.\<close>

locale fifo =
  fixes inv :: "'q \<Rightarrow> bool" and items :: "'q \<Rightarrow> 'a list" and is_empty :: "'q \<Rightarrow> bool" and front :: "'q \<Rightarrow> 'a option"
    and put :: "'q \<Rightarrow> 'a \<Rightarrow> (stdcode \<times> 'q) option" and take_front :: "'q \<Rightarrow> 'q option"
  assumes is_empty_items: "inv q \<Longrightarrow> is_empty q \<longleftrightarrow> items q = []"
    and front_items: "inv q \<Longrightarrow> items q \<noteq> [] \<Longrightarrow> front q = Some (hd (items q))"
    and put_items: "inv q \<Longrightarrow> \<exists>ret q'. put q x = Some (ret, q') \<and> inv q' \<and> items q' = (if ret = STDESUCCESS then items q @ [x] else items q)"
    and take_front_items: "inv q \<Longrightarrow> items q \<noteq> [] \<Longrightarrow> \<exists>q'. take_front q = Some q' \<and> inv q' \<and> items q' = tl (items q)"
begin

lemma front_cases:
  assumes "inv q"
  obtains "is_empty q" "items q = []" | x q' where "\<not> is_empty q" "front q = Some x" "take_front q = Some q'" "inv q'" "items q = x # items q'"
proof (cases "items q")
  case Nil
  then show ?thesis using that(1) is_empty_items [OF assms] by simp
next
  case (Cons x xs)
  then obtain q' where "take_front q = Some q'" "inv q'" "items q' = xs" using take_front_items [OF assms] by auto
  then show ?thesis using that(2) [of x q'] Cons is_empty_items [OF assms] front_items [OF assms] by simp
qed

end

definition carr_items :: "'a stdcarr \<Rightarrow> 'a list" where "carr_items c = map the (contents c)"
definition carr_inv :: "'a stdcarr \<Rightarrow> bool" where "carr_inv c \<longleftrightarrow> holds_seq c (carr_items c)"
definition carr_front :: "'a stdcarr \<Rightarrow> 'a option" where "carr_front c = stdcarr_it_val c (stdcarr_begin c)"

lemma holds_carr_inv: "holds_seq c xs \<Longrightarrow> carr_inv c \<and> carr_items c = xs"
  by (auto simp: carr_inv_def carr_items_def holds_seq_def map_idI)

interpretation carr_queue: fifo carr_inv carr_items stdcarr_empty carr_front "stdcarr_push_back malloc" "stdcarr_pop_front malloc" for malloc
proof unfold_locales
  fix q :: "'a stdcarr" and x :: 'a
  assume "carr_inv q"
  then have H: "holds_seq q (carr_items q)" by (simp add: carr_inv_def)
  show "stdcarr_empty q \<longleftrightarrow> carr_items q = []" using holds_seqD(4) [OF H] by (simp add: stdcarr_empty_def)
  obtain ret q' where "stdcarr_push_back malloc q x = Some (ret, q')" "holds_seq q' (if ret = STDESUCCESS then carr_items q @ [x] else carr_items q)"
    using carr_exec_ok [OF H, of "Push_back x" malloc] by (simp only: carr_exec.simps allowed.simps seq_apply.simps) blast
  then show "\<exists>ret q'. stdcarr_push_back malloc q x = Some (ret, q') \<and> carr_inv q' \<and> carr_items q' = (if ret = STDESUCCESS then carr_items q @ [x] else carr_items q)"
    using holds_carr_inv [of q'] by (cases "ret = STDESUCCESS") auto
  assume ne: "carr_items q \<noteq> []"
  then have "0 < length (contents q)" unfolding holds_seqD(2) [OF H] by simp
  then show "carr_front q = Some (hd (carr_items q))"
    using get_val [of q 0] H holds_seqD(2,5) [OF H] legalD(4) [OF holds_seqD(1) [OF H]] ne
    by (simp add: carr_front_def stdcarr_begin_def hd_conv_nth del: length_contents) (simp add: holds_seq_def)
  show "\<exists>q'. stdcarr_pop_front malloc q = Some q' \<and> carr_inv q' \<and> carr_items q' = tl (carr_items q)"
    using carr_exec_ok [OF H, of Pop_front malloc] ne holds_carr_inv by auto
qed

section \<open>Data\<close>

type_synonym sys_scatter = "8 word list list"

record Leg_Buf_Cell =
  lbc_link_type :: Link_Type
  lbc_scat :: sys_scatter
  lbc_total_bytes :: int

record rate_leg =
  bucket_bytes :: int
  bucket_last_filled :: sp_time
  bucket_buf :: "Leg_Buf_Cell stdcarr"
  fill_queued :: bool  \<comment> \<open>\<open>Fill_Leg_Bucket\<close> is in the timer queue\<close>
  leg_sent :: "(Link_Type \<times> sys_scatter) list"

record rate_config =
  Leg_Rate_Limit_kbps :: int
  Leg_Bucket_Cap :: int
  Leg_Max_Buffered :: int
  rl_malloc :: "int \<Rightarrow> bool"
  dl_send :: "Link_Type \<Rightarrow> sys_scatter \<Rightarrow> int"
  dbl :: "rat \<Rightarrow> rat"

definition MAX_PACKET_SIZE :: int where "MAX_PACKET_SIZE = 1472"
definition LEG_BUCKET_FILL_USEC :: int where "LEG_BUCKET_FILL_USEC = 500"
definition leg_bucket_to :: sp_time where "leg_bucket_to = \<lparr>sec = 0, usec = LEG_BUCKET_FILL_USEC\<rparr>"

definition scat_bytes :: "sys_scatter \<Rightarrow> int" where
  "scat_bytes scat = sum_list (map (int \<circ> length) scat)"

text \<open>The part of \<open>Init_Network\<close> that sets the limits, and of \<open>Create_Network_Leg\<close> that fills the bucket.\<close>

definition rate_bytes :: "rate_config \<Rightarrow> int \<Rightarrow> rat" where
  "rate_bytes cf us = dbl cf (dbl cf (of_int (Leg_Rate_Limit_kbps cf) / 8000) * of_int us)"

definition set_limits :: "rate_config \<Rightarrow> rate_config" where
  "set_limits cf =
     (let cap = (if 0 \<le> Leg_Rate_Limit_kbps cf then \<lfloor>dbl cf (rate_bytes cf LEG_BUCKET_FILL_USEC + of_int MAX_PACKET_SIZE)\<rfloor> else - 1)
      in cf\<lparr>Leg_Bucket_Cap := cap, Leg_Max_Buffered := cap\<rparr>)"

definition new_rate_leg :: "rate_config \<Rightarrow> sp_time \<Rightarrow> rate_leg" where
  "new_rate_leg cf now =
     (if 0 \<le> Leg_Rate_Limit_kbps cf
      then \<lparr>bucket_bytes = Leg_Bucket_Cap cf, bucket_last_filled = now, bucket_buf = stdcarr_construct False False, fill_queued = True, leg_sent = []\<rparr>
      else \<lparr>bucket_bytes = 0, bucket_last_filled = \<lparr>sec = 0, usec = 0\<rparr>, bucket_buf = stdcarr_construct False False, fill_queued = False, leg_sent = []\<rparr>)"

section \<open>Sending\<close>

definition DL_send_on :: "Link_Type \<Rightarrow> sys_scatter \<Rightarrow> int \<Rightarrow> rate_leg \<Rightarrow> rate_leg" where
  "DL_send_on ty scat n leg = leg\<lparr>bucket_bytes := bucket_bytes leg - n, leg_sent := leg_sent leg @ [(ty, scat)]\<rparr>"

partial_function (option) try_send_loop :: "rate_config \<Rightarrow> int \<Rightarrow> rate_leg \<Rightarrow> (int \<times> rate_leg) option" where
  "try_send_loop cf ret leg =
     (if stdcarr_empty (bucket_buf leg) then Some (ret, leg)
      else case stdcarr_it_val (bucket_buf leg) (stdcarr_begin (bucket_buf leg)) of
        None \<Rightarrow> None
      | Some cell \<Rightarrow>
          if bucket_bytes leg < lbc_total_bytes cell then Some (ret, leg)
          else case stdcarr_pop_front (rl_malloc cf) (bucket_buf leg) of
            None \<Rightarrow> None
          | Some buf \<Rightarrow>
              try_send_loop cf (dl_send cf (lbc_link_type cell) (lbc_scat cell))
                ((DL_send_on (lbc_link_type cell) (lbc_scat cell) (lbc_total_bytes cell) leg)\<lparr>bucket_buf := buf\<rparr>))"

definition Leg_Try_Send_Buffered :: "rate_config \<Rightarrow> rate_leg \<Rightarrow> (int \<times> rate_leg) res" where
  "Leg_Try_Send_Buffered cf leg =
     (case try_send_loop cf 0 leg of None \<Rightarrow> Inl (UNDEF ''Leg_Try_Send_Buffered'') | Some r \<Rightarrow> Inr r)"

definition Link_Send :: "rate_config \<Rightarrow> Link_Type \<Rightarrow> sys_scatter \<Rightarrow> rate_leg \<Rightarrow> (int \<times> rate_leg) res" where
  "Link_Send cf ty scat leg =
     (let total_bytes = scat_bytes scat in
      if 0 \<le> Leg_Rate_Limit_kbps cf \<and> Leg_Max_Buffered cf \<le> stdcarr_size (bucket_buf leg) then Inr (0, leg)
      else if Leg_Rate_Limit_kbps cf < 0 \<or> stdcarr_empty (bucket_buf leg) \<and> total_bytes \<le> bucket_bytes leg
      then Inr (dl_send cf ty scat, DL_send_on ty scat total_bytes leg)
      else if \<exists>e \<in> set scat. MAX_PACKET_SIZE < int (length e) then Inl (EXIT ''Link_Send: invalid buffer size'')
      else case stdcarr_push_back (rl_malloc cf) (bucket_buf leg) \<lparr>lbc_link_type = ty, lbc_scat = scat, lbc_total_bytes = total_bytes\<rparr> of
        None \<Rightarrow> Inl (UNDEF ''Link_Send'')
      | Some (_, buf) \<Rightarrow> bind_res (Leg_Try_Send_Buffered cf (leg\<lparr>bucket_buf := buf\<rparr>)) (\<lambda>(_, leg'). Inr (0, leg')))"

section \<open>Filling\<close>

text \<open>The conversion of a \<open>double\<close> to \<open>unsigned int\<close> is defined only for values that fit.\<close>

definition to_unsigned :: "rat \<Rightarrow> int res" where
  "to_unsigned x = (if 0 \<le> x \<and> x < 2 ^ 32 then Inr \<lfloor>x\<rfloor> else Inl (UNDEF ''conversion to unsigned int''))"

definition fill_bucket :: "rate_config \<Rightarrow> sp_time \<Rightarrow> int \<Rightarrow> rate_leg \<Rightarrow> rate_leg" where
  "fill_bucket cf now to_add leg =
     leg\<lparr>bucket_bytes := min (bucket_bytes leg + to_add) (Leg_Bucket_Cap cf), bucket_last_filled := now\<rparr>"

text \<open>The timer is queued again before anything else is done.\<close>

definition Fill_Leg_Bucket :: "rate_config \<Rightarrow> sp_time \<Rightarrow> rate_leg \<Rightarrow> rate_leg res" where
  "Fill_Leg_Bucket cf now leg0 =
     (if Leg_Rate_Limit_kbps cf < 0 then Inl (ASSERT ''Leg_Rate_Limit_kbps >= 0'')
      else let leg = leg0\<lparr>fill_queued := True\<rparr> in
        if Leg_Bucket_Cap cf < bucket_bytes leg then Inl (EXIT ''Fill_Leg_Bucket(): Bucket grew larger than max capacity'')
        else if bucket_bytes leg = Leg_Bucket_Cap cf then Inr leg
        else let delta = E_sub_time now (bucket_last_filled leg) in
          bind_res (to_unsigned (rate_bytes cf (sec delta * 1000000 + usec delta))) (\<lambda>to_add.
            let leg1 = fill_bucket cf now to_add leg in
            if \<not> stdcarr_empty (bucket_buf leg1) \<and> 0 < bucket_bytes leg1
            then bind_res (Leg_Try_Send_Buffered cf leg1) (\<lambda>(_, leg'). Inr leg')
            else Inr leg1))"

section \<open>Invariant\<close>

definition cell_ok :: "Leg_Buf_Cell \<Rightarrow> bool" where
  "cell_ok cell \<longleftrightarrow> lbc_total_bytes cell = scat_bytes (lbc_scat cell) \<and> 0 < lbc_total_bytes cell"

abbreviation waiting :: "rate_leg \<Rightarrow> Leg_Buf_Cell list" where "waiting leg \<equiv> carr_items (bucket_buf leg)"

definition packet_of :: "Leg_Buf_Cell \<Rightarrow> Link_Type \<times> sys_scatter" where
  "packet_of cell = (lbc_link_type cell, lbc_scat cell)"

definition sent_bytes :: "(Link_Type \<times> sys_scatter) list \<Rightarrow> int" where
  "sent_bytes ps = sum_list (map (scat_bytes \<circ> snd) ps)"

text \<open>The bucket never holds more than its capacity, and packets wait only while the first of them does
  not fit.\<close>

definition rate_inv :: "rate_config \<Rightarrow> rate_leg \<Rightarrow> bool" where
  "rate_inv cf leg \<longleftrightarrow> carr_inv (bucket_buf leg) \<and> (\<forall>cell \<in> set (waiting leg). cell_ok cell) \<and>
     (0 \<le> Leg_Rate_Limit_kbps cf \<longrightarrow> fill_queued leg \<and> bucket_bytes leg \<le> Leg_Bucket_Cap cf) \<and>
     (Leg_Rate_Limit_kbps cf < 0 \<longrightarrow> waiting leg = []) \<and>
     (waiting leg \<noteq> [] \<longrightarrow> bucket_bytes leg < lbc_total_bytes (hd (waiting leg)))"

text \<open>The first packets that wait, \<open>out\<close>, are sent, until none is left or the next does not fit.\<close>

definition drained :: "rate_leg \<Rightarrow> Leg_Buf_Cell list \<Rightarrow> rate_leg \<Rightarrow> bool" where
  "drained leg out leg' \<longleftrightarrow> carr_inv (bucket_buf leg') \<and> waiting leg = out @ waiting leg' \<and> leg_sent leg' = leg_sent leg @ map packet_of out \<and>
     bucket_bytes leg' = bucket_bytes leg - sent_bytes (map packet_of out) \<and> bucket_last_filled leg' = bucket_last_filled leg \<and> fill_queued leg' = fill_queued leg \<and>
     (waiting leg' \<noteq> [] \<longrightarrow> bucket_bytes leg' < lbc_total_bytes (hd (waiting leg')))"

lemma try_send_loop_ok:
  assumes "carr_inv (bucket_buf leg)" "\<forall>cell \<in> set (waiting leg). cell_ok cell"
  shows "\<exists>ret' leg' out. try_send_loop cf ret leg = Some (ret', leg') \<and> drained leg out leg'"
  using assms
proof (induction "length (waiting leg)" arbitrary: ret leg)
  case 0
  then have "stdcarr_empty (bucket_buf leg)" using carr_queue.is_empty_items by auto
  moreover have "drained leg [] leg" using 0 by (simp add: drained_def sent_bytes_def)
  ultimately show ?case by (subst try_send_loop.simps) auto
next
  case (Suc n)
  obtain cell buf where Q: "\<not> stdcarr_empty (bucket_buf leg)" "carr_front (bucket_buf leg) = Some cell"
    "stdcarr_pop_front (rl_malloc cf) (bucket_buf leg) = Some buf" "carr_inv buf" "waiting leg = cell # carr_items buf"
    using carr_queue.front_cases [OF Suc.prems(1), where malloc = "rl_malloc cf"] Suc.hyps(2) by (metis list.size(3) nat.distinct(1))
  show ?case
  proof (cases "bucket_bytes leg < lbc_total_bytes cell")
    case True
    then have "drained leg [] leg" using Suc.prems Q by (simp add: drained_def sent_bytes_def)
    then show ?thesis using Q True by (subst try_send_loop.simps) (auto simp: carr_front_def)
  next
    case False
    let ?leg = "(DL_send_on (lbc_link_type cell) (lbc_scat cell) (lbc_total_bytes cell) leg)\<lparr>bucket_buf := buf\<rparr>"
    have "n = length (waiting ?leg)" "carr_inv (bucket_buf ?leg)" "\<forall>cell \<in> set (waiting ?leg). cell_ok cell"
      using Suc.hyps(2) Suc.prems(2) Q by auto
    then obtain ret' leg' out where IH: "try_send_loop cf (dl_send cf (lbc_link_type cell) (lbc_scat cell)) ?leg = Some (ret', leg')" "drained ?leg out leg'"
      using Suc.hyps(1) by blast
    have "try_send_loop cf ret leg = Some (ret', leg')" using IH(1) Q False by (subst try_send_loop.simps) (simp add: carr_front_def)
    moreover have "lbc_total_bytes cell = scat_bytes (lbc_scat cell)" using Suc.prems(2) Q(5) by (simp add: cell_ok_def)
    then have "drained leg (cell # out) leg'" using IH(2) Q(5) by (auto simp: drained_def DL_send_on_def packet_of_def sent_bytes_def)
    ultimately show ?thesis by blast
  qed
qed

lemma drained_head:
  "drained leg out leg' \<Longrightarrow> waiting leg \<noteq> [] \<Longrightarrow> lbc_total_bytes (hd (waiting leg)) \<le> bucket_bytes leg \<Longrightarrow> out \<noteq> []"
  by (auto simp: drained_def sent_bytes_def)

section \<open>The operations keep the invariant\<close>

lemma Leg_Try_Send_Buffered_ok:
  assumes "carr_inv (bucket_buf leg)" "\<forall>cell \<in> set (waiting leg). cell_ok cell"
  obtains ret leg' out where "Leg_Try_Send_Buffered cf leg = Inr (ret, leg')" "drained leg out leg'"
  using try_send_loop_ok [OF assms, of cf 0] by (auto simp: Leg_Try_Send_Buffered_def)

lemma scat_bytes_nonneg: "0 \<le> scat_bytes scat"
  by (auto simp: scat_bytes_def intro!: sum_list_nonneg)

lemma sent_bytes_nonneg: "0 \<le> sent_bytes ps"
  by (auto simp: sent_bytes_def scat_bytes_nonneg intro!: sum_list_nonneg)

lemma drained_inv:
  assumes "drained leg out leg'" "\<forall>cell \<in> set (waiting leg). cell_ok cell" "0 \<le> Leg_Rate_Limit_kbps cf \<and> fill_queued leg \<and> bucket_bytes leg \<le> Leg_Bucket_Cap cf"
  shows "rate_inv cf leg'"
  using assms sent_bytes_nonneg [of "map packet_of out"] by (auto simp: drained_def rate_inv_def)

text \<open>A packet is dropped when the buffer is full; one that is to wait is lost when there is no memory.\<close>

definition accepts :: "rate_config \<Rightarrow> Link_Type \<Rightarrow> sys_scatter \<Rightarrow> rate_leg \<Rightarrow> bool" where
  "accepts cf ty scat leg \<longleftrightarrow> Leg_Rate_Limit_kbps cf < 0 \<or>
     int (length (waiting leg)) < Leg_Max_Buffered cf \<and>
     (waiting leg = [] \<and> scat_bytes scat \<le> bucket_bytes leg \<or>
      map_option fst (stdcarr_push_back (rl_malloc cf) (bucket_buf leg) \<lparr>lbc_link_type = ty, lbc_scat = scat, lbc_total_bytes = scat_bytes scat\<rparr>) = Some STDESUCCESS)"

abbreviation packets :: "rate_leg \<Rightarrow> (Link_Type \<times> sys_scatter) list" where
  "packets leg \<equiv> leg_sent leg @ map packet_of (waiting leg)"

lemma Link_Send_ok:
  assumes inv: "rate_inv cf leg" and small: "\<forall>e \<in> set scat. int (length e) \<le> MAX_PACKET_SIZE" and pos: "0 < scat_bytes scat"
  obtains ret leg' where "Link_Send cf ty scat leg = Inr (ret, leg')" "rate_inv cf leg'"
    "packets leg' = packets leg @ (if accepts cf ty scat leg then [(ty, scat)] else [])"
    "sent_bytes (leg_sent leg') + bucket_bytes leg' = sent_bytes (leg_sent leg) + bucket_bytes leg" "bucket_last_filled leg' = bucket_last_filled leg"
proof -
  let ?cell = "\<lparr>lbc_link_type = ty, lbc_scat = scat, lbc_total_bytes = scat_bytes scat\<rparr>"
  have C: "carr_inv (bucket_buf leg)" "\<forall>cell \<in> set (waiting leg). cell_ok cell" using inv by (auto simp: rate_inv_def)
  have size: "stdcarr_size (bucket_buf leg) = int (length (waiting leg))" and empty: "stdcarr_empty (bucket_buf leg) \<longleftrightarrow> waiting leg = []"
    using C(1) holds_seqD(4) [of "bucket_buf leg" "waiting leg"] carr_queue.is_empty_items [OF C(1)] by (auto simp: carr_inv_def stdcarr_size_def)
  consider (full) "0 \<le> Leg_Rate_Limit_kbps cf" "Leg_Max_Buffered cf \<le> int (length (waiting leg))"
    | (direct) "Leg_Rate_Limit_kbps cf < 0 \<or> int (length (waiting leg)) < Leg_Max_Buffered cf \<and> waiting leg = [] \<and> scat_bytes scat \<le> bucket_bytes leg"
    | (wait) "0 \<le> Leg_Rate_Limit_kbps cf" "int (length (waiting leg)) < Leg_Max_Buffered cf" "\<not> (waiting leg = [] \<and> scat_bytes scat \<le> bucket_bytes leg)"
    by linarith
  then show ?thesis
  proof cases
    case full
    then have "\<not> accepts cf ty scat leg" by (simp add: accepts_def)
    then show ?thesis using that [of 0 leg] full inv by (simp add: Link_Send_def size)
  next
    case direct
    then have "accepts cf ty scat leg" "waiting leg = []" using inv by (auto simp: accepts_def rate_inv_def)
    then show ?thesis using that [of "dl_send cf ty scat" "DL_send_on ty scat (scat_bytes scat) leg"] direct inv scat_bytes_nonneg [of scat]
      by (auto simp: Link_Send_def size empty DL_send_on_def rate_inv_def sent_bytes_def)
  next
    case wait
    obtain ret buf where P: "stdcarr_push_back (rl_malloc cf) (bucket_buf leg) ?cell = Some (ret, buf)" "carr_inv buf"
      "carr_items buf = (if ret = STDESUCCESS then waiting leg @ [?cell] else waiting leg)"
      using carr_queue.put_items [OF C(1)] by blast
    let ?leg = "leg\<lparr>bucket_buf := buf\<rparr>"
    have acc: "accepts cf ty scat leg \<longleftrightarrow> ret = STDESUCCESS" using wait P(1) by (auto simp: accepts_def)
    have cells: "\<forall>cell \<in> set (waiting ?leg). cell_ok cell" using C(2) P(3) pos by (auto simp: cell_ok_def)
    obtain r leg' out where T: "Leg_Try_Send_Buffered cf ?leg = Inr (r, leg')" "drained ?leg out leg'"
      using Leg_Try_Send_Buffered_ok [of ?leg cf] cells P(2) by auto
    have "Link_Send cf ty scat leg = Inr (0, leg')" using wait P(1) T(1) small unfolding Link_Send_def Let_def size empty by auto
    moreover have "rate_inv cf leg'" using wait(1) inv by (intro drained_inv [OF T(2) cells]) (simp add: rate_inv_def)
    moreover have "packets leg' = packets leg @ (if accepts cf ty scat leg then [(ty, scat)] else [])"
      using T(2) P(3) acc by (auto simp: drained_def packet_of_def split: if_splits) (metis map_append append.assoc list.simps(8,9) packet_of_def Leg_Buf_Cell.select_convs(1,2))+
    moreover have "sent_bytes (leg_sent leg') + bucket_bytes leg' = sent_bytes (leg_sent leg) + bucket_bytes leg" "bucket_last_filled leg' = bucket_last_filled leg"
      using T(2) by (auto simp: drained_def sent_bytes_def)
    ultimately show ?thesis using that by blast
  qed
qed

lemma queued_same: "rate_inv cf leg \<Longrightarrow> 0 \<le> Leg_Rate_Limit_kbps cf \<Longrightarrow> leg\<lparr>fill_queued := True\<rparr> = leg"
  by (simp add: rate_inv_def)

lemma Fill_Leg_Bucket_ok:
  assumes inv: "rate_inv cf leg" and rate: "0 \<le> Leg_Rate_Limit_kbps cf" and part: "bucket_bytes leg < Leg_Bucket_Cap cf"
    and add: "to_unsigned (rate_bytes cf (in_usec now - in_usec (bucket_last_filled leg))) = Inr n"
  obtains leg' out where "Fill_Leg_Bucket cf now leg = Inr leg'" "rate_inv cf leg'" "packets leg' = packets leg"
    "sent_bytes (leg_sent leg') + bucket_bytes leg' \<le> sent_bytes (leg_sent leg) + bucket_bytes leg + n" "bucket_last_filled leg' = now"
    "waiting leg = out @ waiting leg'" "waiting leg \<noteq> [] \<Longrightarrow> lbc_total_bytes (hd (waiting leg)) \<le> min (bucket_bytes leg + n) (Leg_Bucket_Cap cf) \<Longrightarrow> out \<noteq> []"
proof -
  let ?leg = "fill_bucket cf now n leg"
  have C: "carr_inv (bucket_buf leg)" "\<forall>cell \<in> set (waiting leg). cell_ok cell" using inv by (auto simp: rate_inv_def)
  have F: "bucket_buf ?leg = bucket_buf leg" "leg_sent ?leg = leg_sent leg" "bucket_last_filled ?leg = now" "bucket_bytes ?leg = min (bucket_bytes leg + n) (Leg_Bucket_Cap cf)" "fill_queued ?leg"
    using inv rate by (simp_all add: fill_bucket_def rate_inv_def)
  have delta: "rate_bytes cf (sec (E_sub_time now t) * 1000000 + usec (E_sub_time now t)) = rate_bytes cf (in_usec now - in_usec t)" for t
    using in_usec_sub [of now t] by (simp add: in_usec_def mult.commute)
  have fill: "Fill_Leg_Bucket cf now leg = (if \<not> stdcarr_empty (bucket_buf leg) \<and> 0 < bucket_bytes ?leg
      then bind_res (Leg_Try_Send_Buffered cf ?leg) (\<lambda>(_, leg'). Inr leg') else Inr ?leg)"
    using rate part add unfolding Fill_Leg_Bucket_def Let_def queued_same [OF inv rate] delta by (simp add: F)
  show ?thesis
  proof (cases "waiting leg \<noteq> [] \<and> 0 < bucket_bytes ?leg")
    case True
    then have ne: "\<not> stdcarr_empty (bucket_buf leg)" using carr_queue.is_empty_items [OF C(1)] by simp
    obtain r leg' out where T: "Leg_Try_Send_Buffered cf ?leg = Inr (r, leg')" "drained ?leg out leg'"
      using Leg_Try_Send_Buffered_ok [of ?leg cf] C by (auto simp: F)
    show ?thesis
    proof (rule that)
      show "Fill_Leg_Bucket cf now leg = Inr leg'" using fill T(1) ne True by simp
      show "rate_inv cf leg'" using rate by (intro drained_inv [OF T(2)]) (auto simp: F C)
      show "packets leg' = packets leg" "waiting leg = out @ waiting leg'" "bucket_last_filled leg' = now" using T(2) by (auto simp: drained_def F)
      show "sent_bytes (leg_sent leg') + bucket_bytes leg' \<le> sent_bytes (leg_sent leg) + bucket_bytes leg + n"
        using T(2) by (auto simp: drained_def F sent_bytes_def)
      show "out \<noteq> []" if "waiting leg \<noteq> []" "lbc_total_bytes (hd (waiting leg)) \<le> min (bucket_bytes leg + n) (Leg_Bucket_Cap cf)"
        using that by (intro drained_head [OF T(2)]) (simp_all add: F)
    qed
  next
    case False
    have low: "bucket_bytes ?leg < lbc_total_bytes (hd (waiting leg))" if "waiting leg \<noteq> []"
    proof -
      have "cell_ok (hd (waiting leg))" using C(2) that by simp
      then show ?thesis using False that unfolding cell_ok_def by linarith
    qed
    show ?thesis
    proof (rule that)
      show "Fill_Leg_Bucket cf now leg = Inr ?leg" using fill False carr_queue.is_empty_items [OF C(1)] by auto
      show "rate_inv cf ?leg" using inv rate low by (auto simp: rate_inv_def F)
      show "packets ?leg = packets leg" "waiting leg = [] @ waiting ?leg" "bucket_last_filled ?leg = now" by (simp_all add: F)
      show "sent_bytes (leg_sent ?leg) + bucket_bytes ?leg \<le> sent_bytes (leg_sent leg) + bucket_bytes leg + n" by (simp add: F)
      show "[] \<noteq> []" if "waiting leg \<noteq> []" "lbc_total_bytes (hd (waiting leg)) \<le> min (bucket_bytes leg + n) (Leg_Bucket_Cap cf)"
        using low [OF that(1)] that(2) by (simp add: F)
    qed
  qed
qed

section \<open>Runs\<close>

text \<open>A leg from its creation on, with the packets it has accepted. The clock does not run backwards, and
  what a packet is made of fits the buffers.\<close>

definition packet_fits :: "sys_scatter \<Rightarrow> bool" where
  "packet_fits scat \<longleftrightarrow> (\<forall>e \<in> set scat. int (length e) \<le> MAX_PACKET_SIZE) \<and> 0 < scat_bytes scat"

inductive rate_run :: "rate_config \<Rightarrow> sp_time \<Rightarrow> rate_leg \<Rightarrow> (Link_Type \<times> sys_scatter) list \<Rightarrow> bool" for cf t0 where
  created: "rate_run cf t0 (new_rate_leg cf t0) []"
| send: "rate_run cf t0 leg acc \<Longrightarrow> packet_fits scat \<Longrightarrow> Link_Send cf ty scat leg = Inr (ret, leg') \<Longrightarrow>
    rate_run cf t0 leg' (acc @ (if accepts cf ty scat leg then [(ty, scat)] else []))"
| fill: "rate_run cf t0 leg acc \<Longrightarrow> in_usec (bucket_last_filled leg) \<le> in_usec now \<Longrightarrow> Fill_Leg_Bucket cf now leg = Inr leg' \<Longrightarrow>
    rate_run cf t0 leg' acc"

inductive_cases rate_runE: "rate_run cf t0 leg acc"

lemma new_rate_leg_inv: "rate_inv cf (new_rate_leg cf t0)"
proof -
  have "holds_seq (stdcarr_construct False False :: Leg_Buf_Cell stdcarr) []" by (rule carr_run_holds [OF carr_run.construct])
  then show ?thesis using holds_carr_inv by (fastforce simp: rate_inv_def new_rate_leg_def)
qed

text \<open>What a fill does, whatever the state of the bucket.\<close>

lemma Fill_cases:
  assumes "rate_inv cf leg" "Fill_Leg_Bucket cf now leg = Inr leg'"
  shows "leg' = leg \<or> (\<exists>n. rate_inv cf leg' \<and> packets leg' = packets leg \<and> bucket_last_filled leg' = now \<and>
    of_int n \<le> rate_bytes cf (in_usec now - in_usec (bucket_last_filled leg)) \<and>
    sent_bytes (leg_sent leg') + bucket_bytes leg' \<le> sent_bytes (leg_sent leg) + bucket_bytes leg + n)"
proof (cases "bucket_bytes leg = Leg_Bucket_Cap cf")
  case True
  then show ?thesis using assms(2) queued_same [OF assms(1)] by (auto simp: Fill_Leg_Bucket_def split: if_splits)
next
  case False
  let ?x = "rate_bytes cf (in_usec now - in_usec (bucket_last_filled leg))"
  have rate: "0 \<le> Leg_Rate_Limit_kbps cf" using assms(2) by (auto simp: Fill_Leg_Bucket_def split: if_splits)
  then have part: "bucket_bytes leg < Leg_Bucket_Cap cf" using assms(1) False by (simp add: rate_inv_def)
  have delta: "rate_bytes cf (sec (E_sub_time now t) * 1000000 + usec (E_sub_time now t)) = rate_bytes cf (in_usec now - in_usec t)" for t
    using in_usec_sub [of now t] by (simp add: in_usec_def mult.commute)
  obtain n where n: "to_unsigned ?x = Inr n" using assms(2) rate part unfolding Fill_Leg_Bucket_def Let_def queued_same [OF assms(1) rate] delta by (auto elim: bind_res_InrE)
  then have "of_int n \<le> ?x" by (auto simp: to_unsigned_def split: if_splits)
  then show ?thesis using Fill_Leg_Bucket_ok [OF assms(1) rate part n] assms(2) by (metis Inr_inject)
qed

lemma rate_run_inv: "rate_run cf t0 leg acc \<Longrightarrow> rate_inv cf leg \<and> packets leg = acc"
proof (induction rule: rate_run.induct)
  case created
  have "holds_seq (stdcarr_construct False False :: Leg_Buf_Cell stdcarr) []" by (rule carr_run_holds [OF carr_run.construct])
  then show ?case using new_rate_leg_inv holds_carr_inv by (fastforce simp: new_rate_leg_def)
next
  case (send leg acc scat ty ret leg')
  then show ?case using Link_Send_ok [of cf leg scat ty] unfolding packet_fits_def by (metis Inr_inject prod.inject)
next
  case (fill leg acc now leg')
  then show ?case using Fill_cases [of cf leg now leg'] by metis
qed

section \<open>What the rate limit promises\<close>

text \<open>C32: the packets a leg has sent, followed by those that wait, are the packets it has accepted in the order they
  came; packets wait only while the first of them is larger than what the bucket holds, and the bucket
  never holds more than its capacity. Sending a packet that fits the buffers never fails.\<close>

theorem rate_leg_is_fifo:
  assumes "rate_run cf t0 leg acc"
  shows "leg_sent leg @ map packet_of (waiting leg) = acc \<and>
    (waiting leg \<noteq> [] \<longrightarrow> bucket_bytes leg < lbc_total_bytes (hd (waiting leg))) \<and>
    (0 \<le> Leg_Rate_Limit_kbps cf \<longrightarrow> bucket_bytes leg \<le> Leg_Bucket_Cap cf) \<and>
    (\<forall>ty scat. packet_fits scat \<longrightarrow> (\<exists>ret leg'. Link_Send cf ty scat leg = Inr (ret, leg')))"
proof -
  note I = rate_run_inv [OF assms]
  have "\<exists>ret leg'. Link_Send cf ty scat leg = Inr (ret, leg')" if "packet_fits scat" for ty scat
    using Link_Send_ok [of cf leg scat ty] I that unfolding packet_fits_def by metis
  with I show ?thesis by (simp add: rate_inv_def)
qed

text \<open>The rounding of \<open>double\<close> in the range the code uses: the relative error is at most \<open>1 / 2 ^ 53\<close>, and zero is
  exact.\<close>

definition rounds_double :: "rate_config \<Rightarrow> bool" where
  "rounds_double cf \<longleftrightarrow> dbl cf 0 = 0 \<and> (\<forall>x \<ge> 1 / 10000. \<bar>dbl cf x - x\<bar> \<le> x / 2 ^ 53)"

definition max_rate :: "rate_config \<Rightarrow> rat" where
  "max_rate cf = (1 + 1 / 2 ^ 53) ^ 2 * of_int (Leg_Rate_Limit_kbps cf) / 8000"

lemma rate_bytes_le:
  assumes "rounds_double cf" "0 \<le> Leg_Rate_Limit_kbps cf" "0 \<le> us"
  shows "rate_bytes cf us \<le> max_rate cf * of_int us"
proof (cases "Leg_Rate_Limit_kbps cf = 0 \<or> us = 0")
  case True
  then show ?thesis using assms by (auto simp: rate_bytes_def max_rate_def rounds_double_def)
next
  case False
  let ?e = "1 + 1 / 2 ^ 53 :: rat" let ?r = "of_int (Leg_Rate_Limit_kbps cf) / 8000 :: rat"
  have pos: "1 \<le> Leg_Rate_Limit_kbps cf" "1 \<le> us" using False assms by auto
  have round: "\<bar>dbl cf x - x\<bar> \<le> x / 2 ^ 53" if "1 / 10000 \<le> x" for x using assms(1) that unfolding rounds_double_def by blast
  have near: "x - x / 2 ^ 53 \<le> dbl cf x" "dbl cf x \<le> x + x / 2 ^ 53" if "1 / 10000 \<le> x" for x
    using round [OF that] unfolding abs_le_iff by linarith+
  then have up: "dbl cf x \<le> ?e * x" if "1 / 10000 \<le> x" for x using that by (simp add: algebra_simps)
  have r: "1 / 8000 \<le> ?r" using pos(1) by simp
  then have d: "1 / 10000 \<le> dbl cf ?r" "dbl cf ?r \<le> ?e * ?r" using near(1) [of ?r] up [of ?r] by (simp_all add: field_simps)
  have "1 / 10000 * 1 \<le> dbl cf ?r * of_int us" using d(1) pos(2) by (intro mult_mono) auto
  then have "rate_bytes cf us \<le> ?e * (dbl cf ?r * of_int us)" using up by (simp add: rate_bytes_def)
  also have "\<dots> \<le> ?e * (?e * ?r * of_int us)" using d(2) assms(3) by (intro mult_left_mono mult_right_mono) auto
  finally show ?thesis by (simp add: max_rate_def power2_eq_square algebra_simps)
qed

lemma rate_run_bytes:
  assumes "rounds_double cf" "0 \<le> Leg_Rate_Limit_kbps cf"
  shows "rate_run cf t0 leg acc \<Longrightarrow>
    of_int (sent_bytes (leg_sent leg) + bucket_bytes leg) \<le> of_int (Leg_Bucket_Cap cf) + max_rate cf * of_int (in_usec (bucket_last_filled leg) - in_usec t0)"
proof (induction rule: rate_run.induct)
  case created
  then show ?case using assms(2) by (simp add: new_rate_leg_def sent_bytes_def)
next
  case (send leg acc scat ty ret leg')
  then show ?case using Link_Send_ok [of cf leg scat ty] rate_run_inv [OF send.hyps(1)] unfolding packet_fits_def by (metis Inr_inject prod.inject)
next
  case (fill leg acc now leg')
  let ?d = "in_usec now - in_usec (bucket_last_filled leg)"
  consider "leg' = leg" | n where "of_int n \<le> rate_bytes cf ?d" "bucket_last_filled leg' = now"
    "sent_bytes (leg_sent leg') + bucket_bytes leg' \<le> sent_bytes (leg_sent leg) + bucket_bytes leg + n"
    using Fill_cases [of cf leg now leg'] rate_run_inv [OF fill.hyps(1)] fill.hyps(3) by blast
  then show ?case
  proof cases
    case 2
    have "of_int (sent_bytes (leg_sent leg') + bucket_bytes leg') \<le> (of_int (sent_bytes (leg_sent leg) + bucket_bytes leg) + of_int n :: rat)"
      using 2(3) by (metis of_int_add of_int_le_iff)
    also have "\<dots> \<le> of_int (Leg_Bucket_Cap cf) + max_rate cf * of_int (in_usec (bucket_last_filled leg) - in_usec t0) + max_rate cf * of_int ?d"
      using fill.IH 2(1) rate_bytes_le [OF assms, of ?d] fill.hyps(2) by simp
    also have "\<dots> = of_int (Leg_Bucket_Cap cf) + max_rate cf * of_int (in_usec now - in_usec t0)" by (simp add: algebra_simps)
    finally show ?thesis using 2(2) by simp
  qed (use fill.IH in simp)
qed

text \<open>C33: the bytes a leg has sent since its creation, together with what its bucket holds, are at most the
  capacity of the bucket and what the rate allows for the time up to the last filling.\<close>

theorem rate_leg_bound:
  assumes "rounds_double cf" "0 \<le> Leg_Rate_Limit_kbps cf" "rate_run cf t0 leg acc"
  shows "of_int (sent_bytes (leg_sent leg) + bucket_bytes leg) \<le>
    of_int (Leg_Bucket_Cap cf) + max_rate cf * of_int (in_usec (bucket_last_filled leg) - in_usec t0)"
  by (rule rate_run_bytes [OF assms])

text \<open>A filling sends the first packet that waits as soon as the bucket can hold that many bytes with what the
  filling adds; in particular every packet that is not larger than the capacity is sent once enough
  time has passed.\<close>

theorem Fill_sends_waiting:
  assumes "rate_run cf t0 leg acc" "0 \<le> Leg_Rate_Limit_kbps cf" "bucket_bytes leg < Leg_Bucket_Cap cf" "waiting leg \<noteq> []"
    and "to_unsigned (rate_bytes cf (in_usec now - in_usec (bucket_last_filled leg))) = Inr n"
    and "lbc_total_bytes (hd (waiting leg)) \<le> min (bucket_bytes leg + n) (Leg_Bucket_Cap cf)"
  shows "\<exists>leg' out. Fill_Leg_Bucket cf now leg = Inr leg' \<and> out \<noteq> [] \<and> waiting leg = out @ waiting leg' \<and> leg_sent leg' = leg_sent leg @ map packet_of out"
proof -
  have inv: "rate_inv cf leg" using rate_run_inv [OF assms(1)] by simp
  obtain leg' out where "Fill_Leg_Bucket cf now leg = Inr leg'" "packets leg' = packets leg" "waiting leg = out @ waiting leg'" "out \<noteq> []"
    by (rule Fill_Leg_Bucket_ok [OF inv assms(2,3,5)]) (use assms(4,6) in blast)
  then show ?thesis by auto
qed

text \<open>C34: while the bucket is full the timer does not advance the time of the last filling. When nothing was sent
  for so long that the rate allows \<open>2 ^ 32\<close> bytes, the filling after the next packet converts a number
  that does not fit an \<open>unsigned int\<close>.\<close>

theorem Fill_overflows_after_idle:
  assumes "rate_run cf t0 leg acc" "0 \<le> Leg_Rate_Limit_kbps cf" "bucket_bytes leg = Leg_Bucket_Cap cf" "waiting leg = []" "0 < Leg_Max_Buffered cf"
    and "0 < scat_bytes scat" "scat_bytes scat \<le> Leg_Bucket_Cap cf"
    and "2 ^ 32 \<le> rate_bytes cf (in_usec now - in_usec (bucket_last_filled leg))"
  shows "(\<forall>t. Fill_Leg_Bucket cf t leg = Inr leg) \<and>
    (\<exists>ret leg1 e. Link_Send cf ty scat leg = Inr (ret, leg1) \<and> Fill_Leg_Bucket cf now leg1 = Inl (UNDEF e))"
proof
  show "\<forall>t. Fill_Leg_Bucket cf t leg = Inr leg" using assms(2,3) queued_same [OF conjunct1 [OF rate_run_inv [OF assms(1)]] assms(2)] by (simp add: Fill_Leg_Bucket_def)
  have C: "carr_inv (bucket_buf leg)" using rate_run_inv [OF assms(1)] by (simp add: rate_inv_def)
  have empty: "stdcarr_empty (bucket_buf leg)" "stdcarr_size (bucket_buf leg) = 0"
    using C assms(4) carr_queue.is_empty_items [OF C] holds_seqD(4) [of "bucket_buf leg" "[]"] by (auto simp: carr_inv_def stdcarr_size_def)
  let ?leg = "DL_send_on ty scat (scat_bytes scat) leg"
  have "in_usec (E_sub_time now (bucket_last_filled leg)) = in_usec now - in_usec (bucket_last_filled leg)" by simp
  then have "2 ^ 32 \<le> rate_bytes cf (sec (E_sub_time now (bucket_last_filled leg)) * 1000000 + usec (E_sub_time now (bucket_last_filled leg)))"
    using assms(8) by (simp add: in_usec_def mult.commute)
  then have "Fill_Leg_Bucket cf now ?leg = Inl (UNDEF ''conversion to unsigned int'')"
    using assms(2,3,6) by (simp add: Fill_Leg_Bucket_def DL_send_on_def to_unsigned_def Let_def)
  moreover have "Link_Send cf ty scat leg = Inr (dl_send cf ty scat, ?leg)" using assms(3,5,7) empty by (simp add: Link_Send_def)
  ultimately show "\<exists>ret leg1 e. Link_Send cf ty scat leg = Inr (ret, leg1) \<and> Fill_Leg_Bucket cf now leg1 = Inl (UNDEF e)" by blast
qed

section \<open>The default configuration\<close>

text \<open>\<open>spines.c\<close> limits every leg to 500000 kbps unless it is told otherwise.\<close>

definition default_rate :: rate_config where
  "default_rate = set_limits \<lparr>Leg_Rate_Limit_kbps = 500000, Leg_Bucket_Cap = 0, Leg_Max_Buffered = 0, rl_malloc = (\<lambda>_. True),
     dl_send = (\<lambda>ty scat. scat_bytes scat), dbl = (\<lambda>x. x)\<rparr>"

lemma default_rate_sel:
  "Leg_Rate_Limit_kbps default_rate = 500000" "Leg_Bucket_Cap default_rate = 32722" "Leg_Max_Buffered default_rate = 32722"
  "dbl default_rate = (\<lambda>x. x)" "rl_malloc default_rate = (\<lambda>_. True)"
  by (simp_all add: default_rate_def set_limits_def rate_bytes_def LEG_BUCKET_FILL_USEC_def MAX_PACKET_SIZE_def)

definition demo_packet :: sys_scatter where "demo_packet = [[1, 2, 3], [4]]"

lemma demo_packet_fits: "packet_fits demo_packet" "scat_bytes demo_packet = 4"
  by (simp_all add: packet_fits_def demo_packet_def MAX_PACKET_SIZE_def scat_bytes_def)

lemma new_default_leg:
  "bucket_bytes (new_rate_leg default_rate \<lparr>sec = 0, usec = 0\<rparr>) = 32722" "waiting (new_rate_leg default_rate \<lparr>sec = 0, usec = 0\<rparr>) = []"
  "bucket_last_filled (new_rate_leg default_rate \<lparr>sec = 0, usec = 0\<rparr>) = \<lparr>sec = 0, usec = 0\<rparr>"
  using rate_run_inv [OF rate_run.created, of default_rate "\<lparr>sec = 0, usec = 0\<rparr>"] by (simp_all add: new_rate_leg_def default_rate_sel)

theorem Fill_overflows_after_idle_witness:
  "\<exists>ret leg1 e. Link_Send default_rate UDP_LINK demo_packet (new_rate_leg default_rate \<lparr>sec = 0, usec = 0\<rparr>) = Inr (ret, leg1) \<and>
     Fill_Leg_Bucket default_rate \<lparr>sec = 70, usec = 0\<rparr> leg1 = Inl (UNDEF e)"
  using Fill_overflows_after_idle [OF rate_run.created, of default_rate "\<lparr>sec = 0, usec = 0\<rparr>" demo_packet "\<lparr>sec = 70, usec = 0\<rparr>" UDP_LINK]
  by (simp add: default_rate_sel new_default_leg demo_packet_fits rate_bytes_def in_usec_def)

text \<open>A slow leg, on which a second packet has to wait.\<close>

definition slow_rate :: rate_config where
  "slow_rate = set_limits \<lparr>Leg_Rate_Limit_kbps = 16, Leg_Bucket_Cap = 0, Leg_Max_Buffered = 0, rl_malloc = (\<lambda>_. True),
     dl_send = (\<lambda>ty scat. scat_bytes scat), dbl = (\<lambda>x. x)\<rparr>"

lemma slow_rate_sel:
  "Leg_Rate_Limit_kbps slow_rate = 16" "Leg_Bucket_Cap slow_rate = 1473" "Leg_Max_Buffered slow_rate = 1473" "dbl slow_rate = (\<lambda>x. x)" "rl_malloc slow_rate = (\<lambda>_. True)"
  by (simp_all add: slow_rate_def set_limits_def rate_bytes_def LEG_BUCKET_FILL_USEC_def MAX_PACKET_SIZE_def)

definition long_packet :: sys_scatter where "long_packet = [replicate 1000 0]"

lemma long_packet_fits: "packet_fits long_packet" "scat_bytes long_packet = 1000"
  by (simp_all add: packet_fits_def long_packet_def MAX_PACKET_SIZE_def scat_bytes_def)

definition first_leg :: rate_leg where
  "first_leg = DL_send_on UDP_LINK long_packet 1000 (new_rate_leg slow_rate \<lparr>sec = 0, usec = 0\<rparr>)"

lemma first_leg_sel: "bucket_bytes first_leg = 473" "bucket_buf first_leg = stdcarr_construct False False" "leg_sent first_leg = [(UDP_LINK, long_packet)]"
  "bucket_last_filled first_leg = \<lparr>sec = 0, usec = 0\<rparr>"
  by (simp_all add: first_leg_def DL_send_on_def new_rate_leg_def slow_rate_sel)

lemma construct_items: "holds_seq (stdcarr_construct False False) []" "carr_items (stdcarr_construct False False) = []"
  using carr_run_holds [OF carr_run.construct] holds_carr_inv by blast+

lemma first_leg_run: "rate_run slow_rate \<lparr>sec = 0, usec = 0\<rparr> first_leg [(UDP_LINK, long_packet)]"
proof -
  let ?leg = "new_rate_leg slow_rate \<lparr>sec = 0, usec = 0\<rparr>"
  have "bucket_buf ?leg = stdcarr_construct False False" "bucket_bytes ?leg = 1473" by (simp_all add: new_rate_leg_def slow_rate_sel)
  then have "Link_Send slow_rate UDP_LINK long_packet ?leg = Inr (dl_send slow_rate UDP_LINK long_packet, first_leg)"
    "accepts slow_rate UDP_LINK long_packet ?leg"
    by (simp_all add: Link_Send_def accepts_def first_leg_def slow_rate_sel long_packet_fits stdcarr_size_def stdcarr_empty_def stdcarr_construct_def
        construct_items [unfolded stdcarr_construct_def])
  then show ?thesis using rate_run.send [OF rate_run.created long_packet_fits(1)] by force
qed

text \<open>The second packet waits.\<close>

lemma second_leg:
  obtains leg cell where "rate_run slow_rate \<lparr>sec = 0, usec = 0\<rparr> leg [(UDP_LINK, long_packet), (UDP_LINK, long_packet)]" "waiting leg = [cell]"
    "lbc_total_bytes cell = 1000" "bucket_bytes leg = 473" "bucket_last_filled leg = \<lparr>sec = 0, usec = 0\<rparr>"
proof -
  let ?cell = "\<lparr>lbc_link_type = UDP_LINK, lbc_scat = long_packet, lbc_total_bytes = 1000\<rparr>"
  let ?c = "stdcarr_construct False False :: Leg_Buf_Cell stdcarr"
  have legal: "legal ?c" by (rule holds_seqD(1) [OF construct_items(1)])
  obtain buf where B: "stdcarr_push_back (\<lambda>_. True) ?c ?cell = Some (STDESUCCESS, buf)" "legal buf" "contents buf = [Some ?cell]"
    using push_back_n_ok [OF legal, of "\<lambda>_. True" "[?cell]"]
    by (auto simp: push_one no_room_def holds_seqD(2) [OF construct_items(1)] split: if_splits) (simp add: stdcarr_construct_def)
  then have items: "holds_seq buf [?cell]" by (simp add: holds_seq_def)
  let ?leg = "first_leg\<lparr>bucket_buf := buf\<rparr>"
  have "try_send_loop slow_rate 0 ?leg = Some (0, ?leg)"
    using carr_queue.front_items [of buf] carr_queue.is_empty_items [of buf] holds_carr_inv [OF items]
    by (subst try_send_loop.simps) (simp add: carr_front_def first_leg_sel)
  then have "Link_Send slow_rate UDP_LINK long_packet first_leg = Inr (0, ?leg)"
    using B(1) long_packet_fits(1)
    by (auto simp: Link_Send_def Leg_Try_Send_Buffered_def first_leg_sel slow_rate_sel long_packet_fits(2) packet_fits_def stdcarr_size_def stdcarr_empty_def
        stdcarr_construct_def [of False False])
  moreover have "accepts slow_rate UDP_LINK long_packet first_leg"
    using B(1) by (simp add: accepts_def first_leg_sel slow_rate_sel long_packet_fits construct_items)
  ultimately have "rate_run slow_rate \<lparr>sec = 0, usec = 0\<rparr> ?leg [(UDP_LINK, long_packet), (UDP_LINK, long_packet)]"
    using rate_run.send [OF first_leg_run long_packet_fits(1)] by force
  then show ?thesis using that [of ?leg ?cell] holds_carr_inv [OF items] by (simp add: first_leg_sel)
qed

theorem Fill_sends_waiting_witness:
  "\<exists>leg leg' out. Fill_Leg_Bucket slow_rate \<lparr>sec = 1, usec = 0\<rparr> leg = Inr leg' \<and> out \<noteq> [] \<and> length (waiting leg) = 1 \<and>
     waiting leg = out @ waiting leg' \<and> leg_sent leg' = leg_sent leg @ map packet_of out"
proof -
  obtain leg cell where L: "rate_run slow_rate \<lparr>sec = 0, usec = 0\<rparr> leg [(UDP_LINK, long_packet), (UDP_LINK, long_packet)]" "waiting leg = [cell]"
    "lbc_total_bytes cell = 1000" "bucket_bytes leg = 473" "bucket_last_filled leg = \<lparr>sec = 0, usec = 0\<rparr>" by (rule second_leg)
  have "to_unsigned (rate_bytes slow_rate (in_usec \<lparr>sec = 1, usec = 0\<rparr> - in_usec (bucket_last_filled leg))) = Inr 2000"
    by (simp add: L rate_bytes_def slow_rate_sel in_usec_def to_unsigned_def)
  from Fill_sends_waiting [OF L(1) _ _ _ this] L show ?thesis by (fastforce simp: slow_rate_sel)
qed

theorem rate_leg_is_fifo_witness:
  "\<exists>leg. leg_sent leg @ map packet_of (waiting leg) = [(UDP_LINK, long_packet), (UDP_LINK, long_packet)] \<and> length (waiting leg) = 1 \<and>
     bucket_bytes leg < lbc_total_bytes (hd (waiting leg)) \<and> bucket_bytes leg \<le> 1473 \<and> (\<exists>ret leg'. Link_Send slow_rate UDP_LINK demo_packet leg = Inr (ret, leg'))"
proof -
  obtain leg cell where L: "rate_run slow_rate \<lparr>sec = 0, usec = 0\<rparr> leg [(UDP_LINK, long_packet), (UDP_LINK, long_packet)]" "waiting leg = [cell]"
    by (rule second_leg)
  then show ?thesis using rate_leg_is_fifo [OF L(1)] demo_packet_fits by (intro exI [of _ leg]) (simp add: slow_rate_sel)
qed

theorem rate_leg_bound_witness:
  "rat_of_int (sent_bytes (leg_sent first_leg) + bucket_bytes first_leg) \<le> 1473"
proof -
  have "rounds_double slow_rate" by (simp add: rounds_double_def slow_rate_sel)
  from rate_leg_bound [OF this _ first_leg_run] show ?thesis by (simp add: slow_rate_sel first_leg_sel)
qed

end
