(* ===== verification/Hash_Table.thy ===== *)
theory Hash_Table
  imports Prelude
begin

text \<open>
  The view that the daemon has of a \<open>stdhash\<close>: an association list whose order is the order
  in which an iterator visits the entries. Every operation acts on the entry that a find returns.
  Several entries may share a key (\<open>stdhash_insert\<close> never replaces), which is how the daemon
  keeps its changed states; \<open>stdhash_keyed_next\<close> goes through them. The laws the clients use are
  the assumptions of the locale \<open>hash_table\<close>.
\<close>

type_synonym ('k, 'v) stdhash = "('k \<times> 'v) list"

definition stdhash_find :: "('k, 'v) stdhash \<Rightarrow> 'k \<Rightarrow> 'v option" where
  "stdhash_find h k = map_of h k"

definition stdhash_contains :: "('k, 'v) stdhash \<Rightarrow> 'k \<Rightarrow> bool" where
  "stdhash_contains h k \<longleftrightarrow> stdhash_find h k \<noteq> None"

definition stdhash_insert :: "('k, 'v) stdhash \<Rightarrow> 'k \<Rightarrow> 'v \<Rightarrow> ('k, 'v) stdhash" where
  "stdhash_insert h k v = h @ [(k, v)]"

fun stdhash_erase :: "('k, 'v) stdhash \<Rightarrow> 'k \<Rightarrow> ('k, 'v) stdhash" where
  "stdhash_erase [] k = []"
| "stdhash_erase ((k', v') # h) k = (if k' = k then h else (k', v') # stdhash_erase h k)"

text \<open>A write through the pointer that an iterator gives.\<close>

fun stdhash_modify :: "('k, 'v) stdhash \<Rightarrow> 'k \<Rightarrow> ('v \<Rightarrow> 'v) \<Rightarrow> ('k, 'v) stdhash" where
  "stdhash_modify [] k f = []"
| "stdhash_modify ((k', v') # h) k f =
     (if k' = k then (k', f v') # h else (k', v') # stdhash_modify h k f)"

definition stdhash_put :: "('k, 'v) stdhash \<Rightarrow> 'k \<Rightarrow> 'v \<Rightarrow> ('k, 'v) stdhash" where
  "stdhash_put h k v =
     (if stdhash_contains h k then stdhash_modify h k (\<lambda>_. v) else stdhash_insert h k v)"

definition stdhash_keys :: "('k, 'v) stdhash \<Rightarrow> 'k list" where
  "stdhash_keys h = map fst h"

definition stdhash_vals :: "('k, 'v) stdhash \<Rightarrow> 'v list" where
  "stdhash_vals h = map snd h"

text \<open>A table in which no two entries share a key.\<close>

definition unique_keys :: "('k, 'v) stdhash \<Rightarrow> bool" where
  "unique_keys h \<longleftrightarrow> distinct (map fst h)"

locale hash_table =
  fixes find :: "'h \<Rightarrow> 'k \<Rightarrow> 'v option"
    and insert :: "'h \<Rightarrow> 'k \<Rightarrow> 'v \<Rightarrow> 'h"
    and put :: "'h \<Rightarrow> 'k \<Rightarrow> 'v \<Rightarrow> 'h"
    and erase :: "'h \<Rightarrow> 'k \<Rightarrow> 'h"
    and modify :: "'h \<Rightarrow> 'k \<Rightarrow> ('v \<Rightarrow> 'v) \<Rightarrow> 'h"
    and ok :: "'h \<Rightarrow> bool"
  assumes find_insert: "find (insert h k v) k' = (if k' = k \<and> find h k = None then Some v else find h k')"
    and find_put: "find (put h k v) k' = (if k' = k then Some v else find h k')"
    and find_erase: "ok h \<Longrightarrow> find (erase h k) k' = (if k' = k then None else find h k')"
    and find_modify: "find (modify h k f) k' = (if k' = k then map_option f (find h k) else find h k')"
    and ok_insert: "ok h \<Longrightarrow> find h k = None \<Longrightarrow> ok (insert h k v)"
    and ok_put: "ok h \<Longrightarrow> ok (put h k v)"
    and ok_erase: "ok h \<Longrightarrow> ok (erase h k)"
    and ok_modify: "ok (modify h k f) = ok h"
begin

lemma find_insert_new: "find h k = None \<Longrightarrow> find (insert h k v) = (find h)(k \<mapsto> v)"
  by (auto simp: find_insert)

lemma find_put_map: "find (put h k v) = (find h)(k \<mapsto> v)"
  by (auto simp: find_put)

lemma find_modify_map:
  "find h k = Some v \<Longrightarrow> find (modify h k f) = (find h)(k \<mapsto> f v)"
  by (auto simp: find_modify)

lemma modify_absent: "find h k = None \<Longrightarrow> find (modify h k f) = find h"
  by (auto simp: find_modify fun_eq_iff)

text \<open>Find-or-insert, the way every client fills a table: after it the key is there, and no
  other entry has changed.\<close>

lemma find_or_insert:
  "find (if find h k = None then insert h k v else h) k' =
     (if k' = k then (case find h k of None \<Rightarrow> Some v | Some u \<Rightarrow> Some u) else find h k')"
  by (auto simp: find_insert split: option.splits)

lemma ok_find_or_insert: "ok h \<Longrightarrow> ok (if find h k = None then insert h k v else h)"
  by (simp add: ok_insert)

end

lemma keys_stdhash_modify [simp]: "map fst (stdhash_modify h k f) = map fst h"
  by (induction h k f rule: stdhash_modify.induct) auto

lemma map_of_stdhash_modify:
  "map_of (stdhash_modify h k f) k' = (if k' = k then map_option f (map_of h k) else map_of h k')"
  by (induction h k f rule: stdhash_modify.induct) auto

lemma keys_stdhash_erase: "set (map fst (stdhash_erase h k)) \<subseteq> set (map fst h)"
  by (induction h k rule: stdhash_erase.induct) auto

lemma unique_stdhash_erase: "unique_keys h \<Longrightarrow> unique_keys (stdhash_erase h k)"
proof (induction h)
  case (Cons e h)
  moreover have "fst e \<notin> set (map fst (stdhash_erase h k))" if "fst e \<notin> set (map fst h)"
    using that keys_stdhash_erase [of h k] by blast
  ultimately show ?case by (cases e) (auto simp: unique_keys_def)
qed simp

lemma map_of_stdhash_erase:
  "unique_keys h \<Longrightarrow> map_of (stdhash_erase h k) k' = (if k' = k then None else map_of h k')"
  unfolding unique_keys_def
  by (induction h) (auto, metis map_of_eq_None_iff)

lemma unique_stdhash_insert:
  "unique_keys h \<Longrightarrow> stdhash_find h k = None \<Longrightarrow> unique_keys (stdhash_insert h k v)"
  by (auto simp: unique_keys_def stdhash_insert_def stdhash_find_def map_of_eq_None_iff)

interpretation sh: hash_table stdhash_find stdhash_insert stdhash_put stdhash_erase
  stdhash_modify unique_keys
proof unfold_locales
  fix h :: "('k, 'v) stdhash" and k k' :: 'k and v :: 'v and f :: "'v \<Rightarrow> 'v"
  show ins: "stdhash_find (stdhash_insert h k v) k' =
      (if k' = k \<and> stdhash_find h k = None then Some v else stdhash_find h k')"
    by (auto simp: stdhash_find_def stdhash_insert_def map_add_def split: option.splits)
  show mdf: "stdhash_find (stdhash_modify h k f) k' =
      (if k' = k then map_option f (stdhash_find h k) else stdhash_find h k')"
    by (simp add: stdhash_find_def map_of_stdhash_modify)
  show "stdhash_find (stdhash_put h k v) k' = (if k' = k then Some v else stdhash_find h k')"
    using ins by (auto simp: stdhash_put_def stdhash_contains_def stdhash_find_def
        map_of_stdhash_modify)
  show "unique_keys h \<Longrightarrow> stdhash_find (stdhash_erase h k) k' =
      (if k' = k then None else stdhash_find h k')"
    by (simp add: stdhash_find_def map_of_stdhash_erase)
  show "unique_keys h \<Longrightarrow> stdhash_find h k = None \<Longrightarrow> unique_keys (stdhash_insert h k v)"
    by (rule unique_stdhash_insert)
  show "unique_keys h \<Longrightarrow> unique_keys (stdhash_put h k v)"
    using unique_stdhash_insert [of h k v]
    by (auto simp: stdhash_put_def stdhash_contains_def unique_keys_def)
  show "unique_keys h \<Longrightarrow> unique_keys (stdhash_erase h k)" by (rule unique_stdhash_erase)
  show "unique_keys (stdhash_modify h k f) = unique_keys h" by (simp add: unique_keys_def)
qed

lemma set_stdhash_insert: "set (stdhash_insert h k v) = insert (k, v) (set h)"
  by (simp add: stdhash_insert_def)

lemma stdhash_find_in_set: "stdhash_find h k = Some v \<Longrightarrow> (k, v) \<in> set h"
  by (simp add: stdhash_find_def map_of_SomeD)

lemma stdhash_find_unique: "unique_keys h \<Longrightarrow> (k, v) \<in> set h \<longleftrightarrow> stdhash_find h k = Some v"
  by (simp add: unique_keys_def stdhash_find_def)

lemma stdhash_find_None: "stdhash_find h k = None \<longleftrightarrow> k \<notin> fst ` set h"
  by (simp add: stdhash_find_def map_of_eq_None_iff)

lemma stdhash_find_Nil [simp]: "stdhash_find [] k = None"
  by (simp add: stdhash_find_def)

end
