(* ===== verification/Std_Hash.thy ===== *)
theory Std_Hash
  imports Std_Util Hash_Table "HOL-Library.Word"
begin

text \<open>
  The hash table of \<open>stdutil/src/stdhash.c\<close>: open addressing with double hashing. A position is an
  index into the table; the position behind the last one (\<open>table_end\<close>) is the length of the table. A
  position holds no node (\<open>None\<close>), an inactive node (hash code zero), or an active one. The capacity
  \<open>cap_min1 + 1\<close> is the length of the table. Keys that the comparison of the table takes for equal are
  equal in the model, and so the hash function is a function of the key.

  The loops that follow a probe sequence have no bound in the code; a loop that does not end has the
  value \<open>None\<close>. Whether memory is available is a parameter.
\<close>

unbundle bit_operations_syntax

section \<open>Data\<close>

type_synonym stdhcode = "32 word"

definition STDHASH_MIN_AUTO_ALLOC :: nat where "STDHASH_MIN_AUTO_ALLOC = 16"

record ('k, 'v) stdhash_node =
  hcode :: stdhcode
  nkey :: 'k
  nval :: 'v

record ('k, 'v) stdhash =
  table :: "('k, 'v) stdhash_node option list"
  begin_pos :: nat
  cap_lg :: nat
  num_nodes :: nat
  hsize :: nat
  NO_AUTO_GROW :: bool
  NO_AUTO_SHRINK :: bool

text \<open>The hash function of a table, and the memory: \<open>calloc_ok n\<close> tells whether a table of \<open>n\<close> positions
  can be had, \<open>malloc_ok\<close> whether a node can be had.\<close>

record 'k hash_env =
  hcode_fcn :: "'k \<Rightarrow> stdhcode"
  calloc_ok :: "nat \<Rightarrow> bool"
  malloc_ok :: bool

definition cap :: "('k, 'v) stdhash \<Rightarrow> nat" where "cap h = length (table h)"

definition active :: "('k, 'v) stdhash_node option \<Rightarrow> bool" where
  "active x \<longleftrightarrow> (case x of None \<Rightarrow> False | Some n \<Rightarrow> hcode n \<noteq> 0)"

section \<open>Probe sequences\<close>

definition stdhash_low_hcode :: "'k hash_env \<Rightarrow> 'k \<Rightarrow> stdhcode" where
  "stdhash_low_hcode he key = (if hcode_fcn he key = 0 then 1 else hcode_fcn he key)"

definition stdhash_low_hash :: "stdhcode \<Rightarrow> nat \<Rightarrow> nat \<Rightarrow> nat \<times> nat" where
  "stdhash_low_hash hc cp lg = (unat hc AND (cp - 1), unat (drop_bit (32 - lg) hc) OR 1)"

definition probe_next :: "nat \<Rightarrow> nat \<Rightarrow> nat \<Rightarrow> nat" where
  "probe_next cp h2 i = (if cp \<le> i + h2 then i + h2 - cp else i + h2)"

partial_function (option) find_loop :: "('k, 'v) stdhash_node option list \<Rightarrow> bool \<Rightarrow> 'k \<Rightarrow> stdhcode \<Rightarrow> nat \<Rightarrow> nat \<Rightarrow> nat option" where
  "find_loop t find_match key hc h2 i =
     (case t ! i of
        None \<Rightarrow> Some i
      | Some n \<Rightarrow>
          if (if find_match then hcode n = hc \<and> key = nkey n else hcode n = 0) then Some i
          else find_loop t find_match key hc h2 (probe_next (length t) h2 i))"

definition stdhash_low_find :: "'k hash_env \<Rightarrow> ('k, 'v) stdhash \<Rightarrow> bool \<Rightarrow> 'k \<Rightarrow> (nat \<times> stdhcode) option" where
  "stdhash_low_find he h find_match key =
     (let hc = stdhash_low_hcode he key; (h1, h2) = stdhash_low_hash hc (cap h) (cap_lg h)
      in map_option (\<lambda>p. (p, hc)) (find_loop (table h) find_match key hc h2 h1))"

section \<open>Iteration\<close>

function skip :: "('k, 'v) stdhash_node option list \<Rightarrow> nat \<Rightarrow> nat" where
  "skip t i = (if length t \<le> i then i else if active (t ! i) then i else skip t (i + 1))"
  by pat_completeness auto
termination by (relation "measure (\<lambda>(t, i). length t - i)") auto

declare skip.simps [simp del]

definition stdhash_low_next :: "('k, 'v) stdhash_node option list \<Rightarrow> nat \<Rightarrow> nat" where
  "stdhash_low_next t i = skip t (i + 1)"

text \<open>\<open>None\<close>: the loop runs out of the table.\<close>

primrec stdhash_low_prev :: "('k, 'v) stdhash_node option list \<Rightarrow> nat \<Rightarrow> nat option" where
  "stdhash_low_prev t 0 = None"
| "stdhash_low_prev t (Suc i) = (if active (t ! i) then Some i else stdhash_low_prev t i)"

section \<open>Rehashing\<close>

definition stdhash_low_clear :: "('k, 'v) stdhash \<Rightarrow> ('k, 'v) stdhash" where
  "stdhash_low_clear h =
     (if num_nodes h = 0 then h
      else h\<lparr>table := replicate (cap h) None, begin_pos := cap h, num_nodes := 0, hsize := 0\<rparr>)"

partial_function (option) hole_loop :: "('k, 'v) stdhash_node option list \<Rightarrow> nat \<Rightarrow> nat \<Rightarrow> nat option" where
  "hole_loop t h2 i = (if t ! i = None then Some i else hole_loop t h2 (probe_next (length t) h2 i))"

definition move_node :: "nat \<Rightarrow> ('k, 'v) stdhash_node \<Rightarrow> ('k, 'v) stdhash_node option list \<Rightarrow> ('k, 'v) stdhash_node option list option" where
  "move_node lg n t =
     (let (h1, h2) = stdhash_low_hash (hcode n) (length t) lg
      in map_option (\<lambda>p. t[p := Some n]) (hole_loop t h2 h1))"

fun move_nodes :: "nat \<Rightarrow> ('k, 'v) stdhash_node option list \<Rightarrow> ('k, 'v) stdhash_node option list \<Rightarrow> ('k, 'v) stdhash_node option list option" where
  "move_nodes lg [] t = Some t"
| "move_nodes lg (None # old) t = move_nodes lg old t"
| "move_nodes lg (Some n # old) t =
     (if hcode n = 0 then move_nodes lg old t
      else case move_node lg n t of None \<Rightarrow> None | Some t1 \<Rightarrow> move_nodes lg old t1)"

definition stdhash_low_rehash :: "'k hash_env \<Rightarrow> ('k, 'v) stdhash \<Rightarrow> nat \<Rightarrow> (stdcode \<times> ('k, 'v) stdhash) option" where
  "stdhash_low_rehash he h request =
     (let request_size = max request STDHASH_MIN_AUTO_ALLOC;
          new_cap = 2 * stdpow2_cap request_size mod 2 ^ 64;
          new_lg = stdlg_up new_cap
      in if new_cap < request_size \<or> 2 ^ 64 - 1 < new_cap \<or> \<not> calloc_ok he new_cap then Some (STDENOMEM, h)
         else case move_nodes new_lg (table h) (replicate new_cap None) of
           None \<Rightarrow> None
         | Some t \<Rightarrow> Some (STDESUCCESS, h\<lparr>table := t, cap_lg := new_lg, num_nodes := hsize h,
                                          begin_pos := (if hsize h \<noteq> 0 then skip t 0 else length t)\<rparr>))"

definition stdhash_high_thresh :: "('k, 'v) stdhash \<Rightarrow> nat" where
  "stdhash_high_thresh h = cap h div 2"

definition stdhash_low_thresh :: "('k, 'v) stdhash \<Rightarrow> nat" where
  "stdhash_low_thresh h = cap h div 8"

section \<open>Insertion\<close>

definition store_node :: "nat \<Rightarrow> stdhcode \<Rightarrow> 'k \<Rightarrow> 'v \<Rightarrow> ('k, 'v) stdhash \<Rightarrow> ('k, 'v) stdhash" where
  "store_node p hc k v h =
     h\<lparr>table := (table h)[p := Some \<lparr>hcode = hc, nkey = k, nval = v\<rparr>],
       begin_pos := (if p < begin_pos h then p else begin_pos h)\<rparr>"

text \<open>The table is enlarged when too many of its positions hold nodes.\<close>

definition make_room :: "'k hash_env \<Rightarrow> ('k, 'v) stdhash \<Rightarrow> (stdcode \<times> ('k, 'v) stdhash) option" where
  "make_room he h =
     (if num_nodes h < stdhash_high_thresh h then Some (STDESUCCESS, h)
      else if NO_AUTO_GROW h then Some (STDEACCES, h)
      else stdhash_low_rehash he h (hsize h + 1))"

definition insert_one :: "'k hash_env \<Rightarrow> bool \<Rightarrow> 'k \<Rightarrow> 'v \<Rightarrow> ('k, 'v) stdhash \<Rightarrow> (stdcode \<times> nat \<times> ('k, 'v) stdhash) option" where
  "insert_one he overwrite k v h =
     (case stdhash_low_find he h overwrite k of
        None \<Rightarrow> None
      | Some (p, hc) \<Rightarrow>
          Some (if table h ! p = None
                then if malloc_ok he
                     then (STDESUCCESS, p, store_node p hc k v (h\<lparr>num_nodes := num_nodes h + 1, hsize := hsize h + 1\<rparr>))
                     else (STDENOMEM, p, h)
                else if overwrite then (STDESUCCESS, p, store_node p hc k v h)
                else (STDESUCCESS, p, store_node p hc k v (h\<lparr>hsize := hsize h + 1\<rparr>))))"

text \<open>The pairs to insert come one after the other; the result has the position of the first one, or
  the end.\<close>

fun insert_loop :: "'k hash_env \<Rightarrow> bool \<Rightarrow> ('k \<times> 'v) list \<Rightarrow> nat option \<Rightarrow> ('k, 'v) stdhash \<Rightarrow> (stdcode \<times> nat option \<times> ('k, 'v) stdhash) option" where
  "insert_loop he overwrite [] first_ins h = Some (STDESUCCESS, first_ins, h)"
| "insert_loop he overwrite ((k, v) # src) first_ins h =
     (case make_room he h of
        None \<Rightarrow> None
      | Some (ret, h1) \<Rightarrow>
          if ret \<noteq> STDESUCCESS then Some (ret, first_ins, h1)
          else case insert_one he overwrite k v h1 of
            None \<Rightarrow> None
          | Some (ret, p, h2) \<Rightarrow>
              if ret \<noteq> STDESUCCESS then Some (ret, first_ins, h2)
              else insert_loop he overwrite src (if first_ins = None then Some p else first_ins) h2)"

definition stdhash_low_insert :: "'k hash_env \<Rightarrow> ('k \<times> 'v) list \<Rightarrow> bool \<Rightarrow> ('k, 'v) stdhash \<Rightarrow> (stdcode \<times> nat \<times> ('k, 'v) stdhash) option" where
  "stdhash_low_insert he src overwrite h =
     map_option (\<lambda>(ret, first_ins, h'). (ret, case first_ins of None \<Rightarrow> cap h' | Some p \<Rightarrow> p, h')) (insert_loop he overwrite src None h)"

definition stdhash_put :: "'k hash_env \<Rightarrow> ('k, 'v) stdhash \<Rightarrow> 'k \<Rightarrow> 'v \<Rightarrow> (stdcode \<times> nat \<times> ('k, 'v) stdhash) option" where
  "stdhash_put he h k v = stdhash_low_insert he [(k, v)] True h"

definition stdhash_put_seq :: "'k hash_env \<Rightarrow> ('k, 'v) stdhash \<Rightarrow> ('k \<times> 'v) list \<Rightarrow> (stdcode \<times> nat \<times> ('k, 'v) stdhash) option" where
  "stdhash_put_seq he h src = stdhash_low_insert he src True h"

definition stdhash_insert :: "'k hash_env \<Rightarrow> ('k, 'v) stdhash \<Rightarrow> 'k \<Rightarrow> 'v \<Rightarrow> (stdcode \<times> nat \<times> ('k, 'v) stdhash) option" where
  "stdhash_insert he h k v = stdhash_low_insert he [(k, v)] False h"

definition stdhash_insert_seq :: "'k hash_env \<Rightarrow> ('k, 'v) stdhash \<Rightarrow> ('k \<times> 'v) list \<Rightarrow> (stdcode \<times> nat \<times> ('k, 'v) stdhash) option" where
  "stdhash_insert_seq he h src = stdhash_low_insert he src False h"

definition stdhash_insert_rep :: "'k hash_env \<Rightarrow> ('k, 'v) stdhash \<Rightarrow> 'k \<Rightarrow> 'v \<Rightarrow> nat \<Rightarrow> (stdcode \<times> nat \<times> ('k, 'v) stdhash) option" where
  "stdhash_insert_rep he h k v num_times = stdhash_low_insert he (replicate num_times (k, v)) False h"

section \<open>The other operations\<close>

definition stdhash_construct :: "bool \<Rightarrow> bool \<Rightarrow> ('k, 'v) stdhash" where
  "stdhash_construct no_grow no_shrink =
     \<lparr>table = [], begin_pos = 0, cap_lg = 2 ^ 64 - 1, num_nodes = 0, hsize = 0, NO_AUTO_GROW = no_grow, NO_AUTO_SHRINK = no_shrink\<rparr>"

definition stdhash_begin :: "('k, 'v) stdhash \<Rightarrow> nat" where "stdhash_begin h = begin_pos h"
definition stdhash_end :: "('k, 'v) stdhash \<Rightarrow> nat" where "stdhash_end h = cap h"
definition stdhash_is_begin :: "('k, 'v) stdhash \<Rightarrow> nat \<Rightarrow> bool" where "stdhash_is_begin h it \<longleftrightarrow> it = begin_pos h"
definition stdhash_is_end :: "('k, 'v) stdhash \<Rightarrow> nat \<Rightarrow> bool" where "stdhash_is_end h it \<longleftrightarrow> it = cap h"
definition stdhash_size :: "('k, 'v) stdhash \<Rightarrow> nat" where "stdhash_size h = hsize h"
definition stdhash_empty :: "('k, 'v) stdhash \<Rightarrow> bool" where "stdhash_empty h \<longleftrightarrow> hsize h = 0"
definition stdhash_load_lvl :: "('k, 'v) stdhash \<Rightarrow> nat" where "stdhash_load_lvl h = num_nodes h"

definition stdhash_it_key :: "('k, 'v) stdhash \<Rightarrow> nat \<Rightarrow> 'k option" where
  "stdhash_it_key h it = (if it < cap h then map_option nkey (table h ! it) else None)"

definition stdhash_it_val :: "('k, 'v) stdhash \<Rightarrow> nat \<Rightarrow> 'v option" where
  "stdhash_it_val h it = (if it < cap h then map_option nval (table h ! it) else None)"

definition stdhash_it_next :: "('k, 'v) stdhash \<Rightarrow> nat \<Rightarrow> nat" where
  "stdhash_it_next h it = stdhash_low_next (table h) it"

primrec stdhash_it_advance :: "('k, 'v) stdhash \<Rightarrow> nat \<Rightarrow> nat \<Rightarrow> nat" where
  "stdhash_it_advance h it 0 = it"
| "stdhash_it_advance h it (Suc n) = stdhash_it_advance h (stdhash_low_next (table h) it) n"

primrec stdhash_it_retreat :: "('k, 'v) stdhash \<Rightarrow> nat \<Rightarrow> nat \<Rightarrow> nat option" where
  "stdhash_it_retreat h it 0 = Some it"
| "stdhash_it_retreat h it (Suc n) = (case stdhash_low_prev (table h) it of None \<Rightarrow> None | Some i \<Rightarrow> stdhash_it_retreat h i n)"

definition stdhash_get :: "('k, 'v) stdhash \<Rightarrow> nat \<Rightarrow> nat option" where
  "stdhash_get h elem_num =
     (if elem_num \<le> hsize h div 2 then Some (stdhash_it_advance h (stdhash_begin h) elem_num)
      else stdhash_it_retreat h (stdhash_end h) (hsize h - elem_num))"

definition stdhash_find :: "'k hash_env \<Rightarrow> ('k, 'v) stdhash \<Rightarrow> 'k \<Rightarrow> nat option" where
  "stdhash_find he h key =
     (if hsize h = 0 then Some (cap h)
      else map_option (\<lambda>(p, hc). if table h ! p \<noteq> None then p else cap h) (stdhash_low_find he h True key))"

definition stdhash_contains :: "'k hash_env \<Rightarrow> ('k, 'v) stdhash \<Rightarrow> 'k \<Rightarrow> bool option" where
  "stdhash_contains he h key = map_option (\<lambda>it. \<not> stdhash_is_end h it) (stdhash_find he h key)"

partial_function (option) keyed_loop :: "('k, 'v) stdhash_node option list \<Rightarrow> ('k, 'v) stdhash_node \<Rightarrow> nat \<Rightarrow> nat \<Rightarrow> nat option" where
  "keyed_loop t n h2 i =
     (let j = probe_next (length t) h2 i in
      case t ! j of
        None \<Rightarrow> Some (length t)
      | Some m \<Rightarrow> if hcode m = hcode n \<and> nkey m = nkey n then Some j else keyed_loop t n h2 j)"

definition stdhash_keyed_next :: "('k, 'v) stdhash \<Rightarrow> nat \<Rightarrow> nat option" where
  "stdhash_keyed_next h it =
     (case table h ! it of
        None \<Rightarrow> None
      | Some n \<Rightarrow> keyed_loop (table h) n (snd (stdhash_low_hash (hcode n) (cap h) (cap_lg h))) it)"

definition shrink :: "'k hash_env \<Rightarrow> ('k, 'v) stdhash \<Rightarrow> (stdcode \<times> ('k, 'v) stdhash) option" where
  "shrink he h =
     (if \<not> NO_AUTO_SHRINK h \<and> cap h \<noteq> STDHASH_MIN_AUTO_ALLOC \<and> hsize h \<le> stdhash_low_thresh h
      then stdhash_low_rehash he h (hsize h) else Some (STDEINVAL, h))"

definition stdhash_clear :: "'k hash_env \<Rightarrow> ('k, 'v) stdhash \<Rightarrow> ('k, 'v) stdhash option" where
  "stdhash_clear he h = map_option snd (shrink he (stdhash_low_clear h))"

definition stdhash_reserve :: "'k hash_env \<Rightarrow> ('k, 'v) stdhash \<Rightarrow> nat \<Rightarrow> (stdcode \<times> ('k, 'v) stdhash) option" where
  "stdhash_reserve he h num_pairs =
     (if stdhash_high_thresh h < num_pairs then stdhash_low_rehash he h num_pairs else Some (STDESUCCESS, h))"

definition stdhash_rehash :: "'k hash_env \<Rightarrow> ('k, 'v) stdhash \<Rightarrow> (stdcode \<times> ('k, 'v) stdhash) option" where
  "stdhash_rehash he h = stdhash_low_rehash he h (hsize h)"

text \<open>The iterator after an erasure: the next entry, or the first one if the table was rehashed.\<close>

definition erase_node :: "('k, 'v) stdhash \<Rightarrow> nat \<Rightarrow> nat \<times> ('k, 'v) stdhash" where
  "erase_node h it =
     (let t = (table h)[it := map_option (\<lambda>n. n\<lparr>hcode := 0\<rparr>) (table h ! it)]; nxt = stdhash_low_next t it
      in (nxt, h\<lparr>table := t, begin_pos := (if it = begin_pos h then nxt else begin_pos h), hsize := hsize h - 1\<rparr>))"

definition stdhash_erase :: "'k hash_env \<Rightarrow> ('k, 'v) stdhash \<Rightarrow> nat \<Rightarrow> (nat \<times> ('k, 'v) stdhash) option" where
  "stdhash_erase he h it =
     (let (nxt, h1) = erase_node h it
      in map_option (\<lambda>(ret, h2). (if ret = STDESUCCESS then begin_pos h2 else nxt, h2)) (shrink he h1))"

partial_function (option) stdhash_erase_key :: "'k hash_env \<Rightarrow> ('k, 'v) stdhash \<Rightarrow> 'k \<Rightarrow> ('k, 'v) stdhash option" where
  "stdhash_erase_key he h key =
     (case stdhash_find he h key of
        None \<Rightarrow> None
      | Some it \<Rightarrow>
          if stdhash_is_end h it then Some h
          else (case stdhash_erase he h it of None \<Rightarrow> None | Some (nxt, h1) \<Rightarrow> stdhash_erase_key he h1 key))"

end
