(* ===== verification/Hash_Probe.thy ===== *)
theory Hash_Probe
  imports Complex_Main Std_Hash "HOL-Library.Multiset"
begin

text \<open>
  Probe sequences of a hash table whose capacity is a power of two: the step is odd, so that a sequence
  meets every position, and a search in a table with a free position ends.
\<close>

section \<open>Positions\<close>

definition probe :: "nat \<Rightarrow> nat \<Rightarrow> nat \<Rightarrow> nat \<Rightarrow> nat" where
  "probe cp h2 h1 j = (probe_next cp h2 ^^ j) h1"

lemma probe_simps [simp]: "probe cp h2 h1 0 = h1" "probe cp h2 h1 (Suc j) = probe cp h2 (probe_next cp h2 h1) j"
  by (simp_all add: probe_def funpow_swap1)

lemma probe_next_mod:
  assumes "i < cp" "h2 < cp"
  shows "probe_next cp h2 i = (i + h2) mod cp"
proof (cases "cp \<le> i + h2")
  case True
  then have "(i + h2) mod cp = (i + h2 - cp) mod cp" by (simp add: le_mod_geq)
  also have "\<dots> = i + h2 - cp" using assms by simp
  finally show ?thesis using True by (simp add: probe_next_def)
qed (use assms in \<open>simp add: probe_next_def\<close>)

lemma probe_mod:
  assumes "h1 < cp" "h2 < cp"
  shows "probe cp h2 h1 j = (h1 + j * h2) mod cp"
  using assms(1)
proof (induction j arbitrary: h1)
  case (Suc j)
  have "probe_next cp h2 h1 < cp" unfolding probe_next_mod [OF Suc.prems assms(2)] using assms(2) by simp
  then have "probe cp h2 h1 (Suc j) = (probe_next cp h2 h1 + j * h2) mod cp" using Suc.IH by simp
  also have "\<dots> = (h1 + h2 + j * h2) mod cp" unfolding probe_next_mod [OF Suc.prems assms(2)] by (simp add: mod_simps)
  finally show ?case by (simp add: algebra_simps)
qed simp

lemma probe_less: "h1 < cp \<Longrightarrow> h2 < cp \<Longrightarrow> probe cp h2 h1 j < cp"
  by (simp add: probe_mod)

lemma low_hash_bounds:
  assumes "stdhash_low_hash hc (2 ^ lg) lg = (h1, h2)" "0 < lg" "lg \<le> 32"
  shows "h1 < 2 ^ lg" "h2 < 2 ^ lg" "odd h2"
proof -
  have h: "h1 = unat hc AND mask lg" "h2 = unat (drop_bit (32 - lg) hc) OR 1"
    using assms(1) by (simp_all add: stdhash_low_hash_def mask_eq_exp_minus_1)
  show "h1 < 2 ^ lg" unfolding h(1) by (simp flip: take_bit_eq_mask)
  let ?d = "unat (drop_bit (32 - lg) hc)"
  have "unat hc < 2 ^ 32" using unsigned_less [of hc, where 'a = nat] by simp
  also have "(2 :: nat) ^ 32 = 2 ^ lg * 2 ^ (32 - lg)" using assms(3) by (simp flip: power_add)
  finally have d: "?d < 2 ^ lg"
    unfolding unat_drop_bit_eq drop_bit_eq_div [of "32 - lg" "unat hc"] by (rule less_mult_imp_div_less)
  have o: "h2 = ?d + of_bool (even ?d)" unfolding h(2) by (rule or_one_eq)
  have ev: "even (2 ^ lg :: nat)" using assms(2) by simp
  show "odd h2" unfolding o by (cases "even ?d") simp_all
  show "h2 < 2 ^ lg"
  proof (cases "even ?d")
    case True
    then have "?d + 1 \<noteq> 2 ^ lg" using ev by (metis even_plus_one_iff)
    then show ?thesis unfolding o using d True by simp
  qed (use d in \<open>simp add: o\<close>)
qed

lemma probe_inj:
  assumes "odd h2" "h1 < 2 ^ lg" "h2 < 2 ^ lg" "i < 2 ^ lg" "j < 2 ^ lg" "probe (2 ^ lg) h2 h1 i = probe (2 ^ lg) h2 h1 j"
  shows "i = j"
proof -
  have key: "i = j" if "(h1 + i * h2) mod 2 ^ lg = (h1 + j * h2) mod 2 ^ lg" "i \<le> j" "j < 2 ^ lg" for i j
  proof -
    have "h1 + i * h2 \<le> h1 + j * h2" using that(2) by simp
    then have "2 ^ lg dvd (h1 + j * h2) - (h1 + i * h2)" using that(1) mod_eq_dvd_iff_nat by metis
    then have "2 ^ lg dvd (j - i) * h2" by (simp add: diff_mult_distrib)
    moreover have "coprime (2 ^ lg) h2" using assms(1) by simp
    ultimately have "2 ^ lg dvd j - i" using coprime_dvd_mult_left_iff by blast
    then have "j - i = 0" using that(3) dvd_imp_le [of "2 ^ lg" "j - i"] by fastforce
    then show ?thesis using that(2) by simp
  qed
  show ?thesis using key [of i j] key [of j i] assms(4-6) by (simp add: probe_mod assms(2,3)) linarith
qed

lemma probe_surj:
  assumes "odd h2" "h1 < 2 ^ lg" "h2 < 2 ^ lg" "p < 2 ^ lg"
  shows "\<exists>j < 2 ^ lg. probe (2 ^ lg) h2 h1 j = p"
proof -
  have inj: "inj_on (probe (2 ^ lg) h2 h1) {..<2 ^ lg}" by (rule inj_onI) (use probe_inj assms(1-3) in auto)
  have sub: "probe (2 ^ lg) h2 h1 ` {..<2 ^ lg} \<subseteq> {..<2 ^ lg}" using probe_less assms(2,3) by auto
  have "probe (2 ^ lg) h2 h1 ` {..<2 ^ lg} = {..<2 ^ lg}" by (rule endo_inj_surj [OF _ sub inj]) simp
  then have "p \<in> probe (2 ^ lg) h2 h1 ` {..<2 ^ lg}" using assms(4) by simp
  then show ?thesis by auto
qed

section \<open>Searches\<close>

definition stop_at :: "('k, 'v) stdhash_node option list \<Rightarrow> bool \<Rightarrow> 'k \<Rightarrow> stdhcode \<Rightarrow> nat \<Rightarrow> bool" where
  "stop_at t find_match key hc p \<longleftrightarrow> (case t ! p of None \<Rightarrow> True
     | Some n \<Rightarrow> if find_match then hcode n = hc \<and> key = nkey n else hcode n = 0)"

lemma find_loop_step:
  "find_loop t m key hc h2 i = (if stop_at t m key hc i then Some i else find_loop t m key hc h2 (probe_next (length t) h2 i))"
  by (subst find_loop.simps, cases "t ! i") (simp_all add: stop_at_def)

lemma find_loop_stops:
  "(\<And>i. i < j \<Longrightarrow> \<not> stop_at t m key hc (probe (length t) h2 h1 i)) \<Longrightarrow> stop_at t m key hc (probe (length t) h2 h1 j) \<Longrightarrow>
    find_loop t m key hc h2 h1 = Some (probe (length t) h2 h1 j)"
proof (induction j arbitrary: h1)
  case 0
  then show ?case by (subst find_loop_step) simp
next
  case (Suc j)
  have "\<not> stop_at t m key hc h1" using Suc.prems(1) [of 0] by simp
  moreover have "find_loop t m key hc h2 (probe_next (length t) h2 h1) = Some (probe (length t) h2 h1 (Suc j))"
    using Suc.IH [of "probe_next (length t) h2 h1"] Suc.prems(1) [of "Suc _"] Suc.prems(2) by simp
  ultimately show ?case by (subst find_loop_step) simp
qed


lemma hole_loop_stops:
  "(\<And>i. i < j \<Longrightarrow> t ! probe (length t) h2 h1 i \<noteq> None) \<Longrightarrow> t ! probe (length t) h2 h1 j = None \<Longrightarrow>
    hole_loop t h2 h1 = Some (probe (length t) h2 h1 j)"
proof (induction j arbitrary: h1)
  case 0
  then show ?case by (subst hole_loop.simps) simp
next
  case (Suc j)
  have "t ! h1 \<noteq> None" using Suc.prems(1) [of 0] by simp
  moreover have "hole_loop t h2 (probe_next (length t) h2 h1) = Some (probe (length t) h2 h1 (Suc j))"
    using Suc.IH [of "probe_next (length t) h2 h1"] Suc.prems(1) [of "Suc _"] Suc.prems(2) by simp
  ultimately show ?case by (subst hole_loop.simps) auto
qed

text \<open>A search in a table with a free position.\<close>

lemma first_free:
  assumes "length t = 2 ^ lg" "0 < lg" "lg \<le> 32" "stdhash_low_hash hc (length t) lg = (h1, h2)" "p < length t" "P p"
  shows "\<exists>j < length t. P (probe (length t) h2 h1 j) \<and> (\<forall>i < j. \<not> P (probe (length t) h2 h1 i))"
proof -
  note b = low_hash_bounds [OF assms(4) [unfolded assms(1)] assms(2,3)]
  obtain j where j: "j < length t" "P (probe (length t) h2 h1 j)"
    using probe_surj [OF b(3,1,2), of p] assms(1,5,6) by auto
  let ?j = "LEAST j. P (probe (length t) h2 h1 j)"
  have "P (probe (length t) h2 h1 ?j)" using j(2) by (rule LeastI)
  moreover have "?j \<le> j" using j(2) by (rule Least_le)
  moreover have "\<not> P (probe (length t) h2 h1 i)" if "i < ?j" for i using that by (rule not_less_Least)
  ultimately show ?thesis using j(1) by (intro exI [of _ ?j]) auto
qed

end
