(* ===== verification/Hash_Correct.thy ===== *)
theory Hash_Correct
  imports Hash_Probe
begin

text \<open>
  The invariant of a hash table, and what the operations do to its entries, listed in the order in which
  an iterator visits them.
\<close>

section \<open>Entries and invariant\<close>

definition entry :: "('k, 'v) stdhash_node option \<Rightarrow> ('k \<times> 'v) list" where
  "entry x = (case x of None \<Rightarrow> [] | Some n \<Rightarrow> if hcode n = 0 then [] else [(nkey n, nval n)])"

definition entries :: "('k, 'v) stdhash_node option list \<Rightarrow> ('k \<times> 'v) list" where
  "entries t = concat (map entry t)"

definition nodes :: "('k, 'v) stdhash_node option list \<Rightarrow> nat" where
  "nodes t = length (filter (\<lambda>x. x \<noteq> None) t)"

lemma entries_simps [simp]:
  "entries [] = []" "entries (x # t) = entry x @ entries t" "entries (t @ u) = entries t @ entries u"
  "entries (replicate n None) = []"
  by (simp_all add: entries_def entry_def)

lemma nodes_simps [simp]:
  "nodes [] = 0" "nodes (x # t) = (if x = None then 0 else 1) + nodes t" "nodes (t @ u) = nodes t + nodes u"
  "nodes (replicate n None) = 0"
  by (simp_all add: nodes_def)

lemma entries_at: "p < length t \<Longrightarrow> entries t = entries (take p t) @ entry (t ! p) @ entries (drop (Suc p) t)"
  by (subst id_take_nth_drop [of p t]) simp_all

lemma entries_update: "p < length t \<Longrightarrow> entries (t[p := x]) = entries (take p t) @ entry x @ entries (drop (Suc p) t)"
  by (simp add: upd_conv_take_nth_drop)

lemma nodes_at: "p < length t \<Longrightarrow> nodes t = nodes (take p t) + (if t ! p = None then 0 else 1) + nodes (drop (Suc p) t)"
  by (subst id_take_nth_drop [of p t]) simp_all

lemma nodes_update: "p < length t \<Longrightarrow> nodes (t[p := x]) = nodes (take p t) + (if x = None then 0 else 1) + nodes (drop (Suc p) t)"
  by (simp add: upd_conv_take_nth_drop)

lemma in_entries: "kv \<in> set (entries t) \<longleftrightarrow> (\<exists>p n. p < length t \<and> t ! p = Some n \<and> hcode n \<noteq> 0 \<and> kv = (nkey n, nval n))"
  by (fastforce simp: entries_def entry_def in_set_conv_nth split: option.splits if_splits)

lemma entries_le_nodes: "length (entries t) \<le> nodes t"
  by (induction t) (auto simp: entry_def split: option.splits)

lemma free_position: "nodes t < length t \<Longrightarrow> \<exists>p < length t. t ! p = None"
proof (rule ccontr)
  assume A: "nodes t < length t" "\<not> (\<exists>p < length t. t ! p = None)"
  then have "filter (\<lambda>x. x \<noteq> None) t = t" by (auto simp: filter_id_conv in_set_conv_nth)
  with A(1) show False by (simp add: nodes_def)
qed

text \<open>A node with the hash code \<open>hc\<close> at \<open>p\<close> is met by the search for its key: no position before it in
  the probe sequence is free.\<close>

definition reaches :: "('k, 'v) stdhash_node option list \<Rightarrow> nat \<Rightarrow> stdhcode \<Rightarrow> nat \<Rightarrow> bool" where
  "reaches t lg hc p \<longleftrightarrow> (case stdhash_low_hash hc (length t) lg of (h1, h2) \<Rightarrow>
     \<exists>j. p = probe (length t) h2 h1 j \<and> (\<forall>i < j. t ! probe (length t) h2 h1 i \<noteq> None))"

definition table_ok :: "'k hash_env \<Rightarrow> nat \<Rightarrow> ('k, 'v) stdhash_node option list \<Rightarrow> bool" where
  "table_ok he lg t \<longleftrightarrow> length t = 2 ^ lg \<and> 1 < lg \<and> lg \<le> 32 \<and>
     (\<forall>p < length t. \<forall>n. t ! p = Some n \<and> hcode n \<noteq> 0 \<longrightarrow> hcode n = stdhash_low_hcode he (nkey n) \<and> reaches t lg (hcode n) p)"

definition hash_ok :: "'k hash_env \<Rightarrow> ('k, 'v) stdhash \<Rightarrow> bool" where
  "hash_ok he h \<longleftrightarrow> num_nodes h = nodes (table h) \<and> hsize h = length (entries (table h)) \<and> begin_pos h = skip (table h) 0 \<and>
     (table h = [] \<or> table_ok he (cap_lg h) (table h) \<and> 2 * num_nodes h \<le> cap h)"

lemma table_okD:
  assumes "table_ok he lg t"
  shows "length t = 2 ^ lg" "0 < lg" "lg \<le> 32" "1 < length t"
    "p < length t \<Longrightarrow> t ! p = Some n \<Longrightarrow> hcode n \<noteq> 0 \<Longrightarrow> hcode n = stdhash_low_hcode he (nkey n)"
    "p < length t \<Longrightarrow> t ! p = Some n \<Longrightarrow> hcode n \<noteq> 0 \<Longrightarrow> reaches t lg (hcode n) p"
  using assms one_less_power [of "2 :: nat" lg] by (auto simp: table_ok_def)

lemma hcode_nonzero [simp]: "stdhash_low_hcode he k \<noteq> 0"
  by (simp add: stdhash_low_hcode_def)

section \<open>Searching\<close>

text \<open>A search stops at the first position where it may, and does stop when a position is free.\<close>

lemma search_total:
  assumes "table_ok he lg t" "nodes t < length t" "stdhash_low_hash hc (length t) lg = (h1, h2)"
  obtains p j where "find_loop t m key hc h2 h1 = Some p" "p < length t" "p = probe (length t) h2 h1 j" "stop_at t m key hc p"
    "\<And>i. i < j \<Longrightarrow> \<not> stop_at t m key hc (probe (length t) h2 h1 i)"
proof -
  obtain q where q: "q < length t" "t ! q = None" using free_position [OF assms(2)] by blast
  then have "stop_at t m key hc q" by (simp add: stop_at_def)
  with first_free [OF table_okD(1-3) [OF assms(1)] assms(3) q(1), of "stop_at t m key hc"] obtain j where
    j: "stop_at t m key hc (probe (length t) h2 h1 j)" "\<forall>i < j. \<not> stop_at t m key hc (probe (length t) h2 h1 i)" by blast
  note b = low_hash_bounds [OF assms(3) [unfolded table_okD(1) [OF assms(1)]] table_okD(2,3) [OF assms(1)]]
  have "probe (length t) h2 h1 j < length t" using probe_less b(1,2) table_okD(1) [OF assms(1)] by metis
  with find_loop_stops [of j t m key hc h2 h1] j show ?thesis by (intro that [of "probe (length t) h2 h1 j" j]) simp_all
qed

lemma not_stop_None: "\<not> stop_at t m key hc p \<Longrightarrow> t ! p \<noteq> None"
  by (cases "t ! p") (auto simp: stop_at_def)

lemma reachesI:
  assumes "stdhash_low_hash hc (length t) lg = (h1, h2)" "p = probe (length t) h2 h1 j"
    "\<And>i. i < j \<Longrightarrow> t ! probe (length t) h2 h1 i \<noteq> None"
  shows "reaches t lg hc p"
  using assms by (auto simp: reaches_def)

lemma low_find_total:
  assumes "table_ok he (cap_lg h) (table h)" "2 * nodes (table h) \<le> cap h"
  shows "\<exists>p. stdhash_low_find he h m k = Some (p, stdhash_low_hcode he k) \<and> p < cap h \<and> stop_at (table h) m k (stdhash_low_hcode he k) p \<and>
    reaches (table h) (cap_lg h) (stdhash_low_hcode he k) p"
proof -
  let ?t = "table h" and ?hc = "stdhash_low_hcode he k"
  obtain h1 h2 where H: "stdhash_low_hash ?hc (length ?t) (cap_lg h) = (h1, h2)" by (metis surj_pair)
  have "nodes ?t < length ?t" using assms(2) table_okD(4) [OF assms(1)] by (simp add: cap_def)
  then obtain p j where S: "find_loop ?t m k ?hc h2 h1 = Some p" "p < length ?t" "p = probe (length ?t) h2 h1 j" "stop_at ?t m k ?hc p"
    "\<And>i. i < j \<Longrightarrow> \<not> stop_at ?t m k ?hc (probe (length ?t) h2 h1 i)" using search_total [OF assms(1) _ H, where m = m and key = k] by metis
  have "reaches ?t (cap_lg h) ?hc p" by (rule reachesI [OF H S(3)]) (rule not_stop_None [OF S(5)])
  then show ?thesis using S H by (simp add: stdhash_low_find_def cap_def)
qed

text \<open>A search for a match that stops at a free position has missed nothing.\<close>

lemma low_find_absent:
  assumes "table_ok he (cap_lg h) (table h)" "2 * nodes (table h) \<le> cap h"
    and F: "stdhash_low_find he h True k = Some (p, hc)" "table h ! p = None"
  shows "k \<notin> fst ` set (entries (table h))"
proof
  let ?t = "table h" and ?hc = "stdhash_low_hcode he k"
  obtain h1 h2 where H: "stdhash_low_hash ?hc (length ?t) (cap_lg h) = (h1, h2)" by (metis surj_pair)
  have "nodes ?t < length ?t" using assms(2) table_okD(4) [OF assms(1)] by (simp add: cap_def)
  then obtain q j where S: "find_loop ?t True k ?hc h2 h1 = Some q" "q = probe (length ?t) h2 h1 j"
    "\<And>i. i < j \<Longrightarrow> \<not> stop_at ?t True k ?hc (probe (length ?t) h2 h1 i)"
    using search_total [OF assms(1) _ H, where m = True and key = k] by metis
  then have p: "p = probe (length ?t) h2 h1 j" using F(1) H by (simp add: stdhash_low_find_def cap_def)
  assume "k \<in> fst ` set (entries ?t)"
  then obtain q n where n: "q < length ?t" "?t ! q = Some n" "hcode n \<noteq> 0" "k = nkey n" by (auto simp: in_entries)
  have hc: "hcode n = ?hc" using table_okD(5) [OF assms(1) n(1-3)] n(4) by simp
  have "reaches ?t (cap_lg h) ?hc q" using table_okD(6) [OF assms(1) n(1-3)] hc by simp
  then obtain i where i: "q = probe (length ?t) h2 h1 i" "\<forall>l < i. ?t ! probe (length ?t) h2 h1 l \<noteq> None"
    using H by (auto simp: reaches_def)
  have "stop_at ?t True k ?hc q" using n(2,4) hc by (simp add: stop_at_def)
  then have "\<not> i < j" using S(3) i(1) by blast
  moreover have "j \<noteq> i" using F(2) n(2) p i(1) by auto
  moreover have "\<not> j < i" using i(2) F(2) p by auto
  ultimately show False by simp
qed

section \<open>Iteration\<close>

lemma skip_props:
  "i \<le> length t \<Longrightarrow> i \<le> skip t i \<and> skip t i \<le> length t \<and> (\<forall>l. i \<le> l \<and> l < skip t i \<longrightarrow> \<not> active (t ! l)) \<and>
    (skip t i < length t \<longrightarrow> active (t ! skip t i))"
proof (induction t i rule: skip.induct)
  case (1 t i)
  show ?case
  proof (cases "length t \<le> i \<or> active (t ! i)")
    case True
    then show ?thesis using 1(2) by (auto simp: skip.simps [of t i])
  next
    case False
    then have eq: "skip t i = skip t (i + 1)" by (simp add: skip.simps [of t i])
    have IH: "i + 1 \<le> skip t (i + 1)" "skip t (i + 1) \<le> length t" "\<forall>l. i + 1 \<le> l \<and> l < skip t (i + 1) \<longrightarrow> \<not> active (t ! l)"
      "skip t (i + 1) < length t \<longrightarrow> active (t ! skip t (i + 1))" using 1(1) False by auto
    have "\<not> active (t ! l)" if "i \<le> l" "l < skip t (i + 1)" for l
      using that False IH(3) by (cases "l = i") auto
    then show ?thesis unfolding eq using IH by auto
  qed
qed

lemma skip_unique:
  assumes "i \<le> j" "j \<le> length t" "\<And>l. i \<le> l \<Longrightarrow> l < j \<Longrightarrow> \<not> active (t ! l)" "j < length t \<Longrightarrow> active (t ! j)"
  shows "skip t i = j"
proof -
  note S = skip_props [of i t]
  have "\<not> skip t i < j" using S assms by (metis le_trans less_le_trans)
  moreover have "\<not> j < skip t i" using S assms by (metis le_trans less_le_trans)
  ultimately show ?thesis by simp
qed

lemma skip_store:
  assumes "active x" "p < length t"
  shows "skip (t[p := x]) 0 = (if p < skip t 0 then p else skip t 0)"
  by (rule skip_unique) (use skip_props [of 0 t] assms in \<open>auto simp: nth_list_update split: if_splits\<close>)

lemma skip_erase:
  assumes "\<not> active x" "p < length t" "active (t ! p)"
  shows "skip (t[p := x]) 0 = (if p = skip t 0 then skip (t[p := x]) (p + 1) else skip t 0)"
proof (cases "p = skip t 0")
  case True
  have "p + 1 \<le> length (t[p := x])" using assms(2) by simp
  note S' = skip_props [OF this, unfolded length_list_update]
  have S: "p + 1 \<le> skip (t[p := x]) (p + 1)" "skip (t[p := x]) (p + 1) \<le> length t"
    "\<forall>l. p + 1 \<le> l \<and> l < skip (t[p := x]) (p + 1) \<longrightarrow> \<not> active (t[p := x] ! l)"
    "skip (t[p := x]) (p + 1) < length t \<longrightarrow> active (t[p := x] ! skip (t[p := x]) (p + 1))"
    using S' by blast+
  have before: "\<not> active (t ! l)" if "l < p" for l using skip_props [of 0 t] that True by simp
  have "\<not> active (t[p := x] ! l)" if "l < skip (t[p := x]) (p + 1)" for l
  proof (cases "l < p")
    case True
    then show ?thesis using before by simp
  next
    case False
    then show ?thesis using S(3) that assms(1,2) by (cases "l = p") simp_all
  qed
  then have "skip (t[p := x]) 0 = skip (t[p := x]) (p + 1)" by (intro skip_unique) (use S in auto)
  then show ?thesis using True by simp
next
  case False
  have "skip t 0 \<le> p" using skip_props [of 0 t] assms(3) by (metis not_less le0)
  then have "skip (t[p := x]) 0 = skip t 0"
    by (intro skip_unique) (use skip_props [of 0 t] False in \<open>auto simp: nth_list_update\<close>)
  then show ?thesis using False by simp
qed

lemma skip_empty: "entries t = [] \<Longrightarrow> skip t 0 = length t"
  by (rule skip_unique) (auto simp: entries_def entry_def active_def all_set_conv_all_nth split: option.splits if_splits)

section \<open>Storing nodes\<close>

lemma store_keeps: "t ! i \<noteq> None \<Longrightarrow> t[p := Some n] ! i \<noteq> None"
  by (cases "i = p \<and> p < length t") (auto simp: list_update_beyond)

lemma reaches_store: "reaches t lg hc q \<Longrightarrow> reaches (t[p := Some n]) lg hc q"
proof -
  obtain h1 h2 where H: "stdhash_low_hash hc (length t) lg = (h1, h2)" by (metis surj_pair)
  assume "reaches t lg hc q"
  then obtain j where j: "q = probe (length t) h2 h1 j" "\<forall>i < j. t ! probe (length t) h2 h1 i \<noteq> None" using H by (auto simp: reaches_def)
  show ?thesis
    by (rule reachesI [of hc "t[p := Some n]" lg h1 h2 q j]) (use H j store_keeps [of t _ p n] in auto)
qed

lemma table_ok_store:
  assumes "table_ok he lg t" "p < length t" "hcode n \<noteq> 0 \<Longrightarrow> hcode n = stdhash_low_hcode he (nkey n) \<and> reaches t lg (hcode n) p"
  shows "table_ok he lg (t[p := Some n])"
  using assms reaches_store [of t lg _ _ p n] unfolding table_ok_def by (auto simp: nth_list_update split: if_splits)

lemma move_node_ok:
  assumes "table_ok he lg t" "nodes t < length t" "hcode n = stdhash_low_hcode he (nkey n)"
  obtains t' where "move_node lg n t = Some t'" "table_ok he lg t'" "mset (entries t') = add_mset (nkey n, nval n) (mset (entries t))"
    "nodes t' = nodes t + 1" "length t' = length t"
proof -
  obtain h1 h2 where H: "stdhash_low_hash (hcode n) (length t) lg = (h1, h2)" by (metis surj_pair)
  obtain q where q: "q < length t" "t ! q = None" using free_position [OF assms(2)] by blast
  from first_free [OF table_okD(1-3) [OF assms(1)] H q(1), of "\<lambda>p. t ! p = None"] q(2) obtain j where
    j: "t ! probe (length t) h2 h1 j = None" "\<forall>i < j. t ! probe (length t) h2 h1 i \<noteq> None" by blast
  let ?p = "probe (length t) h2 h1 j"
  note b = low_hash_bounds [OF H [unfolded table_okD(1) [OF assms(1)]] table_okD(2,3) [OF assms(1)]]
  have p: "?p < length t" using probe_less b(1,2) table_okD(1) [OF assms(1)] by metis
  have "move_node lg n t = Some (t[?p := Some n])" using hole_loop_stops [of j t h2 h1] j H by (simp add: move_node_def)
  moreover have "table_ok he lg (t[?p := Some n])"
    by (rule table_ok_store [OF assms(1) p]) (use assms(3) reachesI [OF H refl, of j] j in simp)
  moreover have "hcode n \<noteq> 0" using assms(3) by simp
  then have "mset (entries (t[?p := Some n])) = add_mset (nkey n, nval n) (mset (entries t))"
    using j(1) by (simp add: entries_update [OF p] entries_at [OF p]) (simp add: entry_def)
  moreover have "nodes (t[?p := Some n]) = nodes t + 1" using j(1) by (simp add: nodes_update [OF p] nodes_at [OF p])
  ultimately show ?thesis by (intro that [of "t[?p := Some n]"]) simp_all
qed

lemma move_nodes_ok:
  assumes "table_ok he lg t" "nodes t + length (entries old) < length t"
    and "\<And>n. Some n \<in> set old \<Longrightarrow> hcode n \<noteq> 0 \<Longrightarrow> hcode n = stdhash_low_hcode he (nkey n)"
  shows "\<exists>t'. move_nodes lg old t = Some t' \<and> table_ok he lg t' \<and> mset (entries t') = mset (entries t) + mset (entries old) \<and>
    nodes t' = nodes t + length (entries old) \<and> length t' = length t"
  using assms
proof (induction lg old t rule: move_nodes.induct)
  case (3 lg n old t)
  show ?case
  proof (cases "hcode n = 0")
    case True
    then have "entry (Some n) = []" by (simp add: entry_def)
    then show ?thesis using 3(1) [OF True] "3.prems" True by auto
  next
    case False
    then have e: "entry (Some n) = [(nkey n, nval n)]" by (simp add: entry_def)
    have "nodes t < length t" using "3.prems"(2) by simp
    moreover have "hcode n = stdhash_low_hcode he (nkey n)" using "3.prems"(3) [of n] False by simp
    ultimately obtain t1 where M: "move_node lg n t = Some t1" "table_ok he lg t1" "mset (entries t1) = add_mset (nkey n, nval n) (mset (entries t))"
      "nodes t1 = nodes t + 1" "length t1 = length t" by (rule move_node_ok [OF "3.prems"(1)])
    have "\<exists>t'. move_nodes lg old t1 = Some t' \<and> table_ok he lg t' \<and> mset (entries t') = mset (entries t1) + mset (entries old) \<and>
      nodes t' = nodes t1 + length (entries old) \<and> length t' = length t1"
      by (rule 3(2) [OF False M(1,2)]) (use "3.prems" M e in auto)
    then show ?thesis using M False e by auto
  qed
qed (auto simp: entry_def)

end
