(* ===== verification/Hash_Ops.thy ===== *)
theory Hash_Ops
  imports Hash_Correct "HOL-Library.Sublist"
begin

text \<open>What the operations of a hash table do, under the invariant and for fewer than \<open>2 ^ 29\<close> entries, so that
  the capacity stays within the 32 bits of the hash codes.\<close>

section \<open>Rehashing\<close>

lemma new_capacity:
  assumes "request \<le> 2 ^ 29"
  defines "r \<equiv> max request STDHASH_MIN_AUTO_ALLOC"
  defines "c \<equiv> 2 * stdpow2_cap r mod 2 ^ 64"
  shows "\<exists>lg. c = 2 ^ lg \<and> 1 < lg \<and> lg \<le> 32 \<and> stdlg_up c = lg" "2 * r \<le> c" "r \<le> c" "c \<le> 2 ^ 64 - 1"
proof -
  have r: "0 < r" "r \<le> 2 ^ 29" "16 \<le> r" using assms(1) by (simp_all add: r_def STDHASH_MIN_AUTO_ALLOC_def)
  obtain n where n: "stdpow2_cap r = 2 ^ n" "r + r div 2 \<le> 2 ^ n" "2 ^ n < 3 * r" using stdpow2_cap_bounds [of r] r by auto
  have "(2 :: nat) ^ n < 2 ^ 31" using n(3) r(2) by simp
  then have "n < 31" by (subst (asm) power_strict_increasing_iff) simp_all
  have "(2 :: nat) * 2 ^ n < 2 ^ 64" using \<open>(2 :: nat) ^ n < 2 ^ 31\<close> by simp
  then have "c = 2 * 2 ^ n" unfolding c_def n(1) by simp
  then have c: "c = 2 ^ (n + 1)" by simp
  have "(2 :: nat) ^ 4 \<le> 2 ^ n" using n(2) r(3) by simp
  then have "4 \<le> n" by (subst (asm) power_increasing_iff) simp_all
  then show "\<exists>lg. c = 2 ^ lg \<and> 1 < lg \<and> lg \<le> 32 \<and> stdlg_up c = lg" using c \<open>n < 31\<close> by (intro exI [of _ "n + 1"]) (simp del: power_Suc add: stdlg_up_power)
  show "2 * r \<le> c" "r \<le> c" "c \<le> 2 ^ 64 - 1" using n(2) \<open>c = 2 * 2 ^ n\<close> \<open>(2 :: nat) * 2 ^ n < 2 ^ 64\<close> by simp_all
qed

lemma empty_table_ok: "1 < lg \<Longrightarrow> lg \<le> 32 \<Longrightarrow> table_ok he lg (replicate (2 ^ lg) None)"
  by (simp add: table_ok_def)

lemma hash_okD:
  assumes "hash_ok he h"
  shows "num_nodes h = nodes (table h)" "hsize h = length (entries (table h))" "begin_pos h = skip (table h) 0"
    "table h \<noteq> [] \<Longrightarrow> table_ok he (cap_lg h) (table h)" "table h \<noteq> [] \<Longrightarrow> 2 * nodes (table h) \<le> cap h"
  using assms by (auto simp: hash_ok_def)

lemma node_hcode:
  assumes "hash_ok he h" "Some n \<in> set (table h)" "hcode n \<noteq> 0"
  shows "hcode n = stdhash_low_hcode he (nkey n)"
proof -
  obtain p where p: "p < length (table h)" "table h ! p = Some n" using assms(2) by (auto simp: in_set_conv_nth)
  then have "table_ok he (cap_lg h) (table h)" using hash_okD(4) [OF assms(1)] by fastforce
  from table_okD(5) [OF this p assms(3)] show ?thesis .
qed

text \<open>A table with the same entries and options, in some order.\<close>

definition same_entries :: "('k, 'v) stdhash \<Rightarrow> ('k, 'v) stdhash \<Rightarrow> bool" where
  "same_entries h h' \<longleftrightarrow> mset (entries (table h')) = mset (entries (table h)) \<and> NO_AUTO_GROW h' = NO_AUTO_GROW h \<and>
     NO_AUTO_SHRINK h' = NO_AUTO_SHRINK h"

lemma rehash_ok:
  fixes h :: "('k, 'v) stdhash"
  assumes "hash_ok he h" "request \<le> 2 ^ 29" "hsize h \<le> max request STDHASH_MIN_AUTO_ALLOC"
  obtains "stdhash_low_rehash he h request = Some (STDENOMEM, h)" "\<exists>n. \<not> calloc_ok he n"
  | h' where "stdhash_low_rehash he h request = Some (STDESUCCESS, h')" "hash_ok he h'" "same_entries h h'" "table h' \<noteq> []"
      "2 * max request STDHASH_MIN_AUTO_ALLOC \<le> cap h'" "num_nodes h' = hsize h"
proof -
  let ?r = "max request STDHASH_MIN_AUTO_ALLOC"
  let ?c = "2 * stdpow2_cap ?r mod 2 ^ 64"
  note N = new_capacity [OF assms(2)]
  obtain lg where lg: "?c = 2 ^ lg" "1 < lg" "lg \<le> 32" "stdlg_up ?c = lg" using N(1) by blast
  show ?thesis
  proof (cases "calloc_ok he ?c")
    case False
    then show ?thesis using that(1) by (auto simp: stdhash_low_rehash_def Let_def)
  next
    case True
    have r16: "0 < ?r" by (simp add: STDHASH_MIN_AUTO_ALLOC_def)
    define new :: "('k, 'v) stdhash_node option list" where "new = replicate ?c None"
    have "\<exists>t'. move_nodes lg (table h) new = Some t' \<and> table_ok he lg t' \<and> mset (entries t') = mset (entries new) + mset (entries (table h)) \<and>
        nodes t' = nodes new + length (entries (table h)) \<and> length t' = length new"
    proof (rule move_nodes_ok)
      show "table_ok he lg new" unfolding new_def lg(1) by (rule empty_table_ok [OF lg(2,3)])
      show "nodes new + length (entries (table h)) < length new"
        unfolding new_def nodes_simps length_replicate using assms(3) hash_okD(2) [OF assms(1)] N(2) r16 by linarith
    qed (rule node_hcode [OF assms(1)])
    then obtain t where t: "move_nodes lg (table h) (replicate ?c None) = Some t" "table_ok he lg t" "mset (entries t) = mset (entries (table h))"
      "nodes t = length (entries (table h))" "length t = ?c" unfolding new_def entries_simps nodes_simps length_replicate by auto
    let ?h = "h\<lparr>table := t, cap_lg := lg, num_nodes := hsize h, begin_pos := (if hsize h \<noteq> 0 then skip t 0 else length t)\<rparr>"
    have len: "length (entries t) = hsize h" using mset_eq_length [OF t(3)] hash_okD(2) [OF assms(1)] by simp
    have "stdhash_low_rehash he h request = Some (STDESUCCESS, ?h)"
    proof -
      have "\<not> (?c < ?r \<or> 2 ^ 64 - 1 < ?c \<or> \<not> calloc_ok he ?c)" unfolding not_less de_Morgan_disj not_not using N(3,4) True by blast
      then show ?thesis unfolding stdhash_low_rehash_def Let_def lg(4) t(1) by (simp only: if_False option.case)
    qed
    moreover have "hash_ok he ?h"
    proof -
      have "2 * hsize h \<le> length t" unfolding t(5) using N(2) assms(3) by linarith
      then show ?thesis using t(2,4) len skip_empty [of t] hash_okD(2) [OF assms(1)] by (auto simp: hash_ok_def cap_def)
    qed
    moreover have "same_entries h ?h" using t(3) by (simp add: same_entries_def)
    moreover have "2 * ?r \<le> cap ?h" unfolding cap_def using N(2) t(5) by simp
    moreover have "t \<noteq> []" using t(2) table_okD(4) by fastforce
    ultimately show ?thesis by (intro that(2) [of ?h]) simp_all
  qed
qed

lemma make_room_ok:
  assumes "hash_ok he h" "hsize h < 2 ^ 29"
  obtains c where "make_room he h = Some (c, h)" "c = STDENOMEM \<and> (\<exists>n. \<not> calloc_ok he n) \<or> c = STDEACCES \<and> NO_AUTO_GROW h"
  | h' where "make_room he h = Some (STDESUCCESS, h')" "hash_ok he h'" "same_entries h h'" "table h' \<noteq> []" "2 * (num_nodes h' + 1) \<le> cap h'"
proof (cases "num_nodes h < stdhash_high_thresh h")
  case True
  then have "table h \<noteq> []" "2 * (num_nodes h + 1) \<le> cap h" by (auto simp: stdhash_high_thresh_def cap_def)
  then show ?thesis using that(2) [of h] True assms(1) by (simp add: make_room_def same_entries_def)
next
  case False
  show ?thesis
  proof (cases "NO_AUTO_GROW h")
    case True
    then show ?thesis using that(1) False by (simp add: make_room_def)
  next
    case no: False
    have room: "make_room he h = stdhash_low_rehash he h (hsize h + 1)" using False no by (simp add: make_room_def)
    have "hsize h + 1 \<le> 2 ^ 29" "hsize h \<le> max (hsize h + 1) STDHASH_MIN_AUTO_ALLOC" using assms(2) by simp_all
    then show ?thesis
    proof (rule rehash_ok [OF assms(1)])
      fix h' assume "stdhash_low_rehash he h (hsize h + 1) = Some (STDESUCCESS, h')" "hash_ok he h'" "same_entries h h'" "table h' \<noteq> []"
        "2 * max (hsize h + 1) STDHASH_MIN_AUTO_ALLOC \<le> cap h'" "num_nodes h' = hsize h"
      then show ?thesis using that(2) [of h'] room by (simp add: max_def split: if_splits)
    qed (use that(1) room in simp)
  qed
qed

section \<open>Insertion\<close>

definition inserted :: "'k \<times> 'v \<Rightarrow> ('k \<times> 'v) list \<Rightarrow> ('k \<times> 'v) list \<Rightarrow> bool" where
  "inserted kv xs ys \<longleftrightarrow> (\<exists>as bs. xs = as @ bs \<and> ys = as @ kv # bs)"

definition replaced :: "'k \<times> 'v \<Rightarrow> ('k \<times> 'v) list \<Rightarrow> ('k \<times> 'v) list \<Rightarrow> bool" where
  "replaced kv xs ys \<longleftrightarrow> (\<exists>as v bs. xs = as @ (fst kv, v) # bs \<and> ys = as @ kv # bs)"

lemma insert_one_ok:
  assumes ok: "hash_ok he h" and ne: "table h \<noteq> []" and room: "2 * (num_nodes h + 1) \<le> cap h"
  obtains p where "insert_one he ow k v h = Some (STDENOMEM, p, h)" "\<not> malloc_ok he"
  | p h' where "insert_one he ow k v h = Some (STDESUCCESS, p, h')" "hash_ok he h'" "p < cap h'" "stdhash_it_key h' p = Some k"
      "stdhash_it_val h' p = Some v" "NO_AUTO_GROW h' = NO_AUTO_GROW h" "NO_AUTO_SHRINK h' = NO_AUTO_SHRINK h"
      "(if ow \<and> k \<in> fst ` set (entries (table h)) then replaced else inserted) (k, v) (entries (table h)) (entries (table h'))"
proof -
  let ?t = "table h" and ?hc = "stdhash_low_hcode he k"
  have T: "table_ok he (cap_lg h) ?t" "2 * nodes ?t \<le> cap h" using hash_okD(4,5) [OF ok ne] by simp_all
  obtain p where F: "stdhash_low_find he h ow k = Some (p, ?hc)" "p < cap h" "stop_at ?t ow k ?hc p" "reaches ?t (cap_lg h) ?hc p"
    using low_find_total [OF T] by blast
  have p: "p < length ?t" using F(2) by (simp add: cap_def)
  let ?n = "\<lparr>hcode = ?hc, nkey = k, nval = v\<rparr>"
  have T': "table_ok he (cap_lg h) (?t[p := Some ?n])" by (rule table_ok_store [OF T(1) p]) (use F(4) in simp)
  have B: "skip (?t[p := Some ?n]) 0 = (if p < begin_pos h then p else begin_pos h)"
    unfolding hash_okD(3) [OF ok] by (rule skip_store [OF _ p]) (simp add: active_def)
  note E = entries_update [OF p, of "Some ?n"] entries_at [OF p]
  have e: "entry (Some ?n) = [(k, v)]" by (simp add: entry_def)
  have kv: "stdhash_it_key (store_node p ?hc k v x) p = Some k \<and> stdhash_it_val (store_node p ?hc k v x) p = Some v \<and> p < cap (store_node p ?hc k v x)"
    if "table x = ?t" for x
    using p that by (simp add: store_node_def stdhash_it_key_def stdhash_it_val_def cap_def)
  show ?thesis
  proof (cases "?t ! p")
    case None
    then have I: "inserted (k, v) (entries ?t) (entries (?t[p := Some ?n]))" unfolding E e inserted_def by (auto simp: entry_def)
    have new: "\<not> (ow \<and> k \<in> fst ` set (entries ?t))" using low_find_absent [OF T, of k p ?hc] F(1) None by (cases ow) simp_all
    show ?thesis
    proof (cases "malloc_ok he")
      case True
      let ?h = "store_node p ?hc k v (h\<lparr>num_nodes := num_nodes h + 1, hsize := hsize h + 1\<rparr>)"
      have "insert_one he ow k v h = Some (STDESUCCESS, p, ?h)" using F(1) None True by (simp add: insert_one_def)
      moreover have "hash_ok he ?h"
      proof -
        have "nodes (?t[p := Some ?n]) = nodes ?t + 1" using None by (simp add: nodes_update [OF p] nodes_at [OF p])
        moreover have "length (entries (?t[p := Some ?n])) = length (entries ?t) + 1" unfolding E e using None by (simp add: entry_def)
        ultimately show ?thesis using T' B room hash_okD(1,2) [OF ok] by (simp add: hash_ok_def store_node_def cap_def)
      qed
      ultimately show ?thesis
        using kv [of "h\<lparr>num_nodes := num_nodes h + 1, hsize := hsize h + 1\<rparr>"] I new by (intro that(2) [of p ?h]) (auto simp: store_node_def)
    qed (use that(1) F(1) None in \<open>simp add: insert_one_def\<close>)
  next
    case (Some n)
    have nodes_eq: "nodes (?t[p := Some ?n]) = nodes ?t" using Some by (simp add: nodes_update [OF p] nodes_at [OF p])
    show ?thesis
    proof (cases ow)
      case True
      then have n: "hcode n = ?hc" "k = nkey n" using F(3) Some by (simp_all add: stop_at_def)
      then have en: "entry (Some n) = [(k, nval n)]" by (simp add: entry_def)
      let ?h = "store_node p ?hc k v h"
      have "insert_one he ow k v h = Some (STDESUCCESS, p, ?h)" using F(1) Some True by (simp add: insert_one_def)
      moreover have "hash_ok he ?h"
      proof -
        have "length (entries (?t[p := Some ?n])) = length (entries ?t)" unfolding E e Some en by simp
        then show ?thesis using T' B hash_okD(1,2,5) [OF ok] ne nodes_eq by (simp add: hash_ok_def store_node_def cap_def)
      qed
      moreover have "replaced (k, v) (entries ?t) (entries (?t[p := Some ?n]))" unfolding E e Some en replaced_def by auto
      moreover have "k \<in> fst ` set (entries ?t)" unfolding E(2) Some en by simp
      ultimately show ?thesis using kv [of h] True by (intro that(2) [of p ?h]) (simp_all add: store_node_def)
    next
      case False
      then have "hcode n = 0" using F(3) Some by (simp add: stop_at_def)
      then have en: "entry (Some n) = []" by (simp add: entry_def)
      let ?h = "store_node p ?hc k v (h\<lparr>hsize := hsize h + 1\<rparr>)"
      have "insert_one he ow k v h = Some (STDESUCCESS, p, ?h)" using F(1) Some False by (simp add: insert_one_def)
      moreover have "hash_ok he ?h"
      proof -
        have "length (entries (?t[p := Some ?n])) = length (entries ?t) + 1" unfolding E e Some en by simp
        then show ?thesis using T' B hash_okD(1,2,5) [OF ok] ne nodes_eq by (simp add: hash_ok_def store_node_def cap_def)
      qed
      moreover have "inserted (k, v) (entries ?t) (entries (?t[p := Some ?n]))" unfolding E e Some en inserted_def by auto
      ultimately show ?thesis using kv [of "h\<lparr>hsize := hsize h + 1\<rparr>"] False by (intro that(2) [of p ?h]) (simp_all add: store_node_def)
    qed
  qed
qed

lemma inserted_mset: "inserted kv xs ys \<Longrightarrow> mset ys = add_mset kv (mset xs)"
  by (auto simp: inserted_def)

lemma same_entries_keys: "same_entries h h' \<Longrightarrow> fst ` set (entries (table h')) = fst ` set (entries (table h))"
  by (metis same_entries_def set_mset_mset)

text \<open>One pair, with room made for it first. This fails only for want of memory, or if the table may not grow.\<close>

definition may_fail :: "'k hash_env \<Rightarrow> ('k, 'v) stdhash \<Rightarrow> bool" where
  "may_fail he h \<longleftrightarrow> \<not> malloc_ok he \<or> (\<exists>n. \<not> calloc_ok he n) \<or> NO_AUTO_GROW h"

lemma insert_pair_ok:
  assumes ok: "hash_ok he h" and small: "hsize h < 2 ^ 29"
  obtains c h' where "insert_loop he ow [(k, v)] first h = Some (c, first, h')" "c = STDENOMEM \<or> c = STDEACCES" "hash_ok he h'" "same_entries h h'"
      "may_fail he h"
  | p h1 h' where "make_room he h = Some (STDESUCCESS, h1)" "insert_one he ow k v h1 = Some (STDESUCCESS, p, h')"
      "hash_ok he h'" "same_entries h h1" "NO_AUTO_GROW h' = NO_AUTO_GROW h" "p < cap h'" "stdhash_it_key h' p = Some k" "stdhash_it_val h' p = Some v"
      "(if ow \<and> k \<in> fst ` set (entries (table h)) then replaced else inserted) (k, v) (entries (table h1)) (entries (table h'))"
  using ok small
proof (rule make_room_ok)
  fix c assume A: "make_room he h = Some (c, h)" "c = STDENOMEM \<and> (\<exists>n. \<not> calloc_ok he n) \<or> c = STDEACCES \<and> NO_AUTO_GROW h"
  then show ?thesis using ok by (intro that(1) [of c h]) (auto simp: same_entries_def may_fail_def)
next
  fix h1 assume A: "make_room he h = Some (STDESUCCESS, h1)" "hash_ok he h1" "same_entries h h1" "table h1 \<noteq> []" "2 * (num_nodes h1 + 1) \<le> cap h1"
  show ?thesis
  proof (rule insert_one_ok [OF A(2,4,5), of ow k v])
    fix p assume "insert_one he ow k v h1 = Some (STDENOMEM, p, h1)" "\<not> malloc_ok he"
    then show ?thesis using A by (intro that(1) [of STDENOMEM h1]) (simp_all add: may_fail_def)
  next
    fix p h' assume B: "insert_one he ow k v h1 = Some (STDESUCCESS, p, h')" "hash_ok he h'" "p < cap h'" "stdhash_it_key h' p = Some k"
      "stdhash_it_val h' p = Some v" "NO_AUTO_GROW h' = NO_AUTO_GROW h1"
      "(if ow \<and> k \<in> fst ` set (entries (table h1)) then replaced else inserted) (k, v) (entries (table h1)) (entries (table h'))"
    have "NO_AUTO_GROW h' = NO_AUTO_GROW h" using B(6) A(3) by (simp add: same_entries_def)
    from that(2) [OF A(1) B(1,2) A(3) this B(3-5)] show ?thesis using B(7) same_entries_keys [OF A(3)] by simp
  qed
qed

lemma insert_loop_ok:
  assumes "hash_ok he h" "hsize h + length src \<le> 2 ^ 29"
  shows "\<exists>c f h'. insert_loop he False src first h = Some (c, f, h') \<and> hash_ok he h' \<and>
    (\<exists>d. prefix d src \<and> mset (entries (table h')) = mset d + mset (entries (table h)) \<and> (c = STDESUCCESS \<longrightarrow> d = src)) \<and>
    (c = STDESUCCESS \<or> may_fail he h)"
  using assms
proof (induction src arbitrary: first h)
  case Nil
  then show ?case by simp
next
  case (Cons kv src)
  obtain k v where kv: "kv = (k, v)" by (metis surj_pair)
  have small: "hsize h < 2 ^ 29" using Cons.prems(2) by simp
  show ?case
  proof (rule insert_pair_ok [OF Cons.prems(1) small, where k = k and v = v and ow = False and first = first])
    fix c h' assume A: "insert_loop he False [(k, v)] first h = Some (c, first, h')" "c = STDENOMEM \<or> c = STDEACCES" "hash_ok he h'" "same_entries h h'"
      "may_fail he h"
    then have "insert_loop he False (kv # src) first h = Some (c, first, h')"
      unfolding kv by (auto split: option.splits prod.splits if_splits)
    moreover have "mset (entries (table h')) = mset [] + mset (entries (table h))" "c \<noteq> STDESUCCESS" using A(2,4) by (auto simp: same_entries_def)
    ultimately show ?thesis using A(3,5) by (intro exI [of _ c] exI [of _ first] exI [of _ h'] conjI exI [of _ "[]"]) auto
  next
    fix p h1 h' assume A: "make_room he h = Some (STDESUCCESS, h1)" "insert_one he False k v h1 = Some (STDESUCCESS, p, h')" "hash_ok he h'"
      "same_entries h h1" "NO_AUTO_GROW h' = NO_AUTO_GROW h" "(if False \<and> k \<in> fst ` set (entries (table h)) then replaced else inserted) (k, v) (entries (table h1)) (entries (table h'))"
    have m: "mset (entries (table h')) = add_mset (k, v) (mset (entries (table h)))"
      using A(4,6) inserted_mset by (fastforce simp: same_entries_def)
    then have "hsize h' = hsize h + 1"
      unfolding hash_okD(2) [OF A(3)] hash_okD(2) [OF Cons.prems(1)] by (metis size_add_mset size_mset Suc_eq_plus1)
    then have "hsize h' + length src \<le> 2 ^ 29" using Cons.prems(2) by simp
    from Cons.IH [OF A(3) this, of "if first = None then Some p else first"] obtain c f h2 d where
      I: "insert_loop he False src (if first = None then Some p else first) h' = Some (c, f, h2)" "hash_ok he h2" "prefix d src"
      "mset (entries (table h2)) = mset d + mset (entries (table h'))" "c = STDESUCCESS \<longrightarrow> d = src"
      "c = STDESUCCESS \<or> may_fail he h'" by blast
    have "insert_loop he False (kv # src) first h = Some (c, f, h2)" unfolding kv using A(1,2) I(1) by simp
    moreover have "prefix (kv # d) (kv # src)" using I(3) by simp
    moreover have "mset (entries (table h2)) = mset (kv # d) + mset (entries (table h))" using I(4) m kv by simp
    moreover have "may_fail he h' \<longleftrightarrow> may_fail he h" using A(5) by (simp add: may_fail_def)
    ultimately show ?thesis using I(2,5,6) by blast
  qed
qed

section \<open>Lookup\<close>

lemma stdhash_find_ok:
  assumes "hash_ok he h"
  obtains it where "stdhash_find he h k = Some it" "it < cap h" "active (table h ! it)" "stdhash_it_key h it = Some k"
  | "stdhash_find he h k = Some (cap h)" "k \<notin> fst ` set (entries (table h))"
proof (cases "hsize h = 0")
  case True
  then show ?thesis using that(2) hash_okD(2) [OF assms] by (simp add: stdhash_find_def)
next
  case False
  then have ne: "table h \<noteq> []" using hash_okD(2) [OF assms] by auto
  note T = hash_okD(4,5) [OF assms ne]
  obtain p where F: "stdhash_low_find he h True k = Some (p, stdhash_low_hcode he k)" "p < cap h" "stop_at (table h) True k (stdhash_low_hcode he k) p"
    using low_find_total [OF T] by blast
  show ?thesis
  proof (cases "table h ! p")
    case None
    then show ?thesis using that(2) low_find_absent [OF T F(1) None] False F(1) by (simp add: stdhash_find_def)
  next
    case (Some n)
    then have "hcode n = stdhash_low_hcode he k" "k = nkey n" using F(3) by (simp_all add: stop_at_def)
    then show ?thesis using that(1) [of p] F Some False by (simp add: stdhash_find_def stdhash_it_key_def active_def)
  qed
qed

section \<open>Erasure\<close>

lemma erase_node_ok:
  assumes ok: "hash_ok he h" and it: "it < cap h" "table h ! it = Some n" "hcode n \<noteq> 0"
  defines "h1 \<equiv> snd (erase_node h it)"
  shows "hash_ok he h1" "mset (entries (table h)) = add_mset (nkey n, nval n) (mset (entries (table h1)))"
    "NO_AUTO_SHRINK h1 = NO_AUTO_SHRINK h" "hsize h = hsize h1 + 1" "cap h1 = cap h"
proof -
  let ?t = "table h"
  have p: "it < length ?t" using it(1) by (simp add: cap_def)
  let ?n = "n\<lparr>hcode := 0\<rparr>"
  let ?t' = "?t[it := Some ?n]"
  have h1: "h1 = h\<lparr>table := ?t', begin_pos := (if it = begin_pos h then skip ?t' (it + 1) else begin_pos h), hsize := hsize h - 1\<rparr>"
    by (simp add: h1_def erase_node_def it(2) stdhash_low_next_def Let_def)
  have ne: "?t \<noteq> []" using p by auto
  note T = hash_okD(4,5) [OF ok ne]
  have T': "table_ok he (cap_lg h) ?t'" by (rule table_ok_store [OF T(1) p]) simp
  have B: "skip ?t' 0 = (if it = begin_pos h then skip ?t' (it + 1) else begin_pos h)"
    unfolding hash_okD(3) [OF ok] by (rule skip_erase [OF _ p]) (use it in \<open>simp_all add: active_def\<close>)
  have e: "entry (Some ?n) = []" "entry (?t ! it) = [(nkey n, nval n)]" using it by (simp_all add: entry_def)
  note E = entries_update [OF p, of "Some ?n"] entries_at [OF p]
  have len: "length (entries ?t) = length (entries ?t') + 1" unfolding E e by simp
  have "nodes ?t' = nodes ?t" using it(2) by (simp add: nodes_update [OF p] nodes_at [OF p])
  then show "hash_ok he h1" using T' B T(2) len hash_okD(1,2) [OF ok] by (simp add: hash_ok_def h1 cap_def)
  show "mset (entries ?t) = add_mset (nkey n, nval n) (mset (entries (table h1)))" unfolding h1 by (simp add: E e)
  show "NO_AUTO_SHRINK h1 = NO_AUTO_SHRINK h" "hsize h = hsize h1 + 1" "cap h1 = cap h"
    using len hash_okD(2) [OF ok] by (simp_all add: h1 cap_def)
qed

lemma shrink_ok:
  assumes "hash_ok he h" "hsize h \<le> 2 ^ 29"
  obtains c h' where "shrink he h = Some (c, h')" "hash_ok he h'" "same_entries h h'" "c = STDESUCCESS \<or> h' = h"
proof (cases "\<not> NO_AUTO_SHRINK h \<and> cap h \<noteq> STDHASH_MIN_AUTO_ALLOC \<and> hsize h \<le> stdhash_low_thresh h")
  case True
  then have s: "shrink he h = stdhash_low_rehash he h (hsize h)" by (simp add: shrink_def)
  show ?thesis by (rule rehash_ok [OF assms]) (use that s assms(1) in \<open>auto simp: same_entries_def\<close>)
next
  case False
  then have "shrink he h = Some (STDEINVAL, h)" unfolding shrink_def by (simp only: if_False)
  then show ?thesis using that assms(1) by (simp add: same_entries_def)
qed

lemma stdhash_erase_ok:
  assumes ok: "hash_ok he h" and it: "it < cap h" "active (table h ! it)" and small: "hsize h \<le> 2 ^ 29"
  obtains nxt h' k v where "stdhash_erase he h it = Some (nxt, h')" "hash_ok he h'" "stdhash_it_key h it = Some k" "stdhash_it_val h it = Some v"
    "mset (entries (table h)) = add_mset (k, v) (mset (entries (table h')))"
proof -
  obtain n where n: "table h ! it = Some n" "hcode n \<noteq> 0" using it(2) by (auto simp: active_def split: option.splits)
  note E = erase_node_ok [OF ok it(1) n]
  have "hsize (snd (erase_node h it)) \<le> 2 ^ 29" using E(4) small by simp
  then obtain c h' where S: "shrink he (snd (erase_node h it)) = Some (c, h')" "hash_ok he h'" "same_entries (snd (erase_node h it)) h'"
    using shrink_ok [OF E(1)] by metis
  show ?thesis
  proof (rule that)
    show "stdhash_erase he h it = Some (if c = STDESUCCESS then begin_pos h' else fst (erase_node h it), h')"
      using S(1) by (simp add: stdhash_erase_def case_prod_unfold)
    show "stdhash_it_key h it = Some (nkey n)" "stdhash_it_val h it = Some (nval n)"
      using it(1) n(1) by (simp_all add: stdhash_it_key_def stdhash_it_val_def)
    show "mset (entries (table h)) = add_mset (nkey n, nval n) (mset (entries (table h')))"
      using E(2) S(3) by (simp add: same_entries_def)
  qed (rule S(2))
qed

end
