(* ===== verification/Hash_Contract.thy ===== *)
theory Hash_Contract
  imports Hash_Ops
begin

text \<open>
  The contract of a table that maps keys to values, with several values for a key, as a locale. The
  association lists that stand for the tables of the daemon (\<open>Hash_Table\<close>) and the hash table of
  \<open>stdhash.c\<close> both keep it.
\<close>

section \<open>The contract\<close>

locale multi_table =
  fixes inv :: "'h \<Rightarrow> bool"
    and pairs :: "'h \<Rightarrow> ('k \<times> 'v) list"
    and find :: "'h \<Rightarrow> 'k \<Rightarrow> 'v option"
    and insert :: "'h \<Rightarrow> 'k \<Rightarrow> 'v \<Rightarrow> 'h option"
    and erase :: "'h \<Rightarrow> 'k \<Rightarrow> 'h"
  assumes find_Some: "inv h \<Longrightarrow> find h k = Some v \<Longrightarrow> (k, v) \<in> set (pairs h)"
    and find_None: "inv h \<Longrightarrow> find h k = None \<longleftrightarrow> k \<notin> fst ` set (pairs h)"
    and insert_pairs: "inv h \<Longrightarrow> insert h k v = Some h' \<Longrightarrow> inv h' \<and> mset (pairs h') = add_mset (k, v) (mset (pairs h))"
    and erase_pairs: "inv h \<Longrightarrow> find h k = Some v \<Longrightarrow> inv (erase h k) \<and> add_mset (k, v) (mset (pairs (erase h k))) = mset (pairs h)"
    and erase_absent: "inv h \<Longrightarrow> find h k = None \<Longrightarrow> erase h k = h"
begin

lemma find_unique:
  assumes "inv h" "distinct (map fst (pairs h))"
  shows "find h k = Some v \<longleftrightarrow> (k, v) \<in> set (pairs h)"
proof
  assume kv: "(k, v) \<in> set (pairs h)"
  then have "find h k \<noteq> None" using find_None [OF assms(1), of k] by (auto simp: image_iff)
  then obtain w where w: "find h k = Some w" by blast
  then have "(k, w) \<in> set (pairs h)" by (rule find_Some [OF assms(1)])
  with kv have "w = v" using assms(2) by (meson eq_key_imp_eq_value)
  with w show "find h k = Some v" by simp
qed (rule find_Some [OF assms(1)])

lemma find_map_of: "inv h \<Longrightarrow> distinct (map fst (pairs h)) \<Longrightarrow> find h = map_of (pairs h)"
proof
  fix k assume A: "inv h" "distinct (map fst (pairs h))"
  show "find h k = map_of (pairs h) k"
  proof (cases "find h k")
    case None
    then have "k \<notin> fst ` set (pairs h)" using find_None [OF A(1)] by simp
    then show ?thesis using None by (metis map_of_eq_None_iff)
  next
    case (Some v)
    then show ?thesis using A(2) find_Some [OF A(1)] by simp
  qed
qed

lemma unique_pairs_mset: "mset (pairs h') = mset xs \<Longrightarrow> distinct (map fst (pairs h')) \<longleftrightarrow> distinct (map fst xs)"
  by (metis mset_map mset_eq_imp_distinct_iff)

lemma find_insert_new:
  assumes "inv h" "distinct (map fst (pairs h))" "find h k = None" "insert h k v = Some h'"
  shows "distinct (map fst (pairs h'))" "find h' = (find h)(k \<mapsto> v)"
proof -
  note I = insert_pairs [OF assms(1,4)]
  have k: "k \<notin> fst ` set (pairs h)" using assms(3) find_None [OF assms(1)] by simp
  have m: "mset (pairs h') = mset ((k, v) # pairs h)" using I by simp
  show d: "distinct (map fst (pairs h'))" unfolding unique_pairs_mset [OF m] using assms(2) k by simp
  have s: "set (pairs h') = set ((k, v) # pairs h)" using m by (metis set_mset_mset)
  show "find h' = (find h)(k \<mapsto> v)"
    unfolding find_map_of [OF conjunct1 [OF I] d] find_map_of [OF assms(1,2)]
    using map_of_inject_set [of "pairs h'" "(k, v) # pairs h"] s d assms(2) k by simp
qed

lemma find_erase_unique:
  assumes "inv h" "distinct (map fst (pairs h))"
  shows "find (erase h k) = (find h)(k := None)"
proof (cases "find h k")
  case None
  then show ?thesis by (simp add: erase_absent [OF assms(1)] fun_upd_idem)
next
  case (Some v)
  note E = erase_pairs [OF assms(1) Some]
  have m: "mset (pairs h) = mset ((k, v) # pairs (erase h k))" using E by simp
  have d: "distinct (map fst ((k, v) # pairs (erase h k)))" using assms(2) unique_pairs_mset [OF m] by simp
  have s: "set (pairs h) = set ((k, v) # pairs (erase h k))" using m by (metis set_mset_mset)
  have "find h = map_of ((k, v) # pairs (erase h k))"
    unfolding find_map_of [OF assms] using map_of_inject_set [OF assms(2) d] s by simp
  moreover have "find (erase h k) = map_of (pairs (erase h k))" using find_map_of [OF conjunct1 [OF E]] d by simp
  moreover have "map_of (pairs (erase h k)) k = None" using d by (simp add: map_of_eq_None_iff)
  ultimately show ?thesis by (simp add: fun_upd_idem)
qed

text \<open>Inserting a new key and erasing it again leaves the table as it was.\<close>

lemma erase_inserted:
  assumes "inv h" "find h k = None" "insert h k v = Some h'"
  shows "inv (erase h' k) \<and> mset (pairs (erase h' k)) = mset (pairs h)"
proof -
  note I = insert_pairs [OF assms(1,3)]
  have "k \<in> fst ` set (pairs h')" using I by (metis fst_conv image_eqI set_mset_mset union_single_eq_member)
  then obtain w where w: "find h' k = Some w" using find_None [of h' k] I by (cases "find h' k") auto
  have "(k, w) \<in># add_mset (k, v) (mset (pairs h))" using find_Some [OF conjunct1 [OF I] w] I by (metis set_mset_mset)
  moreover have "k \<notin> fst ` set (pairs h)" using assms(2) find_None [OF assms(1)] by simp
  ultimately have "w = v" by (auto simp: image_iff)
  with erase_pairs [OF conjunct1 [OF I] w] I show ?thesis by simp
qed

end

section \<open>Both kinds of tables\<close>

interpretation alist: multi_table "\<lambda>_. True" "\<lambda>h. h" Hash_Table.stdhash_find "\<lambda>h k v. Some (Hash_Table.stdhash_insert h k v)"
  Hash_Table.stdhash_erase
proof
  fix h :: "('k \<times> 'v) list" and k v
  show "Hash_Table.stdhash_find h k = Some v \<Longrightarrow> (k, v) \<in> set h" by (simp add: Hash_Table.stdhash_find_def map_of_SomeD)
  show "(Hash_Table.stdhash_find h k = None) = (k \<notin> fst ` set h)" by (simp add: Hash_Table.stdhash_find_def map_of_eq_None_iff)
  show "Hash_Table.stdhash_find h k = Some v \<Longrightarrow> True \<and> add_mset (k, v) (mset (Hash_Table.stdhash_erase h k)) = mset h"
    by (induction h k rule: Hash_Table.stdhash_erase.induct) (auto simp: Hash_Table.stdhash_find_def split: if_splits)
  show "Hash_Table.stdhash_find h k = None \<Longrightarrow> Hash_Table.stdhash_erase h k = h"
    by (induction h k rule: Hash_Table.stdhash_erase.induct) (auto simp: Hash_Table.stdhash_find_def split: if_splits)
qed (auto simp: Hash_Table.stdhash_insert_def)

text \<open>The hash table, used by key: the value that \<open>stdhash_find\<close> gives, an insertion that succeeds, and the
  erasure of what \<open>stdhash_find\<close> gives.\<close>

definition hash_inv :: "'k hash_env \<Rightarrow> ('k, 'v) stdhash \<Rightarrow> bool" where
  "hash_inv he h \<longleftrightarrow> hash_ok he h \<and> hsize h < 2 ^ 29"

definition lookup_key :: "'k hash_env \<Rightarrow> ('k, 'v) stdhash \<Rightarrow> 'k \<Rightarrow> 'v option" where
  "lookup_key he h k = (case stdhash_find he h k of None \<Rightarrow> None | Some it \<Rightarrow> stdhash_it_val h it)"

definition insert_key :: "'k hash_env \<Rightarrow> ('k, 'v) stdhash \<Rightarrow> 'k \<Rightarrow> 'v \<Rightarrow> ('k, 'v) stdhash option" where
  "insert_key he h k v = (case stdhash_insert he h k v of
     Some (c, p, h') \<Rightarrow> if c = STDESUCCESS \<and> hsize h' < 2 ^ 29 then Some h' else None | None \<Rightarrow> None)"

definition erase_found :: "'k hash_env \<Rightarrow> ('k, 'v) stdhash \<Rightarrow> 'k \<Rightarrow> ('k, 'v) stdhash" where
  "erase_found he h k = (case stdhash_find he h k of None \<Rightarrow> h
     | Some it \<Rightarrow> if stdhash_is_end h it then h else case stdhash_erase he h it of None \<Rightarrow> h | Some (nxt, h') \<Rightarrow> h')"

lemma it_in_entries:
  assumes "it < cap h" "active (table h ! it)" "stdhash_it_key h it = Some k"
  obtains v where "stdhash_it_val h it = Some v" "(k, v) \<in> set (entries (table h))"
proof -
  obtain n where "table h ! it = Some n" "hcode n \<noteq> 0" using assms(2) by (auto simp: active_def split: option.splits)
  then show ?thesis using assms that [of "nval n"] by (auto simp: stdhash_it_key_def stdhash_it_val_def cap_def in_entries)
qed

lemma lookup_key_cases:
  assumes "hash_ok he h"
  obtains it v where "stdhash_find he h k = Some it" "it < cap h" "active (table h ! it)" "stdhash_it_key h it = Some k"
      "stdhash_it_val h it = Some v" "lookup_key he h k = Some v" "(k, v) \<in> set (entries (table h))"
  | "stdhash_find he h k = Some (cap h)" "lookup_key he h k = None" "k \<notin> fst ` set (entries (table h))"
proof (rule stdhash_find_ok [OF assms, of k])
  fix it assume A: "stdhash_find he h k = Some it" "it < cap h" "active (table h ! it)" "stdhash_it_key h it = Some k"
  show ?thesis
  proof (rule it_in_entries [OF A(2-4)])
    fix v assume "stdhash_it_val h it = Some v" "(k, v) \<in> set (entries (table h))"
    then show ?thesis using that(1) [OF A] A(1) by (simp add: lookup_key_def)
  qed
next
  assume "stdhash_find he h k = Some (cap h)" "k \<notin> fst ` set (entries (table h))"
  then show ?thesis using that(2) by (simp add: lookup_key_def stdhash_it_val_def)
qed

lemma insert_key_ok:
  assumes "hash_inv he h" "insert_key he h k v = Some h'"
  shows "hash_inv he h'" "mset (entries (table h')) = add_mset (k, v) (mset (entries (table h)))"
proof -
  have ok: "hash_ok he h" "hsize h + length [(k, v)] \<le> 2 ^ 29" using assms(1) by (auto simp: hash_inv_def)
  obtain c f h1 d where L: "insert_loop he False [(k, v)] None h = Some (c, f, h1)" "hash_ok he h1"
    "mset (entries (table h1)) = mset d + mset (entries (table h))" "c = STDESUCCESS \<longrightarrow> d = [(k, v)]"
    using insert_loop_ok [OF ok, of None] by blast
  have "stdhash_insert he h k v = Some (c, (case f of None \<Rightarrow> cap h1 | Some p \<Rightarrow> p), h1)"
    unfolding stdhash_insert_def stdhash_low_insert_def L(1) by simp
  then have "c = STDESUCCESS \<and> hsize h1 < 2 ^ 29 \<and> h' = h1" using assms(2) unfolding insert_key_def by (auto split: if_splits)
  then show "hash_inv he h'" "mset (entries (table h')) = add_mset (k, v) (mset (entries (table h)))"
    using L(2-4) by (auto simp: hash_inv_def)
qed

interpretation hash: multi_table "hash_inv he" "\<lambda>h :: ('k, 'v) stdhash. entries (table h)" "lookup_key he" "insert_key he" "erase_found he"
  for he :: "'k hash_env"
proof
  fix h :: "('k, 'v) stdhash" and h' k v
  assume ok: "hash_inv he h"
  then have h: "hash_ok he h" "hsize h \<le> 2 ^ 29" by (auto simp: hash_inv_def)
  show "lookup_key he h k = Some v \<Longrightarrow> (k, v) \<in> set (entries (table h))" by (rule lookup_key_cases [OF h(1), of k]) auto
  show "(lookup_key he h k = None) = (k \<notin> fst ` set (entries (table h)))" by (rule lookup_key_cases [OF h(1), of k]) force+
  show "insert_key he h k v = Some h' \<Longrightarrow> hash_inv he h' \<and> mset (entries (table h')) = add_mset (k, v) (mset (entries (table h)))"
    using insert_key_ok [OF ok] by blast
  assume F: "lookup_key he h k = Some v"
  show "hash_inv he (erase_found he h k) \<and> add_mset (k, v) (mset (entries (table (erase_found he h k)))) = mset (entries (table h))"
  proof (rule lookup_key_cases [OF h(1), of k])
    fix it w assume A: "stdhash_find he h k = Some it" "it < cap h" "active (table h ! it)" "stdhash_it_key h it = Some k"
      "stdhash_it_val h it = Some w" "lookup_key he h k = Some w"
    show ?thesis
    proof (rule stdhash_erase_ok [OF h(1) A(2,3) h(2)])
      fix nxt h2 k2 v2 assume B: "stdhash_erase he h it = Some (nxt, h2)" "hash_ok he h2" "stdhash_it_key h it = Some k2" "stdhash_it_val h it = Some v2"
        "mset (entries (table h)) = add_mset (k2, v2) (mset (entries (table h2)))"
      have e: "erase_found he h k = h2" using A(1,2) B(1) by (simp add: erase_found_def stdhash_is_end_def)
      have "hsize h = hsize h2 + 1" using arg_cong [OF B(5), of size] hash_okD(2) [OF h(1)] hash_okD(2) [OF B(2)] by simp
      then show ?thesis unfolding e using B A F ok by (simp add: hash_inv_def)
    qed
  qed (use F in simp)
next
  fix h :: "('k, 'v) stdhash" and k
  assume A: "hash_inv he h" "lookup_key he h k = None"
  then have "hash_ok he h" by (simp add: hash_inv_def)
  then show "erase_found he h k = h"
  proof (rule lookup_key_cases [where k = k])
    assume "stdhash_find he h k = Some (cap h)"
    then show ?thesis by (simp add: erase_found_def stdhash_is_end_def)
  qed (use A(2) in simp)
qed

section \<open>Iteration\<close>

text \<open>The positions an iterator visits.\<close>

definition stops :: "('k, 'v) stdhash_node option list \<Rightarrow> nat list" where
  "stops t = filter (\<lambda>i. active (t ! i)) [0..<length t] @ [length t]"

lemma stops_props:
  shows "sorted_wrt (<) (stops t)" "i \<in> set (stops t) \<longleftrightarrow> i = length t \<or> i < length t \<and> active (t ! i)"
    "length (stops t) = length (entries t) + 1"
proof -
  show "sorted_wrt (<) (stops t)"
    by (auto simp: stops_def sorted_wrt_append intro: sorted_wrt_filter sorted_wrt_upt)
  show "i \<in> set (stops t) \<longleftrightarrow> i = length t \<or> i < length t \<and> active (t ! i)" by (auto simp: stops_def)
  have "length (filter (\<lambda>i. active (t ! i)) [0..<length t]) = length (entries t)"
  proof (induction t rule: rev_induct)
    case (snoc x t)
    have "filter (\<lambda>i. active ((t @ [x]) ! i)) [0..<length t] = filter (\<lambda>i. active (t ! i)) [0..<length t]"
      by (rule filter_cong) (simp_all add: nth_append)
    then show ?case using snoc by (auto simp: entry_def active_def split: option.splits)
  qed simp
  then show "length (stops t) = length (entries t) + 1" by (simp add: stops_def)
qed

lemma stops_nth_less: "j < length (entries t) \<Longrightarrow> stops t ! j < stops t ! (j + 1)"
  using sorted_wrt_nth_less [OF stops_props(1) [of t], of j "j + 1"] stops_props(3) [of t] by simp

lemma stops_between:
  assumes "i < length t" "active (t ! i)" "j < length (entries t)" "stops t ! j < i"
  shows "stops t ! (j + 1) \<le> i"
proof -
  have "i \<in> set (stops t)" using assms(1,2) by (simp add: stops_props(2))
  then obtain m where m: "m < length (stops t)" "i = stops t ! m" by (auto simp: in_set_conv_nth)
  have "\<not> m \<le> j"
  proof
    assume "m \<le> j"
    then have "stops t ! m \<le> stops t ! j"
      using sorted_wrt_nth_less [OF stops_props(1) [of t], of m j] assms(3) stops_props(3) [of t] by (cases "m = j") (simp_all add: less_imp_le)
    with m assms(4) show False by simp
  qed
  then show ?thesis
    using sorted_wrt_nth_less [OF stops_props(1) [of t], of "j + 1" m] m by (cases "m = j + 1") (simp_all add: less_imp_le)
qed

lemma skip_first: "skip t 0 = stops t ! 0"
proof -
  have mem: "stops t ! 0 \<in> set (stops t)" using stops_props(3) [of t] by simp
  have "\<not> active (t ! l)" if "l < stops t ! 0" for l
  proof
    assume a: "active (t ! l)"
    have "l < length t" using that mem by (auto simp: stops_props(2))
    then have "l \<in> set (stops t)" using a by (simp add: stops_props(2))
    then obtain m where "m < length (stops t)" "l = stops t ! m" by (auto simp: in_set_conv_nth)
    then show False using that sorted_wrt_nth_less [OF stops_props(1) [of t], of 0 m] by (cases m) simp_all
  qed
  then show ?thesis by (intro skip_unique) (use mem in \<open>auto simp: stops_props(2)\<close>)
qed

lemma next_stop:
  assumes "j < length (entries t)"
  shows "stdhash_low_next t (stops t ! j) = stops t ! (j + 1)"
proof -
  have mem: "stops t ! (j + 1) \<in> set (stops t)" using assms stops_props(3) [of t] by simp
  have "\<not> active (t ! l)" if "stops t ! j + 1 \<le> l" "l < stops t ! (j + 1)" for l
    using stops_between [of l t j] assms that mem by (auto simp: stops_props(2))
  then show ?thesis
    unfolding stdhash_low_next_def by (intro skip_unique) (use mem stops_nth_less [OF assms] in \<open>auto simp: stops_props(2)\<close>)
qed

lemma low_prev_unique:
  "q < p \<Longrightarrow> active (t ! q) \<Longrightarrow> (\<And>l. q < l \<Longrightarrow> l < p \<Longrightarrow> \<not> active (t ! l)) \<Longrightarrow> stdhash_low_prev t p = Some q"
  by (induction p) (auto simp: less_Suc_eq)

lemma prev_stop:
  assumes "j < length (entries t)"
  shows "stdhash_low_prev t (stops t ! (j + 1)) = Some (stops t ! j)"
proof (rule low_prev_unique [OF stops_nth_less [OF assms]])
  have mem: "stops t ! j \<in> set (stops t)" "stops t ! (j + 1) \<in> set (stops t)" using assms stops_props(3) [of t] by simp_all
  show "active (t ! (stops t ! j))" using mem stops_nth_less [OF assms] by (auto simp: stops_props(2))
  show "\<not> active (t ! l)" if "stops t ! j < l" "l < stops t ! (j + 1)" for l
    using stops_between [of l t j] assms that mem(2) by (auto simp: stops_props(2))
qed

lemma advance_stops: "j + n \<le> length (entries (table h)) \<Longrightarrow> stdhash_it_advance h (stops (table h) ! j) n = stops (table h) ! (j + n)"
  by (induction n arbitrary: j) (simp_all add: next_stop)

lemma retreat_stops: "n \<le> j \<Longrightarrow> j \<le> length (entries (table h)) \<Longrightarrow> stdhash_it_retreat h (stops (table h) ! j) n = Some (stops (table h) ! (j - n))"
proof (induction n arbitrary: j)
  case (Suc n)
  then obtain i where i: "j = i + 1" by (cases j) auto
  then show ?case using Suc prev_stop [of i "table h"] by simp
qed simp

lemma entries_stops: "entries t = map (\<lambda>i. hd (entry (t ! i))) (filter (\<lambda>i. active (t ! i)) [0..<length t])"
proof (induction t rule: rev_induct)
  case (snoc x t)
  have "filter (\<lambda>i. active ((t @ [x]) ! i)) [0..<length t] = filter (\<lambda>i. active (t ! i)) [0..<length t]"
    by (rule filter_cong) (simp_all add: nth_append)
  moreover have "map (\<lambda>i. hd (entry ((t @ [x]) ! i))) (filter (\<lambda>i. active (t ! i)) [0..<length t]) = entries t"
    unfolding snoc by (rule map_cong) (simp_all add: nth_append)
  ultimately show ?case by (auto simp: entry_def active_def split: option.splits)
qed simp

lemma entry_at_stop:
  assumes "j < length (entries (table h))"
  shows "(stdhash_it_key h (stops (table h) ! j), stdhash_it_val h (stops (table h) ! j)) = (Some (fst (entries (table h) ! j)), Some (snd (entries (table h) ! j)))"
proof -
  let ?t = "table h"
  let ?f = "filter (\<lambda>i. active (?t ! i)) [0..<length ?t]"
  have j: "j < length ?f" using assms stops_props(3) [of ?t] by (simp add: stops_def)
  then have s: "stops ?t ! j = ?f ! j" by (simp add: stops_def nth_append)
  have "?f ! j \<in> set ?f" using j by (rule nth_mem)
  then have a: "?f ! j < length ?t" "active (?t ! (?f ! j))" by auto
  then obtain n where n: "?t ! (?f ! j) = Some n" "hcode n \<noteq> 0" by (auto simp: active_def split: option.splits)
  have "entries ?t ! j = hd (entry (?t ! (?f ! j)))" by (subst entries_stops) (simp only: nth_map [OF j])
  then show ?thesis unfolding s using n a(1) by (simp add: stdhash_it_key_def stdhash_it_val_def cap_def entry_def)
qed

end
