(* ===== verification/Hash_Spec.thy ===== *)
theory Hash_Spec
  imports Hash_Contract
begin

text \<open>
  What the hash table of \<open>stdhash.c\<close> promises: its invariant holds after any sequence of operations, a
  search ends and finds what is there, entries are neither lost nor invented, and an iterator visits
  each of them once.
\<close>

section \<open>All operations\<close>

text \<open>The states a table may get into, with fewer than \<open>2 ^ 29\<close> entries.\<close>

inductive hash_reachable :: "'k hash_env \<Rightarrow> ('k, 'v) stdhash \<Rightarrow> bool" for he where
  construct: "hash_reachable he (stdhash_construct ng ns)"
| insert_seq: "hash_reachable he h \<Longrightarrow> hsize h + length src \<le> 2 ^ 29 \<Longrightarrow> stdhash_insert_seq he h src = Some (c, p, h') \<Longrightarrow> hash_reachable he h'"
| put: "hash_reachable he h \<Longrightarrow> hsize h < 2 ^ 29 \<Longrightarrow> stdhash_put he h k v = Some (c, p, h') \<Longrightarrow> hash_reachable he h'"
| erase: "hash_reachable he h \<Longrightarrow> it < cap h \<Longrightarrow> active (table h ! it) \<Longrightarrow> hsize h \<le> 2 ^ 29 \<Longrightarrow> stdhash_erase he h it = Some (nxt, h') \<Longrightarrow>
    hash_reachable he h'"
| clear: "hash_reachable he h \<Longrightarrow> stdhash_clear he h = Some h' \<Longrightarrow> hash_reachable he h'"
| rehash: "hash_reachable he h \<Longrightarrow> hsize h \<le> 2 ^ 29 \<Longrightarrow> stdhash_rehash he h = Some (c, h') \<Longrightarrow> hash_reachable he h'"
| reserve: "hash_reachable he h \<Longrightarrow> hsize h \<le> 2 ^ 29 \<Longrightarrow> n \<le> 2 ^ 29 \<Longrightarrow> stdhash_reserve he h n = Some (c, h') \<Longrightarrow> hash_reachable he h'"

lemma construct_ok: "hash_ok he (stdhash_construct ng ns)"
  by (simp add: hash_ok_def stdhash_construct_def skip.simps)

lemma cleared_table:
  fixes t :: "('k, 'v) stdhash_node option list"
  assumes "table_ok he lg t"
  shows "table_ok he lg (replicate (length t) (None :: ('k, 'v) stdhash_node option))"
    "skip (replicate (length t) (None :: ('k, 'v) stdhash_node option)) 0 = length t"
  using assms skip_empty [of "replicate (length t) (None :: ('k, 'v) stdhash_node option)"] by (simp_all add: table_ok_def)

lemma clear_ok:
  assumes "hash_ok he h"
  obtains h' where "stdhash_clear he h = Some h'" "hash_ok he h'" "entries (table h') = []"
proof -
  have c: "hash_ok he (stdhash_low_clear h) \<and> entries (table (stdhash_low_clear h)) = []"
  proof (cases "num_nodes h = 0")
    case True
    then have "entries (table h) = []" using entries_le_nodes [of "table h"] hash_okD(1) [OF assms] by simp
    then show ?thesis using True assms by (simp add: stdhash_low_clear_def)
  next
    case False
    then have "table_ok he (cap_lg h) (table h)" using hash_okD(1,4) [OF assms] by fastforce
    from cleared_table [OF this] show ?thesis using False by (simp add: stdhash_low_clear_def hash_ok_def cap_def)
  qed
  then have "hsize (stdhash_low_clear h) \<le> 2 ^ 29" using hash_okD(2) by fastforce
  with c obtain cd h' where S: "shrink he (stdhash_low_clear h) = Some (cd, h')" "hash_ok he h'" "same_entries (stdhash_low_clear h) h'"
    using shrink_ok by blast
  have "mset (entries (table h')) = {#}" using S(3) c by (simp add: same_entries_def)
  then show ?thesis using that [of h'] S by (simp add: stdhash_clear_def)
qed

lemma put_ok:
  assumes "hash_ok he h" "hsize h < 2 ^ 29"
  obtains c p h' where "stdhash_put he h k v = Some (c, p, h')" "hash_ok he h'" "c \<noteq> STDESUCCESS" "same_entries h h'"
  | p h1 h' where "stdhash_put he h k v = Some (STDESUCCESS, p, h')" "hash_ok he h'" "same_entries h h1"
      "stdhash_it_key h' p = Some k" "stdhash_it_val h' p = Some v"
      "(if k \<in> fst ` set (entries (table h)) then replaced else inserted) (k, v) (entries (table h1)) (entries (table h'))"
  using assms
proof (rule insert_pair_ok [where ow = True and k = k and v = v and first = None])
  fix c h' assume "insert_loop he True [(k, v)] None h = Some (c, None, h')" "c = STDENOMEM \<or> c = STDEACCES" "hash_ok he h'" "same_entries h h'"
  then show ?thesis using that(1) [of c "cap h'" h'] by (auto simp: stdhash_put_def stdhash_low_insert_def)
next
  fix p h1 h' assume "make_room he h = Some (STDESUCCESS, h1)" "insert_one he True k v h1 = Some (STDESUCCESS, p, h')" "hash_ok he h'" "same_entries h h1"
    "stdhash_it_key h' p = Some k" "stdhash_it_val h' p = Some v"
    "(if True \<and> k \<in> fst ` set (entries (table h)) then replaced else inserted) (k, v) (entries (table h1)) (entries (table h'))"
  then show ?thesis using that(2) [of p h' h1] by (simp add: stdhash_put_def stdhash_low_insert_def)
qed

lemma rehash_request_ok:
  assumes "hash_ok he h" "request \<le> 2 ^ 29" "hsize h \<le> max request STDHASH_MIN_AUTO_ALLOC"
  obtains c h' where "stdhash_low_rehash he h request = Some (c, h')" "hash_ok he h'" "same_entries h h'"
  using assms by (rule rehash_ok) (use that assms(1) in \<open>auto simp: same_entries_def\<close>)

lemma reserve_request: "hash_ok he h \<Longrightarrow> stdhash_high_thresh h < n \<Longrightarrow> hsize h \<le> n"
  using hash_okD(1,2,5) [of he h] entries_le_nodes [of "table h"] by (cases "table h = []") (auto simp: stdhash_high_thresh_def)

lemma hash_reachable_ok: "hash_reachable he h \<Longrightarrow> hash_ok he h"
proof (induction rule: hash_reachable.induct)
  case (construct ng ns)
  show ?case by (rule construct_ok)
next
  case (insert_seq h src c p h')
  obtain f h2 where "insert_loop he False src None h = Some (c, f, h2)" "h' = h2"
    using insert_seq by (auto simp: stdhash_insert_seq_def stdhash_low_insert_def)
  then show ?case using insert_loop_ok [OF insert_seq.IH insert_seq.hyps(2), of None] by auto
next
  case (put h k v c p h')
  show ?case by (rule put_ok [OF put.IH put.hyps(2), of k v]) (use put.hyps(3) in simp_all)
next
  case (erase h it nxt h')
  show ?case by (rule stdhash_erase_ok [OF erase.IH erase.hyps(2-4)]) (use erase.hyps(5) in simp)
next
  case (clear h h')
  show ?case by (rule clear_ok [OF clear.IH]) (use clear.hyps(2) in simp)
next
  case (rehash h c h')
  show ?case by (rule rehash_request_ok [OF rehash.IH rehash.hyps(2)]) (use rehash.hyps(3) in \<open>simp_all add: stdhash_rehash_def\<close>)
next
  case (reserve h n c h')
  show ?case
  proof (cases "stdhash_high_thresh h < n")
    case True
    then have "hsize h \<le> max n STDHASH_MIN_AUTO_ALLOC" using reserve_request [OF reserve.IH] by (simp add: le_max_iff_disj)
    then show ?thesis by (rule rehash_request_ok [OF reserve.IH reserve.hyps(3)]) (use reserve.hyps(4) True in \<open>simp add: stdhash_reserve_def\<close>)
  qed (use reserve in \<open>simp add: stdhash_reserve_def\<close>)
qed

section \<open>Erasing a key\<close>

lemma stdhash_erase_key_ok:
  assumes "hash_ok he h" "hsize h \<le> 2 ^ 29"
  shows "\<exists>h'. stdhash_erase_key he h k = Some h' \<and> hash_ok he h' \<and> mset (entries (table h')) = filter_mset (\<lambda>kv. fst kv \<noteq> k) (mset (entries (table h)))"
  using assms
proof (induction "hsize h" arbitrary: h)
  case 0
  then have "stdhash_find he h k = Some (cap h)" "entries (table h) = []" using hash_okD(2) [OF "0.prems"(1)] by (simp_all add: stdhash_find_def)
  then show ?case using 0 by (subst stdhash_erase_key.simps) (simp add: stdhash_is_end_def)
next
  case (Suc n)
  show ?case
  proof (rule stdhash_find_ok [OF Suc.prems(1), of k])
    fix it assume F: "stdhash_find he h k = Some it" "it < cap h" "active (table h ! it)" "stdhash_it_key h it = Some k"
    obtain nxt h' k' v where E: "stdhash_erase he h it = Some (nxt, h')" "hash_ok he h'" "stdhash_it_key h it = Some k'"
      "mset (entries (table h)) = add_mset (k', v) (mset (entries (table h')))"
      using stdhash_erase_ok [OF Suc.prems(1) F(2,3) Suc.prems(2)] by metis
    have k': "k' = k" using F(4) E(3) by simp
    have "hsize h = hsize h' + 1" using arg_cong [OF E(4), of size] hash_okD(2) [OF Suc.prems(1)] hash_okD(2) [OF E(2)] by simp
    then have "n = hsize h'" "hsize h' \<le> 2 ^ 29" using Suc.hyps(2) Suc.prems(2) by simp_all
    from Suc.hyps(1) [OF this(1) E(2) this(2)] obtain h2 where "stdhash_erase_key he h' k = Some h2" "hash_ok he h2"
      "mset (entries (table h2)) = filter_mset (\<lambda>kv. fst kv \<noteq> k) (mset (entries (table h')))" by blast
    moreover have "stdhash_erase_key he h k = stdhash_erase_key he h' k"
      by (subst stdhash_erase_key.simps) (use F(1,2) E(1) in \<open>simp add: stdhash_is_end_def\<close>)
    ultimately show ?thesis using E(4) k' by simp
  next
    assume F: "stdhash_find he h k = Some (cap h)" "k \<notin> fst ` set (entries (table h))"
    have "stdhash_erase_key he h k = Some h" by (subst stdhash_erase_key.simps) (use F(1) in \<open>simp add: stdhash_is_end_def\<close>)
    moreover have "filter_mset (\<lambda>kv. fst kv \<noteq> k) (mset (entries (table h))) = mset (entries (table h))"
      using F(2) by (auto simp: filter_mset_eq_conv)
    ultimately show ?thesis using Suc.prems(1) by simp
  qed
qed

section \<open>One insertion\<close>

lemma stdhash_insert_ok:
  assumes "hash_reachable he h" "hsize h < 2 ^ 29"
  shows "\<exists>c p h'. stdhash_insert he h k v = Some (c, p, h') \<and> hash_reachable he h' \<and>
    (if c = STDESUCCESS
     then stdhash_it_key h' p = Some k \<and> stdhash_it_val h' p = Some v \<and> mset (entries (table h')) = add_mset (k, v) (mset (entries (table h)))
     else may_fail he h \<and> mset (entries (table h')) = mset (entries (table h)))"
proof -
  have reach: "hash_reachable he h'" if "stdhash_insert he h k v = Some (c, p, h')" for c p h'
    by (rule hash_reachable.insert_seq [OF assms(1), of "[(k, v)]"]) (use assms(2) that in \<open>simp_all add: stdhash_insert_def stdhash_insert_seq_def\<close>)
  show ?thesis
  proof (rule insert_pair_ok [OF hash_reachable_ok [OF assms(1)] assms(2), where ow = False and k = k and v = v and first = None])
    fix c h' assume A: "insert_loop he False [(k, v)] None h = Some (c, None, h')" "c = STDENOMEM \<or> c = STDEACCES" "same_entries h h'"
      "may_fail he h"
    then have "stdhash_insert he h k v = Some (c, cap h', h')" by (simp add: stdhash_insert_def stdhash_low_insert_def)
    then show ?thesis using reach A by (auto simp: same_entries_def)
  next
    fix p h1 h' assume A: "make_room he h = Some (STDESUCCESS, h1)" "insert_one he False k v h1 = Some (STDESUCCESS, p, h')" "same_entries h h1"
      "stdhash_it_key h' p = Some k" "stdhash_it_val h' p = Some v"
      "(if False \<and> k \<in> fst ` set (entries (table h)) then replaced else inserted) (k, v) (entries (table h1)) (entries (table h'))"
    have "stdhash_insert he h k v = Some (STDESUCCESS, p, h')" using A(1,2) by (simp add: stdhash_insert_def stdhash_low_insert_def)
    moreover have "mset (entries (table h')) = add_mset (k, v) (mset (entries (table h)))"
      using A(3,6) inserted_mset by (fastforce simp: same_entries_def)
    ultimately show ?thesis using reach A(4,5) by auto
  qed
qed

section \<open>A table\<close>

text \<open>Keys that share their first position, one of them twice.\<close>

definition demo_env :: "nat hash_env" where
  "demo_env = \<lparr>hcode_fcn = word_of_nat, calloc_ok = (\<lambda>n. True), malloc_ok = True\<rparr>"

definition demo_new :: "(nat, string) stdhash" where "demo_new = stdhash_construct False False"

definition demo_hash :: "(nat, string) stdhash" where
  "demo_hash = (case stdhash_insert_seq demo_env demo_new [(5, ''a''), (69, ''b''), (133, ''c''), (69, ''d'')] of Some (c, p, h) \<Rightarrow> h)"

lemma demo_new_reachable: "hash_reachable demo_env demo_new"
  unfolding demo_new_def by (rule hash_reachable.construct)

lemma demo_hash_reachable: "hash_reachable demo_env demo_hash"
proof -
  let ?src = "[(5, ''a''), (69, ''b''), (133, ''c''), (69, ''d'')]"
  have size: "hsize demo_new + length ?src \<le> 2 ^ 29" by (simp add: demo_new_def stdhash_construct_def)
  obtain c f h where "insert_loop demo_env False ?src None demo_new = Some (c, f, h)"
    using insert_loop_ok [OF hash_reachable_ok [OF demo_new_reachable] size, of None] by blast
  then have I: "stdhash_insert_seq demo_env demo_new ?src = Some (c, case f of None \<Rightarrow> cap h | Some p \<Rightarrow> p, h)"
    by (simp add: stdhash_insert_seq_def stdhash_low_insert_def)
  from hash_reachable.insert_seq [OF demo_new_reachable size this] I show ?thesis by (simp add: demo_hash_def)
qed

lemma demo_hash_entries: "mset (entries (table demo_hash)) = {#(5, ''a''), (69, ''b''), (133, ''c''), (69, ''d'')#}"
proof -
  let ?src = "[(5, ''a''), (69, ''b''), (133, ''c''), (69, ''d'')]"
  have size: "hsize demo_new + length ?src \<le> 2 ^ 29" by (simp add: demo_new_def stdhash_construct_def)
  obtain c f h d where L: "insert_loop demo_env False ?src None demo_new = Some (c, f, h)" "mset (entries (table h)) = mset d + mset (entries (table demo_new))"
    "c = STDESUCCESS \<longrightarrow> d = ?src" "c = STDESUCCESS \<or> may_fail demo_env demo_new"
    using insert_loop_ok [OF hash_reachable_ok [OF demo_new_reachable] size, of None] by blast
  have "demo_hash = h" unfolding demo_hash_def stdhash_insert_seq_def stdhash_low_insert_def L(1) by simp
  moreover have "\<not> may_fail demo_env demo_new" by (simp add: may_fail_def demo_env_def demo_new_def stdhash_construct_def)
  ultimately show ?thesis using L(2-4) by (simp add: demo_new_def stdhash_construct_def)
qed

lemma demo_hash_set: "set (entries (table demo_hash)) = {(5, ''a''), (69, ''b''), (133, ''c''), (69, ''d'')}"
  using arg_cong [OF demo_hash_entries, of set_mset] by auto

lemma demo_hash_size: "hsize demo_hash = 4"
  using arg_cong [OF demo_hash_entries, of size] hash_okD(2) [OF hash_reachable_ok [OF demo_hash_reachable]] by simp

section \<open>What the table promises\<close>

text \<open>C24: whatever operations a hash table has gone through, its counters are the numbers of its nodes and of its
  entries, at most half of its positions hold a node, its capacity is zero or a power of two, and it
  starts at its first entry.\<close>

theorem hash_table_invariant:
  assumes "hash_reachable he h"
  shows "num_nodes h = nodes (table h) \<and> hsize h = length (entries (table h)) \<and> hsize h \<le> num_nodes h \<and> 2 * num_nodes h \<le> cap h \<and>
    (cap h = 0 \<or> cap h = 2 ^ cap_lg h) \<and> begin_pos h = skip (table h) 0"
  using hash_reachable_ok [OF assms] entries_le_nodes [of "table h"] by (auto simp: hash_ok_def table_ok_def cap_def)

theorem hash_table_invariant_witness:
  "num_nodes demo_hash = nodes (table demo_hash) \<and> hsize demo_hash = length (entries (table demo_hash)) \<and> hsize demo_hash \<le> num_nodes demo_hash \<and>
    2 * num_nodes demo_hash \<le> cap demo_hash \<and> (cap demo_hash = 0 \<or> cap demo_hash = 2 ^ cap_lg demo_hash) \<and>
    begin_pos demo_hash = skip (table demo_hash) 0"
  by (rule hash_table_invariant [OF demo_hash_reachable])

text \<open>C26: a search in a table ends; it gives the position of an entry with the key if there is one, and the
  end of the table if not.\<close>

theorem hash_find_correct:
  assumes "hash_reachable he h"
  shows "\<exists>it. stdhash_find he h k = Some it \<and>
    (if k \<in> fst ` set (entries (table h))
     then it < cap h \<and> stdhash_it_key h it = Some k \<and> (\<exists>v. stdhash_it_val h it = Some v \<and> (k, v) \<in> set (entries (table h)))
     else stdhash_is_end h it)"
  by (rule lookup_key_cases [OF hash_reachable_ok [OF assms], of k]) (auto simp: stdhash_is_end_def rev_image_eqI)

theorem hash_find_correct_witness:
  "(\<exists>it. stdhash_find demo_env demo_hash 133 = Some it \<and> it < cap demo_hash \<and> stdhash_it_key demo_hash it = Some 133 \<and>
     (\<exists>v. stdhash_it_val demo_hash it = Some v \<and> (133, v) \<in> set (entries (table demo_hash)))) \<and>
   (\<exists>it. stdhash_find demo_env demo_hash 197 = Some it \<and> stdhash_is_end demo_hash it)"
  using hash_find_correct [OF demo_hash_reachable, of 133] hash_find_correct [OF demo_hash_reachable, of 197] by (simp add: demo_hash_set)

text \<open>C27: an insertion ends. If it succeeds, the new pair is at the position it gives and the table has one more
  entry, the pair; if it does not, for want of memory or because the table may not grow, the table has
  the entries it had.\<close>

theorem hash_insert_correct:
  assumes "hash_reachable he h" "hsize h < 2 ^ 29"
  shows "\<exists>c p h'. stdhash_insert he h k v = Some (c, p, h') \<and> hash_reachable he h' \<and>
    (if c = STDESUCCESS
     then stdhash_it_key h' p = Some k \<and> stdhash_it_val h' p = Some v \<and> mset (entries (table h')) = add_mset (k, v) (mset (entries (table h)))
     else may_fail he h \<and> mset (entries (table h')) = mset (entries (table h)))"
  by (rule stdhash_insert_ok [OF assms])

theorem hash_insert_correct_witness:
  "\<exists>c p h'. stdhash_insert demo_env demo_hash 69 ''e'' = Some (c, p, h') \<and> hash_reachable demo_env h' \<and>
    (if c = STDESUCCESS
     then stdhash_it_key h' p = Some 69 \<and> stdhash_it_val h' p = Some ''e'' \<and>
          mset (entries (table h')) = add_mset (69, ''e'') (mset (entries (table demo_hash)))
     else may_fail demo_env demo_hash \<and> mset (entries (table h')) = mset (entries (table demo_hash)))"
  by (rule hash_insert_correct [OF demo_hash_reachable]) (simp add: demo_hash_size)



text \<open>C28: erasing a key ends although its loop searches again after every erasure, and takes away exactly the
  entries with the key.\<close>

theorem hash_erase_key_correct:
  assumes "hash_reachable he h" "hsize h \<le> 2 ^ 29"
  shows "\<exists>h'. stdhash_erase_key he h k = Some h' \<and> hash_ok he h' \<and>
    mset (entries (table h')) = filter_mset (\<lambda>kv. fst kv \<noteq> k) (mset (entries (table h)))"
  by (rule stdhash_erase_key_ok [OF hash_reachable_ok [OF assms(1)] assms(2)])

theorem hash_erase_key_correct_witness:
  "\<exists>h'. stdhash_erase_key demo_env demo_hash 69 = Some h' \<and> hash_ok demo_env h' \<and> mset (entries (table h')) = {#(5, ''a''), (133, ''c'')#}"
  using hash_erase_key_correct [OF demo_hash_reachable, of 69] by (simp add: demo_hash_size demo_hash_entries)

text \<open>C29: \<open>stdhash_get\<close>, which goes forward from the beginning or backward from the end, whichever is shorter, gives
  the position that as many steps forward give; it holds the entry with that number, and the position
  behind the last entry is the end.\<close>

theorem hash_get_is_advance:
  assumes "hash_reachable he h" "n \<le> hsize h"
  shows "stdhash_get h n = Some (stdhash_it_advance h (stdhash_begin h) n) \<and>
    (if n = hsize h then stdhash_is_end h (stdhash_it_advance h (stdhash_begin h) n)
     else stdhash_it_key h (stdhash_it_advance h (stdhash_begin h) n) = Some (fst (entries (table h) ! n)) \<and>
          stdhash_it_val h (stdhash_it_advance h (stdhash_begin h) n) = Some (snd (entries (table h) ! n)))"
proof -
  let ?s = "stops (table h)" and ?m = "length (entries (table h))"
  note ok = hash_reachable_ok [OF assms(1)]
  have m: "hsize h = ?m" by (rule hash_okD(2) [OF ok])
  have first: "stdhash_begin h = ?s ! 0" using hash_okD(3) [OF ok] skip_first by (simp add: stdhash_begin_def)
  have last: "stdhash_end h = ?s ! ?m" using stops_props(3) [of "table h"] by (simp add: stdhash_end_def cap_def stops_def nth_append)
  have adv: "stdhash_it_advance h (stdhash_begin h) n = ?s ! n" using advance_stops [of 0 n h] assms(2) m first by simp
  moreover have "stdhash_it_retreat h (stdhash_end h) (?m - n) = Some (?s ! n)"
    using retreat_stops [of "?m - n" ?m h] assms(2) m last by simp
  moreover have "?s ! ?m = cap h" using last by (simp add: stdhash_end_def)
  ultimately have "stdhash_get h n = Some (?s ! n)" using m by (simp add: stdhash_get_def)
  moreover have "stdhash_is_end h (?s ! n)" if "n = ?m" using that \<open>?s ! ?m = cap h\<close> by (simp add: stdhash_is_end_def)
  ultimately show ?thesis using entry_at_stop [of n h] assms(2) unfolding adv m by auto
qed

theorem hash_get_is_advance_witness:
  "stdhash_get demo_hash 3 = Some (stdhash_it_advance demo_hash (stdhash_begin demo_hash) 3) \<and>
    stdhash_it_val demo_hash (stdhash_it_advance demo_hash (stdhash_begin demo_hash) 3) = Some (snd (entries (table demo_hash) ! 3))"
  using hash_get_is_advance [OF demo_hash_reachable, of 3] by (simp add: demo_hash_size)

end
