(* ===== verification/Reliable_Window.thy ===== *)
theory Reliable_Window
  imports Reliable_Link
begin

text \<open>
  What the operations of the reliable link keep, for one end of the link: the sending side
  (\<open>send_ok\<close>, for the list of all messages ever handed to \<open>Reliable_Send_Msg\<close>), the receiving side
  (\<open>recv_ok\<close>, for the set of sequence numbers accepted so far), and what the packets say that an
  operation sends (\<open>op_ok\<close>).
\<close>

section \<open>Slots of the windows\<close>

abbreviation num :: "nat \<Rightarrow> int32u" where "num \<equiv> word_of_nat"

definition slot :: "nat \<Rightarrow> int32u" where "slot s = num s mod MAX_WINDOW"

lemma unat_num: "s < 2 ^ 32 \<Longrightarrow> unat (num s) = s"
  by (simp add: unat_of_nat take_bit_nat_eq_self)

lemma unat32: "unat (w :: int32u) < 2 ^ 32"
  using unsigned_less [of w, where 'a = nat] by simp

lemma num_unat [simp]: "num (unat w) = w"
  by simp

lemma slot_unat [simp]: "slot (unat w) = w mod MAX_WINDOW"
  by (simp add: slot_def)

lemma unat_slot: "s < 2 ^ 32 \<Longrightarrow> unat (slot s) = s mod 20000"
  by (simp add: slot_def MAX_WINDOW_def unat_mod_distrib unat_num)

lemma slot_inj:
  assumes "slot s = slot t" "s < 2 ^ 32" "t < 2 ^ 32" "l \<le> s" "s < l + 20000" "l \<le> t" "t < l + 20000"
  shows "s = t"
proof -
  have eq: "s mod 20000 = t mod 20000" using arg_cong [OF assms(1), of unat] assms(2,3) by (simp add: unat_slot)
  have key: "s = t" if "s mod 20000 = t mod 20000" "s \<le> t" "t < s + 20000" for s t :: nat
  proof -
    have "20000 dvd t - s" using that(1,2) mod_eq_dvd_iff_nat [of s t 20000] by metis
    moreover have "t - s < 20000" using that(2,3) by simp
    ultimately have "t - s = 0" using dvd_imp_le by fastforce
    with that(2) show ?thesis by simp
  qed
  show ?thesis using key [of s t] key [of t s] eq assms(4-7) by linarith
qed

lemma num_Suc: "num (Suc s) = num s + 1"
  by simp

lemma unat_Suc: "unat (w :: int32u) + 1 < 2 ^ 32 \<Longrightarrow> unat (w + 1) = unat w + 1"
  by (metis Suc_eq_plus1 num_Suc num_unat unat_num)

lemma unat_diff: "unat (a :: int32u) \<le> unat b \<Longrightarrow> unat (b - a) = unat b - unat a"
  by (simp add: unat_sub word_le_nat_alt)

section \<open>Types\<close>

lemma Is_link_ack_bits: "Is_link_ack t \<longleftrightarrow> t AND 0x7f = 1"
  by (simp add: message_type_defs)

lemma Is_link_ack_OR:
  assumes "u AND 0x7f = (0 :: int32u)"
  shows "Is_link_ack (t OR u) \<longleftrightarrow> Is_link_ack t" "Is_link_ack (u OR t) \<longleftrightarrow> Is_link_ack t"
  using assms by (simp_all add: Is_link_ack_bits bit.conj_disj_distrib2)

lemma Is_link_ack_reliable [simp]: "Is_link_ack (RELIABLE_TYPE OR t) \<longleftrightarrow> Is_link_ack t"
  by (rule Is_link_ack_OR) (simp add: RELIABLE_TYPE_def)

lemma Is_link_ack_XOR: "Is_link_ack (t XOR ECN_DATA_T1) \<longleftrightarrow> Is_link_ack t"
  by (simp add: Is_link_ack_bits ECN_DATA_T1_def bit.conj_xor_distrib2)

lemma Is_link_ack_ecn [simp]: "Is_link_ack (ecn_type bs t) \<longleftrightarrow> Is_link_ack t"
proof -
  have e: "ECN_DATA_T1 AND 0x7f = 0" "ECN_DATA_T2 AND 0x7f = 0" "ECN_DATA_T3 AND 0x7f = 0"
    by (simp_all add: ECN_DATA_T1_def ECN_DATA_T2_def ECN_DATA_T3_def)
  show ?thesis by (simp add: ecn_type_def Is_link_ack_OR e Is_link_ack_XOR)
qed

section \<open>The two sides\<close>

definition send_ok :: "'b list \<Rightarrow> 'b Reliable_Data \<Rightarrow> bool" where
  "send_ok msgs r \<longleftrightarrow>
     length msgs < 2 ^ 32 \<and>
     unat (tail r) \<le> unat (head r) \<and> unat (head r) \<le> length msgs \<and> unat (head r) \<le> unat (tail r) + 20000 \<and>
     map bc_seq_no (msg_buff r) = map num [unat (head r)..<length msgs] \<and>
     (\<forall>c \<in> set (msg_buff r). bc_buff c = Some (msgs ! unat (bc_seq_no c))) \<and>
     (\<forall>s. unat (tail r) \<le> s \<and> s < unat (head r) \<longrightarrow>
        bc_seq_no (window r (slot s)) = num s \<and> bc_buff (window r (slot s)) = Some (msgs ! s)) \<and>
     (\<forall>x. bc_buff (window r x) \<noteq> None \<longrightarrow> (\<exists>s. unat (tail r) \<le> s \<and> s < unat (head r) \<and> x = slot s)) \<and>
     (\<forall>x. bc_buff (window r x) = None \<longrightarrow> bc_pack_type (window r x) = 0) \<and>
     1 \<le> window_size r \<and> window_size r \<le> 20000 \<and> max_window r = MAX_CG_WINDOW \<and>
     (\<forall>c \<in> set (msg_buff r). \<not> Is_link_ack (bc_pack_type c)) \<and> (\<forall>x. \<not> Is_link_ack (bc_pack_type (window r x)))"

lemma send_okD:
  assumes "send_ok msgs r"
  shows "length msgs < 2 ^ 32" "unat (tail r) \<le> unat (head r)" "unat (head r) \<le> length msgs"
    "unat (head r) \<le> unat (tail r) + 20000" "map bc_seq_no (msg_buff r) = map num [unat (head r)..<length msgs]"
    "c \<in> set (msg_buff r) \<Longrightarrow> bc_buff c = Some (msgs ! unat (bc_seq_no c))"
    "unat (tail r) \<le> s \<Longrightarrow> s < unat (head r) \<Longrightarrow> bc_seq_no (window r (slot s)) = num s"
    "unat (tail r) \<le> s \<Longrightarrow> s < unat (head r) \<Longrightarrow> bc_buff (window r (slot s)) = Some (msgs ! s)"
    "bc_buff (window r x) \<noteq> None \<Longrightarrow> \<exists>s. unat (tail r) \<le> s \<and> s < unat (head r) \<and> x = slot s"
    "bc_buff (window r x) = None \<Longrightarrow> bc_pack_type (window r x) = 0"
    "1 \<le> window_size r" "window_size r \<le> 20000" "max_window r = MAX_CG_WINDOW"
    "c \<in> set (msg_buff r) \<Longrightarrow> \<not> Is_link_ack (bc_pack_type c)" "\<not> Is_link_ack (bc_pack_type (window r x))"
  using assms by (auto simp: send_ok_def)

definition received :: "'b Reliable_Data \<Rightarrow> int32u set" where
  "received r = {x. rc_flag (recv_window r x) = RECVD_CELL}"

definition recv_ok :: "nat set \<Rightarrow> 'b Reliable_Data \<Rightarrow> bool" where
  "recv_ok got r \<longleftrightarrow>
     unat (recv_tail r) \<le> unat (recv_head r) \<and> unat (recv_head r) \<le> unat (recv_tail r) + 20000 \<and>
     got = {s. s < unat (recv_tail r)} \<union> {s. unat (recv_tail r) \<le> s \<and> s < unat (recv_head r) \<and> slot s \<in> received r} \<and>
     received r \<subseteq> slot ` {unat (recv_tail r)..<unat (recv_head r)}"

text \<open>The receiving side sees no difference: at most some cells are marked as asked for.\<close>

definition recv_same :: "'b Reliable_Data \<Rightarrow> 'b Reliable_Data \<Rightarrow> bool" where
  "recv_same r r' \<longleftrightarrow> recv_tail r' = recv_tail r \<and> recv_head r' = recv_head r \<and> received r' = received r"

definition send_same :: "'b Reliable_Data \<Rightarrow> 'b Reliable_Data \<Rightarrow> bool" where
  "send_same r r' \<longleftrightarrow> seq_no r' = seq_no r \<and> msg_buff r' = msg_buff r \<and> head r' = head r \<and> tail r' = tail r \<and>
     window r' = window r \<and> window_size r' = window_size r \<and> max_window r' = max_window r \<and>
     CONNECTED_LINK r' = CONNECTED_LINK r"

lemma recv_ok_same: "recv_same r r' \<Longrightarrow> recv_ok got r \<Longrightarrow> recv_ok got r'"
  by (simp add: recv_same_def recv_ok_def)

lemma send_ok_same: "send_same r r' \<Longrightarrow> send_ok msgs r \<Longrightarrow> send_ok msgs r'"
  by (simp add: send_same_def send_ok_def)

lemma recv_same_refl [simp]: "recv_same r r"
  by (simp add: recv_same_def)

lemma send_same_refl [simp]: "send_same r r"
  by (simp add: send_same_def)

section \<open>Sending a packet\<close>

lemma received_put_recv:
  "received (put_recv i c r) = (if rc_flag c = RECVD_CELL then insert (i mod MAX_WINDOW) (received r) else received r - {i mod MAX_WINDOW})"
  by (auto simp: received_def put_recv_def)

lemma put_recv_same:
  assumes "rc_flag (recv_window r (i mod MAX_WINDOW)) \<noteq> RECVD_CELL" "rc_flag c \<noteq> RECVD_CELL"
  shows "recv_same r (put_recv i c r) \<and> send_same r (put_recv i c r)"
  using assms received_put_recv [of i c r] by (auto simp: recv_same_def send_same_def put_recv_def received_def)

lemma nack_loop_same:
  "nack_loop cf either now dl n i r ns = (r', ns') \<Longrightarrow> recv_same r r' \<and> send_same r r'"
proof (induction n arbitrary: i r ns)
  case (Suc n)
  define r1 where "r1 = (if fresh_nack cf i r then put_recv i \<lparr>rc_flag = NACK_CELL, nack_sent = now\<rparr> r else r)"
  define again where "again \<longleftrightarrow> \<not> (either \<and> rc_flag (recv_window r (i mod MAX_WINDOW)) = EMPTY_CELL) \<and> old_nack now i r1"
  define r2 where "r2 = (if again then put_recv i ((recv_window r1 (i mod MAX_WINDOW))\<lparr>nack_sent := now\<rparr>) r1 else r1)"
  have s1: "recv_same r r1 \<and> send_same r r1"
    using put_recv_same [of r i "\<lparr>rc_flag = NACK_CELL, nack_sent = now\<rparr>"] by (simp add: r1_def fresh_nack_def)
  have s2: "recv_same r1 r2 \<and> send_same r1 r2"
    using put_recv_same [of r1 i "(recv_window r1 (i mod MAX_WINDOW))\<lparr>nack_sent := now\<rparr>"]
    by (simp add: r2_def again_def old_nack_def)
  show ?case
  proof (cases "1452 - 4 < 8 + 4 * length ns + dl")
    case False
    with Suc.prems obtain ms where "nack_loop cf either now dl n (i + 1) r2 ms = (r', ns')"
      by (auto simp: Let_def r1_def r2_def again_def split: if_splits prod.splits)
    with Suc.IH s1 s2 show ?thesis by (simp add: recv_same_def send_same_def)
  qed (use Suc.prems in simp)
qed simp

text \<open>What a packet says: never more acknowledged than has arrived, and only messages from the window.\<close>

definition pkt_ok :: "'b rel_conf \<Rightarrow> 'b list \<Rightarrow> nat \<Rightarrow> nat \<Rightarrow> 'b rel_packet \<Rightarrow> bool" where
  "pkt_ok cf msgs h rt p \<longleftrightarrow> unat (rp_cummulative_ack p) \<le> rt \<and>
     (\<exists>t. rp_type p = Set_endian (rel_ARCH_ENDIAN cf) t \<and>
        (case rp_data p of None \<Rightarrow> t = LINK_ACK_TYPE | Some b \<Rightarrow> \<not> Is_link_ack t \<and> unat (rp_seq_no p) < h \<and> b = msgs ! unat (rp_seq_no p)))"

definition op_ok :: "'b rel_conf \<Rightarrow> 'b list \<Rightarrow> 'b Reliable_Data \<times> 'b rel_env \<Rightarrow> 'b Reliable_Data \<times> 'b rel_env \<Rightarrow> bool" where
  "op_ok cf msgs re re' \<longleftrightarrow> (case re of (r, e) \<Rightarrow> case re' of (r', e') \<Rightarrow>
     send_ok msgs r' \<and> seq_no r' = seq_no r \<and> tail r' = tail r \<and> unat (head r) \<le> unat (head r') \<and>
     CONNECTED_LINK r' = CONNECTED_LINK r \<and> recv_same r r' \<and> rel_loss e' \<noteq> None \<and>
     (\<exists>ps. rel_sent e' = rel_sent e @ ps \<and> (\<forall>p \<in> set ps. pkt_ok cf msgs (unat (head r')) (unat (recv_tail r')) p)))"

lemma pkt_ok_mono: "pkt_ok cf msgs h rt p \<Longrightarrow> h \<le> h' \<Longrightarrow> rt \<le> rt' \<Longrightarrow> pkt_ok cf msgs h' rt' p"
  unfolding pkt_ok_def by (cases "rp_data p") auto

lemma op_ok_refl: "send_ok msgs r \<Longrightarrow> rel_loss e \<noteq> None \<Longrightarrow> op_ok cf msgs (r, e) (r, e)"
  by (simp add: op_ok_def)

lemma op_ok_trans:
  assumes "op_ok cf msgs re1 re2" "op_ok cf msgs re2 re3"
  shows "op_ok cf msgs re1 re3"
proof -
  obtain r1 e1 r2 e2 r3 e3 where [simp]: "re1 = (r1, e1)" "re2 = (r2, e2)" "re3 = (r3, e3)" by (metis surj_pair)
  obtain ps qs where s: "rel_sent e2 = rel_sent e1 @ ps" "\<forall>p \<in> set ps. pkt_ok cf msgs (unat (head r2)) (unat (recv_tail r2)) p"
    "rel_sent e3 = rel_sent e2 @ qs" "\<forall>p \<in> set qs. pkt_ok cf msgs (unat (head r3)) (unat (recv_tail r3)) p"
    using assms by (auto simp: op_ok_def)
  have "unat (head r2) \<le> unat (head r3)" "recv_tail r3 = recv_tail r2" using assms(2) by (auto simp: op_ok_def recv_same_def)
  then have "\<forall>p \<in> set (ps @ qs). pkt_ok cf msgs (unat (head r3)) (unat (recv_tail r3)) p"
    using s(2,4) pkt_ok_mono by (metis Un_iff order_refl set_append)
  moreover have "rel_sent e3 = rel_sent e1 @ (ps @ qs)" using s(1,3) by simp
  ultimately have "\<exists>ps. rel_sent e3 = rel_sent e1 @ ps \<and> (\<forall>p \<in> set ps. pkt_ok cf msgs (unat (head r3)) (unat (recv_tail r3)) p)"
    by blast
  then show ?thesis using assms by (simp add: op_ok_def recv_same_def)
qed

lemma op_ok_quiet:
  assumes "send_ok msgs r" "rel_loss e \<noteq> None" "send_same r r'" "recv_same r r'" "rel_loss e' = rel_loss e" "rel_sent e' = rel_sent e"
  shows "op_ok cf msgs (r, e) (r', e')"
  using assms send_ok_same [OF assms(3,1)] by (simp add: op_ok_def send_same_def)

lemma link_out_ok:
  assumes "rel_loss e \<noteq> None"
  shows "\<exists>e' ps. link_out cf check p e = Inr e' \<and> rel_loss e' \<noteq> None \<and> rel_sent e' = rel_sent e @ ps \<and>
    (\<forall>q \<in> set ps. \<exists>s. q = p\<lparr>rp_loss_seq := s\<rparr>)"
  using assms by (auto simp: link_out_def Set_Loss_SeqNo_def Let_def)

lemma transmit_ok:
  assumes "send_ok msgs r" "rel_loss e \<noteq> None"
    and "case data of None \<Rightarrow> type = LINK_ACK_TYPE | Some b \<Rightarrow> \<not> Is_link_ack type \<and> unat sq < unat (head r) \<and> b = msgs ! unat sq"
  shows "\<exists>r' e'. transmit cf either check type data dl sq r e = Inr (r', e') \<and> op_ok cf msgs (r, e) (r', e') \<and> send_same r r'"
proof -
  obtain r1 ns where n: "add_nacks cf either (rel_time e) (unat dl) r = (r1, ns)" by (metis surj_pair)
  then have same: "recv_same r r1 \<and> send_same r r1" unfolding add_nacks_def by (rule nack_loop_same)
  let ?p = "\<lparr>rp_type = Set_endian (rel_ARCH_ENDIAN cf) type, rp_loss_seq = 0, rp_data = data, rp_data_len = dl,
     rp_seq_no = sq, rp_cummulative_ack = recv_tail r, rp_nacks = ns\<rparr>"
  obtain e1 ps where o: "link_out cf check ?p e = Inr e1" "rel_loss e1 \<noteq> None" "rel_sent e1 = rel_sent e @ ps"
    "\<forall>q \<in> set ps. \<exists>s. q = ?p\<lparr>rp_loss_seq := s\<rparr>"
    using link_out_ok [OF assms(2)] by blast
  have "head r1 = head r" "recv_tail r1 = recv_tail r" using same by (auto simp: send_same_def recv_same_def)
  then have "\<forall>q \<in> set ps. pkt_ok cf msgs (unat (head r1)) (unat (recv_tail r1)) q"
    using o(4) assms(3) by (fastforce simp: pkt_ok_def split: option.splits)
  then have "op_ok cf msgs (r, e) (r1, e1)"
    using send_ok_same [of r r1 msgs] same o(2,3) assms(1) by (auto simp: op_ok_def send_same_def)
  then show ?thesis using n o(1) same by (simp add: transmit_def)
qed

lemma transmit_data_ok:
  assumes "send_ok msgs r" "rel_loss e \<noteq> None" "unat sq < unat (head r)" "b = msgs ! unat sq" "\<not> Is_link_ack type"
  shows "\<exists>r' e'. transmit cf either check type (Some b) dl sq r e = Inr (r', e') \<and> op_ok cf msgs (r, e) (r', e') \<and> send_same r r'"
  by (rule transmit_ok [OF assms(1,2)]) (simp add: assms(3-5))

section \<open>The window moves on\<close>

definition conf_ok :: "'b rel_conf \<Rightarrow> bool" where
  "conf_ok cf \<longleftrightarrow> (\<forall>n \<le> 2 ^ 24. fl cf (of_nat n) = of_nat n) \<and> (\<forall>x y. x \<le> y \<longrightarrow> fl cf x \<le> fl cf y) \<and>
     1 \<le> Minimum_Window cf \<and> Minimum_Window cf \<le> 20000"

lemma conf_okD:
  assumes "conf_ok cf"
  shows "n \<le> 20000 \<Longrightarrow> fl cf (of_nat n) = of_nat n" "x \<le> y \<Longrightarrow> fl cf x \<le> fl cf y"
    "1 \<le> Minimum_Window cf" "Minimum_Window cf \<le> 20000" "fl cf 0 = 0" "fl cf 1 = 1" "fl cf 20000 = 20000"
proof -
  have n: "n \<le> 2 ^ 24 \<Longrightarrow> fl cf (of_nat n) = of_nat n" for n using assms by (simp add: conf_ok_def)
  show "n \<le> 20000 \<Longrightarrow> fl cf (of_nat n) = of_nat n" using n [of n] by simp
  show "fl cf 0 = 0" "fl cf 1 = 1" "fl cf 20000 = 20000" using n [of 0] n [of 1] n [of 20000] by simp_all
qed (use assms in \<open>auto simp: conf_ok_def\<close>)

lemma in_flight_eq:
  assumes "conf_ok cf" "send_ok msgs r"
  shows "in_flight cf r = of_nat (unat (head r) - unat (tail r))"
  using conf_okD(1) [OF assms(1), of "unat (head r) - unat (tail r)"] send_okD(2,4) [OF assms(2)]
  by (simp add: in_flight_def unat_diff)

lemma room_in_window:
  assumes "conf_ok cf" "send_ok msgs r" "in_flight cf r < window_size r"
  shows "unat (head r) < unat (tail r) + 20000"
proof -
  have "(of_nat (unat (head r) - unat (tail r)) :: rat) < of_nat 20000"
    using assms(3) send_okD(12) [OF assms(2)] by (simp add: in_flight_eq [OF assms(1,2)])
  then show ?thesis unfolding of_nat_less_iff by simp
qed

lemma advance_ok:
  assumes ok: "send_ok msgs r" and buff: "msg_buff r = c # cells" and room: "unat (head r) < unat (tail r) + 20000"
    and c': "bc_seq_no c' = bc_seq_no c" "bc_buff c' = bc_buff c" "Is_link_ack (bc_pack_type c') = Is_link_ack (bc_pack_type c)"
  shows "bc_seq_no c = head r" "unat (head r + 1) = unat (head r) + 1" "bc_buff c = Some (msgs ! unat (head r))"
    "send_ok msgs (into_window c' (r\<lparr>msg_buff := cells\<rparr>))"
proof -
  note D = send_okD [OF ok]
  have m: "num (unat (bc_seq_no c)) # map bc_seq_no cells = map num [unat (head r)..<length msgs]" using D(5) buff by simp
  then have lt: "unat (head r) < length msgs" by (cases "unat (head r) < length msgs") simp_all
  then have split: "[unat (head r)..<length msgs] = unat (head r) # [unat (head r) + 1..<length msgs]"
    by (simp add: upt_conv_Cons)
  have seq: "bc_seq_no c = head r" "map bc_seq_no cells = map num [unat (head r) + 1..<length msgs]"
    using m unfolding split by simp_all
  then show "bc_seq_no c = head r" by simp
  show h1: "unat (head r + 1) = unat (head r) + 1" using D(1) lt by (intro unat_Suc) simp
  show b: "bc_buff c = Some (msgs ! unat (head r))" using D(6) [of c] buff seq(1) by simp
  let ?r = "into_window c' (r\<lparr>msg_buff := cells\<rparr>)"
  have w: "window ?r = (window r)(slot (unat (head r)) := c')" by (simp add: into_window_def c' seq(1))
  have f: "head ?r = head r + 1" "tail ?r = tail r" "msg_buff ?r = cells" "window_size ?r = window_size r" "max_window ?r = max_window r"
    by (simp_all add: into_window_def c' seq(1))
  have other: "slot s \<noteq> slot (unat (head r))" if "unat (tail r) \<le> s" "s < unat (head r)" for s
  proof
    assume "slot s = slot (unat (head r))"
    then have "s = unat (head r)"
      by (rule slot_inj [where l = "unat (tail r)"]) (use that room D(2) lt D(1) in auto)
    with that show False by simp
  qed
  have "bc_seq_no (window ?r (slot s)) = num s \<and> bc_buff (window ?r (slot s)) = Some (msgs ! s)"
    if "unat (tail r) \<le> s" "s < unat (head r) + 1" for s
    using that D(7,8) [of s] other [of s] seq(1) b by (cases "s = unat (head r)") (simp_all add: w c' del: slot_unat)
  moreover have "\<exists>s. unat (tail r) \<le> s \<and> s < unat (head r) + 1 \<and> x = slot s" if "bc_buff (window ?r x) \<noteq> None" for x
    using that D(9) [of x] D(2) by (cases "x = slot (unat (head r))") (auto simp: w intro: less_SucI)
  moreover have "bc_buff (window ?r x) = None \<Longrightarrow> bc_pack_type (window ?r x) = 0" for x
    using D(10) [of x] b by (auto simp: w c' split: if_splits)
  moreover have "\<not> Is_link_ack (bc_pack_type c')" using D(14) [of c] c'(3) buff by simp
  ultimately show "send_ok msgs ?r"
    unfolding send_ok_def f h1 using D(1-6,11-15) lt room seq(2) buff by (auto simp: w)
qed

lemma advance_recv: "recv_same r (into_window c (r\<lparr>msg_buff := cells\<rparr>))"
  by (simp add: recv_same_def into_window_def received_def)

lemma send_much_loop_ok:
  assumes "conf_ok cf" "send_ok msgs r" "msg_buff r = cells" "rel_loss e \<noteq> None"
  shows "\<exists>r' e'. send_much_loop cf bs cells r e = Inr (r', e') \<and> op_ok cf msgs (r, e) (r', e')"
  using assms(2-4)
proof (induction cells arbitrary: r e)
  case Nil
  then show ?case by (simp add: op_ok_refl)
next
  case (Cons c cells)
  show ?case
  proof (cases "in_flight cf r < window_size r")
    case True
    let ?c = "c\<lparr>bc_pack_type := ecn_type bs (bc_pack_type c), bc_timestamp := rel_time e, bc_resent := False\<rparr>"
    let ?r1 = "into_window ?c (r\<lparr>msg_buff := cells\<rparr>)"
    have same: "bc_seq_no ?c = bc_seq_no c" "bc_buff ?c = bc_buff c" "Is_link_ack (bc_pack_type ?c) = Is_link_ack (bc_pack_type c)"
      by simp_all
    note A = advance_ok [OF Cons.prems(1,2) room_in_window [OF assms(1) Cons.prems(1) True] same]
    have head1: "head ?r1 = head r + 1" using A(1) by (simp add: into_window_def)
    have op1: "op_ok cf msgs (r, e) (?r1, e)"
      using A Cons.prems(3) advance_recv [of r ?c cells] by (simp add: op_ok_def into_window_def)
    have "unat (bc_seq_no c) < unat (head ?r1)" "msgs ! unat (head r) = msgs ! unat (bc_seq_no c)"
      "\<not> Is_link_ack (RELIABLE_TYPE OR ecn_type bs (bc_pack_type c))"
      using A(1-3) send_okD(14) [OF Cons.prems(1), of c] Cons.prems(2) unfolding head1 by simp_all
    note T_ok = transmit_data_ok [OF A(4) Cons.prems(3) this, of cf False False "bc_data_len c", folded A(3)]
    obtain r2 e2 where T: "transmit cf False False (RELIABLE_TYPE OR ecn_type bs (bc_pack_type c)) (bc_buff c) (bc_data_len c)
        (bc_seq_no c) ?r1 e = Inr (r2, e2)" "op_ok cf msgs (?r1, e) (r2, e2)" "send_same ?r1 r2"
      using T_ok by blast
    have r2: "send_ok msgs r2" "msg_buff r2 = cells" "rel_loss e2 \<noteq> None"
      using T(2,3) by (auto simp: op_ok_def send_same_def into_window_def)
    obtain r' e' where "send_much_loop cf bs cells r2 e2 = Inr (r', e')" "op_ok cf msgs (r2, e2) (r', e')"
      using Cons.IH [OF r2] by blast
    moreover have "\<not> bc_seq_no c < head r" using A(1) by simp
    ultimately show ?thesis using True T(1) op_ok_trans [OF op_ok_trans [OF op1 T(2)]] by (auto simp: Let_def)
  qed (use Cons.prems in \<open>simp add: op_ok_refl\<close>)
qed

lemma rel_E_queue_simps [simp]:
  "rel_sent (rel_E_queue f l t e) = rel_sent e" "rel_loss (rel_E_queue f l t e) = rel_loss e"
  "rel_sent (rel_E_dequeue f l e) = rel_sent e" "rel_loss (rel_E_dequeue f l e) = rel_loss e"
  by (simp_all add: rel_E_queue_def rel_E_dequeue_def)

lemma cancel_ack_ok:
  assumes "send_ok msgs r" "rel_loss e \<noteq> None"
  shows "op_ok cf msgs (r, e) (cancel_ack linkid (r, e))" "send_same r (fst (cancel_ack linkid (r, e)))"
    "nack_buff (fst (cancel_ack linkid (r, e))) = nack_buff r"
  using assms
  by (auto simp: cancel_ack_def send_same_def recv_same_def received_def intro!: op_ok_quiet)

lemma arm_timeout_ok:
  assumes "send_ok msgs r" "rel_loss e \<noteq> None"
  shows "op_ok cf msgs (r, e) (arm_timeout cf linkid (r, e))"
  using assms
  by (auto simp: arm_timeout_def Let_def send_same_def recv_same_def received_def intro!: op_ok_quiet)

lemma Send_Much_ok:
  assumes "conf_ok cf" "send_ok msgs r" "rel_loss e \<noteq> None"
  shows "\<exists>r' e'. Send_Much cf linkid (Some r) e = Inr (r', e') \<and> op_ok cf msgs (r, e) (r', e')"
proof (cases "\<not> CONNECTED_LINK r \<or> window_size r \<le> in_flight cf r \<or> msg_buff r = []")
  case False
  obtain r1 e1 where C: "cancel_ack linkid (r, e) = (r1, e1)" by (metis surj_pair)
  note C_ok = cancel_ack_ok(1) [OF assms(2,3), of cf linkid, unfolded C] cancel_ack_ok(2) [OF assms(2,3), of linkid, unfolded C]
  have r1: "send_ok msgs r1" "msg_buff r1 = msg_buff r" "rel_loss e1 \<noteq> None"
    using C_ok by (auto simp: op_ok_def send_same_def)
  obtain r2 e2 where L: "send_much_loop cf (int (length (msg_buff r))) (msg_buff r) r1 e1 = Inr (r2, e2)" "op_ok cf msgs (r1, e1) (r2, e2)"
    using send_much_loop_ok [OF assms(1) r1] by blast
  define e3 where "e3 = (if Link_Sessions_Blocked_On e2 = linkid \<and> int (length (msg_buff r2)) < MAX_BUFF_LINK div 4
    then e2\<lparr>rel_calls := rel_calls e2 @ [Resume_All_Sessions], Link_Sessions_Blocked_On := - 1\<rparr> else e2)"
  have r2: "send_ok msgs r2" "rel_loss e2 \<noteq> None" using L(2) by (auto simp: op_ok_def)
  have 3: "op_ok cf msgs (r2, e2) (r2, e3)" using r2 by (auto simp: e3_def intro: op_ok_quiet)
  then have "rel_loss e3 \<noteq> None" by (simp add: op_ok_def)
  note arm = arm_timeout_ok [OF r2(1) this, of cf linkid]
  have "op_ok cf msgs (r, e) (arm_timeout cf linkid (r2, e3))"
    using op_ok_trans [OF op_ok_trans [OF op_ok_trans [OF C_ok(1) L(2)] 3] arm] .
  then show ?thesis using False C L(1)
    by (cases "arm_timeout cf linkid (r2, e3)") (auto simp: Send_Much_def Let_def e3_def)
qed (use assms in \<open>auto simp: Send_Much_def op_ok_refl\<close>)

text \<open>A new message gets the next number and goes into the buffer or straight into the window.\<close>

lemma enqueue_ok:
  assumes "send_ok msgs r" "length msgs + 1 < 2 ^ 32" "bc_seq_no c = num (length msgs)" "bc_buff c = Some b"
    "\<not> Is_link_ack (bc_pack_type c)"
  shows "send_ok (msgs @ [b]) (r\<lparr>msg_buff := msg_buff r @ [c]\<rparr>)"
proof -
  note D = send_okD [OF assms(1)]
  have "bc_buff x = Some ((msgs @ [b]) ! unat (bc_seq_no x))" if "x \<in> set (msg_buff r)" for x
  proof -
    have "bc_seq_no x \<in> num ` {unat (head r)..<length msgs}" using that arg_cong [OF D(5), of set] by auto
    then have "unat (bc_seq_no x) < length msgs" using D(1) by (auto simp: unat_num)
    with D(6) [OF that] show ?thesis by (simp add: nth_append)
  qed
  moreover have "unat (bc_seq_no c) = length msgs" using assms(2,3) by (simp add: unat_num)
  ultimately show ?thesis
    using D assms(2-5) unfolding send_ok_def by (auto simp: nth_append)
qed

lemma pkt_ok_append:
  assumes "pkt_ok cf msgs h rt p" "h \<le> length msgs" "h \<le> h'" "rt \<le> rt'"
  shows "pkt_ok cf (msgs @ xs) h' rt' p"
proof -
  have "pkt_ok cf (msgs @ xs) h rt p"
    using assms(1,2) unfolding pkt_ok_def by (cases "rp_data p") (auto simp: nth_append)
  then show ?thesis using pkt_ok_mono assms(3,4) by blast
qed

lemma op_ok_extend:
  assumes "op_ok cf msgs (r1, e1) (r2, e2)" "op_ok cf (msgs @ [b]) (r2', e2') (r3, e3)"
    and "seq_no r2' = seq_no r2" "tail r2' = tail r2" "unat (head r2) \<le> unat (head r2')" "recv_same r2 r2'"
    and "CONNECTED_LINK r2' = CONNECTED_LINK r2" "rel_sent e2' = rel_sent e2"
  shows "op_ok cf (msgs @ [b]) (r1, e1) (r3, e3)"
proof -
  obtain ps qs where s: "rel_sent e2 = rel_sent e1 @ ps" "\<forall>p \<in> set ps. pkt_ok cf msgs (unat (head r2)) (unat (recv_tail r2)) p"
    "rel_sent e3 = rel_sent e2 @ qs" "\<forall>p \<in> set qs. pkt_ok cf (msgs @ [b]) (unat (head r3)) (unat (recv_tail r3)) p"
    using assms(1,2,8) by (auto simp: op_ok_def)
  have mono: "unat (head r2) \<le> length msgs" "unat (head r2) \<le> unat (head r3)" "recv_tail r3 = recv_tail r2"
    using assms send_okD(3) [of msgs r2] by (auto simp: op_ok_def recv_same_def)
  have "pkt_ok cf (msgs @ [b]) (unat (head r3)) (unat (recv_tail r3)) p" if "p \<in> set (ps @ qs)" for p
    using that s(2,4) pkt_ok_append [OF _ mono(1,2)] mono(3) by auto
  moreover have "rel_sent e3 = rel_sent e1 @ (ps @ qs)" using s(1,3) by simp
  ultimately have "\<exists>ps. rel_sent e3 = rel_sent e1 @ ps \<and> (\<forall>p \<in> set ps. pkt_ok cf (msgs @ [b]) (unat (head r3)) (unat (recv_tail r3)) p)"
    by blast
  then show ?thesis using assms by (simp add: op_ok_def recv_same_def)
qed

lemma Reliable_Send_Msg_ok:
  assumes "conf_ok cf" "send_ok msgs r0" "unat (seq_no r0) = length msgs" "length msgs + 1 < 2 ^ 32" "rel_loss e \<noteq> None"
    "\<not> Is_link_ack pt"
  shows "\<exists>r' e'. Reliable_Send_Msg cf linkid b len pt (Some r0) e = Inr (r', e') \<and>
    op_ok cf (msgs @ [b]) (r0\<lparr>seq_no := seq_no r0 + 1\<rparr>, e) (r', e')"
proof -
  let ?r1 = "r0\<lparr>seq_no := seq_no r0 + 1\<rparr>"
  define cell where "cell = \<lparr>bc_seq_no = seq_no r0, bc_buff = Some b, bc_pack_type = pt, bc_data_len = len,
    bc_timestamp = rel_time e, bc_resent = False\<rparr>"
  have c: "bc_seq_no cell = num (length msgs)" "bc_buff cell = Some b" "\<not> Is_link_ack (bc_pack_type cell)" using assms(3,6) by (simp_all add: cell_def flip: assms(3))
  have r1: "send_ok msgs ?r1" using assms(2) by (simp add: send_ok_def)
  obtain r e1 where M: "(if CONNECTED_LINK ?r1 then Send_Much cf linkid (Some ?r1) e else Inr (?r1, e)) = Inr (r, e1)"
    "op_ok cf msgs (?r1, e) (r, e1)"
    using Send_Much_ok [OF assms(1) r1 assms(5), of linkid] op_ok_refl [OF r1 assms(5), of cf] by (cases "CONNECTED_LINK ?r1") auto
  have r: "send_ok msgs r" "rel_loss e1 \<noteq> None" using M(2) by (auto simp: op_ok_def)
  let ?rb = "r\<lparr>msg_buff := msg_buff r @ [cell]\<rparr>"
  note rb = enqueue_ok [OF r(1) assms(4) c]
  show ?thesis
  proof (cases "window_size r \<le> in_flight cf r \<or> msg_buff r \<noteq> [] \<or> \<not> CONNECTED_LINK r")
    case True
    let ?e2 = "if MAX_BUFF_LINK < int (length (msg_buff ?rb)) \<and> Link_Sessions_Blocked_On e1 = - 1
      then e1\<lparr>Link_Sessions_Blocked_On := linkid, rel_calls := rel_calls e1 @ [Block_All_Sessions]\<rparr> else e1"
    have "op_ok cf (msgs @ [b]) (?rb, e1) (?rb, ?e2)" using rb r(2) by (auto intro: op_ok_quiet)
    with M(2) have "op_ok cf (msgs @ [b]) (?r1, e) (?rb, ?e2)"
      by (rule op_ok_extend) (simp_all add: recv_same_def received_def)
    then show ?thesis using M(1) True by (auto simp: Reliable_Send_Msg_def Let_def cell_def)
  next
    case False
    then have empty: "msg_buff r = []" and room: "unat (head r) < unat (tail r) + 20000"
      using room_in_window [OF assms(1) r(1)] by auto
    have "msg_buff ?rb = cell # []" using empty by simp
    note A = advance_ok [OF rb this _ refl refl refl]
    have w: "into_window cell (?rb\<lparr>msg_buff := []\<rparr>) = into_window cell r" using empty by (simp add: into_window_def)
    have a: "seq_no r0 = head r" "unat (head r + 1) = unat (head r) + 1" "send_ok (msgs @ [b]) (into_window cell r)"
      using A(1,2,4) room unfolding w by (simp_all add: cell_def)
    obtain r2 e2 where C: "cancel_ack linkid (into_window cell r, e1) = (r2, e2)" by (metis surj_pair)
    note C_ok = cancel_ack_ok(1) [OF a(3) r(2), of cf linkid, unfolded C] cancel_ack_ok(2) [OF a(3) r(2), of linkid, unfolded C]
    have r2: "send_ok (msgs @ [b]) r2" "rel_loss e2 \<noteq> None" "head r2 = seq_no r0 + 1"
      using C_ok by (auto simp: op_ok_def send_same_def into_window_def cell_def)
    have "unat (seq_no r0) < unat (head r2)" using a(1,2) r2(3) by simp
    moreover have "b = (msgs @ [b]) ! unat (seq_no r0)" using assms(3) by simp
    moreover have "\<not> Is_link_ack (RELIABLE_TYPE OR pt)" using assms(6) by simp
    ultimately obtain r3 e3 where T: "transmit cf True True (RELIABLE_TYPE OR pt) (Some b) len (seq_no r0) r2 e2 = Inr (r3, e3)"
      "op_ok cf (msgs @ [b]) (r2, e2) (r3, e3)"
      using transmit_data_ok [OF r2(1,2), of "seq_no r0" b] by blast
    have r3: "send_ok (msgs @ [b]) r3" "rel_loss e3 \<noteq> None" using T(2) by (auto simp: op_ok_def)
    have "op_ok cf (msgs @ [b]) (into_window cell r, e1) (arm_timeout cf linkid (r3, e3))"
      using op_ok_trans [OF op_ok_trans [OF C_ok(1) T(2)] arm_timeout_ok [OF r3, of cf linkid]] .
    moreover obtain r4 e4 where 4: "arm_timeout cf linkid (r3, e3) = (r4, e4)" by (metis surj_pair)
    ultimately have "op_ok cf (msgs @ [b]) (into_window cell r, e1) (r4, e4)" by simp
    with M(2) have "op_ok cf (msgs @ [b]) (?r1, e) (r4, e4)"
      by (rule op_ok_extend) (simp_all add: into_window_def cell_def recv_same_def received_def a(1,2))
    moreover have "Reliable_Send_Msg cf linkid b len pt (Some r0) e = Inr (r4, e4)"
      unfolding Reliable_Send_Msg_def option.case Let_def cell_def [symmetric] M(1) using False C T(1) a(1) 4 by simp
    ultimately show ?thesis by blast
  qed
qed

end
