(* ===== verification/Reliable_Resend.thy ===== *)
theory Reliable_Resend
  imports Reliable_Window
begin

text \<open>Acknowledging, answering requests for missing packets, and retransmission after a timeout: the
  operations return, and keep what \<open>Reliable_Window\<close> says.\<close>

section \<open>The share of a stream\<close>

lemma window_count:
  assumes "unat (a :: int32u) \<le> unat b"
  shows "(if a < b then unat (b - a) else 0) = unat b - unat a"
  using assms by (auto simp: word_less_nat_alt unat_diff)

lemma stream_loop_ok:
  assumes "conf_ok cf" "send_ok msgs r" "unat (tail r) \<le> s" "s + n \<le> unat (head r)" "0 \<le> acc"
  shows "\<exists>w. stream_loop cf b n (num s) r acc = Inr w \<and> (w = acc \<or> 1 \<le> w)"
  using assms(3-5)
proof (induction n arbitrary: s acc)
  case (Suc n)
  have buff: "bc_buff (window r (num s mod MAX_WINDOW)) = Some (msgs ! s)"
    using send_okD(8) [OF assms(2), of s] Suc.prems by (simp add: slot_def)
  define acc' where "acc' = (if stream_key cf (msgs ! s) = stream_key cf b then fl cf (acc + 1) else acc)"
  have acc': "acc' = acc \<or> 1 \<le> acc'" "0 \<le> acc'"
    using conf_okD(2) [OF assms(1), of 1 "acc + 1"] conf_okD(6) [OF assms(1)] Suc.prems(3) by (auto simp: acc'_def)
  obtain w where "stream_loop cf b n (num (Suc s)) r acc' = Inr w" "w = acc' \<or> 1 \<le> w"
    using Suc.IH [of "Suc s" acc'] Suc.prems acc'(2) by auto
  then show ?case using buff acc'(1) by (auto simp: acc'_def add.commute)
qed simp

lemma stream_window_ok:
  assumes "conf_ok cf" "send_ok msgs r"
  shows "\<exists>sw. stream_window cf sq r = Inr sw \<and> 1 \<le> sw"
proof -
  let ?c = "window r (sq mod MAX_WINDOW)"
  show ?thesis
  proof (cases "Stream_Fairness cf \<and> (bc_pack_type ?c AND UDP_DATA_TYPE \<noteq> 0 \<or> bc_pack_type ?c AND REL_UDP_DATA_TYPE \<noteq> 0)")
    case True
    then obtain b where b: "bc_buff ?c = Some b"
      using send_okD(10) [OF assms(2), of "sq mod MAX_WINDOW"] by (cases "bc_buff ?c") auto
    obtain w where "stream_loop cf b (unat (head r) - unat (tail r)) (tail r) r 0 = Inr w" "w = 0 \<or> 1 \<le> w"
      using stream_loop_ok [OF assms, of "unat (tail r)" "unat (head r) - unat (tail r)" 0 b] send_okD(2) [OF assms(2)] by auto
    with True b show ?thesis
      by (auto simp: stream_window_def Let_def window_count [OF send_okD(2) [OF assms(2)]])
  next
    case False
    then have "stream_window cf sq r = Inr (window_size r)" unfolding stream_window_def Let_def by (simp only: if_False)
    then show ?thesis using send_okD(11) [OF assms(2)] by simp
  qed
qed

lemma resized_ok:
  assumes "send_ok msgs r" "1 \<le> w" "w \<le> 20000" "rel_loss e \<noteq> None"
  shows "op_ok cf msgs (r, e) ((set_ssthresh cf' sw r)\<lparr>window_size := w\<rparr>, e)"
  using assms by (auto simp: op_ok_def send_ok_def recv_same_def received_def set_ssthresh_def Let_def)

lemma at_least_minimum_ok:
  assumes "conf_ok cf" "w \<le> 20000"
  shows "1 \<le> at_least_minimum cf w" "at_least_minimum cf w \<le> 20000"
proof -
  have m: "fl cf (of_nat (Minimum_Window cf)) = of_nat (Minimum_Window cf)"
    using conf_okD(1) [OF assms(1)] conf_okD(4) [OF assms(1)] by blast
  have r: "(1 :: rat) \<le> of_nat (Minimum_Window cf)" "of_nat (Minimum_Window cf) \<le> (20000 :: rat)"
    using conf_okD(3,4) [OF assms(1)] of_nat_le_iff [of "Minimum_Window cf" 20000, where 'a = rat] by simp_all
  show "1 \<le> at_least_minimum cf w" "at_least_minimum cf w \<le> 20000"
    using r assms(2) by (auto simp: at_least_minimum_def m)
qed

lemma shrunk_window:
  assumes "conf_ok cf" "w \<le> 20000" "1 \<le> sw"
  shows "fl cf (fl cf (w - sw) + 1) \<le> 20000" "fl cf (w - fl cf (sw / 2)) \<le> 20000"
proof -
  have f: "fl cf 19999 = 19999" using conf_okD(1) [OF assms(1), of 19999] by simp
  have "fl cf (w - sw) \<le> fl cf 19999" using assms(2,3) by (intro conf_okD(2) [OF assms(1)]) simp
  then have "fl cf (fl cf (w - sw) + 1) \<le> fl cf 20000" by (intro conf_okD(2) [OF assms(1)]) (simp add: f)
  then show "fl cf (fl cf (w - sw) + 1) \<le> 20000" by (simp add: conf_okD(7) [OF assms(1)])
  have "fl cf 0 \<le> fl cf (sw / 2)" using assms(3) by (intro conf_okD(2) [OF assms(1)]) simp
  then have "w - fl cf (sw / 2) \<le> 20000" using assms(2) by (simp add: conf_okD(5) [OF assms(1)])
  then have "fl cf (w - fl cf (sw / 2)) \<le> fl cf 20000" by (intro conf_okD(2) [OF assms(1)])
  then show "fl cf (w - fl cf (sw / 2)) \<le> 20000" by (simp add: conf_okD(7) [OF assms(1)])
qed

section \<open>Sending again\<close>

lemma resend_ok:
  assumes "send_ok msgs r" "rel_loss e \<noteq> None" "bc_buff (window r (sq mod MAX_WINDOW)) \<noteq> None"
  shows "\<exists>r' e'. resend cf either sq r e = Inr (r', e') \<and> op_ok cf msgs (r, e) (r', e')"
proof -
  let ?c = "window r (sq mod MAX_WINDOW)"
  let ?r1 = "r\<lparr>window := (window r)(sq mod MAX_WINDOW := ?c\<lparr>bc_resent := True\<rparr>)\<rparr>"
  obtain s where s: "unat (tail r) \<le> s" "s < unat (head r)" "sq mod MAX_WINDOW = slot s"
    using send_okD(9) [OF assms(1,3)] by blast
  have c: "bc_seq_no ?c = num s" "bc_buff ?c = Some (msgs ! s)" using send_okD(7,8) [OF assms(1) s(1,2)] s(3) by simp_all
  have "s < 2 ^ 32" using s(2) send_okD(1,3) [OF assms(1)] by simp
  then have u: "unat (bc_seq_no ?c) = s" by (simp add: c(1) unat_num)
  have op1: "op_ok cf msgs (r, e) (?r1, e)"
    using assms(1,2) by (auto simp: op_ok_def send_ok_def recv_same_def received_def)
  then have r1: "send_ok msgs ?r1" by (simp add: op_ok_def)
  have "unat (bc_seq_no ?c) < unat (head ?r1)" "msgs ! s = msgs ! unat (bc_seq_no ?c)" "\<not> Is_link_ack (RELIABLE_TYPE OR bc_pack_type ?c)"
    unfolding u using s(2) send_okD(15) [OF assms(1)] by simp_all
  note T_ok = transmit_data_ok [OF r1 assms(2) this]
  obtain r' e' where T: "transmit cf either True (RELIABLE_TYPE OR bc_pack_type ?c) (Some (msgs ! s)) (bc_data_len ?c) (bc_seq_no ?c) ?r1 e
      = Inr (r', e')" "op_ok cf msgs (?r1, e) (r', e')"
    using T_ok by blast
  then have "resend cf either sq r e = Inr (r', e')" by (simp add: resend_def Let_def c(2))
  with op_ok_trans [OF op1 T(2)] show ?thesis by blast
qed

lemma resend_window_ok:
  assumes "send_ok msgs r" "rel_loss e \<noteq> None" "unat (tail r) \<le> s" "s + n \<le> unat (head r)"
  shows "\<exists>r' e'. resend_window cf n (num s) r e = Inr (r', e') \<and> op_ok cf msgs (r, e) (r', e')"
  using assms
proof (induction n arbitrary: s r e)
  case 0
  then show ?case by (simp add: op_ok_refl)
next
  case (Suc n)
  have b: "bc_buff (window r (num s mod MAX_WINDOW)) \<noteq> None"
    using send_okD(8) [OF Suc.prems(1,3)] Suc.prems(4) by (simp add: slot_def)
  obtain r1 e1 where R: "resend cf True (num s) r e = Inr (r1, e1)" "op_ok cf msgs (r, e) (r1, e1)"
    using resend_ok [OF Suc.prems(1,2) b] by blast
  have "\<exists>r' e'. resend_window cf n (num (Suc s)) r1 e1 = Inr (r', e') \<and> op_ok cf msgs (r1, e1) (r', e')"
    using R(2) Suc.prems by (intro Suc.IH) (auto simp: op_ok_def)
  then obtain r' e' where "resend_window cf n (num s + 1) r1 e1 = Inr (r', e')" "op_ok cf msgs (r1, e1) (r', e')"
    by (auto simp: add.commute)
  then show ?case using b R(1) op_ok_trans [OF R(2)] by auto
qed

lemma resend_nacks_ok:
  assumes "send_ok msgs r" "rel_loss e \<noteq> None"
  shows "\<exists>r' e'. resend_nacks cf ns r e = Inr (r', e') \<and> op_ok cf msgs (r, e) (r', e')"
  using assms
proof (induction ns arbitrary: r e)
  case Nil
  then show ?case by (simp add: op_ok_refl)
next
  case (Cons x ns)
  show ?case
  proof (cases "bc_buff (window r (x mod MAX_WINDOW)) = None")
    case False
    obtain r1 e1 where R: "resend cf False x r e = Inr (r1, e1)" "op_ok cf msgs (r, e) (r1, e1)"
      using resend_ok [OF Cons.prems False] by blast
    then have "send_ok msgs r1" "rel_loss e1 \<noteq> None" by (auto simp: op_ok_def)
    from Cons.IH [OF this] R op_ok_trans [OF R(2)] False show ?thesis by fastforce
  qed (use Cons in simp)
qed

section \<open>The handlers\<close>

lemma unscheduled_ok:
  assumes "send_ok msgs r" "rel_loss e \<noteq> None"
  shows "op_ok cf msgs (r, e) (r\<lparr>scheduled_timeout := b\<rparr>, e)" "op_ok cf msgs (r, e) (r\<lparr>timeout_multiply := m\<rparr>, rel_E_queue f l t e)"
    "op_ok cf msgs (r, e) (r\<lparr>nack_buff := ns\<rparr>, e)" "op_ok cf msgs (r, e) (r\<lparr>scheduled_ack := b\<rparr>, e)"
    "op_ok cf msgs (r, e) (r\<lparr>cong_flag := b\<rparr>, e)"
  by (rule op_ok_quiet [OF assms]; simp add: send_same_def recv_same_def received_def)+

lemma Send_Ack_ok:
  assumes "send_ok msgs r" "CONNECTED_LINK r" "rel_loss e \<noteq> None"
  shows "\<exists>r' e'. Send_Ack cf linkid (Some r) e = Inr (r', e') \<and> op_ok cf msgs (r, e) (r', e')"
proof -
  let ?r1 = "r\<lparr>scheduled_ack := False\<rparr>"
  note op1 = unscheduled_ok(4) [OF assms(1,3), of cf False]
  then have "send_ok msgs ?r1" by (simp add: op_ok_def)
  from transmit_ok [OF this assms(3), where data = None and type = LINK_ACK_TYPE] obtain r' e'
    where "transmit cf True True LINK_ACK_TYPE None 0 0 ?r1 e = Inr (r', e')" "op_ok cf msgs (?r1, e) (r', e')"
    by (metis option.case(1))
  then show ?thesis using assms(2) op_ok_trans [OF op1] by (auto simp: Send_Ack_def)
qed

lemma Reliable_timeout_ok:
  assumes "conf_ok cf" "send_ok msgs r" "CONNECTED_LINK r" "rel_loss e \<noteq> None"
  shows "\<exists>r' e'. Reliable_timeout cf linkid (Some r) e = Inr (r', e') \<and> op_ok cf msgs (r, e) (r', e')"
proof (cases "head r = tail r")
  case True
  then show ?thesis using assms(3) unscheduled_ok(1) [OF assms(2,4)] by (simp add: Reliable_timeout_def)
next
  case False
  obtain sw where sw: "stream_window cf (tail r) r = Inr sw" "1 \<le> sw" using stream_window_ok [OF assms(1,2)] by blast
  define r1 where "r1 = (if TCP_Fairness cf
    then (set_ssthresh cf sw r)\<lparr>window_size := at_least_minimum cf (fl cf (fl cf (window_size r - sw) + 1))\<rparr> else r)"
  have op1: "op_ok cf msgs (r, e) (r1, e)"
    using resized_ok [OF assms(2) at_least_minimum_ok [OF assms(1) shrunk_window(1) [OF assms(1) send_okD(12) [OF assms(2)] sw(2)]] assms(4)] op_ok_refl [OF assms(2,4)]
    by (simp add: r1_def)
  then have r1: "send_ok msgs r1" "tail r1 = tail r" "unat (head r) \<le> unat (head r1)" by (auto simp: op_ok_def)
  obtain r2 e2 where C: "cancel_ack linkid (r1, e) = (r2, e2)" by (metis surj_pair)
  note op2 = cancel_ack_ok(1) [OF r1(1) assms(4), of cf linkid, unfolded C]
  then have r2: "send_ok msgs r2" "rel_loss e2 \<noteq> None" "tail r2 = tail r" "unat (head r) \<le> unat (head r2)"
    using r1 by (auto simp: op_ok_def)
  obtain r3 e3 where W: "resend_window cf (unat (head r) - unat (tail r)) (tail r) r2 e2 = Inr (r3, e3)" "op_ok cf msgs (r2, e2) (r3, e3)"
    using resend_window_ok [OF r2(1,2), of "unat (tail r)" "unat (head r) - unat (tail r)" cf] r2(3,4) send_okD(2) [OF assms(2)] by auto
  have r3: "send_ok msgs r3" "rel_loss e3 \<noteq> None" using W(2) by (auto simp: op_ok_def)
  define m where "m = (if 100 < timeout_multiply r3 * 2 then 100 else timeout_multiply r3 * 2)"
  let ?out = "(r3\<lparr>timeout_multiply := m\<rparr>, rel_E_queue Reliable_timeout_fn linkid (retransm_timeout cf (rel_rand e3) (rtt r3) m) e3)"
  have "op_ok cf msgs (r, e) ?out"
    using op_ok_trans [OF op_ok_trans [OF op_ok_trans [OF op1 op2] W(2)] unscheduled_ok(2) [OF r3]] .
  moreover have "Reliable_timeout cf linkid (Some r) e = Inr ?out"
    using False assms(3) sw(1) C W(1)
    by (simp add: Reliable_timeout_def window_count [OF send_okD(2) [OF assms(2)]] Let_def r1_def [symmetric] m_def)
  ultimately show ?thesis by blast
qed

lemma Send_Nack_Retransm_ok:
  assumes "conf_ok cf" "send_ok msgs r" "CONNECTED_LINK r" "rel_loss e \<noteq> None"
  shows "\<exists>r' e'. Send_Nack_Retransm cf linkid (Some r) e = Inr (r', e') \<and> op_ok cf msgs (r, e) (r', e')"
proof (cases "nack_buff r = [] \<or> head r = tail r")
  case True
  then show ?thesis using assms(3) unscheduled_ok(1) [OF assms(2,4)] op_ok_refl [OF assms(2,4)]
    by (auto simp: Send_Nack_Retransm_def)
next
  case False
  obtain sw where sw: "stream_window cf (hd (nack_buff r)) r = Inr sw" "1 \<le> sw" using stream_window_ok [OF assms(1,2)] by blast
  define r1 where "r1 = (if \<not> TCP_Fairness cf then r
    else if cong_flag r
    then (set_ssthresh cf sw r)\<lparr>window_size := at_least_minimum cf (fl cf (window_size r - fl cf (sw / 2)))\<rparr>
    else r\<lparr>cong_flag := True\<rparr>)"
  have op1: "op_ok cf msgs (r, e) (r1, e)"
    using resized_ok [OF assms(2) at_least_minimum_ok [OF assms(1) shrunk_window(2) [OF assms(1) send_okD(12) [OF assms(2)] sw(2)]] assms(4)] unscheduled_ok(5) [OF assms(2,4)] op_ok_refl [OF assms(2,4)]
    by (simp add: r1_def)
  then have r1: "send_ok msgs r1" by (auto simp: op_ok_def)
  obtain r2 e2 where C: "cancel_ack linkid (r1, e) = (r2, e2)" by (metis surj_pair)
  note op2 = cancel_ack_ok(1) [OF r1(1) assms(4), of cf linkid, unfolded C]
  then have r2: "send_ok msgs r2" "rel_loss e2 \<noteq> None" by (auto simp: op_ok_def)
  obtain r3 e3 where W: "resend_nacks cf (nack_buff r) r2 e2 = Inr (r3, e3)" "op_ok cf msgs (r2, e2) (r3, e3)"
    using resend_nacks_ok [OF r2] by blast
  have r3: "send_ok msgs r3" "rel_loss e3 \<noteq> None" using W(2) by (auto simp: op_ok_def)
  have "op_ok cf msgs (r, e) (r3\<lparr>nack_buff := []\<rparr>, e3)"
    using op_ok_trans [OF op_ok_trans [OF op_ok_trans [OF op1 op2] W(2)] unscheduled_ok(3) [OF r3]] .
  moreover have "Send_Nack_Retransm cf linkid (Some r) e = Inr (r3\<lparr>nack_buff := []\<rparr>, e3)"
    using False assms(3) sw(1) C W(1) by (simp add: Send_Nack_Retransm_def Let_def r1_def [symmetric])
  ultimately show ?thesis by blast
qed

end
