(* ===== verification/Reliable_Receive.thy ===== *)
theory Reliable_Receive
  imports Reliable_Resend
begin

text \<open>\<open>Process_Ack\<close>: acknowledged packets leave the sending window, and a packet that is new to the
  receiving window is accepted once.\<close>

section \<open>The sending window\<close>

lemma grow_window_ok:
  assumes "conf_ok cf" "send_ok msgs r" "1 \<le> sw"
  shows "send_ok msgs (grow_window cf sw r)"
proof -
  have mono: "1 \<le> fl cf x" if "1 \<le> x" for x using conf_okD(2) [OF assms(1) that] by (simp add: conf_okD(6) [OF assms(1)])
  have inv: "0 \<le> fl cf (1 / sw)" using conf_okD(2) [OF assms(1), of 0 "1 / sw"] assms(3) by (simp add: conf_okD(5) [OF assms(1)])
  have w: "1 \<le> window_size r" by (rule send_okD(11) [OF assms(2)])
  have m: "of_nat (unat (max_window r)) = (20000 :: rat)" by (simp add: send_okD(13) [OF assms(2)] MAX_CG_WINDOW_def)
  have "1 \<le> clamp_window cf r x \<and> clamp_window cf r x \<le> 20000" if "1 \<le> x" for x
    using that conf_okD(7) [OF assms(1)] unfolding clamp_window_def m by auto
  moreover have "1 \<le> fl cf (window_size r + 1)" "1 \<le> fl cf (window_size r + fl cf (1 / sw))" using mono w inv by simp_all
  ultimately show ?thesis using assms(2) by (auto simp: grow_window_def send_ok_def)
qed

lemma grow_window_same:
  "head (grow_window cf sw r) = head r" "tail (grow_window cf sw r) = tail r" "seq_no (grow_window cf sw r) = seq_no r"
  "CONNECTED_LINK (grow_window cf sw r) = CONNECTED_LINK r" "recv_same r (grow_window cf sw r)"
  by (simp_all add: grow_window_def recv_same_def received_def)

lemma ack_one_ok:
  assumes ok: "send_ok msgs r" and lt: "unat (tail r) < unat (head r)"
  defines "c \<equiv> window r (tail r mod MAX_WINDOW)"
  defines "r1 \<equiv> r\<lparr>window := (window r)(tail r mod MAX_WINDOW := c\<lparr>bc_buff := None, bc_data_len := 0, bc_pack_type := 0\<rparr>)\<rparr>"
  shows "bc_buff c \<noteq> None" "stream_window cf (tail r1) r1 = Inr (window_size r)"
    "send_ok msgs (r1\<lparr>tail := tail r1 + 1\<rparr>)" "unat (tail r + 1) = unat (tail r) + 1"
proof -
  note D = send_okD [OF ok]
  show "bc_buff c \<noteq> None" using D(8) [of "unat (tail r)"] lt by (simp add: c_def)
  show "stream_window cf (tail r1) r1 = Inr (window_size r)" by (simp add: stream_window_def Let_def r1_def c_def)
  show t1: "unat (tail r + 1) = unat (tail r) + 1" using lt D(1,3) by (intro unat_Suc) simp
  have other: "slot s \<noteq> tail r mod MAX_WINDOW" if "unat (tail r) + 1 \<le> s" "s < unat (head r)" for s
  proof
    assume "slot s = tail r mod MAX_WINDOW"
    then have "slot s = slot (unat (tail r))" by simp
    then have "s = unat (tail r)"
      by (rule slot_inj [where l = "unat (tail r)"]) (use that D(1,3,4) lt in auto)
    with that show False by simp
  qed
  have "bc_seq_no (window r1 (slot s)) = num s \<and> bc_buff (window r1 (slot s)) = Some (msgs ! s)"
    if "unat (tail r) + 1 \<le> s" "s < unat (head r)" for s
    using that D(7,8) [of s] other [OF that] by (simp add: r1_def)
  moreover have "\<exists>s. unat (tail r) + 1 \<le> s \<and> s < unat (head r) \<and> x = slot s" if "bc_buff (window r1 x) \<noteq> None" for x
  proof -
    have x: "x \<noteq> tail r mod MAX_WINDOW" "bc_buff (window r x) \<noteq> None" using that by (auto simp: r1_def split: if_splits)
    then obtain s where s: "unat (tail r) \<le> s" "s < unat (head r)" "x = slot s" using D(9) by blast
    with x(1) have "s \<noteq> unat (tail r)" by auto
    with s show ?thesis by (intro exI [of _ s]) simp
  qed
  moreover have "bc_buff (window r1 x) = None \<Longrightarrow> bc_pack_type (window r1 x) = 0" for x
    using D(10) [of x] by (auto simp: r1_def)
  moreover have "head r1 = head r" "msg_buff r1 = msg_buff r" "window_size r1 = window_size r" "max_window r1 = max_window r" "tail r1 = tail r"
    by (simp_all add: r1_def)
  moreover have "\<not> Is_link_ack (bc_pack_type (window r1 x))" for x using D(15) [of x] by (simp add: r1_def Is_link_ack_bits)
  ultimately show "send_ok msgs (r1\<lparr>tail := tail r1 + 1\<rparr>)"
    using D(1-6,11-15) lt t1 by (simp add: send_ok_def)
qed

lemma ack_loop_ok:
  assumes "conf_ok cf" "send_ok msgs r" "unat (tail r) + n \<le> unat (head r)"
  shows "\<exists>r'. ack_loop cf n (tail r) r = Inr r' \<and> send_ok msgs r' \<and> unat (tail r') = unat (tail r) + n \<and> head r' = head r \<and>
    seq_no r' = seq_no r \<and> CONNECTED_LINK r' = CONNECTED_LINK r \<and> recv_same r r'"
  using assms(2,3)
proof (induction n arbitrary: r)
  case (Suc n)
  have lt: "unat (tail r) < unat (head r)" using Suc.prems(2) by simp
  let ?c = "window r (tail r mod MAX_WINDOW)"
  let ?r1 = "r\<lparr>window := (window r)(tail r mod MAX_WINDOW := ?c\<lparr>bc_buff := None, bc_data_len := 0, bc_pack_type := 0\<rparr>)\<rparr>"
  define r2 where "r2 = grow_window cf (window_size r) (?r1\<lparr>tail := tail ?r1 + 1\<rparr>)"
  note A = ack_one_ok [OF Suc.prems(1) lt]
  have r2: "send_ok msgs r2" unfolding r2_def by (rule grow_window_ok [OF assms(1) A(3) send_okD(11) [OF Suc.prems(1)]])
  have f: "tail r2 = tail r + 1" "head r2 = head r" "seq_no r2 = seq_no r" "CONNECTED_LINK r2 = CONNECTED_LINK r" "recv_same r r2"
    by (simp_all add: r2_def grow_window_same, simp add: grow_window_def recv_same_def received_def)
  have "unat (tail r2) + n \<le> unat (head r2)" using Suc.prems(2) A(4) by (simp add: f)
  with Suc.IH [OF r2] obtain r' where "ack_loop cf n (tail r2) r2 = Inr r'" "send_ok msgs r'" "unat (tail r') = unat (tail r2) + n"
    "head r' = head r2" "seq_no r' = seq_no r2" "CONNECTED_LINK r' = CONNECTED_LINK r2" "recv_same r2 r'"
    by blast
  moreover have "ack_loop cf (Suc n) (tail r) r = ack_loop cf n (tail r2) r2"
    using A(1) A(2) [of cf] by (auto simp: Let_def r2_def grow_window_same)
  ultimately show ?case using A(4) f by (auto simp: recv_same_def)
qed simp

text \<open>What the acknowledgement part of \<open>Process_Ack\<close> leaves.\<close>

definition acked :: "'b list \<Rightarrow> nat \<Rightarrow> 'b Reliable_Data \<times> 'b rel_env \<Rightarrow> 'b Reliable_Data \<times> 'b rel_env \<Rightarrow> bool" where
  "acked msgs a re re' \<longleftrightarrow> (case re of (r, e) \<Rightarrow> case re' of (r', e') \<Rightarrow>
     send_ok msgs r' \<and> unat (tail r') = a \<and> head r' = head r \<and> seq_no r' = seq_no r \<and>
     CONNECTED_LINK r' = CONNECTED_LINK r \<and> recv_same r r' \<and> rel_sent e' = rel_sent e \<and> rel_loss e' = rel_loss e)"

lemma process_cumulative_ok:
  assumes "conf_ok cf" "send_ok msgs r" "unat ack \<le> unat (head r)"
  shows "\<exists>re'. process_cumulative cf linkid ack r e = Inr re' \<and> acked msgs (max (unat (tail r)) (unat ack)) (r, e) re'"
proof (cases "tail r < ack")
  case True
  then have lt: "unat (tail r) < unat ack" by (simp add: word_less_nat_alt)
  define r1 where "r1 = update_rtt cf (rel_time e) ack r"
  have f: "tail r1 = tail r" "head r1 = head r" "seq_no r1 = seq_no r" "CONNECTED_LINK r1 = CONNECTED_LINK r" "recv_same r r1" "send_same r r1"
    by (simp_all add: r1_def update_rtt_def Let_def recv_same_def received_def send_same_def)
  have r1: "send_ok msgs r1" by (rule send_ok_same [OF f(6) assms(2)])
  have "unat (tail r1) + (unat ack - unat (tail r)) \<le> unat (head r1)" using lt assms(3) by (simp add: f)
  from ack_loop_ok [OF assms(1) r1 this] obtain r' where "ack_loop cf (unat ack - unat (tail r)) (tail r) r1 = Inr r'"
    "send_ok msgs r'" "unat (tail r') = unat ack" "head r' = head r" "seq_no r' = seq_no r" "CONNECTED_LINK r' = CONNECTED_LINK r" "recv_same r r'"
    using lt f by (auto simp: recv_same_def)
  moreover have "unat (ack - tail r) = unat ack - unat (tail r)" using lt by (simp add: unat_diff)
  ultimately show ?thesis using True lt
    by (auto simp: process_cumulative_def r1_def [symmetric] acked_def max_def)
next
  case False
  then have "unat ack \<le> unat (tail r)" by (simp add: word_less_nat_alt)
  then show ?thesis using False assms(2) by (simp add: process_cumulative_def acked_def)
qed

lemma relax_timeout_ok: "acked msgs a re re1 \<Longrightarrow> acked msgs a re (relax_timeout cf linkid re1)"
  unfolding acked_def relax_timeout_def Let_def
  by (cases re; cases re1) (auto simp: send_ok_def recv_same_def received_def split: prod.splits)

section \<open>The receiving window\<close>

lemma recv_okD:
  assumes "recv_ok got r"
  shows "unat (recv_tail r) \<le> unat (recv_head r)" "unat (recv_head r) \<le> unat (recv_tail r) + 20000"
    "s \<in> got \<longleftrightarrow> s < unat (recv_tail r) \<or> s < unat (recv_head r) \<and> slot s \<in> received r"
    "x \<in> received r \<Longrightarrow> \<exists>s. unat (recv_tail r) \<le> s \<and> s < unat (recv_head r) \<and> x = slot s"
proof -
  note R = assms [unfolded recv_ok_def]
  show "unat (recv_tail r) \<le> unat (recv_head r)" "unat (recv_head r) \<le> unat (recv_tail r) + 20000" using R by simp_all
  have "got = {s. s < unat (recv_tail r)} \<union> {s. unat (recv_tail r) \<le> s \<and> s < unat (recv_head r) \<and> slot s \<in> received r}"
    using R by blast
  then show "s \<in> got \<longleftrightarrow> s < unat (recv_tail r) \<or> s < unat (recv_head r) \<and> slot s \<in> received r"
    by (auto simp: not_less)
  have "received r \<subseteq> slot ` {unat (recv_tail r)..<unat (recv_head r)}" using R by blast
  then show "x \<in> received r \<Longrightarrow> \<exists>s. unat (recv_tail r) \<le> s \<and> s < unat (recv_head r) \<and> x = slot s"
    by fastforce
qed

lemma recv_okI:
  assumes "unat (recv_tail r) \<le> unat (recv_head r)" "unat (recv_head r) \<le> unat (recv_tail r) + 20000"
    and "\<And>s. s \<in> got \<longleftrightarrow> s < unat (recv_tail r) \<or> s < unat (recv_head r) \<and> slot s \<in> received r"
    and "\<And>x. x \<in> received r \<Longrightarrow> \<exists>s. unat (recv_tail r) \<le> s \<and> s < unat (recv_head r) \<and> x = slot s"
  shows "recv_ok got r"
  using assms unfolding recv_ok_def by fastforce

lemma received_slot:
  assumes "recv_ok got r" "slot s \<in> received r" "unat (recv_tail r) \<le> s" "s < unat (recv_tail r) + 20000" "s < 2 ^ 32"
  shows "s < unat (recv_head r)"
proof -
  obtain t where t: "unat (recv_tail r) \<le> t" "t < unat (recv_head r)" "slot s = slot t"
    using recv_okD(4) [OF assms(1,2)] by blast
  have "t < 2 ^ 32" using t(2) unat32 [of "recv_head r"] by simp
  then have "s = t"
    by (intro slot_inj [OF t(3), where l = "unat (recv_tail r)"]) (use assms(3-5) t recv_okD(2) [OF assms(1)] in auto)
  with t show ?thesis by simp
qed

lemma recv_loop_ok:
  assumes "recv_ok got r" "unat (recv_tail r) + n \<le> unat (recv_head r)"
  shows "recv_ok got (recv_loop n r) \<and> recv_head (recv_loop n r) = recv_head r \<and>
    unat (recv_tail r) \<le> unat (recv_tail (recv_loop n r)) \<and> send_same r (recv_loop n r)"
  using assms
proof (induction n arbitrary: r)
  case (Suc n)
  let ?t = "unat (recv_tail r)" and ?c = "recv_window r (recv_tail r mod MAX_WINDOW)"
  show ?case
  proof (cases "rc_flag ?c = RECVD_CELL")
    case True
    let ?r1 = "(put_recv (recv_tail r) (?c\<lparr>rc_flag := EMPTY_CELL\<rparr>) r)\<lparr>recv_tail := recv_tail r + 1\<rparr>"
    have h32: "unat (recv_head r) < 2 ^ 32" using unat32 [of "recv_head r"] by simp
    have t1: "unat (recv_tail r + 1) = ?t + 1" using Suc.prems(2) h32 by (intro unat_Suc) simp
    have rec: "received ?r1 = received r - {slot ?t}"
      using received_put_recv [of "recv_tail r" "?c\<lparr>rc_flag := EMPTY_CELL\<rparr>" r] by (simp add: received_def)
    have mem: "slot ?t \<in> received r" using True by (simp add: received_def)
    have other: "slot s \<noteq> slot ?t" if "?t < s" "s < unat (recv_head r)" for s
    proof
      assume "slot s = slot ?t"
      then have "s = ?t"
        by (rule slot_inj [where l = ?t]) (use that recv_okD(2) [OF Suc.prems(1)] h32 in auto)
      with that show False by simp
    qed
    have f: "recv_tail ?r1 = recv_tail r + 1" "recv_head ?r1 = recv_head r" by (simp_all add: put_recv_def)
    have "recv_ok got ?r1"
    proof (rule recv_okI)
      show "unat (recv_tail ?r1) \<le> unat (recv_head ?r1)" "unat (recv_head ?r1) \<le> unat (recv_tail ?r1) + 20000"
        using Suc.prems(2) recv_okD(2) [OF Suc.prems(1)] unfolding f t1 by simp_all
      show "s \<in> got \<longleftrightarrow> s < unat (recv_tail ?r1) \<or> s < unat (recv_head ?r1) \<and> slot s \<in> received ?r1" for s
        unfolding recv_okD(3) [OF Suc.prems(1)] f t1 rec using mem other [of s] Suc.prems(2)
        by (cases "s = ?t") (auto simp del: slot_unat)
      show "\<exists>s. unat (recv_tail ?r1) \<le> s \<and> s < unat (recv_head ?r1) \<and> x = slot s" if "x \<in> received ?r1" for x
      proof -
        have x: "x \<in> received r" "x \<noteq> slot ?t" using that unfolding rec by auto
        then obtain s where s: "?t \<le> s" "s < unat (recv_head r)" "x = slot s" using recv_okD(4) [OF Suc.prems(1)] by blast
        with x(2) have "s \<noteq> ?t" by blast
        with s show ?thesis unfolding f t1 by (intro exI [of _ s]) simp
      qed
    qed
    moreover have "unat (recv_tail ?r1) + n \<le> unat (recv_head ?r1)" using Suc.prems(2) unfolding f t1 by simp
    ultimately have "recv_ok got (recv_loop n ?r1) \<and> recv_head (recv_loop n ?r1) = recv_head ?r1 \<and>
      unat (recv_tail ?r1) \<le> unat (recv_tail (recv_loop n ?r1)) \<and> send_same ?r1 (recv_loop n ?r1)" by (rule Suc.IH)
    moreover have "send_same r ?r1" by (simp add: send_same_def put_recv_def)
    moreover have "recv_loop (Suc n) r = recv_loop n ?r1" using True by (simp add: Let_def)
    ultimately show ?thesis unfolding f t1 by (simp add: send_same_def)
  qed (use Suc.prems in simp)
qed simp

lemma receive_data_ok:
  assumes ok: "recv_ok got r" and near: "unat sq < unat (recv_tail r) + 20000" and small: "unat sq + 1 < 2 ^ 32"
  obtains "unat sq \<in> got" "receive_data sq r = (0, r)"
  | r' where "unat sq \<notin> got" "receive_data sq r = (1, r')" "recv_ok (insert (unat sq) got) r'" "send_same r r'"
      "unat (recv_tail r) \<le> unat (recv_tail r')" "unat (recv_head r') = max (unat (recv_head r)) (unat sq + 1)"
proof (cases "rc_flag (recv_window r (sq mod MAX_WINDOW)) = RECVD_CELL \<or> sq < recv_tail r")
  case True
  have "unat sq \<in> got"
  proof (cases "sq < recv_tail r")
    case False
    with True have "slot (unat sq) \<in> received r" by (simp add: received_def)
    moreover from this have "unat sq < unat (recv_head r)"
      by (rule received_slot [OF ok]) (use False near unat32 in \<open>simp_all add: word_less_nat_alt\<close>)
    ultimately show ?thesis by (simp add: recv_okD(3) [OF ok])
  qed (simp add: recv_okD(3) [OF ok] word_less_nat_alt)
  moreover have "receive_data sq r = (0, r)" using True by (simp add: receive_data_def)
  ultimately show ?thesis by (rule that(1))
next
  case False
  let ?s = "unat sq" and ?t = "unat (recv_tail r)" and ?h = "unat (recv_head r)"
  have le: "?t \<le> ?s" and free: "slot ?s \<notin> received r" using False by (simp_all add: word_less_nat_alt received_def)
  define r1 where "r1 = (if recv_head r \<le> sq then r\<lparr>recv_head := sq + 1\<rparr> else r)"
  define r2 where "r2 = put_recv sq ((recv_window r1 (sq mod MAX_WINDOW))\<lparr>rc_flag := RECVD_CELL\<rparr>) r1"
  have s1: "unat (sq + 1) = ?s + 1" using small by (rule unat_Suc)
  have tail2: "recv_tail r2 = recv_tail r" by (simp add: r2_def r1_def put_recv_def)
  have head2: "unat (recv_head r2) = max ?h (?s + 1)" by (auto simp: r2_def r1_def put_recv_def s1 word_le_nat_alt)
  have rec1: "received r1 = received r" by (simp add: r1_def received_def)
  have rec2: "received r2 = insert (slot ?s) (received r)" by (simp add: r2_def received_put_recv rec1)
  have out: "?s \<notin> got" using le free by (simp add: recv_okD(3) [OF ok] del: slot_unat)
  have same: "s = ?s" if "slot s = slot ?s" "?t \<le> s" "s < max ?h (?s + 1)" for s
    by (rule slot_inj [OF that(1), where l = ?t])
      (use that(2,3) le near small recv_okD(2) [OF ok] unat32 [of "recv_head r"] in auto)
  have old: "s < ?h" if "slot s \<in> received r" "?t \<le> s" "s < max ?h (?s + 1)" for s
    by (rule received_slot [OF ok that(1,2)]) (use that(3) near small recv_okD(2) [OF ok] unat32 [of "recv_head r"] in auto)
  have ok2: "recv_ok (insert ?s got) r2"
  proof (rule recv_okI)
    show "unat (recv_tail r2) \<le> unat (recv_head r2)" "unat (recv_head r2) \<le> unat (recv_tail r2) + 20000"
      using le near recv_okD(1,2) [OF ok] unfolding tail2 head2 by simp_all
    show "s \<in> insert ?s got \<longleftrightarrow> s < unat (recv_tail r2) \<or> s < unat (recv_head r2) \<and> slot s \<in> received r2" for s
      unfolding insert_iff recv_okD(3) [OF ok] tail2 head2 rec2
      using same [of s] old [of s] by (cases "s < ?t") (auto simp del: slot_unat)
    show "\<exists>s. unat (recv_tail r2) \<le> s \<and> s < unat (recv_head r2) \<and> x = slot s" if "x \<in> received r2" for x
    proof (cases "x = slot ?s")
      case True
      then show ?thesis unfolding tail2 head2 using le by (intro exI [of _ ?s]) simp
    next
      case False
      with that obtain s where "?t \<le> s" "s < ?h" "x = slot s" using recv_okD(4) [OF ok, of x] unfolding rec2 by blast
      then show ?thesis unfolding tail2 head2 by (intro exI [of _ s]) simp
    qed
  qed
  let ?n = "if recv_tail r2 < recv_head r2 then unat (recv_head r2 - recv_tail r2) else 0"
  have "unat (recv_tail r2) + ?n \<le> unat (recv_head r2)"
    using recv_okD(1) [OF ok2] by (simp add: unat_diff)
  note L = recv_loop_ok [OF ok2 this]
  have "send_same r r2" by (simp add: send_same_def r2_def r1_def put_recv_def)
  with L have same3: "send_same r (recv_loop ?n r2)" by (simp add: send_same_def)
  have "receive_data sq r = (1, recv_loop ?n r2)"
    using False by (simp add: receive_data_def Let_def r2_def r1_def)
  with out show ?thesis
  proof (rule that(2))
    show "recv_ok (insert ?s got) (recv_loop ?n r2)" "send_same r (recv_loop ?n r2)" using L same3 by simp_all
    show "?t \<le> unat (recv_tail (recv_loop ?n r2))" using L tail2 by metis
    show "unat (recv_head (recv_loop ?n r2)) = max ?h (?s + 1)" using L head2 by metis
  qed
qed

section \<open>Acknowledgement and data together\<close>

lemma take_nacks_ok:
  assumes "send_ok msgs r" "take_nacks linkid ns (r, e) = (r1, e1)"
  shows "send_same r r1" "recv_same r r1" "rel_sent e1 = rel_sent e" "rel_loss e1 = rel_loss e"
  using assms(2) by (auto simp: take_nacks_def send_same_def recv_same_def received_def split: if_splits)

text \<open>What \<open>Process_Ack\<close> gives for a packet of the other end: \<open>a\<close> is what it acknowledges.\<close>

definition ack_result :: "'b list \<Rightarrow> nat set \<Rightarrow> 'b rel_packet \<Rightarrow> 'b Reliable_Data \<times> 'b rel_env \<Rightarrow> int \<times> 'b Reliable_Data \<times> 'b rel_env \<Rightarrow> bool" where
  "ack_result msgs got p re out \<longleftrightarrow> (case re of (r, e) \<Rightarrow> case out of (ret, r', e') \<Rightarrow>
     send_ok msgs r' \<and> unat (tail r') = max (unat (tail r)) (unat (rp_cummulative_ack p)) \<and> head r' = head r \<and> seq_no r' = seq_no r \<and>
     CONNECTED_LINK r' = CONNECTED_LINK r \<and> rel_sent e' = rel_sent e \<and> rel_loss e' = rel_loss e \<and>
     unat (recv_tail r) \<le> unat (recv_tail r') \<and>
     (if rp_data p = None then ret = - 1 \<and> recv_ok got r' \<and> recv_head r' = recv_head r
      else if unat (rp_seq_no p) \<in> got then ret = 0 \<and> recv_ok got r' \<and> recv_head r' = recv_head r
      else ret = 1 \<and> recv_ok (insert (unat (rp_seq_no p)) got) r' \<and>
           unat (recv_head r') = max (unat (recv_head r)) (unat (rp_seq_no p) + 1)))"

lemma Process_Ack_ok:
  assumes conf: "conf_ok cf" and send: "send_ok msgs r" and recv: "recv_ok got r"
    and ack: "unat (rp_cummulative_ack p) \<le> unat (head r)"
    and type: "Is_link_ack (if Same_endian (rel_ARCH_ENDIAN cf) (rp_type p) then rp_type p else Flip_int32 (rp_type p)) \<longleftrightarrow> rp_data p = None"
    and data: "rp_data p \<noteq> None \<Longrightarrow> unat (rp_seq_no p) < unat (recv_tail r) + 20000 \<and> unat (rp_seq_no p) + 1 < 2 ^ 32"
  shows "\<exists>out. Process_Ack cf linkid p (Some r) e = Inr out \<and> ack_result msgs got p (r, e) out"
proof -
  obtain r1 e1 where T: "take_nacks linkid (rp_nacks p) (r, e) = (r1, e1)" by (metis surj_pair)
  note S = take_nacks_ok [OF send T]
  have r1: "send_ok msgs r1" "recv_ok got r1" using send_ok_same [OF S(1) send] recv_ok_same [OF S(2) recv] by simp_all
  have ack1: "unat (rp_cummulative_ack p) \<le> unat (head r1)" using ack S(1) by (simp add: send_same_def)
  obtain re2 where C: "process_cumulative cf linkid (rp_cummulative_ack p) r1 e1 = Inr re2"
    "acked msgs (max (unat (tail r1)) (unat (rp_cummulative_ack p))) (r1, e1) re2"
    using process_cumulative_ok [OF conf r1(1) ack1] by blast
  obtain r3 e3 where R: "relax_timeout cf linkid re2 = (r3, e3)" by (metis surj_pair)
  have K: "acked msgs (max (unat (tail r1)) (unat (rp_cummulative_ack p))) (r1, e1) (r3, e3)"
    using relax_timeout_ok [OF C(2), of cf linkid] R by simp
  have r3: "recv_ok got r3" using K recv_ok_same [OF _ r1(2)] by (simp add: acked_def)
  have same3: "recv_tail r3 = recv_tail r" "recv_head r3 = recv_head r" using K S(2) by (simp_all add: acked_def recv_same_def)
  have not: "\<not> head r1 < rp_cummulative_ack p" using ack1 by (simp add: word_less_nat_alt)
  have P: "Process_Ack cf linkid p (Some r) e = Inr (if rp_data p = None then (- 1, r3, e3)
      else (fst (receive_data (rp_seq_no p) r3), snd (receive_data (rp_seq_no p) r3), e3))"
    using T C(1) R not type by (simp add: Process_Ack_def Let_def case_prod_unfold)
  note base = K [unfolded acked_def] S [unfolded send_same_def]
  show ?thesis
  proof (cases "rp_data p = None")
    case True
    then show ?thesis using P base r3 same3 by (simp add: ack_result_def)
  next
    case False
    then have near: "unat (rp_seq_no p) < unat (recv_tail r3) + 20000" "unat (rp_seq_no p) + 1 < 2 ^ 32"
      using data same3 by simp_all
    show ?thesis
    proof (rule receive_data_ok [OF r3 near])
      assume "unat (rp_seq_no p) \<in> got" "receive_data (rp_seq_no p) r3 = (0, r3)"
      then show ?thesis using P False base r3 same3 by (simp add: ack_result_def)
    next
      fix r' assume A: "unat (rp_seq_no p) \<notin> got" "receive_data (rp_seq_no p) r3 = (1, r')"
        "recv_ok (insert (unat (rp_seq_no p)) got) r'" "send_same r3 r'"
        "unat (recv_tail r3) \<le> unat (recv_tail r')" "unat (recv_head r') = max (unat (recv_head r3)) (unat (rp_seq_no p) + 1)"
      have "send_ok msgs r'" using send_ok_same [OF A(4)] base(1) by simp
      then show ?thesis using P False A base same3 by (simp add: ack_result_def send_same_def)
    qed
  qed
qed

end
