(* ===== verification/Reliable_System.thy ===== *)
theory Reliable_System
  imports Reliable_Receive
begin

text \<open>
  Both ends of a reliable link, and a network between them that loses, repeats and reorders packets:
  any packet that one end has ever sent may reach the other end, at any time and any number of times.
  An end takes messages from its users, runs the timers that are queued, takes the packets that reach
  it, and hands buffers on.
\<close>

section \<open>Two ends\<close>

record 'b endpoint =
  ep_control :: bool
  ep_conf :: "'b rel_conf"
  ep_link :: int
  ep_data :: "'b Reliable_Data"
  ep_env :: "'b rel_env"
  ep_msgs :: "'b list"
  ep_got :: "(nat \<times> 'b) list"

fun run_timer :: "rel_func \<Rightarrow> 'b rel_conf \<Rightarrow> int \<Rightarrow> 'b Reliable_Data option \<Rightarrow> 'b rel_env \<Rightarrow> ('b Reliable_Data \<times> 'b rel_env) res" where
  "run_timer Send_Ack_fn cf linkid lk e = Send_Ack cf linkid lk e"
| "run_timer Reliable_timeout_fn cf linkid lk e = Reliable_timeout cf linkid lk e"
| "run_timer Send_Nack_Retransm_fn cf linkid lk e = Send_Nack_Retransm cf linkid lk e"
| "run_timer Try_to_Send_fn cf linkid lk e = Try_to_Send cf linkid lk e"

text \<open>What an end does by itself. Besides the operations of the link there are the hello protocol,
  which connects the link and measures its round trip time, and the clock.\<close>

inductive local_step :: "'b endpoint \<Rightarrow> 'b endpoint \<Rightarrow> bool" where
  send: "Reliable_Send_Msg (ep_conf x) (ep_link x) b len pt (Some (ep_data x)) (ep_env x) = Inr (r, e) \<Longrightarrow>
    length (ep_msgs x) + 1 < 2 ^ 32 \<Longrightarrow> \<not> Is_link_ack pt \<Longrightarrow>
    local_step x (x\<lparr>ep_data := r, ep_env := e, ep_msgs := ep_msgs x @ [b]\<rparr>)"
| timer: "ev \<in> set (rel_queue (ep_env x)) \<Longrightarrow>
    run_timer (te_func ev) (ep_conf x) (ep_link x) (Some (ep_data x)) ((ep_env x)\<lparr>rel_queue := remove1 ev (rel_queue (ep_env x))\<rparr>) = Inr (r, e) \<Longrightarrow>
    local_step x (x\<lparr>ep_data := r, ep_env := e\<rparr>)"
| connect: "local_step x (x\<lparr>ep_data := (ep_data x)\<lparr>CONNECTED_LINK := True\<rparr>\<rparr>)"
| measure_rtt: "local_step x (x\<lparr>ep_data := (ep_data x)\<lparr>rtt := t\<rparr>\<rparr>)"
| tick: "local_step x (x\<lparr>ep_env := (ep_env x)\<lparr>rel_time := t, rel_monotonic := m, rel_rand := k, Link_Sessions_Blocked_On := b\<rparr>\<rparr>)"

text \<open>A packet as the other host reads it: all of it but the type is turned round on the way in.\<close>

definition read_packet :: "'b endpoint \<Rightarrow> 'b endpoint \<Rightarrow> 'b rel_packet \<Rightarrow> 'b rel_packet" where
  "read_packet x y p =
     (if rel_ARCH_ENDIAN (ep_conf x) = rel_ARCH_ENDIAN (ep_conf y) then p else p\<lparr>rp_type := Flip_int32 (rp_type p)\<rparr>)"

definition deliver :: "'b rel_packet \<Rightarrow> 'b option \<Rightarrow> 'b endpoint \<Rightarrow> 'b endpoint" where
  "deliver p out y = (case out of None \<Rightarrow> y | Some b \<Rightarrow> y\<lparr>ep_got := ep_got y @ [(unat (rp_seq_no p), b)]\<rparr>)"

inductive receive_step :: "'b endpoint \<Rightarrow> 'b endpoint \<Rightarrow> 'b endpoint \<Rightarrow> bool" where
  receive: "p \<in> set (rel_sent (ep_env x)) \<Longrightarrow>
    process_link_packet (ep_control y) (ep_conf y) (ep_link y) num_elements len1 (read_packet x y p) (Some (ep_data y)) (ep_env y)
      = Inr (out, Some r, e) \<Longrightarrow>
    receive_step x y (deliver p out (y\<lparr>ep_data := r, ep_env := e\<rparr>))"

inductive link_step :: "'b endpoint \<times> 'b endpoint \<Rightarrow> 'b endpoint \<times> 'b endpoint \<Rightarrow> bool" where
  here: "local_step x x' \<Longrightarrow> link_step (x, y) (x', y)"
| there: "local_step y y' \<Longrightarrow> link_step (x, y) (x, y')"
| to_there: "receive_step x y y' \<Longrightarrow> link_step (x, y) (x, y')"
| to_here: "receive_step y x x' \<Longrightarrow> link_step (x, y) (x', y)"

inductive_cases local_stepE: "local_step x x'"
inductive_cases receive_stepE: "receive_step x y y'"
inductive_cases link_stepE: "link_step (x, y) (x', y')"

definition arch_ok :: "'b rel_conf \<Rightarrow> bool" where
  "arch_ok cf \<longleftrightarrow> rel_ARCH_ENDIAN cf = 0 \<or> rel_ARCH_ENDIAN cf = 0x80000080"

text \<open>A new end of a link.\<close>

definition fresh :: "'b endpoint \<Rightarrow> bool" where
  "fresh x \<longleftrightarrow> conf_ok (ep_conf x) \<and> arch_ok (ep_conf x) \<and> ep_data x = new_Reliable_Data (ep_conf x) \<and>
     rel_queue (ep_env x) = [] \<and> rel_sent (ep_env x) = [] \<and> rel_loss (ep_env x) \<noteq> None \<and> ep_msgs x = [] \<and> ep_got x = []"

definition link_reachable :: "'b endpoint \<times> 'b endpoint \<Rightarrow> bool" where
  "link_reachable s \<longleftrightarrow> (\<exists>x y. fresh x \<and> fresh y \<and> link_step\<^sup>*\<^sup>* (x, y) s)"

section \<open>The invariant\<close>

text \<open>What one end keeps by itself, and what the messages from \<open>x\<close> to \<open>y\<close> keep.\<close>

definition end_ok :: "'b endpoint \<Rightarrow> bool" where
  "end_ok x \<longleftrightarrow> conf_ok (ep_conf x) \<and> arch_ok (ep_conf x) \<and> rel_loss (ep_env x) \<noteq> None \<and>
     (CONNECTED_LINK (ep_data x) \<or> rel_queue (ep_env x) = []) \<and>
     send_ok (ep_msgs x) (ep_data x) \<and> unat (seq_no (ep_data x)) = length (ep_msgs x) \<and>
     recv_ok (fst ` set (ep_got x)) (ep_data x) \<and> distinct (map fst (ep_got x)) \<and>
     (\<forall>p \<in> set (rel_sent (ep_env x)). pkt_ok (ep_conf x) (ep_msgs x) (unat (head (ep_data x))) (unat (recv_tail (ep_data x))) p)"

definition dir_ok :: "'b endpoint \<Rightarrow> 'b endpoint \<Rightarrow> bool" where
  "dir_ok x y \<longleftrightarrow> unat (recv_head (ep_data y)) \<le> unat (head (ep_data x)) \<and> unat (tail (ep_data x)) \<le> unat (recv_tail (ep_data y)) \<and>
     (\<forall>(s, b) \<in> set (ep_got y). s < length (ep_msgs x) \<and> b = ep_msgs x ! s)"

definition link_ok :: "'b endpoint \<times> 'b endpoint \<Rightarrow> bool" where
  "link_ok s \<longleftrightarrow> (case s of (x, y) \<Rightarrow> end_ok x \<and> end_ok y \<and> dir_ok x y \<and> dir_ok y x)"

lemma fresh_ok:
  assumes "fresh x"
  shows "end_ok x" "recv_head (ep_data x) = 0" "tail (ep_data x) = 0" "ep_got x = []"
proof -
  note F = assms [unfolded fresh_def]
  have c: "conf_ok (ep_conf x)" using F by blast
  have m: "fl (ep_conf x) (of_nat (Minimum_Window (ep_conf x))) = of_nat (Minimum_Window (ep_conf x))"
    using conf_okD(1) [OF c] conf_okD(4) [OF c] by blast
  have r: "(1 :: rat) \<le> of_nat (Minimum_Window (ep_conf x))" "of_nat (Minimum_Window (ep_conf x)) \<le> (20000 :: rat)"
    using conf_okD(3,4) [OF c] of_nat_le_iff [of "Minimum_Window (ep_conf x)" 20000, where 'a = rat] by simp_all
  have "send_ok [] (ep_data x)"
    using F m r by (simp add: send_ok_def new_Reliable_Data_def MAX_CG_WINDOW_def Is_link_ack_bits)
  moreover have "recv_ok {} (ep_data x)"
    using F by (simp add: recv_ok_def received_def new_Reliable_Data_def)
  ultimately show "end_ok x" using F by (simp add: end_ok_def new_Reliable_Data_def)
qed (use assms in \<open>simp_all add: fresh_def new_Reliable_Data_def\<close>)

lemma fresh_link_ok: "fresh x \<Longrightarrow> fresh y \<Longrightarrow> link_ok (x, y)"
  by (simp add: link_ok_def dir_ok_def fresh_ok)

lemma end_okD:
  assumes "end_ok x"
  shows "conf_ok (ep_conf x)" "arch_ok (ep_conf x)" "rel_loss (ep_env x) \<noteq> None"
    "CONNECTED_LINK (ep_data x) \<or> rel_queue (ep_env x) = []" "send_ok (ep_msgs x) (ep_data x)"
    "unat (seq_no (ep_data x)) = length (ep_msgs x)" "recv_ok (fst ` set (ep_got x)) (ep_data x)" "distinct (map fst (ep_got x))"
    "p \<in> set (rel_sent (ep_env x)) \<Longrightarrow> pkt_ok (ep_conf x) (ep_msgs x) (unat (head (ep_data x))) (unat (recv_tail (ep_data x))) p"
  using assms by (auto simp: end_ok_def)

section \<open>What an end does by itself\<close>

definition end_step :: "'b endpoint \<Rightarrow> 'b endpoint \<Rightarrow> bool" where
  "end_step x x' \<longleftrightarrow> end_ok x' \<and> ep_conf x' = ep_conf x \<and> ep_got x' = ep_got x \<and> (\<exists>bs. ep_msgs x' = ep_msgs x @ bs) \<and>
     tail (ep_data x') = tail (ep_data x) \<and> unat (head (ep_data x)) \<le> unat (head (ep_data x')) \<and>
     recv_tail (ep_data x') = recv_tail (ep_data x) \<and> recv_head (ep_data x') = recv_head (ep_data x)"

lemma end_step_dir:
  assumes "end_step x x'" "dir_ok x y" "dir_ok y x"
  shows "dir_ok x' y" "dir_ok y x'"
proof -
  obtain bs where "ep_msgs x' = ep_msgs x @ bs" using assms(1) by (auto simp: end_step_def)
  with assms show "dir_ok x' y" "dir_ok y x'" by (auto simp: end_step_def dir_ok_def nth_append)
qed

lemma op_end_step:
  assumes x: "end_ok x" and op: "op_ok (ep_conf x) (ep_msgs x @ bs) (r0, e0) (r, e)"
    and r0: "tail r0 = tail (ep_data x)" "head r0 = head (ep_data x)" "recv_same (ep_data x) r0" "rel_sent e0 = rel_sent (ep_env x)"
    and seq: "unat (seq_no r) = length (ep_msgs x @ bs)" and queue: "CONNECTED_LINK r \<or> rel_queue e = []"
  shows "end_step x (x\<lparr>ep_data := r, ep_env := e, ep_msgs := ep_msgs x @ bs\<rparr>)"
proof -
  obtain ps where O: "send_ok (ep_msgs x @ bs) r" "tail r = tail r0" "unat (head r0) \<le> unat (head r)" "recv_same r0 r"
    "rel_loss e \<noteq> None" "rel_sent e = rel_sent e0 @ ps"
    "\<forall>p \<in> set ps. pkt_ok (ep_conf x) (ep_msgs x @ bs) (unat (head r)) (unat (recv_tail r)) p"
    using op by (auto simp: op_ok_def)
  have same: "recv_same (ep_data x) r" using r0(3) O(4) by (simp add: recv_same_def)
  have "pkt_ok (ep_conf x) (ep_msgs x @ bs) (unat (head r)) (unat (recv_tail r)) p" if "p \<in> set (rel_sent (ep_env x))" for p
    by (rule pkt_ok_append [OF end_okD(9) [OF x that] send_okD(3) [OF end_okD(5) [OF x]]])
      (use O(3) r0(2) same in \<open>simp_all add: recv_same_def\<close>)
  then have "\<forall>p \<in> set (rel_sent e). pkt_ok (ep_conf x) (ep_msgs x @ bs) (unat (head r)) (unat (recv_tail r)) p"
    using O(6,7) r0(4) by auto
  then show ?thesis
    using x O r0 same seq queue recv_ok_same [OF same end_okD(7) [OF x]] by (simp add: end_step_def end_ok_def recv_same_def)
qed

lemma run_timer_ok:
  assumes "conf_ok cf" "send_ok msgs r" "rel_loss e \<noteq> None" "CONNECTED_LINK r"
  shows "\<exists>r' e'. run_timer f cf linkid (Some r) e = Inr (r', e') \<and> op_ok cf msgs (r, e) (r', e')"
  by (cases f) (simp_all add: Try_to_Send_def Send_Ack_ok Reliable_timeout_ok Send_Nack_Retransm_ok Send_Much_ok assms)

lemma timer_end_step:
  assumes "end_ok x" "ev \<in> set (rel_queue (ep_env x))"
  shows "\<exists>r e. run_timer (te_func ev) (ep_conf x) (ep_link x) (Some (ep_data x))
      ((ep_env x)\<lparr>rel_queue := remove1 ev (rel_queue (ep_env x))\<rparr>) = Inr (r, e) \<and> end_step x (x\<lparr>ep_data := r, ep_env := e\<rparr>)"
proof -
  let ?e = "(ep_env x)\<lparr>rel_queue := remove1 ev (rel_queue (ep_env x))\<rparr>"
  have conn: "CONNECTED_LINK (ep_data x)" using end_okD(4) [OF assms(1)] assms(2) by auto
  have "rel_loss ?e \<noteq> None" using end_okD(3) [OF assms(1)] by simp
  then obtain r e where R: "run_timer (te_func ev) (ep_conf x) (ep_link x) (Some (ep_data x)) ?e = Inr (r, e)"
    "op_ok (ep_conf x) (ep_msgs x) (ep_data x, ?e) (r, e)"
    using run_timer_ok [OF end_okD(1,5) [OF assms(1)]] conn by blast
  have "end_step x (x\<lparr>ep_data := r, ep_env := e, ep_msgs := ep_msgs x @ []\<rparr>)"
    by (rule op_end_step [OF assms(1)]) (use R(2) conn end_okD(6) [OF assms(1)] in \<open>auto simp: op_ok_def\<close>)
  with R(1) show ?thesis by simp
qed

lemma send_queue:
  assumes "Reliable_Send_Msg cf linkid b len pt (Some r0) e0 = Inr (r, e)" "\<not> CONNECTED_LINK r0"
  shows "rel_queue e = rel_queue e0"
  using assms by (auto simp: Reliable_Send_Msg_def Let_def split: if_splits)

lemma send_end_step:
  assumes "end_ok x" "length (ep_msgs x) + 1 < 2 ^ 32" "\<not> Is_link_ack pt"
  shows "\<exists>r e. Reliable_Send_Msg (ep_conf x) (ep_link x) b len pt (Some (ep_data x)) (ep_env x) = Inr (r, e) \<and>
    end_step x (x\<lparr>ep_data := r, ep_env := e, ep_msgs := ep_msgs x @ [b]\<rparr>)"
proof -
  let ?r = "ep_data x"
  obtain r e where S: "Reliable_Send_Msg (ep_conf x) (ep_link x) b len pt (Some ?r) (ep_env x) = Inr (r, e)"
    "op_ok (ep_conf x) (ep_msgs x @ [b]) (?r\<lparr>seq_no := seq_no ?r + 1\<rparr>, ep_env x) (r, e)"
    using Reliable_Send_Msg_ok [OF end_okD(1,5,6) [OF assms(1)] assms(2) end_okD(3) [OF assms(1)] assms(3)] by blast
  have "unat (seq_no ?r + 1) = unat (seq_no ?r) + 1"
    using end_okD(6) [OF assms(1)] assms(2) by (intro unat_Suc) simp
  then have seq: "unat (seq_no r) = length (ep_msgs x @ [b])"
    using S(2) end_okD(6) [OF assms(1)] by (simp add: op_ok_def)
  have queue: "CONNECTED_LINK r \<or> rel_queue e = []"
    using S end_okD(4) [OF assms(1)] send_queue [OF S(1)] by (auto simp: op_ok_def)
  have "end_step x (x\<lparr>ep_data := r, ep_env := e, ep_msgs := ep_msgs x @ [b]\<rparr>)"
    by (rule op_end_step [OF assms(1) S(2) _ _ _ _ seq queue]) (simp_all add: recv_same_def received_def)
  with S(1) show ?thesis by blast
qed

lemma local_step_ok:
  assumes "local_step x x'" "end_ok x"
  shows "end_step x x'"
  using assms(1)
proof cases
  case (send b len pt r e)
  then show ?thesis using send_end_step [OF assms(2), of pt b len] by auto
next
  case (timer ev r e)
  then show ?thesis using timer_end_step [OF assms(2), of ev] by auto
next
  case connect
  then show ?thesis using assms(2) by (simp add: end_step_def end_ok_def send_ok_def recv_ok_def received_def)
next
  case (measure_rtt t)
  then show ?thesis using assms(2) by (simp add: end_step_def end_ok_def send_ok_def recv_ok_def received_def)
next
  case (tick t m k b)
  then show ?thesis using assms(2) by (simp add: end_step_def end_ok_def)
qed

section \<open>A packet arrives\<close>

lemma Set_endian_bits:
  assumes "arch_ok cf"
  shows "Is_link_ack (Set_endian (rel_ARCH_ENDIAN cf) t) \<longleftrightarrow> Is_link_ack t"
    "Set_endian (rel_ARCH_ENDIAN cf) t AND ENDIAN_TYPE = rel_ARCH_ENDIAN cf"
    "Flip_int32 (rel_ARCH_ENDIAN cf) = rel_ARCH_ENDIAN cf"
proof -
  have a: "rel_ARCH_ENDIAN cf AND 0x7f = 0" "rel_ARCH_ENDIAN cf AND ENDIAN_TYPE = rel_ARCH_ENDIAN cf"
    using assms by (auto simp: arch_ok_def ENDIAN_TYPE_def)
  have "NOT ENDIAN_TYPE AND 0x7f = 0x7f" by (simp add: ENDIAN_TYPE_def)
  then show "Is_link_ack (Set_endian (rel_ARCH_ENDIAN cf) t) \<longleftrightarrow> Is_link_ack t"
    unfolding Set_endian_def Is_link_ack_OR(1) [OF a(1)] by (simp add: Is_link_ack_bits and.assoc)
  show "Set_endian (rel_ARCH_ENDIAN cf) t AND ENDIAN_TYPE = rel_ARCH_ENDIAN cf"
    by (simp add: Set_endian_def bit.conj_disj_distrib2 a and.assoc)
  show "Flip_int32 (rel_ARCH_ENDIAN cf) = rel_ARCH_ENDIAN cf"
    using assms by (auto simp: arch_ok_def Flip_int32_def)
qed

text \<open>A host of either byte order reads the type that was sent.\<close>

lemma read_type:
  assumes "arch_ok (ep_conf x)" "rp_type p = Set_endian (rel_ARCH_ENDIAN (ep_conf x)) t"
  shows "(if Same_endian (rel_ARCH_ENDIAN (ep_conf y)) (rp_type (read_packet x y p)) then rp_type (read_packet x y p)
    else Flip_int32 (rp_type (read_packet x y p))) = rp_type p"
proof -
  have e: "rp_type p AND ENDIAN_TYPE = rel_ARCH_ENDIAN (ep_conf x)" unfolding assms(2) by (rule Set_endian_bits(2) [OF assms(1)])
  then have "Flip_int32 (rp_type p) AND ENDIAN_TYPE = rel_ARCH_ENDIAN (ep_conf x)"
    by (simp add: Flip_int32_endian_bits Set_endian_bits(3) [OF assms(1)])
  with e show ?thesis by (auto simp: read_packet_def Same_endian_def)
qed

definition taken :: "'b rel_packet \<Rightarrow> 'b endpoint \<Rightarrow> 'b option \<times> 'b Reliable_Data option \<times> 'b rel_env \<Rightarrow> bool" where
  "taken q y res \<longleftrightarrow> res = (None, Some (ep_data y), ep_env y) \<or>
     (\<exists>ret r1 e1 r e. res = (if ret = 1 then rp_data q else None, Some r, e) \<and> CONNECTED_LINK (ep_data y) \<and>
        ack_result (ep_msgs y) (fst ` set (ep_got y)) q (ep_data y, ep_env y) (ret, r1, e1) \<and>
        send_same r1 r \<and> recv_same r1 r \<and> rel_sent e = rel_sent e1 \<and> rel_loss e = rel_loss e1)"

lemma process_link_packet_taken:
  assumes PA: "\<And>linkid. \<exists>out. Process_Ack (ep_conf y) linkid q (Some (ep_data y)) (ep_env y) = Inr out \<and>
      ack_result (ep_msgs y) (fst ` set (ep_got y)) q (ep_data y, ep_env y) out"
    and ty: "ty = (if Same_endian (rel_ARCH_ENDIAN (ep_conf y)) (rp_type q) then rp_type q else Flip_int32 (rp_type q))"
      "Is_link_ack ty \<longleftrightarrow> rp_data q = None"
  shows "\<exists>res. process_link_packet control (ep_conf y) linkid n len1 q (Some (ep_data y)) (ep_env y) = Inr res \<and> taken q y res"
proof -
  obtain ret r1 e1 where P: "Process_Ack (ep_conf y) linkid q (Some (ep_data y)) (ep_env y) = Inr (ret, r1, e1)"
    "ack_result (ep_msgs y) (fst ` set (ep_got y)) q (ep_data y, ep_env y) (ret, r1, e1)"
    using PA [of linkid] by auto
  have ret: "ret = - 1 \<or> ret = 0 \<or> ret = 1" using P(2) by (auto simp: ack_result_def split: if_splits)
  have T: "taken q y (if ret = 1 then rp_data q else None, Some r, e)"
    if "CONNECTED_LINK (ep_data y)" "send_same r1 r" "recv_same r1 r" "rel_sent e = rel_sent e1" "rel_loss e = rel_loss e1" for r e
    using P(2) that unfolding taken_def by blast
  have N: "taken q y (None, Some r1, e1)" if "CONNECTED_LINK (ep_data y)" "rp_data q = None"
    using T [OF that(1), of r1 e1, unfolded that(2)] by simp
  have I: "taken q y (None, Some (ep_data y), ep_env y)" by (simp add: taken_def)
  have state: "\<exists>res. state_packet_link (ep_conf y) linkid q (Some (ep_data y)) (ep_env y) = Inr res \<and> taken q y res"
    using P(1) ret T [of r1 e1] T [of "r1\<lparr>scheduled_ack := True\<rparr>" "rel_E_queue Send_Ack_fn linkid state_ack_wait e1"] I
    by (auto simp: state_packet_link_def Let_def send_same_def recv_same_def received_def)
  have udp: "\<exists>res. Process_rel_udp_data_packet (ep_conf y) linkid n len1 q (Some (ep_data y)) (ep_env y) = Inr res \<and> taken q y res"
    using P(1) ret T [of r1 e1] T [of r1 "rel_E_queue Send_Ack_fn linkid zero_wait e1"]
      T [of "r1\<lparr>scheduled_ack := True\<rparr>" "rel_E_queue Send_Ack_fn linkid udp_ack_wait e1"] I
    by (auto simp: Process_rel_udp_data_packet_def Let_def send_same_def recv_same_def received_def)
  have ack: "\<exists>res. bind_res (Process_ack_packet (ep_conf y) linkid n q (Some (ep_data y)) (ep_env y)) (\<lambda>(lk1, e1). Inr (None, lk1, e1))
      = Inr res \<and> taken q y res" if "Is_link_ack ty"
    using P(1) N I that ty(2) by (auto simp: Process_ack_packet_def)
  show ?thesis
    unfolding process_link_packet_def Let_def ty(1) [symmetric] using state udp ack I by (simp split: if_split)
qed

lemma read_packet_simps [simp]:
  "rp_data (read_packet x y p) = rp_data p" "rp_seq_no (read_packet x y p) = rp_seq_no p"
  "rp_cummulative_ack (read_packet x y p) = rp_cummulative_ack p"
  by (simp_all add: read_packet_def)

lemma link_okD:
  assumes "link_ok (x, y)"
  shows "end_ok x" "end_ok y" "dir_ok x y" "dir_ok y x" "link_ok (y, x)"
  using assms by (simp_all add: link_ok_def)

text \<open>The packets of \<open>x\<close>, seen from \<open>y\<close>.\<close>

lemma packet_facts:
  assumes L: "link_ok (x, y)" and p: "p \<in> set (rel_sent (ep_env x))"
  defines "ty \<equiv> rp_type p"
  shows "unat (rp_cummulative_ack p) \<le> unat (recv_tail (ep_data x))" "unat (rp_cummulative_ack p) \<le> unat (head (ep_data y))"
    "Is_link_ack ty \<longleftrightarrow> rp_data p = None"
    "rp_data p \<noteq> None \<Longrightarrow> unat (rp_seq_no p) < unat (recv_tail (ep_data y)) + 20000 \<and> unat (rp_seq_no p) + 1 < 2 ^ 32"
    "rp_data p = Some b \<Longrightarrow> unat (rp_seq_no p) < unat (head (ep_data x)) \<and> unat (rp_seq_no p) < length (ep_msgs x) \<and> b = ep_msgs x ! unat (rp_seq_no p)"
    "(if Same_endian (rel_ARCH_ENDIAN (ep_conf y)) (rp_type (read_packet x y p)) then rp_type (read_packet x y p)
      else Flip_int32 (rp_type (read_packet x y p))) = ty"
proof -
  note x = link_okD(1) [OF L]
  have P: "pkt_ok (ep_conf x) (ep_msgs x) (unat (head (ep_data x))) (unat (recv_tail (ep_data x))) p"
    by (rule end_okD(9) [OF x p])
  then show a: "unat (rp_cummulative_ack p) \<le> unat (recv_tail (ep_data x))" by (simp add: pkt_ok_def)
  have "unat (recv_tail (ep_data x)) \<le> unat (recv_head (ep_data x))" by (rule recv_okD(1) [OF end_okD(7) [OF x]])
  also have "\<dots> \<le> unat (head (ep_data y))" using link_okD(4) [OF L] by (simp add: dir_ok_def)
  finally show "unat (rp_cummulative_ack p) \<le> unat (head (ep_data y))" using a by simp
  obtain t where t: "rp_type p = Set_endian (rel_ARCH_ENDIAN (ep_conf x)) t" and d: "case rp_data p of None \<Rightarrow> t = LINK_ACK_TYPE
      | Some b \<Rightarrow> \<not> Is_link_ack t \<and> unat (rp_seq_no p) < unat (head (ep_data x)) \<and> b = ep_msgs x ! unat (rp_seq_no p)"
    using P by (auto simp: pkt_ok_def)
  have "Is_link_ack LINK_ACK_TYPE" by (simp add: message_type_defs)
  then show "Is_link_ack ty \<longleftrightarrow> rp_data p = None"
    using d by (auto simp: ty_def t Set_endian_bits(1) [OF end_okD(2) [OF x]] split: option.splits)
  note S = send_okD(1-4) [OF end_okD(5) [OF x]]
  show "rp_data p = Some b \<Longrightarrow> unat (rp_seq_no p) < unat (head (ep_data x)) \<and> unat (rp_seq_no p) < length (ep_msgs x) \<and> b = ep_msgs x ! unat (rp_seq_no p)"
    using d S by simp
  show "rp_data p \<noteq> None \<Longrightarrow> unat (rp_seq_no p) < unat (recv_tail (ep_data y)) + 20000 \<and> unat (rp_seq_no p) + 1 < 2 ^ 32"
    using d S link_okD(3) [OF L] by (auto simp: dir_ok_def)
  show "(if Same_endian (rel_ARCH_ENDIAN (ep_conf y)) (rp_type (read_packet x y p)) then rp_type (read_packet x y p)
      else Flip_int32 (rp_type (read_packet x y p))) = ty"
    unfolding ty_def by (rule read_type [OF end_okD(2) [OF x] t])
qed

lemma packet_taken:
  assumes "link_ok (x, y)" "p \<in> set (rel_sent (ep_env x))"
  shows "\<exists>res. process_link_packet control (ep_conf y) linkid n len1 (read_packet x y p) (Some (ep_data y)) (ep_env y) = Inr res \<and>
    taken (read_packet x y p) y res"
proof (rule process_link_packet_taken [OF _ refl])
  note F = packet_facts [OF assms] and y = link_okD(2) [OF assms(1)]
  show "Is_link_ack (if Same_endian (rel_ARCH_ENDIAN (ep_conf y)) (rp_type (read_packet x y p)) then rp_type (read_packet x y p)
      else Flip_int32 (rp_type (read_packet x y p))) = (rp_data (read_packet x y p) = None)"
    unfolding F(6) using F(3) by simp
  show "\<exists>out. Process_Ack (ep_conf y) linkid (read_packet x y p) (Some (ep_data y)) (ep_env y) = Inr out \<and>
    ack_result (ep_msgs y) (fst ` set (ep_got y)) (read_packet x y p) (ep_data y, ep_env y) out" for linkid
    by (rule Process_Ack_ok [OF end_okD(1,5,7) [OF y]], unfold F(6)) (use F(2,3,4) in simp_all)
qed

lemma taken_end_ok:
  assumes L: "link_ok (x, y)" and p: "p \<in> set (rel_sent (ep_env x))" and T: "taken (read_packet x y p) y (out, Some r, e)"
  shows "link_ok (x, deliver p out (y\<lparr>ep_data := r, ep_env := e\<rparr>))"
proof (cases "(out, Some r, e) = (None, Some (ep_data y), ep_env y)")
  case True
  then have "deliver p out (y\<lparr>ep_data := r, ep_env := e\<rparr>) = y" by (simp add: deliver_def)
  with L show ?thesis by simp
next
  case False
  note F = packet_facts [OF L p] and x = link_okD(1) [OF L] and y = link_okD(2) [OF L]
  note dxy = link_okD(3) [OF L, unfolded dir_ok_def] and dyx = link_okD(4) [OF L, unfolded dir_ok_def]
  let ?y = "ep_data y" and ?got = "fst ` set (ep_got y)" and ?s = "unat (rp_seq_no p)"
  obtain ret r1 e1 where out: "out = (if ret = 1 then rp_data p else None)" and conn: "CONNECTED_LINK ?y"
    and A: "ack_result (ep_msgs y) ?got (read_packet x y p) (?y, ep_env y) (ret, r1, e1)"
    and same: "send_same r1 r" "recv_same r1 r" "rel_sent e = rel_sent e1" "rel_loss e = rel_loss e1"
    using T False unfolding taken_def read_packet_simps prod.inject option.inject by metis
  note A' = A [unfolded ack_result_def prod.case read_packet_simps]
  have send: "send_ok (ep_msgs y) r" using A' send_ok_same [OF same(1)] by blast
  have f: "head r = head ?y" "unat (tail r) = max (unat (tail ?y)) (unat (rp_cummulative_ack p))" "seq_no r = seq_no ?y" "CONNECTED_LINK r"
    "rel_sent e = rel_sent (ep_env y)" "rel_loss e = rel_loss (ep_env y)" "unat (recv_tail ?y) \<le> unat (recv_tail r)"
    using A' same conn by (simp_all add: send_same_def recv_same_def)
  have pk: "\<forall>q \<in> set (rel_sent e). pkt_ok (ep_conf y) (ep_msgs y) (unat (head r)) (unat (recv_tail r)) q"
    using end_okD(9) [OF y] f pkt_ok_mono by (metis order_refl)
  have acks: "unat (tail r) \<le> unat (recv_tail (ep_data x))" using f(2) F(1) dyx by simp
  have hd: "recv_head r = recv_head r1" using same(2) by (simp add: recv_same_def)
  let ?y' = "deliver p out (y\<lparr>ep_data := r, ep_env := e\<rparr>)"
  have d: "ep_data ?y' = r" "ep_env ?y' = e" "ep_conf ?y' = ep_conf y" "ep_msgs ?y' = ep_msgs y"
    by (auto simp: deliver_def split: option.split)
  have key: "recv_ok (fst ` set (ep_got ?y')) r \<and> distinct (map fst (ep_got ?y')) \<and> unat (recv_head r) \<le> unat (head (ep_data x)) \<and>
    (\<forall>(s, b) \<in> set (ep_got ?y'). s < length (ep_msgs x) \<and> b = ep_msgs x ! s)"
  proof (cases "rp_data p \<noteq> None \<and> ?s \<notin> ?got")
    case True
    then obtain b where b: "rp_data p = Some b" by blast
    have R: "ret = 1" "recv_ok (insert ?s ?got) r1" "unat (recv_head r1) = max (unat (recv_head ?y)) (?s + 1)"
      using A' True by simp_all
    have got: "ep_got ?y' = ep_got y @ [(?s, b)]" by (simp add: deliver_def out R(1) b)
    have "recv_ok (fst ` set (ep_got ?y')) r" unfolding got using recv_ok_same [OF same(2) R(2)] by simp
    moreover have "unat (recv_head r) \<le> unat (head (ep_data x))" using R(3) F(5) [OF b] dxy unfolding hd by simp
    ultimately show ?thesis using True end_okD(8) [OF y] dxy F(5) [OF b] unfolding got by (auto simp: image_iff)
  next
    case False
    then have R: "ret \<noteq> 1" "recv_ok ?got r1" "recv_head r1 = recv_head ?y" using A' by (auto split: if_splits)
    then have "ep_got ?y' = ep_got y" by (simp add: deliver_def out)
    then show ?thesis using recv_ok_same [OF same(2) R(2)] end_okD(8) [OF y] dxy R(3) hd by simp
  qed
  have "end_ok ?y'" unfolding end_ok_def d using key send pk f end_okD [OF y] by simp
  moreover have "dir_ok x ?y'" "dir_ok ?y' x" unfolding dir_ok_def d using key acks f dxy dyx by auto
  ultimately show ?thesis using x by (simp add: link_ok_def)
qed

lemma receive_step_ok: "receive_step x y y' \<Longrightarrow> link_ok (x, y) \<Longrightarrow> link_ok (x, y')"
proof (elim receive_stepE)
  fix p n len1 out r e
  assume A: "link_ok (x, y)" "p \<in> set (rel_sent (ep_env x))" "y' = deliver p out (y\<lparr>ep_data := r, ep_env := e\<rparr>)"
    "process_link_packet (ep_control y) (ep_conf y) (ep_link y) n len1 (read_packet x y p) (Some (ep_data y)) (ep_env y) = Inr (out, Some r, e)"
  have "taken (read_packet x y p) y (out, Some r, e)"
    using packet_taken [OF A(1,2), of "ep_control y" "ep_link y" n len1] A(4) by auto
  then show ?thesis unfolding A(3) by (rule taken_end_ok [OF A(1,2)])
qed

lemma link_step_ok:
  assumes "link_step s s'" "link_ok s"
  shows "link_ok s'"
proof -
  have loc: "link_ok (x', y)" if "local_step x x'" "link_ok (x, y)" for x x' y
    using local_step_ok [OF that(1) link_okD(1) [OF that(2)]] end_step_dir [OF _ link_okD(3,4) [OF that(2)]] that(2)
    by (auto simp: link_ok_def end_step_def)
  from assms show ?thesis
    by cases (auto intro: loc receive_step_ok link_okD(5) dest: loc [OF _ link_okD(5)] receive_step_ok [OF _ link_okD(5)])
qed

lemma link_reachable_ok: "link_reachable s \<Longrightarrow> link_ok s"
proof (unfold link_reachable_def, elim exE conjE)
  fix x y assume A: "fresh x" "fresh y" "link_step\<^sup>*\<^sup>* (x, y) s"
  from A(3) show "link_ok s" by (induction rule: rtranclp_induct) (auto intro: link_step_ok fresh_link_ok A(1,2))
qed

end
