(* ===== verification/Reliable_Delivery.thy ===== *)
theory Reliable_Delivery
  imports Reliable_System
begin

text \<open>
  What a reliable link promises: it refines a channel that hands every message on at most once, what
  the sender has forgotten has been handed on, and no handler of either end fails.
\<close>

section \<open>The channel\<close>

text \<open>One direction of a link, as its users see it: the messages given to it, and those handed on with
  their positions. The order of handing on is not the order of sending.\<close>

inductive channel_step :: "'b list \<times> (nat \<times> 'b) list \<Rightarrow> 'b list \<times> (nat \<times> 'b) list \<Rightarrow> bool" where
  submit: "channel_step (ms, g) (ms @ [b], g)"
| hand_on: "i < length ms \<Longrightarrow> i \<notin> fst ` set g \<Longrightarrow> channel_step (ms, g) (ms, g @ [(i, ms ! i)])"

inductive_simps channel_step_simps: "channel_step (ms, g) (ms', g')"

definition channel :: "'b endpoint \<Rightarrow> 'b endpoint \<Rightarrow> 'b list \<times> (nat \<times> 'b) list" where
  "channel x y = (ep_msgs x, ep_got y)"

lemma local_step_msgs: "local_step x x' \<Longrightarrow> (ep_msgs x' = ep_msgs x \<or> (\<exists>b. ep_msgs x' = ep_msgs x @ [b])) \<and> ep_got x' = ep_got x"
  by (induction rule: local_step.induct) auto

lemma receive_step_got:
  "receive_step x y y' \<Longrightarrow> ep_msgs y' = ep_msgs y \<and> (ep_got y' = ep_got y \<or> (\<exists>i b. ep_got y' = ep_got y @ [(i, b)]))"
  by (induction rule: receive_step.induct) (auto simp: deliver_def split: option.split)

lemma local_step_channel:
  assumes "local_step x x'"
  shows "channel_step\<^sup>=\<^sup>= (channel x y) (channel x' y) \<and> channel y x' = channel y x"
  using local_step_msgs [OF assms] by (auto simp: channel_def channel_step_simps)

lemma receive_step_channel:
  assumes "receive_step x y y'" "link_ok (x, y')"
  shows "channel_step\<^sup>=\<^sup>= (channel x y) (channel x y') \<and> channel y' x = channel y x"
proof -
  have ok: "distinct (map fst (ep_got y'))" "\<forall>(s, b) \<in> set (ep_got y'). s < length (ep_msgs x) \<and> b = ep_msgs x ! s"
    using link_okD(2,3) [OF assms(2)] by (auto simp: end_ok_def dir_ok_def)
  show ?thesis using receive_step_got [OF assms(1)]
  proof (elim conjE disjE exE)
    fix i b assume "ep_msgs y' = ep_msgs y" "ep_got y' = ep_got y @ [(i, b)]"
    then show ?thesis using ok by (auto simp: channel_def channel_step_simps)
  qed (simp add: channel_def)
qed

section \<open>Retransmission\<close>

lemma transmit_sends:
  assumes "transmit cf either True type data dl sq r e = Inr (r', e')" "network_flag cf"
  shows "\<exists>p. rel_sent e' = rel_sent e @ [p] \<and> rp_data p = data \<and> rp_seq_no p = sq" "window r' = window r"
proof -
  obtain r1 ns where n: "add_nacks cf either (rel_time e) (unat dl) r = (r1, ns)" by (metis surj_pair)
  then have "send_same r r1" unfolding add_nacks_def using nack_loop_same by blast
  with assms n show "\<exists>p. rel_sent e' = rel_sent e @ [p] \<and> rp_data p = data \<and> rp_seq_no p = sq" "window r' = window r"
    by (auto simp: transmit_def link_out_def Set_Loss_SeqNo_def send_same_def Let_def split: option.splits if_splits)
qed

lemma resend_sends:
  assumes "resend cf either sq r e = Inr (r', e')" "network_flag cf"
  defines "c \<equiv> window r (sq mod MAX_WINDOW)"
  shows "\<exists>p. rel_sent e' = rel_sent e @ [p] \<and> rp_data p = bc_buff c \<and> rp_seq_no p = bc_seq_no c"
    "window r' = (window r)(sq mod MAX_WINDOW := c\<lparr>bc_resent := True\<rparr>)"
  using transmit_sends [OF _ assms(2)] assms(1) unfolding resend_def Let_def c_def [symmetric] by fastforce+

lemma resend_window_Suc:
  assumes "resend_window cf (Suc n) cur r e = Inr (r', e')"
  obtains r1 e1 where "resend cf True cur r e = Inr (r1, e1)" "resend_window cf n (cur + 1) r1 e1 = Inr (r', e')"
  using assms by (auto split: if_splits)

lemma resend_window_appends:
  "resend_window cf n cur r e = Inr (r', e') \<Longrightarrow> network_flag cf \<Longrightarrow> \<exists>ps. rel_sent e' = rel_sent e @ ps"
proof (induction n arbitrary: cur r e)
  case (Suc n)
  then obtain r1 e1 where R: "resend cf True cur r e = Inr (r1, e1)" "resend_window cf n (cur + 1) r1 e1 = Inr (r', e')"
    by (blast elim: resend_window_Suc)
  then show ?case using Suc.IH [OF R(2) Suc.prems(2)] resend_sends(1) [OF R(1) Suc.prems(2)] by auto
qed simp

lemma resend_window_sends:
  assumes "resend_window cf n cur r e = Inr (r', e')" "network_flag cf" "i < n"
  defines "c \<equiv> window r ((cur + num i) mod MAX_WINDOW)"
  shows "\<exists>ps qs p. rel_sent e' = rel_sent e @ ps @ [p] @ qs \<and> rp_data p = bc_buff c \<and> rp_seq_no p = bc_seq_no c"
  using assms(1,3) unfolding c_def
proof (induction n arbitrary: cur r e i)
  case (Suc n)
  obtain r1 e1 where R: "resend cf True cur r e = Inr (r1, e1)" "resend_window cf n (cur + 1) r1 e1 = Inr (r', e')"
    by (rule resend_window_Suc [OF Suc.prems(1)])
  obtain p where p: "rel_sent e1 = rel_sent e @ [p]" "rp_data p = bc_buff (window r (cur mod MAX_WINDOW))"
      "rp_seq_no p = bc_seq_no (window r (cur mod MAX_WINDOW))" using resend_sends(1) [OF R(1) assms(2)] by blast
  note w = resend_sends(2) [OF R(1) assms(2)]
  show ?case
  proof (cases i)
    case 0
    obtain qs where "rel_sent e' = rel_sent e1 @ qs" using resend_window_appends [OF R(2) assms(2)] by blast
    then have a: "rel_sent e' = rel_sent e @ [] @ [p] @ qs" using p(1) by simp
    have x: "cur + num i = cur" by (simp add: 0)
    show ?thesis unfolding x using a p(2,3) by blast
  next
    case (Suc j)
    let ?x = "(cur + 1 + num j) mod MAX_WINDOW"
    obtain ps qs q where q: "rel_sent e' = rel_sent e1 @ ps @ [q] @ qs" "rp_data q = bc_buff (window r1 ?x)" "rp_seq_no q = bc_seq_no (window r1 ?x)"
      using Suc.IH [OF R(2)] Suc.prems(2) Suc by blast
    have x: "(cur + num i) mod MAX_WINDOW = ?x" by (simp add: Suc add.assoc)
    have "rp_data q = bc_buff (window r ?x)" "rp_seq_no q = bc_seq_no (window r ?x)" using q(2,3) by (simp_all add: w)
    moreover have "rel_sent e' = rel_sent e @ ([p] @ ps) @ [q] @ qs" using p(1) q(1) by simp
    ultimately show ?thesis unfolding x by blast
  qed
qed simp

lemma Reliable_timeout_resends:
  assumes ok: "send_ok msgs r" and conf: "network_flag cf"
    and R: "Reliable_timeout cf linkid (Some r) e = Inr (r', e')" and s: "unat (tail r) \<le> s" "s < unat (head r)"
  shows "\<exists>p \<in> set (drop (length (rel_sent e)) (rel_sent e')). rp_data p = Some (msgs ! s) \<and> rp_seq_no p = num s"
proof -
  have ne: "head r \<noteq> tail r" using s by auto
  obtain r2 e2 r3 e3 where W: "resend_window cf (unat (head r) - unat (tail r)) (tail r) r2 e2 = Inr (r3, e3)"
    "window r2 = window r" "rel_sent e2 = rel_sent e" "rel_sent e' = rel_sent e3"
    using R ne window_count [OF send_okD(2) [OF ok]]
    by (fastforce simp: Reliable_timeout_def Let_def cancel_ack_def set_ssthresh_def split: if_splits prod.splits)
  have t: "tail r + num (s - unat (tail r)) = num s"
    using s(1) by (metis le_add_diff_inverse num_unat of_nat_add)
  have "s - unat (tail r) < unat (head r) - unat (tail r)" using s by simp
  from resend_window_sends [OF W(1) conf this, unfolded t W(2)] obtain ps qs p where
    "rel_sent e3 = rel_sent e2 @ ps @ [p] @ qs" "rp_data p = bc_buff (window r (num s mod MAX_WINDOW))"
    "rp_seq_no p = bc_seq_no (window r (num s mod MAX_WINDOW))" by blast
  then show ?thesis using W(3,4) send_okD(7,8) [OF ok s] by (auto simp: slot_def)
qed

section \<open>A link at work\<close>

text \<open>Two new ends with a round trip time of zero, connected; the first sends the number \<open>7\<close>.\<close>

definition link_conf :: "nat rel_conf" where
  "link_conf = \<lparr>rel_ARCH_ENDIAN = 0x80000080, rel_Wireless = False, Stream_Fairness = False, TCP_Fairness = True, Fast_Retransmit = False,
     network_flag = True, Minimum_Window = 1, fl = id, rtt_mix = (\<lambda>e r. c_div (sint e + 4 * r) 5), stream_key = (\<lambda>b. (0, 0, 0, 0))\<rparr>"

definition link_env :: "nat rel_env" where
  "link_env = \<lparr>rel_time = \<lparr>sec = 1, usec = 0\<rparr>, rel_monotonic = \<lparr>sec = 1, usec = 0\<rparr>, rel_rand = 0, rel_queue = [], rel_link_type = RELIABLE_UDP_LINK,
     rel_loss = Some \<lparr>recvd_seqs = (\<lambda>_. 0), my_seqs = (\<lambda>_. 0), loss_rate = 0\<rparr>, Link_Sessions_Blocked_On = - 1, rel_calls = [], rel_sent = []\<rparr>"

definition link_end :: "nat endpoint" where
  "link_end = \<lparr>ep_control = False, ep_conf = link_conf, ep_link = 3, ep_data = new_Reliable_Data link_conf, ep_env = link_env,
     ep_msgs = [], ep_got = []\<rparr>"

lemma link_end_fresh: "fresh link_end"
  by (simp add: fresh_def link_end_def link_env_def link_conf_def conf_ok_def arch_ok_def)

definition link_up :: "nat endpoint" where
  "link_up = link_end\<lparr>ep_data := (ep_data link_end)\<lparr>CONNECTED_LINK := True\<rparr>\<rparr>"

definition link_sent :: "nat endpoint" where
  "link_sent = (case Reliable_Send_Msg link_conf 3 7 100 REL_UDP_DATA_TYPE (Some (ep_data link_up)) link_env of
     Inr (r, e) \<Rightarrow> link_up\<lparr>ep_data := r, ep_env := e, ep_msgs := [7]\<rparr>)"

definition link_got :: "nat endpoint" where
  "link_got = (case process_link_packet False link_conf 3 2 100 (hd (rel_sent (ep_env link_sent))) (Some (ep_data link_up)) link_env of
     Inr (out, Some r, e) \<Rightarrow> deliver (hd (rel_sent (ep_env link_sent))) out (link_up\<lparr>ep_data := r, ep_env := e\<rparr>))"

text \<open>The other end acknowledges when its timer runs.\<close>

definition run_first :: "nat endpoint \<Rightarrow> nat endpoint" where
  "run_first x = (case rel_queue (ep_env x) of
      [] \<Rightarrow> x
    | ev # evs \<Rightarrow> (case run_timer (te_func ev) link_conf 3 (Some (ep_data x)) ((ep_env x)\<lparr>rel_queue := evs\<rparr>) of
          Inr (r, e) \<Rightarrow> x\<lparr>ep_data := r, ep_env := e\<rparr>))"

definition link_acked :: "nat endpoint" where
  "link_acked = (case process_link_packet False link_conf 3 2 100 (hd (rel_sent (ep_env (run_first link_got)))) (Some (ep_data link_sent))
      (ep_env link_sent) of
     Inr (out, Some r, e) \<Rightarrow> deliver (hd (rel_sent (ep_env (run_first link_got)))) out (link_sent\<lparr>ep_data := r, ep_env := e\<rparr>))"

lemma link_fields:
  "ep_conf link_up = link_conf" "ep_link link_up = 3" "ep_env link_up = link_env" "ep_msgs link_up = []" "ep_control link_up = False"
  by (simp_all add: link_up_def link_end_def)

lemma link_reachable_step: "link_reachable s \<Longrightarrow> link_step s s' \<Longrightarrow> link_reachable s'"
  unfolding link_reachable_def by (meson rtranclp.rtrancl_into_rtrancl)

lemma link_up_reachable: "link_reachable (link_up, link_up)"
proof -
  have s: "local_step link_end link_up" unfolding link_up_def by (rule connect)
  have "link_reachable (link_end, link_end)" unfolding link_reachable_def using link_end_fresh by blast
  from link_reachable_step [OF this here [OF s]] show ?thesis by (rule link_reachable_step [OF _ there [OF s]])
qed

lemma link_sent_step: "local_step link_up link_sent"
proof -
  have ok: "end_ok link_up" by (rule link_okD(1) [OF link_reachable_ok [OF link_up_reachable]])
  have A: "length (ep_msgs link_up) + 1 < 2 ^ 32" "\<not> Is_link_ack REL_UDP_DATA_TYPE" by (simp_all add: link_fields message_type_defs)
  from send_end_step [OF ok this, of 7 100] obtain r e where S: "Reliable_Send_Msg (ep_conf link_up) (ep_link link_up) 7 100 REL_UDP_DATA_TYPE
      (Some (ep_data link_up)) (ep_env link_up) = Inr (r, e)" by (elim exE conjE)
  from local_step.send [OF this A] show ?thesis
    using S by (simp add: link_sent_def link_fields)
qed

lemma link_sent_packet: "rel_sent (ep_env link_sent) = [\<lparr>rp_type = 0xC0000083, rp_loss_seq = 1, rp_data = Some 7, rp_data_len = 100,
    rp_seq_no = 0, rp_cummulative_ack = 0, rp_nacks = []\<rparr>]"
  by code_simp

lemma link_sent_reachable: "link_reachable (link_sent, link_up)"
  by (rule link_reachable_step [OF link_up_reachable here [OF link_sent_step]])

lemma received_deliver:
  assumes "link_ok (x, y)" "p \<in> set (rel_sent (ep_env x))" "ep_conf x = ep_conf y"
  shows "receive_step x y (case process_link_packet (ep_control y) (ep_conf y) (ep_link y) n len1 p (Some (ep_data y)) (ep_env y) of
     Inr (out, Some r, e) \<Rightarrow> deliver p out (y\<lparr>ep_data := r, ep_env := e\<rparr>))"
proof -
  have q: "read_packet x y p = p" by (simp add: read_packet_def assms(3))
  obtain out lk e where P: "process_link_packet (ep_control y) (ep_conf y) (ep_link y) n len1 p (Some (ep_data y)) (ep_env y) = Inr (out, lk, e)"
    "taken p y (out, lk, e)" using packet_taken [OF assms(1,2)] unfolding q by fastforce
  obtain r where "lk = Some r" using P(2) by (auto simp: taken_def)
  with P(1) receive_step.receive [OF assms(2), of y n len1 out r e] show ?thesis by (simp add: q)
qed

lemma run_first_step:
  assumes "end_ok x" "ep_conf x = link_conf" "ep_link x = 3" "rel_queue (ep_env x) \<noteq> []"
  shows "local_step x (run_first x)"
proof -
  obtain ev evs where q: "rel_queue (ep_env x) = ev # evs" using assms(4) by (cases "rel_queue (ep_env x)") auto
  then have "ev \<in> set (rel_queue (ep_env x))" by simp
  with timer_end_step [OF assms(1)] obtain r e where R: "run_timer (te_func ev) (ep_conf x) (ep_link x) (Some (ep_data x))
      ((ep_env x)\<lparr>rel_queue := remove1 ev (rel_queue (ep_env x))\<rparr>) = Inr (r, e)" by metis
  from local_step.timer [OF _ this] show ?thesis using R by (simp add: run_first_def q assms(2,3))
qed

lemma step_fields:
  "local_step x x' \<Longrightarrow> ep_conf x' = ep_conf x \<and> ep_link x' = ep_link x \<and> ep_control x' = ep_control x"
  "receive_step z x x' \<Longrightarrow> ep_conf x' = ep_conf x \<and> ep_link x' = ep_link x \<and> ep_control x' = ep_control x"
  by (auto elim!: local_stepE receive_stepE simp: deliver_def split: option.splits)

lemma link_sent_fields: "ep_conf link_sent = link_conf" "ep_link link_sent = 3" "ep_control link_sent = False"
  using step_fields(1) [OF link_sent_step] by (simp_all add: link_fields)

lemma link_got_step: "receive_step link_sent link_up link_got"
proof -
  have "hd (rel_sent (ep_env link_sent)) \<in> set (rel_sent (ep_env link_sent))" by (simp add: link_sent_packet)
  from received_deliver [OF link_reachable_ok [OF link_sent_reachable] this, of 2 100]
  show ?thesis by (simp add: link_got_def link_fields link_sent_fields)
qed

lemma link_got_reachable: "link_reachable (link_sent, link_got)"
  by (rule link_reachable_step [OF link_sent_reachable to_there [OF link_got_step]])

lemma link_got_ok: "link_ok (link_sent, link_got)"
  by (rule link_reachable_ok [OF link_got_reachable])

lemma link_got_fields: "ep_conf link_got = link_conf" "ep_link link_got = 3" "rel_queue (ep_env link_got) \<noteq> []"
proof -
  show "ep_conf link_got = link_conf" "ep_link link_got = 3" using step_fields(2) [OF link_got_step] by (simp_all add: link_fields)
  have "length (rel_queue (ep_env link_got)) = 1" by code_simp
  then show "rel_queue (ep_env link_got) \<noteq> []" by auto
qed

lemma link_answer_step: "local_step link_got (run_first link_got)"
  by (rule run_first_step [OF link_okD(2) [OF link_got_ok] link_got_fields])

lemma link_answer_reachable: "link_reachable (link_sent, run_first link_got)"
  by (rule link_reachable_step [OF link_got_reachable there [OF link_answer_step]])

lemma link_acked_step: "receive_step (run_first link_got) link_sent link_acked"
proof -
  have "length (rel_sent (ep_env (run_first link_got))) = 1" by code_simp
  then have "hd (rel_sent (ep_env (run_first link_got))) \<in> set (rel_sent (ep_env (run_first link_got)))"
    by (intro hd_in_set) auto
  from received_deliver [OF link_okD(5) [OF link_reachable_ok [OF link_answer_reachable]] this, of 2 100]
  show ?thesis using step_fields(1) [OF link_answer_step] by (simp add: link_acked_def link_got_fields link_sent_fields)
qed

lemma link_acked_reachable: "link_reachable (link_acked, run_first link_got)"
  by (rule link_reachable_step [OF link_answer_reachable to_here [OF link_acked_step]])

section \<open>What the link promises\<close>

text \<open>C15: every step of a reachable link is, in each direction, a step of the channel or no step of
  it: the link hands a message on at most once, as it was given, and whatever the network does with the
  packets (loss, duplication, reordering).\<close>

theorem reliable_link_refines_channel:
  assumes "link_reachable (x, y)" "link_step (x, y) (x', y')"
  shows "channel_step\<^sup>=\<^sup>= (channel x y) (channel x' y') \<and> channel_step\<^sup>=\<^sup>= (channel y x) (channel y' x')"
proof -
  have ok: "link_ok (x, y)" "link_ok (x', y')" using link_reachable_ok assms link_reachable_step by blast+
  from assms(2) show ?thesis
  proof cases
    case here
    then show ?thesis using local_step_channel [of x x' y] by simp
  next
    case there
    then show ?thesis using local_step_channel [of y y' x] by simp
  next
    case to_there
    then show ?thesis using receive_step_channel [of x y y'] ok(2) by simp
  next
    case to_here
    then show ?thesis using receive_step_channel [of y x x'] link_okD(5) [OF ok(2)] by simp
  qed
qed

theorem reliable_link_refines_channel_witness:
  "channel_step\<^sup>=\<^sup>= (channel link_sent link_up) (channel link_sent link_got) \<and> channel link_sent link_got = ([7], [(0, 7)])"
proof
  show "channel_step\<^sup>=\<^sup>= (channel link_sent link_up) (channel link_sent link_got)"
    using reliable_link_refines_channel [OF link_sent_reachable to_there [OF link_got_step]] by blast
  show "channel link_sent link_got = ([7], [(0, 7)])" by code_simp
qed

text \<open>C16: a message that has left the sending window of one end has been handed on at the other end,
  so that the sender forgets nothing that has not arrived.\<close>

theorem reliable_acknowledged_delivered:
  assumes "link_reachable (x, y)" "s < unat (tail (ep_data x))"
  shows "(s, ep_msgs x ! s) \<in> set (ep_got y)"
proof -
  note L = link_reachable_ok [OF assms(1)]
  have "s < unat (recv_tail (ep_data y))" using assms(2) link_okD(3) [OF L] by (simp add: dir_ok_def)
  then have "s \<in> fst ` set (ep_got y)" by (simp add: recv_okD(3) [OF end_okD(7) [OF link_okD(2) [OF L]]])
  then obtain b where "(s, b) \<in> set (ep_got y)" by auto
  then show ?thesis using link_okD(3) [OF L] by (auto simp: dir_ok_def)
qed

theorem reliable_acknowledged_delivered_witness:
  "0 < unat (tail (ep_data link_acked)) \<and> (0, ep_msgs link_acked ! 0) \<in> set (ep_got (run_first link_got))"
proof -
  have t: "0 < unat (tail (ep_data link_acked))" by code_simp
  with reliable_acknowledged_delivered [OF link_acked_reachable t] show ?thesis by blast
qed



text \<open>C18: when the retransmission timer of a connected end runs, every message that is not acknowledged
  yet goes out again, with its number.\<close>

theorem reliable_timeout_resends_all:
  assumes "link_reachable (x, y)" "network_flag (ep_conf x)" "CONNECTED_LINK (ep_data x)"
    and "unat (tail (ep_data x)) \<le> s" "s < unat (head (ep_data x))"
  shows "\<exists>r e. Reliable_timeout (ep_conf x) (ep_link x) (Some (ep_data x)) (ep_env x) = Inr (r, e) \<and>
    (\<exists>p \<in> set (drop (length (rel_sent (ep_env x))) (rel_sent e)). rp_data p = Some (ep_msgs x ! s) \<and> unat (rp_seq_no p) = s)"
proof -
  note x = link_okD(1) [OF link_reachable_ok [OF assms(1)]]
  obtain r e where R: "Reliable_timeout (ep_conf x) (ep_link x) (Some (ep_data x)) (ep_env x) = Inr (r, e)"
    using Reliable_timeout_ok [OF end_okD(1,5) [OF x] assms(3) end_okD(3) [OF x]] by blast
  have "s < 2 ^ 32" using assms(5) unat32 [of "head (ep_data x)"] by simp
  then show ?thesis using Reliable_timeout_resends [OF end_okD(5) [OF x] assms(2) R assms(4,5)] R by (auto simp: unat_num)
qed

theorem reliable_timeout_resends_all_witness:
  "\<exists>r e. Reliable_timeout (ep_conf link_sent) (ep_link link_sent) (Some (ep_data link_sent)) (ep_env link_sent) = Inr (r, e) \<and>
    (\<exists>p \<in> set (drop (length (rel_sent (ep_env link_sent))) (rel_sent e)). rp_data p = Some (ep_msgs link_sent ! 0) \<and> unat (rp_seq_no p) = 0)"
proof -
  have "network_flag (ep_conf link_sent)" by (simp add: link_sent_fields link_conf_def)
  moreover have "CONNECTED_LINK (ep_data link_sent)" "unat (tail (ep_data link_sent)) \<le> 0" "0 < unat (head (ep_data link_sent))"
    by code_simp+
  ultimately show ?thesis by (rule reliable_timeout_resends_all [OF link_got_reachable])
qed

end
