(* ===== verification/Daemon.thy ===== *)
theory Daemon
  imports Net_Types Events Hash_Table
begin

text \<open>
  The data the daemon keeps, from \<open>state_flood.h\<close>, \<open>link_state.h\<close>, \<open>multicast.h\<close>,
  \<open>node.h\<close>, \<open>network.h\<close> and the globals of \<open>spines.c\<close> and \<open>route.c\<close>. A pointer to an
  object is the key under which the object is kept: a node by its identifier, a network leg by its
  pair of interfaces, a replicated state by its (primary, secondary) key pair. The constructors of
  the objects end the process when the key is taken, so keys and pointers correspond.
\<close>

section \<open>Replicated states\<close>

type_synonym state_ptr = "Spines_ID \<times> Spines_ID"
type_synonym Network_Leg_ID = "Interface_ID \<times> Interface_ID"

text \<open>
  \<open>Edge\<close> and \<open>Group_State\<close> start with the members of \<open>State_Data\<close>, so that the flooding
  code can cast either to \<open>State_Data*\<close>. The record has the common members and \<open>own_fields\<close> for
  what comes behind them. \<open>state_value\<close> is the edge's \<open>cost\<close> or the group's \<open>status\<close>.
\<close>

record Edge_Fields =
  base_cost :: int
  index :: int16u
  lts :: Link_State_LTS
  leg :: "Network_Leg_ID option"

datatype state_fields =
    Edge_Fields Edge_Fields
  | Group_Fields "(int, int) stdhash"  \<comment> \<open>\<open>joined_sessions\<close>: session id to session\<close>

record State_Data =
  source_addr :: Spines_ID
  dest_addr :: Spines_ID
  timestamp_sec :: int
  timestamp_usec :: int
  my_timestamp_sec :: int
  my_timestamp_usec :: int
  state_value :: int
  age :: int
  own_fields :: state_fields

record State_Chain =
  address :: Spines_ID
  states :: "(Spines_ID, State_Data) stdhash"

type_synonym state_table = "(Spines_ID, State_Chain) stdhash"

text \<open>A state update to be sent; bit \<open>i\<close> of the mask is set when neighbor \<open>i\<close> needs no
  telling. The mask has \<open>MAX_NEIGHBORS / 32\<close> words.\<close>

definition MAX_NEIGHBORS :: nat where "MAX_NEIGHBORS = 256"

record Changed_State =
  state :: state_ptr
  mask :: "int32u list"

type_synonym changed_table = "(Spines_ID, Changed_State) stdhash"

datatype Prot_Def = Edge_Prot_Def | Groups_Prot_Def

section \<open>Nodes and network legs\<close>

record Node =
  nid :: Node_ID
  edge :: "state_ptr option"
  neighbor_id :: int
  node_no :: int
  node_cost :: int
  node_distance :: int

datatype Network_Leg_Status = DISCONNECTED_LEG | NOT_YET_CONNECTED_LEG | CONNECTED_LEG

record Network_Leg =
  leg_id :: Network_Leg_ID
  leg_edge :: state_ptr
  leg_links :: "Link_Type \<Rightarrow> int option"  \<comment> \<open>\<open>links[type]->link_id\<close>\<close>
  leg_status :: Network_Leg_Status
  leg_cost :: int
  ctrl_link_id :: int32u
  other_side_ctrl_link_id :: int32u
  hellos_out :: int
  last_recv_hello :: sp_time
  connect_cnter :: int
  last_connected :: sp_time

abbreviation control_link :: "Network_Leg \<Rightarrow> int option" where
  "control_link l \<equiv> leg_links l CONTROL_LINK"

section \<open>Routing state\<close>

record Route =
  distance :: int
  cost :: int
  forwarder :: "Node_ID option"
  predecessor :: Node_ID

type_synonym mcast_neighbors = "(Node_ID, Node_ID) stdhash"

record Routing_Regime =
  Num_Nodes :: nat
  Node_IDs :: "Node_ID list"
  Node_Indexes :: "(Node_ID, nat) stdhash"
  Routes :: "Route list"
  Groups :: "(Group_ID, (Node_ID, mcast_neighbors) stdhash) stdhash"

section \<open>Packets of the flooding protocol\<close>

text \<open>
  A state packet buffer is a sequence of headers, each followed by the cells it announces. The
  members keep their width, because the receiver may have to swap their bytes. The group cell has no
  time stamp counter; \<open>cell_lts\<close> is only meaningful in a link-state packet.
\<close>

record State_Packet =
  pkt_source :: int32u
  num_cells :: int16u
  src_data :: int16u

record State_Cell =
  dest :: int32u
  cell_sec :: int32u
  cell_usec :: int32u
  cell_value :: int16u
  cell_age :: int16u
  cell_lts :: int16u

datatype wire = is_Hdr: Hdr State_Packet | is_Cell: Cell State_Cell

section \<open>Timers and calls\<close>

datatype event_func =
    Send_State_Updates_ev | Net_Send_State_All_ev | Resend_States_ev | State_Garbage_Collect_ev
  | Set_Routes_ev | KR_Set_Group_Route_ev | Send_Ack_ev | Send_Hello_Request_ev
  | Send_Hello_ev | Send_Hello_Request_Cnt_ev | Dead_Leg_ev | Send_Hello_Ping_ev | Send_Discovery_Hello_Ping_ev
  | Try_to_Send_ev | Reliable_timeout_ev | Send_Nack_Retransm_ev | Send_RT_Nack_ev | Send_RT_Retransm_ev
  | Fill_Bucket_IT_ev | Ping_IT_Timeout_ev | Loss_Calculation_Event_ev

type_synonym event_queue = "(event_func, Prot_Def option) time_event list"

text \<open>The calls that leave the modelled part of the daemon, in the order they are made.\<close>

datatype call =
    Reliable_Send_Msg int "wire list" int int32u
  | DG_Process_Edge_Update state_ptr int
  | MultiPath_Clear_Cache
  | KR_Create_Overlay_Node Node_ID
  | KR_Delete_Overlay_Node Node_ID
  | KR_Update_All_Routes
  | Forward_On Link_Type Node_ID udp_header
  | Deliver_UDP_Data udp_header int32u

section \<open>The daemon\<close>

text \<open>
  \<open>wall_clock\<close> and \<open>monotonic_clock\<close> are what \<open>E_get_time\<close> and
  \<open>E_get_time_monotonic\<close> return while one event is handled.
\<close>

record daemon =
  ARCH_ENDIAN :: int32u
  My_Address :: Node_ID
  wall_clock :: sp_time
  monotonic_clock :: sp_time
  Wireless :: bool
  KR_Flags :: int32u
  All_Nodes :: "(Node_ID, Node) stdhash"
  All_Nodes_by_ID :: "Node_ID list"
  Neighbor_Nodes :: "Node_ID option list"
  Num_Neighbors :: nat
  Network_Legs :: "(Network_Leg_ID, Network_Leg) stdhash"
  All_Edges :: state_table
  Changed_Edges :: changed_table
  All_Groups_by_Node :: state_table
  All_Groups_by_Name :: "(Group_ID, (Node_ID, state_ptr) stdhash) stdhash"
  Changed_Group_States :: changed_table
  Link_State_Update_LTS :: Link_State_LTS
  Time_queue :: event_queue
  Schedule_Set_Route :: bool
  Current_Routing :: "Routing_Regime option"
  calls :: "call list"

definition emit :: "call \<Rightarrow> daemon \<Rightarrow> daemon" where
  "emit c d = d\<lparr>calls := calls d @ [c]\<rparr>"

definition queue_event :: "event_func \<Rightarrow> int \<Rightarrow> Prot_Def option \<Rightarrow> sp_time \<Rightarrow> daemon \<Rightarrow> daemon" where
  "queue_event func code data delta d =
     d\<lparr>Time_queue := E_queue (monotonic_clock d) func code data delta (Time_queue d)\<rparr>"

end
