(* ===== verification/State_Tables.thy ===== *)
theory State_Tables
  imports Daemon
begin

text \<open>
  The two-level tables of replicated states (\<open>Find_State\<close> of \<open>state_flood.c\<close>): a primary
  key leads to a chain, the chain's secondary key to the state. The theory has the lookup, the
  insertion that \<open>Create_Edge\<close> and \<open>Create_Group\<close> share, the write through a state pointer, and
  the invariant that a state is kept under the keys it carries.
\<close>

definition Find_State :: "state_table \<Rightarrow> Spines_ID \<Rightarrow> Spines_ID \<Rightarrow> State_Data option" where
  "Find_State h prim scnd =
     (case stdhash_find h prim of
        None \<Rightarrow> None
      | Some s_chain \<Rightarrow> stdhash_find (states s_chain) scnd)"

text \<open>The chain for a primary key is made on demand, then the state is added to it.\<close>

definition add_state :: "state_table \<Rightarrow> State_Data \<Rightarrow> state_table" where
  "add_state h s =
     (let h' = (if stdhash_find h (source_addr s) = None
                then stdhash_insert h (source_addr s) \<lparr>address = source_addr s, states = []\<rparr> else h)
      in stdhash_modify h' (source_addr s)
           (\<lambda>c. c\<lparr>states := stdhash_insert (states c) (dest_addr s) s\<rparr>))"

definition write_state :: "state_table \<Rightarrow> state_ptr \<Rightarrow> (State_Data \<Rightarrow> State_Data) \<Rightarrow> state_table" where
  "write_state h ptr f =
     stdhash_modify h (fst ptr) (\<lambda>c. c\<lparr>states := stdhash_modify (states c) (snd ptr) f\<rparr>)"

text \<open>All states in the order in which nested iterators visit them.\<close>

definition all_states :: "state_table \<Rightarrow> State_Data list" where
  "all_states h = concat (map (\<lambda>c. stdhash_vals (states c)) (stdhash_vals h))"

definition state_key :: "State_Data \<Rightarrow> state_ptr" where
  "state_key s = (source_addr s, dest_addr s)"

definition chain_ok :: "Spines_ID \<Rightarrow> State_Chain \<Rightarrow> bool" where
  "chain_ok k c \<longleftrightarrow> address c = k \<and> unique_keys (states c) \<and>
     (\<forall>(t, s) \<in> set (states c). state_key s = (k, t))"

definition table_ok :: "state_table \<Rightarrow> bool" where
  "table_ok h \<longleftrightarrow> unique_keys h \<and> (\<forall>(k, c) \<in> set h. chain_ok k c)"

lemma table_ok_Nil [simp]: "table_ok []"
  by (simp add: table_ok_def unique_keys_def)

lemma table_ok_chain: "table_ok h \<Longrightarrow> stdhash_find h k = Some c \<Longrightarrow> chain_ok k c"
  using stdhash_find_in_set by (fastforce simp: table_ok_def)

lemma Find_State_key: "table_ok h \<Longrightarrow> Find_State h s t = Some x \<Longrightarrow> state_key x = (s, t)"
  unfolding Find_State_def
  using table_ok_chain [of h s] stdhash_find_in_set
  by (fastforce simp: chain_ok_def split: option.splits)

lemma Find_State_Nil [simp]: "Find_State [] s t = None"
  by (simp add: Find_State_def)

lemma Find_State_add_state:
  assumes "Find_State h (source_addr x) (dest_addr x) = None"
  shows "Find_State (add_state h x) s t =
     (if (s, t) = state_key x then Some x else Find_State h s t)"
  using assms
  by (auto simp: Find_State_def add_state_def state_key_def Let_def sh.find_modify
      sh.find_insert split: option.splits)

lemma Find_State_write_state:
  "Find_State (write_state h ptr f) s t =
     (if (s, t) = ptr then map_option f (Find_State h s t) else Find_State h s t)"
  by (cases ptr) (auto simp: Find_State_def write_state_def sh.find_modify split: option.splits)

lemma in_stdhash_modify:
  "(k, v) \<in> set (stdhash_modify h k0 f) \<Longrightarrow> (k, v) \<in> set h \<or> k = k0 \<and> (\<exists>u. (k, u) \<in> set h \<and> v = f u)"
  by (induction h) (auto split: if_splits)

lemma table_ok_modify:
  assumes "table_ok h" and "\<And>c. stdhash_find h k = Some c \<Longrightarrow> chain_ok k c \<Longrightarrow> chain_ok k (f c)"
  shows "table_ok (stdhash_modify h k f)"
proof -
  have "chain_ok k' c" if "(k', c) \<in> set (stdhash_modify h k f)" for k' c
    using in_stdhash_modify [OF that] assms stdhash_find_unique [of h]
    by (fastforce simp: table_ok_def)
  then show ?thesis using assms(1) by (auto simp: table_ok_def sh.ok_modify)
qed

lemma table_ok_write_state:
  assumes "table_ok h"
    and "\<And>s. Find_State h (fst ptr) (snd ptr) = Some s \<Longrightarrow> state_key (f s) = state_key s"
  shows "table_ok (write_state h ptr f)"
  unfolding write_state_def
proof (rule table_ok_modify [OF assms(1)])
  fix c assume c: "stdhash_find h (fst ptr) = Some c" "chain_ok (fst ptr) c"
  have "state_key s = (fst ptr, t)" if "(t, s) \<in> set (stdhash_modify (states c) (snd ptr) f)" for t s
    using in_stdhash_modify [OF that] c assms(2) stdhash_find_unique [of "states c"]
    by (fastforce simp: chain_ok_def Find_State_def)
  with c(2) show "chain_ok (fst ptr) (c\<lparr>states := stdhash_modify (states c) (snd ptr) f\<rparr>)"
    by (auto simp: chain_ok_def sh.ok_modify)
qed

lemma table_ok_add_state:
  assumes "table_ok h" and "Find_State h (source_addr x) (dest_addr x) = None"
  shows "table_ok (add_state h x)"
proof -
  let ?k = "source_addr x"
  define h' where "h' = (if stdhash_find h ?k = None
    then stdhash_insert h ?k \<lparr>address = ?k, states = []\<rparr> else h)"
  have ok': "table_ok h'"
    using assms(1) by (auto simp: h'_def table_ok_def sh.ok_insert set_stdhash_insert
        chain_ok_def unique_keys_def [of "[]"])
  have absent: "stdhash_find (states c) (dest_addr x) = None" if "stdhash_find h' ?k = Some c" for c
    using that assms(2) by (auto simp: h'_def Find_State_def sh.find_insert split: if_splits)
  have "table_ok (stdhash_modify h' ?k (\<lambda>c. c\<lparr>states := stdhash_insert (states c) (dest_addr x) x\<rparr>))"
    using absent by (intro table_ok_modify [OF ok'])
      (auto simp: chain_ok_def sh.ok_insert set_stdhash_insert state_key_def)
  then show ?thesis by (simp add: add_state_def h'_def Let_def)
qed

lemma in_all_states:
  "table_ok h \<Longrightarrow> x \<in> set (all_states h) \<longleftrightarrow> Find_State h (source_addr x) (dest_addr x) = Some x"
proof
  assume ok: "table_ok h" and "x \<in> set (all_states h)"
  then obtain k c t where x: "(k, c) \<in> set h" "(t, x) \<in> set (states c)"
    by (auto simp: all_states_def stdhash_vals_def)
  with ok have "chain_ok k c" by (auto simp: table_ok_def)
  with x have "source_addr x = k" "dest_addr x = t" by (auto simp: chain_ok_def state_key_def)
  moreover have "stdhash_find h k = Some c" "stdhash_find (states c) t = Some x"
    using x ok \<open>chain_ok k c\<close> stdhash_find_unique [of h k c] stdhash_find_unique [of "states c" t x]
    by (simp_all add: table_ok_def chain_ok_def)
  ultimately show "Find_State h (source_addr x) (dest_addr x) = Some x"
    by (simp add: Find_State_def)
next
  assume "Find_State h (source_addr x) (dest_addr x) = Some x"
  then show "x \<in> set (all_states h)"
    by (force simp: Find_State_def all_states_def stdhash_vals_def
        dest!: stdhash_find_in_set split: option.splits)
qed

lemma distinct_chain_keys: "chain_ok k c \<Longrightarrow> distinct (map state_key (stdhash_vals (states c)))"
proof -
  assume ok: "chain_ok k c"
  have "map state_key (stdhash_vals (states c)) = map (\<lambda>t. (k, t)) (map fst (states c))"
    using ok by (auto simp: chain_ok_def stdhash_vals_def)
  then show ?thesis using ok by (simp add: chain_ok_def unique_keys_def distinct_map inj_on_def)
qed

lemma distinct_all_states: "table_ok h \<Longrightarrow> distinct (map state_key (all_states h))"
proof (induction h)
  case (Cons e h)
  obtain k c where e: "e = (k, c)" by (cases e)
  from Cons.prems e have c: "chain_ok k c" and rest: "table_ok h" and new: "k \<notin> fst ` set h"
    by (auto simp: table_ok_def unique_keys_def)
  have later: "fst (state_key x) \<in> fst ` set h" if "x \<in> set (all_states h)" for x
    using that rest by (force simp: all_states_def stdhash_vals_def table_ok_def chain_ok_def)
  have here: "fst (state_key x) = k" if "x \<in> set (stdhash_vals (states c))" for x
    using that c by (force simp: stdhash_vals_def chain_ok_def)
  have "state_key ` set (stdhash_vals (states c)) \<inter> state_key ` set (all_states h) = {}"
  proof (intro equals0I, elim IntE imageE)
    fix p x y assume "p = state_key x" "x \<in> set (stdhash_vals (states c))"
      "p = state_key y" "y \<in> set (all_states h)"
    with here [of x] later [of y] new show False by simp
  qed
  moreover have "all_states (e # h) = stdhash_vals (states c) @ all_states h"
    by (simp add: e all_states_def stdhash_vals_def)
  ultimately show ?case using distinct_chain_keys [OF c] Cons.IH [OF rest] by simp
qed (simp add: all_states_def stdhash_vals_def)

end
