(* ===== verification/Node.thy ===== *)
theory Node
  imports State_Tables
begin

text \<open>
  The nodes of the overlay (\<open>daemon/node.c\<close>): the comparison functions of its ordered tables,
  creation and lookup of nodes, the connected-neighbor test with its assertion, and the removal of
  orphans. Creating a node keeps the hash of nodes and the list ordered by identifier in step.
\<close>

unbundle bit_operations_syntax

section \<open>Comparison functions\<close>

definition Node_ID_cmp :: "Node_ID \<Rightarrow> Node_ID \<Rightarrow> int" where
  "Node_ID_cmp left right = (if left < right then - 1 else if left \<noteq> right then 1 else 0)"

record Client_ID =
  daemon_id :: Node_ID
  client_port :: int16u

definition Client_ID_cmp :: "Client_ID \<Rightarrow> Client_ID \<Rightarrow> int" where
  "Client_ID_cmp left right =
     (if daemon_id left < daemon_id right then - 1
      else if daemon_id right < daemon_id left then 1
      else if client_port left < client_port right then - 1
      else if client_port right < client_port left then 1
      else 0)"

interpretation node_cmp: comparator Node_ID_cmp
  by unfold_locales (auto simp: Node_ID_cmp_def split: if_splits)

interpretation client_cmp: comparator Client_ID_cmp
  by unfold_locales (auto simp: Client_ID_cmp_def split: if_splits)

section \<open>Operations\<close>

definition KR_OVERLAY_NODES :: int32u where "KR_OVERLAY_NODES = 0x0001"

definition Get_Node :: "daemon \<Rightarrow> Node_ID \<Rightarrow> Node option" where
  "Get_Node d i = stdhash_find (All_Nodes d) i"

definition new_node :: "Node_ID \<Rightarrow> Node" where
  "new_node i = \<lparr>nid = i, edge = None, neighbor_id = - 1, node_no = - 1, node_cost = - 1,
     node_distance = - 1\<rparr>"

definition Create_Node :: "Node_ID \<Rightarrow> daemon \<Rightarrow> daemon res" where
  "Create_Node i d =
     (if Get_Node d i \<noteq> None then Inl (EXIT ''Create_Node: node already exists'')
      else let d' = d\<lparr>All_Nodes := stdhash_insert (All_Nodes d) i (new_node i),
                      All_Nodes_by_ID := cmp_insert Node_ID_cmp i (All_Nodes_by_ID d)\<rparr>
           in Inr (if KR_Flags d AND KR_OVERLAY_NODES \<noteq> 0 then emit (KR_Create_Overlay_Node i) d' else d'))"

definition leg_of :: "State_Data \<Rightarrow> Network_Leg_ID option" where
  "leg_of e = (case own_fields e of Edge_Fields f \<Rightarrow> leg f | Group_Fields _ \<Rightarrow> None)"

definition Get_Edge :: "daemon \<Rightarrow> Node_ID \<Rightarrow> Node_ID \<Rightarrow> State_Data option" where
  "Get_Edge d src dst = Find_State (All_Edges d) src dst"

definition connected_edge_ok :: "daemon \<Rightarrow> Node \<Rightarrow> State_Data \<Rightarrow> bool" where
  "connected_edge_ok d nd e \<longleftrightarrow>
     0 \<le> neighbor_id nd \<and> neighbor_id nd < int (Num_Neighbors d) \<and>
     source_addr e = My_Address d \<and> dest_addr e \<noteq> My_Address d \<and>
     (case leg_of e of
        None \<Rightarrow> False
      | Some l \<Rightarrow> (case stdhash_find (Network_Legs d) l of
                    None \<Rightarrow> False | Some nl \<Rightarrow> leg_cost nl = state_value e))"

definition Is_Connected_Neighbor2 :: "daemon \<Rightarrow> Node \<Rightarrow> bool res" where
  "Is_Connected_Neighbor2 d nd =
     (case edge nd of
        None \<Rightarrow> Inr False
      | Some ptr \<Rightarrow>
          (case Find_State (All_Edges d) (fst ptr) (snd ptr) of
             None \<Rightarrow> Inl (UNDEF ''Is_Connected_Neighbor2'')
           | Some e \<Rightarrow>
               if state_value e = - 1 then Inr False
               else if connected_edge_ok d nd e then Inr True
               else Inl (ASSERT ''Is_Connected_Neighbor2'')))"

definition Is_Connected_Neighbor :: "daemon \<Rightarrow> Node_ID \<Rightarrow> bool res" where
  "Is_Connected_Neighbor d i =
     (case Get_Node d i of None \<Rightarrow> Inr False | Some nd \<Rightarrow> Is_Connected_Neighbor2 d nd)"

text \<open>\<open>1\<close>: removed, \<open>0\<close>: kept, \<open>-1\<close>: no such node.\<close>

definition Try_Remove_Node :: "Node_ID \<Rightarrow> daemon \<Rightarrow> int \<times> daemon" where
  "Try_Remove_Node i d =
     (if i = My_Address d then (0, d)
      else if stdhash_contains (All_Edges d) i then (0, d)
      else if \<exists>s_chain \<in> set (stdhash_vals (All_Edges d)). stdhash_contains (states s_chain) i then (0, d)
      else if Get_Node d i = None then (- 1, d)
      else let d' = d\<lparr>All_Nodes := stdhash_erase (All_Nodes d) i,
                      All_Nodes_by_ID := filter (\<lambda>x. x \<noteq> i) (All_Nodes_by_ID d)\<rparr>
           in (1, if KR_Flags d AND KR_OVERLAY_NODES \<noteq> 0 then emit (KR_Delete_Overlay_Node i) d' else d'))"

section \<open>The two node tables\<close>

definition nodes_ok :: "daemon \<Rightarrow> bool" where
  "nodes_ok d \<longleftrightarrow> unique_keys (All_Nodes d) \<and> (\<forall>(k, nd) \<in> set (All_Nodes d). nid nd = k) \<and>
     sorted_wrt (\<lambda>a b. Node_ID_cmp a b \<le> 0) (All_Nodes_by_ID d) \<and> distinct (All_Nodes_by_ID d) \<and>
     set (All_Nodes_by_ID d) = fst ` set (All_Nodes d) \<and> My_Address d \<in> fst ` set (All_Nodes d)"

lemma emit_simps [simp]:
  "ARCH_ENDIAN (emit c d) = ARCH_ENDIAN d"
  "All_Nodes (emit c d) = All_Nodes d" "All_Nodes_by_ID (emit c d) = All_Nodes_by_ID d"
  "My_Address (emit c d) = My_Address d" "All_Edges (emit c d) = All_Edges d"
  "Network_Legs (emit c d) = Network_Legs d" "Num_Neighbors (emit c d) = Num_Neighbors d"
  "All_Groups_by_Node (emit c d) = All_Groups_by_Node d" "Time_queue (emit c d) = Time_queue d"
  "All_Groups_by_Name (emit c d) = All_Groups_by_Name d" "Changed_Edges (emit c d) = Changed_Edges d"
  "Changed_Group_States (emit c d) = Changed_Group_States d" "wall_clock (emit c d) = wall_clock d"
  "Current_Routing (emit c d) = Current_Routing d" "Neighbor_Nodes (emit c d) = Neighbor_Nodes d"
  "KR_Flags (emit c d) = KR_Flags d" "Wireless (emit c d) = Wireless d"
  "monotonic_clock (emit c d) = monotonic_clock d" "Schedule_Set_Route (emit c d) = Schedule_Set_Route d"
  "Link_State_Update_LTS (emit c d) = Link_State_Update_LTS d" "calls (emit c d) = calls d @ [c]"
  by (simp_all add: emit_def)

lemma Get_Node_known: "nodes_ok d \<Longrightarrow> Get_Node d i \<noteq> None \<longleftrightarrow> i \<in> set (All_Nodes_by_ID d)"
  by (auto simp: Get_Node_def nodes_ok_def stdhash_find_None image_iff stdhash_find_unique [symmetric])

lemma Create_Node_Inr:
  assumes "Create_Node i d = Inr d'"
  shows "Get_Node d i = None" "All_Nodes d' = stdhash_insert (All_Nodes d) i (new_node i)"
    "All_Nodes_by_ID d' = cmp_insert Node_ID_cmp i (All_Nodes_by_ID d)"
    "My_Address d' = My_Address d" "All_Edges d' = All_Edges d"
    "All_Groups_by_Node d' = All_Groups_by_Node d" "Time_queue d' = Time_queue d"
  using assms by (auto simp: Create_Node_def Let_def split: if_splits)

lemma Create_Node_ok:
  assumes "nodes_ok d" and "Create_Node i d = Inr d'"
  shows "nodes_ok d'"
proof -
  note c = Create_Node_Inr [OF assms(2)]
  have absent: "i \<notin> fst ` set (All_Nodes d)"
    using c(1) by (simp add: Get_Node_def stdhash_find_None)
  have "unique_keys (All_Nodes d')"
    using assms(1) c(1,2) by (simp add: nodes_ok_def Get_Node_def sh.ok_insert)
  moreover have "sorted_wrt (\<lambda>a b. Node_ID_cmp a b \<le> 0) (All_Nodes_by_ID d')"
    using node_cmp.sorted_cmp_insert [of "\<lambda>x. x" "All_Nodes_by_ID d" i] assms(1) c(3)
    by (simp add: nodes_ok_def)
  ultimately show ?thesis
    using assms(1) c(2-4) absent by (auto simp: nodes_ok_def set_stdhash_insert new_node_def)
qed

lemma Get_Node_Create_Node:
  "Create_Node i d = Inr d' \<Longrightarrow> Get_Node d' j = (if j = i then Some (new_node i) else Get_Node d j)"
  using Create_Node_Inr(1,2) [of i d d'] by (auto simp: Get_Node_def sh.find_insert)

lemma set_stdhash_erase:
  "unique_keys h \<Longrightarrow> set (stdhash_erase h k) = {e \<in> set h. fst e \<noteq> k}"
proof (induction h)
  case (Cons e h)
  obtain a b where e: "e = (a, b)" by (cases e)
  show ?case
  proof (cases "a = k")
    case True
    then have "\<forall>x \<in> set h. fst x \<noteq> k" using Cons.prems e by (auto simp: unique_keys_def)
    with True e show ?thesis by auto
  next
    case False
    with Cons e show ?thesis by (auto simp: unique_keys_def)
  qed
qed simp

lemma Try_Remove_Node_ok:
  assumes "nodes_ok d"
  shows "nodes_ok (snd (Try_Remove_Node i d))"
proof (cases "fst (Try_Remove_Node i d) = 1")
  case True
  then have i: "i \<noteq> My_Address d" by (auto simp: Try_Remove_Node_def)
  have n: "All_Nodes (snd (Try_Remove_Node i d)) = stdhash_erase (All_Nodes d) i"
    "All_Nodes_by_ID (snd (Try_Remove_Node i d)) = filter (\<lambda>x. x \<noteq> i) (All_Nodes_by_ID d)"
    "My_Address (snd (Try_Remove_Node i d)) = My_Address d"
    using True by (auto simp: Try_Remove_Node_def Let_def split: if_splits)
  show ?thesis using assms i
    by (auto simp: nodes_ok_def n set_stdhash_erase sh.ok_erase sorted_wrt_filter)
next
  case False
  then have "snd (Try_Remove_Node i d) = d" by (auto simp: Try_Remove_Node_def Let_def split: if_splits)
  with assms show ?thesis by simp
qed

text \<open>A node is removed exactly when it is known, is not the local node, and no edge starts or
  ends in it.\<close>

lemma Try_Remove_Node_removes:
  "fst (Try_Remove_Node i d) = 1 \<longleftrightarrow>
     i \<noteq> My_Address d \<and> Get_Node d i \<noteq> None \<and> \<not> stdhash_contains (All_Edges d) i \<and>
     (\<forall>s_chain \<in> set (stdhash_vals (All_Edges d)). \<not> stdhash_contains (states s_chain) i)"
  by (auto simp: Try_Remove_Node_def Let_def)

text \<open>The list ordered by identifier depends on the set of nodes only, not on the order in which
  they became known: two daemons that know the same nodes give them the same table indexes.\<close>

lemma same_nodes_same_order:
  "nodes_ok d \<Longrightarrow> nodes_ok d' \<Longrightarrow> fst ` set (All_Nodes d) = fst ` set (All_Nodes d') \<Longrightarrow>
   All_Nodes_by_ID d = All_Nodes_by_ID d'"
  by (rule node_cmp.sorted_unique) (auto simp: nodes_ok_def)

end
