(* ===== verification/Route_Spec.thy ===== *)
theory Route_Spec
  imports Prelude
begin

text \<open>
  What the routing table of \<open>route.c\<close> is meant to hold, over an abstract weighted graph:
  paths as node lists, the path that Floyd and Warshall's recursion chooses for each pair after
  each phase, and the proof that the chosen path is simple and of least weight among all paths
  through the nodes of the phases done. In the recursion nodes are table indexes; the weight of an
  edge is an option.
\<close>

type_synonym 'a graph = "'a \<Rightarrow> 'a \<Rightarrow> int option"

section \<open>Paths\<close>

fun is_walk :: "'a graph \<Rightarrow> 'a list \<Rightarrow> bool" where
  "is_walk w [] = False"
| "is_walk w [a] = True"
| "is_walk w (a # b # p) = (w a b \<noteq> None \<and> is_walk w (b # p))"

fun walk_cost :: "'a graph \<Rightarrow> 'a list \<Rightarrow> int" where
  "walk_cost w (a # b # p) = the (w a b) + walk_cost w (b # p)"
| "walk_cost w _ = 0"

definition path_from_to :: "'a graph \<Rightarrow> 'a \<Rightarrow> 'a \<Rightarrow> 'a list \<Rightarrow> bool" where
  "path_from_to w i j p \<longleftrightarrow> is_walk w p \<and> hd p = i \<and> last p = j"

definition nonneg_graph :: "'a graph \<Rightarrow> bool" where
  "nonneg_graph w \<longleftrightarrow> (\<forall>i j c. w i j = Some c \<longrightarrow> 0 \<le> c)"

text \<open>The node behind \<open>m\<close> on a walk, if \<open>m\<close> is on it and is not its end.\<close>

fun succ_on :: "'a \<Rightarrow> 'a list \<Rightarrow> 'a option" where
  "succ_on m (a # b # p) =
     (case succ_on m (b # p) of Some f \<Rightarrow> Some f | None \<Rightarrow> if a = m then Some b else None)"
| "succ_on m _ = None"

lemma is_walk_append:
  "p \<noteq> [] \<Longrightarrow> is_walk w (p @ q) \<longleftrightarrow> is_walk w p \<and> (q = [] \<or> is_walk w (last p # q))"
  by (induction w p rule: is_walk.induct) (auto simp: neq_Nil_conv)

lemma walk_cost_append:
  "p \<noteq> [] \<Longrightarrow> walk_cost w (p @ q) = walk_cost w p + walk_cost w (last p # q)"
  by (induction w p rule: walk_cost.induct) auto

lemma is_walk_join: "is_walk w p \<Longrightarrow> is_walk w (last p # q) \<Longrightarrow> is_walk w (p @ q)"
  by (cases "p = []") (auto simp: is_walk_append)

lemma is_walk_split:
  assumes "is_walk w (p @ v # q)"
  shows "is_walk w (p @ [v])" and "is_walk w (v # q)"
proof -
  have *: "is_walk w (p @ [v]) \<and> (q = [] \<or> is_walk w (v # q))"
    using is_walk_append [of "p @ [v]" w q] assms by simp
  then show "is_walk w (p @ [v])" by blast
  show "is_walk w (v # q)" using * by (cases "q = []") auto
qed

lemma walk_cost_split: "walk_cost w (p @ v # q) = walk_cost w (p @ [v]) + walk_cost w (v # q)"
  using walk_cost_append [of "p @ [v]" w q] by simp

lemma walk_cost_nonneg: "nonneg_graph w \<Longrightarrow> is_walk w p \<Longrightarrow> 0 \<le> walk_cost w p"
  by (induction w p rule: walk_cost.induct) (auto simp: nonneg_graph_def)

lemma succ_on_append:
  "succ_on m (p @ v # q) =
     (case succ_on m (v # q) of Some f \<Rightarrow> Some f | None \<Rightarrow> succ_on m (p @ [v]))"
proof (induction p)
  case Nil
  then show ?case by (simp split: option.splits)
next
  case (Cons a p)
  then show ?case by (cases p) (auto split: option.splits)
qed

lemma succ_on_in_path: "succ_on m p = Some x \<Longrightarrow> m \<in> set p \<and> x \<in> set p"
  by (induction m p rule: succ_on.induct) (auto split: option.splits if_splits)

lemma succ_on_distinct:
  "distinct p \<Longrightarrow> Suc i < length p \<Longrightarrow> succ_on (p ! i) p = Some (p ! Suc i)"
proof (induction p arbitrary: i rule: induct_list012)
  case (3 a b p)
  show ?case
  proof (cases i)
    case 0
    have "succ_on a (b # p) = None"
      using succ_on_in_path [of a "b # p"] 3(3) by (cases "succ_on a (b # p)") auto
    with 0 show ?thesis by simp
  next
    case (Suc i')
    with 3 show ?thesis by simp
  qed
qed auto

lemma succ_on_last: "distinct p \<Longrightarrow> p \<noteq> [] \<Longrightarrow> succ_on (last p) p = None"
proof (induction p rule: induct_list012)
  case (3 a b p)
  then show ?case by (auto split: if_splits)
qed auto

lemma succ_on_notin: "m \<notin> set p \<Longrightarrow> succ_on m p = None"
  using succ_on_in_path [of m p] by (cases "succ_on m p") auto

text \<open>Every walk contains a simple one between the same ends, through some of the same nodes
  and not more expensive.\<close>

lemma simple_walk:
  assumes "nonneg_graph w" and "is_walk w p"
  shows "\<exists>q. is_walk w q \<and> distinct q \<and> hd q = hd p \<and> last q = last p \<and> set q \<subseteq> set p
    \<and> walk_cost w q \<le> walk_cost w p"
  using assms(2)
proof (induction "length p" arbitrary: p rule: less_induct)
  case less
  show ?case
  proof (cases "distinct p")
    case True
    with less.prems show ?thesis by blast
  next
    case False
    then obtain xs ys zs y where p: "p = xs @ [y] @ ys @ [y] @ zs"
      using not_distinct_decomp by blast
    let ?q = "xs @ y # zs"
    have w1: "is_walk w (xs @ [y])" and w2: "is_walk w (y # ys @ y # zs)"
      using is_walk_split [of w xs y "ys @ y # zs"] less.prems p by auto
    then have w3: "is_walk w ((y # ys) @ [y])" and w4: "is_walk w (y # zs)"
      using is_walk_split [of w "y # ys" y zs] by auto
    have "is_walk w ?q" using is_walk_join [OF w1, of zs] w4 by simp
    moreover have "walk_cost w ?q \<le> walk_cost w p"
      using walk_cost_split [of w xs y zs] walk_cost_split [of w xs y "ys @ y # zs"]
        walk_cost_split [of w "y # ys" y zs] walk_cost_nonneg [OF assms(1) w3] p by simp
    moreover have "hd ?q = hd p" "last ?q = last p" using p by (cases xs; simp)+
    moreover have "length ?q < length p" "set ?q \<subseteq> set p" using p by auto
    ultimately show ?thesis using less.hyps [of ?q] by (metis order_trans)
  qed
qed

section \<open>The recursion of Floyd and Warshall, on paths\<close>

definition direct :: "nat graph \<Rightarrow> nat \<Rightarrow> nat \<Rightarrow> nat list option" where
  "direct w i j = (if i = j then Some [i] else if w i j \<noteq> None then Some [i, j] else None)"

definition better :: "nat graph \<Rightarrow> nat list option \<Rightarrow> nat list option \<Rightarrow> nat list option \<Rightarrow> nat list option" where
  "better w ik kj ij =
     (case (ik, kj) of
        (Some p, Some q) \<Rightarrow>
          (case ij of
             None \<Rightarrow> Some (p @ tl q)
           | Some r \<Rightarrow> if walk_cost w p + walk_cost w q < walk_cost w r then Some (p @ tl q) else Some r)
      | _ \<Rightarrow> ij)"

fun spath :: "nat graph \<Rightarrow> nat \<Rightarrow> nat \<Rightarrow> nat \<Rightarrow> nat list option" where
  "spath w 0 i j = direct w i j"
| "spath w (Suc k) i j =
     (if i = k \<or> j = k \<or> i = j then spath w k i j
      else better w (spath w k i k) (spath w k k j) (spath w k i j))"

text \<open>A path through the first \<open>k\<close> nodes and its own ends.\<close>

definition via :: "nat \<Rightarrow> nat \<Rightarrow> nat \<Rightarrow> nat list \<Rightarrow> bool" where
  "via k i j p \<longleftrightarrow> set p \<subseteq> {..<k} \<union> {i, j}"

definition chosen_ok :: "nat graph \<Rightarrow> nat \<Rightarrow> nat \<Rightarrow> nat \<Rightarrow> bool" where
  "chosen_ok w k i j \<longleftrightarrow>
     (\<forall>p. spath w k i j = Some p \<longrightarrow> path_from_to w i j p \<and> distinct p \<and> via k i j p) \<and>
     (\<forall>q. path_from_to w i j q \<and> via k i j q \<longrightarrow>
        (\<exists>p. spath w k i j = Some p \<and> walk_cost w p \<le> walk_cost w q))"

lemma chosenD:
  assumes "chosen_ok w k i j" and "spath w k i j = Some p"
  shows "is_walk w p" "hd p = i" "last p = j" "distinct p" "set p \<subseteq> {..<k} \<union> {i, j}" "p \<noteq> []"
proof -
  have *: "path_from_to w i j p \<and> distinct p \<and> via k i j p"
    using assms unfolding chosen_ok_def by blast
  then show "is_walk w p" "hd p = i" "last p = j" "distinct p" "set p \<subseteq> {..<k} \<union> {i, j}"
    unfolding path_from_to_def via_def by blast+
  then show "p \<noteq> []" by auto
qed

lemma chosen_best:
  assumes "chosen_ok w k i j" and "is_walk w q" "hd q = i" "last q = j" "set q \<subseteq> {..<k} \<union> {i, j}"
  obtains p where "spath w k i j = Some p" "walk_cost w p \<le> walk_cost w q"
  using assms unfolding chosen_ok_def path_from_to_def via_def by blast

lemma chosen_okI:
  assumes "\<And>p. spath w k i j = Some p \<Longrightarrow> path_from_to w i j p \<and> distinct p \<and> via k i j p"
    and "\<And>q. is_walk w q \<Longrightarrow> hd q = i \<Longrightarrow> last q = j \<Longrightarrow> set q \<subseteq> {..<k} \<union> {i, j} \<Longrightarrow>
      \<exists>p. spath w k i j = Some p \<and> walk_cost w p \<le> walk_cost w q"
  shows "chosen_ok w k i j"
  unfolding chosen_ok_def using assms(1) assms(2) unfolding path_from_to_def via_def by blast

lemma spath_self: "spath w k i i = Some [i]"
  by (induction k) (auto simp: direct_def)

lemma direct_best:
  assumes "nonneg_graph w" and "path_from_to w i j q" and "set q \<subseteq> {i, j}"
  shows "\<exists>p. direct w i j = Some p \<and> walk_cost w p \<le> walk_cost w q"
proof -
  have "is_walk w q" using assms(2) by (simp add: path_from_to_def)
  from simple_walk [OF assms(1) this] obtain r where
    r: "is_walk w r" "distinct r" "hd r = hd q" "last r = last q" "set r \<subseteq> set q"
       "walk_cost w r \<le> walk_cost w q" by blast
  have ends: "hd r = i" "last r = j" using r(3,4) assms(2) by (simp_all add: path_from_to_def)
  have sub: "set r \<subseteq> {i, j}" using r(5) assms(3) by blast
  have "r \<noteq> []" using r(1) by auto
  show ?thesis
  proof (cases "i = j")
    case True
    then show ?thesis
      using walk_cost_nonneg [OF assms(1) \<open>is_walk w q\<close>] by (simp add: direct_def)
  next
    case False
    obtain a r0 where a: "r = a # r0" using \<open>r \<noteq> []\<close> by (cases r) auto
    then have "a = i" using ends(1) by simp
    obtain b r' where b: "r0 = b # r'" using a ends(2) False \<open>a = i\<close> by (cases r0) auto
    have r': "r = i # b # r'" using a b \<open>a = i\<close> by simp
    have "b \<in> {i, j}" "b \<noteq> i" using r' sub r(2) by auto
    then have "b = j" by simp
    have "set r' \<subseteq> {i, j}" "i \<notin> set r'" "j \<notin> set r'" using r' sub r(2) \<open>b = j\<close> by auto
    then have "r' = []" by (cases r') auto
    with r' \<open>b = j\<close> r(1,6) False show ?thesis by (auto simp: direct_def)
  qed
qed

lemma chosen_ok_0: "nonneg_graph w \<Longrightarrow> chosen_ok w 0 i j"
proof -
  assume nn: "nonneg_graph w"
  have "path_from_to w i j p \<and> distinct p \<and> via 0 i j p" if "direct w i j = Some p" for p
    using that by (auto simp: direct_def path_from_to_def via_def split: if_splits)
  then show ?thesis
    using direct_best [OF nn, of i j] by (auto simp: chosen_ok_def via_def)
qed

text \<open>The concatenation that phase \<open>k\<close> prefers is simple: if the two halves met in another node,
  the detour over \<open>k\<close> could be cut out and the old path would have been as good.\<close>

lemma join_distinct:
  assumes nn: "nonneg_graph w" and ok: "chosen_ok w k i j" "chosen_ok w k i k" "chosen_ok w k k j"
    and p: "spath w k i k = Some p" and q: "spath w k k j = Some q"
    and imp: "\<And>r. spath w k i j = Some r \<Longrightarrow> walk_cost w p + walk_cost w q < walk_cost w r"
    and ne: "i \<noteq> k" "j \<noteq> k"
  shows "distinct (p @ tl q)"
proof -
  note P = chosenD [OF ok(2) p] and Q = chosenD [OF ok(3) q]
  have q_eq: "q = k # tl q" using Q(2,6) by (metis list.collapse)
  have "set p \<inter> set (tl q) = {}"
  proof (rule ccontr)
    assume "set p \<inter> set (tl q) \<noteq> {}"
    then obtain v where v: "v \<in> set p" "v \<in> set (tl q)" by blast
    then have "v \<noteq> k" using Q(4) q_eq by (metis distinct.simps(2))
    obtain p1 p2 where p12: "p = p1 @ v # p2" using v(1) by (meson split_list)
    obtain q1 q2 where q12: "tl q = q1 @ v # q2" using v(2) by (meson split_list)
    have qs: "q = (k # q1) @ v # q2" using q_eq q12 by simp
    have walks: "is_walk w (p1 @ [v])" "is_walk w (v # p2)" "is_walk w ((k # q1) @ [v])" "is_walk w (v # q2)"
      using is_walk_split P(1) Q(1) p12 qs by metis+
    let ?r = "p1 @ v # q2"
    have r: "is_walk w ?r" using is_walk_join [OF walks(1), of q2] walks(4) by simp
    have hd_r: "hd ?r = i" using P(2) p12 by (cases p1) auto
    have last_r: "last ?r = j" using Q(3) qs by (auto split: if_splits)
    have k_p: "k \<notin> set (p1 @ [v])"
      using P(3,4) p12 \<open>v \<noteq> k\<close> by (auto split: if_splits)
    have k_q: "k \<notin> set q2" using Q(4) qs by auto
    have "set ?r \<subseteq> {..<k} \<union> {i, j}"
      using P(5) Q(5) p12 qs k_p k_q by auto
    from chosen_best [OF ok(1) r hd_r last_r this] obtain s where
      s: "spath w k i j = Some s" "walk_cost w s \<le> walk_cost w ?r" .
    have "walk_cost w p + walk_cost w q =
        walk_cost w ?r + walk_cost w (v # p2) + walk_cost w ((k # q1) @ [v])"
      using walk_cost_split [of w p1 v p2] walk_cost_split [of w "k # q1" v q2]
        walk_cost_split [of w p1 v q2] p12 qs by simp
    then have "walk_cost w ?r \<le> walk_cost w p + walk_cost w q"
      using walk_cost_nonneg [OF nn walks(2)] walk_cost_nonneg [OF nn walks(3)] by simp
    with s imp [OF s(1)] show False by simp
  qed
  then show ?thesis using P(4) Q(4) by (simp add: distinct_tl)
qed

lemma better_cases:
  assumes "better w (spath w k i k) (spath w k k j) (spath w k i j) = Some r"
  obtains "spath w k i j = Some r"
  | p q where "spath w k i k = Some p" "spath w k k j = Some q" "r = p @ tl q"
      "\<And>s. spath w k i j = Some s \<Longrightarrow> walk_cost w p + walk_cost w q < walk_cost w s"
  using assms by (auto simp: better_def split: option.splits if_splits)

lemma join_path:
  assumes "chosen_ok w k i k" "chosen_ok w k k j"
    and "spath w k i k = Some p" and "spath w k k j = Some q"
  shows "path_from_to w i j (p @ tl q)" and "set (p @ tl q) \<subseteq> {..<Suc k} \<union> {i, j}"
    and "walk_cost w (p @ tl q) = walk_cost w p + walk_cost w q"
proof -
  note P = chosenD [OF assms(1,3)] and Q = chosenD [OF assms(2,4)]
  have q: "last p # tl q = q" using P(3) Q(2,6) by (metis list.collapse)
  show "path_from_to w i j (p @ tl q)"
    unfolding path_from_to_def using is_walk_join [OF P(1), of "tl q"] q P Q
    by (metis append_Nil2 hd_append2 last_ConsL last_ConsR last_append)
  show "set (p @ tl q) \<subseteq> {..<Suc k} \<union> {i, j}"
    using P(5) Q(5) list.set_sel(2) [OF Q(6)] unfolding lessThan_Suc set_append by blast
  show "walk_cost w (p @ tl q) = walk_cost w p + walk_cost w q"
    using walk_cost_append [OF P(6), of w "tl q"] q by simp
qed

lemma better_best:
  assumes ok: "chosen_ok w k i k" "chosen_ok w k k j"
    and p: "spath w k i k = Some p" and q: "spath w k k j = Some q"
  obtains r where "better w (spath w k i k) (spath w k k j) (spath w k i j) = Some r"
    and "walk_cost w r \<le> walk_cost w p + walk_cost w q"
    and "\<And>s. spath w k i j = Some s \<Longrightarrow> walk_cost w r \<le> walk_cost w s"
proof (cases "spath w k i j")
  case None
  then show ?thesis using that [of "p @ tl q"] join_path(3) [OF ok p q] p q
    by (simp add: better_def)
next
  case (Some s)
  then show ?thesis
    using that [of "p @ tl q"] that [of s] join_path(3) [OF ok p q] p q
    by (cases "walk_cost w p + walk_cost w q < walk_cost w s") (auto simp: better_def)
qed

lemma better_keeps:
  assumes ok: "chosen_ok w k i k" "chosen_ok w k k j" and s: "spath w k i j = Some s"
  shows "\<exists>r. better w (spath w k i k) (spath w k k j) (spath w k i j) = Some r
    \<and> walk_cost w r \<le> walk_cost w s"
  using join_path(3) [OF ok] s
  by (cases "spath w k i k"; cases "spath w k k j") (auto simp: better_def)

lemma phase_sound:
  assumes nn: "nonneg_graph w" and ok: "\<And>i j. chosen_ok w k i j" and ne: "i \<noteq> k" "j \<noteq> k"
    and r: "better w (spath w k i k) (spath w k k j) (spath w k i j) = Some r"
  shows "path_from_to w i j r \<and> distinct r \<and> via (Suc k) i j r"
  using r
proof (cases rule: better_cases)
  case 1
  note R = chosenD [OF ok this]
  then show ?thesis unfolding path_from_to_def via_def lessThan_Suc by blast
next
  case (2 p q)
  then show ?thesis
    using join_path [OF ok ok 2(1,2)] join_distinct [OF nn ok ok ok 2(1,2) 2(4) ne]
    by (simp add: via_def)
qed

lemma phase_best:
  assumes nn: "nonneg_graph w" and ok: "\<And>i j. chosen_ok w k i j" and ne: "i \<noteq> k" "j \<noteq> k" "i \<noteq> j"
    and q: "is_walk w q" "hd q = i" "last q = j" "set q \<subseteq> {..<Suc k} \<union> {i, j}"
  shows "\<exists>p. better w (spath w k i k) (spath w k k j) (spath w k i j) = Some p
    \<and> walk_cost w p \<le> walk_cost w q"
proof -
  obtain r where r: "is_walk w r" "distinct r" "hd r = i" "last r = j" "set r \<subseteq> set q"
      "walk_cost w r \<le> walk_cost w q"
    using simple_walk [OF nn q(1)] q(2,3) by metis
  show ?thesis
  proof (cases "k \<in> set r")
    case False
    then have "set r \<subseteq> {..<k} \<union> {i, j}" using r(5) q(4) unfolding lessThan_Suc by blast
    from chosen_best [OF ok r(1,3,4) this] obtain s where
      "spath w k i j = Some s" "walk_cost w s \<le> walk_cost w r" .
    with better_keeps [OF ok ok this(1)] r(6) show ?thesis by fastforce
  next
    case True
    then obtain r1 r2 where rs: "r = r1 @ k # r2" by (meson split_list)
    note W = is_walk_split [OF r(1) [unfolded rs]]
    have sub: "set r \<subseteq> {..<Suc k} \<union> {i, j}" using r(5) q(4) by blast
    have "r1 \<noteq> []" "r2 \<noteq> []" using r(3,4) rs ne by auto
    then have h1: "hd (r1 @ [k]) = i" and l2: "last (k # r2) = j" using r(3,4) rs by auto
    have "j \<in> set r2" "i \<in> set r1"
      using r(3,4) rs \<open>r1 \<noteq> []\<close> \<open>r2 \<noteq> []\<close> by (auto simp: hd_append)
    then have not_in: "j \<notin> set r1" "i \<notin> set r2" "k \<notin> set r1" "k \<notin> set r2"
      using r(2) rs by auto
    have "set r = set r1 \<union> insert k (set r2)" using rs by simp
    then have "set (r1 @ [k]) \<subseteq> {..<k} \<union> {i, k}" "set (k # r2) \<subseteq> {..<k} \<union> {k, j}"
      using sub not_in unfolding lessThan_Suc set_append list.set by blast+
    with W h1 l2 obtain p1 p2 where
      p1: "spath w k i k = Some p1" "walk_cost w p1 \<le> walk_cost w (r1 @ [k])" and
      p2: "spath w k k j = Some p2" "walk_cost w p2 \<le> walk_cost w (k # r2)"
      using chosen_best [OF ok W(1)] chosen_best [OF ok W(2)] by (metis last_snoc list.sel(1))
    obtain s where "better w (spath w k i k) (spath w k k j) (spath w k i j) = Some s"
      "walk_cost w s \<le> walk_cost w p1 + walk_cost w p2"
      using better_best [OF ok ok p1(1) p2(1)] by metis
    with p1(2) p2(2) r(6) walk_cost_split [of w r1 k r2] rs show ?thesis by fastforce
  qed
qed

lemma phase_best_end:
  assumes nn: "nonneg_graph w" and ok: "chosen_ok w k i j" and "i = k \<or> j = k \<or> i = j"
    and q: "is_walk w q" "hd q = i" "last q = j" "set q \<subseteq> {..<Suc k} \<union> {i, j}"
  shows "\<exists>p. spath w k i j = Some p \<and> walk_cost w p \<le> walk_cost w q"
proof (cases "i = j")
  case True
  then show ?thesis using spath_self [of w k i] walk_cost_nonneg [OF nn q(1)] by simp
next
  case False
  with assms(3) q(4) have "set q \<subseteq> {..<k} \<union> {i, j}" 
    unfolding lessThan_Suc by blast
  with chosen_best [OF ok q(1-3)] show ?thesis by metis
qed

theorem spath_chosen: "nonneg_graph w \<Longrightarrow> chosen_ok w k i j"
proof (induction k arbitrary: i j)
  case 0
  then show ?case by (rule chosen_ok_0)
next
  case (Suc k i j)
  note nn = Suc.prems and ok = Suc.IH [OF Suc.prems]
  show ?case
  proof (cases "i = k \<or> j = k \<or> i = j")
    case True
    then have same: "spath w (Suc k) i j = spath w k i j" by auto
    have "path_from_to w i j p \<and> distinct p \<and> via (Suc k) i j p"
      if "spath w (Suc k) i j = Some p" for p
    proof -
      have "spath w k i j = Some p" using that same by metis
      from chosenD [OF ok this] show ?thesis
        unfolding path_from_to_def via_def lessThan_Suc by blast
    qed
    then show ?thesis
      by (rule chosen_okI) (use phase_best_end [OF nn ok True] same in simp_all)
  next
    case False
    then have step: "spath w (Suc k) i j = better w (spath w k i k) (spath w k k j) (spath w k i j)"
      by simp
    show ?thesis
      by (rule chosen_okI)
        (use False step phase_sound [OF nn ok, of i j] phase_best [OF nn ok, of i j] in simp_all)
  qed
qed

end
