(* ===== verification/Route.thy ===== *)
theory Route
  imports State_Tables Route_Spec
begin

text \<open>
  The routing regime of \<open>daemon/route.c\<close>: the all-pairs routing table that a daemon computes from
  the replicated edges, the lookups in it, and the forwarding table for multicast groups that is
  filled on demand. \<open>This_Node\<close> is the node with identifier \<open>My_Address\<close>. The measurement of
  the time spent is left out.
\<close>

section \<open>Lookups\<close>

definition RR_Get_Node_Index :: "Routing_Regime \<Rightarrow> Node_ID \<Rightarrow> bool \<Rightarrow> int res" where
  "RR_Get_Node_Index rr node_id exit_on_failure =
     (case stdhash_find (Node_Indexes rr) node_id of
        Some ret \<Rightarrow> if ret < Num_Nodes rr then Inr (int ret) else Inl (ASSERT ''RR_Get_Node_Index'')
      | None \<Rightarrow> if exit_on_failure then Inl (EXIT ''RR_Get_Node_Index'') else Inr (- 1))"

definition RR_Find_Route :: "Routing_Regime \<Rightarrow> Node_ID \<Rightarrow> Node_ID \<Rightarrow> bool \<Rightarrow> Route option res" where
  "RR_Find_Route rr src_id dst_id exit_on_failure =
     bind_res (RR_Get_Node_Index rr src_id False) (\<lambda>src_index.
     bind_res (RR_Get_Node_Index rr dst_id False) (\<lambda>dst_index.
       if src_index \<noteq> - 1 \<and> dst_index \<noteq> - 1
       then Inr (Some (Routes rr ! (nat src_index * Num_Nodes rr + nat dst_index)))
       else if exit_on_failure then Inl (EXIT ''RR_Find_Route'') else Inr None))"

definition RR_Get_Next_Hop :: "Routing_Regime \<Rightarrow> Node_ID \<Rightarrow> Node_ID \<Rightarrow> Node_ID option res" where
  "RR_Get_Next_Hop rr src_id dst_id =
     bind_res (RR_Find_Route rr src_id dst_id False) (\<lambda>route.
       case route of None \<Rightarrow> Inr None | Some r \<Rightarrow> Inr (forwarder r))"

section \<open>Computing the table\<close>

definition no_route :: Route where
  "no_route = \<lparr>distance = - 1, cost = - 1, forwarder = None, predecessor = 0\<rparr>"

definition self_route :: Route where
  "self_route = \<lparr>distance = 0, cost = 0, forwarder = None, predecessor = 0\<rparr>"

definition RR_init_routes :: "nat \<Rightarrow> Route list" where
  "RR_init_routes num_nodes =
     concat (map (\<lambda>i. map (\<lambda>j. if i \<noteq> j then no_route else self_route) [0..<num_nodes]) [0..<num_nodes])"

definition RR_index_nodes :: "Node_ID list \<Rightarrow> (Node_ID, nat) stdhash" where
  "RR_index_nodes ids = fold (\<lambda>i h. stdhash_insert h (ids ! i) i) [0..<length ids] []"

definition RR_add_edge :: "Node_ID \<Rightarrow> State_Data \<Rightarrow> Routing_Regime \<Rightarrow> Routing_Regime res" where
  "RR_add_edge This_Node e rr =
     (if state_value e = - 1 then Inr rr
      else bind_res (RR_Get_Node_Index rr (source_addr e) True) (\<lambda>src_index.
           bind_res (RR_Get_Node_Index rr (dest_addr e) True) (\<lambda>dst_index.
             Inr (rr\<lparr>Routes := (Routes rr)[nat src_index * Num_Nodes rr + nat dst_index :=
               \<lparr>distance = 1, cost = \<bar>state_value e\<bar>,
                forwarder = (if source_addr e \<noteq> This_Node then None else Some (dest_addr e)),
                predecessor = source_addr e\<rparr>]\<rparr>))))"

text \<open>The innermost statement of the cubic loop, and the three loops around it.\<close>

definition RR_relax :: "Node_ID list \<Rightarrow> nat \<Rightarrow> nat \<Rightarrow> nat \<Rightarrow> Route list \<Rightarrow> Route list" where
  "RR_relax ids k i j routes =
     (let n = length ids; i_k_route = routes ! (i * n + k) in
      if i = j \<or> j = k \<or> cost (routes ! (k * n + j)) < 0 then routes
      else let k_j_route = routes ! (k * n + j); i_j_route = routes ! (i * n + j) in
        if cost i_j_route < 0 \<or> cost i_k_route + cost k_j_route < cost i_j_route
        then routes[i * n + j :=
          \<lparr>distance = int16_of (distance i_k_route + distance k_j_route),
           cost = cost i_k_route + cost k_j_route,
           forwarder = (if forwarder k_j_route \<noteq> None then forwarder k_j_route else forwarder i_k_route),
           predecessor = ids ! k\<rparr>]
        else routes)"

definition RR_relax_row :: "Node_ID list \<Rightarrow> nat \<Rightarrow> nat \<Rightarrow> Route list \<Rightarrow> Route list" where
  "RR_relax_row ids k i routes =
     (if i = k \<or> cost (routes ! (i * length ids + k)) < 0 then routes
      else fold (RR_relax ids k i) [0..<length ids] routes)"

definition RR_phase :: "Node_ID list \<Rightarrow> nat \<Rightarrow> Route list \<Rightarrow> Route list" where
  "RR_phase ids k routes = fold (RR_relax_row ids k) [0..<length ids] routes"

definition RR_compute :: "Node_ID list \<Rightarrow> Route list \<Rightarrow> Route list" where
  "RR_compute ids routes = fold (RR_phase ids) [0..<length ids] routes"

definition RR_Init :: "daemon \<Rightarrow> Routing_Regime res" where
  "RR_Init d =
     (if All_Nodes d = [] \<or> stdhash_find (All_Nodes d) (My_Address d) = None
         \<or> length (All_Nodes d) \<noteq> length (All_Nodes_by_ID d)
      then Inl (ASSERT ''RR_Init'')
      else let ids = All_Nodes_by_ID d; num_nodes = length (All_Nodes d);
               rr = \<lparr>Num_Nodes = num_nodes, Node_IDs = ids, Node_Indexes = RR_index_nodes ids,
                     Routes = RR_init_routes num_nodes, Groups = []\<rparr>
           in bind_res
                (fold_res (\<lambda>s_chain. fold_res (RR_add_edge (My_Address d)) (stdhash_vals (states s_chain)))
                   (stdhash_vals (All_Edges d)) rr)
                (\<lambda>rr'. Inr (rr'\<lparr>Routes := RR_compute (Node_IDs rr') (Routes rr')\<rparr>)))"

section \<open>Multicast forwarding\<close>

text \<open>\<open>ACTIVE_GROUP\<close> is bit 0 of a group's status.\<close>

definition is_active :: "State_Data \<Rightarrow> bool" where
  "is_active g \<longleftrightarrow> odd (state_value g)"

text \<open>The loop over the members of the group: \<open>neighbors\<close> collects the next hops for a
  multicast, \<open>best_next_hop\<close> the one for an anycast.\<close>

fun RR_mcast_loop ::
  "daemon \<Rightarrow> Routing_Regime \<Rightarrow> Node_ID \<Rightarrow> Group_ID \<Rightarrow> state_ptr list \<Rightarrow>
   mcast_neighbors \<Rightarrow> Node_ID option \<Rightarrow> (mcast_neighbors \<times> Node_ID option) res"
where
  "RR_mcast_loop d rr sender g [] neighbors best = Inr (neighbors, best)"
| "RR_mcast_loop d rr sender g (ptr # ptrs) neighbors best =
     (case Find_State (All_Groups_by_Node d) (fst ptr) (snd ptr) of
        None \<Rightarrow> Inl (UNDEF ''RR_Get_Mcast_Neighbors'')
      | Some g_state \<Rightarrow>
          if \<not> is_active g_state then RR_mcast_loop d rr sender g ptrs neighbors best
          else if Is_acast_addr g \<and> source_addr g_state = My_Address d then Inr (neighbors, None)
          else bind_res (RR_Get_Next_Hop rr sender (source_addr g_state)) (\<lambda>hop.
            case hop of
              None \<Rightarrow> RR_mcast_loop d rr sender g ptrs neighbors best
            | Some next_hop \<Rightarrow>
                if Is_mcast_addr g
                then RR_mcast_loop d rr sender g ptrs (stdhash_put neighbors next_hop next_hop) best
                else if Is_acast_addr g
                then (case best of
                        None \<Rightarrow> RR_mcast_loop d rr sender g ptrs neighbors (Some next_hop)
                      | Some b \<Rightarrow>
                          (case (stdhash_find (All_Nodes d) next_hop, stdhash_find (All_Nodes d) b) of
                             (Some nd, Some bnd) \<Rightarrow>
                               RR_mcast_loop d rr sender g ptrs neighbors
                                 (if node_cost nd < node_cost bnd then Some next_hop else best)
                           | _ \<Rightarrow> Inl (UNDEF ''RR_Get_Mcast_Neighbors'')))
                else RR_mcast_loop d rr sender g ptrs neighbors best))"

definition RR_Get_Mcast_Neighbors ::
  "daemon \<Rightarrow> Routing_Regime \<Rightarrow> Node_ID \<Rightarrow> Group_ID \<Rightarrow> (mcast_neighbors option \<times> Routing_Regime) res"
where
  "RR_Get_Mcast_Neighbors d rr sender mcast_address =
     (case stdhash_find (All_Groups_by_Name d) mcast_address of
        None \<Rightarrow> Inr (None, rr)
      | Some s_chain_grp \<Rightarrow>
          let groups = (if stdhash_find (Groups rr) mcast_address = None
                        then stdhash_insert (Groups rr) mcast_address [] else Groups rr);
              sources = (case stdhash_find groups mcast_address of None \<Rightarrow> [] | Some srcs \<Rightarrow> srcs)
          in case stdhash_find sources sender of
               Some neighbors \<Rightarrow> Inr (Some neighbors, rr\<lparr>Groups := groups\<rparr>)
             | None \<Rightarrow>
                 bind_res (RR_mcast_loop d rr sender mcast_address (stdhash_vals s_chain_grp) [] None)
                   (\<lambda>(neighbors, best).
                     let neighbors' = (case best of
                           Some b \<Rightarrow> if Is_acast_addr mcast_address then stdhash_insert neighbors b b else neighbors
                         | None \<Rightarrow> neighbors)
                     in Inr (Some neighbors', rr\<lparr>Groups := stdhash_modify groups mcast_address
                               (\<lambda>srcs. stdhash_insert srcs sender neighbors')\<rparr>)))"

definition RR_Discard_Mcast_Neighbors :: "Routing_Regime \<Rightarrow> Group_ID \<Rightarrow> Routing_Regime" where
  "RR_Discard_Mcast_Neighbors rr mcast_address =
     (if stdhash_contains (Groups rr) mcast_address
      then rr\<lparr>Groups := stdhash_erase (Groups rr) mcast_address\<rparr> else rr)"

section \<open>The current regime\<close>

definition Find_Route :: "daemon \<Rightarrow> Node_ID \<Rightarrow> Node_ID \<Rightarrow> Route option res" where
  "Find_Route d src_id dst_id =
     (case Current_Routing d of
        None \<Rightarrow> Inl (UNDEF ''Find_Route'') | Some rr \<Rightarrow> RR_Find_Route rr src_id dst_id False)"

definition Get_Route :: "daemon \<Rightarrow> Node_ID \<Rightarrow> Node_ID \<Rightarrow> Node_ID option res" where
  "Get_Route d src_id dst_id =
     (case Current_Routing d of
        None \<Rightarrow> Inl (UNDEF ''Get_Route'') | Some rr \<Rightarrow> RR_Get_Next_Hop rr src_id dst_id)"

definition Get_Mcast_Neighbors ::
  "daemon \<Rightarrow> Node_ID \<Rightarrow> Group_ID \<Rightarrow> (mcast_neighbors option \<times> daemon) res" where
  "Get_Mcast_Neighbors d sender mcast_address =
     (case Current_Routing d of
        None \<Rightarrow> Inl (UNDEF ''Get_Mcast_Neighbors'')
      | Some rr \<Rightarrow> bind_res (RR_Get_Mcast_Neighbors d rr sender mcast_address)
          (\<lambda>(neighbors, rr'). Inr (neighbors, d\<lparr>Current_Routing := Some rr'\<rparr>)))"

definition Discard_Mcast_Neighbors :: "Group_ID \<Rightarrow> daemon \<Rightarrow> daemon res" where
  "Discard_Mcast_Neighbors mcast_address d =
     (case Current_Routing d of
        None \<Rightarrow> Inl (UNDEF ''Discard_Mcast_Neighbors'')
      | Some rr \<Rightarrow> Inr (d\<lparr>Current_Routing := Some (RR_Discard_Mcast_Neighbors rr mcast_address)\<rparr>))"

definition Reroute_Timeout :: sp_time where
  "Reroute_Timeout = \<lparr>sec = 0, usec = 100\<rparr>"

definition Schedule_Routes :: "daemon \<Rightarrow> daemon" where
  "Schedule_Routes d =
     (if Schedule_Set_Route d then d
      else (queue_event Set_Routes_ev 0 None Reroute_Timeout d)\<lparr>Schedule_Set_Route := True\<rparr>)"

end
