(* ===== verification/State_Changes.thy ===== *)
theory State_Changes
  imports Node Route
begin

text \<open>
  The part of \<open>daemon/state_flood.c\<close> that the protocols for edges and groups call: the tables of a
  protocol, the buffer of changed states with its mask of informed neighbors, and the function that
  puts a state into the buffer and schedules the flood.
\<close>

unbundle bit_operations_syntax

section \<open>The tables of a protocol\<close>

fun All_States :: "Prot_Def \<Rightarrow> daemon \<Rightarrow> state_table" where
  "All_States Edge_Prot_Def d = All_Edges d"
| "All_States Groups_Prot_Def d = All_Groups_by_Node d"

fun put_states :: "Prot_Def \<Rightarrow> state_table \<Rightarrow> daemon \<Rightarrow> daemon" where
  "put_states Edge_Prot_Def h d = d\<lparr>All_Edges := h\<rparr>"
| "put_states Groups_Prot_Def h d = d\<lparr>All_Groups_by_Node := h\<rparr>"

fun Changed_States :: "Prot_Def \<Rightarrow> daemon \<Rightarrow> changed_table" where
  "Changed_States Edge_Prot_Def d = Changed_Edges d"
| "Changed_States Groups_Prot_Def d = Changed_Group_States d"

fun put_changed :: "Prot_Def \<Rightarrow> changed_table \<Rightarrow> daemon \<Rightarrow> daemon" where
  "put_changed Edge_Prot_Def h d = d\<lparr>Changed_Edges := h\<rparr>"
| "put_changed Groups_Prot_Def h d = d\<lparr>Changed_Group_States := h\<rparr>"

definition modify_state :: "Prot_Def \<Rightarrow> state_ptr \<Rightarrow> (State_Data \<Rightarrow> State_Data) \<Rightarrow> daemon \<Rightarrow> daemon" where
  "modify_state p ptr f d = put_states p (write_state (All_States p d) ptr f) d"

section \<open>Masks\<close>

definition zero_mask :: "int32u list" where
  "zero_mask = replicate (MAX_NEIGHBORS div 32) 0"

definition set_informed :: "nat \<Rightarrow> int32u list \<Rightarrow> int32u list" where
  "set_informed i m = m[i div 32 := m ! (i div 32) OR push_bit (i mod 32) 1]"

definition is_informed :: "nat \<Rightarrow> int32u list \<Rightarrow> bool" where
  "is_informed i m \<longleftrightarrow> m ! (i div 32) AND push_bit (i mod 32) 1 \<noteq> 0"

lemma is_informed_bit: "is_informed i m \<longleftrightarrow> bit (m ! (i div 32)) (i mod 32)"
  by (simp add: is_informed_def push_bit_eq_mult and_exp_eq_0_iff_not_bit)

lemma is_informed_set:
  assumes "i < 32 * length m"
  shows "is_informed j (set_informed i m) \<longleftrightarrow> j = i \<or> is_informed j m"
proof -
  have i: "i div 32 < length m" using assms by (simp add: div_less_iff_less_mult mult.commute)
  show ?thesis
  proof (cases "j div 32 = i div 32")
    case True
    then have "j = i \<longleftrightarrow> j mod 32 = i mod 32" by (metis mod_div_decomp)
    moreover have "j mod 32 < 32" "i mod 32 < 32" by simp_all
    ultimately show ?thesis using i True
      by (auto simp: is_informed_bit set_informed_def bit_simps)
  next
    case False
    then show ?thesis by (auto simp: is_informed_bit set_informed_def)
  qed
qed

lemma length_set_informed [simp]: "length (set_informed i m) = length m"
  by (simp add: set_informed_def)

lemma length_zero_mask [simp]: "length zero_mask = 8"
  by (simp add: zero_mask_def MAX_NEIGHBORS_def)

lemma not_informed_zero: "i < MAX_NEIGHBORS \<Longrightarrow> \<not> is_informed i zero_mask"
  by (simp add: is_informed_bit zero_mask_def MAX_NEIGHBORS_def div_less_iff_less_mult)

section \<open>The buffer of changed states\<close>

definition Find_Changed_State :: "changed_table \<Rightarrow> Spines_ID \<Rightarrow> Spines_ID \<Rightarrow> Changed_State option" where
  "Find_Changed_State h src_id dst_id =
     map_option snd (find (\<lambda>(k, cg_state). k = src_id \<and> snd (state cg_state) = dst_id) h)"

text \<open>A write through the pointer that \<open>Find_Changed_State\<close> returns.\<close>

fun modify_changed ::
  "changed_table \<Rightarrow> Spines_ID \<Rightarrow> Spines_ID \<Rightarrow> (Changed_State \<Rightarrow> Changed_State) \<Rightarrow> changed_table" where
  "modify_changed [] src_id dst_id f = []"
| "modify_changed ((k, cg_state) # h) src_id dst_id f =
     (if k = src_id \<and> snd (state cg_state) = dst_id then (k, f cg_state) # h
      else (k, cg_state) # modify_changed h src_id dst_id f)"

definition Empty_Changed_States :: "changed_table \<Rightarrow> changed_table" where
  "Empty_Changed_States h = []"

section \<open>Adding a change\<close>

text \<open>The step by which a daemon moves the time stamp of its own states.\<close>

definition bump_timestamp :: "State_Data \<Rightarrow> State_Data" where
  "bump_timestamp s =
     (if 1000000 \<le> timestamp_usec s + 1
      then s\<lparr>timestamp_sec := timestamp_sec s + 1, timestamp_usec := 0\<rparr>
      else s\<lparr>timestamp_usec := timestamp_usec s + 1\<rparr>)"

definition wireless_timeout :: sp_time where "wireless_timeout = \<lparr>sec = 0, usec = 15000\<rparr>"
definition flood_timeout :: sp_time where "flood_timeout = \<lparr>sec = 0, usec = 0\<rparr>"
definition zero_timeout :: sp_time where "zero_timeout = \<lparr>sec = 0, usec = 0\<rparr>"

definition IP1 :: "int32u \<Rightarrow> int32u" where "IP1 x = drop_bit 24 x AND 0xff"

definition Is_valid_kr_group :: "daemon \<Rightarrow> Group_ID \<Rightarrow> bool" where
  "Is_valid_kr_group d x \<longleftrightarrow>
     (KR_Flags d AND 0x0001 \<noteq> 0 \<and> x = 0xF0DC0B01) \<or>
     (KR_Flags d AND 0x0002 \<noteq> 0 \<and> IP1 x = 247) \<or>
     (KR_Flags d AND 0x0004 \<noteq> 0 \<and> IP1 x = 227)"

definition known_sender :: "daemon \<Rightarrow> Node_ID \<Rightarrow> Node res" where
  "known_sender d sender =
     (case Get_Node d sender of
        None \<Rightarrow> Inl (EXIT ''Add_to_changed_states: unknown sender'')
      | Some nd \<Rightarrow>
          if sender = My_Address d then Inr nd
          else bind_res (Is_Connected_Neighbor2 d nd) (\<lambda>c.
            if c then Inr nd else Inl (EXIT ''Add_to_changed_states: unconnected sender'')))"

definition group_changed :: "Group_ID \<Rightarrow> daemon \<Rightarrow> daemon res" where
  "group_changed g d =
     bind_res (Discard_Mcast_Neighbors g d) (\<lambda>d'.
       Inr (if Is_valid_kr_group d' g \<and> \<not> E_in_queue KR_Set_Group_Route_ev (sint g) None (Time_queue d')
            then queue_event KR_Set_Group_Route_ev (sint g) None zero_timeout d' else d'))"

definition buffer_change :: "Node_ID \<Rightarrow> Node_ID \<Rightarrow> Node \<Rightarrow> state_ptr \<Rightarrow> changed_table \<Rightarrow> changed_table" where
  "buffer_change My_Addr sender nd ptr h =
     (let h' = (if Find_Changed_State h (fst ptr) (snd ptr) = None
                then stdhash_insert h (fst ptr) \<lparr>state = ptr, mask = zero_mask\<rparr> else h)
      in modify_changed h' (fst ptr) (snd ptr)
           (\<lambda>cg_state. cg_state\<lparr>mask :=
              (if sender \<noteq> My_Addr then set_informed (nat (neighbor_id nd)) zero_mask else zero_mask)\<rparr>))"

definition stamp_state :: "Prot_Def \<Rightarrow> state_ptr \<Rightarrow> daemon \<Rightarrow> daemon" where
  "stamp_state p_def ptr d = modify_state p_def ptr
     (\<lambda>s. s\<lparr>my_timestamp_sec := sec (wall_clock d), my_timestamp_usec := usec (wall_clock d)\<rparr>) d"

definition schedule_flood :: "Prot_Def \<Rightarrow> daemon \<Rightarrow> daemon" where
  "schedule_flood p_def d =
     (if Changed_States p_def d = []
      then queue_event Send_State_Updates_ev 0 (Some p_def)
             (if Wireless d then wireless_timeout else flood_timeout) d
      else d)"

definition Add_to_changed_states :: "Prot_Def \<Rightarrow> Node_ID \<Rightarrow> state_ptr \<Rightarrow> daemon \<Rightarrow> daemon res" where
  "Add_to_changed_states p_def sender ptr d =
     bind_res (known_sender d sender) (\<lambda>nd.
     let d2 = schedule_flood p_def (stamp_state p_def ptr d) in
     bind_res (if p_def = Groups_Prot_Def then group_changed (snd ptr) d2 else Inr d2) (\<lambda>d3.
       Inr (put_changed p_def (buffer_change (My_Address d) sender nd ptr (Changed_States p_def d3)) d3)))"

section \<open>What the operations keep and change\<close>

lemma All_States_put_states [simp]: "All_States q (put_states p h d) = (if q = p then h else All_States q d)"
  by (cases p; cases q) auto

lemma Changed_States_put_changed [simp]:
  "Changed_States q (put_changed p h d) = (if q = p then h else Changed_States q d)"
  by (cases p; cases q) auto

lemma All_States_put_changed [simp]: "All_States q (put_changed p h d) = All_States q d"
  by (cases p; cases q) auto

lemma Changed_States_put_states [simp]: "Changed_States q (put_states p h d) = Changed_States q d"
  by (cases p; cases q) auto

lemma All_States_modify_state [simp]:
  "All_States q (modify_state p ptr f d) = (if q = p then write_state (All_States p d) ptr f else All_States q d)"
  by (simp add: modify_state_def)

lemma Changed_States_modify_state [simp]: "Changed_States q (modify_state p ptr f d) = Changed_States q d"
  by (simp add: modify_state_def)

text \<open>The rest of the daemon, which no operation on the replicated tables touches.\<close>

definition same_nodes :: "daemon \<Rightarrow> daemon \<Rightarrow> bool" where
  "same_nodes d d' \<longleftrightarrow> ARCH_ENDIAN d' = ARCH_ENDIAN d \<and> My_Address d' = My_Address d \<and> All_Nodes d' = All_Nodes d \<and>
     All_Nodes_by_ID d' = All_Nodes_by_ID d \<and> Num_Neighbors d' = Num_Neighbors d \<and>
     Neighbor_Nodes d' = Neighbor_Nodes d \<and> Network_Legs d' = Network_Legs d \<and>
     wall_clock d' = wall_clock d"

lemma same_nodes_refl [simp]: "same_nodes d d"
  by (simp add: same_nodes_def)

lemma same_nodes_trans: "same_nodes d d' \<Longrightarrow> same_nodes d' d'' \<Longrightarrow> same_nodes d d''"
  by (simp add: same_nodes_def)

lemma same_nodes_put [simp]:
  "same_nodes d (put_states p h d)" "same_nodes d (put_changed p c d)"
  "same_nodes d (modify_state p ptr f d)" "same_nodes d (queue_event e k a t d)" "same_nodes d (emit x d)"
  by (cases p; simp add: same_nodes_def modify_state_def queue_event_def emit_def)+

lemma queue_event_simps [simp]:
  "All_States q (queue_event e k a t d) = All_States q d"
  "Changed_States q (queue_event e k a t d) = Changed_States q d"
  "My_Address (queue_event e k a t d) = My_Address d"
  "All_Groups_by_Name (queue_event e k a t d) = All_Groups_by_Name d"
  "Link_State_Update_LTS (queue_event e k a t d) = Link_State_Update_LTS d"
  by (cases q; simp add: queue_event_def)+

lemma group_changed_Inr:
  assumes "group_changed g d = Inr d'"
  shows "same_nodes d d'" "All_States q d' = All_States q d" "Changed_States q d' = Changed_States q d"
    "All_Groups_by_Name d' = All_Groups_by_Name d" "Link_State_Update_LTS d' = Link_State_Update_LTS d"
  using assms
  by (cases q; auto simp: group_changed_def Discard_Mcast_Neighbors_def same_nodes_def queue_event_def
      split: option.splits if_splits)+

lemma Find_Changed_State_Nil [simp]: "Find_Changed_State [] s t = None"
  by (simp add: Find_Changed_State_def)

lemma Find_Changed_State_Cons:
  "Find_Changed_State ((k, c) # h) s t =
     (if k = s \<and> snd (state c) = t then Some c else Find_Changed_State h s t)"
  by (simp add: Find_Changed_State_def)

lemma Find_Changed_State_append:
  "Find_Changed_State (h @ h') s t =
     (case Find_Changed_State h s t of Some c \<Rightarrow> Some c | None \<Rightarrow> Find_Changed_State h' s t)"
proof (induction h)
  case (Cons e h)
  then show ?case by (cases e) (simp add: Find_Changed_State_Cons)
qed simp

lemma Find_Changed_State_modify:
  assumes "\<And>c. state (f c) = state c"
  shows "Find_Changed_State (modify_changed h s t f) s' t' =
    (if s' = s \<and> t' = t then map_option f (Find_Changed_State h s t) else Find_Changed_State h s' t')"
proof (induction h)
  case (Cons e h)
  then show ?case by (cases e) (auto simp: Find_Changed_State_Cons assms)
qed simp

lemma Find_Changed_State_buffer:
  "Find_Changed_State (buffer_change me sender nd ptr h) s t =
    (if (s, t) = ptr
     then Some (case Find_Changed_State h s t of
        None \<Rightarrow> \<lparr>state = ptr, mask = if sender \<noteq> me then set_informed (nat (neighbor_id nd)) zero_mask else zero_mask\<rparr>
      | Some c \<Rightarrow> c\<lparr>mask := if sender \<noteq> me then set_informed (nat (neighbor_id nd)) zero_mask else zero_mask\<rparr>)
     else Find_Changed_State h s t)"
  by (cases ptr)
    (auto simp: buffer_change_def Let_def Find_Changed_State_modify stdhash_insert_def
      Find_Changed_State_append Find_Changed_State_Cons split: option.splits)

lemma Add_to_changed_states_Inr:
  assumes "Add_to_changed_states p sender ptr d = Inr d'"
  shows "same_nodes d d'" "\<And>q. q \<noteq> p \<Longrightarrow> All_States q d' = All_States q d"
    "\<And>q. q \<noteq> p \<Longrightarrow> Changed_States q d' = Changed_States q d"
    "All_States p d' = write_state (All_States p d) ptr
      (\<lambda>s. s\<lparr>my_timestamp_sec := sec (wall_clock d), my_timestamp_usec := usec (wall_clock d)\<rparr>)"
    "\<exists>nd. known_sender d sender = Inr nd \<and>
       Changed_States p d' = buffer_change (My_Address d) sender nd ptr (Changed_States p d)"
    "All_Groups_by_Name d' = All_Groups_by_Name d" "Link_State_Update_LTS d' = Link_State_Update_LTS d"
proof -
  let ?f = "\<lambda>s. s\<lparr>my_timestamp_sec := sec (wall_clock d), my_timestamp_usec := usec (wall_clock d)\<rparr>"
  define d2 where "d2 = schedule_flood p (stamp_state p ptr d)"
  from assms obtain nd d3 where nd: "known_sender d sender = Inr nd"
    and d3: "(if p = Groups_Prot_Def then group_changed (snd ptr) d2 else Inr d2) = Inr d3"
    and d': "d' = put_changed p (buffer_change (My_Address d) sender nd ptr (Changed_States p d3)) d3"
    unfolding Add_to_changed_states_def Let_def d2_def bind_res_Inr_iff by auto
  have two: "same_nodes d d2" "\<And>q. All_States q d2 = All_States q (modify_state p ptr ?f d)"
    "\<And>q. Changed_States q d2 = Changed_States q d" "All_Groups_by_Name d2 = All_Groups_by_Name d"
    "Link_State_Update_LTS d2 = Link_State_Update_LTS d"
    using same_nodes_trans [OF same_nodes_put(3) same_nodes_put(4)]
    by (auto simp: d2_def schedule_flood_def stamp_state_def modify_state_def) (cases p; simp)+
  have three: "same_nodes d2 d3" "\<And>q. All_States q d3 = All_States q d2"
    "\<And>q. Changed_States q d3 = Changed_States q d2" "All_Groups_by_Name d3 = All_Groups_by_Name d2"
    "Link_State_Update_LTS d3 = Link_State_Update_LTS d2"
    using d3 group_changed_Inr by (auto split: if_splits)
  show "same_nodes d d'"
    using same_nodes_trans [OF two(1) three(1)] same_nodes_trans [OF _ same_nodes_put(2)] d' by blast
  show "\<And>q. q \<noteq> p \<Longrightarrow> All_States q d' = All_States q d" using d' two(2) three(2) by simp
  show "\<And>q. q \<noteq> p \<Longrightarrow> Changed_States q d' = Changed_States q d" using d' two(3) three(3) by simp
  show "All_States p d' = write_state (All_States p d) ptr ?f" using d' two(2) three(2) by simp
  show "\<exists>nd. known_sender d sender = Inr nd \<and>
      Changed_States p d' = buffer_change (My_Address d) sender nd ptr (Changed_States p d)"
    using nd d' two(3) three(3) by simp
  show "All_Groups_by_Name d' = All_Groups_by_Name d" "Link_State_Update_LTS d' = Link_State_Update_LTS d"
    using d' two(4,5) three(4,5) by (cases p; simp)+
qed

end
