(* ===== verification/Link_State.thy ===== *)
theory Link_State
  imports State_Changes
begin

text \<open>
  The link-state protocol (\<open>daemon/link_state.c\<close>): the Lamport time stamp of link-state updates,
  creation of edges, and the functions that \<open>Edge_Prot_Def\<close> registers with the flooding code.
\<close>

section \<open>The update counter\<close>

definition Link_State_LTS_get :: "daemon \<Rightarrow> Link_State_LTS" where
  "Link_State_LTS_get d = Link_State_Update_LTS d"

definition Link_State_LTS_inc :: "daemon \<Rightarrow> Link_State_LTS \<times> daemon" where
  "Link_State_LTS_inc d =
     (Link_State_Update_LTS d + 1, d\<lparr>Link_State_Update_LTS := Link_State_Update_LTS d + 1\<rparr>)"

definition LTS_QUARTER_RANGE :: Link_State_LTS where
  "LTS_QUARTER_RANGE = drop_bit 2 (- 1) + 1"

definition LTS_THREE_QUARTER_RANGE :: Link_State_LTS where
  "LTS_THREE_QUARTER_RANGE = LTS_QUARTER_RANGE + LTS_QUARTER_RANGE + LTS_QUARTER_RANGE"

definition Link_State_LTS_cmp :: "Link_State_LTS \<Rightarrow> Link_State_LTS \<Rightarrow> int" where
  "Link_State_LTS_cmp left right =
     (if left < right
      then if left < LTS_QUARTER_RANGE \<and> LTS_THREE_QUARTER_RANGE \<le> right then 1 else - 1
      else if left \<noteq> right
      then if right < LTS_QUARTER_RANGE \<and> LTS_THREE_QUARTER_RANGE \<le> left then - 1 else 1
      else 0)"

section \<open>Edges\<close>

definition USHRT_MAX :: int16u where "USHRT_MAX = 0xFFFF"

definition set_lts :: "Link_State_LTS \<Rightarrow> State_Data \<Rightarrow> State_Data" where
  "set_lts l s = s\<lparr>own_fields :=
     (case own_fields s of Edge_Fields f \<Rightarrow> Edge_Fields (f\<lparr>lts := l\<rparr>) | Group_Fields g \<Rightarrow> Group_Fields g)\<rparr>"

definition lts_of :: "State_Data \<Rightarrow> Link_State_LTS" where
  "lts_of s = (case own_fields s of Edge_Fields f \<Rightarrow> lts f | Group_Fields _ \<Rightarrow> 0)"

definition new_edge ::
  "sp_time \<Rightarrow> bool \<Rightarrow> Link_State_LTS \<Rightarrow> Node_ID \<Rightarrow> Node_ID \<Rightarrow> int \<Rightarrow> int \<Rightarrow> int16u \<Rightarrow> State_Data" where
  "new_edge now mine l src_id dst_id new_cost new_base_cost new_index =
     \<lparr>source_addr = src_id, dest_addr = dst_id,
      timestamp_sec = (if mine then sec now else 0), timestamp_usec = (if mine then usec now else 0),
      my_timestamp_sec = sec now, my_timestamp_usec = usec now, state_value = new_cost, age = 0,
      own_fields = Edge_Fields \<lparr>base_cost = new_base_cost, index = new_index, lts = l, leg = None\<rparr>\<rparr>"

definition Create_Edge :: "Node_ID \<Rightarrow> Node_ID \<Rightarrow> int \<Rightarrow> int \<Rightarrow> int16u \<Rightarrow> daemon \<Rightarrow> daemon res" where
  "Create_Edge src_id dst_id new_cost new_base_cost new_index d =
     (if Get_Node d src_id = None then Inl (EXIT ''Create_Edge: non existent source'')
      else if Get_Node d dst_id = None then Inl (EXIT ''Create_Edge: non existent destination'')
      else if Get_Edge d src_id dst_id \<noteq> None then Inl (EXIT ''Create_Edge: edge already exists'')
      else let mine = (src_id = My_Address d);
               d1 = (if mine then d\<lparr>All_Nodes := stdhash_modify (All_Nodes d) dst_id
                                      (\<lambda>nd. nd\<lparr>edge := Some (src_id, dst_id)\<rparr>)\<rparr> else d);
               (l, d2) = (if mine then Link_State_LTS_inc d1 else (0, d1))
           in Inr (d2\<lparr>All_Edges := add_state (All_Edges d2)
                (new_edge (wall_clock d) mine l src_id dst_id new_cost new_base_cost new_index)\<rparr>))"

section \<open>The protocol functions\<close>

definition Edge_State_type :: int32u where "Edge_State_type = LINK_STATE_TYPE"
definition Edge_State_header_size :: int where "Edge_State_header_size = 8"
definition Edge_Cell_packet_size :: int where "Edge_Cell_packet_size = 20"
definition Edge_Is_route_change :: bool where "Edge_Is_route_change = True"

definition Edge_Is_state_relevant :: "State_Data \<Rightarrow> bool" where
  "Edge_Is_state_relevant s \<longleftrightarrow> 0 \<le> state_value s"

definition Edge_Set_state_cell :: "State_Data \<Rightarrow> State_Cell \<Rightarrow> State_Cell" where
  "Edge_Set_state_cell s c = c\<lparr>cell_lts := lts_of s\<rparr>"

definition Edge_Process_state_header :: "int32u \<Rightarrow> int32u \<Rightarrow> State_Packet \<Rightarrow> State_Packet" where
  "Edge_Process_state_header arch type pkt =
     (if Same_endian arch type then pkt
      else \<lparr>pkt_source = Flip_int32 (pkt_source pkt), num_cells = Flip_int16 (num_cells pkt),
            src_data = Flip_int16 (src_data pkt)\<rparr>)"

definition get_or_create_node :: "Node_ID \<Rightarrow> daemon \<Rightarrow> daemon res" where
  "get_or_create_node i d = (if Get_Node d i = None then Create_Node i d else Inr d)"

definition get_or_create_edge :: "Node_ID \<Rightarrow> Node_ID \<Rightarrow> daemon \<Rightarrow> daemon res" where
  "get_or_create_edge s t d =
     (if Get_Edge d s t = None then Create_Edge s t (- 1) (- 1) USHRT_MAX d else Inr d)"

text \<open>The four parts of \<open>Edge_Process_state_cell\<close>: find or make the nodes and the edge; take
  over counter and time stamp; then either take over the values of a foreign edge, or answer with a
  newer time stamp for an edge of this node.\<close>

definition Edge_cell_objects :: "Node_ID \<Rightarrow> State_Cell \<Rightarrow> daemon \<Rightarrow> daemon res" where
  "Edge_cell_objects source cell d =
     bind_res (get_or_create_node source d) (\<lambda>d1.
     bind_res (get_or_create_node (dest cell) d1) (\<lambda>d2.
       get_or_create_edge source (dest cell) d2))"

definition Edge_cell_stamp :: "Node_ID \<Rightarrow> State_Cell \<Rightarrow> Link_State_LTS \<Rightarrow> daemon \<Rightarrow> daemon" where
  "Edge_cell_stamp source cell l d =
     modify_state Edge_Prot_Def (source, dest cell)
       (\<lambda>e. e\<lparr>timestamp_sec := sint (cell_sec cell), timestamp_usec := sint (cell_usec cell)\<rparr>)
       (if 0 < Link_State_LTS_cmp l (Link_State_Update_LTS d) then d\<lparr>Link_State_Update_LTS := l\<rparr> else d)"

definition Edge_cell_foreign :: "Node_ID \<Rightarrow> State_Cell \<Rightarrow> Link_State_LTS \<Rightarrow> daemon \<Rightarrow> daemon" where
  "Edge_cell_foreign source cell l d =
     emit MultiPath_Clear_Cache
       (modify_state Edge_Prot_Def (source, dest cell)
         (\<lambda>e. set_lts l (e\<lparr>age := sint (cell_age cell), state_value := sint (cell_value cell)\<rparr>))
         (emit (DG_Process_Edge_Update (source, dest cell) (sint (cell_value cell))) d))"

definition Edge_cell_own :: "Node_ID \<Rightarrow> State_Cell \<Rightarrow> daemon \<Rightarrow> daemon res" where
  "Edge_cell_own source cell d =
     (let (l, d1) = Link_State_LTS_inc (modify_state Edge_Prot_Def (source, dest cell) bump_timestamp d)
      in Add_to_changed_states Edge_Prot_Def (My_Address d) (source, dest cell)
           (modify_state Edge_Prot_Def (source, dest cell) (set_lts l) d1))"

definition Edge_Process_state_cell ::
  "Node_ID \<Rightarrow> Node_ID \<Rightarrow> State_Cell \<Rightarrow> int32u \<Rightarrow> daemon \<Rightarrow> (state_ptr option \<times> daemon) res"
where
  "Edge_Process_state_cell source sender cell type d =
     (let l = (if Same_endian (ARCH_ENDIAN d) type then cell_lts cell else Flip_int16 (cell_lts cell))
      in bind_res (Edge_cell_objects source cell d) (\<lambda>d1.
         let d2 = Edge_cell_stamp source cell l d1
         in if source \<noteq> My_Address d
            then Inr (Some (source, dest cell), Edge_cell_foreign source cell l d2)
            else bind_res (Edge_cell_own source cell d2) (\<lambda>d3. Inr (None, d3))))"

end
