(* ===== verification/Multicast.thy ===== *)
theory Multicast
  imports State_Changes
begin

text \<open>
  Group membership (\<open>daemon/multicast.c\<close>): creation of group states in the tables by node and by
  name, joining and leaving by local sessions, and the functions that \<open>Groups_Prot_Def\<close> registers
  with the flooding code. Of a session, the members used here are modelled.
\<close>

definition UDP_SES_TYPE :: int where "UDP_SES_TYPE = 1"

record Session =
  sess_id :: int
  ses_type :: int
  joined_groups :: "(Group_ID, state_ptr) stdhash"

section \<open>The protocol functions\<close>

definition Groups_State_type :: int32u where "Groups_State_type = GROUP_STATE_TYPE"
definition Groups_State_header_size :: int where "Groups_State_header_size = 8"
definition Groups_Cell_packet_size :: int where "Groups_Cell_packet_size = 16"
definition Groups_Is_route_change :: bool where "Groups_Is_route_change = False"

definition Groups_Is_state_relevant :: "State_Data \<Rightarrow> bool" where
  "Groups_Is_state_relevant s \<longleftrightarrow> is_active s"

definition Groups_Process_state_header :: "int32u \<Rightarrow> int32u \<Rightarrow> State_Packet \<Rightarrow> State_Packet" where
  "Groups_Process_state_header arch type pkt =
     (if Same_endian arch type then pkt
      else \<lparr>pkt_source = Flip_int32 (pkt_source pkt), num_cells = Flip_int16 (num_cells pkt),
            src_data = Flip_int16 (src_data pkt)\<rparr>)"

section \<open>Creating a group state\<close>

definition add_by_name ::
  "(Group_ID, (Node_ID, state_ptr) stdhash) stdhash \<Rightarrow> Node_ID \<Rightarrow> Group_ID \<Rightarrow>
   (Group_ID, (Node_ID, state_ptr) stdhash) stdhash" where
  "add_by_name h n g =
     (let h' = (if stdhash_find h g = None then stdhash_put h g [] else h)
      in stdhash_modify h' g (\<lambda>c. stdhash_put c n (n, g)))"

definition put_state :: "state_table \<Rightarrow> State_Data \<Rightarrow> state_table" where
  "put_state h s =
     (let h' = (if stdhash_find h (source_addr s) = None
                then stdhash_put h (source_addr s) \<lparr>address = source_addr s, states = []\<rparr> else h)
      in stdhash_modify h' (source_addr s)
           (\<lambda>c. c\<lparr>states := stdhash_put (states c) (dest_addr s) s\<rparr>))"

definition new_group :: "sp_time \<Rightarrow> bool \<Rightarrow> Node_ID \<Rightarrow> Group_ID \<Rightarrow> State_Data" where
  "new_group now mine n mcast_address =
     \<lparr>source_addr = n, dest_addr = mcast_address,
      timestamp_sec = (if mine then sec now else 0), timestamp_usec = (if mine then usec now else 0),
      my_timestamp_sec = sec now, my_timestamp_usec = usec now,
      state_value = 0, age = 0, own_fields = Group_Fields []\<rparr>"

definition Create_Group :: "Node_ID \<Rightarrow> Group_ID \<Rightarrow> daemon \<Rightarrow> daemon res" where
  "Create_Group n mcast_address d =
     (if Find_State (All_Groups_by_Node d) n mcast_address \<noteq> None
      then Inl (EXIT ''Create_Group: group already exists'')
      else Inr (d\<lparr>All_Groups_by_Node := put_state (All_Groups_by_Node d)
                    (new_group (wall_clock d) (My_Address d = n) n mcast_address),
                  All_Groups_by_Name := add_by_name (All_Groups_by_Name d) n mcast_address\<rparr>))"

definition get_or_create_group :: "Node_ID \<Rightarrow> Group_ID \<Rightarrow> daemon \<Rightarrow> daemon res" where
  "get_or_create_group n g d =
     (if Find_State (All_Groups_by_Node d) n g = None then Create_Group n g d else Inr d)"

definition Groups_Process_state_cell ::
  "Node_ID \<Rightarrow> Node_ID \<Rightarrow> State_Cell \<Rightarrow> int32u \<Rightarrow> daemon \<Rightarrow> (state_ptr option \<times> daemon) res"
where
  "Groups_Process_state_cell source sender cell type d =
     (let ptr = (source, dest cell) in
      bind_res (get_or_create_group source (dest cell) d) (\<lambda>d1.
      let d2 = modify_state Groups_Prot_Def ptr
                 (\<lambda>g. g\<lparr>timestamp_sec := sint (cell_sec cell), timestamp_usec := sint (cell_usec cell)\<rparr>) d1
      in if source \<noteq> My_Address d
         then Inr (Some ptr, modify_state Groups_Prot_Def ptr
                (\<lambda>g. g\<lparr>age := sint (cell_age cell), state_value := sint (cell_value cell)\<rparr>) d2)
         else let d3 = modify_state Groups_Prot_Def ptr bump_timestamp d2
              in bind_res (Add_to_changed_states Groups_Prot_Def (My_Address d) ptr d3) (\<lambda>d4.
                 Inr (None, d4))))"

section \<open>Joining and leaving\<close>

definition set_active :: "State_Data \<Rightarrow> State_Data" where
  "set_active g = g\<lparr>state_value := state_value g OR 1\<rparr>"

definition clear_active :: "State_Data \<Rightarrow> State_Data" where
  "clear_active g = g\<lparr>state_value := state_value g AND NOT 1\<rparr>"

definition sessions_of :: "State_Data \<Rightarrow> (int, int) stdhash" where
  "sessions_of g = (case own_fields g of Group_Fields h \<Rightarrow> h | Edge_Fields _ \<Rightarrow> [])"

definition put_sessions :: "(int, int) stdhash \<Rightarrow> State_Data \<Rightarrow> State_Data" where
  "put_sessions h g = g\<lparr>own_fields := Group_Fields h\<rparr>"

text \<open>Both return the C result, the session and the daemon. \<open>2\<close>: the group has become active,
  \<open>1\<close>: it was active, \<open>-1\<close>: refused.\<close>

definition Join_Group :: "Group_ID \<Rightarrow> Session \<Rightarrow> daemon \<Rightarrow> (int \<times> Session \<times> daemon) res" where
  "Join_Group mcast_address ses d =
     (if \<not> Is_mcast_addr mcast_address \<and> \<not> Is_acast_addr mcast_address then Inr (- 1, ses, d)
      else if ses_type ses \<noteq> UDP_SES_TYPE then Inr (- 1, ses, d)
      else if stdhash_contains (joined_groups ses) mcast_address then Inr (1, ses, d)
      else let ptr = (My_Address d, mcast_address) in
        bind_res (get_or_create_group (My_Address d) mcast_address d) (\<lambda>d1.
        case Find_State (All_Groups_by_Node d1) (My_Address d) mcast_address of
          None \<Rightarrow> Inl (UNDEF ''Join_Group'')
        | Some g_state \<Rightarrow>
            bind_res
              (if is_active g_state then Inr (1, d1)
               else bind_res (Add_to_changed_states Groups_Prot_Def (My_Address d) ptr
                      (modify_state Groups_Prot_Def ptr (\<lambda>g. bump_timestamp (set_active g)) d1)) (\<lambda>d2. Inr (2, d2)))
              (\<lambda>(ret, d2).
                Inr (ret, ses\<lparr>joined_groups := stdhash_insert (joined_groups ses) mcast_address ptr\<rparr>,
                  modify_state Groups_Prot_Def ptr
                    (\<lambda>g. put_sessions (stdhash_insert (sessions_of g) (sess_id ses) (sess_id ses)) g) d2))))"

definition Leave_Group :: "Group_ID \<Rightarrow> Session \<Rightarrow> daemon \<Rightarrow> (int \<times> Session \<times> daemon) res" where
  "Leave_Group mcast_address ses d =
     (if \<not> Is_mcast_addr mcast_address \<and> \<not> Is_acast_addr mcast_address then Inr (- 1, ses, d)
      else case stdhash_find (joined_groups ses) mcast_address of
        None \<Rightarrow> Inr (1, ses, d)
      | Some ptr \<Rightarrow>
          let ses' = ses\<lparr>joined_groups := stdhash_erase (joined_groups ses) mcast_address\<rparr> in
          case Find_State (All_Groups_by_Node d) (fst ptr) (snd ptr) of
            None \<Rightarrow> Inl (UNDEF ''Leave_Group'')
          | Some g_state \<Rightarrow>
              if \<not> stdhash_contains (sessions_of g_state) (sess_id ses)
              then Inl (EXIT ''Leave_Group: session not in the group array'')
              else let left = stdhash_erase (sessions_of g_state) (sess_id ses);
                       d1 = modify_state Groups_Prot_Def ptr (put_sessions left) d
                   in if left \<noteq> [] then Inr (1, ses', d1)
                      else bind_res (Add_to_changed_states Groups_Prot_Def (My_Address d) ptr
                             (modify_state Groups_Prot_Def ptr (\<lambda>g. bump_timestamp (clear_active g)) d1)) (\<lambda>d2.
                             Inr (1, ses', d2)))"

section \<open>Members of a group\<close>

definition MAX_COUNT :: nat where "MAX_COUNT = 64"

record trace_entry =
  trace_address :: Node_ID
  trace_distance :: int
  trace_cost :: int

text \<open>The loop over the states of the group; \<open>tr\<close> has what is written so far.\<close>

fun group_members_loop :: "daemon \<Rightarrow> state_ptr list \<Rightarrow> trace_entry list \<Rightarrow> trace_entry list res" where
  "group_members_loop d [] tr = Inr tr"
| "group_members_loop d (ptr # ptrs) tr =
     (case Find_State (All_Groups_by_Node d) (fst ptr) (snd ptr) of
        None \<Rightarrow> Inl (UNDEF ''Get_Group_Members'')
      | Some g_state \<Rightarrow>
          bind_res
            (if \<not> is_active g_state then Inr tr
             else if source_addr g_state = My_Address d
             then Inr (tr @ [\<lparr>trace_address = source_addr g_state, trace_distance = 0, trace_cost = 0\<rparr>])
             else bind_res (Find_Route d (My_Address d) (source_addr g_state)) (\<lambda>route.
                    case route of
                      None \<Rightarrow> Inr tr
                    | Some r \<Rightarrow>
                        if 0 \<le> distance r \<and> 0 \<le> cost r
                        then Inr (tr @ [\<lparr>trace_address = source_addr g_state,
                                         trace_distance = distance r, trace_cost = cost r\<rparr>])
                        else Inr tr))
            (\<lambda>tr'. if length tr' = MAX_COUNT then Inr tr' else group_members_loop d ptrs tr'))"

definition Get_Group_Members :: "daemon \<Rightarrow> Group_ID \<Rightarrow> (int \<times> trace_entry list) res" where
  "Get_Group_Members d mcast_address =
     (case stdhash_find (All_Groups_by_Name d) mcast_address of
        None \<Rightarrow> Inr (0, [])
      | Some s_chain_grp \<Rightarrow>
          bind_res (group_members_loop d (stdhash_vals s_chain_grp) []) (\<lambda>tr. Inr (1, tr)))"

end
