(* ===== verification/State_Inv.thy ===== *)
theory State_Inv
  imports Link_State Multicast
begin

text \<open>
  The invariant of the replicated tables: states are kept under the keys they carry, edges connect
  known nodes, and the buffers of changed states refer to existing states, once each. Every
  operation of the link-state and the group protocol keeps it.
\<close>

definition changed_ok :: "state_table \<Rightarrow> changed_table \<Rightarrow> bool" where
  "changed_ok h c \<longleftrightarrow>
     (\<forall>(k, cg) \<in> set c. fst (state cg) = k \<and> Find_State h (fst (state cg)) (snd (state cg)) \<noteq> None
        \<and> length (mask cg) = MAX_NEIGHBORS div 32) \<and>
     distinct (map (\<lambda>(k, cg). state cg) c)"

definition tables_ok :: "daemon \<Rightarrow> bool" where
  "tables_ok d \<longleftrightarrow> nodes_ok d \<and>
     (\<forall>p. table_ok (All_States p d) \<and> changed_ok (All_States p d) (Changed_States p d)) \<and>
     (\<forall>s t. Find_State (All_Edges d) s t \<noteq> None \<longrightarrow> Get_Node d s \<noteq> None \<and> Get_Node d t \<noteq> None)"

lemma tables_okD:
  assumes "tables_ok d"
  shows "nodes_ok d" "table_ok (All_States p d)" "changed_ok (All_States p d) (Changed_States p d)"
    "Find_State (All_Edges d) s t = Some e \<Longrightarrow> Get_Node d s \<noteq> None \<and> Get_Node d t \<noteq> None"
  using assms unfolding tables_ok_def by blast+

lemma tables_ok_All_Edges: "tables_ok d \<Longrightarrow> table_ok (All_Edges d)"
  using tables_okD(2) [of d Edge_Prot_Def] by simp

lemma changed_ok_mono:
  "changed_ok h c \<Longrightarrow> (\<And>s t. Find_State h s t \<noteq> None \<Longrightarrow> Find_State h' s t \<noteq> None) \<Longrightarrow> changed_ok h' c"
  by (force simp: changed_ok_def)

lemma Find_State_write_state_None: "Find_State (write_state h ptr f) s t = None \<longleftrightarrow> Find_State h s t = None"
  by (simp add: Find_State_write_state)

text \<open>Two daemons that agree on the invariant's tables.\<close>

lemma tables_ok_cong:
  assumes "All_Nodes d' = All_Nodes d" "All_Nodes_by_ID d' = All_Nodes_by_ID d" "My_Address d' = My_Address d"
    and "\<And>p. All_States p d' = All_States p d" "\<And>p. Changed_States p d' = Changed_States p d"
  shows "tables_ok d' = tables_ok d"
proof -
  have "All_Edges d' = All_Edges d" using assms(4) [of Edge_Prot_Def] by simp
  with assms show ?thesis by (simp add: tables_ok_def nodes_ok_def Get_Node_def)
qed

lemma changed_ok_write_state: "changed_ok (write_state h ptr f) c = changed_ok h c"
  by (auto simp: changed_ok_def Find_State_write_state_None simp del: not_None_eq)

lemma nodes_ok_same_nodes: "same_nodes d d' \<Longrightarrow> nodes_ok d' = nodes_ok d"
  by (simp add: same_nodes_def nodes_ok_def)

lemma tables_ok_modify_state:
  assumes ok: "tables_ok d" and key: "\<And>s. state_key (f s) = state_key s"
  shows "tables_ok (modify_state p ptr f d)"
proof -
  let ?d = "modify_state p ptr f d"
  have nodes: "nodes_ok ?d" using ok nodes_ok_same_nodes [OF same_nodes_put(3)] by (auto simp: tables_ok_def)
  have get: "Get_Node ?d = Get_Node d" by (cases p) (auto simp: modify_state_def Get_Node_def)
  have table: "table_ok (All_States q ?d)" for q
    using tables_okD(2) [OF ok] table_ok_write_state [of "All_States p d" ptr f] key by simp
  have changed: "changed_ok (All_States q ?d) (Changed_States q ?d)" for q
    using tables_okD(3) [OF ok, of q] by (auto simp: changed_ok_write_state)
  have "Find_State (All_Edges ?d) s t \<noteq> None \<longleftrightarrow> Find_State (All_Edges d) s t \<noteq> None" for s t
    by (cases p) (auto simp: modify_state_def Find_State_write_state_None)
  with ok nodes get table changed show ?thesis by (simp add: tables_ok_def)
qed

lemma distinct_modify_changed:
  assumes "\<And>c. state (f c) = state c"
  shows "map (\<lambda>(k, cg). state cg) (modify_changed h s t f) = map (\<lambda>(k, cg). state cg) h"
proof (induction h)
  case (Cons e h)
  then show ?case by (cases e) (simp add: assms)
qed simp

lemma in_modify_changed:
  "(k, c) \<in> set (modify_changed h s t f) \<Longrightarrow> (k, c) \<in> set h \<or> (\<exists>c'. (k, c') \<in> set h \<and> c = f c')"
proof (induction h)
  case (Cons e h)
  then show ?case by (cases e) (auto split: if_splits)
qed simp

lemma changed_ok_modify:
  assumes "changed_ok h c" "\<And>x. state (f x) = state x"
    and "\<And>x. length (mask x) = MAX_NEIGHBORS div 32 \<Longrightarrow> length (mask (f x)) = MAX_NEIGHBORS div 32"
  shows "changed_ok h (modify_changed c s t f)"
proof -
  have "fst (state x) = k \<and> Find_State h (fst (state x)) (snd (state x)) \<noteq> None
      \<and> length (mask x) = MAX_NEIGHBORS div 32" if "(k, x) \<in> set (modify_changed c s t f)" for k x
    using in_modify_changed [OF that] assms by (fastforce simp: changed_ok_def)
  then show ?thesis
    using assms(1) distinct_modify_changed [OF assms(2)] by (auto simp: changed_ok_def)
qed

lemma Find_Changed_State_None:
  assumes "changed_ok h c" "Find_Changed_State c s t = None" "(k, x) \<in> set c"
  shows "state x \<noteq> (s, t)"
  using assms by (fastforce simp: Find_Changed_State_def find_None_iff changed_ok_def)

lemma changed_ok_buffer:
  assumes "changed_ok h c" "Find_State h (fst ptr) (snd ptr) \<noteq> None"
  shows "changed_ok h (buffer_change me sender nd ptr c)"
proof -
  have "changed_ok h (c @ [(fst ptr, \<lparr>state = ptr, mask = zero_mask\<rparr>)])"
    if "Find_Changed_State c (fst ptr) (snd ptr) = None"
    using assms Find_Changed_State_None [OF assms(1) that]
    by (auto simp: changed_ok_def MAX_NEIGHBORS_def)
  then show ?thesis using assms(1)
    by (auto simp: buffer_change_def Let_def stdhash_insert_def MAX_NEIGHBORS_def intro!: changed_ok_modify)
qed

lemma tables_ok_Add_to_changed_states:
  assumes ok: "tables_ok d" and "Find_State (All_States p d) (fst ptr) (snd ptr) \<noteq> None"
    and add: "Add_to_changed_states p sender ptr d = Inr d'"
  shows "tables_ok d'"
proof -
  let ?f = "\<lambda>s. s\<lparr>my_timestamp_sec := sec (wall_clock d), my_timestamp_usec := usec (wall_clock d)\<rparr>"
  note A = Add_to_changed_states_Inr [OF add]
  have m: "tables_ok (modify_state p ptr ?f d)"
    by (rule tables_ok_modify_state [OF ok]) (simp add: state_key_def)
  have st: "All_States q d' = All_States q (modify_state p ptr ?f d)" for q
    using A(2,4) by (cases "q = p") auto
  have ch: "changed_ok (All_States q d') (Changed_States q d')" for q
  proof (cases "q = p")
    case True
    obtain nd where "Changed_States p d' = buffer_change (My_Address d) sender nd ptr (Changed_States p d)"
      using A(5) by blast
    moreover have "changed_ok (All_States p d') (Changed_States p d)"
      using tables_okD(3) [OF m, of p] st [of p] by simp
    moreover have "Find_State (All_States p d') (fst ptr) (snd ptr) \<noteq> None"
      using assms(2) st [of p] by (simp add: Find_State_write_state_None del: not_None_eq)
    ultimately show ?thesis using True changed_ok_buffer by simp
  next
    case False
    then show ?thesis using tables_okD(3) [OF m, of q] A(3) st [of q] by simp
  qed
  have g: "Get_Node d' = Get_Node (modify_state p ptr ?f d)"
    using A(1) same_nodes_put(3) [of d p ptr ?f] by (simp add: same_nodes_def Get_Node_def fun_eq_iff)
  have "nodes_ok d'" using A(1) ok nodes_ok_same_nodes tables_okD(1) by blast
  moreover have "All_Edges d' = All_Edges (modify_state p ptr ?f d)"
    using st [of Edge_Prot_Def] by (simp only: All_States.simps)
  ultimately show ?thesis using m st ch g by (simp add: tables_ok_def del: All_States_modify_state)
qed

end
