(* ===== verification/State_Protocol.thy ===== *)
theory State_Protocol
  imports State_Inv
begin

text \<open>
  The contract of a flooded protocol (\<open>Prot_Def\<close> of \<open>state_flood.h\<close>) as a locale, with what the
  flooding code gets out of it, and its interpretations: the link-state and the group protocol both
  keep it.
\<close>

section \<open>Time stamps\<close>

definition ts :: "State_Data \<Rightarrow> int \<times> int" where
  "ts s = (timestamp_sec s, timestamp_usec s)"

definition cell_ts :: "State_Cell \<Rightarrow> int \<times> int" where
  "cell_ts c = (sint (cell_sec c), sint (cell_usec c))"

definition ts_less :: "int \<times> int \<Rightarrow> int \<times> int \<Rightarrow> bool" where
  "ts_less a b \<longleftrightarrow> fst a < fst b \<or> fst a = fst b \<and> snd a < snd b"

definition ts_le :: "int \<times> int \<Rightarrow> int \<times> int \<Rightarrow> bool" where
  "ts_le a b \<longleftrightarrow> ts_less a b \<or> a = b"

lemma ts_le_refl [simp]: "ts_le a a"
  by (simp add: ts_le_def)

lemma ts_le_trans: "ts_le a b \<Longrightarrow> ts_le b c \<Longrightarrow> ts_le a c"
  by (cases a; cases b; cases c) (auto simp: ts_le_def ts_less_def)

lemma ts_less_le_trans: "ts_less a b \<Longrightarrow> ts_le b c \<Longrightarrow> ts_less a c"
  by (cases a; cases b; cases c) (auto simp: ts_le_def ts_less_def)

lemma ts_not_less: "\<not> ts_less a b \<longleftrightarrow> ts_le b a"
  by (cases a; cases b) (auto simp: ts_le_def ts_less_def)

lemma ts_less_irrefl [simp]: "\<not> ts_less a a"
  by (simp add: ts_less_def)

lemma ts_bump: "ts_less (ts s) (ts (bump_timestamp s))"
  by (auto simp: ts_def ts_less_def bump_timestamp_def)

lemma bump_simps [simp]:
  "state_key (bump_timestamp s) = state_key s" "state_value (bump_timestamp s) = state_value s"
  "own_fields (bump_timestamp s) = own_fields s" "age (bump_timestamp s) = age s"
  by (simp_all add: bump_timestamp_def state_key_def)

lemma set_lts_simps [simp]:
  "state_key (set_lts l s) = state_key s" "state_value (set_lts l s) = state_value s"
  "ts (set_lts l s) = ts s" "age (set_lts l s) = age s"
  by (simp_all add: set_lts_def state_key_def ts_def)

section \<open>The part of the daemon that a cell leaves alone\<close>

definition env_le :: "daemon \<Rightarrow> daemon \<Rightarrow> bool" where
  "env_le d d' \<longleftrightarrow> ARCH_ENDIAN d' = ARCH_ENDIAN d \<and> My_Address d' = My_Address d \<and>
     wall_clock d' = wall_clock d \<and>
     (\<forall>i nd. Get_Node d i = Some nd \<longrightarrow> (\<exists>nd'. Get_Node d' i = Some nd' \<and> neighbor_id nd' = neighbor_id nd))"

lemma env_le_refl [simp]: "env_le d d"
  by (simp add: env_le_def)

lemma env_le_trans: "env_le d d' \<Longrightarrow> env_le d' d'' \<Longrightarrow> env_le d d''"
  unfolding env_le_def by metis

lemma env_le_Get_Node: "env_le d d' \<Longrightarrow> Get_Node d i \<noteq> None \<Longrightarrow> Get_Node d' i \<noteq> None"
  unfolding env_le_def by fastforce

lemma env_le_same_nodes: "same_nodes d d' \<Longrightarrow> env_le d d'"
  by (simp add: same_nodes_def env_le_def Get_Node_def)

section \<open>The contract\<close>

type_synonym process_cell =
  "Node_ID \<Rightarrow> Node_ID \<Rightarrow> State_Cell \<Rightarrow> int32u \<Rightarrow> daemon \<Rightarrow> (state_ptr option \<times> daemon) res"

locale state_protocol =
  fixes p :: Prot_Def and process :: process_cell
  assumes cell_env: "tables_ok d \<Longrightarrow> process source sender c ty d = Inr (r, d') \<Longrightarrow> env_le d d'"
    and cell_tables: "tables_ok d \<Longrightarrow> process source sender c ty d = Inr (r, d') \<Longrightarrow> tables_ok d'"
    and cell_other_prot: "tables_ok d \<Longrightarrow> process source sender c ty d = Inr (r, d') \<Longrightarrow> q \<noteq> p \<Longrightarrow>
      All_States q d' = All_States q d \<and> Changed_States q d' = Changed_States q d"
    and cell_other_state: "tables_ok d \<Longrightarrow> process source sender c ty d = Inr (r, d') \<Longrightarrow>
      (s, t) \<noteq> (source, dest c) \<Longrightarrow> Find_State (All_States p d') s t = Find_State (All_States p d) s t"
    and cell_foreign: "tables_ok d \<Longrightarrow> process source sender c ty d = Inr (r, d') \<Longrightarrow>
      source \<noteq> My_Address d \<Longrightarrow> r = Some (source, dest c) \<and> Changed_States p d' = Changed_States p d \<and>
        (\<exists>x. Find_State (All_States p d') source (dest c) = Some x \<and> ts x = cell_ts c \<and>
           state_value x = sint (cell_value c) \<and> age x = sint (cell_age c))"
    and cell_other_change: "tables_ok d \<Longrightarrow> process source sender c ty d = Inr (r, d') \<Longrightarrow>
      (s, t) \<noteq> (source, dest c) \<Longrightarrow>
      Find_Changed_State (Changed_States p d') s t = Find_Changed_State (Changed_States p d) s t"
    and cell_own: "tables_ok d \<Longrightarrow> process source sender c ty d = Inr (r, d') \<Longrightarrow>
      source = My_Address d \<Longrightarrow> r = None \<and>
        (\<exists>x. Find_State (All_States p d') source (dest c) = Some x \<and> ts_less (cell_ts c) (ts x) \<and>
           (\<forall>y. Find_State (All_States p d) source (dest c) = Some y \<longrightarrow> state_value x = state_value y)) \<and>
        (\<exists>cg. Find_Changed_State (Changed_States p d') source (dest c) = Some cg \<and> mask cg = zero_mask)"
begin

lemma cell_learned:
  assumes "tables_ok d" "process source sender c ty d = Inr (r, d')"
  shows "\<exists>x. Find_State (All_States p d') source (dest c) = Some x \<and> ts_le (cell_ts c) (ts x)"
proof (cases "source = My_Address d")
  case True
  then show ?thesis using cell_own [OF assms True] by (auto simp: ts_le_def)
next
  case False
  then show ?thesis using cell_foreign [OF assms False] by (auto simp: ts_le_def)
qed

end

section \<open>Edges\<close>

lemma Create_Node_tables:
  assumes "Create_Node i d = Inr d'" and "tables_ok d"
  shows "tables_ok d'" "env_le d d'" "Get_Node d' i \<noteq> None" "All_States q d' = All_States q d"
    "Changed_States q d' = Changed_States q d" "Link_State_Update_LTS d' = Link_State_Update_LTS d"
proof -
  note C = Create_Node_Inr [OF assms(1)] and G = Get_Node_Create_Node [OF assms(1)]
  have same: "ARCH_ENDIAN d' = ARCH_ENDIAN d" "wall_clock d' = wall_clock d"
    "Link_State_Update_LTS d' = Link_State_Update_LTS d" "Changed_Edges d' = Changed_Edges d"
    "Changed_Group_States d' = Changed_Group_States d"
    using assms(1) by (auto simp: Create_Node_def Let_def split: if_splits)
  show st: "All_States q d' = All_States q d" "Changed_States q d' = Changed_States q d" for q
    using C(5,6) same by (cases q; simp)+
  show env: "env_le d d'" using C(1,4) G same by (auto simp: env_le_def)
  show "Get_Node d' i \<noteq> None" using G by simp
  show "Link_State_Update_LTS d' = Link_State_Update_LTS d" by (rule same(3))
  have "nodes_ok d'" using assms Create_Node_ok tables_okD(1) by blast
  moreover have "table_ok (All_States q d') \<and> changed_ok (All_States q d') (Changed_States q d')" for q
    using tables_okD(2,3) [OF assms(2), of q] st [of q] by simp
  moreover have "Get_Node d' s \<noteq> None \<and> Get_Node d' t \<noteq> None" if "Find_State (All_Edges d') s t \<noteq> None" for s t
    using that assms(2) env_le_Get_Node [OF env] C(5) unfolding tables_ok_def by metis
  ultimately show "tables_ok d'" unfolding tables_ok_def by blast
qed

lemma get_or_create_node_cases:
  assumes "get_or_create_node i d = Inr d'"
  obtains "Get_Node d i \<noteq> None" "d' = d" | "Create_Node i d = Inr d'"
  using assms by (cases "Get_Node d i = None") (simp_all add: get_or_create_node_def)

lemma get_or_create_node_Inr:
  assumes "get_or_create_node i d = Inr d'" and "tables_ok d"
  shows "tables_ok d'" "env_le d d'" "Get_Node d' i \<noteq> None" "All_States q d' = All_States q d"
    "Changed_States q d' = Changed_States q d" "Link_State_Update_LTS d' = Link_State_Update_LTS d"
  using get_or_create_node_cases [OF assms(1)] Create_Node_tables [OF _ assms(2)] assms(2)
  by (metis env_le_refl)+

lemma Create_Edge_Inr:
  assumes "Create_Edge s t c b x d = Inr d'"
  shows "Get_Edge d s t = None" "Get_Node d s \<noteq> None" "Get_Node d t \<noteq> None"
    "\<exists>l. All_Edges d' = add_state (All_Edges d) (new_edge (wall_clock d) (s = My_Address d) l s t c b x)"
    "ARCH_ENDIAN d' = ARCH_ENDIAN d" "My_Address d' = My_Address d" "wall_clock d' = wall_clock d"
    "All_Nodes_by_ID d' = All_Nodes_by_ID d"
    "All_Nodes d' = (if s = My_Address d
       then stdhash_modify (All_Nodes d) t (\<lambda>nd. nd\<lparr>edge := Some (s, t)\<rparr>) else All_Nodes d)"
    "All_Groups_by_Node d' = All_Groups_by_Node d" "Changed_Edges d' = Changed_Edges d"
    "Changed_Group_States d' = Changed_Group_States d"
  using assms
  by (auto simp: Create_Edge_def Link_State_LTS_inc_def Let_def split: if_splits)

lemma nodes_ok_modify:
  assumes "nodes_ok d" "All_Nodes d' = stdhash_modify (All_Nodes d) t f" "\<And>nd. nid (f nd) = nid nd"
    "All_Nodes_by_ID d' = All_Nodes_by_ID d" "My_Address d' = My_Address d"
  shows "nodes_ok d'"
proof -
  have keys: "fst ` set (All_Nodes d') = fst ` set (All_Nodes d)"
    using keys_stdhash_modify [of "All_Nodes d" t f] assms(2) by (metis list.set_map)
  have "nid nd = k" if "(k, nd) \<in> set (All_Nodes d')" for k nd
    using in_stdhash_modify [of k nd "All_Nodes d" t f] that assms(1-3) by (fastforce simp: nodes_ok_def)
  with assms keys show ?thesis by (auto simp: nodes_ok_def sh.ok_modify)
qed

lemma Create_Edge_tables:
  assumes "Create_Edge s t c b x d = Inr d'" and ok: "tables_ok d"
  shows "tables_ok d'" "env_le d d'" "q \<noteq> Edge_Prot_Def \<Longrightarrow> All_States q d' = All_States q d"
    "Changed_States q d' = Changed_States q d"
    "(u, v) \<noteq> (s, t) \<Longrightarrow> Find_State (All_Edges d') u v = Find_State (All_Edges d) u v"
    "Find_State (All_Edges d') s t \<noteq> None"
proof -
  note C = Create_Edge_Inr [OF assms(1)]
  obtain l where l: "All_Edges d' = add_state (All_Edges d) (new_edge (wall_clock d) (s = My_Address d) l s t c b x)"
    using C(4) by blast
  define e where "e = new_edge (wall_clock d) (s = My_Address d) l s t c b x"
  have e: "source_addr e = s" "dest_addr e = t" "All_Edges d' = add_state (All_Edges d) e"
    using l by (simp_all add: e_def new_edge_def)
  have absent: "Find_State (All_Edges d) (source_addr e) (dest_addr e) = None"
    using C(1) e by (simp add: Get_Edge_def)
  have find: "Find_State (All_Edges d') u v = (if (u, v) = (s, t) then Some e else Find_State (All_Edges d) u v)" for u v
    using Find_State_add_state [OF absent] e by (simp add: state_key_def)
  show "Find_State (All_Edges d') u v = Find_State (All_Edges d) u v" if "(u, v) \<noteq> (s, t)"
    using find [of u v] that by auto
  show "Find_State (All_Edges d') s t \<noteq> None" using find by simp
  show st: "q \<noteq> Edge_Prot_Def \<Longrightarrow> All_States q d' = All_States q d"
    "Changed_States q d' = Changed_States q d" for q
    using C(10-12) by (cases q; simp)+
  have get: "Get_Node d' i \<noteq> None \<longleftrightarrow> Get_Node d i \<noteq> None" for i
    using C(9) by (simp add: Get_Node_def sh.find_modify)
  have "\<exists>nd'. Get_Node d' i = Some nd' \<and> neighbor_id nd' = neighbor_id nd" if "Get_Node d i = Some nd" for i nd
    using that C(9) by (auto simp: Get_Node_def sh.find_modify)
  then show env: "env_le d d'" using C(5-7) by (simp add: env_le_def)
  have "nodes_ok d'"
  proof (cases "s = My_Address d")
    case True
    then show ?thesis using nodes_ok_modify [OF tables_okD(1) [OF ok]] C(6,8,9) by simp
  next
    case False
    then show ?thesis using tables_okD(1) [OF ok] C(6,8,9) by (simp add: nodes_ok_def)
  qed
  moreover have "table_ok (All_States q d')" for q
    using tables_okD(2) [OF ok, of q] table_ok_add_state [OF tables_ok_All_Edges [OF ok] absent] e(3) st(1) [of q]
    by (cases q) auto
  moreover have "changed_ok (All_States q d') (Changed_States q d')" for q
  proof (cases "q = Edge_Prot_Def")
    case True
    have "changed_ok (All_Edges d) (Changed_Edges d)" using tables_okD(3) [OF ok, of Edge_Prot_Def] by simp
    then have "changed_ok (All_Edges d') (Changed_Edges d)"
      by (rule changed_ok_mono) (use find in auto)
    with True C(11) show ?thesis by simp
  next
    case False
    then show ?thesis using tables_okD(3) [OF ok, of q] st [of q] by simp
  qed
  moreover have "Get_Node d' u \<noteq> None \<and> Get_Node d' v \<noteq> None" if "Find_State (All_Edges d') u v \<noteq> None" for u v
    using that find [of u v] C(2,3) tables_okD(4) [OF ok, of u v] get by (metis option.exhaust prod.inject)
  ultimately show "tables_ok d'" unfolding tables_ok_def by blast
qed

lemma tables_ok_LTS [simp]: "tables_ok (d\<lparr>Link_State_Update_LTS := l\<rparr>) = tables_ok d"
proof (rule tables_ok_cong)
  show "All_States p (d\<lparr>Link_State_Update_LTS := l\<rparr>) = All_States p d"
    "Changed_States p (d\<lparr>Link_State_Update_LTS := l\<rparr>) = Changed_States p d" for p
    by (cases p; simp)+
qed simp_all

lemma tables_ok_emit [simp]: "tables_ok (emit c d) = tables_ok d"
proof (rule tables_ok_cong)
  show "All_States p (emit c d) = All_States p d" "Changed_States p (emit c d) = Changed_States p d" for p
    by (cases p; simp)+
qed simp_all

lemma All_States_LTS [simp]:
  "All_States q (d\<lparr>Link_State_Update_LTS := l\<rparr>) = All_States q d"
  "Changed_States q (d\<lparr>Link_State_Update_LTS := l\<rparr>) = Changed_States q d"
  "All_States q (emit c d) = All_States q d" "Changed_States q (emit c d) = Changed_States q d"
  by (cases q; simp)+

lemma env_le_updates [simp]:
  "env_le d (d\<lparr>Link_State_Update_LTS := l\<rparr>)" "env_le d (emit c d)" "env_le d (modify_state p ptr f d)"
  using env_le_same_nodes [OF same_nodes_put(3)] by (auto simp: env_le_def Get_Node_def)

lemma Edge_cell_objects_Inr:
  assumes "Edge_cell_objects source c d = Inr d3" and ok: "tables_ok d"
  shows "tables_ok d3" "env_le d d3" "q \<noteq> Edge_Prot_Def \<Longrightarrow> All_States q d3 = All_States q d"
    "Changed_States q d3 = Changed_States q d"
    "(u, v) \<noteq> (source, dest c) \<Longrightarrow> Find_State (All_Edges d3) u v = Find_State (All_Edges d) u v"
    "Find_State (All_Edges d3) source (dest c) \<noteq> None"
    "Find_State (All_Edges d) source (dest c) = Some y \<Longrightarrow> Find_State (All_Edges d3) source (dest c) = Some y"
proof -
  obtain d1 d2 where d1: "get_or_create_node source d = Inr d1"
    and d2: "get_or_create_node (dest c) d1 = Inr d2" and d3: "get_or_create_edge source (dest c) d2 = Inr d3"
    using assms(1) unfolding Edge_cell_objects_def bind_res_Inr_iff by blast
  note A = get_or_create_node_Inr [OF d1 ok] and B = get_or_create_node_Inr [OF d2 get_or_create_node_Inr(1) [OF d1 ok]]
  have E: "All_Edges d2 = All_Edges d" using A(4) [of Edge_Prot_Def] B(4) [of Edge_Prot_Def] by simp
  have env2: "env_le d d2" using env_le_trans [OF A(2) B(2)] .
  have st2: "All_States q d2 = All_States q d" "Changed_States q d2 = Changed_States q d" for q
    using A(4,5) [of q] B(4,5) [of q] by simp_all
  have all: "tables_ok d3 \<and> env_le d d3 \<and> (q \<noteq> Edge_Prot_Def \<longrightarrow> All_States q d3 = All_States q d) \<and>
      Changed_States q d3 = Changed_States q d \<and>
      ((u, v) \<noteq> (source, dest c) \<longrightarrow> Find_State (All_Edges d3) u v = Find_State (All_Edges d) u v) \<and>
      Find_State (All_Edges d3) source (dest c) \<noteq> None \<and>
      (Find_State (All_Edges d) source (dest c) = Some y \<longrightarrow> Find_State (All_Edges d3) source (dest c) = Some y)"
  proof (cases "Get_Edge d2 source (dest c) = None")
    case True
    then have "Create_Edge source (dest c) (- 1) (- 1) USHRT_MAX d2 = Inr d3"
      using d3 by (simp add: get_or_create_edge_def)
    note C = Create_Edge_tables [OF this B(1)]
    show ?thesis
      using C env_le_trans [OF env2 C(2)] st2 E True unfolding Get_Edge_def
      by (metis option.distinct(1))
  next
    case False
    then have "d3 = d2" using d3 by (auto simp: get_or_create_edge_def)
    with False B(1) env2 st2 E show ?thesis by (simp add: Get_Edge_def)
  qed
  show "tables_ok d3" "env_le d d3" "q \<noteq> Edge_Prot_Def \<Longrightarrow> All_States q d3 = All_States q d"
    "Changed_States q d3 = Changed_States q d"
    "(u, v) \<noteq> (source, dest c) \<Longrightarrow> Find_State (All_Edges d3) u v = Find_State (All_Edges d) u v"
    "Find_State (All_Edges d3) source (dest c) \<noteq> None"
    "Find_State (All_Edges d) source (dest c) = Some y \<Longrightarrow> Find_State (All_Edges d3) source (dest c) = Some y"
    using all by blast+
qed

lemma All_Edges_modify_state [simp]:
  "All_Edges (modify_state Edge_Prot_Def ptr f d) = write_state (All_Edges d) ptr f"
  "All_Groups_by_Node (modify_state Groups_Prot_Def ptr f d) = write_state (All_Groups_by_Node d) ptr f"
  by (simp_all add: modify_state_def)

lemma Edge_cell_stamp_facts:
  assumes "tables_ok d"
  shows "tables_ok (Edge_cell_stamp source c l d)" "env_le d (Edge_cell_stamp source c l d)"
    "q \<noteq> Edge_Prot_Def \<Longrightarrow> All_States q (Edge_cell_stamp source c l d) = All_States q d"
    "Changed_States q (Edge_cell_stamp source c l d) = Changed_States q d"
    "Find_State (All_Edges (Edge_cell_stamp source c l d)) u v =
      (if (u, v) = (source, dest c)
       then map_option (\<lambda>e. e\<lparr>timestamp_sec := sint (cell_sec c), timestamp_usec := sint (cell_usec c)\<rparr>)
              (Find_State (All_Edges d) u v)
       else Find_State (All_Edges d) u v)"
  using assms env_le_trans [OF env_le_updates(1) env_le_updates(3)]
  by (auto simp: Edge_cell_stamp_def Find_State_write_state state_key_def intro!: tables_ok_modify_state)

lemma Edge_cell_foreign_facts:
  assumes "tables_ok d"
  shows "tables_ok (Edge_cell_foreign source c l d)" "env_le d (Edge_cell_foreign source c l d)"
    "q \<noteq> Edge_Prot_Def \<Longrightarrow> All_States q (Edge_cell_foreign source c l d) = All_States q d"
    "Changed_States q (Edge_cell_foreign source c l d) = Changed_States q d"
    "Find_State (All_Edges (Edge_cell_foreign source c l d)) u v =
      (if (u, v) = (source, dest c)
       then map_option (\<lambda>e. set_lts l (e\<lparr>age := sint (cell_age c), state_value := sint (cell_value c)\<rparr>))
              (Find_State (All_Edges d) u v)
       else Find_State (All_Edges d) u v)"
  using assms env_le_trans [OF env_le_updates(2) env_le_trans [OF env_le_updates(3) env_le_updates(2)]]
  by (auto simp: Edge_cell_foreign_def Find_State_write_state state_key_def set_lts_def intro!: tables_ok_modify_state)

lemma Find_Changed_buffer_own:
  assumes "Add_to_changed_states p (My_Address d) ptr d = Inr d'"
  shows "\<exists>cg. Find_Changed_State (Changed_States p d') (fst ptr) (snd ptr) = Some cg \<and> mask cg = zero_mask"
  using Add_to_changed_states_Inr(5) [OF assms]
  by (auto simp: Find_Changed_State_buffer split: option.splits)

text \<open>A daemon changes one of its own states and floods it: what every such operation does.\<close>

lemma publish_Inr:
  assumes add: "Add_to_changed_states p (My_Address d) ptr (modify_state p ptr f d) = Inr d'"
    and ok: "tables_ok d" and key: "\<And>s. state_key (f s) = state_key s"
    and x: "Find_State (All_States p d) (fst ptr) (snd ptr) = Some x"
  shows "tables_ok d'" "env_le d d'" "q \<noteq> p \<Longrightarrow> All_States q d' = All_States q d"
    "q \<noteq> p \<Longrightarrow> Changed_States q d' = Changed_States q d"
    "(u, v) \<noteq> ptr \<Longrightarrow> Find_State (All_States p d') u v = Find_State (All_States p d) u v"
    "\<exists>z. Find_State (All_States p d') (fst ptr) (snd ptr) = Some z \<and> ts z = ts (f x) \<and>
       state_value z = state_value (f x) \<and> own_fields z = own_fields (f x)"
    "\<exists>cg. Find_Changed_State (Changed_States p d') (fst ptr) (snd ptr) = Some cg \<and> mask cg = zero_mask"
    "Link_State_Update_LTS d' = Link_State_Update_LTS d" "All_Groups_by_Name d' = All_Groups_by_Name d"
    "(u, v) \<noteq> ptr \<Longrightarrow>
       Find_Changed_State (Changed_States p d') u v = Find_Changed_State (Changed_States p d) u v"
proof -
  define d2 where "d2 = modify_state p ptr f d"
  have my: "My_Address d2 = My_Address d" "Link_State_Update_LTS d2 = Link_State_Update_LTS d"
    "All_Groups_by_Name d2 = All_Groups_by_Name d"
    by (cases p; simp add: d2_def modify_state_def)+
  note A = Add_to_changed_states_Inr [OF add [folded d2_def]]
  have ok2: "tables_ok d2" unfolding d2_def by (rule tables_ok_modify_state [OF ok key])
  have f2: "Find_State (All_States p d2) u v = (if (u, v) = ptr
      then map_option f (Find_State (All_States p d) u v) else Find_State (All_States p d) u v)" for u v
    by (auto simp: d2_def Find_State_write_state)
  show "tables_ok d'"
    by (rule tables_ok_Add_to_changed_states [OF ok2 _ add [folded d2_def]]) (use f2 x in simp)
  have "env_le d d2" unfolding d2_def by (rule env_le_updates(3))
  then show "env_le d d'" using env_le_trans env_le_same_nodes [OF A(1)] by blast
  show "q \<noteq> p \<Longrightarrow> All_States q d' = All_States q d" using A(2) by (simp add: d2_def)
  show "q \<noteq> p \<Longrightarrow> Changed_States q d' = Changed_States q d" using A(3) by (simp add: d2_def)
  show "(u, v) \<noteq> ptr \<Longrightarrow> Find_State (All_States p d') u v = Find_State (All_States p d) u v"
    using A(4) f2 by (auto simp: Find_State_write_state)
  show "\<exists>z. Find_State (All_States p d') (fst ptr) (snd ptr) = Some z \<and> ts z = ts (f x) \<and>
      state_value z = state_value (f x) \<and> own_fields z = own_fields (f x)"
    using A(4) f2 x by (auto simp: Find_State_write_state ts_def)
  show "\<exists>cg. Find_Changed_State (Changed_States p d') (fst ptr) (snd ptr) = Some cg \<and> mask cg = zero_mask"
    using Find_Changed_buffer_own [of p d2 ptr d'] add my by (simp add: d2_def)
  show "Link_State_Update_LTS d' = Link_State_Update_LTS d" "All_Groups_by_Name d' = All_Groups_by_Name d"
    using A(6,7) my by simp_all
  show "(u, v) \<noteq> ptr \<Longrightarrow>
      Find_Changed_State (Changed_States p d') u v = Find_Changed_State (Changed_States p d) u v"
    using A(5) by (auto simp: Find_Changed_State_buffer d2_def)
qed

lemma write_state_twice: "write_state (write_state h ptr f) ptr g = write_state h ptr (\<lambda>s. g (f s))"
proof -
  have twice: "stdhash_modify (stdhash_modify h k f) k g = stdhash_modify h k (\<lambda>s. g (f s))"
    for h :: "('k, 'v) stdhash" and k f g by (induction h) auto
  show ?thesis by (simp add: write_state_def twice)
qed

lemma modify_state_twice:
  "modify_state p ptr g (modify_state p ptr f d) = modify_state p ptr (\<lambda>s. g (f s)) d"
  by (cases p) (simp_all add: modify_state_def write_state_twice)

lemma modify_state_LTS:
  "modify_state p ptr f (d\<lparr>Link_State_Update_LTS := l\<rparr>) = (modify_state p ptr f d)\<lparr>Link_State_Update_LTS := l\<rparr>"
  by (cases p) (simp_all add: modify_state_def)

lemma Edge_cell_own_Inr:
  assumes "Edge_cell_own source c d = Inr d'" and ok: "tables_ok d"
    and x: "Find_State (All_Edges d) source (dest c) = Some x"
  shows "tables_ok d'" "env_le d d'" "q \<noteq> Edge_Prot_Def \<Longrightarrow> All_States q d' = All_States q d"
    "q \<noteq> Edge_Prot_Def \<Longrightarrow> Changed_States q d' = Changed_States q d"
    "(u, v) \<noteq> (source, dest c) \<Longrightarrow> Find_State (All_Edges d') u v = Find_State (All_Edges d) u v"
    "\<exists>z. Find_State (All_Edges d') source (dest c) = Some z \<and> ts_less (ts x) (ts z) \<and> state_value z = state_value x"
    "\<exists>cg. Find_Changed_State (Changed_Edges d') source (dest c) = Some cg \<and> mask cg = zero_mask"
    "(u, v) \<noteq> (source, dest c) \<Longrightarrow> Find_Changed_State (Changed_Edges d') u v = Find_Changed_State (Changed_Edges d) u v"
proof -
  define l where "l = Link_State_Update_LTS d + 1"
  let ?d = "d\<lparr>Link_State_Update_LTS := l\<rparr>" and ?f = "\<lambda>s. set_lts l (bump_timestamp s)"
  have lts: "Link_State_Update_LTS (modify_state Edge_Prot_Def ptr f d) = Link_State_Update_LTS d" for ptr f
    by (simp add: modify_state_def)
  have "Add_to_changed_states Edge_Prot_Def (My_Address ?d) (source, dest c)
      (modify_state Edge_Prot_Def (source, dest c) ?f ?d) = Inr d'"
    using assms(1) by (simp add: Edge_cell_own_def Link_State_LTS_inc_def lts l_def
        modify_state_LTS modify_state_twice flip: modify_state_LTS)
  note P = publish_Inr [OF this]
  show "tables_ok d'" "q \<noteq> Edge_Prot_Def \<Longrightarrow> All_States q d' = All_States q d"
    "q \<noteq> Edge_Prot_Def \<Longrightarrow> Changed_States q d' = Changed_States q d"
    "(u, v) \<noteq> (source, dest c) \<Longrightarrow> Find_State (All_Edges d') u v = Find_State (All_Edges d) u v"
    using P(1,3,4,5) x ok by auto
  show "env_le d d'" using env_le_trans [OF env_le_updates(1) P(2)] x ok by simp
  show "\<exists>z. Find_State (All_Edges d') source (dest c) = Some z \<and> ts_less (ts x) (ts z) \<and> state_value z = state_value x"
    using P(6) x ok ts_bump [of x] by auto
  show "\<exists>cg. Find_Changed_State (Changed_Edges d') source (dest c) = Some cg \<and> mask cg = zero_mask"
    using P(7) x ok by auto
  show "(u, v) \<noteq> (source, dest c) \<Longrightarrow>
      Find_Changed_State (Changed_Edges d') u v = Find_Changed_State (Changed_Edges d) u v"
    using P(10) x ok by auto
qed

lemma Edge_Process_state_cell_cases:
  assumes "Edge_Process_state_cell source sender c ty d = Inr (r, d')"
  obtains l d1 d2 where "Edge_cell_objects source c d = Inr d1" "d2 = Edge_cell_stamp source c l d1"
    "if source \<noteq> My_Address d then r = Some (source, dest c) \<and> d' = Edge_cell_foreign source c l d2
     else r = None \<and> Edge_cell_own source c d2 = Inr d'"
  using assms unfolding Edge_Process_state_cell_def Let_def bind_res_Inr_iff
  by (auto split: if_splits)

lemma Edge_Process_state_cell_Inr:
  assumes "Edge_Process_state_cell source sender c ty d = Inr (r, d')" and ok: "tables_ok d"
  shows "tables_ok d'" "env_le d d'" "q \<noteq> Edge_Prot_Def \<Longrightarrow> All_States q d' = All_States q d"
    "q \<noteq> Edge_Prot_Def \<Longrightarrow> Changed_States q d' = Changed_States q d"
    "(u, v) \<noteq> (source, dest c) \<Longrightarrow> Find_State (All_Edges d') u v = Find_State (All_Edges d) u v \<and>
       Find_Changed_State (Changed_Edges d') u v = Find_Changed_State (Changed_Edges d) u v"
    "source \<noteq> My_Address d \<Longrightarrow> r = Some (source, dest c) \<and> Changed_Edges d' = Changed_Edges d \<and>
       (\<exists>x. Find_State (All_Edges d') source (dest c) = Some x \<and> ts x = cell_ts c \<and>
          state_value x = sint (cell_value c) \<and> age x = sint (cell_age c))"
    "source = My_Address d \<Longrightarrow> r = None \<and>
       (\<exists>x. Find_State (All_Edges d') source (dest c) = Some x \<and> ts_less (cell_ts c) (ts x) \<and>
          (\<forall>y. Find_State (All_Edges d) source (dest c) = Some y \<longrightarrow> state_value x = state_value y)) \<and>
       (\<exists>cg. Find_Changed_State (Changed_Edges d') source (dest c) = Some cg \<and> mask cg = zero_mask)"
proof -
  obtain l d1 d2 where d1: "Edge_cell_objects source c d = Inr d1" and d2: "d2 = Edge_cell_stamp source c l d1"
    and d': "if source \<noteq> My_Address d then r = Some (source, dest c) \<and> d' = Edge_cell_foreign source c l d2
      else r = None \<and> Edge_cell_own source c d2 = Inr d'"
    using Edge_Process_state_cell_cases [OF assms(1)] .
  note A = Edge_cell_objects_Inr [OF d1 ok]
  note B = Edge_cell_stamp_facts [OF A(1), where source = source and c = c and l = l, folded d2]
  obtain x where x: "Find_State (All_Edges d2) source (dest c) = Some x" "ts x = cell_ts c"
    "\<forall>y. Find_State (All_Edges d) source (dest c) = Some y \<longrightarrow> state_value x = state_value y"
    using B(5) [of source "dest c"] A(6,7) by (auto simp: ts_def cell_ts_def)
  have st: "q \<noteq> Edge_Prot_Def \<Longrightarrow> All_States q d2 = All_States q d" "Changed_States q d2 = Changed_States q d" for q
    using A(3,4) [of q] B(3,4) [of q] by auto
  have other: "(u, v) \<noteq> (source, dest c) \<Longrightarrow> Find_State (All_Edges d2) u v = Find_State (All_Edges d) u v" for u v
    using A(5) [of u v] B(5) [of u v] by auto
  have env: "env_le d d2" using env_le_trans [OF A(2) B(2)] .
  note F = Edge_cell_foreign_facts [OF B(1), where source = source and c = c and l = l]
  have chE: "Changed_Edges d2 = Changed_Edges d" using st(2) [of Edge_Prot_Def] by simp
  show "tables_ok d'" "env_le d d'" "q \<noteq> Edge_Prot_Def \<Longrightarrow> All_States q d' = All_States q d"
    "q \<noteq> Edge_Prot_Def \<Longrightarrow> Changed_States q d' = Changed_States q d"
    "(u, v) \<noteq> (source, dest c) \<Longrightarrow> Find_State (All_Edges d') u v = Find_State (All_Edges d) u v \<and>
       Find_Changed_State (Changed_Edges d') u v = Find_Changed_State (Changed_Edges d) u v"
  proof -
    have "tables_ok d' \<and> env_le d d' \<and> (q \<noteq> Edge_Prot_Def \<longrightarrow> All_States q d' = All_States q d) \<and>
      (q \<noteq> Edge_Prot_Def \<longrightarrow> Changed_States q d' = Changed_States q d) \<and>
      ((u, v) \<noteq> (source, dest c) \<longrightarrow> Find_State (All_Edges d') u v = Find_State (All_Edges d) u v \<and>
         Find_Changed_State (Changed_Edges d') u v = Find_Changed_State (Changed_Edges d) u v)"
    proof (cases "source = My_Address d")
      case True
      then have "Edge_cell_own source c d2 = Inr d'" using d' by simp
      from Edge_cell_own_Inr [OF this B(1) x(1)] show ?thesis
        using st [of q] other [of u v] env_le_trans [OF env] chE by metis
    next
      case False
      then have "d' = Edge_cell_foreign source c l d2" using d' by simp
      moreover have "Changed_Edges (Edge_cell_foreign source c l d2) = Changed_Edges d"
        using F(4) [of Edge_Prot_Def] chE by simp
      ultimately show ?thesis
        using F(1-4) F(5) [of u v] st [of q] other [of u v] env_le_trans [OF env] by metis
    qed
    then show "tables_ok d'" "env_le d d'" "q \<noteq> Edge_Prot_Def \<Longrightarrow> All_States q d' = All_States q d"
      "q \<noteq> Edge_Prot_Def \<Longrightarrow> Changed_States q d' = Changed_States q d"
      "(u, v) \<noteq> (source, dest c) \<Longrightarrow> Find_State (All_Edges d') u v = Find_State (All_Edges d) u v \<and>
         Find_Changed_State (Changed_Edges d') u v = Find_Changed_State (Changed_Edges d) u v" by blast+
  qed
  show "r = Some (source, dest c) \<and> Changed_Edges d' = Changed_Edges d \<and>
       (\<exists>x. Find_State (All_Edges d') source (dest c) = Some x \<and> ts x = cell_ts c \<and>
          state_value x = sint (cell_value c) \<and> age x = sint (cell_age c))" if "source \<noteq> My_Address d"
    using d' that x F(4) [of Edge_Prot_Def] F(5) [of source "dest c"] st(2) [of Edge_Prot_Def]
    by (auto simp: ts_def set_lts_def)
  show "r = None \<and>
       (\<exists>x. Find_State (All_Edges d') source (dest c) = Some x \<and> ts_less (cell_ts c) (ts x) \<and>
          (\<forall>y. Find_State (All_Edges d) source (dest c) = Some y \<longrightarrow> state_value x = state_value y)) \<and>
       (\<exists>cg. Find_Changed_State (Changed_Edges d') source (dest c) = Some cg \<and> mask cg = zero_mask)"
    if "source = My_Address d"
  proof -
    have own: "r = None" "Edge_cell_own source c d2 = Inr d'" using d' that by auto
    note O = Edge_cell_own_Inr [OF own(2) B(1) x(1)]
    show ?thesis using own(1) O(6,7) x(2,3) by metis
  qed
qed

interpretation edge_prot: state_protocol Edge_Prot_Def Edge_Process_state_cell
proof unfold_locales
  fix d source sender c ty r d'
  assume A: "tables_ok d" "Edge_Process_state_cell source sender c ty d = Inr (r, d')"
  note E = Edge_Process_state_cell_Inr [OF A(2) A(1)]
  show "env_le d d'" "tables_ok d'" by (rule E)+
  show "All_States q d' = All_States q d \<and> Changed_States q d' = Changed_States q d" if "q \<noteq> Edge_Prot_Def" for q
    using E(3,4) that by blast
  show "Find_State (All_States Edge_Prot_Def d') s t = Find_State (All_States Edge_Prot_Def d) s t"
    if "(s, t) \<noteq> (source, dest c)" for s t
    using E(5) that by simp
  show "Find_Changed_State (Changed_States Edge_Prot_Def d') s t = Find_Changed_State (Changed_States Edge_Prot_Def d) s t"
    if "(s, t) \<noteq> (source, dest c)" for s t
    using E(5) that by simp
  show "r = Some (source, dest c) \<and> Changed_States Edge_Prot_Def d' = Changed_States Edge_Prot_Def d \<and>
      (\<exists>x. Find_State (All_States Edge_Prot_Def d') source (dest c) = Some x \<and> ts x = cell_ts c \<and>
         state_value x = sint (cell_value c) \<and> age x = sint (cell_age c))" if "source \<noteq> My_Address d"
    using E(6) that by simp
  show "r = None \<and>
      (\<exists>x. Find_State (All_States Edge_Prot_Def d') source (dest c) = Some x \<and> ts_less (cell_ts c) (ts x) \<and>
         (\<forall>y. Find_State (All_States Edge_Prot_Def d) source (dest c) = Some y \<longrightarrow> state_value x = state_value y)) \<and>
      (\<exists>cg. Find_Changed_State (Changed_States Edge_Prot_Def d') source (dest c) = Some cg \<and> mask cg = zero_mask)"
    if "source = My_Address d"
    using E(7) that by simp
qed

section \<open>Groups\<close>

lemma put_state_add_state:
  assumes "Find_State h (source_addr s) (dest_addr s) = None"
  shows "put_state h s = add_state h s"
proof -
  have "stdhash_modify h k (\<lambda>c. c\<lparr>states := stdhash_put (states c) (dest_addr s) s\<rparr>) =
      stdhash_modify h k (\<lambda>c. c\<lparr>states := stdhash_insert (states c) (dest_addr s) s\<rparr>)"
    if "\<forall>c. stdhash_find h k = Some c \<longrightarrow> stdhash_find (states c) (dest_addr s) = None"
    for h :: state_table and k
    using that
    by (induction h) (auto simp: stdhash_find_def stdhash_put_def stdhash_contains_def)
  with assms show ?thesis
    by (auto simp: put_state_def add_state_def Find_State_def Let_def stdhash_put_def
        stdhash_contains_def sh.find_insert split: option.splits)
qed

lemma Create_Group_tables:
  assumes "Create_Group n g d = Inr d'" and ok: "tables_ok d"
  shows "tables_ok d'" "env_le d d'" "q \<noteq> Groups_Prot_Def \<Longrightarrow> All_States q d' = All_States q d"
    "Changed_States q d' = Changed_States q d"
    "(u, v) \<noteq> (n, g) \<Longrightarrow> Find_State (All_Groups_by_Node d') u v = Find_State (All_Groups_by_Node d) u v"
    "\<exists>x. Find_State (All_Groups_by_Node d') n g = Some x"
    "Find_State (All_Groups_by_Node d) n g = None"
proof -
  show absent: "Find_State (All_Groups_by_Node d) n g = None"
    using assms(1) by (auto simp: Create_Group_def split: if_splits)
  define s where "s = new_group (wall_clock d) (My_Address d = n) n g"
  have s: "source_addr s = n" "dest_addr s = g"
    "All_Groups_by_Node d' = put_state (All_Groups_by_Node d) s"
    using assms(1) by (auto simp: Create_Group_def s_def new_group_def split: if_splits)
  have G: "All_Groups_by_Node d' = add_state (All_Groups_by_Node d) s"
    using s put_state_add_state absent by simp
  have same: "ARCH_ENDIAN d' = ARCH_ENDIAN d" "My_Address d' = My_Address d" "wall_clock d' = wall_clock d"
    "All_Nodes d' = All_Nodes d" "All_Nodes_by_ID d' = All_Nodes_by_ID d" "All_Edges d' = All_Edges d"
    "Changed_Edges d' = Changed_Edges d" "Changed_Group_States d' = Changed_Group_States d"
    using assms(1) by (auto simp: Create_Group_def split: if_splits)
  have find: "Find_State (All_Groups_by_Node d') u v =
      (if (u, v) = (n, g) then Some s else Find_State (All_Groups_by_Node d) u v)" for u v
    using Find_State_add_state [of "All_Groups_by_Node d" s] absent s G by (simp add: state_key_def)
  show "(u, v) \<noteq> (n, g) \<Longrightarrow> Find_State (All_Groups_by_Node d') u v = Find_State (All_Groups_by_Node d) u v"
    using find [of u v] by auto
  show "\<exists>x. Find_State (All_Groups_by_Node d') n g = Some x" using find by simp
  show st: "q \<noteq> Groups_Prot_Def \<Longrightarrow> All_States q d' = All_States q d"
    "Changed_States q d' = Changed_States q d" for q
    using same by (cases q; simp)+
  show "env_le d d'" using same by (simp add: env_le_def Get_Node_def)
  have "table_ok (All_States q d')" for q
    using tables_okD(2) [OF ok, of q] table_ok_add_state [of "All_Groups_by_Node d" s]
      tables_okD(2) [OF ok, of Groups_Prot_Def] absent s G st(1) [of q] by (cases q) auto
  moreover have "changed_ok (All_States q d') (Changed_States q d')" for q
  proof (cases q)
    case Groups_Prot_Def
    have "changed_ok (All_Groups_by_Node d) (Changed_Group_States d)"
      using tables_okD(3) [OF ok, of Groups_Prot_Def] by simp
    then have "changed_ok (All_Groups_by_Node d') (Changed_Group_States d)"
      by (rule changed_ok_mono) (use find in auto)
    with Groups_Prot_Def same show ?thesis by simp
  next
    case Edge_Prot_Def
    then show ?thesis using tables_okD(3) [OF ok, of q] st [of q] by simp
  qed
  moreover have "nodes_ok d'" using tables_okD(1) [OF ok] same by (simp add: nodes_ok_def)
  moreover have "Get_Node d' s \<noteq> None \<and> Get_Node d' t \<noteq> None" if "Find_State (All_Edges d') s t \<noteq> None" for s t
    using that ok same unfolding tables_ok_def Get_Node_def by metis
  ultimately show "tables_ok d'" unfolding tables_ok_def by blast
qed

lemma get_or_create_group_Inr:
  assumes "get_or_create_group n g d = Inr d'" and ok: "tables_ok d"
  shows "tables_ok d'" "env_le d d'" "q \<noteq> Groups_Prot_Def \<Longrightarrow> All_States q d' = All_States q d"
    "Changed_States q d' = Changed_States q d"
    "(u, v) \<noteq> (n, g) \<Longrightarrow> Find_State (All_Groups_by_Node d') u v = Find_State (All_Groups_by_Node d) u v"
    "\<exists>x. Find_State (All_Groups_by_Node d') n g = Some x \<and>
       (\<forall>y. Find_State (All_Groups_by_Node d) n g = Some y \<longrightarrow> x = y)"
proof -
  have "tables_ok d' \<and> env_le d d' \<and> (q \<noteq> Groups_Prot_Def \<longrightarrow> All_States q d' = All_States q d) \<and>
    Changed_States q d' = Changed_States q d \<and>
    ((u, v) \<noteq> (n, g) \<longrightarrow> Find_State (All_Groups_by_Node d') u v = Find_State (All_Groups_by_Node d) u v) \<and>
    (\<exists>x. Find_State (All_Groups_by_Node d') n g = Some x \<and>
       (\<forall>y. Find_State (All_Groups_by_Node d) n g = Some y \<longrightarrow> x = y))"
  proof (cases "Find_State (All_Groups_by_Node d) n g")
    case None
    then have "Create_Group n g d = Inr d'" using assms(1) by (simp add: get_or_create_group_def)
    from Create_Group_tables [OF this ok] None show ?thesis by (metis option.distinct(1))
  next
    case (Some x)
    then have "d' = d" using assms(1) by (simp add: get_or_create_group_def)
    with Some ok show ?thesis by simp
  qed
  then show "tables_ok d'" "env_le d d'" "q \<noteq> Groups_Prot_Def \<Longrightarrow> All_States q d' = All_States q d"
    "Changed_States q d' = Changed_States q d"
    "(u, v) \<noteq> (n, g) \<Longrightarrow> Find_State (All_Groups_by_Node d') u v = Find_State (All_Groups_by_Node d) u v"
    "\<exists>x. Find_State (All_Groups_by_Node d') n g = Some x \<and>
       (\<forall>y. Find_State (All_Groups_by_Node d) n g = Some y \<longrightarrow> x = y)" by blast+
qed

lemma Groups_Process_state_cell_Inr:
  assumes "Groups_Process_state_cell source sender c ty d = Inr (r, d')" and ok: "tables_ok d"
  shows "tables_ok d' \<and> env_le d d' \<and>
      (\<forall>q. q \<noteq> Groups_Prot_Def \<longrightarrow> All_States q d' = All_States q d \<and> Changed_States q d' = Changed_States q d) \<and>
      (\<forall>u v. (u, v) \<noteq> (source, dest c) \<longrightarrow>
         Find_State (All_Groups_by_Node d') u v = Find_State (All_Groups_by_Node d) u v \<and>
         Find_Changed_State (Changed_Group_States d') u v = Find_Changed_State (Changed_Group_States d) u v)"
    and "source \<noteq> My_Address d \<Longrightarrow> r = Some (source, dest c) \<and> Changed_Group_States d' = Changed_Group_States d \<and>
       (\<exists>x. Find_State (All_Groups_by_Node d') source (dest c) = Some x \<and> ts x = cell_ts c \<and>
          state_value x = sint (cell_value c) \<and> age x = sint (cell_age c))"
    and "source = My_Address d \<Longrightarrow> r = None \<and>
       (\<exists>x. Find_State (All_Groups_by_Node d') source (dest c) = Some x \<and> ts_less (cell_ts c) (ts x) \<and>
          (\<forall>y. Find_State (All_Groups_by_Node d) source (dest c) = Some y \<longrightarrow> state_value x = state_value y)) \<and>
       (\<exists>cg. Find_Changed_State (Changed_Group_States d') source (dest c) = Some cg \<and> mask cg = zero_mask)"
proof -
  let ?P = Groups_Prot_Def and ?ptr = "(source, dest c)"
  let ?s = "\<lambda>g. g\<lparr>timestamp_sec := sint (cell_sec c), timestamp_usec := sint (cell_usec c)\<rparr>"
  let ?v = "\<lambda>g. g\<lparr>age := sint (cell_age c), state_value := sint (cell_value c)\<rparr>"
  obtain d1 where d1: "get_or_create_group source (dest c) d = Inr d1"
    using assms(1) unfolding Groups_Process_state_cell_def Let_def bind_res_Inr_iff by blast
  note A = get_or_create_group_Inr [OF d1 ok]
  obtain x where x: "Find_State (All_Groups_by_Node d1) source (dest c) = Some x"
    "\<forall>y. Find_State (All_Groups_by_Node d) source (dest c) = Some y \<longrightarrow> x = y"
    using A(6) by blast
  have my: "My_Address d1 = My_Address d" using A(2) by (simp add: env_le_def)
  have foreign: "r = Some ?ptr" "d' = modify_state ?P ?ptr (\<lambda>g. ?v (?s g)) d1" if "source \<noteq> My_Address d"
    using assms(1) that by (simp_all add: Groups_Process_state_cell_def d1 Let_def modify_state_twice)
  have own: "r = None" "Add_to_changed_states ?P (My_Address d1) ?ptr
      (modify_state ?P ?ptr (\<lambda>g. bump_timestamp (?s g)) d1) = Inr d'" if "source = My_Address d"
    using assms(1) that my d1
    by (auto simp: Groups_Process_state_cell_def Let_def modify_state_twice bind_res_Inr_iff)
  have key: "state_key (bump_timestamp (?s g)) = state_key g" "state_key (?v (?s g)) = state_key g" for g
    by (simp_all add: state_key_def bump_timestamp_def)
  show "tables_ok d' \<and> env_le d d' \<and>
      (\<forall>q. q \<noteq> ?P \<longrightarrow> All_States q d' = All_States q d \<and> Changed_States q d' = Changed_States q d) \<and>
      (\<forall>u v. (u, v) \<noteq> ?ptr \<longrightarrow> Find_State (All_Groups_by_Node d') u v = Find_State (All_Groups_by_Node d) u v \<and>
         Find_Changed_State (Changed_Group_States d') u v = Find_Changed_State (Changed_Group_States d) u v)"
  proof (cases "source = My_Address d")
    case True
    note P = publish_Inr [OF own(2) [OF True] A(1) key(1)]
    have "Changed_Group_States d1 = Changed_Group_States d" using A(4) [of ?P] by simp
    then show ?thesis using P(1-5) P(10) x(1) A(3-5) env_le_trans [OF A(2)] by simp
  next
    case False
    have "tables_ok d'" using foreign(2) [OF False] tables_ok_modify_state [OF A(1) key(2)] by simp
    moreover have "env_le d d'" using foreign(2) [OF False] env_le_trans [OF A(2) env_le_updates(3)] by simp
    moreover have "Changed_Group_States d' = Changed_Group_States d"
      using foreign(2) [OF False] A(4) [of ?P] by (simp add: modify_state_def)
    ultimately show ?thesis using foreign(2) [OF False] A(3-5) by (auto simp: Find_State_write_state)
  qed
  show "r = Some ?ptr \<and> Changed_Group_States d' = Changed_Group_States d \<and>
      (\<exists>x. Find_State (All_Groups_by_Node d') source (dest c) = Some x \<and> ts x = cell_ts c \<and>
         state_value x = sint (cell_value c) \<and> age x = sint (cell_age c))" if "source \<noteq> My_Address d"
  proof -
    have "Changed_Group_States (modify_state ?P ?ptr f d1) = Changed_Group_States d" for f
      using A(4) [of ?P] by (simp add: modify_state_def)
    then show ?thesis using foreign [OF that] x(1)
      by (simp add: Find_State_write_state ts_def cell_ts_def)
  qed
  show "r = None \<and>
      (\<exists>x. Find_State (All_Groups_by_Node d') source (dest c) = Some x \<and> ts_less (cell_ts c) (ts x) \<and>
         (\<forall>y. Find_State (All_Groups_by_Node d) source (dest c) = Some y \<longrightarrow> state_value x = state_value y)) \<and>
      (\<exists>cg. Find_Changed_State (Changed_Group_States d') source (dest c) = Some cg \<and> mask cg = zero_mask)"
    if "source = My_Address d"
  proof -
    note P = publish_Inr [OF own(2) [OF that] A(1) key(1)]
    have "ts_less (cell_ts c) (ts (bump_timestamp (?s x)))"
      using ts_bump [of "?s x"] by (simp add: ts_def cell_ts_def)
    then show ?thesis using P(6,7) x own(1) [OF that] by auto
  qed
qed

interpretation group_prot: state_protocol Groups_Prot_Def Groups_Process_state_cell
proof unfold_locales
  fix d source sender c ty r d'
  assume A: "tables_ok d" "Groups_Process_state_cell source sender c ty d = Inr (r, d')"
  note E = Groups_Process_state_cell_Inr [OF A(2) A(1)]
  show "env_le d d'" "tables_ok d'" using E(1) by blast+
  show "All_States q d' = All_States q d \<and> Changed_States q d' = Changed_States q d" if "q \<noteq> Groups_Prot_Def" for q
    using E(1) that by blast
  show "Find_State (All_States Groups_Prot_Def d') s t = Find_State (All_States Groups_Prot_Def d) s t"
    if "(s, t) \<noteq> (source, dest c)" for s t
    using E(1) that by simp
  show "Find_Changed_State (Changed_States Groups_Prot_Def d') s t = Find_Changed_State (Changed_States Groups_Prot_Def d) s t"
    if "(s, t) \<noteq> (source, dest c)" for s t
    using E(1) that by simp
  show "r = Some (source, dest c) \<and> Changed_States Groups_Prot_Def d' = Changed_States Groups_Prot_Def d \<and>
      (\<exists>x. Find_State (All_States Groups_Prot_Def d') source (dest c) = Some x \<and> ts x = cell_ts c \<and>
         state_value x = sint (cell_value c) \<and> age x = sint (cell_age c))" if "source \<noteq> My_Address d"
    using E(2) that by simp
  show "r = None \<and>
      (\<exists>x. Find_State (All_States Groups_Prot_Def d') source (dest c) = Some x \<and> ts_less (cell_ts c) (ts x) \<and>
         (\<forall>y. Find_State (All_States Groups_Prot_Def d) source (dest c) = Some y \<longrightarrow> state_value x = state_value y)) \<and>
      (\<exists>cg. Find_Changed_State (Changed_States Groups_Prot_Def d') source (dest c) = Some cg \<and> mask cg = zero_mask)"
    if "source = My_Address d"
    using E(3) that by simp
qed

end
