(* ===== verification/Configuration.thy ===== *)
theory Configuration
  imports Link_State State_Protocol
begin

text \<open>
  The hosts and edges of a configuration file (\<open>daemon/configuration.c\<close>) and what the daemon makes of them when
  it starts (\<open>Init_Nodes\<close> of \<open>daemon/node.c\<close>): the nodes, the edges, and the index of every edge in the masks for
  source-based routing.
\<close>

section \<open>Data\<close>

definition MAX_NODES :: nat where "MAX_NODES = 50"
definition MAX_CONF_LEGS :: nat where "MAX_CONF_LEGS = 256 * 5"
definition MULTIPATH_BITMASK_SIZE_DEFAULT :: nat where "MULTIPATH_BITMASK_SIZE_DEFAULT = 64"

type_synonym Edge_Key = "nat \<times> nat"

record Edge_Value =
  ev_cost :: int
  ev_index :: nat

text \<open>\<open>Num_Legs\<close> and \<open>Remote_Interface_Addresses\<close> are one list here.\<close>

record Configuration =
  cf_My_ID :: nat
  temp_node_ip :: "nat \<Rightarrow> Node_ID"
  temp_num_nodes :: nat
  cf_Sorted_Edges :: "(Edge_Key \<times> Edge_Value) list"
  cf_Directed_Edges :: bool
  cf_Degree :: "nat \<Rightarrow> nat"
  temp_neighbor_id :: "nat \<Rightarrow> nat \<Rightarrow> nat"
  Remote_Interface_Addresses :: "Node_ID list"
  MultiPath_Bitmask_Size :: nat

text \<open>The order of the edges, and insertion into a skip list by it. Among equal keys the place depends on
  the heights of the nodes of the list, which are random: \<open>pos\<close> is the number of equal keys that stay in front.\<close>

definition Edge_Cmp :: "Edge_Key \<Rightarrow> Edge_Key \<Rightarrow> int" where
  "Edge_Cmp l r =
     (if fst l < fst r then - 1 else if fst r < fst l then 1
      else if snd l < snd r then - 1 else if snd r < snd l then 1 else 0)"

fun stdskl_insert :: "('k \<Rightarrow> 'k \<Rightarrow> int) \<Rightarrow> 'k \<Rightarrow> 'v \<Rightarrow> nat \<Rightarrow> ('k \<times> 'v) list \<Rightarrow> ('k \<times> 'v) list" where
  "stdskl_insert cmp k v pos [] = [(k, v)]"
| "stdskl_insert cmp k v pos (y # ys) =
     (if 0 < cmp k (fst y) then y # stdskl_insert cmp k v pos ys
      else if cmp k (fst y) = 0 \<and> 0 < pos then y # stdskl_insert cmp k v (pos - 1) ys
      else (k, v) # y # ys)"

section \<open>Reading the file\<close>

definition Pre_Conf_Setup :: "nat \<Rightarrow> Node_ID list \<Rightarrow> Configuration" where
  "Pre_Conf_Setup my_id legs =
     \<lparr>cf_My_ID = my_id, temp_node_ip = (\<lambda>_. 0), temp_num_nodes = 0, cf_Sorted_Edges = [], cf_Directed_Edges = False, cf_Degree = (\<lambda>_. 0),
      temp_neighbor_id = (\<lambda>_ _. 0), Remote_Interface_Addresses = legs, MultiPath_Bitmask_Size = MULTIPATH_BITMASK_SIZE_DEFAULT div 8\<rparr>"

definition Conf_set_multipath_bitmask_size :: "int \<Rightarrow> Configuration \<Rightarrow> Configuration res" where
  "Conf_set_multipath_bitmask_size new_value cf =
     (if new_value mod 64 \<noteq> 0 then Inl (EXIT ''Conf_set_multipath_bitmask_size: must be a multiple of 64'')
      else if new_value \<le> 0 then Inl (EXIT ''Conf_set_multipath_bitmask_size: must be greater than 0'')
      else Inr (cf\<lparr>MultiPath_Bitmask_Size := nat (new_value div 8) mod 2 ^ 16\<rparr>))"

definition Conf_set_directed_edges :: "bool \<Rightarrow> Configuration \<Rightarrow> Configuration" where
  "Conf_set_directed_edges new_state cf = cf\<lparr>cf_Directed_Edges := new_state\<rparr>"

definition Conf_add_host :: "Node_ID \<Rightarrow> int \<Rightarrow> Node_ID \<Rightarrow> Configuration \<Rightarrow> Configuration res" where
  "Conf_add_host me i ip cf =
     (if i \<le> 0 then Inl (EXIT ''Conf_add_host: Invalid ID - Too Low'')
      else if int MAX_NODES < i then Inl (EXIT ''Conf_add_host: Invalid ID - Higher than Node Limit'')
      else if temp_node_ip cf (nat i) \<noteq> 0 then Inr cf
      else Inr (cf\<lparr>cf_My_ID := (if ip = me then nat i else cf_My_ID cf), temp_node_ip := (temp_node_ip cf)(nat i := ip),
                   temp_num_nodes := (temp_num_nodes cf + 1) mod 2 ^ 16\<rparr>))"

definition Conf_validate_hosts :: "Configuration \<Rightarrow> unit res" where
  "Conf_validate_hosts cf = (if cf_My_ID cf = 0 then Inl (EXIT ''Conf_validate_hosts: not specified as a host'') else Inr ())"

text \<open>The neighbors and the legs that an edge adds.\<close>

definition conf_neighbor :: "nat \<Rightarrow> nat \<Rightarrow> Configuration \<Rightarrow> Configuration res" where
  "conf_neighbor h1 h2 cf =
     (let n = cf_Degree cf h1 + 1
      in if MAX_NODES < n then Inl (UNDEF ''temp_neighbor_id'')
         else Inr (cf\<lparr>cf_Degree := (cf_Degree cf)(h1 := n), temp_neighbor_id := (temp_neighbor_id cf)(h1 := (temp_neighbor_id cf h1)(n := h2))\<rparr>))"

definition add_conf_leg :: "Node_ID \<Rightarrow> Configuration \<Rightarrow> Configuration res" where
  "add_conf_leg ip cf =
     (if MAX_CONF_LEGS \<le> length (Remote_Interface_Addresses cf) then Inl (UNDEF ''Remote_Interface_Addresses'')
      else Inr (cf\<lparr>Remote_Interface_Addresses := Remote_Interface_Addresses cf @ [ip]\<rparr>))"

definition add_edge_ends :: "nat \<Rightarrow> nat \<Rightarrow> Configuration \<Rightarrow> Configuration res" where
  "add_edge_ends h1 h2 cf =
     (if \<not> cf_Directed_Edges cf
      then bind_res (conf_neighbor h1 h2 cf) (\<lambda>cf1. bind_res (conf_neighbor h2 h1 cf1) (\<lambda>cf2.
           if h1 = cf_My_ID cf2 then add_conf_leg (temp_node_ip cf2 h2) cf2
           else if h2 = cf_My_ID cf2 then add_conf_leg (temp_node_ip cf2 h1) cf2 else Inr cf2))
      else bind_res (conf_neighbor h1 h2 cf) (\<lambda>cf1.
           if h1 = cf_My_ID cf1 then add_conf_leg (temp_node_ip cf1 h2) cf1 else Inr cf1))"

definition edge_key :: "bool \<Rightarrow> nat \<Rightarrow> nat \<Rightarrow> Edge_Key" where
  "edge_key directed h1 h2 = (if \<not> directed \<and> \<not> h1 < h2 then (h2, h1) else (h1, h2))"

definition Conf_add_edge :: "nat \<Rightarrow> int \<Rightarrow> int \<Rightarrow> int \<Rightarrow> Configuration \<Rightarrow> Configuration res" where
  "Conf_add_edge pos h1 h2 c cf =
     (if h1 < 0 \<or> int MAX_NODES < h1 \<or> h2 < 0 \<or> int MAX_NODES < h2 then Inl (UNDEF ''temp_node_ip'')
      else if temp_node_ip cf (nat h1) = 0 \<or> temp_node_ip cf (nat h2) = 0 then Inl (EXIT ''Conf_add_edge: not both defined'')
      else if h1 = h2 then Inr cf
      else bind_res (add_edge_ends (nat h1) (nat h2) cf) (\<lambda>cf1.
        Inr (cf1\<lparr>cf_Sorted_Edges := stdskl_insert Edge_Cmp (edge_key (cf_Directed_Edges cf) (nat h1) (nat h2))
                   \<lparr>ev_cost = int16_of c, ev_index = 0\<rparr> pos (cf_Sorted_Edges cf1)\<rparr>)))"

datatype conf_line = Mask_Size int | Directed bool | Host int Node_ID | Hosts_End | Conf_Edge int int int nat

fun conf_step :: "Node_ID \<Rightarrow> conf_line \<Rightarrow> Configuration \<Rightarrow> Configuration res" where
  "conf_step me (Mask_Size n) cf = Conf_set_multipath_bitmask_size n cf"
| "conf_step me (Directed b) cf = Inr (Conf_set_directed_edges b cf)"
| "conf_step me (Host i ip) cf = Conf_add_host me i ip cf"
| "conf_step me Hosts_End cf = bind_res (Conf_validate_hosts cf) (\<lambda>_. Inr cf)"
| "conf_step me (Conf_Edge h1 h2 c pos) cf = Conf_add_edge pos h1 h2 c cf"

text \<open>After the file: the neighbors of a node, in the order of the edges.\<close>

definition Neighbor_IDs :: "Configuration \<Rightarrow> nat \<Rightarrow> nat list" where
  "Neighbor_IDs cf i = map (temp_neighbor_id cf i) [1..<cf_Degree cf i + 1]"

definition conf_Num_Nodes :: "Configuration \<Rightarrow> nat" where
  "conf_Num_Nodes cf = temp_num_nodes cf"

section \<open>The nodes and edges at the start\<close>

definition init_node :: "Configuration \<Rightarrow> nat \<Rightarrow> daemon \<Rightarrow> daemon res" where
  "init_node cf i d =
     (if temp_node_ip cf i \<noteq> 0 \<and> Get_Node d (temp_node_ip cf i) = None then Create_Node (temp_node_ip cf i) d else Inr d)"

definition init_edge :: "Node_ID \<Rightarrow> Node_ID \<Rightarrow> Edge_Value \<Rightarrow> daemon \<Rightarrow> daemon res" where
  "init_edge a b v d = (if Get_Edge d a b = None then Create_Edge a b (- 1) (ev_cost v) (of_nat (ev_index v)) d else Inr d)"

definition init_edges :: "Configuration \<Rightarrow> Edge_Key \<times> Edge_Value \<Rightarrow> daemon \<Rightarrow> daemon res" where
  "init_edges cf x d =
     (case x of ((s, t), v) \<Rightarrow>
        bind_res (init_edge (temp_node_ip cf s) (temp_node_ip cf t) v d) (\<lambda>d1.
          if cf_Directed_Edges cf then Inr d1 else init_edge (temp_node_ip cf t) (temp_node_ip cf s) v d1))"

text \<open>The edges get their indices in the order of the list.\<close>

definition label_edges :: "(Edge_Key \<times> Edge_Value) list \<Rightarrow> (Edge_Key \<times> Edge_Value) list" where
  "label_edges es = map (\<lambda>(i, k, v). (k, v\<lparr>ev_index := i mod 2 ^ 16\<rparr>)) (enumerate 0 es)"

definition Init_Nodes_conf :: "Configuration \<Rightarrow> daemon \<Rightarrow> (Configuration \<times> daemon) res" where
  "Init_Nodes_conf cf d =
     (let cf1 = cf\<lparr>cf_Sorted_Edges := label_edges (cf_Sorted_Edges cf)\<rparr>
      in bind_res (fold_res (init_node cf1) [1..<MAX_NODES + 1] d) (\<lambda>d1.
         bind_res (fold_res (init_edges cf1) (cf_Sorted_Edges cf1) d1) (\<lambda>d2. Inr (cf1, d2))))"

end
