(* ===== verification/Multipath.thy ===== *)
theory Multipath
  imports Configuration
begin

unbundle bit_operations_syntax

text \<open>
  Masks for source-based routing (\<open>daemon/multipath.c\<close>): up to \<open>k\<close> node-disjoint paths to a destination, as
  a flow of minimal cost in a network in which every node of the configuration is split into an inbound
  and an outbound half. The paths are found one after the other with the algorithm of Bellman and Ford on
  the residual network.
\<close>

section \<open>Data\<close>

definition MULTIPATH_MAX_K :: nat where "MULTIPATH_MAX_K = 5"
definition DG_K_FLAG :: nat where "DG_K_FLAG = MULTIPATH_MAX_K + 1"

datatype Flow_Node = Inbound nat | Outbound nat

text \<open>An edge of the flow network. Edges are made in pairs; \<open>fe_no\<close> is the number of the pair, and the
  twin of an edge is the other edge of its pair. The capacity of all edges is \<open>1\<close>.\<close>

record Flow_Edge =
  fe_edge :: "state_ptr option"
  fe_reverse_edge :: "state_ptr option"
  fe_start :: Flow_Node
  fe_end :: Flow_Node
  fe_index :: nat
  residual :: bool
  fe_no :: nat

type_synonym fe_ptr = "nat \<times> bool"

definition ptr_of :: "Flow_Edge \<Rightarrow> fe_ptr" where "ptr_of e = (fe_no e, residual e)"
definition twin :: "Flow_Edge \<Rightarrow> fe_ptr" where "twin e = (fe_no e, \<not> residual e)"
definition fe_capacity :: nat where "fe_capacity = 1"

type_synonym bitmask = "8 word list"

record MultiPath =
  Flow_Edges :: "Flow_Edge list"
  mp_flow :: "fe_ptr \<Rightarrow> nat"
  MP_Flooding_Bitmask :: bitmask
  mp_Neighbor_Mask :: "bitmask list"
  MP_Cache :: "nat \<Rightarrow> nat \<Rightarrow> bitmask option"

section \<open>Masks\<close>

definition index_bit :: "nat \<Rightarrow> 8 word" where
  "index_bit i = drop_bit (i mod 8) 0x80"

definition or_bit :: "nat \<Rightarrow> bitmask \<Rightarrow> bitmask res" where
  "or_bit i m = (if i div 8 < length m then Inr (m[i div 8 := (m ! (i div 8)) OR index_bit i]) else Inl (UNDEF ''bitmask''))"

definition in_mask :: "nat \<Rightarrow> bitmask \<Rightarrow> bool" where
  "in_mask i m \<longleftrightarrow> i div 8 < length m \<and> (m ! (i div 8)) AND index_bit i \<noteq> 0"

text \<open>The functions on masks as arrays of 64-bit words.\<close>

definition MultiPath_Is_Superset :: "64 word list \<Rightarrow> 64 word list \<Rightarrow> bool" where
  "MultiPath_Is_Superset old_mask new_mask =
     (let tmp1 = map2 (\<lambda>a b. a XOR b) old_mask new_mask; tmp2 = map2 (\<lambda>a b. a AND b) old_mask tmp1
      in fold (\<lambda>a v. v OR a) tmp1 0 \<noteq> 0 \<and> fold (\<lambda>a v. v OR a) tmp2 0 = 0)"

definition MultiPath_Create_Superset :: "64 word list \<Rightarrow> 64 word list \<Rightarrow> 64 word list" where
  "MultiPath_Create_Superset old_mask new_mask = map2 (\<lambda>a b. a OR b) old_mask new_mask"

fun MultiPath_Is_Equal :: "64 word list \<Rightarrow> 64 word list \<Rightarrow> bool" where
  "MultiPath_Is_Equal (a # old_mask) (b # new_mask) = (if a \<noteq> b then False else MultiPath_Is_Equal old_mask new_mask)"
| "MultiPath_Is_Equal _ _ = True"

section \<open>The flow network\<close>

definition add_pair :: "Flow_Node \<Rightarrow> Flow_Node \<Rightarrow> state_ptr option \<Rightarrow> state_ptr option \<Rightarrow> nat \<Rightarrow> Flow_Edge list \<Rightarrow> Flow_Edge list" where
  "add_pair a b ed re i es =
     (let n = length es div 2;
          real = \<lparr>fe_edge = ed, fe_reverse_edge = re, fe_start = a, fe_end = b, fe_index = i, residual = False, fe_no = n\<rparr>;
          resid = \<lparr>fe_edge = ed, fe_reverse_edge = re, fe_start = b, fe_end = a, fe_index = unat USHRT_MAX, residual = True, fe_no = n\<rparr>
      in resid # real # es)"

definition node_pairs :: "Configuration \<Rightarrow> Flow_Edge list" where
  "node_pairs cf = fold (\<lambda>i es. if temp_node_ip cf i \<noteq> 0 then add_pair (Inbound i) (Outbound i) None None (unat USHRT_MAX) es else es)
     [1..<MAX_NODES + 1] []"

text \<open>Each half of a node has room for \<open>Degree + 1\<close> incoming and as many outgoing edges.\<close>

definition flow_room :: "Configuration \<Rightarrow> nat \<Rightarrow> Flow_Node \<Rightarrow> Flow_Edge list \<Rightarrow> bool" where
  "flow_room cf i v es \<longleftrightarrow> length (filter (\<lambda>e. fe_start e = v) es) \<le> cf_Degree cf i \<and> length (filter (\<lambda>e. fe_end e = v) es) \<le> cf_Degree cf i"

definition link_pair :: "Configuration \<Rightarrow> daemon \<Rightarrow> nat \<Rightarrow> nat \<Rightarrow> nat \<Rightarrow> Flow_Edge list \<Rightarrow> Flow_Edge list res" where
  "link_pair cf d s t i es =
     (if MAX_NODES < s \<or> MAX_NODES < t then Inl (UNDEF ''Flow_Nodes'')
      else let a = temp_node_ip cf s; b = temp_node_ip cf t
      in if Get_Edge d a b = None \<or> Get_Edge d b a = None then Inl (EXIT ''Init_MultiPath: Unable to find edge'')
         else if a = 0 \<or> b = 0 \<or> s = 0 \<or> t = 0 then Inl (UNDEF ''Init_MultiPath'')
         else if \<not> flow_room cf s (Outbound s) es \<or> \<not> flow_room cf t (Inbound t) es then Inl (UNDEF ''outgoing'')
         else Inr (add_pair (Outbound s) (Inbound t) (Some (a, b)) (Some (b, a)) i es))"

definition link_pairs :: "Configuration \<Rightarrow> daemon \<Rightarrow> Edge_Key \<times> Edge_Value \<Rightarrow> Flow_Edge list \<Rightarrow> Flow_Edge list res" where
  "link_pairs cf d x es =
     (case x of ((s, t), v) \<Rightarrow>
        bind_res (link_pair cf d s t (ev_index v) es) (\<lambda>es1.
          if cf_Directed_Edges cf then Inr es1 else link_pair cf d t s (ev_index v) es1))"

definition neighbor_key :: "Configuration \<Rightarrow> nat \<Rightarrow> nat \<times> nat" where
  "neighbor_key cf ngbr = (if \<not> cf_Directed_Edges cf \<and> ngbr < cf_My_ID cf then (ngbr, cf_My_ID cf) else (cf_My_ID cf, ngbr))"

text \<open>The search in the skip list gives any of the entries with the key: \<open>pick\<close> chooses among them.\<close>

definition neighbor_mask :: "(Edge_Key \<Rightarrow> nat) \<Rightarrow> Configuration \<Rightarrow> nat \<Rightarrow> bitmask res" where
  "neighbor_mask pick cf ngbr =
     (let key = neighbor_key cf ngbr; found = filter (\<lambda>x. fst x = key) (cf_Sorted_Edges cf)
      in if found = [] then Inl (EXIT ''MultiPath_Post_Conf_Setup: Edge from config file not in Sorted_Edges skip list'')
         else or_bit (ev_index (snd (found ! (pick key mod length found)))) (replicate (MultiPath_Bitmask_Size cf) 0))"

fun map_res :: "('x \<Rightarrow> 'y res) \<Rightarrow> 'x list \<Rightarrow> 'y list res" where
  "map_res f [] = Inr []"
| "map_res f (x # xs) = bind_res (f x) (\<lambda>y. bind_res (map_res f xs) (\<lambda>ys. Inr (y # ys)))"

definition Init_MultiPath :: "(Edge_Key \<Rightarrow> nat) \<Rightarrow> Configuration \<Rightarrow> daemon \<Rightarrow> MultiPath res" where
  "Init_MultiPath pick cf d =
     bind_res (map_res (neighbor_mask pick cf) (Neighbor_IDs cf (cf_My_ID cf))) (\<lambda>masks.
     bind_res (fold_res (link_pairs cf d) (cf_Sorted_Edges cf) (node_pairs cf)) (\<lambda>es.
       Inr \<lparr>Flow_Edges = es, mp_flow = (\<lambda>(n, r). if r then 1 else 0), MP_Flooding_Bitmask = replicate (MultiPath_Bitmask_Size cf) 0xFF,
            mp_Neighbor_Mask = masks, MP_Cache = (\<lambda>_ _. None)\<rparr>))"

definition MultiPath_Clear_Cache :: "MultiPath \<Rightarrow> MultiPath" where
  "MultiPath_Clear_Cache mp = mp\<lparr>MP_Cache := (\<lambda>_ _. None)\<rparr>"

section \<open>The algorithm of Bellman and Ford\<close>

record mp_opts =
  use_base_cost :: bool
  require_reverse :: bool

definition base_cost_at :: "State_Data \<Rightarrow> int" where
  "base_cost_at s = (case own_fields s of Edge_Fields f \<Rightarrow> base_cost f | Group_Fields _ \<Rightarrow> - 1)"

text \<open>The cost of an edge of the flow network; \<open>None\<close>: the link is broken.\<close>

definition flow_cost :: "mp_opts \<Rightarrow> daemon \<Rightarrow> Flow_Edge \<Rightarrow> int option res" where
  "flow_cost opts d e =
     (case (fe_edge e, fe_reverse_edge e) of
        (None, None) \<Rightarrow> Inr (Some 0)
      | (Some p, Some q) \<Rightarrow>
          (case (Find_State (All_Edges d) (fst p) (snd p), Find_State (All_Edges d) (fst q) (snd q)) of
             (Some x, Some y) \<Rightarrow>
               if \<not> use_base_cost opts \<and> (state_value x = - 1 \<or> require_reverse opts \<and> state_value y = - 1) then Inr None
               else let c1 = (if use_base_cost opts then base_cost_at x else int16_of \<bar>state_value x\<bar>);
                        c2 = (if use_base_cost opts then base_cost_at y else int16_of \<bar>state_value y\<bar>);
                        c = (if require_reverse opts then if c2 < c1 then c1 else c2 else c1)
                    in Inr (Some (if residual e then int16_of (- c) else c))
           | _ \<Rightarrow> Inl (UNDEF ''MultiPath_Compute''))
      | _ \<Rightarrow> Inl (EXIT ''Multipath_Compute: Edge or Reverse is NULL''))"

type_synonym bf_state = "(Flow_Node \<Rightarrow> int) \<times> (Flow_Node \<Rightarrow> Flow_Edge option) \<times> bool"

definition relax :: "(fe_ptr \<Rightarrow> nat) \<Rightarrow> Flow_Edge \<Rightarrow> int \<Rightarrow> bf_state \<Rightarrow> bf_state" where
  "relax f e c st =
     (case st of (dist, prev, progress) \<Rightarrow>
        if f (ptr_of e) < fe_capacity \<and> dist (fe_start e) + c < dist (fe_end e)
        then (dist(fe_end e := (dist (fe_start e) + c) mod 2 ^ 16), prev(fe_end e := Some e), True) else st)"

definition bf_edge :: "mp_opts \<Rightarrow> daemon \<Rightarrow> (fe_ptr \<Rightarrow> nat) \<Rightarrow> Flow_Edge \<Rightarrow> bf_state \<Rightarrow> bf_state res" where
  "bf_edge opts d f e st = bind_res (flow_cost opts d e) (\<lambda>c. Inr (case c of None \<Rightarrow> st | Some c \<Rightarrow> relax f e c st))"

fun bf_rounds :: "mp_opts \<Rightarrow> daemon \<Rightarrow> (fe_ptr \<Rightarrow> nat) \<Rightarrow> Flow_Edge list \<Rightarrow> nat \<Rightarrow> bf_state \<Rightarrow> bf_state res" where
  "bf_rounds opts d f es 0 st = Inr st"
| "bf_rounds opts d f es (Suc n) (dist, prev, p) =
     bind_res (fold_res (bf_edge opts d f) es (dist, prev, False)) (\<lambda>(dist1, prev1, p1).
       if \<not> p1 then Inr (dist1, prev1, p1) else bf_rounds opts d f es n (dist1, prev1, p1))"

definition bf_start :: "Configuration \<Rightarrow> bf_state" where
  "bf_start cf = ((\<lambda>_. uint USHRT_MAX)(Outbound (cf_My_ID cf) := 0), (\<lambda>_. None), False)"

section \<open>Paths\<close>

fun erase_ptr :: "fe_ptr \<Rightarrow> Flow_Edge list \<Rightarrow> Flow_Edge list" where
  "erase_ptr p [] = []"
| "erase_ptr p (e # es) = (if ptr_of e = p then es else e # erase_ptr p es)"

definition use_edge :: "Flow_Edge \<Rightarrow> (fe_ptr \<Rightarrow> nat) \<times> Flow_Edge list \<Rightarrow> ((fe_ptr \<Rightarrow> nat) \<times> Flow_Edge list) res" where
  "use_edge e st =
     (case st of (f, bag) \<Rightarrow>
        let f' = f(ptr_of e := fe_capacity, twin e := 0)
        in if \<not> residual e then Inr (f', e # bag)
           else if twin e \<in> ptr_of ` set bag then Inr (f', erase_ptr (twin e) bag)
           else Inl (UNDEF ''stdhash_erase''))"

partial_function (option) augment ::
  "(Flow_Node \<Rightarrow> Flow_Edge option) \<Rightarrow> Flow_Node \<Rightarrow> Flow_Node \<Rightarrow> (fe_ptr \<Rightarrow> nat) \<times> Flow_Edge list \<Rightarrow> ((fe_ptr \<Rightarrow> nat) \<times> Flow_Edge list) res option" where
  "augment prev src t st =
     (if t = src then Some (Inr st)
      else case prev t of
        None \<Rightarrow> Some (Inl (UNDEF ''MultiPath_Compute''))
      | Some e \<Rightarrow> (case use_edge e st of Inl x \<Rightarrow> Some (Inl x) | Inr st1 \<Rightarrow> augment prev src (fe_start e) st1))"

definition must_end :: "'x res option \<Rightarrow> 'x res" where
  "must_end r = (case r of None \<Rightarrow> Inl (LOOPS ''MultiPath_Compute'') | Some x \<Rightarrow> x)"

text \<open>The halves of a node exist if it is configured; otherwise the pointers to them are null.\<close>

definition flow_node_made :: "Configuration \<Rightarrow> nat \<Rightarrow> bool" where
  "flow_node_made cf i \<longleftrightarrow> 1 \<le> i \<and> i \<le> MAX_NODES \<and> temp_node_ip cf i \<noteq> 0"

text \<open>Paths are added until there are \<open>k\<close> or no more is found; the number of paths is counted.\<close>

fun ff_loop :: "Configuration \<Rightarrow> mp_opts \<Rightarrow> daemon \<Rightarrow> Flow_Edge list \<Rightarrow> nat \<Rightarrow> nat \<Rightarrow> nat \<Rightarrow> (fe_ptr \<Rightarrow> nat) \<times> Flow_Edge list \<Rightarrow>
    (nat \<times> (fe_ptr \<Rightarrow> nat) \<times> Flow_Edge list) res" where
  "ff_loop cf opts d es tgt 0 n st = Inr (n, st)"
| "ff_loop cf opts d es tgt (Suc k) n st =
     (if \<not> flow_node_made cf (cf_My_ID cf) then Inl (UNDEF ''MultiPath_Compute'')
      else bind_res (bf_rounds opts d (fst st) es (2 * conf_Num_Nodes cf + 1) (bf_start cf)) (\<lambda>(dist, prev, progress).
        if progress then Inl (EXIT ''MultiPath_Compute: Negative Cycle Found'')
        else if \<not> flow_node_made cf tgt then Inl (UNDEF ''MultiPath_Compute'')
        else if dist (Inbound tgt) = uint USHRT_MAX then Inr (n, st)
        else bind_res (must_end (augment prev (Outbound (cf_My_ID cf)) (Inbound tgt) st)) (ff_loop cf opts d es tgt k (n + 1))))"

definition mask_of_bag :: "Flow_Edge list \<Rightarrow> nat \<Rightarrow> bitmask res" where
  "mask_of_bag bag bytes = fold_res (\<lambda>e m. if fe_edge e \<noteq> None then or_bit (fe_index e) m else Inr m) bag (replicate bytes 0)"

text \<open>The number of paths and the mask, which the caller may decline.\<close>

definition MultiPath_Compute :: "Configuration \<Rightarrow> mp_opts \<Rightarrow> daemon \<Rightarrow> nat \<Rightarrow> nat \<Rightarrow> MultiPath \<Rightarrow> (nat \<times> bitmask \<times> MultiPath) res" where
  "MultiPath_Compute cf opts d dest_id k mp =
     (if dest_id = cf_My_ID cf then Inr (k, replicate (MultiPath_Bitmask_Size cf) 0, mp)
      else bind_res (ff_loop cf opts d (Flow_Edges mp) dest_id k 0 ((\<lambda>(n, r). if r then fe_capacity else 0), [])) (\<lambda>(n, f, bag).
           bind_res (mask_of_bag bag (MultiPath_Bitmask_Size cf)) (\<lambda>mask. Inr (n, mask, mp\<lparr>mp_flow := f\<rparr>))))"

section \<open>Stamping a packet\<close>

datatype DG_graph = DG_NONE_GRAPH | DG_K2_GRAPH | DG_SRC_GRAPH | DG_DST_GRAPH | DG_SRC_DST_GRAPH

text \<open>What \<open>dissem_graphs.c\<close> keeps for a destination.\<close>

record DG_Dst =
  current_graph_type :: DG_graph
  dg_bitmasks :: "DG_graph \<Rightarrow> bitmask"

definition stamp_opts :: mp_opts where
  "stamp_opts = \<lparr>use_base_cost = False, require_reverse = False\<rparr>"

definition put_cache :: "nat \<Rightarrow> nat \<Rightarrow> bitmask \<Rightarrow> MultiPath \<Rightarrow> MultiPath" where
  "put_cache dest_id k m mp = mp\<lparr>MP_Cache := (\<lambda>i j. if i = dest_id \<and> j = k then Some m else MP_Cache mp i j)\<rparr>"

text \<open>The mask for \<open>k\<close> disjoint paths. If there are fewer, the larger numbers get the same mask.\<close>

definition stamp_paths :: "Configuration \<Rightarrow> daemon \<Rightarrow> nat \<Rightarrow> nat \<Rightarrow> MultiPath \<Rightarrow> (bitmask \<times> MultiPath) res" where
  "stamp_paths cf d dest_id k mp =
     (case MP_Cache mp dest_id k of
        Some m \<Rightarrow> Inr (m, mp)
      | None \<Rightarrow> bind_res (MultiPath_Compute cf stamp_opts d dest_id k mp) (\<lambda>(ret, m, mp1).
          let mp2 = put_cache dest_id k m mp1
          in Inr (m, if 0 < ret \<and> ret < k then fold (\<lambda>i. put_cache dest_id i m) [ret..<MULTIPATH_MAX_K + 1] mp2 else mp2)))"

definition stamp_two :: "Configuration \<Rightarrow> daemon \<Rightarrow> nat \<Rightarrow> MultiPath \<Rightarrow> (bitmask \<times> MultiPath) res" where
  "stamp_two cf d dest_id mp =
     (case MP_Cache mp dest_id 2 of
        Some m \<Rightarrow> Inr (m, mp)
      | None \<Rightarrow> bind_res (MultiPath_Compute cf stamp_opts d dest_id 2 mp) (\<lambda>(ret, m, mp1). Inr (m, put_cache dest_id 2 m mp1)))"

text \<open>The union of two masks, by words of 64 bits.\<close>

definition or_words :: "bitmask \<Rightarrow> bitmask \<Rightarrow> bitmask" where
  "or_words m g = (let w = length m div 8 * 8 in map2 (\<lambda>a b. a OR b) (take w m) g @ drop w m)"

text \<open>\<open>None\<close>: the call returns \<open>0\<close> and writes no mask.\<close>

definition MultiPath_Stamp_Bitmask :: "Configuration \<Rightarrow> (nat \<Rightarrow> DG_Dst) \<Rightarrow> daemon \<Rightarrow> nat \<Rightarrow> nat \<Rightarrow> MultiPath \<Rightarrow> (bitmask option \<times> MultiPath) res" where
  "MultiPath_Stamp_Bitmask cf dg d dest_id k0 mp =
     (if dest_id = 0 \<and> 0 < k0 \<or> MAX_NODES < dest_id then Inr (None, mp)
      else let k = (if MULTIPATH_MAX_K < k0 \<and> k0 \<noteq> DG_K_FLAG then MULTIPATH_MAX_K else k0) in
        if k = 0 then Inr (Some (MP_Flooding_Bitmask mp), mp)
        else if k = DG_K_FLAG
        then (case current_graph_type (dg dest_id) of
                DG_SRC_GRAPH \<Rightarrow> Inr (Some (dg_bitmasks (dg dest_id) DG_SRC_GRAPH), mp)
              | DG_DST_GRAPH \<Rightarrow> Inr (Some (dg_bitmasks (dg dest_id) DG_DST_GRAPH), mp)
              | DG_K2_GRAPH \<Rightarrow> bind_res (stamp_two cf d dest_id mp) (\<lambda>(m, mp1). Inr (Some m, mp1))
              | DG_SRC_DST_GRAPH \<Rightarrow> bind_res (stamp_two cf d dest_id mp) (\<lambda>(m, mp1).
                  Inr (Some (or_words m (dg_bitmasks (dg dest_id) DG_SRC_DST_GRAPH)), mp1))
              | DG_NONE_GRAPH \<Rightarrow> bind_res (stamp_paths cf d dest_id 2 mp) (\<lambda>(m, mp1). Inr (Some m, mp1)))
        else bind_res (stamp_paths cf d dest_id k mp) (\<lambda>(m, mp1). Inr (Some m, mp1)))"

end
