(* ===== verification/Bellman_Ford.thy ===== *)
theory Bellman_Ford
  imports Multipath
begin

text \<open>
  What the rounds of Bellman and Ford compute. \<open>w\<close> gives the cost of the edges that may be used. A potential
  with a non-negative reduced cost on every such edge is a lower bound of the distances; it takes the place of
  the absence of negative cycles. The distances that remain are those of the largest potential below the
  initial ones, and every round makes the distance of one more node final.
\<close>

section \<open>Potentials\<close>

definition feasible :: "(Flow_Edge \<Rightarrow> int option) \<Rightarrow> Flow_Edge list \<Rightarrow> (Flow_Node \<Rightarrow> int) \<Rightarrow> bool" where
  "feasible w es \<pi> \<longleftrightarrow> (\<forall>e \<in> set es. \<forall>c. w e = Some c \<longrightarrow> \<pi> (fe_end e) \<le> \<pi> (fe_start e) + c)"

lemma feasibleD: "feasible w es \<pi> \<Longrightarrow> e \<in> set es \<Longrightarrow> w e = Some c \<Longrightarrow> \<pi> (fe_end e) \<le> \<pi> (fe_start e) + c"
  by (simp add: feasible_def)

definition start_dist :: "Flow_Node \<Rightarrow> Flow_Node \<Rightarrow> int" where
  "start_dist s = (\<lambda>_. 65535)(s := 0)"

text \<open>Among the potentials between \<open>\<pi>\<close> and the initial distances there is one with the largest sum.\<close>

definition largest :: "(Flow_Edge \<Rightarrow> int option) \<Rightarrow> Flow_Edge list \<Rightarrow> Flow_Node set \<Rightarrow> Flow_Node \<Rightarrow> (Flow_Node \<Rightarrow> int) \<Rightarrow> bool" where
  "largest w es V s D \<longleftrightarrow> feasible w es D \<and> (\<forall>v. D v \<le> start_dist s v) \<and>
     (\<forall>f. feasible w es f \<longrightarrow> (\<forall>v. f v \<le> start_dist s v) \<longrightarrow> (\<forall>v. D v \<le> f v) \<longrightarrow> (\<forall>v \<in> V. f v = D v))"

lemma ex_largest:
  assumes V: "finite V" and p: "feasible w es \<pi>" "\<And>v. \<pi> v \<le> start_dist s v"
  obtains D where "largest w es V s D" "\<And>v. \<pi> v \<le> D v"
proof -
  let ?P = "\<lambda>f. feasible w es f \<and> (\<forall>v. f v \<le> start_dist s v) \<and> (\<forall>v. \<pi> v \<le> f v)"
  let ?m = "\<lambda>f. nat (\<Sum>v\<in>V. f v - \<pi> v)"
  have le: "?m f < Suc (nat (\<Sum>v\<in>V. start_dist s v - \<pi> v))" if "?P f" for f
    using that by (auto intro!: le_imp_less_Suc nat_mono sum_mono)
  have "?P \<pi>" using p by auto
  then obtain D where D: "?P D" "\<And>f. ?P f \<Longrightarrow> ?m f \<le> ?m D"
    using ex_has_greatest_nat [of ?P \<pi> ?m] le by blast
  have "f v = D v" if f: "feasible w es f" "\<forall>v. f v \<le> start_dist s v" "\<forall>v. D v \<le> f v" and v: "v \<in> V" for f v
  proof (rule ccontr)
    assume "f v \<noteq> D v"
    moreover have "D v \<le> f v" using f(3) by blast
    ultimately have "D v < f v" by simp
    then have "(\<Sum>v\<in>V. D v - \<pi> v) < (\<Sum>v\<in>V. f v - \<pi> v)" using f(3) v V by (intro sum_strict_mono_ex1) auto
    moreover have "?P f" using f D(1) by (meson order_trans)
    moreover have "0 \<le> (\<Sum>v\<in>V. D v - \<pi> v)" using D(1) by (intro sum_nonneg) simp
    ultimately show False using D(2) [of f] by (simp add: nat_le_iff)
  qed
  with D(1) have "largest w es V s D" unfolding largest_def by blast
  with D(1) that show thesis by blast
qed

section \<open>One step\<close>

text \<open>The step without the wrap-around of the distance.\<close>

definition bf_step :: "(Flow_Edge \<Rightarrow> int option) \<Rightarrow> Flow_Edge \<Rightarrow> bf_state \<Rightarrow> bf_state" where
  "bf_step w e st =
     (case w e of None \<Rightarrow> st
      | Some c \<Rightarrow> (case st of (dist, prev, p) \<Rightarrow>
          if dist (fe_start e) + c < dist (fe_end e)
          then (dist(fe_end e := dist (fe_start e) + c), prev(fe_end e := Some e), True) else st))"

definition tree :: "(Flow_Node \<Rightarrow> Flow_Edge option) \<Rightarrow> (Flow_Node \<times> Flow_Node) set" where
  "tree prev = {(fe_start e, v) | e v. prev v = Some e}"

definition bf_inv :: "(Flow_Edge \<Rightarrow> int option) \<Rightarrow> Flow_Edge list \<Rightarrow> Flow_Node \<Rightarrow> (Flow_Node \<Rightarrow> int) \<Rightarrow> bf_state \<Rightarrow> bool" where
  "bf_inv w es s \<pi> st \<longleftrightarrow> (case st of (dist, prev, p) \<Rightarrow>
     (\<forall>v. \<pi> v \<le> dist v \<and> dist v \<le> 65535) \<and> dist s = 0 \<and> prev s = None \<and> acyclic (tree prev) \<and>
     (\<forall>v e. prev v = Some e \<longrightarrow> e \<in> set es \<and> fe_end e = v \<and> (\<exists>c. w e = Some c \<and> dist (fe_start e) + c \<le> dist v)) \<and>
     (\<forall>v. prev v = None \<longrightarrow> v = s \<or> dist v = 65535))"

lemma bf_invI:
  assumes "\<And>v. \<pi> v \<le> dist v" "\<And>v. dist v \<le> 65535" "dist s = 0" "prev s = None" "acyclic (tree prev)"
    "\<And>v e. prev v = Some e \<Longrightarrow> e \<in> set es \<and> fe_end e = v \<and> (\<exists>c. w e = Some c \<and> dist (fe_start e) + c \<le> dist v)"
    "\<And>v. prev v = None \<Longrightarrow> v = s \<or> dist v = 65535"
  shows "bf_inv w es s \<pi> (dist, prev, p)"
  using assms unfolding bf_inv_def by simp

lemma bf_invD:
  assumes "bf_inv w es s \<pi> (dist, prev, p)"
  shows "\<pi> v \<le> dist v" "dist v \<le> 65535" "dist s = 0" "prev s = None" "acyclic (tree prev)"
    "prev v = Some e \<Longrightarrow> e \<in> set es \<and> fe_end e = v \<and> (\<exists>c. w e = Some c \<and> dist (fe_start e) + c \<le> dist v)"
    "prev v = None \<Longrightarrow> v = s \<or> dist v = 65535"
  using assms unfolding bf_inv_def prod.case by blast+

text \<open>The reduced distance does not decrease along the tree.\<close>

lemma tree_reduced:
  assumes inv: "bf_inv w es s \<pi> (dist, prev, p)" and g: "feasible w es g" and uv: "(u, v) \<in> (tree prev)\<^sup>*"
  shows "dist u - g u \<le> dist v - g v"
  using uv
proof (induction rule: rtrancl_induct)
  case (step y z)
  then obtain e where e: "prev z = Some e" "y = fe_start e" by (auto simp: tree_def)
  then obtain c where "e \<in> set es" "fe_end e = z" "w e = Some c" "dist (fe_start e) + c \<le> dist z"
    using inv unfolding bf_inv_def prod.case by blast
  with feasibleD [OF g, of e c] step.IH e show ?case by simp
qed simp

lemma tree_upd: "tree (prev(v := Some e)) \<subseteq> insert (fe_start e, v) (tree prev)"
  by (auto simp: tree_def split: if_splits)

lemma bf_step_inv:
  assumes inv: "bf_inv w es s \<pi> st" and p: "feasible w es \<pi>" "0 \<le> \<pi> s" and e: "e \<in> set es"
  shows "bf_inv w es s \<pi> (bf_step w e st)"
proof (cases "w e")
  case (Some c)
  obtain dist prev q where st: "st = (dist, prev, q)" by (cases st) auto
  show ?thesis
  proof (cases "dist (fe_start e) + c < dist (fe_end e)")
    case True
    let ?u = "fe_start e" and ?v = "fe_end e"
    note i = bf_invD [OF inv [unfolded st]]
    have f: "\<pi> ?v \<le> \<pi> ?u + c" by (rule feasibleD [OF p(1) e Some])
    have low: "\<pi> ?v \<le> dist ?u + c" using f i(1) [of ?u] by linarith
    have vs: "?v \<noteq> s" using low True i(3) p(2) by auto
    have "(?v, ?u) \<notin> (tree prev)\<^sup>*"
      using tree_reduced [OF inv [unfolded st] p(1), of ?v ?u] f True by auto
    then have ac: "acyclic (tree (prev(?v := Some e)))"
      using i(5) acyclic_subset [OF _ tree_upd] by (auto simp: acyclic_insert)
    have uv: "?u \<noteq> ?v" using \<open>(?v, ?u) \<notin> (tree prev)\<^sup>*\<close> by auto
    define d' where "d' = dist(?v := dist ?u + c)"
    define p' where "p' = prev(?v := Some e)"
    have d': "d' x \<le> dist x" "d' ?v = dist ?u + c" "x \<noteq> ?v \<Longrightarrow> d' x = dist x" for x using True by (auto simp: d'_def)
    have p': "p' x = (if x = ?v then Some e else prev x)" for x by (simp add: p'_def)
    have "bf_inv w es s \<pi> (d', p', True)"
    proof (rule bf_invI)
      show "acyclic (tree p')" using ac by (simp add: p'_def)
      show "\<pi> v \<le> d' v" for v using i(1) [of v] low d'(2) d'(3) [of v] by (cases "v = ?v") auto
      show "d' v \<le> 65535" for v using d'(1) [of v] i(2) [of v] by simp
      show "d' s = 0" "p' s = None" using vs i(3,4) d'(3) [of s] p' by auto
      show "v = s \<or> d' v = 65535" if "p' v = None" for v
        using that p' [of v] i(7) [of v] d'(3) [of v] by (auto split: if_splits)
      show "x \<in> set es \<and> fe_end x = v \<and> (\<exists>c'. w x = Some c' \<and> d' (fe_start x) + c' \<le> d' v)" if x: "p' v = Some x" for v x
      proof (cases "v = ?v")
        case True
        then have "x = e" using x p' by simp
        then show ?thesis using e Some True d'(2) d'(1) [of ?u] by auto
      next
        case False
        then have "prev v = Some x" using x p' by simp
        from i(6) [OF this] obtain c' where "x \<in> set es" "fe_end x = v" "w x = Some c'" "dist (fe_start x) + c' \<le> dist v" by blast
        then show ?thesis using d'(1) [of "fe_start x"] d'(3) [OF False] by auto
      qed
    qed
    moreover have "bf_step w e st = (d', p', True)" using True Some by (simp add: bf_step_def st d'_def p'_def)
    ultimately show ?thesis by simp
  next
    case False
    then have "bf_step w e st = st" using Some by (simp add: bf_step_def st)
    then show ?thesis using inv by simp
  qed
qed (use inv in \<open>simp add: bf_step_def\<close>)

lemma bf_steps_inv:
  assumes "bf_inv w es s \<pi> st" "feasible w es \<pi>" "0 \<le> \<pi> s" "set xs \<subseteq> set es"
  shows "bf_inv w es s \<pi> (fold (bf_step w) xs st)"
  using assms(1,4)
proof (induction xs arbitrary: st)
  case (Cons e xs)
  then have "bf_inv w es s \<pi> (bf_step w e st)" using bf_step_inv [OF Cons.prems(1) assms(2,3)] by simp
  from Cons.IH [OF this] Cons.prems(2) show ?case by simp
qed simp

section \<open>One round\<close>

lemma bf_step_dist_le: "fst (bf_step w e st) v \<le> fst st v"
  by (auto simp: bf_step_def split: option.splits prod.splits)

lemma bf_steps_dist_le: "fst (fold (bf_step w) xs st) v \<le> fst st v"
proof (induction xs arbitrary: st)
  case (Cons e xs)
  then show ?case using order_trans [OF Cons.IH bf_step_dist_le] by simp
qed simp

lemma bf_steps_no_progress:
  "\<not> snd (snd (fold (bf_step w) xs st)) \<Longrightarrow> fold (bf_step w) xs st = st \<and> \<not> snd (snd st) \<and> (\<forall>e \<in> set xs. bf_step w e st = st)"
proof (induction xs arbitrary: st)
  case (Cons e xs)
  have "\<not> snd (snd (fold (bf_step w) xs (bf_step w e st)))" using Cons.prems by simp
  note IH = Cons.IH [OF this]
  have "bf_step w e st = st" using IH by (cases st) (auto simp: bf_step_def split: option.splits if_splits)
  then show ?case using IH by simp
qed simp

lemma bf_steps_fixed: "(\<And>e. e \<in> set xs \<Longrightarrow> bf_step w e st = st) \<Longrightarrow> fold (bf_step w) xs st = st"
  by (induction xs) auto

lemma no_progress_feasible:
  assumes "fold (bf_step w) es (dist, prev, False) = (dist', prev', False)"
  shows "dist' = dist" "prev' = prev" "feasible w es dist"
proof -
  have "\<not> snd (snd (fold (bf_step w) es (dist, prev, False)))" using assms by simp
  note n = bf_steps_no_progress [OF this]
  then show "dist' = dist" "prev' = prev" using assms by auto
  show "feasible w es dist" unfolding feasible_def
  proof (intro ballI allI impI)
    fix e c assume "e \<in> set es" "w e = Some c"
    then have "bf_step w e (dist, prev, False) = (dist, prev, False)" using n by blast
    then show "dist (fe_end e) \<le> dist (fe_start e) + c" using \<open>w e = Some c\<close> by (auto simp: bf_step_def split: if_splits)
  qed
qed

definition final :: "Flow_Node set \<Rightarrow> (Flow_Node \<Rightarrow> int) \<Rightarrow> (Flow_Node \<Rightarrow> int) \<Rightarrow> Flow_Node set" where
  "final V D dist = {v \<in> V. dist v = D v}"

text \<open>Unless all distances are final there is an edge that makes one more so.\<close>

lemma next_final:
  assumes D: "largest w es V s D" "\<And>v. D v \<le> dist v" and d: "\<And>v. dist v \<le> start_dist s v"
    and V: "\<And>e. e \<in> set es \<Longrightarrow> fe_start e \<in> V \<and> fe_end e \<in> V" and n: "final V D dist \<noteq> V"
  obtains e c where "e \<in> set es" "w e = Some c" "fe_start e \<in> final V D dist" "fe_end e \<in> V" "fe_end e \<notin> final V D dist" "D (fe_end e) = D (fe_start e) + c"
proof -
  let ?A = "final V D dist"
  define f where "f v = (if v \<in> V - ?A then D v + 1 else D v)" for v
  have "f v \<le> start_dist s v" for v
    using D(2) [of v] d [of v] by (auto simp: f_def final_def)
  moreover have "D v \<le> f v" for v by (simp add: f_def)
  moreover obtain v where "v \<in> V" "v \<notin> ?A" using n by (auto simp: final_def)
  then have "f v \<noteq> D v" by (simp add: f_def)
  ultimately have "\<not> feasible w es f" using D(1) \<open>v \<in> V\<close> unfolding largest_def by blast
  then obtain e c where e: "e \<in> set es" "w e = Some c" "f (fe_start e) + c < f (fe_end e)" unfolding feasible_def by (auto simp: not_le)
  have "D (fe_end e) \<le> D (fe_start e) + c" using D(1) e unfolding largest_def by (blast intro: feasibleD)
  with e V [OF e(1)] show thesis by (intro that [OF e(1,2)]) (auto simp: f_def split: if_splits)
qed

lemma bf_steps_reaches:
  assumes "e \<in> set xs" "w e = Some c" "\<And>ys zs. xs = ys @ e # zs \<Longrightarrow> fst (fold (bf_step w) ys st) (fe_start e) \<le> a"
  shows "fst (fold (bf_step w) xs st) (fe_end e) \<le> a + c"
proof -
  obtain ys zs where x: "xs = ys @ e # zs" using assms(1) by (auto simp: in_set_conv_decomp)
  let ?st = "fold (bf_step w) ys st"
  have "fst (bf_step w e ?st) (fe_end e) \<le> fst ?st (fe_start e) + c"
    using assms(2) by (cases ?st) (auto simp: bf_step_def split: if_splits)
  also have "\<dots> \<le> a + c" using assms(3) [OF x] by simp
  finally show ?thesis using order_trans [OF bf_steps_dist_le] by (simp add: x)
qed

lemma round_final:
  assumes D: "largest w es V s D" "\<And>v. D v \<le> dist v" and d: "\<And>v. dist v \<le> start_dist s v"
    and V: "\<And>e. e \<in> set es \<Longrightarrow> fe_start e \<in> V \<and> fe_end e \<in> V" "finite V" and n: "final V D dist \<noteq> V"
    and r: "fold (bf_step w) es (dist, prev, p) = (dist', prev', p')" and D': "\<And>ys v. set ys \<subseteq> set es \<Longrightarrow> D v \<le> fst (fold (bf_step w) ys (dist, prev, p)) v"
  shows "card (final V D dist) < card (final V D dist')"
proof -
  obtain e c where e: "e \<in> set es" "w e = Some c" "fe_start e \<in> final V D dist" "fe_end e \<in> V" "fe_end e \<notin> final V D dist" "D (fe_end e) = D (fe_start e) + c"
    using next_final [OF D d V(1) n] by blast
  have keep: "fst (fold (bf_step w) ys (dist, prev, p)) v \<le> D v" if "v \<in> final V D dist" for ys v
    using order_trans [OF bf_steps_dist_le] that by (fastforce simp: final_def)
  have D'': "D v \<le> dist' v" for v using D' [of es v] r by simp
  have "dist' (fe_end e) \<le> D (fe_end e)"
    using bf_steps_reaches [where w = w and e = e and xs = es and c = c and st = "(dist, prev, p)" and a = "D (fe_start e)"] e(1,2) keep [OF e(3)] r e(6) by simp
  then have "fe_end e \<in> final V D dist'" using D'' e(4) by (auto simp: final_def intro: antisym)
  moreover have "final V D dist \<subseteq> final V D dist'"
    using keep [of _ es] r D'' by (auto simp: final_def intro!: antisym)
  ultimately show ?thesis using e(5) V(2) by (intro psubset_card_mono) (auto simp: final_def)
qed

section \<open>The rounds of the code\<close>

text \<open>The edges that may be used: those with flow below their capacity, unless the link is broken.\<close>

definition usable :: "(Flow_Edge \<Rightarrow> int option) \<Rightarrow> (fe_ptr \<Rightarrow> nat) \<Rightarrow> Flow_Edge \<Rightarrow> int option" where
  "usable cst f e = (if f (ptr_of e) < fe_capacity then cst e else None)"

text \<open>No distance wraps around, since the new distance lies between the potential and the old one.\<close>

lemma bf_edge_step:
  assumes c: "flow_cost opts d e = Inr (cst e)" and inv: "bf_inv (usable cst f) es s \<pi> st"
    and p: "feasible (usable cst f) es \<pi>" "\<And>v. 0 \<le> \<pi> v" and e: "e \<in> set es"
  shows "bf_edge opts d f e st = Inr (bf_step (usable cst f) e st)"
proof -
  obtain dist prev q where st: "st = (dist, prev, q)" by (cases st) auto
  have "(dist (fe_start e) + c) mod 65536 = dist (fe_start e) + c"
    if "usable cst f e = Some c" "dist (fe_start e) + c < dist (fe_end e)" for c
    using that feasibleD [OF p(1) e, of c] p(2) [of "fe_end e"] bf_invD(1) [OF inv [unfolded st], of "fe_start e"]
      bf_invD(2) [OF inv [unfolded st], of "fe_end e"] by (intro mod_pos_pos_trivial) auto
  then show ?thesis using c by (auto simp: bf_edge_def relax_def bf_step_def usable_def st split: option.splits)
qed

lemma bf_fold_step:
  assumes "\<And>e. e \<in> set es \<Longrightarrow> flow_cost opts d e = Inr (cst e)" "bf_inv (usable cst f) es s \<pi> st"
    and p: "feasible (usable cst f) es \<pi>" "\<And>v. 0 \<le> \<pi> v" and "set xs \<subseteq> set es"
  shows "fold_res (bf_edge opts d f) xs st = Inr (fold (bf_step (usable cst f)) xs st)"
  using assms(2,5)
proof (induction xs arbitrary: st)
  case (Cons e xs)
  then have e: "e \<in> set es" by simp
  have "bf_inv (usable cst f) es s \<pi> (bf_step (usable cst f) e st)"
    by (rule bf_step_inv [OF Cons.prems(1) p(1) p(2) e])
  then show ?case using Cons bf_edge_step [OF assms(1) [OF e] Cons.prems(1) p e] by simp
qed simp

lemma bf_rounds_end:
  assumes c: "\<And>e. e \<in> set es \<Longrightarrow> flow_cost opts d e = Inr (cst e)"
    and D: "largest (usable cst f) es V s D" "\<And>v. 0 \<le> D v"
    and V: "\<And>e. e \<in> set es \<Longrightarrow> fe_start e \<in> V \<and> fe_end e \<in> V" "finite V"
    and i: "bf_inv (usable cst f) es s D (dist, prev, p)" and n: "card V - card (final V D dist) < n"
  shows "\<exists>dist' prev'. bf_rounds opts d f es n (dist, prev, p) = Inr (dist', prev', False) \<and>
     bf_inv (usable cst f) es s D (dist', prev', False) \<and> feasible (usable cst f) es dist'"
  using i n
proof (induction n arbitrary: dist prev p)
  case (Suc n)
  let ?w = "usable cst f"
  have fD: "feasible ?w es D" using D(1) by (simp add: largest_def)
  have i0: "bf_inv ?w es s D (dist, prev, False)" using Suc.prems(1) by (simp add: bf_inv_def)
  obtain d1 p1 q1 where r: "fold (bf_step ?w) es (dist, prev, False) = (d1, p1, q1)" by (metis prod_cases3)
  have i1: "bf_inv ?w es s D (d1, p1, q1)" using bf_steps_inv [OF i0 fD D(2), of es] r by simp
  have fold: "fold_res (bf_edge opts d f) es (dist, prev, False) = Inr (d1, p1, q1)"
    using bf_fold_step [OF c i0 fD D(2), of es] r by simp
  show ?case
  proof (cases q1)
    case False
    then have q1: "q1 = False" by simp
    from no_progress_feasible [OF r [unfolded q1]] show ?thesis using i1 fold q1 by auto
  next
    case True
    have "final V D dist \<noteq> V"
    proof
      assume "final V D dist = V"
      then have eq: "v \<in> V \<Longrightarrow> dist v = D v" for v by (auto simp: final_def)
      have "bf_step ?w e (dist, prev, False) = (dist, prev, False)" if e: "e \<in> set es" for e
        using feasibleD [OF fD e] V(1) [OF e] eq by (auto simp: bf_step_def not_less split: option.splits)
      then show False using bf_steps_fixed [of es ?w] r True by auto
    qed
    moreover have "D v \<le> fst (fold (bf_step ?w) ys (dist, prev, False)) v" if "set ys \<subseteq> set es" for ys v
      using bf_steps_inv [OF i0 fD D(2) that] bf_invD(1) by (metis prod.collapse)
    moreover have "dist v \<le> start_dist s v" for v using bf_invD(2,3) [OF i0] by (simp add: start_dist_def)
    ultimately have less: "card (final V D dist) < card (final V D d1)"
      using round_final [OF D(1) bf_invD(1) [OF i0] _ V _ r] by blast
    have "card (final V D d1) \<le> card V" using V(2) by (intro card_mono) (auto simp: final_def)
    with less Suc.prems(2) have "card V - card (final V D d1) < n" by simp
    then show ?thesis using Suc.IH [OF i1] fold True by simp
  qed
qed simp

lemma bf_start_inv:
  assumes "\<And>v. \<pi> v \<le> start_dist s v"
  shows "bf_inv w es s \<pi> (start_dist s, (\<lambda>_. None), p)"
proof (rule bf_invI)
  show "acyclic (tree (\<lambda>_. None))" by (simp add: tree_def acyclic_def)
qed (use assms in \<open>auto simp: start_dist_def\<close>)

text \<open>The rounds end without a negative cycle, with a tree and distances that are a potential.\<close>

lemma bf_rounds_ends:
  assumes c: "\<And>e. e \<in> set es \<Longrightarrow> flow_cost opts d e = Inr (cst e)"
    and p: "feasible (usable cst f) es \<pi>" "\<And>v. 0 \<le> \<pi> v" "\<And>v. \<pi> v \<le> start_dist s v"
    and V: "\<And>e. e \<in> set es \<Longrightarrow> fe_start e \<in> V \<and> fe_end e \<in> V" "finite V" "card V < n"
  obtains dist prev where "bf_rounds opts d f es n (start_dist s, (\<lambda>_. None), q) = Inr (dist, prev, False)"
    "bf_inv (usable cst f) es s \<pi> (dist, prev, False)" "feasible (usable cst f) es dist"
proof -
  obtain D where D: "largest (usable cst f) es V s D" "\<And>v. \<pi> v \<le> D v" using ex_largest [OF V(2) p(1,3)] by blast
  have D0: "0 \<le> D v" for v using p(2) [of v] D(2) [of v] by simp
  have Ds: "D v \<le> start_dist s v" for v using D(1) by (simp add: largest_def)
  have "card V - card (final V D (start_dist s)) < n" using V(3) by simp
  from bf_rounds_end [OF c D(1) D0 V(1,2) bf_start_inv [OF Ds] this]
  obtain dist prev where r: "bf_rounds opts d f es n (start_dist s, (\<lambda>_. None), q) = Inr (dist, prev, False)"
    "bf_inv (usable cst f) es s D (dist, prev, False)" "feasible (usable cst f) es dist" by blast
  have "bf_inv (usable cst f) es s \<pi> (dist, prev, False)"
  proof (rule bf_invI)
    show "\<pi> v \<le> dist v" for v using D(2) [of v] bf_invD(1) [OF r(2), of v] by simp
  qed (use bf_invD [OF r(2)] in auto)
  with r that show thesis by blast
qed

end
