(* ===== verification/Flow.thy ===== *)
theory Flow
  imports Bellman_Ford
begin

text \<open>
  The flow that the paths of \<open>MultiPath_Compute\<close> add up to. Every edge of the network has a twin in the other
  direction, and of the two exactly one carries flow. A path from the source to the target that the rounds of
  Bellman and Ford have found is used edge by edge, from the target back; every use moves one unit.
\<close>

section \<open>The network\<close>

definition reals :: "Flow_Edge list \<Rightarrow> Flow_Edge set" where
  "reals es = {e \<in> set es. \<not> residual e}"

definition twins :: "Flow_Edge \<Rightarrow> Flow_Edge \<Rightarrow> bool" where
  "twins e e' \<longleftrightarrow> ptr_of e' = twin e \<and> fe_start e' = fe_end e \<and> fe_end e' = fe_start e \<and> fe_edge e' = fe_edge e \<and>
     fe_reverse_edge e' = fe_reverse_edge e"

definition half_edge :: "Flow_Edge \<Rightarrow> bool" where
  "half_edge e \<longleftrightarrow> (\<exists>i. fe_start e = Inbound i \<and> fe_end e = Outbound i) \<and> fe_edge e = None \<and> fe_reverse_edge e = None"

definition link_edge :: "Flow_Edge \<Rightarrow> bool" where
  "link_edge e \<longleftrightarrow> (\<exists>i j. fe_start e = Outbound i \<and> fe_end e = Inbound j) \<and> fe_edge e \<noteq> None \<and> fe_reverse_edge e \<noteq> None"

definition flow_network :: "Flow_Edge list \<Rightarrow> Flow_Node set \<Rightarrow> bool" where
  "flow_network es V \<longleftrightarrow> finite V \<and> (\<forall>e \<in> set es. fe_start e \<in> V \<and> fe_end e \<in> V) \<and> inj_on ptr_of (set es) \<and>
     (\<forall>e \<in> set es. \<exists>e' \<in> set es. twins e e') \<and> (\<forall>e \<in> reals es. half_edge e \<or> link_edge e) \<and>
     (\<forall>e \<in> reals es. \<forall>x \<in> reals es. half_edge e \<and> half_edge x \<and> fe_start x = fe_start e \<longrightarrow> x = e)"

lemma networkD:
  assumes "flow_network es V"
  shows "finite V" "e \<in> set es \<Longrightarrow> fe_start e \<in> V \<and> fe_end e \<in> V" "e \<in> reals es \<Longrightarrow> half_edge e \<or> link_edge e"
    "e \<in> set es \<Longrightarrow> x \<in> set es \<Longrightarrow> ptr_of x = ptr_of e \<Longrightarrow> x = e"
    "e \<in> reals es \<Longrightarrow> x \<in> reals es \<Longrightarrow> half_edge e \<Longrightarrow> half_edge x \<Longrightarrow> fe_start x = fe_start e \<Longrightarrow> x = e"
  using assms unfolding flow_network_def inj_on_def by blast+

lemma ptr_of_eq_iff:
  "ptr_of x = twin e \<longleftrightarrow> fe_no x = fe_no e \<and> residual x \<noteq> residual e"
  "twin e = ptr_of x \<longleftrightarrow> fe_no x = fe_no e \<and> residual x \<noteq> residual e"
  "twin x = twin e \<longleftrightarrow> ptr_of x = ptr_of e"
  by (auto simp: ptr_of_def twin_def)

lemma twin_neq [simp]: "twin e \<noteq> ptr_of e" "ptr_of e \<noteq> twin e"
  by (auto simp: ptr_of_def twin_def)

lemma network_twin:
  assumes "flow_network es V" "e \<in> set es"
  obtains e' where "e' \<in> set es" "twins e e'" "\<And>x. x \<in> set es \<Longrightarrow> ptr_of x = twin e \<Longrightarrow> x = e'"
proof -
  obtain e' where e': "e' \<in> set es" "twins e e'" using assms unfolding flow_network_def by blast
  have "x = e'" if "x \<in> set es" "ptr_of x = twin e" for x
    using networkD(4) [OF assms(1) e'(1) that(1)] that(2) e'(2) by (simp add: twins_def)
  with e' that show thesis by blast
qed

text \<open>The costs: none for the edge between the halves of a node, at least one for a link, and those of a twin
  are opposite.\<close>

definition costs :: "(Flow_Edge \<Rightarrow> int option) \<Rightarrow> Flow_Edge list \<Rightarrow> bool" where
  "costs cst es \<longleftrightarrow> (\<forall>e \<in> set es. \<forall>e' \<in> set es. twins e e' \<longrightarrow> cst e' = map_option uminus (cst e)) \<and>
     (\<forall>e \<in> reals es. (half_edge e \<longrightarrow> cst e = Some 0) \<and> (link_edge e \<longrightarrow> (\<forall>c. cst e = Some c \<longrightarrow> 1 \<le> c)))"

lemma costs_twin: "costs cst es \<Longrightarrow> e \<in> set es \<Longrightarrow> e' \<in> set es \<Longrightarrow> twins e e' \<Longrightarrow> cst e' = map_option uminus (cst e)"
  unfolding costs_def by blast

lemma costs_real:
  assumes "flow_network es V" "costs cst es" "e \<in> reals es" "cst e = Some c"
  shows "0 \<le> c" "link_edge e \<Longrightarrow> 1 \<le> c"
  using assms networkD(3) [OF assms(1,3)] unfolding costs_def by fastforce+

section \<open>Flows\<close>

definition flow_ok :: "(Flow_Edge \<Rightarrow> int option) \<Rightarrow> Flow_Edge list \<Rightarrow> (fe_ptr \<Rightarrow> nat) \<Rightarrow> bool" where
  "flow_ok cst es f \<longleftrightarrow> (\<forall>e \<in> set es. f (ptr_of e) + f (twin e) = 1 \<and> (\<not> residual e \<and> f (ptr_of e) = 1 \<longrightarrow> cst e \<noteq> None))"

definition bag_ok :: "Flow_Edge list \<Rightarrow> (fe_ptr \<Rightarrow> nat) \<Rightarrow> Flow_Edge list \<Rightarrow> bool" where
  "bag_ok es f bag \<longleftrightarrow> distinct (map ptr_of bag) \<and> set bag = {e \<in> reals es. f (ptr_of e) = 1}"

definition excess :: "Flow_Edge list \<Rightarrow> (fe_ptr \<Rightarrow> nat) \<Rightarrow> Flow_Node \<Rightarrow> int" where
  "excess es f v = (\<Sum>e \<in> reals es. int (f (ptr_of e)) * (of_bool (fe_end e = v) - of_bool (fe_start e = v)))"

definition push :: "(fe_ptr \<Rightarrow> nat) \<Rightarrow> Flow_Edge \<Rightarrow> fe_ptr \<Rightarrow> nat" where
  "push f e = f(ptr_of e := fe_capacity, twin e := 0)"

lemma push_simps:
  "push f e (ptr_of e) = 1" "push f e (twin e) = 0" "p \<noteq> ptr_of e \<Longrightarrow> p \<noteq> twin e \<Longrightarrow> push f e p = f p"
  by (auto simp: push_def fe_capacity_def)

lemma finite_reals [simp]: "finite (reals es)" by (simp add: reals_def)

lemma sum_one_change:
  fixes g h :: "'x \<Rightarrow> int"
  assumes "finite A" "a \<in> A" "\<And>x. x \<in> A \<Longrightarrow> x \<noteq> a \<Longrightarrow> g x = h x"
  shows "sum g A = sum h A + (g a - h a)"
proof -
  have "sum g (A - {a}) = sum h (A - {a})" using assms by (intro sum.cong) auto
  then show ?thesis using assms(1,2) by (simp add: sum.remove [of A a])
qed

lemma excess_push:
  assumes n: "flow_network es V" and f: "flow_ok cst es f" and e: "e \<in> set es" "f (ptr_of e) = 0"
  shows "excess es (push f e) v = excess es f v + of_bool (v = fe_end e) - of_bool (v = fe_start e)"
proof -
  obtain e' where e': "e' \<in> set es" "twins e e'" "\<And>x. x \<in> set es \<Longrightarrow> ptr_of x = twin e \<Longrightarrow> x = e'"
    using network_twin [OF n e(1)] by blast
  have ft: "f (twin e) = 1" using f e unfolding flow_ok_def by auto
  define r where "r = (if residual e then e' else e)"
  have r: "r \<in> reals es" using e e'(1,2) by (auto simp: r_def reals_def twins_def ptr_of_eq_iff)
  have other: "push f e (ptr_of x) = f (ptr_of x)" if x: "x \<in> reals es" "x \<noteq> r" for x
  proof (rule push_simps)
    have "x \<in> set es" "\<not> residual x" using x by (auto simp: reals_def)
    then show "ptr_of x \<noteq> ptr_of e" using networkD(4) [OF n e(1), of x] x(2) by (cases "residual e") (auto simp: r_def)
    show "ptr_of x \<noteq> twin e" using e'(3) [of x] x(2) \<open>x \<in> set es\<close> \<open>\<not> residual x\<close> by (auto simp: r_def ptr_of_eq_iff)
  qed
  have "excess es (push f e) v = excess es f v + ((int (push f e (ptr_of r)) - int (f (ptr_of r))) * (of_bool (fe_end r = v) - of_bool (fe_start r = v)))"
    unfolding excess_def by (subst sum_one_change [OF finite_reals r, where h = "\<lambda>e. int (f (ptr_of e)) * (of_bool (fe_end e = v) - of_bool (fe_start e = v))"])
      (simp_all add: other algebra_simps)
  moreover have "(int (push f e (ptr_of r)) - int (f (ptr_of r))) * (of_bool (fe_end r = v) - of_bool (fe_start r = v)) =
      of_bool (v = fe_end e) - of_bool (v = fe_start e)"
  proof (cases "residual e")
    case True
    then have "ptr_of r = twin e" "fe_end r = fe_start e" "fe_start r = fe_end e" using e'(2) by (auto simp: r_def twins_def)
    then show ?thesis using ft by (auto simp: push_simps)
  next
    case False
    then show ?thesis using e(2) by (auto simp: r_def push_simps)
  qed
  ultimately show ?thesis by simp
qed

lemma flow_ok_push:
  assumes n: "flow_network es V" and c: "costs cst es" and f: "flow_ok cst es f" and e: "e \<in> set es" "f (ptr_of e) = 0" "cst e \<noteq> None"
  shows "flow_ok cst es (push f e)"
  unfolding flow_ok_def
proof (intro ballI conjI impI)
  fix x assume x: "x \<in> set es"
  have fx: "f (ptr_of x) + f (twin x) = 1" using f x by (simp add: flow_ok_def)
  show "push f e (ptr_of x) + push f e (twin x) = 1"
  proof (cases "fe_no x = fe_no e")
    case True
    then have "ptr_of x = ptr_of e \<and> twin x = twin e \<or> ptr_of x = twin e \<and> twin x = ptr_of e" by (auto simp: ptr_of_def twin_def)
    then show ?thesis by (auto simp: push_def fe_capacity_def ptr_of_def twin_def)
  next
    case False
    then have "push f e (ptr_of x) = f (ptr_of x)" "push f e (twin x) = f (twin x)" by (auto simp: push_def ptr_of_def twin_def)
    then show ?thesis using fx by simp
  qed
  assume a: "\<not> residual x \<and> push f e (ptr_of x) = 1"
  show "cst x \<noteq> None"
  proof (cases "ptr_of x = ptr_of e")
    case True
    then show ?thesis using networkD(4) [OF n e(1) x] e(3) by simp
  next
    case False
    have "ptr_of x \<noteq> twin e" using a push_simps(2) [of f e] by auto
    then have "f (ptr_of x) = 1" using a push_simps(3) [OF False] by simp
    then show ?thesis using f x a by (simp add: flow_ok_def)
  qed
qed

lemma erase_ptr_set: "distinct (map ptr_of bag) \<Longrightarrow> set (erase_ptr p bag) = {e \<in> set bag. ptr_of e \<noteq> p}"
  by (induction bag) (auto simp: image_iff)

lemma erase_ptr_distinct: "distinct (map ptr_of bag) \<Longrightarrow> distinct (map ptr_of (erase_ptr p bag))"
  by (induction bag) (auto simp: erase_ptr_set)

lemma use_edge_ok:
  assumes n: "flow_network es V" and f: "flow_ok cst es f" and b: "bag_ok es f bag" and e: "e \<in> set es" "f (ptr_of e) = 0"
  obtains bag' where "use_edge e (f, bag) = Inr (push f e, bag')" "bag_ok es (push f e) bag'"
proof -
  obtain e' where e': "e' \<in> set es" "twins e e'" "\<And>x. x \<in> set es \<Longrightarrow> ptr_of x = twin e \<Longrightarrow> x = e'"
    using network_twin [OF n e(1)] by blast
  have ft: "f (twin e) = 1" using f e unfolding flow_ok_def by auto
  have pe: "push f e (ptr_of x) = 1 \<longleftrightarrow> ptr_of x = ptr_of e \<or> f (ptr_of x) = 1 \<and> ptr_of x \<noteq> twin e" for x
    by (metis push_simps zero_neq_one)
  show thesis
  proof (cases "residual e")
    case False
    have new: "ptr_of e \<notin> ptr_of ` set bag" using b e(2) by (auto simp: bag_ok_def)
    have "set (e # bag) = {x \<in> reals es. push f e (ptr_of x) = 1}"
    proof (intro equalityI subsetI)
      fix x assume "x \<in> set (e # bag)"
      then show "x \<in> {x \<in> reals es. push f e (ptr_of x) = 1}"
        using b e(1) False unfolding pe bag_ok_def by (auto simp: reals_def ptr_of_eq_iff)
    next
      fix x assume x: "x \<in> {x \<in> reals es. push f e (ptr_of x) = 1}"
      then show "x \<in> set (e # bag)"
        using b networkD(4) [OF n e(1), of x] unfolding pe bag_ok_def by (auto simp: reals_def)
    qed
    then have "bag_ok es (push f e) (e # bag)" using b new by (simp add: bag_ok_def)
    then show thesis using False by (intro that) (auto simp: use_edge_def push_def)
  next
    case True
    then have r: "e' \<in> reals es" using e'(1,2) by (auto simp: reals_def twins_def ptr_of_eq_iff)
    then have "e' \<in> set bag" using b ft e'(2) by (auto simp: bag_ok_def twins_def)
    then have tw: "twin e \<in> ptr_of ` set bag" using e'(2) by (force simp: twins_def)
    have "set (erase_ptr (twin e) bag) = {x \<in> reals es. push f e (ptr_of x) = 1}"
      using b True unfolding pe bag_ok_def by (auto simp: erase_ptr_set reals_def dest: arg_cong [of _ _ snd] simp: ptr_of_def)
    then have "bag_ok es (push f e) (erase_ptr (twin e) bag)" using b by (simp add: bag_ok_def erase_ptr_distinct)
    then show thesis using True tw by (intro that) (auto simp: use_edge_def push_def)
  qed
qed

lemma feasible_push:
  assumes n: "flow_network es V" and c: "costs cst es" and g: "feasible (usable cst f) es g"
    and e: "e \<in> set es" "cst e = Some a" "g (fe_start e) + a \<le> g (fe_end e)"
  shows "feasible (usable cst (push f e)) es g"
  unfolding feasible_def
proof (intro ballI allI impI)
  fix x b assume x: "x \<in> set es" "usable cst (push f e) x = Some b"
  obtain e' where e': "e' \<in> set es" "twins e e'" "\<And>x. x \<in> set es \<Longrightarrow> ptr_of x = twin e \<Longrightarrow> x = e'"
    using network_twin [OF n e(1)] by blast
  show "g (fe_end x) \<le> g (fe_start x) + b"
  proof (cases "ptr_of x = twin e")
    case True
    then have "x = e'" using e' x by blast
    then show ?thesis using x(2) costs_twin [OF c e(1) e'(1,2)] e'(2) e(2,3) by (auto simp: usable_def twins_def split: if_splits)
  next
    case False
    have "ptr_of x \<noteq> ptr_of e" using x(2) by (auto simp: usable_def push_simps fe_capacity_def)
    with False x(2) have "usable cst f x = Some b" by (simp add: usable_def push_simps)
    then show ?thesis by (rule feasibleD [OF g x(1)])
  qed
qed

end
