(* ===== verification/Flow_Paths.thy ===== *)
theory Flow_Paths
  imports Flow
begin

text \<open>
  One path of \<open>MultiPath_Compute\<close> after the other: the tree that the rounds leave leads from the target to the
  source, the path back is free of repetitions, and it increases the flow by one.
\<close>

section \<open>Nodes that carry flow\<close>

definition ff_inv :: "(Flow_Edge \<Rightarrow> int option) \<Rightarrow> Flow_Edge list \<Rightarrow> Flow_Node \<Rightarrow> Flow_Node \<Rightarrow> nat \<Rightarrow>
    (fe_ptr \<Rightarrow> nat) \<times> Flow_Edge list \<Rightarrow> (Flow_Node \<Rightarrow> int) \<Rightarrow> bool" where
  "ff_inv cst es s t m st \<pi> \<longleftrightarrow> (case st of (f, bag) \<Rightarrow>
     flow_ok cst es f \<and> bag_ok es f bag \<and> (\<forall>v. excess es f v = int m * (of_bool (v = t) - of_bool (v = s))) \<and>
     feasible (usable cst f) es \<pi> \<and> (\<forall>v. 0 \<le> \<pi> v \<and> \<pi> v \<le> start_dist s v))"

lemma ff_invD:
  assumes "ff_inv cst es s t m (f, bag) \<pi>"
  shows "flow_ok cst es f" "bag_ok es f bag" "excess es f v = int m * (of_bool (v = t) - of_bool (v = s))"
    "feasible (usable cst f) es \<pi>" "0 \<le> \<pi> v" "\<pi> v \<le> start_dist s v"
  using assms unfolding ff_inv_def prod.case by blast+

lemma flow_below:
  assumes n: "flow_network es V" and c: "costs cst es" and f: "flow_ok cst es f" and p: "feasible (usable cst f) es \<pi>"
    and e: "e \<in> reals es" "f (ptr_of e) = 1"
  obtains a where "cst e = Some a" "\<pi> (fe_start e) + a \<le> \<pi> (fe_end e)"
proof -
  have es: "e \<in> set es" "\<not> residual e" using e by (auto simp: reals_def)
  then obtain a where a: "cst e = Some a" using f e(2) unfolding flow_ok_def by blast
  obtain e' where e': "e' \<in> set es" "twins e e'" using network_twin [OF n es(1)] by blast
  have "f (twin e) = 0" using f es e(2) unfolding flow_ok_def by fastforce
  then have "usable cst f e' = Some (- a)" using costs_twin [OF c es(1) e'] a e'(2) by (simp add: usable_def fe_capacity_def twins_def)
  from feasibleD [OF p e'(1) this] e'(2) a that show thesis by (simp add: twins_def)
qed

lemma excess_out:
  assumes e: "e \<in> reals es" "f (ptr_of e) = 1" and le: "excess es f (fe_end e) \<le> 0" and ne: "fe_start e \<noteq> fe_end e"
  obtains x where "x \<in> reals es" "f (ptr_of x) \<noteq> 0" "fe_start x = fe_end e"
proof (rule ccontr)
  assume no: "\<not> thesis"
  note found = that
  have z: "f (ptr_of x) = 0" if x: "x \<in> reals es" "fe_start x = fe_end e" for x using found [of x] no x by blast
  let ?g = "\<lambda>x. int (f (ptr_of x)) * (of_bool (fe_end x = fe_end e) - of_bool (fe_start x = fe_end e))"
  have "?g e \<le> sum ?g (reals es)" using z e(1) by (intro member_le_sum) auto
  then show False using le e(2) ne by (simp add: excess_def)
qed

definition node_rank :: "(Flow_Node \<Rightarrow> int) \<Rightarrow> Flow_Node \<Rightarrow> int" where
  "node_rank \<pi> v = 2 * \<pi> v + (case v of Inbound i \<Rightarrow> 0 | Outbound i \<Rightarrow> 1)"

text \<open>Every node that carries flow is nearer than the target, since the flow leads there.\<close>

lemma carrying_below:
  assumes n: "flow_network es V" and c: "costs cst es" and i: "ff_inv cst es s t m (f, bag) \<pi>"
    and e: "e \<in> reals es" "f (ptr_of e) = 1"
  shows "\<pi> (fe_end e) \<le> \<pi> t"
proof (rule ccontr)
  assume far: "\<not> \<pi> (fe_end e) \<le> \<pi> t"
  define A where "A = {e \<in> reals es. f (ptr_of e) = 1 \<and> \<pi> t < \<pi> (fe_end e)}"
  let ?M = "Max ((\<lambda>e. node_rank \<pi> (fe_end e)) ` A)"
  have A: "finite A" "A \<noteq> {}" using e far by (auto simp: A_def)
  then have "?M \<in> (\<lambda>e. node_rank \<pi> (fe_end e)) ` A" by (intro Max_in) auto
  then obtain x where x: "x \<in> A" "?M = node_rank \<pi> (fe_end x)" by blast
  have xr: "x \<in> reals es" "f (ptr_of x) = 1" "\<pi> t < \<pi> (fe_end x)" using x(1) by (auto simp: A_def)
  have "fe_end x \<noteq> t" using xr(3) by auto
  then have "excess es f (fe_end x) \<le> 0" using ff_invD(3) [OF i, of "fe_end x"] by simp
  moreover have "fe_start x \<noteq> fe_end x" using networkD(3) [OF n xr(1)] by (auto simp: half_edge_def link_edge_def)
  ultimately obtain y where y: "y \<in> reals es" "f (ptr_of y) \<noteq> 0" "fe_start y = fe_end x"
    using excess_out [where f = f, OF xr(1,2)] by blast
  have y1: "f (ptr_of y) = 1" using y(1,2) ff_invD(1) [OF i] unfolding flow_ok_def reals_def by fastforce
  obtain a where a: "cst y = Some a" "\<pi> (fe_start y) + a \<le> \<pi> (fe_end y)"
    using flow_below [OF n c ff_invD(1) [OF i] ff_invD(4) [OF i] y(1) y1] by blast
  note ca = costs_real [OF n c y(1) a(1)]
  have "y \<in> A" using y y1 xr(3) a(2) ca(1) by (simp add: A_def)
  moreover have "node_rank \<pi> (fe_end x) < node_rank \<pi> (fe_end y)"
    using networkD(3) [OF n y(1)] a(2) ca y(3) by (auto simp: node_rank_def half_edge_def link_edge_def)
  moreover have "node_rank \<pi> (fe_end y) \<le> ?M" if "y \<in> A" using that A(1) by (intro Max_ge) auto
  ultimately show False using x(2) by simp
qed

lemma real_twin:
  assumes n: "flow_network es V" and f: "flow_ok cst es f" and x: "x \<in> set es" "residual x" "f (ptr_of x) = 0"
  obtains y where "y \<in> reals es" "twins x y" "f (ptr_of y) = 1"
proof -
  obtain y where y: "y \<in> set es" "twins x y" using network_twin [OF n x(1)] by blast
  have "f (twin x) = 1" using f x unfolding flow_ok_def by force
  then have "f (ptr_of y) = 1" using y(2) by (simp add: twins_def)
  moreover have "y \<in> reals es" using y x(2) by (auto simp: reals_def twins_def ptr_of_eq_iff)
  ultimately show thesis using y(2) that by blast
qed

lemma feasible_min:
  assumes n: "flow_network es V" and c: "costs cst es" and i: "ff_inv cst es s t m (f, bag) \<pi>"
  shows "feasible (usable cst f) es (\<lambda>v. min (\<pi> v) (\<pi> t))"
  unfolding feasible_def
proof (intro ballI allI impI)
  fix x b assume x: "x \<in> set es" "usable cst f x = Some b"
  have le: "\<pi> (fe_end x) \<le> \<pi> (fe_start x) + b" by (rule feasibleD [OF ff_invD(4) [OF i] x])
  have cb: "cst x = Some b" "f (ptr_of x) = 0" using x(2) by (auto simp: usable_def fe_capacity_def split: if_splits)
  show "min (\<pi> (fe_end x)) (\<pi> t) \<le> min (\<pi> (fe_start x)) (\<pi> t) + b"
  proof (cases "residual x")
    case False
    then have "x \<in> reals es" using x(1) by (simp add: reals_def)
    from costs_real(1) [OF n c this cb(1)] le show ?thesis by simp
  next
    case True
    obtain y where y: "y \<in> reals es" "twins x y" "f (ptr_of y) = 1"
      using real_twin [OF n ff_invD(1) [OF i] x(1) True cb(2)] by blast
    have "\<pi> (fe_start x) \<le> \<pi> t" using carrying_below [OF n c i y(1,3)] y(2) by (simp add: twins_def)
    with le show ?thesis by simp
  qed
qed

section \<open>The path back\<close>

lemma tree_finite:
  assumes "flow_network es V" "bf_inv w es s \<pi> (dist, prev, p)"
  shows "wf (tree prev)"
proof (rule finite_acyclic_wf)
  have "tree prev \<subseteq> V \<times> V"
    using bf_invD(6) [OF assms(2)] networkD(2) [OF assms(1)] by (fastforce simp: tree_def)
  then show "finite (tree prev)" using networkD(1) [OF assms(1)] by (meson finite_SigmaI finite_subset)
qed (rule bf_invD(5) [OF assms(2)])

text \<open>The tree above the target has no root but the source.\<close>

lemma tree_root:
  assumes n: "flow_network es V" and c: "costs cst es" and i: "ff_inv cst es s t m (f, bag) \<pi>"
    and b: "bf_inv (usable cst f) es s \<pi> (dist, prev, p)" and t: "dist t \<noteq> 65535" and x: "(x, t) \<in> (tree prev)\<^sup>*" "prev x = None"
  shows "x = s"
proof (rule ccontr)
  assume "x \<noteq> s"
  then have "dist x = 65535" using bf_invD(7) [OF b x(2)] by blast
  then show False using tree_reduced [OF b feasible_min [OF n c i] x(1)] t bf_invD(2) [OF b, of t] by (simp split: if_splits)
qed

definition on_tree :: "(Flow_Edge \<Rightarrow> int option) \<Rightarrow> Flow_Edge list \<Rightarrow> (Flow_Node \<Rightarrow> int) \<Rightarrow> (Flow_Node \<Rightarrow> Flow_Edge option) \<Rightarrow> bool" where
  "on_tree cst es dist prev \<longleftrightarrow> acyclic (tree prev) \<and>
     (\<forall>v e. prev v = Some e \<longrightarrow> e \<in> set es \<and> fe_end e = v \<and> (\<exists>c. cst e = Some c \<and> dist (fe_start e) + c \<le> dist v))"

lemma on_treeD:
  assumes "on_tree cst es dist prev"
  shows "acyclic (tree prev)"
    "prev v = Some e \<Longrightarrow> e \<in> set es \<and> fe_end e = v \<and> (\<exists>c. cst e = Some c \<and> dist (fe_start e) + c \<le> dist v)"
  using assms unfolding on_tree_def by blast+

lemma bf_inv_on_tree: "bf_inv (usable cst f) es s \<pi> (dist, prev, p) \<Longrightarrow> on_tree cst es dist prev"
  unfolding on_tree_def using bf_invD(5,6) by (fastforce simp: usable_def split: if_splits)

text \<open>An edge of the tree and its twin are not both on the way back.\<close>

lemma tree_other:
  assumes o: "on_tree cst es dist prev" and e: "prev v = Some e" and x: "(x, fe_start e) \<in> (tree prev)\<^sup>*" "prev x = Some y"
    and n: "flow_network es V"
  shows "ptr_of y \<noteq> ptr_of e" "ptr_of y \<noteq> twin e"
proof -
  have a: "(fe_start e, v) \<in> tree prev" using e by (auto simp: tree_def)
  have b: "(fe_start y, x) \<in> tree prev" using x(2) by (auto simp: tree_def)
  have ee: "e \<in> set es" "fe_end e = v" and yy: "y \<in> set es" "fe_end y = x" using on_treeD(2) [OF o] e x(2) by blast+
  have cyc: "(x, v) \<in> (tree prev)\<^sup>+" using x(1) a by (rule rtrancl_into_trancl1)
  then have "x \<noteq> v" using on_treeD(1) [OF o] by (auto simp: acyclic_def)
  then show "ptr_of y \<noteq> ptr_of e" using networkD(4) [OF n ee(1) yy(1)] ee(2) yy(2) by blast
  show "ptr_of y \<noteq> twin e"
  proof
    assume "ptr_of y = twin e"
    moreover obtain e' where "e' \<in> set es" "twins e e'" "\<And>x. x \<in> set es \<Longrightarrow> ptr_of x = twin e \<Longrightarrow> x = e'"
      using network_twin [OF n ee(1)] by blast
    ultimately have "twins e y" using yy(1) by blast
    then have "fe_start y = v" using ee by (simp add: twins_def)
    then have "(v, v) \<in> (tree prev)\<^sup>+" using b cyc by (metis trancl_into_trancl2)
    then show False using on_treeD(1) [OF o] by (auto simp: acyclic_def)
  qed
qed

lemma augment_ok:
  assumes n: "flow_network es V" and c: "costs cst es" and o: "on_tree cst es dist prev" and w: "wf (tree prev)"
    and r: "\<And>x. (x, t) \<in> (tree prev)\<^sup>* \<Longrightarrow> prev x = None \<Longrightarrow> x = s"
  shows "(v, t) \<in> (tree prev)\<^sup>* \<Longrightarrow> flow_ok cst es f \<Longrightarrow> bag_ok es f bag \<Longrightarrow> feasible (usable cst f) es dist \<Longrightarrow>
     (\<And>x e. (x, v) \<in> (tree prev)\<^sup>* \<Longrightarrow> prev x = Some e \<Longrightarrow> f (ptr_of e) = 0) \<Longrightarrow>
     \<exists>f' bag'. augment prev s v (f, bag) = Some (Inr (f', bag')) \<and> flow_ok cst es f' \<and> bag_ok es f' bag' \<and>
       feasible (usable cst f') es dist \<and> (\<forall>x. excess es f' x = excess es f x + of_bool (x = v) - of_bool (x = s))"
  using w
proof (induction v arbitrary: f bag rule: wf_induct_rule)
  case (less v)
  show ?case
  proof (cases "v = s")
    case True
    then show ?thesis using less.prems by (subst augment.simps) auto
  next
    case False
    then obtain e where e: "prev v = Some e" using r [OF less.prems(1)] by (cases "prev v") auto
    then obtain a where ee: "e \<in> set es" "fe_end e = v" "cst e = Some a" "dist (fe_start e) + a \<le> dist v"
      using on_treeD(2) [OF o] by blast
    let ?f = "push f e"
    have fe: "f (ptr_of e) = 0" using less.prems(5) [OF _ e] by simp
    obtain bag1 where u: "use_edge e (f, bag) = Inr (?f, bag1)" "bag_ok es ?f bag1"
      using use_edge_ok [OF n less.prems(2,3) ee(1) fe] by blast
    have tr: "(fe_start e, v) \<in> tree prev" using e by (auto simp: tree_def)
    have "?f (ptr_of y) = 0" if y: "(x, fe_start e) \<in> (tree prev)\<^sup>*" "prev x = Some y" for x y
      using tree_other [OF o e y n] less.prems(5) [of x y] y(2) rtrancl_into_rtrancl [OF y(1) tr] by (simp add: push_simps)
    moreover have "(fe_start e, t) \<in> (tree prev)\<^sup>*" using tr less.prems(1) by simp
    moreover have "flow_ok cst es ?f" using flow_ok_push [OF n c less.prems(2) ee(1) fe] ee(3) by simp
    moreover have "feasible (usable cst ?f) es dist" using feasible_push [OF n c less.prems(4) ee(1,3)] ee by simp
    ultimately obtain f' bag' where f': "augment prev s (fe_start e) (?f, bag1) = Some (Inr (f', bag'))" "flow_ok cst es f'"
        "bag_ok es f' bag'" "feasible (usable cst f') es dist"
        "\<And>x. excess es f' x = excess es ?f x + of_bool (x = fe_start e) - of_bool (x = s)"
      using less.IH [OF tr _ _ u(2)] by blast
    have "augment prev s v (f, bag) = Some (Inr (f', bag'))" using f'(1) False e u(1) by (subst augment.simps) simp
    moreover have "excess es f' x = excess es f x + of_bool (x = v) - of_bool (x = s)" for x
      using f'(5) [of x] excess_push [OF n less.prems(2) ee(1) fe, of x] ee(2) by simp
    ultimately show ?thesis using f'(2,3,4) by blast
  qed
qed

end
