(* ===== verification/Flow_Loop.thy ===== *)
theory Flow_Loop
  imports Flow_Paths
begin

text \<open>
  The loop over the paths: it ends with a flow of as many units as it has counted, and it ends early only if the
  target is too far away in the network that the flow leaves.
\<close>

lemma uint_USHRT_MAX: "uint USHRT_MAX = 65535"
  by (simp add: USHRT_MAX_def)

lemma bf_start_eq: "bf_start cf = (start_dist (Outbound (cf_My_ID cf)), (\<lambda>_. None), False)"
  by (simp add: bf_start_def start_dist_def uint_USHRT_MAX)

definition blocked :: "(Flow_Edge \<Rightarrow> int option) \<Rightarrow> Flow_Edge list \<Rightarrow> Flow_Node \<Rightarrow> Flow_Node \<Rightarrow> (fe_ptr \<Rightarrow> nat) \<Rightarrow> bool" where
  "blocked cst es s t f \<longleftrightarrow> (\<exists>\<pi>. feasible (usable cst f) es \<pi> \<and> \<pi> s = 0 \<and> \<pi> t = 65535)"

lemma ff_step:
  assumes n: "flow_network es V" and c: "costs cst es" and fc: "\<And>e. e \<in> set es \<Longrightarrow> flow_cost opts d e = Inr (cst e)"
    and i: "ff_inv cst es s t m (f, bag) \<pi>" and N: "card V < N"
  obtains dist prev where "bf_rounds opts d f es N (start_dist s, (\<lambda>_. None), q) = Inr (dist, prev, False)"
    "dist t = 65535 \<Longrightarrow> blocked cst es s t f"
    "dist t \<noteq> 65535 \<Longrightarrow> \<exists>st'. augment prev s t (f, bag) = Some (Inr st') \<and> ff_inv cst es s t (Suc m) st' dist"
proof -
  obtain dist prev where r: "bf_rounds opts d f es N (start_dist s, (\<lambda>_. None), q) = Inr (dist, prev, False)"
    "bf_inv (usable cst f) es s \<pi> (dist, prev, False)" "feasible (usable cst f) es dist"
    using bf_rounds_ends [where cst = cst and es = es and d = d and opts = opts and V = V and n = N and q = q,
        OF fc ff_invD(4) [OF i] ff_invD(5) [OF i] ff_invD(6) [OF i] networkD(2) [OF n] networkD(1) [OF n] N] by blast
  note b = bf_invD [OF r(2)]
  have "blocked cst es s t f" if "dist t = 65535" using r(3) b(3) that unfolding blocked_def by blast
  moreover have "\<exists>st'. augment prev s t (f, bag) = Some (Inr st') \<and> ff_inv cst es s t (Suc m) st' dist" if t: "dist t \<noteq> 65535"
  proof -
    have free: "f (ptr_of e) = 0" if "prev x = Some e" for x e
      using b(6) [OF that] by (auto simp: usable_def fe_capacity_def split: if_splits)
    obtain f' bag' where a: "augment prev s t (f, bag) = Some (Inr (f', bag'))" "flow_ok cst es f'" "bag_ok es f' bag'"
        "feasible (usable cst f') es dist" "\<And>x. excess es f' x = excess es f x + of_bool (x = t) - of_bool (x = s)"
      using augment_ok [OF n c bf_inv_on_tree [OF r(2)] tree_finite [OF n r(2)] tree_root [OF n c i r(2) t], where v = t and f = f and bag = bag]
        ff_invD(1,2) [OF i] r(3) free by blast
    have "0 \<le> dist x \<and> dist x \<le> start_dist s x" for x
      using b(1) [of x] b(2) [of x] b(3) ff_invD(5) [OF i, of x] by (simp add: start_dist_def)
    then have "ff_inv cst es s t (Suc m) (f', bag') dist"
      using a ff_invD(3) [OF i] by (simp add: ff_inv_def algebra_simps)
    with a(1) show ?thesis by blast
  qed
  ultimately show thesis using r(1) that by blast
qed

lemma ff_loop_ok:
  assumes n: "flow_network es V" and c: "costs cst es" and fc: "\<And>e. e \<in> set es \<Longrightarrow> flow_cost opts d e = Inr (cst e)"
    and N: "card V < 2 * conf_Num_Nodes cf + 1" and made: "flow_node_made cf (cf_My_ID cf)" "flow_node_made cf tgt"
    and i: "ff_inv cst es (Outbound (cf_My_ID cf)) (Inbound tgt) m st \<pi>"
  shows "\<exists>m' f' bag' \<pi>'. ff_loop cf opts d es tgt k m st = Inr (m', f', bag') \<and>
     ff_inv cst es (Outbound (cf_My_ID cf)) (Inbound tgt) m' (f', bag') \<pi>' \<and> m \<le> m' \<and> m' \<le> m + k \<and>
     (m' < m + k \<longrightarrow> blocked cst es (Outbound (cf_My_ID cf)) (Inbound tgt) f')"
  using i
proof (induction k arbitrary: m st \<pi>)
  case 0
  then show ?case by (cases st) auto
next
  case (Suc k)
  let ?s = "Outbound (cf_My_ID cf)" and ?t = "Inbound tgt"
  obtain f bag where st: "st = (f, bag)" by (cases st)
  obtain dist prev where r: "bf_rounds opts d f es (2 * conf_Num_Nodes cf + 1) (bf_start cf) = Inr (dist, prev, False)"
      "dist ?t = 65535 \<Longrightarrow> blocked cst es ?s ?t f"
      "dist ?t \<noteq> 65535 \<Longrightarrow> \<exists>st'. augment prev ?s ?t (f, bag) = Some (Inr st') \<and> ff_inv cst es ?s ?t (Suc m) st' dist"
    unfolding bf_start_eq using ff_step [OF n c fc Suc.prems [unfolded st] N, where q = False] by blast
  show ?case
  proof (cases "dist ?t = 65535")
    case True
    then have "ff_loop cf opts d es tgt (Suc k) m st = Inr (m, f, bag)" using r(1) made by (simp add: st uint_USHRT_MAX)
    then show ?thesis using Suc.prems st r(2) [OF True] by auto
  next
    case False
    then obtain st' where st': "augment prev ?s ?t (f, bag) = Some (Inr st')" "ff_inv cst es ?s ?t (Suc m) st' dist" using r(3) by blast
    have go: "ff_loop cf opts d es tgt (Suc k) m st = ff_loop cf opts d es tgt k (Suc m) st'"
      using r(1) False st'(1) made by (simp add: st must_end_def uint_USHRT_MAX)
    obtain m' f' bag' \<pi>' where "ff_loop cf opts d es tgt k (Suc m) st' = Inr (m', f', bag')" "ff_inv cst es ?s ?t m' (f', bag') \<pi>'"
        "Suc m \<le> m'" "m' \<le> Suc m + k" "m' < Suc m + k \<longrightarrow> blocked cst es ?s ?t f'"
      using Suc.IH [OF st'(2)] by blast
    then show ?thesis unfolding go by (intro exI [of _ m'] exI [of _ f'] exI [of _ bag'] exI [of _ \<pi>']) auto
  qed
qed

text \<open>At the start no edge carries flow.\<close>

lemma ff_inv_start:
  assumes n: "flow_network es V" and c: "costs cst es"
  shows "ff_inv cst es s t 0 ((\<lambda>(n, r). if r then fe_capacity else 0), []) (\<lambda>_. 0)"
proof -
  let ?f = "\<lambda>(n :: nat, r). if r then fe_capacity else 0"
  have "flow_ok cst es ?f" by (auto simp: flow_ok_def ptr_of_def twin_def fe_capacity_def)
  moreover have "bag_ok es ?f []" by (auto simp: bag_ok_def reals_def ptr_of_def)
  moreover have "excess es ?f v = 0" for v unfolding excess_def by (intro sum.neutral) (auto simp: reals_def ptr_of_def)
  moreover have "feasible (usable cst ?f) es (\<lambda>_. 0)"
    using costs_real(1) [OF n c] by (auto simp: feasible_def usable_def fe_capacity_def ptr_of_def reals_def split: if_splits)
  ultimately show ?thesis by (simp add: ff_inv_def start_dist_def)
qed

section \<open>Cuts\<close>

text \<open>What flows into a set of nodes, less what flows out.\<close>

lemma cut_excess:
  assumes "finite R"
  shows "(\<Sum>v \<in> R. excess es f v) = (\<Sum>e \<in> reals es. int (f (ptr_of e)) * (of_bool (fe_end e \<in> R) - of_bool (fe_start e \<in> R)))"
proof -
  have one: "(\<Sum>v \<in> R. of_bool (x = v)) = (of_bool (x \<in> R) :: int)" for x :: Flow_Node
    using assms by (auto simp: of_bool_def sum.delta)
  have "(\<Sum>v \<in> R. excess es f v) = (\<Sum>e \<in> reals es. \<Sum>v \<in> R. int (f (ptr_of e)) * (of_bool (fe_end e = v) - of_bool (fe_start e = v)))"
    unfolding excess_def by (rule sum.swap)
  also have "\<dots> = (\<Sum>e \<in> reals es. int (f (ptr_of e)) * (of_bool (fe_end e \<in> R) - of_bool (fe_start e \<in> R)))"
    by (simp flip: sum_distrib_left add: sum_subtractf one)
  finally show ?thesis .
qed

lemma cut_value:
  assumes "finite R" "\<And>v. excess es f v = int m * (of_bool (v = t) - of_bool (v = s))" "s \<in> R" "t \<notin> R"
  shows "(\<Sum>v \<in> R. excess es f v) = - int m"
proof -
  have "(\<Sum>v \<in> R. excess es f v) = (\<Sum>v \<in> R. - (if v = s then int m else 0))"
    unfolding assms(2) using assms(4) by (intro sum.cong) auto
  also have "\<dots> = - int m" using assms(1,3) by (simp add: sum_negf)
  finally show ?thesis .
qed

definition leaving :: "Flow_Edge list \<Rightarrow> Flow_Node set \<Rightarrow> Flow_Edge set" where
  "leaving es R = {e \<in> reals es. fe_start e \<in> R \<and> fe_end e \<notin> R}"

text \<open>No more can flow than the edges that leave the set carry, and if nothing flows back, exactly that.\<close>

lemma leaving_sum: "(\<Sum>e \<in> reals es. - of_bool (e \<in> {e \<in> leaving es R. P e})) = - int (card {e \<in> leaving es R. P e})"
  by (simp add: sum_negf of_bool_def sum.If_cases leaving_def Int_def conj_ac)

lemma cut_bound:
  assumes R: "finite R" "s \<in> R" "t \<notin> R" and x: "\<And>v. excess es f v = int m * (of_bool (v = t) - of_bool (v = s))"
    and f: "flow_ok cst es f"
  shows "m \<le> card {e \<in> leaving es R. f (ptr_of e) = 1}"
proof -
  let ?g = "\<lambda>e. int (f (ptr_of e)) * (of_bool (fe_end e \<in> R) - of_bool (fe_start e \<in> R))"
  have le1: "f (ptr_of e) \<le> 1" if "e \<in> reals es" for e using f that unfolding flow_ok_def reals_def by fastforce
  have "- int m = sum ?g (reals es)" using cut_value [OF R(1) x R(2,3)] cut_excess [OF R(1), of es f] by simp
  also have "\<dots> \<ge> (\<Sum>e \<in> reals es. - of_bool (e \<in> {e \<in> leaving es R. f (ptr_of e) = 1}))"
    by (intro sum_mono) (use le1 in \<open>fastforce simp: leaving_def le_Suc_eq\<close>)
  finally show ?thesis unfolding leaving_sum by simp
qed

lemma cut_exact:
  assumes R: "finite R" "s \<in> R" "t \<notin> R" and x: "\<And>v. excess es f v = int m * (of_bool (v = t) - of_bool (v = s))"
    and f: "flow_ok cst es f" and b: "\<And>e. e \<in> reals es \<Longrightarrow> fe_start e \<notin> R \<Longrightarrow> fe_end e \<in> R \<Longrightarrow> f (ptr_of e) = 0"
  shows "card {e \<in> leaving es R. f (ptr_of e) = 1} = m"
proof -
  let ?g = "\<lambda>e. int (f (ptr_of e)) * (of_bool (fe_end e \<in> R) - of_bool (fe_start e \<in> R))"
  have le1: "f (ptr_of e) \<le> 1" if "e \<in> reals es" for e using f that unfolding flow_ok_def reals_def by fastforce
  have "- int m = sum ?g (reals es)" using cut_value [OF R(1) x R(2,3)] cut_excess [OF R(1), of es f] by simp
  also have "\<dots> = (\<Sum>e \<in> reals es. - of_bool (e \<in> {e \<in> leaving es R. f (ptr_of e) = 1}))"
    by (intro sum.cong) (use le1 b in \<open>fastforce simp: leaving_def le_Suc_eq\<close>)+
  finally show ?thesis unfolding leaving_sum by simp
qed

end
