(* ===== verification/Flow_Cuts.thy ===== *)
theory Flow_Cuts
  imports Flow_Loop
begin

text \<open>
  What a flow says about paths between nodes: a flow of \<open>m\<close> units reaches the target without any set of fewer than
  \<open>m\<close> nodes in between, and if the target is out of reach of a further path there are no more than \<open>m\<close> paths that
  share no node in between.
\<close>

section \<open>Nodes that fail\<close>

definition carries_flow :: "Flow_Edge list \<Rightarrow> (fe_ptr \<Rightarrow> nat) \<Rightarrow> nat \<Rightarrow> nat \<Rightarrow> bool" where
  "carries_flow es f i j \<longleftrightarrow> (\<exists>e \<in> reals es. link_edge e \<and> fe_start e = Outbound i \<and> fe_end e = Inbound j \<and> f (ptr_of e) = 1)"

definition without :: "(nat \<Rightarrow> nat \<Rightarrow> bool) \<Rightarrow> nat set \<Rightarrow> (nat \<times> nat) set" where
  "without r F = {(i, j). r i j \<and> i \<notin> F \<and> j \<notin> F}"

lemma survives:
  assumes n: "flow_network es V" and i: "ff_inv cst es (Outbound me) (Inbound tgt) m (f, bag) \<pi>"
    and F: "finite F" "card F < m" "me \<notin> F" "tgt \<notin> F"
  shows "(me, tgt) \<in> (without (carries_flow es f) F)\<^sup>*"
proof (rule ccontr)
  assume no: "(me, tgt) \<notin> (without (carries_flow es f) F)\<^sup>*"
  define A where "A = {i. (me, i) \<in> (without (carries_flow es f) F)\<^sup>*}"
  define R where "R = insert (Outbound me) {v \<in> V. case v of Outbound i \<Rightarrow> i \<in> A | Inbound j \<Rightarrow> \<exists>i \<in> A. carries_flow es f i j}"
  have step: "j \<in> A" if "i \<in> A" "carries_flow es f i j" "j \<notin> F" for i j
  proof -
    have "i \<notin> F" using that(1) F(3) by (auto simp: A_def without_def elim: rtranclE)
    then have "(i, j) \<in> without (carries_flow es f) F" using that by (simp add: without_def)
    then show ?thesis using that(1) by (auto simp: A_def)
  qed
  have me: "me \<in> A" by (simp add: A_def)
  have fin: "finite R" using networkD(1) [OF n] by (simp add: R_def)
  have tn: "Inbound tgt \<notin> R" using no step F(4) by (auto simp: R_def A_def)
  have half: "\<exists>j \<in> F. fe_start e = Inbound j" "half_edge e" if e: "e \<in> leaving es R" "f (ptr_of e) = 1" for e
  proof -
    have r: "e \<in> reals es" "fe_start e \<in> R" "fe_end e \<notin> R" using e by (auto simp: leaving_def)
    have v: "fe_end e \<in> V" using networkD(2) [OF n, of e] r(1) by (simp add: reals_def)
    show h: "half_edge e"
    proof (rule ccontr)
      assume "\<not> half_edge e"
      then have l: "link_edge e" using networkD(3) [OF n r(1)] by blast
      then obtain i j where ij: "fe_start e = Outbound i" "fe_end e = Inbound j" by (auto simp: link_edge_def)
      then have "carries_flow es f i j" using r(1) l e(2) by (auto simp: carries_flow_def)
      moreover have "i \<in> A" using r(2) ij(1) me by (auto simp: R_def)
      ultimately show False using r(3) v ij(2) by (auto simp: R_def)
    qed
    then obtain j where j: "fe_start e = Inbound j" "fe_end e = Outbound j" by (auto simp: half_edge_def)
    then obtain i where "i \<in> A" "carries_flow es f i j" using r(2) by (auto simp: R_def)
    then have "j \<in> F" using step [of i j] r(3) v j(2) by (auto simp: R_def)
    with j show "\<exists>j \<in> F. fe_start e = Inbound j" by blast
  qed
  let ?L = "{e \<in> leaving es R. f (ptr_of e) = 1}"
  have "inj_on fe_start ?L" using half networkD(5) [OF n] by (force simp: inj_on_def leaving_def)
  moreover have "fe_start ` ?L \<subseteq> Inbound ` F" using half by fastforce
  ultimately have "card ?L \<le> card (Inbound ` F)" using F(1) by (metis card_image card_mono finite_imageI)
  also have "\<dots> \<le> card F" using F(1) by (rule card_image_le)
  finally show False
    using cut_bound [OF fin _ tn ff_invD(3) [OF i] ff_invD(1) [OF i]] F(2) by (simp add: R_def)
qed

section \<open>No further path\<close>

text \<open>Between the potentials of the source and the target there is a gap wider than any edge.\<close>

lemma potential_gap:
  assumes "finite V" "s \<in> V" "\<pi> s = (0 :: int)" "0 < C"
  obtains k where "k < card V" "\<And>v. v \<in> V \<Longrightarrow> \<pi> v \<le> int k * C \<or> int k * C + C < \<pi> v"
proof (rule ccontr)
  assume no: "\<not> thesis"
  note found = that
  have "\<exists>v \<in> V. int k * C < \<pi> v \<and> \<pi> v \<le> int k * C + C" if "k < card V" for k
    using found [of k] no that by (meson not_le)
  then obtain g where g: "\<And>k. k < card V \<Longrightarrow> g k \<in> V \<and> int k * C < \<pi> (g k) \<and> \<pi> (g k) \<le> int k * C + C" by metis
  have "inj_on g {..<card V}"
  proof (rule inj_onI)
    fix k l assume kl: "k \<in> {..<card V}" "l \<in> {..<card V}" "g k = g l"
    have a: "int k * C < (int l + 1) * C" "int l * C < (int k + 1) * C"
      using g [of k] g [of l] kl by (auto simp: algebra_simps)
    from a have "int k < int l + 1" "int l < int k + 1" using assms(4) by (metis mult_less_cancel_right_pos)+
    then show "k = l" by simp
  qed
  moreover have "g k \<in> V - {s}" if "k < card V" for k
  proof -
    have "0 \<le> int k * C" using assms(4) by simp
    then have "\<pi> s < \<pi> (g k)" using g [OF that] assms(3) by linarith
    then show ?thesis using g [OF that] by auto
  qed
  then have "g ` {..<card V} \<subseteq> V - {s}" by auto
  ultimately have "card V \<le> card (V - {s})" using assms(1) by (metis card_image card_lessThan card_mono finite_Diff)
  then show False using assms(1,2) by (metis card_Diff1_less not_le)
qed

text \<open>If the target is blocked there is a set of nodes such that every live edge out of it carries flow and
  none into it does.\<close>

lemma blocked_cut:
  assumes n: "flow_network es V" and c: "costs cst es" and i: "ff_inv cst es s t m (f, bag) \<pi>0"
    and b: "blocked cst es s t f" and C: "0 < C" "\<And>e a. e \<in> set es \<Longrightarrow> cst e = Some a \<Longrightarrow> a \<le> C" "int (card V) * C < 65535"
    and V: "s \<in> V"
  obtains R where "finite R" "s \<in> R" "t \<notin> R" "card {e \<in> leaving es R. cst e \<noteq> None} \<le> m"
proof -
  obtain \<pi> where p: "feasible (usable cst f) es \<pi>" "\<pi> s = 0" "\<pi> t = 65535" using b unfolding blocked_def by blast
  obtain k where k: "k < card V" "\<And>v. v \<in> V \<Longrightarrow> \<pi> v \<le> int k * C \<or> int k * C + C < \<pi> v"
    using potential_gap [where \<pi> = \<pi> and s = s, OF networkD(1) [OF n] V p(2) C(1)] by blast
  define R where "R = {v \<in> V. \<pi> v \<le> int k * C}"
  have closed: "fe_end e \<in> R" if e: "e \<in> set es" "usable cst f e = Some a" "fe_start e \<in> R" for e a
  proof -
    have "a \<le> C" using C(2) [OF e(1)] e(2) by (auto simp: usable_def split: if_splits)
    then have "\<pi> (fe_end e) \<le> int k * C + C" using feasibleD [OF p(1) e(1,2)] e(3) by (simp add: R_def)
    then show ?thesis using k(2) [of "fe_end e"] networkD(2) [OF n e(1)] by (auto simp: R_def)
  qed
  have out: "f (ptr_of e) = 1" if e: "e \<in> leaving es R" "cst e \<noteq> None" for e
  proof (rule ccontr)
    assume "f (ptr_of e) \<noteq> 1"
    then have "f (ptr_of e) = 0" using ff_invD(1) [OF i] e(1) unfolding flow_ok_def leaving_def reals_def by fastforce
    then have "usable cst f e \<noteq> None" using e(2) by (simp add: usable_def fe_capacity_def)
    then show False using closed [of e] e(1) by (auto simp: leaving_def reals_def)
  qed
  have into: "f (ptr_of e) = 0" if e: "e \<in> reals es" "fe_start e \<notin> R" "fe_end e \<in> R" for e
  proof (rule ccontr)
    assume "f (ptr_of e) \<noteq> 0"
    then have f1: "f (ptr_of e) = 1" "f (twin e) = 0" using ff_invD(1) [OF i] e(1) unfolding flow_ok_def reals_def by fastforce+
    obtain a where a: "cst e = Some a" using ff_invD(1) [OF i] e(1) f1 unfolding flow_ok_def reals_def by blast
    have es: "e \<in> set es" using e(1) by (simp add: reals_def)
    obtain e' where e': "e' \<in> set es" "twins e e'" using network_twin [OF n es] by blast
    have "usable cst f e' = Some (- a)" using costs_twin [OF c es e'] a f1(2) e'(2) by (simp add: usable_def fe_capacity_def twins_def)
    then show False using closed [OF e'(1)] e'(2) e(2,3) by (auto simp: twins_def)
  qed
  have "int k * C \<le> int (card V) * C" using k(1) C(1) by (intro mult_right_mono) auto
  then have kC: "int k * C < 65535" using C(3) by linarith
  then have R: "finite R" "s \<in> R" "t \<notin> R"
    using networkD(1) [OF n] V p(2,3) C(1) by (auto simp: R_def)
  have "card {e \<in> leaving es R. cst e \<noteq> None} \<le> card {e \<in> leaving es R. f (ptr_of e) = 1}"
    using out by (intro card_mono) (auto simp: leaving_def)
  also have "\<dots> = m" using cut_exact [OF R ff_invD(3) [OF i] ff_invD(1) [OF i] into] by simp
  finally show thesis using R that by blast
qed

section \<open>Disjoint paths\<close>

definition live_link :: "Flow_Edge list \<Rightarrow> (Flow_Edge \<Rightarrow> int option) \<Rightarrow> nat \<Rightarrow> nat \<Rightarrow> bool" where
  "live_link es cst i j \<longleftrightarrow> (\<exists>e \<in> reals es. link_edge e \<and> fe_start e = Outbound i \<and> fe_end e = Inbound j \<and> cst e \<noteq> None)"

definition path_of :: "(nat \<Rightarrow> nat \<Rightarrow> bool) \<Rightarrow> nat \<Rightarrow> nat \<Rightarrow> nat list \<Rightarrow> bool" where
  "path_of r i j p \<longleftrightarrow> p \<noteq> [] \<and> hd p = i \<and> last p = j \<and> distinct p \<and> successively r p"

definition on_path :: "nat list \<Rightarrow> Flow_Edge \<Rightarrow> bool" where
  "on_path p e \<longleftrightarrow> (\<exists>xs j ys. p = xs @ j # ys \<and> xs \<noteq> [] \<and> ys \<noteq> [] \<and> fe_start e = Inbound j) \<or>
     (\<exists>xs i j ys. p = xs @ i # j # ys \<and> fe_start e = Outbound i \<and> fe_end e = Inbound j)"

lemma on_path_Cons: "on_path p e \<Longrightarrow> on_path (i # p) e"
  unfolding on_path_def by (metis append_Cons list.distinct(1))

lemma path_leaves:
  assumes c: "costs cst es" and h: "\<And>i j. live_link es cst i j \<Longrightarrow> \<exists>e \<in> reals es. half_edge e \<and> fe_start e = Inbound j"
  shows "successively (live_link es cst) p \<Longrightarrow> 2 \<le> length p \<Longrightarrow> Outbound (hd p) \<in> R \<Longrightarrow> Inbound (last p) \<notin> R \<Longrightarrow>
     \<exists>e \<in> leaving es R. cst e \<noteq> None \<and> on_path p e"
proof (induction p)
  case (Cons i p)
  then obtain j q where p: "p = j # q" by (cases p) auto
  have ij: "live_link es cst i j" "successively (live_link es cst) p" using Cons.prems(1) by (auto simp: p successively_Cons)
  then obtain e where e: "e \<in> reals es" "fe_start e = Outbound i" "fe_end e = Inbound j" "cst e \<noteq> None" by (auto simp: live_link_def)
  show ?case
  proof (cases "Inbound j \<in> R")
    case False
    have "on_path (i # p) e" using e(2,3) unfolding on_path_def p by (metis append_Nil)
    then show ?thesis using e False Cons.prems(3) by (intro bexI [of _ e]) (auto simp: leaving_def)
  next
    case True
    then have q: "q \<noteq> []" using Cons.prems(4) by (auto simp: p)
    obtain x where x: "x \<in> reals es" "half_edge x" "fe_start x = Inbound j" using h [OF ij(1)] by blast
    then have x': "fe_end x = Outbound j" "cst x = Some 0" using c by (auto simp: half_edge_def costs_def)
    show ?thesis
    proof (cases "Outbound j \<in> R")
      case False
      have "on_path (i # p) x" using x(3) q unfolding on_path_def p by (metis append_Cons append_Nil list.distinct(1))
      then show ?thesis using x x' True False by (intro bexI [of _ x]) (auto simp: leaving_def)
    next
      case True
      have "2 \<le> length p" using q by (cases q) (auto simp: p)
      then show ?thesis using Cons.IH [OF ij(2)] True Cons.prems(4) on_path_Cons by (auto simp: p)
    qed
  qed
qed simp

lemma on_path_disjoint:
  assumes p: "path_of r a b p" and q: "path_of r a b q" and d: "set p \<inter> set q \<subseteq> {a, b}" and e: "on_path p e" "on_path q e"
  shows "p = q"
proof -
  have inner: "j \<noteq> a \<and> j \<noteq> b" if "path_of r a b p" "p = xs @ j # ys" "xs \<noteq> []" "ys \<noteq> []" for p xs j ys
    using that by (cases xs) (auto simp: path_of_def)
  have direct: "p = [a, b]" if "path_of r a b p" "p = xs @ i # j # ys" "{i, j} \<subseteq> {a, b}" for p xs i j ys
    using that by (cases xs; cases ys rule: rev_cases) (auto simp: path_of_def)
  from e(1) consider xs j ys where "p = xs @ j # ys" "xs \<noteq> []" "ys \<noteq> []" "fe_start e = Inbound j"
    | xs i j ys where "p = xs @ i # j # ys" "fe_start e = Outbound i" "fe_end e = Inbound j" unfolding on_path_def by blast
  then show ?thesis
  proof cases
    case 1
    then have "j \<in> set q" using e(2) by (auto simp: on_path_def)
    then have "j \<in> {a, b}" using d 1(1) by auto
    then show ?thesis using inner [OF p 1(1-3)] by blast
  next
    case 2
    then obtain xs' ys' where q': "q = xs' @ i # j # ys'" using e(2) by (auto simp: on_path_def)
    have "{i, j} \<subseteq> {a, b}" using d 2(1) q' by auto
    then show ?thesis using direct [OF p 2(1)] direct [OF q q'] by simp
  qed
qed

lemma disjoint_paths_le:
  assumes n: "flow_network es V" and c: "costs cst es" and i: "ff_inv cst es (Outbound me) (Inbound tgt) m (f, bag) \<pi>0"
    and b: "blocked cst es (Outbound me) (Inbound tgt) f"
    and C: "0 < C" "\<And>e a. e \<in> set es \<Longrightarrow> cst e = Some a \<Longrightarrow> a \<le> C" "int (card V) * C < 65535"
    and V: "Outbound me \<in> V" "me \<noteq> tgt"
    and h: "\<And>i j. live_link es cst i j \<Longrightarrow> \<exists>e \<in> reals es. half_edge e \<and> fe_start e = Inbound j"
    and P: "\<And>p. p \<in> P \<Longrightarrow> path_of (live_link es cst) me tgt p" "\<And>p q. p \<in> P \<Longrightarrow> q \<in> P \<Longrightarrow> p \<noteq> q \<Longrightarrow> set p \<inter> set q \<subseteq> {me, tgt}"
  shows "card P \<le> m"
proof -
  obtain R where R: "finite R" "Outbound me \<in> R" "Inbound tgt \<notin> R" "card {e \<in> leaving es R. cst e \<noteq> None} \<le> m"
    by (rule blocked_cut [OF n c i b C V(1)])
  let ?L = "{e \<in> leaving es R. cst e \<noteq> None}"
  have "\<exists>e \<in> ?L. on_path p e" if "p \<in> P" for p
  proof -
    have p: "p \<noteq> []" "hd p = me" "last p = tgt" "successively (live_link es cst) p" using P(1) [OF that] by (auto simp: path_of_def)
    then have "2 \<le> length p" using V(2) by (cases p rule: list.exhaust; cases "tl p") auto
    from path_leaves [where R = R, OF c _ p(4) this] h p(2,3) R(2,3) have "\<exists>e \<in> leaving es R. cst e \<noteq> None \<and> on_path p e" by simp
    then show ?thesis by blast
  qed
  then obtain g where g: "\<And>p. p \<in> P \<Longrightarrow> g p \<in> ?L \<and> on_path p (g p)" by metis
  have "inj_on g P"
  proof (rule inj_onI)
    fix p q assume pq: "p \<in> P" "q \<in> P" "g p = g q"
    show "p = q" using on_path_disjoint [OF P(1) [OF pq(1)] P(1) [OF pq(2)] _ , of "g p"] P(2) [OF pq(1,2)] g [OF pq(1)] g [OF pq(2)] pq(3) by auto
  qed
  moreover have "finite ?L" by (simp add: leaving_def)
  ultimately have "card P \<le> card ?L" using g by (intro card_inj_on_le [of g]) auto
  with R(4) show ?thesis by simp
qed

end
