(* ===== verification/Multipath_Net.thy ===== *)
theory Multipath_Net
  imports Flow_Cuts
begin

text \<open>
  The flow network that \<open>Init_MultiPath\<close> makes of a configuration: every edge has its twin, the two halves of a node
  are joined by one edge, and the links are those of the configuration.
\<close>

definition conf_nodes :: "Configuration \<Rightarrow> nat set" where
  "conf_nodes cf = {i. 1 \<le> i \<and> i \<le> MAX_NODES \<and> temp_node_ip cf i \<noteq> 0}"

definition flow_nodes :: "Configuration \<Rightarrow> Flow_Node set" where
  "flow_nodes cf = Inbound ` conf_nodes cf \<union> Outbound ` conf_nodes cf"

lemma finite_conf_nodes [simp]: "finite (conf_nodes cf)"
  by (rule finite_subset [of _ "{..MAX_NODES}"]) (auto simp: conf_nodes_def)

lemma card_flow_nodes: "card (flow_nodes cf) = 2 * card (conf_nodes cf)"
  unfolding flow_nodes_def by (subst card_Un_disjoint) (auto simp: card_image inj_on_def)

section \<open>A pair of edges\<close>

definition flow_net :: "Configuration \<Rightarrow> Flow_Edge list \<Rightarrow> bool" where
  "flow_net cf es \<longleftrightarrow> flow_network es (flow_nodes cf) \<and> even (length es) \<and> (\<forall>e \<in> set es. fe_no e < length es div 2)"

lemma reals_add_pair:
  "reals (add_pair a b ed re i es) =
     insert \<lparr>fe_edge = ed, fe_reverse_edge = re, fe_start = a, fe_end = b, fe_index = i, residual = False, fe_no = length es div 2\<rparr> (reals es)"
  by (auto simp: reals_def add_pair_def Let_def)

lemma flow_net_add_pair:
  assumes "flow_net cf es" and ab: "a \<in> flow_nodes cf" "b \<in> flow_nodes cf"
    and kind: "(\<exists>i. a = Inbound i \<and> b = Outbound i) \<and> ed = None \<and> re = None \<and> (\<forall>e \<in> reals es. half_edge e \<longrightarrow> fe_start e \<noteq> a) \<or>
      (\<exists>i j. a = Outbound i \<and> b = Inbound j) \<and> ed \<noteq> None \<and> re \<noteq> None"
  shows "flow_net cf (add_pair a b ed re i es)"
proof -
  let ?n = "length es div 2"
  define r where "r = \<lparr>fe_edge = ed, fe_reverse_edge = re, fe_start = a, fe_end = b, fe_index = i, residual = False, fe_no = ?n\<rparr>"
  define x where "x = \<lparr>fe_edge = ed, fe_reverse_edge = re, fe_start = b, fe_end = a, fe_index = unat USHRT_MAX, residual = True, fe_no = ?n\<rparr>"
  have es': "add_pair a b ed re i es = x # r # es" by (simp add: add_pair_def x_def r_def Let_def)
  have nw: "flow_network es (flow_nodes cf)" and ev: "even (length es)" and no: "\<And>e. e \<in> set es \<Longrightarrow> fe_no e < ?n"
    using assms(1) by (auto simp: flow_net_def)
  have tw: "twins x r" "twins r x" by (auto simp: twins_def x_def r_def ptr_of_def twin_def)
  have rl: "reals (x # r # es) = insert r (reals es)" by (auto simp: reals_def x_def r_def)
  have new: "ptr_of x \<noteq> ptr_of e" "ptr_of r \<noteq> ptr_of e" if "e \<in> set es" for e
    using no [OF that] by (auto simp: ptr_of_def x_def r_def)
  have "flow_network (x # r # es) (flow_nodes cf)"
    unfolding flow_network_def
  proof (intro conjI)
    show "finite (flow_nodes cf)" by (rule networkD(1) [OF nw])
    show "\<forall>e \<in> set (x # r # es). fe_start e \<in> flow_nodes cf \<and> fe_end e \<in> flow_nodes cf"
      using networkD(2) [OF nw] ab by (auto simp: x_def r_def)
    have "inj_on ptr_of (set es)" using nw by (simp add: flow_network_def)
    moreover have "ptr_of x \<noteq> ptr_of r" by (simp add: ptr_of_def x_def r_def)
    ultimately show "inj_on ptr_of (set (x # r # es))" using new by (auto simp: image_iff)
    show "\<forall>e \<in> set (x # r # es). \<exists>e' \<in> set (x # r # es). twins e e'"
      using nw tw unfolding flow_network_def by auto
    have k: "half_edge r \<or> link_edge r" using kind by (auto simp: half_edge_def link_edge_def r_def)
    then show "\<forall>e \<in> reals (x # r # es). half_edge e \<or> link_edge e" using networkD(3) [OF nw] by (auto simp: rl)
    have "half_edge r \<Longrightarrow> e \<in> reals es \<Longrightarrow> half_edge e \<Longrightarrow> fe_start e \<noteq> fe_start r" for e
      using kind by (auto simp: half_edge_def r_def)
    then show "\<forall>e \<in> reals (x # r # es). \<forall>y \<in> reals (x # r # es). half_edge e \<and> half_edge y \<and> fe_start y = fe_start e \<longrightarrow> y = e"
      using networkD(5) [OF nw] unfolding rl by (metis insert_iff)
  qed
  moreover have "fe_no e < length (x # r # es) div 2" if "e \<in> set (x # r # es)" for e
    using that no [of e] by (auto simp: x_def r_def)
  ultimately show ?thesis using ev by (simp add: flow_net_def es')
qed

section \<open>The nodes\<close>

definition joins :: "Flow_Edge list \<Rightarrow> nat \<Rightarrow> bool" where
  "joins es i \<longleftrightarrow> (\<exists>e \<in> reals es. half_edge e \<and> fe_start e = Inbound i)"

definition node_step :: "Configuration \<Rightarrow> nat \<Rightarrow> Flow_Edge list \<Rightarrow> Flow_Edge list" where
  "node_step cf i es = (if temp_node_ip cf i \<noteq> 0 then add_pair (Inbound i) (Outbound i) None None (unat USHRT_MAX) es else es)"

lemma joins_add_pair:
  "joins (add_pair a b ed re i es) j \<longleftrightarrow> joins es j \<or> a = Inbound j \<and> b = Outbound j \<and> ed = None \<and> re = None"
  unfolding joins_def reals_add_pair by (auto simp: half_edge_def)

lemma node_fold:
  assumes "distinct is" "set is \<subseteq> {1..MAX_NODES}" "flow_net cf es" "\<And>i. i \<in> set is \<Longrightarrow> \<not> joins es i" "\<And>e. e \<in> reals es \<Longrightarrow> half_edge e"
  shows "flow_net cf (fold (node_step cf) is es) \<and> (\<forall>i. joins (fold (node_step cf) is es) i \<longleftrightarrow> joins es i \<or> i \<in> set is \<inter> conf_nodes cf) \<and>
     (\<forall>e \<in> reals (fold (node_step cf) is es). half_edge e)"
  using assms
proof (induction "is" arbitrary: es)
  case (Cons i "is")
  let ?es = "node_step cf i es"
  have i: "1 \<le> i" "i \<le> MAX_NODES" using Cons.prems(2) by auto
  have n: "flow_net cf ?es"
    unfolding node_step_def using Cons.prems(3,4) i
    by (auto intro!: flow_net_add_pair simp: flow_nodes_def conf_nodes_def joins_def)
  have j: "joins ?es k \<longleftrightarrow> joins es k \<or> k = i \<and> i \<in> conf_nodes cf" for k
    using i by (auto simp: node_step_def joins_add_pair conf_nodes_def)
  have h: "\<And>e. e \<in> reals ?es \<Longrightarrow> half_edge e"
    using Cons.prems(5) by (auto simp: node_step_def reals_add_pair half_edge_def split: if_splits)
  have "\<And>k. k \<in> set is \<Longrightarrow> \<not> joins ?es k" using Cons.prems(1,4) j by auto
  from Cons.IH [OF _ _ n this h] Cons.prems(1,2) j show ?case by auto
qed simp

lemma node_pairs_net:
  "flow_net cf (node_pairs cf)" "joins (node_pairs cf) i \<longleftrightarrow> i \<in> conf_nodes cf" "e \<in> reals (node_pairs cf) \<Longrightarrow> half_edge e"
proof -
  have e: "flow_net cf []" "\<not> joins [] i" "reals [] = {}" for i
    by (auto simp: flow_net_def flow_network_def reals_def joins_def flow_nodes_def)
  have eq: "node_pairs cf = fold (node_step cf) [1..<MAX_NODES + 1] []"
    by (simp add: node_pairs_def node_step_def [abs_def])
  have set: "set [1..<MAX_NODES + 1] = {1..MAX_NODES}" by auto
  note f = node_fold [of "[1..<MAX_NODES + 1]" cf "[]", unfolded set, OF _ _ e(1)]
  show "flow_net cf (node_pairs cf)" using f e unfolding eq by simp
  show "joins (node_pairs cf) i \<longleftrightarrow> i \<in> conf_nodes cf" using f e unfolding eq by (auto simp: conf_nodes_def)
  show "half_edge e" if "e \<in> reals (node_pairs cf)" using f e that unfolding eq by simp
qed

section \<open>The links\<close>

text \<open>The links of a configuration, with their index.\<close>

definition conf_link :: "Configuration \<Rightarrow> nat \<Rightarrow> nat \<Rightarrow> nat \<Rightarrow> bool" where
  "conf_link cf i j x \<longleftrightarrow> (\<exists>v. ev_index v = x \<and>
     (((i, j), v) \<in> set (cf_Sorted_Edges cf) \<or> \<not> cf_Directed_Edges cf \<and> ((j, i), v) \<in> set (cf_Sorted_Edges cf)))"

definition link_of :: "Configuration \<Rightarrow> nat \<Rightarrow> nat \<Rightarrow> nat \<Rightarrow> Flow_Edge \<Rightarrow> bool" where
  "link_of cf i j x e \<longleftrightarrow> fe_start e = Outbound i \<and> fe_end e = Inbound j \<and> fe_index e = x \<and>
     fe_edge e = Some (temp_node_ip cf i, temp_node_ip cf j) \<and> fe_reverse_edge e = Some (temp_node_ip cf j, temp_node_ip cf i)"

definition links :: "Configuration \<Rightarrow> (nat \<Rightarrow> nat \<Rightarrow> nat \<Rightarrow> bool) \<Rightarrow> Flow_Edge list \<Rightarrow> bool" where
  "links cf P es \<longleftrightarrow> flow_net cf es \<and> (\<forall>i. joins es i \<longleftrightarrow> i \<in> conf_nodes cf) \<and>
     (\<forall>e \<in> reals es. link_edge e \<longrightarrow> (\<exists>i j x. P i j x \<and> link_of cf i j x e)) \<and>
     (\<forall>i j x. P i j x \<longrightarrow> (\<exists>e \<in> reals es. link_edge e \<and> link_of cf i j x e))"

lemma link_pair_links:
  assumes l: "links cf P es" and r: "link_pair cf d s t y es = Inr es'"
  shows "links cf (\<lambda>i j x. P i j x \<or> i = s \<and> j = t \<and> x = y) es'"
proof -
  let ?a = "temp_node_ip cf s" and ?b = "temp_node_ip cf t"
  have st: "s \<in> conf_nodes cf" "t \<in> conf_nodes cf" and es': "es' = add_pair (Outbound s) (Inbound t) (Some (?a, ?b)) (Some (?b, ?a)) y es"
    using r by (auto simp: link_pair_def Let_def conf_nodes_def split: if_splits)
  have n: "flow_net cf es'" unfolding es' using l st by (intro flow_net_add_pair) (auto simp: links_def flow_nodes_def)
  have j: "joins es' i \<longleftrightarrow> i \<in> conf_nodes cf" for i using l by (auto simp: es' joins_add_pair links_def)
  define e where "e = \<lparr>fe_edge = Some (?a, ?b), fe_reverse_edge = Some (?b, ?a), fe_start = Outbound s, fe_end = Inbound t,
    fe_index = y, residual = False, fe_no = length es div 2\<rparr>"
  have e: "link_edge e" "link_of cf s t y e" by (auto simp: link_edge_def link_of_def e_def)
  have rl: "reals es' = insert e (reals es)" by (simp add: es' reals_add_pair e_def)
  show ?thesis using l n j e unfolding links_def rl by blast
qed

lemma link_pairs_links:
  assumes "links cf P es" "link_pairs cf d ((s, t), v) es = Inr es'"
  shows "links cf (\<lambda>i j x. P i j x \<or> x = ev_index v \<and> (i = s \<and> j = t \<or> \<not> cf_Directed_Edges cf \<and> i = t \<and> j = s)) es'"
proof -
  obtain es1 where r: "link_pair cf d s t (ev_index v) es = Inr es1"
      "(if cf_Directed_Edges cf then Inr es1 else link_pair cf d t s (ev_index v) es1) = Inr es'"
    using assms(2) by (auto simp: link_pairs_def)
  note l = link_pair_links [OF assms(1) r(1)]
  show ?thesis
  proof (cases "cf_Directed_Edges cf")
    case True
    then show ?thesis using l r(2) by (simp add: conj_ac)
  next
    case False
    then have "links cf (\<lambda>i j x. (P i j x \<or> i = s \<and> j = t \<and> x = ev_index v) \<or> i = t \<and> j = s \<and> x = ev_index v) es'"
      using link_pair_links [OF l] r(2) by simp
    moreover have "(\<lambda>i j x. (P i j x \<or> i = s \<and> j = t \<and> x = ev_index v) \<or> i = t \<and> j = s \<and> x = ev_index v) =
        (\<lambda>i j x. P i j x \<or> x = ev_index v \<and> (i = s \<and> j = t \<or> \<not> cf_Directed_Edges cf \<and> i = t \<and> j = s))"
      using False by (auto intro!: ext)
    ultimately show ?thesis by simp
  qed
qed

lemma links_fold:
  assumes "links cf P es" "fold_res (link_pairs cf d) xs es = Inr es'"
  shows "links cf (\<lambda>i j x. P i j x \<or> (\<exists>v. ev_index v = x \<and> (((i, j), v) \<in> set xs \<or> \<not> cf_Directed_Edges cf \<and> ((j, i), v) \<in> set xs))) es'"
  using assms
proof (induction xs arbitrary: es P)
  case (Cons a xs)
  obtain s t v where a: "a = ((s, t), v)" by (metis surj_pair)
  obtain es1 where r: "link_pairs cf d a es = Inr es1" "fold_res (link_pairs cf d) xs es1 = Inr es'" using Cons.prems(2) by auto
  from Cons.IH [OF link_pairs_links [OF Cons.prems(1) r(1) [unfolded a]] r(2)] show ?case
    by (rule back_subst [of "\<lambda>Q. links cf Q es'"]) (auto intro!: ext simp: a)
qed simp

theorem Init_MultiPath_links:
  assumes "Init_MultiPath pick cf d = Inr mp"
  shows "links cf (conf_link cf) (Flow_Edges mp)"
proof -
  have "fold_res (link_pairs cf d) (cf_Sorted_Edges cf) (node_pairs cf) = Inr (Flow_Edges mp)"
    using assms by (auto simp: Init_MultiPath_def bind_res_Inr_iff)
  moreover have "links cf (\<lambda>_ _ _. False) (node_pairs cf)"
    using node_pairs_net by (force simp: links_def half_edge_def link_edge_def)
  ultimately have "links cf (\<lambda>i j x. False \<or> (\<exists>v. ev_index v = x \<and> (((i, j), v) \<in> set (cf_Sorted_Edges cf) \<or>
      \<not> cf_Directed_Edges cf \<and> ((j, i), v) \<in> set (cf_Sorted_Edges cf)))) (Flow_Edges mp)"
    by (rule links_fold [rotated])
  then show ?thesis by (simp add: conf_link_def [abs_def])
qed

end
