(* ===== verification/Multipath_Costs.thy ===== *)
theory Multipath_Costs
  imports Multipath_Net
begin

unbundle bit_operations_syntax

text \<open>
  The costs of the network for a state of the daemon, and the mask that the edges of the paths make.
\<close>

section \<open>Costs\<close>

definition cost_in_range :: "mp_opts \<Rightarrow> State_Data \<Rightarrow> bool" where
  "cost_in_range opts x \<longleftrightarrow> (if use_base_cost opts then 1 \<le> base_cost_at x \<and> base_cost_at x \<le> 32767
     else state_value x \<noteq> 0 \<and> - 32767 \<le> state_value x \<and> state_value x \<le> 32767)"

text \<open>The edges of all links are known in both directions, with a cost other than \<open>0\<close>.\<close>

definition links_known :: "Configuration \<Rightarrow> mp_opts \<Rightarrow> daemon \<Rightarrow> bool" where
  "links_known cf opts d \<longleftrightarrow> (\<forall>((s, t), v) \<in> set (cf_Sorted_Edges cf).
     (case Get_Edge d (temp_node_ip cf s) (temp_node_ip cf t) of None \<Rightarrow> False | Some x \<Rightarrow> cost_in_range opts x) \<and>
     (case Get_Edge d (temp_node_ip cf t) (temp_node_ip cf s) of None \<Rightarrow> False | Some y \<Rightarrow> cost_in_range opts y))"

text \<open>A link is up if its cost, and with \<open>require_reverse\<close> that of the opposite edge too, is not \<open>-1\<close>.\<close>

definition edge_up :: "daemon \<Rightarrow> Node_ID \<Rightarrow> Node_ID \<Rightarrow> bool" where
  "edge_up d a b \<longleftrightarrow> (\<exists>x. Get_Edge d a b = Some x \<and> state_value x \<noteq> - 1)"

definition conf_link_up :: "Configuration \<Rightarrow> mp_opts \<Rightarrow> daemon \<Rightarrow> nat \<Rightarrow> nat \<Rightarrow> bool" where
  "conf_link_up cf opts d i j \<longleftrightarrow> use_base_cost opts \<or>
     edge_up d (temp_node_ip cf i) (temp_node_ip cf j) \<and> (require_reverse opts \<longrightarrow> edge_up d (temp_node_ip cf j) (temp_node_ip cf i))"

definition cost_of :: "mp_opts \<Rightarrow> daemon \<Rightarrow> Flow_Edge \<Rightarrow> int option" where
  "cost_of opts d e = (case flow_cost opts d e of Inl _ \<Rightarrow> None | Inr c \<Rightarrow> c)"

lemma links_known_link:
  assumes "links_known cf opts d" "conf_link cf i j k"
  obtains x y where "Get_Edge d (temp_node_ip cf i) (temp_node_ip cf j) = Some x" "cost_in_range opts x"
    "Get_Edge d (temp_node_ip cf j) (temp_node_ip cf i) = Some y" "cost_in_range opts y"
  using assms unfolding links_known_def conf_link_def by (fastforce split: option.splits)

lemma int16_abs: "- 32767 \<le> v \<Longrightarrow> v \<le> 32767 \<Longrightarrow> int16_of \<bar>v\<bar> = \<bar>v\<bar>" "- 32767 \<le> v \<Longrightarrow> v \<le> 32767 \<Longrightarrow> int16_of (- v) = - v"
  by (auto intro!: int16_of_id)

text \<open>The cost of a link, in the direction of the link.\<close>

definition link_cost :: "mp_opts \<Rightarrow> State_Data \<Rightarrow> State_Data \<Rightarrow> int option" where
  "link_cost opts x y =
     (if \<not> use_base_cost opts \<and> (state_value x = - 1 \<or> require_reverse opts \<and> state_value y = - 1) then None
      else let c = (\<lambda>z. if use_base_cost opts then base_cost_at z else \<bar>state_value z\<bar>)
           in Some (if require_reverse opts then max (c x) (c y) else c x))"

lemma link_cost_range:
  assumes "cost_in_range opts x" "cost_in_range opts y" "link_cost opts x y = Some c"
  shows "1 \<le> c" "c \<le> 32767"
  using assms by (auto simp: link_cost_def cost_in_range_def split: if_splits)

lemma flow_cost_link:
  assumes e: "fe_edge e = Some (a, b)" "fe_reverse_edge e = Some (b, a)" and x: "Get_Edge d a b = Some x" "Get_Edge d b a = Some y"
    and r: "cost_in_range opts x" "cost_in_range opts y"
  shows "flow_cost opts d e = Inr (map_option (\<lambda>c. if residual e then - c else c) (link_cost opts x y))"
proof -
  let ?c = "\<lambda>z. if use_base_cost opts then base_cost_at z else \<bar>state_value z\<bar>"
  have c: "(if use_base_cost opts then base_cost_at z else int16_of \<bar>state_value z\<bar>) = ?c z" "1 \<le> ?c z" "?c z \<le> 32767"
    if "cost_in_range opts z" for z using that by (auto simp: cost_in_range_def int16_abs split: if_splits)
  have m: "(if require_reverse opts then if ?c y < ?c x then ?c x else ?c y else ?c x) =
      (if require_reverse opts then max (?c x) (?c y) else ?c x)" by auto
  have n: "int16_of (- (if require_reverse opts then max (?c x) (?c y) else ?c x)) = - (if require_reverse opts then max (?c x) (?c y) else ?c x)"
    using c(2,3) [OF r(1)] c(2,3) [OF r(2)] by (intro int16_abs(2)) (auto simp: max_def)
  show ?thesis
    using e x unfolding flow_cost_def link_cost_def Get_Edge_def Let_def
    by (simp only: option.case prod.case fst_conv snd_conv c(1) [OF r(1)] c(1) [OF r(2)] m n split: if_split) simp
qed

section \<open>The network with its costs\<close>

lemma pair_kind:
  assumes l: "links cf (conf_link cf) es" and e: "e \<in> set es"
  obtains "fe_edge e = None" "fe_reverse_edge e = None" "\<And>i. fe_start e \<noteq> Outbound i \<or> residual e"
    | i j k where "conf_link cf i j k" "fe_edge e = Some (temp_node_ip cf i, temp_node_ip cf j)"
      "fe_reverse_edge e = Some (temp_node_ip cf j, temp_node_ip cf i)"
proof -
  have n: "flow_network es (flow_nodes cf)" using l by (simp add: links_def flow_net_def)
  obtain r where r: "r \<in> reals es" "fe_edge r = fe_edge e" "fe_reverse_edge r = fe_reverse_edge e" "residual e \<or> r = e"
  proof (cases "residual e")
    case True
    obtain e' where "e' \<in> set es" "twins e e'" using network_twin [OF n e] by blast
    then show thesis using True that [of e'] by (auto simp: reals_def twins_def ptr_of_eq_iff)
  next
    case False
    then show thesis using e that [of e] by (simp add: reals_def)
  qed
  show thesis
  proof (cases "half_edge r")
    case True
    then show thesis using that(1) r by (auto simp: half_edge_def)
  next
    case False
    then have "link_edge r" using networkD(3) [OF n r(1)] by blast
    then obtain i j x where "conf_link cf i j x" "link_of cf i j x r" using l r(1) unfolding links_def by blast
    then show thesis using that(2) [of i j x] r(2,3) by (auto simp: link_of_def)
  qed
qed

lemma flow_cost_ok:
  assumes l: "links cf (conf_link cf) es" and k: "links_known cf opts d" and e: "e \<in> set es"
  shows "flow_cost opts d e = Inr (cost_of opts d e)" "cost_of opts d e = Some c \<Longrightarrow> c \<le> 32767"
proof -
  have "\<exists>c. flow_cost opts d e = Inr c \<and> (\<forall>a. c = Some a \<longrightarrow> a \<le> 32767)"
  proof (cases rule: pair_kind [OF l e])
    case 1
    then show ?thesis by (simp add: flow_cost_def)
  next
    case (2 i j x)
    obtain x y where "Get_Edge d (temp_node_ip cf i) (temp_node_ip cf j) = Some x" "cost_in_range opts x"
      "Get_Edge d (temp_node_ip cf j) (temp_node_ip cf i) = Some y" "cost_in_range opts y" using links_known_link [OF k 2(1)] by blast
    then show ?thesis using flow_cost_link [OF 2(2,3)] link_cost_range [of opts x y] by fastforce
  qed
  then show "flow_cost opts d e = Inr (cost_of opts d e)" "cost_of opts d e = Some c \<Longrightarrow> c \<le> 32767"
    by (auto simp: cost_of_def)
qed

lemma cost_of_link:
  assumes k: "links_known cf opts d" and c: "conf_link cf i j n" and e: "link_of cf i j n e" "\<not> residual e"
  shows "cost_of opts d e \<noteq> None \<longleftrightarrow> conf_link_up cf opts d i j" "cost_of opts d e = Some a \<Longrightarrow> 1 \<le> a"
proof -
  obtain x y where xy: "Get_Edge d (temp_node_ip cf i) (temp_node_ip cf j) = Some x" "cost_in_range opts x"
    "Get_Edge d (temp_node_ip cf j) (temp_node_ip cf i) = Some y" "cost_in_range opts y" using links_known_link [OF k c] by blast
  have f: "cost_of opts d e = link_cost opts x y"
    using flow_cost_link [of e "temp_node_ip cf i" "temp_node_ip cf j" d x y opts] e xy by (auto simp: cost_of_def link_of_def option.map_ident)
  show "cost_of opts d e \<noteq> None \<longleftrightarrow> conf_link_up cf opts d i j"
    unfolding f using xy by (auto simp: link_cost_def conf_link_up_def edge_up_def Let_def)
  show "1 \<le> a" if "cost_of opts d e = Some a" using that link_cost_range(1) [OF xy(2,4)] unfolding f by blast
qed

lemma costs_ok:
  assumes l: "links cf (conf_link cf) es" and k: "links_known cf opts d"
  shows "costs (cost_of opts d) es"
  unfolding costs_def
proof (intro conjI ballI impI allI)
  fix e e' assume e: "e \<in> set es" "e' \<in> set es" "twins e e'"
  then have t: "fe_edge e' = fe_edge e" "fe_reverse_edge e' = fe_reverse_edge e" "residual e' = (\<not> residual e)"
    by (auto simp: twins_def ptr_of_eq_iff)
  show "cost_of opts d e' = map_option uminus (cost_of opts d e)"
  proof (cases rule: pair_kind [OF l e(1)])
    case 1
    then show ?thesis using t by (simp add: cost_of_def flow_cost_def)
  next
    case (2 i j x)
    obtain x y where xy: "Get_Edge d (temp_node_ip cf i) (temp_node_ip cf j) = Some x" "cost_in_range opts x"
      "Get_Edge d (temp_node_ip cf j) (temp_node_ip cf i) = Some y" "cost_in_range opts y" using links_known_link [OF k 2(1)] by blast
    have a: "flow_cost opts d z = Inr (map_option (\<lambda>c. if residual z then - c else c) (link_cost opts x y))" if "z = e \<or> z = e'" for z
      by (rule flow_cost_link [OF _ _ xy(1,3,2,4)]) (use that t 2 in auto)
    from a [of e] a [of e'] t(3) show ?thesis by (cases "link_cost opts x y") (auto simp: cost_of_def)
  qed
next
  fix e assume "e \<in> reals es" "half_edge e"
  then show "cost_of opts d e = Some 0" by (simp add: cost_of_def flow_cost_def half_edge_def)
next
  fix e c assume e: "e \<in> reals es" "link_edge e" "cost_of opts d e = Some c"
  then obtain i j x where "conf_link cf i j x" "link_of cf i j x e" using l unfolding links_def by blast
  with e k show "1 \<le> c" using cost_of_link(2) by (auto simp: reals_def)
qed

end
