(* ===== verification/Multipath_Correct.thy ===== *)
theory Multipath_Correct
  imports Multipath_Costs
begin

unbundle bit_operations_syntax

text \<open>
  The masks that \<open>MultiPath_Compute\<close> gives: with \<open>n\<close> paths found, the destination is reached over marked links that are
  up without any \<open>n - 1\<close> of the other nodes; fewer paths than asked for are found only if there are no more.
\<close>

section \<open>Bits of a mask\<close>

lemma bit_index_bit: "bit (index_bit i) n \<longleftrightarrow> n + i mod 8 = 7"
proof -
  have e: "(0x80 :: 8 word) = 2 ^ 7" by simp
  have "bit ((2 :: 8 word) ^ 7) m \<longleftrightarrow> m = 7" for m by (simp only: bit_exp_iff) auto
  then show ?thesis unfolding index_bit_def e by (simp only: bit_drop_bit_eq comp_def add.commute)
qed

lemma in_mask_bit: "in_mask i m \<longleftrightarrow> i div 8 < length m \<and> bit (m ! (i div 8)) (7 - i mod 8)"
proof -
  have "a AND index_bit i \<noteq> 0 \<longleftrightarrow> bit a (7 - i mod 8)" for a :: "8 word"
  proof
    assume "a AND index_bit i \<noteq> 0"
    then obtain n where "bit (a AND index_bit i) n" by (auto simp: bit_eq_iff)
    then have "bit a n" "n + i mod 8 = 7" by (simp_all add: bit_and_iff bit_index_bit)
    then show "bit a (7 - i mod 8)" by (metis add_diff_cancel_right')
  next
    assume "bit a (7 - i mod 8)"
    moreover have "i mod 8 < 8" by simp
    then have "7 - i mod 8 + i mod 8 = 7" by linarith
    ultimately have "bit (a AND index_bit i) (7 - i mod 8)" by (simp add: bit_and_iff bit_index_bit)
    then show "a AND index_bit i \<noteq> 0" by auto
  qed
  then show ?thesis by (simp add: in_mask_def)
qed

lemma or_bit_ok:
  assumes "i div 8 < length m"
  obtains m' where "or_bit i m = Inr m'" "length m' = length m" "\<And>j. in_mask j m' \<longleftrightarrow> in_mask j m \<or> j = i"
proof -
  let ?m = "m[i div 8 := (m ! (i div 8)) OR index_bit i]"
  have eq: "j = i \<longleftrightarrow> j div 8 = i div 8 \<and> j mod 8 = i mod 8" for j by (metis div_mult_mod_eq)
  have "in_mask j ?m \<longleftrightarrow> in_mask j m \<or> j = i" for j
  proof (cases "j div 8 = i div 8")
    case True
    have "j mod 8 < 8" by simp
    then have "7 - j mod 8 + i mod 8 = 7 \<longleftrightarrow> j mod 8 = i mod 8" by linarith
    then show ?thesis using True assms eq [of j] by (auto simp: in_mask_bit bit_or_iff bit_index_bit)
  next
    case False
    then show ?thesis using eq [of j] by (auto simp: in_mask_bit)
  qed
  then show thesis using assms that [of ?m] by (simp add: or_bit_def)
qed

lemma mask_fold:
  assumes "\<And>e. e \<in> set bag \<Longrightarrow> fe_edge e \<noteq> None \<Longrightarrow> fe_index e div 8 < length m"
  shows "\<exists>m'. fold_res (\<lambda>e m. if fe_edge e \<noteq> None then or_bit (fe_index e) m else Inr m) bag m = Inr m' \<and>
     (\<forall>j. in_mask j m' \<longleftrightarrow> in_mask j m \<or> (\<exists>e \<in> set bag. fe_edge e \<noteq> None \<and> fe_index e = j))"
  using assms
proof (induction bag arbitrary: m)
  case (Cons e bag)
  show ?case
  proof (cases "fe_edge e")
    case None
    then show ?thesis using Cons by simp
  next
    case (Some p)
    obtain m1 where m1: "or_bit (fe_index e) m = Inr m1" "length m1 = length m" "\<And>j. in_mask j m1 \<longleftrightarrow> in_mask j m \<or> j = fe_index e"
      using or_bit_ok [of "fe_index e" m] Cons.prems [of e] Some by auto
    have "\<And>x. x \<in> set bag \<Longrightarrow> fe_edge x \<noteq> None \<Longrightarrow> fe_index x div 8 < length m1" using Cons.prems m1(2) by auto
    from Cons.IH [OF this] m1 Some show ?thesis by auto
  qed
qed simp

lemma mask_of_bag_ok:
  assumes "\<And>e. e \<in> set bag \<Longrightarrow> fe_edge e \<noteq> None \<Longrightarrow> fe_index e div 8 < bytes"
  obtains m where "mask_of_bag bag bytes = Inr m" "\<And>j. in_mask j m \<longleftrightarrow> (\<exists>e \<in> set bag. fe_edge e \<noteq> None \<and> fe_index e = j)"
proof -
  have "\<not> in_mask j (replicate bytes 0)" for j by (auto simp: in_mask_def)
  then show thesis using mask_fold [of bag "replicate bytes 0"] assms that by (auto simp: mask_of_bag_def)
qed

section \<open>The result\<close>

definition indices_fit :: "Configuration \<Rightarrow> bool" where
  "indices_fit cf \<longleftrightarrow> (\<forall>(k, v) \<in> set (cf_Sorted_Edges cf). ev_index v div 8 < MultiPath_Bitmask_Size cf)"

definition nodes_counted :: "Configuration \<Rightarrow> bool" where
  "nodes_counted cf \<longleftrightarrow> card (conf_nodes cf) \<le> conf_Num_Nodes cf"

definition marked_link :: "Configuration \<Rightarrow> mp_opts \<Rightarrow> daemon \<Rightarrow> bitmask \<Rightarrow> nat \<Rightarrow> nat \<Rightarrow> bool" where
  "marked_link cf opts d msk i j \<longleftrightarrow> (\<exists>x. conf_link cf i j x \<and> in_mask x msk) \<and> conf_link_up cf opts d i j"

lemma MultiPath_Compute_flow:
  assumes "links cf (conf_link cf) (Flow_Edges mp)" "nodes_counted cf" "indices_fit cf" "links_known cf opts d"
    and dest: "dst \<in> conf_nodes cf" "cf_My_ID cf \<in> conf_nodes cf" "dst \<noteq> cf_My_ID cf"
  obtains n msk mp' f bag \<pi> where "MultiPath_Compute cf opts d dst k mp = Inr (n, msk, mp')" "n \<le> k"
    "links cf (conf_link cf) (Flow_Edges mp)" "costs (cost_of opts d) (Flow_Edges mp)"
    "ff_inv (cost_of opts d) (Flow_Edges mp) (Outbound (cf_My_ID cf)) (Inbound dst) n (f, bag) \<pi>"
    "n < k \<Longrightarrow> blocked (cost_of opts d) (Flow_Edges mp) (Outbound (cf_My_ID cf)) (Inbound dst) f"
    "\<And>j. in_mask j msk \<longleftrightarrow> (\<exists>e \<in> set bag. fe_edge e \<noteq> None \<and> fe_index e = j)"
proof -
  let ?es = "Flow_Edges mp" and ?c = "cost_of opts d" and ?s = "Outbound (cf_My_ID cf)"
  have l: "links cf (conf_link cf) ?es" by (rule assms(1))
  then have n: "flow_network ?es (flow_nodes cf)" by (simp add: links_def flow_net_def)
  have c: "costs ?c ?es" by (rule costs_ok [OF l assms(4)])
  have N: "card (flow_nodes cf) < 2 * conf_Num_Nodes cf + 1" using assms(2) by (simp add: card_flow_nodes nodes_counted_def)
  have made: "flow_node_made cf dst" "flow_node_made cf (cf_My_ID cf)" using dest by (auto simp: flow_node_made_def conf_nodes_def)
  obtain m f bag \<pi> where r: "ff_loop cf opts d ?es dst k 0 ((\<lambda>(n, r). if r then fe_capacity else 0), []) = Inr (m, f, bag)"
      "ff_inv ?c ?es ?s (Inbound dst) m (f, bag) \<pi>" "m \<le> k" "m < k \<longrightarrow> blocked ?c ?es ?s (Inbound dst) f"
    using ff_loop_ok [OF n c flow_cost_ok(1) [OF l assms(4)] N made(2,1) ff_inv_start [OF n c], of k] by auto
  have "fe_index e div 8 < MultiPath_Bitmask_Size cf" if e: "e \<in> set bag" "fe_edge e \<noteq> None" for e
  proof -
    have "e \<in> reals ?es" using ff_invD(2) [OF r(2)] e(1) by (simp add: bag_ok_def)
    moreover have "link_edge e" using networkD(3) [OF n calculation] e(2) by (auto simp: half_edge_def)
    ultimately obtain i j x where "conf_link cf i j x" "link_of cf i j x e" using l unfolding links_def by blast
    then show ?thesis using assms(3) unfolding conf_link_def link_of_def indices_fit_def by fastforce
  qed
  then obtain msk where mk: "mask_of_bag bag (MultiPath_Bitmask_Size cf) = Inr msk"
      "\<And>j. in_mask j msk \<longleftrightarrow> (\<exists>e \<in> set bag. fe_edge e \<noteq> None \<and> fe_index e = j)" using mask_of_bag_ok by blast
  have "MultiPath_Compute cf opts d dst k mp = Inr (m, msk, mp\<lparr>mp_flow := f\<rparr>)"
    using dest r(1) mk(1) by (simp add: MultiPath_Compute_def conf_nodes_def)
  with r l c mk(2) show thesis by (intro that) auto
qed

lemma carries_marked:
  assumes l: "links cf (conf_link cf) es" and k: "links_known cf opts d" and i: "ff_inv (cost_of opts d) es s t n (f, bag) \<pi>"
    and m: "\<And>j. in_mask j msk \<longleftrightarrow> (\<exists>e \<in> set bag. fe_edge e \<noteq> None \<and> fe_index e = j)" and c: "carries_flow es f a b"
  shows "marked_link cf opts d msk a b"
proof -
  obtain e where e: "e \<in> reals es" "link_edge e" "fe_start e = Outbound a" "fe_end e = Inbound b" "f (ptr_of e) = 1"
    using c by (auto simp: carries_flow_def)
  obtain x where x: "conf_link cf a b x" "link_of cf a b x e" using l e unfolding links_def link_of_def by fastforce
  have "e \<in> set bag" using ff_invD(2) [OF i] e by (simp add: bag_ok_def)
  then have "in_mask x msk" using m x(2) by (auto simp: link_of_def)
  moreover have "cost_of opts d e \<noteq> None" using ff_invD(1) [OF i] e(1,5) unfolding flow_ok_def reals_def by blast
  then have "conf_link_up cf opts d a b" using cost_of_link(1) [OF k x] e(1) by (simp add: reals_def)
  ultimately show ?thesis using x(1) by (auto simp: marked_link_def)
qed

lemma mask_links_up:
  assumes l: "links cf (conf_link cf) es" and k: "links_known cf opts d" and i: "ff_inv (cost_of opts d) es s t n (f, bag) \<pi>"
    and m: "\<And>j. in_mask j msk \<longleftrightarrow> (\<exists>e \<in> set bag. fe_edge e \<noteq> None \<and> fe_index e = j)" and j: "in_mask j msk"
  shows "\<exists>a b. conf_link cf a b j \<and> marked_link cf opts d msk a b"
proof -
  obtain e where e: "e \<in> set bag" "fe_edge e \<noteq> None" "fe_index e = j" using m j by blast
  have n: "flow_network es (flow_nodes cf)" using l by (simp add: links_def flow_net_def)
  have r: "e \<in> reals es" "f (ptr_of e) = 1" using ff_invD(2) [OF i] e(1) by (auto simp: bag_ok_def)
  have "link_edge e" using networkD(3) [OF n r(1)] e(2) by (auto simp: half_edge_def)
  then obtain a b x where x: "conf_link cf a b x" "link_of cf a b x e" using l r(1) unfolding links_def by blast
  then have "carries_flow es f a b" using r \<open>link_edge e\<close> by (auto simp: carries_flow_def link_of_def)
  then show ?thesis using carries_marked [OF l k i m] x e(3) by (auto simp: link_of_def)
qed

lemma rtrancl_without_mono: "(\<And>i j. r i j \<Longrightarrow> q i j) \<Longrightarrow> (a, b) \<in> (without r F)\<^sup>* \<Longrightarrow> (a, b) \<in> (without q F)\<^sup>*"
  by (erule rtrancl_mono [THEN subsetD, rotated]) (auto simp: without_def)

definition survives_failures :: "Configuration \<Rightarrow> mp_opts \<Rightarrow> daemon \<Rightarrow> nat \<Rightarrow> nat \<Rightarrow> bitmask \<Rightarrow> bool" where
  "survives_failures cf opts d dst n msk \<longleftrightarrow> (\<forall>F. finite F \<and> card F < n \<and> cf_My_ID cf \<notin> F \<and> dst \<notin> F \<longrightarrow>
     (cf_My_ID cf, dst) \<in> (without (marked_link cf opts d msk) F)\<^sup>*)"

definition disjoint_paths :: "Configuration \<Rightarrow> mp_opts \<Rightarrow> daemon \<Rightarrow> nat \<Rightarrow> nat list set \<Rightarrow> bool" where
  "disjoint_paths cf opts d dst P \<longleftrightarrow>
     (\<forall>p \<in> P. path_of (\<lambda>i j. (\<exists>x. conf_link cf i j x) \<and> conf_link_up cf opts d i j) (cf_My_ID cf) dst p) \<and>
     (\<forall>p \<in> P. \<forall>q \<in> P. p \<noteq> q \<longrightarrow> set p \<inter> set q \<subseteq> {cf_My_ID cf, dst})"

text \<open>The costs are small enough for every path to be shorter than the distance of an unreachable node.\<close>

definition link_metric :: "mp_opts \<Rightarrow> State_Data \<Rightarrow> int" where
  "link_metric opts x = (if use_base_cost opts then base_cost_at x else \<bar>state_value x\<bar>)"

definition costs_bounded :: "Configuration \<Rightarrow> mp_opts \<Rightarrow> daemon \<Rightarrow> int \<Rightarrow> bool" where
  "costs_bounded cf opts d C \<longleftrightarrow> 0 < C \<and> 2 * int (card (conf_nodes cf)) * C < 65535 \<and>
     (\<forall>((s, t), v) \<in> set (cf_Sorted_Edges cf).
        (\<forall>x. Get_Edge d (temp_node_ip cf s) (temp_node_ip cf t) = Some x \<longrightarrow> link_metric opts x \<le> C) \<and>
        (\<forall>y. Get_Edge d (temp_node_ip cf t) (temp_node_ip cf s) = Some y \<longrightarrow> link_metric opts y \<le> C))"

lemma cost_of_bounded:
  assumes l: "links cf (conf_link cf) es" and k: "links_known cf opts d" and C: "costs_bounded cf opts d C"
    and e: "e \<in> set es" "cost_of opts d e = Some a"
  shows "a \<le> C"
proof (cases rule: pair_kind [OF l e(1)])
  case 1
  then show ?thesis using e(2) C by (auto simp: cost_of_def flow_cost_def costs_bounded_def)
next
  case (2 i j n)
  obtain x y where xy: "Get_Edge d (temp_node_ip cf i) (temp_node_ip cf j) = Some x" "cost_in_range opts x"
    "Get_Edge d (temp_node_ip cf j) (temp_node_ip cf i) = Some y" "cost_in_range opts y" using links_known_link [OF k 2(1)] by blast
  have "link_metric opts x \<le> C" "link_metric opts y \<le> C"
    using C 2(1) xy(1,3) unfolding costs_bounded_def conf_link_def by fastforce+
  moreover have "cost_of opts d e = map_option (\<lambda>c. if residual e then - c else c) (link_cost opts x y)"
    using flow_cost_link [OF 2(2,3) xy(1,3,2,4)] by (simp add: cost_of_def)
  moreover have "1 \<le> link_metric opts x" "1 \<le> link_metric opts y" using xy(2,4) by (auto simp: cost_in_range_def link_metric_def split: if_splits)
  ultimately show ?thesis using e(2) by (auto simp: link_cost_def link_metric_def max_def split: if_splits)
qed

lemma maximal:
  assumes l: "links cf (conf_link cf) es" and c: "costs (cost_of opts d) es"
    and i: "ff_inv (cost_of opts d) es (Outbound (cf_My_ID cf)) (Inbound dst) n (f, bag) \<pi>"
    and b: "blocked (cost_of opts d) es (Outbound (cf_My_ID cf)) (Inbound dst) f" and k: "links_known cf opts d"
    and dest: "dst \<in> conf_nodes cf" "cf_My_ID cf \<in> conf_nodes cf" "dst \<noteq> cf_My_ID cf"
    and C: "costs_bounded cf opts d C" and P: "disjoint_paths cf opts d dst P"
  shows "card P \<le> n"
proof -
  let ?c = "cost_of opts d"
  have n: "flow_network es (flow_nodes cf)" using l by (simp add: links_def flow_net_def)
  have up: "live_link es ?c a b" if ab: "conf_link cf a b x" "conf_link_up cf opts d a b" for a b x
  proof -
    obtain e where e: "e \<in> reals es" "link_edge e" "link_of cf a b x e" using l ab(1) unfolding links_def by blast
    then have "?c e \<noteq> None" using cost_of_link(1) [OF k ab(1) e(3)] ab(2) by (simp add: reals_def)
    then show ?thesis using e by (auto simp: live_link_def link_of_def)
  qed
  have h: "\<exists>e \<in> reals es. half_edge e \<and> fe_start e = Inbound j" if aj: "live_link es ?c a j" for a j
  proof -
    obtain e where "e \<in> reals es" "fe_end e = Inbound j" using aj by (auto simp: live_link_def)
    then have "j \<in> conf_nodes cf" using networkD(2) [OF n, of e] by (auto simp: flow_nodes_def reals_def)
    then show ?thesis using l by (simp add: links_def joins_def)
  qed
  have p: "path_of (live_link es ?c) (cf_My_ID cf) dst p" if "p \<in> P" for p
  proof -
    have a: "p \<noteq> []" "hd p = cf_My_ID cf" "last p = dst" "distinct p" "successively (\<lambda>i j. (\<exists>x. conf_link cf i j x) \<and> conf_link_up cf opts d i j) p"
      using P that unfolding disjoint_paths_def path_of_def by blast+
    have "successively (live_link es ?c) p" by (rule successively_mono [OF a(5)]) (use up in blast)
    with a(1-4) show ?thesis by (simp add: path_of_def)
  qed
  have q: "set p \<inter> set q \<subseteq> {cf_My_ID cf, dst}" if "p \<in> P" "q \<in> P" "p \<noteq> q" for p q
    using P that unfolding disjoint_paths_def by blast
  have V: "Outbound (cf_My_ID cf) \<in> flow_nodes cf" "cf_My_ID cf \<noteq> dst" using dest by (auto simp: flow_nodes_def)
  have bound: "0 < C" "int (card (flow_nodes cf)) * C < 65535" using C by (auto simp: card_flow_nodes costs_bounded_def)
  show ?thesis
    by (rule disjoint_paths_le [OF n c i b bound(1) cost_of_bounded [OF l k C] bound(2) V h p q])
qed

lemma Compute_result:
  assumes "links cf (conf_link cf) (Flow_Edges mp)" "nodes_counted cf" "indices_fit cf" "links_known cf opts d"
    and dest: "dst \<in> conf_nodes cf" "cf_My_ID cf \<in> conf_nodes cf" "dst \<noteq> cf_My_ID cf"
  shows "\<exists>n msk mp'. MultiPath_Compute cf opts d dst k mp = Inr (n, msk, mp') \<and> n \<le> k \<and> survives_failures cf opts d dst n msk \<and>
     (\<forall>x. in_mask x msk \<longrightarrow> (\<exists>i j. conf_link cf i j x \<and> conf_link_up cf opts d i j)) \<and>
     (n < k \<longrightarrow> (\<forall>C P. costs_bounded cf opts d C \<and> disjoint_paths cf opts d dst P \<longrightarrow> card P \<le> n))"
proof (rule MultiPath_Compute_flow [OF assms, of k])
  let ?es = "Flow_Edges mp" and ?c = "cost_of opts d"
  fix n msk mp' f bag \<pi>
  assume r: "MultiPath_Compute cf opts d dst k mp = Inr (n, msk, mp')" "n \<le> k"
    and l: "links cf (conf_link cf) ?es" and c: "costs ?c ?es"
    and i: "ff_inv ?c ?es (Outbound (cf_My_ID cf)) (Inbound dst) n (f, bag) \<pi>"
    and b: "n < k \<Longrightarrow> blocked ?c ?es (Outbound (cf_My_ID cf)) (Inbound dst) f"
    and m: "\<And>j. in_mask j msk \<longleftrightarrow> (\<exists>e \<in> set bag. fe_edge e \<noteq> None \<and> fe_index e = j)"
  have n: "flow_network ?es (flow_nodes cf)" using l by (simp add: links_def flow_net_def)
  have mk: "carries_flow ?es f a b \<Longrightarrow> marked_link cf opts d msk a b" for a b by (rule carries_marked [OF l assms(4) i m])
  have "survives_failures cf opts d dst n msk"
    unfolding survives_failures_def using rtrancl_without_mono [where q = "marked_link cf opts d msk", OF mk survives [OF n i]] by blast
  moreover have "\<exists>i j. conf_link cf i j x \<and> conf_link_up cf opts d i j" if "in_mask x msk" for x
    using mask_links_up [OF l assms(4) i m that] by (auto simp: marked_link_def)
  moreover have "card P \<le> n" if "n < k" "costs_bounded cf opts d C" "disjoint_paths cf opts d dst P" for C P
    by (rule maximal [OF l c i b [OF that(1)] assms(4) dest that(2,3)])
  ultimately show ?thesis using r by blast
qed

end
