(* ===== verification/Conf_Start.thy ===== *)
theory Conf_Start
  imports Multipath_Correct
begin

text \<open>
  A configuration of undirected edges always comes up: what the lines of the file leave is consistent, every node and
  edge is created, and the flow network is built without leaving the room that its nodes have.
\<close>

section \<open>What the lines keep\<close>

fun line_ok :: "conf_line \<Rightarrow> bool" where
  "line_ok (Host i ip) \<longleftrightarrow> ip \<noteq> 0"
| "line_ok (Directed b) \<longleftrightarrow> \<not> b"
| "line_ok _ \<longleftrightarrow> True"

definition at_node :: "nat \<Rightarrow> Edge_Key \<times> Edge_Value \<Rightarrow> bool" where
  "at_node i x \<longleftrightarrow> fst (fst x) = i \<or> snd (fst x) = i"

definition degree :: "nat \<Rightarrow> (Edge_Key \<times> Edge_Value) list \<Rightarrow> nat" where
  "degree i xs = length (filter (at_node i) xs)"

definition conf_consistent :: "Configuration \<Rightarrow> bool" where
  "conf_consistent cf \<longleftrightarrow> \<not> cf_Directed_Edges cf \<and> (\<forall>i. temp_node_ip cf i \<noteq> 0 \<longrightarrow> i \<in> conf_nodes cf) \<and> temp_num_nodes cf = card (conf_nodes cf) \<and>
     (\<forall>((s, t), v) \<in> set (cf_Sorted_Edges cf). s \<noteq> t \<and> s \<in> conf_nodes cf \<and> t \<in> conf_nodes cf) \<and>
     (\<forall>i. cf_Degree cf i = degree i (cf_Sorted_Edges cf)) \<and>
     (\<forall>i n. 1 \<le> n \<and> n \<le> cf_Degree cf i \<longrightarrow> edge_key False i (temp_neighbor_id cf i n) \<in> fst ` set (cf_Sorted_Edges cf))"

lemma stdskl_insert_set: "set (stdskl_insert cmp k v pos ys) = insert (k, v) (set ys)"
  by (induction cmp k v pos ys rule: stdskl_insert.induct) auto

lemma stdskl_insert_degree: "degree i (stdskl_insert cmp k v pos ys) = of_bool (at_node i (k, v)) + degree i ys"
  by (induction cmp k v pos ys rule: stdskl_insert.induct) (auto simp: degree_def)

lemma card_conf_nodes: "card (conf_nodes cf) \<le> 50"
proof -
  have "conf_nodes cf \<subseteq> {1..MAX_NODES}" by (auto simp: conf_nodes_def)
  then have "card (conf_nodes cf) \<le> card {1..MAX_NODES}" by (intro card_mono) auto
  then show ?thesis by (simp add: MAX_NODES_def)
qed

lemma conf_consistent_start: "conf_consistent (Pre_Conf_Setup i legs)"
  by (auto simp: conf_consistent_def Pre_Conf_Setup_def conf_nodes_def degree_def)

lemma conf_consistent_host:
  assumes ok: "conf_consistent cf" and r: "Conf_add_host me i ip cf = Inr cf'" and ip: "ip \<noteq> 0"
  shows "conf_consistent cf'"
proof (cases "temp_node_ip cf (nat i) = 0")
  case True
  have i: "1 \<le> nat i" "nat i \<le> MAX_NODES" using r by (auto simp: Conf_add_host_def split: if_splits)
  have n: "conf_nodes cf' = insert (nat i) (conf_nodes cf)" "nat i \<notin> conf_nodes cf"
    using r True ip i by (auto simp: Conf_add_host_def conf_nodes_def split: if_splits)
  have c: "temp_num_nodes cf' = (temp_num_nodes cf + 1) mod 2 ^ 16" "\<And>j. temp_node_ip cf' j = (if j = nat i then ip else temp_node_ip cf j)"
    "cf_Directed_Edges cf' = cf_Directed_Edges cf" "cf_Sorted_Edges cf' = cf_Sorted_Edges cf" "cf_Degree cf' = cf_Degree cf"
    "temp_neighbor_id cf' = temp_neighbor_id cf"
    using r True by (auto simp: Conf_add_host_def split: if_splits)
  have "card (conf_nodes cf') = card (conf_nodes cf) + 1" using n by simp
  moreover have "temp_num_nodes cf + 1 < 2 ^ 16" using ok card_conf_nodes [of cf] by (simp add: conf_consistent_def)
  ultimately have "temp_num_nodes cf' = card (conf_nodes cf')" using ok c(1) by (simp add: conf_consistent_def)
  then show ?thesis using ok n(1) c(2-6) by (auto simp: conf_consistent_def)
next
  case False
  then show ?thesis using r ok by (auto simp: Conf_add_host_def split: if_splits)
qed

lemma conf_neighborD:
  assumes "conf_neighbor a b cf = Inr cf'"
  shows "cf_Degree cf' = (cf_Degree cf)(a := cf_Degree cf a + 1)"
    "temp_neighbor_id cf' = (temp_neighbor_id cf)(a := (temp_neighbor_id cf a)(cf_Degree cf a + 1 := b))"
    "temp_node_ip cf' = temp_node_ip cf" "cf_Directed_Edges cf' = cf_Directed_Edges cf" "cf_Sorted_Edges cf' = cf_Sorted_Edges cf"
    "temp_num_nodes cf' = temp_num_nodes cf"
  using assms by (auto simp: conf_neighbor_def Let_def split: if_splits)

lemma add_conf_legD:
  assumes "add_conf_leg ip cf = Inr cf'"
  shows "cf_Degree cf' = cf_Degree cf" "temp_neighbor_id cf' = temp_neighbor_id cf" "temp_node_ip cf' = temp_node_ip cf"
    "cf_Directed_Edges cf' = cf_Directed_Edges cf" "cf_Sorted_Edges cf' = cf_Sorted_Edges cf" "temp_num_nodes cf' = temp_num_nodes cf"
  using assms by (auto simp: add_conf_leg_def split: if_splits)

lemma add_edge_endsD:
  assumes "add_edge_ends a b cf = Inr cf'" "\<not> cf_Directed_Edges cf" "a \<noteq> b"
  shows "cf_Degree cf' = (cf_Degree cf)(a := cf_Degree cf a + 1, b := cf_Degree cf b + 1)"
    "temp_neighbor_id cf' = (temp_neighbor_id cf)(a := (temp_neighbor_id cf a)(cf_Degree cf a + 1 := b), b := (temp_neighbor_id cf b)(cf_Degree cf b + 1 := a))"
    "temp_node_ip cf' = temp_node_ip cf" "cf_Directed_Edges cf' = cf_Directed_Edges cf" "cf_Sorted_Edges cf' = cf_Sorted_Edges cf"
    "temp_num_nodes cf' = temp_num_nodes cf"
proof -
  obtain c1 c2 where c: "conf_neighbor a b cf = Inr c1" "conf_neighbor b a c1 = Inr c2"
      "(if a = cf_My_ID c2 then add_conf_leg (temp_node_ip c2 b) c2 else if b = cf_My_ID c2 then add_conf_leg (temp_node_ip c2 a) c2 else Inr c2) = Inr cf'"
    using assms(1,2) by (auto simp: add_edge_ends_def bind_res_Inr_iff)
  have same: "cf_Degree cf' = cf_Degree c2" "temp_neighbor_id cf' = temp_neighbor_id c2" "temp_node_ip cf' = temp_node_ip c2"
    "cf_Directed_Edges cf' = cf_Directed_Edges c2" "cf_Sorted_Edges cf' = cf_Sorted_Edges c2" "temp_num_nodes cf' = temp_num_nodes c2"
    using c(3) by (auto split: if_splits dest: add_conf_legD)
  show "cf_Degree cf' = (cf_Degree cf)(a := cf_Degree cf a + 1, b := cf_Degree cf b + 1)"
    "temp_neighbor_id cf' = (temp_neighbor_id cf)(a := (temp_neighbor_id cf a)(cf_Degree cf a + 1 := b), b := (temp_neighbor_id cf b)(cf_Degree cf b + 1 := a))"
    "temp_node_ip cf' = temp_node_ip cf" "cf_Directed_Edges cf' = cf_Directed_Edges cf" "cf_Sorted_Edges cf' = cf_Sorted_Edges cf"
    "temp_num_nodes cf' = temp_num_nodes cf"
    using same conf_neighborD [OF c(1)] conf_neighborD [OF c(2)] assms(3) by auto
qed

lemma edge_key_commute: "a \<noteq> b \<Longrightarrow> edge_key False a b = edge_key False b a"
  by (auto simp: edge_key_def)

lemma conf_consistent_edge:
  assumes ok: "conf_consistent cf" and r: "Conf_add_edge pos h1 h2 c cf = Inr cf'"
  shows "conf_consistent cf'"
proof (cases "h1 = h2")
  case False
  let ?a = "nat h1" and ?b = "nat h2" and ?v = "\<lparr>ev_cost = int16_of c, ev_index = 0\<rparr>"
  let ?k = "edge_key False ?a ?b"
  have h: "0 \<le> h1" "0 \<le> h2" "temp_node_ip cf ?a \<noteq> 0" "temp_node_ip cf ?b \<noteq> 0"
    using r False by (auto simp: Conf_add_edge_def split: if_splits)
  have ab: "?a \<noteq> ?b" using False h(1,2) by simp
  have nd: "\<not> cf_Directed_Edges cf" using ok by (simp add: conf_consistent_def)
  obtain c1 where c1: "add_edge_ends ?a ?b cf = Inr c1" "cf' = c1\<lparr>cf_Sorted_Edges := stdskl_insert Edge_Cmp ?k ?v pos (cf_Sorted_Edges c1)\<rparr>"
    using r False nd by (auto simp: Conf_add_edge_def bind_res_Inr_iff split: if_splits)
  note e = add_edge_endsD [OF c1(1) nd ab]
  let ?S = "cf_Sorted_Edges cf"
  have S: "cf_Sorted_Edges cf' = stdskl_insert Edge_Cmp ?k ?v pos ?S" using c1(2) e(5) by simp
  have N: "conf_nodes cf' = conf_nodes cf" using c1(2) e(3) by (simp add: conf_nodes_def)
  have keep: "temp_num_nodes cf' = temp_num_nodes cf" "temp_node_ip cf' = temp_node_ip cf" "\<not> cf_Directed_Edges cf'"
    "cf_Degree cf' = (cf_Degree cf)(?a := cf_Degree cf ?a + 1, ?b := cf_Degree cf ?b + 1)"
    "temp_neighbor_id cf' = (temp_neighbor_id cf)(?a := (temp_neighbor_id cf ?a)(cf_Degree cf ?a + 1 := ?b), ?b := (temp_neighbor_id cf ?b)(cf_Degree cf ?b + 1 := ?a))"
    using c1(2) e nd by auto
  have in_nodes: "?a \<in> conf_nodes cf" "?b \<in> conf_nodes cf" using ok h by (auto simp: conf_consistent_def)
  have key: "?k = (?a, ?b) \<or> ?k = (?b, ?a)" by (auto simp: edge_key_def)
  have deg: "cf_Degree cf' i = degree i (cf_Sorted_Edges cf')" for i
    unfolding S stdskl_insert_degree keep(4) using ok ab key by (auto simp: conf_consistent_def at_node_def)
  have ngb: "edge_key False i (temp_neighbor_id cf' i n) \<in> fst ` set (cf_Sorted_Edges cf')"
    if n: "1 \<le> n" "n \<le> cf_Degree cf' i" for i n
  proof (cases "n \<le> cf_Degree cf i")
    case True
    then have "temp_neighbor_id cf' i n = temp_neighbor_id cf i n" by (auto simp: keep(5))
    then show ?thesis using ok True n(1) unfolding S stdskl_insert_set conf_consistent_def by auto
  next
    case False
    then have "i = ?a \<and> n = cf_Degree cf ?a + 1 \<or> i = ?b \<and> n = cf_Degree cf ?b + 1"
      using n(2) by (auto simp: keep(4) split: if_splits)
    then have "edge_key False i (temp_neighbor_id cf' i n) = ?k" using ab edge_key_commute by (auto simp: keep(5))
    then show ?thesis by (simp add: S stdskl_insert_set)
  qed
  have old: "\<forall>i. temp_node_ip cf i \<noteq> 0 \<longrightarrow> i \<in> conf_nodes cf" "temp_num_nodes cf = card (conf_nodes cf)"
    "\<forall>((s, t), v) \<in> set ?S. s \<noteq> t \<and> s \<in> conf_nodes cf \<and> t \<in> conf_nodes cf" using ok unfolding conf_consistent_def by blast+
  have "\<forall>((s, t), v) \<in> set (cf_Sorted_Edges cf'). s \<noteq> t \<and> s \<in> conf_nodes cf' \<and> t \<in> conf_nodes cf'"
    unfolding S stdskl_insert_set N using old(3) in_nodes ab key by auto
  then show ?thesis using old(1,2) keep(1-3) deg ngb unfolding conf_consistent_def N by simp
qed (use r ok in \<open>auto simp: Conf_add_edge_def split: if_splits\<close>)

lemma conf_step_ok: "conf_consistent cf \<Longrightarrow> line_ok l \<Longrightarrow> conf_step me l cf = Inr cf' \<Longrightarrow> conf_consistent cf'"
proof (cases l)
  case (Mask_Size n)
  moreover assume "conf_consistent cf" "conf_step me l cf = Inr cf'"
  ultimately show ?thesis
    by (auto simp: Conf_set_multipath_bitmask_size_def conf_consistent_def conf_nodes_def split: if_splits)
next
  case (Directed b)
  moreover assume "conf_consistent cf" "line_ok l" "conf_step me l cf = Inr cf'"
  ultimately show ?thesis by (auto simp: Conf_set_directed_edges_def conf_consistent_def conf_nodes_def)
qed (auto intro: conf_consistent_host conf_consistent_edge simp: bind_res_Inr_iff)

lemma conf_lines_ok:
  assumes "fold_res (conf_step me) ls cf = Inr cf'" "conf_consistent cf" "\<And>l. l \<in> set ls \<Longrightarrow> line_ok l"
  shows "conf_consistent cf'"
  by (rule fold_res_invariant [where P = conf_consistent, OF assms(1,2)]) (use assms(3) conf_step_ok in blast)

section \<open>Nodes and edges\<close>

lemma label_edges_keys: "map fst (label_edges es) = map fst es"
  by (simp add: label_edges_def enumerate_eq_zip case_prod_unfold map_map comp_def flip: map_map [unfolded comp_def, of fst snd])

lemma label_edges_index:
  assumes "(k, v) \<in> set (label_edges es)"
  shows "ev_index v < length es"
  using assms by (auto simp: label_edges_def in_set_enumerate_eq intro: le_less_trans [OF mod_less_eq_dividend])

lemma degree_keys: "degree i xs = length (filter (\<lambda>k. fst k = i \<or> snd k = i) (map fst xs))"
  by (simp add: degree_def filter_map comp_def at_node_def [abs_def])

lemma conf_consistent_label: "conf_consistent cf \<Longrightarrow> conf_consistent (cf\<lparr>cf_Sorted_Edges := label_edges (cf_Sorted_Edges cf)\<rparr>)"
proof -
  assume ok: "conf_consistent cf"
  have s: "fst ` set (label_edges es) = fst ` set es" for es by (metis label_edges_keys set_map)
  have d: "degree i (label_edges es) = degree i es" for i es by (simp add: degree_keys label_edges_keys)
  have "s \<noteq> t \<and> s \<in> conf_nodes cf \<and> t \<in> conf_nodes cf" if "((s, t), v) \<in> set (label_edges (cf_Sorted_Edges cf))" for s t v
  proof -
    have "(s, t) \<in> fst ` set (cf_Sorted_Edges cf)" using that s by force
    then show ?thesis using ok unfolding conf_consistent_def by fastforce
  qed
  then show ?thesis using ok by (auto simp: conf_consistent_def conf_nodes_def s d)
qed

definition has_nodes :: "Configuration \<Rightarrow> daemon \<Rightarrow> bool" where
  "has_nodes cf d \<longleftrightarrow> tables_ok d \<and> (\<forall>i \<in> conf_nodes cf. Get_Node d (temp_node_ip cf i) \<noteq> None)"

lemma env_le_node: "env_le d d' \<Longrightarrow> Get_Node d i \<noteq> None \<Longrightarrow> Get_Node d' i \<noteq> None"
  unfolding env_le_def by blast

lemma init_node_ok:
  assumes "tables_ok d"
  obtains d' where "init_node cf i d = Inr d'" "tables_ok d'" "temp_node_ip cf i \<noteq> 0 \<Longrightarrow> Get_Node d' (temp_node_ip cf i) \<noteq> None"
    "\<And>j. Get_Node d j \<noteq> None \<Longrightarrow> Get_Node d' j \<noteq> None"
proof (cases "temp_node_ip cf i \<noteq> 0 \<and> Get_Node d (temp_node_ip cf i) = None")
  case True
  then obtain d' where d': "Create_Node (temp_node_ip cf i) d = Inr d'" by (auto simp: Create_Node_def Let_def)
  note t = Create_Node_tables [OF d' assms]
  show thesis by (rule that [of d']) (use True d' t env_le_node [OF t(2)] in \<open>auto simp: init_node_def\<close>)
next
  case False
  show thesis by (rule that [of d]) (use False assms in \<open>auto simp: init_node_def\<close>)
qed

lemma init_nodes_ok:
  assumes "tables_ok d"
  shows "\<exists>d'. fold_res (init_node cf) is d = Inr d' \<and> tables_ok d' \<and> (\<forall>i \<in> set is. temp_node_ip cf i \<noteq> 0 \<longrightarrow> Get_Node d' (temp_node_ip cf i) \<noteq> None) \<and>
     (\<forall>j. Get_Node d j \<noteq> None \<longrightarrow> Get_Node d' j \<noteq> None)"
  using assms
proof (induction "is" arbitrary: d)
  case (Cons i "is")
  obtain d1 where d1: "init_node cf i d = Inr d1" "tables_ok d1" "temp_node_ip cf i \<noteq> 0 \<Longrightarrow> Get_Node d1 (temp_node_ip cf i) \<noteq> None"
    "\<And>j. Get_Node d j \<noteq> None \<Longrightarrow> Get_Node d1 j \<noteq> None" using init_node_ok [OF Cons.prems] by blast
  obtain d' where d': "fold_res (init_node cf) is d1 = Inr d'" "tables_ok d'" "\<forall>i \<in> set is. temp_node_ip cf i \<noteq> 0 \<longrightarrow> Get_Node d' (temp_node_ip cf i) \<noteq> None"
    "\<forall>j. Get_Node d1 j \<noteq> None \<longrightarrow> Get_Node d' j \<noteq> None" using Cons.IH [OF d1(2)] by blast
  then show ?case using d1 by auto
qed simp

lemma Create_Edge_total:
  "Get_Node d a \<noteq> None \<Longrightarrow> Get_Node d b \<noteq> None \<Longrightarrow> Get_Edge d a b = None \<Longrightarrow> \<exists>d'. Create_Edge a b c e i d = Inr d'"
  by (auto simp: Create_Edge_def Let_def split: prod.split)

lemma init_edge_ok:
  assumes h: "has_nodes cf d" and ij: "i \<in> conf_nodes cf" "j \<in> conf_nodes cf"
  obtains d' where "init_edge (temp_node_ip cf i) (temp_node_ip cf j) v d = Inr d'" "has_nodes cf d'"
    "Get_Edge d' (temp_node_ip cf i) (temp_node_ip cf j) \<noteq> None" "\<And>a b. Get_Edge d a b \<noteq> None \<Longrightarrow> Get_Edge d' a b \<noteq> None"
proof (cases "Get_Edge d (temp_node_ip cf i) (temp_node_ip cf j) = None")
  case True
  let ?a = "temp_node_ip cf i" and ?b = "temp_node_ip cf j"
  have n: "Get_Node d ?a \<noteq> None" "Get_Node d ?b \<noteq> None" and t: "tables_ok d" using h ij by (auto simp: has_nodes_def)
  then obtain d' where d': "Create_Edge ?a ?b (- 1) (ev_cost v) (of_nat (ev_index v)) d = Inr d'"
    using True Create_Edge_total by blast
  note e = Create_Edge_tables [OF d' t]
  have "has_nodes cf d'" using h e(1) env_le_node [OF e(2)] by (auto simp: has_nodes_def)
  moreover have "Get_Edge d' a b \<noteq> None" if "Get_Edge d a b \<noteq> None" for a b
    using that e(5) [of a b] e(6) by (cases "(a, b) = (?a, ?b)") (auto simp: Get_Edge_def)
  ultimately show thesis using True d' e(6) by (intro that [of d']) (auto simp: init_edge_def Get_Edge_def)
next
  case False
  then show thesis using h by (intro that [of d]) (auto simp: init_edge_def)
qed

lemma init_edges_ok:
  assumes nd: "\<not> cf_Directed_Edges cf" and "has_nodes cf d" "\<And>s t v. ((s, t), v) \<in> set xs \<Longrightarrow> s \<in> conf_nodes cf \<and> t \<in> conf_nodes cf"
  shows "\<exists>d'. fold_res (init_edges cf) xs d = Inr d' \<and> has_nodes cf d' \<and> (\<forall>((s, t), v) \<in> set xs.
     Get_Edge d' (temp_node_ip cf s) (temp_node_ip cf t) \<noteq> None \<and> Get_Edge d' (temp_node_ip cf t) (temp_node_ip cf s) \<noteq> None) \<and>
     (\<forall>a b. Get_Edge d a b \<noteq> None \<longrightarrow> Get_Edge d' a b \<noteq> None)"
  using assms(2,3)
proof (induction xs arbitrary: d)
  case (Cons x xs)
  obtain s t v where x: "x = ((s, t), v)" by (metis surj_pair)
  have st: "s \<in> conf_nodes cf" "t \<in> conf_nodes cf" using Cons.prems(2) x by auto
  obtain d1 where d1: "init_edge (temp_node_ip cf s) (temp_node_ip cf t) v d = Inr d1" "has_nodes cf d1"
    "Get_Edge d1 (temp_node_ip cf s) (temp_node_ip cf t) \<noteq> None" "\<And>a b. Get_Edge d a b \<noteq> None \<Longrightarrow> Get_Edge d1 a b \<noteq> None"
    using init_edge_ok [OF Cons.prems(1) st] by blast
  obtain d2 where d2: "init_edge (temp_node_ip cf t) (temp_node_ip cf s) v d1 = Inr d2" "has_nodes cf d2"
    "Get_Edge d2 (temp_node_ip cf t) (temp_node_ip cf s) \<noteq> None" "\<And>a b. Get_Edge d1 a b \<noteq> None \<Longrightarrow> Get_Edge d2 a b \<noteq> None"
    using init_edge_ok [OF d1(2) st(2,1)] by blast
  obtain d' where d': "fold_res (init_edges cf) xs d2 = Inr d'" "has_nodes cf d'" "\<forall>((s, t), v) \<in> set xs.
      Get_Edge d' (temp_node_ip cf s) (temp_node_ip cf t) \<noteq> None \<and> Get_Edge d' (temp_node_ip cf t) (temp_node_ip cf s) \<noteq> None"
      "\<forall>a b. Get_Edge d2 a b \<noteq> None \<longrightarrow> Get_Edge d' a b \<noteq> None" using Cons.IH [OF d2(2)] Cons.prems(2) by fastforce
  have "init_edges cf x d = Inr d2" using d1(1) d2(1) nd by (simp add: init_edges_def x)
  moreover have "Get_Edge d' (temp_node_ip cf s) (temp_node_ip cf t) \<noteq> None \<and> Get_Edge d' (temp_node_ip cf t) (temp_node_ip cf s) \<noteq> None"
    using d1(3) d2(3,4) d'(4) by blast
  moreover have "\<forall>a b. Get_Edge d a b \<noteq> None \<longrightarrow> Get_Edge d' a b \<noteq> None" using d1(4) d2(4) d'(4) by blast
  ultimately show ?case using d'(1-3) x by simp
qed simp

definition edges_there :: "Configuration \<Rightarrow> daemon \<Rightarrow> bool" where
  "edges_there cf d \<longleftrightarrow> (\<forall>((s, t), v) \<in> set (cf_Sorted_Edges cf).
     Get_Edge d (temp_node_ip cf s) (temp_node_ip cf t) \<noteq> None \<and> Get_Edge d (temp_node_ip cf t) (temp_node_ip cf s) \<noteq> None)"

lemma Init_Nodes_conf_consistent:
  assumes ok: "conf_consistent cf" and t: "tables_ok d"
  obtains d' where "Init_Nodes_conf cf d = Inr (cf\<lparr>cf_Sorted_Edges := label_edges (cf_Sorted_Edges cf)\<rparr>, d')" "tables_ok d'"
    "edges_there (cf\<lparr>cf_Sorted_Edges := label_edges (cf_Sorted_Edges cf)\<rparr>) d'"
proof -
  define c where "c = cf\<lparr>cf_Sorted_Edges := label_edges (cf_Sorted_Edges cf)\<rparr>"
  have ok': "conf_consistent c" using conf_consistent_label [OF ok] by (simp add: c_def)
  obtain d1 where d1: "fold_res (init_node c) [1..<MAX_NODES + 1] d = Inr d1" "tables_ok d1"
      "\<forall>i \<in> set [1..<MAX_NODES + 1]. temp_node_ip c i \<noteq> 0 \<longrightarrow> Get_Node d1 (temp_node_ip c i) \<noteq> None"
    using init_nodes_ok [OF t] by blast
  have h: "has_nodes c d1" using d1(2,3) by (auto simp: has_nodes_def conf_nodes_def)
  have nd: "\<not> cf_Directed_Edges c" and S: "\<And>s t v. ((s, t), v) \<in> set (cf_Sorted_Edges c) \<Longrightarrow> s \<in> conf_nodes c \<and> t \<in> conf_nodes c"
    using ok' unfolding conf_consistent_def by blast+
  obtain d2 where d2: "fold_res (init_edges c) (cf_Sorted_Edges c) d1 = Inr d2" "has_nodes c d2" "edges_there c d2"
    using init_edges_ok [OF nd h, of "cf_Sorted_Edges c"] S unfolding edges_there_def by blast
  have "Init_Nodes_conf cf d = Inr (c, d2)" using d1(1) d2(1) by (simp add: Init_Nodes_conf_def c_def [symmetric] Let_def)
  then show thesis using that [of d2] d2(2,3) by (simp add: c_def has_nodes_def)
qed

end
