(* ===== verification/Conf_Network.thy ===== *)
theory Conf_Network
  imports Conf_Start
begin

text \<open>
  The flow network of a consistent configuration is built without an error: the arrays of a node are as long as its
  number of edges requires, and every neighbor has its link in the masks.
\<close>

section \<open>The edges at a node\<close>

definition load_is :: "Flow_Node \<Rightarrow> nat \<Rightarrow> Flow_Edge list \<Rightarrow> bool" where
  "load_is v n es \<longleftrightarrow> length (filter (\<lambda>e. fe_start e = v) es) = n \<and> length (filter (\<lambda>e. fe_end e = v) es) = n"

lemma load_add_pair: "load_is v n es \<Longrightarrow> load_is v (n + of_bool (v = a) + of_bool (v = b)) (add_pair a b ed re i es)"
  by (auto simp: load_is_def add_pair_def Let_def)

lemma room_load: "load_is v n es \<Longrightarrow> flow_room cf i v es \<longleftrightarrow> n \<le> cf_Degree cf i"
  by (simp add: flow_room_def load_is_def)

definition half_of :: "nat \<Rightarrow> Flow_Node \<Rightarrow> bool" where
  "half_of i v \<longleftrightarrow> v = Inbound i \<or> v = Outbound i"

lemma node_step_load: "load_is v n es \<Longrightarrow> half_of j v \<Longrightarrow> load_is v (n + of_bool (j = i \<and> temp_node_ip cf i \<noteq> 0)) (node_step cf i es)"
  using load_add_pair [of v n es "Inbound i" "Outbound i"] by (auto simp: node_step_def half_of_def)

lemma node_fold_load:
  assumes "distinct is" "half_of j v" "load_is v n es"
  shows "load_is v (n + of_bool (j \<in> set is \<and> temp_node_ip cf j \<noteq> 0)) (fold (node_step cf) is es)"
  using assms
proof (induction "is" arbitrary: n es)
  case (Cons i "is")
  from Cons.IH [OF _ Cons.prems(2) node_step_load [OF Cons.prems(3,2), of i cf]] Cons.prems(1)
  show ?case by (cases "j = i") auto
qed simp

lemma node_pairs_load: "i \<in> conf_nodes cf \<Longrightarrow> half_of i v \<Longrightarrow> load_is v 1 (node_pairs cf)"
  using node_fold_load [of "[1..<MAX_NODES + 1]" i v 0 "[]" cf]
  by (simp add: node_pairs_def node_step_def [abs_def] load_is_def conf_nodes_def)

section \<open>The links\<close>

lemma link_pair_ok:
  assumes st: "s \<in> conf_nodes cf" "t \<in> conf_nodes cf"
    and e: "Get_Edge d (temp_node_ip cf s) (temp_node_ip cf t) \<noteq> None" "Get_Edge d (temp_node_ip cf t) (temp_node_ip cf s) \<noteq> None"
    and l: "load_is (Outbound s) n es" "n \<le> cf_Degree cf s" "load_is (Inbound t) m es" "m \<le> cf_Degree cf t"
  shows "\<exists>ed re. link_pair cf d s t i es = Inr (add_pair (Outbound s) (Inbound t) ed re i es)"
  using st e room_load [OF l(1)] room_load [OF l(3)] l(2,4) by (auto simp: link_pair_def Let_def conf_nodes_def)

definition loaded :: "Configuration \<Rightarrow> (Edge_Key \<times> Edge_Value) list \<Rightarrow> Flow_Edge list \<Rightarrow> bool" where
  "loaded cf ys es \<longleftrightarrow> (\<forall>i \<in> conf_nodes cf. \<forall>v. half_of i v \<longrightarrow> load_is v (1 + degree i ys) es)"

lemma link_pairs_ok:
  assumes nd: "\<not> cf_Directed_Edges cf" and st: "s \<noteq> t" "s \<in> conf_nodes cf" "t \<in> conf_nodes cf"
    and e: "Get_Edge d (temp_node_ip cf s) (temp_node_ip cf t) \<noteq> None" "Get_Edge d (temp_node_ip cf t) (temp_node_ip cf s) \<noteq> None"
    and l: "loaded cf ys es" and deg: "\<And>i. degree i (((s, t), v) # ys) \<le> cf_Degree cf i"
  obtains es' where "link_pairs cf d ((s, t), v) es = Inr es'" "loaded cf (((s, t), v) # ys) es'"
proof -
  have ld: "i \<in> conf_nodes cf \<Longrightarrow> half_of i u \<Longrightarrow> load_is u (1 + degree i ys) es" for i u using l by (simp add: loaded_def)
  have ds: "1 + degree s ys \<le> cf_Degree cf s" "1 + degree t ys \<le> cf_Degree cf t"
    using deg [of s] deg [of t] by (auto simp: degree_def at_node_def)
  obtain ed re where r1: "link_pair cf d s t (ev_index v) es = Inr (add_pair (Outbound s) (Inbound t) ed re (ev_index v) es)"
    using link_pair_ok [OF st(2,3) e ld [OF st(2)] ds(1) ld [OF st(3)] ds(2), of "ev_index v"] by (auto simp: half_of_def)
  define es1 where "es1 = add_pair (Outbound s) (Inbound t) ed re (ev_index v) es"
  have l1: "load_is u (1 + degree i ys + of_bool (u = Outbound s) + of_bool (u = Inbound t)) es1"
    if "i \<in> conf_nodes cf" "half_of i u" for i u unfolding es1_def by (rule load_add_pair [OF ld [OF that]])
  have "load_is (Outbound t) (1 + degree t ys) es1" "load_is (Inbound s) (1 + degree s ys) es1"
    using l1 [OF st(3), of "Outbound t"] l1 [OF st(2), of "Inbound s"] st(1) by (auto simp: half_of_def)
  then obtain ed' re' where r2: "link_pair cf d t s (ev_index v) es1 = Inr (add_pair (Outbound t) (Inbound s) ed' re' (ev_index v) es1)"
    using link_pair_ok [OF st(3,2) e(2,1) _ ds(2) _ ds(1)] by blast
  define es2 where "es2 = add_pair (Outbound t) (Inbound s) ed' re' (ev_index v) es1"
  have "load_is u (1 + degree i (((s, t), v) # ys)) es2" if i: "i \<in> conf_nodes cf" "half_of i u" for i u
  proof -
    have "1 + degree i (((s, t), v) # ys) = 1 + degree i ys + of_bool (u = Outbound s) + of_bool (u = Inbound t) + of_bool (u = Outbound t) + of_bool (u = Inbound s)"
      using i(2) st(1) by (auto simp: degree_def at_node_def half_of_def)
    then show ?thesis unfolding es2_def using load_add_pair [OF l1 [OF i]] by metis
  qed
  then have "loaded cf (((s, t), v) # ys) es2" by (simp add: loaded_def)
  moreover have "link_pairs cf d ((s, t), v) es = Inr es2" using r1 r2 nd by (simp add: link_pairs_def es1_def es2_def)
  ultimately show thesis using that by blast
qed

lemma link_fold_ok:
  assumes ok: "conf_consistent cf" and e: "edges_there cf d" and "set xs \<subseteq> set (cf_Sorted_Edges cf)" "loaded cf ys es"
    "\<And>i. degree i ys + degree i xs \<le> cf_Degree cf i"
  shows "\<exists>es'. fold_res (link_pairs cf d) xs es = Inr es'"
  using assms(3-5)
proof (induction xs arbitrary: ys es)
  case (Cons x xs)
  obtain s t v where x: "x = ((s, t), v)" by (metis surj_pair)
  have in_S: "((s, t), v) \<in> set (cf_Sorted_Edges cf)" using Cons.prems(1) x by simp
  have nd: "\<not> cf_Directed_Edges cf" using ok by (simp add: conf_consistent_def)
  have st: "s \<noteq> t" "s \<in> conf_nodes cf" "t \<in> conf_nodes cf" using ok in_S unfolding conf_consistent_def by blast+
  have ed: "Get_Edge d (temp_node_ip cf s) (temp_node_ip cf t) \<noteq> None" "Get_Edge d (temp_node_ip cf t) (temp_node_ip cf s) \<noteq> None"
    using e in_S unfolding edges_there_def by blast+
  have deg: "degree i (x # ys) + degree i xs = degree i ys + degree i (x # xs)" for i by (simp add: degree_def)
  have "degree i (((s, t), v) # ys) \<le> cf_Degree cf i" for i using Cons.prems(3) [of i] deg [of i] x by simp
  then obtain es1 where es1: "link_pairs cf d x es = Inr es1" "loaded cf (x # ys) es1"
    using link_pairs_ok [OF nd st ed Cons.prems(2), of v] x by blast
  have "\<exists>es'. fold_res (link_pairs cf d) xs es1 = Inr es'"
    using Cons.IH [OF _ es1(2)] Cons.prems(1,3) deg by simp
  then show ?case using es1(1) by simp
qed simp

lemma neighbor_mask_ok:
  assumes ok: "conf_consistent cf" and f: "indices_fit cf" and n: "ngbr \<in> set (Neighbor_IDs cf (cf_My_ID cf))"
  shows "\<exists>m. neighbor_mask pick cf ngbr = Inr m"
proof -
  have nd: "\<not> cf_Directed_Edges cf" using ok by (simp add: conf_consistent_def)
  obtain k where k: "1 \<le> k" "k \<le> cf_Degree cf (cf_My_ID cf)" "ngbr = temp_neighbor_id cf (cf_My_ID cf) k"
    using n by (auto simp: Neighbor_IDs_def)
  then have key: "edge_key False (cf_My_ID cf) ngbr \<in> fst ` set (cf_Sorted_Edges cf)" using ok by (simp add: conf_consistent_def)
  then have "fst (edge_key False (cf_My_ID cf) ngbr) \<noteq> snd (edge_key False (cf_My_ID cf) ngbr)" using ok unfolding conf_consistent_def by fastforce
  then have nk: "edge_key False (cf_My_ID cf) ngbr = neighbor_key cf ngbr" using nd by (auto simp: edge_key_def neighbor_key_def)
  let ?f = "filter (\<lambda>x. fst x = neighbor_key cf ngbr) (cf_Sorted_Edges cf)"
  have ne: "?f \<noteq> []" using key nk by (force simp: filter_empty_conv)
  then have "?f ! (pick (neighbor_key cf ngbr) mod length ?f) \<in> set ?f" by (intro nth_mem) simp
  then have "?f ! (pick (neighbor_key cf ngbr) mod length ?f) \<in> set (cf_Sorted_Edges cf)" by simp
  then have "ev_index (snd (?f ! (pick (neighbor_key cf ngbr) mod length ?f))) div 8 < MultiPath_Bitmask_Size cf"
    using f unfolding indices_fit_def case_prod_unfold by blast
  then show ?thesis using ne by (simp add: neighbor_mask_def Let_def or_bit_def)
qed

lemma map_res_ok: "(\<And>x. x \<in> set xs \<Longrightarrow> \<exists>y. f x = Inr y) \<Longrightarrow> \<exists>ys. map_res f xs = Inr ys"
proof (induction xs)
  case (Cons x xs)
  then obtain y ys where "f x = Inr y" "map_res f xs = Inr ys" by (metis list.set_intros)
  then show ?case by simp
qed simp

lemma Init_MultiPath_ok:
  assumes ok: "conf_consistent cf" and f: "indices_fit cf" and e: "edges_there cf d"
  shows "\<exists>mp. Init_MultiPath pick cf d = Inr mp"
proof -
  obtain ms where "map_res (neighbor_mask pick cf) (Neighbor_IDs cf (cf_My_ID cf)) = Inr ms"
    using map_res_ok [where f = "neighbor_mask pick cf", OF neighbor_mask_ok [OF ok f]] by blast
  moreover have l: "loaded cf [] (node_pairs cf)" using node_pairs_load by (simp add: loaded_def degree_def)
  have "degree i [] + degree i (cf_Sorted_Edges cf) \<le> cf_Degree cf i" for i using ok by (simp add: conf_consistent_def degree_def)
  then obtain es where "fold_res (link_pairs cf d) (cf_Sorted_Edges cf) (node_pairs cf) = Inr es"
    using link_fold_ok [OF ok e subset_refl l] by blast
  ultimately show ?thesis by (simp add: Init_MultiPath_def)
qed

lemma configuration_starts:
  assumes "fold_res (conf_step me) ls (Pre_Conf_Setup i legs) = Inr cf" "\<And>l. l \<in> set ls \<Longrightarrow> line_ok l"
    and fit: "length (cf_Sorted_Edges cf) \<le> 8 * MultiPath_Bitmask_Size cf" and t: "tables_ok d"
  shows "\<exists>cf' d' mp. Init_Nodes_conf cf d = Inr (cf', d') \<and> tables_ok d' \<and> Init_MultiPath pick cf' d' = Inr mp \<and> nodes_counted cf' \<and> indices_fit cf'"
proof -
  have ok: "conf_consistent cf" by (rule conf_lines_ok [OF assms(1) conf_consistent_start assms(2)])
  let ?c = "cf\<lparr>cf_Sorted_Edges := label_edges (cf_Sorted_Edges cf)\<rparr>"
  obtain d' where d': "Init_Nodes_conf cf d = Inr (?c, d')" "tables_ok d'" "edges_there ?c d'" by (rule Init_Nodes_conf_consistent [OF ok t])
  have ok': "conf_consistent ?c" by (rule conf_consistent_label [OF ok])
  have "indices_fit ?c" unfolding indices_fit_def using fit label_edges_index by (fastforce simp: div_less_iff_less_mult mult.commute)
  moreover have "nodes_counted ?c" using ok' by (simp add: nodes_counted_def conf_Num_Nodes_def conf_consistent_def)
  ultimately show ?thesis using d' Init_MultiPath_ok [OF ok' _ d'(3)] by blast
qed

end
