(* ===== verification/Route_Table.thy ===== *)
theory Route_Table
  imports Route
begin

text \<open>
  The in-place triple loop of \<open>RR_Init\<close> against the path recursion of \<open>Route_Spec\<close>: after phase
  \<open>k\<close> every entry of the table is the summary (hops, cost, next hop behind the local node, a node in
  between) of the path that the recursion has chosen.
\<close>

section \<open>One phase, read entry by entry\<close>

definition relaxed :: "Node_ID list \<Rightarrow> nat \<Rightarrow> nat \<Rightarrow> nat \<Rightarrow> Route \<Rightarrow> Route \<Rightarrow> Route \<Rightarrow> Route" where
  "relaxed ids k i j ik kj ij =
     (if i = k \<or> cost ik < 0 \<or> i = j \<or> j = k \<or> cost kj < 0 then ij
      else if cost ij < 0 \<or> cost ik + cost kj < cost ij
      then \<lparr>distance = int16_of (distance ik + distance kj), cost = cost ik + cost kj,
            forwarder = (if forwarder kj \<noteq> None then forwarder kj else forwarder ik),
            predecessor = ids ! k\<rparr>
      else ij)"

lemma length_RR_relax [simp]: "length (RR_relax ids k i j R) = length R"
  by (simp add: RR_relax_def Let_def)

lemma length_fold_relax [simp]: "length (fold (RR_relax ids k i) js R) = length R"
  by (induction js arbitrary: R) auto

lemma length_RR_relax_row [simp]: "length (RR_relax_row ids k i R) = length R"
  by (simp add: RR_relax_row_def)

lemma length_fold_row [simp]: "length (fold (RR_relax_row ids k) is R) = length R"
  by (induction "is" arbitrary: R) auto

lemma length_RR_phase [simp]: "length (RR_phase ids k R) = length R"
  by (simp add: RR_phase_def)

lemma RR_relax_nth:
  assumes "length R = n * n" "n = length ids" "i < n" "j < n" "a < n" "b < n"
    and "i \<noteq> k" "\<not> cost (R ! (i * n + k)) < 0"
  shows "RR_relax ids k i j R ! (a * n + b) =
    (if a = i \<and> b = j then relaxed ids k i j (R ! (i * n + k)) (R ! (k * n + j)) (R ! (i * n + j))
     else R ! (a * n + b))"
proof -
  have len: "i * n + j < length R" using assms matrix_index_less by simp
  show ?thesis
  proof (cases "a = i \<and> b = j")
    case True
    with assms len show ?thesis by (simp add: RR_relax_def relaxed_def Let_def)
  next
    case False
    then have "i * n + j \<noteq> a * n + b" using assms matrix_index_inj [of j n b i a] by blast
    then have "RR_relax ids k i j R ! (a * n + b) = R ! (a * n + b)"
      using assms(2) by (simp add: RR_relax_def Let_def)
    with False show ?thesis by (simp only: if_False)
  qed
qed

lemma RR_relax_row_loop:
  assumes "length R = n * n" "n = length ids" "i < n" "k < n" "a < n" "b < n" "m \<le> n"
    and "i \<noteq> k" "\<not> cost (R ! (i * n + k)) < 0"
  shows "fold (RR_relax ids k i) [0..<m] R ! (a * n + b) =
    (if a = i \<and> b < m then relaxed ids k i b (R ! (i * n + k)) (R ! (k * n + b)) (R ! (i * n + b))
     else R ! (a * n + b))"
  using assms
proof (induction m arbitrary: a b)
  case 0
  then show ?case by simp
next
  case (Suc m)
  let ?R = "fold (RR_relax ids k i) [0..<m] R"
  have ik: "?R ! (i * n + k) = R ! (i * n + k)" using Suc by (simp add: relaxed_def)
  have km: "?R ! (k * n + m) = R ! (k * n + m)" using Suc by simp
  have im: "?R ! (i * n + m) = R ! (i * n + m)" using Suc by simp
  have "fold (RR_relax ids k i) [0..<Suc m] R ! (a * n + b) = RR_relax ids k i m ?R ! (a * n + b)"
    by simp
  also have "\<dots> = (if a = i \<and> b = m
      then relaxed ids k i m (R ! (i * n + k)) (R ! (k * n + m)) (R ! (i * n + m)) else ?R ! (a * n + b))"
    using RR_relax_nth [of ?R n ids i m a b k] Suc.prems ik km im by simp
  finally show ?case using Suc by (auto simp: less_Suc_eq)
qed

lemma RR_relax_row_nth:
  assumes "length R = n * n" "n = length ids" "i < n" "k < n" "a < n" "b < n"
  shows "RR_relax_row ids k i R ! (a * n + b) =
    (if a = i then relaxed ids k i b (R ! (i * n + k)) (R ! (k * n + b)) (R ! (i * n + b))
     else R ! (a * n + b))"
proof (cases "i = k \<or> cost (R ! (i * n + k)) < 0")
  case True
  then show ?thesis using assms by (auto simp: RR_relax_row_def relaxed_def)
next
  case False
  then show ?thesis using RR_relax_row_loop [of R n ids i k a b n] assms
    by (simp add: RR_relax_row_def)
qed

lemma RR_phase_loop:
  assumes "length R = n * n" "n = length ids" "k < n" "a < n" "b < n" "m \<le> n"
  shows "fold (RR_relax_row ids k) [0..<m] R ! (a * n + b) =
    (if a < m then relaxed ids k a b (R ! (a * n + k)) (R ! (k * n + b)) (R ! (a * n + b))
     else R ! (a * n + b))"
  using assms
proof (induction m arbitrary: a b)
  case 0
  then show ?case by simp
next
  case (Suc m)
  let ?R = "fold (RR_relax_row ids k) [0..<m] R"
  have row_k: "?R ! (k * n + b) = R ! (k * n + b)" if "b < n" for b
    using Suc that by (simp add: relaxed_def)
  have row_m: "?R ! (m * n + b) = R ! (m * n + b)" if "b < n" for b
    using Suc that by simp
  have "fold (RR_relax_row ids k) [0..<Suc m] R ! (a * n + b) = RR_relax_row ids k m ?R ! (a * n + b)"
    by simp
  also have "\<dots> = (if a = m then relaxed ids k m b (R ! (m * n + k)) (R ! (k * n + b)) (R ! (m * n + b))
      else ?R ! (a * n + b))"
    using RR_relax_row_nth [of ?R n ids m k a b] Suc.prems row_k row_m by simp
  finally show ?case using Suc by (auto simp: less_Suc_eq)
qed

lemma RR_phase_nth:
  assumes "length R = n * n" "n = length ids" "k < n" "i < n" "j < n"
  shows "RR_phase ids k R ! (i * n + j) =
    relaxed ids k i j (R ! (i * n + k)) (R ! (k * n + j)) (R ! (i * n + j))"
  using RR_phase_loop [of R n ids k i j n] assms by (simp add: RR_phase_def)

section \<open>Entries as summaries of paths\<close>

text \<open>The greatest node strictly between the ends, or the source when there is none.\<close>

definition between :: "nat \<Rightarrow> nat \<Rightarrow> nat list \<Rightarrow> nat" where
  "between i j p = (if set p - {i, j} = {} then i else Max (set p - {i, j}))"

definition route_of ::
  "Node_ID list \<Rightarrow> nat \<Rightarrow> nat graph \<Rightarrow> nat \<Rightarrow> nat \<Rightarrow> nat list option \<Rightarrow> Route" where
  "route_of ids m w i j path =
     (case path of
        None \<Rightarrow> no_route
      | Some p \<Rightarrow> if i = j then self_route
          else \<lparr>distance = int16_of (int (length p) - 1), cost = walk_cost w p,
                forwarder = map_option ((!) ids) (succ_on m p),
                predecessor = ids ! between i j p\<rparr>)"

definition represents :: "Node_ID list \<Rightarrow> nat \<Rightarrow> nat graph \<Rightarrow> nat \<Rightarrow> Route list \<Rightarrow> bool" where
  "represents ids m w k R \<longleftrightarrow> length R = length ids * length ids \<and>
     (\<forall>i < length ids. \<forall>j < length ids. R ! (i * length ids + j) = route_of ids m w i j (spath w k i j))"

lemma cost_route_of:
  assumes "nonneg_graph w"
  shows "cost (route_of ids m w i j (spath w k i j)) < 0 \<longleftrightarrow> spath w k i j = None"
    and "spath w k i j = Some p \<Longrightarrow> cost (route_of ids m w i j (spath w k i j)) = walk_cost w p"
proof -
  have nn: "0 \<le> walk_cost w p" if "spath w k i j = Some p" for p
    using walk_cost_nonneg [OF assms] chosenD(1) [OF spath_chosen [OF assms] that] by blast
  show "cost (route_of ids m w i j (spath w k i j)) < 0 \<longleftrightarrow> spath w k i j = None"
    using nn by (auto simp: route_of_def no_route_def self_route_def split: option.splits)
  show "cost (route_of ids m w i j (spath w k i j)) = walk_cost w p" if "spath w k i j = Some p"
    using that spath_self [of w k i] by (auto simp: route_of_def self_route_def)
qed

lemma between_join:
  assumes "set r \<subseteq> {..<Suc k} \<union> {i, j}" "k \<in> set r" "i \<noteq> k" "j \<noteq> k"
  shows "between i j r = k"
proof -
  have k: "k \<in> set r - {i, j}" using assms by auto
  moreover have "x \<le> k" if "x \<in> set r - {i, j}" for x using that assms(1) by auto
  ultimately have "Max (set r - {i, j}) = k" by (intro Max_eqI) auto
  with k show ?thesis by (auto simp: between_def)
qed

lemma relaxed_route_of:
  assumes nn: "nonneg_graph w"
  shows "relaxed ids k i j (route_of ids m w i k (spath w k i k)) (route_of ids m w k j (spath w k k j))
      (route_of ids m w i j (spath w k i j)) = route_of ids m w i j (spath w (Suc k) i j)"
proof (cases "i = k \<or> j = k \<or> i = j \<or> spath w k i k = None \<or> spath w k k j = None")
  case True
  then have "spath w (Suc k) i j = spath w k i j" by (auto simp: better_def split: option.splits)
  with True show ?thesis
    using cost_route_of(1) [OF nn] by (auto simp: relaxed_def)
next
  case False
  then obtain p q where p: "spath w k i k = Some p" and q: "spath w k k j = Some q" by auto
  note ok = spath_chosen [OF nn]
  note P = chosenD [OF ok p] and Q = chosenD [OF ok q] and J = join_path [OF ok ok p q]
  have q_eq: "q = k # tl q" using Q(2,6) by (metis list.collapse)
  have p_eq: "butlast p @ [k] = p" using P(3,6) by (metis append_butlast_last_id)
  have r_eq: "p @ tl q = butlast p @ k # tl q" using p_eq by (metis append.assoc append_Cons append_Nil)
  have succ: "succ_on m (p @ tl q) = (case succ_on m q of Some f \<Rightarrow> Some f | None \<Rightarrow> succ_on m p)"
    unfolding r_eq succ_on_append p_eq using q_eq by simp
  have len: "int16_of (int16_of (int (length p) - 1) + int16_of (int (length q) - 1))
      = int16_of (int (length (p @ tl q)) - 1)"
    using int16_of_add [of "int (length p) - 1" "int (length q) - 1"] Q(6) P(6)
    by (cases q) (auto simp: algebra_simps)
  have bet: "between i j (p @ tl q) = k"
    using between_join [OF J(2)] False P(3) last_in_set [OF P(6)] by auto
  have pos: "0 \<le> walk_cost w p" "0 \<le> walk_cost w q"
    using walk_cost_nonneg [OF nn] P(1) Q(1) by blast+
  have new: "relaxed ids k i j (route_of ids m w i k (Some p)) (route_of ids m w k j (Some q)) ij
      = route_of ids m w i j (Some (p @ tl q))"
    if "cost ij < 0 \<or> walk_cost w p + walk_cost w q < cost ij" for ij
    using that False pos succ len bet J(3)
    by (simp add: relaxed_def route_of_def split: option.splits)
  show ?thesis
  proof (cases "spath w k i j")
    case None
    with False p q new [of no_route] show ?thesis
      by (simp add: better_def route_of_def [of ids m w i j None] no_route_def)
  next
    case (Some s)
    have s: "cost (route_of ids m w i j (Some s)) = walk_cost w s" "0 \<le> walk_cost w s"
      using cost_route_of(2) [OF nn Some] walk_cost_nonneg [OF nn] chosenD(1) [OF ok Some] Some
      by (metis, blast)
    show ?thesis
    proof (cases "walk_cost w p + walk_cost w q < walk_cost w s")
      case True
      with False p q Some s new [of "route_of ids m w i j (Some s)"] show ?thesis
        by (simp add: better_def)
    next
      case not_better: False
      then have "relaxed ids k i j (route_of ids m w i k (Some p)) (route_of ids m w k j (Some q))
          (route_of ids m w i j (Some s)) = route_of ids m w i j (Some s)"
        using False s by (simp add: relaxed_def) (simp add: route_of_def)
      with False p q Some not_better show ?thesis by (simp add: better_def)
    qed
  qed
qed

lemma RR_phase_represents:
  assumes "nonneg_graph w" "represents ids m w k R" "k < length ids"
  shows "represents ids m w (Suc k) (RR_phase ids k R)"
  using assms relaxed_route_of [OF assms(1), of ids k _ _ m]
  by (simp add: represents_def RR_phase_nth del: spath.simps)

lemma RR_phases_represent:
  assumes "nonneg_graph w" "represents ids m w 0 R" "k \<le> length ids"
  shows "represents ids m w k (fold (RR_phase ids) [0..<k] R)"
  using assms(3)
proof (induction k)
  case 0
  then show ?case using assms(2) by simp
next
  case (Suc k)
  then show ?case using RR_phase_represents [OF assms(1)] by simp
qed

lemma RR_compute_represents:
  "nonneg_graph w \<Longrightarrow> represents ids m w 0 R \<Longrightarrow> represents ids m w (length ids) (RR_compute ids R)"
  unfolding RR_compute_def by (rule RR_phases_represent) auto

end
