(* ===== verification/Route_Correct.thy ===== *)
theory Route_Correct
  imports Route_Table
begin

text \<open>
  What \<open>RR_Init\<close> gives a daemon, in terms of node identifiers and edge costs: it does not fail,
  and the route for every pair of nodes is a simple shortest path of the overlay, with its cost, its
  hops and the neighbor that the local node has to forward to.
\<close>

section \<open>The overlay graph\<close>

definition edge_cost :: "state_table \<Rightarrow> Node_ID graph" where
  "edge_cost h s t =
     (case Find_State h s t of
        None \<Rightarrow> None
      | Some e \<Rightarrow> if state_value e = - 1 then None else Some \<bar>state_value e\<bar>)"

text \<open>What the table computation relies on: the two node tables agree, edges connect known
  nodes, and no live edge leads from a node to itself.\<close>

definition topology_ok :: "daemon \<Rightarrow> bool" where
  "topology_ok d \<longleftrightarrow>
     table_ok (All_Edges d) \<and> unique_keys (All_Nodes d) \<and> distinct (All_Nodes_by_ID d) \<and>
     set (All_Nodes_by_ID d) = fst ` set (All_Nodes d) \<and> My_Address d \<in> set (All_Nodes_by_ID d) \<and>
     (\<forall>e \<in> set (all_states (All_Edges d)).
        source_addr e \<in> set (All_Nodes_by_ID d) \<and> dest_addr e \<in> set (All_Nodes_by_ID d)) \<and>
     (\<forall>x. edge_cost (All_Edges d) x x = None)"

definition index_graph :: "Node_ID list \<Rightarrow> Node_ID graph \<Rightarrow> nat graph" where
  "index_graph ids ec i j =
     (if i < length ids \<and> j < length ids \<and> i \<noteq> j then ec (ids ! i) (ids ! j) else None)"

lemma nonneg_edge_cost: "nonneg_graph (edge_cost h)"
  by (auto simp: nonneg_graph_def edge_cost_def split: option.splits if_splits)

lemma nonneg_index_graph: "nonneg_graph ec \<Longrightarrow> nonneg_graph (index_graph ids ec)"
  by (auto simp: nonneg_graph_def index_graph_def)

text \<open>Walks over indexes and walks over identifiers correspond.\<close>

lemma walk_to_ids:
  assumes "is_walk (index_graph ids ec) p" and "set p \<subseteq> {..<length ids}"
  shows "is_walk ec (map ((!) ids) p)"
    and "walk_cost ec (map ((!) ids) p) = walk_cost (index_graph ids ec) p"
  using assms
  by (induction p rule: induct_list012) (auto simp: index_graph_def split: if_splits)

lemma walk_from_ids:
  assumes "distinct ids" and "\<forall>x. ec x x = None" and "is_walk ec q" and "set q \<subseteq> set ids"
  shows "\<exists>p. q = map ((!) ids) p \<and> set p \<subseteq> {..<length ids} \<and> is_walk (index_graph ids ec) p
    \<and> walk_cost (index_graph ids ec) p = walk_cost ec q"
  using assms(3,4)
proof (induction q rule: induct_list012)
  case (2 a)
  then obtain i where "i < length ids" "ids ! i = a" by (auto simp: in_set_conv_nth)
  then show ?case by (intro exI [of _ "[i]"]) auto
next
  case (3 a b q)
  have "is_walk ec (b # q)" "set (b # q) \<subseteq> set ids" using 3(3,4) by auto
  from 3(2) [OF this] obtain p where p: "b # q = map ((!) ids) p" "set p \<subseteq> {..<length ids}"
    "is_walk (index_graph ids ec) p" "walk_cost (index_graph ids ec) p = walk_cost ec (b # q)"
    by (elim exE conjE)
  from p(1) obtain j p' where jp: "p = j # p'" "ids ! j = b" by (cases p) auto
  from 3(4) obtain i where i: "i < length ids" "ids ! i = a" by (auto simp: in_set_conv_nth)
  have "i \<noteq> j" using 3(3) assms(2) i jp by auto
  then have "index_graph ids ec i j = ec a b" using p(2) jp i by (simp add: index_graph_def)
  then show ?case using 3(3) p jp i by (intro exI [of _ "i # p"]) auto
qed simp

lemma succ_on_map:
  assumes "distinct ids" and "m < length ids" and "set p \<subseteq> {..<length ids}"
  shows "succ_on (ids ! m) (map ((!) ids) p) = map_option ((!) ids) (succ_on m p)"
  using assms(3)
  by (induction p rule: induct_list012)
    (use assms(1,2) in \<open>auto simp: nth_eq_iff_index_eq split: option.splits\<close>)

section \<open>The table before the first phase\<close>

lemma RR_index_nodes_zip: "RR_index_nodes ids = map (\<lambda>i. (ids ! i, i)) [0..<length ids]"
proof -
  have "fold (\<lambda>i h. stdhash_insert h (ids ! i) i) xs h = h @ map (\<lambda>i. (ids ! i, i)) xs"
    for xs :: "nat list" and h
    by (induction xs arbitrary: h) (auto simp: stdhash_insert_def)
  then show ?thesis by (simp add: RR_index_nodes_def)
qed

lemma RR_index_nodes_find:
  assumes "distinct ids" and "i < length ids"
  shows "stdhash_find (RR_index_nodes ids) (ids ! i) = Some i"
proof -
  have "map fst (RR_index_nodes ids) = ids"
    by (simp add: RR_index_nodes_zip comp_def map_nth)
  then have "unique_keys (RR_index_nodes ids)" using assms by (simp add: unique_keys_def)
  moreover have "(ids ! i, i) \<in> set (RR_index_nodes ids)"
    using assms by (auto simp: RR_index_nodes_zip)
  ultimately show ?thesis using stdhash_find_unique by fastforce
qed

definition regime_ok :: "Node_ID list \<Rightarrow> Routing_Regime \<Rightarrow> bool" where
  "regime_ok ids rr \<longleftrightarrow> distinct ids \<and> Num_Nodes rr = length ids \<and> Node_IDs rr = ids \<and>
     Node_Indexes rr = RR_index_nodes ids \<and> length (Routes rr) = length ids * length ids"

lemma RR_Get_Node_Index_nth:
  "regime_ok ids rr \<Longrightarrow> i < length ids \<Longrightarrow> RR_Get_Node_Index rr (ids ! i) b = Inr (int i)"
  by (simp add: RR_Get_Node_Index_def regime_ok_def RR_index_nodes_find)

lemma RR_Get_Node_Index_unknown:
  assumes "regime_ok ids rr" and "x \<notin> set ids"
  shows "RR_Get_Node_Index rr x False = Inr (- 1)"
proof -
  have "stdhash_find (RR_index_nodes ids) x = None"
    using assms(2) by (auto simp: stdhash_find_None RR_index_nodes_zip)
  then show ?thesis using assms by (simp add: RR_Get_Node_Index_def regime_ok_def)
qed

lemma RR_Find_Route_nth:
  assumes "regime_ok ids rr" and "i < length ids" "j < length ids"
  shows "RR_Find_Route rr (ids ! i) (ids ! j) b = Inr (Some (Routes rr ! (i * length ids + j)))"
  using assms by (simp add: RR_Find_Route_def RR_Get_Node_Index_nth) (simp add: regime_ok_def)

definition edge_route :: "Node_ID \<Rightarrow> State_Data \<Rightarrow> Route" where
  "edge_route me e = \<lparr>distance = 1, cost = \<bar>state_value e\<bar>,
     forwarder = (if source_addr e \<noteq> me then None else Some (dest_addr e)), predecessor = source_addr e\<rparr>"

lemma RR_add_edge_nth:
  assumes "regime_ok ids rr" and "source_addr e \<in> set ids" "dest_addr e \<in> set ids"
  shows "\<exists>R. RR_add_edge me e rr = Inr (rr\<lparr>Routes := R\<rparr>) \<and> length R = length (Routes rr) \<and>
    (\<forall>i < length ids. \<forall>j < length ids. R ! (i * length ids + j) =
      (if state_key e = (ids ! i, ids ! j) \<and> state_value e \<noteq> - 1 then edge_route me e
       else Routes rr ! (i * length ids + j)))"
proof (cases "state_value e = - 1")
  case True
  then show ?thesis by (intro exI [of _ "Routes rr"]) (simp add: RR_add_edge_def)
next
  case False
  let ?n = "length ids"
  from assms obtain s t where st: "s < ?n" "t < ?n" "source_addr e = ids ! s" "dest_addr e = ids ! t"
    by (metis in_set_conv_nth)
  have n: "Num_Nodes rr = ?n" "length (Routes rr) = ?n * ?n" "distinct ids"
    using assms(1) by (auto simp: regime_ok_def)
  let ?R = "(Routes rr)[s * ?n + t := edge_route me e]"
  have "RR_add_edge me e rr = Inr (rr\<lparr>Routes := ?R\<rparr>)"
    using False st n RR_Get_Node_Index_nth [OF assms(1)]
    by (simp add: RR_add_edge_def edge_route_def)
  moreover have "?R ! (i * ?n + j) = (if state_key e = (ids ! i, ids ! j) \<and> state_value e \<noteq> - 1
      then edge_route me e else Routes rr ! (i * ?n + j))" if ij: "i < ?n" "j < ?n" for i j
  proof -
    have "s * ?n + t = i * ?n + j \<longleftrightarrow> state_key e = (ids ! i, ids ! j)"
      using matrix_index_inj [of t ?n j s i] st ij n(3)
      by (auto simp: state_key_def nth_eq_iff_index_eq)
    moreover have "s * ?n + t < length (Routes rr)" using st n matrix_index_less by simp
    ultimately show ?thesis using False by (simp add: nth_list_update)
  qed
  ultimately show ?thesis by (intro exI [of _ ?R]) simp
qed

lemma regime_ok_Routes:
  "regime_ok ids rr \<Longrightarrow> length R = length (Routes rr) \<Longrightarrow> regime_ok ids (rr\<lparr>Routes := R\<rparr>)"
  by (simp add: regime_ok_def)

lemma RR_add_edges_nth:
  assumes "regime_ok ids rr" and "distinct (map state_key es)"
    and "\<forall>e \<in> set es. source_addr e \<in> set ids \<and> dest_addr e \<in> set ids"
  shows "\<exists>R. fold_res (RR_add_edge me) es rr = Inr (rr\<lparr>Routes := R\<rparr>) \<and> length R = length (Routes rr) \<and>
    (\<forall>i < length ids. \<forall>j < length ids. R ! (i * length ids + j) =
      (case find (\<lambda>e. state_key e = (ids ! i, ids ! j) \<and> state_value e \<noteq> - 1) es of
         Some e \<Rightarrow> edge_route me e | None \<Rightarrow> Routes rr ! (i * length ids + j)))"
  using assms
proof (induction es arbitrary: rr)
  case Nil
  then show ?case by (intro exI [of _ "Routes rr"]) simp
next
  case (Cons e es)
  let ?n = "length ids"
  obtain R where R: "RR_add_edge me e rr = Inr (rr\<lparr>Routes := R\<rparr>)" "length R = length (Routes rr)"
    "\<forall>i < ?n. \<forall>j < ?n. R ! (i * ?n + j) =
      (if state_key e = (ids ! i, ids ! j) \<and> state_value e \<noteq> - 1 then edge_route me e
       else Routes rr ! (i * ?n + j))"
    using RR_add_edge_nth [OF Cons.prems(1), of e me] Cons.prems(3) by auto
  have "regime_ok ids (rr\<lparr>Routes := R\<rparr>)" using regime_ok_Routes Cons.prems(1) R(2) by blast
  moreover have "distinct (map state_key es)"
    "\<forall>e \<in> set es. source_addr e \<in> set ids \<and> dest_addr e \<in> set ids" using Cons.prems by auto
  ultimately have "\<exists>R'. fold_res (RR_add_edge me) es (rr\<lparr>Routes := R\<rparr>) = Inr (rr\<lparr>Routes := R'\<rparr>) \<and>
    length R' = length R \<and> (\<forall>i < ?n. \<forall>j < ?n. R' ! (i * ?n + j) =
      (case find (\<lambda>e. state_key e = (ids ! i, ids ! j) \<and> state_value e \<noteq> - 1) es of
         Some e \<Rightarrow> edge_route me e | None \<Rightarrow> R ! (i * ?n + j)))"
    using Cons.IH [of "rr\<lparr>Routes := R\<rparr>"] by (simp cong: option.case_cong)
  then obtain R' where R':
    "fold_res (RR_add_edge me) es (rr\<lparr>Routes := R\<rparr>) = Inr (rr\<lparr>Routes := R'\<rparr>)" "length R' = length R"
    "\<forall>i < ?n. \<forall>j < ?n. R' ! (i * ?n + j) =
      (case find (\<lambda>e. state_key e = (ids ! i, ids ! j) \<and> state_value e \<noteq> - 1) es of
         Some e \<Rightarrow> edge_route me e | None \<Rightarrow> R ! (i * ?n + j))"
    by (elim exE conjE)
  have "find (\<lambda>e'. state_key e' = state_key e \<and> state_value e' \<noteq> - 1) es = None"
    using Cons.prems(2) by (auto simp: find_None_iff) (metis image_eqI)
  with R R' show ?case by (intro exI [of _ R']) (auto split: option.splits)
qed

lemma RR_init_routes_nth:
  assumes "i < n" "j < n"
  shows "RR_init_routes n ! (i * n + j) = (if i \<noteq> j then no_route else self_route)"
    and "length (RR_init_routes n) = n * n"
proof -
  let ?row = "\<lambda>i. map (\<lambda>j. if i \<noteq> j then no_route else self_route) [0..<n]"
  have len: "length (concat (map ?row [0..<m])) = m * n" for m by (induction m) auto
  have "concat (map ?row [0..<m]) ! (i * n + j) = ?row i ! j" if "i < m" for m
    using that
  proof (induction m)
    case (Suc m)
    show ?case
    proof (cases "i = m")
      case True
      then show ?thesis using len [of m] by (simp add: nth_append)
    next
      case False
      then have "i < m" using Suc.prems by simp
      then have "Suc i * n \<le> m * n" by (intro mult_le_mono1) simp
      with \<open>i < m\<close> \<open>j < n\<close> Suc.IH len [of m] show ?thesis by (simp add: nth_append)
    qed
  qed simp
  then show "RR_init_routes n ! (i * n + j) = (if i \<noteq> j then no_route else self_route)"
    using assms by (simp add: RR_init_routes_def)
  show "length (RR_init_routes n) = n * n" using len [of n] by (simp add: RR_init_routes_def)
qed

lemma find_edge_state:
  assumes "table_ok h"
  shows "find (\<lambda>e. state_key e = (s, t) \<and> state_value e \<noteq> - 1) (all_states h) =
    (case Find_State h s t of None \<Rightarrow> None | Some e \<Rightarrow> if state_value e = - 1 then None else Some e)"
proof (cases "find (\<lambda>e. state_key e = (s, t) \<and> state_value e \<noteq> - 1) (all_states h)")
  case None
  have "state_value e = - 1" if "Find_State h s t = Some e" for e
  proof -
    have "state_key e = (s, t)" using Find_State_key [OF assms that] .
    moreover from this have "e \<in> set (all_states h)"
      using in_all_states [OF assms] that by (simp add: state_key_def)
    ultimately show ?thesis using None by (auto simp: find_None_iff)
  qed
  with None show ?thesis by (auto split: option.splits)
next
  case (Some e)
  then have "e \<in> set (all_states h)" "state_key e = (s, t)" "state_value e \<noteq> - 1"
    by (auto simp: find_Some_iff)
  with in_all_states [OF assms, of e] Some show ?thesis by (simp add: state_key_def)
qed

lemma concat_fold_res:
  "fold_res (\<lambda>c. fold_res f (g c)) cs s = fold_res f (concat (map g cs)) s"
proof (induction cs arbitrary: s)
  case (Cons c cs)
  then have "fold_res (\<lambda>c. fold_res f (g c)) cs = fold_res f (concat (map g cs))" by blast
  then show ?case by (simp add: fold_res_append)
qed simp

section \<open>The computed table\<close>

definition topology_graph :: "daemon \<Rightarrow> nat graph" where
  "topology_graph d = index_graph (All_Nodes_by_ID d) (edge_cost (All_Edges d))"

lemma RR_edges_represent:
  assumes "topology_ok d" and m: "m < length (All_Nodes_by_ID d)" "All_Nodes_by_ID d ! m = My_Address d"
    and "regime_ok (All_Nodes_by_ID d) rr" "Routes rr = RR_init_routes (length (All_Nodes_by_ID d))"
  shows "\<exists>R. fold_res (RR_add_edge (My_Address d)) (all_states (All_Edges d)) rr = Inr (rr\<lparr>Routes := R\<rparr>)
    \<and> represents (All_Nodes_by_ID d) m (topology_graph d) 0 R"
proof -
  let ?ids = "All_Nodes_by_ID d" and ?h = "All_Edges d" and ?me = "My_Address d"
  let ?n = "length ?ids"
  from assms(1) have ok: "table_ok ?h" "distinct ?ids"
    "\<forall>e \<in> set (all_states ?h). source_addr e \<in> set ?ids \<and> dest_addr e \<in> set ?ids"
    "\<forall>x. edge_cost ?h x x = None" by (auto simp: topology_ok_def)
  from RR_add_edges_nth [OF assms(4) distinct_all_states [OF ok(1)] ok(3), of ?me]
  obtain R where R: "fold_res (RR_add_edge ?me) (all_states ?h) rr = Inr (rr\<lparr>Routes := R\<rparr>)"
    "length R = length (Routes rr)"
    "\<forall>i < ?n. \<forall>j < ?n. R ! (i * ?n + j) =
      (case find (\<lambda>e. state_key e = (?ids ! i, ?ids ! j) \<and> state_value e \<noteq> - 1) (all_states ?h) of
         Some e \<Rightarrow> edge_route ?me e | None \<Rightarrow> Routes rr ! (i * ?n + j))"
    by (elim exE conjE)
  have "R ! (i * ?n + j) = route_of ?ids m (topology_graph d) i j (spath (topology_graph d) 0 i j)"
    if ij: "i < ?n" "j < ?n" for i j
  proof (cases "i = j")
    case True
    have "edge_cost ?h (?ids ! j) (?ids ! j) = None" using ok(4) by blast
    then have "find (\<lambda>e. state_key e = (?ids ! i, ?ids ! j) \<and> state_value e \<noteq> - 1) (all_states ?h) = None"
      using True find_edge_state [OF ok(1), of "?ids ! j" "?ids ! j"]
      by (auto simp: edge_cost_def split: option.splits if_splits)
    then show ?thesis using R(3) ij True assms(5) RR_init_routes_nth(1) [of i ?n j]
      by (simp add: route_of_def direct_def)
  next
    case False
    have g: "topology_graph d i j = edge_cost ?h (?ids ! i) (?ids ! j)"
      using ij False by (simp add: topology_graph_def index_graph_def)
    show ?thesis
    proof (cases "find (\<lambda>e. state_key e = (?ids ! i, ?ids ! j) \<and> state_value e \<noteq> - 1) (all_states ?h)")
      case None
      then have "topology_graph d i j = None"
        using find_edge_state [OF ok(1), of "?ids ! i" "?ids ! j"] g
        by (auto simp: edge_cost_def split: option.splits if_splits)
      then show ?thesis using R(3) ij False None assms(5) RR_init_routes_nth(1) [of i ?n j]
        by (simp add: route_of_def direct_def)
    next
      case (Some e)
      then have e: "state_key e = (?ids ! i, ?ids ! j)" by (auto simp: find_Some_iff)
      have w: "topology_graph d i j = Some \<bar>state_value e\<bar>"
        using find_edge_state [OF ok(1), of "?ids ! i" "?ids ! j"] g Some
        by (auto simp: edge_cost_def split: option.splits if_splits)
      have "?ids ! i = ?me \<longleftrightarrow> i = m" using m ij ok(2) by (metis nth_eq_iff_index_eq)
      then show ?thesis using R(3) ij False Some e w
        by (simp add: route_of_def direct_def edge_route_def state_key_def between_def int16_of_id)
    qed
  qed
  then have "represents ?ids m (topology_graph d) 0 R"
    using R(2) assms(4) by (simp add: represents_def regime_ok_def)
  with R(1) show ?thesis by blast
qed

lemma RR_Init_table:
  assumes "topology_ok d"
  shows "\<exists>rr m. RR_Init d = Inr rr \<and> regime_ok (All_Nodes_by_ID d) rr \<and> Groups rr = [] \<and>
    m < length (All_Nodes_by_ID d) \<and> All_Nodes_by_ID d ! m = My_Address d \<and>
    represents (All_Nodes_by_ID d) m (topology_graph d) (length (All_Nodes_by_ID d)) (Routes rr)"
proof -
  let ?ids = "All_Nodes_by_ID d"
  let ?rr = "\<lparr>Num_Nodes = length ?ids, Node_IDs = ?ids, Node_Indexes = RR_index_nodes ?ids,
    Routes = RR_init_routes (length ?ids), Groups = []\<rparr>"
  have ids: "distinct ?ids" "My_Address d \<in> set ?ids" "set ?ids = fst ` set (All_Nodes d)"
    "distinct (map fst (All_Nodes d))" using assms by (auto simp: topology_ok_def unique_keys_def)
  have len: "length (All_Nodes d) = length ?ids"
    using ids distinct_card by (metis length_map list.set_map)
  obtain m where m: "m < length ?ids" "?ids ! m = My_Address d"
    using ids(2) by (auto simp: in_set_conv_nth)
  have nodes: "All_Nodes d \<noteq> []" "stdhash_find (All_Nodes d) (My_Address d) \<noteq> None"
    using ids by (auto simp: stdhash_find_None)
  have "length (RR_init_routes (length ?ids)) = length ?ids * length ?ids"
    using RR_init_routes_nth(2) [OF m(1) m(1)] .
  then have rr: "regime_ok ?ids ?rr" using ids by (simp add: regime_ok_def)
  from RR_edges_represent [OF assms m rr] obtain R where
    R: "fold_res (RR_add_edge (My_Address d)) (all_states (All_Edges d)) ?rr = Inr (?rr\<lparr>Routes := R\<rparr>)"
       "represents ?ids m (topology_graph d) 0 R" by auto
  let ?T = "RR_compute ?ids R"
  have nn: "nonneg_graph (topology_graph d)"
    by (simp add: topology_graph_def nonneg_index_graph nonneg_edge_cost)
  have T: "represents ?ids m (topology_graph d) (length ?ids) ?T"
    by (rule RR_compute_represents [OF nn R(2)])
  have "RR_Init d = Inr (?rr\<lparr>Routes := ?T\<rparr>)"
    using nodes len R(1) by (simp add: RR_Init_def Let_def concat_fold_res all_states_def)
  moreover have "regime_ok ?ids (?rr\<lparr>Routes := ?T\<rparr>)"
    using rr T by (simp add: regime_ok_def represents_def)
  ultimately show ?thesis using m T by (intro exI [of _ "?rr\<lparr>Routes := ?T\<rparr>"] exI [of _ m]) simp
qed

section \<open>Routes are shortest paths of the overlay\<close>

definition shortest_path :: "'a graph \<Rightarrow> 'a \<Rightarrow> 'a \<Rightarrow> 'a list \<Rightarrow> bool" where
  "shortest_path w s t p \<longleftrightarrow> path_from_to w s t p \<and> distinct p \<and>
     (\<forall>q. path_from_to w s t q \<longrightarrow> walk_cost w p \<le> walk_cost w q)"

text \<open>The path that every daemon with this list of nodes and these edges chooses for a pair.\<close>

definition chosen_path :: "Node_ID list \<Rightarrow> Node_ID graph \<Rightarrow> Node_ID \<Rightarrow> Node_ID \<Rightarrow> Node_ID list option" where
  "chosen_path ids ec s t =
     (case (stdhash_find (RR_index_nodes ids) s, stdhash_find (RR_index_nodes ids) t) of
        (Some i, Some j) \<Rightarrow> map_option (map ((!) ids)) (spath (index_graph ids ec) (length ids) i j)
      | _ \<Rightarrow> None)"

lemma chosen_path_nth:
  "distinct ids \<Longrightarrow> i < length ids \<Longrightarrow> j < length ids \<Longrightarrow>
   chosen_path ids ec (ids ! i) (ids ! j) = map_option (map ((!) ids)) (spath (index_graph ids ec) (length ids) i j)"
  by (simp add: chosen_path_def RR_index_nodes_find)

text \<open>A graph whose edges connect listed nodes: a walk from a listed node stays in the list.\<close>

definition edges_within :: "Node_ID list \<Rightarrow> Node_ID graph \<Rightarrow> bool" where
  "edges_within ids ec \<longleftrightarrow> (\<forall>s t. ec s t \<noteq> None \<longrightarrow> s \<in> set ids \<and> t \<in> set ids) \<and> (\<forall>s. ec s s = None)"

lemma walk_within:
  "edges_within ids ec \<Longrightarrow> is_walk ec q \<Longrightarrow> hd q \<in> set ids \<Longrightarrow> set q \<subseteq> set ids"
  by (induction ec q rule: is_walk.induct) (auto simp: edges_within_def)

lemma walk_indexes:
  assumes "distinct ids" "edges_within ids ec" "i < length ids" "path_from_to ec (ids ! i) (ids ! j) q"
    and "j < length ids"
  shows "\<exists>p. path_from_to (index_graph ids ec) i j p \<and> set p \<subseteq> {..<length ids}
    \<and> walk_cost (index_graph ids ec) p = walk_cost ec q"
proof -
  have q: "is_walk ec q" "hd q = ids ! i" "last q = ids ! j"
    using assms(4) by (auto simp: path_from_to_def)
  then have "set q \<subseteq> set ids" using walk_within [OF assms(2)] assms(3) by simp
  then obtain p where p: "q = map ((!) ids) p" "set p \<subseteq> {..<length ids}"
    "is_walk (index_graph ids ec) p" "walk_cost (index_graph ids ec) p = walk_cost ec q"
    using walk_from_ids [OF assms(1) _ q(1)] assms(2) unfolding edges_within_def by metis
  have "p \<noteq> []" using p(3) by auto
  then have "hd p \<in> {..<length ids}" "last p \<in> {..<length ids}"
    using subsetD [OF p(2)] by simp_all
  moreover have "ids ! hd p = ids ! i" "ids ! last p = ids ! j"
    using \<open>p \<noteq> []\<close> p(1) q(2,3) by (auto simp: hd_map last_map)
  ultimately have "hd p = i" "last p = j" using assms(1,3,5) by (simp_all add: nth_eq_iff_index_eq)
  with p show ?thesis by (auto simp: path_from_to_def)
qed

lemma chosen_path_shortest:
  assumes "distinct ids" "nonneg_graph ec" "edges_within ids ec" "s \<in> set ids" "t \<in> set ids"
  shows "case chosen_path ids ec s t of
      Some p \<Rightarrow> shortest_path ec s t p \<and> set p \<subseteq> set ids
    | None \<Rightarrow> \<not> (\<exists>q. path_from_to ec s t q)"
proof -
  let ?g = "index_graph ids ec" and ?n = "length ids"
  obtain i j where ij: "i < ?n" "j < ?n" "s = ids ! i" "t = ids ! j"
    using assms(4,5) by (metis in_set_conv_nth)
  have ok: "chosen_ok ?g ?n i j" by (rule spath_chosen [OF nonneg_index_graph [OF assms(2)]])
  have best: "\<exists>p. spath ?g ?n i j = Some p \<and> walk_cost ?g p \<le> walk_cost ec q"
    if q: "path_from_to ec s t q" for q
  proof -
    obtain r where r: "path_from_to ?g i j r" "set r \<subseteq> {..<?n}" "walk_cost ?g r = walk_cost ec q"
      using walk_indexes [OF assms(1,3) ij(1) _ ij(2)] q ij(3,4) by blast
    with ok show ?thesis unfolding chosen_ok_def via_def by (metis Un_commute le_supI2)
  qed
  show ?thesis
  proof (cases "spath ?g ?n i j")
    case None
    then show ?thesis using best chosen_path_nth [OF assms(1) ij(1,2)] ij(3,4) by auto
  next
    case (Some p)
    note P = chosenD [OF ok Some]
    have sub: "set p \<subseteq> {..<?n}" using P(5) ij(1,2) by auto
    note W = walk_to_ids [OF P(1) sub]
    have "path_from_to ec s t (map ((!) ids) p)"
      using W(1) P(2,3,6) ij(3,4) by (simp add: path_from_to_def hd_map last_map)
    moreover have "distinct (map ((!) ids) p)"
      using P(4) sub inj_on_nth [OF assms(1), of "set p"] by (auto simp: distinct_map)
    moreover have "walk_cost ec (map ((!) ids) p) \<le> walk_cost ec q" if "path_from_to ec s t q" for q
      using best [OF that] Some W(2) by simp
    moreover have "set (map ((!) ids) p) \<subseteq> set ids" using sub by auto
    ultimately show ?thesis
      using Some chosen_path_nth [OF assms(1) ij(1,2)] ij(3,4) by (simp add: shortest_path_def)
  qed
qed

lemma topology_edges_within: "topology_ok d \<Longrightarrow> edges_within (All_Nodes_by_ID d) (edge_cost (All_Edges d))"
proof -
  assume ok: "topology_ok d"
  then have h: "table_ok (All_Edges d)" by (simp add: topology_ok_def)
  have "s \<in> set (All_Nodes_by_ID d) \<and> t \<in> set (All_Nodes_by_ID d)"
    if "edge_cost (All_Edges d) s t \<noteq> None" for s t
  proof -
    obtain e where e: "Find_State (All_Edges d) s t = Some e"
      using \<open>edge_cost (All_Edges d) s t \<noteq> None\<close> by (auto simp: edge_cost_def split: option.splits)
    have k: "source_addr e = s" "dest_addr e = t"
      using Find_State_key [OF h e] by (auto simp: state_key_def)
    then have "e \<in> set (all_states (All_Edges d))" using in_all_states [OF h] e by simp
    with ok k show ?thesis by (auto simp: topology_ok_def)
  qed
  with ok show ?thesis by (simp add: edges_within_def topology_ok_def)
qed

lemma RR_Init_routes:
  assumes "topology_ok d" and "s \<in> set (All_Nodes_by_ID d)" "t \<in> set (All_Nodes_by_ID d)"
  shows "\<exists>rr r. RR_Init d = Inr rr \<and> RR_Find_Route rr s t b = Inr (Some r) \<and>
    (case chosen_path (All_Nodes_by_ID d) (edge_cost (All_Edges d)) s t of
       None \<Rightarrow> r = no_route
     | Some p \<Rightarrow> cost r = walk_cost (edge_cost (All_Edges d)) p \<and>
         distance r = int16_of (int (length p) - 1) \<and> forwarder r = succ_on (My_Address d) p)"
proof -
  let ?ids = "All_Nodes_by_ID d" and ?ec = "edge_cost (All_Edges d)"
  let ?g = "topology_graph d" and ?n = "length ?ids"
  have nn: "nonneg_graph ?g"
    by (simp add: topology_graph_def nonneg_index_graph nonneg_edge_cost)
  obtain rr m where rr: "RR_Init d = Inr rr" "regime_ok ?ids rr" "m < ?n" "?ids ! m = My_Address d"
    "represents ?ids m ?g ?n (Routes rr)"
    using RR_Init_table [OF assms(1)] by blast
  obtain i j where ij: "i < ?n" "j < ?n" "s = ?ids ! i" "t = ?ids ! j"
    using assms(2,3) by (metis in_set_conv_nth)
  let ?r = "route_of ?ids m ?g i j (spath ?g ?n i j)"
  have r: "RR_Find_Route rr s t b = Inr (Some ?r)"
    using RR_Find_Route_nth [OF rr(2) ij(1,2)] rr(5) ij by (simp add: represents_def)
  have ids: "distinct ?ids" using rr(2) by (simp add: regime_ok_def)
  have "case chosen_path ?ids ?ec s t of
       None \<Rightarrow> ?r = no_route
     | Some p \<Rightarrow> cost ?r = walk_cost ?ec p \<and>
         distance ?r = int16_of (int (length p) - 1) \<and> forwarder ?r = succ_on (My_Address d) p"
  proof (cases "spath ?g ?n i j")
    case None
    then show ?thesis using chosen_path_nth [OF ids ij(1,2), of ?ec] ij(3,4)
      by (simp add: topology_graph_def route_of_def)
  next
    case (Some p)
    note P = chosenD [OF spath_chosen [OF nn] Some]
    have sub: "set p \<subseteq> {..<?n}" using P(5) ij(1,2) by auto
    have c: "chosen_path ?ids ?ec s t = Some (map ((!) ?ids) p)"
      using Some chosen_path_nth [OF ids ij(1,2), of ?ec] ij(3,4) by (simp add: topology_graph_def)
    have w: "walk_cost ?ec (map ((!) ?ids) p) = walk_cost ?g p"
      using walk_to_ids(2) [of ?ids ?ec p] P(1) sub by (simp add: topology_graph_def)
    have f: "succ_on (My_Address d) (map ((!) ?ids) p) = map_option ((!) ?ids) (succ_on m p)"
      using succ_on_map [OF ids rr(3) sub] rr(4) by simp
    show ?thesis
    proof (cases "i = j")
      case True
      then have "p = [i]" using Some spath_self [of ?g ?n i] by simp
      with True c w f Some show ?thesis by (simp add: route_of_def self_route_def int16_of_id)
    next
      case False
      with c w f Some show ?thesis by (simp add: route_of_def)
    qed
  qed
  with rr(1) r show ?thesis by blast
qed

end
