(* ===== verification/State_Flood.thy ===== *)
theory State_Flood
  imports State_Protocol
begin

text \<open>
  The flooding of replicated states between neighbors (\<open>daemon/state_flood.c\<close>): packing states
  into packets for one neighbor, sending the changed states to all neighbors, processing a received
  packet, and the periodic refresh of a daemon's own states. \<open>Reliable_Send_Msg\<close> hands a packet
  to the control link; the bytes of a packet body are \<open>1452\<close>, those of the reliable tail \<open>8\<close>.
\<close>

section \<open>The registered functions\<close>

fun State_type :: "Prot_Def \<Rightarrow> int32u" where
  "State_type Edge_Prot_Def = Edge_State_type"
| "State_type Groups_Prot_Def = Groups_State_type"

fun State_header_size :: "Prot_Def \<Rightarrow> int" where
  "State_header_size Edge_Prot_Def = Edge_State_header_size"
| "State_header_size Groups_Prot_Def = Groups_State_header_size"

fun Cell_packet_size :: "Prot_Def \<Rightarrow> int" where
  "Cell_packet_size Edge_Prot_Def = Edge_Cell_packet_size"
| "Cell_packet_size Groups_Prot_Def = Groups_Cell_packet_size"

fun Is_route_change :: "Prot_Def \<Rightarrow> bool" where
  "Is_route_change Edge_Prot_Def = Edge_Is_route_change"
| "Is_route_change Groups_Prot_Def = Groups_Is_route_change"

fun Is_state_relevant :: "Prot_Def \<Rightarrow> State_Data \<Rightarrow> bool" where
  "Is_state_relevant Edge_Prot_Def s = Edge_Is_state_relevant s"
| "Is_state_relevant Groups_Prot_Def s = Groups_Is_state_relevant s"

fun Process_state_header :: "Prot_Def \<Rightarrow> int32u \<Rightarrow> int32u \<Rightarrow> State_Packet \<Rightarrow> State_Packet" where
  "Process_state_header Edge_Prot_Def arch type pkt = Edge_Process_state_header arch type pkt"
| "Process_state_header Groups_Prot_Def arch type pkt = Groups_Process_state_header arch type pkt"

fun Process_state_cell :: "Prot_Def \<Rightarrow> process_cell" where
  "Process_state_cell Edge_Prot_Def = Edge_Process_state_cell"
| "Process_state_cell Groups_Prot_Def = Groups_Process_state_cell"

fun Set_state_cell :: "Prot_Def \<Rightarrow> State_Data \<Rightarrow> State_Cell \<Rightarrow> State_Cell" where
  "Set_state_cell Edge_Prot_Def s c = Edge_Set_state_cell s c"
| "Set_state_cell Groups_Prot_Def s c = c"

definition Get_Prot_Def :: "int32u \<Rightarrow> Prot_Def option" where
  "Get_Prot_Def t =
     (if Is_link_state t then Some Edge_Prot_Def
      else if Is_group_state t then Some Groups_Prot_Def else None)"

section \<open>Packing\<close>

definition Flip_state_header :: "State_Packet \<Rightarrow> State_Packet" where
  "Flip_state_header pkt = \<lparr>pkt_source = Flip_int32 (pkt_source pkt),
     num_cells = Flip_int16 (num_cells pkt), src_data = Flip_int16 (src_data pkt)\<rparr>"

definition Flip_state_cell :: "State_Cell \<Rightarrow> State_Cell" where
  "Flip_state_cell c = c\<lparr>dest := Flip_int32 (dest c), cell_sec := Flip_int32 (cell_sec c),
     cell_usec := Flip_int32 (cell_usec c), cell_value := Flip_int16 (cell_value c),
     cell_age := Flip_int16 (cell_age c)\<rparr>"

definition make_cell :: "Prot_Def \<Rightarrow> sp_time \<Rightarrow> State_Data \<Rightarrow> State_Cell" where
  "make_cell p_def now s = Set_state_cell p_def s
     \<lparr>dest = dest_addr s, cell_sec = word_of_int (timestamp_sec s),
      cell_usec = word_of_int (timestamp_usec s), cell_value = word_of_int (state_value s),
      cell_age = word_of_int (age s + c_div (sec now - my_timestamp_sec s) 10), cell_lts = 0\<rparr>"

text \<open>The packet being filled: the buffer, the position of the header that \<open>pkt\<close> points to, the
  bytes used, and the packets sent so far to this neighbor.\<close>

record Pack =
  buff :: "wire list"
  pkt :: nat
  pack_bytes :: int
  pkt_cnt :: nat

definition empty_pack :: Pack where
  "empty_pack = \<lparr>buff = [], pkt = 0, pack_bytes = 0, pkt_cnt = 0\<rparr>"

definition clear_pack :: "Pack \<Rightarrow> Pack" where
  "clear_pack P = P\<lparr>buff := [], pack_bytes := 0, pkt_cnt := pkt_cnt P + 1\<rparr>"

definition add_header :: "Node_ID \<Rightarrow> int16u \<Rightarrow> Pack \<Rightarrow> Pack" where
  "add_header source n P = P\<lparr>buff := buff P @ [Hdr \<lparr>pkt_source = source, num_cells = n, src_data = 0\<rparr>],
     pkt := length (buff P), pack_bytes := pack_bytes P + 8\<rparr>"

definition count_cell :: "Pack \<Rightarrow> Pack" where
  "count_cell P = P\<lparr>buff := (buff P)[pkt P :=
     (case buff P ! pkt P of Hdr h \<Rightarrow> Hdr (h\<lparr>num_cells := num_cells h + 1\<rparr>) | Cell c \<Rightarrow> Cell c)]\<rparr>"

definition add_cell :: "Prot_Def \<Rightarrow> sp_time \<Rightarrow> State_Data \<Rightarrow> Pack \<Rightarrow> Pack" where
  "add_cell p_def now s P = P\<lparr>buff := buff P @ [Cell (make_cell p_def now s)],
     pack_bytes := pack_bytes P + Cell_packet_size p_def\<rparr>"

text \<open>Too full for another header and cell, or (when the packet already has a header for the
  source) for another cell.\<close>

definition too_full :: "Prot_Def \<Rightarrow> bool \<Rightarrow> Pack \<Rightarrow> bool" where
  "too_full p_def opened P \<longleftrightarrow>
     1452 - 8 - (if opened then 0 else State_header_size p_def) - Cell_packet_size p_def < pack_bytes P"

definition send_pack :: "Prot_Def \<Rightarrow> int \<Rightarrow> Pack \<Rightarrow> daemon \<Rightarrow> daemon" where
  "send_pack p_def linkid P d = emit (Reliable_Send_Msg linkid (buff P) (pack_bytes P) (State_type p_def)) d"

text \<open>One state into the packet. \<open>opened\<close>: it is not the first one from its source.\<close>

definition pack_state :: "Prot_Def \<Rightarrow> sp_time \<Rightarrow> bool \<Rightarrow> bool \<Rightarrow> State_Data \<Rightarrow> Pack \<Rightarrow> Pack" where
  "pack_state p_def now opened fresh s P =
     add_cell p_def now s
       (if opened then count_cell (if fresh then add_header (source_addr s) 0 P else P)
        else add_header (source_addr s) 1 P)"

section \<open>Sending everything to a new neighbor\<close>

definition send_all_state :: "Prot_Def \<Rightarrow> int \<Rightarrow> bool \<Rightarrow> State_Data \<Rightarrow> Pack \<times> daemon \<Rightarrow> Pack \<times> daemon" where
  "send_all_state p_def linkid opened s Pd =
     (let (P, d) = Pd; fresh = too_full p_def opened P;
          (P1, d1) = (if fresh then (clear_pack P, send_pack p_def linkid P d) else (P, d))
      in (pack_state p_def (wall_clock d) opened fresh s P1, d1))"

definition send_all_chain :: "Prot_Def \<Rightarrow> int \<Rightarrow> State_Chain \<Rightarrow> Pack \<times> daemon \<Rightarrow> Pack \<times> daemon" where
  "send_all_chain p_def linkid s_chain Pd =
     (case stdhash_vals (states s_chain) of
        [] \<Rightarrow> Pd
      | s # rest \<Rightarrow> fold (send_all_state p_def linkid True) rest (send_all_state p_def linkid False s Pd))"

definition control_link_connected :: "daemon \<Rightarrow> int \<Rightarrow> bool" where
  "control_link_connected d linkid \<longleftrightarrow>
     (\<exists>l \<in> set (stdhash_vals (Network_Legs d)). control_link l = Some linkid \<and> leg_status l = CONNECTED_LEG)"

definition Net_Send_State_All :: "int \<Rightarrow> Prot_Def \<Rightarrow> daemon \<Rightarrow> daemon res" where
  "Net_Send_State_All linkid p_def d =
     (if \<not> control_link_connected d linkid then Inl (ASSERT ''Net_Send_State_All'')
      else let (P, d1) = fold (send_all_chain p_def linkid) (stdhash_vals (All_States p_def d)) (empty_pack, d)
           in Inr (if pack_bytes P \<noteq> 0 then send_pack p_def linkid P d1 else d1))"

section \<open>Sending changes to a neighbor\<close>

definition mark_informed :: "Prot_Def \<Rightarrow> nat \<Rightarrow> state_ptr \<Rightarrow> daemon \<Rightarrow> daemon" where
  "mark_informed p_def i ptr d =
     put_changed p_def (modify_changed (Changed_States p_def d) (fst ptr) (snd ptr)
       (\<lambda>cg. cg\<lparr>mask := set_informed i (mask cg)\<rparr>)) d"

text \<open>The changed states of one source, in the order of the keyed iteration. The result says
  whether the limit of five packets was hit.\<close>

fun send_source ::
  "Prot_Def \<Rightarrow> int \<Rightarrow> nat \<Rightarrow> bool \<Rightarrow> Changed_State list \<Rightarrow> Pack \<Rightarrow> daemon \<Rightarrow> (bool \<times> Pack \<times> daemon) res"
where
  "send_source p_def linkid i opened [] P d = Inr (False, P, d)"
| "send_source p_def linkid i opened (cg # cgs) P d =
     (if is_informed i (mask cg) then send_source p_def linkid i opened cgs P d
      else case Find_State (All_States p_def d) (fst (state cg)) (snd (state cg)) of
        None \<Rightarrow> Inl (UNDEF ''Net_Send_State_Updates'')
      | Some s \<Rightarrow>
          let fresh = too_full p_def opened P;
              d1 = (if fresh then send_pack p_def linkid P d else d);
              P1 = (if fresh then clear_pack P else P)
          in if fresh \<and> 5 < pkt_cnt P1 then Inr (True, P1, d1)
             else send_source p_def linkid i True cgs (pack_state p_def (wall_clock d) opened fresh s P1)
                    (mark_informed p_def i (state cg) d1))"

fun send_changes ::
  "Prot_Def \<Rightarrow> int \<Rightarrow> nat \<Rightarrow> changed_table \<Rightarrow> Spines_ID list \<Rightarrow> Spines_ID list \<Rightarrow> Pack \<Rightarrow> daemon
   \<Rightarrow> (bool \<times> Pack \<times> daemon) res"
where
  "send_changes p_def linkid i changes done_srcs [] P d = Inr (False, P, d)"
| "send_changes p_def linkid i changes done_srcs (src # srcs) P d =
     (if src \<in> set done_srcs then send_changes p_def linkid i changes done_srcs srcs P d
      else bind_res (send_source p_def linkid i False (map snd (filter (\<lambda>(k, cg). k = src) changes)) P d)
             (\<lambda>(stop, P1, d1).
               if stop then Inr (True, P1, d1)
               else send_changes p_def linkid i changes (src # done_srcs) srcs P1 d1))"

definition neighbor_link :: "daemon \<Rightarrow> nat \<Rightarrow> int res" where
  "neighbor_link d i =
     (case Neighbor_Nodes d ! i of
        None \<Rightarrow> Inl (ASSERT ''Net_Send_State_Updates'')
      | Some nbr \<Rightarrow> (case Get_Node d nbr of
          None \<Rightarrow> Inl (UNDEF ''Net_Send_State_Updates'')
        | Some nd \<Rightarrow> bind_res (Is_Connected_Neighbor2 d nd) (\<lambda>c.
            case edge nd of
              None \<Rightarrow> Inl (ASSERT ''Net_Send_State_Updates'')
            | Some ptr \<Rightarrow> (case Find_State (All_Edges d) (fst ptr) (snd ptr) of
                None \<Rightarrow> Inl (UNDEF ''Net_Send_State_Updates'')
              | Some e \<Rightarrow> (case leg_of e of
                  None \<Rightarrow> Inl (ASSERT ''Net_Send_State_Updates'')
                | Some l \<Rightarrow> (case stdhash_find (Network_Legs d) l of
                    None \<Rightarrow> Inl (UNDEF ''Net_Send_State_Updates'')
                  | Some nl \<Rightarrow>
                      if \<not> c \<or> leg_status nl \<noteq> CONNECTED_LEG then Inl (ASSERT ''Net_Send_State_Updates'')
                      else (case control_link nl of
                              None \<Rightarrow> Inl (UNDEF ''Net_Send_State_Updates'')
                            | Some k \<Rightarrow> Inr k)))))))"

text \<open>\<open>1\<close>: everything sent, \<open>-1\<close>: the packet limit was hit.\<close>

definition Net_Send_State_Updates :: "Prot_Def \<Rightarrow> nat \<Rightarrow> daemon \<Rightarrow> (int \<times> daemon) res" where
  "Net_Send_State_Updates p_def i d =
     bind_res (neighbor_link d i) (\<lambda>linkid.
     bind_res (send_changes p_def linkid i (Changed_States p_def d) []
                 (stdhash_keys (Changed_States p_def d)) empty_pack d) (\<lambda>(stop, P, d1).
       if stop then Inr (- 1, d1)
       else Inr (1, if pack_bytes P \<noteq> 0 then send_pack p_def linkid P d1 else d1)))"

definition send_updates_to :: "Prot_Def \<Rightarrow> nat \<Rightarrow> bool \<times> daemon \<Rightarrow> (bool \<times> daemon) res" where
  "send_updates_to p_def i fd =
     (let (flag, d) = fd in
      case Neighbor_Nodes d ! i of
        None \<Rightarrow> Inr (flag, d)
      | Some nbr \<Rightarrow> (case Get_Node d nbr of
          None \<Rightarrow> Inl (UNDEF ''Send_State_Updates'')
        | Some nd \<Rightarrow> bind_res (Is_Connected_Neighbor2 d nd) (\<lambda>c.
            if \<not> c then Inr (flag, d)
            else bind_res (Net_Send_State_Updates p_def i d) (\<lambda>(ret, d1).
              Inr (flag \<or> ret < 0, d1)))))"

definition Send_State_Updates :: "Prot_Def \<Rightarrow> daemon \<Rightarrow> daemon res" where
  "Send_State_Updates p_def d =
     bind_res (fold_res (send_updates_to p_def) [0..<Num_Neighbors d] (False, d)) (\<lambda>(flag, d1).
       Inr (if flag then queue_event Send_State_Updates_ev 0 (Some p_def) zero_timeout d1
            else put_changed p_def (Empty_Changed_States (Changed_States p_def d1)) d1))"

section \<open>Receiving a packet\<close>

text \<open>One cell: a newer one is handed to the protocol and, unless it is about a state of this
  node, flooded on; one that is already known marks its sender as informed.\<close>

definition process_one ::
  "process_cell \<Rightarrow> Prot_Def \<Rightarrow> Node_ID \<Rightarrow> int32u \<Rightarrow> Node_ID \<Rightarrow> State_Cell \<Rightarrow> daemon \<times> bool \<Rightarrow> (daemon \<times> bool) res"
where
  "process_one process p_def sender type source cell db =
     (let (d, changed) = db;
          c = (if Same_endian (ARCH_ENDIAN d) type then cell else Flip_state_cell cell);
          s_data = Find_State (All_States p_def d) source (dest c)
      in if s_data = None \<or> ts_less (ts (the s_data)) (cell_ts c)
         then bind_res (process source sender c type d) (\<lambda>(r, d1).
                case r of
                  None \<Rightarrow> Inr (d1, changed)
                | Some ptr \<Rightarrow> bind_res (Add_to_changed_states p_def sender ptr d1) (\<lambda>d2. Inr (d2, True)))
         else if ts (the s_data) = cell_ts c \<and> Find_Changed_State (Changed_States p_def d) source (dest c) \<noteq> None
         then (case Get_Node d sender of
                 None \<Rightarrow> Inl (UNDEF ''Process_state_packet'')
               | Some nd \<Rightarrow>
                   if neighbor_id nd < 0 then Inl (UNDEF ''Process_state_packet'')
                   else Inr (mark_informed p_def (nat (neighbor_id nd)) (source, dest c) d, changed))
         else Inr (d, changed))"

fun process_cells ::
  "process_cell \<Rightarrow> Prot_Def \<Rightarrow> Node_ID \<Rightarrow> int32u \<Rightarrow> Node_ID \<Rightarrow> nat \<Rightarrow> wire list \<Rightarrow> daemon \<times> bool \<Rightarrow> (daemon \<times> bool) res"
where
  "process_cells process p_def sender type source 0 items db = Inr db"
| "process_cells process p_def sender type source (Suc n) (Cell c # items) db =
     bind_res (process_one process p_def sender type source c db)
       (process_cells process p_def sender type source n items)"
| "process_cells process p_def sender type source (Suc n) items db = Inl (UNDEF ''Process_state_packet'')"

fun process_items ::
  "process_cell \<Rightarrow> Prot_Def \<Rightarrow> Node_ID \<Rightarrow> int32u \<Rightarrow> wire list \<Rightarrow> daemon \<times> bool \<Rightarrow> (daemon \<times> bool) res"
where
  "process_items process p_def sender type [] db = Inr db"
| "process_items process p_def sender type (Hdr h # items) db =
     (let h' = Process_state_header p_def (ARCH_ENDIAN (fst db)) type h; n = unat (num_cells h')
      in bind_res (process_cells process p_def sender type (pkt_source h') n items db)
           (process_items process p_def sender type (drop n items)))"
| "process_items process p_def sender type (Cell c # items) db = Inl (UNDEF ''Process_state_packet'')"

text \<open>The control link a packet came in on; \<open>process_ack\<close> is the result of \<open>Process_Ack\<close> for the
  packet's tail.\<close>

record Control_Link =
  link_id :: int
  lk_sender :: Node_ID
  connected :: bool
  scheduled_ack :: bool

definition short_timeout :: sp_time where "short_timeout = \<lparr>sec = 0, usec = 5000\<rparr>"

definition process_payload :: "Node_ID \<Rightarrow> wire list \<Rightarrow> int32u \<Rightarrow> daemon \<Rightarrow> daemon res" where
  "process_payload sender items type d =
     (case Get_Prot_Def (if Same_endian (ARCH_ENDIAN d) type then type else Flip_int32 type) of
        None \<Rightarrow> if items = [] then Inr d else Inl (UNDEF ''Process_state_packet'')
      | Some p_def \<Rightarrow>
          bind_res (process_items (Process_state_cell p_def) p_def sender type items (d, False))
            (\<lambda>(d1, changed). Inr (if changed \<and> Is_route_change p_def then Schedule_Routes d1 else d1)))"

definition Process_state_packet ::
  "Control_Link \<Rightarrow> wire list \<Rightarrow> int32u \<Rightarrow> int \<Rightarrow> daemon \<Rightarrow> (Control_Link \<times> daemon) res" where
  "Process_state_packet lk items type process_ack d =
     (if \<not> connected lk then Inr (lk, queue_event Send_Hello_Request_ev (link_id lk) None zero_timeout d)
      else if process_ack = - 1 then Inr (lk, d)
      else let queued = E_in_queue Send_Ack_ev (link_id lk) None (Time_queue d);
               lk1 = (if queued then lk else lk\<lparr>scheduled_ack := True\<rparr>);
               d1 = (if queued then d else queue_event Send_Ack_ev (link_id lk) None short_timeout d)
           in if process_ack = 0 then Inr (lk1, d1)
              else bind_res (process_payload (lk_sender lk) items type d1) (\<lambda>d2. Inr (lk1, d2)))"

section \<open>Refreshing own states\<close>

definition state_resend_time :: sp_time where "state_resend_time = \<lparr>sec = 30000, usec = 0\<rparr>"
definition resend_call_timeout :: sp_time where "resend_call_timeout = \<lparr>sec = 3000, usec = 0\<rparr>"
definition resend_fast_timeout :: sp_time where "resend_fast_timeout = \<lparr>sec = 1, usec = 0\<rparr>"

fun resend_loop :: "Prot_Def \<Rightarrow> state_ptr list \<Rightarrow> nat \<Rightarrow> daemon \<Rightarrow> daemon res" where
  "resend_loop p_def [] cnt d = Inr (queue_event Resend_States_ev 0 (Some p_def) resend_call_timeout d)"
| "resend_loop p_def (ptr # ptrs) cnt d =
     (case Find_State (All_States p_def d) (fst ptr) (snd ptr) of
        None \<Rightarrow> Inl (UNDEF ''Resend_States'')
      | Some s \<Rightarrow>
          let diff = E_sub_time (wall_clock d) \<lparr>sec = my_timestamp_sec s, usec = my_timestamp_usec s\<rparr>
          in if sec diff < 0 \<or> usec diff < 0 then Inl (ASSERT ''Resend_States'')
             else if 0 \<le> E_compare_time diff state_resend_time \<and> Is_state_relevant p_def s
             then bind_res (Add_to_changed_states p_def (My_Address d) ptr (modify_state p_def ptr bump_timestamp d))
                    (\<lambda>d1. if 500 < cnt + 1
                          then Inr (queue_event Resend_States_ev 0 (Some p_def) resend_fast_timeout d1)
                          else resend_loop p_def ptrs (cnt + 1) d1)
             else resend_loop p_def ptrs cnt d)"

definition Resend_States :: "Prot_Def \<Rightarrow> daemon \<Rightarrow> daemon res" where
  "Resend_States p_def d =
     resend_loop p_def
       (case stdhash_find (All_States p_def d) (My_Address d) of
          None \<Rightarrow> [] | Some s_chain \<Rightarrow> map (\<lambda>t. (My_Address d, t)) (stdhash_keys (states s_chain)))
       0 d"

end
