(* ===== verification/Forwarding.thy ===== *)
theory Forwarding
  imports Route_Correct State_Flood
begin

text \<open>
  The rest of \<open>daemon/route.c\<close>: computing a new routing regime, the traceroute, and the delivery
  and forwarding of data packets. The link layer (\<open>Forward_UDP_Data\<close> and its siblings), the
  delivery to sessions and the two intrusion-tolerant floods are calls that leave the model; their
  results are the members of \<open>lower\<close>.
\<close>

unbundle bit_operations_syntax

section \<open>A new routing regime\<close>

definition Set_Routes :: "daemon \<Rightarrow> daemon res" where
  "Set_Routes d =
     (let d1 = d\<lparr>Schedule_Set_Route := False, Time_queue := snd (E_dequeue Set_Routes_ev 0 None (Time_queue d))\<rparr>
      in bind_res (Send_State_Updates Edge_Prot_Def d1) (\<lambda>d2.
         bind_res (RR_Init d2) (\<lambda>rr.
           let d3 = d2\<lparr>Current_Routing := Some rr\<rparr>
           in Inr (if KR_Flags d3 \<noteq> 0 then emit KR_Update_All_Routes d3 else d3))))"

text \<open>The state of source-based routing: what was seen from each source, and the configured
  neighbors of this node with their bits in the routing mask.\<close>

record seq_pair =
  seq :: int32u
  incarnation :: int32u

record Source_Routing =
  Node_Lookup_Addr_to_ID :: "(Node_ID, nat) stdhash"
  Source_Seq_Hist :: "nat \<Rightarrow> nat \<Rightarrow> seq_pair"
  My_Neighbor_Addrs :: "Node_ID list"  \<comment> \<open>\<open>Neighbor_Addrs[My_ID][1 .. Degree[My_ID]]\<close>\<close>
  MP_Neighbor_Mask :: "64 word list list"
  My_ID :: "8 word"
  Path_Stamp_Debug :: bool
  My_Source_Seq :: int32u
  My_Source_Incarnation :: int32u

definition Init_Routes :: "Source_Routing \<Rightarrow> daemon \<Rightarrow> (Source_Routing \<times> daemon) res" where
  "Init_Routes sr d =
     (if Current_Routing d \<noteq> None then Inl (ASSERT ''Init_Routes'')
      else bind_res (Set_Routes d) (\<lambda>d1.
        Inr (sr\<lparr>My_Source_Seq := 0, My_Source_Incarnation := word_of_int (sec (wall_clock d1))\<rparr>, d1)))"

section \<open>Traceroute\<close>

text \<open>\<open>None\<close>: the recursion was not finished within the fuel. A write behind the end of the arrays
  is undefined.\<close>

record spines_trace =
  trace_count :: int
  tr_address :: "Node_ID list"
  tr_distance :: "int list"
  tr_cost :: "int list"

definition write_hop :: "nat \<Rightarrow> Route \<Rightarrow> spines_trace \<Rightarrow> spines_trace res" where
  "write_hop i route tr =
     (if 64 \<le> i then Inl (UNDEF ''Trace_Route_Rcrsv'')
      else Inr (tr\<lparr>tr_address := (tr_address tr)[i := predecessor route],
        tr_cost := (tr_cost tr)[i := cost route], tr_distance := (tr_distance tr)[i := distance route]\<rparr>))"

fun Trace_Route_Rcrsv ::
  "daemon \<Rightarrow> nat \<Rightarrow> Node_ID \<Rightarrow> Node_ID \<Rightarrow> spines_trace \<Rightarrow> nat \<Rightarrow> (nat \<times> spines_trace) res option" where
  "Trace_Route_Rcrsv d 0 src_id dst_id tr i = None"
| "Trace_Route_Rcrsv d (Suc fuel) src_id dst_id tr i =
     (if src_id = dst_id \<or> i = 64 then Some (Inr (i, tr))
      else case Find_Route d src_id dst_id of
        Inl e \<Rightarrow> Some (Inl e)
      | Inr None \<Rightarrow> Some (Inl (EXIT ''Trace_Route_Rcrsv: Routing BUG''))
      | Inr (Some route) \<Rightarrow>
          if predecessor route = 0 then Some (Inl (EXIT ''Trace_Route_Rcrsv: Routing BUG''))
          else case Trace_Route_Rcrsv d fuel src_id (predecessor route) tr i of
            None \<Rightarrow> None
          | Some (Inl e) \<Rightarrow> Some (Inl e)
          | Some (Inr (j, tr1)) \<Rightarrow>
              (case write_hop j route tr1 of
                 Inl e \<Rightarrow> Some (Inl e)
               | Inr tr2 \<Rightarrow> Trace_Route_Rcrsv d fuel (predecessor route) dst_id tr2 (j + 1)))"

text \<open>The test for a missing route is the wrong way round: the null pointer is followed when there is
  none, and nothing is traced when there is one.\<close>

definition Trace_Route :: "Node_ID \<Rightarrow> Node_ID \<Rightarrow> spines_trace \<Rightarrow> daemon \<Rightarrow> spines_trace res" where
  "Trace_Route src_id dst_id tr d =
     bind_res (Find_Route d src_id dst_id) (\<lambda>route.
       case route of
         None \<Rightarrow> Inl (UNDEF ''Trace_Route'')
       | Some r \<Rightarrow> Inr (tr\<lparr>trace_count := 0\<rparr>))"

section \<open>Forwarding\<close>

record packet =
  hdr :: udp_header
  s_hdr :: sb_header
  routing_mask :: "64 word list"
  stamped_path :: "8 word list"

record lower =
  forward_ret :: "Link_Type \<Rightarrow> Node_ID \<Rightarrow> int"
  deliver_ret :: int
  flood :: "packet \<Rightarrow> Link_Type \<Rightarrow> Source_Routing \<times> daemon \<Rightarrow> int \<times> packet \<times> Source_Routing \<times> daemon"

definition NO_ROUTE :: int where "NO_ROUTE = 1"
definition BUFF_OK :: int where "BUFF_OK = 3"
definition SOURCE_HIST_SIZE :: nat where "SOURCE_HIST_SIZE = 100000"

definition Forward_Data :: "lower \<Rightarrow> Node_ID \<Rightarrow> udp_header \<Rightarrow> Link_Type \<Rightarrow> daemon \<Rightarrow> (int \<times> daemon) res" where
  "Forward_Data low next_hop h mode d =
     (if next_hop = My_Address d then Inl (EXIT ''Forward_Data: forward to myself'')
      else if mode \<in> {UDP_LINK, RELIABLE_UDP_LINK, REALTIME_UDP_LINK, INTRUSION_TOL_LINK}
      then Inr (forward_ret low mode next_hop, emit (Forward_On mode next_hop h) d)
      else Inl (EXIT ''Forward_Data: link type''))"

definition Request_Resources :: "(Link_Type \<Rightarrow> int \<Rightarrow> Node_ID \<Rightarrow> int) \<Rightarrow> int \<Rightarrow> Node_ID \<Rightarrow> Link_Type \<Rightarrow> int res" where
  "Request_Resources request dissemination next_hop mode =
     (if mode \<in> {UDP_LINK, RELIABLE_UDP_LINK, REALTIME_UDP_LINK, INTRUSION_TOL_LINK}
      then Inr (request mode dissemination next_hop)
      else Inl (EXIT ''Request_Resources: link type''))"

definition MultiPath_Neighbor_On_Path :: "Source_Routing \<Rightarrow> 64 word list \<Rightarrow> nat \<Rightarrow> bool" where
  "MultiPath_Neighbor_On_Path sr m ngbr_iter \<longleftrightarrow>
     fold (\<lambda>(a, b) temp. temp OR (a AND b)) (zip m (MP_Neighbor_Mask sr ! ngbr_iter)) 0 \<noteq> 0"

text \<open>The first zero byte of the path gets the identifier of this node.\<close>

fun stamp_path :: "8 word \<Rightarrow> 8 word list \<Rightarrow> 8 word list" where
  "stamp_path my_id [] = []"
| "stamp_path my_id (b # bs) = (if b = 0 then my_id # bs else b # stamp_path my_id bs)"

text \<open>One neighbor of the loop; \<open>i\<close> counts from \<open>1\<close>.\<close>

definition sb_neighbor ::
  "lower \<Rightarrow> Source_Routing \<Rightarrow> Node_ID \<Rightarrow> packet \<Rightarrow> Link_Type \<Rightarrow> nat \<Rightarrow> daemon \<Rightarrow> daemon res" where
  "sb_neighbor low sr last_hop_ip pk mode i d =
     (let nbr = My_Neighbor_Addrs sr ! (i - 1) in
      if nbr = last_hop_ip \<or> nbr = udp_source (hdr pk) \<or> My_Address d = udp_dest (hdr pk)
         \<or> \<not> MultiPath_Neighbor_On_Path sr (routing_mask pk) i
      then Inr d
      else if Get_Node d nbr = None then Inr d
      else bind_res (Forward_Data low nbr (hdr pk) mode d) (\<lambda>(ret, d'). Inr d'))"

definition Source_Based_Disseminate ::
  "lower \<Rightarrow> Node_ID option \<Rightarrow> packet \<Rightarrow> Link_Type \<Rightarrow> Source_Routing \<times> daemon
   \<Rightarrow> (int \<times> packet \<times> Source_Routing \<times> daemon) res" where
  "Source_Based_Disseminate low src_link pk mode sd =
     (let (sr, d) = sd in
      case stdhash_find (Node_Lookup_Addr_to_ID sr) (udp_source (hdr pk)) of
        None \<Rightarrow> Inr (NO_ROUTE, pk, sr, d)
      | Some src_id \<Rightarrow>
          let sn = source_seq (s_hdr pk); inc = source_incarnation (s_hdr pk);
              seq_index = unat sn mod SOURCE_HIST_SIZE;
              prev_seq = Source_Seq_Hist sr src_id seq_index
          in if seq prev_seq = sn \<and> incarnation prev_seq = inc then Inr (NO_ROUTE, pk, sr, d)
             else if inc < incarnation prev_seq \<or> sn < seq prev_seq \<and> incarnation prev_seq = inc
             then Inr (NO_ROUTE, pk, sr, d)
             else let sr1 = sr\<lparr>Source_Seq_Hist := (Source_Seq_Hist sr)(src_id :=
                        (Source_Seq_Hist sr src_id)(seq_index := \<lparr>seq = sn, incarnation = inc\<rparr>))\<rparr>;
                      last_hop_ip = (case src_link of None \<Rightarrow> My_Address d | Some r \<Rightarrow> r);
                      pk1 = (if Path_Stamp_Debug sr
                             then pk\<lparr>stamped_path := stamp_path (My_ID sr) (stamped_path pk)\<rparr> else pk)
                  in bind_res (fold_res (sb_neighbor low sr1 last_hop_ip pk1 mode)
                                 [1..<Suc (length (My_Neighbor_Addrs sr))] d)
                       (\<lambda>d'. Inr (BUFF_OK, pk1, sr1, d')))"

definition MIN_WEIGHT_ROUTING :: "8 word" where "MIN_WEIGHT_ROUTING = 0"
definition IT_PRIORITY_ROUTING :: "8 word" where "IT_PRIORITY_ROUTING = 1"
definition IT_RELIABLE_ROUTING :: "8 word" where "IT_RELIABLE_ROUTING = 2"
definition SOURCE_BASED_ROUTING :: "8 word" where "SOURCE_BASED_ROUTING = 3"

definition forward_unicast :: "lower \<Rightarrow> Link_Type \<Rightarrow> Routing_Regime \<Rightarrow> packet \<Rightarrow> int \<times> daemon \<Rightarrow> (int \<times> daemon) res" where
  "forward_unicast low mode rr pk rd =
     (let (ret, d) = rd; h = hdr pk in
      if udp_dest h = My_Address d \<or> ttl h = 0 then Inr (ret, d)
      else bind_res (RR_Get_Next_Hop rr (udp_source h) (udp_dest h)) (\<lambda>hop.
        case hop of
          None \<Rightarrow> Inr (ret, d)
        | Some next_hop \<Rightarrow>
            if next_hop = My_Address d then Inl (ASSERT ''Deliver_and_Forward_Data'')
            else Forward_Data low next_hop h mode d))"

definition forward_member :: "lower \<Rightarrow> Link_Type \<Rightarrow> packet \<Rightarrow> Node_ID \<Rightarrow> int \<times> daemon \<Rightarrow> (int \<times> daemon) res" where
  "forward_member low mode pk next_hop rd =
     (let (ret, d) = rd in
      if next_hop = My_Address d then Inl (ASSERT ''Deliver_and_Forward_Data'')
      else case Get_Node d next_hop of
        None \<Rightarrow> Inl (UNDEF ''Deliver_and_Forward_Data'')
      | Some nd \<Rightarrow> bind_res (Is_Connected_Neighbor2 d nd) (\<lambda>c.
          if c then Forward_Data low next_hop (hdr pk) mode d else Inr (ret, d)))"

definition forward_multicast :: "lower \<Rightarrow> Link_Type \<Rightarrow> packet \<Rightarrow> int \<times> daemon \<Rightarrow> (int \<times> daemon) res" where
  "forward_multicast low mode pk rd =
     (let (ret, d) = rd; h = hdr pk in
      if ttl h = 0 then Inr (ret, d)
      else bind_res (Get_Mcast_Neighbors d (udp_source h) (udp_dest h)) (\<lambda>(neighbors, d1).
        case neighbors of
          None \<Rightarrow> Inr (ret, d1)
        | Some ns \<Rightarrow> fold_res (forward_member low mode pk) (stdhash_vals ns) (ret, d1)))"

text \<open>Delivery to the local sessions, after the address of a site multicast has been converted.\<close>

definition site_multicast :: "daemon \<Rightarrow> udp_header \<Rightarrow> udp_header" where
  "site_multicast d h =
     (if udp_dest h = My_Address d \<and> (routing h = IT_RELIABLE_ROUTING \<or> routing h = IT_PRIORITY_ROUTING)
         \<and> 0xFF00 \<le> dest_port h
      then h\<lparr>udp_dest := 0xFEFF0000 OR (ucast (dest_port h) AND 0x00FF)\<rparr> else h)"

definition deliver_local :: "lower \<Rightarrow> packet \<Rightarrow> int \<times> daemon \<Rightarrow> int \<times> packet \<times> daemon" where
  "deliver_local low pk rd =
     (let (ret, d) = rd; h = site_multicast d (hdr pk);
          here = (if Is_node_addr (udp_dest h) then udp_dest h = My_Address d
                  else (case Find_State (All_Groups_by_Node d) (My_Address d) (udp_dest h) of
                          None \<Rightarrow> False | Some gstate \<Rightarrow> is_active gstate))
      in if here then (deliver_ret low, pk\<lparr>hdr := h\<rparr>, emit (Deliver_UDP_Data h (push_bit 8 (ucast (routing h)))) d)
         else (ret, pk\<lparr>hdr := h\<rparr>, d))"

definition Deliver_and_Forward_Data ::
  "lower \<Rightarrow> packet \<Rightarrow> Link_Type \<Rightarrow> Node_ID option \<Rightarrow> Source_Routing \<times> daemon
   \<Rightarrow> (int \<times> packet \<times> Source_Routing \<times> daemon) res" where
  "Deliver_and_Forward_Data low pk mode src_lnk sd =
     (let (sr, d) = sd in
      if ttl (hdr pk) = 0 then Inr (NO_ROUTE, pk, sr, d)
      else let pk1 = pk\<lparr>hdr := (hdr pk)\<lparr>ttl := ttl (hdr pk) - 1\<rparr>\<rparr>; r = routing (hdr pk);
               finish = (\<lambda>(ret, pk2, sr2, d2). let (ret', pk3, d3) = deliver_local low pk2 (ret, d2) in Inr (ret', pk3, sr2, d3))
        in if r = MIN_WEIGHT_ROUTING
           then (case Current_Routing d of
                   None \<Rightarrow> Inl (ASSERT ''Deliver_and_Forward_Data'')
                 | Some rr \<Rightarrow>
                     bind_res (if Is_node_addr (udp_dest (hdr pk)) then forward_unicast low mode rr pk1 (NO_ROUTE, d)
                               else forward_multicast low mode pk1 (NO_ROUTE, d))
                       (\<lambda>(ret, d1). finish (ret, pk1, sr, d1)))
           else if r = SOURCE_BASED_ROUTING
           then bind_res (Source_Based_Disseminate low src_lnk pk1 mode (sr, d)) (\<lambda>(ret, pk2, sr2, d2).
                  if ret = NO_ROUTE then Inr (ret, pk2, sr2, d2) else finish (ret, pk2, sr2, d2))
           else if r = IT_PRIORITY_ROUTING \<or> r = IT_RELIABLE_ROUTING
           then (let (ret, pk2, sr2, d2) = flood low pk1 mode (sr, d) in
                 if ret = NO_ROUTE then Inr (ret, pk2, sr2, d2) else finish (ret, pk2, sr2, d2))
           else Inr (NO_ROUTE, pk1, sr, d))"

definition Fill_Packet_Header :: "int \<Rightarrow> (int16u \<Rightarrow> int) \<Rightarrow> 8 word \<Rightarrow> int16u \<Rightarrow> int" where
  "Fill_Packet_Header best_effort_flood reliable_flood r num_paths =
     (if r = IT_PRIORITY_ROUTING then best_effort_flood
      else if r = IT_RELIABLE_ROUTING then reliable_flood num_paths else 0)"

end
