(* ===== verification/Forward_Correct.thy ===== *)
theory Forward_Correct
  imports Forwarding
begin

text \<open>
  Unicast packets in a network of daemons that agree on the topology travel hop by hop along one
  path, which is a shortest one, and are delivered at its end if their time to live allows; in any
  network whatsoever a packet visits at most as many daemons as its time to live says.
\<close>

section \<open>A packet on its way\<close>

definition forwards :: "call list \<Rightarrow> (Node_ID \<times> udp_header) list" where
  "forwards cs = concat (map (\<lambda>c. case c of Forward_On mode n h \<Rightarrow> [(n, h)] | _ \<Rightarrow> []) cs)"

definition delivered :: "call list \<Rightarrow> bool" where
  "delivered cs \<longleftrightarrow> (\<exists>h r. Deliver_UDP_Data h r \<in> set cs)"

type_synonym network = "Node_ID \<Rightarrow> Source_Routing \<times> daemon"

text \<open>The calls that a daemon makes for one packet.\<close>

definition handles :: "lower \<Rightarrow> network \<Rightarrow> Link_Type \<Rightarrow> packet \<Rightarrow> Node_ID \<Rightarrow> call list" where
  "handles low net mode pk v =
     (case Deliver_and_Forward_Data low pk mode None (net v) of
        Inl e \<Rightarrow> []
      | Inr (ret, pk', sr', d') \<Rightarrow> drop (length (calls (snd (net v)))) (calls d'))"

text \<open>The daemons that a unicast packet visits from \<open>v\<close> on, and whether the last one delivers it.\<close>

fun travel :: "lower \<Rightarrow> network \<Rightarrow> Link_Type \<Rightarrow> nat \<Rightarrow> packet \<Rightarrow> Node_ID \<Rightarrow> Node_ID list \<times> bool" where
  "travel low net mode 0 pk v = ([], False)"
| "travel low net mode (Suc fuel) pk v =
     (let cs = handles low net mode pk v in
      case forwards cs of
        [] \<Rightarrow> ([v], delivered cs)
      | (n, h) # _ \<Rightarrow> let (vs, b) = travel low net mode fuel (pk\<lparr>hdr := h\<rparr>) n in (v # vs, b))"

definition is_unicast :: "packet \<Rightarrow> bool" where
  "is_unicast pk \<longleftrightarrow> routing (hdr pk) = MIN_WEIGHT_ROUTING \<and> Is_node_addr (udp_dest (hdr pk))"

definition data_link :: "Link_Type \<Rightarrow> bool" where
  "data_link mode \<longleftrightarrow> mode \<in> {UDP_LINK, RELIABLE_UDP_LINK, REALTIME_UDP_LINK, INTRUSION_TOL_LINK}"

definition aged :: "udp_header \<Rightarrow> udp_header" where
  "aged h = h\<lparr>ttl := ttl h - 1\<rparr>"

lemma aged_simps [simp]:
  "udp_source (aged h) = udp_source h" "udp_dest (aged h) = udp_dest h" "routing (aged h) = routing h"
  "ttl (aged h) = 0 \<longleftrightarrow> ttl h = 1"
  by (simp_all add: aged_def)

lemma site_multicast_id: "routing h = MIN_WEIGHT_ROUTING \<Longrightarrow> site_multicast d h = h"
  by (simp add: site_multicast_def MIN_WEIGHT_ROUTING_def IT_RELIABLE_ROUTING_def IT_PRIORITY_ROUTING_def)

text \<open>What one daemon does with a unicast packet.\<close>

definition unicast_calls :: "Node_ID \<Rightarrow> Link_Type \<Rightarrow> udp_header \<Rightarrow> Node_ID option \<Rightarrow> call list" where
  "unicast_calls me mode h hop =
    (if udp_dest h = me then [Deliver_UDP_Data (aged h) 0]
     else if ttl h = 1 then [] else
       case hop of None \<Rightarrow> [] | Some n \<Rightarrow> [Forward_On mode n (aged h)])"

lemma forward_unicast_calls:
  assumes "RR_Get_Next_Hop rr (udp_source (hdr pk)) (udp_dest (hdr pk)) = Inr hop" "hop \<noteq> Some (My_Address d)" "data_link mode"
  shows "\<exists>ret'. forward_unicast low mode rr pk (ret, d) = Inr (ret',
    if udp_dest (hdr pk) = My_Address d \<or> ttl (hdr pk) = 0 then d
    else case hop of None \<Rightarrow> d | Some n \<Rightarrow> emit (Forward_On mode n (hdr pk)) d)"
  using assms by (auto simp: forward_unicast_def Forward_Data_def data_link_def split: option.splits)

lemma deliver_local_unicast:
  assumes "routing (hdr pk) = MIN_WEIGHT_ROUTING" "Is_node_addr (udp_dest (hdr pk))"
  shows "\<exists>ret'. deliver_local low pk (ret, d) = (ret', pk,
    if udp_dest (hdr pk) = My_Address d then emit (Deliver_UDP_Data (hdr pk) 0) d else d)"
  using assms by (auto simp: deliver_local_def Let_def site_multicast_id MIN_WEIGHT_ROUTING_def)

lemma Deliver_and_Forward_unicast:
  assumes "is_unicast pk" "ttl (hdr pk) \<noteq> 0" "Current_Routing d = Some rr"
    and "RR_Get_Next_Hop rr (udp_source (hdr pk)) (udp_dest (hdr pk)) = Inr hop"
    and "hop \<noteq> Some (My_Address d)" "data_link mode"
  shows "\<exists>ret pk'. Deliver_and_Forward_Data low pk mode src (sr, d) =
    Inr (ret, pk', sr, d\<lparr>calls := calls d @ unicast_calls (My_Address d) mode (hdr pk) hop\<rparr>)"
proof -
  define pk1 where "pk1 = pk\<lparr>hdr := (hdr pk)\<lparr>ttl := ttl (hdr pk) - 1\<rparr>\<rparr>"
  have h: "hdr pk1 = aged (hdr pk)" "udp_source (hdr pk1) = udp_source (hdr pk)" "udp_dest (hdr pk1) = udp_dest (hdr pk)"
    "routing (hdr pk1) = routing (hdr pk)" "ttl (hdr pk1) = 0 \<longleftrightarrow> ttl (hdr pk) = 1"
    by (simp_all add: pk1_def aged_def)
  have r: "routing (hdr pk) = MIN_WEIGHT_ROUTING" "Is_node_addr (udp_dest (hdr pk))"
    using assms(1) by (simp_all add: is_unicast_def)
  obtain ret1 d1 where F: "forward_unicast low mode rr pk1 (NO_ROUTE, d) = Inr (ret1, d1)"
    "d1 = (if udp_dest (hdr pk) = My_Address d \<or> ttl (hdr pk) = 1 then d
       else case hop of None \<Rightarrow> d | Some n \<Rightarrow> emit (Forward_On mode n (aged (hdr pk))) d)"
    using forward_unicast_calls [of rr pk1 hop d mode low NO_ROUTE] assms(4-6) unfolding h(1) by auto
  have "My_Address d1 = My_Address d" by (auto simp: F(2) split: option.splits)
  then obtain ret2 where D: "deliver_local low pk1 (ret1, d1) = (ret2, pk1,
      if udp_dest (hdr pk) = My_Address d then emit (Deliver_UDP_Data (aged (hdr pk)) 0) d1 else d1)"
    using deliver_local_unicast [of pk1 low ret1 d1] r h by auto
  have "Deliver_and_Forward_Data low pk mode src (sr, d) =
      Inr (ret2, pk1, sr, if udp_dest (hdr pk) = My_Address d then emit (Deliver_UDP_Data (aged (hdr pk)) 0) d1 else d1)"
    using assms(2,3) r F(1) D by (simp add: Deliver_and_Forward_Data_def Let_def pk1_def [symmetric])
  moreover have "(if udp_dest (hdr pk) = My_Address d then emit (Deliver_UDP_Data (aged (hdr pk)) 0) d1 else d1) =
      d\<lparr>calls := calls d @ unicast_calls (My_Address d) mode (hdr pk) hop\<rparr>"
    by (auto simp: F(2) unicast_calls_def emit_def split: option.splits)
  ultimately show ?thesis by auto
qed

lemma handles_unicast:
  assumes "is_unicast pk" "ttl (hdr pk) \<noteq> 0" "net v = (sr, d)" "Current_Routing d = Some rr"
    and "RR_Get_Next_Hop rr (udp_source (hdr pk)) (udp_dest (hdr pk)) = Inr hop"
    and "hop \<noteq> Some (My_Address d)" "data_link mode"
  shows "handles low net mode pk v = unicast_calls (My_Address d) mode (hdr pk) hop"
  using Deliver_and_Forward_unicast [OF assms(1,2,4-7), of low None sr] assms(3) by (auto simp: handles_def)

section \<open>A network that agrees\<close>

text \<open>Every daemon has computed its routes from the same nodes and edge costs.\<close>

definition converged :: "network \<Rightarrow> Node_ID list \<Rightarrow> Node_ID graph \<Rightarrow> bool" where
  "converged net ids ec \<longleftrightarrow> (\<forall>v \<in> set ids. My_Address (snd (net v)) = v \<and>
     (\<exists>d rr. topology_ok d \<and> All_Nodes_by_ID d = ids \<and> edge_cost (All_Edges d) = ec \<and> My_Address d = v \<and>
        RR_Init d = Inr rr \<and> Current_Routing (snd (net v)) = Some rr))"

lemma converged_next_hop:
  assumes "converged net ids ec" "v \<in> set ids" "s \<in> set ids" "t \<in> set ids" "chosen_path ids ec s t = Some p"
  shows "\<exists>rr. Current_Routing (snd (net v)) = Some rr \<and> RR_Get_Next_Hop rr s t = Inr (succ_on v p)"
proof -
  obtain d rr where d: "topology_ok d" "All_Nodes_by_ID d = ids" "edge_cost (All_Edges d) = ec" "My_Address d = v"
    "RR_Init d = Inr rr" "Current_Routing (snd (net v)) = Some rr"
    using assms(1,2) unfolding converged_def by blast
  obtain r where "RR_Find_Route rr s t False = Inr (Some r)" "forwarder r = succ_on v p"
    using RR_Init_routes [OF d(1), of s t False] assms(3-5) d by auto
  with d(6) show ?thesis by (auto simp: RR_Get_Next_Hop_def)
qed

lemma converged_path:
  assumes "converged net ids ec" "s \<in> set ids" "t \<in> set ids"
  shows "case chosen_path ids ec s t of
      Some p \<Rightarrow> shortest_path ec s t p \<and> set p \<subseteq> set ids
    | None \<Rightarrow> \<not> (\<exists>q. path_from_to ec s t q)"
proof -
  obtain d where d: "topology_ok d" "All_Nodes_by_ID d = ids" "edge_cost (All_Edges d) = ec"
    using assms(1,2) unfolding converged_def by blast
  show ?thesis
    using chosen_path_shortest [OF _ nonneg_edge_cost topology_edges_within [OF d(1)], of s t] assms(2,3) d(1)
    unfolding d(2,3) topology_ok_def by blast
qed

lemma nth_distinct_ne: "distinct p \<Longrightarrow> i < length p \<Longrightarrow> j < length p \<Longrightarrow> i \<noteq> j \<Longrightarrow> p ! i \<noteq> p ! j"
  by (simp add: nth_eq_iff_index_eq)

text \<open>From the \<open>i\<close>-th node of the path on, with \<open>ttl\<close> hops left.\<close>

lemma travel_path:
  assumes net: "converged net ids ec" "s \<in> set ids" "t \<in> set ids" "chosen_path ids ec s t = Some p"
    and pk: "is_unicast pk" "udp_source (hdr pk) = s" "udp_dest (hdr pk) = t" "data_link mode"
    and i: "i < length p" "unat (ttl (hdr pk)) \<le> fuel" "ttl (hdr pk) \<noteq> 0"
  shows "travel low net mode fuel pk (p ! i) =
    (take (unat (ttl (hdr pk))) (drop i p), length p - i \<le> unat (ttl (hdr pk)))"
  using pk i
proof (induction fuel arbitrary: pk i)
  case 0
  then show ?case by (simp add: unat_eq_0)
next
  case (Suc fuel)
  note prems = Suc.prems
  have P: "shortest_path ec s t p" "set p \<subseteq> set ids" using converged_path [OF net(1-3)] net(4) by auto
  then have p: "distinct p" "p \<noteq> []" "last p = t" by (auto simp: shortest_path_def path_from_to_def)
  obtain sr d where d: "net (p ! i) = (sr, d)" by (cases "net (p ! i)")
  have vi: "p ! i \<in> set ids" using P(2) prems(5) by auto
  have me: "My_Address d = p ! i" using net(1) vi d unfolding converged_def by force
  obtain rr where rr: "Current_Routing d = Some rr" "RR_Get_Next_Hop rr s t = Inr (succ_on (p ! i) p)"
    using converged_next_hop [OF net(1) vi net(2-4)] d by auto
  have hop: "succ_on (p ! i) p = (if Suc i < length p then Some (p ! Suc i) else None)"
  proof (cases "Suc i < length p")
    case True
    then show ?thesis using succ_on_distinct [OF p(1)] by simp
  next
    case False
    then have "p ! i = last p" using prems(5) p(2) by (metis Suc_lessI last_conv_nth diff_Suc_1)
    then show ?thesis using succ_on_last [OF p(1,2)] False by simp
  qed
  have ne: "succ_on (p ! i) p \<noteq> Some (My_Address d)"
    using hop nth_distinct_ne [OF p(1), of "Suc i" i] prems(5) me by auto
  have H: "handles low net mode pk (p ! i) = unicast_calls (p ! i) mode (hdr pk) (succ_on (p ! i) p)"
    using handles_unicast [of pk net "p ! i" sr d rr "succ_on (p ! i) p" mode low] prems(1-4,7) d rr ne me by simp
  have pos: "0 < unat (ttl (hdr pk))" using prems(7) by (simp add: unat_gt_0)
  show ?case
  proof (cases "Suc i < length p")
    case False
    then have "Suc i = length p" using prems(5) by simp
    moreover then have "p ! i = t" using p(2,3) by (metis diff_Suc_1 last_conv_nth)
    moreover have "drop i p = [p ! i]" using calculation(1) by (metis Cons_nth_drop_Suc drop_all order_refl lessI)
    ultimately show ?thesis using H pos prems(3)
      by (auto simp: unicast_calls_def forwards_def delivered_def take_Cons' Suc_le_eq)
  next
    case True
    then have nt: "p ! i \<noteq> t"
      using p nth_distinct_ne [OF p(1), of i "length p - 1"] by (simp add: last_conv_nth)
    have dr: "drop i p = p ! i # drop (Suc i) p" using prems(5) by (simp add: Cons_nth_drop_Suc)
    show ?thesis
    proof (cases "ttl (hdr pk) = 1")
      case one: True
      then show ?thesis using H nt prems(3) dr True
        by (simp add: unicast_calls_def forwards_def delivered_def)
    next
      case more: False
      let ?pk = "pk\<lparr>hdr := aged (hdr pk)\<rparr>"
      have t: "unat (ttl (hdr ?pk)) = unat (ttl (hdr pk)) - 1"
        using prems(7) by (simp add: aged_def unat_minus_one)
      have "ttl (hdr ?pk) \<noteq> 0" using more by (simp add: aged_def)
      moreover have "is_unicast ?pk" "udp_source (hdr ?pk) = s" "udp_dest (hdr ?pk) = t"
        using prems(1-3) by (simp_all add: is_unicast_def aged_def)
      ultimately have IH: "travel low net mode fuel ?pk (p ! Suc i) =
          (take (unat (ttl (hdr pk)) - 1) (drop (Suc i) p), length p - Suc i \<le> unat (ttl (hdr pk)) - 1)"
        using Suc.IH [of ?pk "Suc i"] prems(4,6) True t by simp
      have "handles low net mode pk (p ! i) = [Forward_On mode (p ! Suc i) (aged (hdr pk))]"
        using H nt prems(3) more hop True by (simp add: unicast_calls_def)
      then show ?thesis using IH dr pos True
        by (auto simp: forwards_def take_Cons')
    qed
  qed
qed

section \<open>Any network\<close>

lemma forwards_append [simp]: "forwards (xs @ ys) = forwards xs @ forwards ys" "forwards [] = []"
  by (simp_all add: forwards_def)

lemma forward_unicast_only:
  assumes "forward_unicast low mode rr pk (ret, d) = Inr (ret', d')"
  shows "d' = d \<or> (\<exists>n. ttl (hdr pk) \<noteq> 0 \<and> d' = emit (Forward_On mode n (hdr pk)) d)"
  using assms
  by (auto simp: forward_unicast_def Forward_Data_def Let_def bind_res_Inr_iff split: if_splits option.splits)

lemma unicast_forwards_aged:
  assumes "is_unicast pk" "(n, h) \<in> set (forwards (handles low net mode pk v))"
  shows "h = aged (hdr pk)" "ttl (hdr pk) \<noteq> 0" "ttl (hdr pk) \<noteq> 1"
proof -
  obtain sr d where net: "net v = (sr, d)" by (cases "net v")
  have r: "routing (hdr pk) = MIN_WEIGHT_ROUTING" "Is_node_addr (udp_dest (hdr pk))"
    using assms(1) by (simp_all add: is_unicast_def)
  define pk1 where "pk1 = pk\<lparr>hdr := (hdr pk)\<lparr>ttl := ttl (hdr pk) - 1\<rparr>\<rparr>"
  have h1: "hdr pk1 = aged (hdr pk)" by (simp add: pk1_def aged_def)
  obtain ret pk' sr' d' where D: "Deliver_and_Forward_Data low pk mode None (sr, d) = Inr (ret, pk', sr', d')"
    and f: "(n, h) \<in> set (forwards (drop (length (calls d)) (calls d')))"
    using assms(2) net by (auto simp: handles_def split: sum.splits)
  show t0: "ttl (hdr pk) \<noteq> 0"
    using D f by (auto simp: Deliver_and_Forward_Data_def)
  obtain rr ret1 d1 where F: "forward_unicast low mode rr pk1 (NO_ROUTE, d) = Inr (ret1, d1)"
    and L: "d' = snd (snd (deliver_local low pk1 (ret1, d1)))"
  proof -
    from D r t0 obtain rr where rr: "Current_Routing d = Some rr"
      by (cases "Current_Routing d") (simp_all add: Deliver_and_Forward_Data_def Let_def)
    with D r t0 obtain ret1 d1 where "forward_unicast low mode rr pk1 (NO_ROUTE, d) = Inr (ret1, d1)"
      "(let (ret', pk3, d3) = deliver_local low pk1 (ret1, d1) in Inr (ret', pk3, sr, d3)) = (Inr (ret, pk', sr', d') :: _ res)"
      by (auto simp: Deliver_and_Forward_Data_def Let_def pk1_def [symmetric] bind_res_Inr_iff)
    then show thesis using that by (cases "deliver_local low pk1 (ret1, d1)") auto
  qed
  have d': "d' = d1 \<or> (\<exists>x y. d' = emit (Deliver_UDP_Data x y) d1)"
    by (auto simp: L deliver_local_def Let_def)
  have new: "forwards (drop (length (calls d)) (calls d1)) = [] \<or>
      ttl (hdr pk1) \<noteq> 0 \<and> (\<exists>n. forwards (drop (length (calls d)) (calls d1)) = [(n, hdr pk1)])"
    using forward_unicast_only [OF F] by (auto simp: forwards_def)
  have "length (calls d) \<le> length (calls d1)" using forward_unicast_only [OF F] by auto
  then have "forwards (drop (length (calls d)) (calls d')) = forwards (drop (length (calls d)) (calls d1))"
    using d' by (auto simp: forwards_def)
  with new f show "h = aged (hdr pk)" "ttl (hdr pk) \<noteq> 1" by (auto simp: h1)
qed

lemma travel_bounded:
  assumes "is_unicast pk"
  shows "length (fst (travel low net mode fuel pk v)) \<le> max 1 (unat (ttl (hdr pk)))"
  using assms
proof (induction fuel arbitrary: pk v)
  case (Suc fuel)
  show ?case
  proof (cases "forwards (handles low net mode pk v)")
    case Nil
    then show ?thesis by (simp add: Let_def)
  next
    case (Cons x xs)
    obtain n h where x: "x = (n, h)" by (cases x)
    have A: "h = aged (hdr pk)" "ttl (hdr pk) \<noteq> 0" "ttl (hdr pk) \<noteq> 1"
      using unicast_forwards_aged [OF Suc.prems, of n h low net mode v] Cons x by auto
    have t: "unat (ttl h) = unat (ttl (hdr pk)) - 1" using A by (simp add: aged_def unat_minus_one)
    have "unat (ttl (hdr pk)) \<noteq> 1" using A(3) by (simp add: word_unat_eq_iff)
    moreover have "0 < unat (ttl (hdr pk))" using A(2) by (simp add: unat_gt_0)
    moreover have "is_unicast (pk\<lparr>hdr := h\<rparr>)" using Suc.prems A(1) by (simp add: is_unicast_def)
    ultimately show ?thesis
      using Suc.IH [of "pk\<lparr>hdr := h\<rparr>" n] Cons x t
      by (cases "travel low net mode fuel (pk\<lparr>hdr := h\<rparr>) n") (simp add: Let_def)
  qed
qed simp

section \<open>Source-based dissemination\<close>

text \<open>A packet that was disseminated is not disseminated again.\<close>

lemma Source_Based_recorded:
  assumes "Source_Based_Disseminate low src pk mode (sr, d) = Inr (ret, pk', sr', d')" "ret \<noteq> NO_ROUTE"
  shows "\<exists>src_id. stdhash_find (Node_Lookup_Addr_to_ID sr') (udp_source (hdr pk)) = Some src_id \<and>
    Source_Seq_Hist sr' src_id (unat (source_seq (s_hdr pk)) mod SOURCE_HIST_SIZE) =
      \<lparr>seq = source_seq (s_hdr pk), incarnation = source_incarnation (s_hdr pk)\<rparr>"
proof (cases "stdhash_find (Node_Lookup_Addr_to_ID sr) (udp_source (hdr pk))")
  case None
  then show ?thesis using assms by (simp add: Source_Based_Disseminate_def)
next
  case (Some src_id)
  then have "Node_Lookup_Addr_to_ID sr' = Node_Lookup_Addr_to_ID sr \<and>
    Source_Seq_Hist sr' src_id (unat (source_seq (s_hdr pk)) mod SOURCE_HIST_SIZE) =
      \<lparr>seq = source_seq (s_hdr pk), incarnation = source_incarnation (s_hdr pk)\<rparr>"
    using assms unfolding Source_Based_Disseminate_def Let_def
    by (simp only: prod.case Some option.case split: if_splits) (auto simp: bind_res_Inr_iff)
  with Some show ?thesis by simp
qed

lemma Source_Based_once:
  assumes "Source_Based_Disseminate low src pk mode (sr, d) = Inr (ret, pk', sr', d')" "ret \<noteq> NO_ROUTE"
    and "s_hdr pk2 = s_hdr pk" "udp_source (hdr pk2) = udp_source (hdr pk)"
  shows "Source_Based_Disseminate low2 src2 pk2 mode2 (sr', d2) = Inr (NO_ROUTE, pk2, sr', d2)"
  using Source_Based_recorded [OF assms(1,2)] assms(3,4)
  by (auto simp: Source_Based_Disseminate_def Let_def)

lemma sb_neighbor_calls:
  assumes "sb_neighbor low sr last_hop pk mode i d = Inr d'"
  shows "same_nodes d d' \<and> (calls d' = calls d \<or> (\<exists>n. calls d' = calls d @ [Forward_On mode n (hdr pk)] \<and>
    n = My_Neighbor_Addrs sr ! (i - 1) \<and> n \<noteq> last_hop \<and> n \<noteq> udp_source (hdr pk) \<and> n \<noteq> My_Address d \<and>
    udp_dest (hdr pk) \<noteq> My_Address d \<and> MultiPath_Neighbor_On_Path sr (routing_mask pk) i))"
  using assms
  by (auto simp: sb_neighbor_def Let_def Forward_Data_def bind_res_Inr_iff split: if_splits)

lemma sb_neighbors_calls:
  assumes "fold_res (sb_neighbor low sr last_hop pk mode) is d = Inr d'"
  shows "\<exists>cs. same_nodes d d' \<and> calls d' = calls d @ cs \<and> (\<forall>(n, h) \<in> set (forwards cs). h = hdr pk \<and>
    n \<noteq> last_hop \<and> n \<noteq> udp_source (hdr pk) \<and> n \<noteq> My_Address d \<and> udp_dest (hdr pk) \<noteq> My_Address d \<and>
    (\<exists>i \<in> set is. n = My_Neighbor_Addrs sr ! (i - 1) \<and> MultiPath_Neighbor_On_Path sr (routing_mask pk) i))"
  using assms
proof (induction "is" arbitrary: d)
  case Nil
  then show ?case by auto
next
  case (Cons i "is")
  then obtain d1 where d1: "sb_neighbor low sr last_hop pk mode i d = Inr d1"
    "fold_res (sb_neighbor low sr last_hop pk mode) is d1 = Inr d'" by auto
  note A = sb_neighbor_calls [OF d1(1)]
  from Cons.IH [OF d1(2)] obtain cs where cs: "same_nodes d1 d'" "calls d' = calls d1 @ cs"
    "\<forall>(n, h) \<in> set (forwards cs). h = hdr pk \<and>
    n \<noteq> last_hop \<and> n \<noteq> udp_source (hdr pk) \<and> n \<noteq> My_Address d1 \<and> udp_dest (hdr pk) \<noteq> My_Address d1 \<and>
    (\<exists>i \<in> set is. n = My_Neighbor_Addrs sr ! (i - 1) \<and> MultiPath_Neighbor_On_Path sr (routing_mask pk) i)" by blast
  have my: "My_Address d1 = My_Address d" using A by (simp add: same_nodes_def)
  from A have s: "same_nodes d d'" using same_nodes_trans cs(1) by blast
  from A consider "calls d1 = calls d" | n where "calls d1 = calls d @ [Forward_On mode n (hdr pk)]"
    "n = My_Neighbor_Addrs sr ! (i - 1)" "n \<noteq> last_hop" "n \<noteq> udp_source (hdr pk)" "n \<noteq> My_Address d"
    "udp_dest (hdr pk) \<noteq> My_Address d" "MultiPath_Neighbor_On_Path sr (routing_mask pk) i" by blast
  then show ?case
  proof cases
    case 1
    then show ?thesis using cs s my by (intro exI [of _ cs]) auto
  next
    case 2
    then show ?thesis using cs s my by (intro exI [of _ "Forward_On mode n (hdr pk) # cs"]) (auto simp: forwards_def)
  qed
qed

text \<open>Whom a source-based packet is forwarded to.\<close>

lemma Source_Based_targets:
  assumes "Source_Based_Disseminate low src pk mode (sr, d) = Inr (ret, pk', sr', d')"
  shows "\<exists>cs. calls d' = calls d @ cs \<and> (\<forall>(n, h) \<in> set (forwards cs).
    n \<noteq> (case src of None \<Rightarrow> My_Address d | Some r \<Rightarrow> r) \<and> n \<noteq> udp_source (hdr pk) \<and> n \<noteq> My_Address d \<and>
    udp_dest (hdr pk) \<noteq> My_Address d \<and>
    (\<exists>i \<in> {1..length (My_Neighbor_Addrs sr)}. n = My_Neighbor_Addrs sr ! (i - 1) \<and>
       MultiPath_Neighbor_On_Path sr (routing_mask pk) i))"
proof (cases "ret = NO_ROUTE")
  case True
  then have "d' = d"
    using assms by (auto simp: Source_Based_Disseminate_def Let_def BUFF_OK_def NO_ROUTE_def bind_res_Inr_iff
        split: option.splits if_splits)
  then show ?thesis by auto
next
  case False
  define pk1 where "pk1 = (if Path_Stamp_Debug sr then pk\<lparr>stamped_path := stamp_path (My_ID sr) (stamped_path pk)\<rparr> else pk)"
  have same: "hdr pk1 = hdr pk" "routing_mask pk1 = routing_mask pk" by (simp_all add: pk1_def)
  obtain f where F: "fold_res (sb_neighbor low (sr\<lparr>Source_Seq_Hist := f\<rparr>) (case src of None \<Rightarrow> My_Address d | Some r \<Rightarrow> r) pk1 mode)
      [1..<Suc (length (My_Neighbor_Addrs sr))] d = Inr d'"
    using assms False by (auto simp: Source_Based_Disseminate_def Let_def bind_res_Inr_iff pk1_def
        split: option.splits if_splits)
  have mp: "MultiPath_Neighbor_On_Path (sr\<lparr>Source_Seq_Hist := f\<rparr>) = MultiPath_Neighbor_On_Path sr"
    by (simp add: MultiPath_Neighbor_On_Path_def fun_eq_iff)
  show ?thesis using sb_neighbors_calls [OF F] unfolding same mp by fastforce
qed

end
