(* ===== verification/Flood_Receive.thy ===== *)
theory Flood_Receive
  imports State_Flood
begin

text \<open>
  What receiving state packets does, for any protocol that keeps the contract of
  \<open>State_Protocol\<close>: no state is forgotten or set back, every cell of the packet is known
  afterwards, and what was news is buffered for the other neighbors.
\<close>

section \<open>Knowledge\<close>

definition knows :: "Prot_Def \<Rightarrow> daemon \<Rightarrow> Spines_ID \<Rightarrow> Spines_ID \<Rightarrow> int \<times> int \<Rightarrow> bool" where
  "knows p d s t stamp \<longleftrightarrow> (\<exists>x. Find_State (All_States p d) s t = Some x \<and> ts_le stamp (ts x))"

definition known_le :: "Prot_Def \<Rightarrow> daemon \<Rightarrow> daemon \<Rightarrow> bool" where
  "known_le p d d' \<longleftrightarrow> (\<forall>s t stamp. knows p d s t stamp \<longrightarrow> knows p d' s t stamp)"

text \<open>A change that no neighbor but \<open>k\<close> needs not be told.\<close>

definition pending :: "Prot_Def \<Rightarrow> int \<Rightarrow> daemon \<Rightarrow> Spines_ID \<Rightarrow> Spines_ID \<Rightarrow> bool" where
  "pending p k d s t \<longleftrightarrow> (\<exists>cg. Find_Changed_State (Changed_States p d) s t = Some cg \<and>
     (\<forall>i < MAX_NEIGHBORS. int i \<noteq> k \<longrightarrow> \<not> is_informed i (mask cg)))"

definition pending_le :: "Prot_Def \<Rightarrow> int \<Rightarrow> daemon \<Rightarrow> daemon \<Rightarrow> bool" where
  "pending_le p k d d' \<longleftrightarrow> (\<forall>s t. pending p k d s t \<longrightarrow> pending p k d' s t)"

lemma known_le_refl [simp]: "known_le p d d" and pending_le_refl [simp]: "pending_le p k d d"
  by (simp_all add: known_le_def pending_le_def)

lemma known_le_trans: "known_le p d d' \<Longrightarrow> known_le p d' d'' \<Longrightarrow> known_le p d d''"
  and pending_le_trans: "pending_le p k d d' \<Longrightarrow> pending_le p k d' d'' \<Longrightarrow> pending_le p k d d''"
  by (simp_all add: known_le_def pending_le_def)

lemma known_leI:
  assumes "\<And>s t x. Find_State (All_States p d) s t = Some x \<Longrightarrow>
    \<exists>y. Find_State (All_States p d') s t = Some y \<and> ts_le (ts x) (ts y)"
  shows "known_le p d d'"
  unfolding known_le_def knows_def using assms ts_le_trans by meson

lemma Add_to_changed_states_known:
  assumes "Add_to_changed_states p sender ptr d = Inr d'"
  shows "known_le p d d'"
  by (rule known_leI)
    (use Add_to_changed_states_Inr(4) [OF assms] in \<open>auto simp: Find_State_write_state ts_def\<close>)

lemma known_sender_Inr:
  "known_sender d sender = Inr nd \<Longrightarrow> Get_Node d sender = Some nd"
  by (auto simp: known_sender_def bind_res_Inr_iff split: option.splits if_splits)

text \<open>The entry that \<open>Add_to_changed_states\<close> leaves for a change from \<open>sender\<close>: only the sender,
  if it is a neighbor, is marked.\<close>

lemma Find_Changed_buffer_self:
  "\<exists>cg. Find_Changed_State (buffer_change me sender nd ptr h) (fst ptr) (snd ptr) = Some cg \<and>
     mask cg = (if sender \<noteq> me then set_informed (nat (neighbor_id nd)) zero_mask else zero_mask)"
  by (cases "Find_Changed_State h (fst ptr) (snd ptr)") (simp_all add: Find_Changed_State_buffer)

lemma Add_to_changed_states_pending:
  assumes "Add_to_changed_states p sender ptr d = Inr d'"
    and "Get_Node d sender = Some nd" "0 \<le> neighbor_id nd" "neighbor_id nd < int MAX_NEIGHBORS"
  shows "pending p (neighbor_id nd) d' (fst ptr) (snd ptr)" "pending_le p (neighbor_id nd) d d'"
proof -
  let ?k = "neighbor_id nd"
  have ch: "Changed_States p d' = buffer_change (My_Address d) sender nd ptr (Changed_States p d)"
    using Add_to_changed_states_Inr(5) [OF assms(1)] known_sender_Inr assms(2) by fastforce
  let ?m = "if sender \<noteq> My_Address d then set_informed (nat ?k) zero_mask else zero_mask"
  have m: "\<not> is_informed i ?m" if "i < MAX_NEIGHBORS" "int i \<noteq> ?k" for i
  proof -
    have "is_informed i (set_informed (nat ?k) zero_mask) \<longleftrightarrow> i = nat ?k \<or> is_informed i zero_mask"
      using assms(4) by (intro is_informed_set) (simp add: MAX_NEIGHBORS_def)
    then show ?thesis using that(2) not_informed_zero [OF that(1)] assms(3) by (simp add: nat_eq_iff2)
  qed
  obtain cg where cg: "Find_Changed_State (Changed_States p d') (fst ptr) (snd ptr) = Some cg" "mask cg = ?m"
    using Find_Changed_buffer_self [of "My_Address d" sender nd ptr "Changed_States p d"] ch by metis
  have "\<forall>i < MAX_NEIGHBORS. int i \<noteq> ?k \<longrightarrow> \<not> is_informed i (mask cg)" unfolding cg(2) using m by blast
  then show new: "pending p ?k d' (fst ptr) (snd ptr)" unfolding pending_def using cg(1) by blast
  show "pending_le p ?k d d'"
    unfolding pending_le_def
  proof (intro allI impI)
    fix s t assume old: "pending p ?k d s t"
    show "pending p ?k d' s t"
    proof (cases "(s, t) = ptr")
      case True
      then show ?thesis using new by (metis fst_conv snd_conv)
    next
      case False
      then show ?thesis using old unfolding pending_def ch Find_Changed_State_buffer by simp
    qed
  qed
qed

lemma mark_informed_facts:
  "All_States q (mark_informed p i ptr d) = All_States q d" "same_nodes d (mark_informed p i ptr d)"
  "q \<noteq> p \<Longrightarrow> Changed_States q (mark_informed p i ptr d) = Changed_States q d"
  "Changed_States p (mark_informed p i ptr d) = modify_changed (Changed_States p d) (fst ptr) (snd ptr)
     (\<lambda>cg. cg\<lparr>mask := set_informed i (mask cg)\<rparr>)"
  by (simp_all add: mark_informed_def)

lemma tables_ok_mark_informed:
  assumes "tables_ok d"
  shows "tables_ok (mark_informed p i ptr d)"
proof -
  let ?d = "mark_informed p i ptr d"
  have "changed_ok (All_States q ?d) (Changed_States q ?d)" for q
    using tables_okD(3) [OF assms, of q]
    by (cases "q = p") (auto simp: mark_informed_facts intro!: changed_ok_modify)
  moreover have "nodes_ok ?d" using tables_okD(1) [OF assms] nodes_ok_same_nodes mark_informed_facts(2) by blast
  moreover have "Get_Node ?d = Get_Node d"
    using mark_informed_facts(2) [of d p i ptr] by (simp add: same_nodes_def Get_Node_def fun_eq_iff)
  moreover have "All_Edges ?d = All_Edges d" using mark_informed_facts(1) [of Edge_Prot_Def] by simp
  ultimately show ?thesis
    using assms mark_informed_facts(1) [of _ p i ptr d] by (simp add: tables_ok_def)
qed

lemma mark_informed_pending:
  assumes "tables_ok d" and "k < MAX_NEIGHBORS"
  shows "pending_le p (int k) d (mark_informed p k ptr d)"
  unfolding pending_le_def
proof (intro allI impI)
  fix s t assume "pending p (int k) d s t"
  then obtain cg where cg: "Find_Changed_State (Changed_States p d) s t = Some cg"
    and mask: "\<forall>i < MAX_NEIGHBORS. int i \<noteq> int k \<longrightarrow> \<not> is_informed i (mask cg)"
    unfolding pending_def by blast
  have "(s, cg) \<in> set (Changed_States p d)"
    using cg by (auto simp: Find_Changed_State_def find_Some_iff in_set_conv_nth)
  then have len: "length (mask cg) = MAX_NEIGHBORS div 32"
    using tables_okD(3) [OF assms(1), of p] by (auto simp: changed_ok_def)
  have informed: "is_informed i (set_informed k (mask cg)) \<longleftrightarrow> i = k \<or> is_informed i (mask cg)" for i
    using assms(2) len by (intro is_informed_set) (simp add: MAX_NEIGHBORS_def)
  let ?f = "\<lambda>cg :: Changed_State. cg\<lparr>mask := set_informed k (mask cg)\<rparr>"
  have find: "Find_Changed_State (modify_changed (Changed_States p d) (fst ptr) (snd ptr) ?f) s t =
      (if s = fst ptr \<and> t = snd ptr then Some (?f cg) else Some cg)"
    using Find_Changed_State_modify [of ?f "Changed_States p d" "fst ptr" "snd ptr" s t] cg by auto
  show "pending p (int k) (mark_informed p k ptr d) s t"
    unfolding pending_def mark_informed_facts(4) find using mask informed by auto
qed

section \<open>The cells of a packet\<close>

definition host_cell :: "int32u \<Rightarrow> int32u \<Rightarrow> State_Cell \<Rightarrow> State_Cell" where
  "host_cell arch type c = (if Same_endian arch type then c else Flip_state_cell c)"

text \<open>The cells of a packet, with their source and in the byte order of the host, as a receiver
  parses them.\<close>

definition cells_of :: "wire list \<Rightarrow> State_Cell list" where
  "cells_of items = concat (map (\<lambda>w. case w of Cell c \<Rightarrow> [c] | Hdr h \<Rightarrow> []) items)"

fun packet_cells :: "Prot_Def \<Rightarrow> int32u \<Rightarrow> int32u \<Rightarrow> wire list \<Rightarrow> (Node_ID \<times> State_Cell) list" where
  "packet_cells p arch ty [] = []"
| "packet_cells p arch ty (Hdr h # items) =
     (let h' = Process_state_header p arch ty h; n = unat (num_cells h')
      in map (\<lambda>c. (pkt_source h', host_cell arch ty c)) (cells_of (take n items)) @
         packet_cells p arch ty (drop n items))"
| "packet_cells p arch ty (Cell c # items) = []"

section \<open>One cell\<close>

text \<open>The sender is a neighbor with a place in the masks.\<close>

definition neighbor :: "daemon \<Rightarrow> Node_ID \<Rightarrow> int \<Rightarrow> bool" where
  "neighbor d sender k \<longleftrightarrow> (\<exists>nd. Get_Node d sender = Some nd \<and> neighbor_id nd = k) \<and> 0 \<le> k \<and> k < int MAX_NEIGHBORS"

lemma neighbor_env_le: "env_le d d' \<Longrightarrow> neighbor d sender k \<Longrightarrow> neighbor d' sender k"
  unfolding neighbor_def env_le_def by metis

lemma process_one_cases:
  assumes "process_one process p sender ty source cell (d, b) = Inr (d', b')"
  obtains (stale) "d' = d" "b' = b" "knows p d source (dest (host_cell (ARCH_ENDIAN d) ty cell)) (cell_ts (host_cell (ARCH_ENDIAN d) ty cell))"
  | (marked) nd where "knows p d source (dest (host_cell (ARCH_ENDIAN d) ty cell)) (cell_ts (host_cell (ARCH_ENDIAN d) ty cell))"
      "Get_Node d sender = Some nd" "0 \<le> neighbor_id nd" "b' = b"
      "d' = mark_informed p (nat (neighbor_id nd)) (source, dest (host_cell (ARCH_ENDIAN d) ty cell)) d"
  | (own) "process source sender (host_cell (ARCH_ENDIAN d) ty cell) ty d = Inr (None, d')" "b' = b"
      "\<not> knows p d source (dest (host_cell (ARCH_ENDIAN d) ty cell)) (cell_ts (host_cell (ARCH_ENDIAN d) ty cell))"
  | (news) ptr d1 where "process source sender (host_cell (ARCH_ENDIAN d) ty cell) ty d = Inr (Some ptr, d1)" "b'"
      "Add_to_changed_states p sender ptr d1 = Inr d'"
      "\<not> knows p d source (dest (host_cell (ARCH_ENDIAN d) ty cell)) (cell_ts (host_cell (ARCH_ENDIAN d) ty cell))"
proof -
  let ?c = "host_cell (ARCH_ENDIAN d) ty cell"
  let ?s = "Find_State (All_States p d) source (dest ?c)"
  have knows: "\<not> (?s = None \<or> ts_less (ts (the ?s)) (cell_ts ?c)) \<longleftrightarrow> knows p d source (dest ?c) (cell_ts ?c)"
    unfolding knows_def by (cases ?s) (auto simp: ts_not_less)
  show thesis
  proof (cases "?s = None \<or> ts_less (ts (the ?s)) (cell_ts ?c)")
    case True
    then have nk: "\<not> knows p d source (dest ?c) (cell_ts ?c)" using knows by blast
    from assms True obtain r d1 where r: "process source sender ?c ty d = Inr (r, d1)"
      "(case r of None \<Rightarrow> Inr (d1, b)
        | Some ptr \<Rightarrow> bind_res (Add_to_changed_states p sender ptr d1) (\<lambda>d2. Inr (d2, True))) = Inr (d', b')"
      by (auto simp: process_one_def Let_def host_cell_def [symmetric] bind_res_Inr_iff)
    show thesis
    proof (cases r)
      case None
      with r nk own show ?thesis by simp
    next
      case (Some ptr)
      with r nk news show ?thesis by (auto simp: bind_res_Inr_iff)
    qed
  next
    case False
    then have k: "knows p d source (dest ?c) (cell_ts ?c)" using knows by blast
    show thesis
    proof (cases "ts (the ?s) = cell_ts ?c \<and> Find_Changed_State (Changed_States p d) source (dest ?c) \<noteq> None")
      case True
      with assms False k marked show ?thesis
        by (auto simp: process_one_def Let_def host_cell_def [symmetric] split: option.splits if_splits)
    next
      case no_mark: False
      with assms False k stale show ?thesis
        by (auto simp: process_one_def Let_def host_cell_def [symmetric] split: if_splits)
    qed
  qed
qed

text \<open>What one cell, and so any sequence of cells, keeps; and that all news is waiting to be told
  to every neighbor but the sender.\<close>

definition keeps :: "Prot_Def \<Rightarrow> int \<Rightarrow> daemon \<Rightarrow> daemon \<Rightarrow> bool" where
  "keeps p k d d' \<longleftrightarrow> tables_ok d' \<and> env_le d d' \<and> known_le p d d' \<and> pending_le p k d d' \<and>
     (\<forall>q. q \<noteq> p \<longrightarrow> All_States q d' = All_States q d \<and> Changed_States q d' = Changed_States q d)"

definition news_pending :: "Prot_Def \<Rightarrow> int \<Rightarrow> daemon \<Rightarrow> daemon \<Rightarrow> bool" where
  "news_pending p k d d' \<longleftrightarrow>
     (\<forall>s t stamp. knows p d' s t stamp \<longrightarrow> knows p d s t stamp \<or> pending p k d' s t)"

definition progress :: "Prot_Def \<Rightarrow> int \<Rightarrow> daemon \<Rightarrow> daemon \<Rightarrow> bool" where
  "progress p k d d' \<longleftrightarrow> keeps p k d d' \<and> news_pending p k d d'"

lemma progress_refl: "tables_ok d \<Longrightarrow> progress p k d d"
  by (simp add: progress_def keeps_def news_pending_def)

lemma keeps_trans: "keeps p k d d' \<Longrightarrow> keeps p k d' d'' \<Longrightarrow> keeps p k d d''"
  unfolding keeps_def using env_le_trans known_le_trans pending_le_trans by metis

lemma progress_trans:
  assumes "progress p k d d'" "progress p k d' d''"
  shows "progress p k d d''"
proof -
  have "news_pending p k d d''"
    unfolding news_pending_def
  proof (intro allI impI)
    fix s t stamp assume "knows p d'' s t stamp"
    then consider "pending p k d'' s t" | "knows p d' s t stamp"
      using assms(2) unfolding progress_def news_pending_def by blast
    then show "knows p d s t stamp \<or> pending p k d'' s t"
    proof cases
      case 2
      then consider "knows p d s t stamp" | "pending p k d' s t"
        using assms(1) unfolding progress_def news_pending_def by blast
      then show ?thesis
        using assms(2) unfolding progress_def keeps_def pending_le_def by cases blast+
    qed blast
  qed
  then show ?thesis using assms keeps_trans unfolding progress_def by blast
qed

lemma progressD:
  assumes "progress p k d d'"
  shows "tables_ok d'" "env_le d d'" "knows p d s t stamp \<Longrightarrow> knows p d' s t stamp"
    "knows p d' s t stamp \<Longrightarrow> knows p d s t stamp \<or> pending p k d' s t"
  using assms unfolding progress_def keeps_def known_le_def news_pending_def by blast+

text \<open>News about one state only.\<close>

lemma news_pendingI:
  assumes "\<And>s t. (s, t) \<noteq> (source, t0) \<Longrightarrow> map_option ts (Find_State (All_States p d') s t) =
      map_option ts (Find_State (All_States p d) s t)"
    and "pending p k d' source t0"
  shows "news_pending p k d d'"
  unfolding news_pending_def
proof (intro allI impI)
  fix s t stamp assume kn: "knows p d' s t stamp"
  show "knows p d s t stamp \<or> pending p k d' s t"
  proof (cases "(s, t) = (source, t0)")
    case True
    then show ?thesis using assms(2) by simp
  next
    case False
    obtain x where "Find_State (All_States p d') s t = Some x" "ts_le stamp (ts x)"
      using kn unfolding knows_def by blast
    with assms(1) [OF False] show ?thesis unfolding knows_def
      by (cases "Find_State (All_States p d) s t") auto
  qed
qed

context state_protocol
begin

lemma cell_progress:
  assumes ok: "tables_ok d" and pr: "process source sender c ty d = Inr (r, d')"
    and news: "\<not> knows p d source (dest c) (cell_ts c)"
  shows "keeps p k d d'" "knows p d' source (dest c) (cell_ts c)"
    "r = None \<Longrightarrow> pending p k d' source (dest c)" "r = Some ptr \<Longrightarrow> ptr = (source, dest c)"
proof -
  show learned: "knows p d' source (dest c) (cell_ts c)"
    using cell_learned [OF ok pr] by (auto simp: knows_def)
  have "known_le p d d'"
  proof (rule known_leI)
    fix s t x assume x: "Find_State (All_States p d) s t = Some x"
    show "\<exists>y. Find_State (All_States p d') s t = Some y \<and> ts_le (ts x) (ts y)"
    proof (cases "(s, t) = (source, dest c)")
      case True
      then have "ts_le (ts x) (cell_ts c)"
        using x news by (auto simp: knows_def ts_not_less [symmetric] ts_le_def ts_less_def)
      with True learned show ?thesis unfolding knows_def using ts_le_trans by blast
    next
      case False
      then show ?thesis using cell_other_state [OF ok pr False] x by auto
    qed
  qed
  moreover have pend: "pending p k d' source (dest c)" if "source = My_Address d"
    using cell_own [OF ok pr that] not_informed_zero by (auto simp: pending_def)
  moreover have "pending_le p k d d'"
    unfolding pending_le_def
  proof (intro allI impI)
    fix s t assume old: "pending p k d s t"
    show "pending p k d' s t"
    proof (cases "(s, t) = (source, dest c)")
      case True
      then show ?thesis using pend cell_foreign [OF ok pr] old by (cases "source = My_Address d") (auto simp: pending_def)
    next
      case False
      then show ?thesis using cell_other_change [OF ok pr False] old by (simp add: pending_def)
    qed
  qed
  ultimately show "keeps p k d d'"
    using cell_env [OF ok pr] cell_tables [OF ok pr] cell_other_prot [OF ok pr] by (simp add: keeps_def)
  show "r = None \<Longrightarrow> pending p k d' source (dest c)" "r = Some ptr \<Longrightarrow> ptr = (source, dest c)"
    using pend cell_foreign [OF ok pr] cell_own [OF ok pr] by (cases "source = My_Address d"; auto)+
qed

lemma process_one_progress:
  assumes ok: "tables_ok d" and nb: "neighbor d sender k"
    and one: "process_one process p sender ty source cell (d, b) = Inr (d', b')"
  shows "progress p k d d' \<and> knows p d' source (dest (host_cell (ARCH_ENDIAN d) ty cell))
    (cell_ts (host_cell (ARCH_ENDIAN d) ty cell))"
  using one
proof (cases rule: process_one_cases)
  case stale
  then show ?thesis using progress_refl [OF ok] by simp
next
  case (marked nd)
  have k: "neighbor_id nd = k" "0 \<le> k" "k < int MAX_NEIGHBORS" using nb marked(2) by (auto simp: neighbor_def)
  let ?ptr = "(source, dest (host_cell (ARCH_ENDIAN d) ty cell))"
  have d': "d' = mark_informed p (nat k) ?ptr d" using marked(5) k by simp
  have st: "All_States q d' = All_States q d" for q unfolding d' by (rule mark_informed_facts)
  have kn: "known_le p d d'" "news_pending p k d d'" using st by (simp_all add: known_le_def knows_def news_pending_def)
  have "progress p k d d'"
    unfolding progress_def keeps_def
    using tables_ok_mark_informed [OF ok, of p "nat k" ?ptr] env_le_same_nodes [OF mark_informed_facts(2)]
      kn mark_informed_pending [OF ok, of "nat k" p ?ptr] k(2,3) st mark_informed_facts(3) d' by auto
  with marked(1) kn show ?thesis unfolding known_le_def by blast
next
  case own
  note C = cell_progress [OF ok own(1) own(3)]
  have "news_pending p k d d'"
    by (rule news_pendingI [OF _ C(3)]) (use cell_other_state [OF ok own(1)] in auto)
  then show ?thesis using C by (simp add: progress_def)
next
  case (news ptr d1)
  let ?c = "host_cell (ARCH_ENDIAN d) ty cell"
  note C = cell_progress [OF ok news(1) news(4)]
  have ptr: "ptr = (source, dest ?c)" using C(4) by simp
  have ok1: "tables_ok d1" using cell_tables [OF ok news(1)] .
  have nb1: "neighbor d1 sender k" using neighbor_env_le [OF cell_env [OF ok news(1)] nb] .
  then obtain nd where nd: "Get_Node d1 sender = Some nd" "neighbor_id nd = k" "0 \<le> k" "k < int MAX_NEIGHBORS"
    by (auto simp: neighbor_def)
  have "Find_State (All_States p d1) (fst ptr) (snd ptr) \<noteq> None"
    using cell_learned [OF ok news(1)] ptr by auto
  then have ok': "tables_ok d'" using tables_ok_Add_to_changed_states [OF ok1 _ news(3)] by blast
  note A = Add_to_changed_states_Inr [OF news(3)]
  have pend: "pending p k d' source (dest ?c)" "pending_le p k d1 d'"
    using Add_to_changed_states_pending [OF news(3) nd(1)] nd(2-4) ptr by auto
  have "keeps p k d1 d'"
    using ok' env_le_same_nodes [OF A(1)] Add_to_changed_states_known [OF news(3)] pend(2) A(2,3)
    by (simp add: keeps_def)
  then have keeps: "keeps p k d d'" using keeps_trans [OF C(1)] by blast
  have "news_pending p k d d'"
    by (rule news_pendingI [OF _ pend(1)])
      (use cell_other_state [OF ok news(1)] A(4) ptr in \<open>auto simp: Find_State_write_state\<close>)
  moreover have "knows p d' source (dest ?c) (cell_ts ?c)"
    using C(2) \<open>keeps p k d1 d'\<close> unfolding keeps_def known_le_def by blast
  ultimately show ?thesis using keeps by (simp add: progress_def)
qed

lemma process_cells_progress:
  assumes "tables_ok d" "neighbor d sender k"
    and "process_cells process p sender ty source n items (d, b) = Inr (d', b')"
  shows "progress p k d d' \<and> (\<forall>c. Cell c \<in> set (take n items) \<longrightarrow>
    knows p d' source (dest (host_cell (ARCH_ENDIAN d) ty c)) (cell_ts (host_cell (ARCH_ENDIAN d) ty c)))"
  using assms
proof (induction n arbitrary: items d b)
  case 0
  then show ?case using progress_refl by simp
next
  case (Suc n)
  from Suc.prems(3) obtain c rest where items: "items = Cell c # rest"
    by (cases "(process, p, sender, ty, source, Suc n, items, (d, b))" rule: process_cells.cases) auto
  with Suc.prems(3) obtain d1 b1 where
    one: "process_one process p sender ty source c (d, b) = Inr (d1, b1)" and
    more: "process_cells process p sender ty source n rest (d1, b1) = Inr (d', b')"
    by (auto simp: bind_res_Inr_iff)
  note O = process_one_progress [OF Suc.prems(1,2) one]
  note d1 = progressD(1,2) [OF conjunct1 [OF O]]
  note IH = Suc.IH [OF d1(1) neighbor_env_le [OF d1(2) Suc.prems(2)] more]
  have arch: "ARCH_ENDIAN d1 = ARCH_ENDIAN d" using d1(2) by (simp add: env_le_def)
  from IH O have "progress p k d d'" using progress_trans by blast
  moreover have "knows p d' source (dest (host_cell (ARCH_ENDIAN d) ty c)) (cell_ts (host_cell (ARCH_ENDIAN d) ty c))"
    using O progressD(3) [OF conjunct1 [OF IH]] by blast
  ultimately show ?case using IH items arch by auto
qed

lemma process_items_progress:
  assumes "tables_ok d" "neighbor d sender k"
    and "process_items process p sender ty items (d, b) = Inr (d', b')"
  shows "progress p k d d' \<and> (\<forall>(source, c) \<in> set (packet_cells p (ARCH_ENDIAN d) ty items).
    knows p d' source (dest c) (cell_ts c))"
  using assms
proof (induction items arbitrary: d b rule: measure_induct_rule [where f = length])
  case (less items)
  note IH = less.IH and prems = less.prems
  show ?case
  proof (cases items)
    case Nil
    then show ?thesis using prems progress_refl by simp
  next
    case (Cons w rest)
    with prems(3) obtain h where w: "w = Hdr h" by (cases w) auto
    let ?h = "Process_state_header p (ARCH_ENDIAN d) ty h"
    let ?n = "unat (num_cells ?h)"
    from prems(3) obtain d1 b1 where
      cells: "process_cells process p sender ty (pkt_source ?h) ?n rest (d, b) = Inr (d1, b1)" and
      more: "process_items process p sender ty (drop ?n rest) (d1, b1) = Inr (d', b')"
      by (auto simp: Cons w Let_def bind_res_Inr_iff)
    note O = process_cells_progress [OF prems(1,2) cells]
    note d1 = progressD(1,2) [OF conjunct1 [OF O]]
    have arch: "ARCH_ENDIAN d1 = ARCH_ENDIAN d" using d1(2) by (simp add: env_le_def)
    note R = IH [OF _ d1(1) neighbor_env_le [OF d1(2) prems(2)] more]
    have R: "progress p k d1 d' \<and> (\<forall>(source, c) \<in> set (packet_cells p (ARCH_ENDIAN d) ty (drop ?n rest)).
      knows p d' source (dest c) (cell_ts c))"
      using R arch Cons by simp
    have "progress p k d d'" using O R progress_trans by blast
    moreover have "knows p d' (pkt_source ?h) (dest (host_cell (ARCH_ENDIAN d) ty c)) (cell_ts (host_cell (ARCH_ENDIAN d) ty c))"
      if "Cell c \<in> set (take ?n rest)" for c
      using O that progressD(3) [OF conjunct1 [OF R]] by blast
    ultimately show ?thesis using R by (auto simp: Cons w Let_def cells_of_def split: wire.splits)
  qed
qed

end

end
