(* ===== verification/Flood_Total.thy ===== *)
theory Flood_Total
  imports Flood_Receive
begin

text \<open>
  A packet that keeps to the format, from a connected neighbor, is processed to the end: none of
  the assertions and exits on the way is reached, and no pointer is followed that is not there.
\<close>

section \<open>A sender that is connected\<close>

definition connection :: "State_Data \<Rightarrow> int \<times> Spines_ID \<times> Spines_ID \<times> Network_Leg_ID option" where
  "connection e = (state_value e, source_addr e, dest_addr e, leg_of e)"

definition ready :: "daemon \<Rightarrow> Node_ID \<Rightarrow> bool" where
  "ready d sender \<longleftrightarrow> Current_Routing d \<noteq> None \<and> (\<exists>nd. Get_Node d sender = Some nd \<and>
     edge nd = Some (My_Address d, sender) \<and> Is_Connected_Neighbor2 d nd = Inr True)"

lemma Is_Connected_Neighbor2_True:
  assumes "edge nd = Some ptr"
  shows "Is_Connected_Neighbor2 d nd = Inr True \<longleftrightarrow> (\<exists>e. Find_State (All_Edges d) (fst ptr) (snd ptr) = Some e \<and>
    state_value e \<noteq> - 1 \<and> connected_edge_ok d nd e)"
  using assms by (auto simp: Is_Connected_Neighbor2_def split: option.splits if_splits)

lemma ready_cong:
  assumes "ready d sender"
    and "Get_Node d' sender = Get_Node d sender" "My_Address d' = My_Address d" "Network_Legs d' = Network_Legs d"
    "Num_Neighbors d' = Num_Neighbors d" "Current_Routing d \<noteq> None \<Longrightarrow> Current_Routing d' \<noteq> None"
    and "\<And>e. Find_State (All_Edges d) (My_Address d) sender = Some e \<Longrightarrow>
      \<exists>e'. Find_State (All_Edges d') (My_Address d) sender = Some e' \<and> connection e' = connection e"
  shows "ready d' sender"
proof -
  obtain nd where nd: "Get_Node d sender = Some nd" "edge nd = Some (My_Address d, sender)"
    "Is_Connected_Neighbor2 d nd = Inr True" "Current_Routing d \<noteq> None"
    using assms(1) unfolding ready_def by blast
  obtain e where e: "Find_State (All_Edges d) (My_Address d) sender = Some e" "state_value e \<noteq> - 1"
    "connected_edge_ok d nd e"
    using nd(3) Is_Connected_Neighbor2_True [OF nd(2)] by auto
  obtain e' where e': "Find_State (All_Edges d') (My_Address d) sender = Some e'" "connection e' = connection e"
    using assms(7) [OF e(1)] by blast
  have "connected_edge_ok d' nd e'" "state_value e' \<noteq> - 1"
    using e(2,3) e'(2) assms(3-5) by (auto simp: connected_edge_ok_def connection_def split: option.splits)
  then have "Is_Connected_Neighbor2 d' nd = Inr True"
    using e'(1) Is_Connected_Neighbor2_True [OF nd(2), of d'] by auto
  then show ?thesis using nd assms(2,3,6) unfolding ready_def by auto
qed

lemma ready_edge:
  assumes "ready d sender"
  shows "\<exists>e. Find_State (All_Edges d) (My_Address d) sender = Some e"
proof -
  obtain nd where "edge nd = Some (My_Address d, sender)" "Is_Connected_Neighbor2 d nd = Inr True"
    using assms unfolding ready_def by blast
  with Is_Connected_Neighbor2_True [of nd "(My_Address d, sender)" d] show ?thesis by auto
qed

lemma ready_emit: "ready d sender \<Longrightarrow> ready (emit c d) sender"
  by (erule ready_cong) (simp_all add: Get_Node_def)

lemma ready_queue_event: "ready d sender \<Longrightarrow> ready (queue_event f k a t d) sender"
  by (erule ready_cong) (simp_all add: Get_Node_def queue_event_def)

lemma ready_lts: "ready d sender \<Longrightarrow> ready (d\<lparr>Link_State_Update_LTS := l\<rparr>) sender"
  by (erule ready_cong) (simp_all add: Get_Node_def)

lemma ready_modify_state:
  assumes "ready d sender" and "p = Edge_Prot_Def \<Longrightarrow> ptr = (My_Address d, sender) \<Longrightarrow> \<forall>e. connection (f e) = connection e"
  shows "ready (modify_state p ptr f d) sender"
proof (rule ready_cong [OF assms(1)])
  show "Get_Node (modify_state p ptr f d) sender = Get_Node d sender" "My_Address (modify_state p ptr f d) = My_Address d"
    "Network_Legs (modify_state p ptr f d) = Network_Legs d" "Num_Neighbors (modify_state p ptr f d) = Num_Neighbors d"
    using same_nodes_put(3) [of d p ptr f] by (simp_all add: same_nodes_def Get_Node_def)
  show "Current_Routing d \<noteq> None \<Longrightarrow> Current_Routing (modify_state p ptr f d) \<noteq> None"
    by (cases p) (simp_all add: modify_state_def)
  fix e assume e: "Find_State (All_Edges d) (My_Address d) sender = Some e"
  have "All_Edges (modify_state p ptr f d) = (if p = Edge_Prot_Def then write_state (All_Edges d) ptr f else All_Edges d)"
    by (cases p) (simp_all add: modify_state_def)
  with e assms(2) show "\<exists>e'. Find_State (All_Edges (modify_state p ptr f d)) (My_Address d) sender = Some e' \<and>
      connection e' = connection e"
    by (simp add: Find_State_write_state split: if_splits)
qed

lemma ready_put_changed: "ready d sender \<Longrightarrow> ready (put_changed p h d) sender"
  by (erule ready_cong) (cases p; simp add: Get_Node_def)+

lemma ready_Create_Node:
  assumes "ready d sender" "Create_Node i d = Inr d'"
  shows "ready d' sender"
proof (rule ready_cong [OF assms(1)])
  have "Get_Node d sender \<noteq> None" using assms(1) unfolding ready_def by blast
  then show "Get_Node d' sender = Get_Node d sender"
    using Get_Node_Create_Node [OF assms(2)] Create_Node_Inr(1) [OF assms(2)] by auto
  show "My_Address d' = My_Address d" "Network_Legs d' = Network_Legs d" "Num_Neighbors d' = Num_Neighbors d"
    "Current_Routing d \<noteq> None \<Longrightarrow> Current_Routing d' \<noteq> None"
    using assms(2) by (auto simp: Create_Node_def Let_def split: if_splits)
  show "\<exists>e'. Find_State (All_Edges d') (My_Address d) sender = Some e' \<and> connection e' = connection e"
    if "Find_State (All_Edges d) (My_Address d) sender = Some e" for e
    using that Create_Node_Inr(5) [OF assms(2)] by simp
qed

lemma ready_get_or_create_node:
  assumes "ready d sender"
  shows "\<exists>d'. get_or_create_node i d = Inr d' \<and> ready d' sender"
proof (cases "Get_Node d i")
  case None
  then obtain d' where "Create_Node i d = Inr d'" by (auto simp: Create_Node_def Let_def)
  with None ready_Create_Node [OF assms] show ?thesis by (auto simp: get_or_create_node_def)
next
  case Some
  then show ?thesis using assms by (simp add: get_or_create_node_def)
qed

lemma ready_Create_Edge:
  assumes "ready d sender" "Create_Edge s t c bc ix d = Inr d'" "tables_ok d"
  shows "ready d' sender"
proof -
  obtain e where e: "Find_State (All_Edges d) (My_Address d) sender = Some e"
    using ready_edge [OF assms(1)] by blast
  have absent: "Get_Edge d s t = None" using assms(2) by (auto simp: Create_Edge_def split: if_splits)
  then have ne: "(s, t) \<noteq> (My_Address d, sender)" using e by (auto simp: Get_Edge_def)
  define x where "x = new_edge (wall_clock d) (s = My_Address d)
    (if s = My_Address d then Link_State_Update_LTS d + 1 else 0) s t c bc ix"
  have x: "source_addr x = s" "dest_addr x = t" by (simp_all add: x_def new_edge_def)
  have D: "All_Edges d' = add_state (All_Edges d) x" "Num_Neighbors d' = Num_Neighbors d"
    "Network_Legs d' = Network_Legs d" "My_Address d' = My_Address d" "Current_Routing d' = Current_Routing d"
    "All_Nodes d' = (if s = My_Address d then stdhash_modify (All_Nodes d) t (\<lambda>nd. nd\<lparr>edge := Some (s, t)\<rparr>) else All_Nodes d)"
    using assms(2) by (auto simp: Create_Edge_def Let_def Link_State_LTS_inc_def x_def split: if_splits)
  have "Find_State (All_Edges d') (My_Address d) sender = Some e"
    using Find_State_add_state [of "All_Edges d" x] absent x D(1) ne e by (auto simp: state_key_def Get_Edge_def)
  moreover have "Get_Node d' sender = Get_Node d sender"
    using D(6) ne by (auto simp: Get_Node_def sh.find_modify)
  ultimately show ?thesis using e D by (intro ready_cong [OF assms(1)]) auto
qed

lemma ready_get_or_create_edge:
  assumes "ready d sender" "tables_ok d" "Get_Node d s \<noteq> None" "Get_Node d t \<noteq> None"
  shows "\<exists>d'. get_or_create_edge s t d = Inr d' \<and> ready d' sender"
proof (cases "Get_Edge d s t")
  case None
  then obtain d' where "Create_Edge s t (- 1) (- 1) USHRT_MAX d = Inr d'"
    using assms(3,4) by (cases "s = My_Address d") (auto simp: Create_Edge_def Let_def Link_State_LTS_inc_def)
  with None ready_Create_Edge [OF assms(1) _ assms(2)] show ?thesis by (auto simp: get_or_create_edge_def)
next
  case Some
  then show ?thesis using assms(1) by (simp add: get_or_create_edge_def)
qed

lemma ready_Edge_cell_objects:
  assumes "ready d sender" "tables_ok d"
  shows "\<exists>d'. Edge_cell_objects source cell d = Inr d' \<and> ready d' sender"
proof -
  obtain d1 where d1: "get_or_create_node source d = Inr d1" "ready d1 sender"
    using ready_get_or_create_node [OF assms(1)] by blast
  obtain d2 where d2: "get_or_create_node (dest cell) d1 = Inr d2" "ready d2 sender"
    using ready_get_or_create_node [OF d1(2)] by blast
  note A = get_or_create_node_Inr [OF d1(1) assms(2)]
  note B = get_or_create_node_Inr [OF d2(1) A(1)]
  have "Get_Node d2 source \<noteq> None" using A(3) env_le_Get_Node [OF B(2)] by blast
  then obtain d3 where "get_or_create_edge source (dest cell) d2 = Inr d3" "ready d3 sender"
    using ready_get_or_create_edge [OF d2(2) B(1) _ B(3)] by blast
  with d1(1) d2(1) show ?thesis by (simp add: Edge_cell_objects_def)
qed

lemma ready_Add_to_changed_states:
  assumes "ready d sender" "origin = My_Address d \<or> origin = sender" "Get_Node d (My_Address d) \<noteq> None"
  shows "\<exists>d'. Add_to_changed_states p origin ptr d = Inr d' \<and> ready d' sender"
proof -
  have "\<exists>nd. known_sender d origin = Inr nd"
    using assms by (auto simp: known_sender_def ready_def)
  then obtain nd where nd: "known_sender d origin = Inr nd" ..
  define d2 where "d2 = schedule_flood p (stamp_state p ptr d)"
  have 2: "ready d2 sender"
    unfolding d2_def schedule_flood_def stamp_state_def
    by (auto intro!: ready_queue_event ready_modify_state assms(1) simp: connection_def leg_of_def)
  then obtain rr where rr: "Current_Routing d2 = Some rr" by (auto simp: ready_def)
  have "ready (d2\<lparr>Current_Routing := Some x\<rparr>) sender" for x
    by (rule ready_cong [OF 2]) (auto simp: Get_Node_def)
  then have "\<exists>d3. (if p = Groups_Prot_Def then group_changed (snd ptr) d2 else Inr d2) = Inr d3 \<and> ready d3 sender"
    using 2 rr by (auto simp: group_changed_def Discard_Mcast_Neighbors_def intro!: ready_queue_event)
  then obtain d3 where d3: "(if p = Groups_Prot_Def then group_changed (snd ptr) d2 else Inr d2) = Inr d3" "ready d3 sender"
    by blast
  then have "Add_to_changed_states p origin ptr d =
      Inr (put_changed p (buffer_change (My_Address d) origin nd ptr (Changed_States p d3)) d3)"
    by (simp add: Add_to_changed_states_def nd d2_def [symmetric] Let_def)
  with ready_put_changed [OF d3(2)] show ?thesis by blast
qed

section \<open>The contract, continued\<close>

locale total_protocol = state_protocol +
  assumes cell_total: "tables_ok d \<Longrightarrow> ready d sender \<Longrightarrow>
    \<exists>r d'. process source sender c ty d = Inr (r, d') \<and> ready d' sender"


lemma connection_stamp [simp]:
  "connection (e\<lparr>timestamp_sec := a, timestamp_usec := b\<rparr>) = connection e"
  "connection (bump_timestamp e) = connection e" "connection (set_lts l e) = connection e"
  by (auto simp: connection_def leg_of_def bump_timestamp_def set_lts_def split: state_fields.splits)

lemma Edge_cell_total:
  assumes ok: "tables_ok d" and "ready d sender"
  shows "\<exists>r d'. Edge_Process_state_cell source sender c ty d = Inr (r, d') \<and> ready d' sender"
proof -
  obtain d1 where d1: "Edge_cell_objects source c d = Inr d1" "ready d1 sender"
    using ready_Edge_cell_objects [OF assms(2) ok] by blast
  note O = Edge_cell_objects_Inr [OF d1(1) ok]
  have my: "My_Address d1 = My_Address d" using O(2) by (simp add: env_le_def)
  have me: "Get_Node d1 (My_Address d) \<noteq> None"
    using tables_okD(1) [OF O(1)] my Get_Node_known by (auto simp: nodes_ok_def)
  define l where "l = (if Same_endian (ARCH_ENDIAN d) ty then cell_lts c else Flip_int16 (cell_lts c))"
  define d2 where "d2 = Edge_cell_stamp source c l d1"
  have 2: "ready d2 sender"
    unfolding d2_def Edge_cell_stamp_def using d1(2) by (auto intro!: ready_modify_state ready_lts)
  show ?thesis
  proof (cases "source = My_Address d")
    case False
    then have "source \<noteq> My_Address d2" by (simp add: d2_def Edge_cell_stamp_def modify_state_def my)
    then have "ready (Edge_cell_foreign source c l d2) sender"
      unfolding Edge_cell_foreign_def by (intro ready_emit ready_modify_state 2) auto
    then show ?thesis using d1(1) False
      by (simp add: Edge_Process_state_cell_def Let_def l_def [symmetric] d2_def [symmetric])
  next
    case True
    define d3 where "d3 = modify_state Edge_Prot_Def (source, dest c) (set_lts (Link_State_Update_LTS (modify_state Edge_Prot_Def (source, dest c) bump_timestamp d2) + 1))
      ((modify_state Edge_Prot_Def (source, dest c) bump_timestamp d2)
        \<lparr>Link_State_Update_LTS := Link_State_Update_LTS (modify_state Edge_Prot_Def (source, dest c) bump_timestamp d2) + 1\<rparr>)"
    have 3: "ready d3 sender" unfolding d3_def using 2 by (intro ready_modify_state ready_lts) auto
    have "My_Address d3 = My_Address d \<and> Get_Node d3 = Get_Node d1"
      by (simp add: d3_def d2_def Edge_cell_stamp_def modify_state_def Get_Node_def fun_eq_iff my)
    then obtain d4 where "Add_to_changed_states Edge_Prot_Def (My_Address d) (source, dest c) d3 = Inr d4" "ready d4 sender"
      using ready_Add_to_changed_states [OF 3] me by metis
    moreover have "My_Address d2 = My_Address d" by (simp add: d2_def Edge_cell_stamp_def modify_state_def my)
    ultimately show ?thesis using d1(1) True unfolding d3_def d2_def
      by (simp add: Edge_Process_state_cell_def Edge_cell_own_def Link_State_LTS_inc_def Let_def l_def [symmetric])
  qed
qed

lemma Groups_cell_total:
  assumes ok: "tables_ok d" and "ready d sender"
  shows "\<exists>r d'. Groups_Process_state_cell source sender c ty d = Inr (r, d') \<and> ready d' sender"
proof -
  let ?ptr = "(source, dest c)"
  let ?s = "\<lambda>g. g\<lparr>timestamp_sec := sint (cell_sec c), timestamp_usec := sint (cell_usec c)\<rparr>"
  have "\<exists>d1. get_or_create_group source (dest c) d = Inr d1 \<and> ready d1 sender"
    using assms(2) by (auto simp: get_or_create_group_def Create_Group_def Get_Node_def intro: ready_cong)
  then obtain d1 where d1: "get_or_create_group source (dest c) d = Inr d1" "ready d1 sender" by blast
  note O = get_or_create_group_Inr [OF d1(1) ok]
  have my: "My_Address d1 = My_Address d" using O(2) by (simp add: env_le_def)
  have me: "Get_Node d1 (My_Address d) \<noteq> None"
    using tables_okD(1) [OF O(1)] my Get_Node_known by (auto simp: nodes_ok_def)
  show ?thesis
  proof (cases "source = My_Address d")
    case False
    then show ?thesis using d1
      by (auto simp: Groups_Process_state_cell_def Let_def intro!: ready_modify_state)
  next
    case True
    define d3 where "d3 = modify_state Groups_Prot_Def ?ptr bump_timestamp (modify_state Groups_Prot_Def ?ptr ?s d1)"
    have 3: "ready d3 sender" unfolding d3_def using d1(2) by (intro ready_modify_state) auto
    have "My_Address d3 = My_Address d \<and> Get_Node d3 = Get_Node d1"
      by (simp add: d3_def modify_state_def Get_Node_def fun_eq_iff my)
    then obtain d4 where "Add_to_changed_states Groups_Prot_Def (My_Address d) ?ptr d3 = Inr d4" "ready d4 sender"
      using ready_Add_to_changed_states [OF 3] me by metis
    then show ?thesis using d1(1) True unfolding d3_def by (simp add: Groups_Process_state_cell_def Let_def)
  qed
qed

interpretation edge_total: total_protocol Edge_Prot_Def Edge_Process_state_cell
  by unfold_locales (rule Edge_cell_total)

interpretation group_total: total_protocol Groups_Prot_Def Groups_Process_state_cell
  by unfold_locales (rule Groups_cell_total)

section \<open>Packets\<close>

text \<open>A packet keeps to the format when every header announces the cells that follow it.\<close>

fun packet_ok :: "Prot_Def \<Rightarrow> int32u \<Rightarrow> int32u \<Rightarrow> wire list \<Rightarrow> bool" where
  "packet_ok p arch ty [] = True"
| "packet_ok p arch ty (Hdr h # items) =
     (let n = unat (num_cells (Process_state_header p arch ty h))
      in n \<le> length items \<and> (\<forall>w \<in> set (take n items). is_Cell w) \<and> packet_ok p arch ty (drop n items))"
| "packet_ok p arch ty (Cell c # items) = False"

context total_protocol
begin

lemma process_one_total:
  assumes ok: "tables_ok d" and rd: "ready d sender" and nb: "neighbor d sender k"
  shows "\<exists>d' b'. process_one process p sender ty source cell (d, b) = Inr (d', b') \<and> ready d' sender"
proof -
  let ?c = "host_cell (ARCH_ENDIAN d) ty cell"
  let ?s = "Find_State (All_States p d) source (dest ?c)"
  show ?thesis
  proof (cases "?s = None \<or> ts_less (ts (the ?s)) (cell_ts ?c)")
    case True
    obtain r d1 where r: "process source sender ?c ty d = Inr (r, d1)" "ready d1 sender"
      using cell_total [OF ok rd] by blast
    have "Get_Node d1 (My_Address d1) \<noteq> None"
      using tables_okD(1) [OF cell_tables [OF ok r(1)]] Get_Node_known by (auto simp: nodes_ok_def)
    then have add: "\<exists>d2. Add_to_changed_states p sender ptr d1 = Inr d2 \<and> ready d2 sender" for ptr
      using ready_Add_to_changed_states [OF r(2)] by blast
    show ?thesis
    proof (cases r)
      case None
      with True r show ?thesis by (auto simp: process_one_def Let_def host_cell_def [symmetric])
    next
      case (Some ptr)
      obtain d2 where "Add_to_changed_states p sender ptr d1 = Inr d2" "ready d2 sender" using add by blast
      with True r Some show ?thesis by (auto simp: process_one_def Let_def host_cell_def [symmetric])
    qed
  next
    case False
    obtain nd where "Get_Node d sender = Some nd" "0 \<le> neighbor_id nd" using nb by (auto simp: neighbor_def)
    with False rd ready_put_changed show ?thesis
      by (auto simp: process_one_def Let_def host_cell_def [symmetric] mark_informed_def simp del: put_changed.simps)
  qed
qed

lemma process_cells_total:
  assumes "tables_ok d" "ready d sender" "neighbor d sender k" "n \<le> length items" "\<forall>w \<in> set (take n items). is_Cell w"
  shows "\<exists>d' b'. process_cells process p sender ty source n items (d, b) = Inr (d', b') \<and> ready d' sender"
  using assms
proof (induction n arbitrary: items d b)
  case (Suc n)
  then obtain c rest where items: "items = Cell c # rest"
    by (cases items) (auto simp: is_Cell_def)
  obtain d1 b1 where one: "process_one process p sender ty source c (d, b) = Inr (d1, b1)" "ready d1 sender"
    using process_one_total [OF Suc.prems(1-3)] by blast
  note P = progressD(1,2) [OF conjunct1 [OF process_one_progress [OF Suc.prems(1,3) one(1)]]]
  show ?case
    using Suc.IH [OF P(1) one(2) neighbor_env_le [OF P(2) Suc.prems(3)], of rest b1] Suc.prems(4,5) items one(1) by simp
qed simp

lemma process_items_total:
  assumes "tables_ok d" "ready d sender" "neighbor d sender k" "packet_ok p (ARCH_ENDIAN d) ty items"
  shows "\<exists>d' b'. process_items process p sender ty items (d, b) = Inr (d', b') \<and> ready d' sender"
  using assms
proof (induction items arbitrary: d b rule: measure_induct_rule [where f = length])
  case (less items)
  note IH = less.IH and prems = less.prems
  show ?case
  proof (cases items)
    case Nil
    then show ?thesis using prems(2) by simp
  next
    case (Cons w rest)
    with prems(4) obtain h where w: "w = Hdr h" by (cases w) auto
    let ?h = "Process_state_header p (ARCH_ENDIAN d) ty h"
    let ?n = "unat (num_cells ?h)"
    have fmt: "?n \<le> length rest" "\<forall>w \<in> set (take ?n rest). is_Cell w" "packet_ok p (ARCH_ENDIAN d) ty (drop ?n rest)"
      using prems(4) by (auto simp: Cons w Let_def)
    obtain d1 b1 where cells: "process_cells process p sender ty (pkt_source ?h) ?n rest (d, b) = Inr (d1, b1)" "ready d1 sender"
      using process_cells_total [OF prems(1-3) fmt(1,2)] by blast
    note d1 = progressD(1,2) [OF conjunct1 [OF process_cells_progress [OF prems(1,3) cells(1)]]]
    have arch: "ARCH_ENDIAN d1 = ARCH_ENDIAN d" using d1(2) by (simp add: env_le_def)
    have "\<exists>d' b'. process_items process p sender ty (drop ?n rest) (d1, b1) = Inr (d', b') \<and> ready d' sender"
      using IH [OF _ d1(1) cells(2) neighbor_env_le [OF d1(2) prems(3)]] fmt(3) arch Cons by simp
    with cells(1) show ?thesis by (simp add: Cons w Let_def)
  qed
qed

end

end
