(* ===== verification/Flood_Send.thy ===== *)
theory Flood_Send
  imports Flood_Total
begin

text \<open>
  What sending states does: every packet fits into a packet body with its reliable tail, its headers
  announce the cells behind them, and the cells of all packets together are the states to be sent,
  in order. A receiver of either byte order reads the same cells.
\<close>

section \<open>The content of a packet\<close>

fun sent_cells :: "wire list \<Rightarrow> (Node_ID \<times> State_Cell) list" where
  "sent_cells [] = []"
| "sent_cells (Hdr h # items) =
     map (Pair (pkt_source h)) (cells_of (take (unat (num_cells h)) items)) @
     sent_cells (drop (unat (num_cells h)) items)"
| "sent_cells (Cell c # items) = []"

fun sent_ok :: "wire list \<Rightarrow> bool" where
  "sent_ok [] = True"
| "sent_ok (Hdr h # items) \<longleftrightarrow>
     unat (num_cells h) \<le> length items \<and> (\<forall>w \<in> set (take (unat (num_cells h)) items). is_Cell w) \<and>
     sent_ok (drop (unat (num_cells h)) items)"
| "sent_ok (Cell c # items) = False"

fun wire_size :: "Prot_Def \<Rightarrow> wire \<Rightarrow> int" where
  "wire_size p (Hdr h) = State_header_size p"
| "wire_size p (Cell c) = Cell_packet_size p"

definition wire_bytes :: "Prot_Def \<Rightarrow> wire list \<Rightarrow> int" where
  "wire_bytes p items = sum_list (map (wire_size p) items)"

lemma wire_bytes_simps [simp]:
  "wire_bytes p [] = 0" "wire_bytes p (w # ws) = wire_size p w + wire_bytes p ws"
  "wire_bytes p (ws @ ws') = wire_bytes p ws + wire_bytes p ws'"
  by (simp_all add: wire_bytes_def)

lemma State_header_size_8 [simp]: "State_header_size p = 8"
  by (cases p) (simp_all add: Edge_State_header_size_def Groups_State_header_size_def)

lemma Cell_packet_size_bounds: "16 \<le> Cell_packet_size p" "Cell_packet_size p \<le> 20"
  by (cases p; simp add: Edge_Cell_packet_size_def Groups_Cell_packet_size_def)+

lemma wire_bytes_length: "8 * int (length items) \<le> wire_bytes p items"
proof (induction items)
  case (Cons w items)
  then show ?case using Cell_packet_size_bounds [of p] by (cases w) auto
qed simp

lemma cells_of_map_Cell [simp]: "cells_of (map Cell cs) = cs"
  by (induction cs) (simp_all add: cells_of_def)

lemma sent_append:
  assumes "sent_ok B"
  shows "sent_ok (B @ C) = sent_ok C" "sent_cells (B @ C) = sent_cells B @ sent_cells C"
proof -
  have "sent_ok (B @ C) = sent_ok C \<and> sent_cells (B @ C) = sent_cells B @ sent_cells C"
    using assms
  proof (induction B rule: sent_ok.induct)
    case (2 h items)
    then show ?case by (simp add: take_append drop_append)
  qed simp_all
  then show "sent_ok (B @ C) = sent_ok C" "sent_cells (B @ C) = sent_cells B @ sent_cells C" by simp_all
qed

lemma sent_group:
  assumes "unat (num_cells h) = length cs"
  shows "sent_ok (Hdr h # map Cell cs)" "sent_cells (Hdr h # map Cell cs) = map (Pair (pkt_source h)) cs"
  using assms by simp_all

text \<open>A receiver with the byte order of the sender sees the packet as it is; any other receiver sees
  the members of headers and cells with their bytes swapped.\<close>

definition swap_wire :: "wire \<Rightarrow> wire" where
  "swap_wire w = (case w of Hdr h \<Rightarrow> Hdr (Flip_state_header h)
     | Cell c \<Rightarrow> Cell ((Flip_state_cell c)\<lparr>cell_lts := Flip_int16 (cell_lts c)\<rparr>))"

definition as_received :: "bool \<Rightarrow> wire list \<Rightarrow> wire list" where
  "as_received same_order items = (if same_order then items else map swap_wire items)"

text \<open>\<open>Flip_state_cell\<close> leaves the protocol's own part of the cell to the protocol.\<close>

definition common_cell :: "State_Cell \<Rightarrow> State_Cell" where
  "common_cell c = c\<lparr>cell_lts := 0\<rparr>"

definition common_cells :: "(Node_ID \<times> State_Cell) list \<Rightarrow> (Node_ID \<times> State_Cell) list" where
  "common_cells xs = map (apsnd common_cell) xs"

lemma Process_state_header_received:
  "Process_state_header p arch ty (if Same_endian arch ty then h else Flip_state_header h) = h"
  by (cases p) (simp_all add: Edge_Process_state_header_def Groups_Process_state_header_def Flip_state_header_def)

lemma host_cell_received:
  "common_cell (host_cell arch ty (if Same_endian arch ty then c
     else (Flip_state_cell c)\<lparr>cell_lts := Flip_int16 (cell_lts c)\<rparr>)) = common_cell c"
  by (simp add: host_cell_def Flip_state_cell_def common_cell_def)

lemma as_received_simps [simp]:
  "as_received b [] = []"
  "as_received b (Hdr h # items) = Hdr (if b then h else Flip_state_header h) # as_received b items"
  "as_received b (Cell c # items) =
     Cell (if b then c else (Flip_state_cell c)\<lparr>cell_lts := Flip_int16 (cell_lts c)\<rparr>) # as_received b items"
  "take n (as_received b items) = as_received b (take n items)"
  "drop n (as_received b items) = as_received b (drop n items)"
  "length (as_received b items) = length items"
  by (simp_all add: as_received_def swap_wire_def take_map drop_map)

lemma is_Cell_received: "(\<forall>w \<in> set (as_received b items). is_Cell w) \<longleftrightarrow> (\<forall>w \<in> set items. is_Cell w)"
proof -
  have "is_Cell (swap_wire w) = is_Cell w" for w by (cases w) (simp_all add: swap_wire_def)
  then show ?thesis by (simp add: as_received_def)
qed

lemma cells_of_received:
  "map (\<lambda>c. common_cell (host_cell arch ty c)) (cells_of (as_received (Same_endian arch ty) items)) =
   map common_cell (cells_of items)"
proof (induction items)
  case (Cons w items)
  then show ?case
    using host_cell_received [of arch ty] by (cases w) (auto simp: cells_of_def)
qed (simp add: cells_of_def)

lemma received_packet:
  "packet_ok p arch ty (as_received (Same_endian arch ty) items) = sent_ok items"
  "common_cells (packet_cells p arch ty (as_received (Same_endian arch ty) items)) = common_cells (sent_cells items)"
proof -
  let ?b = "Same_endian arch ty"
  have "packet_ok p arch ty (as_received ?b items) = sent_ok items \<and>
    common_cells (packet_cells p arch ty (as_received ?b items)) = common_cells (sent_cells items)"
  proof (induction items rule: sent_ok.induct)
    case (2 h items)
    have h: "Process_state_header p arch ty (if ?b then h else Flip_state_header h) = h"
      by (rule Process_state_header_received)
    have "map (\<lambda>c. (pkt_source h, common_cell (host_cell arch ty c))) (cells_of (as_received ?b xs)) =
        map (\<lambda>c. (pkt_source h, common_cell c)) (cells_of xs)" for xs
      using arg_cong [OF cells_of_received [of arch ty xs], of "map (Pair (pkt_source h))"] by (simp add: comp_def)
    then have "common_cells (packet_cells p arch ty (as_received ?b (Hdr h # items))) = common_cells (sent_cells (Hdr h # items))"
      using 2 by (simp only: as_received_simps packet_cells.simps Let_def h sent_cells.simps)
        (simp add: common_cells_def comp_def)
    moreover have "packet_ok p arch ty (as_received ?b (Hdr h # items)) = sent_ok (Hdr h # items)"
      using 2 by (simp only: as_received_simps packet_ok.simps Let_def h sent_ok.simps is_Cell_received)
    ultimately show ?case by blast
  qed (simp_all add: common_cells_def)
  then show "packet_ok p arch ty (as_received ?b items) = sent_ok items"
    "common_cells (packet_cells p arch ty (as_received ?b items)) = common_cells (sent_cells items)" by blast+
qed

section \<open>Filling a packet\<close>

text \<open>The room for cells: a packet body less the reliable tail.\<close>

definition room :: int where "room = 1452 - 8"

definition pack_ok :: "Prot_Def \<Rightarrow> Pack \<Rightarrow> (Node_ID \<times> State_Cell) list \<Rightarrow> bool" where
  "pack_ok p P xs \<longleftrightarrow> pack_bytes P = wire_bytes p (buff P) \<and> pack_bytes P \<le> room \<and>
     (if xs = [] then buff P = []
      else \<exists>B h cs. buff P = B @ Hdr h # map Cell cs \<and> pkt P = length B \<and> sent_ok B \<and> cs \<noteq> [] \<and>
        unat (num_cells h) = length cs \<and> xs = sent_cells B @ map (Pair (pkt_source h)) cs)"

lemma pack_ok_Nil: "pack_ok p P [] \<longleftrightarrow> buff P = [] \<and> pack_bytes P = 0"
  by (auto simp: pack_ok_def room_def)

lemma pack_ok_sent:
  assumes "pack_ok p P xs"
  shows "sent_ok (buff P)" "sent_cells (buff P) = xs" "pack_bytes P = wire_bytes p (buff P)" "pack_bytes P \<le> room"
    "pack_bytes P = 0 \<longleftrightarrow> xs = []"
proof -
  show bytes: "pack_bytes P = wire_bytes p (buff P)" "pack_bytes P \<le> room" using assms by (simp_all add: pack_ok_def)
  have "sent_ok (buff P) \<and> sent_cells (buff P) = xs \<and> (xs = [] \<longleftrightarrow> buff P = [])"
  proof (cases "xs = []")
    case False
    then obtain B h cs where b: "buff P = B @ Hdr h # map Cell cs" "sent_ok B" "unat (num_cells h) = length cs"
      "xs = sent_cells B @ map (Pair (pkt_source h)) cs" "cs \<noteq> []"
      using assms by (auto simp: pack_ok_def)
    then show ?thesis using sent_append [OF b(2)] sent_group [OF b(3)] by simp
  qed (use assms in \<open>simp add: pack_ok_def\<close>)
  then show "sent_ok (buff P)" "sent_cells (buff P) = xs" "pack_bytes P = 0 \<longleftrightarrow> xs = []"
    using wire_bytes_length [of "buff P" p] bytes(1) by (cases "buff P"; auto)+
qed

text \<open>A new header with its first cell, and one more cell behind the last header.\<close>

lemma pack_ok_new_header:
  assumes "pack_ok p P xs" "pack_bytes P + 8 + Cell_packet_size p \<le> room"
  shows "pack_ok p (add_cell p now s (add_header (source_addr s) 1 P)) (xs @ [(source_addr s, make_cell p now s)])"
  using assms pack_ok_sent [OF assms(1)]
  by (auto simp: pack_ok_def add_cell_def add_header_def
      intro!: exI [of _ "buff P"] exI [of _ "\<lparr>pkt_source = source_addr s, num_cells = 1, src_data = 0\<rparr>"]
        exI [of _ "[make_cell p now s]"])

lemma count_cell_last:
  assumes "buff P = B @ Hdr h # map Cell cs" "pkt P = length B"
  shows "buff (count_cell P) = B @ Hdr (h\<lparr>num_cells := num_cells h + 1\<rparr>) # map Cell cs"
    "pack_bytes (count_cell P) = pack_bytes P" "pkt (count_cell P) = pkt P"
  using assms by (simp_all add: count_cell_def nth_append list_update_append)

lemma pack_ok_more:
  assumes "pack_ok p P xs" "xs \<noteq> []" "fst (last xs) = source_addr s" "pack_bytes P + Cell_packet_size p \<le> room"
  shows "pack_ok p (add_cell p now s (count_cell P)) (xs @ [(source_addr s, make_cell p now s)])"
proof -
  obtain B h cs where b: "buff P = B @ Hdr h # map Cell cs" "pkt P = length B" "sent_ok B" "cs \<noteq> []"
      "unat (num_cells h) = length cs" "xs = sent_cells B @ map (Pair (pkt_source h)) cs"
    using assms(1,2) by (auto simp: pack_ok_def)
  note c = count_cell_last [OF b(1,2)]
  have src: "pkt_source h = source_addr s" using assms(3) b(4,6) by (simp add: last_map)
  have "8 * int (length (buff P)) \<le> room"
    using wire_bytes_length [of "buff P" p] pack_ok_sent(3,4) [OF assms(1)] by simp
  then have "length cs < 2 ^ 16 - 1" using b(1) by (simp add: room_def)
  then have n: "unat (num_cells h + 1) = length cs + 1"
    using b(5) by (subst unat_add_lem [THEN iffD1]) (simp_all add: unat_word_ariths)
  have "pack_bytes (count_cell P) = wire_bytes p (buff (count_cell P))"
    using c b(1) pack_ok_sent(3) [OF assms(1)] by simp
  then show ?thesis
    unfolding pack_ok_def using assms(4) c b src n
    by (auto simp: add_cell_def intro!: exI [of _ B] exI [of _ "h\<lparr>num_cells := num_cells h + 1\<rparr>"]
        exI [of _ "cs @ [make_cell p now s]"])
qed

lemma pack_ok_empty_header:
  assumes "buff P = []" "pack_bytes P = 0"
  shows "pack_ok p (add_cell p now s (count_cell (add_header (source_addr s) 0 P))) [(source_addr s, make_cell p now s)]"
  using assms Cell_packet_size_bounds [of p]
  by (auto simp: pack_ok_def add_cell_def add_header_def count_cell_def room_def
      intro!: exI [of _ "\<lparr>pkt_source = source_addr s, num_cells = 1, src_data = 0\<rparr>"] exI [of _ "[make_cell p now s]"])

lemma pack_state_ok:
  assumes "pack_ok p P xs" "\<not> too_full p opened P" "opened \<Longrightarrow> xs \<noteq> [] \<and> fst (last xs) = source_addr s"
  shows "pack_ok p (pack_state p now opened False s P) (xs @ [(source_addr s, make_cell p now s)])"
  using assms pack_ok_new_header [OF assms(1)] pack_ok_more [OF assms(1)]
  by (auto simp: pack_state_def too_full_def room_def)

lemma pack_state_fresh:
  "pack_ok p (pack_state p now opened True s (clear_pack P)) [(source_addr s, make_cell p now s)]"
proof (cases opened)
  case True
  then show ?thesis using pack_ok_empty_header [of "clear_pack P" p now s] by (simp add: pack_state_def clear_pack_def)
next
  case False
  have "pack_ok p (clear_pack P) []" by (simp add: pack_ok_Nil clear_pack_def)
  from pack_ok_new_header [OF this] False show ?thesis
    using Cell_packet_size_bounds [of p] by (simp add: pack_state_def clear_pack_def room_def)
qed

section \<open>Packets sent\<close>

text \<open>The messages handed to the control link, with all cells in them, and the packet that is still
  being filled.\<close>

definition state_msg :: "Prot_Def \<Rightarrow> int \<Rightarrow> wire list \<Rightarrow> call" where
  "state_msg p linkid b = Reliable_Send_Msg linkid b (wire_bytes p b) (State_type p)"

definition msg_ok :: "Prot_Def \<Rightarrow> wire list \<Rightarrow> bool" where
  "msg_ok p b \<longleftrightarrow> sent_ok b \<and> wire_bytes p b \<le> room \<and> b \<noteq> []"

definition sending :: "Prot_Def \<Rightarrow> int \<Rightarrow> wire list list \<Rightarrow> Pack \<Rightarrow> (Node_ID \<times> State_Cell) list \<Rightarrow> bool" where
  "sending p linkid ms P xs \<longleftrightarrow> (\<forall>b \<in> set ms. msg_ok p b) \<and>
     (\<exists>ys. pack_ok p P ys \<and> xs = concat (map sent_cells ms) @ ys \<and> (xs \<noteq> [] \<longrightarrow> ys \<noteq> []))"

lemma sending_empty: "sending p linkid [] empty_pack []"
  by (simp add: sending_def pack_ok_Nil empty_pack_def)

lemma send_pack_calls:
  "pack_ok p P xs \<Longrightarrow> send_pack p linkid P d = emit (state_msg p linkid (buff P)) d"
  by (simp add: send_pack_def state_msg_def pack_ok_sent(3))

lemma pack_ok_msg: "pack_ok p P xs \<Longrightarrow> xs \<noteq> [] \<Longrightarrow> msg_ok p (buff P)"
  using pack_ok_sent [of p P xs] by (auto simp: msg_ok_def)

text \<open>One state more: the packet is sent first if the state does not fit.\<close>

lemma sending_step:
  assumes "sending p linkid ms P xs" "opened \<Longrightarrow> xs \<noteq> [] \<and> fst (last xs) = source_addr s"
    and "fresh = too_full p opened P"
  shows "sending p linkid (if fresh then ms @ [buff P] else ms)
      (pack_state p now opened fresh s (if fresh then clear_pack P else P)) (xs @ [(source_addr s, make_cell p now s)])"
    "fresh \<Longrightarrow> send_pack p linkid P d = emit (state_msg p linkid (buff P)) d"
proof -
  obtain ys where ys: "pack_ok p P ys" "xs = concat (map sent_cells ms) @ ys" "xs \<noteq> [] \<longrightarrow> ys \<noteq> []"
    "\<forall>b \<in> set ms. msg_ok p b"
    using assms(1) by (auto simp: sending_def)
  show "fresh \<Longrightarrow> send_pack p linkid P d = emit (state_msg p linkid (buff P)) d"
    using send_pack_calls [OF ys(1)] by blast
  show "sending p linkid (if fresh then ms @ [buff P] else ms)
      (pack_state p now opened fresh s (if fresh then clear_pack P else P)) (xs @ [(source_addr s, make_cell p now s)])"
  proof (cases fresh)
    case True
    then have "ys \<noteq> []"
      using assms(3) ys(1) Cell_packet_size_bounds [of p] by (auto simp: too_full_def pack_ok_Nil split: if_splits)
    with True ys pack_ok_msg [OF ys(1)] pack_ok_sent(2) [OF ys(1)] pack_state_fresh [of p now opened s P]
    show ?thesis by (auto simp: sending_def)
  next
    case False
    have "opened \<Longrightarrow> ys \<noteq> [] \<and> fst (last ys) = source_addr s" using assms(2) ys(2,3) by auto
    then have "pack_ok p (pack_state p now opened False s P) (ys @ [(source_addr s, make_cell p now s)])"
      using pack_state_ok [OF ys(1)] False assms(3) by simp
    with False ys show ?thesis by (auto simp: sending_def)
  qed
qed

section \<open>All states to a new neighbor\<close>

definition emits :: "call list \<Rightarrow> daemon \<Rightarrow> daemon" where
  "emits cs d = d\<lparr>calls := calls d @ cs\<rparr>"

lemma emits_simps [simp]:
  "emits [] d = d" "emit c (emits cs d) = emits (cs @ [c]) d" "wall_clock (emits cs d) = wall_clock d"
  "calls (emits cs d) = calls d @ cs" "emits cs' (emits cs d) = emits (cs @ cs') d"
  by (simp_all add: emits_def emit_def)

definition cell_of :: "Prot_Def \<Rightarrow> sp_time \<Rightarrow> State_Data \<Rightarrow> Node_ID \<times> State_Cell" where
  "cell_of p now s = (source_addr s, make_cell p now s)"

definition sending_all ::
  "Prot_Def \<Rightarrow> int \<Rightarrow> daemon \<Rightarrow> (Node_ID \<times> State_Cell) list \<Rightarrow> Pack \<times> daemon \<Rightarrow> bool" where
  "sending_all p linkid d0 xs Pd \<longleftrightarrow> (\<exists>ms. snd Pd = emits (map (state_msg p linkid) ms) d0 \<and> sending p linkid ms (fst Pd) xs)"

lemma send_all_state_sending:
  assumes "sending_all p linkid d0 xs Pd" "opened \<Longrightarrow> xs \<noteq> [] \<and> fst (last xs) = source_addr s"
  shows "sending_all p linkid d0 (xs @ [cell_of p (wall_clock d0) s]) (send_all_state p linkid opened s Pd)"
proof -
  obtain P d where Pd: "Pd = (P, d)" by (cases Pd)
  obtain ms where ms: "d = emits (map (state_msg p linkid) ms) d0" "sending p linkid ms P xs"
    using assms(1) Pd by (auto simp: sending_all_def)
  have now: "wall_clock d = wall_clock d0" using ms(1) by simp
  have S: "sending p linkid (if too_full p opened P then ms @ [buff P] else ms)
      (pack_state p (wall_clock d0) opened (too_full p opened P) s (if too_full p opened P then clear_pack P else P))
      (xs @ [(source_addr s, make_cell p (wall_clock d0) s)])"
    "too_full p opened P \<Longrightarrow> send_pack p linkid P d = emit (state_msg p linkid (buff P)) d"
    using sending_step [OF ms(2) assms(2) refl] by blast+
  show ?thesis
  proof (cases "too_full p opened P")
    case True
    then show ?thesis using S Pd ms(1)
      by (auto simp: sending_all_def send_all_state_def Let_def cell_of_def intro!: exI [of _ "ms @ [buff P]"])
  next
    case False
    then show ?thesis using S(1) Pd ms(1)
      by (auto simp: sending_all_def send_all_state_def Let_def cell_of_def intro!: exI [of _ ms])
  qed
qed

lemma send_all_rest_sending:
  assumes "sending_all p linkid d0 xs Pd" "xs \<noteq> []" "fst (last xs) = k" "\<forall>s \<in> set ss. source_addr s = k"
  shows "sending_all p linkid d0 (xs @ map (cell_of p (wall_clock d0)) ss) (fold (send_all_state p linkid True) ss Pd)"
  using assms
proof (induction ss arbitrary: xs Pd)
  case (Cons s ss)
  have "sending_all p linkid d0 (xs @ [cell_of p (wall_clock d0) s]) (send_all_state p linkid True s Pd)"
    using send_all_state_sending [OF Cons.prems(1)] Cons.prems(2-4) by simp
  from Cons.IH [OF this] Cons.prems(4) show ?case by (simp add: cell_of_def)
qed simp

lemma send_all_chain_sending:
  assumes "sending_all p linkid d0 xs Pd" "chain_ok k c"
  shows "sending_all p linkid d0 (xs @ map (cell_of p (wall_clock d0)) (stdhash_vals (states c)))
    (send_all_chain p linkid c Pd)"
proof (cases "stdhash_vals (states c)")
  case Nil
  then show ?thesis using assms(1) by (simp add: send_all_chain_def)
next
  case (Cons s rest)
  have k: "\<forall>x \<in> set (s # rest). source_addr x = k"
    using assms(2) unfolding Cons [symmetric] by (auto simp: chain_ok_def stdhash_vals_def state_key_def)
  have "sending_all p linkid d0 (xs @ [cell_of p (wall_clock d0) s]) (send_all_state p linkid False s Pd)"
    using send_all_state_sending [OF assms(1)] by simp
  from send_all_rest_sending [OF this _ _, of k rest] k Cons show ?thesis
    by (simp add: send_all_chain_def cell_of_def)
qed

lemma send_all_chains_sending:
  assumes "sending_all p linkid d0 xs Pd" "\<forall>c \<in> set cs. \<exists>k. chain_ok k c"
  shows "sending_all p linkid d0 (xs @ map (cell_of p (wall_clock d0)) (concat (map (\<lambda>c. stdhash_vals (states c)) cs)))
    (fold (send_all_chain p linkid) cs Pd)"
  using assms
proof (induction cs arbitrary: xs Pd)
  case (Cons c cs)
  then obtain k where "chain_ok k c" by auto
  from Cons.IH [OF send_all_chain_sending [OF Cons.prems(1) this]] Cons.prems(2) show ?case by simp
qed simp

lemma sending_finished:
  assumes "sending_all p linkid d0 xs (P, d)"
  shows "\<exists>ms. (if pack_bytes P \<noteq> 0 then send_pack p linkid P d else d) = emits (map (state_msg p linkid) ms) d0 \<and>
    (\<forall>b \<in> set ms. msg_ok p b) \<and> concat (map sent_cells ms) = xs"
proof -
  obtain ms ys where ms: "d = emits (map (state_msg p linkid) ms) d0" "\<forall>b \<in> set ms. msg_ok p b"
    "pack_ok p P ys" "xs = concat (map sent_cells ms) @ ys"
    using assms by (auto simp: sending_all_def sending_def)
  note Q = pack_ok_sent [OF ms(3)]
  show ?thesis
  proof (cases "ys = []")
    case True
    then show ?thesis using ms Q(5) by auto
  next
    case False
    then show ?thesis
      using ms Q(2,5) pack_ok_msg [OF ms(3)] send_pack_calls [OF ms(3), of linkid d]
      by (auto intro!: exI [of _ "ms @ [buff P]"])
  qed
qed

lemma Net_Send_State_All_sends:
  assumes "table_ok (All_States p d)" "control_link_connected d linkid"
  shows "\<exists>ms. Net_Send_State_All linkid p d = Inr (emits (map (state_msg p linkid) ms) d) \<and>
    (\<forall>b \<in> set ms. msg_ok p b) \<and>
    concat (map sent_cells ms) = map (cell_of p (wall_clock d)) (all_states (All_States p d))"
proof -
  let ?xs = "map (cell_of p (wall_clock d)) (all_states (All_States p d))"
  obtain P d1 where Pd: "fold (send_all_chain p linkid) (stdhash_vals (All_States p d)) (empty_pack, d) = (P, d1)"
    by (cases "fold (send_all_chain p linkid) (stdhash_vals (All_States p d)) (empty_pack, d)")
  have "sending_all p linkid d [] (empty_pack, d)"
    using sending_empty by (auto simp: sending_all_def intro!: exI [of _ "[]"])
  moreover have "\<forall>c \<in> set (stdhash_vals (All_States p d)). \<exists>k. chain_ok k c"
    using assms(1) by (fastforce simp: table_ok_def stdhash_vals_def)
  ultimately have "sending_all p linkid d ([] @ ?xs) (fold (send_all_chain p linkid) (stdhash_vals (All_States p d)) (empty_pack, d))"
    unfolding all_states_def by (rule send_all_chains_sending)
  then have "sending_all p linkid d ?xs (P, d1)" by (simp only: Pd append_Nil)
  from sending_finished [OF this] Pd assms(2) show ?thesis by (auto simp: Net_Send_State_All_def)
qed

end
