(* ===== verification/Flood_Updates.thy ===== *)
theory Flood_Updates
  imports Flood_Send
begin

text \<open>
  Sending the buffered changes to the neighbors: no change is lost. For every connected neighbor
  that needs a change, the change is either in a packet handed to that neighbor's control link or
  still in the buffer, unmarked for that neighbor, with another round scheduled.
\<close>

section \<open>Marks\<close>

definition marked :: "Prot_Def \<Rightarrow> nat \<Rightarrow> state_ptr list \<Rightarrow> daemon \<Rightarrow> daemon" where
  "marked p i ks d = fold (mark_informed p i) ks d"

lemma marked_simps [simp]: "marked p i [] d = d" "marked p i (ks @ ks') d = marked p i ks' (marked p i ks d)"
  "marked p i (k # ks) d = marked p i ks (mark_informed p i k d)"
  by (simp_all add: marked_def)

lemma emit_mark_informed: "emit c (mark_informed p i k d) = mark_informed p i k (emit c d)"
  by (cases p) (simp_all add: mark_informed_def emit_def)

lemma emit_marked: "emit c (marked p i ks d) = marked p i ks (emit c d)"
  by (induction ks arbitrary: d) (simp_all add: emit_mark_informed)

lemma marked_facts:
  "All_States q (marked p i ks d) = All_States q d" "same_nodes d (marked p i ks d)"
  "q \<noteq> p \<Longrightarrow> Changed_States q (marked p i ks d) = Changed_States q d"
  "calls (marked p i ks d) = calls d" "Time_queue (marked p i ks d) = Time_queue d"
  "monotonic_clock (marked p i ks d) = monotonic_clock d"
proof (induction ks arbitrary: d)
  case (Cons k ks)
  have m: "calls (mark_informed p i k d) = calls d" "Time_queue (mark_informed p i k d) = Time_queue d"
    "monotonic_clock (mark_informed p i k d) = monotonic_clock d" for d
    by (cases p; simp add: mark_informed_def)+
  {
    case 1 show ?case using Cons by (simp add: mark_informed_facts)
  next
    case 2 show ?case using same_nodes_trans [OF mark_informed_facts(2) Cons(2)] by simp
  next
    case 3 then show ?case using Cons by (simp add: mark_informed_facts)
  next
    case 4 show ?case using Cons m by simp
  next
    case 5 show ?case using Cons m by simp
  next
    case 6 show ?case using Cons m by simp
  }
qed simp_all

lemma tables_ok_marked: "tables_ok d \<Longrightarrow> tables_ok (marked p i ks d)"
  by (induction ks arbitrary: d) (simp_all add: tables_ok_mark_informed)

text \<open>Who is marked after the marking of a list of states for neighbor \<open>i\<close>.\<close>

definition informed :: "Prot_Def \<Rightarrow> daemon \<Rightarrow> state_ptr \<Rightarrow> nat \<Rightarrow> bool option" where
  "informed p d ptr j = map_option (\<lambda>cg. is_informed j (mask cg)) (Find_Changed_State (Changed_States p d) (fst ptr) (snd ptr))"

lemma Find_Changed_State_mask:
  assumes "tables_ok d" "Find_Changed_State (Changed_States p d) s t = Some cg"
  shows "length (mask cg) = 8"
proof -
  have "(s, cg) \<in> set (Changed_States p d)"
    using assms(2) by (auto simp: Find_Changed_State_def find_Some_iff in_set_conv_nth)
  then show ?thesis using tables_okD(3) [OF assms(1), of p] by (auto simp: changed_ok_def MAX_NEIGHBORS_def)
qed

lemma informed_mark_informed:
  assumes "tables_ok d" "i < MAX_NEIGHBORS"
  shows "informed p (mark_informed p i k d) ptr j = (if ptr = k \<and> j = i then map_option (\<lambda>_. True) (informed p d ptr j) else informed p d ptr j)"
proof -
  let ?f = "\<lambda>cg :: Changed_State. cg\<lparr>mask := set_informed i (mask cg)\<rparr>"
  have find: "Find_Changed_State (Changed_States p (mark_informed p i k d)) s t =
      (if s = fst k \<and> t = snd k then map_option ?f (Find_Changed_State (Changed_States p d) (fst k) (snd k))
       else Find_Changed_State (Changed_States p d) s t)" for s t
    unfolding mark_informed_facts(4) by (rule Find_Changed_State_modify) simp
  have inf: "is_informed j (set_informed i (mask cg)) \<longleftrightarrow> j = i \<or> is_informed j (mask cg)"
    if "Find_Changed_State (Changed_States p d) s t = Some cg" for s t cg
    using assms(2) Find_Changed_State_mask [OF assms(1) that] by (intro is_informed_set) (simp add: MAX_NEIGHBORS_def)
  show ?thesis
  proof (cases "ptr = k")
    case True
    then show ?thesis using find [of "fst k" "snd k"] inf [of "fst k" "snd k"]
      by (cases "Find_Changed_State (Changed_States p d) (fst k) (snd k)") (auto simp: informed_def)
  next
    case False
    then show ?thesis using find [of "fst ptr" "snd ptr"] by (auto simp: informed_def prod_eq_iff)
  qed
qed

lemma informed_marked:
  assumes "tables_ok d" "i < MAX_NEIGHBORS"
  shows "informed p (marked p i ks d) ptr j =
    (if ptr \<in> set ks \<and> j = i then map_option (\<lambda>_. True) (informed p d ptr j) else informed p d ptr j)"
  using assms(1)
proof (induction ks arbitrary: d)
  case (Cons k ks)
  note M = informed_mark_informed [OF Cons.prems assms(2)]
  have "tables_ok (mark_informed p i k d)" using tables_ok_mark_informed [OF Cons.prems] .
  from Cons.IH [OF this] show ?case by (auto simp: M option.map_comp comp_def)
qed simp

section \<open>One neighbor\<close>

definition ptr_cell :: "Prot_Def \<Rightarrow> daemon \<Rightarrow> state_ptr \<Rightarrow> Node_ID \<times> State_Cell" where
  "ptr_cell p d ptr = cell_of p (wall_clock d) (the (Find_State (All_States p d) (fst ptr) (snd ptr)))"

text \<open>The state of the loop: messages sent, states packed and marked, and the current packet.\<close>

definition updating :: "Prot_Def \<Rightarrow> int \<Rightarrow> nat \<Rightarrow> daemon \<Rightarrow> wire list list \<Rightarrow> state_ptr list \<Rightarrow> Pack \<Rightarrow> daemon \<Rightarrow> bool" where
  "updating p linkid i d0 ms ks P d \<longleftrightarrow>
     d = marked p i ks (emits (map (state_msg p linkid) ms) d0) \<and> pkt_cnt P = length ms \<and>
     sending p linkid ms P (map (ptr_cell p d0) ks)"

lemma updating_daemon:
  assumes "updating p linkid i d0 ms ks P d"
  shows "wall_clock d = wall_clock d0" "All_States q d = All_States q d0" "same_nodes d0 d"
    "q \<noteq> p \<Longrightarrow> Changed_States q d = Changed_States q d0"
    "calls d = calls d0 @ map (state_msg p linkid) ms" "Time_queue d = Time_queue d0"
    "monotonic_clock d = monotonic_clock d0"
proof -
  have e: "same_nodes d0 (emits cs d0)" "Time_queue (emits cs d0) = Time_queue d0" "All_States q (emits cs d0) = All_States q d0"
    "Changed_States q (emits cs d0) = Changed_States q d0" "monotonic_clock (emits cs d0) = monotonic_clock d0" for cs
    by (cases q; simp add: emits_def same_nodes_def)+
  have d: "d = marked p i ks (emits (map (state_msg p linkid) ms) d0)" using assms by (simp add: updating_def)
  show s: "same_nodes d0 d" unfolding d using same_nodes_trans [OF e(1) marked_facts(2)] .
  show "wall_clock d = wall_clock d0" using s by (simp add: same_nodes_def)
  show "All_States q d = All_States q d0" "q \<noteq> p \<Longrightarrow> Changed_States q d = Changed_States q d0"
    "calls d = calls d0 @ map (state_msg p linkid) ms" "Time_queue d = Time_queue d0"
    "monotonic_clock d = monotonic_clock d0"
    unfolding d by (simp_all add: marked_facts e)
qed

definition finished :: "Prot_Def \<Rightarrow> int \<Rightarrow> nat \<Rightarrow> daemon \<Rightarrow> wire list list \<Rightarrow> state_ptr list \<Rightarrow> daemon \<Rightarrow> bool" where
  "finished p linkid i d0 ms ks d \<longleftrightarrow>
     d = marked p i ks (emits (map (state_msg p linkid) ms) d0) \<and> (\<forall>b \<in> set ms. msg_ok p b) \<and>
     concat (map sent_cells ms) = map (ptr_cell p d0) ks"

lemma updating_step:
  assumes up: "updating p linkid i d0 ms ks P d"
    and s: "Find_State (All_States p d) (fst ptr) (snd ptr) = Some s" and ok: "table_ok (All_States p d0)"
    and opened: "opened \<Longrightarrow> ks \<noteq> [] \<and> fst (last ks) = fst ptr"
    and known: "\<And>k. k \<in> set ks \<Longrightarrow> Find_State (All_States p d0) (fst k) (snd k) \<noteq> None"
    and fresh: "fresh = too_full p opened P"
  shows "updating p linkid i d0 (if fresh then ms @ [buff P] else ms) (ks @ [ptr])
      (pack_state p (wall_clock d) opened fresh s (if fresh then clear_pack P else P))
      (mark_informed p i ptr (if fresh then send_pack p linkid P d else d))"
    "fresh \<Longrightarrow> finished p linkid i d0 (ms @ [buff P]) ks (send_pack p linkid P d)"
proof -
  let ?xs = "map (ptr_cell p d0) ks"
  have D: "d = marked p i ks (emits (map (state_msg p linkid) ms) d0)" "pkt_cnt P = length ms" "sending p linkid ms P ?xs"
    using up by (simp_all add: updating_def)
  note U = updating_daemon [OF up]
  have src: "source_addr x = fst k" if "Find_State (All_States p d0) (fst k) (snd k) = Some x" for k x
    using Find_State_key [OF ok that] by (simp add: state_key_def prod_eq_iff)
  have s0: "Find_State (All_States p d0) (fst ptr) (snd ptr) = Some s" using s U(2) by simp
  have last: "opened \<Longrightarrow> ?xs \<noteq> [] \<and> fst (last ?xs) = source_addr s"
  proof -
    assume "opened"
    then have k: "ks \<noteq> []" "fst (last ks) = fst ptr" "last ks \<in> set ks" using opened by auto
    with known obtain x where "Find_State (All_States p d0) (fst (last ks)) (snd (last ks)) = Some x" by blast
    with k src s0 show ?thesis by (auto simp: last_map ptr_cell_def cell_of_def)
  qed
  have cell: "ptr_cell p d0 ptr = (source_addr s, make_cell p (wall_clock d) s)"
    using s0 U(1) by (simp add: ptr_cell_def cell_of_def)
  have send: "fresh \<Longrightarrow> send_pack p linkid P d = emit (state_msg p linkid (buff P)) d"
    using sending_step(2) [OF D(3) last fresh] by blast
  then show "updating p linkid i d0 (if fresh then ms @ [buff P] else ms) (ks @ [ptr])
      (pack_state p (wall_clock d) opened fresh s (if fresh then clear_pack P else P))
      (mark_informed p i ptr (if fresh then send_pack p linkid P d else d))"
    using sending_step(1) [OF D(3) last fresh] D(1,2) cell
    by (auto simp: updating_def emit_marked clear_pack_def pack_state_def add_cell_def add_header_def count_cell_def)
  obtain ys where ys: "pack_ok p P ys" "?xs = concat (map sent_cells ms) @ ys" "?xs \<noteq> [] \<longrightarrow> ys \<noteq> []"
      "\<forall>b \<in> set ms. msg_ok p b"
    using D(3) by (auto simp: sending_def)
  show "finished p linkid i d0 (ms @ [buff P]) ks (send_pack p linkid P d)" if fresh
  proof -
    have "ys \<noteq> []"
      using that fresh ys(1) Cell_packet_size_bounds [of p] by (auto simp: too_full_def pack_ok_Nil split: if_splits)
    then show ?thesis
      using ys pack_ok_msg [OF ys(1)] pack_ok_sent(2) [OF ys(1)] send [OF that] D(1)
      by (auto simp: finished_def emit_marked)
  qed
qed

definition needed :: "nat \<Rightarrow> Changed_State \<Rightarrow> bool" where
  "needed i cg \<longleftrightarrow> \<not> is_informed i (mask cg)"

text \<open>The result of a loop: how many packets, which states, and whether the limit was hit.\<close>

definition updated ::
  "Prot_Def \<Rightarrow> int \<Rightarrow> nat \<Rightarrow> daemon \<Rightarrow> state_ptr list \<Rightarrow> state_ptr list \<Rightarrow> bool \<Rightarrow> Pack \<Rightarrow> daemon \<Rightarrow> bool" where
  "updated p linkid i d0 ks todo stop P d \<longleftrightarrow> (\<exists>ms ks'. set ks' \<subseteq> set todo \<and>
     (if stop then length ms = 6 \<and> finished p linkid i d0 ms (ks @ ks') d
      else length ms \<le> 5 \<and> updating p linkid i d0 ms (ks @ ks') P d \<and> ks' = todo))"

lemma updated_stop:
  "set ks' \<subseteq> set todo \<Longrightarrow> length ms = 6 \<Longrightarrow> finished p linkid i d0 ms (ks @ ks') d \<Longrightarrow>
   updated p linkid i d0 ks todo True P d"
  unfolding updated_def if_True by blast

lemma updated_go:
  "length ms \<le> 5 \<Longrightarrow> updating p linkid i d0 ms (ks @ todo) P d \<Longrightarrow> updated p linkid i d0 ks todo False P d"
  unfolding updated_def by force

lemma updated_cases:
  assumes "updated p linkid i d0 ks todo stop P d"
  obtains (stop) ms ks' where "stop" "set ks' \<subseteq> set todo" "length ms = 6" "finished p linkid i d0 ms (ks @ ks') d"
  | (go) ms where "\<not> stop" "length ms \<le> 5" "updating p linkid i d0 ms (ks @ todo) P d"
  using assms by (auto simp: updated_def split: if_splits)

lemma updated_append:
  assumes "updated p linkid i d0 (ks @ ks1) todo stop P d"
  shows "updated p linkid i d0 ks (ks1 @ todo) stop P d"
  using assms
proof (cases rule: updated_cases)
  case (stop ms ks')
  then show ?thesis by (auto intro!: updated_stop [of "ks1 @ ks'"])
next
  case (go ms)
  then show ?thesis by (auto intro: updated_go)
qed

lemma updated_Cons: "updated p linkid i d0 (ks @ [k]) todo stop P d \<Longrightarrow> updated p linkid i d0 ks (k # todo) stop P d"
  using updated_append [of p linkid i d0 ks "[k]"] by simp

lemma send_source_updates:
  assumes "updating p linkid i d0 ms ks P d" "table_ok (All_States p d0)" "length ms \<le> 5"
    and "\<forall>cg \<in> set cgs. fst (state cg) = src \<and> Find_State (All_States p d0) (fst (state cg)) (snd (state cg)) \<noteq> None"
    and "opened \<Longrightarrow> ks \<noteq> [] \<and> fst (last ks) = src"
    and "\<forall>k \<in> set ks. Find_State (All_States p d0) (fst k) (snd k) \<noteq> None"
  shows "\<exists>stop P' d'. send_source p linkid i opened cgs P d = Inr (stop, P', d') \<and>
    updated p linkid i d0 ks (map state (filter (needed i) cgs)) stop P' d'"
  using assms
proof (induction cgs arbitrary: ms ks P d opened)
  case Nil
  then show ?case by (auto simp: updated_def)
next
  case (Cons cg cgs)
  note U = updating_daemon [OF Cons.prems(1)]
  have rest: "\<forall>cg \<in> set cgs. fst (state cg) = src \<and> Find_State (All_States p d0) (fst (state cg)) (snd (state cg)) \<noteq> None"
    using Cons.prems(4) by (metis list.set_intros(2))
  show ?case
  proof (cases "is_informed i (mask cg)")
    case True
    from Cons.IH [OF Cons.prems(1-3) rest Cons.prems(5,6)] True show ?thesis by (simp add: needed_def)
  next
    case False
    obtain s where s: "Find_State (All_States p d) (fst (state cg)) (snd (state cg)) = Some s" "fst (state cg) = src"
      using Cons.prems(4) U(2) by auto
    define fresh where "fresh = too_full p opened P"
    have op: "opened \<Longrightarrow> ks \<noteq> [] \<and> fst (last ks) = fst (state cg)" using Cons.prems(5) s(2) by simp
    have kn: "\<And>k. k \<in> set ks \<Longrightarrow> Find_State (All_States p d0) (fst k) (snd k) \<noteq> None" using Cons.prems(6) by blast
    have S: "updating p linkid i d0 (if fresh then ms @ [buff P] else ms) (ks @ [state cg])
        (pack_state p (wall_clock d) opened fresh s (if fresh then clear_pack P else P))
        (mark_informed p i (state cg) (if fresh then send_pack p linkid P d else d))"
      "fresh \<Longrightarrow> finished p linkid i d0 (ms @ [buff P]) ks (send_pack p linkid P d)"
      using updating_step [OF Cons.prems(1) s(1) Cons.prems(2) op kn fresh_def] by blast+
    show ?thesis
    proof (cases "fresh \<and> 5 < pkt_cnt (clear_pack P)")
      case True
      then have "length ms = 5"
        using Cons.prems(1,3) by (simp add: updating_def clear_pack_def)
      with True S(2) have "updated p linkid i d0 ks (map state (filter (needed i) (cg # cgs))) True (clear_pack P) (send_pack p linkid P d)"
        by (intro updated_stop [of "[]" _ "ms @ [buff P]"]) auto
      moreover have "send_source p linkid i opened (cg # cgs) P d = Inr (True, clear_pack P, send_pack p linkid P d)"
        using True False s by (simp add: Let_def fresh_def)
      ultimately show ?thesis by blast
    next
      case go: False
      then have len: "length (if fresh then ms @ [buff P] else ms) \<le> 5"
        using Cons.prems(1,3) by (auto simp: updating_def clear_pack_def)
      have known: "\<forall>k \<in> set (ks @ [state cg]). Find_State (All_States p d0) (fst k) (snd k) \<noteq> None"
        using Cons.prems(4,6) by auto
      obtain stop P' d' where R: "send_source p linkid i True cgs
          (pack_state p (wall_clock d) opened fresh s (if fresh then clear_pack P else P))
          (mark_informed p i (state cg) (if fresh then send_pack p linkid P d else d)) = Inr (stop, P', d')"
        "updated p linkid i d0 (ks @ [state cg]) (map state (filter (needed i) cgs)) stop P' d'"
        using Cons.IH [OF S(1) Cons.prems(2) len rest _ known, of True] s(2) by auto
      then have "updated p linkid i d0 ks (map state (filter (needed i) (cg # cgs))) stop P' d'"
        using False updated_Cons by (simp add: needed_def)
      moreover have "send_source p linkid i opened (cg # cgs) P d = Inr (stop, P', d')"
        using R(1) False s go by (simp add: Let_def fresh_def split del: if_split) (simp split: if_splits)
      ultimately show ?thesis by blast
    qed
  qed
qed

fun needed_list :: "nat \<Rightarrow> changed_table \<Rightarrow> Spines_ID list \<Rightarrow> Spines_ID list \<Rightarrow> state_ptr list" where
  "needed_list i changes done_srcs [] = []"
| "needed_list i changes done_srcs (src # srcs) =
     (if src \<in> set done_srcs then needed_list i changes done_srcs srcs
      else map state (filter (needed i) (map snd (filter (\<lambda>(k, cg). k = src) changes))) @
        needed_list i changes (src # done_srcs) srcs)"

definition needed_states :: "Prot_Def \<Rightarrow> nat \<Rightarrow> daemon \<Rightarrow> state_ptr set" where
  "needed_states p i d = {state cg |k cg. (k, cg) \<in> set (Changed_States p d) \<and> needed i cg}"

lemma set_needed_list:
  "set (needed_list i changes done_srcs srcs) =
    {state cg |k cg. (k, cg) \<in> set changes \<and> needed i cg \<and> k \<in> set srcs - set done_srcs}"
proof (induction i changes done_srcs srcs rule: needed_list.induct)
  case (2 i changes done_srcs src srcs)
  let ?S = "\<lambda>A. {state cg |k cg. (k, cg) \<in> set changes \<and> needed i cg \<and> k \<in> A}"
  have one: "set (map state (filter (needed i) (map snd (filter (\<lambda>(k, cg). k = src) changes)))) = ?S {src}"
    by force
  have new: "?S (set (src # srcs) - set done_srcs) = ?S {src} \<union> ?S (set srcs - set (src # done_srcs))"
    if "src \<notin> set done_srcs"
  proof -
    have "set (src # srcs) - set done_srcs = {src} \<union> (set srcs - set (src # done_srcs))" using that by auto
    then show ?thesis by blast
  qed
  have old: "?S (set (src # srcs) - set done_srcs) = ?S (set srcs - set done_srcs)" if "src \<in> set done_srcs"
    using that by (simp add: insert_Diff_if)
  show ?case
  proof (cases "src \<in> set done_srcs")
    case True
    then show ?thesis unfolding old [OF True] using 2(1) [OF True] by simp
  next
    case False
    then show ?thesis unfolding new [OF False] needed_list.simps using 2(2) [OF False] one
      by (simp only: if_False set_append)
  qed
qed simp

lemma send_changes_updates:
  assumes "updating p linkid i d0 ms ks P d" "table_ok (All_States p d0)" "length ms \<le> 5"
    and "changed_ok (All_States p d0) changes"
    and "\<forall>k \<in> set ks. Find_State (All_States p d0) (fst k) (snd k) \<noteq> None"
  shows "\<exists>stop P' d'. send_changes p linkid i changes done_srcs srcs P d = Inr (stop, P', d') \<and>
    updated p linkid i d0 ks (needed_list i changes done_srcs srcs) stop P' d'"
  using assms
proof (induction srcs arbitrary: ms ks P d done_srcs)
  case Nil
  then have "updated p linkid i d0 ks [] False P d" using updated_go [of ms p linkid i d0 ks "[]"] by simp
  then show ?case by auto
next
  case (Cons src srcs)
  show ?case
  proof (cases "src \<in> set done_srcs")
    case True
    then show ?thesis using Cons.IH [OF Cons.prems] by simp
  next
    case False
    let ?cgs = "map snd (filter (\<lambda>(k, cg). k = src) changes)"
    let ?todo = "map state (filter (needed i) ?cgs)"
    have cgs: "\<forall>cg \<in> set ?cgs. fst (state cg) = src \<and> Find_State (All_States p d0) (fst (state cg)) (snd (state cg)) \<noteq> None"
      using Cons.prems(4) by (fastforce simp: changed_ok_def)
    obtain stop P1 d1 where R: "send_source p linkid i False ?cgs P d = Inr (stop, P1, d1)"
      "updated p linkid i d0 ks ?todo stop P1 d1"
      using send_source_updates [OF Cons.prems(1-3) cgs _ Cons.prems(5), of False] by auto
    from R(2) show ?thesis
    proof (cases rule: updated_cases)
      case (stop ms' ks')
      then have "updated p linkid i d0 ks (needed_list i changes done_srcs (src # srcs)) True P1 d1"
        using False by (auto intro!: updated_stop [of ks' _ ms'])
      then show ?thesis using False R(1) stop(1) by auto
    next
      case (go ms')
      have "\<forall>k \<in> set (ks @ ?todo). Find_State (All_States p d0) (fst k) (snd k) \<noteq> None"
        using Cons.prems(5) cgs by auto
      from Cons.IH [OF go(3) Cons.prems(2) go(2) Cons.prems(4) this, of "src # done_srcs"] obtain stop' P' d'
        where S: "send_changes p linkid i changes (src # done_srcs) srcs P1 d1 = Inr (stop', P', d')"
          "updated p linkid i d0 (ks @ ?todo) (needed_list i changes (src # done_srcs) srcs) stop' P' d'" by blast
      from updated_append [OF S(2)] S(1) R(1) False go(1) show ?thesis by auto
    qed
  qed
qed

lemma updating_finish:
  assumes "updating p linkid i d0 ms ks P d" "length ms \<le> 5"
  shows "\<exists>ms'. length ms' \<le> 6 \<and> finished p linkid i d0 ms' ks (if pack_bytes P \<noteq> 0 then send_pack p linkid P d else d)"
proof -
  have D: "d = marked p i ks (emits (map (state_msg p linkid) ms) d0)" "sending p linkid ms P (map (ptr_cell p d0) ks)"
    using assms(1) by (simp_all add: updating_def)
  obtain ys where ys: "pack_ok p P ys" "map (ptr_cell p d0) ks = concat (map sent_cells ms) @ ys" "\<forall>b \<in> set ms. msg_ok p b"
    using D(2) by (auto simp: sending_def)
  note Q = pack_ok_sent [OF ys(1)]
  show ?thesis
  proof (cases "ys = []")
    case True
    then show ?thesis using ys Q(5) D(1) assms(2) by (auto simp: finished_def intro!: exI [of _ ms])
  next
    case False
    then have "finished p linkid i d0 (ms @ [buff P]) ks (send_pack p linkid P d)"
      using ys Q(2) pack_ok_msg [OF ys(1)] send_pack_calls [OF ys(1), of linkid d] D(1)
      by (auto simp: finished_def emit_marked)
    then show ?thesis using False Q(5) assms(2) by (auto intro!: exI [of _ "ms @ [buff P]"])
  qed
qed

text \<open>One neighbor: at most six packets; they carry exactly the states that get marked; and unless
  the limit was hit, these are all states the neighbor needs.\<close>

lemma Net_Send_State_Updates_sends:
  assumes "tables_ok d" "neighbor_link d i = Inr linkid"
  shows "\<exists>ret d' ms ks. Net_Send_State_Updates p i d = Inr (ret, d') \<and> length ms \<le> 6 \<and>
    finished p linkid i d ms ks d' \<and> set ks \<subseteq> needed_states p i d \<and>
    (ret = 1 \<and> set ks = needed_states p i d \<or> ret = - 1)"
proof -
  let ?h = "Changed_States p d"
  have set: "set (needed_list i ?h [] (stdhash_keys ?h)) = needed_states p i d"
    by (force simp: set_needed_list needed_states_def stdhash_keys_def)
  have "updating p linkid i d [] [] empty_pack d"
    using sending_empty by (simp add: updating_def empty_pack_def)
  from send_changes_updates [OF this tables_okD(2) [OF assms(1)] _ tables_okD(3) [OF assms(1)], of "[]" "stdhash_keys ?h"]
  obtain stop P d1 where R: "send_changes p linkid i ?h [] (stdhash_keys ?h) empty_pack d = Inr (stop, P, d1)"
    "updated p linkid i d [] (needed_list i ?h [] (stdhash_keys ?h)) stop P d1" by auto
  from R(2) show ?thesis
  proof (cases rule: updated_cases)
    case (stop ms ks)
    then have "Net_Send_State_Updates p i d = Inr (- 1, d1)" using R(1) assms(2) by (simp add: Net_Send_State_Updates_def)
    with stop set show ?thesis
      by (intro exI [of _ "- 1"] exI [of _ d1] exI [of _ ms] exI [of _ ks]) auto
  next
    case (go ms)
    then have "Net_Send_State_Updates p i d = Inr (1, if pack_bytes P \<noteq> 0 then send_pack p linkid P d1 else d1)"
      using R(1) assms(2) by (simp add: Net_Send_State_Updates_def)
    with updating_finish [OF go(3,2)] set show ?thesis by (metis append_Nil subset_refl)
  qed
qed

section \<open>All neighbors\<close>

text \<open>Neighbor \<open>i\<close> is connected, and \<open>l\<close> is the control link to it.\<close>

definition connected_link :: "daemon \<Rightarrow> nat \<Rightarrow> int \<Rightarrow> bool" where
  "connected_link d i l \<longleftrightarrow> (\<exists>nbr nd. Neighbor_Nodes d ! i = Some nbr \<and> Get_Node d nbr = Some nd \<and>
     Is_Connected_Neighbor2 d nd = Inr True \<and> neighbor_link d i = Inr l)"

text \<open>Every neighbor slot is empty, holds a node that is not connected, or one with a control link.\<close>

definition neighbors_ok :: "daemon \<Rightarrow> bool" where
  "neighbors_ok d \<longleftrightarrow> Num_Neighbors d \<le> MAX_NEIGHBORS \<and> (\<forall>i < Num_Neighbors d.
     case Neighbor_Nodes d ! i of
       None \<Rightarrow> True
     | Some nbr \<Rightarrow> (\<exists>nd. Get_Node d nbr = Some nd \<and> (Is_Connected_Neighbor2 d nd = Inr False \<or> (\<exists>l. connected_link d i l))))"

lemma Find_Changed_State_iff:
  assumes "changed_ok h c"
  shows "Find_Changed_State c s t = Some x \<longleftrightarrow> (s, x) \<in> set c \<and> state x = (s, t)"
  using assms
proof (induction c)
  case (Cons e c)
  obtain k y where e: "e = (k, y)" by (cases e)
  have c: "changed_ok h c" "fst (state y) = k" "state y \<notin> (\<lambda>(k, cg). state cg) ` set c"
    using Cons.prems by (auto simp: changed_ok_def e)
  then have "state x \<noteq> state y" if "(s, x) \<in> set c" using that by force
  with c Cons.IH show ?case by (auto simp: e Find_Changed_State_Cons prod_eq_iff)
qed simp

lemma same_connections:
  assumes "same_nodes d d'" "All_Edges d' = All_Edges d"
  shows "Get_Node d' = Get_Node d" "Is_Connected_Neighbor2 d' = Is_Connected_Neighbor2 d"
    "neighbor_link d' = neighbor_link d" "connected_link d' = connected_link d"
    "Neighbor_Nodes d' = Neighbor_Nodes d" "Num_Neighbors d' = Num_Neighbors d"
proof -
  have s: "Network_Legs d' = Network_Legs d" "My_Address d' = My_Address d" "All_Nodes d' = All_Nodes d"
    using assms(1) by (simp_all add: same_nodes_def)
  show n: "Neighbor_Nodes d' = Neighbor_Nodes d" "Num_Neighbors d' = Num_Neighbors d"
    using assms(1) by (simp_all add: same_nodes_def)
  show g: "Get_Node d' = Get_Node d" using s by (simp add: Get_Node_def fun_eq_iff)
  show c: "Is_Connected_Neighbor2 d' = Is_Connected_Neighbor2 d"
    unfolding Is_Connected_Neighbor2_def connected_edge_ok_def s n assms(2) ..
  show l: "neighbor_link d' = neighbor_link d" unfolding neighbor_link_def g c n s assms(2) ..
  show "connected_link d' = connected_link d" by (simp add: fun_eq_iff connected_link_def g c n l)
qed

lemma needed_informed:
  assumes "tables_ok d"
  shows "ptr \<in> needed_states p i d \<longleftrightarrow> informed p d ptr i = Some False"
proof -
  let ?h = "Changed_States p d"
  have ok: "changed_ok (All_States p d) ?h" using tables_okD(3) [OF assms] .
  have "ptr \<in> needed_states p i d \<longleftrightarrow> (\<exists>cg. (fst ptr, cg) \<in> set ?h \<and> state cg = ptr \<and> \<not> is_informed i (mask cg))"
    using ok by (force simp: needed_states_def needed_def changed_ok_def)
  moreover have "(fst ptr, cg) \<in> set ?h \<and> state cg = ptr \<longleftrightarrow> Find_Changed_State ?h (fst ptr) (snd ptr) = Some cg" for cg
    using ok Find_Changed_State_iff [of "All_States p d" ?h "fst ptr" "snd ptr" cg] by simp
  ultimately show ?thesis by (auto simp: informed_def)
qed

text \<open>The loop over the neighbors, up to slot \<open>i\<close>.\<close>

definition sent_to :: "Prot_Def \<Rightarrow> daemon \<Rightarrow> call list \<Rightarrow> int \<Rightarrow> state_ptr \<Rightarrow> bool" where
  "sent_to p d0 cs l ptr \<longleftrightarrow> (\<exists>b. state_msg p l b \<in> set cs \<and> msg_ok p b \<and> ptr_cell p d0 ptr \<in> set (sent_cells b))"

definition round :: "Prot_Def \<Rightarrow> daemon \<Rightarrow> nat \<Rightarrow> call list \<Rightarrow> bool \<times> daemon \<Rightarrow> bool" where
  "round p d0 i cs fd \<longleftrightarrow> (let (flag, d) = fd in
     same_nodes d0 d \<and> (\<forall>q. All_States q d = All_States q d0) \<and> tables_ok d \<and>
     (\<forall>q. q \<noteq> p \<longrightarrow> Changed_States q d = Changed_States q d0) \<and>
     Time_queue d = Time_queue d0 \<and> monotonic_clock d = monotonic_clock d0 \<and>
     calls d = calls d0 @ cs \<and> length cs \<le> 6 * i \<and>
     (\<forall>j ptr. i \<le> j \<longrightarrow> informed p d ptr j = informed p d0 ptr j) \<and>
     (\<forall>j < i. \<forall>l ptr. connected_link d0 j l \<longrightarrow> ptr \<in> needed_states p j d0 \<longrightarrow>
        sent_to p d0 cs l ptr \<or> flag \<and> informed p d ptr j = Some False))"

lemma sent_to_append: "sent_to p d0 cs l ptr \<Longrightarrow> sent_to p d0 (cs @ cs') l ptr"
  by (auto simp: sent_to_def)

lemma finished_daemon:
  assumes "finished p linkid i d0 ms ks d" "tables_ok d0"
  shows "same_nodes d0 d" "All_States q d = All_States q d0" "tables_ok d"
    "q \<noteq> p \<Longrightarrow> Changed_States q d = Changed_States q d0" "Time_queue d = Time_queue d0"
    "monotonic_clock d = monotonic_clock d0" "calls d = calls d0 @ map (state_msg p linkid) ms"
    "i < MAX_NEIGHBORS \<Longrightarrow> informed p d ptr j =
      (if ptr \<in> set ks \<and> j = i then map_option (\<lambda>_. True) (informed p d0 ptr j) else informed p d0 ptr j)"
    "ptr \<in> set ks \<Longrightarrow> sent_to p d0 (map (state_msg p linkid) ms) linkid ptr"
proof -
  have d: "d = marked p i ks (emits (map (state_msg p linkid) ms) d0)" using assms(1) by (simp add: finished_def)
  have e: "same_nodes d0 (emits cs d0)" "Time_queue (emits cs d0) = Time_queue d0" "All_States q (emits cs d0) = All_States q d0"
    "Changed_States q (emits cs d0) = Changed_States q d0" "monotonic_clock (emits cs d0) = monotonic_clock d0" for cs q
    by (cases q; simp add: emits_def same_nodes_def)+
  have ok: "tables_ok (emits cs d0)" for cs
    using assms(2) e(3,4) by (subst tables_ok_cong [of _ d0]) (simp_all add: emits_def)
  show "same_nodes d0 d" unfolding d using same_nodes_trans [OF e(1) marked_facts(2)] .
  show "All_States q d = All_States q d0" "q \<noteq> p \<Longrightarrow> Changed_States q d = Changed_States q d0" "Time_queue d = Time_queue d0"
    "monotonic_clock d = monotonic_clock d0" "calls d = calls d0 @ map (state_msg p linkid) ms"
    unfolding d by (simp_all add: marked_facts e)
  show "tables_ok d" unfolding d by (intro tables_ok_marked ok)
  have inf: "informed p (emits cs d0) ptr j = informed p d0 ptr j" for cs by (simp add: informed_def e)
  show "i < MAX_NEIGHBORS \<Longrightarrow> informed p d ptr j =
      (if ptr \<in> set ks \<and> j = i then map_option (\<lambda>_. True) (informed p d0 ptr j) else informed p d0 ptr j)"
    unfolding d informed_marked [OF ok] inf ..
  show "sent_to p d0 (map (state_msg p linkid) ms) linkid ptr" if "ptr \<in> set ks"
  proof -
    have "ptr_cell p d0 ptr \<in> set (concat (map sent_cells ms))" using assms(1) that by (auto simp: finished_def)
    then show ?thesis using assms(1) by (auto simp: sent_to_def finished_def)
  qed
qed

lemma round_skip:
  assumes "round p d0 i cs (flag, d)" "\<And>l. \<not> connected_link d0 i l"
  shows "round p d0 (Suc i) cs (flag, d)"
  using assms by (auto simp: round_def less_Suc_eq)

lemma round_send:
  assumes R: "round p d0 i cs (flag, d)" and i: "i < MAX_NEIGHBORS" and link: "connected_link d0 i l" and ok: "tables_ok d0"
    and F: "finished p l i d ms ks d'" "length ms \<le> 6" "set ks \<subseteq> needed_states p i d"
    and ret: "ret = 1 \<and> set ks = needed_states p i d \<or> ret = (- 1 :: int)"
  shows "round p d0 (Suc i) (cs @ map (state_msg p l) ms) (flag \<or> ret < 0, d')"
proof -
  have D: "same_nodes d0 d" "\<And>q. All_States q d = All_States q d0" "tables_ok d"
    "\<And>q. q \<noteq> p \<Longrightarrow> Changed_States q d = Changed_States q d0" "Time_queue d = Time_queue d0"
    "monotonic_clock d = monotonic_clock d0" "calls d = calls d0 @ cs" "length cs \<le> 6 * i"
    "\<And>j ptr. i \<le> j \<Longrightarrow> informed p d ptr j = informed p d0 ptr j"
    "\<And>j l ptr. j < i \<Longrightarrow> connected_link d0 j l \<Longrightarrow> ptr \<in> needed_states p j d0 \<Longrightarrow>
        sent_to p d0 cs l ptr \<or> flag \<and> informed p d ptr j = Some False"
    using R unfolding round_def Let_def prod.case by blast+
  note E = finished_daemon [OF F(1) D(3)]
  have cell: "ptr_cell p d = ptr_cell p d0"
    using D(1,2) by (simp add: ptr_cell_def same_nodes_def fun_eq_iff)
  have sent: "sent_to p d0 (cs @ map (state_msg p l) ms) l ptr" if "ptr \<in> set ks" for ptr
    using E(9) [OF that] cell by (auto simp: sent_to_def)
  have unique: "l' = l" if "connected_link d0 i l'" for l' using that link by (auto simp: connected_link_def)
  have need: "needed_states p i d = needed_states p i d0"
    using needed_informed [OF ok] needed_informed [OF D(3)] D(9) [of i] by auto
  have here: "sent_to p d0 (cs @ map (state_msg p l) ms) l ptr \<or> (flag \<or> ret < 0) \<and> informed p d' ptr i = Some False"
    if "ptr \<in> needed_states p i d0" for ptr
  proof (cases "ptr \<in> set ks")
    case True
    then show ?thesis using sent by blast
  next
    case False
    then have "ret = - 1" using ret that need by auto
    moreover have "informed p d ptr i = Some False" using needed_informed [OF D(3), of ptr p i] that need by simp
    ultimately show ?thesis using E(8) [OF i] False by simp
  qed
  have before: "sent_to p d0 (cs @ map (state_msg p l) ms) l' ptr \<or> (flag \<or> ret < 0) \<and> informed p d' ptr j = Some False"
    if "j < i" "connected_link d0 j l'" "ptr \<in> needed_states p j d0" for j l' ptr
    using D(10) [OF that] sent_to_append [of p d0 cs l' ptr] E(8) [OF i, of ptr j] that(1) by auto
  have "same_nodes d0 d'" using same_nodes_trans [OF D(1) E(1)] .
  moreover have "\<forall>q. All_States q d' = All_States q d0" "\<forall>q. q \<noteq> p \<longrightarrow> Changed_States q d' = Changed_States q d0"
    using D(2,4) E(2,4) by metis+
  moreover have "length (cs @ map (state_msg p l) ms) \<le> 6 * Suc i" using D(8) F(2) by simp
  moreover have "calls d' = calls d0 @ (cs @ map (state_msg p l) ms)" using D(7) E(7) by simp
  moreover have "\<forall>j ptr. Suc i \<le> j \<longrightarrow> informed p d' ptr j = informed p d0 ptr j" using E(8) [OF i] D(9) by auto
  moreover have "\<forall>j < Suc i. \<forall>l' ptr. connected_link d0 j l' \<longrightarrow> ptr \<in> needed_states p j d0 \<longrightarrow>
      sent_to p d0 (cs @ map (state_msg p l) ms) l' ptr \<or> (flag \<or> ret < 0) \<and> informed p d' ptr j = Some False"
    using here before unique less_Suc_eq by metis
  ultimately show ?thesis
    unfolding round_def Let_def prod.case using E(3,5,6) D(5,6) by metis
qed

lemma send_updates_to_round:
  assumes R: "round p d0 i cs (flag, d)" and i: "i < Num_Neighbors d0" and ok: "tables_ok d0" "neighbors_ok d0"
  shows "\<exists>flag' d' cs'. send_updates_to p i (flag, d) = Inr (flag', d') \<and> round p d0 (Suc i) cs' (flag', d')"
proof -
  have D: "same_nodes d0 d" "All_Edges d = All_Edges d0" "tables_ok d"
    using R by (auto simp: round_def dest: spec [of _ Edge_Prot_Def])
  note C = same_connections [OF D(1,2)]
  have max: "i < MAX_NEIGHBORS" using i ok(2) by (simp add: neighbors_ok_def)
  show ?thesis
  proof (cases "Neighbor_Nodes d0 ! i")
    case None
    then have "\<not> connected_link d0 i l" for l by (simp add: connected_link_def)
    from round_skip [OF R this] None C(5) show ?thesis by (auto simp: send_updates_to_def)
  next
    case (Some nbr)
    then obtain nd where nd: "Get_Node d0 nbr = Some nd"
      "Is_Connected_Neighbor2 d0 nd = Inr False \<or> (\<exists>l. connected_link d0 i l)"
      using ok(2) i unfolding neighbors_ok_def by fastforce
    show ?thesis
    proof (cases "\<exists>l. connected_link d0 i l")
      case False
      then have "Is_Connected_Neighbor2 d0 nd = Inr False" using nd(2) by blast
      with round_skip [OF R] False nd(1) Some C show ?thesis by (auto simp: send_updates_to_def)
    next
      case True
      then obtain l where l: "connected_link d0 i l" by blast
      then have con: "Is_Connected_Neighbor2 d0 nd = Inr True" "neighbor_link d0 i = Inr l"
        using nd(1) Some by (auto simp: connected_link_def)
      have "neighbor_link d i = Inr l" using con(2) C(3) by simp
      from Net_Send_State_Updates_sends [OF D(3) this, of p] obtain ret d' ms ks where
        N: "Net_Send_State_Updates p i d = Inr (ret, d')" "length ms \<le> 6" "finished p l i d ms ks d'"
          "set ks \<subseteq> needed_states p i d" "ret = 1 \<and> set ks = needed_states p i d \<or> ret = - 1" by blast
      from round_send [OF R max l ok(1) N(3,2,4,5)] N(1) con(1) nd(1) Some C show ?thesis
        by (auto simp: send_updates_to_def)
    qed
  qed
qed

lemma send_updates_rounds:
  assumes "tables_ok d0" "neighbors_ok d0" "n \<le> Num_Neighbors d0"
  shows "\<exists>flag d cs. fold_res (send_updates_to p) [0..<n] (False, d0) = Inr (flag, d) \<and> round p d0 n cs (flag, d)"
  using assms(3)
proof (induction n)
  case 0
  have "round p d0 0 [] (False, d0)" using assms(1) by (simp add: round_def)
  then show ?case by auto
next
  case (Suc n)
  then obtain flag d cs where IH: "fold_res (send_updates_to p) [0..<n] (False, d0) = Inr (flag, d)" "round p d0 n cs (flag, d)"
    by auto
  from send_updates_to_round [OF IH(2) _ assms(1,2)] Suc.prems IH(1) show ?case by (auto simp: fold_res_append)
qed

lemma changed_ok_Nil [simp]: "changed_ok h []"
  by (simp add: changed_ok_def)

lemma tables_ok_put_changed:
  assumes "tables_ok d" "changed_ok (All_States p d) h"
  shows "tables_ok (put_changed p h d)"
proof -
  have "changed_ok (All_States q (put_changed p h d)) (Changed_States q (put_changed p h d))" for q
    using tables_okD(3) [OF assms(1), of q] assms(2) by simp
  moreover have "nodes_ok (put_changed p h d)"
    using tables_okD(1) [OF assms(1)] nodes_ok_same_nodes same_nodes_put(2) by blast
  moreover have "Get_Node (put_changed p h d) = Get_Node d" "All_Edges (put_changed p h d) = All_Edges d"
    by (cases p; simp add: Get_Node_def fun_eq_iff)+
  ultimately show ?thesis using assms(1) by (simp add: tables_ok_def)
qed

lemma tables_ok_queue_event: "tables_ok (queue_event f k a t d) = tables_ok d"
  by (rule tables_ok_cong) (simp_all, simp_all add: queue_event_def)

text \<open>The whole function: nothing needed is lost.\<close>

lemma Send_State_Updates_lossless:
  assumes "tables_ok d" "neighbors_ok d" "queue_ok (Time_queue d)"
  shows "\<exists>d' cs. Send_State_Updates p d = Inr d' \<and> calls d' = calls d @ cs \<and> length cs \<le> 6 * Num_Neighbors d \<and>
    tables_ok d' \<and> same_nodes d d' \<and> (\<forall>q. All_States q d' = All_States q d) \<and>
    (Time_queue d' = Time_queue d \<or>
     Time_queue d' = E_queue (monotonic_clock d) Send_State_Updates_ev 0 (Some p) zero_timeout (Time_queue d)) \<and>
    (Changed_States p d' \<noteq> [] \<longrightarrow> E_in_queue Send_State_Updates_ev 0 (Some p) (Time_queue d')) \<and>
    (\<forall>i < Num_Neighbors d. \<forall>l ptr. connected_link d i l \<longrightarrow> ptr \<in> needed_states p i d \<longrightarrow>
       sent_to p d cs l ptr \<or> informed p d' ptr i = Some False)"
proof -
  obtain flag d1 cs where R: "fold_res (send_updates_to p) [0..<Num_Neighbors d] (False, d) = Inr (flag, d1)"
    "round p d (Num_Neighbors d) cs (flag, d1)"
    using send_updates_rounds [OF assms(1,2) order_refl] by blast
  have D: "\<And>q. All_States q d1 = All_States q d" "tables_ok d1" "Time_queue d1 = Time_queue d" "calls d1 = calls d @ cs"
    "length cs \<le> 6 * Num_Neighbors d" "same_nodes d d1" "monotonic_clock d1 = monotonic_clock d"
    "\<And>j l ptr. j < Num_Neighbors d \<Longrightarrow> connected_link d j l \<Longrightarrow> ptr \<in> needed_states p j d \<Longrightarrow>
        sent_to p d cs l ptr \<or> flag \<and> informed p d1 ptr j = Some False"
    using R(2) unfolding round_def Let_def prod.case by blast+
  show ?thesis
  proof (cases flag)
    case True
    define d' where "d' = queue_event Send_State_Updates_ev 0 (Some p) zero_timeout d1"
    have "Send_State_Updates p d = Inr d'" using R(1) True by (simp add: Send_State_Updates_def d'_def)
    moreover have "calls d' = calls d @ cs" using D(4) by (simp add: d'_def queue_event_def)
    moreover have "\<And>q. All_States q d' = All_States q d" "tables_ok d'"
      using D(1,2) by (simp_all add: d'_def tables_ok_queue_event)
    moreover have "E_in_queue Send_State_Updates_ev 0 (Some p) (Time_queue d')"
      using assms(3) D(3) by (simp add: d'_def queue_event_def E_in_queue_iff set_E_queue te_key_def)
    moreover have "informed p d' ptr j = informed p d1 ptr j" for ptr j by (simp add: d'_def informed_def)
    moreover have "same_nodes d d'" using same_nodes_trans [OF D(6)] by (simp add: d'_def)
    moreover have "Time_queue d' = E_queue (monotonic_clock d) Send_State_Updates_ev 0 (Some p) zero_timeout (Time_queue d)"
      using D(3,7) by (simp add: d'_def queue_event_def)
    ultimately show ?thesis using D(5,8) by (intro exI [of _ d'] exI [of _ cs]) metis
  next
    case False
    define d' where "d' = put_changed p [] d1"
    have "Send_State_Updates p d = Inr d'" using R(1) False
      by (simp add: Send_State_Updates_def d'_def Empty_Changed_States_def)
    moreover have "calls d' = calls d @ cs" using D(4) by (cases p) (simp_all add: d'_def)
    moreover have "All_States q d' = All_States q d" "Changed_States p d' = []" for q
      using D(1) by (simp_all add: d'_def)
    moreover have "tables_ok d'" using tables_ok_put_changed [OF D(2)] by (simp add: d'_def)
    moreover have "same_nodes d d'" using same_nodes_trans [OF D(6) same_nodes_put(2)] by (simp add: d'_def)
    moreover have "Time_queue d' = Time_queue d" using D(3) by (cases p) (simp_all add: d'_def)
    ultimately show ?thesis using D(5,8) False by (intro exI [of _ d'] exI [of _ cs]) blast
  qed
qed

end
