(* ===== verification/Route_Update.thy ===== *)
theory Route_Update
  imports Forward_Correct Flood_Updates
begin

text \<open>
  The timer function that installs a new routing regime, from the invariant of the replicated
  tables to the routes; and that daemons which have run it on the same topology form a network in
  which the forwarding theorems hold.
\<close>

text \<open>No live edge from a node to itself.\<close>

definition no_self_edges :: "daemon \<Rightarrow> bool" where
  "no_self_edges d \<longleftrightarrow> (\<forall>e \<in> set (all_states (All_Edges d)). state_value e \<noteq> - 1 \<longrightarrow> source_addr e \<noteq> dest_addr e)"

lemma tables_topology:
  assumes "tables_ok d" "no_self_edges d"
  shows "topology_ok d"
proof -
  let ?h = "All_Edges d"
  have t: "table_ok ?h" and n: "nodes_ok d" using tables_ok_All_Edges [OF assms(1)] tables_okD(1) [OF assms(1)] by blast+
  have known: "i \<in> set (All_Nodes_by_ID d)" if "Get_Node d i \<noteq> None" for i using Get_Node_known [OF n] that by blast
  have edges: "source_addr e \<in> set (All_Nodes_by_ID d) \<and> dest_addr e \<in> set (All_Nodes_by_ID d)"
    if "e \<in> set (all_states ?h)" for e
    using tables_okD(4) [OF assms(1)] in_all_states [OF t] that known by blast
  have "edge_cost ?h x x = None" for x
  proof (cases "Find_State ?h x x")
    case (Some e)
    then have "source_addr e = x" "dest_addr e = x" using Find_State_key [OF t Some] by (simp_all add: state_key_def)
    with Some in_all_states [OF t, of e] assms(2) show ?thesis by (auto simp: edge_cost_def no_self_edges_def)
  qed (simp add: edge_cost_def)
  with t n edges show ?thesis by (simp add: topology_ok_def nodes_ok_def)
qed

lemma E_dequeue_removed:
  assumes "queue_ok q"
  shows "queue_ok (snd (E_dequeue f c a q))" "\<not> E_in_queue f c a (snd (E_dequeue f c a q))"
proof -
  show "queue_ok (snd (E_dequeue f c a q))" using E_dequeue_ok [OF assms] by simp
  have "distinct (map te_key q)" using assms by (simp add: queue_ok_def)
  then show "\<not> E_in_queue f c a (snd (E_dequeue f c a q))" by (auto simp: E_dequeue_spec E_in_queue_iff)
qed

lemma Set_Routes_installs:
  assumes "tables_ok d" "neighbors_ok d" "queue_ok (Time_queue d)" "no_self_edges d"
  shows "\<exists>d2 rr d'. Set_Routes d = Inr d' \<and> tables_ok d' \<and> same_nodes d d' \<and> All_Edges d' = All_Edges d \<and>
    \<not> E_in_queue Set_Routes_ev 0 None (Time_queue d') \<and>
    topology_ok d2 \<and> same_nodes d d2 \<and> All_Edges d2 = All_Edges d \<and> RR_Init d2 = Inr rr \<and> Current_Routing d' = Some rr"
proof -
  let ?q = "snd (E_dequeue Set_Routes_ev 0 None (Time_queue d))"
  define d1 where "d1 = d\<lparr>Schedule_Set_Route := False, Time_queue := ?q\<rparr>"
  have s1: "same_nodes d d1" "All_Edges d1 = All_Edges d" "Time_queue d1 = ?q" by (simp_all add: d1_def same_nodes_def)
  have "tables_ok d1" using assms(1) by (subst tables_ok_cong [of d1 d]) (auto simp: d1_def, (case_tac p; simp)+)
  moreover have "neighbors_ok d1" using assms(2) unfolding neighbors_ok_def same_connections [OF s1(1,2)] .
  moreover have q1: "queue_ok (Time_queue d1)" using E_dequeue_removed(1) [OF assms(3)] s1(3) by simp
  ultimately obtain d2 where d2: "Send_State_Updates Edge_Prot_Def d1 = Inr d2" "tables_ok d2" "same_nodes d1 d2"
    "\<forall>q. All_States q d2 = All_States q d1"
    "Time_queue d2 = Time_queue d1 \<or>
     Time_queue d2 = E_queue (monotonic_clock d1) Send_State_Updates_ev 0 (Some Edge_Prot_Def) zero_timeout (Time_queue d1)"
    using Send_State_Updates_lossless [of d1 Edge_Prot_Def] by blast
  have e2: "All_Edges d2 = All_Edges d" using d2(4) s1(2) by (metis All_States.simps(1))
  have s2: "same_nodes d d2" using same_nodes_trans [OF s1(1) d2(3)] .
  have t2: "topology_ok d2" using tables_topology [OF d2(2)] assms(4) e2 by (simp add: no_self_edges_def)
  then obtain rr where rr: "RR_Init d2 = Inr rr" using RR_Init_table by blast
  define d' where "d' = (let d3 = d2\<lparr>Current_Routing := Some rr\<rparr> in if KR_Flags d3 \<noteq> 0 then emit KR_Update_All_Routes d3 else d3)"
  have "Set_Routes d = Inr d'" using d2(1) rr by (simp add: Set_Routes_def d1_def d'_def Let_def)
  moreover have "Current_Routing d' = Some rr" "All_Edges d' = All_Edges d" "Time_queue d' = Time_queue d2" "same_nodes d2 d'"
    using e2 by (simp_all add: d'_def Let_def same_nodes_def)
  moreover have "tables_ok d'" using d2(2)
    by (subst tables_ok_cong [of d' d2]) (auto simp: d'_def Let_def, (case_tac p; simp)+)
  moreover have "\<not> E_in_queue Set_Routes_ev 0 None (Time_queue d2)"
    using d2(5) E_dequeue_removed(2) [OF assms(3), of Set_Routes_ev 0 None] q1 s1(3)
    by (auto simp: E_in_queue_iff set_E_queue te_key_def)
  moreover have "same_nodes d d'" using same_nodes_trans [OF s2 calculation(5)] .
  ultimately show ?thesis using t2 s2 e2 rr
    by (intro exI [of _ d2] exI [of _ rr] exI [of _ d']) simp
qed

text \<open>What a lookup in the new regime gives.\<close>

definition best_route :: "Node_ID \<Rightarrow> Node_ID graph \<Rightarrow> Node_ID \<Rightarrow> Node_ID \<Rightarrow> Route \<Rightarrow> bool" where
  "best_route me ec s t r \<longleftrightarrow>
     (if \<exists>q. path_from_to ec s t q
      then \<exists>p. shortest_path ec s t p \<and> cost r = walk_cost ec p \<and>
        distance r = int16_of (int (length p) - 1) \<and> forwarder r = succ_on me p
      else r = no_route)"

lemma RR_Init_best:
  assumes "topology_ok d" "RR_Init d = Inr rr" "s \<in> set (All_Nodes_by_ID d)" "t \<in> set (All_Nodes_by_ID d)"
  shows "\<exists>r. RR_Find_Route rr s t b = Inr (Some r) \<and> best_route (My_Address d) (edge_cost (All_Edges d)) s t r"
proof -
  let ?ids = "All_Nodes_by_ID d" and ?ec = "edge_cost (All_Edges d)"
  obtain r where r: "RR_Find_Route rr s t b = Inr (Some r)"
    "case chosen_path ?ids ?ec s t of
       None \<Rightarrow> r = no_route
     | Some p \<Rightarrow> cost r = walk_cost ?ec p \<and> distance r = int16_of (int (length p) - 1) \<and> forwarder r = succ_on (My_Address d) p"
    using RR_Init_routes [OF assms(1,3,4), of b] assms(2) by auto
  have c: "case chosen_path ?ids ?ec s t of
      Some p \<Rightarrow> shortest_path ?ec s t p \<and> set p \<subseteq> set ?ids
    | None \<Rightarrow> \<not> (\<exists>q. path_from_to ?ec s t q)"
    using chosen_path_shortest [OF _ nonneg_edge_cost topology_edges_within [OF assms(1)] assms(3,4)] assms(1)
    by (simp add: topology_ok_def)
  show ?thesis
  proof (cases "chosen_path ?ids ?ec s t")
    case None
    then show ?thesis using r c by (auto simp: best_route_def)
  next
    case (Some p)
    then show ?thesis using r c by (auto simp: best_route_def shortest_path_def)
  qed
qed

lemma Set_Routes_best:
  assumes "tables_ok d" "neighbors_ok d" "queue_ok (Time_queue d)" "no_self_edges d"
  shows "\<exists>d'. Set_Routes d = Inr d' \<and> tables_ok d' \<and> \<not> E_in_queue Set_Routes_ev 0 None (Time_queue d') \<and>
    (\<forall>s \<in> set (All_Nodes_by_ID d). \<forall>t \<in> set (All_Nodes_by_ID d). \<exists>r.
       Find_Route d' s t = Inr (Some r) \<and> best_route (My_Address d) (edge_cost (All_Edges d)) s t r)"
proof -
  obtain d2 rr d' where D: "Set_Routes d = Inr d'" "tables_ok d'" "\<not> E_in_queue Set_Routes_ev 0 None (Time_queue d')"
    "topology_ok d2" "same_nodes d d2" "All_Edges d2 = All_Edges d" "RR_Init d2 = Inr rr" "Current_Routing d' = Some rr"
    using Set_Routes_installs [OF assms] by blast
  then have "\<exists>r. Find_Route d' s t = Inr (Some r) \<and> best_route (My_Address d) (edge_cost (All_Edges d)) s t r"
    if "s \<in> set (All_Nodes_by_ID d)" "t \<in> set (All_Nodes_by_ID d)" for s t
    using RR_Init_best [OF D(4,7), of s t False] that by (auto simp: Find_Route_def same_nodes_def)
  with D(1-3) show ?thesis by blast
qed

text \<open>A network in which every daemon has just computed its routes, from tables that agree.\<close>

definition synchronized :: "(Node_ID \<Rightarrow> daemon) \<Rightarrow> Node_ID list \<Rightarrow> Node_ID graph \<Rightarrow> bool" where
  "synchronized db ids ec \<longleftrightarrow> (\<forall>v \<in> set ids. My_Address (db v) = v \<and> fst ` set (All_Nodes (db v)) = set ids \<and>
     edge_cost (All_Edges (db v)) = ec \<and> tables_ok (db v) \<and> neighbors_ok (db v) \<and>
     queue_ok (Time_queue (db v)) \<and> no_self_edges (db v))"

lemma synchronized_converged:
  assumes "synchronized db ids ec" "sorted_wrt (\<lambda>a b. Node_ID_cmp a b \<le> 0) ids" "distinct ids"
    and "\<And>v. v \<in> set ids \<Longrightarrow> Set_Routes (db v) = Inr (snd (net v))"
  shows "converged net ids ec"
  unfolding converged_def
proof
  fix v assume v: "v \<in> set ids"
  then have S: "My_Address (db v) = v" "fst ` set (All_Nodes (db v)) = set ids" "edge_cost (All_Edges (db v)) = ec"
    "tables_ok (db v)" "neighbors_ok (db v)" "queue_ok (Time_queue (db v))" "no_self_edges (db v)"
    using assms(1) by (auto simp: synchronized_def)
  have "nodes_ok (db v)" using tables_okD(1) [OF S(4)] .
  then have ids: "All_Nodes_by_ID (db v) = ids"
    using assms(2,3) S(2) by (intro node_cmp.sorted_unique) (auto simp: nodes_ok_def)
  obtain d2 rr where D: "same_nodes (db v) (snd (net v))" "topology_ok d2" "same_nodes (db v) d2"
      "All_Edges d2 = All_Edges (db v)" "RR_Init d2 = Inr rr" "Current_Routing (snd (net v)) = Some rr"
    using Set_Routes_installs [OF S(4-7)] assms(4) [OF v] by auto
  then show "My_Address (snd (net v)) = v \<and>
     (\<exists>d rr. topology_ok d \<and> All_Nodes_by_ID d = ids \<and> edge_cost (All_Edges d) = ec \<and> My_Address d = v \<and>
        RR_Init d = Inr rr \<and> Current_Routing (snd (net v)) = Some rr)"
    using S(1,3) ids by (auto simp: same_nodes_def)
qed

text \<open>The network after every daemon has run \<open>Set_Routes\<close>.\<close>

definition routed :: "(Node_ID \<Rightarrow> Source_Routing) \<Rightarrow> (Node_ID \<Rightarrow> daemon) \<Rightarrow> network" where
  "routed sr db v = (sr v, case Set_Routes (db v) of Inr d \<Rightarrow> d | Inl e \<Rightarrow> db v)"

lemma routed_converged:
  assumes "synchronized db ids ec" "sorted_wrt (\<lambda>a b. Node_ID_cmp a b \<le> 0) ids" "distinct ids"
  shows "converged (routed sr db) ids ec"
proof (rule synchronized_converged [OF assms])
  fix v assume "v \<in> set ids"
  then obtain d' where "Set_Routes (db v) = Inr d'"
    using assms(1) Set_Routes_installs [of "db v"] unfolding synchronized_def by blast
  then show "Set_Routes (db v) = Inr (snd (routed sr db v))" by (simp add: routed_def)
qed

end
