(* ===== verification/Flood_Schedule.thy ===== *)
theory Flood_Schedule
  imports Flood_Total
begin

text \<open>
  Whenever a change is in a buffer, the timer that floods the buffer is in the event queue: every
  operation that can fill a buffer or touch the queue keeps this.
\<close>

definition scheduled :: "daemon \<Rightarrow> bool" where
  "scheduled d \<longleftrightarrow> queue_ok (Time_queue d) \<and>
     (\<forall>p. Changed_States p d \<noteq> [] \<longrightarrow> E_in_queue Send_State_Updates_ev 0 (Some p) (Time_queue d))"

lemma scheduledD:
  "scheduled d \<Longrightarrow> queue_ok (Time_queue d)"
  "scheduled d \<Longrightarrow> Changed_States p d \<noteq> [] \<Longrightarrow> E_in_queue Send_State_Updates_ev 0 (Some p) (Time_queue d)"
  by (auto simp: scheduled_def)

lemma scheduled_cong:
  assumes "scheduled d" "Time_queue d' = Time_queue d" "\<And>p. Changed_States p d = [] \<Longrightarrow> Changed_States p d' = []"
  shows "scheduled d'"
  using assms unfolding scheduled_def by auto

lemma E_in_queue_E_queue:
  "queue_ok q \<Longrightarrow> E_in_queue f c a (E_queue now f' c' a' t q) \<longleftrightarrow> (f, c, a) = (f', c', a') \<or> E_in_queue f c a q"
  unfolding E_in_queue_iff by (auto simp: set_E_queue te_key_def)

lemma scheduled_queue_event:
  assumes "scheduled d"
  shows "scheduled (queue_event f c a t d)"
proof -
  have q: "Time_queue (queue_event f c a t d) = E_queue (monotonic_clock d) f c a t (Time_queue d)"
    by (simp add: queue_event_def)
  show ?thesis
    unfolding scheduled_def q queue_event_simps(2)
    using scheduledD [OF assms] E_queue_ok [OF scheduledD(1) [OF assms]] E_in_queue_E_queue [OF scheduledD(1) [OF assms]]
    by simp
qed

lemma scheduled_emit: "scheduled d \<Longrightarrow> scheduled (emit x d)"
  by (erule scheduled_cong) (simp, case_tac p, simp_all)

lemma scheduled_modify_state: "scheduled d \<Longrightarrow> scheduled (modify_state p ptr f d)"
  by (erule scheduled_cong) (simp_all, cases p, simp_all add: modify_state_def)

lemma modify_changed_Nil [simp]: "modify_changed h s t f = [] \<longleftrightarrow> h = []"
  by (cases "(h, s, t, f)" rule: modify_changed.cases) (auto split: if_splits)

lemma scheduled_mark_informed:
  assumes "scheduled d"
  shows "scheduled (mark_informed p i ptr d)"
  using assms
proof (rule scheduled_cong)
  show "Time_queue (mark_informed p i ptr d) = Time_queue d" by (cases p) (simp_all add: mark_informed_def)
  show "Changed_States q (mark_informed p i ptr d) = []" if "Changed_States q d = []" for q
    using that mark_informed_facts(3,4) by (cases "q = p") simp_all
qed

lemma scheduled_same:
  assumes "scheduled d" "Time_queue d' = Time_queue d" "Changed_Edges d' = Changed_Edges d"
    "Changed_Group_States d' = Changed_Group_States d"
  shows "scheduled d'"
  using assms(1,2)
proof (rule scheduled_cong)
  fix p assume "Changed_States p d = []"
  with assms(3,4) show "Changed_States p d' = []" by (cases p) auto
qed

lemma scheduled_Create_Node: "scheduled d \<Longrightarrow> Create_Node i d = Inr d' \<Longrightarrow> scheduled d'"
  by (rule scheduled_same, assumption) (auto simp: Create_Node_def Let_def split: if_splits)

lemma scheduled_Create_Edge: "scheduled d \<Longrightarrow> Create_Edge s t c b x d = Inr d' \<Longrightarrow> scheduled d'"
  by (rule scheduled_same, assumption)
    (auto simp: Create_Edge_def Let_def Link_State_LTS_inc_def split: if_splits)

lemma scheduled_get_or_create:
  "scheduled d \<Longrightarrow> get_or_create_node i d = Inr d' \<Longrightarrow> scheduled d'"
  "scheduled d \<Longrightarrow> get_or_create_edge s t d = Inr d' \<Longrightarrow> scheduled d'"
  "scheduled d \<Longrightarrow> get_or_create_group s t d = Inr d' \<Longrightarrow> scheduled d'"
  by (auto simp: get_or_create_node_def get_or_create_edge_def split: if_splits
      intro: scheduled_Create_Node scheduled_Create_Edge)
    (rule scheduled_same, assumption, auto simp: get_or_create_group_def Create_Group_def split: if_splits)

lemma buffer_change_not_Nil: "buffer_change me sender nd ptr h \<noteq> []"
  by (auto simp: buffer_change_def Let_def stdhash_insert_def)

text \<open>Filling the buffer queues the timer.\<close>

lemma scheduled_Add_to_changed_states:
  assumes "scheduled d" "Add_to_changed_states p sender ptr d = Inr d'"
  shows "scheduled d'"
proof -
  define d2 where "d2 = schedule_flood p (stamp_state p ptr d)"
  have s: "scheduled (stamp_state p ptr d)" using scheduled_modify_state [OF assms(1)] by (simp add: stamp_state_def)
  have 2: "scheduled d2" unfolding d2_def schedule_flood_def using s scheduled_queue_event by simp
  have in2: "E_in_queue Send_State_Updates_ev 0 (Some p) (Time_queue d2)"
  proof (cases "Changed_States p (stamp_state p ptr d) = []")
    case True
    then show ?thesis using E_in_queue_E_queue [OF scheduledD(1) [OF s]]
      by (simp add: d2_def schedule_flood_def queue_event_def)
  next
    case False
    then show ?thesis using scheduledD(2) [OF s] by (simp add: d2_def schedule_flood_def)
  qed
  obtain nd d3 where d3: "(if p = Groups_Prot_Def then group_changed (snd ptr) d2 else Inr d2) = Inr d3"
    and d': "d' = put_changed p (buffer_change (My_Address d) sender nd ptr (Changed_States p d3)) d3"
    using assms(2) unfolding Add_to_changed_states_def Let_def d2_def bind_res_Inr_iff by auto
  have 3: "scheduled d3 \<and> E_in_queue Send_State_Updates_ev 0 (Some p) (Time_queue d3)"
  proof (cases "p = Groups_Prot_Def")
    case True
    define d2' where "d2' = d2\<lparr>Current_Routing := map_option (\<lambda>rr. RR_Discard_Mcast_Neighbors rr (snd ptr)) (Current_Routing d2)\<rparr>"
    have "scheduled d2'" "Time_queue d2' = Time_queue d2"
      using scheduled_same [OF 2] by (simp_all add: d2'_def)
    moreover have "d3 = d2' \<or> (\<exists>c. d3 = queue_event KR_Set_Group_Route_ev c None zero_timeout d2')"
      using d3 True by (auto simp: group_changed_def Discard_Mcast_Neighbors_def d2'_def split: option.splits if_splits)
    moreover have "E_in_queue Send_State_Updates_ev 0 (Some p) (Time_queue (queue_event KR_Set_Group_Route_ev c None zero_timeout d2'))" for c
      using in2 E_in_queue_E_queue [OF scheduledD(1) [OF calculation(1)]] calculation(2) by (simp add: queue_event_def)
    ultimately show ?thesis using in2 scheduled_queue_event by metis
  next
    case False
    then show ?thesis using d3 2 in2 by simp
  qed
  have "Time_queue d' = Time_queue d3" unfolding d' by (cases p) simp_all
  moreover have "Changed_States q d' = Changed_States q d3" if "q \<noteq> p" for q using that by (simp add: d')
  ultimately show ?thesis using 3 unfolding scheduled_def by metis
qed

section \<open>The contract, continued\<close>

locale scheduled_protocol = state_protocol +
  assumes cell_scheduled: "scheduled d \<Longrightarrow> process source sender c ty d = Inr (r, d') \<Longrightarrow> scheduled d'"
begin

lemma process_one_scheduled:
  assumes "scheduled d" "process_one process p sender ty source cell (d, b) = Inr (d', b')"
  shows "scheduled d'"
  using assms(2)
proof (cases rule: process_one_cases)
  case stale
  then show ?thesis using assms(1) by simp
next
  case (marked nd)
  then show ?thesis using scheduled_mark_informed [OF assms(1)] by simp
next
  case own
  then show ?thesis using cell_scheduled [OF assms(1)] by blast
next
  case (news ptr d1)
  then show ?thesis using scheduled_Add_to_changed_states cell_scheduled [OF assms(1)] by blast
qed

lemma process_cells_scheduled:
  assumes "scheduled d" "process_cells process p sender ty source n items (d, b) = Inr (d', b')"
  shows "scheduled d'"
  using assms
proof (induction n arbitrary: items d b)
  case (Suc n)
  from Suc.prems(2) obtain c rest where items: "items = Cell c # rest"
    by (cases "(process, p, sender, ty, source, Suc n, items, (d, b))" rule: process_cells.cases) auto
  with Suc.prems(2) obtain d1 b1 where
    one: "process_one process p sender ty source c (d, b) = Inr (d1, b1)" and
    more: "process_cells process p sender ty source n rest (d1, b1) = Inr (d', b')"
    by (auto simp: bind_res_Inr_iff)
  show ?case using Suc.IH [OF process_one_scheduled [OF Suc.prems(1) one] more] .
qed simp

lemma process_items_scheduled:
  assumes "scheduled d" "process_items process p sender ty items (d, b) = Inr (d', b')"
  shows "scheduled d'"
  using assms
proof (induction items arbitrary: d b rule: measure_induct_rule [where f = length])
  case (less items)
  show ?case
  proof (cases items)
    case Nil
    then show ?thesis using less.prems by simp
  next
    case (Cons w rest)
    with less.prems(2) obtain h where w: "w = Hdr h" by (cases w) auto
    let ?h = "Process_state_header p (ARCH_ENDIAN d) ty h"
    from less.prems(2) obtain d1 b1 where
      cells: "process_cells process p sender ty (pkt_source ?h) (unat (num_cells ?h)) rest (d, b) = Inr (d1, b1)" and
      more: "process_items process p sender ty (drop (unat (num_cells ?h)) rest) (d1, b1) = Inr (d', b')"
      by (auto simp: Cons w Let_def bind_res_Inr_iff)
    show ?thesis
      using less.IH [OF _ process_cells_scheduled [OF less.prems(1) cells] more] Cons by simp
  qed
qed

end

lemma scheduled_Edge_cell:
  assumes "scheduled d" "Edge_Process_state_cell source sender c ty d = Inr (r, d')"
  shows "scheduled d'"
proof -
  obtain d1 where d1: "Edge_cell_objects source c d = Inr d1"
    using assms(2) unfolding Edge_Process_state_cell_def Let_def bind_res_Inr_iff by blast
  then have 1: "scheduled d1"
    unfolding Edge_cell_objects_def bind_res_Inr_iff using scheduled_get_or_create(1,2) assms(1) by blast
  define l where "l = (if Same_endian (ARCH_ENDIAN d) ty then cell_lts c else Flip_int16 (cell_lts c))"
  have lts: "scheduled (x\<lparr>Link_State_Update_LTS := y\<rparr>)" if "scheduled x" for x y
    by (rule scheduled_same [OF that]) simp_all
  have 2: "scheduled (Edge_cell_stamp source c l d1)"
    unfolding Edge_cell_stamp_def using 1 lts by (auto intro!: scheduled_modify_state)
  have foreign: "scheduled (Edge_cell_foreign source c l (Edge_cell_stamp source c l d1))"
    unfolding Edge_cell_foreign_def by (intro scheduled_emit scheduled_modify_state 2)
  have own: "scheduled x" if "Edge_cell_own source c (Edge_cell_stamp source c l d1) = Inr x" for x
    using that unfolding Edge_cell_own_def Link_State_LTS_inc_def Let_def prod.case
    by (elim scheduled_Add_to_changed_states [rotated]) (intro scheduled_modify_state lts 2)
  show ?thesis
    using assms(2) d1 foreign own
    by (auto simp: Edge_Process_state_cell_def Let_def l_def [symmetric] bind_res_Inr_iff split: if_splits)
qed

lemma scheduled_Groups_cell:
  assumes "scheduled d" "Groups_Process_state_cell source sender c ty d = Inr (r, d')"
  shows "scheduled d'"
  using assms(2) scheduled_get_or_create(3) [OF assms(1)] scheduled_modify_state scheduled_Add_to_changed_states
  unfolding Groups_Process_state_cell_def Let_def bind_res_Inr_iff
  by (auto simp: bind_res_Inr_iff split: if_splits) metis+

interpretation edge_sched: scheduled_protocol Edge_Prot_Def Edge_Process_state_cell
  by unfold_locales (rule scheduled_Edge_cell)

interpretation group_sched: scheduled_protocol Groups_Prot_Def Groups_Process_state_cell
  by unfold_locales (rule scheduled_Groups_cell)

end
