(* ===== verification/Flood_Packet.thy ===== *)
theory Flood_Packet
  imports Flood_Schedule
begin

text \<open>
  Whole packets: the lemmas on the cells of a packet, for whichever protocol its type names, put
  together with the link's acknowledgement timer and the scheduling of new routes.
\<close>

lemma process_items_prot:
  assumes "tables_ok d" "neighbor d sender k"
    and "process_items (Process_state_cell p) p sender ty items (d, b) = Inr (d', b')"
  shows "progress p k d d'"
    "(source, c) \<in> set (packet_cells p (ARCH_ENDIAN d) ty items) \<Longrightarrow> knows p d' source (dest c) (cell_ts c)"
    "scheduled d \<Longrightarrow> scheduled d'"
proof -
  have "progress p k d d' \<and> (\<forall>(source, c) \<in> set (packet_cells p (ARCH_ENDIAN d) ty items).
      knows p d' source (dest c) (cell_ts c))"
  proof (cases p)
    case Edge_Prot_Def
    then show ?thesis using edge_prot.process_items_progress [OF assms(1,2)] assms(3) by simp
  next
    case Groups_Prot_Def
    then show ?thesis using group_prot.process_items_progress [OF assms(1,2)] assms(3) by simp
  qed
  then show "progress p k d d'"
    "(source, c) \<in> set (packet_cells p (ARCH_ENDIAN d) ty items) \<Longrightarrow> knows p d' source (dest c) (cell_ts c)" by auto
  show "scheduled d \<Longrightarrow> scheduled d'"
  proof (cases p)
    case Edge_Prot_Def
    then show "scheduled d \<Longrightarrow> scheduled d'" using edge_sched.process_items_scheduled assms(3) by simp
  next
    case Groups_Prot_Def
    then show "scheduled d \<Longrightarrow> scheduled d'" using group_sched.process_items_scheduled assms(3) by simp
  qed
qed

lemma process_items_prot_total:
  assumes "tables_ok d" "ready d sender" "neighbor d sender k" "packet_ok p (ARCH_ENDIAN d) ty items"
  shows "\<exists>d' b'. process_items (Process_state_cell p) p sender ty items (d, b) = Inr (d', b') \<and> ready d' sender"
  using assms edge_total.process_items_total group_total.process_items_total by (cases p) auto

section \<open>Timers\<close>

text \<open>Two daemons that differ in their timers only.\<close>

definition same_tables :: "daemon \<Rightarrow> daemon \<Rightarrow> bool" where
  "same_tables d d' \<longleftrightarrow> same_nodes d d' \<and> (\<forall>q. All_States q d' = All_States q d \<and> Changed_States q d' = Changed_States q d) \<and>
     Current_Routing d' = Current_Routing d"

lemma same_tables_simps [simp]: "same_tables d d" "same_tables d (queue_event f c a t d)" "same_tables d (Schedule_Routes d)"
proof -
  show "same_tables d d" by (simp add: same_tables_def)
  show q: "same_tables d (queue_event f c a t d)" for f c a t
  proof -
    have "Current_Routing (queue_event f c a t d) = Current_Routing d" by (simp add: queue_event_def)
    then show ?thesis unfolding same_tables_def by simp
  qed
  have "same_tables d (x\<lparr>Schedule_Set_Route := b\<rparr>)" if "same_tables d x" for x b
  proof -
    have "All_States r (x\<lparr>Schedule_Set_Route := b\<rparr>) = All_States r x" "Changed_States r (x\<lparr>Schedule_Set_Route := b\<rparr>) = Changed_States r x" for r
      by (cases r; simp)+
    with that show ?thesis by (simp add: same_tables_def same_nodes_def)
  qed
  with q show "same_tables d (Schedule_Routes d)" by (simp add: Schedule_Routes_def same_tables_def)
qed

lemma same_tablesD:
  assumes "same_tables d d'"
  shows "tables_ok d' = tables_ok d" "ready d sender \<Longrightarrow> ready d' sender" "neighbor d' sender k = neighbor d sender k"
    "knows p d' s t stamp = knows p d s t stamp" "pending p k d' s t = pending p k d s t" "ARCH_ENDIAN d' = ARCH_ENDIAN d"
    "All_States q d' = All_States q d" "Changed_States q d' = Changed_States q d"
proof -
  have S: "same_nodes d d'" "\<And>q. All_States q d' = All_States q d" "\<And>q. Changed_States q d' = Changed_States q d"
    "Current_Routing d' = Current_Routing d"
    using assms by (auto simp: same_tables_def)
  have g: "Get_Node d' = Get_Node d" using S(1) by (simp add: same_nodes_def Get_Node_def fun_eq_iff)
  have e: "All_Edges d' = All_Edges d" using S(2) [of Edge_Prot_Def] by simp
  show "tables_ok d' = tables_ok d" using S by (intro tables_ok_cong) (auto simp: same_nodes_def)
  show "ready d sender \<Longrightarrow> ready d' sender"
    using S g e by (elim ready_cong) (auto simp: same_nodes_def)
  show "neighbor d' sender k = neighbor d sender k" by (simp add: neighbor_def g)
  show "knows p d' s t stamp = knows p d s t stamp" "pending p k d' s t = pending p k d s t"
    "All_States q d' = All_States q d" "Changed_States q d' = Changed_States q d"
    by (simp_all add: knows_def pending_def S)
  show "ARCH_ENDIAN d' = ARCH_ENDIAN d" using S(1) by (simp add: same_nodes_def)
qed

lemma scheduled_Schedule_Routes: "scheduled d \<Longrightarrow> scheduled (Schedule_Routes d)"
  using scheduled_same [OF scheduled_queue_event [of d Set_Routes_ev 0 None Reroute_Timeout], of "Schedule_Routes d"]
  by (cases "Schedule_Set_Route d") (simp_all add: Schedule_Routes_def)

section \<open>Packets\<close>

definition packet_prot :: "daemon \<Rightarrow> int32u \<Rightarrow> Prot_Def option" where
  "packet_prot d type = Get_Prot_Def (if Same_endian (ARCH_ENDIAN d) type then type else Flip_int32 type)"

lemma process_payload_prot:
  assumes "tables_ok d" "neighbor d sender k" "packet_prot d type = Some p"
    and "process_payload sender items type d = Inr d'"
  shows "progress p k d d'"
    "(source, c) \<in> set (packet_cells p (ARCH_ENDIAN d) type items) \<Longrightarrow> knows p d' source (dest c) (cell_ts c)"
    "scheduled d \<Longrightarrow> scheduled d'"
proof -
  obtain d1 b where P: "process_items (Process_state_cell p) p sender type items (d, False) = Inr (d1, b)"
    "d' = (if b \<and> Is_route_change p then Schedule_Routes d1 else d1)"
    using assms(3,4) by (auto simp: process_payload_def packet_prot_def bind_res_Inr_iff)
  note I = process_items_prot [OF assms(1,2) P(1)]
  have same: "same_tables d1 d'" using P(2) by simp
  note S = same_tablesD [OF same]
  have "known_le p d1 d'" "env_le d1 d'" "pending_le p k d1 d'" "news_pending p k d1 d'" "tables_ok d1 \<Longrightarrow> tables_ok d'"
    using S same env_le_same_nodes by (simp_all add: known_le_def pending_le_def news_pending_def same_tables_def)
  then have "progress p k d1 d'"
    using progressD(1) [OF I(1)] S(7,8) by (simp add: progress_def keeps_def)
  then show "progress p k d d'" using progress_trans [OF I(1)] by blast
  show "knows p d' source (dest c) (cell_ts c)" if "(source, c) \<in> set (packet_cells p (ARCH_ENDIAN d) type items)"
    using I(2) [OF that] S(4) by simp
  show "scheduled d \<Longrightarrow> scheduled d'" using I(3) P(2) scheduled_Schedule_Routes by simp
qed

text \<open>A packet with new data on a connected link.\<close>

lemma Process_state_packet_payload:
  assumes "connected lk" "process_ack \<noteq> - 1" "process_ack \<noteq> 0"
  shows "\<exists>lk1 d1. same_tables d d1 \<and> (scheduled d \<longrightarrow> scheduled d1) \<and>
    Process_state_packet lk items type process_ack d =
      bind_res (process_payload (lk_sender lk) items type d1) (\<lambda>d2. Inr (lk1, d2))"
proof (cases "E_in_queue Send_Ack_ev (link_id lk) None (Time_queue d)")
  case True
  then show ?thesis using assms by (intro exI [of _ lk] exI [of _ d]) (simp add: Process_state_packet_def)
next
  case False
  then show ?thesis using assms scheduled_queue_event
    by (intro exI [of _ "lk\<lparr>scheduled_ack := True\<rparr>"] exI [of _ "queue_event Send_Ack_ev (link_id lk) None short_timeout d"])
      (simp add: Process_state_packet_def)
qed

lemma Process_state_packet_total:
  assumes ok: "tables_ok d" "ready d (lk_sender lk)" "neighbor d (lk_sender lk) k"
    and lk: "connected lk" "process_ack \<noteq> - 1" "process_ack \<noteq> 0"
    and pkt: "packet_prot d type = Some p" "packet_ok p (ARCH_ENDIAN d) type items"
  shows "\<exists>lk' d'. Process_state_packet lk items type process_ack d = Inr (lk', d') \<and> ready d' (lk_sender lk)"
proof -
  obtain lk1 d1 where d1: "same_tables d d1"
    "Process_state_packet lk items type process_ack d = bind_res (process_payload (lk_sender lk) items type d1) (\<lambda>d2. Inr (lk1, d2))"
    using Process_state_packet_payload [OF lk] by blast
  note S = same_tablesD [OF d1(1)]
  have ok1: "tables_ok d1" "ready d1 (lk_sender lk)" "neighbor d1 (lk_sender lk) k" "packet_ok p (ARCH_ENDIAN d1) type items"
    using S(1,3,6) S(2) [OF ok(2)] ok pkt(2) by simp_all
  obtain d2 b where "process_items (Process_state_cell p) p (lk_sender lk) type items (d1, False) = Inr (d2, b)" "ready d2 (lk_sender lk)"
    using process_items_prot_total [OF ok1] by blast
  moreover have "packet_prot d1 type = Some p" using pkt(1) S(6) by (simp add: packet_prot_def)
  ultimately have "\<exists>d3. process_payload (lk_sender lk) items type d1 = Inr d3 \<and> ready d3 (lk_sender lk)"
    using same_tablesD(2) [OF same_tables_simps(3), of d2] by (simp add: process_payload_def packet_prot_def)
  with d1(2) show ?thesis by auto
qed

lemma Process_state_packet_prot:
  assumes ok: "tables_ok d" "neighbor d (lk_sender lk) k"
    and lk: "connected lk" "process_ack \<noteq> - 1" "process_ack \<noteq> 0"
    and pkt: "packet_prot d type = Some p" "Process_state_packet lk items type process_ack d = Inr (lk', d')"
  shows "progress p k d d'"
    "(source, c) \<in> set (packet_cells p (ARCH_ENDIAN d) type items) \<Longrightarrow> knows p d' source (dest c) (cell_ts c)"
    "scheduled d \<Longrightarrow> scheduled d'"
proof -
  obtain lk1 d1 where d1: "same_tables d d1" "scheduled d \<longrightarrow> scheduled d1"
    and P: "Process_state_packet lk items type process_ack d =
      bind_res (process_payload (lk_sender lk) items type d1) (\<lambda>d2. Inr (lk1, d2))"
    using Process_state_packet_payload [OF lk, of d items type] by blast
  have run: "process_payload (lk_sender lk) items type d1 = Inr d'"
    using P pkt(2) by (cases "process_payload (lk_sender lk) items type d1") simp_all
  note S = same_tablesD [OF d1(1)]
  have "tables_ok d1" "neighbor d1 (lk_sender lk) k" "packet_prot d1 type = Some p"
    using S(1,3,6) ok pkt(1) by (simp_all add: packet_prot_def)
  note P = process_payload_prot [OF this run]
  have "progress p k d d1"
    using S ok env_le_same_nodes d1(1)
    by (simp add: progress_def keeps_def known_le_def pending_le_def news_pending_def same_tables_def)
  then show "progress p k d d'" using progress_trans P(1) by blast
  show "knows p d' source (dest c) (cell_ts c)" if "(source, c) \<in> set (packet_cells p (ARCH_ENDIAN d) type items)"
    using P(2) that S(6) by simp
  show "scheduled d \<Longrightarrow> scheduled d'" using P(3) d1(2) by blast
qed

end
