(* ===== verification/Demo.thy ===== *)
theory Demo
  imports Route_Update Flood_Packet
begin

text \<open>
  A concrete network of two neighboring daemons, \<open>1\<close> and \<open>2\<close>, in which the hypotheses of the
  theorems hold: the edge between them has cost \<open>10\<close> in both directions, each has a connected network
  leg to the other, and the last change of its own edge is still to be flooded.
\<close>

text \<open>Executable forms of the invariants.\<close>

definition tables_check :: "daemon \<Rightarrow> bool" where
  "tables_check d \<longleftrightarrow> nodes_ok d \<and> table_ok (All_Edges d) \<and> table_ok (All_Groups_by_Node d) \<and>
     changed_ok (All_Edges d) (Changed_Edges d) \<and> changed_ok (All_Groups_by_Node d) (Changed_Group_States d) \<and>
     (\<forall>e \<in> set (all_states (All_Edges d)). Get_Node d (source_addr e) \<noteq> None \<and> Get_Node d (dest_addr e) \<noteq> None)"

lemma tables_check_ok:
  assumes "tables_check d"
  shows "tables_ok d"
proof -
  have t: "table_ok (All_Edges d)" using assms by (simp add: tables_check_def)
  have "table_ok (All_States p d) \<and> changed_ok (All_States p d) (Changed_States p d)" for p
    using assms by (cases p) (simp_all add: tables_check_def)
  moreover have "Get_Node d s \<noteq> None \<and> Get_Node d t \<noteq> None" if "Find_State (All_Edges d) s t \<noteq> None" for s t
  proof -
    obtain e where e: "Find_State (All_Edges d) s t = Some e" using \<open>Find_State (All_Edges d) s t \<noteq> None\<close> by blast
    then have "source_addr e = s" "dest_addr e = t" using Find_State_key [OF t] by (auto simp: state_key_def)
    with e in_all_states [OF t, of e] assms show ?thesis by (auto simp: tables_check_def)
  qed
  moreover have "nodes_ok d" using assms by (simp add: tables_check_def)
  ultimately show ?thesis unfolding tables_ok_def by blast
qed

section \<open>Two daemons\<close>

definition demo_edge :: "Node_ID \<Rightarrow> Node_ID \<Rightarrow> Network_Leg_ID option \<Rightarrow> State_Data" where
  "demo_edge s t l = \<lparr>source_addr = s, dest_addr = t, timestamp_sec = 100, timestamp_usec = 0,
     my_timestamp_sec = 100, my_timestamp_usec = 0, state_value = 10, age = 0,
     own_fields = Edge_Fields \<lparr>base_cost = 10, index = 0, lts = 1, leg = l\<rparr>\<rparr>"

definition demo_chain :: "Node_ID \<Rightarrow> Node_ID \<Rightarrow> Network_Leg_ID option \<Rightarrow> State_Chain" where
  "demo_chain s t l = \<lparr>address = s, states = [(t, demo_edge s t l)]\<rparr>"

definition demo :: "Node_ID \<Rightarrow> Node_ID \<Rightarrow> daemon" where
  "demo me other = \<lparr>ARCH_ENDIAN = 0x80000080, My_Address = me, wall_clock = \<lparr>sec = 200, usec = 0\<rparr>,
     monotonic_clock = \<lparr>sec = 50, usec = 0\<rparr>, Wireless = False, KR_Flags = 0,
     All_Nodes = [(me, new_node me), (other, (new_node other)\<lparr>edge := Some (me, other), neighbor_id := 0\<rparr>)],
     All_Nodes_by_ID = [1, 2], Neighbor_Nodes = Some other # replicate 255 None, Num_Neighbors = 1,
     Network_Legs = [((me, other), \<lparr>leg_id = (me, other), leg_edge = (me, other), leg_links = (\<lambda>_. None)(CONTROL_LINK := Some 7),
       leg_status = CONNECTED_LEG, leg_cost = 10, ctrl_link_id = 11, other_side_ctrl_link_id = 12, hellos_out = 0,
       last_recv_hello = \<lparr>sec = 199, usec = 0\<rparr>, connect_cnter = 6, last_connected = \<lparr>sec = 0, usec = 0\<rparr>\<rparr>)],
     All_Edges = [(me, demo_chain me other (Some (me, other))), (other, demo_chain other me None)],
     Changed_Edges = [(me, \<lparr>state = (me, other), mask = zero_mask\<rparr>)],
     All_Groups_by_Node = [], All_Groups_by_Name = [], Changed_Group_States = [],
     Link_State_Update_LTS = 1,
     Time_queue = [\<lparr>te_t = \<lparr>sec = 50, usec = 0\<rparr>, te_func = Send_State_Updates_ev, te_code = 0, te_data = Some Edge_Prot_Def\<rparr>],
     Schedule_Set_Route = False, Current_Routing = None, calls = []\<rparr>"

lemma demo_tables: "tables_ok (demo 1 2)" "tables_ok (demo 2 1)"
  by (rule tables_check_ok; code_simp)+

lemma demo_link: "connected_link (demo 1 2) 0 7" "connected_link (demo 2 1) 0 7"
proof -
  have "Neighbor_Nodes (demo 1 2) ! 0 = Some 2" "Get_Node (demo 1 2) 2 = Some ((new_node 2)\<lparr>edge := Some (1, 2), neighbor_id := 0\<rparr>)"
    "Is_Connected_Neighbor2 (demo 1 2) ((new_node 2)\<lparr>edge := Some (1, 2), neighbor_id := 0\<rparr>) = Inr True"
    "neighbor_link (demo 1 2) 0 = Inr 7"
    by code_simp+
  then show "connected_link (demo 1 2) 0 7" unfolding connected_link_def by blast
  have "Neighbor_Nodes (demo 2 1) ! 0 = Some 1" "Get_Node (demo 2 1) 1 = Some ((new_node 1)\<lparr>edge := Some (2, 1), neighbor_id := 0\<rparr>)"
    "Is_Connected_Neighbor2 (demo 2 1) ((new_node 1)\<lparr>edge := Some (2, 1), neighbor_id := 0\<rparr>) = Inr True"
    "neighbor_link (demo 2 1) 0 = Inr 7"
    by code_simp+
  then show "connected_link (demo 2 1) 0 7" unfolding connected_link_def by blast
qed

lemma neighbors_ok_one:
  assumes "Num_Neighbors d = 1" "connected_link d 0 l"
  shows "neighbors_ok d"
proof -
  obtain nbr nd where n: "Neighbor_Nodes d ! 0 = Some nbr" "Get_Node d nbr = Some nd"
    using assms(2) by (auto simp: connected_link_def)
  moreover have "\<exists>l. connected_link d 0 l" using assms(2) by blast
  ultimately show ?thesis using assms(1) by (simp add: neighbors_ok_def MAX_NEIGHBORS_def)
qed

lemma demo_neighbors: "neighbors_ok (demo 1 2)" "neighbors_ok (demo 2 1)"
  using demo_link by (auto intro!: neighbors_ok_one simp: demo_def)

lemma demo_queue: "queue_ok (Time_queue (demo me other))"
  by (simp add: demo_def queue_ok_def queue_sorted_def)

lemma demo_no_self: "no_self_edges (demo 1 2)" "no_self_edges (demo 2 1)"
  unfolding no_self_edges_def by code_simp+

definition demo_cost :: "Node_ID graph" where
  "demo_cost s t = (if (s, t) = (1, 2) \<or> (s, t) = (2, 1) then Some 10 else None)"

lemma demo_edges: "edge_cost (All_Edges (demo 1 2)) = demo_cost" "edge_cost (All_Edges (demo 2 1)) = demo_cost"
  by (auto simp: fun_eq_iff edge_cost_def demo_cost_def demo_def Find_State_def stdhash_find_def demo_chain_def demo_edge_def)

definition demo_network :: "Node_ID \<Rightarrow> daemon" where
  "demo_network v = (if v = 1 then demo 1 2 else demo 2 1)"

lemma demo_synchronized: "synchronized demo_network [1, 2] demo_cost"
proof -
  have "fst ` set (All_Nodes (demo 1 2)) = {1, 2}" "fst ` set (All_Nodes (demo 2 1)) = {1, 2}" by (auto simp: demo_def)
  moreover have "My_Address (demo a b) = a" for a b by (simp add: demo_def)
  ultimately show ?thesis
    using demo_tables demo_neighbors demo_queue demo_no_self demo_edges
    by (auto simp: synchronized_def demo_network_def)
qed

section \<open>A received packet\<close>

text \<open>Daemon \<open>1\<close> with a routing regime in place, the control link to daemon \<open>2\<close>, and a link-state packet
  from \<open>2\<close> with a newer state of its edge.\<close>

definition demo_running :: daemon where
  "demo_running = (demo 1 2)\<lparr>Current_Routing := Some \<lparr>Num_Nodes = 0, Node_IDs = [], Node_Indexes = [], Routes = [], Groups = []\<rparr>\<rparr>"

definition demo_lk :: Control_Link where
  "demo_lk = \<lparr>link_id = 7, lk_sender = 2, connected = True, scheduled_ack = False\<rparr>"

definition demo_type :: int32u where "demo_type = 0xC1000080"

definition demo_items :: "wire list" where
  "demo_items = [Hdr \<lparr>pkt_source = 2, num_cells = 1, src_data = 0\<rparr>,
     Cell \<lparr>dest = 1, cell_sec = 150, cell_usec = 0, cell_value = 20, cell_age = 0, cell_lts = 2\<rparr>]"

lemma demo_running_tables: "tables_ok demo_running"
  by (rule tables_check_ok) code_simp

lemma demo_running_ready: "ready demo_running 2"
proof -
  let ?nd = "(new_node 2)\<lparr>edge := Some (1, 2), neighbor_id := 0\<rparr>"
  have "Get_Node demo_running 2 = Some ?nd" "Is_Connected_Neighbor2 demo_running ?nd = Inr True"
    "My_Address demo_running = 1" by code_simp+
  moreover have "edge ?nd = Some (1, 2)" "Current_Routing demo_running \<noteq> None" by (simp_all add: demo_running_def)
  ultimately show ?thesis unfolding ready_def by metis
qed

lemma demo_running_neighbor: "neighbor demo_running 2 0"
proof -
  have "Get_Node demo_running 2 = Some ((new_node 2)\<lparr>edge := Some (1, 2), neighbor_id := 0\<rparr>)" by code_simp
  then show ?thesis by (simp add: neighbor_def MAX_NEIGHBORS_def)
qed

lemma demo_packet: "packet_prot demo_running demo_type = Some Edge_Prot_Def"
  "packet_ok Edge_Prot_Def (ARCH_ENDIAN demo_running) demo_type demo_items"
  by code_simp+

lemma demo_running_scheduled: "scheduled demo_running"
proof -
  have "Changed_States p demo_running \<noteq> [] \<longrightarrow> E_in_queue Send_State_Updates_ev 0 (Some p) (Time_queue demo_running)" for p
    by (cases p) (simp_all add: demo_running_def demo_def te_key_def)
  moreover have "Time_queue demo_running = Time_queue (demo 1 2)" by (simp add: demo_running_def)
  ultimately show ?thesis using demo_queue by (simp add: scheduled_def)
qed

section \<open>A data packet\<close>

definition demo_low :: lower where
  "demo_low = \<lparr>forward_ret = (\<lambda>mode n. 3), deliver_ret = 3, flood = (\<lambda>pk mode (sr, d). (1, pk, sr, d))\<rparr>"

definition demo_sr :: Source_Routing where
  "demo_sr = \<lparr>Node_Lookup_Addr_to_ID = [(1, 1), (2, 2)], Source_Seq_Hist = (\<lambda>_ _. \<lparr>seq = 0, incarnation = 0\<rparr>),
     My_Neighbor_Addrs = [2], MP_Neighbor_Mask = [[0], [1]], My_ID = 1, Path_Stamp_Debug = False,
     My_Source_Seq = 0, My_Source_Incarnation = 200\<rparr>"

definition demo_data :: packet where
  "demo_data = \<lparr>hdr = \<lparr>udp_source = 1, udp_dest = 2, reserved32 = 0, source_port = 8100, dest_port = 8100, udp_len = 100,
       udp_seq_no = 0, udp_sess_id = 0, frag_num = 1, frag_idx = 0, ttl = 5, routing = 0\<rparr>,
     s_hdr = \<lparr>source_incarnation = 200, source_seq = 1\<rparr>, routing_mask = [1], stamped_path = []\<rparr>"

lemma demo_data_unicast: "is_unicast demo_data"
  by code_simp

lemma sb_neighbor_total:
  "My_Neighbor_Addrs sr ! (i - 1) \<noteq> My_Address d \<Longrightarrow> data_link mode \<Longrightarrow>
   \<exists>d'. sb_neighbor low sr last_hop pk mode i d = Inr d'"
  by (auto simp: sb_neighbor_def Forward_Data_def Let_def data_link_def)

lemma demo_source_based:
  "\<exists>sr' d'. Source_Based_Disseminate demo_low None demo_data UDP_LINK (demo_sr, demo 1 2) = Inr (BUFF_OK, demo_data, sr', d')"
proof -
  define f where "f = (Source_Seq_Hist demo_sr)(1 := (Source_Seq_Hist demo_sr 1)
    (unat (1 :: int32u) mod SOURCE_HIST_SIZE := \<lparr>seq = 1, incarnation = 200\<rparr>))"
  have facts: "stdhash_find (Node_Lookup_Addr_to_ID demo_sr) (udp_source (hdr demo_data)) = Some 1"
    "Source_Seq_Hist demo_sr src i = \<lparr>seq = 0, incarnation = 0\<rparr>" "source_seq (s_hdr demo_data) = 1"
    "source_incarnation (s_hdr demo_data) = 200" "length (My_Neighbor_Addrs demo_sr) = 1" "Path_Stamp_Debug demo_sr = False"
    "My_Address (demo 1 2) = 1" for src i
    by (simp_all add: demo_sr_def demo_data_def stdhash_find_def demo_def)
  have "My_Neighbor_Addrs (demo_sr\<lparr>Source_Seq_Hist := f\<rparr>) ! (1 - 1) \<noteq> My_Address (demo 1 2)" "data_link UDP_LINK"
    by (simp_all add: demo_sr_def facts(7) data_link_def)
  then obtain d' where n: "sb_neighbor demo_low (demo_sr\<lparr>Source_Seq_Hist := f\<rparr>) 1 demo_data UDP_LINK 1 (demo 1 2) = Inr d'"
    using sb_neighbor_total by blast
  have one: "[1..<Suc 1] = [1::nat]" by simp
  have "Source_Based_Disseminate demo_low None demo_data UDP_LINK (demo_sr, demo 1 2) =
      Inr (BUFF_OK, demo_data, demo_sr\<lparr>Source_Seq_Hist := f\<rparr>, d')"
    unfolding Source_Based_Disseminate_def Let_def prod.case facts option.case f_def [symmetric] one fold_res.simps n
      if_False bind_res_simps by simp
  then show ?thesis by blast
qed

end
