(* ===== verification/Multipath_Props.thy ===== *)
theory Multipath_Props
  imports Conf_Network Demo
begin

unbundle bit_operations_syntax

text \<open>
  What source-based routing rests on: a configuration comes up with its flow network, the masks of \<open>MultiPath_Compute\<close>
  survive failures, and so do the masks that \<open>MultiPath_Stamp_Bitmask\<close> takes from its cache.
\<close>

section \<open>Masks as sets\<close>

lemma fold_or_zero: "fold (\<lambda>a v. v OR a) xs v = 0 \<longleftrightarrow> v = 0 \<and> (\<forall>a \<in> set xs. a = (0 :: 64 word))"
  by (induction xs arbitrary: v) (auto simp: or_eq_0_iff)

lemma MultiPath_Is_Superset_iff:
  assumes "length old = length new"
  shows "MultiPath_Is_Superset old new \<longleftrightarrow> old \<noteq> new \<and> (\<forall>i < length old. \<forall>n. bit (old ! i) n \<longrightarrow> bit (new ! i) n)"
proof -
  have x: "a XOR b = 0 \<longleftrightarrow> a = b" for a b :: "64 word" by (auto simp: bit_eq_iff bit_xor_iff)
  have len: "bit a n \<Longrightarrow> n < 64" for a :: "64 word" and n using bit_imp_le_length [of a n] by simp
  have y: "a AND (a XOR b) = 0 \<longleftrightarrow> (\<forall>n. bit a n \<longrightarrow> bit b n)" for a b :: "64 word" using len by (auto simp: bit_eq_iff bit_and_iff bit_xor_iff)
  have t1: "(\<forall>a \<in> set (map2 (\<lambda>a b. a XOR b) old new). a = 0) \<longleftrightarrow> (\<forall>i < length old. old ! i = new ! i)"
    using assms by (simp add: all_set_conv_all_nth x)
  have t2: "(\<forall>a \<in> set (map2 (\<lambda>a b. a AND b) old (map2 (\<lambda>a b. a XOR b) old new)). a = 0) \<longleftrightarrow>
      (\<forall>i < length old. \<forall>n. bit (old ! i) n \<longrightarrow> bit (new ! i) n)"
    using assms by (simp add: all_set_conv_all_nth y)
  show ?thesis
    unfolding MultiPath_Is_Superset_def Let_def fold_or_zero t1 t2 using assms by (auto simp: list_eq_iff_nth_eq)
qed

lemma MultiPath_Create_Superset_nth:
  assumes "length old = length new" "i < length old"
  shows "bit (MultiPath_Create_Superset old new ! i) n \<longleftrightarrow> bit (old ! i) n \<or> bit (new ! i) n"
  using assms by (simp add: MultiPath_Create_Superset_def bit_or_iff)

lemma MultiPath_Is_Equal_iff: "length old = length new \<Longrightarrow> MultiPath_Is_Equal old new \<longleftrightarrow> old = new"
  by (induction old new rule: list_induct2) auto

section \<open>The cache\<close>

definition mask_good :: "Configuration \<Rightarrow> daemon \<Rightarrow> nat \<Rightarrow> nat \<Rightarrow> bitmask \<Rightarrow> bool" where
  "mask_good cf d dst k msk \<longleftrightarrow> (\<exists>n \<le> k. survives_failures cf stamp_opts d dst n msk \<and>
     (n < k \<longrightarrow> (\<forall>C P. costs_bounded cf stamp_opts d C \<and> disjoint_paths cf stamp_opts d dst P \<longrightarrow> card P \<le> n)))"

text \<open>The states of the module: after its start, with the cache cleared after a change of the costs, and after a packet
  has been stamped.\<close>

inductive mp_state :: "(Edge_Key \<Rightarrow> nat) \<Rightarrow> Configuration \<Rightarrow> daemon \<Rightarrow> MultiPath \<Rightarrow> bool" for pick cf where
  mp_start: "Init_MultiPath pick cf d = Inr mp \<Longrightarrow> links_known cf stamp_opts d \<Longrightarrow> mp_state pick cf d mp"
| mp_change: "mp_state pick cf d mp \<Longrightarrow> links_known cf stamp_opts d' \<Longrightarrow> mp_state pick cf d' (MultiPath_Clear_Cache mp)"
| mp_stamp: "mp_state pick cf d mp \<Longrightarrow> MultiPath_Stamp_Bitmask cf dg d dest_id k mp = Inr (r, mp') \<Longrightarrow> mp_state pick cf d mp'"

definition mp_inv :: "Configuration \<Rightarrow> daemon \<Rightarrow> MultiPath \<Rightarrow> bool" where
  "mp_inv cf d mp \<longleftrightarrow> links cf (conf_link cf) (Flow_Edges mp) \<and> links_known cf stamp_opts d \<and>
     (\<forall>i k m. MP_Cache mp i k = Some m \<longrightarrow> mask_good cf d i k m)"

lemma mask_good_self: "mask_good cf d (cf_My_ID cf) k msk"
  unfolding mask_good_def survives_failures_def by blast

lemma MultiPath_Compute_same:
  assumes "MultiPath_Compute cf opts d dst k mp = Inr (n, msk, mp')"
  shows "Flow_Edges mp' = Flow_Edges mp" "MP_Cache mp' = MP_Cache mp"
  using assms by (auto simp: MultiPath_Compute_def bind_res_Inr_iff split: if_splits)

lemma MultiPath_Compute_node:
  assumes "MultiPath_Compute cf opts d dst k mp = Inr r" "dst \<noteq> cf_My_ID cf" "0 < k"
  shows "dst \<in> conf_nodes cf"
proof (rule ccontr)
  assume "dst \<notin> conf_nodes cf"
  then have no: "\<not> flow_node_made cf dst" by (simp add: conf_nodes_def flow_node_made_def)
  obtain j where "k = Suc j" using assms(3) by (cases k) auto
  then have "ff_loop cf opts d es dst k n st \<noteq> Inr x" for es n st x
    using no by (auto simp: bind_res_Inr_iff split: if_splits)
  then show False using assms(1,2) by (auto simp: MultiPath_Compute_def bind_res_Inr_iff)
qed

text \<open>What is computed for \<open>k\<close> paths is good for \<open>k\<close> paths, and for every number from the number found on if that is
  smaller than \<open>k\<close>.\<close>

lemma Compute_good:
  assumes inv: "mp_inv cf d mp" and c: "nodes_counted cf" "indices_fit cf" "cf_My_ID cf \<in> conf_nodes cf"
    and r: "MultiPath_Compute cf stamp_opts d dst k mp = Inr (n, msk, mp')" and k: "0 < k"
  shows "mask_good cf d dst k msk" "n < k \<Longrightarrow> n \<le> j \<Longrightarrow> mask_good cf d dst j msk"
proof -
  have "mask_good cf d dst k msk \<and> (n < k \<longrightarrow> (\<forall>j \<ge> n. mask_good cf d dst j msk))"
  proof (cases "dst = cf_My_ID cf")
    case True
    then show ?thesis using mask_good_self by simp
  next
    case False
    have dn: "dst \<in> conf_nodes cf" by (rule MultiPath_Compute_node [OF r False k])
    have l: "links cf (conf_link cf) (Flow_Edges mp)" and kn: "links_known cf stamp_opts d" using inv by (simp_all add: mp_inv_def)
    from Compute_result [OF l c(1,2) kn dn c(3) False, of k] r
    have a: "n \<le> k" "survives_failures cf stamp_opts d dst n msk"
        "n < k \<longrightarrow> (\<forall>C P. costs_bounded cf stamp_opts d C \<and> disjoint_paths cf stamp_opts d dst P \<longrightarrow> card P \<le> n)" by auto
    then show ?thesis unfolding mask_good_def by blast
  qed
  then show "mask_good cf d dst k msk" "n < k \<Longrightarrow> n \<le> j \<Longrightarrow> mask_good cf d dst j msk" by auto
qed

lemma put_cache_inv: "mp_inv cf d mp \<Longrightarrow> mask_good cf d i k m \<Longrightarrow> mp_inv cf d (put_cache i k m mp)"
  by (auto simp: mp_inv_def put_cache_def)

lemma put_caches_inv: "mp_inv cf d mp \<Longrightarrow> (\<And>k. k \<in> set ks \<Longrightarrow> mask_good cf d i k m) \<Longrightarrow> mp_inv cf d (fold (\<lambda>k. put_cache i k m) ks mp)"
  by (induction ks arbitrary: mp) (auto intro: put_cache_inv)

lemma Compute_inv: "mp_inv cf d mp \<Longrightarrow> MultiPath_Compute cf opts d dst k mp = Inr (n, msk, mp') \<Longrightarrow> mp_inv cf d mp'"
  using MultiPath_Compute_same by (simp add: mp_inv_def)

lemma stamp_paths_inv:
  assumes inv: "mp_inv cf d mp" and c: "nodes_counted cf" "indices_fit cf" "cf_My_ID cf \<in> conf_nodes cf"
    and r: "stamp_paths cf d dst k mp = Inr (m, mp')" and k: "0 < k"
  shows "mask_good cf d dst k m \<and> mp_inv cf d mp'"
proof (cases "MP_Cache mp dst k")
  case None
  then obtain n mp1 where n: "MultiPath_Compute cf stamp_opts d dst k mp = Inr (n, m, mp1)"
      "mp' = (if 0 < n \<and> n < k then fold (\<lambda>i. put_cache dst i m) [n..<MULTIPATH_MAX_K + 1] (put_cache dst k m mp1) else put_cache dst k m mp1)"
    using r by (auto simp: stamp_paths_def bind_res_Inr_iff Let_def)
  note g = Compute_good [OF inv c n(1) k]
  have "mp_inv cf d (put_cache dst k m mp1)" using put_cache_inv [OF Compute_inv [OF inv n(1)] g(1)] .
  moreover have "mp_inv cf d (fold (\<lambda>i. put_cache dst i m) [n..<MULTIPATH_MAX_K + 1] (put_cache dst k m mp1))" if "n < k"
    by (rule put_caches_inv [OF \<open>mp_inv cf d (put_cache dst k m mp1)\<close>]) (use g(2) that in auto)
  ultimately show ?thesis using g(1) n(2) by simp
next
  case (Some x)
  then show ?thesis using r inv by (auto simp: stamp_paths_def mp_inv_def)
qed

lemma stamp_two_inv:
  assumes inv: "mp_inv cf d mp" and c: "nodes_counted cf" "indices_fit cf" "cf_My_ID cf \<in> conf_nodes cf"
    and r: "stamp_two cf d dst mp = Inr (m, mp')"
  shows "mp_inv cf d mp'"
proof (cases "MP_Cache mp dst 2")
  case None
  then obtain n mp1 where n: "MultiPath_Compute cf stamp_opts d dst 2 mp = Inr (n, m, mp1)" "mp' = put_cache dst 2 m mp1"
    using r by (auto simp: stamp_two_def bind_res_Inr_iff)
  have "mask_good cf d dst 2 m" by (rule Compute_good(1) [OF inv c n(1)]) simp
  then show ?thesis unfolding n(2) by (rule put_cache_inv [OF Compute_inv [OF inv n(1)]])
qed (use r inv in \<open>auto simp: stamp_two_def\<close>)

lemma stamp_inv:
  assumes inv: "mp_inv cf d mp" and c: "nodes_counted cf" "indices_fit cf" "cf_My_ID cf \<in> conf_nodes cf"
    and r: "MultiPath_Stamp_Bitmask cf dg d dst k mp = Inr (m, mp')"
  shows "mp_inv cf d mp'"
proof (cases "dst = 0 \<and> 0 < k \<or> MAX_NODES < dst \<or> k = 0")
  case True
  then show ?thesis using r inv by (auto simp: MultiPath_Stamp_Bitmask_def Let_def split: if_splits)
next
  case False
  note s = stamp_paths_inv [OF inv c, THEN conjunct2] stamp_two_inv [OF inv c]
  show ?thesis using r inv False s
    by (auto simp: MultiPath_Stamp_Bitmask_def Let_def bind_res_Inr_iff split: if_splits DG_graph.splits)
qed

lemma mp_state_inv:
  assumes "mp_state pick cf d mp" "nodes_counted cf" "indices_fit cf" "cf_My_ID cf \<in> conf_nodes cf"
  shows "mp_inv cf d mp"
  using assms(1)
proof induction
  case (mp_start d mp)
  have "MP_Cache mp = (\<lambda>_ _. None)" using mp_start(1) by (auto simp: Init_MultiPath_def bind_res_Inr_iff)
  then show ?case using Init_MultiPath_links [OF mp_start(1)] mp_start(2) by (simp add: mp_inv_def)
next
  case (mp_change d mp d')
  then show ?case by (simp add: mp_inv_def MultiPath_Clear_Cache_def)
next
  case (mp_stamp d mp dg dest_id k r mp')
  show ?case by (rule stamp_inv [OF mp_stamp.IH assms(2-4) mp_stamp.hyps(2)])
qed

lemma Compute_total:
  assumes inv: "mp_inv cf d mp" and c: "nodes_counted cf" "indices_fit cf" "cf_My_ID cf \<in> conf_nodes cf" and dst: "dst \<in> conf_nodes cf"
  shows "\<exists>r. MultiPath_Compute cf stamp_opts d dst k mp = Inr r"
proof (cases "dst = cf_My_ID cf")
  case True
  then show ?thesis by (simp add: MultiPath_Compute_def)
next
  case False
  have "links cf (conf_link cf) (Flow_Edges mp)" "links_known cf stamp_opts d" using inv by (simp_all add: mp_inv_def)
  from Compute_result [OF this(1) c(1,2) this(2) dst c(3) False] show ?thesis by blast
qed

lemma stamp_total:
  assumes inv: "mp_inv cf d mp" and c: "nodes_counted cf" "indices_fit cf" "cf_My_ID cf \<in> conf_nodes cf"
    and dst: "dst \<in> conf_nodes cf" and k: "1 \<le> k" "k \<le> MULTIPATH_MAX_K"
  shows "\<exists>m mp'. MultiPath_Stamp_Bitmask cf dg d dst k mp = Inr (Some m, mp') \<and> stamp_paths cf d dst k mp = Inr (m, mp')"
proof -
  obtain r where "MultiPath_Compute cf stamp_opts d dst k mp = Inr r" using Compute_total [OF inv c dst] by blast
  then obtain m mp' where "stamp_paths cf d dst k mp = Inr (m, mp')"
    by (cases r; cases "MP_Cache mp dst k") (auto simp: stamp_paths_def Let_def)
  then show ?thesis using dst k by (auto simp: MultiPath_Stamp_Bitmask_def conf_nodes_def DG_K_FLAG_def Let_def)
qed

section \<open>What is not checked\<close>

text \<open>A configured link without an edge in the other direction, as \<open>Init_Nodes\<close> leaves it for a directed edge, ends the
  daemon when the network is built.\<close>

lemma one_way_link_exits:
  assumes "s \<le> MAX_NODES" "t \<le> MAX_NODES" "Get_Edge d (temp_node_ip cf t) (temp_node_ip cf s) = None"
  shows "link_pairs cf d ((s, t), v) es = Inl (EXIT ''Init_MultiPath: Unable to find edge'')"
  using assms by (simp add: link_pairs_def link_pair_def Let_def)

text \<open>A packet for an identifier up to \<open>MAX_NODES\<close> that is not configured follows a null pointer.\<close>

lemma unknown_destination_undefined:
  assumes "1 \<le> dst" "dst \<le> MAX_NODES" "temp_node_ip cf dst = 0" "dst \<noteq> cf_My_ID cf" "1 \<le> k" "k \<le> MULTIPATH_MAX_K" "MP_Cache mp dst k = None"
  shows "MultiPath_Stamp_Bitmask cf dg d dst k mp \<noteq> Inr r"
  using MultiPath_Compute_node [of cf stamp_opts d dst k mp] assms
  by (auto simp: MultiPath_Stamp_Bitmask_def stamp_paths_def DG_K_FLAG_def Let_def bind_res_Inr_iff conf_nodes_def)

section \<open>The properties\<close>

text \<open>C8: Whatever the costs of the links are, the computation of up to \<open>k\<close> paths to a configured node ends,
  without a negative cycle, a lost edge or a write behind the mask. With \<open>n\<close> paths found, every marked link is up, and
  if any fewer than \<open>n\<close> of the other nodes fail the destination is still reached over marked links that are up.
  If \<open>n\<close> is less than \<open>k\<close> and no path is as long as the distance of an unreachable node, no more than \<open>n\<close> paths exist
  that share no node in between.\<close>

theorem MultiPath_Compute_survives_failures:
  assumes "Init_MultiPath pick cf d0 = Inr mp" "nodes_counted cf" "indices_fit cf" "links_known cf opts d"
    "dst \<in> conf_nodes cf" "cf_My_ID cf \<in> conf_nodes cf" "dst \<noteq> cf_My_ID cf"
  shows "\<exists>n msk mp'. MultiPath_Compute cf opts d dst k mp = Inr (n, msk, mp') \<and> n \<le> k \<and> survives_failures cf opts d dst n msk \<and>
     (\<forall>x. in_mask x msk \<longrightarrow> (\<exists>i j. conf_link cf i j x \<and> conf_link_up cf opts d i j)) \<and>
     (n < k \<longrightarrow> (\<forall>C P. costs_bounded cf opts d C \<and> disjoint_paths cf opts d dst P \<longrightarrow> card P \<le> n))"
  by (rule Compute_result [OF Init_MultiPath_links [OF assms(1)] assms(2-7)])

text \<open>C9: However often packets were stamped and the costs changed, as long as the cache is cleared at every change
  of the costs, stamping a packet for \<open>k\<close> paths to a configured node gives a mask as good as a fresh one.\<close>

theorem stamped_masks_good:
  assumes "mp_state pick cf d mp" "nodes_counted cf" "indices_fit cf" "cf_My_ID cf \<in> conf_nodes cf"
    "dst \<in> conf_nodes cf" "1 \<le> k" "k \<le> MULTIPATH_MAX_K"
  shows "\<exists>m mp'. MultiPath_Stamp_Bitmask cf dg d dst k mp = Inr (Some m, mp') \<and> mask_good cf d dst k m \<and> mp_state pick cf d mp'"
proof -
  have inv: "mp_inv cf d mp" by (rule mp_state_inv [OF assms(1-4)])
  obtain m mp' where r: "MultiPath_Stamp_Bitmask cf dg d dst k mp = Inr (Some m, mp')" "stamp_paths cf d dst k mp = Inr (m, mp')"
    using stamp_total [OF inv assms(2-7)] by blast
  from stamp_paths_inv [OF inv assms(2-4) r(2)] assms(6) r(1) mp_stamp [OF assms(1) r(1)] show ?thesis by auto
qed


section \<open>Four nodes in a square\<close>

definition square_lines :: "conf_line list" where
  "square_lines = [Host 1 1, Host 2 2, Host 3 3, Host 4 4, Hosts_End, Conf_Edge 1 2 10 0, Conf_Edge 1 3 10 0, Conf_Edge 2 4 10 0, Conf_Edge 4 3 10 0]"

definition square_read :: Configuration where
  "square_read = (case fold_res (conf_step 1) square_lines (Pre_Conf_Setup 0 []) of Inl _ \<Rightarrow> Pre_Conf_Setup 0 [] | Inr cf \<Rightarrow> cf)"

definition square :: Configuration where
  "square = square_read\<lparr>cf_Sorted_Edges := label_edges (cf_Sorted_Edges square_read)\<rparr>"

definition square_daemon :: daemon where
  "square_daemon = (demo 1 2)\<lparr>All_Edges := fold (\<lambda>(s, t) h. add_state h (demo_edge s t None))
     [(1, 2), (2, 1), (1, 3), (3, 1), (2, 4), (4, 2), (3, 4), (4, 3)] []\<rparr>"

lemmas conf_simps = square_lines_def Pre_Conf_Setup_def Conf_add_host_def Conf_validate_hosts_def Conf_add_edge_def add_edge_ends_def
  conf_neighbor_def add_conf_leg_def edge_key_def Edge_Cmp_def MAX_NODES_def MAX_CONF_LEGS_def int16_of_def Let_def MULTIPATH_BITMASK_SIZE_DEFAULT_def

lemma square_read_isr: "\<not> isl (fold_res (conf_step 1) square_lines (Pre_Conf_Setup 0 []))"
  by (simp add: conf_simps)

lemma square_read_eq: "fold_res (conf_step 1) square_lines (Pre_Conf_Setup 0 []) = Inr square_read"
  using square_read_isr by (cases "fold_res (conf_step 1) square_lines (Pre_Conf_Setup 0 [])") (auto simp: square_read_def)

lemma square_lines_ok: "\<forall>l \<in> set square_lines. line_ok l"
  by (simp add: square_lines_def)

lemma square_ok: "conf_consistent square"
  unfolding square_def by (rule conf_consistent_label [OF conf_lines_ok [OF square_read_eq conf_consistent_start]]) (use square_lines_ok in blast)

lemma square_edges:
  "cf_Sorted_Edges square = [((1, 2), \<lparr>ev_cost = 10, ev_index = 0\<rparr>), ((1, 3), \<lparr>ev_cost = 10, ev_index = 1\<rparr>),
     ((2, 4), \<lparr>ev_cost = 10, ev_index = 2\<rparr>), ((3, 4), \<lparr>ev_cost = 10, ev_index = 3\<rparr>)]"
  by (simp add: square_def square_read_def conf_simps label_edges_def)

lemma square_fields: "temp_node_ip square 1 = 1" "temp_node_ip square (Suc 0) = 1" "temp_node_ip square 2 = 2" "temp_node_ip square 3 = 3"
    "temp_node_ip square 4 = 4" "cf_My_ID square = 1" "MultiPath_Bitmask_Size square = 8"
  by (simp_all add: square_def square_read_def conf_simps)

lemma square_cost:
  "Get_Edge square_daemon 1 2 = Some (demo_edge 1 2 None)" "Get_Edge square_daemon 2 1 = Some (demo_edge 2 1 None)"
  "Get_Edge square_daemon 1 3 = Some (demo_edge 1 3 None)" "Get_Edge square_daemon 3 1 = Some (demo_edge 3 1 None)"
  "Get_Edge square_daemon 2 4 = Some (demo_edge 2 4 None)" "Get_Edge square_daemon 4 2 = Some (demo_edge 4 2 None)"
  "Get_Edge square_daemon 3 4 = Some (demo_edge 3 4 None)" "Get_Edge square_daemon 4 3 = Some (demo_edge 4 3 None)"
  by code_simp+

lemma square_fits: "indices_fit square" "links_known square stamp_opts square_daemon"
proof -
  show "indices_fit square" by (simp add: indices_fit_def square_edges square_fields)
  have "cost_in_range stamp_opts (demo_edge a b None)" for a b by (simp add: cost_in_range_def stamp_opts_def demo_edge_def)
  then show "links_known square stamp_opts square_daemon" by (simp add: links_known_def square_edges square_fields square_cost)
qed

lemma square_nodes: "nodes_counted square" "1 \<in> conf_nodes square" "4 \<in> conf_nodes square"
  using square_ok square_fields by (simp_all add: nodes_counted_def conf_Num_Nodes_def conf_consistent_def conf_nodes_def MAX_NODES_def)

lemma square_there: "edges_there square square_daemon"
  by (simp add: edges_there_def square_edges square_fields square_cost)

theorem MultiPath_Compute_survives_failures_witness:
  "\<exists>mp n msk mp'. Init_MultiPath (\<lambda>_. 0) square square_daemon = Inr mp \<and>
     MultiPath_Compute square stamp_opts square_daemon 4 3 mp = Inr (n, msk, mp') \<and> n \<le> 3 \<and>
     survives_failures square stamp_opts square_daemon 4 n msk"
proof -
  obtain mp where mp: "Init_MultiPath (\<lambda>_. 0) square square_daemon = Inr mp"
    using Init_MultiPath_ok [OF square_ok square_fits(1) square_there] by blast
  from MultiPath_Compute_survives_failures [OF mp square_nodes(1) square_fits square_nodes(3), where k = 3] square_nodes(2) mp
  show ?thesis by (auto simp: square_fields)
qed

theorem stamped_masks_good_witness:
  "\<exists>mp m mp'. mp_state (\<lambda>_. 0) square square_daemon mp \<and>
     MultiPath_Stamp_Bitmask square (\<lambda>_. \<lparr>current_graph_type = DG_NONE_GRAPH, dg_bitmasks = \<lambda>_. []\<rparr>) square_daemon 4 2 mp = Inr (Some m, mp') \<and>
     mask_good square square_daemon 4 2 m"
proof -
  obtain mp where mp: "Init_MultiPath (\<lambda>_. 0) square square_daemon = Inr mp"
    using Init_MultiPath_ok [OF square_ok square_fits(1) square_there] by blast
  have st: "mp_state (\<lambda>_. 0) square square_daemon mp" by (rule mp_start [OF mp square_fits(2)])
  have me: "cf_My_ID square \<in> conf_nodes square" using square_nodes(2) by (simp add: square_fields)
  have k: "1 \<le> (2 :: nat)" "2 \<le> MULTIPATH_MAX_K" by (simp_all add: MULTIPATH_MAX_K_def)
  from stamped_masks_good [OF st square_nodes(1) square_fits(1) me square_nodes(3) k,
      where dg = "\<lambda>_. \<lparr>current_graph_type = DG_NONE_GRAPH, dg_bitmasks = \<lambda>_. []\<rparr>"] st
  show ?thesis by blast
qed


end
