(* ===== verification/Net_State.thy ===== *)
theory Net_State
  imports Link_State Realtime
begin

unbundle bit_operations_syntax

text \<open>
  The state behind the links of a daemon: interfaces, the array of links with their data, the
  control data of the hello protocol (\<open>network.h\<close>, \<open>link.h\<close>), and the configuration that the code
  reads. The nodes, edges, legs and timers are those of the \<open>daemon\<close> record. \<open>rand()\<close> is a
  sequence of values with a position; \<open>float\<close> and \<open>double\<close> values are rational numbers, rounded by
  \<open>fl (rel_cf cf)\<close> and \<open>rnd cf\<close>. The rate limit of a leg is the subject of \<open>Leaky_Bucket\<close> and left out here.
\<close>

section \<open>Data\<close>

definition MAX_LINKS :: nat where "MAX_LINKS = MAX_NEIGHBORS * 7"
definition UNKNOWN :: int where "UNKNOWN = - 1"

record Control_Data =
  hello_seq :: int32u
  other_side_hello_seq :: int32u
  diff_time :: int
  cd_rtt :: rat
  l_data :: Loss_Data
  est_loss_rate :: rat
  est_tcp_rate :: rat
  reported_rtt :: int
  reported_loss_rate :: rat
  reported_ts :: sp_time

datatype prot_data = is_No_Prot: No_Prot_Data | Control_Prot Control_Data | Realtime_Prot Realtime_Data | Int_Tol_Prot

record 'b Link =
  lk_id :: int
  lk_type :: Link_Type
  lk_leg :: Network_Leg_ID
  lk_r_data :: "'b Reliable_Data option"
  lk_prot_data :: prot_data

record Interface =
  iid :: Interface_ID
  net_addr :: int32u
  owner :: Node_ID

record hello_packet =
  hp_seq_no :: int32u
  hp_my_time_sec :: int32u
  hp_my_time_usec :: int32u
  hp_response_seq_no :: int32u
  hp_diff_time :: int32u
  hp_loss_rate :: int32u

datatype Route_Weight = DISTANCE_ROUTE | LATENCY_ROUTE | LOSSRATE_ROUTE | AVERAGE_ROUTE | PROBLEM_ROUTE

text \<open>What leaves this part of the daemon: hellos on a link, pings from a local interface to an
  address, and calls of other parts.\<close>

datatype net_call =
    Hello_Out int packet_header hello_packet
  | Ping_Out Interface_ID int32u packet_header hello_packet
  | Resume_All_Sessions_call
  | Key_Exchange_IT_call int

record 'b net =
  dae :: daemon
  Links :: "int \<Rightarrow> 'b Link option"
  Known_Interfaces :: "(Interface_ID, Interface) stdhash"
  Known_Addresses :: "(int32u, Interface_ID) stdhash"
  rand_seq :: "nat \<Rightarrow> int"
  rand_pos :: nat
  Sessions_Blocked_On :: int
  net_calls :: "net_call list"

text \<open>The configuration. \<open>dl_init_channel\<close> tells whether the sockets of a local interface can be
  opened, \<open>c_log\<close> is the natural logarithm of the C library, \<open>None\<close> when it is not a finite number,
  \<open>unset_words\<close> is what the stack holds in the two members of a ping that the code does not set.\<close>

record 'b net_conf =
  rel_cf :: "'b rel_conf"
  rnd :: "rat \<Rightarrow> rat"
  c_log :: "rat \<Rightarrow> rat option"
  RAND_MAX :: int
  hello_timeout :: sp_time
  cnt_timeout :: sp_time
  hello_cnt_start :: int
  stable_delay_flag :: bool
  stable_timeout :: rat
  Route_Weight_used :: Route_Weight
  Problem_Route_Stable_Time :: sp_time
  Config_File_Found :: bool
  Intrusion_Tolerance_Mode :: bool
  IT_Crypto :: bool
  it_bucket_to :: sp_time
  loss_calc_timeout :: sp_time
  Directed_Edges :: bool
  My_ID :: int16u
  Node_Lookup_Addr_to_ID :: "(int32u, int16u) stdhash"
  Sorted_Edges :: "(int16u \<times> int16u) list"
  dl_init_channel :: "int32u \<Rightarrow> bool"
  unset_words :: "int32u \<times> int32u"

section \<open>Access\<close>

definition get_leg :: "'b net \<Rightarrow> Network_Leg_ID \<Rightarrow> Network_Leg option" where
  "get_leg n lid = stdhash_find (Network_Legs (dae n)) lid"

definition upd_leg :: "Network_Leg_ID \<Rightarrow> (Network_Leg \<Rightarrow> Network_Leg) \<Rightarrow> 'b net \<Rightarrow> 'b net" where
  "upd_leg lid f n = n\<lparr>dae := (dae n)\<lparr>Network_Legs := stdhash_modify (Network_Legs (dae n)) lid f\<rparr>\<rparr>"

definition upd_node :: "Node_ID \<Rightarrow> (Node \<Rightarrow> Node) \<Rightarrow> 'b net \<Rightarrow> 'b net" where
  "upd_node i f n = n\<lparr>dae := (dae n)\<lparr>All_Nodes := stdhash_modify (All_Nodes (dae n)) i f\<rparr>\<rparr>"

definition upd_link :: "int \<Rightarrow> ('b Link \<Rightarrow> 'b Link) \<Rightarrow> 'b net \<Rightarrow> 'b net" where
  "upd_link i f n = n\<lparr>Links := (Links n)(i := map_option f (Links n i))\<rparr>"

definition upd_dae :: "(daemon \<Rightarrow> daemon) \<Rightarrow> 'b net \<Rightarrow> 'b net" where
  "upd_dae f n = n\<lparr>dae := f (dae n)\<rparr>"

definition net_queue :: "event_func \<Rightarrow> int \<Rightarrow> Prot_Def option \<Rightarrow> sp_time \<Rightarrow> 'b net \<Rightarrow> 'b net" where
  "net_queue func code data delta n = upd_dae (queue_event func code data delta) n"

definition net_dequeue :: "event_func \<Rightarrow> int \<Rightarrow> Prot_Def option \<Rightarrow> 'b net \<Rightarrow> 'b net" where
  "net_dequeue func code data n = upd_dae (\<lambda>d. d\<lparr>Time_queue := snd (E_dequeue func code data (Time_queue d))\<rparr>) n"

definition net_emit :: "net_call \<Rightarrow> 'b net \<Rightarrow> 'b net" where
  "net_emit c n = n\<lparr>net_calls := net_calls n @ [c]\<rparr>"

definition next_rand :: "'b net \<Rightarrow> int \<times> 'b net" where
  "next_rand n = (rand_seq n (rand_pos n), n\<lparr>rand_pos := rand_pos n + 1\<rparr>)"

definition c_data_of :: "'b Link \<Rightarrow> Control_Data option" where
  "c_data_of lk = (case lk_prot_data lk of Control_Prot c \<Rightarrow> Some c | _ \<Rightarrow> None)"

definition put_c_data :: "Control_Data \<Rightarrow> 'b Link \<Rightarrow> 'b Link" where
  "put_c_data c lk = lk\<lparr>lk_prot_data := Control_Prot c\<rparr>"

definition Get_Interface :: "'b net \<Rightarrow> Interface_ID \<Rightarrow> Interface option" where
  "Get_Interface n i = stdhash_find (Known_Interfaces n) i"

definition Get_Interface_by_Addr :: "'b net \<Rightarrow> int32u \<Rightarrow> Interface option" where
  "Get_Interface_by_Addr n a =
     (case stdhash_find (Known_Addresses n) a of None \<Rightarrow> None | Some i \<Rightarrow> Get_Interface n i)"

text \<open>The links of a leg, in the order of \<open>Link_Type\<close>.\<close>

definition link_types :: "Link_Type list" where
  "link_types = [CONTROL_LINK, UDP_LINK, RELIABLE_UDP_LINK, REALTIME_UDP_LINK, RESERVED0_LINK, RESERVED1_LINK, INTRUSION_TOL_LINK]"

end
