(* ===== verification/Links.thy ===== *)
theory Links
  imports Net_State
begin

text \<open>
  Creation and removal of links (\<open>daemon/link.c\<close>). A link is a slot of the global array \<open>Links\<close> and
  an entry of its leg; creating a control link starts the hello protocol on the leg. The data of an
  intrusion-tolerant link is opaque here.
\<close>

section \<open>New link data\<close>

definition new_Loss_Data :: Loss_Data where
  "new_Loss_Data = \<lparr>recvd_seqs = (\<lambda>_. 0), my_seqs = (\<lambda>_. PACK_MAX_SEQ), loss_rate = 0\<rparr>"

definition new_Control_Data :: Control_Data where
  "new_Control_Data = \<lparr>hello_seq = 0, other_side_hello_seq = 0, diff_time = 0, cd_rtt = 1000, l_data = new_Loss_Data,
     est_loss_rate = of_int UNKNOWN, est_tcp_rate = of_int UNKNOWN, reported_rtt = UNKNOWN,
     reported_loss_rate = of_int UNKNOWN, reported_ts = \<lparr>sec = 0, usec = 0\<rparr>\<rparr>"

definition new_Link :: "'b net_conf \<Rightarrow> int \<Rightarrow> Link_Type \<Rightarrow> Network_Leg_ID \<Rightarrow> 'b Link" where
  "new_Link cf linkid mode lid =
     \<lparr>lk_id = linkid, lk_type = mode, lk_leg = lid,
      lk_r_data = (if mode = CONTROL_LINK \<or> mode = RELIABLE_UDP_LINK then Some (new_Reliable_Data (rel_cf cf)) else None),
      lk_prot_data = No_Prot_Data\<rparr>"

text \<open>The first free slot of the array.\<close>

definition free_link :: "'b net \<Rightarrow> int option" where
  "free_link n = map_option int (find (\<lambda>i. Links n (int i) = None) [0..<MAX_LINKS])"

section \<open>A control link\<close>

text \<open>The identifier of the session: random values are drawn until one is not zero. \<open>None\<close> when
  that does not end; otherwise the position of the value.\<close>

partial_function (option) draw_id :: "(nat \<Rightarrow> int) \<Rightarrow> nat \<Rightarrow> nat option" where
  "draw_id r p = (if (word_of_int (r p) :: int32u) = 0 then draw_id r (p + 1) else Some p)"

text \<open>The first free slot of \<open>Neighbor_Nodes\<close>, if the node has none.\<close>

definition add_neighbor :: "Node_ID \<Rightarrow> 'b net \<Rightarrow> 'b net res" where
  "add_neighbor i n =
     (case Get_Node (dae n) i of
        None \<Rightarrow> Inl (UNDEF ''Create_Link'')
      | Some nd \<Rightarrow>
          if neighbor_id nd \<noteq> - 1 then Inr n
          else case find (\<lambda>j. Neighbor_Nodes (dae n) ! j = None) [0..<MAX_NEIGHBORS] of
            None \<Rightarrow> Inl (EXIT ''Create_Link: Too many neighbors!'')
          | Some j \<Rightarrow> Inr (upd_dae (\<lambda>d. d\<lparr>Num_Neighbors := max (Num_Neighbors d) (j + 1),
                Neighbor_Nodes := (Neighbor_Nodes d)[j := Some i]\<rparr>) (upd_node i (\<lambda>nd. nd\<lparr>neighbor_id := int j\<rparr>) n)))"

text \<open>The offset of the first hello. When it is more than a second, its microseconds are taken from
  its seconds.\<close>

definition hello_offset :: "'b net_conf \<Rightarrow> int \<Rightarrow> sp_time" where
  "hello_offset cf r =
     (let us = \<lfloor>rnd cf (rnd cf (rnd cf (1000000 * of_int (sec (hello_timeout cf)) + of_int (usec (hello_timeout cf)))
                  * rnd cf (of_int r / rnd cf (of_int (RAND_MAX cf) + 1))) + 1 / 2)\<rfloor>
      in if 1000000 < us then \<lparr>sec = c_div us 1000000, usec = c_rem (c_div us 1000000) 1000000\<rparr>
         else \<lparr>sec = 0, usec = us\<rparr>)"

definition start_control :: "'b net_conf \<Rightarrow> Network_Leg_ID \<Rightarrow> int \<Rightarrow> Node_ID \<Rightarrow> 'b net \<Rightarrow> 'b net res" where
  "start_control cf lid linkid nd n =
     (case get_leg n lid of
        None \<Rightarrow> Inl (UNDEF ''Create_Link'')
      | Some lg \<Rightarrow>
          if \<not> (leg_status lg = DISCONNECTED_LEG \<and> leg_cost lg = - 1) then Inl (ASSERT ''Create_Link'')
          else case draw_id (rand_seq n) (rand_pos n) of
            None \<Rightarrow> Inl (LOOPS ''Create_Link'')
          | Some p \<Rightarrow>
              let n1 = upd_leg lid (\<lambda>l. l\<lparr>leg_status := NOT_YET_CONNECTED_LEG, leg_cost := - 1,
                          ctrl_link_id := word_of_int (rand_seq n p), other_side_ctrl_link_id := 0,
                          hellos_out := 0, connect_cnter := 0\<rparr>)
                        (upd_link linkid (put_c_data new_Control_Data) (n\<lparr>rand_pos := p + 1\<rparr>))
              in bind_res (add_neighbor nd n1) (\<lambda>n2.
                   let (r, n3) = next_rand n2 in Inr (net_queue Send_Hello_ev linkid None (hello_offset cf r) n3)))"

text \<open>An intrusion-tolerant link starts its timers, or the key exchange.\<close>

definition start_int_tol :: "'b net_conf \<Rightarrow> int \<Rightarrow> 'b net \<Rightarrow> 'b net" where
  "start_int_tol cf linkid n =
     (let n1 = net_queue Fill_Bucket_IT_ev linkid None (it_bucket_to cf)
                 (upd_link linkid (\<lambda>lk. lk\<lparr>lk_prot_data := Int_Tol_Prot\<rparr>) n)
      in if IT_Crypto cf then net_emit (Key_Exchange_IT_call linkid) n1
         else net_queue Loss_Calculation_Event_ev linkid None (loss_calc_timeout cf)
                (net_queue Ping_IT_Timeout_ev linkid None zero_timeout n1))"

section \<open>Create and destroy\<close>

definition put_link :: "'b net_conf \<Rightarrow> Network_Leg_ID \<Rightarrow> Link_Type \<Rightarrow> int \<Rightarrow> 'b net \<Rightarrow> 'b net" where
  "put_link cf lid mode linkid n =
     upd_leg lid (\<lambda>l. l\<lparr>leg_links := (leg_links l)(mode := Some linkid)\<rparr>)
       (n\<lparr>Links := (Links n)(linkid := Some (new_Link cf linkid mode lid))\<rparr>)"

definition start_link :: "'b net_conf \<Rightarrow> Network_Leg_ID \<Rightarrow> Link_Type \<Rightarrow> int \<Rightarrow> Node_ID \<Rightarrow> 'b net \<Rightarrow> 'b net res" where
  "start_link cf lid mode linkid nd n =
     (case mode of
        CONTROL_LINK \<Rightarrow> start_control cf lid linkid nd n
      | REALTIME_UDP_LINK \<Rightarrow> Inr (upd_link linkid (\<lambda>lk. lk\<lparr>lk_prot_data := Realtime_Prot new_Realtime_Data\<rparr>) n)
      | INTRUSION_TOL_LINK \<Rightarrow> Inr (start_int_tol cf linkid n)
      | _ \<Rightarrow> Inr n)"

definition Create_Link :: "'b net_conf \<Rightarrow> Network_Leg_ID \<Rightarrow> Link_Type \<Rightarrow> 'b net \<Rightarrow> (int \<times> 'b net) res" where
  "Create_Link cf lid mode n =
     (case (get_leg n lid, Get_Interface n (fst lid), Get_Interface n (snd lid)) of
        (Some lg, Some local_interf, Some remote_interf) \<Rightarrow>
          if owner local_interf \<noteq> My_Address (dae n)
          then Inl (EXIT ''Create_Link: This_Node is not owner of local interface'')
          else if leg_links lg mode \<noteq> None
          then if mode = INTRUSION_TOL_LINK then Inr (the (leg_links lg mode), n)
               else Inl (EXIT ''Create_Link: This type of link already exists on this leg'')
          else if \<not> Intrusion_Tolerance_Mode cf \<and> mode \<noteq> CONTROL_LINK \<and>
                  (control_link lg = None \<or> leg_status lg \<noteq> CONNECTED_LEG \<or> leg_cost lg = - 1)
          then Inl (EXIT ''Create_Link: Creating a non-control link on a leg before connected'')
          else if mode = INTRUSION_TOL_LINK \<and> \<not> Config_File_Found cf then Inr (0, n)
          else (case free_link n of
                  None \<Rightarrow> Inl (EXIT ''Create_Link() No link IDs available; too many open links'')
                | Some linkid \<Rightarrow>
                    bind_res (start_link cf lid mode linkid (owner remote_interf) (put_link cf lid mode linkid n))
                      (\<lambda>n1. Inr (linkid, n1)))
      | _ \<Rightarrow> Inl (UNDEF ''Create_Link''))"

text \<open>The timers of a reliable link, then those of the control link.\<close>

definition drop_reliable :: "int \<Rightarrow> Link_Type \<Rightarrow> 'b Reliable_Data \<Rightarrow> 'b net \<Rightarrow> 'b net" where
  "drop_reliable linkid ty r n =
     (let n1 = (if nack_buff r \<noteq> [] then net_dequeue Send_Nack_Retransm_ev linkid None n else n);
          n2 = (if scheduled_timeout r then net_dequeue Reliable_timeout_ev linkid None n1 else n1);
          n3 = (if scheduled_ack r then net_dequeue Send_Ack_ev linkid None n2 else n2);
          n4 = net_dequeue Try_to_Send_ev linkid None n3;
          n5 = (if ty = CONTROL_LINK
                then net_dequeue Net_Send_State_All_ev linkid (Some Groups_Prot_Def)
                       (net_dequeue Net_Send_State_All_ev linkid (Some Edge_Prot_Def)
                       (net_dequeue Send_Hello_Request_Cnt_ev linkid None
                       (net_dequeue Send_Hello_Request_ev linkid None
                       (net_dequeue Send_Hello_ev linkid None n4)))) else n4)
      in if Sessions_Blocked_On n5 = linkid
         then (net_emit Resume_All_Sessions_call n5)\<lparr>Sessions_Blocked_On := - 1\<rparr> else n5)"

definition Destroy_Link :: "int \<Rightarrow> 'b net \<Rightarrow> 'b net res" where
  "Destroy_Link linkid n =
     (case Links n linkid of
        None \<Rightarrow> Inl (EXIT ''Destroy_Link: no link'')
      | Some lk \<Rightarrow>
          if lk_type lk = INTRUSION_TOL_LINK then Inr n
          else let n1 = (case lk_r_data lk of None \<Rightarrow> n | Some r \<Rightarrow> drop_reliable linkid (lk_type lk) r n);
                   n2 = (if lk_type lk = REALTIME_UDP_LINK \<and> \<not> is_No_Prot (lk_prot_data lk)
                         then net_dequeue Send_RT_Retransm_ev linkid None (net_dequeue Send_RT_Nack_ev linkid None n1) else n1)
               in Inr ((upd_leg (lk_leg lk) (\<lambda>l. l\<lparr>leg_links := (leg_links l)(lk_type lk := None)\<rparr>) n2)
                         \<lparr>Links := (Links n2)(linkid := None)\<rparr>))"

text \<open>The outer \<open>res\<close> is for the pointer to the leg, which an edge may not have.\<close>

definition Get_Best_Link :: "'b net \<Rightarrow> Node_ID \<Rightarrow> Link_Type \<Rightarrow> int option res" where
  "Get_Best_Link n node_id mode =
     (case Get_Edge (dae n) (My_Address (dae n)) node_id of
        None \<Rightarrow> Inr None
      | Some e \<Rightarrow>
          if state_value e \<noteq> - 1 \<or> mode = INTRUSION_TOL_LINK
          then (case leg_of e of
                  None \<Rightarrow> Inl (UNDEF ''Get_Best_Link'')
                | Some lid \<Rightarrow> (case get_leg n lid of None \<Rightarrow> Inl (UNDEF ''Get_Best_Link'') | Some lg \<Rightarrow> Inr (leg_links lg mode)))
          else Inr None)"

end
