(* ===== verification/Legs.thy ===== *)
theory Legs
  imports Links
begin

text \<open>
  Interfaces and network legs (\<open>daemon/network.c\<close>): creation, disconnection, and the cost of a leg,
  which is at the same time the cost of its edge in the link-state database.
\<close>

section \<open>Creation\<close>

definition Create_Interface :: "'b net_conf \<Rightarrow> Node_ID \<Rightarrow> Interface_ID \<Rightarrow> int32u \<Rightarrow> 'b net \<Rightarrow> 'b net res" where
  "Create_Interface cf ni i a n =
     (if Get_Node (dae n) ni = None then Inl (EXIT ''Create_Interface: Unknown node'')
      else if Get_Interface n i \<noteq> None then Inl (EXIT ''Create_Interface: Interface already exists'')
      else if Get_Interface_by_Addr n a \<noteq> None
      then Inl (EXIT ''Create_Interface: Address is already mapped to an existing interface'')
      else if ni = My_Address (dae n) \<and> \<not> dl_init_channel cf a then Inl (EXIT ''Init_Recv_Channel: DL_init_channel failed'')
      else Inr (n\<lparr>Known_Interfaces := stdhash_insert (Known_Interfaces n) i \<lparr>iid = i, net_addr = a, owner = ni\<rparr>,
                   Known_Addresses := stdhash_insert (Known_Addresses n) a i\<rparr>))"

definition Get_Network_Leg :: "'b net \<Rightarrow> Interface_ID \<Rightarrow> Interface_ID \<Rightarrow> Network_Leg option" where
  "Get_Network_Leg n local remote = get_leg n (local, remote)"

definition set_leg :: "Network_Leg_ID \<Rightarrow> State_Data \<Rightarrow> State_Data" where
  "set_leg lid s = s\<lparr>own_fields :=
     (case own_fields s of Edge_Fields f \<Rightarrow> Edge_Fields (f\<lparr>leg := Some lid\<rparr>) | Group_Fields g \<Rightarrow> Group_Fields g)\<rparr>"

definition new_leg :: "Network_Leg_ID \<Rightarrow> state_ptr \<Rightarrow> Network_Leg" where
  "new_leg lid ptr = \<lparr>leg_id = lid, leg_edge = ptr, leg_links = (\<lambda>_. None), leg_status = DISCONNECTED_LEG,
     leg_cost = - 1, ctrl_link_id = 0, other_side_ctrl_link_id = 0, hellos_out = 0,
     last_recv_hello = \<lparr>sec = 0, usec = 0\<rparr>, connect_cnter = 0, last_connected = \<lparr>sec = 0, usec = 0\<rparr>\<rparr>"

definition add_leg :: "Network_Leg_ID \<Rightarrow> state_ptr \<Rightarrow> daemon \<Rightarrow> daemon" where
  "add_leg lid ptr d =
     modify_state Edge_Prot_Def ptr (set_leg lid) (d\<lparr>Network_Legs := stdhash_insert (Network_Legs d) lid (new_leg lid ptr)\<rparr>)"

definition Create_Network_Leg :: "Interface_ID \<Rightarrow> Interface_ID \<Rightarrow> 'b net \<Rightarrow> 'b net res" where
  "Create_Network_Leg local remote n =
     (case Get_Interface n local of
        None \<Rightarrow> Inl (EXIT ''Create_Network_Leg: unknown local interface id'')
      | Some li \<Rightarrow>
          if owner li \<noteq> My_Address (dae n) then Inl (EXIT ''Create_Network_Leg: local interface id is not local'')
          else (case Get_Interface n remote of
            None \<Rightarrow> Inl (EXIT ''Create_Network_Leg: unknown remote interface id'')
          | Some ri \<Rightarrow>
              if owner ri = My_Address (dae n) then Inl (EXIT ''Create_Network_Leg: remote interface id is local'')
              else if Get_Network_Leg n local remote \<noteq> None
              then Inl (EXIT ''Create_Network_Leg: network leg already exists'')
              else bind_res (get_or_create_edge (owner li) (owner ri) (dae n)) (\<lambda>d.
                case Get_Edge d (owner li) (owner ri) of
                  None \<Rightarrow> Inl (UNDEF ''Create_Network_Leg'')
                | Some e \<Rightarrow>
                    if leg_of e \<noteq> None then Inl (EXIT ''Create_Network_Leg: edge already has a network leg'')
                    else Inr (n\<lparr>dae := add_leg (local, remote) (owner li, owner ri) d\<rparr>))))"

definition Get_Best_Network_Leg :: "'b net \<Rightarrow> Node_ID \<Rightarrow> Network_Leg_ID option res" where
  "Get_Best_Network_Leg n ni =
     (case Get_Node (dae n) ni of
        None \<Rightarrow> Inr None
      | Some nd \<Rightarrow> bind_res (Is_Connected_Neighbor2 (dae n) nd) (\<lambda>c.
          if \<not> c then Inr None
          else case edge nd of
            None \<Rightarrow> Inl (UNDEF ''Get_Best_Network_Leg'')
          | Some ptr \<Rightarrow> (case Find_State (All_Edges (dae n)) (fst ptr) (snd ptr) of
              None \<Rightarrow> Inl (UNDEF ''Get_Best_Network_Leg'') | Some e \<Rightarrow> Inr (leg_of e))))"

section \<open>The cost of a leg\<close>

definition MAX_LATENCY :: int where "MAX_LATENCY = 600"

definition Network_Leg_Initial_Cost :: "'b net_conf \<Rightarrow> int" where
  "Network_Leg_Initial_Cost cf =
     (case Route_Weight_used cf of
        DISTANCE_ROUTE \<Rightarrow> 1 | LOSSRATE_ROUTE \<Rightarrow> 1 | PROBLEM_ROUTE \<Rightarrow> - 1 * MAX_LATENCY
      | LATENCY_ROUTE \<Rightarrow> MAX_LATENCY | AVERAGE_ROUTE \<Rightarrow> MAX_LATENCY)"

fun trim_neighbors :: "Node_ID option list \<Rightarrow> nat \<Rightarrow> nat" where
  "trim_neighbors ns 0 = 0"
| "trim_neighbors ns (Suc k) = (if ns ! k = None then trim_neighbors ns k else Suc k)"

text \<open>The slot of the node at the other end of the edge is given up.\<close>

definition drop_neighbor :: "Node_ID \<Rightarrow> daemon \<Rightarrow> daemon res" where
  "drop_neighbor i d =
     (case Get_Node d i of
        None \<Rightarrow> Inl (UNDEF ''Network_Leg_Set_Cost'')
      | Some nd \<Rightarrow>
          if neighbor_id nd < 0 \<or> int MAX_NEIGHBORS \<le> neighbor_id nd then Inl (UNDEF ''Network_Leg_Set_Cost'')
          else let ns = (Neighbor_Nodes d)[nat (neighbor_id nd) := None]
               in Inr (d\<lparr>Neighbor_Nodes := ns, All_Nodes := stdhash_modify (All_Nodes d) i (\<lambda>nd. nd\<lparr>neighbor_id := - 1\<rparr>),
                         Num_Neighbors := trim_neighbors ns (Num_Neighbors d)\<rparr>))"

text \<open>Leg and edge get the cost, the edge a new time stamp and a new logical time.\<close>

definition write_cost :: "Network_Leg_ID \<Rightarrow> state_ptr \<Rightarrow> int \<Rightarrow> daemon \<Rightarrow> daemon" where
  "write_cost lid ptr c d =
     (let d1 = emit (DG_Process_Edge_Update ptr c) (d\<lparr>Network_Legs := stdhash_modify (Network_Legs d) lid (\<lambda>l. l\<lparr>leg_cost := c\<rparr>)\<rparr>);
          d2 = emit MultiPath_Clear_Cache (modify_state Edge_Prot_Def ptr (\<lambda>e. e\<lparr>state_value := c\<rparr>) d1);
          (l, d3) = Link_State_LTS_inc (modify_state Edge_Prot_Def ptr bump_timestamp d2)
      in modify_state Edge_Prot_Def ptr (set_lts l) d3)"

definition Network_Leg_Set_Cost :: "Network_Leg_ID \<Rightarrow> int \<Rightarrow> 'b net \<Rightarrow> 'b net res" where
  "Network_Leg_Set_Cost lid new_cost n =
     (case get_leg n lid of
        None \<Rightarrow> Inl (UNDEF ''Network_Leg_Set_Cost'')
      | Some lg \<Rightarrow>
          if new_cost \<noteq> - 1 \<and> leg_status lg \<noteq> CONNECTED_LEG \<or> new_cost = - 1 \<and> leg_status lg = CONNECTED_LEG
          then Inl (EXIT ''Network_Leg_Set_Cost: New cost and leg status mismatch'')
          else if new_cost = leg_cost lg then Inr n
          else if Find_State (All_Edges (dae n)) (fst (leg_edge lg)) (snd (leg_edge lg)) = None
          then Inl (UNDEF ''Network_Leg_Set_Cost'')
          else let d = write_cost lid (leg_edge lg) new_cost (dae n) in
            bind_res (if leg_cost lg = - 1
                      then if leg_status lg \<noteq> CONNECTED_LEG then Inl (ASSERT ''Network_Leg_Set_Cost'')
                           else (case control_link lg of
                                   None \<Rightarrow> Inl (UNDEF ''Network_Leg_Set_Cost'')
                                 | Some k \<Rightarrow> Inr (queue_event Net_Send_State_All_ev k (Some Groups_Prot_Def) zero_timeout
                                              (queue_event Net_Send_State_All_ev k (Some Edge_Prot_Def) zero_timeout d)))
                      else if new_cost = - 1 then drop_neighbor (snd (leg_edge lg)) d
                      else Inr d) (\<lambda>d1.
            bind_res (Add_to_changed_states Edge_Prot_Def (My_Address d1) (leg_edge lg) d1) (\<lambda>d2.
              Inr (n\<lparr>dae := Schedule_Routes d2\<rparr>))))"

section \<open>Disconnection\<close>

definition destroy_type :: "Network_Leg_ID \<Rightarrow> Link_Type \<Rightarrow> 'b net \<Rightarrow> 'b net res" where
  "destroy_type lid ty n =
     (case get_leg n lid of
        None \<Rightarrow> Inl (UNDEF ''Disconnect_Network_Leg'')
      | Some lg \<Rightarrow> (case leg_links lg ty of None \<Rightarrow> Inr n | Some k \<Rightarrow> Destroy_Link k n))"

definition Disconnect_Network_Leg :: "Network_Leg_ID \<Rightarrow> 'b net \<Rightarrow> 'b net res" where
  "Disconnect_Network_Leg lid n =
     (case get_leg n lid of
        None \<Rightarrow> Inl (UNDEF ''Disconnect_Network_Leg'')
      | Some lg \<Rightarrow>
          if leg_status lg = DISCONNECTED_LEG then Inl (EXIT ''Disconnect_Network_Leg: Leg already disconnected'')
          else bind_res (fold_res (destroy_type lid) link_types
                 (upd_leg lid (\<lambda>l. l\<lparr>leg_status := DISCONNECTED_LEG, ctrl_link_id := 0, other_side_ctrl_link_id := 0,
                    last_connected := wall_clock (dae n)\<rparr>) n))
               (Network_Leg_Set_Cost lid (- 1)))"

section \<open>The measured cost\<close>

definition NET_UPDATE_THRESHOLD :: rat where "NET_UPDATE_THRESHOLD = 1 / 10"
definition NET_UPDATE_THRESHOLD_ABS :: int where "NET_UPDATE_THRESHOLD_ABS = 3"
definition LATENCY_PROB_THRESH :: rat where "LATENCY_PROB_THRESH = 125 / 100"
definition LATENCY_NO_PROB_THRESH :: rat where "LATENCY_NO_PROB_THRESH = 115 / 100"
definition LATENCY_ABS_PROB_THRESH :: rat where "LATENCY_ABS_PROB_THRESH = 5"
definition LATENCY_ABS_NO_PROB_THRESH :: rat where "LATENCY_ABS_NO_PROB_THRESH = 3"
definition LOSS_PROB_THRESH :: rat where "LOSS_PROB_THRESH = 2 / 100"
definition LOSS_NO_PROB_THRESH :: rat where "LOSS_NO_PROB_THRESH = 5 / 1000"

text \<open>The member \<open>recovery_latency\<close> of the C code is computed and capped, but not used.\<close>

definition Expected_Latency :: "'b net_conf \<Rightarrow> rat \<Rightarrow> rat \<Rightarrow> rat" where
  "Expected_Latency cf rtt0 loss =
     (let f = fl (rel_cf cf); r = rnd cf; tmp = f (r (rtt0 / 2));
          tmp' = (if 0 < loss
            then let sq = f (loss * loss); cu = f (sq * loss);
                     tmp1 = f (r (r (r (2 * sq) - cu) * of_int MAX_LATENCY));
                     tmp2 = f (r (r (r (tmp * 3) + 10) * r (r (loss - r (2 * sq)) + cu)))
                 in f (r (r (r (tmp * r (1 - loss)) + tmp1) + tmp2))
            else tmp);
          tmp'' = (if tmp' < 2 then 2 else tmp')
      in if tmp'' < of_int MAX_LATENCY then tmp'' else of_int MAX_LATENCY)"

text \<open>Conversion of a floating point number to an integer type.\<close>

definition to_int :: "rat \<Rightarrow> int" where
  "to_int x = (if 0 \<le> x then \<lfloor>x\<rfloor> else \<lceil>x\<rceil>)"

text \<open>The new cost for each metric; \<open>None\<close>: no update. \<open>prev\<close> is the cost of the leg, \<open>base\<close> the base
  cost of the edge.\<close>

definition latency_cost :: "'b net_conf \<Rightarrow> int \<Rightarrow> Control_Data \<Rightarrow> int option" where
  "latency_cost cf prev c =
     (let f = fl (rel_cf cf); r = rnd cf; t0 = f (r (cd_rtt c / 2)); t1 = (if t0 < 1 then 1 else t0);
          t2 = f (r (t1 + 4)); co = (if t2 < 300 then t2 else 300)
      in if \<bar>to_int (f (of_int prev - co))\<bar> < to_int (r (r NET_UPDATE_THRESHOLD * of_int prev)) then None
         else Some (int16_of (to_int (r (co + 1 / 2)))))"

definition loss_cost :: "'b net_conf \<Rightarrow> Control_Data \<Rightarrow> int" where
  "loss_cost cf c =
     (let f = fl (rel_cf cf) in
      case c_log cf (f (1 - est_loss_rate c)) of
        None \<Rightarrow> 30000
      | Some l \<Rightarrow> let t = f (f l * 10000)
                in if f (1 - t) < 30000 then int16_of (to_int (rnd cf (f (1 - t) + 1 / 2))) else 30000)"

definition average_cost :: "'b net_conf \<Rightarrow> int \<Rightarrow> Control_Data \<Rightarrow> int option" where
  "average_cost cf prev c =
     (let f = fl (rel_cf cf); r = rnd cf; co = Expected_Latency cf (cd_rtt c) (est_loss_rate c);
          th = r (of_int prev * r NET_UPDATE_THRESHOLD)
      in if co < of_int prev \<and> f (of_int prev - co) < th then None
         else if of_int prev \<le> co \<and> f (co - of_int prev) < th then None
         else Some (int16_of (to_int (r (co + 1 / 2)))))"

text \<open>\<open>-1\<close>: a new problem, \<open>1\<close>: a problem has gone, \<open>0\<close>: no change.\<close>

definition problem_flag :: "'b net_conf \<Rightarrow> int \<Rightarrow> int \<Rightarrow> Control_Data \<Rightarrow> int" where
  "problem_flag cf base prev c =
     (let f = fl (rel_cf cf); r = rnd cf;
          th = f (r (of_int base * r LATENCY_PROB_THRESH)); np = f (r (of_int base * r LATENCY_NO_PROB_THRESH));
          th' = (if th < of_int base + LATENCY_ABS_PROB_THRESH then f (of_int base + LATENCY_ABS_PROB_THRESH) else th);
          np' = (if np < of_int base + LATENCY_ABS_NO_PROB_THRESH then f (of_int base + LATENCY_ABS_NO_PROB_THRESH) else np);
          slow = (base \<noteq> - 1 \<and> th' < cd_rtt c); quick = (base = - 1 \<or> cd_rtt c < np')
      in if r LOSS_PROB_THRESH < est_loss_rate c \<or> slow then (if 0 \<le> prev then - 1 else 0)
         else if est_loss_rate c < r LOSS_NO_PROB_THRESH \<and> quick then (if prev < 0 then 1 else 0)
         else 0)"

definition problem_cost :: "'b net_conf \<Rightarrow> sp_time \<Rightarrow> int \<Rightarrow> int \<Rightarrow> Control_Data \<Rightarrow> int option" where
  "problem_cost cf now base prev c =
     (let r = rnd cf; pf = problem_flag cf base prev c;
          c0 = int16_of (to_int (r (Expected_Latency cf (cd_rtt c) (est_loss_rate c) + 1 / 2)));
          ap = int16_of \<bar>prev\<bar>; ad = int16_of \<bar>ap - c0\<bar>
      in if pf = 0 \<and> (ad < NET_UPDATE_THRESHOLD_ABS \<or> of_int ad < r (of_int ap * r NET_UPDATE_THRESHOLD)) then None
         else let c1 = (if pf = - 1 \<or> pf = 0 \<and> prev < 0 then int16_of (- c0) else c0)
              in if (pf = 1 \<or> \<bar>c1\<bar> < ap) \<and> E_compare_time (E_sub_time now (reported_ts c)) (Problem_Route_Stable_Time cf) < 0
                 then None else Some c1)"

definition measured_cost :: "'b net_conf \<Rightarrow> sp_time \<Rightarrow> int \<Rightarrow> int \<Rightarrow> Control_Data \<Rightarrow> int option" where
  "measured_cost cf now base prev c =
     (case Route_Weight_used cf of
        DISTANCE_ROUTE \<Rightarrow> None
      | LATENCY_ROUTE \<Rightarrow> latency_cost cf prev c
      | LOSSRATE_ROUTE \<Rightarrow> Some (loss_cost cf c)
      | AVERAGE_ROUTE \<Rightarrow> average_cost cf prev c
      | PROBLEM_ROUTE \<Rightarrow> problem_cost cf now base prev c)"

definition base_cost_of :: "State_Data \<Rightarrow> int" where
  "base_cost_of s = (case own_fields s of Edge_Fields f \<Rightarrow> base_cost f | Group_Fields _ \<Rightarrow> - 1)"

definition leg_control_data :: "'b net \<Rightarrow> Network_Leg \<Rightarrow> Control_Data option" where
  "leg_control_data n lg =
     (case control_link lg of None \<Rightarrow> None | Some k \<Rightarrow> (case Links n k of None \<Rightarrow> None | Some lk \<Rightarrow> c_data_of lk))"

definition Network_Leg_Update_Cost :: "'b net_conf \<Rightarrow> Network_Leg_ID \<Rightarrow> 'b net \<Rightarrow> (int \<times> 'b net) res" where
  "Network_Leg_Update_Cost cf lid n =
     (case get_leg n lid of
        None \<Rightarrow> Inl (UNDEF ''Network_Leg_Update_Cost'')
      | Some lg \<Rightarrow>
          (case (leg_control_data n lg, Find_State (All_Edges (dae n)) (fst (leg_edge lg)) (snd (leg_edge lg))) of
             (None, _) \<Rightarrow> Inl (EXIT ''Leg_Update_Cost: Invalid control link on leg'')
           | (_, None) \<Rightarrow> Inl (UNDEF ''Network_Leg_Update_Cost'')
           | (Some c, Some e) \<Rightarrow>
               (case measured_cost cf (wall_clock (dae n)) (base_cost_of e) (leg_cost lg) c of
                  None \<Rightarrow> Inr (- 1, n)
                | Some co \<Rightarrow> bind_res (Network_Leg_Set_Cost lid co n) (\<lambda>n1. Inr (1, n1)))))"

end
