(* ===== verification/Hello.thy ===== *)
theory Hello
  imports Legs
begin

unbundle bit_operations_syntax

text \<open>
  The hello protocol (\<open>daemon/hello.c\<close>): the timers that send hellos, the declaration of a dead leg,
  pings on disconnected legs, and what is done on receipt of a hello or a ping, together with the part
  of \<open>Prot_process_scat\<close> (\<open>protocol.c\<close>) that finds the leg and dispatches.
\<close>

section \<open>Constants and packets\<close>

definition CONNECT_LINK_CNT :: int where "CONNECT_LINK_CNT = 1 + DEAD_LINK_CNT div 2"
definition ad_timeout :: sp_time where "ad_timeout = \<lparr>sec = 1, usec = 0\<rparr>"
definition HELLO_TYPE :: int32u where "HELLO_TYPE = 0x10000000"
definition HELLO_REQ_TYPE :: int32u where "HELLO_REQ_TYPE = 0x20000000"
definition HELLO_PING_TYPE :: int32u where "HELLO_PING_TYPE = 0x30000000"
definition HELLO_MASK :: int32u where "HELLO_MASK = 0x30000000"
definition Is_hello_type :: "int32u \<Rightarrow> bool" where "Is_hello_type t \<longleftrightarrow> t AND HELLO_MASK \<noteq> 0"
definition Is_hello :: "int32u \<Rightarrow> bool" where "Is_hello t \<longleftrightarrow> t AND HELLO_MASK = HELLO_TYPE"
definition Is_hello_req :: "int32u \<Rightarrow> bool" where "Is_hello_req t \<longleftrightarrow> t AND HELLO_MASK = HELLO_REQ_TYPE"
definition sizeof_hello_packet :: nat where "sizeof_hello_packet = 24"

definition Flip_hello_pkt :: "hello_packet \<Rightarrow> hello_packet" where
  "Flip_hello_pkt p = \<lparr>hp_seq_no = Flip_int32 (hp_seq_no p), hp_my_time_sec = Flip_int32 (hp_my_time_sec p),
     hp_my_time_usec = Flip_int32 (hp_my_time_usec p), hp_response_seq_no = Flip_int32 (hp_response_seq_no p),
     hp_diff_time = Flip_int32 (hp_diff_time p), hp_loss_rate = Flip_int32 (hp_loss_rate p)\<rparr>"

text \<open>The link with this identifier when it is a control link, with its control data.\<close>

definition control_link_at :: "'b net \<Rightarrow> int \<Rightarrow> ('b Link \<times> Control_Data) option" where
  "control_link_at n linkid =
     (case Links n linkid of
        None \<Rightarrow> None
      | Some lk \<Rightarrow> if lk_type lk = CONTROL_LINK then map_option (\<lambda>c. (lk, c)) (c_data_of lk) else None)"

section \<open>Sending\<close>

definition Net_Send_Hello :: "'b net_conf \<Rightarrow> int \<Rightarrow> bool \<Rightarrow> 'b net \<Rightarrow> 'b net res" where
  "Net_Send_Hello cf linkid req n =
     (case control_link_at n linkid of
        None \<Rightarrow> Inl (EXIT ''Net_Send_Hello: control link invalid'')
      | Some (lk, c) \<Rightarrow>
          (case get_leg n (lk_leg lk) of
             None \<Rightarrow> Inl (UNDEF ''Net_Send_Hello'')
           | Some lg \<Rightarrow>
               bind_res (Set_Loss_SeqNo CONTROL_LINK (Some (l_data c))) (\<lambda>(ls, l).
               bind_res (Compute_Loss_Rate (rnd cf) (Some l)) (\<lambda>loss.
                 let now = wall_clock (dae n);
                     h = \<lparr>ph_type = Set_endian (ARCH_ENDIAN (dae n)) (if req then HELLO_REQ_TYPE else HELLO_TYPE),
                          ph_sender_id = My_Address (dae n), ph_ctrl_link_id = ctrl_link_id lg,
                          ph_data_len = of_nat sizeof_hello_packet, ph_ack_len = 0, ph_seq_no = ls\<rparr>;
                     p = \<lparr>hp_seq_no = hello_seq c, hp_my_time_sec = word_of_int (sec now),
                          hp_my_time_usec = word_of_int (usec now), hp_response_seq_no = other_side_hello_seq c,
                          hp_diff_time = word_of_int (diff_time c), hp_loss_rate = word_of_int loss\<rparr>;
                     n1 = upd_link linkid (put_c_data (c\<lparr>l_data := l, hello_seq := hello_seq c + 1\<rparr>)) n
                 in Inr (if network_flag (rel_cf cf) then net_emit (Hello_Out linkid h p) n1 else n1)))))"

definition Net_Send_Hello_Ping :: "'b net_conf \<Rightarrow> Interface_ID \<Rightarrow> int32u \<Rightarrow> 'b net \<Rightarrow> 'b net" where
  "Net_Send_Hello_Ping cf i a n =
     (let now = wall_clock (dae n);
          h = \<lparr>ph_type = Set_endian (ARCH_ENDIAN (dae n)) HELLO_PING_TYPE, ph_sender_id = My_Address (dae n),
               ph_ctrl_link_id = 0, ph_data_len = of_nat sizeof_hello_packet, ph_ack_len = 0, ph_seq_no = 0\<rparr>;
          p = \<lparr>hp_seq_no = 2, hp_my_time_sec = word_of_int (sec now), hp_my_time_usec = word_of_int (usec now),
               hp_response_seq_no = fst (unset_words cf), hp_diff_time = 0, hp_loss_rate = snd (unset_words cf)\<rparr>
      in if network_flag (rel_cf cf) then net_emit (Ping_Out i a h p) n else n)"

definition Dead_Leg :: "int \<Rightarrow> 'b net \<Rightarrow> 'b net res" where
  "Dead_Leg linkid n =
     (case Links n linkid of
        None \<Rightarrow> Inr n
      | Some lk \<Rightarrow>
          if lk_type lk \<noteq> CONTROL_LINK then Inr n
          else (case get_leg n (lk_leg lk) of
                  None \<Rightarrow> Inl (UNDEF ''Dead_Leg'')
                | Some lg \<Rightarrow> if hellos_out lg < DEAD_LINK_CNT then Inr n else Disconnect_Network_Leg (lk_leg lk) n))"

text \<open>Half the hello timeout.\<close>

definition dead_timeout :: "'b net_conf \<Rightarrow> sp_time" where
  "dead_timeout cf =
     (if sec (hello_timeout cf) = 0 then \<lparr>sec = 0, usec = c_div (usec (hello_timeout cf)) 2\<rparr>
      else let us = c_div (sec (hello_timeout cf) * 1000000 + usec (hello_timeout cf)) 2
           in \<lparr>sec = c_div us 1000000, usec = c_rem us 1000000\<rparr>)"

definition clean_leg_history :: "Network_Leg \<Rightarrow> 'b net \<Rightarrow> 'b net" where
  "clean_leg_history lg n =
     (case leg_links lg REALTIME_UDP_LINK of
        None \<Rightarrow> n
      | Some k \<Rightarrow> upd_link k (\<lambda>lk. case lk_prot_data lk of
          Realtime_Prot r \<Rightarrow> lk\<lparr>lk_prot_data := Realtime_Prot (clean_history (wall_clock (dae n)) r)\<rparr> | _ \<Rightarrow> lk) n)"

definition Send_Hello :: "'b net_conf \<Rightarrow> int \<Rightarrow> 'b net \<Rightarrow> 'b net res" where
  "Send_Hello cf linkid n =
     (case control_link_at n linkid of
        None \<Rightarrow> Inl (EXIT ''Send_Hello: invalid control link'')
      | Some (lk, c) \<Rightarrow>
          (case get_leg n (lk_leg lk) of
             None \<Rightarrow> Inl (UNDEF ''Send_Hello'')
           | Some lg \<Rightarrow>
               let n1 = (if hellos_out lg = hello_cnt_start cf then net_queue Send_Hello_Request_Cnt_ev linkid None (cnt_timeout cf) n else n);
                   n2 = (if hellos_out lg = DEAD_LINK_CNT then net_queue Dead_Leg_ev linkid None (dead_timeout cf) n1 else n1)
               in bind_res (Net_Send_Hello cf linkid False n2) (\<lambda>n3.
                    let n4 = upd_leg (lk_leg lk) (\<lambda>l. l\<lparr>hellos_out := int16_of (hellos_out l + 1)\<rparr>) n3
                    in Inr (net_queue Send_Hello_ev linkid None (hello_timeout cf) (clean_leg_history lg n4)))))"

definition Send_Hello_Request :: "'b net_conf \<Rightarrow> int \<Rightarrow> 'b net \<Rightarrow> 'b net res" where
  "Send_Hello_Request cf linkid n = Net_Send_Hello cf linkid True n"

definition Send_Hello_Request_Cnt :: "'b net_conf \<Rightarrow> int \<Rightarrow> 'b net \<Rightarrow> 'b net res" where
  "Send_Hello_Request_Cnt cf linkid n =
     (if control_link_at n linkid = None then Inl (EXIT ''Send_Hello_Request_Cnt: invalid control link'')
      else bind_res (Net_Send_Hello cf linkid True n) (\<lambda>n1.
        Inr (net_queue Send_Hello_Request_Cnt_ev linkid None (cnt_timeout cf) n1)))"

definition ping_leg :: "'b net_conf \<Rightarrow> Network_Leg \<Rightarrow> 'b net \<Rightarrow> 'b net res" where
  "ping_leg cf lg n =
     (if leg_status lg = DISCONNECTED_LEG
      then (case Get_Interface n (snd (leg_id lg)) of
              None \<Rightarrow> Inl (UNDEF ''Send_Hello_Ping'')
            | Some ri \<Rightarrow> Inr (Net_Send_Hello_Ping cf (fst (leg_id lg)) (net_addr ri) n))
      else Inr n)"

definition Send_Hello_Ping :: "'b net_conf \<Rightarrow> 'b net \<Rightarrow> 'b net res" where
  "Send_Hello_Ping cf n =
     bind_res (fold_res (ping_leg cf) (stdhash_vals (Network_Legs (dae n))) n) (\<lambda>n1.
       Inr (net_queue Send_Hello_Ping_ev 0 None ad_timeout n1))"

section \<open>Receiving a hello\<close>

text \<open>The other side starts its session: its packets are counted from this one on.\<close>

definition reset_loss :: "int16u \<Rightarrow> Loss_Data \<Rightarrow> Loss_Data" where
  "reset_loss sq l = l\<lparr>recvd_seqs := (\<lambda>_. PACK_MAX_SEQ + 1)(CONTROL_LINK := int16_of (uint sq))\<rparr>"

text \<open>Round trip time and clock offset. The product of the offset in the packet, an \<open>int\<close>, with 100
  must fit an \<open>int\<close>. The Boolean tells that the round trip time has changed.\<close>

definition hello_rtt :: "'b net_conf \<Rightarrow> sp_time \<Rightarrow> hello_packet \<Rightarrow> Control_Data \<Rightarrow> (bool \<times> Control_Data) res" where
  "hello_rtt cf now p c =
     (let my_diff = E_sub_time now \<lparr>sec = sint (hp_my_time_sec p), usec = sint (hp_my_time_usec p)\<rparr>;
          off = sint (hp_diff_time p) * 100
      in if off < - (2 ^ 31) \<or> 2 ^ 31 \<le> off then Inl (UNDEF ''signed overflow'')
         else let rtt0 = int32_of (sec my_diff * 1000000 + usec my_diff + off);
                  rtt1 = (if rtt0 < 0 then 100 else rtt0);
                  c1 = c\<lparr>diff_time := int32_of (sec my_diff * 10000 + c_div (usec my_diff) 100)\<rparr>
              in if hello_seq c1 \<le> hp_response_seq_no p + 20 \<and> hp_response_seq_no p \<noteq> 0
                 then let r = rnd cf; x = fl (rel_cf cf) (r (r (r (95 / 100) * cd_rtt c1) + r (r (5 / 100) * r (of_int rtt1 / 1000))))
                      in Inr (True, c1\<lparr>cd_rtt := (if x < 1 then 1 else x)\<rparr>)
                 else Inr (False, c1))"

definition hello_loss :: "'b net_conf \<Rightarrow> hello_packet \<Rightarrow> Control_Data \<Rightarrow> Control_Data" where
  "hello_loss cf p c =
     (if sint (hp_loss_rate p) \<noteq> UNKNOWN
      then c\<lparr>est_loss_rate := fl (rel_cf cf) (fl (rel_cf cf) (of_int (sint (hp_loss_rate p))) / LOSS_RATE_SCALE)\<rparr> else c)"

text \<open>Whether a connected leg should try to update its cost. A random value is drawn for the metrics
  other than distance and problem.\<close>

definition wants_update :: "'b net_conf \<Rightarrow> sp_time \<Rightarrow> State_Data \<Rightarrow> Control_Data \<Rightarrow> 'b net \<Rightarrow> bool \<times> 'b net" where
  "wants_update cf now e c n =
     (case Route_Weight_used cf of
        PROBLEM_ROUTE \<Rightarrow> (True, n)
      | DISTANCE_ROUTE \<Rightarrow> (False, n)
      | w \<Rightarrow>
          let (x, n1) = next_rand n; f = fl (rel_cf cf); r = rnd cf;
              time_rnd = \<lfloor>r (r (30 * of_int x) / r (of_int (RAND_MAX cf) + 1))\<rfloor>;
              d = \<bar>f (of_int (reported_rtt c) - cd_rtt c)\<bar>;
              by_rtt = (reported_rtt c = UNKNOWN \<or> r (r NET_UPDATE_THRESHOLD * of_int (reported_rtt c)) < d \<and> 2 \<le> d);
              by_loss = (r (r NET_UPDATE_THRESHOLD * reported_loss_rate c) < \<bar>f (reported_loss_rate c - est_loss_rate c)\<bar>)
          in (my_timestamp_sec e + 30 + time_rnd < sec now \<and>
              (w \<noteq> LOSSRATE_ROUTE \<and> by_rtt \<or> w \<noteq> LATENCY_ROUTE \<and> by_loss), n1))"

definition report :: "sp_time \<Rightarrow> Control_Data \<Rightarrow> Control_Data" where
  "report now c = c\<lparr>reported_rtt := to_int (cd_rtt c), reported_loss_rate := est_loss_rate c, reported_ts := now\<rparr>"

definition upd_control :: "int \<Rightarrow> (Control_Data \<Rightarrow> Control_Data) \<Rightarrow> 'b net \<Rightarrow> 'b net" where
  "upd_control linkid f n =
     upd_link linkid (\<lambda>lk. case lk_prot_data lk of Control_Prot c \<Rightarrow> lk\<lparr>lk_prot_data := Control_Prot (f c)\<rparr> | _ \<Rightarrow> lk) n"

text \<open>An edge of the configuration leads to the node with this address.\<close>

definition configured_neighbor :: "'b net_conf \<Rightarrow> int32u \<Rightarrow> bool" where
  "configured_neighbor cf a =
     (case stdhash_find (Node_Lookup_Addr_to_ID cf) a of
        None \<Rightarrow> False
      | Some ngbr \<Rightarrow> (if \<not> Directed_Edges cf \<and> ngbr < My_ID cf then (ngbr, My_ID cf) else (My_ID cf, ngbr)) \<in> set (Sorted_Edges cf))"

definition set_connected :: "int \<Rightarrow> 'b net \<Rightarrow> 'b net" where
  "set_connected k n = upd_link k (\<lambda>lk. lk\<lparr>lk_r_data := map_option (\<lambda>r. r\<lparr>CONNECTED_LINK := True\<rparr>) (lk_r_data lk)\<rparr>) n"

text \<open>The optional link of the intrusion-tolerant protocol.\<close>

definition it_link :: "'b net_conf \<Rightarrow> Network_Leg_ID \<Rightarrow> 'b net \<Rightarrow> 'b net res" where
  "it_link cf lid n =
     (case Get_Interface n (snd lid) of
        None \<Rightarrow> Inl (UNDEF ''Process_hello_packet'')
      | Some ri \<Rightarrow> if Config_File_Found cf \<and> configured_neighbor cf (net_addr ri)
                   then bind_res (Create_Link cf lid INTRUSION_TOL_LINK n) (\<lambda>(_, n1). Inr n1) else Inr n)"

definition start_data :: "int \<Rightarrow> int \<Rightarrow> 'b net \<Rightarrow> 'b net" where
  "start_data k k' n = net_queue Try_to_Send_ev k' None zero_timeout (net_queue Try_to_Send_ev k None zero_timeout
     (net_queue Send_Hello_ev k None zero_timeout (set_connected k' (set_connected k n))))"

text \<open>The leg has received enough hellos: it gets its first cost and the links for data.\<close>

definition connect_leg :: "'b net_conf \<Rightarrow> int \<Rightarrow> Network_Leg_ID \<Rightarrow> 'b net \<Rightarrow> 'b net res" where
  "connect_leg cf linkid lid n =
     bind_res (Network_Leg_Set_Cost lid (Network_Leg_Initial_Cost cf) (upd_leg lid (\<lambda>l. l\<lparr>leg_status := CONNECTED_LEG\<rparr>) n)) (\<lambda>n1.
     bind_res (Create_Link cf lid UDP_LINK (upd_control linkid (report (wall_clock (dae n))) n1)) (\<lambda>(_, n2).
     bind_res (Create_Link cf lid RELIABLE_UDP_LINK n2) (\<lambda>(k, n3).
     bind_res (Create_Link cf lid REALTIME_UDP_LINK n3) (\<lambda>(_, n4).
     bind_res (it_link cf lid n4) (\<lambda>n5. Inr (start_data linkid k n5))))))"

definition hello_status :: "'b net_conf \<Rightarrow> int \<Rightarrow> Network_Leg_ID \<Rightarrow> 'b net \<Rightarrow> 'b net res" where
  "hello_status cf linkid lid n =
     (case (get_leg n lid, control_link_at n linkid) of
        (Some lg, Some (lk, c)) \<Rightarrow>
          (case leg_status lg of
             CONNECTED_LEG \<Rightarrow>
               (case Find_State (All_Edges (dae n)) (fst (leg_edge lg)) (snd (leg_edge lg)) of
                  None \<Rightarrow> Inl (UNDEF ''Process_hello_packet'')
                | Some e \<Rightarrow>
                    let now = wall_clock (dae n); (u, n1) = wants_update cf now e c n
                    in if u then bind_res (Network_Leg_Update_Cost cf lid n1) (\<lambda>(ret, n2).
                              Inr (if 0 < ret then upd_control linkid (report now) n2 else n2))
                       else Inr n1)
           | NOT_YET_CONNECTED_LEG \<Rightarrow>
               let n1 = upd_leg lid (\<lambda>l. l\<lparr>connect_cnter := int16_of (connect_cnter l + 1)\<rparr>) n
               in if CONNECT_LINK_CNT \<le> int16_of (connect_cnter lg + 1) then connect_leg cf linkid lid n1 else Inr n1
           | DISCONNECTED_LEG \<Rightarrow> Inl (EXIT ''Bad leg status''))
      | _ \<Rightarrow> Inl (UNDEF ''Process_hello_packet''))"

text \<open>A hello of the session that the leg knows.\<close>

definition accept_hello :: "'b net_conf \<Rightarrow> int \<Rightarrow> Network_Leg_ID \<Rightarrow> packet_header \<Rightarrow> hello_packet \<Rightarrow> int32u \<Rightarrow> Control_Data \<Rightarrow> 'b net \<Rightarrow> 'b net res" where
  "accept_hello cf linkid lid h p type c n =
     (case Check_Link_Loss (rnd cf) (Some (l_data c)) (ph_seq_no h) CONTROL_LINK of
        None \<Rightarrow> Inl (LOOPS ''Check_Link_Loss'')
      | Some l \<Rightarrow>
          let c1 = c\<lparr>l_data := the l\<rparr>; now = wall_clock (dae n) in
          if hp_seq_no p + 3 < other_side_hello_seq c1 then Inr (upd_control linkid (\<lambda>_. c1) n)
          else bind_res (hello_rtt cf now p (c1\<lparr>other_side_hello_seq := hp_seq_no p\<rparr>)) (\<lambda>(new_rtt, c2).
            let c3 = hello_loss cf p c2;
                n1 = upd_control linkid (\<lambda>_. c3) n;
                n2 = (if new_rtt then upd_link linkid (\<lambda>lk. lk\<lparr>lk_r_data := map_option (\<lambda>r. r\<lparr>rtt := to_int (cd_rtt c3)\<rparr>) (lk_r_data lk)\<rparr>) n1 else n1);
                n3 = net_dequeue Send_Hello_Request_Cnt_ev linkid None (upd_leg lid (\<lambda>l. l\<lparr>hellos_out := 0, last_recv_hello := now\<rparr>) n2);
                n4 = (if Is_hello_req type then net_queue Send_Hello_ev linkid None zero_timeout n3 else n3)
            in hello_status cf linkid lid n4))"

definition Process_hello_packet :: "'b net_conf \<Rightarrow> int \<Rightarrow> packet_header \<Rightarrow> hello_packet \<Rightarrow> nat \<Rightarrow> int32u \<Rightarrow> 'b net \<Rightarrow> 'b net res" where
  "Process_hello_packet cf linkid h p0 remaining_bytes type n =
     (case control_link_at n linkid of
        None \<Rightarrow> Inl (UNDEF ''Process_hello_packet'')
      | Some (lk, c) \<Rightarrow>
          (case get_leg n (lk_leg lk) of
             None \<Rightarrow> Inl (UNDEF ''Process_hello_packet'')
           | Some lg \<Rightarrow>
               if remaining_bytes \<noteq> sizeof_hello_packet then Inr n
               else let p = (if Same_endian (ARCH_ENDIAN (dae n)) type then p0 else Flip_hello_pkt p0); lid = lk_leg lk in
                 if ph_ctrl_link_id h = other_side_ctrl_link_id lg then accept_hello cf linkid lid h p type c n
                 else if other_side_ctrl_link_id lg = 0
                 then let c1 = c\<lparr>l_data := reset_loss (ph_seq_no h) (l_data c)\<rparr>
                      in accept_hello cf linkid lid h p type c1
                           (upd_control linkid (\<lambda>_. c1) (upd_leg lid (\<lambda>l. l\<lparr>other_side_ctrl_link_id := ph_ctrl_link_id h\<rparr>) n))
                 else bind_res (Disconnect_Network_Leg lid n) (\<lambda>n1.
                      bind_res (Create_Link cf lid CONTROL_LINK n1) (\<lambda>(k, n2). Send_Hello cf k n2))))"

section \<open>Receiving a ping\<close>

definition in_sec :: "'b net_conf \<Rightarrow> sp_time \<Rightarrow> rat" where
  "in_sec cf t = rnd cf (of_int (sec t) + rnd cf (of_int (usec t) / 1000000))"

text \<open>A leg without a control link gets one, unless it was disconnected a moment ago.\<close>

definition ping_control :: "'b net_conf \<Rightarrow> Network_Leg_ID \<Rightarrow> 'b net \<Rightarrow> (int option \<times> 'b net) res" where
  "ping_control cf lid n =
     (case get_leg n lid of
        None \<Rightarrow> Inl (UNDEF ''Process_hello_ping'')
      | Some lg \<Rightarrow>
          (case control_link lg of
             Some k \<Rightarrow> Inr (Some k, n)
           | None \<Rightarrow>
               if stable_delay_flag cf \<and> rnd cf (in_sec cf (wall_clock (dae n)) - in_sec cf (last_connected lg)) < stable_timeout cf
               then Inr (None, n)
               else bind_res (Create_Link cf lid CONTROL_LINK n) (\<lambda>(k, n1).
                    Inr (Some k, upd_leg lid (\<lambda>l. l\<lparr>last_recv_hello := wall_clock (dae n1)\<rparr>) n1))))"

definition ping_leg_of :: "'b net_conf \<Rightarrow> int32u \<Rightarrow> Interface_ID \<Rightarrow> 'b net \<Rightarrow> (int option \<times> 'b net) res" where
  "ping_leg_of cf from_addr local n =
     (case Get_Interface_by_Addr n from_addr of
        None \<Rightarrow> Inl (UNDEF ''Process_hello_ping'')
      | Some ri \<Rightarrow>
          bind_res (if get_leg n (local, iid ri) = None then Create_Network_Leg local (iid ri) n else Inr n)
            (ping_control cf (local, iid ri)))"

text \<open>The three pointers that \<open>Prot_process_scat\<close> passes: interface and leg are looked up again, the link
  is the control link of the leg. The result is the control link, if there is one now.\<close>

definition Process_hello_ping :: "'b net_conf \<Rightarrow> packet_header \<Rightarrow> int32u \<Rightarrow> Interface_ID \<Rightarrow> 'b net \<Rightarrow> (int option \<times> 'b net) res" where
  "Process_hello_ping cf h from_addr local n =
     bind_res (get_or_create_node (ph_sender_id h) (dae n)) (\<lambda>d.
     bind_res (if Get_Interface_by_Addr n from_addr = None
               then Create_Interface cf (ph_sender_id h) from_addr from_addr (n\<lparr>dae := d\<rparr>) else Inr (n\<lparr>dae := d\<rparr>))
       (ping_leg_of cf from_addr local))"

text \<open>The part of \<open>Prot_process_scat\<close> for packets of a hello type on a control port. \<open>sizes_ok\<close> and
  \<open>port_ok\<close> are the outcome of its first two tests.\<close>

definition process_hello :: "'b net_conf \<Rightarrow> bool \<Rightarrow> bool \<Rightarrow> Interface_ID \<Rightarrow> int32u \<Rightarrow> packet_header \<Rightarrow> hello_packet \<Rightarrow> nat \<Rightarrow> int32u \<Rightarrow> 'b net \<Rightarrow> 'b net res" where
  "process_hello cf sizes_ok port_ok local from_addr h p remaining_bytes type n =
     (if \<not> sizes_ok \<or> \<not> port_ok then Inr n
      else if (case Get_Interface_by_Addr n from_addr of None \<Rightarrow> False | Some ri \<Rightarrow> owner ri \<noteq> ph_sender_id h) then Inr n
      else bind_res (Process_hello_ping cf h from_addr local n) (\<lambda>(lk, n1).
        case lk of
          None \<Rightarrow> Inr n1
        | Some k \<Rightarrow> if Is_hello (ph_type h) \<or> Is_hello_req (ph_type h)
                    then Process_hello_packet cf k h p remaining_bytes type n1 else Inr n1))"

section \<open>Start\<close>

text \<open>What \<open>Init_Connections\<close> makes of the timeouts: the values for wired and wireless links.\<close>

definition Init_timeouts :: "bool \<Rightarrow> 'b net_conf \<Rightarrow> 'b net_conf" where
  "Init_timeouts wireless cf =
     (let cf1 = cf\<lparr>hello_timeout := (if wireless then \<lparr>sec = 2, usec = 100000\<rparr> else \<lparr>sec = 0, usec = 100000\<rparr>),
                   cnt_timeout := \<lparr>sec = 0, usec = (if wireless then 200000 else 100000)\<rparr>,
                   hello_cnt_start := (if wireless then to_int (rnd cf (1 / 2 + rnd cf (rnd cf (3 / 10) * 10)))
                                       else to_int (rnd cf (1 / 2 + rnd cf (rnd cf (7 / 10) * 10)))),
                   stable_delay_flag := True\<rparr>
      in cf1\<lparr>stable_timeout := rnd cf (20 * rnd cf (of_int (sec (hello_timeout cf1))
                                + rnd cf (of_int (usec (hello_timeout cf1)) / 1000000)))\<rparr>)"

end
