(* ===== verification/Net_Inv.thy ===== *)
theory Net_Inv
  imports Hello Flood_Updates
begin

text \<open>
  The well-formedness of the state behind the links: every link is in its slot and in its leg, the
  data behind \<open>prot_data\<close> has the type that \<open>link_type\<close> promises, a leg and its edge have the same cost
  and the links that the status of the leg requires, neighbor slots and nodes agree, and no timer
  refers to a link that is gone. Each part is a predicate on the tables it speaks of.
\<close>

section \<open>Computations that may fail in known ways\<close>

definition res_post :: "failure set \<Rightarrow> ('a \<Rightarrow> bool) \<Rightarrow> 'a res \<Rightarrow> bool" where
  "res_post A Q r \<longleftrightarrow> (case r of Inl e \<Rightarrow> e \<in> A | Inr x \<Rightarrow> Q x)"

lemma res_post_simps [simp]: "res_post A Q (Inl e) \<longleftrightarrow> e \<in> A" "res_post A Q (Inr x) \<longleftrightarrow> Q x"
  by (simp_all add: res_post_def)

lemma res_post_bind: "res_post A P r \<Longrightarrow> (\<And>x. P x \<Longrightarrow> res_post A Q (f x)) \<Longrightarrow> res_post A Q (bind_res r f)"
  by (cases r) auto

lemma res_post_mono: "res_post A P r \<Longrightarrow> A \<subseteq> B \<Longrightarrow> (\<And>x. P x \<Longrightarrow> Q x) \<Longrightarrow> res_post B Q r"
  by (cases r) auto

lemma res_post_Inr: "res_post {} Q r \<longleftrightarrow> (\<exists>x. r = Inr x \<and> Q x)"
  by (cases r) auto

lemma res_postD: "res_post A Q r \<Longrightarrow> r = Inr x \<Longrightarrow> Q x"
  by simp

section \<open>The invariant\<close>

text \<open>The data of a link has the type that its code casts it to.\<close>

definition prot_ok :: "'b Link \<Rightarrow> bool" where
  "prot_ok lk \<longleftrightarrow>
     (case lk_type lk of
        CONTROL_LINK \<Rightarrow> c_data_of lk \<noteq> None \<and> lk_r_data lk \<noteq> None
      | RELIABLE_UDP_LINK \<Rightarrow> lk_prot_data lk = No_Prot_Data \<and> lk_r_data lk \<noteq> None
      | REALTIME_UDP_LINK \<Rightarrow> (\<exists>r. lk_prot_data lk = Realtime_Prot r) \<and> lk_r_data lk = None
      | INTRUSION_TOL_LINK \<Rightarrow> lk_prot_data lk = Int_Tol_Prot \<and> lk_r_data lk = None
      | MAX_LINKS_4_EDGE \<Rightarrow> False
      | _ \<Rightarrow> lk_prot_data lk = No_Prot_Data \<and> lk_r_data lk = None)"

definition links_ok :: "(int \<Rightarrow> 'b Link option) \<Rightarrow> (Network_Leg_ID \<Rightarrow> Network_Leg option) \<Rightarrow> bool" where
  "links_ok L G \<longleftrightarrow>
     (\<forall>k lk. L k = Some lk \<longrightarrow> lk_id lk = k \<and> 0 \<le> k \<and> k < int MAX_LINKS \<and> prot_ok lk \<and>
        (\<exists>lg. G (lk_leg lk) = Some lg \<and> leg_links lg (lk_type lk) = Some k)) \<and>
     (\<forall>lid lg ty k. G lid = Some lg \<and> leg_links lg ty = Some k \<longrightarrow> (\<exists>lk. L k = Some lk \<and> lk_leg lk = lid \<and> lk_type lk = ty))"

definition place_ok :: "Node_ID \<Rightarrow> (Interface_ID \<Rightarrow> Interface option) \<Rightarrow> (Node_ID \<Rightarrow> State_Data option) \<Rightarrow> Network_Leg_ID \<Rightarrow> Network_Leg \<Rightarrow> bool" where
  "place_ok me I E lid lg \<longleftrightarrow> leg_id lg = lid \<and> fst (leg_edge lg) = me \<and> snd (leg_edge lg) \<noteq> me \<and>
     (\<exists>li. I (fst lid) = Some li \<and> owner li = me) \<and> (\<exists>ri. I (snd lid) = Some ri \<and> owner ri = snd (leg_edge lg)) \<and>
     (\<exists>e. E (snd (leg_edge lg)) = Some e \<and> leg_of e = Some lid \<and> state_value e = leg_cost lg)"

text \<open>What the status of a leg says of its cost, its links and the neighbor slot of the other side.\<close>

definition has_slot :: "(Node_ID \<Rightarrow> Node option) \<Rightarrow> Node_ID \<Rightarrow> bool" where
  "has_slot N i \<longleftrightarrow> (\<exists>nd. N i = Some nd \<and> neighbor_id nd \<noteq> - 1)"

definition status_ok :: "(Node_ID \<Rightarrow> Node option) \<Rightarrow> Network_Leg \<Rightarrow> bool" where
  "status_ok N lg \<longleftrightarrow>
     (case leg_status lg of
        DISCONNECTED_LEG \<Rightarrow> leg_cost lg = - 1 \<and> (\<forall>ty. ty \<noteq> INTRUSION_TOL_LINK \<longrightarrow> leg_links lg ty = None)
      | NOT_YET_CONNECTED_LEG \<Rightarrow> leg_cost lg = - 1 \<and> control_link lg \<noteq> None \<and> has_slot N (snd (leg_edge lg)) \<and>
          (\<forall>ty. ty \<noteq> CONTROL_LINK \<and> ty \<noteq> INTRUSION_TOL_LINK \<longrightarrow> leg_links lg ty = None)
      | CONNECTED_LEG \<Rightarrow> leg_cost lg \<noteq> - 1 \<and> has_slot N (snd (leg_edge lg)) \<and>
          (\<forall>ty \<in> {CONTROL_LINK, UDP_LINK, RELIABLE_UDP_LINK, REALTIME_UDP_LINK}. leg_links lg ty \<noteq> None))"

definition is_edge :: "State_Data \<Rightarrow> bool" where
  "is_edge e \<longleftrightarrow> (case own_fields e of Edge_Fields f \<Rightarrow> True | Group_Fields g \<Rightarrow> False)"

definition edge_leg :: "Node_ID \<Rightarrow> (Network_Leg_ID \<Rightarrow> Network_Leg option) \<Rightarrow> Node_ID \<Rightarrow> State_Data \<Rightarrow> bool" where
  "edge_leg me G t e \<longleftrightarrow> is_edge e \<and> (case leg_of e of None \<Rightarrow> state_value e = - 1 | Some lid \<Rightarrow> \<exists>lg. G lid = Some lg \<and> leg_edge lg = (me, t))"

definition edges_ok :: "Node_ID \<Rightarrow> (Network_Leg_ID \<Rightarrow> Network_Leg option) \<Rightarrow> (Node_ID \<Rightarrow> State_Data option) \<Rightarrow> (Node_ID \<Rightarrow> Node option) \<Rightarrow> bool" where
  "edges_ok me G E N \<longleftrightarrow>
     (\<forall>t e. E t = Some e \<longrightarrow> edge_leg me G t e \<and> (\<exists>nd. N t = Some nd \<and> edge nd = Some (me, t))) \<and>
     (\<forall>t nd p. N t = Some nd \<and> edge nd = Some p \<longrightarrow> p = (me, t) \<and> E t \<noteq> None)"

definition slots_ok :: "(Node_ID \<Rightarrow> Node option) \<Rightarrow> Node_ID option list \<Rightarrow> nat \<Rightarrow> bool" where
  "slots_ok N ns m \<longleftrightarrow> length ns = MAX_NEIGHBORS \<and> m \<le> MAX_NEIGHBORS \<and>
     (\<forall>j < MAX_NEIGHBORS. \<forall>i. ns ! j = Some i \<longrightarrow> j < m \<and> (\<exists>nd. N i = Some nd \<and> neighbor_id nd = int j)) \<and>
     (\<forall>i nd. N i = Some nd \<and> neighbor_id nd \<noteq> - 1 \<longrightarrow>
        0 \<le> neighbor_id nd \<and> neighbor_id nd < int MAX_NEIGHBORS \<and> ns ! nat (neighbor_id nd) = Some i)"

text \<open>The timers that work on a link, with the types the link may have.\<close>

definition timer_types :: "event_func \<Rightarrow> Link_Type set option" where
  "timer_types f =
     (case f of
        Send_Hello_ev \<Rightarrow> Some {CONTROL_LINK} | Send_Hello_Request_ev \<Rightarrow> Some {CONTROL_LINK}
      | Send_Hello_Request_Cnt_ev \<Rightarrow> Some {CONTROL_LINK} | Net_Send_State_All_ev \<Rightarrow> Some {CONTROL_LINK}
      | Try_to_Send_ev \<Rightarrow> Some {CONTROL_LINK, RELIABLE_UDP_LINK}
      | Send_RT_Nack_ev \<Rightarrow> Some {REALTIME_UDP_LINK} | Send_RT_Retransm_ev \<Rightarrow> Some {REALTIME_UDP_LINK}
      | Fill_Bucket_IT_ev \<Rightarrow> Some {INTRUSION_TOL_LINK} | Ping_IT_Timeout_ev \<Rightarrow> Some {INTRUSION_TOL_LINK}
      | Loss_Calculation_Event_ev \<Rightarrow> Some {INTRUSION_TOL_LINK}
      | _ \<Rightarrow> None)"

definition timer_ok :: "(int \<Rightarrow> 'b Link option) \<Rightarrow> (event_func, Prot_Def option) time_event \<Rightarrow> bool" where
  "timer_ok L e \<longleftrightarrow>
     (case timer_types (te_func e) of
        None \<Rightarrow> True
      | Some T \<Rightarrow> (te_data e \<noteq> None \<longleftrightarrow> te_func e = Net_Send_State_All_ev) \<and> (\<exists>lk. L (te_code e) = Some lk \<and> lk_type lk \<in> T))"

definition timers_ok :: "(int \<Rightarrow> 'b Link option) \<Rightarrow> event_queue \<Rightarrow> bool" where
  "timers_ok L q \<longleftrightarrow> queue_ok q \<and> (\<forall>e \<in> set q. timer_ok L e)"

definition ifs_ok :: "(Interface_ID \<Rightarrow> Interface option) \<Rightarrow> (int32u, Interface_ID) stdhash \<Rightarrow> (Node_ID \<Rightarrow> Node option) \<Rightarrow> bool" where
  "ifs_ok I A N \<longleftrightarrow> (\<forall>i r. I i = Some r \<longrightarrow> iid r = i \<and> N (owner r) \<noteq> None) \<and>
     (\<forall>a i. stdhash_find A a = Some i \<longrightarrow> (\<exists>r. I i = Some r \<and> net_addr r = a))"

definition own_edge :: "daemon \<Rightarrow> Node_ID \<Rightarrow> State_Data option" where
  "own_edge d t = Get_Edge d (My_Address d) t"

text \<open>While a leg is being changed it does not have the links and the cost of its status: the legs in
  \<open>X\<close> are exempt from that part.\<close>

definition legs_ok :: "Network_Leg_ID set \<Rightarrow> Node_ID \<Rightarrow> (Network_Leg_ID \<Rightarrow> Network_Leg option) \<Rightarrow> (Interface_ID \<Rightarrow> Interface option) \<Rightarrow>
    (Node_ID \<Rightarrow> State_Data option) \<Rightarrow> (Node_ID \<Rightarrow> Node option) \<Rightarrow> bool" where
  "legs_ok X me G I E N \<longleftrightarrow>
     (\<forall>lid lg. G lid = Some lg \<longrightarrow> place_ok me I E lid lg \<and> (lid \<in> X \<or> status_ok N lg))"

definition net_inv :: "Network_Leg_ID set \<Rightarrow> 'b net \<Rightarrow> bool" where
  "net_inv X n \<longleftrightarrow> tables_ok (dae n) \<and> unique_keys (Network_Legs (dae n)) \<and> links_ok (Links n) (get_leg n) \<and>
     legs_ok X (My_Address (dae n)) (get_leg n) (Get_Interface n) (own_edge (dae n)) (Get_Node (dae n)) \<and>
     edges_ok (My_Address (dae n)) (get_leg n) (own_edge (dae n)) (Get_Node (dae n)) \<and>
     slots_ok (Get_Node (dae n)) (Neighbor_Nodes (dae n)) (Num_Neighbors (dae n)) \<and>
     timers_ok (Links n) (Time_queue (dae n)) \<and>
     ifs_ok (Get_Interface n) (Known_Addresses n) (Get_Node (dae n))"

abbreviation net_ok :: "'b net \<Rightarrow> bool" where "net_ok \<equiv> net_inv {}"

lemma net_invD:
  assumes "net_inv X n"
  shows "tables_ok (dae n)" "unique_keys (Network_Legs (dae n))" "links_ok (Links n) (get_leg n)"
    "legs_ok X (My_Address (dae n)) (get_leg n) (Get_Interface n) (own_edge (dae n)) (Get_Node (dae n))"
    "edges_ok (My_Address (dae n)) (get_leg n) (own_edge (dae n)) (Get_Node (dae n))"
    "slots_ok (Get_Node (dae n)) (Neighbor_Nodes (dae n)) (Num_Neighbors (dae n))"
    "timers_ok (Links n) (Time_queue (dae n))" "ifs_ok (Get_Interface n) (Known_Addresses n) (Get_Node (dae n))"
  using assms by (simp_all add: net_inv_def)

lemma links_okD:
  assumes "links_ok L G"
  shows "L k = Some lk \<Longrightarrow> lk_id lk = k \<and> 0 \<le> k \<and> k < int MAX_LINKS \<and> prot_ok lk \<and>
      (\<exists>lg. G (lk_leg lk) = Some lg \<and> leg_links lg (lk_type lk) = Some k)"
    "G lid = Some lg \<Longrightarrow> leg_links lg ty = Some k \<Longrightarrow> \<exists>lk. L k = Some lk \<and> lk_leg lk = lid \<and> lk_type lk = ty"
  using assms unfolding links_ok_def by blast+

lemma links_okI:
  assumes "\<And>k lk. L k = Some lk \<Longrightarrow> lk_id lk = k \<and> 0 \<le> k \<and> k < int MAX_LINKS \<and> prot_ok lk \<and>
      (\<exists>lg. G (lk_leg lk) = Some lg \<and> leg_links lg (lk_type lk) = Some k)"
    "\<And>lid lg ty k. G lid = Some lg \<Longrightarrow> leg_links lg ty = Some k \<Longrightarrow> \<exists>lk. L k = Some lk \<and> lk_leg lk = lid \<and> lk_type lk = ty"
  shows "links_ok L G"
  using assms unfolding links_ok_def by blast

lemma legs_okD:
  assumes "legs_ok X me G I E N" "G lid = Some lg"
  shows "place_ok me I E lid lg" "lid \<notin> X \<Longrightarrow> status_ok N lg"
  using assms unfolding legs_ok_def by blast+

lemma edges_okI:
  assumes "\<And>t e. E t = Some e \<Longrightarrow> edge_leg me G t e \<and> (\<exists>nd. N t = Some nd \<and> edge nd = Some (me, t))"
    "\<And>t nd p. N t = Some nd \<Longrightarrow> edge nd = Some p \<Longrightarrow> p = (me, t) \<and> E t \<noteq> None"
  shows "edges_ok me G E N"
  using assms unfolding edges_ok_def by blast

lemma edges_okD:
  assumes "edges_ok me G E N"
  shows "E t = Some e \<Longrightarrow> edge_leg me G t e \<and> (\<exists>nd. N t = Some nd \<and> edge nd = Some (me, t))"
    "N t = Some nd \<Longrightarrow> edge nd = Some p \<Longrightarrow> p = (me, t) \<and> E t \<noteq> None"
  using assms unfolding edges_ok_def by blast+

lemma slots_okI:
  assumes "length ns = MAX_NEIGHBORS" "m \<le> MAX_NEIGHBORS"
    "\<And>j i. j < MAX_NEIGHBORS \<Longrightarrow> ns ! j = Some i \<Longrightarrow> j < m \<and> (\<exists>nd. N i = Some nd \<and> neighbor_id nd = int j)"
    "\<And>i nd. N i = Some nd \<Longrightarrow> neighbor_id nd \<noteq> - 1 \<Longrightarrow> 0 \<le> neighbor_id nd \<and> neighbor_id nd < int MAX_NEIGHBORS \<and> ns ! nat (neighbor_id nd) = Some i"
  shows "slots_ok N ns m"
  using assms unfolding slots_ok_def by blast

lemma slots_okD:
  assumes "slots_ok N ns m"
  shows "length ns = MAX_NEIGHBORS" "m \<le> MAX_NEIGHBORS"
    "j < MAX_NEIGHBORS \<Longrightarrow> ns ! j = Some i \<Longrightarrow> j < m \<and> (\<exists>nd. N i = Some nd \<and> neighbor_id nd = int j)"
    "N i = Some nd \<Longrightarrow> neighbor_id nd \<noteq> - 1 \<Longrightarrow> 0 \<le> neighbor_id nd \<and> neighbor_id nd < int MAX_NEIGHBORS \<and> ns ! nat (neighbor_id nd) = Some i"
  using assms unfolding slots_ok_def by blast+

lemma links_ok_upd:
  assumes "links_ok L G" "G lid = Some lg" "leg_links lg' = leg_links lg"
  shows "links_ok L (G(lid \<mapsto> lg'))"
proof (rule links_okI)
  fix k lk assume "L k = Some lk"
  then show "lk_id lk = k \<and> 0 \<le> k \<and> k < int MAX_LINKS \<and> prot_ok lk \<and> (\<exists>g. (G(lid \<mapsto> lg')) (lk_leg lk) = Some g \<and> leg_links g (lk_type lk) = Some k)"
    using links_okD(1) [OF assms(1), of k lk] assms(2,3) by auto
next
  fix l g ty k assume "(G(lid \<mapsto> lg')) l = Some g" "leg_links g ty = Some k"
  then show "\<exists>lk. L k = Some lk \<and> lk_leg lk = l \<and> lk_type lk = ty"
    using links_okD(2) [OF assms(1)] assms(2,3) by (auto split: if_splits)
qed

lemma legs_ok_upd:
  assumes "legs_ok X me G I E N" "G lid = Some lg" "place_ok me I E lid lg'" "lid \<in> Y \<or> status_ok N lg'" "X - {lid} \<subseteq> Y"
  shows "legs_ok Y me (G(lid \<mapsto> lg')) I E N"
  using assms unfolding legs_ok_def by auto

lemma edges_ok_upd:
  assumes "edges_ok me G E N" "G lid = Some lg" "leg_edge lg' = leg_edge lg"
  shows "edges_ok me (G(lid \<mapsto> lg')) E N"
proof -
  have "edge_leg me (G(lid \<mapsto> lg')) t e" if "edge_leg me G t e" for t e
    using that assms(2,3) by (auto simp: edge_leg_def split: option.splits)
  with assms(1) show ?thesis unfolding edges_ok_def by blast
qed

section \<open>What the writes change\<close>

lemma tables_ok_fields:
  assumes "All_Nodes d' = All_Nodes d" "All_Nodes_by_ID d' = All_Nodes_by_ID d" "My_Address d' = My_Address d"
    and "All_Edges d' = All_Edges d" "All_Groups_by_Node d' = All_Groups_by_Node d"
    and "Changed_Edges d' = Changed_Edges d" "Changed_Group_States d' = Changed_Group_States d"
  shows "tables_ok d' = tables_ok d"
proof (rule tables_ok_cong [OF assms(1-3)])
  fix p show "All_States p d' = All_States p d" "Changed_States p d' = Changed_States p d" using assms(4-7) by (cases p; simp)+
qed

lemma get_leg_upd_leg: "get_leg (upd_leg lid f n) = (get_leg n)(lid := map_option f (get_leg n lid))"
  by (auto simp: get_leg_def upd_leg_def sh.find_modify)

lemma upd_leg_simps [simp]:
  "Links (upd_leg lid f n) = Links n" "Get_Interface (upd_leg lid f n) = Get_Interface n"
  "Known_Addresses (upd_leg lid f n) = Known_Addresses n" "own_edge (dae (upd_leg lid f n)) = own_edge (dae n)"
  "Get_Node (dae (upd_leg lid f n)) = Get_Node (dae n)" "My_Address (dae (upd_leg lid f n)) = My_Address (dae n)"
  "Neighbor_Nodes (dae (upd_leg lid f n)) = Neighbor_Nodes (dae n)" "Num_Neighbors (dae (upd_leg lid f n)) = Num_Neighbors (dae n)"
  "Time_queue (dae (upd_leg lid f n)) = Time_queue (dae n)" "tables_ok (dae (upd_leg lid f n)) = tables_ok (dae n)"
  "unique_keys (Network_Legs (dae (upd_leg lid f n))) = unique_keys (Network_Legs (dae n))"
  "wall_clock (dae (upd_leg lid f n)) = wall_clock (dae n)" "rand_seq (upd_leg lid f n) = rand_seq n" "rand_pos (upd_leg lid f n) = rand_pos n"
  "All_Edges (dae (upd_leg lid f n)) = All_Edges (dae n)" "ARCH_ENDIAN (dae (upd_leg lid f n)) = ARCH_ENDIAN (dae n)"
  using tables_ok_fields [of "dae (upd_leg lid f n)" "dae n"]
  by (simp_all add: upd_leg_def Get_Interface_def own_edge_def Get_Edge_def Get_Node_def sh.ok_modify fun_eq_iff)

lemma upd_link_simps [simp]:
  "dae (upd_link k f n) = dae n" "Links (upd_link k f n) = (Links n)(k := map_option f (Links n k))" "get_leg (upd_link k f n) = get_leg n"
  "Get_Interface (upd_link k f n) = Get_Interface n" "Known_Addresses (upd_link k f n) = Known_Addresses n"
  "rand_seq (upd_link k f n) = rand_seq n" "rand_pos (upd_link k f n) = rand_pos n"
  by (auto simp: upd_link_def get_leg_def Get_Interface_def fun_eq_iff)

lemma upd_dae_simps [simp]:
  "dae (upd_dae f n) = f (dae n)" "Links (upd_dae f n) = Links n" "Get_Interface (upd_dae f n) = Get_Interface n"
  "Known_Addresses (upd_dae f n) = Known_Addresses n" "rand_seq (upd_dae f n) = rand_seq n" "rand_pos (upd_dae f n) = rand_pos n"
  by (auto simp: upd_dae_def Get_Interface_def fun_eq_iff)

lemma net_emit_simps [simp]:
  "dae (net_emit c n) = dae n" "Links (net_emit c n) = Links n" "Get_Interface (net_emit c n) = Get_Interface n"
  "get_leg (net_emit c n) = get_leg n" "Known_Addresses (net_emit c n) = Known_Addresses n"
  "rand_seq (net_emit c n) = rand_seq n" "rand_pos (net_emit c n) = rand_pos n"
  by (auto simp: net_emit_def get_leg_def Get_Interface_def fun_eq_iff)

lemma net_emit_inv [simp]: "net_inv X (net_emit c n) = net_inv X n"
  by (simp add: net_inv_def)

lemma other_fields_simps [simp]:
  "get_leg (n\<lparr>Sessions_Blocked_On := b\<rparr>) = get_leg n" "Get_Interface (n\<lparr>Sessions_Blocked_On := b\<rparr>) = Get_Interface n"
  "get_leg (n\<lparr>rand_pos := p\<rparr>) = get_leg n" "Get_Interface (n\<lparr>rand_pos := p\<rparr>) = Get_Interface n"
  "get_leg (n\<lparr>Links := l\<rparr>) = get_leg n" "Get_Interface (n\<lparr>Links := l\<rparr>) = Get_Interface n"
  "Get_Interface (n\<lparr>dae := d\<rparr>) = Get_Interface n"
  by (auto simp: get_leg_def Get_Interface_def fun_eq_iff)

lemma other_fields_inv [simp]:
  "net_inv X (n\<lparr>Sessions_Blocked_On := b\<rparr>) = net_inv X n" "net_inv X (n\<lparr>rand_pos := p\<rparr>) = net_inv X n"
  by (simp_all add: net_inv_def)

text \<open>A write that leaves links, edge and cost of the leg.\<close>

lemma net_inv_upd_leg:
  assumes "net_inv X n" "get_leg n lid = Some lg" "X - {lid} \<subseteq> Y"
    and "leg_id (f lg) = leg_id lg" "leg_edge (f lg) = leg_edge lg" "leg_links (f lg) = leg_links lg" "leg_cost (f lg) = leg_cost lg"
    and "lid \<in> Y \<or> status_ok (Get_Node (dae n)) (f lg)"
  shows "net_inv Y (upd_leg lid f n)"
proof -
  note i = net_invD [OF assms(1)]
  have "place_ok me I E lid (f lg) = place_ok me I E lid lg" for me I E using assms(4,5,7) by (simp add: place_ok_def)
  then show ?thesis
    using i links_ok_upd [OF i(3) assms(2,6)] edges_ok_upd [OF i(5) assms(2,5)] legs_okD(1) [OF i(4) assms(2)] assms(2,3,8)
      legs_ok_upd [OF i(4) assms(2), of "f lg" Y]
    by (simp add: net_inv_def get_leg_upd_leg)
qed

text \<open>What no handler changes.\<close>

definition same_env :: "'b net \<Rightarrow> 'b net \<Rightarrow> bool" where
  "same_env n n' \<longleftrightarrow> wall_clock (dae n') = wall_clock (dae n) \<and> My_Address (dae n') = My_Address (dae n) \<and>
     Get_Interface n' = Get_Interface n \<and> rand_seq n' = rand_seq n \<and> ARCH_ENDIAN (dae n') = ARCH_ENDIAN (dae n)"

lemma same_env_refl [simp]: "same_env n n"
  by (simp add: same_env_def)

lemma same_env_trans [trans]: "same_env n n' \<Longrightarrow> same_env n' n'' \<Longrightarrow> same_env n n''"
  by (simp add: same_env_def)

lemma same_env_writes [simp]:
  "same_env n (upd_leg lid f n') = same_env n n'" "same_env n (upd_link k g n') = same_env n n'"
  "same_env n (net_emit c n') = same_env n n'" "same_env n (n'\<lparr>Sessions_Blocked_On := b\<rparr>) = same_env n n'"
  "same_env n (n'\<lparr>rand_pos := p\<rparr>) = same_env n n'" "same_env n (n'\<lparr>Links := l\<rparr>) = same_env n n'"
  "same_env n (net_queue fn cd a t n') = same_env n n'" "same_env n (net_dequeue fn cd a n') = same_env n n'"
  by (auto simp: same_env_def upd_leg_def upd_link_def net_emit_def Get_Interface_def net_queue_def net_dequeue_def upd_dae_def queue_event_def fun_eq_iff)

text \<open>Neither is a node changed.\<close>

definition same_world :: "'b net \<Rightarrow> 'b net \<Rightarrow> bool" where
  "same_world n n' \<longleftrightarrow> same_env n n' \<and> Get_Node (dae n') = Get_Node (dae n)"

lemma same_world_refl [simp]: "same_world n n"
  by (simp add: same_world_def)

lemma same_world_trans [trans]: "same_world n n' \<Longrightarrow> same_world n' n'' \<Longrightarrow> same_world n n''"
  by (auto simp: same_world_def intro: same_env_trans)

lemma same_world_env: "same_world n n' \<Longrightarrow> same_env n n'"
  by (simp add: same_world_def)

text \<open>What a write to legs and links does not change.\<close>

definition same_rest :: "'b net \<Rightarrow> 'b net \<Rightarrow> bool" where
  "same_rest n n' \<longleftrightarrow> own_edge (dae n') = own_edge (dae n) \<and> Get_Node (dae n') = Get_Node (dae n) \<and> My_Address (dae n') = My_Address (dae n) \<and>
     Neighbor_Nodes (dae n') = Neighbor_Nodes (dae n) \<and> Num_Neighbors (dae n') = Num_Neighbors (dae n) \<and>
     Time_queue (dae n') = Time_queue (dae n) \<and> tables_ok (dae n') = tables_ok (dae n) \<and>
     unique_keys (Network_Legs (dae n')) = unique_keys (Network_Legs (dae n)) \<and>
     Get_Interface n' = Get_Interface n \<and> Known_Addresses n' = Known_Addresses n"

lemma same_rest_writes [simp]:
  "same_rest n n" "same_rest n (upd_leg lid f n') = same_rest n n'" "same_rest n (upd_link k g n') = same_rest n n'"
  "same_rest n (n'\<lparr>rand_pos := p\<rparr>) = same_rest n n'" "same_rest n (n'\<lparr>Links := l\<rparr>) = same_rest n n'"
  "same_rest n (net_emit c n') = same_rest n n'"
  by (simp_all add: same_rest_def)

lemma same_world_writes [simp]:
  "same_world n (upd_leg lid f n') = same_world n n'" "same_world n (upd_link k g n') = same_world n n'"
  "same_world n (net_emit c n') = same_world n n'" "same_world n (n'\<lparr>Sessions_Blocked_On := b\<rparr>) = same_world n n'"
  "same_world n (n'\<lparr>rand_pos := p\<rparr>) = same_world n n'" "same_world n (n'\<lparr>Links := l\<rparr>) = same_world n n'"
  by (simp_all add: same_world_def)

section \<open>Timers\<close>

text \<open>A daemon that differs in its queue only.\<close>

lemma Time_queue_simps [simp]:
  "get_leg (n\<lparr>dae := (dae n)\<lparr>Time_queue := q\<rparr>\<rparr>) = get_leg n"
  "own_edge (d\<lparr>Time_queue := q\<rparr>) = own_edge d" "Get_Node (d\<lparr>Time_queue := q\<rparr>) = Get_Node d"
  "tables_ok (d\<lparr>Time_queue := q\<rparr>) = tables_ok d"
  using tables_ok_fields [of "d\<lparr>Time_queue := q\<rparr>" d]
  by (simp_all add: get_leg_def own_edge_def Get_Edge_def Get_Node_def fun_eq_iff)

lemma net_queue_as_upd: "net_queue f c a t n = n\<lparr>dae := (dae n)\<lparr>Time_queue := E_queue (monotonic_clock (dae n)) f c a t (Time_queue (dae n))\<rparr>\<rparr>"
  by (simp add: net_queue_def upd_dae_def queue_event_def)

lemma net_dequeue_as_upd: "net_dequeue f c a n = n\<lparr>dae := (dae n)\<lparr>Time_queue := snd (E_dequeue f c a (Time_queue (dae n)))\<rparr>\<rparr>"
  by (simp add: net_dequeue_def upd_dae_def)

lemma queue_simps [simp]:
  "get_leg (net_queue f c a t n) = get_leg n" "Links (net_queue f c a t n) = Links n"
  "Get_Interface (net_queue f c a t n) = Get_Interface n" "own_edge (dae (net_queue f c a t n)) = own_edge (dae n)"
  "Get_Node (dae (net_queue f c a t n)) = Get_Node (dae n)" "My_Address (dae (net_queue f c a t n)) = My_Address (dae n)"
  "wall_clock (dae (net_queue f c a t n)) = wall_clock (dae n)" "All_Edges (dae (net_queue f c a t n)) = All_Edges (dae n)"
  "get_leg (net_dequeue f c a n) = get_leg n" "Links (net_dequeue f c a n) = Links n"
  "Get_Interface (net_dequeue f c a n) = Get_Interface n" "own_edge (dae (net_dequeue f c a n)) = own_edge (dae n)"
  "Get_Node (dae (net_dequeue f c a n)) = Get_Node (dae n)" "My_Address (dae (net_dequeue f c a n)) = My_Address (dae n)"
  "wall_clock (dae (net_dequeue f c a n)) = wall_clock (dae n)" "All_Edges (dae (net_dequeue f c a n)) = All_Edges (dae n)"
  "Known_Addresses (net_queue f c a t n) = Known_Addresses n" "Known_Addresses (net_dequeue f c a n) = Known_Addresses n"
  by (simp_all add: net_queue_as_upd net_dequeue_as_upd)

lemma same_world_queue [simp]:
  "same_world n (net_queue fn cd a t n') = same_world n n'" "same_world n (net_dequeue fn cd a n') = same_world n n'"
  by (simp_all add: same_world_def)

lemma timers_ok_queue:
  assumes "timers_ok L q" "timer_ok L (new_event t f c a delta)"
  shows "timers_ok L (E_queue t f c a delta q)"
  using assms by (auto simp: timers_ok_def E_queue_ok set_E_queue)

lemma timers_ok_dequeue: "timers_ok L q \<Longrightarrow> timers_ok L (snd (E_dequeue f c a q))"
  by (auto simp: timers_ok_def E_dequeue_ok) (auto simp: queue_ok_def E_dequeue_spec)

lemma net_inv_queue:
  assumes "net_inv X n" "timer_ok (Links n) (new_event (monotonic_clock (dae n)) f c a delta)"
  shows "net_inv X (net_queue f c a delta n)"
  using assms timers_ok_queue by (auto simp: net_inv_def net_queue_as_upd)

lemma net_inv_dequeue: "net_inv X n \<Longrightarrow> net_inv X (net_dequeue f c a n)"
  by (auto simp: net_inv_def net_dequeue_as_upd intro: timers_ok_dequeue)

end
