(* ===== verification/Links_Inv.thy ===== *)
theory Links_Inv
  imports Net_Inv
begin

text \<open>
  Creating and destroying links keep the invariant. A link is destroyed together with its timers, so
  that a slot of the array that is used again does not inherit them.
\<close>

section \<open>Destroying a link\<close>

abbreviation queued :: "'b net \<Rightarrow> event_queue" where "queued n \<equiv> Time_queue (dae n)"

lemma dequeue_mem:
  "queue_ok (queued n) \<Longrightarrow> queue_ok (queued (net_dequeue f c a n)) \<and>
     (e \<in> set (queued (net_dequeue f c a n)) \<longleftrightarrow> e \<in> set (queued n) \<and> te_key e \<noteq> (f, c, a))"
  by (auto simp: net_dequeue_as_upd E_dequeue_ok) (auto simp: queue_ok_def E_dequeue_spec)

text \<open>No timer for a link of this type is left with this code.\<close>

definition no_timer :: "event_queue \<Rightarrow> int \<Rightarrow> Link_Type \<Rightarrow> bool" where
  "no_timer q k ty \<longleftrightarrow> (\<forall>e \<in> set q. te_code e = k \<longrightarrow> (case timer_types (te_func e) of None \<Rightarrow> True | Some T \<Rightarrow> ty \<notin> T))"

lemma timers_ok_remove_link:
  assumes "timers_ok L q" "L k = Some lk" "no_timer q k (lk_type lk)"
  shows "timers_ok (L(k := None)) q"
  using assms by (force simp: timers_ok_def timer_ok_def no_timer_def split: option.splits)

lemma drop_reliable_simps:
  "get_leg (drop_reliable k ty r n) = get_leg n" "Links (drop_reliable k ty r n) = Links n"
  "wall_clock (dae (drop_reliable k ty r n)) = wall_clock (dae n)"
  "rand_seq (drop_reliable k ty r n) = rand_seq n" "rand_pos (drop_reliable k ty r n) = rand_pos n"
  by (simp_all add: drop_reliable_def Let_def net_dequeue_as_upd)

lemma same_world_drop: "same_world n (drop_reliable k ty r n)"
  by (simp add: drop_reliable_def Let_def)

lemma net_inv_drop_reliable: "net_inv X n \<Longrightarrow> net_inv X (drop_reliable k ty r n)"
  by (auto simp: drop_reliable_def Let_def intro!: net_inv_dequeue)

lemma drop_reliable_queue:
  assumes "queue_ok (queued n)" "e \<in> set (queued (drop_reliable k ty r n))"
  shows "e \<in> set (queued n) \<and> te_key e \<noteq> (Try_to_Send_ev, k, None) \<and> (ty = CONTROL_LINK \<longrightarrow> te_key e \<notin>
     {(Send_Hello_ev, k, None), (Send_Hello_Request_ev, k, None), (Send_Hello_Request_Cnt_ev, k, None),
      (Net_Send_State_All_ev, k, Some Edge_Prot_Def), (Net_Send_State_All_ev, k, Some Groups_Prot_Def)})"
  using assms by (auto simp: drop_reliable_def Let_def dequeue_mem split: if_splits)

lemma drop_reliable_no_timer:
  assumes t: "timers_ok L (queued n)" and ty: "ty = CONTROL_LINK \<or> ty = RELIABLE_UDP_LINK"
  shows "no_timer (queued (drop_reliable k ty r n)) k ty"
proof -
  have q: "queue_ok (queued n)" using t by (simp add: timers_ok_def)
  have "case timer_types (te_func e) of None \<Rightarrow> True | Some T \<Rightarrow> ty \<notin> T"
    if e: "e \<in> set (queued (drop_reliable k ty r n))" "te_code e = k" for e
  proof -
    note d = drop_reliable_queue [OF q e(1)]
    have "timer_ok L e" using t d by (simp add: timers_ok_def)
    moreover have "te_data e = None \<or> te_data e = Some Edge_Prot_Def \<or> te_data e = Some Groups_Prot_Def"
      by (cases "te_data e") (auto intro: Prot_Def.exhaust)
    ultimately show ?thesis using d e(2) ty
      by (cases "te_func e") (auto simp: timer_types_def timer_ok_def te_key_def)
  qed
  then show ?thesis by (simp add: no_timer_def)
qed

text \<open>The links of a leg without one of them.\<close>

definition del_link :: "Link_Type \<Rightarrow> Network_Leg \<Rightarrow> Network_Leg" where
  "del_link ty l = l\<lparr>leg_links := (leg_links l)(ty := None)\<rparr>"

lemma links_ok_unique:
  "links_ok L G \<Longrightarrow> L k = Some lk \<Longrightarrow> G lid = Some lg \<Longrightarrow> leg_links lg ty = Some k \<Longrightarrow> lid = lk_leg lk \<and> ty = lk_type lk"
  unfolding links_ok_def by (metis option.inject)

lemma links_ok_remove:
  assumes ok: "links_ok L G" and k: "L k = Some lk" "G (lk_leg lk) = Some lg"
  shows "links_ok (L(k := None)) (G(lk_leg lk := Some (del_link (lk_type lk) lg)))"
proof -
  note u = links_ok_unique [OF ok k(1)]
  note a = links_okD(1) [OF ok] and b = links_okD(2) [OF ok]
  have "k = j" if "L j = Some x" "lk_leg x = lk_leg lk" "lk_type x = lk_type lk" for j x
    using a [OF that(1)] a [OF k(1)] that(2,3) by auto
  note j = this
  show ?thesis
  proof (rule links_okI)
    fix i x assume "(L(k := None)) i = Some x"
    then have x: "i \<noteq> k" "L i = Some x" by (auto split: if_splits)
    obtain g where "G (lk_leg x) = Some g" "leg_links g (lk_type x) = Some i" using a [OF x(2)] by blast
    then show "lk_id x = i \<and> 0 \<le> i \<and> i < int MAX_LINKS \<and> prot_ok x \<and>
        (\<exists>g. (G(lk_leg lk \<mapsto> del_link (lk_type lk) lg)) (lk_leg x) = Some g \<and> leg_links g (lk_type x) = Some i)"
      using a [OF x(2)] j [OF x(2)] x(1) k(2) by (auto simp: del_link_def)
  next
    fix lid g ty i assume g: "(G(lk_leg lk \<mapsto> del_link (lk_type lk) lg)) lid = Some g" "leg_links g ty = Some i"
    obtain g' where "G lid = Some g'" "leg_links g' ty = Some i" "\<not> (lid = lk_leg lk \<and> ty = lk_type lk)"
      using g k(2) by (auto simp: del_link_def split: if_splits)
    then show "\<exists>x. (L(k := None)) i = Some x \<and> lk_leg x = lid \<and> lk_type x = ty" using b [of lid g' ty i] u [of lid g' ty] by auto
  qed
qed

lemma net_inv_remove_link:
  assumes inv: "net_inv X n" and k: "Links n k = Some lk" "get_leg n (lk_leg lk) = Some lg" "lk_leg lk \<in> X"
    and t: "no_timer (queued n) k (lk_type lk)"
  shows "net_inv X ((upd_leg (lk_leg lk) (del_link (lk_type lk)) n)\<lparr>Links := (Links n)(k := None)\<rparr>)"
proof -
  note i = net_invD [OF inv]
  let ?l = "del_link (lk_type lk) lg"
  have same: "leg_edge ?l = leg_edge lg" by (simp add: del_link_def)
  have "place_ok me I E (lk_leg lk) ?l = place_ok me I E (lk_leg lk) lg" for me I E by (simp add: place_ok_def del_link_def)
  then show ?thesis
    using i links_ok_remove [OF i(3) k(1,2)] timers_ok_remove_link [OF i(7) k(1) t] legs_okD [OF i(4) k(2)] k
      edges_ok_upd [OF i(5) k(2) same] legs_ok_upd [OF i(4) k(2), of ?l X]
    by (simp add: net_inv_def get_leg_upd_leg)
qed

lemma Destroy_Link_inv:
  assumes inv: "net_inv X n" and k: "Links n k = Some lk" "get_leg n (lk_leg lk) = Some lg" "lk_leg lk \<in> X"
    and ty: "lk_type lk \<noteq> INTRUSION_TOL_LINK"
  shows "res_post {} (\<lambda>n'. net_inv X n' \<and> get_leg n' = (get_leg n)(lk_leg lk \<mapsto> del_link (lk_type lk) lg) \<and> same_world n n') (Destroy_Link k n)"
proof -
  define n1 where "n1 = (case lk_r_data lk of None \<Rightarrow> n | Some r \<Rightarrow> drop_reliable k (lk_type lk) r n)"
  define n2 where "n2 = (if lk_type lk = REALTIME_UDP_LINK \<and> \<not> is_No_Prot (lk_prot_data lk)
    then net_dequeue Send_RT_Retransm_ev k None (net_dequeue Send_RT_Nack_ev k None n1) else n1)"
  have 1: "net_inv X n1" "get_leg n1 = get_leg n" "Links n1 = Links n" "same_world n n1"
    using inv by (auto simp: n1_def net_inv_drop_reliable drop_reliable_simps same_world_drop split: option.splits)
  have 2: "net_inv X n2" "get_leg n2 = get_leg n" "Links n2 = Links n" "same_world n n2"
    using 1 by (auto simp: n2_def intro!: net_inv_dequeue)
  have p: "prot_ok lk" using links_okD(1) [OF net_invD(3) [OF inv] k(1)] by simp
  have t: "no_timer (queued n2) k (lk_type lk)"
  proof (cases "lk_type lk")
    case CONTROL_LINK
    then show ?thesis using p drop_reliable_no_timer [OF net_invD(7) [OF inv]] by (auto simp: n2_def n1_def prot_ok_def)
  next
    case RELIABLE_UDP_LINK
    then show ?thesis using p drop_reliable_no_timer [OF net_invD(7) [OF inv]] by (auto simp: n2_def n1_def prot_ok_def)
  next
    case REALTIME_UDP_LINK
    then have n2: "n2 = net_dequeue Send_RT_Retransm_ev k None (net_dequeue Send_RT_Nack_ev k None n)"
      using p by (auto simp: n2_def n1_def prot_ok_def)
    have q: "queue_ok (queued n)" "\<forall>e \<in> set (queued n). timer_ok (Links n) e" using net_invD(7) [OF inv] by (simp_all add: timers_ok_def)
    have "case timer_types (te_func e) of None \<Rightarrow> True | Some T \<Rightarrow> REALTIME_UDP_LINK \<notin> T"
      if "e \<in> set (queued n2)" "te_code e = k" for e
      using that q unfolding n2
      by (cases "te_func e") (auto simp: dequeue_mem timer_types_def timer_ok_def te_key_def)
    with REALTIME_UDP_LINK show ?thesis by (simp add: no_timer_def)
  next
    case INTRUSION_TOL_LINK
    with ty show ?thesis by simp
  qed (auto simp: no_timer_def timer_types_def split: event_func.splits)
  have del: "del_link (lk_type lk) = (\<lambda>l. l\<lparr>leg_links := (leg_links l)(lk_type lk := None)\<rparr>)" by (simp add: del_link_def fun_eq_iff)
  have "Destroy_Link k n = Inr ((upd_leg (lk_leg lk) (del_link (lk_type lk)) n2)\<lparr>Links := (Links n2)(k := None)\<rparr>)"
    unfolding del Destroy_Link_def Let_def n2_def [unfolded n1_def] using k(1) ty by simp
  then show ?thesis
    using net_inv_remove_link [of X n2 k lk lg] 2 t k by (simp add: get_leg_upd_leg)
qed

section \<open>Creating a link\<close>

lemma free_link_Some:
  assumes "free_link n = Some k"
  shows "Links n k = None" "0 \<le> k" "k < int MAX_LINKS"
  using assms by (auto simp: free_link_def find_Some_iff)

lemma links_ok_add:
  assumes ok: "links_ok L G" and k: "L k = None" "0 \<le> k" "k < int MAX_LINKS" and lg: "G lid = Some lg" "leg_links lg ty = None"
    and lk: "lk_id lk = k" "lk_type lk = ty" "lk_leg lk = lid" "prot_ok lk" and lg': "leg_links lg' = (leg_links lg)(ty := Some k)"
  shows "links_ok (L(k \<mapsto> lk)) (G(lid \<mapsto> lg'))"
proof (rule links_okI)
  fix i x assume x: "(L(k \<mapsto> lk)) i = Some x"
  show "lk_id x = i \<and> 0 \<le> i \<and> i < int MAX_LINKS \<and> prot_ok x \<and> (\<exists>g. (G(lid \<mapsto> lg')) (lk_leg x) = Some g \<and> leg_links g (lk_type x) = Some i)"
  proof (cases "i = k")
    case False
    then have "L i = Some x" using x by simp
    then show ?thesis using links_okD(1) [OF ok, of i x] lg lg' by (auto split: if_splits)
  qed (use x k lk lg' in auto)
next
  fix l g t i assume "(G(lid \<mapsto> lg')) l = Some g" "leg_links g t = Some i"
  then show "\<exists>x. (L(k \<mapsto> lk)) i = Some x \<and> lk_leg x = l \<and> lk_type x = t"
    using links_okD(2) [OF ok, of l _ t i] lg lg' lk k by (auto split: if_splits)
qed

lemma net_inv_add_link:
  assumes inv: "net_inv X n" and k: "Links n k = None" "0 \<le> k" "k < int MAX_LINKS"
    and lg: "get_leg n lid = Some lg" "leg_links lg ty = None" "lid \<in> Y" "X \<subseteq> Y"
    and lk: "lk_id lk = k" "lk_type lk = ty" "lk_leg lk = lid" "prot_ok lk"
    and lg': "leg_links lg' = (leg_links lg)(ty := Some k)" "leg_id lg' = leg_id lg" "leg_edge lg' = leg_edge lg" "leg_cost lg' = leg_cost lg"
    and n': "get_leg n' = (get_leg n)(lid \<mapsto> lg')" "Links n' = (Links n)(k \<mapsto> lk)" "same_rest n n'"
  shows "net_inv Y n'"
proof -
  note i = net_invD [OF inv]
  have "place_ok me I E lid lg' = place_ok me I E lid lg" for me I E using lg' by (simp add: place_ok_def)
  moreover have "timers_ok ((Links n)(k \<mapsto> lk)) (queued n)"
    using i(7) k(1) unfolding timers_ok_def timer_ok_def by (fastforce split: option.splits)
  moreover have "X - {lid} \<subseteq> Y" using lg(4) by blast
  ultimately show ?thesis
    using i n' legs_okD(1) [OF i(4) lg(1)] links_ok_add [OF i(3) k lg(1,2) lk lg'(1)] edges_ok_upd [OF i(5) lg(1) lg'(3)]
      legs_ok_upd [OF i(4) lg(1), of lg' Y] lg(3)
    by (simp add: net_inv_def same_rest_def)
qed

text \<open>The ways in which creating a link ends the daemon.\<close>

abbreviation no_link_ids :: failure where "no_link_ids \<equiv> EXIT ''Create_Link() No link IDs available; too many open links''"
abbreviation too_many_neighbors :: failure where "too_many_neighbors \<equiv> EXIT ''Create_Link: Too many neighbors!''"
abbreviation rand_loops :: failure where "rand_loops \<equiv> LOOPS ''Create_Link''"

definition set_lnk :: "Link_Type \<Rightarrow> int \<Rightarrow> Network_Leg \<Rightarrow> Network_Leg" where
  "set_lnk ty k l = l\<lparr>leg_links := (leg_links l)(ty := Some k)\<rparr>"

lemma put_link_simps:
  assumes "get_leg n lid = Some lg"
  shows "get_leg (put_link cf lid ty k n) = (get_leg n)(lid \<mapsto> set_lnk ty k lg)"
    "Links (put_link cf lid ty k n) = (Links n)(k \<mapsto> new_Link cf k ty lid)"
    "same_rest n (put_link cf lid ty k n)" "same_world n (put_link cf lid ty k n)"
    "rand_pos (put_link cf lid ty k n) = rand_pos n"
  using assms by (simp_all add: put_link_def get_leg_upd_leg set_lnk_def)

lemma Create_Link_unfold:
  assumes inv: "net_inv X n" and lg: "get_leg n lid = Some lg" "leg_links lg ty = None"
    and up: "ty \<noteq> CONTROL_LINK \<longrightarrow> control_link lg \<noteq> None \<and> leg_status lg = CONNECTED_LEG \<and> leg_cost lg \<noteq> - 1"
    and it: "ty = INTRUSION_TOL_LINK \<longrightarrow> Config_File_Found cf"
  shows "Create_Link cf lid ty n =
    (case free_link n of
       None \<Rightarrow> Inl no_link_ids
     | Some k \<Rightarrow> bind_res (start_link cf lid ty k (snd (leg_edge lg)) (put_link cf lid ty k n)) (\<lambda>n1. Inr (k, n1)))"
proof -
  note p = legs_okD(1) [OF net_invD(4) [OF inv] lg(1)]
  obtain li ri where "Get_Interface n (fst lid) = Some li" "owner li = My_Address (dae n)"
    "Get_Interface n (snd lid) = Some ri" "owner ri = snd (leg_edge lg)" using p by (auto simp: place_ok_def)
  then show ?thesis using lg up it by (auto simp: Create_Link_def split: option.splits)
qed

lemma Create_Link_data:
  assumes inv: "net_inv {lid} n" and lg: "get_leg n lid = Some lg" "leg_links lg ty = None"
    and up: "control_link lg \<noteq> None" "leg_status lg = CONNECTED_LEG" "leg_cost lg \<noteq> - 1"
    and ty: "ty = UDP_LINK \<or> ty = RELIABLE_UDP_LINK \<or> ty = REALTIME_UDP_LINK"
  shows "res_post {no_link_ids} (\<lambda>(k, n'). net_inv {lid} n' \<and> get_leg n' = (get_leg n)(lid \<mapsto> set_lnk ty k lg) \<and> same_world n n')
    (Create_Link cf lid ty n)"
proof (cases "free_link n")
  case None
  then show ?thesis using Create_Link_unfold [OF inv lg, of cf] up ty by auto
next
  case (Some k)
  note f = free_link_Some [OF this] and p = put_link_simps [OF lg(1), of cf ty k]
  define lk where "lk = (if ty = REALTIME_UDP_LINK then (new_Link cf k ty lid)\<lparr>lk_prot_data := Realtime_Prot new_Realtime_Data\<rparr> else new_Link cf k ty lid)"
  obtain n1 where n1: "start_link cf lid ty k (snd (leg_edge lg)) (put_link cf lid ty k n) = Inr n1"
      "get_leg n1 = (get_leg n)(lid \<mapsto> set_lnk ty k lg)" "Links n1 = (Links n)(k \<mapsto> lk)" "same_rest n n1" "same_world n n1"
    using ty p by (auto simp: start_link_def lk_def)
  have lk: "lk_id lk = k" "lk_type lk = ty" "lk_leg lk = lid" "prot_ok lk" using ty by (auto simp: lk_def new_Link_def prot_ok_def)
  have "net_inv {lid} n1"
    by (rule net_inv_add_link [OF inv f lg _ _ lk _ _ _ _ n1(2-4)]) (simp_all add: set_lnk_def)
  then show ?thesis using Create_Link_unfold [OF inv lg, of cf] up ty Some n1 by auto
qed

lemma timer_ok_new [simp]:
  "timer_types f = Some T \<Longrightarrow> L k = Some lk \<Longrightarrow> lk_type lk \<in> T \<Longrightarrow> f \<noteq> Net_Send_State_All_ev \<Longrightarrow> timer_ok L (new_event t f k None d)"
  by (simp add: timer_ok_def)

lemma Create_Link_int_tol:
  assumes inv: "net_inv {lid} n" and lg: "get_leg n lid = Some lg"
    and up: "control_link lg \<noteq> None" "leg_status lg = CONNECTED_LEG" "leg_cost lg \<noteq> - 1" and c: "Config_File_Found cf"
  shows "res_post {no_link_ids} (\<lambda>(k, n'). net_inv {lid} n' \<and> get_leg n' = (get_leg n)(lid \<mapsto> set_lnk INTRUSION_TOL_LINK k lg) \<and> same_world n n')
    (Create_Link cf lid INTRUSION_TOL_LINK n)"
proof (cases "leg_links lg INTRUSION_TOL_LINK")
  case (Some k)
  obtain li ri where "Get_Interface n (fst lid) = Some li" "owner li = My_Address (dae n)" "Get_Interface n (snd lid) = Some ri"
    using legs_okD(1) [OF net_invD(4) [OF inv] lg] by (auto simp: place_ok_def)
  moreover have "set_lnk INTRUSION_TOL_LINK k lg = lg" using Some by (simp add: set_lnk_def fun_upd_idem)
  ultimately show ?thesis using inv lg Some by (simp add: Create_Link_def fun_upd_idem)
next
  case none: None
  show ?thesis
  proof (cases "free_link n")
    case None
    then show ?thesis using Create_Link_unfold [OF inv lg none, of cf] up c by auto
  next
    case (Some k)
    note f = free_link_Some [OF this] and p = put_link_simps [OF lg, of cf INTRUSION_TOL_LINK k]
    let ?n1 = "upd_link k (\<lambda>lk. lk\<lparr>lk_prot_data := Int_Tol_Prot\<rparr>) (put_link cf lid INTRUSION_TOL_LINK k n)"
    let ?lk = "(new_Link cf k INTRUSION_TOL_LINK lid)\<lparr>lk_prot_data := Int_Tol_Prot\<rparr>"
    have n1: "get_leg ?n1 = (get_leg n)(lid \<mapsto> set_lnk INTRUSION_TOL_LINK k lg)" "Links ?n1 = (Links n)(k \<mapsto> ?lk)" "same_rest n ?n1" "same_world n ?n1"
      using p by auto
    have lk: "lk_id ?lk = k" "lk_type ?lk = INTRUSION_TOL_LINK" "lk_leg ?lk = lid" "prot_ok ?lk" by (auto simp: new_Link_def prot_ok_def)
    have "net_inv {lid} ?n1"
      by (rule net_inv_add_link [OF inv f lg none _ _ lk _ _ _ _ n1(1-3)]) (simp_all add: set_lnk_def)
    then have "net_inv {lid} (start_int_tol cf k (put_link cf lid INTRUSION_TOL_LINK k n))"
      unfolding start_int_tol_def Let_def
      by (auto intro!: net_inv_queue timer_ok_new simp: timer_types_def p new_Link_def)
    then show ?thesis using Create_Link_unfold [OF inv lg none, of cf] up c Some p
      by (simp add: start_link_def start_int_tol_def Let_def)
  qed
qed

section \<open>A neighbor slot\<close>

lemma tables_ok_modify_node:
  assumes ok: "tables_ok d" and f: "\<And>nd. nid (f nd) = nid nd"
  shows "tables_ok (d\<lparr>All_Nodes := stdhash_modify (All_Nodes d) i f\<rparr>)" (is "tables_ok ?d")
proof -
  have keys: "fst ` set (stdhash_modify (All_Nodes d) i f) = fst ` set (All_Nodes d)"
    by (metis keys_stdhash_modify list.set_map)
  have "nid nd = k" if "(k, nd) \<in> set (stdhash_modify (All_Nodes d) i f)" for k nd
    using in_stdhash_modify [OF that] tables_okD(1) [OF ok] f by (auto simp: nodes_ok_def)
  then have "nodes_ok ?d" using tables_okD(1) [OF ok] keys by (auto simp: nodes_ok_def sh.ok_modify)
  moreover have "All_States p ?d = All_States p d" "Changed_States p ?d = Changed_States p d" for p by (cases p; simp)+
  moreover have "Get_Node ?d t \<noteq> None \<longleftrightarrow> Get_Node d t \<noteq> None" for t by (simp add: Get_Node_def sh.find_modify)
  ultimately show ?thesis using ok by (simp add: tables_ok_def)
qed

lemma Get_Node_modify: "Get_Node (d\<lparr>All_Nodes := stdhash_modify (All_Nodes d) i f\<rparr>) = (Get_Node d)(i := map_option f (Get_Node d i))"
  by (auto simp: Get_Node_def sh.find_modify)

lemma find_slot:
  assumes "find P [0..<m] = Some (j :: nat)"
  shows "j < m" "P j"
  using assms by (auto simp: find_Some_iff)

lemma slots_ok_add:
  assumes ok: "slots_ok N ns m" and i: "N i = Some nd" "neighbor_id nd = - 1" and j: "j < MAX_NEIGHBORS" "ns ! j = None"
  shows "slots_ok (N(i \<mapsto> nd\<lparr>neighbor_id := int j\<rparr>)) (ns[j := Some i]) (max m (j + 1))"
proof (rule slots_okI)
  note len = slots_okD(1) [OF ok]
  show "length (ns[j := Some i]) = MAX_NEIGHBORS" using len by simp
  show "max m (j + 1) \<le> MAX_NEIGHBORS" using slots_okD(2) [OF ok] j by simp
  fix t l assume "t < MAX_NEIGHBORS" "ns[j := Some i] ! t = Some l"
  then show "t < max m (j + 1) \<and> (\<exists>x. (N(i \<mapsto> nd\<lparr>neighbor_id := int j\<rparr>)) l = Some x \<and> neighbor_id x = int t)"
    using slots_okD(3) [OF ok, of t l] i j len by (cases "t = j") auto
next
  fix l x assume "(N(i \<mapsto> nd\<lparr>neighbor_id := int j\<rparr>)) l = Some x" "neighbor_id x \<noteq> - 1"
  then show "0 \<le> neighbor_id x \<and> neighbor_id x < int MAX_NEIGHBORS \<and> ns[j := Some i] ! nat (neighbor_id x) = Some l"
    using slots_okD(4) [OF ok, of l x] slots_okD(1) [OF ok] j by (cases "l = i") (auto simp: nth_list_update)
qed

lemma status_ok_mono: "status_ok N lg \<Longrightarrow> (\<And>t. has_slot N t \<Longrightarrow> has_slot N' t) \<Longrightarrow> status_ok N' lg"
  by (cases "leg_status lg") (auto simp: status_ok_def)

lemma legs_ok_slots:
  assumes "legs_ok X me G I E N" "\<And>lid lg. G lid = Some lg \<Longrightarrow> lid \<notin> Y \<Longrightarrow> status_ok N lg \<Longrightarrow> status_ok N' lg" "X \<subseteq> Y"
  shows "legs_ok Y me G I E N'"
  using assms unfolding legs_ok_def by blast

lemma edges_ok_nodes:
  assumes "edges_ok me G E N" "N i = Some nd" "edge nd' = edge nd"
  shows "edges_ok me G E (N(i \<mapsto> nd'))"
proof (rule edges_okI)
  fix t e assume "E t = Some e"
  then show "edge_leg me G t e \<and> (\<exists>x. (N(i \<mapsto> nd')) t = Some x \<and> edge x = Some (me, t))"
    using edges_okD(1) [OF assms(1), of t e] assms(2,3) by auto
next
  fix t x p assume "(N(i \<mapsto> nd')) t = Some x" "edge x = Some p"
  then show "p = (me, t) \<and> E t \<noteq> None" using edges_okD(2) [OF assms(1), of t _ p] assms(2,3) by (auto split: if_splits)
qed

lemma add_neighbor_inv:
  assumes inv: "net_inv X n" and i: "Get_Node (dae n) i \<noteq> None"
  shows "res_post {too_many_neighbors} (\<lambda>n'. net_inv X n' \<and> has_slot (Get_Node (dae n')) i \<and> get_leg n' = get_leg n \<and>
    Links n' = Links n \<and> same_env n n' \<and> rand_pos n' = rand_pos n) (add_neighbor i n)"
proof -
  note v = net_invD [OF inv]
  obtain nd where nd: "Get_Node (dae n) i = Some nd" using i by blast
  show ?thesis
  proof (cases "neighbor_id nd \<noteq> - 1 \<or> find (\<lambda>j. Neighbor_Nodes (dae n) ! j = None) [0..<MAX_NEIGHBORS] = None")
    case True
    then show ?thesis using inv nd by (cases "neighbor_id nd = - 1") (auto simp: add_neighbor_def has_slot_def)
  next
    case False
    then obtain j where j: "find (\<lambda>j. Neighbor_Nodes (dae n) ! j = None) [0..<MAX_NEIGHBORS] = Some j" "neighbor_id nd = - 1" by auto
    note f = find_slot [OF j(1)]
    let ?nd = "nd\<lparr>neighbor_id := int j\<rparr>" and ?N = "Get_Node (dae n)"
    define n' where "n' = upd_dae (\<lambda>d. d\<lparr>Num_Neighbors := max (Num_Neighbors d) (j + 1), Neighbor_Nodes := (Neighbor_Nodes d)[j := Some i]\<rparr>)
      (upd_node i (\<lambda>nd. nd\<lparr>neighbor_id := int j\<rparr>) n)"
    have res: "add_neighbor i n = Inr n'" using nd j by (simp add: add_neighbor_def n'_def)
    have N: "Get_Node (dae n') = ?N(i \<mapsto> ?nd)"
      using nd by (auto simp: n'_def upd_dae_def upd_node_def Get_Node_def sh.find_modify)
    have t: "tables_ok (dae n')"
      using tables_ok_modify_node [OF v(1), of "\<lambda>nd. nd\<lparr>neighbor_id := int j\<rparr>" i]
      by (subst tables_ok_fields [of _ "(dae n)\<lparr>All_Nodes := stdhash_modify (All_Nodes (dae n)) i (\<lambda>nd. nd\<lparr>neighbor_id := int j\<rparr>)\<rparr>"])
        (simp_all add: n'_def upd_dae_def upd_node_def)
    have rest: "Links n' = Links n" "get_leg n' = get_leg n" "Get_Interface n' = Get_Interface n" "own_edge (dae n') = own_edge (dae n)"
      "My_Address (dae n') = My_Address (dae n)" "queued n' = queued n" "Known_Addresses n' = Known_Addresses n"
      "Network_Legs (dae n') = Network_Legs (dae n)" "rand_pos n' = rand_pos n" "same_env n n'"
      by (auto simp: n'_def upd_dae_def upd_node_def get_leg_def Get_Interface_def own_edge_def Get_Edge_def same_env_def fun_eq_iff)
    have slots: "slots_ok (Get_Node (dae n')) (Neighbor_Nodes (dae n')) (Num_Neighbors (dae n'))"
      using slots_ok_add [OF v(6) nd j(2) f] unfolding N by (simp add: n'_def upd_dae_def upd_node_def)
    have "legs_ok X (My_Address (dae n)) (get_leg n) (Get_Interface n) (own_edge (dae n)) (?N(i \<mapsto> ?nd))"
      by (rule legs_ok_slots [OF v(4)], erule status_ok_mono) (auto simp: has_slot_def)
    moreover have "edges_ok (My_Address (dae n)) (get_leg n) (own_edge (dae n)) (?N(i \<mapsto> ?nd))"
      by (rule edges_ok_nodes [OF v(5) nd]) simp
    moreover have "ifs_ok (Get_Interface n) (Known_Addresses n) (?N(i \<mapsto> ?nd))" using v(8) by (auto simp: ifs_ok_def)
    ultimately have "net_inv X n'" using v t slots rest N by (simp add: net_inv_def)
    then show ?thesis using res rest N by (simp add: has_slot_def)
  qed
qed

section \<open>Creating a control link\<close>

lemma draw_id_nonzero: "draw_id r p = Some q \<Longrightarrow> (word_of_int (r q) :: int32u) \<noteq> 0"
  by (rule draw_id.raw_induct [of "\<lambda>r p q. (word_of_int (r q) :: int32u) \<noteq> 0"]) (auto split: if_splits)

text \<open>The leg at the start of a session.\<close>

definition new_session :: "int \<Rightarrow> int32u \<Rightarrow> Network_Leg \<Rightarrow> Network_Leg" where
  "new_session k w lg = (set_lnk CONTROL_LINK k lg)\<lparr>leg_status := NOT_YET_CONNECTED_LEG, leg_cost := - 1,
     ctrl_link_id := w, other_side_ctrl_link_id := 0, hellos_out := 0, connect_cnter := 0\<rparr>"

lemma status_ok_new_session:
  "status_ok N lg \<Longrightarrow> leg_status lg = DISCONNECTED_LEG \<Longrightarrow> has_slot N (snd (leg_edge lg)) \<Longrightarrow> status_ok N (new_session k w lg)"
  by (auto simp: status_ok_def new_session_def set_lnk_def)

lemma net_inv_status:
  assumes "net_inv {lid} n" "\<And>lg. get_leg n lid = Some lg \<Longrightarrow> status_ok (Get_Node (dae n)) lg"
  shows "net_ok n"
proof -
  have "legs_ok {} (My_Address (dae n)) (get_leg n) (Get_Interface n) (own_edge (dae n)) (Get_Node (dae n))"
    using net_invD(4) [OF assms(1)] assms(2) unfolding legs_ok_def by blast
  then show ?thesis using assms(1) by (simp add: net_inv_def)
qed

lemma status_ok_slots:
  "status_ok N lg \<Longrightarrow> leg_status lg = DISCONNECTED_LEG \<Longrightarrow> status_ok N' lg"
  by (simp add: status_ok_def)

lemma node_of_leg:
  assumes "net_inv X n" "get_leg n lid = Some lg"
  shows "Get_Node (dae n) (snd (leg_edge lg)) \<noteq> None"
  using legs_okD(1) [OF net_invD(4) [OF assms(1)] assms(2)] edges_okD(1) [OF net_invD(5) [OF assms(1)]]
  by (fastforce simp: place_ok_def)

lemma Create_Link_control:
  assumes inv: "net_ok n" and lg: "get_leg n lid = Some lg" "leg_status lg = DISCONNECTED_LEG"
  shows "res_post {no_link_ids, too_many_neighbors, rand_loops}
    (\<lambda>(k, n'). net_ok n' \<and> (\<exists>w. w \<noteq> 0 \<and> get_leg n' = (get_leg n)(lid \<mapsto> new_session k w lg)) \<and> same_env n n')
    (Create_Link cf lid CONTROL_LINK n)"
proof -
  note st = legs_okD(2) [OF net_invD(4) [OF inv] lg(1), simplified]
  have none: "control_link lg = None" "leg_cost lg = - 1" using st lg(2) by (simp_all add: status_ok_def)
  note u = Create_Link_unfold [OF inv lg(1) none(1), of cf, simplified]
  show ?thesis
  proof (cases "free_link n")
    case None
    with u show ?thesis by simp
  next
    case (Some k)
    note f = free_link_Some [OF this] and p = put_link_simps [OF lg(1), of cf CONTROL_LINK k]
    let ?n0 = "put_link cf lid CONTROL_LINK k n"
    have l0: "get_leg ?n0 lid = Some (set_lnk CONTROL_LINK k lg)" "leg_status (set_lnk CONTROL_LINK k lg) = DISCONNECTED_LEG"
      "leg_cost (set_lnk CONTROL_LINK k lg) = - 1" using p(1) lg(2) none by (simp_all add: set_lnk_def)
    show ?thesis
    proof (cases "draw_id (rand_seq n) (rand_pos n)")
      case None
      have "rand_seq ?n0 = rand_seq n" using p(4) by (simp add: same_world_def same_env_def)
      with None show ?thesis using u Some l0 p(5) by (simp add: start_link_def start_control_def)
    next
      case q: (Some q)
      define w :: int32u where "w = word_of_int (rand_seq n q)"
      define n1 where "n1 = upd_leg lid (\<lambda>l. l\<lparr>leg_status := NOT_YET_CONNECTED_LEG, leg_cost := - 1, ctrl_link_id := w,
        other_side_ctrl_link_id := 0, hellos_out := 0, connect_cnter := 0\<rparr>)
        (upd_link k (put_c_data new_Control_Data) (?n0\<lparr>rand_pos := q + 1\<rparr>))"
      let ?lk = "put_c_data new_Control_Data (new_Link cf k CONTROL_LINK lid)"
      have w: "w \<noteq> 0" using draw_id_nonzero [OF q] by (simp add: w_def)
      have n1: "get_leg n1 = (get_leg n)(lid \<mapsto> new_session k w lg)" "Links n1 = (Links n)(k \<mapsto> ?lk)" "same_rest n n1" "same_env n n1"
        using p by (simp_all add: n1_def get_leg_upd_leg new_session_def same_world_env)
      have lk: "lk_id ?lk = k" "lk_type ?lk = CONTROL_LINK" "lk_leg ?lk = lid" "prot_ok ?lk"
        by (simp_all add: new_Link_def put_c_data_def prot_ok_def c_data_of_def)
      have i1: "net_inv {lid} n1"
        by (rule net_inv_add_link [OF inv f lg(1) none(1) _ _ lk _ _ _ _ n1(1-3)]) (simp_all add: new_session_def set_lnk_def none)
      have start: "start_link cf lid CONTROL_LINK k (snd (leg_edge lg)) ?n0 =
          bind_res (add_neighbor (snd (leg_edge lg)) n1) (\<lambda>n2. let (r, n3) = next_rand n2 in Inr (net_queue Send_Hello_ev k None (hello_offset cf r) n3))"
        using l0 p(4,5) q by (simp add: start_link_def start_control_def n1_def w_def same_world_def same_env_def)
      have "Get_Node (dae n1) (snd (leg_edge lg)) \<noteq> None" using node_of_leg [OF inv lg(1)] n1(3) by (simp add: same_rest_def)
      note a = add_neighbor_inv [OF i1 this]
      have "res_post {too_many_neighbors} (\<lambda>n'. net_ok n' \<and> get_leg n' = (get_leg n)(lid \<mapsto> new_session k w lg) \<and> same_env n n')
          (start_link cf lid CONTROL_LINK k (snd (leg_edge lg)) ?n0)"
        unfolding start
      proof (rule res_post_bind [OF a])
        fix n2 assume "net_inv {lid} n2 \<and> has_slot (Get_Node (dae n2)) (snd (leg_edge lg)) \<and> get_leg n2 = get_leg n1 \<and> Links n2 = Links n1 \<and>
          same_env n1 n2 \<and> rand_pos n2 = rand_pos n1"
        then have n2: "net_inv {lid} n2" "has_slot (Get_Node (dae n2)) (snd (leg_edge lg))" "get_leg n2 = get_leg n1" "Links n2 = Links n1"
          "same_env n1 n2" by simp_all
        have "net_ok n2"
        proof (rule net_inv_status [OF n2(1)])
          fix l assume "get_leg n2 lid = Some l"
          then show "status_ok (Get_Node (dae n2)) l"
            using n2(2,3) n1(1) status_ok_new_session [OF status_ok_slots [OF st lg(2)] lg(2)] by auto
        qed
        moreover have "same_env n n2" using same_env_trans [OF n1(4) n2(5)] .
        ultimately show "res_post {too_many_neighbors} (\<lambda>n'. net_ok n' \<and> get_leg n' = (get_leg n)(lid \<mapsto> new_session k w lg) \<and> same_env n n')
            (let (r, n3) = next_rand n2 in Inr (net_queue Send_Hello_ev k None (hello_offset cf r) n3))"
          using n2 n1 lk by (auto intro!: net_inv_queue timer_ok_new simp: timer_types_def next_rand_def)
      qed
      then show ?thesis using u Some w by (cases "start_link cf lid CONTROL_LINK k (snd (leg_edge lg)) ?n0") auto
    qed
  qed
qed

end
