(* ===== verification/Legs_Inv.thy ===== *)
theory Legs_Inv
  imports Links_Inv
begin

text \<open>
  Setting the cost of a leg, disconnecting it and creating interfaces and legs keep the invariant; a
  disconnection never fails.
\<close>

section \<open>Changes of the daemon below the links\<close>

text \<open>The edges of this node keep leg and value, the rest of the tables may change.\<close>

lemma net_inv_dae:
  assumes inv: "net_inv X n" and d': "tables_ok d'" "same_nodes (dae n) d'" "timers_ok (Links n) (Time_queue d')"
    and e: "\<And>t. own_edge d' t = map_option (g t) (own_edge (dae n) t)" "\<And>t e. leg_of (g t e) = leg_of e \<and> state_value (g t e) = state_value e \<and> is_edge (g t e) = is_edge e"
  shows "net_inv X (n\<lparr>dae := d'\<rparr>)" "get_leg (n\<lparr>dae := d'\<rparr>) = get_leg n" "same_world n (n\<lparr>dae := d'\<rparr>)"
proof -
  note v = net_invD [OF inv]
  have s: "My_Address d' = My_Address (dae n)" "All_Nodes d' = All_Nodes (dae n)" "Num_Neighbors d' = Num_Neighbors (dae n)"
    "Neighbor_Nodes d' = Neighbor_Nodes (dae n)" "Network_Legs d' = Network_Legs (dae n)" "wall_clock d' = wall_clock (dae n)" "ARCH_ENDIAN d' = ARCH_ENDIAN (dae n)"
    using d'(2) by (simp_all add: same_nodes_def)
  show leg: "get_leg (n\<lparr>dae := d'\<rparr>) = get_leg n" using s(5) by (simp add: get_leg_def fun_eq_iff)
  have node: "Get_Node d' = Get_Node (dae n)" using s(2) by (simp add: Get_Node_def fun_eq_iff)
  show "same_world n (n\<lparr>dae := d'\<rparr>)" using s node by (simp add: same_world_def same_env_def)
  have "place_ok me I (own_edge d') lid lg" if "place_ok me I (own_edge (dae n)) lid lg" for me I lid lg
    using that e unfolding place_ok_def by auto
  then have "legs_ok X (My_Address (dae n)) (get_leg n) (Get_Interface n) (own_edge d') (Get_Node (dae n))"
    using v(4) unfolding legs_ok_def by blast
  moreover have "edges_ok (My_Address (dae n)) (get_leg n) (own_edge d') (Get_Node (dae n))"
  proof (rule edges_okI)
    fix t x assume "own_edge d' t = Some x"
    then obtain y where "own_edge (dae n) t = Some y" "x = g t y" using e(1) [of t] by auto
    then show "edge_leg (My_Address (dae n)) (get_leg n) t x \<and> (\<exists>nd. Get_Node (dae n) t = Some nd \<and> edge nd = Some (My_Address (dae n), t))"
      using edges_okD(1) [OF v(5), of t y] e(2) [of t y] by (auto simp: edge_leg_def split: option.splits)
  next
    fix t nd p assume "Get_Node (dae n) t = Some nd" "edge nd = Some p"
    then show "p = (My_Address (dae n), t) \<and> own_edge d' t \<noteq> None" using edges_okD(2) [OF v(5)] e(1) [of t] by simp
  qed
  ultimately show "net_inv X (n\<lparr>dae := d'\<rparr>)" using v d' s leg node by (simp add: net_inv_def)
qed

lemma own_edge_write: "own_edge d' t = (if t = b then map_option f (own_edge d b) else own_edge d t)"
  if "All_Edges d' = write_state (All_Edges d) (a, b) f" "My_Address d' = My_Address d" "a = My_Address d"
  using that by (simp add: own_edge_def Get_Edge_def Find_State_write_state)

lemma Add_own_edge:
  assumes inv: "net_inv X n" and e: "own_edge (dae n) t \<noteq> None"
  shows "res_post {} (\<lambda>d. net_inv X (n\<lparr>dae := d\<rparr>) \<and> get_leg (n\<lparr>dae := d\<rparr>) = get_leg n \<and> same_world n (n\<lparr>dae := d\<rparr>))
    (Add_to_changed_states Edge_Prot_Def (My_Address (dae n)) (My_Address (dae n), t) (dae n))"
proof -
  let ?me = "My_Address (dae n)"
  note v = net_invD [OF inv]
  have "Get_Node (dae n) ?me \<noteq> None"
    using tables_okD(1) [OF v(1)] by (auto simp: nodes_ok_def Get_Node_def stdhash_find_None)
  then obtain d where d: "Add_to_changed_states Edge_Prot_Def ?me (?me, t) (dae n) = Inr d"
    by (auto simp: Add_to_changed_states_def known_sender_def Let_def)
  note A = Add_to_changed_states_Inr [OF d]
  let ?f = "\<lambda>s. s\<lparr>my_timestamp_sec := sec (wall_clock (dae n)), my_timestamp_usec := usec (wall_clock (dae n))\<rparr>"
  have t: "tables_ok d"
    by (rule tables_ok_Add_to_changed_states [OF v(1) _ d]) (use e in \<open>simp add: own_edge_def Get_Edge_def\<close>)
  have "Time_queue d = queued n \<or> (\<exists>delta. Time_queue d = E_queue (monotonic_clock (dae n)) Send_State_Updates_ev 0 (Some Edge_Prot_Def) delta (queued n))"
    using d by (auto simp: Add_to_changed_states_def Let_def schedule_flood_def stamp_state_def modify_state_def queue_event_def bind_res_Inr_iff split: if_splits)
  then have q: "timers_ok (Links n) (Time_queue d)"
    using v(7) timers_ok_queue [OF v(7)] by (auto simp: timer_ok_def timer_types_def)
  have "own_edge d x = map_option (if x = t then ?f else id) (own_edge (dae n) x)" for x
    using own_edge_write [of d "dae n" ?me t ?f x] A(1,4) by (simp add: same_nodes_def option.map_id)
  moreover have "leg_of ((if x = t then ?f else id) s) = leg_of s \<and> state_value ((if x = t then ?f else id) s) = state_value s
      \<and> is_edge ((if x = t then ?f else id) s) = is_edge s" for x s
    by (simp add: leg_of_def is_edge_def)
  ultimately show ?thesis using net_inv_dae [OF inv t A(1) q, of "\<lambda>x. if x = t then ?f else id"] d by simp
qed

lemma net_inv_Schedule_Routes:
  assumes "net_inv X n"
  shows "net_inv X (n\<lparr>dae := Schedule_Routes (dae n)\<rparr>)" "get_leg (n\<lparr>dae := Schedule_Routes (dae n)\<rparr>) = get_leg n"
    "same_world n (n\<lparr>dae := Schedule_Routes (dae n)\<rparr>)"
proof -
  note v = net_invD [OF assms]
  let ?d = "Schedule_Routes (dae n)"
  have t: "tables_ok ?d" using v(1) by (subst tables_ok_fields [of _ "dae n"]) (auto simp: Schedule_Routes_def queue_event_def)
  have s: "same_nodes (dae n) ?d" by (simp add: same_nodes_def Schedule_Routes_def queue_event_def)
  have q: "timers_ok (Links n) (Time_queue ?d)"
    using v(7) timers_ok_queue [OF v(7)] by (simp add: Schedule_Routes_def queue_event_def timer_ok_def timer_types_def)
  have e: "own_edge ?d x = map_option id (own_edge (dae n) x)" for x
    by (simp add: own_edge_def Get_Edge_def Schedule_Routes_def queue_event_def option.map_id)
  show "net_inv X (n\<lparr>dae := ?d\<rparr>)" "get_leg (n\<lparr>dae := ?d\<rparr>) = get_leg n" "same_world n (n\<lparr>dae := ?d\<rparr>)"
    using net_inv_dae [OF assms t s q, of "\<lambda>_. id", OF e] by simp_all
qed

section \<open>The cost of a leg and its edge\<close>

definition cost_edge :: "Link_State_LTS \<Rightarrow> int \<Rightarrow> State_Data \<Rightarrow> State_Data" where
  "cost_edge l c e = set_lts l (bump_timestamp (e\<lparr>state_value := c\<rparr>))"

lemma cost_edge_simps [simp]:
  "leg_of (cost_edge l c e) = leg_of e" "state_value (cost_edge l c e) = c" "state_key (cost_edge l c e) = state_key e" "is_edge (cost_edge l c e) = is_edge e"
  by (auto simp: is_edge_def cost_edge_def set_lts_def bump_timestamp_def leg_of_def state_key_def split: state_fields.splits)

lemma write_cost_simps:
  "Network_Legs (write_cost lid ptr c d) = stdhash_modify (Network_Legs d) lid (\<lambda>l. l\<lparr>leg_cost := c\<rparr>)"
  "All_Nodes (write_cost lid ptr c d) = All_Nodes d" "My_Address (write_cost lid ptr c d) = My_Address d"
  "Neighbor_Nodes (write_cost lid ptr c d) = Neighbor_Nodes d" "Num_Neighbors (write_cost lid ptr c d) = Num_Neighbors d"
  "Time_queue (write_cost lid ptr c d) = Time_queue d" "wall_clock (write_cost lid ptr c d) = wall_clock d"
  "ARCH_ENDIAN (write_cost lid ptr c d) = ARCH_ENDIAN d"
  "Find_State (All_Edges (write_cost lid ptr c d)) s t =
     (if (s, t) = ptr then map_option (cost_edge (Link_State_Update_LTS d + 1) c) (Find_State (All_Edges d) s t) else Find_State (All_Edges d) s t)"
  by (auto simp: write_cost_def Let_def Link_State_LTS_inc_def modify_state_def Find_State_write_state cost_edge_def [abs_def]
      option.map_comp comp_def split: prod.splits)

lemma tables_ok_write_cost:
  assumes "tables_ok d"
  shows "tables_ok (write_cost lid ptr c d)"
proof -
  let ?d1 = "emit (DG_Process_Edge_Update ptr c) (d\<lparr>Network_Legs := stdhash_modify (Network_Legs d) lid (\<lambda>l. l\<lparr>leg_cost := c\<rparr>)\<rparr>)"
  let ?d2 = "modify_state Edge_Prot_Def ptr (\<lambda>e. e\<lparr>state_value := c\<rparr>) ?d1"
  let ?d3 = "modify_state Edge_Prot_Def ptr bump_timestamp (emit MultiPath_Clear_Cache ?d2)"
  have k: "state_key (bump_timestamp s) = state_key s" "state_key (set_lts l s) = state_key s" for l s
    by (simp_all add: bump_timestamp_def set_lts_def state_key_def)
  have "tables_ok ?d1" using assms by (subst tables_ok_fields [of _ d]) simp_all
  then have "tables_ok ?d2" by (rule tables_ok_modify_state) (simp add: state_key_def)
  then have "tables_ok (emit MultiPath_Clear_Cache ?d2)" by (subst tables_ok_fields [of _ ?d2]) simp_all
  then have "tables_ok ?d3" by (rule tables_ok_modify_state) (simp add: k)
  then have "tables_ok (snd (Link_State_LTS_inc ?d3))" by (subst tables_ok_fields [of _ ?d3]) (simp_all add: Link_State_LTS_inc_def Let_def)
  then show ?thesis unfolding write_cost_def Let_def
    by (auto simp: k split: prod.splits intro!: tables_ok_modify_state)
qed

text \<open>Two legs never share an edge.\<close>

lemma leg_of_edge:
  assumes "net_inv X n" "get_leg n lid = Some lg" "get_leg n lid' = Some lg'" "snd (leg_edge lg') = snd (leg_edge lg)"
  shows "lid' = lid"
  using legs_okD(1) [OF net_invD(4) [OF assms(1)] assms(2)] legs_okD(1) [OF net_invD(4) [OF assms(1)] assms(3)] assms(4)
  by (auto simp: place_ok_def)

lemma net_inv_write_cost:
  fixes c :: int
  assumes inv: "net_inv X n" and lg: "get_leg n lid = Some lg" "lid \<in> X"
  defines "n' \<equiv> n\<lparr>dae := write_cost lid (leg_edge lg) c (dae n)\<rparr>"
  shows "net_inv X n'" "get_leg n' = (get_leg n)(lid \<mapsto> lg\<lparr>leg_cost := c\<rparr>)" "same_world n n'"
proof -
  let ?me = "My_Address (dae n)" and ?t = "snd (leg_edge lg)" and ?lg = "lg\<lparr>leg_cost := c\<rparr>"
  note v = net_invD [OF inv] and w = write_cost_simps(1-8) [of lid "leg_edge lg" c "dae n"]
  note p = legs_okD(1) [OF v(4) lg(1)]
  have ptr: "leg_edge lg = (?me, ?t)" using p by (simp add: place_ok_def prod_eq_iff)
  have e: "own_edge (dae n') t = (if t = ?t then map_option (cost_edge (Link_State_Update_LTS (dae n) + 1) c) (own_edge (dae n) t) else own_edge (dae n) t)" for t
    using write_cost_simps(9) [of lid "leg_edge lg" c "dae n" ?me t] ptr w(3) by (auto simp: own_edge_def Get_Edge_def n'_def prod_eq_iff)
  show leg: "get_leg n' = (get_leg n)(lid \<mapsto> ?lg)" using lg w by (auto simp: get_leg_def n'_def sh.find_modify)
  have node: "Get_Node (dae n') = Get_Node (dae n)" using w by (simp add: n'_def Get_Node_def fun_eq_iff)
  show "same_world n n'" using w node by (simp add: same_world_def same_env_def n'_def)
  have "place_ok ?me (Get_Interface n) (own_edge (dae n')) l' lg' \<and> (l' \<in> X \<or> status_ok (Get_Node (dae n)) lg')" if "get_leg n' l' = Some lg'" for l' lg'
  proof (cases "l' = lid")
    case True
    then have "lg' = ?lg" using that leg by simp
    then show ?thesis using True p lg(2) e by (auto simp: place_ok_def)
  next
    case False
    then have g: "get_leg n l' = Some lg'" using that leg by simp
    then have "snd (leg_edge lg') \<noteq> ?t" using leg_of_edge [OF inv lg(1) g] False by blast
    then show ?thesis using legs_okD [OF v(4) g] e by (auto simp: place_ok_def)
  qed
  then have "legs_ok X ?me (get_leg n') (Get_Interface n) (own_edge (dae n')) (Get_Node (dae n))" unfolding legs_ok_def by blast
  moreover have "edges_ok ?me (get_leg n') (own_edge (dae n')) (Get_Node (dae n))"
  proof (rule edges_okI)
    fix t x assume "own_edge (dae n') t = Some x"
    then obtain y where y: "own_edge (dae n) t = Some y" "leg_of x = leg_of y" "t \<noteq> ?t \<longrightarrow> x = y" "is_edge x = is_edge y" using e [of t] by (auto split: if_splits)
    have "t = ?t \<Longrightarrow> leg_of y = Some lid" using y(1) p by (auto simp: place_ok_def)
    then show "edge_leg ?me (get_leg n') t x \<and> (\<exists>nd. Get_Node (dae n) t = Some nd \<and> edge nd = Some (?me, t))"
      using edges_okD(1) [OF v(5) y(1)] y leg lg by (auto simp: edge_leg_def split: option.splits)
  next
    fix t nd q assume "Get_Node (dae n) t = Some nd" "edge nd = Some q"
    then show "q = (?me, t) \<and> own_edge (dae n') t \<noteq> None" using edges_okD(2) [OF v(5), of t nd q] e [of t] by auto
  qed
  moreover have "links_ok (Links n) (get_leg n')" unfolding leg by (rule links_ok_upd [OF v(3) lg(1)]) simp
  moreover have "tables_ok (dae n')" using tables_ok_write_cost [OF v(1)] by (simp add: n'_def)
  ultimately show "net_inv X n'" using v w node by (simp add: net_inv_def n'_def sh.ok_modify)
qed

section \<open>Giving up a neighbor slot\<close>

lemma trim_neighbors_le: "trim_neighbors ns k \<le> k"
  by (induction k) auto

lemma trim_neighbors_covers: "t < k \<Longrightarrow> ns ! t \<noteq> None \<Longrightarrow> t < trim_neighbors ns k"
  by (induction k) (auto simp: less_Suc_eq)

lemma slots_ok_drop:
  assumes ok: "slots_ok N ns m" and i: "N i = Some nd" "neighbor_id nd \<noteq> - 1"
  shows "slots_ok (N(i \<mapsto> nd\<lparr>neighbor_id := - 1\<rparr>)) (ns[nat (neighbor_id nd) := None]) (trim_neighbors (ns[nat (neighbor_id nd) := None]) m)"
proof (rule slots_okI)
  note len = slots_okD(1) [OF ok] and nd = slots_okD(4) [OF ok i]
  let ?j = "nat (neighbor_id nd)"
  show "length (ns[?j := None]) = MAX_NEIGHBORS" using len by simp
  show "trim_neighbors (ns[?j := None]) m \<le> MAX_NEIGHBORS" using slots_okD(2) [OF ok] trim_neighbors_le le_trans by blast
  fix t l assume t: "t < MAX_NEIGHBORS" "ns[?j := None] ! t = Some l"
  have "t \<noteq> ?j" using t len by (auto simp: nth_list_update)
  moreover from this have "ns ! t = Some l" using t by simp
  moreover have "l \<noteq> i" using slots_okD(3) [OF ok t(1), of l] i calculation by auto
  ultimately show "t < trim_neighbors (ns[?j := None]) m \<and> (\<exists>x. (N(i \<mapsto> nd\<lparr>neighbor_id := - 1\<rparr>)) l = Some x \<and> neighbor_id x = int t)"
    using slots_okD(3) [OF ok t(1), of l] t(2) trim_neighbors_covers [of t m "ns[?j := None]"] by auto
next
  fix l x assume x: "(N(i \<mapsto> nd\<lparr>neighbor_id := - 1\<rparr>)) l = Some x" "neighbor_id x \<noteq> - 1"
  then have l: "l \<noteq> i" "N l = Some x" by (auto split: if_splits)
  have "nat (neighbor_id x) \<noteq> nat (neighbor_id nd)" using slots_okD(4) [OF ok l(2) x(2)] slots_okD(4) [OF ok i] l(1) by auto
  then show "0 \<le> neighbor_id x \<and> neighbor_id x < int MAX_NEIGHBORS \<and> ns[nat (neighbor_id nd) := None] ! nat (neighbor_id x) = Some l"
    using slots_okD(4) [OF ok l(2) x(2)] by simp
qed

lemma net_inv_drop_neighbor:
  assumes inv: "net_inv X n" and lg: "get_leg n lid = Some lg" "lid \<in> X" and slot: "has_slot (Get_Node (dae n)) (snd (leg_edge lg))"
  shows "res_post {} (\<lambda>d. net_inv X (n\<lparr>dae := d\<rparr>) \<and> get_leg (n\<lparr>dae := d\<rparr>) = get_leg n \<and> same_env n (n\<lparr>dae := d\<rparr>))
    (drop_neighbor (snd (leg_edge lg)) (dae n))"
proof -
  let ?i = "snd (leg_edge lg)" and ?N = "Get_Node (dae n)"
  note v = net_invD [OF inv]
  obtain nd where nd: "?N ?i = Some nd" "neighbor_id nd \<noteq> - 1" using slot by (auto simp: has_slot_def)
  note s = slots_okD(4) [OF v(6) nd]
  let ?nd = "nd\<lparr>neighbor_id := - 1\<rparr>"
  define ns where "ns = (Neighbor_Nodes (dae n))[nat (neighbor_id nd) := None]"
  define d where "d = (dae n)\<lparr>Neighbor_Nodes := ns, All_Nodes := stdhash_modify (All_Nodes (dae n)) ?i (\<lambda>nd. nd\<lparr>neighbor_id := - 1\<rparr>),
    Num_Neighbors := trim_neighbors ns (Num_Neighbors (dae n))\<rparr>"
  have res: "drop_neighbor ?i (dae n) = Inr d" using nd s by (simp add: drop_neighbor_def d_def ns_def Let_def)
  have N: "Get_Node d = ?N(?i \<mapsto> ?nd)" using nd by (auto simp: d_def Get_Node_def sh.find_modify)
  have t: "tables_ok d"
    using tables_ok_modify_node [OF v(1), of "\<lambda>nd. nd\<lparr>neighbor_id := - 1\<rparr>" ?i]
    by (subst tables_ok_fields [of _ "(dae n)\<lparr>All_Nodes := stdhash_modify (All_Nodes (dae n)) ?i (\<lambda>nd. nd\<lparr>neighbor_id := - 1\<rparr>)\<rparr>"])
      (simp_all add: d_def)
  have rest: "get_leg (n\<lparr>dae := d\<rparr>) = get_leg n" "own_edge d = own_edge (dae n)"
      "My_Address d = My_Address (dae n)" "Time_queue d = queued n" "Network_Legs d = Network_Legs (dae n)" "same_env n (n\<lparr>dae := d\<rparr>)"
    by (auto simp: d_def get_leg_def own_edge_def Get_Edge_def same_env_def fun_eq_iff)
  have slots: "slots_ok (Get_Node d) (Neighbor_Nodes d) (Num_Neighbors d)"
    using slots_ok_drop [OF v(6) nd] unfolding N by (simp add: d_def ns_def)
  have "legs_ok X (My_Address (dae n)) (get_leg n) (Get_Interface n) (own_edge (dae n)) (?N(?i \<mapsto> ?nd))"
  proof (rule legs_ok_slots [OF v(4)])
    fix l g assume g: "get_leg n l = Some g" "l \<notin> X" "status_ok ?N g"
    then have "snd (leg_edge g) \<noteq> ?i" using leg_of_edge [OF inv lg(1) g(1)] lg(2) by blast
    then have "has_slot (?N(?i \<mapsto> ?nd)) (snd (leg_edge g)) = has_slot ?N (snd (leg_edge g))" by (simp add: has_slot_def)
    with g(3) show "status_ok (?N(?i \<mapsto> ?nd)) g" by (cases "leg_status g") (simp_all add: status_ok_def)
  qed simp
  moreover have "edges_ok (My_Address (dae n)) (get_leg n) (own_edge (dae n)) (?N(?i \<mapsto> ?nd))"
    by (rule edges_ok_nodes [OF v(5) nd(1)]) simp
  moreover have "ifs_ok (Get_Interface n) (Known_Addresses n) (?N(?i \<mapsto> ?nd))" using v(8) by (auto simp: ifs_ok_def)
  ultimately have "net_inv X (n\<lparr>dae := d\<rparr>)" using v t slots rest N by (simp add: net_inv_def)
  then show ?thesis using res rest by simp
qed

section \<open>Setting the cost\<close>

lemma control_link_type:
  assumes "net_inv X n" "get_leg n lid = Some lg" "leg_links lg ty = Some k"
  shows "\<exists>lk. Links n k = Some lk \<and> lk_leg lk = lid \<and> lk_type lk = ty \<and> prot_ok lk"
  using links_okD [OF net_invD(3) [OF assms(1)]] assms(2,3) by blast

lemma net_inv_send_all:
  assumes "net_inv X n" "get_leg n lid = Some lg" "control_link lg = Some k"
  shows "net_inv X (net_queue Net_Send_State_All_ev k (Some p) t n)"
  using control_link_type [OF assms] assms(1) by (auto intro!: net_inv_queue simp: timer_ok_def timer_types_def)

lemma Network_Leg_Set_Cost_inv:
  assumes inv: "net_inv X n" and lg: "get_leg n lid = Some lg" "lid \<in> X"
    and c: "c = - 1 \<longleftrightarrow> leg_status lg \<noteq> CONNECTED_LEG" and k: "control_link lg \<noteq> None \<or> c = - 1"
    and s: "leg_cost lg \<noteq> - 1 \<longrightarrow> has_slot (Get_Node (dae n)) (snd (leg_edge lg))"
  shows "res_post {} (\<lambda>n'. net_inv X n' \<and> get_leg n' = (get_leg n)(lid \<mapsto> lg\<lparr>leg_cost := c\<rparr>) \<and> same_env n n' \<and>
    (c \<noteq> - 1 \<longrightarrow> Get_Node (dae n') = Get_Node (dae n)) \<and> Links n' = Links n) (Network_Leg_Set_Cost lid c n)"
proof (cases "c = leg_cost lg")
  case True
  then have "lg\<lparr>leg_cost := c\<rparr> = lg" by simp
  then show ?thesis using True inv lg c by (auto simp: Network_Leg_Set_Cost_def fun_upd_idem)
next
  case False
  let ?t = "snd (leg_edge lg)" and ?me = "My_Address (dae n)" and ?lg = "lg\<lparr>leg_cost := c\<rparr>"
  note p = legs_okD(1) [OF net_invD(4) [OF inv] lg(1)] and w = net_inv_write_cost [OF inv lg, of c]
  let ?n1 = "n\<lparr>dae := write_cost lid (leg_edge lg) c (dae n)\<rparr>"
  have ptr: "fst (leg_edge lg) = ?me" using p by (simp add: place_ok_def)
  have g1: "get_leg ?n1 lid = Some ?lg" using w(2) by simp
  let ?q = "\<lambda>d. net_inv X (n\<lparr>dae := d\<rparr>) \<and> get_leg (n\<lparr>dae := d\<rparr>) = (get_leg n)(lid \<mapsto> ?lg) \<and> same_env n (n\<lparr>dae := d\<rparr>) \<and>
    (c \<noteq> - 1 \<longrightarrow> Get_Node d = Get_Node (dae n))"
  let ?step = "if leg_cost lg = - 1
      then if leg_status lg \<noteq> CONNECTED_LEG then Inl (ASSERT ''Network_Leg_Set_Cost'')
           else (case control_link lg of
                   None \<Rightarrow> Inl (UNDEF ''Network_Leg_Set_Cost'')
                 | Some k \<Rightarrow> Inr (queue_event Net_Send_State_All_ev k (Some Groups_Prot_Def) zero_timeout
                              (queue_event Net_Send_State_All_ev k (Some Edge_Prot_Def) zero_timeout (dae ?n1))))
      else if c = - 1 then drop_neighbor ?t (dae ?n1) else Inr (dae ?n1)"
  have step: "res_post {} ?q ?step"
  proof (cases "leg_cost lg = - 1")
    case True
    then obtain k where k: "control_link lg = Some k" "c \<noteq> - 1" "leg_status lg = CONNECTED_LEG" using False c k by auto
    let ?n2 = "net_queue Net_Send_State_All_ev k (Some Groups_Prot_Def) zero_timeout (net_queue Net_Send_State_All_ev k (Some Edge_Prot_Def) zero_timeout ?n1)"
    have "net_inv X (net_queue Net_Send_State_All_ev k (Some Edge_Prot_Def) zero_timeout ?n1)"
      by (rule net_inv_send_all [OF w(1) g1]) (simp add: k(1))
    then have "net_inv X ?n2" by (rule net_inv_send_all [of X _ lid ?lg]) (simp_all add: g1 k(1))
    moreover have "?n2 = n\<lparr>dae := queue_event Net_Send_State_All_ev k (Some Groups_Prot_Def) zero_timeout
                              (queue_event Net_Send_State_All_ev k (Some Edge_Prot_Def) zero_timeout (dae ?n1))\<rparr>"
      by (simp add: net_queue_def upd_dae_def)
    moreover have "get_leg ?n2 = (get_leg n)(lid \<mapsto> ?lg)" "same_world n ?n2" using w(2,3) by simp_all
    ultimately show ?thesis using True k by (simp add: same_world_def)
  next
    case nz: False
    show ?thesis
    proof (cases "c = - 1")
      case True
      have "has_slot (Get_Node (dae ?n1)) (snd (leg_edge ?lg))" using s nz w(3) by (simp add: same_world_def)
      then have "res_post {} (\<lambda>d. net_inv X (?n1\<lparr>dae := d\<rparr>) \<and> get_leg (?n1\<lparr>dae := d\<rparr>) = get_leg ?n1 \<and> same_env ?n1 (?n1\<lparr>dae := d\<rparr>)) (drop_neighbor ?t (dae ?n1))"
        using net_inv_drop_neighbor [OF w(1) g1 lg(2)] by simp
      then show ?thesis using True nz w(2) same_env_trans [OF same_world_env [OF w(3)]] by (auto simp: res_post_Inr)
    next
      case False
      then show ?thesis using nz w by (simp add: same_world_def)
    qed
  qed
  have e: "Find_State (All_Edges (dae n)) ?me ?t \<noteq> None" using p by (auto simp: place_ok_def own_edge_def Get_Edge_def)
  have unf: "Network_Leg_Set_Cost lid c n = bind_res ?step (\<lambda>d1. bind_res (Add_to_changed_states Edge_Prot_Def (My_Address d1) (leg_edge lg) d1) (\<lambda>d2.
      Inr (n\<lparr>dae := Schedule_Routes d2\<rparr>)))"
    using lg False c e ptr by (auto simp: Network_Leg_Set_Cost_def Let_def split: option.splits)
  show ?thesis unfolding unf
  proof (rule res_post_bind [OF step])
    fix d assume d: "?q d"
    let ?n = "n\<lparr>dae := d\<rparr>"
    have me: "My_Address d = ?me" using d by (simp add: same_env_def)
    have "get_leg ?n lid = Some ?lg" using d by simp
    then have "own_edge d ?t \<noteq> None" using legs_okD(1) [OF net_invD(4), of X ?n lid ?lg] d by (auto simp: place_ok_def)
    moreover have "(?me, ?t) = leg_edge lg" using ptr by (simp add: prod_eq_iff)
    ultimately obtain d2 where d2: "Add_to_changed_states Edge_Prot_Def (My_Address d) (leg_edge lg) d = Inr d2"
        "net_inv X (n\<lparr>dae := d2\<rparr>)" "get_leg (n\<lparr>dae := d2\<rparr>) = get_leg ?n" "same_world ?n (n\<lparr>dae := d2\<rparr>)"
      using Add_own_edge [of X ?n ?t] d me by (auto simp: res_post_Inr)
    note r = net_inv_Schedule_Routes [OF d2(2), simplified]
    have "same_world ?n (n\<lparr>dae := Schedule_Routes d2\<rparr>)" using same_world_trans [OF d2(4) r(3)] .
    then have "same_env n (n\<lparr>dae := Schedule_Routes d2\<rparr>)" "Get_Node (Schedule_Routes d2) = Get_Node d"
      using d same_env_trans [of n ?n] by (auto simp: same_world_def)
    then show "res_post {} (\<lambda>n'. net_inv X n' \<and> get_leg n' = (get_leg n)(lid \<mapsto> ?lg) \<and> same_env n n' \<and>
        (c \<noteq> - 1 \<longrightarrow> Get_Node (dae n') = Get_Node (dae n)) \<and> Links n' = Links n)
        (bind_res (Add_to_changed_states Edge_Prot_Def (My_Address d) (leg_edge lg) d) (\<lambda>d2. Inr (n\<lparr>dae := Schedule_Routes d2\<rparr>)))"
      using d2 r d by simp
  qed
qed

section \<open>Disconnection\<close>

definition without_links :: "Link_Type list \<Rightarrow> Network_Leg \<Rightarrow> Network_Leg" where
  "without_links tys lg = lg\<lparr>leg_links := (\<lambda>ty. if ty \<in> set tys \<and> ty \<noteq> INTRUSION_TOL_LINK then None else leg_links lg ty)\<rparr>"

lemma without_links_Cons: "without_links tys (without_links [ty] lg) = without_links (ty # tys) lg"
  by (auto simp: without_links_def intro!: Network_Leg.equality)

lemma destroy_type_inv:
  assumes inv: "net_inv {lid} n" and lg: "get_leg n lid = Some lg"
  shows "res_post {} (\<lambda>n'. net_inv {lid} n' \<and> get_leg n' = (get_leg n)(lid \<mapsto> without_links [ty] lg) \<and> same_world n n') (destroy_type lid ty n)"
proof (cases "leg_links lg ty")
  case None
  then have "without_links [ty] lg = lg" by (auto simp: without_links_def intro!: Network_Leg.equality)
  then show ?thesis using None inv lg by (simp add: destroy_type_def fun_upd_idem)
next
  case (Some k)
  obtain lk where lk: "Links n k = Some lk" "lk_leg lk = lid" "lk_type lk = ty" using control_link_type [OF inv lg Some] by blast
  have g: "get_leg n (lk_leg lk) = Some lg" "lk_leg lk \<in> {lid}" using lk lg by simp_all
  show ?thesis
  proof (cases "ty = INTRUSION_TOL_LINK")
    case True
    then have "without_links [ty] lg = lg" by (auto simp: without_links_def intro!: Network_Leg.equality)
    then show ?thesis using True Some inv lg lk by (simp add: destroy_type_def Destroy_Link_def fun_upd_idem)
  next
    case False
    have "del_link ty lg = without_links [ty] lg" using False by (auto simp: del_link_def without_links_def intro!: Network_Leg.equality)
    moreover have "lk_type lk \<noteq> INTRUSION_TOL_LINK" using False lk by simp
    ultimately show ?thesis using Destroy_Link_inv [OF inv lk(1) g] lg Some lk by (simp add: destroy_type_def)
  qed
qed

lemma destroy_types_inv:
  assumes "net_inv {lid} n" "get_leg n lid = Some lg"
  shows "res_post {} (\<lambda>n'. net_inv {lid} n' \<and> get_leg n' = (get_leg n)(lid \<mapsto> without_links tys lg) \<and> same_world n n')
    (fold_res (destroy_type lid) tys n)"
  using assms
proof (induction tys arbitrary: n lg)
  case Nil
  then have "without_links [] lg = lg" by (auto simp: without_links_def intro!: Network_Leg.equality)
  then show ?case using Nil by (simp add: fun_upd_idem)
next
  case (Cons ty tys)
  obtain n1 where n1: "destroy_type lid ty n = Inr n1" "net_inv {lid} n1" "get_leg n1 = (get_leg n)(lid \<mapsto> without_links [ty] lg)" "same_world n n1"
    using destroy_type_inv [OF Cons.prems, of ty] by (auto simp: res_post_Inr)
  have "get_leg n1 lid = Some (without_links [ty] lg)" using n1(3) by simp
  note ih = Cons.IH [OF n1(2) this]
  show ?case using ih n1 same_world_trans [OF n1(4)] by (auto simp: res_post_Inr without_links_Cons fun_eq_iff)
qed

definition closed_leg :: "sp_time \<Rightarrow> Network_Leg \<Rightarrow> Network_Leg" where
  "closed_leg now lg = (without_links link_types lg)\<lparr>leg_status := DISCONNECTED_LEG, leg_cost := - 1, ctrl_link_id := 0,
     other_side_ctrl_link_id := 0, last_connected := now\<rparr>"

lemma in_link_types: "ty \<noteq> MAX_LINKS_4_EDGE \<Longrightarrow> ty \<in> set link_types"
  by (cases ty) (simp_all add: link_types_def)

lemma Disconnect_Network_Leg_inv:
  assumes inv: "net_ok n" and lg: "get_leg n lid = Some lg" "leg_status lg \<noteq> DISCONNECTED_LEG"
  shows "res_post {} (\<lambda>n'. net_ok n' \<and> get_leg n' = (get_leg n)(lid \<mapsto> closed_leg (wall_clock (dae n)) lg) \<and> same_env n n')
    (Disconnect_Network_Leg lid n)"
proof -
  let ?f = "\<lambda>l. l\<lparr>leg_status := DISCONNECTED_LEG, ctrl_link_id := 0, other_side_ctrl_link_id := 0, last_connected := wall_clock (dae n)\<rparr>"
  define n1 where "n1 = upd_leg lid ?f n"
  have n1: "net_inv {lid} n1" unfolding n1_def by (rule net_inv_upd_leg [OF inv lg(1)]) simp_all
  have g1: "get_leg n1 lid = Some (?f lg)" using lg(1) by (simp add: n1_def get_leg_upd_leg)
  obtain n2 where n2: "fold_res (destroy_type lid) link_types n1 = Inr n2" "net_inv {lid} n2"
      "get_leg n2 = (get_leg n1)(lid \<mapsto> without_links link_types (?f lg))" "same_world n1 n2"
    using destroy_types_inv [OF n1 g1, of link_types] by (auto simp: res_post_Inr)
  let ?lg2 = "without_links link_types (?f lg)"
  have g2: "get_leg n2 lid = Some ?lg2" using n2(3) by simp
  have "leg_cost lg \<noteq> - 1 \<longrightarrow> has_slot (Get_Node (dae n)) (snd (leg_edge lg))"
    using legs_okD(2) [OF net_invD(4) [OF inv] lg(1)] lg(2) by (cases "leg_status lg") (auto simp: status_ok_def)
  then have s: "leg_cost ?lg2 \<noteq> - 1 \<longrightarrow> has_slot (Get_Node (dae n2)) (snd (leg_edge ?lg2))"
    using n2(4) by (simp add: without_links_def same_world_def n1_def)
  have c: "- 1 = (- 1 :: int) \<longleftrightarrow> leg_status ?lg2 \<noteq> CONNECTED_LEG" by (simp add: without_links_def)
  have k: "control_link ?lg2 \<noteq> None \<or> - 1 = (- 1 :: int)" by simp
  obtain n3 where n3: "Network_Leg_Set_Cost lid (- 1) n2 = Inr n3" "net_inv {lid} n3" "get_leg n3 = (get_leg n2)(lid \<mapsto> ?lg2\<lparr>leg_cost := - 1\<rparr>)" "same_env n2 n3"
    using Network_Leg_Set_Cost_inv [OF n2(2) g2 _ c k s] by (auto simp: res_post_Inr)
  have lg3: "?lg2\<lparr>leg_cost := - 1\<rparr> = closed_leg (wall_clock (dae n)) lg" by (auto simp: closed_leg_def without_links_def intro!: Network_Leg.equality)
  have "net_ok n3"
  proof (rule net_inv_status [OF n3(2)])
    fix l assume "get_leg n3 lid = Some l"
    then have "l = closed_leg (wall_clock (dae n)) lg" using n3(3) lg3 by simp
    moreover have "leg_links l MAX_LINKS_4_EDGE = None"
      using control_link_type [OF n3(2) \<open>get_leg n3 lid = Some l\<close>, of MAX_LINKS_4_EDGE] by (cases "leg_links l MAX_LINKS_4_EDGE") (auto simp: prot_ok_def)
    ultimately have "leg_links l ty = None" if "ty \<noteq> INTRUSION_TOL_LINK" for ty
      using that in_link_types [of ty] by (cases "ty = MAX_LINKS_4_EDGE") (auto simp: closed_leg_def without_links_def)
    with \<open>l = closed_leg (wall_clock (dae n)) lg\<close> show "status_ok (Get_Node (dae n3)) l" by (simp add: status_ok_def closed_leg_def)
  qed
  moreover have "get_leg n3 = (get_leg n)(lid \<mapsto> closed_leg (wall_clock (dae n)) lg)"
    using n3(3) n2(3) lg3 lg(1) by (simp add: n1_def get_leg_upd_leg)
  moreover have "same_env n n1" by (simp add: n1_def)
  then have "same_env n n3" using same_env_trans same_world_env [OF n2(4)] n3(4) by blast
  ultimately show ?thesis using lg n2(1) n3(1) by (simp add: Disconnect_Network_Leg_def n1_def)
qed

section \<open>Creating interfaces and legs\<close>

lemma no_interface_at:
  assumes "net_inv X n" "Get_Interface_by_Addr n a = None"
  shows "stdhash_find (Known_Addresses n) a = None"
  using net_invD(8) [OF assms(1)] assms(2) unfolding Get_Interface_by_Addr_def ifs_ok_def by (fastforce split: option.splits)

lemma Create_Interface_inv:
  assumes inv: "net_ok n" and a: "Get_Interface_by_Addr n a = None" and nd: "Get_Node (dae n) ni \<noteq> None"
  shows "res_post {EXIT ''Create_Interface: Interface already exists'', EXIT ''Init_Recv_Channel: DL_init_channel failed''}
    (\<lambda>n'. net_ok n' \<and> dae n' = dae n \<and> Links n' = Links n \<and> rand_seq n' = rand_seq n \<and>
       (\<exists>r. Get_Interface n i = None \<and> Get_Interface n' = (Get_Interface n)(i \<mapsto> r) \<and> iid r = i \<and> owner r = ni \<and> net_addr r = a) \<and>
       Get_Interface_by_Addr n' a = Get_Interface n' i)
    (Create_Interface cf ni i a n)"
proof (cases "Get_Interface n i \<noteq> None \<or> ni = My_Address (dae n) \<and> \<not> dl_init_channel cf a")
  case True
  then show ?thesis using nd a by (auto simp: Create_Interface_def)
next
  case False
  note v = net_invD [OF inv] and f = no_interface_at [OF inv a]
  let ?r = "\<lparr>iid = i, net_addr = a, owner = ni\<rparr>"
  define n' where "n' = n\<lparr>Known_Interfaces := stdhash_insert (Known_Interfaces n) i ?r, Known_Addresses := stdhash_insert (Known_Addresses n) a i\<rparr>"
  have res: "Create_Interface cf ni i a n = Inr n'" using False nd a by (simp add: Create_Interface_def n'_def)
  have none: "Get_Interface n i = None" using False by simp
  have I: "Get_Interface n' = (Get_Interface n)(i \<mapsto> ?r)" using none by (auto simp: n'_def Get_Interface_def sh.find_insert)
  have A: "stdhash_find (Known_Addresses n') = (stdhash_find (Known_Addresses n))(a \<mapsto> i)" using f by (simp add: n'_def sh.find_insert_new)
  have na: "stdhash_find (Known_Addresses n) b \<noteq> Some i" for b using v(8) none unfolding ifs_ok_def by fastforce
  have rest: "dae n' = dae n" "Links n' = Links n" "get_leg n' = get_leg n" "rand_seq n' = rand_seq n" by (simp_all add: n'_def get_leg_def fun_eq_iff)
  have "ifs_ok (Get_Interface n') (Known_Addresses n') (Get_Node (dae n'))"
    using v(8) nd none na unfolding ifs_ok_def I A rest by (auto split: if_splits)
  moreover have "place_ok me (Get_Interface n') E l g" if "place_ok me (Get_Interface n) E l g" for me E l g
    using that none unfolding I place_ok_def by auto
  ultimately have "net_ok n'" using v rest unfolding net_inv_def legs_ok_def by simp
  moreover have "Get_Interface_by_Addr n' a = Get_Interface n' i" using A by (simp add: Get_Interface_by_Addr_def)
  ultimately show ?thesis using res rest I none by auto
qed

lemma new_edge_leg: "leg_of (new_edge t m l s d c b x) = None" "state_value (new_edge t m l s d c b x) = c" "is_edge (new_edge t m l s d c b x)"
  by (simp_all add: new_edge_def leg_of_def is_edge_def)

lemma Create_own_edge_inv:
  assumes inv: "net_inv X n" and e: "own_edge (dae n) t = None" "Get_Node (dae n) t \<noteq> None"
    and d: "Create_Edge (My_Address (dae n)) t (- 1) b x (dae n) = Inr d"
  shows "net_inv X (n\<lparr>dae := d\<rparr>) \<and> get_leg (n\<lparr>dae := d\<rparr>) = get_leg n \<and> same_env n (n\<lparr>dae := d\<rparr>) \<and>
    (\<exists>y. own_edge d t = Some y \<and> leg_of y = None \<and> is_edge y) \<and> (\<forall>u. u \<noteq> t \<longrightarrow> own_edge d u = own_edge (dae n) u)"
proof -
  let ?me = "My_Address (dae n)" and ?N = "Get_Node (dae n)"
  note v = net_invD [OF inv] and C = Create_Edge_Inr [OF d] and T = Create_Edge_tables [OF d net_invD(1) [OF inv]]
  obtain l where l: "All_Edges d = add_state (All_Edges (dae n)) (new_edge (wall_clock (dae n)) True l ?me t (- 1) b x)" using C(4) by auto
  let ?y = "new_edge (wall_clock (dae n)) True l ?me t (- 1) b x"
  have y: "source_addr ?y = ?me" "dest_addr ?y = t" by (simp_all add: new_edge_def)
  have E: "own_edge d u = (if u = t then Some ?y else own_edge (dae n) u)" for u
    using Find_State_add_state [of "All_Edges (dae n)" ?y ?me u] C(1,6) l y by (simp add: own_edge_def Get_Edge_def state_key_def)
  obtain nd where nd: "?N t = Some nd" using e(2) by blast
  have N: "Get_Node d = ?N(t \<mapsto> nd\<lparr>edge := Some (?me, t)\<rparr>)" using C(9) nd by (auto simp: Get_Node_def sh.find_modify)
  have rest: "Network_Legs d = Network_Legs (dae n)" "Neighbor_Nodes d = Neighbor_Nodes (dae n)" "Num_Neighbors d = Num_Neighbors (dae n)" "Time_queue d = queued n"
    using d by (auto simp: Create_Edge_def Link_State_LTS_inc_def Let_def split: if_splits)
  have leg: "get_leg (n\<lparr>dae := d\<rparr>) = get_leg n" using rest by (simp add: get_leg_def fun_eq_iff)
  have slot: "has_slot (?N(t \<mapsto> nd\<lparr>edge := Some (?me, t)\<rparr>)) i = has_slot ?N i" for i using nd by (auto simp: has_slot_def)
  have "place_ok ?me (Get_Interface n) (own_edge d) lid lg \<and> (lid \<in> X \<or> status_ok (Get_Node d) lg)" if "get_leg n lid = Some lg" for lid lg
  proof -
    note p = legs_okD [OF v(4) that]
    have "snd (leg_edge lg) \<noteq> t" using p(1) e(1) by (auto simp: place_ok_def)
    moreover have "status_ok (Get_Node d) lg = status_ok ?N lg" unfolding N by (cases "leg_status lg") (simp_all add: status_ok_def slot)
    ultimately show ?thesis using p E by (auto simp: place_ok_def)
  qed
  then have "legs_ok X ?me (get_leg n) (Get_Interface n) (own_edge d) (Get_Node d)" unfolding legs_ok_def by blast
  moreover have "edges_ok ?me (get_leg n) (own_edge d) (Get_Node d)"
  proof (rule edges_okI)
    fix u z assume "own_edge d u = Some z"
    then show "edge_leg ?me (get_leg n) u z \<and> (\<exists>nd. Get_Node d u = Some nd \<and> edge nd = Some (?me, u))"
      using E [of u] edges_okD(1) [OF v(5), of u z] N by (cases "u = t") (auto simp: edge_leg_def new_edge_leg)
  next
    fix u z p assume "Get_Node d u = Some z" "edge z = Some p"
    then show "p = (?me, u) \<and> own_edge d u \<noteq> None" using E [of u] edges_okD(2) [OF v(5), of u z p] N by (cases "u = t") auto
  qed
  moreover have "slots_ok (Get_Node d) (Neighbor_Nodes d) (Num_Neighbors d)"
  proof (rule slots_okI)
    show "length (Neighbor_Nodes d) = MAX_NEIGHBORS" "Num_Neighbors d \<le> MAX_NEIGHBORS" using slots_okD(1,2) [OF v(6)] rest by simp_all
    fix j i assume "j < MAX_NEIGHBORS" "Neighbor_Nodes d ! j = Some i"
    then show "j < Num_Neighbors d \<and> (\<exists>z. Get_Node d i = Some z \<and> neighbor_id z = int j)"
      using slots_okD(3) [OF v(6), of j i] rest N nd by auto
  next
    fix i z assume "Get_Node d i = Some z" "neighbor_id z \<noteq> - 1"
    then show "0 \<le> neighbor_id z \<and> neighbor_id z < int MAX_NEIGHBORS \<and> Neighbor_Nodes d ! nat (neighbor_id z) = Some i"
      using slots_okD(4) [OF v(6), of i] rest N nd by (cases "i = t") auto
  qed
  moreover have "ifs_ok (Get_Interface n) (Known_Addresses n) (Get_Node d)" using v(8) unfolding ifs_ok_def N by auto
  ultimately have "net_inv X (n\<lparr>dae := d\<rparr>)" using v C(6) T(1) rest leg by (simp add: net_inv_def)
  then show ?thesis using leg E C(5-7) new_edge_leg by (simp add: same_env_def)
qed

lemma set_leg_simps: "state_key (set_leg lid e) = state_key e" "state_value (set_leg lid e) = state_value e" "is_edge (set_leg lid e) = is_edge e"
  by (simp_all add: set_leg_def state_key_def is_edge_def split: state_fields.splits)

lemma leg_of_set_leg: "is_edge e \<Longrightarrow> leg_of (set_leg lid e) = Some lid"
  by (auto simp: is_edge_def set_leg_def leg_of_def split: state_fields.splits)

lemma add_leg_inv:
  assumes inv: "net_inv X n" and e: "own_edge (dae n) t = Some e" "leg_of e = None" "is_edge e" and t: "t \<noteq> My_Address (dae n)"
    and i: "Get_Interface n local = Some li" "owner li = My_Address (dae n)" "Get_Interface n remote = Some ri" "owner ri = t"
    and none: "get_leg n (local, remote) = None"
  defines "n' \<equiv> n\<lparr>dae := add_leg (local, remote) (My_Address (dae n), t) (dae n)\<rparr>"
  shows "net_inv X n'" "get_leg n' = (get_leg n)((local, remote) \<mapsto> new_leg (local, remote) (My_Address (dae n), t))" "same_world n n'"
proof -
  let ?me = "My_Address (dae n)" and ?lid = "(local, remote)"
  let ?d0 = "(dae n)\<lparr>Network_Legs := stdhash_insert (Network_Legs (dae n)) ?lid (new_leg ?lid (?me, t))\<rparr>"
  note v = net_invD [OF inv]
  have d: "dae n' = modify_state Edge_Prot_Def (?me, t) (set_leg ?lid) ?d0" by (simp add: n'_def add_leg_def)
  have "tables_ok ?d0" using v(1) by (subst tables_ok_fields [of _ "dae n"]) simp_all
  then have tab: "tables_ok (dae n')" unfolding d by (rule tables_ok_modify_state) (simp add: set_leg_simps)
  have rest: "My_Address (dae n') = ?me" "All_Nodes (dae n') = All_Nodes (dae n)" "Neighbor_Nodes (dae n') = Neighbor_Nodes (dae n)"
    "Num_Neighbors (dae n') = Num_Neighbors (dae n)" "queued n' = queued n" "wall_clock (dae n') = wall_clock (dae n)"
    "ARCH_ENDIAN (dae n') = ARCH_ENDIAN (dae n)" "Network_Legs (dae n') = Network_Legs ?d0"
    by (simp_all add: d modify_state_def)
  have node: "Get_Node (dae n') = Get_Node (dae n)" using rest by (simp add: Get_Node_def fun_eq_iff)
  have other: "Get_Interface n' = Get_Interface n" "Links n' = Links n" "Known_Addresses n' = Known_Addresses n" "rand_seq n' = rand_seq n"
    by (simp_all add: n'_def)
  show "same_world n n'" using rest node other by (simp add: same_world_def same_env_def)
  have E: "own_edge (dae n') u = (if u = t then Some (set_leg ?lid e) else own_edge (dae n) u)" for u
    using e(1) by (simp add: own_edge_def Get_Edge_def d modify_state_def Find_State_write_state)
  show leg: "get_leg n' = (get_leg n)(?lid \<mapsto> new_leg ?lid (?me, t))"
    using none rest(8) by (auto simp: get_leg_def sh.find_insert)
  have no_leg: "snd (leg_edge lg) \<noteq> t" if "get_leg n lid = Some lg" for lid lg
    using legs_okD(1) [OF v(4) that] e by (auto simp: place_ok_def)
  have "place_ok ?me (Get_Interface n) (own_edge (dae n')) lid lg \<and> (lid \<in> X \<or> status_ok (Get_Node (dae n)) lg)" if "get_leg n' lid = Some lg" for lid lg
  proof (cases "lid = ?lid")
    case True
    have "state_value e = - 1" using edges_okD(1) [OF v(5) e(1)] e(2) by (simp add: edge_leg_def)
    moreover have "lg = new_leg ?lid (?me, t)" using that True leg by simp
    ultimately show ?thesis using True E i t leg_of_set_leg [OF e(3)] by (simp add: place_ok_def new_leg_def status_ok_def set_leg_simps)
  next
    case False
    then have g: "get_leg n lid = Some lg" using that leg by simp
    then show ?thesis using legs_okD [OF v(4) g] no_leg [OF g] E by (auto simp: place_ok_def)
  qed
  then have "legs_ok X ?me (get_leg n') (Get_Interface n) (own_edge (dae n')) (Get_Node (dae n))" unfolding legs_ok_def by blast
  moreover have "edges_ok ?me (get_leg n') (own_edge (dae n')) (Get_Node (dae n))"
  proof (rule edges_okI)
    fix u z assume u: "own_edge (dae n') u = Some z"
    show "edge_leg ?me (get_leg n') u z \<and> (\<exists>nd. Get_Node (dae n) u = Some nd \<and> edge nd = Some (?me, u))"
    proof (cases "u = t")
      case True
      then show ?thesis using u E [of u] edges_okD(1) [OF v(5) e(1)] leg leg_of_set_leg [OF e(3)] e(3) by (auto simp: edge_leg_def new_leg_def set_leg_simps)
    next
      case False
      then have "own_edge (dae n) u = Some z" using u E [of u] by simp
      then show ?thesis using edges_okD(1) [OF v(5), of u z] leg none by (auto simp: edge_leg_def split: option.splits)
    qed
  next
    fix u z p assume "Get_Node (dae n) u = Some z" "edge z = Some p"
    then show "p = (?me, u) \<and> own_edge (dae n') u \<noteq> None" using E [of u] edges_okD(2) [OF v(5), of u z p] by (cases "u = t") auto
  qed
  moreover have "links_ok (Links n) (get_leg n')"
  proof (rule links_okI)
    fix k lk assume k: "Links n k = Some lk"
    then have "lk_leg lk \<noteq> ?lid" using links_okD(1) [OF v(3), of k lk] none by auto
    then show "lk_id lk = k \<and> 0 \<le> k \<and> k < int MAX_LINKS \<and> prot_ok lk \<and> (\<exists>lg. get_leg n' (lk_leg lk) = Some lg \<and> leg_links lg (lk_type lk) = Some k)"
      using links_okD(1) [OF v(3) k] leg by simp
  next
    fix lid lg ty k assume "get_leg n' lid = Some lg" "leg_links lg ty = Some k"
    then show "\<exists>lk. Links n k = Some lk \<and> lk_leg lk = lid \<and> lk_type lk = ty"
      using links_okD(2) [OF v(3), of lid lg ty k] leg by (auto simp: new_leg_def split: if_splits)
  qed
  moreover have "unique_keys (Network_Legs (dae n'))" using v(2) none rest(8) by (simp add: sh.ok_insert get_leg_def)
  ultimately show "net_inv X n'" using v tab rest node other by (simp add: net_inv_def)
qed

lemma Create_Node_inv:
  assumes inv: "net_inv X n" and d: "get_or_create_node i (dae n) = Inr d"
  shows "net_inv X (n\<lparr>dae := d\<rparr>)" "get_leg (n\<lparr>dae := d\<rparr>) = get_leg n" "same_env n (n\<lparr>dae := d\<rparr>)" "Get_Node d i \<noteq> None"
    "own_edge d = own_edge (dae n)"
proof -
  note v = net_invD [OF inv]
  let ?N = "Get_Node (dae n)"
  have rest: "My_Address d = My_Address (dae n)" "Network_Legs d = Network_Legs (dae n)" "Neighbor_Nodes d = Neighbor_Nodes (dae n)"
    "Num_Neighbors d = Num_Neighbors (dae n)" "Time_queue d = queued n" "wall_clock d = wall_clock (dae n)"
    "ARCH_ENDIAN d = ARCH_ENDIAN (dae n)" "All_Edges d = All_Edges (dae n)"
    using d by (auto simp: get_or_create_node_def Create_Node_def Let_def split: if_splits)
  have N: "Get_Node d = (if ?N i = None then ?N(i \<mapsto> new_node i) else ?N)"
    using d Get_Node_Create_Node [of i "dae n" d] by (auto simp: get_or_create_node_def split: if_splits)
  have new: "edge (new_node i) = None" "neighbor_id (new_node i) = - 1" by (simp_all add: new_node_def)
  have old: "Get_Node d j = Some x" if "?N j = Some x" for j x using that N by auto
  show leg: "get_leg (n\<lparr>dae := d\<rparr>) = get_leg n" using rest by (simp add: get_leg_def fun_eq_iff)
  show "same_env n (n\<lparr>dae := d\<rparr>)" using rest by (simp add: same_env_def)
  show "Get_Node d i \<noteq> None" using N by auto
  show edge: "own_edge d = own_edge (dae n)" using rest by (simp add: own_edge_def Get_Edge_def fun_eq_iff)
  have "has_slot ?N j \<Longrightarrow> has_slot (Get_Node d) j" for j using old by (auto simp: has_slot_def)
  then have "legs_ok X (My_Address (dae n)) (get_leg n) (Get_Interface n) (own_edge (dae n)) (Get_Node d)"
    by (intro legs_ok_slots [OF v(4)]) (auto intro: status_ok_mono)
  moreover have "edges_ok (My_Address (dae n)) (get_leg n) (own_edge (dae n)) (Get_Node d)"
  proof (rule edges_okI)
    fix t e assume "own_edge (dae n) t = Some e"
    then show "edge_leg (My_Address (dae n)) (get_leg n) t e \<and> (\<exists>nd. Get_Node d t = Some nd \<and> edge nd = Some (My_Address (dae n), t))"
      using edges_okD(1) [OF v(5), of t e] old by blast
  next
    fix t x p assume "Get_Node d t = Some x" "edge x = Some p"
    then show "p = (My_Address (dae n), t) \<and> own_edge (dae n) t \<noteq> None"
      using edges_okD(2) [OF v(5), of t x p] N new by (auto split: if_splits)
  qed
  moreover have "slots_ok (Get_Node d) (Neighbor_Nodes d) (Num_Neighbors d)"
  proof (rule slots_okI)
    show "length (Neighbor_Nodes d) = MAX_NEIGHBORS" "Num_Neighbors d \<le> MAX_NEIGHBORS" using slots_okD(1,2) [OF v(6)] rest by simp_all
    fix j l assume "j < MAX_NEIGHBORS" "Neighbor_Nodes d ! j = Some l"
    then show "j < Num_Neighbors d \<and> (\<exists>z. Get_Node d l = Some z \<and> neighbor_id z = int j)"
      using slots_okD(3) [OF v(6), of j l] rest old by auto
  next
    fix l z assume "Get_Node d l = Some z" "neighbor_id z \<noteq> - 1"
    then show "0 \<le> neighbor_id z \<and> neighbor_id z < int MAX_NEIGHBORS \<and> Neighbor_Nodes d ! nat (neighbor_id z) = Some l"
      using slots_okD(4) [OF v(6), of l z] rest N new by (auto split: if_splits)
  qed
  moreover have "ifs_ok (Get_Interface n) (Known_Addresses n) (Get_Node d)" using v(8) old unfolding ifs_ok_def by fastforce
  moreover have "tables_ok d" using get_or_create_node_Inr(1) [OF d v(1)] .
  ultimately show "net_inv X (n\<lparr>dae := d\<rparr>)" using v rest leg edge by (simp add: net_inv_def)
qed

abbreviation remote_is_local :: failure where "remote_is_local \<equiv> EXIT ''Create_Network_Leg: remote interface id is local''"
abbreviation edge_has_leg :: failure where "edge_has_leg \<equiv> EXIT ''Create_Network_Leg: edge already has a network leg''"

lemma Create_Network_Leg_inv:
  assumes inv: "net_inv X n" and i: "Get_Interface n local = Some li" "owner li = My_Address (dae n)" "Get_Interface n remote = Some ri"
    and none: "get_leg n (local, remote) = None"
  shows "res_post {remote_is_local, edge_has_leg} (\<lambda>n'. net_inv X n' \<and> same_env n n' \<and>
    get_leg n' = (get_leg n)((local, remote) \<mapsto> new_leg (local, remote) (My_Address (dae n), owner ri))) (Create_Network_Leg local remote n)"
proof (cases "owner ri = My_Address (dae n)")
  case True
  then show ?thesis using i by (simp add: Create_Network_Leg_def)
next
  case False
  let ?me = "My_Address (dae n)" and ?t = "owner ri"
  note v = net_invD [OF inv]
  have node: "Get_Node (dae n) ?t \<noteq> None" using v(8) i(3) unfolding ifs_ok_def by blast
  have me: "Get_Node (dae n) ?me \<noteq> None" using tables_okD(1) [OF v(1)] by (auto simp: nodes_ok_def Get_Node_def stdhash_find_None)
  obtain d where d: "get_or_create_edge ?me ?t (dae n) = Inr d" "net_inv X (n\<lparr>dae := d\<rparr>)" "get_leg (n\<lparr>dae := d\<rparr>) = get_leg n" "same_env n (n\<lparr>dae := d\<rparr>)"
      "own_edge d ?t \<noteq> None"
  proof (cases "Get_Edge (dae n) ?me ?t")
    case None
    then obtain d where d: "Create_Edge ?me ?t (- 1) (- 1) USHRT_MAX (dae n) = Inr d" using node me by (auto simp: Create_Edge_def Let_def Link_State_LTS_inc_def)
    have "own_edge (dae n) ?t = None" using None by (simp add: own_edge_def)
    from Create_own_edge_inv [OF inv this node d] show thesis using None d by (auto intro!: that simp: get_or_create_edge_def)
  next
    case (Some e)
    then show thesis using inv by (auto intro!: that [of "dae n"] simp: get_or_create_edge_def own_edge_def)
  qed
  obtain e where e: "own_edge d ?t = Some e" using d(5) by blast
  have mine: "My_Address d = ?me" using d(4) by (simp add: same_env_def)
  show ?thesis
  proof (cases "leg_of e")
    case None
    have "is_edge e" using edges_okD(1) [OF net_invD(5) [OF d(2)], of ?t e] e by (simp add: edge_leg_def)
    note A = add_leg_inv [OF d(2), of ?t e local li remote ri, simplified, OF e None this]
    have "Create_Network_Leg local remote n = Inr (n\<lparr>dae := add_leg (local, remote) (?me, ?t) d\<rparr>)"
      using i False none d(1) e None mine by (simp add: Create_Network_Leg_def Get_Network_Leg_def own_edge_def)
    then show ?thesis using A False i none d(3,4) mine same_env_trans [OF d(4)] by (simp add: same_world_env)
  next
    case (Some l)
    then show ?thesis using i False none d(1) e mine by (simp add: Create_Network_Leg_def Get_Network_Leg_def own_edge_def)
  qed
qed

section \<open>Updating the cost\<close>

abbreviation cost_mismatch :: failure where "cost_mismatch \<equiv> EXIT ''Network_Leg_Set_Cost: New cost and leg status mismatch''"

text \<open>The values that the measured cost may have decide whether the update can fail.\<close>

lemma Network_Leg_Update_Cost_within:
  assumes inv: "net_ok n" and lg: "get_leg n lid = Some lg" "leg_status lg = CONNECTED_LEG"
    and C: "\<And>base c co. measured_cost cf (wall_clock (dae n)) base (leg_cost lg) c = Some co \<Longrightarrow> co \<in> C"
  shows "res_post (if - 1 \<in> C then {cost_mismatch} else {})
    (\<lambda>(ret, n'). net_ok n' \<and> (\<exists>c. (c = leg_cost lg \<or> c \<in> C) \<and> get_leg n' = (get_leg n)(lid \<mapsto> lg\<lparr>leg_cost := c\<rparr>)) \<and> same_world n n' \<and> Links n' = Links n)
    (Network_Leg_Update_Cost cf lid n)"
proof -
  note p = legs_okD [OF net_invD(4) [OF inv] lg(1), simplified]
  have st: "leg_cost lg \<noteq> - 1" "has_slot (Get_Node (dae n)) (snd (leg_edge lg))" "control_link lg \<noteq> None" using p(2) lg(2) by (auto simp: status_ok_def)
  obtain k where k: "control_link lg = Some k" using st(3) by blast
  obtain lk c where lk: "Links n k = Some lk" "c_data_of lk = Some c" using control_link_type [OF inv lg(1) k] by (auto simp: prot_ok_def)
  obtain e where e: "Find_State (All_Edges (dae n)) (fst (leg_edge lg)) (snd (leg_edge lg)) = Some e"
    using p(1) by (auto simp: place_ok_def own_edge_def Get_Edge_def)
  have u: "Network_Leg_Update_Cost cf lid n = (case measured_cost cf (wall_clock (dae n)) (base_cost_of e) (leg_cost lg) c of
      None \<Rightarrow> Inr (- 1, n) | Some co \<Rightarrow> bind_res (Network_Leg_Set_Cost lid co n) (\<lambda>n1. Inr (1, n1)))"
    using lg k lk e by (simp add: Network_Leg_Update_Cost_def leg_control_data_def)
  show ?thesis
  proof (cases "measured_cost cf (wall_clock (dae n)) (base_cost_of e) (leg_cost lg) c")
    case None
    have "get_leg n = (get_leg n)(lid \<mapsto> lg\<lparr>leg_cost := leg_cost lg\<rparr>)" using lg(1) by (simp add: fun_upd_idem)
    then have "\<exists>c. (c = leg_cost lg \<or> c \<in> C) \<and> get_leg n = (get_leg n)(lid \<mapsto> lg\<lparr>leg_cost := c\<rparr>)" by blast
    then show ?thesis using u None inv by simp
  next
    case (Some co)
    note co = C [OF this]
    show ?thesis
    proof (cases "co = - 1")
      case True
      then show ?thesis using u Some lg co by (simp add: Network_Leg_Set_Cost_def)
    next
      case False
      have i: "net_inv {lid} n" using inv unfolding net_inv_def legs_ok_def by blast
      obtain n' where n': "Network_Leg_Set_Cost lid co n = Inr n'" "net_inv {lid} n'" "get_leg n' = (get_leg n)(lid \<mapsto> lg\<lparr>leg_cost := co\<rparr>)"
          "same_env n n'" "Get_Node (dae n') = Get_Node (dae n)" "Links n' = Links n"
        using Network_Leg_Set_Cost_inv [OF i lg(1), of co] False lg(2) st by (auto simp: res_post_Inr)
      have "net_ok n'" by (rule net_inv_status [OF n'(2)]) (use n'(3,5) p(2) lg(2) False in \<open>auto simp: status_ok_def\<close>)
      moreover have "\<exists>c. (c = leg_cost lg \<or> c \<in> C) \<and> get_leg n' = (get_leg n)(lid \<mapsto> lg\<lparr>leg_cost := c\<rparr>)" using n'(3) co by blast
      ultimately show ?thesis using u Some n' by (simp add: same_world_def)
    qed
  qed
qed

lemma Network_Leg_Update_Cost_inv:
  assumes "net_ok n" "get_leg n lid = Some lg" "leg_status lg = CONNECTED_LEG"
  shows "res_post {cost_mismatch} (\<lambda>(ret, n'). net_ok n' \<and> (\<exists>c. get_leg n' = (get_leg n)(lid \<mapsto> lg\<lparr>leg_cost := c\<rparr>)) \<and> same_world n n' \<and> Links n' = Links n)
    (Network_Leg_Update_Cost cf lid n)"
  by (rule res_post_mono [OF Network_Leg_Update_Cost_within [OF assms, of cf UNIV]]) auto

end
