(* ===== verification/Hello_Inv.thy ===== *)
theory Hello_Inv
  imports Legs_Inv
begin

text \<open>
  Every handler of the hello protocol keeps the invariant, and the only ways in which it can end the
  daemon are the listed ones.
\<close>

section \<open>Writes to a link\<close>

lemma net_inv_upd_link:
  assumes inv: "net_inv X n"
    and f: "\<And>lk. Links n k = Some lk \<Longrightarrow> lk_id (f lk) = lk_id lk \<and> lk_type (f lk) = lk_type lk \<and> lk_leg (f lk) = lk_leg lk \<and> (prot_ok lk \<longrightarrow> prot_ok (f lk))"
  shows "net_inv X (upd_link k f n)"
proof -
  note v = net_invD [OF inv]
  let ?L = "(Links n)(k := map_option f (Links n k))"
  have link: "?L j = Some lk \<Longrightarrow> \<exists>x. Links n j = Some x \<and> lk_id lk = lk_id x \<and> lk_type lk = lk_type x \<and> lk_leg lk = lk_leg x \<and> (prot_ok x \<longrightarrow> prot_ok lk)"
    "Links n j = Some x \<Longrightarrow> \<exists>lk. ?L j = Some lk \<and> lk_type lk = lk_type x \<and> lk_leg lk = lk_leg x" for j lk x
    using f by (auto split: if_splits)
  have "links_ok ?L (get_leg n)"
  proof (rule links_okI)
    fix j lk assume "?L j = Some lk"
    from link(1) [OF this] obtain x where x: "Links n j = Some x" "lk_id lk = lk_id x" "lk_type lk = lk_type x" "lk_leg lk = lk_leg x" "prot_ok x \<longrightarrow> prot_ok lk" by blast
    then show "lk_id lk = j \<and> 0 \<le> j \<and> j < int MAX_LINKS \<and> prot_ok lk \<and> (\<exists>lg. get_leg n (lk_leg lk) = Some lg \<and> leg_links lg (lk_type lk) = Some j)"
      using links_okD(1) [OF v(3) x(1)] by simp
  next
    fix lid lg ty j assume "get_leg n lid = Some lg" "leg_links lg ty = Some j"
    from links_okD(2) [OF v(3) this] show "\<exists>lk. ?L j = Some lk \<and> lk_leg lk = lid \<and> lk_type lk = ty" using link(2) by metis
  qed
  moreover have "timer_ok ?L e" if "timer_ok (Links n) e" for e
    using that link(2) [of "te_code e"] unfolding timer_ok_def by (auto split: option.splits)
  then have "timers_ok ?L (queued n)" using v(7) by (simp add: timers_ok_def)
  ultimately show ?thesis using v by (simp add: net_inv_def)
qed

lemma control_link_atD:
  assumes "control_link_at n k = Some (lk, c)"
  shows "Links n k = Some lk" "lk_type lk = CONTROL_LINK" "c_data_of lk = Some c" "lk_prot_data lk = Control_Prot c"
  using assms by (auto simp: control_link_at_def c_data_of_def split: option.splits if_splits prot_data.splits)

lemma net_inv_upd_control: "net_inv X n \<Longrightarrow> net_inv X (upd_control k f n)"
  unfolding upd_control_def
  by (rule net_inv_upd_link) (auto simp: prot_ok_def c_data_of_def split: prot_data.splits Link_Type.splits)

lemma upd_control_simps [simp]:
  "get_leg (upd_control k f n) = get_leg n" "same_world n' (upd_control k f n) = same_world n' n" "dae (upd_control k f n) = dae n"
  "same_env n' (upd_control k f n) = same_env n' n" "Get_Interface (upd_control k f n) = Get_Interface n"
  by (simp_all add: upd_control_def)

lemma net_inv_set_connected: "net_inv X n \<Longrightarrow> net_inv X (set_connected k n)"
  unfolding set_connected_def
  by (rule net_inv_upd_link) (auto simp: prot_ok_def c_data_of_def split: Link_Type.splits)

lemma set_connected_simps [simp]:
  "get_leg (set_connected k n) = get_leg n" "same_world n' (set_connected k n) = same_world n' n" "dae (set_connected k n) = dae n"
  by (simp_all add: set_connected_def)

text \<open>The control link of a leg.\<close>

definition controls :: "'b net \<Rightarrow> int \<Rightarrow> Network_Leg_ID \<Rightarrow> Network_Leg \<Rightarrow> bool" where
  "controls n k lid lg \<longleftrightarrow> get_leg n lid = Some lg \<and> control_link lg = Some k"

lemma controlsE:
  assumes "net_inv X n" "controls n k lid lg"
  obtains lk c where "control_link_at n k = Some (lk, c)" "lk_leg lk = lid" "Links n k = Some lk" "lk_r_data lk \<noteq> None" "lk_type lk = CONTROL_LINK"
  using control_link_type [OF assms(1)] assms(2) by (fastforce simp: controls_def control_link_at_def prot_ok_def)

lemma control_link_leg:
  assumes "net_inv X n" "Links n k = Some lk" "lk_type lk = CONTROL_LINK"
  obtains lg where "controls n k (lk_leg lk) lg"
  using links_okD(1) [OF net_invD(3) [OF assms(1)] assms(2)] assms(3) by (auto simp: controls_def)

lemma controls_status:
  assumes "net_ok n" "controls n k lid lg"
  shows "leg_status lg \<noteq> DISCONNECTED_LEG"
  using legs_okD(2) [OF net_invD(4) [OF assms(1)], of lid lg] assms(2) by (auto simp: controls_def status_ok_def)

section \<open>Sending\<close>

lemma Net_Send_Hello_inv:
  assumes inv: "net_inv X n" and k: "controls n k lid lg"
  shows "res_post {} (\<lambda>n'. net_inv X n' \<and> get_leg n' = get_leg n \<and> same_world n n' \<and> queued n' = queued n) (Net_Send_Hello cf k req n)"
proof -
  obtain lk c where lk: "control_link_at n k = Some (lk, c)" "lk_leg lk = lid" by (rule controlsE [OF inv k])
  have g: "get_leg n (lk_leg lk) = Some lg" using k lk by (simp add: controls_def)
  have "net_inv X (upd_link k (put_c_data c') n)" for c'
    by (rule net_inv_upd_link [OF inv]) (use control_link_atD [OF lk(1)] in \<open>auto simp: put_c_data_def prot_ok_def c_data_of_def\<close>)
  then show ?thesis using lk g
    by (auto simp: Net_Send_Hello_def Set_Loss_SeqNo_def Compute_Loss_Rate_def Let_def)
qed

lemma clean_leg_history_inv:
  assumes "net_inv X n"
  shows "net_inv X (clean_leg_history lg n)" "get_leg (clean_leg_history lg n) = get_leg n" "same_world n (clean_leg_history lg n)"
    "\<And>k. map_option lk_type (Links (clean_leg_history lg n) k) = map_option lk_type (Links n k)"
proof -
  show "net_inv X (clean_leg_history lg n)"
  proof (cases "leg_links lg REALTIME_UDP_LINK")
    case (Some k)
    then show ?thesis unfolding clean_leg_history_def option.case
      by (auto intro!: net_inv_upd_link [OF assms] simp: prot_ok_def c_data_of_def split: prot_data.splits Link_Type.splits)
  qed (simp add: clean_leg_history_def assms)
  show "get_leg (clean_leg_history lg n) = get_leg n" "same_world n (clean_leg_history lg n)"
    by (simp_all add: clean_leg_history_def split: option.splits)
  show "map_option lk_type (Links (clean_leg_history lg n) k) = map_option lk_type (Links n k)" for k
    by (auto simp: clean_leg_history_def option.map_comp comp_def split: option.splits prot_data.splits intro!: option.map_cong)
qed

lemma net_inv_control_timer:
  assumes "net_inv X n" "controls n k lid lg" "timer_types f = Some T" "CONTROL_LINK \<in> T" "f \<noteq> Net_Send_State_All_ev"
  shows "net_inv X (net_queue f k None t n)"
proof -
  obtain lk where "Links n k = Some lk" "lk_type lk = CONTROL_LINK" by (rule controlsE [OF assms(1,2)])
  then show ?thesis using assms by (auto intro!: net_inv_queue timer_ok_new)
qed

lemma net_inv_free_timer: "net_inv X n \<Longrightarrow> timer_types f = None \<Longrightarrow> net_inv X (net_queue f k a t n)"
  by (auto intro!: net_inv_queue simp: timer_ok_def)

lemma controls_frame [simp]:
  "controls (net_queue f c a t n) k lid lg = controls n k lid lg" "controls (net_dequeue f c a n) k lid lg = controls n k lid lg"
  "controls (upd_control j g n) k lid lg = controls n k lid lg" "controls (upd_link j h n) k lid lg = controls n k lid lg"
  "controls (set_connected j n) k lid lg = controls n k lid lg" "controls (n\<lparr>rand_pos := p\<rparr>) k lid lg = controls n k lid lg"
  by (simp_all add: controls_def)

definition hello_sent :: "Network_Leg \<Rightarrow> Network_Leg" where
  "hello_sent l = l\<lparr>hellos_out := int16_of (hellos_out l + 1)\<rparr>"

lemma status_ok_cong:
  "leg_status l = leg_status lg \<Longrightarrow> leg_links l = leg_links lg \<Longrightarrow> leg_cost l = leg_cost lg \<Longrightarrow> leg_edge l = leg_edge lg \<Longrightarrow> status_ok N l = status_ok N lg"
  by (cases "leg_status lg") (simp_all add: status_ok_def)

text \<open>A write to a leg that the invariant does not see.\<close>

lemma net_ok_touch_leg:
  assumes inv: "net_ok n" and lg: "get_leg n lid = Some lg"
    and f: "leg_id (f lg) = leg_id lg" "leg_edge (f lg) = leg_edge lg" "leg_links (f lg) = leg_links lg" "leg_cost (f lg) = leg_cost lg"
      "leg_status (f lg) = leg_status lg"
  shows "net_ok (upd_leg lid f n)"
proof -
  have "status_ok (Get_Node (dae n)) (f lg)"
    using status_ok_cong [of "f lg" lg] f legs_okD(2) [OF net_invD(4) [OF inv] lg] by simp
  then show ?thesis using net_inv_upd_leg [OF inv lg, of "{}"] f by simp
qed

lemma Send_Hello_inv:
  assumes inv: "net_ok n" and k: "controls n k lid lg"
  shows "res_post {} (\<lambda>n'. net_ok n' \<and> get_leg n' = (get_leg n)(lid \<mapsto> hello_sent lg) \<and> same_world n n' \<and>
    (hellos_out lg = DEAD_LINK_CNT \<longrightarrow> E_in_queue Dead_Leg_ev k None (queued n'))) (Send_Hello cf k n)"
proof -
  obtain lk c where lk: "control_link_at n k = Some (lk, c)" "lk_leg lk = lid" by (rule controlsE [OF inv k])
  have g: "get_leg n lid = Some lg" using k by (simp add: controls_def)
  define n1 where "n1 = (if hellos_out lg = hello_cnt_start cf then net_queue Send_Hello_Request_Cnt_ev k None (cnt_timeout cf) n else n)"
  define n2 where "n2 = (if hellos_out lg = DEAD_LINK_CNT then net_queue Dead_Leg_ev k None (dead_timeout cf) n1 else n1)"
  have n1: "net_ok n1" "get_leg n1 = get_leg n" "same_world n n1"
    using inv net_inv_control_timer [OF inv k, of Send_Hello_Request_Cnt_ev] by (auto simp: n1_def timer_types_def)
  have n2: "net_ok n2" "get_leg n2 = get_leg n" "same_world n n2"
    using n1 by (auto simp: n2_def intro!: net_inv_free_timer simp: timer_types_def)
  have "queue_ok (queued n1)" using net_invD(7) [OF n1(1)] by (simp add: timers_ok_def)
  then have d2: "hellos_out lg = DEAD_LINK_CNT \<Longrightarrow> E_in_queue Dead_Leg_ev k None (queued n2)"
    by (auto simp: n2_def net_queue_as_upd E_in_queue_iff set_E_queue te_key_def)
  have "controls n2 k lid lg" using k n2(2) by (simp add: controls_def)
  then obtain n3 where n3: "Net_Send_Hello cf k False n2 = Inr n3" "net_ok n3" "get_leg n3 = get_leg n" "same_world n n3" "queued n3 = queued n2"
    using Net_Send_Hello_inv [OF n2(1), of k lid lg cf False] n2(2) same_world_trans [OF n2(3)] by (auto simp: res_post_Inr)
  let ?n4 = "upd_leg lid (\<lambda>l. l\<lparr>hellos_out := int16_of (hellos_out l + 1)\<rparr>) n3"
  have n4: "net_ok ?n4" "get_leg ?n4 = (get_leg n)(lid \<mapsto> hello_sent lg)" "same_world n ?n4"
    using net_ok_touch_leg [OF n3(2), of lid lg] n3 g by (auto simp: get_leg_upd_leg hello_sent_def)
  note h = clean_leg_history_inv [OF n4(1), of lg]
  let ?n5 = "clean_leg_history lg ?n4"
  have "controls ?n5 k lid (hello_sent lg)" using h(2) n4(2) k by (simp add: controls_def hello_sent_def)
  then have "net_ok (net_queue Send_Hello_ev k None (hello_timeout cf) ?n5)"
    by (intro net_inv_control_timer [OF h(1)]) (auto simp: timer_types_def)
  moreover have "queued ?n5 = queued n2" "queue_ok (queued ?n5)"
    using n3(5) net_invD(7) [OF h(1)] by (simp_all add: clean_leg_history_def timers_ok_def split: option.splits)
  then have "hellos_out lg = DEAD_LINK_CNT \<Longrightarrow> E_in_queue Dead_Leg_ev k None (queued (net_queue Send_Hello_ev k None (hello_timeout cf) ?n5))"
    using d2 by (auto simp: net_queue_as_upd E_in_queue_iff set_E_queue te_key_def)
  moreover have "Send_Hello cf k n = Inr (net_queue Send_Hello_ev k None (hello_timeout cf) ?n5)"
    using lk g n3(1) by (simp add: Send_Hello_def Let_def n1_def [symmetric] n2_def [symmetric])
  ultimately show ?thesis using h n4 same_world_trans [OF n4(3)] by simp
qed

lemma Send_Hello_Request_Cnt_inv:
  assumes inv: "net_ok n" and k: "controls n k lid lg"
  shows "res_post {} (\<lambda>n'. net_ok n' \<and> get_leg n' = get_leg n \<and> same_world n n') (Send_Hello_Request_Cnt cf k n)"
proof -
  obtain lk c where lk: "control_link_at n k = Some (lk, c)" by (rule controlsE [OF inv k])
  obtain n1 where n1: "Net_Send_Hello cf k True n = Inr n1" "net_ok n1" "get_leg n1 = get_leg n" "same_world n n1"
    using Net_Send_Hello_inv [OF inv k, of cf True] by (auto simp: res_post_Inr)
  have "controls n1 k lid lg" using k n1(3) by (simp add: controls_def)
  then have "net_ok (net_queue Send_Hello_Request_Cnt_ev k None (cnt_timeout cf) n1)"
    by (intro net_inv_control_timer [OF n1(2)]) (auto simp: timer_types_def)
  then show ?thesis using lk n1 by (simp add: Send_Hello_Request_Cnt_def)
qed

lemma Dead_Leg_inv:
  assumes inv: "net_ok n"
  shows "res_post {} (\<lambda>n'. net_ok n' \<and> same_env n n' \<and> (n' = n \<or> (\<exists>lid lg. controls n k lid lg \<and> DEAD_LINK_CNT \<le> hellos_out lg \<and>
    get_leg n' = (get_leg n)(lid \<mapsto> closed_leg (wall_clock (dae n)) lg)))) (Dead_Leg k n)"
proof (cases "Links n k")
  case None
  then show ?thesis using inv by (simp add: Dead_Leg_def)
next
  case (Some lk)
  show ?thesis
  proof (cases "lk_type lk = CONTROL_LINK")
    case True
    obtain lg where c: "controls n k (lk_leg lk) lg" by (rule control_link_leg [OF inv Some True])
    then have g: "get_leg n (lk_leg lk) = Some lg" by (simp add: controls_def)
    show ?thesis
    proof (cases "hellos_out lg < DEAD_LINK_CNT")
      case False
      obtain n' where n': "Disconnect_Network_Leg (lk_leg lk) n = Inr n'" "net_ok n'" "same_env n n'"
          "get_leg n' = (get_leg n)(lk_leg lk \<mapsto> closed_leg (wall_clock (dae n)) lg)"
        using Disconnect_Network_Leg_inv [OF inv g controls_status [OF inv c]] by (auto simp: res_post_Inr)
      have "\<exists>lid lg. controls n k lid lg \<and> DEAD_LINK_CNT \<le> hellos_out lg \<and> get_leg n' = (get_leg n)(lid \<mapsto> closed_leg (wall_clock (dae n)) lg)"
        using c n'(4) False by (intro exI [of _ "lk_leg lk"] exI [of _ lg]) simp
      with n'(1-3) False Some True g show ?thesis by (simp add: Dead_Leg_def)
    qed (use inv Some True g in \<open>simp add: Dead_Leg_def\<close>)
  qed (use Some inv in \<open>simp add: Dead_Leg_def\<close>)
qed

lemma ping_leg_inv:
  assumes "net_ok n" "get_leg n lid = Some lg"
  shows "res_post {} (\<lambda>n'. net_ok n' \<and> get_leg n' = get_leg n \<and> dae n' = dae n \<and> same_world n n') (ping_leg cf lg n)"
proof -
  have "leg_id lg = lid" "Get_Interface n (snd lid) \<noteq> None"
    using legs_okD(1) [OF net_invD(4) [OF assms(1)] assms(2)] by (auto simp: place_ok_def)
  then show ?thesis using assms by (auto simp: ping_leg_def Net_Send_Hello_Ping_def Let_def)
qed

lemma Send_Hello_Ping_inv:
  assumes inv: "net_ok n"
  shows "res_post {} (\<lambda>n'. net_ok n' \<and> get_leg n' = get_leg n \<and> same_world n n') (Send_Hello_Ping cf n)"
proof -
  have vals: "\<exists>lid. get_leg n lid = Some lg" if lg: "lg \<in> set (stdhash_vals (Network_Legs (dae n)))" for lg
  proof -
    obtain lid where "(lid, lg) \<in> set (Network_Legs (dae n))" using lg by (auto simp: stdhash_vals_def)
    then show ?thesis using stdhash_find_unique [OF net_invD(2) [OF inv]] unfolding get_leg_def by blast
  qed
  have "res_post {} (\<lambda>n'. net_ok n' \<and> get_leg n' = get_leg n \<and> dae n' = dae n \<and> same_world n n') (fold_res (ping_leg cf) lgs m)"
    if "\<forall>lg \<in> set lgs. \<exists>lid. get_leg n lid = Some lg" "net_ok m" "get_leg m = get_leg n" "dae m = dae n" "same_world n m" for lgs m
    using that
  proof (induction lgs arbitrary: m)
    case (Cons lg lgs)
    then obtain lid where "get_leg m lid = Some lg" by auto
    then obtain m' where "ping_leg cf lg m = Inr m'" "net_ok m'" "get_leg m' = get_leg m" "dae m' = dae m" "same_world m m'"
      using ping_leg_inv [OF Cons.prems(2), of lid lg cf] by (auto simp: res_post_Inr)
    then show ?case using Cons.IH [of m'] Cons.prems same_world_trans [of n m m'] by auto
  qed simp
  then obtain n1 where "fold_res (ping_leg cf) (stdhash_vals (Network_Legs (dae n))) n = Inr n1" "net_ok n1" "get_leg n1 = get_leg n" "same_world n n1"
    using inv vals by (fastforce simp: res_post_Inr)
  then show ?thesis by (auto simp: Send_Hello_Ping_def intro!: net_inv_free_timer simp: timer_types_def)
qed

section \<open>Connecting a leg\<close>

lemma Initial_Cost: "Network_Leg_Initial_Cost cf \<noteq> - 1"
  by (cases "Route_Weight_used cf") (simp_all add: Network_Leg_Initial_Cost_def MAX_LATENCY_def)

text \<open>A net in which a leg is being connected: the leg is \<open>l\<close>, the rest is as in \<open>n\<close>.\<close>

definition stage :: "'b net \<Rightarrow> Network_Leg_ID \<Rightarrow> Network_Leg \<Rightarrow> 'b net \<Rightarrow> bool" where
  "stage n lid l m \<longleftrightarrow> net_inv {lid} m \<and> same_world n m \<and> get_leg m = (get_leg n)(lid \<mapsto> l) \<and>
     leg_status l = CONNECTED_LEG \<and> leg_cost l \<noteq> - 1 \<and> control_link l \<noteq> None"

lemma set_lnk_simps [simp]:
  "leg_links (set_lnk ty k l) = (leg_links l)(ty := Some k)" "leg_status (set_lnk ty k l) = leg_status l" "leg_cost (set_lnk ty k l) = leg_cost l"
  "leg_edge (set_lnk ty k l) = leg_edge l" "other_side_ctrl_link_id (set_lnk ty k l) = other_side_ctrl_link_id l"
  by (simp_all add: set_lnk_def)

lemma stage_data:
  assumes "stage n lid l m" "leg_links l ty = None" "ty = UDP_LINK \<or> ty = RELIABLE_UDP_LINK \<or> ty = REALTIME_UDP_LINK"
  shows "res_post {no_link_ids} (\<lambda>(k, m'). stage n lid (set_lnk ty k l) m') (Create_Link cf lid ty m)"
proof -
  have m: "net_inv {lid} m" "get_leg m lid = Some l" "control_link l \<noteq> None" "leg_status l = CONNECTED_LEG" "leg_cost l \<noteq> - 1"
    using assms(1) by (simp_all add: stage_def)
  show ?thesis
    by (rule res_post_mono [OF Create_Link_data [OF m(1,2) assms(2) m(3-5) assms(3)]])
      (use assms(1,3) same_world_trans in \<open>auto simp: stage_def\<close>)
qed

lemma stage_it:
  assumes "stage n lid l m"
  shows "res_post {no_link_ids} (\<lambda>m'. \<exists>l'. stage n lid l' m' \<and> (l' = l \<or> (\<exists>k. l' = set_lnk INTRUSION_TOL_LINK k l))) (it_link cf lid m)"
proof -
  have m: "net_inv {lid} m" "get_leg m lid = Some l" "control_link l \<noteq> None" "leg_status l = CONNECTED_LEG" "leg_cost l \<noteq> - 1"
    using assms by (simp_all add: stage_def)
  obtain ri where ri: "Get_Interface m (snd lid) = Some ri" using legs_okD(1) [OF net_invD(4) [OF m(1)] m(2)] by (auto simp: place_ok_def)
  show ?thesis
  proof (cases "Config_File_Found cf \<and> configured_neighbor cf (net_addr ri)")
    case True
    have "res_post {no_link_ids} (\<lambda>(k, m'). stage n lid (set_lnk INTRUSION_TOL_LINK k l) m') (Create_Link cf lid INTRUSION_TOL_LINK m)"
      by (rule res_post_mono [OF Create_Link_int_tol [OF m]]) (use True assms same_world_trans in \<open>auto simp: stage_def\<close>)
    then show ?thesis unfolding it_link_def ri option.case using True by (auto elim!: res_post_bind) blast
  next
    case False
    then show ?thesis using assms ri by (auto simp: it_link_def)
  qed
qed

lemma stage_finish:
  assumes m: "stage n lid l m" and k: "control_link l = Some k" "leg_links l RELIABLE_UDP_LINK = Some k'"
    and l: "leg_links l UDP_LINK \<noteq> None" "leg_links l REALTIME_UDP_LINK \<noteq> None" "has_slot (Get_Node (dae n)) (snd (leg_edge l))"
  shows "net_ok (start_data k k' m)" "same_world n (start_data k k' m)" "get_leg (start_data k k' m) = (get_leg n)(lid \<mapsto> l)"
proof -
  have "net_ok m" by (rule net_inv_status [of lid]) (use m k l in \<open>auto simp: stage_def status_ok_def same_world_def\<close>)
  then have "net_ok (set_connected k' (set_connected k m))" by (intro net_inv_set_connected)
  moreover have "controls (set_connected k' (set_connected k m)) k lid l" using m k by (simp add: controls_def stage_def)
  ultimately have q: "net_ok (net_queue Try_to_Send_ev k None zero_timeout (net_queue Send_Hello_ev k None zero_timeout (set_connected k' (set_connected k m))))" (is "net_ok ?m")
    by (intro net_inv_control_timer [where lid = lid and lg = l]) (auto simp: timer_types_def)
  have "get_leg ?m lid = Some l" using m by (simp add: stage_def)
  from control_link_type [OF q this k(2)] obtain lk where "Links ?m k' = Some lk" "lk_type lk = RELIABLE_UDP_LINK" by blast
  with q show "net_ok (start_data k k' m)" unfolding start_data_def by (auto intro!: net_inv_queue timer_ok_new simp: timer_types_def)
  show "same_world n (start_data k k' m)" "get_leg (start_data k k' m) = (get_leg n)(lid \<mapsto> l)" using m by (simp_all add: start_data_def stage_def)
qed

definition leg_up :: "'b net_conf \<Rightarrow> int \<Rightarrow> Network_Leg \<Rightarrow> Network_Leg \<Rightarrow> bool" where
  "leg_up cf k lg l \<longleftrightarrow> leg_status l = CONNECTED_LEG \<and> leg_cost l = Network_Leg_Initial_Cost cf \<and> leg_edge l = leg_edge lg \<and> control_link l = Some k \<and>
     other_side_ctrl_link_id l = other_side_ctrl_link_id lg"

lemma connect_links_inv:
  assumes m: "stage n lid l m" and l: "leg_up cf k lg l" "\<And>ty. ty \<noteq> CONTROL_LINK \<Longrightarrow> ty \<noteq> INTRUSION_TOL_LINK \<Longrightarrow> leg_links l ty = None"
    and s: "has_slot (Get_Node (dae n)) (snd (leg_edge lg))"
  shows "res_post {no_link_ids} (\<lambda>n'. net_ok n' \<and> same_world n n' \<and> (\<exists>l. get_leg n' = (get_leg n)(lid \<mapsto> l) \<and> leg_up cf k lg l))
    (bind_res (Create_Link cf lid UDP_LINK m) (\<lambda>(_, n2). bind_res (Create_Link cf lid RELIABLE_UDP_LINK n2) (\<lambda>(k', n3).
     bind_res (Create_Link cf lid REALTIME_UDP_LINK n3) (\<lambda>(_, n4). bind_res (it_link cf lid n4) (\<lambda>n5. Inr (start_data k k' n5))))))"
  (is "res_post _ ?Q _")
proof (rule res_post_bind [OF stage_data [OF m]], simp_all add: l(2), clarify)
  fix k2 n2 assume m2: "stage n lid (set_lnk UDP_LINK k2 l) n2"
  show "res_post {no_link_ids} ?Q (bind_res (Create_Link cf lid RELIABLE_UDP_LINK n2) (\<lambda>(k', n3).
     bind_res (Create_Link cf lid REALTIME_UDP_LINK n3) (\<lambda>(_, n4). bind_res (it_link cf lid n4) (\<lambda>n5. Inr (start_data k k' n5)))))"
  proof (rule res_post_bind [OF stage_data [OF m2]], simp_all add: l(2), clarify)
    fix k' n3 assume m3: "stage n lid (set_lnk RELIABLE_UDP_LINK k' (set_lnk UDP_LINK k2 l)) n3"
    show "res_post {no_link_ids} ?Q (bind_res (Create_Link cf lid REALTIME_UDP_LINK n3) (\<lambda>(_, n4). bind_res (it_link cf lid n4) (\<lambda>n5. Inr (start_data k k' n5))))"
    proof (rule res_post_bind [OF stage_data [OF m3]], simp_all add: l(2), clarify)
      fix k4 n4 assume m4: "stage n lid (set_lnk REALTIME_UDP_LINK k4 (set_lnk RELIABLE_UDP_LINK k' (set_lnk UDP_LINK k2 l))) n4"
      show "res_post {no_link_ids} ?Q (bind_res (it_link cf lid n4) (\<lambda>n5. Inr (start_data k k' n5)))"
      proof (rule res_post_bind [OF stage_it [OF m4]], clarify)
        fix n5 l' assume m5: "stage n lid l' n5" and l': "l' = set_lnk REALTIME_UDP_LINK k4 (set_lnk RELIABLE_UDP_LINK k' (set_lnk UDP_LINK k2 l)) \<or>
          (\<exists>k. l' = set_lnk INTRUSION_TOL_LINK k (set_lnk REALTIME_UDP_LINK k4 (set_lnk RELIABLE_UDP_LINK k' (set_lnk UDP_LINK k2 l))))"
        have u: "leg_up cf k lg l'" using l' l(1) by (auto simp: leg_up_def)
        then show "res_post {no_link_ids} ?Q (Inr (start_data k k' n5))"
          using stage_finish [OF m5, of k k'] l' s by (auto simp: leg_up_def)
      qed
    qed
  qed
qed

lemma connect_leg_inv:
  assumes inv: "net_ok n" and k: "controls n k lid lg" and st: "leg_status lg = NOT_YET_CONNECTED_LEG"
  shows "res_post {no_link_ids} (\<lambda>n'. net_ok n' \<and> same_world n n' \<and> (\<exists>l. get_leg n' = (get_leg n)(lid \<mapsto> l) \<and> leg_up cf k lg l)) (connect_leg cf k lid n)"
proof -
  have g: "get_leg n lid = Some lg" "control_link lg = Some k" using k by (simp_all add: controls_def)
  have so: "leg_cost lg = - 1" "has_slot (Get_Node (dae n)) (snd (leg_edge lg))" "\<And>ty. ty \<noteq> CONTROL_LINK \<Longrightarrow> ty \<noteq> INTRUSION_TOL_LINK \<Longrightarrow> leg_links lg ty = None"
    using legs_okD(2) [OF net_invD(4) [OF inv] g(1)] st by (auto simp: status_ok_def)
  let ?c = "Network_Leg_Initial_Cost cf" and ?l0 = "lg\<lparr>leg_status := CONNECTED_LEG\<rparr>"
  let ?lg = "?l0\<lparr>leg_cost := ?c\<rparr>" and ?n0 = "upd_leg lid (\<lambda>l. l\<lparr>leg_status := CONNECTED_LEG\<rparr>) n"
  have n0: "net_inv {lid} ?n0" by (rule net_inv_upd_leg [OF inv g(1)]) simp_all
  have g0: "get_leg ?n0 = (get_leg n)(lid \<mapsto> ?l0)" using g by (simp add: get_leg_upd_leg)
  obtain n1 where n1: "Network_Leg_Set_Cost lid ?c ?n0 = Inr n1" "net_inv {lid} n1" "get_leg n1 = (get_leg n)(lid \<mapsto> ?lg)" "same_world n n1"
    using Network_Leg_Set_Cost_inv [OF n0, of lid ?l0 ?c] g0 g so Initial_Cost [of cf]
    by (auto simp: res_post_Inr same_world_def same_env_def)
  have "stage n lid ?lg (upd_control k (report (wall_clock (dae n))) n1)"
    using n1 net_inv_upd_control [OF n1(2)] g Initial_Cost [of cf] by (simp add: stage_def)
  moreover have "leg_up cf k lg ?lg" using g by (simp add: leg_up_def)
  ultimately show ?thesis using connect_links_inv [of n lid ?lg _ cf k lg] so n1(1) by (simp add: connect_leg_def)
qed

section \<open>Receiving a hello\<close>

text \<open>The ways in which a hello on a known leg ends the daemon, or keeps it busy for ever.\<close>

definition hello_failures :: "failure set" where
  "hello_failures = {no_link_ids, too_many_neighbors, rand_loops, cost_mismatch, LOOPS ''Check_Link_Loss'', UNDEF ''signed overflow''}"

lemma wants_update_frame:
  assumes "wants_update cf now e c n = (u, n1)"
  shows "n1 = n \<or> n1 = n\<lparr>rand_pos := rand_pos n + 1\<rparr>"
  using assms by (auto simp: wants_update_def next_rand_def Let_def split: Route_Weight.splits)

lemma hello_status_inv:
  assumes inv: "net_ok n" and k: "controls n k lid lg"
  shows "res_post hello_failures (\<lambda>n'. net_ok n' \<and> same_world n n' \<and> (\<exists>l. get_leg n' = (get_leg n)(lid \<mapsto> l))) (hello_status cf k lid n)"
proof -
  have g: "get_leg n lid = Some lg" using k by (simp add: controls_def)
  obtain lk c where lk: "control_link_at n k = Some (lk, c)" by (rule controlsE [OF inv k])
  show ?thesis
  proof (cases "leg_status lg")
    case DISCONNECTED_LEG
    then show ?thesis using controls_status [OF inv k] by simp
  next
    case NOT_YET_CONNECTED_LEG
    let ?n1 = "upd_leg lid (\<lambda>l. l\<lparr>connect_cnter := int16_of (connect_cnter l + 1)\<rparr>) n"
    let ?l1 = "lg\<lparr>connect_cnter := int16_of (connect_cnter lg + 1)\<rparr>"
    have n1: "net_ok ?n1" by (rule net_ok_touch_leg [OF inv g]) simp_all
    have g1: "get_leg ?n1 = (get_leg n)(lid \<mapsto> ?l1)" using g by (simp add: get_leg_upd_leg)
    have k1: "controls ?n1 k lid ?l1" using k g1 by (simp add: controls_def)
    have "leg_status ?l1 = NOT_YET_CONNECTED_LEG" using NOT_YET_CONNECTED_LEG by simp
    note c = connect_leg_inv [OF n1 k1 this, of cf]
    have "res_post hello_failures (\<lambda>n'. net_ok n' \<and> same_world n n' \<and> (\<exists>l. get_leg n' = (get_leg n)(lid \<mapsto> l))) (connect_leg cf k lid ?n1)"
      by (rule res_post_mono [OF c]) (use g1 same_world_trans [of n ?n1] in \<open>auto simp: hello_failures_def\<close>)
    then show ?thesis using NOT_YET_CONNECTED_LEG g lk n1 g1 by (auto simp: hello_status_def Let_def)
  next
    case CONNECTED_LEG
    obtain e where e: "Find_State (All_Edges (dae n)) (fst (leg_edge lg)) (snd (leg_edge lg)) = Some e"
      using legs_okD(1) [OF net_invD(4) [OF inv] g] by (auto simp: place_ok_def own_edge_def Get_Edge_def)
    obtain u n1 where u: "wants_update cf (wall_clock (dae n)) e c n = (u, n1)" by fastforce
    have n1: "net_ok n1" "get_leg n1 = get_leg n" "same_world n n1" using wants_update_frame [OF u] inv by auto
    have same: "get_leg n = (get_leg n)(lid \<mapsto> lg)" using g by (simp add: fun_upd_idem)
    then have ex: "\<exists>l. get_leg n = (get_leg n)(lid \<mapsto> l)" by blast
    have unf: "hello_status cf k lid n = (if u then bind_res (Network_Leg_Update_Cost cf lid n1) (\<lambda>(ret, n2).
        Inr (if 0 < ret then upd_control k (report (wall_clock (dae n))) n2 else n2)) else Inr n1)"
      using CONNECTED_LEG g lk e u by (simp add: hello_status_def Let_def)
    have g1: "get_leg n1 lid = Some lg" using n1(2) g by simp
    show ?thesis unfolding unf
    proof (cases u)
      case True
      have "res_post hello_failures (\<lambda>n'. net_ok n' \<and> same_world n n' \<and> (\<exists>l. get_leg n' = (get_leg n)(lid \<mapsto> l))) (bind_res (Network_Leg_Update_Cost cf lid n1) (\<lambda>(ret, n2).
        Inr (if 0 < ret then upd_control k (report (wall_clock (dae n))) n2 else n2)))"
        by (rule res_post_bind [OF res_post_mono [OF Network_Leg_Update_Cost_inv [OF n1(1) g1 CONNECTED_LEG]]])
          (use n1 same_world_trans [OF n1(3)] in \<open>auto simp: hello_failures_def net_inv_upd_control\<close>)
      with True show "res_post hello_failures (\<lambda>n'. net_ok n' \<and> same_world n n' \<and> (\<exists>l. get_leg n' = (get_leg n)(lid \<mapsto> l)))
        (if u then bind_res (Network_Leg_Update_Cost cf lid n1) (\<lambda>(ret, n2).
        Inr (if 0 < ret then upd_control k (report (wall_clock (dae n))) n2 else n2)) else Inr n1)" by simp
    qed (use n1 ex in simp)
  qed
qed

lemma hello_rtt_post: "res_post {UNDEF ''signed overflow''} (\<lambda>_. True) (hello_rtt cf now p c)"
  by (simp add: hello_rtt_def Let_def)

lemma accept_hello_inv:
  assumes inv: "net_ok n" and k: "controls n k lid lg"
  shows "res_post hello_failures (\<lambda>n'. net_ok n' \<and> same_world n n' \<and> (\<exists>l. get_leg n' = (get_leg n)(lid \<mapsto> l))) (accept_hello cf k lid h p type c n)"
proof (cases "Check_Link_Loss (rnd cf) (Some (l_data c)) (ph_seq_no h) CONTROL_LINK")
  case None
  then show ?thesis by (simp add: accept_hello_def hello_failures_def)
next
  case (Some ld)
  have g: "get_leg n lid = Some lg" using k by (simp add: controls_def)
  have same: "\<exists>l. get_leg n = (get_leg n)(lid \<mapsto> l)" using g by (metis fun_upd_triv)
  let ?c1 = "c\<lparr>l_data := the ld\<rparr>" and ?now = "wall_clock (dae n)"
  show ?thesis
  proof (cases "hp_seq_no p + 3 < other_side_hello_seq ?c1")
    case True
    then show ?thesis using Some inv same net_inv_upd_control by (auto simp: accept_hello_def)
  next
    case False
    let ?l = "lg\<lparr>hellos_out := 0, last_recv_hello := ?now\<rparr>"
    let ?n1 = "\<lambda>c3. upd_control k (\<lambda>_. c3) n"
    let ?n2 = "\<lambda>b c3. if b then upd_link k (\<lambda>lk. lk\<lparr>lk_r_data := map_option (\<lambda>r. r\<lparr>rtt := to_int (cd_rtt c3)\<rparr>) (lk_r_data lk)\<rparr>) (?n1 c3) else ?n1 c3"
    let ?n3 = "\<lambda>b c3. net_dequeue Send_Hello_Request_Cnt_ev k None (upd_leg lid (\<lambda>l. l\<lparr>hellos_out := 0, last_recv_hello := ?now\<rparr>) (?n2 b c3))"
    let ?n4 = "\<lambda>b c3. if Is_hello_req type then net_queue Send_Hello_ev k None zero_timeout (?n3 b c3) else ?n3 b c3"
    have u: "accept_hello cf k lid h p type c n = bind_res (hello_rtt cf ?now p (?c1\<lparr>other_side_hello_seq := hp_seq_no p\<rparr>)) (\<lambda>(b, c2).
        hello_status cf k lid (?n4 b (hello_loss cf p c2)))"
      using Some False by (simp add: accept_hello_def Let_def)
    have n2: "net_ok (?n2 b c3)" "get_leg (?n2 b c3) = get_leg n" "same_world n (?n2 b c3)" for b c3
      using net_inv_upd_control [OF inv] by (auto intro!: net_inv_upd_link simp: prot_ok_def c_data_of_def split: Link_Type.splits)
    have n3: "net_ok (?n3 b c3)" "get_leg (?n3 b c3) = (get_leg n)(lid \<mapsto> ?l)" "same_world n (?n3 b c3)" for b c3
      using net_inv_dequeue [OF net_ok_touch_leg [OF n2(1), where lid = lid and lg = lg]] n2 g by (auto simp: get_leg_upd_leg)
    have k3: "controls (?n3 b c3) k lid ?l" for b c3 using k n3(2) by (simp add: controls_def)
    have n4: "net_ok (?n4 b c3)" "get_leg (?n4 b c3) = (get_leg n)(lid \<mapsto> ?l)" "same_world n (?n4 b c3)" for b c3
      using n3 [of b c3] net_inv_control_timer [OF n3(1) [of b c3] k3 [of b c3], of Send_Hello_ev] by (auto simp: timer_types_def)
    have k4: "controls (?n4 b c3) k lid ?l" for b c3 using k n4(2) by (simp add: controls_def)
    have "res_post hello_failures (\<lambda>n'. net_ok n' \<and> same_world n n' \<and> (\<exists>l. get_leg n' = (get_leg n)(lid \<mapsto> l))) (hello_status cf k lid (?n4 b c3))" for b c3
      by (rule res_post_mono [OF hello_status_inv [OF n4(1) k4]]) (use n4(2) [of b c3] same_world_trans [OF n4(3)] in auto)
    then show ?thesis unfolding u
      by (intro res_post_bind [OF res_post_mono [OF hello_rtt_post, where B = hello_failures and Q = "\<lambda>_. True"]]) (auto simp: hello_failures_def)
  qed
qed

lemma controls_new_session: "get_leg n = (m)(lid \<mapsto> new_session k w lg) \<Longrightarrow> controls n k lid (new_session k w lg)"
  by (simp add: controls_def new_session_def)

text \<open>A hello of another session: the leg starts anew.\<close>

lemma restart_leg_inv:
  assumes inv: "net_ok n" and k: "controls n k lid lg"
  shows "res_post hello_failures (\<lambda>n'. net_ok n' \<and> same_env n n' \<and> (\<exists>l. get_leg n' = (get_leg n)(lid \<mapsto> l)))
    (bind_res (Disconnect_Network_Leg lid n) (\<lambda>n1. bind_res (Create_Link cf lid CONTROL_LINK n1) (\<lambda>(k, n2). Send_Hello cf k n2)))"
proof -
  have g: "get_leg n lid = Some lg" using k by (simp add: controls_def)
  obtain n1 where n1: "Disconnect_Network_Leg lid n = Inr n1" "net_ok n1" "get_leg n1 = (get_leg n)(lid \<mapsto> closed_leg (wall_clock (dae n)) lg)" "same_env n n1"
    using Disconnect_Network_Leg_inv [OF inv g controls_status [OF inv k]] by (auto simp: res_post_Inr)
  let ?l1 = "closed_leg (wall_clock (dae n)) lg"
  have g1: "get_leg n1 lid = Some ?l1" "leg_status ?l1 = DISCONNECTED_LEG" using n1(3) by (simp_all add: closed_leg_def)
  show ?thesis unfolding n1(1) bind_res_simps
  proof (rule res_post_bind [OF res_post_mono [OF Create_Link_control [OF n1(2) g1], of hello_failures]], simp add: hello_failures_def, assumption, clarify)
    fix j n2 w assume n2: "net_ok n2" "get_leg n2 = (get_leg n1)(lid \<mapsto> new_session j w ?l1)" "same_env n1 n2"
    have "same_env n n2" using same_env_trans [OF n1(4) n2(3)] .
    then show "res_post hello_failures (\<lambda>n'. net_ok n' \<and> same_env n n' \<and> (\<exists>l. get_leg n' = (get_leg n)(lid \<mapsto> l))) (Send_Hello cf j n2)"
      by (intro res_post_mono [OF Send_Hello_inv [OF n2(1) controls_new_session [OF n2(2)]]])
        (use n2(2) n1(3) same_world_env same_env_trans in fastforce)+
  qed
qed

lemma Process_hello_packet_inv:
  assumes inv: "net_ok n" and k: "controls n k lid lg"
  shows "res_post hello_failures (\<lambda>n'. net_ok n' \<and> same_env n n' \<and> (\<exists>l. get_leg n' = (get_leg n)(lid \<mapsto> l))) (Process_hello_packet cf k h p0 rb type n)"
proof -
  have g: "get_leg n lid = Some lg" using k by (simp add: controls_def)
  obtain lk c where lk: "control_link_at n k = Some (lk, c)" "lk_leg lk = lid" by (rule controlsE [OF inv k])
  let ?p = "if Same_endian (ARCH_ENDIAN (dae n)) type then p0 else Flip_hello_pkt p0"
  let ?c1 = "c\<lparr>l_data := reset_loss (ph_seq_no h) (l_data c)\<rparr>"
  let ?n1 = "upd_control k (\<lambda>_. ?c1) (upd_leg lid (\<lambda>l. l\<lparr>other_side_ctrl_link_id := ph_ctrl_link_id h\<rparr>) n)"
  let ?Q = "\<lambda>n'. net_ok n' \<and> same_env n n' \<and> (\<exists>l. get_leg n' = (get_leg n)(lid \<mapsto> l))"
  have n1: "net_ok ?n1" by (intro net_inv_upd_control net_ok_touch_leg [OF inv g]) simp_all
  have g1: "get_leg ?n1 = (get_leg n)(lid \<mapsto> lg\<lparr>other_side_ctrl_link_id := ph_ctrl_link_id h\<rparr>)" using g by (simp add: get_leg_upd_leg)
  have k1: "controls ?n1 k lid (lg\<lparr>other_side_ctrl_link_id := ph_ctrl_link_id h\<rparr>)" using k g1 by (simp add: controls_def)
  have a: "res_post hello_failures ?Q (accept_hello cf k lid h ?p type c n)"
    by (rule res_post_mono [OF accept_hello_inv [OF inv k]]) (use same_world_env in auto)
  have b: "res_post hello_failures ?Q (accept_hello cf k lid h ?p type ?c1 ?n1)"
    by (rule res_post_mono [OF accept_hello_inv [OF n1 k1]]) (use same_world_env same_env_trans [of n ?n1] g1 in auto)
  have same: "?Q n" using inv g by (metis fun_upd_triv same_env_refl)
  have unf: "Process_hello_packet cf k h p0 rb type n =
      (if rb \<noteq> sizeof_hello_packet then Inr n
       else if ph_ctrl_link_id h = other_side_ctrl_link_id lg then accept_hello cf k lid h ?p type c n
       else if other_side_ctrl_link_id lg = 0 then accept_hello cf k lid h ?p type ?c1 ?n1
       else bind_res (Disconnect_Network_Leg lid n) (\<lambda>n1. bind_res (Create_Link cf lid CONTROL_LINK n1) (\<lambda>(k, n2). Send_Hello cf k n2)))"
    using lk g by (simp add: Process_hello_packet_def Let_def)
  show ?thesis unfolding unf using a b restart_leg_inv [OF inv k, of cf] same by (simp split: if_split)
qed

end
