(* ===== verification/Hello_System.thy ===== *)
theory Hello_System
  imports Hello_Inv
begin

text \<open>
  The daemon as a state machine over its links: packets of the hello protocol arrive, timers fire,
  clocks and the rest of the daemon move on. The invariant holds in every reachable state; the
  properties of the hello protocol follow.
\<close>

section \<open>A packet from any address\<close>

text \<open>The further ways in which a packet from an unknown address, or for a leg without a control link,
  ends the daemon.\<close>

definition ping_failures :: "failure set" where
  "ping_failures = {EXIT ''Create_Interface: Interface already exists'', EXIT ''Init_Recv_Channel: DL_init_channel failed'',
     remote_is_local, edge_has_leg, no_link_ids, too_many_neighbors, rand_loops}"

definition is_local :: "'b net \<Rightarrow> Interface_ID \<Rightarrow> bool" where
  "is_local n i \<longleftrightarrow> (\<exists>r. Get_Interface n i = Some r \<and> owner r = My_Address (dae n))"

lemma ping_interface:
  assumes inv: "net_ok n" and l: "is_local n local" and nd: "Get_Node (dae n) s \<noteq> None"
  shows "res_post ping_failures (\<lambda>m. net_ok m \<and> is_local m local \<and> My_Address (dae m) = My_Address (dae n) \<and> Get_Interface_by_Addr m a \<noteq> None)
    (if Get_Interface_by_Addr n a = None then Create_Interface cf s a a n else Inr n)"
proof (cases "Get_Interface_by_Addr n a")
  case None
  have "is_local m local" if "dae m = dae n" "Get_Interface m = (Get_Interface n)(a \<mapsto> r)" "Get_Interface n a = None" for m r
    using l that by (auto simp: is_local_def)
  then show ?thesis using None
    by (auto intro!: res_post_mono [OF Create_Interface_inv [OF inv None nd, of a cf]] simp: ping_failures_def)
qed (use inv l in simp)

lemma ping_leg_found:
  assumes inv: "net_ok n" and l: "is_local n local" and ri: "Get_Interface_by_Addr n a = Some ri"
  shows "res_post ping_failures (\<lambda>m. net_ok m \<and> (\<exists>lg. get_leg m (local, iid ri) = Some lg))
    (if get_leg n (local, iid ri) = None then Create_Network_Leg local (iid ri) n else Inr n)"
proof (cases "get_leg n (local, iid ri)")
  case None
  obtain li where li: "Get_Interface n local = Some li" "owner li = My_Address (dae n)" using l by (auto simp: is_local_def)
  have "Get_Interface n (iid ri) = Some ri"
    using ri net_invD(8) [OF inv] by (auto simp: Get_Interface_by_Addr_def ifs_ok_def split: option.splits)
  from Create_Network_Leg_inv [OF inv li this None] None show ?thesis
    by (auto elim!: res_post_mono simp: ping_failures_def)
qed (use inv in simp)

lemma ping_control_inv:
  assumes inv: "net_ok n" and lg: "get_leg n lid = Some lg"
  shows "res_post ping_failures (\<lambda>(k, m). net_ok m \<and> (\<forall>j. k = Some j \<longrightarrow> (\<exists>lg. controls m j lid lg))) (ping_control cf lid n)"
proof (cases "control_link lg")
  case (Some k)
  then have "\<exists>lg. controls n k lid lg" using lg by (simp add: controls_def)
  then show ?thesis using Some inv lg by (simp add: ping_control_def)
next
  case None
  have st: "leg_status lg = DISCONNECTED_LEG"
    using legs_okD(2) [OF net_invD(4) [OF inv] lg] None by (cases "leg_status lg") (auto simp: status_ok_def)
  have "res_post ping_failures (\<lambda>(k, m). net_ok m \<and> (\<forall>j. k = Some j \<longrightarrow> (\<exists>lg. controls m j lid lg)))
    (bind_res (Create_Link cf lid CONTROL_LINK n) (\<lambda>(k, n4). Inr (Some k, upd_leg lid (\<lambda>l. l\<lparr>last_recv_hello := wall_clock (dae n4)\<rparr>) n4)))"
  proof (rule res_post_bind [OF res_post_mono [OF Create_Link_control [OF inv lg st], of ping_failures]], simp add: ping_failures_def, assumption, clarify)
    fix k n4 w assume n4: "net_ok n4" "get_leg n4 = (get_leg n)(lid \<mapsto> new_session k w lg)"
    let ?n5 = "upd_leg lid (\<lambda>l. l\<lparr>last_recv_hello := wall_clock (dae n4)\<rparr>) n4"
    have "net_ok ?n5" by (rule net_ok_touch_leg [OF n4(1), of _ "new_session k w lg"]) (use n4(2) in simp_all)
    moreover have "controls ?n5 k lid ((new_session k w lg)\<lparr>last_recv_hello := wall_clock (dae n4)\<rparr>)"
      using n4(2) by (simp add: controls_def get_leg_upd_leg new_session_def)
    ultimately show "res_post ping_failures (\<lambda>(k, m). net_ok m \<and> (\<forall>j. k = Some j \<longrightarrow> (\<exists>lg. controls m j lid lg))) (Inr (Some k, ?n5))"
      by auto
  qed
  then show ?thesis using None lg inv by (simp add: ping_control_def)
qed

lemma ping_leg_of_inv:
  fixes n :: "'b net"
  assumes inv: "net_ok n" and l: "is_local n local" and ri: "Get_Interface_by_Addr n a \<noteq> None"
  shows "res_post ping_failures (\<lambda>(k, m). net_ok m \<and> (\<forall>j. k = Some j \<longrightarrow> (\<exists>lid lg. controls m j lid lg))) (ping_leg_of cf a local n)"
proof -
  obtain r where r: "Get_Interface_by_Addr n a = Some r" using ri by blast
  show ?thesis unfolding ping_leg_of_def r option.case
  proof (rule res_post_bind [OF ping_leg_found [OF inv l r]], elim conjE exE)
    fix m :: "'b net" and lg assume m: "net_ok m" "get_leg m (local, iid r) = Some lg"
    show "res_post ping_failures (\<lambda>(k, m). net_ok m \<and> (\<forall>j. k = Some j \<longrightarrow> (\<exists>lid lg. controls m j lid lg))) (ping_control cf (local, iid r) m)"
      by (rule res_post_mono [OF ping_control_inv [OF m]]) (auto simp del: split_paired_Ex)
  qed
qed

lemma Process_hello_ping_inv:
  assumes inv: "net_ok n" and l: "is_local n local"
  shows "res_post ping_failures (\<lambda>(k, m). net_ok m \<and> (\<forall>j. k = Some j \<longrightarrow> (\<exists>lid lg. controls m j lid lg))) (Process_hello_ping cf h a local n)"
proof -
  obtain d where d: "get_or_create_node (ph_sender_id h) (dae n) = Inr d"
    by (cases "Get_Node (dae n) (ph_sender_id h)") (auto simp: get_or_create_node_def Create_Node_def Let_def)
  note c = Create_Node_inv [OF inv d]
  let ?n1 = "n\<lparr>dae := d\<rparr>"
  have l1: "is_local ?n1 local" using l c(3) by (simp add: is_local_def same_env_def)
  have a: "Get_Interface_by_Addr n = Get_Interface_by_Addr ?n1" by (auto simp: Get_Interface_by_Addr_def fun_eq_iff split: option.splits)
  have nd: "Get_Node (dae ?n1) (ph_sender_id h) \<noteq> None" using c(4) by simp
  show ?thesis unfolding Process_hello_ping_def d bind_res_simps a
    by (rule res_post_bind [OF ping_interface [OF c(1) l1 nd]], elim conjE) (rule ping_leg_of_inv)
qed

lemma process_hello_inv:
  fixes n :: "'b net"
  assumes inv: "net_ok n" and l: "is_local n local"
  shows "res_post (hello_failures \<union> ping_failures) net_ok (process_hello cf sizes_ok port_ok local a h p rb type n)"
proof -
  have "res_post (hello_failures \<union> ping_failures) net_ok (bind_res (Process_hello_ping cf h a local n) (\<lambda>(lk, n1).
      case lk of None \<Rightarrow> Inr n1 | Some k \<Rightarrow> if Is_hello (ph_type h) \<or> Is_hello_req (ph_type h)
        then Process_hello_packet cf k h p rb type n1 else Inr n1))"
  proof (rule res_post_bind [OF res_post_mono [OF Process_hello_ping_inv [OF inv l], of "hello_failures \<union> ping_failures"]], simp, assumption, clarify)
    fix k and m :: "'b net" assume m: "net_ok m" "\<forall>j. k = Some j \<longrightarrow> (\<exists>lid lg. controls m j lid lg)"
    show "res_post (hello_failures \<union> ping_failures) net_ok (case k of None \<Rightarrow> Inr m | Some k \<Rightarrow> if Is_hello (ph_type h) \<or> Is_hello_req (ph_type h)
        then Process_hello_packet cf k h p rb type m else Inr m)"
    proof (cases k)
      case (Some j)
      then obtain lid lg where "controls m j lid lg" using m(2) by blast
      from Process_hello_packet_inv [OF m(1) this, of cf h p rb type] Some m(1) show ?thesis by (auto elim!: res_post_mono)
    qed (use m in simp)
  qed
  then show ?thesis using inv by (simp add: process_hello_def)
qed

section \<open>Link-state cells\<close>

lemma net_inv_rest:
  assumes inv: "net_inv X n" and d': "tables_ok d'" "same_nodes (dae n) d'" "Time_queue d' = queued n" "\<And>t. own_edge d' t = own_edge (dae n) t"
  shows "net_inv X (n\<lparr>dae := d'\<rparr>)" "get_leg (n\<lparr>dae := d'\<rparr>) = get_leg n" "same_world n (n\<lparr>dae := d'\<rparr>)"
proof -
  have e: "own_edge d' t = map_option (\<lambda>x. x) (own_edge (dae n) t)" for t using d'(4) by (simp add: option.map_ident)
  have q: "timers_ok (Links n) (Time_queue d')" using net_invD(7) [OF inv] d'(3) by simp
  show "net_inv X (n\<lparr>dae := d'\<rparr>)" "get_leg (n\<lparr>dae := d'\<rparr>) = get_leg n" "same_world n (n\<lparr>dae := d'\<rparr>)"
    using net_inv_dae [OF inv d'(1,2) q e] by simp_all
qed

text \<open>A write to one edge that leaves leg and value.\<close>

lemma net_inv_edge_write:
  assumes inv: "net_inv X n" and f: "\<And>e. leg_of (f e) = leg_of e \<and> is_edge (f e) = is_edge e \<and> state_key (f e) = state_key e"
    and val: "fst ptr = My_Address (dae n) \<Longrightarrow> \<forall>e. state_value (f e) = state_value e"
  shows "net_inv X (n\<lparr>dae := modify_state Edge_Prot_Def ptr f (dae n)\<rparr>)"
proof -
  let ?d = "modify_state Edge_Prot_Def ptr f (dae n)" and ?me = "My_Address (dae n)"
  define g where "g t = (if (?me, t) = ptr then f else id)" for t
  have t: "tables_ok ?d" by (rule tables_ok_modify_state [OF net_invD(1) [OF inv]]) (simp add: f)
  have e: "own_edge ?d t = map_option (g t) (own_edge (dae n) t)" for t
    by (simp add: own_edge_def Get_Edge_def modify_state_def Find_State_write_state g_def option.map_id)
  have gp: "leg_of (g t x) = leg_of x \<and> state_value (g t x) = state_value x \<and> is_edge (g t x) = is_edge x" for t x
    using f val by (auto simp: g_def)
  have q: "timers_ok (Links n) (Time_queue ?d)" using net_invD(7) [OF inv] by (simp add: modify_state_def)
  show ?thesis using net_inv_dae(1) [OF inv t _ q e gp] by simp
qed

lemma Create_foreign_edge_inv:
  assumes inv: "net_inv X n" and s: "s \<noteq> My_Address (dae n)" and d: "Create_Edge s t c b x (dae n) = Inr d"
  shows "net_inv X (n\<lparr>dae := d\<rparr>)" "same_world n (n\<lparr>dae := d\<rparr>)"
proof -
  note T = Create_Edge_tables [OF d net_invD(1) [OF inv]]
  have same: "same_nodes (dae n) d" "Time_queue d = queued n"
    using d s by (auto simp: Create_Edge_def Let_def same_nodes_def split: if_splits)
  have "own_edge d u = own_edge (dae n) u" for u
    using T(5) [of "My_Address (dae n)" u] s same(1) by (auto simp: own_edge_def Get_Edge_def same_nodes_def)
  from net_inv_rest [OF inv T(1) same this] show "net_inv X (n\<lparr>dae := d\<rparr>)" "same_world n (n\<lparr>dae := d\<rparr>)" by simp_all
qed

lemma Edge_cell_objects_inv:
  assumes inv: "net_inv X n" and d: "Edge_cell_objects s cell (dae n) = Inr d"
  shows "net_inv X (n\<lparr>dae := d\<rparr>)" "My_Address d = My_Address (dae n)" "Get_Edge d s (dest cell) \<noteq> None"
proof -
  obtain d1 d2 where d1: "get_or_create_node s (dae n) = Inr d1" and d2: "get_or_create_node (dest cell) d1 = Inr d2"
    and d3: "get_or_create_edge s (dest cell) d2 = Inr d"
    using d by (auto simp: Edge_cell_objects_def bind_res_Inr_iff)
  note c1 = Create_Node_inv [OF inv d1]
  have d2': "get_or_create_node (dest cell) (dae (n\<lparr>dae := d1\<rparr>)) = Inr d2" using d2 by simp
  note c2 = Create_Node_inv [OF c1(1) d2', simplified]
  have me: "My_Address d2 = My_Address (dae n)" using c1(3) c2(3) by (simp add: same_env_def)
  have "net_inv X (n\<lparr>dae := d\<rparr>) \<and> My_Address d = My_Address d2 \<and> Get_Edge d s (dest cell) \<noteq> None"
  proof (cases "Get_Edge d2 s (dest cell)")
    case None
    then have ce: "Create_Edge s (dest cell) (- 1) (- 1) USHRT_MAX (dae (n\<lparr>dae := d2\<rparr>)) = Inr d" using d3 by (simp add: get_or_create_edge_def)
    have ge: "Get_Edge d s (dest cell) \<noteq> None" using Create_Edge_tables(6) [OF ce net_invD(1) [OF c2(1)]] by (simp add: Get_Edge_def)
    show ?thesis
    proof (cases "s = My_Address d2")
      case True
      have "own_edge (dae (n\<lparr>dae := d2\<rparr>)) (dest cell) = None" using None True by (simp add: own_edge_def)
      from Create_own_edge_inv [OF c2(1) this] c2(4) ce True ge show ?thesis by (auto simp: same_env_def)
    next
      case False
      then show ?thesis using Create_foreign_edge_inv [OF c2(1) _ ce] ge by (simp add: same_world_def same_env_def)
    qed
  next
    case (Some e)
    then show ?thesis using d3 c2(1) by (auto simp: get_or_create_edge_def)
  qed
  then show "net_inv X (n\<lparr>dae := d\<rparr>)" "My_Address d = My_Address (dae n)" "Get_Edge d s (dest cell) \<noteq> None" using me by simp_all
qed

lemma net_inv_LTS:
  assumes "net_inv X n"
  shows "net_inv X (n\<lparr>dae := (dae n)\<lparr>Link_State_Update_LTS := l\<rparr>\<rparr>)"
  using net_inv_rest(1) [OF assms, of "(dae n)\<lparr>Link_State_Update_LTS := l\<rparr>"]
    tables_ok_fields [of "(dae n)\<lparr>Link_State_Update_LTS := l\<rparr>" "dae n"] net_invD(1) [OF assms]
  by (simp add: same_nodes_def own_edge_def Get_Edge_def)

lemma net_inv_emit:
  assumes "net_inv X n"
  shows "net_inv X (n\<lparr>dae := emit c (dae n)\<rparr>)"
  using net_inv_rest(1) [OF assms, of "emit c (dae n)"] tables_ok_fields [of "emit c (dae n)" "dae n"] net_invD(1) [OF assms]
  by (simp add: own_edge_def Get_Edge_def)

lemma Edge_Process_state_cell_inv:
  assumes inv: "net_inv X n" and d: "Edge_Process_state_cell s sender cell type (dae n) = Inr (r, d)"
  shows "net_inv X (n\<lparr>dae := d\<rparr>)"
proof -
  define l where "l = (if Same_endian (ARCH_ENDIAN (dae n)) type then cell_lts cell else Flip_int16 (cell_lts cell))"
  obtain d1 where d1: "Edge_cell_objects s cell (dae n) = Inr d1"
    and rest: "(let d2 = Edge_cell_stamp s cell l d1 in if s \<noteq> My_Address (dae n) then Inr (Some (s, dest cell), Edge_cell_foreign s cell l d2)
      else bind_res (Edge_cell_own s cell d2) (\<lambda>d3. Inr (None, d3))) = Inr (r, d)"
    using d unfolding Edge_Process_state_cell_def Let_def l_def [symmetric] by (auto simp: bind_res_Inr_iff)
  note o1 = Edge_cell_objects_inv [OF inv d1]
  let ?d1 = "if 0 < Link_State_LTS_cmp l (Link_State_Update_LTS d1) then d1\<lparr>Link_State_Update_LTS := l\<rparr> else d1"
  have i1: "net_inv X (n\<lparr>dae := ?d1\<rparr>)" using o1(1) net_inv_LTS [OF o1(1)] by simp
  have st: "net_inv X (n\<lparr>dae := Edge_cell_stamp s cell l d1\<rparr>)"
    using net_inv_edge_write [OF i1, of "\<lambda>e. e\<lparr>timestamp_sec := sint (cell_sec cell), timestamp_usec := sint (cell_usec cell)\<rparr>" "(s, dest cell)"]
    by (simp add: Edge_cell_stamp_def leg_of_def is_edge_def state_key_def)
  let ?d2 = "Edge_cell_stamp s cell l d1"
  have me2: "My_Address ?d2 = My_Address (dae n)" "Get_Edge ?d2 s (dest cell) \<noteq> None"
    using o1(2,3) by (simp_all add: Edge_cell_stamp_def modify_state_def Get_Edge_def Find_State_write_state)
  show ?thesis
  proof (cases "s = My_Address (dae n)")
    case False
    let ?d3 = "emit (DG_Process_Edge_Update (s, dest cell) (sint (cell_value cell))) ?d2"
    let ?f = "\<lambda>e. set_lts l (e\<lparr>age := sint (cell_age cell), state_value := sint (cell_value cell)\<rparr>)"
    have "net_inv X (n\<lparr>dae := ?d3\<rparr>)" using net_inv_emit [OF st] by simp
    then have "net_inv X (n\<lparr>dae := modify_state Edge_Prot_Def (s, dest cell) ?f ?d3\<rparr>)"
      using net_inv_edge_write [of X "n\<lparr>dae := ?d3\<rparr>" ?f "(s, dest cell)"] me2(1) False
      by (auto simp: leg_of_def is_edge_def state_key_def set_lts_def split: state_fields.splits)
    then have "net_inv X (n\<lparr>dae := Edge_cell_foreign s cell l ?d2\<rparr>)"
      using net_inv_emit [of X "n\<lparr>dae := modify_state Edge_Prot_Def (s, dest cell) ?f ?d3\<rparr>"] by (simp add: Edge_cell_foreign_def)
    then show ?thesis using rest False by (simp add: Let_def)
  next
    case True
    have b: "net_inv X (n\<lparr>dae := modify_state Edge_Prot_Def (s, dest cell) bump_timestamp ?d2\<rparr>)"
      using net_inv_edge_write [OF st, of bump_timestamp "(s, dest cell)"]
      by (simp add: leg_of_def is_edge_def state_key_def bump_timestamp_def)
    let ?d4 = "snd (Link_State_LTS_inc (modify_state Edge_Prot_Def (s, dest cell) bump_timestamp ?d2))"
    let ?d5 = "modify_state Edge_Prot_Def (s, dest cell) (set_lts (fst (Link_State_LTS_inc (modify_state Edge_Prot_Def (s, dest cell) bump_timestamp ?d2)))) ?d4"
    have "net_inv X (n\<lparr>dae := ?d4\<rparr>)" using net_inv_LTS [OF b] by (simp add: Link_State_LTS_inc_def Let_def)
    then have i5: "net_inv X (n\<lparr>dae := ?d5\<rparr>)"
      using net_inv_edge_write [of X "n\<lparr>dae := ?d4\<rparr>" "set_lts l'" "(s, dest cell)" for l']
      by (auto simp: leg_of_def is_edge_def state_key_def set_lts_def split: state_fields.splits)
    have own: "My_Address ?d5 = My_Address (dae n)" "own_edge ?d5 (dest cell) \<noteq> None"
      using me2 True by (simp_all add: own_edge_def Get_Edge_def Link_State_LTS_inc_def Let_def modify_state_def Find_State_write_state)
    have "Edge_cell_own s cell ?d2 = Add_to_changed_states Edge_Prot_Def (My_Address (dae n)) (My_Address (dae n), dest cell) ?d5"
      using True me2(1) by (simp add: Edge_cell_own_def Let_def split: prod.splits)
    moreover have "Edge_cell_own s cell ?d2 = Inr d" using rest True by (auto simp: Let_def bind_res_Inr_iff)
    ultimately have "Add_to_changed_states Edge_Prot_Def (My_Address (dae n)) (My_Address (dae n), dest cell) ?d5 = Inr d" by (rule subst)
    then show ?thesis using Add_own_edge [OF i5, of "dest cell"] own by simp
  qed
qed

section \<open>The state machine\<close>

text \<open>The handlers of the hello timers; \<open>E_handle_events\<close> calls them with the code of the event.\<close>

definition hello_timers :: "event_func list" where
  "hello_timers = [Send_Hello_ev, Send_Hello_Request_ev, Send_Hello_Request_Cnt_ev, Dead_Leg_ev, Send_Hello_Ping_ev]"

definition fire :: "'b net_conf \<Rightarrow> event_func \<Rightarrow> int \<Rightarrow> 'b net \<Rightarrow> 'b net res" where
  "fire cf f k n =
     (case f of
        Send_Hello_ev \<Rightarrow> Send_Hello cf k n
      | Send_Hello_Request_ev \<Rightarrow> Send_Hello_Request cf k n
      | Send_Hello_Request_Cnt_ev \<Rightarrow> Send_Hello_Request_Cnt cf k n
      | Dead_Leg_ev \<Rightarrow> Dead_Leg k n
      | _ \<Rightarrow> Send_Hello_Ping cf n)"

definition with_queue :: "event_queue \<Rightarrow> 'b net \<Rightarrow> 'b net" where
  "with_queue q n = n\<lparr>dae := (dae n)\<lparr>Time_queue := q\<rparr>\<rparr>"

text \<open>What the rest of the daemon may do between two events: timers come and go, the replicated tables
  change, the edges of this node keep their leg and their cost.\<close>

definition rest_step :: "'b net \<Rightarrow> daemon \<Rightarrow> bool" where
  "rest_step n d \<longleftrightarrow> tables_ok d \<and> same_nodes (dae n) d \<and> timers_ok (Links n) (Time_queue d) \<and>
     (\<exists>g. (\<forall>t. own_edge d t = map_option (g t) (own_edge (dae n) t)) \<and>
          (\<forall>t e. leg_of (g t e) = leg_of e \<and> state_value (g t e) = state_value e \<and> is_edge (g t e) = is_edge e))"

inductive hello_step :: "'b net_conf \<Rightarrow> 'b net \<Rightarrow> 'b net \<Rightarrow> bool" for cf where
  clock: "hello_step cf n (n\<lparr>dae := (dae n)\<lparr>wall_clock := w, monotonic_clock := m\<rparr>\<rparr>)"
| timer: "E_timer_turn False (monotonic_clock (dae n)) (queued n) = Run_event e q \<Longrightarrow> te_func e \<in> set hello_timers \<Longrightarrow>
    fire cf (te_func e) (te_code e) (with_queue q n) = Inr n' \<Longrightarrow> hello_step cf n n'"
| packet: "is_local n local \<Longrightarrow> process_hello cf sizes_ok port_ok local a h p rb type n = Inr n' \<Longrightarrow> hello_step cf n n'"
| cell: "Edge_Process_state_cell s sender cell type (dae n) = Inr (r, d) \<Longrightarrow> hello_step cf n (n\<lparr>dae := d\<rparr>)"
| rest: "rest_step n d \<Longrightarrow> hello_step cf n (n\<lparr>dae := d\<rparr>)"

lemma with_queue_inv:
  assumes "net_inv X n" "queued n = e # q"
  shows "net_inv X (with_queue q n)" "timer_ok (Links n) e"
proof -
  have "timers_ok (Links n) q" using net_invD(7) [OF assms(1)] assms(2) by (auto simp: timers_ok_def queue_ok_def queue_sorted_def)
  then show "net_inv X (with_queue q n)" using assms(1) by (simp add: net_inv_def with_queue_def)
  show "timer_ok (Links n) e" using net_invD(7) [OF assms(1)] assms(2) by (simp add: timers_ok_def)
qed

lemma fire_inv:
  assumes inv: "net_ok n" and q: "queued n = e # q" and f: "te_func e \<in> set hello_timers"
  shows "res_post {} net_ok (fire cf (te_func e) (te_code e) (with_queue q n))"
proof -
  note w = with_queue_inv [OF inv q]
  let ?n = "with_queue q n"
  have c: "\<exists>lid lg. controls ?n (te_code e) lid lg" if ty: "timer_types (te_func e) = Some {CONTROL_LINK}"
  proof -
    obtain lk where "Links ?n (te_code e) = Some lk" "lk_type lk = CONTROL_LINK"
      using w(2) ty by (auto simp: timer_ok_def with_queue_def)
    from control_link_leg [OF w(1) this] show ?thesis by blast
  qed
  consider "te_func e = Send_Hello_ev" | "te_func e = Send_Hello_Request_ev" | "te_func e = Send_Hello_Request_Cnt_ev" | "te_func e = Dead_Leg_ev" | "te_func e = Send_Hello_Ping_ev"
    using f by (auto simp: hello_timers_def)
  then show ?thesis
  proof cases
    case 1
    then obtain lid lg where "controls ?n (te_code e) lid lg" using c by (auto simp: timer_types_def)
    from res_post_mono [OF Send_Hello_inv [OF w(1) this], where B = "{}" and Q = net_ok] 1 show ?thesis by (auto simp: fire_def)
  next
    case 2
    then obtain lid lg where "controls ?n (te_code e) lid lg" using c by (auto simp: timer_types_def)
    from res_post_mono [OF Net_Send_Hello_inv [OF w(1) this], where B = "{}" and Q = net_ok] 2 show ?thesis by (auto simp: fire_def Send_Hello_Request_def)
  next
    case 3
    then obtain lid lg where "controls ?n (te_code e) lid lg" using c by (auto simp: timer_types_def)
    from res_post_mono [OF Send_Hello_Request_Cnt_inv [OF w(1) this], where B = "{}" and Q = net_ok] 3 show ?thesis by (auto simp: fire_def)
  next
    case 4
    from res_post_mono [OF Dead_Leg_inv [OF w(1)], where B = "{}" and Q = net_ok] 4 show ?thesis by (auto simp: fire_def)
  next
    case 5
    from res_post_mono [OF Send_Hello_Ping_inv [OF w(1)], where B = "{}" and Q = net_ok] 5 show ?thesis by (auto simp: fire_def)
  qed
qed

lemma clock_inv:
  assumes inv: "net_inv X n"
  shows "net_inv X (n\<lparr>dae := (dae n)\<lparr>wall_clock := w, monotonic_clock := m\<rparr>\<rparr>)"
proof -
  let ?d = "(dae n)\<lparr>wall_clock := w, monotonic_clock := m\<rparr>"
  have "get_leg (n\<lparr>dae := ?d\<rparr>) = get_leg n" "own_edge ?d = own_edge (dae n)" "Get_Node ?d = Get_Node (dae n)"
    by (simp_all add: get_leg_def own_edge_def Get_Edge_def Get_Node_def fun_eq_iff)
  then show ?thesis using inv tables_ok_fields [of ?d "dae n"] by (simp add: net_inv_def)
qed

lemma Run_event_queue: "E_timer_turn False t q = Run_event e q' \<Longrightarrow> q = e # q'"
  by (auto simp: E_timer_turn_def Let_def split: list.splits if_splits)

lemma hello_step_inv: "hello_step cf n n' \<Longrightarrow> net_ok n \<Longrightarrow> net_ok n'"
proof (induction rule: hello_step.induct)
  case (clock n w m)
  then show ?case by (rule clock_inv)
next
  case (timer n e q n')
  then show ?case using fire_inv [OF timer(4) Run_event_queue [OF timer(1)] timer(2), of cf] by simp
next
  case (packet n local sizes_ok port_ok a h p rb type n')
  then show ?case using process_hello_inv [OF packet(3,1), of cf sizes_ok port_ok a h p rb type] by simp
next
  case (cell s sender cell type n r d)
  then show ?case using Edge_Process_state_cell_inv by blast
next
  case (rest n d)
  then obtain g where d: "tables_ok d" "same_nodes (dae n) d" "timers_ok (Links n) (Time_queue d)"
      "\<And>t. own_edge d t = map_option (g t) (own_edge (dae n) t)"
      "\<And>t e. leg_of (g t e) = leg_of e \<and> state_value (g t e) = state_value e \<and> is_edge (g t e) = is_edge e"
    by (auto simp: rest_step_def)
  show ?case by (rule net_inv_dae(1) [OF rest(2) d])
qed

lemma hello_steps_inv: "(hello_step cf)\<^sup>*\<^sup>* n n' \<Longrightarrow> net_ok n \<Longrightarrow> net_ok n'"
  by (induction rule: rtranclp_induct) (auto intro: hello_step_inv)

section \<open>What the invariant gives to flooding and routing\<close>

lemma net_ok_connected:
  assumes inv: "net_ok n" and nd: "Get_Node (dae n) i = Some nd"
  shows "Is_Connected_Neighbor2 (dae n) nd = Inr False \<or>
    (\<exists>lid lg k e. Is_Connected_Neighbor2 (dae n) nd = Inr True \<and> edge nd = Some (My_Address (dae n), i) \<and> own_edge (dae n) i = Some e \<and> leg_of e = Some lid \<and>
       get_leg n lid = Some lg \<and> leg_status lg = CONNECTED_LEG \<and> control_link lg = Some k)"
proof (cases "edge nd")
  case None
  then show ?thesis by (simp add: Is_Connected_Neighbor2_def)
next
  case (Some p)
  let ?me = "My_Address (dae n)"
  note v = net_invD [OF inv]
  obtain e where p: "p = (?me, i)" and e: "own_edge (dae n) i = Some e" using edges_okD(2) [OF v(5) nd Some] by blast
  have f: "Find_State (All_Edges (dae n)) ?me i = Some e" using e by (simp add: own_edge_def Get_Edge_def)
  show ?thesis
  proof (cases "state_value e = - 1")
    case True
    then show ?thesis using Some p f by (simp add: Is_Connected_Neighbor2_def)
  next
    case False
    obtain lid where lid: "leg_of e = Some lid" using edges_okD(1) [OF v(5) e] False by (auto simp: edge_leg_def split: option.splits)
    obtain lg where lg: "get_leg n lid = Some lg" "leg_edge lg = (?me, i)" using edges_okD(1) [OF v(5) e] lid by (auto simp: edge_leg_def)
    note pl = legs_okD [OF v(4) lg(1), simplified]
    have cost: "state_value e = leg_cost lg" "i \<noteq> ?me" using pl(1) lg(2) e by (auto simp: place_ok_def)
    have st: "leg_status lg = CONNECTED_LEG" using pl(2) cost(1) False by (cases "leg_status lg") (auto simp: status_ok_def)
    have slot: "neighbor_id nd \<noteq> - 1" "control_link lg \<noteq> None" using pl(2) st lg(2) nd by (auto simp: status_ok_def has_slot_def)
    note s = slots_okD(4) [OF v(6) nd slot(1)]
    have "nat (neighbor_id nd) < Num_Neighbors (dae n)" using slots_okD(3) [OF v(6), of "nat (neighbor_id nd)" i] s by auto
    moreover have "source_addr e = ?me" "dest_addr e = i" using Find_State_key [OF tables_ok_All_Edges [OF v(1)] f] by (simp_all add: state_key_def)
    ultimately have "connected_edge_ok (dae n) nd e"
      using s lid lg(1) cost by (auto simp: connected_edge_ok_def get_leg_def)
    then have "Is_Connected_Neighbor2 (dae n) nd = Inr True" using Some p f False by (simp add: Is_Connected_Neighbor2_def)
    then show ?thesis using Some p e lid lg(1) st slot(2) by blast
  qed
qed

lemma net_ok_neighbors:
  assumes inv: "net_ok n"
  shows "neighbors_ok (dae n)"
proof -
  note v = net_invD [OF inv]
  have "case Neighbor_Nodes (dae n) ! j of None \<Rightarrow> True
      | Some nbr \<Rightarrow> (\<exists>nd. Get_Node (dae n) nbr = Some nd \<and> (Is_Connected_Neighbor2 (dae n) nd = Inr False \<or> (\<exists>l. connected_link (dae n) j l)))"
    if j: "j < Num_Neighbors (dae n)" for j
  proof (cases "Neighbor_Nodes (dae n) ! j")
    case (Some nbr)
    have "j < MAX_NEIGHBORS" using j slots_okD(2) [OF v(6)] by simp
    then obtain nd where nd: "Get_Node (dae n) nbr = Some nd" using slots_okD(3) [OF v(6), of j nbr] Some by blast
    have "connected_link (dae n) j k"
      if c: "Is_Connected_Neighbor2 (dae n) nd = Inr True" "edge nd = Some (My_Address (dae n), nbr)" "own_edge (dae n) nbr = Some e" "leg_of e = Some lid"
        "get_leg n lid = Some lg" "leg_status lg = CONNECTED_LEG" "control_link lg = Some k" for lid lg k e
      using c Some nd by (simp add: connected_link_def neighbor_link_def own_edge_def Get_Edge_def get_leg_def)
    then show ?thesis using net_ok_connected [OF inv nd] Some nd by (simp del: split_paired_Ex) blast
  qed simp
  then show ?thesis using slots_okD(2) [OF v(6)] by (simp add: neighbors_ok_def)
qed

end
