(* ===== verification/Hello_Props.thy ===== *)
theory Hello_Props
  imports Hello_System Demo
begin

text \<open>
  The properties of legs, links and the hello protocol.
\<close>

section \<open>A daemon on its own\<close>

text \<open>Node \<open>1\<close> with one local interface, before any packet has come.\<close>

definition lone_net :: "unit net" where
  "lone_net = \<lparr>dae = \<lparr>ARCH_ENDIAN = 0x80000080, My_Address = 1, wall_clock = \<lparr>sec = 200, usec = 0\<rparr>,
       monotonic_clock = \<lparr>sec = 50, usec = 0\<rparr>, Wireless = False, KR_Flags = 0, All_Nodes = [(1, new_node 1)], All_Nodes_by_ID = [1],
       Neighbor_Nodes = replicate MAX_NEIGHBORS None, Num_Neighbors = 0, Network_Legs = [], All_Edges = [], Changed_Edges = [],
       All_Groups_by_Node = [], All_Groups_by_Name = [], Changed_Group_States = [], Link_State_Update_LTS = 0, Time_queue = [],
       Schedule_Set_Route = False, Current_Routing = None, calls = []\<rparr>,
     Links = (\<lambda>_. None), Known_Interfaces = [(10, \<lparr>iid = 10, net_addr = 10, owner = 1\<rparr>)], Known_Addresses = [(10, 10)],
     rand_seq = (\<lambda>i. int i + 1), rand_pos = 0, Sessions_Blocked_On = - 1, net_calls = []\<rparr>"

definition lone_cf :: "unit net_conf" where
  "lone_cf = \<lparr>rel_cf = \<lparr>rel_ARCH_ENDIAN = 0x80000080, rel_Wireless = False, Stream_Fairness = False, TCP_Fairness = True, Fast_Retransmit = False,
       network_flag = True, Minimum_Window = 1, fl = id, rtt_mix = (\<lambda>a b. b), stream_key = (\<lambda>_. (0, 0, 0, 0))\<rparr>,
     rnd = id, c_log = (\<lambda>_. None), RAND_MAX = 2147483647, hello_timeout = \<lparr>sec = 0, usec = 100000\<rparr>, cnt_timeout = \<lparr>sec = 0, usec = 100000\<rparr>,
     hello_cnt_start = 7, stable_delay_flag = True, stable_timeout = 2, Route_Weight_used = DISTANCE_ROUTE,
     Problem_Route_Stable_Time = \<lparr>sec = 0, usec = 0\<rparr>, Config_File_Found = False, Intrusion_Tolerance_Mode = False, IT_Crypto = False,
     it_bucket_to = \<lparr>sec = 0, usec = 0\<rparr>, loss_calc_timeout = \<lparr>sec = 0, usec = 0\<rparr>, Directed_Edges = False, My_ID = 0,
     Node_Lookup_Addr_to_ID = [], Sorted_Edges = [], dl_init_channel = (\<lambda>_. True), unset_words = (0, 0)\<rparr>"

definition lone_ping :: packet_header where
  "lone_ping = \<lparr>ph_type = 0x30000000, ph_sender_id = 2, ph_ctrl_link_id = 0, ph_data_len = 24, ph_ack_len = 0, ph_seq_no = 0\<rparr>"

definition lone_hello :: hello_packet where
  "lone_hello = \<lparr>hp_seq_no = 2, hp_my_time_sec = 0, hp_my_time_usec = 0, hp_response_seq_no = 0, hp_diff_time = 0, hp_loss_rate = 0\<rparr>"

lemma lone_interface: "Get_Interface lone_net i = (if i = 10 then Some \<lparr>iid = 10, net_addr = 10, owner = 1\<rparr> else None)"
  by (simp add: lone_net_def Get_Interface_def stdhash_find_def)

lemma lone_node: "Get_Node (dae lone_net) i = (if i = 1 then Some (new_node 1) else None)"
  by (simp add: lone_net_def Get_Node_def stdhash_find_def)

lemma lone_none: "get_leg lone_net lid = None" "own_edge (dae lone_net) t = None" "Links lone_net k = None" "queued lone_net = []"
  by (simp_all add: lone_net_def get_leg_def own_edge_def Get_Edge_def)

lemma lone_slots: "Neighbor_Nodes (dae lone_net) = replicate MAX_NEIGHBORS None" "Num_Neighbors (dae lone_net) = 0"
  by (simp_all add: lone_net_def)

lemma lone_net_ok: "net_ok lone_net"
proof -
  have "tables_ok (dae lone_net)" by (rule tables_check_ok) code_simp
  moreover have "slots_ok (Get_Node (dae lone_net)) (Neighbor_Nodes (dae lone_net)) (Num_Neighbors (dae lone_net))"
    by (rule slots_okI) (auto simp: lone_node lone_slots new_node_def split: if_splits)
  moreover have "links_ok (Links lone_net) (get_leg lone_net)" by (simp add: links_ok_def lone_none)
  moreover have "unique_keys (Network_Legs (dae lone_net))" by (simp add: lone_net_def unique_keys_def)
  moreover have "ifs_ok (Get_Interface lone_net) (Known_Addresses lone_net) (Get_Node (dae lone_net))"
    unfolding ifs_ok_def lone_interface lone_node by (auto simp: lone_net_def stdhash_find_def split: if_splits)
  moreover have "edges_ok me G (own_edge (dae lone_net)) (Get_Node (dae lone_net))" for me G
    by (rule edges_okI) (auto simp: lone_none lone_node new_node_def split: if_splits)
  ultimately show ?thesis by (simp add: net_inv_def legs_ok_def lone_none timers_ok_def queue_ok_def queue_sorted_def)
qed

lemma lone_local: "is_local lone_net 10"
  by (simp add: is_local_def lone_interface) (simp add: lone_net_def)


text \<open>For evaluation: the first slot is tried before the others are enumerated.\<close>

lemma find_upt: "find P [a..<b] = (if a < b then if P a then Some a else find P [Suc a..<b] else None)"
  by (simp add: upt_rec)

lemma free_link_code [code]:
  "free_link n = (if Links n 0 = None then Some 0 else map_option int (find (\<lambda>i. Links n (int i) = None) [1..<MAX_LINKS]))"
  unfolding free_link_def MAX_LINKS_def MAX_NEIGHBORS_def by (subst find_upt) simp

declare draw_id.simps [code]

text \<open>What a control link needs.\<close>

lemma control_link_made:
  assumes inv: "net_ok n" and lg: "get_leg n lid = Some lg" "leg_status lg = DISCONNECTED_LEG"
    and k: "free_link n = Some k" and q: "draw_id (rand_seq n) (rand_pos n) = Some q"
    and j: "j < MAX_NEIGHBORS" "Neighbor_Nodes (dae n) ! j = None"
  shows "\<exists>w n'. Create_Link cf lid CONTROL_LINK n = Inr (k, n') \<and> net_ok n' \<and> get_leg n' = (get_leg n)(lid \<mapsto> new_session k w lg)"
proof -
  have none: "control_link lg = None" "leg_cost lg = - 1"
    using legs_okD(2) [OF net_invD(4) [OF inv] lg(1)] lg(2) by (simp_all add: status_ok_def)
  let ?n0 = "put_link cf lid CONTROL_LINK k n" and ?t = "snd (leg_edge lg)"
  note p = put_link_simps [OF lg(1), of cf CONTROL_LINK k]
  have l0: "get_leg ?n0 lid = Some (set_lnk CONTROL_LINK k lg)" "leg_status (set_lnk CONTROL_LINK k lg) = DISCONNECTED_LEG"
    "leg_cost (set_lnk CONTROL_LINK k lg) = - 1" using p(1) lg(2) none by (simp_all add: set_lnk_def)
  have nb: "\<exists>m. add_neighbor ?t m' = Inr m" if m': "Get_Node (dae m') = Get_Node (dae n)" "Neighbor_Nodes (dae m') = Neighbor_Nodes (dae n)" for m' :: "'a net"
  proof -
    have "find (\<lambda>j. Neighbor_Nodes (dae n) ! j = None) [0..<MAX_NEIGHBORS] \<noteq> None" using j by (auto simp: find_None_iff)
    then show ?thesis using node_of_leg [OF inv lg(1)] m' by (auto simp: add_neighbor_def split: option.splits)
  qed
  have "\<exists>m. Create_Link cf lid CONTROL_LINK n = Inr (k, m)"
    using Create_Link_unfold [OF inv lg(1) none(1), of cf, simplified] k l0 p(3,4,5) q
      nb [of "upd_leg lid f (upd_link i g (?n0\<lparr>rand_pos := x\<rparr>))" for f i g x]
    by (auto simp: start_link_def start_control_def same_world_def same_env_def same_rest_def next_rand_def bind_res_Inr_iff Let_def split: prod.splits)
  then show ?thesis using Create_Link_control [OF inv lg, of cf] by auto
qed

text \<open>A ping of node \<open>2\<close> comes from address \<open>20\<close>: an interface, a leg and its control link are made.\<close>

definition lone_leg :: "unit net res" where
  "lone_leg = bind_res (get_or_create_node 2 (dae lone_net)) (\<lambda>d.
     bind_res (Create_Interface lone_cf 2 20 20 (lone_net\<lparr>dae := d\<rparr>)) (Create_Network_Leg 10 20))"

lemma lone_leg_facts:
  "case lone_leg of Inl e \<Rightarrow> False | Inr n \<Rightarrow> Links n 0 = None \<and> rand_seq n (rand_pos n) = 1 \<and> Neighbor_Nodes (dae n) ! 0 = None \<and>
     wall_clock (dae n) = \<lparr>sec = 200, usec = 0\<rparr> \<and>
     (case get_leg n (10, 20) of None \<Rightarrow> False | Some lg \<Rightarrow> leg_status lg = DISCONNECTED_LEG \<and> control_link lg = None \<and> leg_edge lg = (1, 2) \<and>
        last_connected lg = \<lparr>sec = 0, usec = 0\<rparr>)"
  by code_simp

lemma lone_legE:
  obtains n lg d n0 where "lone_leg = Inr n" "net_ok n" "get_leg n (10, 20) = Some lg" "leg_status lg = DISCONNECTED_LEG" "control_link lg = None" "leg_edge lg = (1, 2)"
    "last_connected lg = \<lparr>sec = 0, usec = 0\<rparr>" "wall_clock (dae n) = \<lparr>sec = 200, usec = 0\<rparr>" "free_link n = Some 0" "draw_id (rand_seq n) (rand_pos n) = Some (rand_pos n)"
    "Neighbor_Nodes (dae n) ! 0 = None" "get_or_create_node 2 (dae lone_net) = Inr d" "Create_Interface lone_cf 2 20 20 (lone_net\<lparr>dae := d\<rparr>) = Inr n0"
    "Get_Interface_by_Addr n0 20 = Some \<lparr>iid = 20, net_addr = 20, owner = 2\<rparr>" "get_leg n0 (10, 20) = None" "Create_Network_Leg 10 20 n0 = Inr n"
proof -
  obtain n where n: "lone_leg = Inr n" using lone_leg_facts by (auto split: sum.splits)
  obtain d n0 where d: "get_or_create_node 2 (dae lone_net) = Inr d" "Create_Interface lone_cf 2 20 20 (lone_net\<lparr>dae := d\<rparr>) = Inr n0" "Create_Network_Leg 10 20 n0 = Inr n"
    using n by (auto simp: lone_leg_def bind_res_Inr_iff)
  note c = Create_Node_inv [OF lone_net_ok d(1)]
  have a: "Get_Interface_by_Addr (lone_net\<lparr>dae := d\<rparr>) 20 = None" by (simp add: Get_Interface_by_Addr_def lone_net_def stdhash_find_def)
  have l1: "is_local (lone_net\<lparr>dae := d\<rparr>) 10" using lone_local c(3) by (simp add: is_local_def same_env_def)
  have n0: "net_ok n0" "is_local n0 10" "Get_Interface_by_Addr n0 20 \<noteq> None"
    using ping_interface [OF c(1) l1, of 2 20 lone_cf] c(4) a d(2) by simp_all
  have ka: "stdhash_find (Known_Addresses lone_net) 20 = None" by (simp add: lone_net_def stdhash_find_def)
  have i0: "Get_Interface_by_Addr n0 20 = Some \<lparr>iid = 20, net_addr = 20, owner = 2\<rparr>"
    using d(2) ka by (auto simp: Create_Interface_def Get_Interface_by_Addr_def Get_Interface_def sh.find_insert split: if_splits)
  have none: "get_leg n0 (10, 20) = None"
    using d(2) fun_cong [OF c(2), of "(10, 20)"] lone_none(1) [of "(10, 20)"] by (auto simp: Create_Interface_def get_leg_def split: if_splits)
  have ok: "net_ok n" using ping_leg_found [OF n0(1,2) i0] none d(3) by simp
  obtain lg where f: "get_leg n (10, 20) = Some lg" "leg_status lg = DISCONNECTED_LEG" "control_link lg = None" "leg_edge lg = (1, 2)"
      "last_connected lg = \<lparr>sec = 0, usec = 0\<rparr>" "wall_clock (dae n) = \<lparr>sec = 200, usec = 0\<rparr>" "Neighbor_Nodes (dae n) ! 0 = None"
      "Links n 0 = None" "rand_seq n (rand_pos n) = 1"
    using lone_leg_facts unfolding n sum.case by (auto split: option.splits)
  have "draw_id (rand_seq n) (rand_pos n) = Some (rand_pos n)" using f(9) by (simp add: draw_id.simps [of "rand_seq n"])
  from that [OF n ok f(1-6) _ this f(7) d(1,2) i0 none d(3)] f(8) show ?thesis by (simp add: free_link_code)
qed

lemma lone_meets:
  "\<exists>n lg. process_hello lone_cf True True 10 20 lone_ping lone_hello 24 0 lone_net = Inr n \<and> net_ok n \<and> controls n 0 (10, 20) lg \<and>
     hellos_out lg = 0 \<and> leg_edge lg = (1, 2)"
proof -
  obtain n lg d n0 where n: "net_ok n" "get_leg n (10, 20) = Some lg" "leg_status lg = DISCONNECTED_LEG" "control_link lg = None" "leg_edge lg = (1, 2)"
    "last_connected lg = \<lparr>sec = 0, usec = 0\<rparr>" "wall_clock (dae n) = \<lparr>sec = 200, usec = 0\<rparr>" "free_link n = Some 0" "draw_id (rand_seq n) (rand_pos n) = Some (rand_pos n)"
    "Neighbor_Nodes (dae n) ! 0 = None" and d: "get_or_create_node 2 (dae lone_net) = Inr d" "Create_Interface lone_cf 2 20 20 (lone_net\<lparr>dae := d\<rparr>) = Inr n0"
    "Get_Interface_by_Addr n0 20 = Some \<lparr>iid = 20, net_addr = 20, owner = 2\<rparr>" "get_leg n0 (10, 20) = None" "Create_Network_Leg 10 20 n0 = Inr n"
    by (rule lone_legE)
  obtain w m where m: "Create_Link lone_cf (10, 20) CONTROL_LINK n = Inr (0, m)" "net_ok m" "get_leg m = (get_leg n)((10, 20) \<mapsto> new_session 0 w lg)"
    using control_link_made [OF n(1-3,8,9) _ n(10), of lone_cf] by (auto simp: MAX_NEIGHBORS_def)
  let ?m = "upd_leg (10, 20) (\<lambda>l. l\<lparr>last_recv_hello := wall_clock (dae m)\<rparr>) m"
  have "\<not> rnd lone_cf (in_sec lone_cf (wall_clock (dae n)) - in_sec lone_cf (last_connected lg)) < stable_timeout lone_cf"
    using n(6,7) by (simp add: in_sec_def lone_cf_def)
  then have "ping_control lone_cf (10, 20) n = Inr (Some 0, ?m)" using n(2,4) m(1) by (simp add: ping_control_def)
  moreover have "Get_Interface_by_Addr lone_net 20 = None" by (simp add: Get_Interface_by_Addr_def lone_net_def stdhash_find_def)
  ultimately have "process_hello lone_cf True True 10 20 lone_ping lone_hello 24 0 lone_net = Inr ?m"
    using d by (simp add: process_hello_def Process_hello_ping_def ping_leg_of_def lone_ping_def Is_hello_def Is_hello_req_def HELLO_MASK_def HELLO_TYPE_def HELLO_REQ_TYPE_def)
  moreover have "net_ok ?m" by (rule net_ok_touch_leg [OF m(2), of _ "new_session 0 w lg"]) (simp_all add: m(3))
  moreover have "controls ?m 0 (10, 20) ((new_session 0 w lg)\<lparr>last_recv_hello := wall_clock (dae m)\<rparr>)"
    by (simp add: controls_def get_leg_upd_leg m(3) new_session_def)
  ultimately show ?thesis using n(5) by (force simp: new_session_def set_lnk_def)
qed

section \<open>Well-formedness\<close>



text \<open>C12: In every state that the daemon reaches, a hello timer that is due runs to its end: it finds its link, the link
  is a control link with its data, the leg is there, and the list of pings never meets a leg without its interface. A
  packet that arrives at a local interface either is processed or ends the daemon in one of the listed ways.\<close>

theorem hello_timers_safe:
  assumes "net_ok n" and "(hello_step cf)\<^sup>*\<^sup>* n n'"
  shows "(E_timer_turn False (monotonic_clock (dae n')) (Time_queue (dae n')) = Run_event e q \<and> te_func e \<in> set hello_timers \<longrightarrow>
      (\<exists>n''. fire cf (te_func e) (te_code e) (with_queue q n') = Inr n'')) \<and>
    (is_local n' local \<and> process_hello cf sizes_ok port_ok local a h p rb type n' = Inl f \<longrightarrow> f \<in> hello_failures \<union> ping_failures)"
proof (intro conjI impI; elim conjE)
  note ok = hello_steps_inv [OF assms(2,1)]
  show "\<exists>n''. fire cf (te_func e) (te_code e) (with_queue q n') = Inr n''"
    if "E_timer_turn False (monotonic_clock (dae n')) (Time_queue (dae n')) = Run_event e q" "te_func e \<in> set hello_timers"
    using fire_inv [OF ok Run_event_queue [OF that(1)] that(2), of cf] by (auto simp: res_post_Inr)
  show "f \<in> hello_failures \<union> ping_failures" if "is_local n' local" "process_hello cf sizes_ok port_ok local a h p rb type n' = Inl f"
    using process_hello_inv [OF ok that(1), of cf sizes_ok port_ok a h p rb type] that(2) by simp
qed

theorem hello_timers_safe_witness:
  "(\<exists>n'. fire lone_cf Send_Hello_Ping_ev 0 lone_net = Inr n') \<and>
   process_hello lone_cf True True 10 20 lone_ping lone_hello 24 0 lone_net \<noteq> Inl (ASSERT ''Create_Link'')"
proof -
  let ?n = "net_queue Send_Hello_Ping_ev 0 None zero_timeout lone_net"
  let ?e = "new_event \<lparr>sec = 50, usec = 0\<rparr> Send_Hello_Ping_ev 0 None zero_timeout"
  have ok: "net_ok ?n" by (rule net_inv_free_timer [OF lone_net_ok]) (simp add: timer_types_def)
  have q: "E_timer_turn False (monotonic_clock (dae ?n)) (Time_queue (dae ?n)) = Run_event ?e []" by code_simp
  have w: "with_queue [] ?n = lone_net" by (simp add: with_queue_def net_queue_as_upd lone_net_def)
  from hello_timers_safe [OF ok rtranclp.rtrancl_refl, where cf = lone_cf and e = ?e and q = "[]"] q w
    hello_timers_safe [OF lone_net_ok rtranclp.rtrancl_refl, where local = 10 and cf = lone_cf and sizes_ok = True and port_ok = True and a = 20
      and h = lone_ping and p = lone_hello and rb = 24 and type = 0 and f = "ASSERT ''Create_Link''"] lone_local
  show ?thesis by (auto simp: hello_timers_def hello_failures_def ping_failures_def)
qed

section \<open>A silent neighbor\<close>

text \<open>Hellos go out until the one with the number \<open>DEAD_LINK_CNT\<close>, and none comes in.\<close>

lemma silent_hellos:
  assumes "net_ok n" "controls n k lid lg" "0 \<le> hellos_out lg" "hellos_out lg + int m = DEAD_LINK_CNT"
  shows "\<exists>n'. fold_res (\<lambda>_. Send_Hello cf k) (replicate (Suc m) ()) n = Inr n' \<and> net_ok n' \<and> same_world n n' \<and>
     controls n' k lid (lg\<lparr>hellos_out := DEAD_LINK_CNT + 1\<rparr>) \<and> E_in_queue Dead_Leg_ev k None (Time_queue (dae n'))"
  using assms
proof (induction m arbitrary: n lg)
  case 0
  then show ?case using Send_Hello_inv [OF 0(1,2), of cf]
    by (auto simp: res_post_Inr controls_def hello_sent_def int16_of_id DEAD_LINK_CNT_def)
next
  case (Suc m)
  obtain n1 where n1: "Send_Hello cf k n = Inr n1" "net_ok n1" "get_leg n1 = (get_leg n)(lid \<mapsto> hello_sent lg)" "same_world n n1"
    using Send_Hello_inv [OF Suc.prems(1,2), of cf] by (auto simp: res_post_Inr)
  have h: "hello_sent lg = lg\<lparr>hellos_out := hellos_out lg + 1\<rparr>"
    using Suc.prems(3,4) by (simp add: hello_sent_def int16_of_id DEAD_LINK_CNT_def)
  have "controls n1 k lid (hello_sent lg)" using n1(3) Suc.prems(2) by (simp add: controls_def h)
  from Suc.IH [OF n1(2) this] Suc.prems(3,4) n1(1) same_world_trans [OF n1(4)] show ?case by (auto simp: h)
qed

lemma dead_neighbor:
  assumes inv: "net_ok n" and lg: "get_leg n lid = Some lg" "leg_status lg = DISCONNECTED_LEG"
  shows "\<exists>e nd. own_edge (dae n) (snd (leg_edge lg)) = Some e \<and> state_value e = - 1 \<and>
    Get_Node (dae n) (snd (leg_edge lg)) = Some nd \<and> Is_Connected_Neighbor2 (dae n) nd = Inr False"
proof -
  let ?t = "snd (leg_edge lg)"
  note v = net_invD [OF inv]
  note p = legs_okD [OF v(4) lg(1), simplified]
  obtain e where e: "own_edge (dae n) ?t = Some e" "state_value e = - 1" using p lg(2) by (auto simp: place_ok_def status_ok_def)
  obtain nd where nd: "Get_Node (dae n) ?t = Some nd" "edge nd = Some (My_Address (dae n), ?t)" using edges_okD(1) [OF v(5) e(1)] by blast
  then have "Is_Connected_Neighbor2 (dae n) nd = Inr False" using e by (simp add: Is_Connected_Neighbor2_def own_edge_def Get_Edge_def)
  with e nd show ?thesis by blast
qed

text \<open>C38: A neighbor that falls silent is given up. When no hello is received on a leg, the hellos that the timer still sends
  up to the one after \<open>DEAD_LINK_CNT\<close> all go out, the last of them leaves the timer for \<open>Dead_Leg\<close> in the queue, and when it
  fires the leg is disconnected: its cost and that of its edge are \<open>-1\<close>, no link but the intrusion-tolerant one is left, and
  the node at its other end is no connected neighbor any more. None of these steps can fail.\<close>

theorem silent_leg_is_given_up:
  assumes "net_ok n" and "controls n k lid lg" and "0 \<le> hellos_out lg" and "hellos_out lg + int m = DEAD_LINK_CNT"
  shows "\<exists>n1 n2 l e nd. fold_res (\<lambda>_. Send_Hello cf k) (replicate (Suc m) ()) n = Inr n1 \<and>
    E_in_queue Dead_Leg_ev k None (Time_queue (dae n1)) \<and> Dead_Leg k n1 = Inr n2 \<and> net_ok n2 \<and>
    get_leg n2 lid = Some l \<and> leg_status l = DISCONNECTED_LEG \<and> leg_cost l = - 1 \<and>
    (\<forall>ty. ty \<noteq> INTRUSION_TOL_LINK \<longrightarrow> leg_links l ty = None) \<and>
    own_edge (dae n2) (snd (leg_edge lg)) = Some e \<and> state_value e = - 1 \<and>
    Get_Node (dae n2) (snd (leg_edge lg)) = Some nd \<and> Is_Connected_Neighbor2 (dae n2) nd = Inr False"
proof -
  let ?l1 = "lg\<lparr>hellos_out := DEAD_LINK_CNT + 1\<rparr>"
  obtain n1 where n1: "fold_res (\<lambda>_. Send_Hello cf k) (replicate (Suc m) ()) n = Inr n1" "net_ok n1" "controls n1 k lid ?l1"
      "E_in_queue Dead_Leg_ev k None (Time_queue (dae n1))"
    using silent_hellos [OF assms, of cf] by blast
  let ?l = "closed_leg (wall_clock (dae n1)) ?l1"
  have g: "get_leg n1 lid = Some ?l1" using n1(3) by (simp add: controls_def)
  obtain n2 where n2: "Disconnect_Network_Leg lid n1 = Inr n2" "net_ok n2" "get_leg n2 lid = Some ?l"
    using Disconnect_Network_Leg_inv [OF n1(2) g controls_status [OF n1(2,3)]] by (auto simp: res_post_Inr)
  obtain lk where "Links n1 k = Some lk" "lk_type lk = CONTROL_LINK" "lk_leg lk = lid" using controlsE [OF n1(2,3)] by metis
  then have d: "Dead_Leg k n1 = Inr n2" using g n2(1) by (simp add: Dead_Leg_def)
  have l: "leg_status ?l = DISCONNECTED_LEG" "leg_edge ?l = leg_edge lg" by (simp_all add: closed_leg_def without_links_def)
  have "leg_cost ?l = - 1" "\<forall>ty. ty \<noteq> INTRUSION_TOL_LINK \<longrightarrow> leg_links ?l ty = None"
    using legs_okD(2) [OF net_invD(4) [OF n2(2)] n2(3)] l(1) by (simp_all add: status_ok_def)
  with dead_neighbor [OF n2(2,3) l(1)] l n1(1,4) d n2(2,3) show ?thesis by fastforce
qed

theorem silent_leg_is_given_up_witness:
  "\<exists>(n :: unit net) n1 n2 l. net_ok n \<and> fold_res (\<lambda>_. Send_Hello lone_cf 0) (replicate 11 ()) n = Inr n1 \<and> Dead_Leg 0 n1 = Inr n2 \<and>
     get_leg n2 (10, 20) = Some l \<and> leg_status l = DISCONNECTED_LEG"
proof -
  obtain n :: "unit net" and lg where n: "net_ok n" "controls n 0 (10, 20) lg" "hellos_out lg = 0" using lone_meets by blast
  have "0 \<le> hellos_out lg" "hellos_out lg + int 10 = DEAD_LINK_CNT" using n(3) by (simp_all add: DEAD_LINK_CNT_def)
  from silent_leg_is_given_up [OF n(1,2) this, of lone_cf] n(1) show ?thesis by (simp add: eval_nat_numeral) blast
qed

section \<open>A second address\<close>

lemma new_address:
  assumes inv: "net_ok n" and l: "is_local n local" and s: "Get_Node (dae n) s \<noteq> None"
    and a: "Get_Interface_by_Addr n a = None" "Get_Interface n a = None" and d: "s = My_Address (dae n) \<longrightarrow> dl_init_channel cf a"
    and h: "ph_sender_id h = s"
  defines "n' \<equiv> n\<lparr>Known_Interfaces := stdhash_insert (Known_Interfaces n) a \<lparr>iid = a, net_addr = a, owner = s\<rparr>,
                   Known_Addresses := stdhash_insert (Known_Addresses n) a a\<rparr>"
  shows "process_hello cf True True local a h p rb type n = bind_res (Create_Network_Leg local a n') (\<lambda>m.
      bind_res (ping_control cf (local, a) m) (\<lambda>(lk, n1). case lk of None \<Rightarrow> Inr n1
        | Some k \<Rightarrow> if Is_hello (ph_type h) \<or> Is_hello_req (ph_type h) then Process_hello_packet cf k h p rb type n1 else Inr n1))"
    and "dae n' = dae n" "is_local n' local" "Get_Interface n' a = Some \<lparr>iid = a, net_addr = a, owner = s\<rparr>" "get_leg n' = get_leg n" "get_leg n (local, a) = None"
proof -
  have ci: "Create_Interface cf s a a n = Inr n'" using s a d by (simp add: Create_Interface_def n'_def)
  have gd: "get_or_create_node s (dae n) = Inr (dae n)" using s by (auto simp: get_or_create_node_def)
  show dn: "dae n' = dae n" "get_leg n' = get_leg n" by (simp_all add: n'_def get_leg_def fun_eq_iff)
  show ia: "Get_Interface n' a = Some \<lparr>iid = a, net_addr = a, owner = s\<rparr>" using a(2) by (simp add: n'_def Get_Interface_def sh.find_insert)
  show "is_local n' local" using l a(2) by (auto simp: is_local_def n'_def Get_Interface_def sh.find_insert)
  show none: "get_leg n (local, a) = None"
    using legs_okD(1) [OF net_invD(4) [OF inv], of "(local, a)"] a(2) by (cases "get_leg n (local, a)") (auto simp: place_ok_def)
  have "Get_Interface_by_Addr n' a = Some \<lparr>iid = a, net_addr = a, owner = s\<rparr>"
    using ia no_interface_at [OF inv a(1)] by (simp add: Get_Interface_by_Addr_def n'_def sh.find_insert)
  then have "Process_hello_ping cf h a local n = bind_res (Create_Network_Leg local a n') (ping_control cf (local, a))"
    using gd ci a(1) h none dn(2) by (simp add: Process_hello_ping_def ping_leg_of_def)
  then show "process_hello cf True True local a h p rb type n = bind_res (Create_Network_Leg local a n') (\<lambda>m.
      bind_res (ping_control cf (local, a) m) (\<lambda>(lk, n1). case lk of None \<Rightarrow> Inr n1
        | Some k \<Rightarrow> if Is_hello (ph_type h) \<or> Is_hello_req (ph_type h) then Process_hello_packet cf k h p rb type n1 else Inr n1))"
    using a(1) by (simp add: process_hello_def bind_res_assoc)
qed

text \<open>C39: A packet of the hello protocol from an address that the daemon does not know ends the daemon when its header
  names a node to which there is a leg already, connected or not, or when it names the daemon itself. The second holds
  for an address of this machine, on which the sockets of a local interface can be opened.\<close>

theorem second_address_ends_daemon:
  assumes "net_ok n" and "is_local n local" and "Get_Interface_by_Addr n a = None" and "Get_Interface n a = None"
  shows "(own_edge (dae n) (ph_sender_id h) = Some e \<and> leg_of e \<noteq> None \<and> ph_sender_id h \<noteq> My_Address (dae n) \<longrightarrow>
      process_hello cf True True local a h p rb type n = Inl edge_has_leg) \<and>
    (ph_sender_id h = My_Address (dae n) \<and> dl_init_channel cf a \<longrightarrow>
      process_hello cf True True local a h p rb type n = Inl remote_is_local)"
proof (intro conjI impI; elim conjE)
  note v = net_invD [OF assms(1)]
  show "process_hello cf True True local a h p rb type n = Inl edge_has_leg"
    if e: "own_edge (dae n) (ph_sender_id h) = Some e" "leg_of e \<noteq> None" "ph_sender_id h \<noteq> My_Address (dae n)"
  proof -
    have nd: "Get_Node (dae n) (ph_sender_id h) \<noteq> None" using edges_okD(1) [OF v(5) e(1)] by blast
    have dl: "ph_sender_id h = My_Address (dae n) \<longrightarrow> dl_init_channel cf a" using e(3) by simp
    note na = new_address [OF assms(1,2) nd assms(3,4) dl refl]
    show ?thesis unfolding na(1) using na(2-) e
      by (auto simp: Create_Network_Leg_def Get_Network_Leg_def is_local_def own_edge_def get_or_create_edge_def)
  qed
  show "process_hello cf True True local a h p rb type n = Inl remote_is_local" if s: "ph_sender_id h = My_Address (dae n)" "dl_init_channel cf a"
  proof -
    have "Get_Node (dae n) (ph_sender_id h) \<noteq> None"
      using tables_okD(1) [OF v(1)] s(1) by (auto simp: nodes_ok_def Get_Node_def stdhash_find_None)
    note na = new_address [OF assms(1,2) this assms(3,4) impI [OF s(2)] refl]
    show ?thesis unfolding na(1) using na(2-) s
      by (auto simp: Create_Network_Leg_def is_local_def)
  qed
qed

theorem second_address_ends_daemon_witness:
  "\<exists>n :: unit net. net_ok n \<and> process_hello lone_cf True True 10 30 lone_ping lone_hello 24 0 n = Inl edge_has_leg \<and>
     process_hello lone_cf True True 10 30 (lone_ping\<lparr>ph_sender_id := 1\<rparr>) lone_hello 24 0 n = Inl remote_is_local"
proof -
  have "case lone_leg of Inl e \<Rightarrow> False | Inr n \<Rightarrow> Get_Interface_by_Addr n 30 = None \<and> Get_Interface n 30 = None \<and> My_Address (dae n) = 1 \<and>
      (case Get_Interface n 10 of None \<Rightarrow> False | Some r \<Rightarrow> owner r = 1) \<and> (case own_edge (dae n) 2 of None \<Rightarrow> False | Some e \<Rightarrow> leg_of e \<noteq> None)"
    by code_simp
  moreover obtain n where n: "lone_leg = Inr n" "net_ok n" by (rule lone_legE)
  ultimately obtain e where f: "Get_Interface_by_Addr n 30 = None" "Get_Interface n 30 = None" "My_Address (dae n) = 1" "is_local n 10"
      "own_edge (dae n) 2 = Some e" "leg_of e \<noteq> None"
    unfolding n(1) sum.case by (auto simp: is_local_def split: option.splits)
  have "dl_init_channel lone_cf 30" by (simp add: lone_cf_def)
  with second_address_ends_daemon [OF n(2) f(4,1,2), where h = lone_ping and e = e and cf = lone_cf and p = lone_hello and rb = 24 and type = 0]
    second_address_ends_daemon [OF n(2) f(4,1,2), where h = "lone_ping\<lparr>ph_sender_id := 1\<rparr>" and cf = lone_cf and p = lone_hello and rb = 24 and type = 0] f n(2)
  show ?thesis by (auto simp: lone_ping_def)
qed

section \<open>The measured cost\<close>

text \<open>What the cost relies on: rounding to a floating point type keeps the order, and keeps half-integers of this size.\<close>

definition rounds_small :: "(rat \<Rightarrow> rat) \<Rightarrow> bool" where
  "rounds_small r \<longleftrightarrow> mono r \<and> (\<forall>i :: int. \<bar>i\<bar> \<le> 2048 \<longrightarrow> r (of_int i / 2) = of_int i / 2)"

lemma rounds_smallD:
  assumes "rounds_small r"
  shows "x \<le> of_int i / 2 \<Longrightarrow> \<bar>i\<bar> \<le> 2048 \<Longrightarrow> r x \<le> of_int i / 2" "of_int i / 2 \<le> x \<Longrightarrow> \<bar>i\<bar> \<le> 2048 \<Longrightarrow> of_int i / 2 \<le> r x"
  using assms unfolding rounds_small_def mono_def by metis+

lemma Expected_Latency_bounds: "2 \<le> Expected_Latency cf t l" "Expected_Latency cf t l \<le> 600"
  by (simp_all add: Expected_Latency_def Let_def MAX_LATENCY_def)

lemma to_int_half:
  assumes "rounds_small r" "of_int a \<le> x" "x \<le> of_int b" "0 \<le> a" "b \<le> 1000"
  shows "a \<le> int16_of (to_int (r (x + 1 / 2)))" "int16_of (to_int (r (x + 1 / 2))) \<le> b"
proof -
  have "of_int (2 * a + 1) / 2 \<le> r (x + 1 / 2)"
    by (rule rounds_smallD(2) [OF assms(1)]) (use assms(2-5) order_trans [OF assms(2,3)] in \<open>simp_all add: field_simps\<close>)
  moreover have "r (x + 1 / 2) \<le> of_int (2 * b + 1) / 2"
    by (rule rounds_smallD(1) [OF assms(1)]) (use assms(2-5) order_trans [OF assms(2,3)] in \<open>simp_all add: field_simps\<close>)
  ultimately have "of_int a \<le> r (x + 1 / 2)" "r (x + 1 / 2) < of_int (b + 1)" by (simp_all add: field_simps)
  then have "a \<le> \<lfloor>r (x + 1 / 2)\<rfloor>" "\<lfloor>r (x + 1 / 2)\<rfloor> \<le> b" "0 \<le> r (x + 1 / 2)" using assms(4) by (auto simp: le_floor_iff floor_le_iff intro: order_trans)
  moreover have "int16_of y = y" if "0 \<le> y" "y \<le> 1000" for y using that by (simp add: int16_of_id)
  from this [of "\<lfloor>r (x + 1 / 2)\<rfloor>"] have "int16_of \<lfloor>r (x + 1 / 2)\<rfloor> = \<lfloor>r (x + 1 / 2)\<rfloor>" using calculation assms(4,5) by linarith
  ultimately show "a \<le> int16_of (to_int (r (x + 1 / 2)))" "int16_of (to_int (r (x + 1 / 2))) \<le> b" by (simp_all add: to_int_def)
qed

lemma measured_cost_bounds:
  assumes r: "rounds_small (rnd cf)" "rounds_small (fl (rel_cf cf))" and w: "Route_Weight_used cf \<noteq> LOSSRATE_ROUTE"
    and m: "measured_cost cf now base prev c = Some co"
  shows "2 \<le> \<bar>co\<bar> \<and> \<bar>co\<bar> \<le> 600"
proof (cases "Route_Weight_used cf")
  case LATENCY_ROUTE
  define t1 where "t1 = (if fl (rel_cf cf) (rnd cf (cd_rtt c / 2)) < 1 then 1 else fl (rel_cf cf) (rnd cf (cd_rtt c / 2)))"
  define t2 where "t2 = fl (rel_cf cf) (rnd cf (t1 + 4))"
  define x where "x = (if t2 < 300 then t2 else 300)"
  have co: "co = int16_of (to_int (rnd cf (x + 1 / 2)))"
    using m LATENCY_ROUTE by (auto simp: measured_cost_def latency_cost_def Let_def x_def t2_def t1_def split: if_splits)
  have "of_int 10 / 2 \<le> t2" unfolding t2_def by (intro rounds_smallD(2) [OF r(2)] rounds_smallD(2) [OF r(1)]) (simp_all add: t1_def)
  then have "of_int 2 \<le> x" "x \<le> of_int 600" by (simp_all add: x_def)
  from to_int_half [OF r(1) this] co show ?thesis by simp
next
  case AVERAGE_ROUTE
  then have "co = int16_of (to_int (rnd cf (Expected_Latency cf (cd_rtt c) (est_loss_rate c) + 1 / 2)))"
    using m by (auto simp: measured_cost_def average_cost_def Let_def split: if_splits)
  then show ?thesis using to_int_half [OF r(1), of 2 "Expected_Latency cf (cd_rtt c) (est_loss_rate c)" 600]
      Expected_Latency_bounds [of cf "cd_rtt c" "est_loss_rate c"] by simp
next
  case PROBLEM_ROUTE
  define c0 where "c0 = int16_of (to_int (rnd cf (Expected_Latency cf (cd_rtt c) (est_loss_rate c) + 1 / 2)))"
  have "co = c0 \<or> co = int16_of (- c0)"
    using m PROBLEM_ROUTE by (auto simp: measured_cost_def problem_cost_def Let_def c0_def split: if_splits)
  moreover have "2 \<le> c0" "c0 \<le> 600"
    using to_int_half [OF r(1), of 2 _ 600] Expected_Latency_bounds [of cf "cd_rtt c" "est_loss_rate c"] by (simp_all add: c0_def)
  ultimately show ?thesis by (auto simp: int16_of_id)
qed (use m w in \<open>auto simp: measured_cost_def\<close>)

text \<open>C40: With every metric but the loss rate, the cost that is measured for a connected leg has an absolute value between
  2 and 600. It is never \<open>-1\<close>, the value for a leg that is down, so the update of the cost never ends the daemon: the leg
  stays connected, the invariant holds and the edge that is flooded has the new cost.\<close>

theorem update_cost_bounded:
  assumes "net_ok n" and "get_leg n lid = Some lg" and "leg_status lg = CONNECTED_LEG"
    and "rounds_small (rnd cf)" and "rounds_small (fl (rel_cf cf))" and "Route_Weight_used cf \<noteq> LOSSRATE_ROUTE"
  shows "\<exists>ret n' l e. Network_Leg_Update_Cost cf lid n = Inr (ret, n') \<and> net_ok n' \<and> get_leg n' lid = Some l \<and>
    leg_status l = CONNECTED_LEG \<and> (leg_cost l = leg_cost lg \<or> 2 \<le> \<bar>leg_cost l\<bar> \<and> \<bar>leg_cost l\<bar> \<le> 600) \<and>
    own_edge (dae n') (snd (leg_edge lg)) = Some e \<and> state_value e = leg_cost l"
proof -
  note m = measured_cost_bounds [OF assms(4-6)]
  have "res_post (if - 1 \<in> {c :: int. 2 \<le> \<bar>c\<bar> \<and> \<bar>c\<bar> \<le> 600} then {cost_mismatch} else {})
    (\<lambda>(ret, n'). net_ok n' \<and> (\<exists>c. (c = leg_cost lg \<or> c \<in> {c. 2 \<le> \<bar>c\<bar> \<and> \<bar>c\<bar> \<le> 600}) \<and> get_leg n' = (get_leg n)(lid \<mapsto> lg\<lparr>leg_cost := c\<rparr>)) \<and>
      same_world n n' \<and> Links n' = Links n) (Network_Leg_Update_Cost cf lid n)"
    by (rule Network_Leg_Update_Cost_within [OF assms(1-3)]) (use m in blast)
  then obtain ret n' where u: "Network_Leg_Update_Cost cf lid n = Inr (ret, n')" "net_ok n'"
      and "\<exists>c. (c = leg_cost lg \<or> 2 \<le> \<bar>c\<bar> \<and> \<bar>c\<bar> \<le> 600) \<and> get_leg n' = (get_leg n)(lid \<mapsto> lg\<lparr>leg_cost := c\<rparr>)"
    by (cases "Network_Leg_Update_Cost cf lid n") (simp_all split: prod.splits)
  then obtain c where c: "get_leg n' lid = Some (lg\<lparr>leg_cost := c\<rparr>)" "c = leg_cost lg \<or> 2 \<le> \<bar>c\<bar> \<and> \<bar>c\<bar> \<le> 600"
    by (metis fun_upd_same)
  have "\<exists>e. own_edge (dae n') (snd (leg_edge lg)) = Some e \<and> state_value e = c"
    using legs_okD(1) [OF net_invD(4) [OF u(2)] c(1)] by (auto simp: place_ok_def)
  with u c assms(3) show ?thesis by fastforce
qed

text \<open>Node \<open>1\<close> with a connected leg to node \<open>2\<close>.\<close>

definition up_leg :: Network_Leg where
  "up_leg = (new_leg (10, 20) (1, 2))\<lparr>leg_links := [CONTROL_LINK \<mapsto> 0, UDP_LINK \<mapsto> 1, RELIABLE_UDP_LINK \<mapsto> 2, REALTIME_UDP_LINK \<mapsto> 3],
     leg_status := CONNECTED_LEG, leg_cost := 600, ctrl_link_id := 5, other_side_ctrl_link_id := 6\<rparr>"

definition up_edge :: State_Data where
  "up_edge = set_leg (10, 20) (new_edge \<lparr>sec = 100, usec = 0\<rparr> True 1 1 2 600 (- 1) USHRT_MAX)"

definition up_net :: "unit net" where
  "up_net = lone_net\<lparr>dae := (dae lone_net)\<lparr>All_Nodes := [(1, new_node 1), (2, (new_node 2)\<lparr>edge := Some (1, 2), neighbor_id := 0\<rparr>)],
       All_Nodes_by_ID := [1, 2], Neighbor_Nodes := (replicate MAX_NEIGHBORS None)[0 := Some 2], Num_Neighbors := 1,
       Network_Legs := [((10, 20), up_leg)], All_Edges := [(1, \<lparr>address = 1, states = [(2, up_edge)]\<rparr>)]\<rparr>,
     Links := [0 \<mapsto> put_c_data new_Control_Data (new_Link lone_cf 0 CONTROL_LINK (10, 20)), 1 \<mapsto> new_Link lone_cf 1 UDP_LINK (10, 20),
       2 \<mapsto> new_Link lone_cf 2 RELIABLE_UDP_LINK (10, 20), 3 \<mapsto> (new_Link lone_cf 3 REALTIME_UDP_LINK (10, 20))\<lparr>lk_prot_data := Realtime_Prot new_Realtime_Data\<rparr>],
     Known_Interfaces := [(10, \<lparr>iid = 10, net_addr = 10, owner = 1\<rparr>), (20, \<lparr>iid = 20, net_addr = 20, owner = 2\<rparr>)],
     Known_Addresses := [(10, 10), (20, 20)]\<rparr>"

lemma up_leg_at: "get_leg up_net lid = (if lid = (10, 20) then Some up_leg else None)"
  by (simp add: up_net_def get_leg_def stdhash_find_def)

lemma up_node: "Get_Node (dae up_net) i = (if i = 1 then Some (new_node 1) else if i = 2 then Some ((new_node 2)\<lparr>edge := Some (1, 2), neighbor_id := 0\<rparr>) else None)"
  by (simp add: up_net_def Get_Node_def stdhash_find_def)

lemma up_edge_at: "own_edge (dae up_net) t = (if t = 2 then Some up_edge else None)"
  by (simp add: up_net_def own_edge_def Get_Edge_def Find_State_def stdhash_find_def lone_net_def)

lemma up_me: "My_Address (dae up_net) = 1"
  by (simp add: up_net_def lone_net_def)

lemma up_interface: "Get_Interface up_net i =
    (if i = 10 then Some \<lparr>iid = 10, net_addr = 10, owner = 1\<rparr> else if i = 20 then Some \<lparr>iid = 20, net_addr = 20, owner = 2\<rparr> else None)"
  by (simp add: up_net_def Get_Interface_def stdhash_find_def)

lemma up_edge_sel: "leg_of up_edge = Some (10, 20)" "state_value up_edge = 600" "is_edge up_edge"
  by (simp_all add: up_edge_def new_edge_leg set_leg_simps leg_of_set_leg)

lemma up_leg_sel:
  "leg_id up_leg = (10, 20)" "leg_edge up_leg = (1, 2)" "leg_links up_leg = [CONTROL_LINK \<mapsto> 0, UDP_LINK \<mapsto> 1, RELIABLE_UDP_LINK \<mapsto> 2, REALTIME_UDP_LINK \<mapsto> 3]"
  "leg_status up_leg = CONNECTED_LEG" "leg_cost up_leg = 600"
  by (simp_all add: up_leg_def new_leg_def)

lemma up_net_ok: "net_ok up_net"
proof -
  have "tables_ok (dae up_net)" by (rule tables_check_ok) code_simp
  moreover have "slots_ok (Get_Node (dae up_net)) (Neighbor_Nodes (dae up_net)) (Num_Neighbors (dae up_net))"
  proof -
    have ns: "Neighbor_Nodes (dae up_net) = (replicate MAX_NEIGHBORS None)[0 := Some 2]" "Num_Neighbors (dae up_net) = 1" by (simp_all add: up_net_def)
    show ?thesis unfolding ns by (rule slots_okI) (auto simp: up_node new_node_def nth_list_update MAX_NEIGHBORS_def split: if_splits)
  qed
  moreover have "links_ok (Links up_net) (get_leg up_net)"
  proof (rule links_okI)
    fix k lk assume "Links up_net k = Some lk"
    then show "lk_id lk = k \<and> 0 \<le> k \<and> k < int MAX_LINKS \<and> prot_ok lk \<and> (\<exists>lg. get_leg up_net (lk_leg lk) = Some lg \<and> leg_links lg (lk_type lk) = Some k)"
      by (auto simp: up_net_def [THEN arg_cong, of Links] up_leg_at up_leg_sel new_Link_def put_c_data_def prot_ok_def c_data_of_def MAX_LINKS_def MAX_NEIGHBORS_def split: if_splits)
  next
    fix lid lg ty k assume "get_leg up_net lid = Some lg" "leg_links lg ty = Some k"
    then show "\<exists>lk. Links up_net k = Some lk \<and> lk_leg lk = lid \<and> lk_type lk = ty"
      by (auto simp: up_net_def [THEN arg_cong, of Links] up_leg_at up_leg_sel new_Link_def put_c_data_def split: if_splits)
  qed
  moreover have "unique_keys (Network_Legs (dae up_net))" by (simp add: up_net_def unique_keys_def)
  moreover have "ifs_ok (Get_Interface up_net) (Known_Addresses up_net) (Get_Node (dae up_net))"
    unfolding ifs_ok_def up_interface up_node by (auto simp: up_net_def stdhash_find_def split: if_splits)
  moreover have "edges_ok 1 (get_leg up_net) (own_edge (dae up_net)) (Get_Node (dae up_net))"
    by (rule edges_okI) (auto simp: up_edge_at up_node up_leg_at up_leg_sel up_edge_sel edge_leg_def new_node_def split: if_splits)
  moreover have "legs_ok {} 1 (get_leg up_net) (Get_Interface up_net) (own_edge (dae up_net)) (Get_Node (dae up_net))"
    by (auto simp: legs_ok_def place_ok_def status_ok_def has_slot_def up_edge_at up_node up_leg_at up_leg_sel up_edge_sel up_interface split: if_splits)
  moreover have "timers_ok (Links up_net) (Time_queue (dae up_net))"
    by (simp add: timers_ok_def queue_ok_def queue_sorted_def up_net_def lone_net_def)
  ultimately show ?thesis by (simp add: net_inv_def up_me)
qed

theorem update_cost_bounded_witness:
  "\<exists>ret n' l. Network_Leg_Update_Cost (lone_cf\<lparr>Route_Weight_used := AVERAGE_ROUTE\<rparr>) (10, 20) up_net = Inr (ret, n') \<and> net_ok n' \<and>
     get_leg n' (10, 20) = Some l \<and> leg_status l = CONNECTED_LEG"
  using update_cost_bounded [OF up_net_ok, of "(10, 20)" up_leg "lone_cf\<lparr>Route_Weight_used := AVERAGE_ROUTE\<rparr>"]
  by (auto simp: up_leg_at up_leg_sel rounds_small_def mono_def lone_cf_def)

end
