(* ===== verification/Flood_Sync.thy ===== *)
theory Flood_Sync
  imports Flood_Packet Flood_Send
begin

text \<open>
  Sending and receiving put together: a daemon that processes everything its neighbor has sent with
  \<open>Net_Send_State_All\<close> knows all states of the neighbor, whatever the byte order of the two hosts.
\<close>

text \<open>The packets as they arrive, one after the other, on a control link that lost none.\<close>

definition receive_all :: "Node_ID \<Rightarrow> int32u \<Rightarrow> wire list list \<Rightarrow> daemon \<Rightarrow> daemon res" where
  "receive_all sender type ms d =
     fold_res (\<lambda>b d. process_payload sender (as_received (Same_endian (ARCH_ENDIAN d) type) b) type d) ms d"

lemma process_payload_total:
  assumes "tables_ok d" "ready d sender" "neighbor d sender k" "packet_prot d type = Some p"
    and "packet_ok p (ARCH_ENDIAN d) type items"
  shows "\<exists>d'. process_payload sender items type d = Inr d' \<and> ready d' sender"
proof -
  obtain d2 b where "process_items (Process_state_cell p) p sender type items (d, False) = Inr (d2, b)" "ready d2 sender"
    using process_items_prot_total [OF assms(1-3,5)] by blast
  then show ?thesis
    using assms(4) same_tablesD(2) [OF same_tables_simps(3), of d2] by (simp add: process_payload_def packet_prot_def)
qed

lemma received_cell:
  assumes "(s, c) \<in> set (sent_cells items)"
  shows "\<exists>c'. (s, c') \<in> set (packet_cells p arch ty (as_received (Same_endian arch ty) items)) \<and>
    dest c' = dest c \<and> cell_ts c' = cell_ts c"
proof -
  have "(s, common_cell c) \<in> set (common_cells (packet_cells p arch ty (as_received (Same_endian arch ty) items)))"
    unfolding received_packet(2) using assms by (force simp: common_cells_def)
  then obtain c' where "(s, c') \<in> set (packet_cells p arch ty (as_received (Same_endian arch ty) items))"
    "common_cell c' = common_cell c"
    by (auto simp: common_cells_def)
  moreover from this(2) have "dest c' = dest c \<and> cell_ts c' = cell_ts c"
    by (cases c; cases c') (simp add: common_cell_def cell_ts_def)
  ultimately show ?thesis by blast
qed

lemma receive_all_knows:
  assumes "tables_ok d" "ready d sender" "neighbor d sender k" "packet_prot d type = Some p" "\<forall>b \<in> set ms. sent_ok b"
  shows "\<exists>d'. receive_all sender type ms d = Inr d' \<and> progress p k d d' \<and>
    (\<forall>(s, c) \<in> set (concat (map sent_cells ms)). knows p d' s (dest c) (cell_ts c))"
  using assms
proof (induction ms arbitrary: d)
  case Nil
  then show ?case using progress_refl by (simp add: receive_all_def)
next
  case (Cons b ms)
  let ?items = "as_received (Same_endian (ARCH_ENDIAN d) type) b"
  have "packet_ok p (ARCH_ENDIAN d) type ?items" using received_packet(1) Cons.prems(5) by simp
  then obtain d1 where d1: "process_payload sender ?items type d = Inr d1" "ready d1 sender"
    using process_payload_total [OF Cons.prems(1-4)] by blast
  note P = process_payload_prot [OF Cons.prems(1,3,4) d1(1)]
  note D = progressD(1,2) [OF P(1)]
  have "packet_prot d1 type = Some p" using Cons.prems(4) D(2) by (simp add: packet_prot_def env_le_def)
  from Cons.IH [OF D(1) d1(2) neighbor_env_le [OF D(2) Cons.prems(3)] this] Cons.prems(5) obtain d'
    where d': "receive_all sender type ms d1 = Inr d'" "progress p k d1 d'"
      "\<forall>(s, c) \<in> set (concat (map sent_cells ms)). knows p d' s (dest c) (cell_ts c)" by auto
  have "knows p d' s (dest c) (cell_ts c)" if cell: "(s, c) \<in> set (sent_cells b)" for s c
  proof -
    obtain c' where "(s, c') \<in> set (packet_cells p (ARCH_ENDIAN d) type ?items)" "dest c' = dest c" "cell_ts c' = cell_ts c"
      using received_cell [OF cell] by blast
    then show ?thesis using P(2) progressD(3) [OF d'(2)] by metis
  qed
  with d' d1(1) progress_trans [OF P(1) d'(2)] show ?case by (auto simp: receive_all_def)
qed

text \<open>Time stamps of states fit the 32 bits they have in a cell.\<close>

definition stamp_fits :: "State_Data \<Rightarrow> bool" where
  "stamp_fits s \<longleftrightarrow> - (2 ^ 31) \<le> timestamp_sec s \<and> timestamp_sec s < 2 ^ 31 \<and>
     - (2 ^ 31) \<le> timestamp_usec s \<and> timestamp_usec s < 2 ^ 31"

lemma sint_word_of_int_32: "- (2 ^ 31) \<le> x \<Longrightarrow> x < 2 ^ 31 \<Longrightarrow> sint (word_of_int x :: int32u) = x"
  using signed_take_bit_int_eq_self [of 31 x] by (simp add: sint_sbintrunc')

lemma make_cell_key: "dest (make_cell p now s) = dest_addr s" "stamp_fits s \<Longrightarrow> cell_ts (make_cell p now s) = ts s"
  by (cases p; simp add: make_cell_def Edge_Set_state_cell_def cell_ts_def ts_def stamp_fits_def sint_word_of_int_32)+

section \<open>Nothing new\<close>

text \<open>A packet of known cells changes no state, puts nothing into the buffer and asks for no new
  routes; so a flood dies out where the news is known.\<close>

definition unmoved :: "daemon \<Rightarrow> daemon \<Rightarrow> bool" where
  "unmoved d d' \<longleftrightarrow> same_nodes d d' \<and> (\<forall>q. All_States q d' = All_States q d \<and>
     map (\<lambda>(k, cg). (k, state cg)) (Changed_States q d') = map (\<lambda>(k, cg). (k, state cg)) (Changed_States q d)) \<and>
     Time_queue d' = Time_queue d \<and> calls d' = calls d"

lemma unmoved_refl [simp]: "unmoved d d"
  by (simp add: unmoved_def)

lemma unmoved_trans: "unmoved d d' \<Longrightarrow> unmoved d' d'' \<Longrightarrow> unmoved d d''"
  unfolding unmoved_def using same_nodes_trans by metis

lemma unmovedD: "unmoved d d' \<Longrightarrow> ARCH_ENDIAN d' = ARCH_ENDIAN d"
  "unmoved d d' \<Longrightarrow> knows p d' s t stamp = knows p d s t stamp"
  by (simp_all add: unmoved_def same_nodes_def knows_def)

lemma modify_changed_keys:
  assumes "\<And>c. state (f c) = state c"
  shows "map (\<lambda>(k, cg). (k, state cg)) (modify_changed h s t f) = map (\<lambda>(k, cg). (k, state cg)) h"
proof (induction h)
  case (Cons e h)
  then show ?case by (cases e) (simp add: assms)
qed simp

lemma unmoved_mark_informed: "unmoved d (mark_informed p i ptr d)"
proof -
  have "map (\<lambda>(k, cg). (k, state cg)) (Changed_States q (mark_informed p i ptr d)) =
      map (\<lambda>(k, cg). (k, state cg)) (Changed_States q d)" for q
    using mark_informed_facts(3,4) by (cases "q = p") (simp_all add: modify_changed_keys)
  moreover have "Time_queue (mark_informed p i ptr d) = Time_queue d" "calls (mark_informed p i ptr d) = calls d"
    by (cases p; simp add: mark_informed_def)+
  ultimately show ?thesis using mark_informed_facts(1,2) by (simp add: unmoved_def)
qed

lemma process_one_known:
  assumes "process_one process p sender ty source cell (d, b) = Inr (d', b')"
    and "knows p d source (dest (host_cell (ARCH_ENDIAN d) ty cell)) (cell_ts (host_cell (ARCH_ENDIAN d) ty cell))"
  shows "unmoved d d' \<and> b' = b"
  using assms(1)
proof (cases rule: process_one_cases)
  case stale
  then show ?thesis by simp
next
  case (marked nd)
  then show ?thesis using unmoved_mark_informed by simp
qed (use assms(2) in blast)+

lemma process_cells_known:
  assumes "process_cells process p sender ty source n items (d, b) = Inr (d', b')"
    and "\<forall>c. Cell c \<in> set (take n items) \<longrightarrow>
      knows p d source (dest (host_cell (ARCH_ENDIAN d) ty c)) (cell_ts (host_cell (ARCH_ENDIAN d) ty c))"
  shows "unmoved d d' \<and> b' = b"
  using assms
proof (induction n arbitrary: items d b)
  case (Suc n)
  from Suc.prems(1) obtain c rest where items: "items = Cell c # rest"
    by (cases "(process, p, sender, ty, source, Suc n, items, (d, b))" rule: process_cells.cases) auto
  with Suc.prems(1) obtain d1 b1 where
    one: "process_one process p sender ty source c (d, b) = Inr (d1, b1)" and
    more: "process_cells process p sender ty source n rest (d1, b1) = Inr (d', b')"
    by (auto simp: bind_res_Inr_iff)
  have U: "unmoved d d1" "b1 = b" using process_one_known [OF one] Suc.prems(2) items by auto
  then have "unmoved d1 d' \<and> b' = b1"
    using Suc.prems(2) items unmovedD [OF U(1)] by (intro Suc.IH [OF more]) simp
  with U show ?case using unmoved_trans by blast
qed simp

lemma process_items_known:
  assumes "process_items process p sender ty items (d, b) = Inr (d', b')"
    and "\<forall>(source, c) \<in> set (packet_cells p (ARCH_ENDIAN d) ty items). knows p d source (dest c) (cell_ts c)"
  shows "unmoved d d' \<and> b' = b"
  using assms
proof (induction items arbitrary: d b rule: measure_induct_rule [where f = length])
  case (less items)
  show ?case
  proof (cases items)
    case Nil
    then show ?thesis using less.prems by simp
  next
    case (Cons w rest)
    with less.prems(1) obtain h where w: "w = Hdr h" by (cases w) auto
    let ?h = "Process_state_header p (ARCH_ENDIAN d) ty h"
    let ?n = "unat (num_cells ?h)"
    from less.prems(1) obtain d1 b1 where
      cells: "process_cells process p sender ty (pkt_source ?h) ?n rest (d, b) = Inr (d1, b1)" and
      more: "process_items process p sender ty (drop ?n rest) (d1, b1) = Inr (d', b')"
      by (auto simp: Cons w Let_def bind_res_Inr_iff)
    have kn: "\<forall>(source, c) \<in> set (map (\<lambda>c. (pkt_source ?h, host_cell (ARCH_ENDIAN d) ty c)) (cells_of (take ?n rest))).
        knows p d source (dest c) (cell_ts c)"
      "\<forall>(source, c) \<in> set (packet_cells p (ARCH_ENDIAN d) ty (drop ?n rest)). knows p d source (dest c) (cell_ts c)"
      using less.prems(2) by (auto simp: Cons w Let_def)
    have "Cell c \<in> set (take ?n rest) \<Longrightarrow> c \<in> set (cells_of (take ?n rest))" for c
      by (force simp: cells_of_def)
    then have U: "unmoved d d1" "b1 = b" using process_cells_known [OF cells] kn(1) by auto
    then have "unmoved d1 d' \<and> b' = b1"
      using less.IH [OF _ more] kn(2) Cons unmovedD [OF U(1)] by simp
    with U show ?thesis using unmoved_trans by blast
  qed
qed

lemma process_payload_known:
  assumes "packet_prot d type = Some p" "process_payload sender items type d = Inr d'"
    and "\<forall>(source, c) \<in> set (packet_cells p (ARCH_ENDIAN d) type items). knows p d source (dest c) (cell_ts c)"
  shows "unmoved d d'"
proof -
  obtain d1 b where P: "process_items (Process_state_cell p) p sender type items (d, False) = Inr (d1, b)"
    "d' = (if b \<and> Is_route_change p then Schedule_Routes d1 else d1)"
    using assms(1,2) by (auto simp: process_payload_def packet_prot_def bind_res_Inr_iff)
  with process_items_known [OF P(1) assms(3)] show ?thesis by simp
qed

end
