(* ===== verification/Spec2Isabelle.thy ===== *)
theory Spec2Isabelle
  imports Udp_Link Leaky_Bucket Hash_Spec Reliable_Delivery Multipath_Props Hello_Props Demo Flood_Sync
begin

text \<open>
  A model of the Spines overlay daemon (\<open>src/daemon\<close>) and of the libraries it stands on
  (\<open>src/libspread-util\<close>, \<open>src/stdutil\<close>), with the theorems that make its core correct.

  A Spines daemon keeps a replica of the state of the overlay: which nodes exist, which edges they
  report with which cost, and which nodes are members of which groups. Every daemon floods the
  states it learns to its neighbors over reliable control links, computes shortest paths on its
  replica, and forwards data packets along them. Everything runs in one event loop with timers.

  \<^bold>\<open>Theories and code.\<close>

  \<^item> \<open>Prelude\<close>: errors as values (\<open>'a res\<close>: \<open>EXIT\<close>, \<open>ASSERT\<close> and \<open>UNDEF\<close> for undefined behaviour of C),
    C integer arithmetic, lemmas on lists, maps and words. \<open>Net_Types\<close>: \<open>net_types.h\<close> and \<open>arch.h\<close> (types
    of packets, byte order). \<open>Comparator\<close>: the order of node identifiers.
  \<^item> \<open>Events\<close>: the timers of \<open>libspread-util/src/events.c\<close>; the queue refines a sorted list of events.
  \<^item> \<open>Hash_Table\<close>: the interface of the hash tables the daemon uses, as a locale, and association lists
    in the order of iteration as its instance.
  \<^item> \<open>Std_Util\<close>, \<open>Std_Hash\<close>: \<open>stdutil/src/stdhash.c\<close>, the hash tables themselves (open addressing, double hashing,
    inactive nodes, rehashing, iterators), and the powers of two they are sized with. \<open>Hash_Probe\<close>: a probe
    sequence with an odd offset meets every position of a table of a power of two; \<open>Hash_Correct\<close>, \<open>Hash_Ops\<close>:
    every operation ends and keeps the invariant; \<open>Hash_Contract\<close>: one locale for a table with several entries per
    key, interpreted both for this table and for the association lists of \<open>Hash_Table\<close>; \<open>Hash_Spec\<close>: what a table
    that has gone through any operations promises. The loops without a bound are \<open>partial_function\<close>s; that they
    end is proved.
  \<^item> \<open>Std_Carr\<close>: \<open>stdutil/src/stdcarr.c\<close>, the circular array, on one block of memory in which copies outside the
    block or between overlapping regions are undefined. \<open>Carr_Shift\<close>, \<open>Carr_Refine\<close>: the four ways of shifting
    open and close gaps; \<open>Carr_Ops\<close>: what each operation does to the sequence of values; \<open>Carr_Spec\<close>: the array
    refines lists.
  \<^item> \<open>Daemon\<close>: the state of the daemon as one record; the tables of the two flooding protocols;
    \<open>State_Tables\<close>: their operations. \<open>Node\<close>: \<open>node.c\<close>. \<open>Link_State\<close>: \<open>link_state.c\<close>. \<open>Multicast\<close>: \<open>multicast.c\<close>.
  \<^item> \<open>State_Changes\<close>, \<open>State_Flood\<close>: \<open>state_flood.c\<close> (buffering, sending and processing of states) over the
    functions of a protocol, which are a locale in \<open>State_Protocol\<close>, interpreted for edges and groups.
    \<open>State_Inv\<close> is the invariant of the tables; \<open>Flood_Receive\<close>, \<open>Flood_Total\<close>, \<open>Flood_Send\<close>,
    \<open>Flood_Updates\<close>, \<open>Flood_Schedule\<close>, \<open>Flood_Packet\<close> and \<open>Flood_Sync\<close> show what receiving and sending do.
  \<^item> \<open>Route_Spec\<close>: paths, their costs and best routes, without reference to the code; \<open>Route\<close>, \<open>Route_Table\<close>:
    \<open>route.c\<close>; \<open>Route_Correct\<close>, \<open>Route_Update\<close>: the table of the code holds best routes.
  \<^item> \<open>Forwarding\<close>, \<open>Forward_Correct\<close>: \<open>Deliver_and_Forward_Data\<close>, \<open>Forward_Data\<close> and source-based routing.
  \<^item> \<open>Link_Loss\<close>: the loss estimate of \<open>link.c\<close>.
  \<^item> \<open>Leaky_Bucket\<close>: the rate limit of a leg (\<open>Link_Send\<close>, \<open>Fill_Leg_Bucket\<close>); the queue it needs is a locale,
    interpreted for the circular array.
  \<^item> \<open>Reliable_Link\<close>: the reliable link protocol, \<open>reliable_datagram.c\<close>, with the handlers that feed it;
    \<open>Reliable_Window\<close>, \<open>Reliable_Resend\<close>, \<open>Reliable_Receive\<close>: what each operation keeps of the sending and
    the receiving window; \<open>Reliable_System\<close>: two ends and an unreliable network as a step relation, with
    its invariant; \<open>Reliable_Delivery\<close>: what the link promises.
  \<^item> \<open>Udp_Link\<close>: \<open>udp.c\<close>. \<open>Realtime\<close>: \<open>realtime_udp.c\<close>; the theories \<open>Realtime_\<close>... show what the history of the sender and
    the window of the receiver keep, and \<open>Realtime_System\<close> puts two ends and a network together.
  \<^item> \<open>Net_State\<close>: the state behind the links (\<open>network.h\<close>, \<open>link.h\<close>): interfaces, the array of links, control data, and the
    configuration. \<open>Links\<close>: \<open>Create_Link\<close> and \<open>Destroy_Link\<close> of \<open>link.c\<close>. \<open>Legs\<close>: interfaces, legs and their costs,
    \<open>network.c\<close>. \<open>Hello\<close>: \<open>hello.c\<close> and the dispatch of its packets in \<open>protocol.c\<close>. \<open>Net_Inv\<close> states the well-formedness
    of this state, and \<open>res_post A Q r\<close>: the computation \<open>r\<close> fails only in a way that is in \<open>A\<close>, and otherwise gives a
    result with \<open>Q\<close>. \<open>Links_Inv\<close>, \<open>Legs_Inv\<close> and \<open>Hello_Inv\<close> give each operation such a statement; while a leg is
    rebuilt, the invariant exempts it. \<open>Hello_System\<close> is the daemon as a step relation in which packets arrive, timers fire
    in the order of the queue, cells of the link state are processed and the rest of the daemon makes any step that keeps
    the edges of the node (\<open>rest_step\<close>); \<open>Hello_Props\<close> holds the properties.
  \<^item> \<open>Configuration\<close>: the hosts and edges of a configuration file (\<open>configuration.c\<close>) and the nodes, edges and indices that
    \<open>Init_Nodes\<close> makes of them. \<open>Multipath\<close>: \<open>multipath.c\<close>, the flow network, the paths, the masks and their cache.
    \<open>Bellman_Ford\<close>: the rounds end with distances that are a potential; a potential of the network before the rounds takes
    the place of the absence of negative cycles and bounds the distances, which therefore do not wrap. \<open>Flow\<close>,
    \<open>Flow_Paths\<close>, \<open>Flow_Loop\<close>: a path that is found moves one unit of flow, whatever edges it takes back; \<open>Flow_Cuts\<close>: what
    a flow says about failures and about disjoint paths. \<open>Multipath_Net\<close>, \<open>Multipath_Costs\<close>: the network and the costs that
    the code gives it are of this kind; \<open>Multipath_Correct\<close>: what \<open>MultiPath_Compute\<close> returns. \<open>Conf_Start\<close>,
    \<open>Conf_Network\<close>: a configuration is consistent and its network is built; \<open>Multipath_Props\<close> holds the properties.
  \<^item> \<open>Demo\<close>: concrete daemons for the witnesses.

  \<^bold>\<open>State and errors.\<close> A struct is a record, a table a list of entries in the order of iteration, a pointer
  into a table the key of its entry. Every operation returns the new state; one that may stop the
  daemon returns \<open>Inl\<close> with the reason. Sent packets, calls of the operating system and of components
  that are not modelled are recorded in the state or are parameters with named assumptions. Integers
  that wrap are words; \<open>float\<close> and \<open>double\<close> values are rational numbers with the rounding as a parameter.

  \<^bold>\<open>Loops.\<close> Loops over tables and windows recurse over the list or the number of turns that the loop
  condition allows. Three loops may run for ever and are \<open>partial_function (option)\<close>s: the one over the gap in
  \<open>Check_Link_Loss\<close>, which returns for the numbers a correct sender uses and does not for others, the one in
  \<open>Create_Link\<close> that draws random numbers until one is not zero, and the one of \<open>MultiPath_Compute\<close> that follows a path
  back, which always returns; where they do not return, the failure is \<open>LOOPS\<close>.

  \<^bold>\<open>What is shown.\<close> Unicast packets follow shortest paths once the daemons agree; \<open>Set_Routes\<close> computes best
  routes; flooding brings a neighbor up to date, loses no change, never sets a state back, and handles
  packets of either byte order without failing; a reliable link hands every message on at most once,
  forgets nothing that has not arrived, sends again what is not acknowledged, and its handlers never
  fail, whatever the network does; packets live at most as many hops as their time to live. The links of a daemon stay
  well-formed whatever the hello protocol receives, so its timers never meet a link that is gone; a silent neighbor is
  given up; the masks for source-based routing reach their destination although all but one of the paths found are cut by
  failed nodes, and fewer paths than asked for are found only if there are no more; the ways in which a packet can end the daemon are listed, and some are shown to happen. A realtime link hands
  up a packet at most once and bounds its retransmissions; a rate limited leg sends in order and within its rate; hash
  tables and circular arrays refine multimaps and lists.

  \<^bold>\<open>Not modelled.\<close> Socket input and output, the command line, the parser and the keys of the configuration, printing
  and statistics; the sessions with clients; the computation of the dissemination graphs, whose masks are read as given; the flooding protocols and the link with intrusion tolerance, whose logic is
  bound up with OpenSSL; \<open>State_Garbage_Collect\<close>, whose timer is commented out in \<open>network.c\<close>. Of the hello protocol,
  the pings to the multicast addresses of wireless networks; of the links, the data of the intrusion-tolerant one. In the
  state of \<open>Hello_System\<close> the timers of reliable links that run for a link that is gone (the code guards them with flags)
  and the rate limit of the legs are left to the theories of these parts.
\<close>

section \<open>Routing and forwarding\<close>

text \<open>C1: In a network whose daemons hold the same nodes and the same edge costs, once every daemon has
  run \<open>Set_Routes\<close>, a unicast packet goes hop by hop along one shortest path: the daemons it visits
  are the first \<open>ttl\<close> nodes of the path, and it is delivered at the end of the path exactly if the
  time to live covers the path.\<close>

theorem unicast_follows_shortest_path:
  assumes "synchronized db ids ec" "sorted_wrt (\<lambda>a b. Node_ID_cmp a b \<le> 0) ids" "distinct ids"
    and "s \<in> set ids" "t \<in> set ids" "path_from_to ec s t q"
    and "is_unicast pk" "udp_source (hdr pk) = s" "udp_dest (hdr pk) = t" "data_link mode" "ttl (hdr pk) \<noteq> 0"
  shows "\<exists>p. shortest_path ec s t p \<and>
    travel low (routed sr db) mode (unat (ttl (hdr pk))) pk s =
      (take (unat (ttl (hdr pk))) p, length p \<le> unat (ttl (hdr pk)))"
proof -
  note conv = routed_converged [OF assms(1-3), of sr]
  obtain p where p: "chosen_path ids ec s t = Some p" "shortest_path ec s t p"
    using converged_path [OF conv assms(4,5)] assms(6) by (cases "chosen_path ids ec s t") auto
  then have "p \<noteq> []" "p ! 0 = s" by (auto simp: shortest_path_def path_from_to_def, metis hd_conv_nth is_walk.simps(1))
  with travel_path [OF conv assms(4,5) p(1) assms(7-10), of 0 "unat (ttl (hdr pk))" low] assms(11) p(2)
  show ?thesis by auto
qed

theorem unicast_follows_shortest_path_witness:
  "\<exists>p. shortest_path demo_cost 1 2 p \<and>
    travel demo_low (routed (\<lambda>_. demo_sr) demo_network) UDP_LINK 5 demo_data 1 = (take 5 p, length p \<le> 5)"
proof -
  have "path_from_to demo_cost 1 2 [1, 2]" by (simp add: path_from_to_def demo_cost_def)
  moreover have "sorted_wrt (\<lambda>a b. Node_ID_cmp a b \<le> 0) [1, 2 :: Node_ID]" by (simp add: Node_ID_cmp_def)
  ultimately have "\<exists>p. shortest_path demo_cost 1 2 p \<and>
      travel demo_low (routed (\<lambda>_. demo_sr) demo_network) UDP_LINK (unat (ttl (hdr demo_data))) demo_data 1 =
        (take (unat (ttl (hdr demo_data))) p, length p \<le> unat (ttl (hdr demo_data)))"
    by (intro unicast_follows_shortest_path [OF demo_synchronized])
      (simp_all add: demo_data_unicast, simp_all add: demo_data_def data_link_def)
  then show ?thesis by (simp add: demo_data_def)
qed

text \<open>C2: \<open>Set_Routes\<close> returns, keeps the invariant of the tables, leaves no route computation scheduled,
  and installs a regime in which every lookup gives the best route: if there is a path over live
  edges, the cost and number of hops of a shortest one and, as forwarder, the node behind the local
  one on it; otherwise the entry without a route.\<close>

theorem Set_Routes_installs_best_routes:
  assumes "tables_ok d" "neighbors_ok d" "queue_ok (Time_queue d)" "no_self_edges d"
  shows "\<exists>d'. Set_Routes d = Inr d' \<and> tables_ok d' \<and> \<not> E_in_queue Set_Routes_ev 0 None (Time_queue d') \<and>
    (\<forall>s \<in> set (All_Nodes_by_ID d). \<forall>t \<in> set (All_Nodes_by_ID d). \<exists>r.
       Find_Route d' s t = Inr (Some r) \<and> best_route (My_Address d) (edge_cost (All_Edges d)) s t r)"
  using Set_Routes_best [OF assms] .

theorem Set_Routes_installs_best_routes_witness:
  "\<exists>d' r. Set_Routes (demo 1 2) = Inr d' \<and> Find_Route d' 1 2 = Inr (Some r) \<and>
     best_route (My_Address (demo 1 2)) (edge_cost (All_Edges (demo 1 2))) 1 2 r"
proof -
  have "1 \<in> set (All_Nodes_by_ID (demo 1 2))" "2 \<in> set (All_Nodes_by_ID (demo 1 2))" by (simp_all add: demo_def)
  with Set_Routes_installs_best_routes [OF demo_tables(1) demo_neighbors(1) demo_queue demo_no_self(1)]
  show ?thesis by blast
qed

text \<open>C21: In any network, whatever the daemons believe about the topology, a unicast packet visits at
  most as many daemons as its time to live says; so no routing loop lasts.\<close>

theorem unicast_hops_bounded:
  assumes "is_unicast pk"
  shows "length (fst (travel low net mode fuel pk v)) \<le> max 1 (unat (ttl (hdr pk)))"
  using travel_bounded [OF assms] .

theorem unicast_hops_bounded_witness:
  "length (fst (travel demo_low (routed (\<lambda>_. demo_sr) demo_network) UDP_LINK 100 demo_data 1)) \<le> 5"
  using unicast_hops_bounded [OF demo_data_unicast, of demo_low "routed (\<lambda>_. demo_sr) demo_network" UDP_LINK 100 1]
  by (simp add: demo_data_def)



text \<open>C20: The neighbors a source-based packet is forwarded to are configured neighbors whose bit is in
  the packet's routing mask; never the neighbor it came from, its source or this node, and nobody
  if this node is the destination.\<close>

theorem source_based_targets:
  assumes "Source_Based_Disseminate low src pk mode (sr, d) = Inr (ret, pk', sr', d')"
  shows "\<exists>cs. calls d' = calls d @ cs \<and> (\<forall>(n, h) \<in> set (forwards cs).
    n \<noteq> (case src of None \<Rightarrow> My_Address d | Some r \<Rightarrow> r) \<and> n \<noteq> udp_source (hdr pk) \<and> n \<noteq> My_Address d \<and>
    udp_dest (hdr pk) \<noteq> My_Address d \<and>
    (\<exists>i \<in> {1..length (My_Neighbor_Addrs sr)}. n = My_Neighbor_Addrs sr ! (i - 1) \<and>
       MultiPath_Neighbor_On_Path sr (routing_mask pk) i))"
  using Source_Based_targets [OF assms] .

theorem source_based_targets_witness:
  "\<exists>pk' sr' d' cs. Source_Based_Disseminate demo_low None demo_data UDP_LINK (demo_sr, demo 1 2) =
       Inr (BUFF_OK, pk', sr', d') \<and> calls d' = calls (demo 1 2) @ cs \<and>
     (\<forall>(n, h) \<in> set (forwards cs). n \<noteq> udp_source (hdr demo_data))"
proof -
  obtain pk' sr' d' where run: "Source_Based_Disseminate demo_low None demo_data UDP_LINK (demo_sr, demo 1 2) =
      Inr (BUFF_OK, pk', sr', d')"
    using demo_source_based by blast
  show ?thesis using source_based_targets [OF run] run by fast
qed

section \<open>Replication of states\<close>





text \<open>C7: What a packet teaches a daemon is passed on: every state version that is known after the packet
  and was not known before is in the buffer of changes, marked for no neighbor other than the
  sender; and when the flooding timer was in the event queue for every buffer that is not empty, it
  still is.\<close>

theorem news_are_passed_on:
  assumes "tables_ok d" "neighbor d (lk_sender lk) k"
    and "connected lk" "process_ack \<noteq> - 1" "process_ack \<noteq> 0"
    and "packet_prot d type = Some p" "Process_state_packet lk items type process_ack d = Inr (lk', d')"
    and "scheduled d"
  shows "scheduled d' \<and> (knows p d' s t stamp \<longrightarrow> knows p d s t stamp \<or> pending p k d' s t)"
  using Process_state_packet_prot(1,3) [OF assms(1-7)] assms(8) unfolding progress_def news_pending_def by blast

theorem news_are_passed_on_witness:
  "\<exists>lk' d'. Process_state_packet demo_lk demo_items demo_type 1 demo_running = Inr (lk', d') \<and> scheduled d' \<and>
    (knows Edge_Prot_Def d' 2 1 (150, 0) \<longrightarrow>
     knows Edge_Prot_Def demo_running 2 1 (150, 0) \<or> pending Edge_Prot_Def 0 d' 2 1)"
proof -
  have lk: "lk_sender demo_lk = 2" "connected demo_lk" by (simp_all add: demo_lk_def)
  obtain lk' d' where run: "Process_state_packet demo_lk demo_items demo_type 1 demo_running = Inr (lk', d')"
    using Process_state_packet_total [of demo_running demo_lk 0 1, OF demo_running_tables _ _ _ _ _ demo_packet]
      demo_running_ready demo_running_neighbor lk by auto
  from news_are_passed_on [OF demo_running_tables _ lk(2) _ _ demo_packet(1) run demo_running_scheduled, of 0 2 1 "(150, 0)"]
    demo_running_neighbor lk(1) run
  show ?thesis by auto
qed



text \<open>C14: Sending everything to a new neighbor sends the cells of all states, each once, in the order of
  the tables; every packet fits behind its header with the reliable tail (\<open>1444\<close> bytes), its length is
  the sum of its parts, and its headers announce exactly the cells behind them.\<close>

theorem all_states_are_sent:
  assumes "table_ok (All_States p d)" "control_link_connected d linkid"
  shows "\<exists>ms. Net_Send_State_All linkid p d =
      Inr (d\<lparr>calls := calls d @ map (\<lambda>b. Reliable_Send_Msg linkid b (wire_bytes p b) (State_type p)) ms\<rparr>) \<and>
    (\<forall>b \<in> set ms. sent_ok b \<and> wire_bytes p b \<le> 1452 - 8) \<and>
    concat (map sent_cells ms) = map (\<lambda>s. (source_addr s, make_cell p (wall_clock d) s)) (all_states (All_States p d)) \<and>
    distinct (map state_key (all_states (All_States p d)))"
  using Net_Send_State_All_sends [OF assms] distinct_all_states [OF assms(1)]
  by (auto simp: emits_def state_msg_def msg_ok_def room_def cell_of_def cong: map_cong)

theorem all_states_are_sent_witness:
  "\<exists>ms. Net_Send_State_All 7 Edge_Prot_Def (demo 1 2) =
      Inr ((demo 1 2)\<lparr>calls := calls (demo 1 2) @ map (\<lambda>b. Reliable_Send_Msg 7 b (wire_bytes Edge_Prot_Def b) LINK_STATE_TYPE) ms\<rparr>) \<and>
    length (concat (map sent_cells ms)) = 2"
proof -
  have "table_ok (All_States Edge_Prot_Def (demo 1 2))" using tables_okD(2) [OF demo_tables(1)] .
  moreover have "control_link_connected (demo 1 2) 7" by code_simp
  moreover have "length (all_states (All_States Edge_Prot_Def (demo 1 2))) = 2" by code_simp
  ultimately show ?thesis using all_states_are_sent [of Edge_Prot_Def "demo 1 2" 7]
    by (auto simp: Edge_State_type_def)
qed



text \<open>A packet that holds nothing new changes no state and no node, puts nothing into the buffers of
  changes, schedules nothing and sends nothing.\<close>

theorem known_packet_changes_nothing:
  assumes "packet_prot d type = Some p" "process_payload sender items type d = Inr d'"
    and "\<forall>(source, c) \<in> set (packet_cells p (ARCH_ENDIAN d) type items). knows p d source (dest c) (cell_ts c)"
  shows "same_nodes d d' \<and> (\<forall>q. All_States q d' = All_States q d \<and>
     map (\<lambda>(k, cg). (k, state cg)) (Changed_States q d') = map (\<lambda>(k, cg). (k, state cg)) (Changed_States q d)) \<and>
     Time_queue d' = Time_queue d \<and> calls d' = calls d"
  using process_payload_known [OF assms] unfolding unmoved_def .

theorem known_packet_changes_nothing_witness:
  "\<exists>d'. process_payload 2 [Hdr \<lparr>pkt_source = 2, num_cells = 1, src_data = 0\<rparr>,
     Cell \<lparr>dest = 1, cell_sec = 100, cell_usec = 0, cell_value = 20, cell_age = 0, cell_lts = 2\<rparr>] demo_type demo_running = Inr d' \<and>
    Time_queue d' = Time_queue demo_running"
proof -
  let ?items = "[Hdr \<lparr>pkt_source = 2, num_cells = 1, src_data = 0\<rparr>,
     Cell \<lparr>dest = 1, cell_sec = 100, cell_usec = 0, cell_value = 20, cell_age = 0, cell_lts = 2\<rparr>] :: wire list"
  have "packet_ok Edge_Prot_Def (ARCH_ENDIAN demo_running) demo_type ?items" by code_simp
  then obtain d' where run: "process_payload 2 ?items demo_type demo_running = Inr d'"
    using process_payload_total [OF demo_running_tables demo_running_ready demo_running_neighbor demo_packet(1)] by blast
  have "map (\<lambda>(s, c). (s, dest c, cell_ts c)) (packet_cells Edge_Prot_Def (ARCH_ENDIAN demo_running) demo_type ?items) =
      [(2, 1, (100, 0))]" by code_simp
  moreover have "Find_State (All_States Edge_Prot_Def demo_running) 2 1 = Some (demo_edge 2 1 None)"
    "ts (demo_edge 2 1 None) = (100, 0)" by code_simp+
  then have "knows Edge_Prot_Def demo_running 2 1 (100, 0)" by (auto simp: knows_def)
  ultimately have "\<forall>(source, c) \<in> set (packet_cells Edge_Prot_Def (ARCH_ENDIAN demo_running) demo_type ?items).
      knows Edge_Prot_Def demo_running source (dest c) (cell_ts c)" by auto
  from known_packet_changes_nothing [OF demo_packet(1) run this] run show ?thesis by blast
qed



end
